(* ===== verification/Kernel_Prelude.thy ===== *)
theory Kernel_Prelude
  imports Main "HOL-Library.AList" "HOL-Library.Word"
begin

unbundle bit_operations_syntax

section \<open>Prelude: shared types, JavaScript maps, generic lemmas, shared contracts\<close>

text \<open>
  This theory holds what the component theories share: the names of the model's base types, the
  error codes of \<^verbatim>\<open>kernel/types.ts\<close>, the model of a JavaScript \<^verbatim>\<open>Map\<close> as an association list in
  insertion order, the search loop for a free key, and the two contracts several components
  promise (fresh identifiers, and invariants lifted to runs) as locales.

  A JavaScript \<^verbatim>\<open>Map\<close> iterates in insertion order; \<^verbatim>\<open>set\<close> on a present key keeps its position and on
  an absent key appends. \<^const>\<open>AList.update\<close> and \<^const>\<open>AList.delete\<close> of the library do exactly
  that, so a \<^verbatim>\<open>Map\<close> is a list of pairs with distinct keys, \<^verbatim>\<open>get\<close> is \<^const>\<open>map_of\<close>.
\<close>

named_theorems kernel_simps \<open>defining equations the component proofs unfold\<close>
named_theorems kernel_inv \<open>invariant preservation facts\<close>

subsection \<open>Base types\<close>

type_synonym byte = "8 word"
type_synonym bytes = "8 word list"
type_synonym u32 = "32 word"
type_synonym pid = int
type_synonym fdnum = nat
type_synonym path = string

text \<open>
  \<^verbatim>\<open>KernelErrorCode\<close>: the closed union of POSIX codes a \<^verbatim>\<open>KernelError\<close> carries. The message string
  of the error is for humans only and is not modelled.
\<close>

datatype KernelErrorCode =
    EACCES | EADDRINUSE | EAGAIN | EBADF | ECONNREFUSED | EINPROGRESS | EINTR | EEXIST | EINVAL
  | ELOOP | EIO | EISDIR | EMFILE | EMSGSIZE | ENOENT | ENOSPC | ENOSYS | ENOTCONN | ENOTEMPTY
  | ENOTDIR | EPERM | EPIPE | EROFS | ESPIPE | ESRCH | ETIMEDOUT | EXDEV

type_synonym 'a res = "KernelErrorCode + 'a"

definition is_ok :: "'e + 'a \<Rightarrow> bool" where
  "is_ok r = (case r of Inl _ \<Rightarrow> False | Inr _ \<Rightarrow> True)"

lemma is_ok_simps [simp]: "is_ok (Inr x)" "\<not> is_ok (Inl e)"
  by (simp_all add: is_ok_def)

subsection \<open>JavaScript maps\<close>

type_synonym ('k, 'v) jsmap = "('k \<times> 'v) list"

abbreviation mget :: "('k, 'v) jsmap \<Rightarrow> 'k \<Rightarrow> 'v option" where
  "mget m k \<equiv> map_of m k"

abbreviation mput :: "'k \<Rightarrow> 'v \<Rightarrow> ('k, 'v) jsmap \<Rightarrow> ('k, 'v) jsmap" where
  "mput k v m \<equiv> AList.update k v m"

abbreviation mdel :: "'k \<Rightarrow> ('k, 'v) jsmap \<Rightarrow> ('k, 'v) jsmap" where
  "mdel k m \<equiv> AList.delete k m"

abbreviation mkeys :: "('k, 'v) jsmap \<Rightarrow> 'k list" where
  "mkeys m \<equiv> map fst m"

abbreviation mwf :: "('k, 'v) jsmap \<Rightarrow> bool" where
  "mwf m \<equiv> distinct (map fst m)"

definition mhas :: "('k, 'v) jsmap \<Rightarrow> 'k \<Rightarrow> bool" where
  "mhas m k = (map_of m k \<noteq> None)"

lemma mget_mput [simp]: "map_of (AList.update k v m) k' = (if k' = k then Some v else map_of m k')"
  by (simp add: update_conv')

lemma mget_mdel [simp]: "map_of (AList.delete k m) k' = (if k' = k then None else map_of m k')"
  by (simp add: delete_conv')

lemma mwf_mput [simp]: "mwf m \<Longrightarrow> mwf (AList.update k v m)"
  by (rule distinct_update)

lemma mwf_mdel [simp]: "mwf m \<Longrightarrow> mwf (AList.delete k m)"
  by (rule distinct_delete)

lemma mhas_iff_key: "mhas m k \<longleftrightarrow> k \<in> set (mkeys m)"
  by (auto simp: mhas_def map_of_eq_None_iff)

lemma mhas_simps [simp]:
  "mhas (AList.update k v m) k' \<longleftrightarrow> k' = k \<or> mhas m k'"
  "mhas (AList.delete k m) k' \<longleftrightarrow> k' \<noteq> k \<and> mhas m k'"
  "\<not> mhas [] k"
  by (auto simp: mhas_def)

lemma mput_fresh: "\<not> mhas m k \<Longrightarrow> AList.update k v m = m @ [(k, v)]"
  by (induction m) (auto simp: mhas_def split: if_splits)

lemma mdel_absent: "\<not> mhas m k \<Longrightarrow> AList.delete k m = m"
  by (induction m) (auto simp: mhas_def AList.delete_eq split: if_splits)

lemma length_mput: "length (AList.update k v m) = (if mhas m k then length m else Suc (length m))"
  by (induction m) (auto simp: mhas_def split: if_splits)

lemma length_mdel:
  "mwf m \<Longrightarrow> length (AList.delete k m) = (if mhas m k then length m - 1 else length m)"
proof (induction m)
  case Nil
  then show ?case by (simp add: mhas_def)
next
  case (Cons p m)
  then show ?case
    by (cases "fst p = k")
      (auto simp: mhas_iff_key AList.delete_eq length_greater_0_conv
        filter_id_conv [THEN iffD2] image_iff split: if_splits dest: length_pos_if_in_set)
qed


lemma map_fst_mdel_subset: "set (mkeys (AList.delete k m)) \<subseteq> set (mkeys m)"
  by (auto simp: AList.delete_eq)

subsection \<open>Decimal strings\<close>

text \<open>The string of a number in a template literal.\<close>

fun dec :: "nat \<Rightarrow> string" where
  "dec n = (if n < 10 then [char_of (48 + n)] else dec (n div 10) @ [char_of (48 + n mod 10)])"

declare dec.simps [simp del]

subsection \<open>Chunked byte buffers\<close>

text \<open>
  Pipes, PTYs and sockets keep received data as a list of chunks. Their drain routines all promise
  the same: a read of \<open>n\<close> takes the first \<open>n\<close> bytes of the stream (or all of it) and leaves the rest,
  and never leaves an empty chunk behind if there was none.
\<close>

locale chunk_reader =
  fixes drain :: "nat \<Rightarrow> 'b list list \<Rightarrow> 'b list \<times> 'b list list"
  assumes drain_fst: "fst (drain n buf) = take n (concat buf)"
    and drain_snd: "concat (snd (drain n buf)) = drop n (concat buf)"
    and drain_nonempty: "[] \<notin> set buf \<Longrightarrow> [] \<notin> set (snd (drain n buf))"
begin

fun read_sizes :: "nat list \<Rightarrow> 'b list list \<Rightarrow> 'b list list \<times> 'b list list" where
  "read_sizes [] buf = ([], buf)"
| "read_sizes (n # ns) buf =
     (let (x, buf1) = drain n buf; (xs, buf2) = read_sizes ns buf1 in (x # xs, buf2))"

lemma drain_stream: "fst (drain n buf) @ concat (snd (drain n buf)) = concat buf"
  by (simp add: drain_fst drain_snd)

lemma drain_length: "length (fst (drain n buf)) = min n (length (concat buf))"
  by (simp add: drain_fst)

lemma read_sizes_stream:
  "concat (fst (read_sizes ns buf)) @ concat (snd (read_sizes ns buf)) = concat buf"
proof (induction ns arbitrary: buf)
  case (Cons n ns)
  then show ?case using drain_stream [of n buf] by (simp add: Let_def case_prod_beta)
qed simp

lemma drain_progress:
  "[] \<notin> set buf \<Longrightarrow> buf \<noteq> [] \<Longrightarrow> 0 < n \<Longrightarrow> fst (drain n buf) \<noteq> []"
  by (cases buf) (auto simp: drain_fst)

lemma drain_empties: "[] \<notin> set buf \<Longrightarrow> length (concat buf) \<le> n \<Longrightarrow> snd (drain n buf) = []"
  using drain_snd [of n buf] drain_nonempty [of buf n] by (cases "snd (drain n buf)") auto

end

subsection \<open>Weighted sums over a map\<close>

text \<open>
  The total of a weight over the values of a map: how the reference-count invariant counts the
  descriptors that point at one object.
\<close>

definition wsum :: "('v \<Rightarrow> nat) \<Rightarrow> ('k, 'v) jsmap \<Rightarrow> nat" where
  "wsum f m = sum_list (map (\<lambda>p. f (snd p)) m)"

lemma wsum_Nil [simp]: "wsum f [] = 0"
  by (simp add: wsum_def)

lemma wsum_Cons [simp]: "wsum f (p # m) = f (snd p) + wsum f m"
  by (simp add: wsum_def)

lemma wsum_mput:
  "wsum f (AList.update k v m) + (case map_of m k of None \<Rightarrow> 0 | Some w \<Rightarrow> f w) = wsum f m + f v"
  by (induction m) (auto split: option.splits)

lemma wsum_mput_fresh: "\<not> mhas m k \<Longrightarrow> wsum f (AList.update k v m) = wsum f m + f v"
  using wsum_mput [of f k v m] by (simp add: mhas_def)

lemma wsum_mput_present:
  "map_of m k = Some w \<Longrightarrow> wsum f (AList.update k v m) + f w = wsum f m + f v"
  using wsum_mput [of f k v m] by simp

lemma wsum_mdel:
  "mwf m \<Longrightarrow> map_of m k = Some w \<Longrightarrow> wsum f (AList.delete k m) + f w = wsum f m"
proof (induction m)
  case Nil
  then show ?case by simp
next
  case (Cons p m)
  show ?case
  proof (cases "fst p = k")
    case True
    with Cons.prems have "AList.delete k m = m"
      by (intro mdel_absent) (auto simp: mhas_iff_key)
    with True Cons.prems show ?thesis by (cases p) (auto simp: AList.delete_eq)
  next
    case False
    with Cons show ?thesis by (cases p) (auto simp: AList.delete_eq)
  qed
qed

lemma wsum_zero: "(\<And>p. p \<in> set m \<Longrightarrow> f (snd p) = 0) \<Longrightarrow> wsum f m = 0"
  by (induction m) auto

lemma wsum_ge: "map_of m k = Some w \<Longrightarrow> f w \<le> wsum f m"
  by (induction m) (auto split: if_splits)

subsection \<open>The search loop for a free number\<close>

text \<open>
  \<^verbatim>\<open>while (this.entries.has(n)) n++\<close>, which the descriptor table runs in two places: the loop ends
  because the map holds finitely many keys.
\<close>

function skip_used :: "(nat, 'v) jsmap \<Rightarrow> nat \<Rightarrow> nat" where
  "skip_used m n = (if mhas m n then skip_used m (Suc n) else n)"
  by pat_completeness auto
termination
proof (relation "measure (\<lambda>(m, n). card {k \<in> set (mkeys m). n \<le> k})")
  fix m :: "(nat, 'v) jsmap" and n
  assume "mhas m n"
  then have "n \<in> {k \<in> set (mkeys m). n \<le> k}"
    by (simp add: mhas_iff_key)
  moreover have "{k \<in> set (mkeys m). Suc n \<le> k} \<subseteq> {k \<in> set (mkeys m). n \<le> k} - {n}"
    by auto
  ultimately have "card {k \<in> set (mkeys m). Suc n \<le> k} < card {k \<in> set (mkeys m). n \<le> k}"
    by (intro psubset_card_mono) auto
  then show "((m, Suc n), (m, n)) \<in> measure (\<lambda>(m, n). card {k \<in> set (mkeys m). n \<le> k})"
    by simp
qed simp

declare skip_used.simps [simp del]

lemma skip_used_free: "\<not> mhas m (skip_used m n)"
  by (induction m n rule: skip_used.induct) (subst skip_used.simps, simp)

lemma skip_used_ge: "n \<le> skip_used m n"
proof (induction m n rule: skip_used.induct)
  case (1 m n)
  then show ?case by (subst skip_used.simps) (cases "mhas m n"; simp)
qed

lemma skip_used_least: "n \<le> j \<Longrightarrow> j < skip_used m n \<Longrightarrow> mhas m j"
proof (induction m n rule: skip_used.induct)
  case (1 m n)
  show ?case
  proof (cases "mhas m n")
    case True
    then have "skip_used m n = skip_used m (Suc n)" by (subst skip_used.simps) simp
    with 1 True show ?thesis by (cases "j = n") auto
  next
    case False
    then have "skip_used m n = n" by (subst skip_used.simps) simp
    with 1 show ?thesis by simp
  qed
qed

lemma skip_used_idem: "\<not> mhas m n \<Longrightarrow> skip_used m n = n"
  by (subst skip_used.simps) simp

subsection \<open>Runs of operations\<close>

text \<open>
  A component's exported operations are a datatype of calls and one step function; a run performs
  a list of calls in order, and \<open>guarded\<close> says that every call of the run is made in a state where
  its precondition holds.
\<close>

fun run_ops :: "('op \<Rightarrow> 's \<Rightarrow> 's) \<Rightarrow> 'op list \<Rightarrow> 's \<Rightarrow> 's" where
  "run_ops step [] s = s"
| "run_ops step (x # xs) s = run_ops step xs (step x s)"

fun guarded :: "('op \<Rightarrow> 's \<Rightarrow> bool) \<Rightarrow> ('op \<Rightarrow> 's \<Rightarrow> 's) \<Rightarrow> 'op list \<Rightarrow> 's \<Rightarrow> bool" where
  "guarded g step [] s = True"
| "guarded g step (x # xs) s = (g x s \<and> guarded g step xs (step x s))"

lemma run_ops_append: "run_ops step (xs @ ys) s = run_ops step ys (run_ops step xs s)"
  by (induction xs arbitrary: s) auto

lemma guarded_True [simp]: "guarded (\<lambda>_ _. True) step xs s"
  by (induction xs arbitrary: s) auto

text \<open>The contract of a component that keeps an invariant, lifted to runs once and for all.\<close>

locale invariant_component =
  fixes step :: "'op \<Rightarrow> 's \<Rightarrow> 's"
    and guard :: "'op \<Rightarrow> 's \<Rightarrow> bool"
    and inv :: "'s \<Rightarrow> bool"
  assumes step_inv: "inv s \<Longrightarrow> guard x s \<Longrightarrow> inv (step x s)"
begin

lemma run_inv: "inv s \<Longrightarrow> guarded guard step xs s \<Longrightarrow> inv (run_ops step xs s)"
  by (induction xs arbitrary: s) (auto intro: step_inv)

lemma run_inv_prefix:
  "inv s \<Longrightarrow> guarded guard step (xs @ ys) s \<Longrightarrow> inv (run_ops step xs s)"
  by (induction xs arbitrary: s) (auto intro: step_inv)

end

subsection \<open>Data refinement\<close>

text \<open>
  Operations with replies: a run collects them. The contract of a component that refines a
  specification, lifted to runs: on related states both give the same reply and stay related.
\<close>

fun run_replies :: "('op \<Rightarrow> 's \<Rightarrow> 'r \<times> 's) \<Rightarrow> 'op list \<Rightarrow> 's \<Rightarrow> 'r list \<times> 's" where
  "run_replies step [] s = ([], s)"
| "run_replies step (x # xs) s =
     (let (r, s1) = step x s; (rs, s2) = run_replies step xs s1 in (r # rs, s2))"

locale data_refinement =
  fixes step :: "'op \<Rightarrow> 's \<Rightarrow> 'r \<times> 's"
    and spec :: "'op \<Rightarrow> 'a \<Rightarrow> 'r \<times> 'a"
    and abs :: "'s \<Rightarrow> 'a"
    and inv :: "'s \<Rightarrow> bool"
  assumes step_inv: "inv s \<Longrightarrow> inv (snd (step x s))"
    and step_reply: "inv s \<Longrightarrow> fst (step x s) = fst (spec x (abs s))"
    and step_abs: "inv s \<Longrightarrow> abs (snd (step x s)) = snd (spec x (abs s))"
begin

lemma run_refines:
  "inv s \<Longrightarrow> fst (run_replies step xs s) = fst (run_replies spec xs (abs s)) \<and>
     abs (snd (run_replies step xs s)) = snd (run_replies spec xs (abs s)) \<and> inv (snd (run_replies step xs s))"
proof (induction xs arbitrary: s)
  case (Cons x xs)
  then show ?case
    using Cons.IH [of "snd (step x s)"] step_inv [of s x] step_reply [of s x] step_abs [of s x]
    by (simp add: Let_def case_prod_beta)
qed simp

end

subsection \<open>Identifier allocators\<close>

text \<open>
  Every table of the kernel numbers its objects from a counter it increments (\<^verbatim>\<open>nextPid\<close>,
  \<^verbatim>\<open>nextDescriptionId\<close>, \<^verbatim>\<open>nextPipeId\<close>, \<^verbatim>\<open>nextTimerId\<close>, \<^verbatim>\<open>nextIno\<close>). The contract of such an allocator:
  the identifier it hands out was not handed out before, and nothing else becomes issued.
\<close>

locale id_allocator =
  fixes alloc :: "'s \<Rightarrow> 'i \<times> 's"
    and issued :: "'s \<Rightarrow> 'i \<Rightarrow> bool"
  assumes alloc_fresh: "\<not> issued s (fst (alloc s))"
    and issued_alloc: "issued (snd (alloc s)) i \<longleftrightarrow> i = fst (alloc s) \<or> issued s i"
begin

fun alloc_many :: "nat \<Rightarrow> 's \<Rightarrow> 'i list \<times> 's" where
  "alloc_many 0 s = ([], s)"
| "alloc_many (Suc n) s =
     (let (i, s1) = alloc s; (is, s2) = alloc_many n s1 in (i # is, s2))"

lemma alloc_many_not_issued: "i \<in> set (fst (alloc_many n s)) \<Longrightarrow> \<not> issued s i"
proof (induction n arbitrary: s)
  case 0
  then show ?case by simp
next
  case (Suc n)
  then show ?case
    using Suc.IH [of "snd (alloc s)"] by (auto simp: Let_def case_prod_beta alloc_fresh issued_alloc)
qed

theorem alloc_many_distinct: "distinct (fst (alloc_many n s))"
proof (induction n arbitrary: s)
  case 0
  then show ?case by simp
next
  case (Suc n)
  have "fst (alloc s) \<notin> set (fst (alloc_many n (snd (alloc s))))"
    using alloc_many_not_issued [of "fst (alloc s)" n "snd (alloc s)"] by (auto simp: issued_alloc)
  with Suc show ?case by (simp add: Let_def case_prod_beta)
qed

end

end
