(* ===== verification/Wstatus.thy ===== *)
theory Wstatus
  imports Kernel_Prelude
begin

section \<open>POSIX wait status\<close>

text \<open>
  \<^verbatim>\<open>kernel/wstatus.ts\<close>. JavaScript's bitwise operators convert their operands to 32-bit integers,
  so the functions take and return 32-bit words; \<open>>>\<close> is the arithmetic shift
  (\<^const>\<open>signed_drop_bit\<close>). An exit code that is any integer enters by \<^const>\<open>word_of_int\<close>, which is
  the conversion JavaScript performs.
\<close>

definition encodeExitStatus :: "u32 \<Rightarrow> u32" where
  "encodeExitStatus exitCode = push_bit 8 (exitCode AND 0xff)"

definition encodeSignalStatus :: "u32 \<Rightarrow> u32" where
  "encodeSignalStatus signal = signal AND 0x7f"

definition WIFEXITED :: "u32 \<Rightarrow> bool" where
  "WIFEXITED status \<longleftrightarrow> status AND 0x7f = 0"

definition WEXITSTATUS :: "u32 \<Rightarrow> u32" where
  "WEXITSTATUS status = signed_drop_bit 8 status AND 0xff"

definition WIFSIGNALED :: "u32 \<Rightarrow> bool" where
  "WIFSIGNALED status \<longleftrightarrow> status AND 0x7f \<noteq> 0"

definition WTERMSIG :: "u32 \<Rightarrow> u32" where
  "WTERMSIG status = status AND 0x7f"

lemmas wstatus_defs =
  encodeExitStatus_def encodeSignalStatus_def WIFEXITED_def WEXITSTATUS_def WIFSIGNALED_def
  WTERMSIG_def

lemma mask8: "(0xff :: u32) = mask 8" and mask7: "(0x7f :: u32) = mask 7"
  by (simp_all add: mask_eq_exp_minus_1)

lemma WEXITSTATUS_encode: "WEXITSTATUS (encodeExitStatus c) = c AND 0xff"
  unfolding wstatus_defs mask8
  by (rule bit_word_eqI) (auto simp: bit_simps)

lemma WIFEXITED_encode: "WIFEXITED (encodeExitStatus c)"
proof -
  have "encodeExitStatus c AND 0x7f = 0"
    unfolding wstatus_defs mask8 mask7
    by (rule bit_word_eqI) (auto simp: bit_simps)
  then show ?thesis by (simp add: WIFEXITED_def)
qed

lemma WTERMSIG_encode: "WTERMSIG (encodeSignalStatus g) = g AND 0x7f"
  by (simp add: wstatus_defs and.assoc)

lemma exited_xor_signaled: "WIFEXITED st \<longleftrightarrow> \<not> WIFSIGNALED st"
  by (simp add: wstatus_defs)

lemma encodeSignalStatus_nonzero: "g AND 0x7f \<noteq> 0 \<Longrightarrow> WIFSIGNALED (encodeSignalStatus g)"
  by (simp add: wstatus_defs and.assoc)

lemma wstatus_decode:
  fixes code sig :: int
  assumes "1 \<le> sig" "sig \<le> 127"
  shows "WIFEXITED (encodeExitStatus (word_of_int code)) \<and>
    uint (WEXITSTATUS (encodeExitStatus (word_of_int code))) = code mod 256 \<and>
    WIFSIGNALED (encodeSignalStatus (word_of_int sig)) \<and>
    uint (WTERMSIG (encodeSignalStatus (word_of_int sig))) = sig \<and>
    \<not> WIFSIGNALED (encodeExitStatus (word_of_int code)) \<and>
    \<not> WIFEXITED (encodeSignalStatus (word_of_int sig))"
proof -
  have low: "uint ((word_of_int x :: u32) AND mask n) = x mod 2 ^ n" if "n \<le> 32" for x n
    using that by (simp add: take_bit_eq_mask [symmetric] unsigned_take_bit_eq take_bit_eq_mod
        [symmetric] unsigned_of_int min_absorb1)
  have sig: "uint ((word_of_int sig :: u32) AND 0x7f) = sig"
    using low [of 7 sig] assms by (simp add: mask7)
  then have "(word_of_int sig :: u32) AND 0x7f \<noteq> 0" using assms by auto
  then have "WIFSIGNALED (encodeSignalStatus (word_of_int sig))"
    by (rule encodeSignalStatus_nonzero)
  then show ?thesis
    using sig low [of 8 code] exited_xor_signaled WIFEXITED_encode [of "word_of_int code"]
    by (simp add: WEXITSTATUS_encode WTERMSIG_encode mask8)
qed

text \<open>
  Round trip of the wait status: for every exit code (any integer JavaScript may pass) the
  encoding reads back as a normal exit with that code modulo 256; for every signal number from 1 to
  127 it reads back as death by that signal; no status is both.
\<close>

theorem wstatus_roundtrip:
  fixes code sig :: int
  assumes "1 \<le> sig" "sig \<le> 127"
  shows "WIFEXITED (encodeExitStatus (word_of_int code)) \<and>
    uint (WEXITSTATUS (encodeExitStatus (word_of_int code))) = code mod 256 \<and>
    WIFSIGNALED (encodeSignalStatus (word_of_int sig)) \<and>
    uint (WTERMSIG (encodeSignalStatus (word_of_int sig))) = sig \<and>
    \<not> WIFSIGNALED (encodeExitStatus (word_of_int code)) \<and>
    \<not> WIFEXITED (encodeSignalStatus (word_of_int sig))"
  using assms by (rule wstatus_decode)

theorem wstatus_roundtrip_witness:
  "uint (WEXITSTATUS (encodeExitStatus (word_of_int (- 1)))) = 255 \<and>
   uint (WTERMSIG (encodeSignalStatus (word_of_int 9))) = 9"
  using wstatus_roundtrip [of 9 "- 1"] by simp

end
