(* ===== verification/FD_Table.thy ===== *)
theory FD_Table
  imports Kernel_Prelude
begin

section \<open>File descriptor tables\<close>

text \<open>
  \<^verbatim>\<open>kernel/fd-table.ts\<close> and the descriptor types of \<^verbatim>\<open>kernel/types.ts\<close>. A \<^verbatim>\<open>FileDescription\<close> is a
  mutable object shared by every descriptor that was duplicated or inherited from the same open
  call, so it lives in an explicit store of objects (\<open>de_heap\<close>) and descriptors hold references.
  Descriptor numbers are natural numbers (callers pass unsigned 32-bit values).

  \<^item> \<open>FileDescription\<close>, \<open>FDEntry\<close>, \<open>ProcessFDTable\<close>, \<open>FDTableManager\<close>: the data;
  \<^item> \<open>fdt_\<dots>\<close>: the methods of \<^verbatim>\<open>ProcessFDTable\<close>; \<open>fm_\<dots>\<close>: the methods of \<^verbatim>\<open>FDTableManager\<close>;
  \<^item> \<open>fd_inv\<close>: every description's \<open>refCount\<close> is the number of descriptors that refer to it, over
    all processes; kept by every operation the kernel performs.
\<close>

subsection \<open>Data\<close>

type_synonym dref = nat

record FileDescription =
  desc_id :: nat
  desc_path :: path
  desc_cursor :: int
  desc_flags :: u32
  desc_refCount :: int
  desc_creationMode :: "u32 option"

record FDEntry =
  ent_fd :: fdnum
  ent_desc :: dref
  ent_rights :: int
  ent_filetype :: nat
  ent_cloexec :: bool

record FDStat =
  st_filetype :: nat
  st_flags :: u32
  st_rights :: int

definition O_RDONLY :: u32 where "O_RDONLY = 0"
definition O_WRONLY :: u32 where "O_WRONLY = 1"
definition O_RDWR :: u32 where "O_RDWR = 2"
definition O_CREAT :: u32 where "O_CREAT = 0x40"
definition O_EXCL :: u32 where "O_EXCL = 0x80"
definition O_TRUNC :: u32 where "O_TRUNC = 0x200"
definition O_APPEND :: u32 where "O_APPEND = 0x400"
definition O_NONBLOCK :: u32 where "O_NONBLOCK = 4"
definition O_CLOEXEC :: u32 where "O_CLOEXEC = 0x80000"

definition FILETYPE_CHARACTER_DEVICE :: nat where "FILETYPE_CHARACTER_DEVICE = 2"
definition FILETYPE_REGULAR_FILE :: nat where "FILETYPE_REGULAR_FILE = 4"
definition FILETYPE_PIPE :: nat where "FILETYPE_PIPE = 6"

definition MAX_FDS_PER_PROCESS :: nat where "MAX_FDS_PER_PROCESS = 256"

record ProcessFDTable =
  fdt_entries :: "(fdnum, FDEntry) jsmap"
  fdt_nextFd :: nat

text \<open>The store of description objects and the identifier counter of the manager's allocator.\<close>

record desc_env =
  de_heap :: "dref \<Rightarrow> FileDescription option"
  de_nextRef :: dref
  de_nextDescriptionId :: nat

record FDTableManager =
  fm_env :: desc_env
  fm_tables :: "(pid, ProcessFDTable) jsmap"

subsection \<open>The object store\<close>

definition newDesc :: "FileDescription \<Rightarrow> desc_env \<Rightarrow> dref \<times> desc_env" where
  "newDesc d env =
     (de_nextRef env,
      env\<lparr>de_heap := (de_heap env)(de_nextRef env \<mapsto> d), de_nextRef := Suc (de_nextRef env)\<rparr>)"

text \<open>\<^verbatim>\<open>description.refCount++\<close> and \<^verbatim>\<open>--\<close>.\<close>

definition addRef :: "int \<Rightarrow> dref \<Rightarrow> desc_env \<Rightarrow> desc_env" where
  "addRef n r env =
     env\<lparr>de_heap := (de_heap env)(r := map_option (\<lambda>d. d\<lparr>desc_refCount := desc_refCount d + n\<rparr>)
        (de_heap env r))\<rparr>"

definition allocDesc :: "path \<Rightarrow> u32 \<Rightarrow> desc_env \<Rightarrow> dref \<times> desc_env" where
  "allocDesc p flags env =
     newDesc \<lparr>desc_id = de_nextDescriptionId env, desc_path = p, desc_cursor = 0,
       desc_flags = flags, desc_refCount = 1, desc_creationMode = None\<rparr>
       (env\<lparr>de_nextDescriptionId := Suc (de_nextDescriptionId env)\<rparr>)"

subsection \<open>ProcessFDTable\<close>

definition fdt_new :: ProcessFDTable where
  "fdt_new = \<lparr>fdt_entries = [], fdt_nextFd = 3\<rparr>"

definition mkEntry :: "fdnum \<Rightarrow> dref \<Rightarrow> int \<Rightarrow> nat \<Rightarrow> bool \<Rightarrow> FDEntry" where
  "mkEntry fd r rights ft cl =
     \<lparr>ent_fd = fd, ent_desc = r, ent_rights = rights, ent_filetype = ft, ent_cloexec = cl\<rparr>"

definition fdt_set :: "FDEntry \<Rightarrow> ProcessFDTable \<Rightarrow> ProcessFDTable" where
  "fdt_set e t = t\<lparr>fdt_entries := mput (ent_fd e) e (fdt_entries t)\<rparr>"

definition fdt_initStdio :: "dref \<Rightarrow> dref \<Rightarrow> dref \<Rightarrow> ProcessFDTable \<Rightarrow> ProcessFDTable" where
  "fdt_initStdio stdinDesc stdoutDesc stderrDesc t =
     fdt_set (mkEntry 2 stderrDesc 0 FILETYPE_CHARACTER_DEVICE False)
      (fdt_set (mkEntry 1 stdoutDesc 0 FILETYPE_CHARACTER_DEVICE False)
        (fdt_set (mkEntry 0 stdinDesc 0 FILETYPE_CHARACTER_DEVICE False) t))"

definition fdt_initStdioWithTypes ::
  "dref \<times> nat \<Rightarrow> dref \<times> nat \<Rightarrow> dref \<times> nat \<Rightarrow> desc_env \<times> ProcessFDTable \<Rightarrow> desc_env \<times> ProcessFDTable"
where
  "fdt_initStdioWithTypes i out err = (\<lambda>(env, t).
     (addRef 1 (fst err) (addRef 1 (fst out) (addRef 1 (fst i) env)),
      fdt_set (mkEntry 2 (fst err) 0 (snd err) False)
       (fdt_set (mkEntry 1 (fst out) 0 (snd out) False)
         (fdt_set (mkEntry 0 (fst i) 0 (snd i) False) t))))"

definition fdt_allocateFd :: "ProcessFDTable \<Rightarrow> (fdnum \<times> ProcessFDTable) res" where
  "fdt_allocateFd t =
     (if length (fdt_entries t) \<ge> MAX_FDS_PER_PROCESS then Inl EMFILE
      else let fd = skip_used (fdt_entries t) (fdt_nextFd t) in Inr (fd, t\<lparr>fdt_nextFd := Suc fd\<rparr>))"

type_synonym fd_state = "desc_env \<times> ProcessFDTable"

definition fdt_open :: "path \<Rightarrow> u32 \<Rightarrow> nat option \<Rightarrow> fd_state \<Rightarrow> (fdnum \<times> fd_state) res" where
  "fdt_open p flags filetype = (\<lambda>(env, t).
     case fdt_allocateFd t of
       Inl e \<Rightarrow> Inl e
     | Inr (fd, t1) \<Rightarrow>
         let cloexec = (flags AND O_CLOEXEC \<noteq> 0);
             storedFlags = flags AND NOT O_CLOEXEC;
             (r, env1) = allocDesc p storedFlags env;
             ft = (case filetype of None \<Rightarrow> FILETYPE_REGULAR_FILE | Some n \<Rightarrow> n)
         in Inr (fd, env1, fdt_set (mkEntry fd r 0 ft cloexec) t1))"

definition fdt_openWith :: "dref \<Rightarrow> nat \<Rightarrow> fdnum option \<Rightarrow> fd_state \<Rightarrow> (fdnum \<times> fd_state) res" where
  "fdt_openWith r filetype targetFd = (\<lambda>(env, t).
     case (case targetFd of Some fd \<Rightarrow> Inr (fd, t) | None \<Rightarrow> fdt_allocateFd t) of
       Inl e \<Rightarrow> Inl e
     | Inr (fd, t1) \<Rightarrow> Inr (fd, addRef 1 r env, fdt_set (mkEntry fd r 0 filetype False) t1))"

definition fdt_get :: "ProcessFDTable \<Rightarrow> fdnum \<Rightarrow> FDEntry option" where
  "fdt_get t fd = mget (fdt_entries t) fd"

definition fdt_close :: "fdnum \<Rightarrow> fd_state \<Rightarrow> bool \<times> fd_state" where
  "fdt_close fd = (\<lambda>(env, t).
     case fdt_get t fd of
       None \<Rightarrow> (False, env, t)
     | Some e \<Rightarrow> (True, addRef (- 1) (ent_desc e) env, t\<lparr>fdt_entries := mdel fd (fdt_entries t)\<rparr>))"

definition fdt_dup :: "fdnum \<Rightarrow> fd_state \<Rightarrow> (fdnum \<times> fd_state) res" where
  "fdt_dup fd = (\<lambda>(env, t).
     case fdt_get t fd of
       None \<Rightarrow> Inl EBADF
     | Some e \<Rightarrow>
         (case fdt_allocateFd t of
            Inl err \<Rightarrow> Inl err
          | Inr (newFd, t1) \<Rightarrow>
              Inr (newFd, addRef 1 (ent_desc e) env,
                   fdt_set (mkEntry newFd (ent_desc e) (ent_rights e) (ent_filetype e) False) t1)))"

definition fdt_dupMinFd :: "fdnum \<Rightarrow> nat \<Rightarrow> fd_state \<Rightarrow> (fdnum \<times> fd_state) res" where
  "fdt_dupMinFd fd minFd = (\<lambda>(env, t).
     case fdt_get t fd of
       None \<Rightarrow> Inl EBADF
     | Some e \<Rightarrow>
         if length (fdt_entries t) \<ge> MAX_FDS_PER_PROCESS then Inl EMFILE
         else let newFd = skip_used (fdt_entries t) minFd
              in Inr (newFd, addRef 1 (ent_desc e) env,
                   fdt_set (mkEntry newFd (ent_desc e) (ent_rights e) (ent_filetype e) False) t))"

definition fdt_dup2 :: "fdnum \<Rightarrow> fdnum \<Rightarrow> fd_state \<Rightarrow> fd_state res" where
  "fdt_dup2 oldFd newFd = (\<lambda>(env, t).
     case fdt_get t oldFd of
       None \<Rightarrow> Inl EBADF
     | Some e \<Rightarrow>
         if oldFd = newFd then Inr (env, t)
         else let (env1, t1) = (if mhas (fdt_entries t) newFd then snd (fdt_close newFd (env, t))
                                else (env, t))
              in Inr (addRef 1 (ent_desc e) env1,
                   fdt_set (mkEntry newFd (ent_desc e) (ent_rights e) (ent_filetype e) False) t1))"

definition fdt_stat :: "fdnum \<Rightarrow> fd_state \<Rightarrow> FDStat res" where
  "fdt_stat fd = (\<lambda>(env, t).
     case fdt_get t fd of
       None \<Rightarrow> Inl EBADF
     | Some e \<Rightarrow>
         (case de_heap env (ent_desc e) of
            None \<Rightarrow> Inl EBADF
          | Some d \<Rightarrow> Inr \<lparr>st_filetype = ent_filetype e, st_flags = desc_flags d,
              st_rights = ent_rights e\<rparr>))"

text \<open>The loop of \<^verbatim>\<open>fork()\<close> over the parent's entries; the child table is its accumulator.\<close>

fun fork_entries :: "(fdnum, FDEntry) jsmap \<Rightarrow> fd_state \<Rightarrow> fd_state" where
  "fork_entries [] st = st"
| "fork_entries ((fd, e) # es) (env, child) =
     (if ent_cloexec e then fork_entries es (env, child)
      else fork_entries es
        (addRef 1 (ent_desc e) env,
         fdt_set (mkEntry fd (ent_desc e) (ent_rights e) (ent_filetype e) False) child))"

definition fdt_fork :: "fd_state \<Rightarrow> desc_env \<times> ProcessFDTable" where
  "fdt_fork = (\<lambda>(env, t).
     fork_entries (fdt_entries t) (env, fdt_new\<lparr>fdt_nextFd := fdt_nextFd t\<rparr>))"

definition fdt_closeAll :: "fd_state \<Rightarrow> fd_state" where
  "fdt_closeAll = (\<lambda>(env, t). fold (\<lambda>fd st. snd (fdt_close fd st)) (mkeys (fdt_entries t)) (env, t))"

subsection \<open>FDTableManager\<close>

definition fm_new :: FDTableManager where
  "fm_new = \<lparr>fm_env = \<lparr>de_heap = (\<lambda>_. None), de_nextRef = 0, de_nextDescriptionId = 1\<rparr>,
     fm_tables = []\<rparr>"

definition fm_create :: "pid \<Rightarrow> FDTableManager \<Rightarrow> FDTableManager" where
  "fm_create pid m =
     (let (r0, env0) = allocDesc ''/dev/stdin'' O_RDONLY (fm_env m);
          (r1, env1) = allocDesc ''/dev/stdout'' O_WRONLY env0;
          (r2, env2) = allocDesc ''/dev/stderr'' O_WRONLY env1
      in m\<lparr>fm_env := env2, fm_tables := mput pid (fdt_initStdio r0 r1 r2 fdt_new) (fm_tables m)\<rparr>)"

text \<open>A stdio override is a description reference with its file type; \<open>None\<close> is \<^verbatim>\<open>null\<close>.\<close>

definition stdioDesc :: "(dref \<times> nat) option \<Rightarrow> path \<Rightarrow> u32 \<Rightarrow> desc_env \<Rightarrow> (dref \<times> nat) \<times> desc_env"
where
  "stdioDesc ov p flags env =
     (case ov of
        Some (r, ft) \<Rightarrow> ((r, ft), env)
      | None \<Rightarrow> let (r, env1) = allocDesc p flags env in ((r, FILETYPE_CHARACTER_DEVICE), env1))"

definition fm_createWithStdio ::
  "pid \<Rightarrow> (dref \<times> nat) option \<Rightarrow> (dref \<times> nat) option \<Rightarrow> (dref \<times> nat) option \<Rightarrow> FDTableManager \<Rightarrow> FDTableManager"
where
  "fm_createWithStdio pid stdinOverride stdoutOverride stderrOverride m =
     (let (i, env0) = stdioDesc stdinOverride ''/dev/stdin'' O_RDONLY (fm_env m);
          (out, env1) = stdioDesc stdoutOverride ''/dev/stdout'' O_WRONLY env0;
          (err, env2) = stdioDesc stderrOverride ''/dev/stderr'' O_WRONLY env1;
          (env3, t) = fdt_initStdioWithTypes i out err (env2, fdt_new)
      in m\<lparr>fm_env := env3, fm_tables := mput pid t (fm_tables m)\<rparr>)"

definition fm_fork :: "pid \<Rightarrow> pid \<Rightarrow> FDTableManager \<Rightarrow> FDTableManager" where
  "fm_fork parentPid childPid m =
     (case mget (fm_tables m) parentPid of
        None \<Rightarrow> fm_create childPid m
      | Some t \<Rightarrow>
          let (env1, child) = fdt_fork (fm_env m, t)
          in m\<lparr>fm_env := env1, fm_tables := mput childPid child (fm_tables m)\<rparr>)"

definition fm_remove :: "pid \<Rightarrow> FDTableManager \<Rightarrow> FDTableManager" where
  "fm_remove pid m =
     (case mget (fm_tables m) pid of
        None \<Rightarrow> m
      | Some t \<Rightarrow> m\<lparr>fm_env := fst (fdt_closeAll (fm_env m, t)), fm_tables := mdel pid (fm_tables m)\<rparr>)"

definition fm_get :: "pid \<Rightarrow> FDTableManager \<Rightarrow> ProcessFDTable option" where
  "fm_get pid m = mget (fm_tables m) pid"

text \<open>
  \<^verbatim>\<open>getTable(pid)\<close> of the kernel followed by a method call on the table, which mutates the table
  object the manager holds and the shared descriptions.
\<close>

definition fm_with_table ::
  "pid \<Rightarrow> (fd_state \<Rightarrow> ('r \<times> fd_state) res) \<Rightarrow> FDTableManager \<Rightarrow> ('r \<times> FDTableManager) res" where
  "fm_with_table pid f m =
     (case mget (fm_tables m) pid of
        None \<Rightarrow> Inl ESRCH
      | Some t \<Rightarrow>
          (case f (fm_env m, t) of
             Inl e \<Rightarrow> Inl e
           | Inr (r, env1, t1) \<Rightarrow>
               Inr (r, m\<lparr>fm_env := env1, fm_tables := mput pid t1 (fm_tables m)\<rparr>)))"


subsection \<open>The reference-count invariant\<close>

text \<open>
  \<open>fd_refs\<close> counts, over all processes, the descriptors that refer to an object; \<open>rc\<close> is the count
  the object records.
\<close>

definition entry_refs :: "ProcessFDTable \<Rightarrow> dref \<Rightarrow> nat" where
  "entry_refs t r = wsum (\<lambda>e. if ent_desc e = r then 1 else 0) (fdt_entries t)"

definition fd_refs :: "FDTableManager \<Rightarrow> dref \<Rightarrow> nat" where
  "fd_refs m r = wsum (\<lambda>t. entry_refs t r) (fm_tables m)"

definition rc :: "desc_env \<Rightarrow> dref \<Rightarrow> int" where
  "rc env r = (case de_heap env r of None \<Rightarrow> 0 | Some d \<Rightarrow> desc_refCount d)"

definition env_ok :: "desc_env \<Rightarrow> bool" where
  "env_ok env \<longleftrightarrow> (\<forall>r. de_heap env r = None \<longleftrightarrow> de_nextRef env \<le> r)"

definition table_ok :: "desc_env \<Rightarrow> ProcessFDTable \<Rightarrow> bool" where
  "table_ok env t \<longleftrightarrow> mwf (fdt_entries t) \<and>
     (\<forall>fd e. mget (fdt_entries t) fd = Some e \<longrightarrow> ent_fd e = fd \<and> ent_desc e < de_nextRef env)"

definition fd_inv :: "FDTableManager \<Rightarrow> bool" where
  "fd_inv m \<longleftrightarrow> mwf (fm_tables m) \<and> env_ok (fm_env m) \<and>
     (\<forall>p t. mget (fm_tables m) p = Some t \<longrightarrow> table_ok (fm_env m) t) \<and>
     (\<forall>r. rc (fm_env m) r = int (fd_refs m r))"

text \<open>What a table operation may do to the store and to the table it runs on.\<close>

definition fd_step_ok :: "fd_state \<Rightarrow> fd_state \<Rightarrow> bool" where
  "fd_step_ok st st' \<longleftrightarrow>
     env_ok (fst st') \<and> table_ok (fst st') (snd st') \<and> de_nextRef (fst st) \<le> de_nextRef (fst st') \<and>
     (\<forall>r. rc (fst st') r - int (entry_refs (snd st') r) = rc (fst st) r - int (entry_refs (snd st) r))"

lemma env_ok_Some: "env_ok env \<Longrightarrow> r < de_nextRef env \<Longrightarrow> \<exists>d. de_heap env r = Some d"
  by (simp add: env_ok_def flip: not_None_eq)

lemma rc_addRef [simp]:
  "env_ok env \<Longrightarrow> r < de_nextRef env \<Longrightarrow> rc (addRef n r env) r' = rc env r' + (if r' = r then n else 0)"
  using env_ok_Some [of env r] by (auto simp: rc_def addRef_def)

lemma env_ok_addRef [simp]: "env_ok (addRef n r env) = env_ok env"
  by (auto simp: env_ok_def addRef_def)

lemma nextRef_addRef [simp]: "de_nextRef (addRef n r env) = de_nextRef env"
  by (simp add: addRef_def)

lemma allocDesc_facts:
  assumes "env_ok env" and "allocDesc p fl env = (r, env')"
  shows "env_ok env'" "r < de_nextRef env'" "de_nextRef env' = Suc (de_nextRef env)"
    "rc env' r' = rc env r' + (if r' = r then 1 else 0)" "r = de_nextRef env"
proof -
  from assms(2) have r: "r = de_nextRef env" and n: "de_nextRef env' = Suc (de_nextRef env)"
    and h: "de_heap env' = (de_heap env)(de_nextRef env \<mapsto> \<lparr>desc_id = de_nextDescriptionId env,
      desc_path = p, desc_cursor = 0, desc_flags = fl, desc_refCount = 1, desc_creationMode = None\<rparr>)"
    by (auto simp: allocDesc_def newDesc_def)
  have none: "de_heap env (de_nextRef env) = None" using assms(1) by (simp add: env_ok_def)
  show "r = de_nextRef env" by (rule r)
  show "de_nextRef env' = Suc (de_nextRef env)" by (rule n)
  show "r < de_nextRef env'" by (simp add: r n)
  have "de_heap env' x = None \<longleftrightarrow> Suc (de_nextRef env) \<le> x" for x
  proof (cases "x = de_nextRef env")
    case True
    then show ?thesis by (simp add: h)
  next
    case False
    then have "de_heap env' x = de_heap env x" by (simp add: h)
    moreover have "de_heap env x = None \<longleftrightarrow> de_nextRef env \<le> x"
      using assms(1) by (simp add: env_ok_def)
    ultimately show ?thesis using False by (auto simp: Suc_le_eq le_less)
  qed
  then show "env_ok env'" by (simp add: env_ok_def n)
  show "rc env' r' = rc env r' + (if r' = r then 1 else 0)" by (simp add: rc_def h r none)
qed

lemma table_ok_mono: "table_ok env t \<Longrightarrow> de_nextRef env \<le> de_nextRef env' \<Longrightarrow> table_ok env' t"
  by (fastforce simp: table_ok_def)

lemma table_ok_set [simp]:
  "table_ok env t \<Longrightarrow> ent_desc e < de_nextRef env \<Longrightarrow> table_ok env (fdt_set e t)"
  by (auto simp: table_ok_def fdt_set_def)

lemma entry_refs_set_fresh:
  "\<not> mhas (fdt_entries t) (ent_fd e) \<Longrightarrow>
   entry_refs (fdt_set e t) r = entry_refs t r + (if ent_desc e = r then 1 else 0)"
  by (simp add: entry_refs_def fdt_set_def wsum_mput_fresh)

lemma entry_refs_next [simp]:
  "entry_refs (t\<lparr>fdt_nextFd := n\<rparr>) r = entry_refs t r"
  "table_ok env (t\<lparr>fdt_nextFd := n\<rparr>) = table_ok env t"
  by (simp_all add: entry_refs_def table_ok_def)

lemma mkEntry_sel [simp]:
  "ent_fd (mkEntry fd r ri ft c) = fd" "ent_desc (mkEntry fd r ri ft c) = r"
  "ent_rights (mkEntry fd r ri ft c) = ri" "ent_filetype (mkEntry fd r ri ft c) = ft"
  "ent_cloexec (mkEntry fd r ri ft c) = c"
  by (simp_all add: mkEntry_def)

lemma fdt_set_sel [simp]:
  "fdt_entries (fdt_set e t) = mput (ent_fd e) e (fdt_entries t)"
  "fdt_nextFd (fdt_set e t) = fdt_nextFd t"
  by (simp_all add: fdt_set_def)

lemma table_ok_get: "table_ok env t \<Longrightarrow> fdt_get t fd = Some e \<Longrightarrow> ent_desc e < de_nextRef env"
  by (auto simp: table_ok_def fdt_get_def)

text \<open>Installing one more descriptor for an object, with its count incremented, is a good step.\<close>

lemma install_ok:
  assumes "env_ok env" "table_ok env t" "r < de_nextRef env" "\<not> mhas (fdt_entries t) fd"
  shows "fd_step_ok (env, t) (addRef 1 r env, fdt_set (mkEntry fd r ri ft c) t)"
proof -
  have "table_ok (addRef 1 r env) t"
    using assms(2) by (rule table_ok_mono) simp
  with assms show ?thesis
    by (simp add: fd_step_ok_def entry_refs_set_fresh)
qed

lemma fd_step_ok_trans: "fd_step_ok a b \<Longrightarrow> fd_step_ok b c \<Longrightarrow> fd_step_ok a c"
  by (auto simp: fd_step_ok_def)

lemma fd_step_ok_refl: "env_ok env \<Longrightarrow> table_ok env t \<Longrightarrow> fd_step_ok (env, t) (env, t)"
  by (simp add: fd_step_ok_def)

lemma fd_step_ok_next:
  "fd_step_ok (env, t\<lparr>fdt_nextFd := n\<rparr>) st' \<longleftrightarrow> fd_step_ok (env, t) st'"
  by (simp add: fd_step_ok_def)

lemma fdt_allocateFd_Inr:
  assumes "fdt_allocateFd t = Inr (fd, t1)"
  shows "t1 = t\<lparr>fdt_nextFd := Suc fd\<rparr>" "\<not> mhas (fdt_entries t) fd" "fdt_nextFd t \<le> fd"
    "length (fdt_entries t) < MAX_FDS_PER_PROCESS"
  using assms
  by (auto simp: fdt_allocateFd_def Let_def skip_used_free skip_used_ge split: if_splits)

lemma install_alloc_ok:
  assumes "fdt_allocateFd t = Inr (fd, t1)" "env_ok env" "table_ok env t" "r < de_nextRef env"
  shows "fd_step_ok (env, t) (addRef 1 r env, fdt_set (mkEntry fd r ri ft c) t1)"
proof -
  note a = fdt_allocateFd_Inr [OF assms(1)]
  have "fd_step_ok (env, t1) (addRef 1 r env, fdt_set (mkEntry fd r ri ft c) t1)"
    using assms a by (intro install_ok) auto
  then show ?thesis by (simp add: a fd_step_ok_next)
qed

lemma fdt_close_ok:
  assumes "env_ok env" "table_ok env t"
  shows "fd_step_ok (env, t) (snd (fdt_close fd (env, t)))"
proof (cases "fdt_get t fd")
  case None
  with assms show ?thesis by (simp add: fdt_close_def fd_step_ok_refl)
next
  case (Some e)
  have lt: "ent_desc e < de_nextRef env" using assms(2) Some by (rule table_ok_get)
  have m: "mwf (fdt_entries t)" and g: "mget (fdt_entries t) fd = Some e"
    using assms(2) Some by (auto simp: table_ok_def fdt_get_def)
  have *: "entry_refs t r = entry_refs (t\<lparr>fdt_entries := mdel fd (fdt_entries t)\<rparr>) r
      + (if ent_desc e = r then 1 else 0)" for r
    using wsum_mdel [OF m g, of "\<lambda>e. if ent_desc e = r then 1 else 0"] by (simp add: entry_refs_def)
  have refs: "int (entry_refs t r) =
      int (entry_refs (t\<lparr>fdt_entries := mdel fd (fdt_entries t)\<rparr>) r) + (if ent_desc e = r then 1 else 0)"
    for r
    using * [of r] by simp
  have "table_ok (addRef (- 1) (ent_desc e) env) (t\<lparr>fdt_entries := mdel fd (fdt_entries t)\<rparr>)"
    using assms(2) by (auto simp: table_ok_def)
  with Some assms lt refs show ?thesis
    by (simp add: fdt_close_def fd_step_ok_def)
qed

subsection \<open>The contract of a table operation\<close>

text \<open>
  The manager relies on one law of the methods it runs on a table: from a well-formed table they
  lead to a well-formed table and change a description's count exactly as they change the number
  of descriptors that refer to it. The lemma of the locale lifts the law to the manager.
\<close>

locale fd_table_op =
  fixes f :: "fd_state \<Rightarrow> ('r \<times> fd_state) res"
    and pre :: "fd_state \<Rightarrow> bool"
  assumes op_ok: "f (env, t) = Inr (x, st') \<Longrightarrow> env_ok env \<Longrightarrow> table_ok env t \<Longrightarrow> pre (env, t) \<Longrightarrow>
    fd_step_ok (env, t) st'"
begin

lemma with_table_inv:
  assumes run: "fm_with_table pid f m = Inr (x, m')" and inv: "fd_inv m"
    and pre: "\<And>t. mget (fm_tables m) pid = Some t \<Longrightarrow> pre (fm_env m, t)"
  shows "fd_inv m'"
proof -
  from run obtain t env1 t1 where t: "mget (fm_tables m) pid = Some t"
    and f: "f (fm_env m, t) = Inr (x, env1, t1)"
    and m': "m' = m\<lparr>fm_env := env1, fm_tables := mput pid t1 (fm_tables m)\<rparr>"
    by (auto simp: fm_with_table_def split: option.splits sum.splits)
  have tok: "table_ok (fm_env m) t" and eok: "env_ok (fm_env m)"
    using inv t by (auto simp: fd_inv_def)
  from op_ok [OF f eok tok pre [OF t]] have ok: "fd_step_ok (fm_env m, t) (env1, t1)" .
  have le: "de_nextRef (fm_env m) \<le> de_nextRef env1" using ok by (simp add: fd_step_ok_def)
  have "rc env1 r = int (fd_refs m' r)" for r
  proof -
    have "fd_refs m' r + entry_refs t r = fd_refs m r + entry_refs t1 r"
      using wsum_mput_present [OF t] by (simp add: m' fd_refs_def)
    moreover have "rc env1 r - int (entry_refs t1 r) = rc (fm_env m) r - int (entry_refs t r)"
      using ok by (simp add: fd_step_ok_def)
    moreover have "rc (fm_env m) r = int (fd_refs m r)" using inv by (simp add: fd_inv_def)
    ultimately show ?thesis by linarith
  qed
  moreover have "table_ok env1 t'" if "mget (mput pid t1 (fm_tables m)) p = Some t'" for p t'
    using that ok inv le by (auto simp: fd_step_ok_def fd_inv_def intro: table_ok_mono split: if_splits)
  ultimately show ?thesis
    using inv ok by (auto simp: fd_inv_def m' fd_step_ok_def)
qed

end

text \<open>Every method of \<^verbatim>\<open>ProcessFDTable\<close> the kernel calls satisfies the contract.\<close>

interpretation open_op: fd_table_op "fdt_open p flags ft" "\<lambda>_. True" for p flags ft
proof
  fix env t fd st'
  assume run: "fdt_open p flags ft (env, t) = Inr (fd, st')" and env: "env_ok env"
    and tab: "table_ok env t"
  from run obtain t1 where a: "fdt_allocateFd t = Inr (fd, t1)"
    by (auto simp: fdt_open_def Let_def split: sum.splits prod.splits)
  obtain r env1 where d: "allocDesc p (flags AND NOT O_CLOEXEC) env = (r, env1)" by force
  from run a d obtain n c where st': "st' = (env1, fdt_set (mkEntry fd r 0 n c) t1)"
    by (auto simp: fdt_open_def Let_def)
  note al = fdt_allocateFd_Inr [OF a] and ad = allocDesc_facts [OF env d]
  have "table_ok env1 t" using tab by (rule table_ok_mono) (simp add: ad)
  with al ad show "fd_step_ok (env, t) st'"
    by (simp add: st' fd_step_ok_def entry_refs_set_fresh)
qed

interpretation openWith_op: fd_table_op "fdt_openWith r ft target"
  "\<lambda>(env, t). r < de_nextRef env \<and> (\<forall>fd. target = Some fd \<longrightarrow> \<not> mhas (fdt_entries t) fd)"
  for r ft target
  by unfold_locales
    (auto simp: fdt_openWith_def intro: install_ok install_alloc_ok split: sum.splits option.splits)

interpretation dup_op: fd_table_op "fdt_dup fd" "\<lambda>_. True" for fd
  by unfold_locales
    (auto simp: fdt_dup_def dest: table_ok_get intro: install_alloc_ok split: sum.splits option.splits)

interpretation dupMin_op: fd_table_op "fdt_dupMinFd fd minFd" "\<lambda>_. True" for fd minFd
  by unfold_locales
    (auto simp: fdt_dupMinFd_def Let_def skip_used_free dest: table_ok_get
      intro!: install_ok split: option.splits if_splits)

definition close_call :: "fdnum \<Rightarrow> fd_state \<Rightarrow> (bool \<times> fd_state) res" where
  "close_call fd st = Inr (fdt_close fd st)"

definition dup2_call :: "fdnum \<Rightarrow> fdnum \<Rightarrow> fd_state \<Rightarrow> (unit \<times> fd_state) res" where
  "dup2_call oldFd newFd st = (case fdt_dup2 oldFd newFd st of Inl e \<Rightarrow> Inl e | Inr st' \<Rightarrow> Inr ((), st'))"

interpretation close_op: fd_table_op "close_call fd" "\<lambda>_. True" for fd
proof
  fix env t x st'
  assume "close_call fd (env, t) = Inr (x, st')" "env_ok env" "table_ok env t"
  then show "fd_step_ok (env, t) st'"
    using fdt_close_ok [of env t fd] by (simp add: close_call_def)
qed

lemma fdt_close_sel:
  assumes "fdt_get t fd = Some e"
  shows "snd (fdt_close fd (env, t)) =
    (addRef (- 1) (ent_desc e) env, t\<lparr>fdt_entries := mdel fd (fdt_entries t)\<rparr>)"
  using assms by (simp add: fdt_close_def)

lemma fdt_dup2_ok:
  assumes run: "fdt_dup2 oldFd newFd (env, t) = Inr st'" and ok: "env_ok env" "table_ok env t"
  shows "fd_step_ok (env, t) st'"
proof -
  from run obtain e where e: "fdt_get t oldFd = Some e"
    by (auto simp: fdt_dup2_def split: option.splits)
  have lt: "ent_desc e < de_nextRef env" using ok(2) e by (rule table_ok_get)
  let ?new = "mkEntry newFd (ent_desc e) (ent_rights e) (ent_filetype e) False"
  show ?thesis
  proof (cases "oldFd = newFd")
    case True
    with run e have "st' = (env, t)" by (simp add: fdt_dup2_def)
    with ok show ?thesis by (simp add: fd_step_ok_refl)
  next
    case neq: False
    obtain env1 t1 where st1: "(if mhas (fdt_entries t) newFd then snd (fdt_close newFd (env, t))
        else (env, t)) = (env1, t1)" by force
    have ok1: "fd_step_ok (env, t) (env1, t1)"
      using st1 fdt_close_ok [OF ok, of newFd] fd_step_ok_refl [OF ok] by (auto split: if_splits)
    have free: "\<not> mhas (fdt_entries t1) newFd"
      using st1 by (auto simp: fdt_close_def fdt_get_def mhas_def split: if_splits option.splits)
    have "fd_step_ok (env1, t1) (addRef 1 (ent_desc e) env1, fdt_set ?new t1)"
      using ok1 lt free by (intro install_ok) (auto simp: fd_step_ok_def)
    with ok1 have "fd_step_ok (env, t) (addRef 1 (ent_desc e) env1, fdt_set ?new t1)"
      by (rule fd_step_ok_trans)
    moreover have "st' = (addRef 1 (ent_desc e) env1, fdt_set ?new t1)"
      using run e neq st1 by (simp add: fdt_dup2_def Let_def)
    ultimately show ?thesis by simp
  qed
qed

interpretation dup2_op: fd_table_op "dup2_call oldFd newFd" "\<lambda>_. True" for oldFd newFd
  by unfold_locales (auto simp: dup2_call_def dest: fdt_dup2_ok split: sum.splits)

text \<open>Inheritance and process exit.\<close>

lemma fork_entries_ok:
  assumes "env_ok env" "table_ok env child" "distinct (map fst es)"
    and "\<And>fd e. (fd, e) \<in> set es \<Longrightarrow> ent_desc e < de_nextRef env \<and> \<not> mhas (fdt_entries child) fd"
  shows "fd_step_ok (env, child) (fork_entries es (env, child))"
  using assms
proof (induction es arbitrary: env child)
  case Nil
  then show ?case by (simp add: fd_step_ok_refl)
next
  case (Cons p es)
  obtain fd e where p: "p = (fd, e)" by (cases p)
  show ?case
  proof (cases "ent_cloexec e")
    case True
    have "fd_step_ok (env, child) (fork_entries es (env, child))"
      using Cons.prems by (intro Cons.IH) (auto simp: p)
    with True show ?thesis by (simp add: p)
  next
    case False
    let ?env = "addRef 1 (ent_desc e) env"
    let ?child = "fdt_set (mkEntry fd (ent_desc e) (ent_rights e) (ent_filetype e) False) child"
    have s1: "fd_step_ok (env, child) (?env, ?child)"
      using Cons.prems by (intro install_ok) (auto simp: p)
    have nk: "fd \<noteq> fd'" if "(fd', e') \<in> set es" for fd' e'
      using Cons.prems(3) that by (force simp: p)
    have "fd_step_ok (?env, ?child) (fork_entries es (?env, ?child))"
    proof (rule Cons.IH)
      show "env_ok ?env" "table_ok ?env ?child" using s1 by (simp_all add: fd_step_ok_def)
      show "distinct (map fst es)" using Cons.prems(3) by (simp add: p)
      fix fd' e'
      assume "(fd', e') \<in> set es"
      then show "ent_desc e' < de_nextRef ?env \<and> \<not> mhas (fdt_entries ?child) fd'"
        using Cons.prems(4) [of fd' e'] nk by auto
    qed
    with s1 have "fd_step_ok (env, child) (fork_entries es (?env, ?child))"
      by (rule fd_step_ok_trans)
    with False show ?thesis by (simp add: p)
  qed
qed

lemma fdt_closeAll_ok:
  assumes "env_ok env" "table_ok env t"
  shows "fd_step_ok (env, t) (fdt_closeAll (env, t))"
proof -
  have "fd_step_ok st (fold (\<lambda>fd st. snd (fdt_close fd st)) fds st)"
    if "env_ok (fst st)" "table_ok (fst st) (snd st)" for fds st
    using that
  proof (induction fds arbitrary: st)
    case Nil
    then show ?case by (cases st) (simp add: fd_step_ok_refl)
  next
    case (Cons fd fds)
    have s1: "fd_step_ok st (snd (fdt_close fd st))"
      using fdt_close_ok [of "fst st" "snd st" fd] Cons.prems by simp
    then have "fd_step_ok (snd (fdt_close fd st))
        (fold (\<lambda>fd st. snd (fdt_close fd st)) fds (snd (fdt_close fd st)))"
      by (intro Cons.IH) (auto simp: fd_step_ok_def)
    with s1 show ?case by (auto intro: fd_step_ok_trans)
  qed
  then show ?thesis using assms by (simp add: fdt_closeAll_def)
qed

lemma fdt_closeAll_empty: "fdt_entries (snd (fdt_closeAll (env, t))) = []"
proof -
  have "fdt_entries (snd (fold (\<lambda>fd st. snd (fdt_close fd st)) fds (env, t)))
      = filter (\<lambda>p. fst p \<notin> set fds) (fdt_entries t)" for fds env t
  proof (induction fds arbitrary: env t)
    case Nil
    then show ?case by simp
  next
    case (Cons fd fds)
    have "fdt_entries (snd (snd (fdt_close fd (env, t)))) = mdel fd (fdt_entries t)"
      using mdel_absent [of "fdt_entries t" fd]
      by (auto simp: fdt_close_def fdt_get_def mhas_def split: option.splits)
    then show ?case
      using Cons.IH [of "fst (snd (fdt_close fd (env, t)))" "snd (snd (fdt_close fd (env, t)))"]
      by (simp add: AList.delete_eq case_prod_beta eq_commute [of fd])
  qed
  then show ?thesis by (simp add: fdt_closeAll_def)
qed

subsection \<open>The manager as a machine\<close>

text \<open>
  The calls the kernel makes on its descriptor tables. \<open>FdNewDesc\<close> is the creation of a description
  by the pipe and the PTY manager (with \<open>refCount\<close> 0, in no table yet). A call that throws leaves
  the tables as they were.
\<close>

datatype fd_call =
    FdCreate pid
  | FdFork pid pid
  | FdRemove pid
  | FdNewDesc FileDescription
  | FdOpen pid path u32 "nat option"
  | FdOpenWith pid dref nat "fdnum option"
  | FdClose pid fdnum
  | FdDup pid fdnum
  | FdDupMin pid fdnum nat
  | FdDup2 pid fdnum fdnum

definition fm_apply :: "pid \<Rightarrow> (fd_state \<Rightarrow> ('r \<times> fd_state) res) \<Rightarrow> FDTableManager \<Rightarrow> FDTableManager" where
  "fm_apply pid f m = (case fm_with_table pid f m of Inl _ \<Rightarrow> m | Inr (_, m') \<Rightarrow> m')"

fun fd_step :: "fd_call \<Rightarrow> FDTableManager \<Rightarrow> FDTableManager" where
  "fd_step (FdCreate p) m = fm_create p m"
| "fd_step (FdFork p c) m = fm_fork p c m"
| "fd_step (FdRemove p) m = fm_remove p m"
| "fd_step (FdNewDesc d) m = m\<lparr>fm_env := snd (newDesc d (fm_env m))\<rparr>"
| "fd_step (FdOpen p pa fl ft) m = fm_apply p (fdt_open pa fl ft) m"
| "fd_step (FdOpenWith p r ft tg) m = fm_apply p (fdt_openWith r ft tg) m"
| "fd_step (FdClose p fd) m = fm_apply p (close_call fd) m"
| "fd_step (FdDup p fd) m = fm_apply p (fdt_dup fd) m"
| "fd_step (FdDupMin p fd k) m = fm_apply p (fdt_dupMinFd fd k) m"
| "fd_step (FdDup2 p a b) m = fm_apply p (dup2_call a b) m"

text \<open>
  What the kernel guarantees at each call: a table is created or forked for a fresh PID, a
  description that enters the store is in no table, and \<^verbatim>\<open>openWith\<close> is given a live description and
  a target slot it has just vacated.
\<close>

fun fd_guard :: "fd_call \<Rightarrow> FDTableManager \<Rightarrow> bool" where
  "fd_guard (FdCreate p) m = (\<not> mhas (fm_tables m) p)"
| "fd_guard (FdFork p c) m = (\<not> mhas (fm_tables m) c)"
| "fd_guard (FdNewDesc d) m = (desc_refCount d = 0)"
| "fd_guard (FdOpenWith p r ft tg) m =
     (r < de_nextRef (fm_env m) \<and>
      (case mget (fm_tables m) p of None \<Rightarrow> True
       | Some t \<Rightarrow> (case tg of None \<Rightarrow> True | Some fd \<Rightarrow> \<not> mhas (fdt_entries t) fd)))"
| "fd_guard _ m = True"

lemma fm_add_table_inv:
  assumes inv: "fd_inv m" and fresh: "\<not> mhas (fm_tables m) p"
    and ok: "fd_step_ok (fm_env m, fdt_new) (env1, t)"
  shows "fd_inv (m\<lparr>fm_env := env1, fm_tables := mput p t (fm_tables m)\<rparr>)"
proof -
  have le: "de_nextRef (fm_env m) \<le> de_nextRef env1" using ok by (simp add: fd_step_ok_def)
  have "rc env1 r = int (wsum (\<lambda>t. entry_refs t r) (mput p t (fm_tables m)))" for r
  proof -
    have "rc env1 r - int (entry_refs t r) = rc (fm_env m) r - int (entry_refs fdt_new r)"
      using ok by (simp add: fd_step_ok_def)
    moreover have "entry_refs fdt_new r = 0" by (simp add: entry_refs_def fdt_new_def)
    moreover have "rc (fm_env m) r = int (fd_refs m r)" using inv by (simp add: fd_inv_def)
    ultimately show ?thesis by (simp add: wsum_mput_fresh [OF fresh] fd_refs_def)
  qed
  moreover have "table_ok env1 t'" if "mget (mput p t (fm_tables m)) q = Some t'" for q t'
    using that ok inv le by (auto simp: fd_step_ok_def fd_inv_def intro: table_ok_mono split: if_splits)
  ultimately show ?thesis
    using inv ok by (auto simp: fd_inv_def fd_refs_def fd_step_ok_def)
qed

lemma fdt_new_ok [simp]: "table_ok env fdt_new" "\<not> mhas (fdt_entries fdt_new) fd"
  by (simp_all add: table_ok_def fdt_new_def)

lemma install_alloc_desc_ok:
  assumes "fd_step_ok st (env, t)" "allocDesc p fl env = (r, env')" "\<not> mhas (fdt_entries t) fd"
  shows "fd_step_ok st (env', fdt_set (mkEntry fd r ri ft c) t)"
proof -
  have env: "env_ok env" and tab: "table_ok env t" using assms(1) by (simp_all add: fd_step_ok_def)
  note ad = allocDesc_facts [OF env assms(2)]
  have "table_ok env' t" using tab by (rule table_ok_mono) (simp add: ad)
  with ad env assms have "fd_step_ok (env, t) (env', fdt_set (mkEntry fd r ri ft c) t)"
    by (simp add: fd_step_ok_def entry_refs_set_fresh)
  with assms(1) show ?thesis by (rule fd_step_ok_trans)
qed

lemma fm_create_inv:
  assumes "fd_inv m" "\<not> mhas (fm_tables m) p"
  shows "fd_inv (fm_create p m)"
proof -
  obtain r0 env0 where a0: "allocDesc ''/dev/stdin'' O_RDONLY (fm_env m) = (r0, env0)" by force
  obtain r1 env1 where a1: "allocDesc ''/dev/stdout'' O_WRONLY env0 = (r1, env1)" by force
  obtain r2 env2 where a2: "allocDesc ''/dev/stderr'' O_WRONLY env1 = (r2, env2)" by force
  have "fd_step_ok (fm_env m, fdt_new) (fm_env m, fdt_new)"
    using assms(1) by (intro fd_step_ok_refl) (auto simp: fd_inv_def)
  then have "fd_step_ok (fm_env m, fdt_new) (env2, fdt_initStdio r0 r1 r2 fdt_new)"
    unfolding fdt_initStdio_def
    by (intro install_alloc_desc_ok [OF _ a2] install_alloc_desc_ok [OF _ a1]
        install_alloc_desc_ok [OF _ a0]) (auto simp: fdt_new_def mhas_def)
  with assms have "fd_inv (m\<lparr>fm_env := env2,
      fm_tables := mput p (fdt_initStdio r0 r1 r2 fdt_new) (fm_tables m)\<rparr>)"
    by (intro fm_add_table_inv)
  then show ?thesis by (simp add: fm_create_def a0 a1 a2)
qed

lemma fm_fork_inv:
  assumes inv: "fd_inv m" and fresh: "\<not> mhas (fm_tables m) c"
  shows "fd_inv (fm_fork p c m)"
proof (cases "mget (fm_tables m) p")
  case None
  then show ?thesis using fm_create_inv [OF assms] by (simp add: fm_fork_def)
next
  case (Some t)
  let ?new = "fdt_new\<lparr>fdt_nextFd := fdt_nextFd t\<rparr>"
  have tab: "table_ok (fm_env m) t" and env: "env_ok (fm_env m)"
    using inv Some by (auto simp: fd_inv_def)
  have "ent_desc e < de_nextRef (fm_env m)" if "(fd, e) \<in> set (fdt_entries t)" for fd e
    using tab that by (auto simp: table_ok_def)
  moreover have "distinct (map fst (fdt_entries t))" using tab by (simp add: table_ok_def)
  ultimately have "fd_step_ok (fm_env m, ?new) (fork_entries (fdt_entries t) (fm_env m, ?new))"
    using env by (intro fork_entries_ok) simp_all
  then have "fd_step_ok (fm_env m, fdt_new) (fork_entries (fdt_entries t) (fm_env m, ?new))"
    by (simp add: fd_step_ok_next)
  then show ?thesis
    using fm_add_table_inv [OF inv fresh] Some
    by (auto simp: fm_fork_def fdt_fork_def split: prod.splits)
qed

lemma fm_remove_inv:
  assumes inv: "fd_inv m"
  shows "fd_inv (fm_remove p m)"
proof (cases "mget (fm_tables m) p")
  case None
  then show ?thesis using inv by (simp add: fm_remove_def)
next
  case (Some t)
  obtain env1 t1 where ca: "fdt_closeAll (fm_env m, t) = (env1, t1)" by force
  have tab: "table_ok (fm_env m) t" and env: "env_ok (fm_env m)"
    using inv Some by (auto simp: fd_inv_def)
  have ok: "fd_step_ok (fm_env m, t) (env1, t1)" using fdt_closeAll_ok [OF env tab] ca by simp
  have "entry_refs t1 r = 0" for r
    using fdt_closeAll_empty [of "fm_env m" t] ca by (simp add: entry_refs_def)
  then have *: "rc env1 r = rc (fm_env m) r - int (entry_refs t r)" for r
    using ok by (simp add: fd_step_ok_def)
  have "rc env1 r = int (wsum (\<lambda>t. entry_refs t r) (mdel p (fm_tables m)))" for r
  proof -
    have "wsum (\<lambda>t. entry_refs t r) (mdel p (fm_tables m)) + entry_refs t r = fd_refs m r"
      using wsum_mdel [OF _ Some] inv by (simp add: fd_inv_def fd_refs_def)
    moreover have "rc (fm_env m) r = int (fd_refs m r)" using inv by (simp add: fd_inv_def)
    ultimately show ?thesis using * [of r] by linarith
  qed
  moreover have "table_ok env1 t'" if "mget (mdel p (fm_tables m)) q = Some t'" for q t'
    using that inv ok by (auto simp: fd_inv_def fd_step_ok_def intro: table_ok_mono split: if_splits)
  ultimately show ?thesis
    using Some inv ok by (auto simp: fm_remove_def ca fd_inv_def fd_refs_def fd_step_ok_def)
qed

lemma fm_newDesc_inv:
  assumes inv: "fd_inv m" and zero: "desc_refCount d = 0"
  shows "fd_inv (m\<lparr>fm_env := snd (newDesc d (fm_env m))\<rparr>)"
proof -
  let ?env = "snd (newDesc d (fm_env m))"
  have none: "de_heap (fm_env m) (de_nextRef (fm_env m)) = None" using inv by (simp add: fd_inv_def env_ok_def)
  have rc: "rc ?env r = rc (fm_env m) r" for r
    using none zero by (simp add: rc_def newDesc_def)
  have "de_heap ?env x = None \<longleftrightarrow> Suc (de_nextRef (fm_env m)) \<le> x" for x
  proof (cases "x = de_nextRef (fm_env m)")
    case False
    then have "de_heap ?env x = None \<longleftrightarrow> de_nextRef (fm_env m) \<le> x"
      using inv by (simp add: newDesc_def fd_inv_def env_ok_def)
    with False show ?thesis by (auto simp: Suc_le_eq le_less)
  qed (simp add: newDesc_def)
  moreover have le: "de_nextRef ?env = Suc (de_nextRef (fm_env m))" by (simp add: newDesc_def)
  ultimately have "env_ok ?env" by (simp add: env_ok_def)
  moreover have "table_ok ?env t" if "mget (fm_tables m) q = Some t" for q t
    using that inv le table_ok_mono [of "fm_env m" t ?env] by (simp add: fd_inv_def)
  ultimately show ?thesis using inv rc by (simp add: fd_inv_def fd_refs_def)
qed

lemma fm_apply_inv:
  assumes "fd_table_op f pre" "fd_inv m" "\<And>t. mget (fm_tables m) p = Some t \<Longrightarrow> pre (fm_env m, t)"
  shows "fd_inv (fm_apply p f m)"
  using fd_table_op.with_table_inv [OF assms(1) _ assms(2,3)] assms(2)
  by (auto simp: fm_apply_def split: sum.splits)

lemma fd_step_inv: "fd_inv m \<Longrightarrow> fd_guard x m \<Longrightarrow> fd_inv (fd_step x m)"
proof (cases x)
  case (FdOpenWith p r ft tg)
  assume "fd_inv m" "fd_guard x m"
  then show ?thesis
    using FdOpenWith
    by (auto intro!: fm_apply_inv [OF openWith_op.fd_table_op_axioms] split: option.splits)
qed (auto intro: fm_create_inv fm_fork_inv fm_remove_inv fm_newDesc_inv
    fm_apply_inv [OF open_op.fd_table_op_axioms] fm_apply_inv [OF close_op.fd_table_op_axioms]
    fm_apply_inv [OF dup_op.fd_table_op_axioms] fm_apply_inv [OF dupMin_op.fd_table_op_axioms]
    fm_apply_inv [OF dup2_op.fd_table_op_axioms])

interpretation fd_machine: invariant_component fd_step fd_guard fd_inv
  by unfold_locales (rule fd_step_inv)

lemma fd_inv_new: "fd_inv fm_new"
  by (simp add: fd_inv_def fm_new_def env_ok_def rc_def fd_refs_def)

text \<open>The count a description records, read off a state that satisfies the invariant.\<close>

lemma fd_inv_refCount:
  "fd_inv m \<Longrightarrow> de_heap (fm_env m) r = Some d \<Longrightarrow> desc_refCount d = int (fd_refs m r)"
  by (auto simp: fd_inv_def rc_def dest: spec [of _ r])


subsection \<open>Functional behaviour of the table operations\<close>

lemma fork_entries_get:
  "distinct (map fst es) \<Longrightarrow>
   mget (fdt_entries (snd (fork_entries es (env, child)))) fd =
     (case mget es fd of
        None \<Rightarrow> mget (fdt_entries child) fd
      | Some e \<Rightarrow> if ent_cloexec e then mget (fdt_entries child) fd
                  else Some (mkEntry fd (ent_desc e) (ent_rights e) (ent_filetype e) False))"
proof (induction es arbitrary: env child)
  case Nil
  then show ?case by simp
next
  case (Cons p es)
  obtain fd' e' where p: "p = (fd', e')" by (cases p)
  have "fd' \<notin> set (map fst es)" using Cons.prems by (simp add: p)
  then have "mget es fd' = None" by (simp add: map_of_eq_None_iff)
  then show ?case using Cons by (auto simp: p split: option.splits)
qed

lemma fdt_allocateFd_cases:
  "fdt_allocateFd t = (if length (fdt_entries t) \<ge> MAX_FDS_PER_PROCESS then Inl EMFILE
     else Inr (skip_used (fdt_entries t) (fdt_nextFd t),
            t\<lparr>fdt_nextFd := Suc (skip_used (fdt_entries t) (fdt_nextFd t))\<rparr>))"
  by (simp add: fdt_allocateFd_def Let_def)

lemma allocDesc_heap:
  "allocDesc p fl env = (r, env') \<Longrightarrow>
   de_heap env' = (de_heap env)(r \<mapsto> \<lparr>desc_id = de_nextDescriptionId env, desc_path = p,
     desc_cursor = 0, desc_flags = fl, desc_refCount = 1, desc_creationMode = None\<rparr>)"
  by (auto simp: allocDesc_def newDesc_def)

interpretation desc_ids: id_allocator
  "\<lambda>env. (de_nextDescriptionId env, snd (allocDesc p fl env))"
  "\<lambda>env i. i < de_nextDescriptionId env" for p fl
  by unfold_locales (auto simp: allocDesc_def newDesc_def)

text \<open>
  C19. In every state the kernel can reach with its descriptor calls (create, fork and remove a
  table, open, openWith, close, dup, dup with a minimum, dup2, and the creation of pipe and PTY
  descriptions), the \<open>refCount\<close> of every file description is the number of descriptors, over all
  processes, that refer to it.
\<close>

theorem refCount_counts_descriptors:
  assumes "guarded fd_guard fd_step calls fm_new"
    and "de_heap (fm_env (run_ops fd_step calls fm_new)) r = Some d"
  shows "desc_refCount d = int (fd_refs (run_ops fd_step calls fm_new) r)"
  by (rule fd_inv_refCount [OF fd_machine.run_inv [OF fd_inv_new assms(1)] assms(2)])

theorem refCount_counts_descriptors_witness:
  "desc_refCount (the (de_heap (fm_env (run_ops fd_step
      [FdCreate 1, FdOpen 1 ''/a'' 0 None, FdDup 1 3, FdFork 1 2, FdClose 1 3] fm_new)) 3)) =
   int (fd_refs (run_ops fd_step
      [FdCreate 1, FdOpen 1 ''/a'' 0 None, FdDup 1 3, FdFork 1 2, FdClose 1 3] fm_new) 3)"
  by (rule refCount_counts_descriptors) (code_simp, code_simp)

text \<open>
  \<^verbatim>\<open>open\<close> on a table below the limit of 256 returns a free descriptor number not below
  \<open>nextFd\<close>, installs under it a new description with count 1, cursor 0 and the flags without
  O_CLOEXEC, records O_CLOEXEC on the descriptor, advances \<open>nextFd\<close> past it and leaves every other
  descriptor as it was; at the limit it throws EMFILE.
\<close>

theorem open_allocates:
  assumes "length (fdt_entries t) < MAX_FDS_PER_PROCESS"
  shows "\<exists>fd env' t' e d. fdt_open p flags ft (env, t) = Inr (fd, env', t') \<and>
    fdt_nextFd t \<le> fd \<and> fdt_get t fd = None \<and> fdt_nextFd t' = Suc fd \<and>
    fdt_get t' fd = Some e \<and> (ent_cloexec e \<longleftrightarrow> flags AND O_CLOEXEC \<noteq> 0) \<and>
    de_heap env' (ent_desc e) = Some d \<and> desc_path d = p \<and> desc_cursor d = 0 \<and>
    desc_refCount d = 1 \<and> desc_flags d = flags AND NOT O_CLOEXEC \<and>
    (\<forall>fd'. fd' \<noteq> fd \<longrightarrow> fdt_get t' fd' = fdt_get t fd') \<and>
    (\<forall>u. MAX_FDS_PER_PROCESS \<le> length (fdt_entries u) \<longrightarrow> fdt_open p flags ft (env, u) = Inl EMFILE)"
proof -
  let ?fd = "skip_used (fdt_entries t) (fdt_nextFd t)"
  obtain r env' where d: "allocDesc p (flags AND NOT O_CLOEXEC) env = (r, env')" by force
  let ?e = "mkEntry ?fd r 0 (case ft of None \<Rightarrow> FILETYPE_REGULAR_FILE | Some n \<Rightarrow> n)
    (flags AND O_CLOEXEC \<noteq> 0)"
  have "fdt_open p flags ft (env, t) = Inr (?fd, env', fdt_set ?e (t\<lparr>fdt_nextFd := Suc ?fd\<rparr>))"
    using assms d by (simp add: fdt_open_def fdt_allocateFd_cases Let_def)
  moreover have "fdt_open p flags ft (env, u) = Inl EMFILE"
    if "MAX_FDS_PER_PROCESS \<le> length (fdt_entries u)" for u
    using that by (simp add: fdt_open_def fdt_allocateFd_cases)
  ultimately show ?thesis
    using skip_used_free [of "fdt_entries t" "fdt_nextFd t"] allocDesc_heap [OF d]
    by (simp add: skip_used_ge fdt_get_def mhas_def)
qed

theorem open_allocates_witness:
  "\<exists>fd env' t' e d. fdt_open ''/x'' 0x80001 None (fm_env fm_new, fdt_new) = Inr (fd, env', t') \<and>
    3 \<le> fd \<and> fdt_get t' fd = Some e \<and> ent_cloexec e \<and> de_heap env' (ent_desc e) = Some d \<and>
    desc_flags d = 1"
  using open_allocates [of fdt_new "''/x''" "0x80001" None "fm_env fm_new"]
  by (auto simp: fdt_new_def MAX_FDS_PER_PROCESS_def O_CLOEXEC_def)

text \<open>
  C21. \<^verbatim>\<open>dup2(oldFd, newFd)\<close> on an open \<open>oldFd\<close>: afterwards \<open>newFd\<close> refers to the description
  of \<open>oldFd\<close>, every other descriptor (\<open>oldFd\<close> included) is unchanged, the description \<open>newFd\<close> referred
  to before loses one reference and the one of \<open>oldFd\<close> gains one (a self-dup changes nothing); on a
  closed \<open>oldFd\<close> it throws EBADF.
\<close>

theorem dup2_redirects:
  assumes "env_ok env" "table_ok env t"
  shows "case fdt_get t oldFd of
      None \<Rightarrow> fdt_dup2 oldFd newFd (env, t) = Inl EBADF
    | Some e \<Rightarrow> (\<exists>env' t'. fdt_dup2 oldFd newFd (env, t) = Inr (env', t') \<and>
        map_option ent_desc (fdt_get t' newFd) = Some (ent_desc e) \<and>
        (\<forall>fd. fd \<noteq> newFd \<longrightarrow> fdt_get t' fd = fdt_get t fd) \<and>
        (\<forall>r. rc env' r = rc env r
          + (if oldFd \<noteq> newFd \<and> r = ent_desc e then 1 else 0)
          - (if oldFd \<noteq> newFd \<and> Some r = map_option ent_desc (fdt_get t newFd) then 1 else 0)))"
proof (cases "fdt_get t oldFd")
  case None
  then show ?thesis by (simp add: fdt_dup2_def)
next
  case (Some e)
  have lt: "ent_desc e < de_nextRef env" using assms(2) Some by (rule table_ok_get)
  show ?thesis
  proof (cases "mget (fdt_entries t) newFd")
    case None
    with Some lt assms show ?thesis by (auto simp: fdt_dup2_def Let_def fdt_get_def mhas_def)
  next
    case (Some e')
    then have "ent_desc e' < de_nextRef env" using assms(2) by (auto simp: table_ok_def)
    with Some \<open>fdt_get t oldFd = Some e\<close> lt assms show ?thesis
      by (auto simp: fdt_dup2_def fdt_close_def Let_def fdt_get_def mhas_def)
  qed
qed

theorem dup2_redirects_witness:
  "\<exists>env' t'. fdt_dup2 1 7 (the (map_option (\<lambda>t. (fm_env (fm_create 5 fm_new), t))
       (fm_get 5 (fm_create 5 fm_new)))) = Inr (env', t') \<and>
     map_option ent_desc (fdt_get t' 7) = Some 1 \<and> rc env' 1 = 2"
proof -
  have "fd_inv (fm_create 5 fm_new)"
    by (rule fm_create_inv [OF fd_inv_new]) (simp add: fm_new_def)
  moreover obtain t where t: "mget (fm_tables (fm_create 5 fm_new)) 5 = Some t"
    by (auto simp: fm_create_def case_prod_beta)
  ultimately have ok: "env_ok (fm_env (fm_create 5 fm_new))" "table_ok (fm_env (fm_create 5 fm_new)) t"
    by (auto simp: fd_inv_def)
  have g: "map_option ent_desc (fdt_get t 1) = Some 1" "fdt_get t 7 = None" "rc (fm_env (fm_create 5 fm_new)) 1 = 1"
    using t by (auto simp: fm_create_def fm_new_def allocDesc_def newDesc_def fdt_get_def
        fdt_initStdio_def fdt_new_def rc_def)
  then obtain e where "fdt_get t 1 = Some e" "ent_desc e = 1" by auto
  with dup2_redirects [OF ok, of 1 7] g show ?thesis by (auto simp: fm_get_def t)
qed

lemma fork_entries_nextFd: "fdt_nextFd (snd (fork_entries es (env, child))) = fdt_nextFd child"
  by (induction es arbitrary: env child) (auto simp: fdt_set_def)


text \<open>A parent with descriptor 3 opened close-on-exec and descriptor 4 opened without.\<close>

definition fork_example :: FDTableManager where
  "fork_example = run_ops fd_step [FdCreate 5, FdOpen 5 ''/secret'' O_CLOEXEC None, FdOpen 5 ''/shared'' 0 None] fm_new"


text \<open>
  Descriptor numbers are never reused by \<^verbatim>\<open>open\<close>: whatever is closed in between, a later
  \<^verbatim>\<open>open\<close> returns a number strictly above the earlier one.
\<close>

theorem open_after_close_fresh:
  assumes "fdt_open p flags ft st = Inr (fd, st1)"
    and "fdt_open p' flags' ft' (fold (\<lambda>x s. snd (fdt_close x s)) closed st1) = Inr (fd', st2)"
  shows "fd < fd'"
proof -
  have keep: "fdt_nextFd (snd (fold (\<lambda>x s. snd (fdt_close x s)) xs s)) = fdt_nextFd (snd s)" for xs s
  proof (induction xs arbitrary: s)
    case (Cons x xs)
    have "fdt_nextFd (snd (snd (fdt_close x s))) = fdt_nextFd (snd s)"
      by (auto simp: fdt_close_def split: prod.splits option.splits)
    with Cons show ?case by simp
  qed simp
  have opn: "fdt_nextFd (snd s) \<le> n \<and> fdt_nextFd (snd s') = Suc n"
    if "fdt_open q fl g s = Inr (n, s')" for q fl g s n s'
    using that
    by (cases s) (auto simp: fdt_open_def fdt_allocateFd_cases Let_def skip_used_ge case_prod_beta
        split: if_splits)
  show ?thesis using opn [OF assms(1)] opn [OF assms(2)] by (simp add: keep)
qed

theorem open_after_close_fresh_witness:
  "\<exists>st1 fd' st2. fdt_open ''/a'' 0 None (fm_env fm_new, fdt_new) = Inr (3, st1) \<and>
     fdt_open ''/b'' 0 None (fold (\<lambda>x s. snd (fdt_close x s)) [3] st1) = Inr (fd', st2) \<and> 3 < fd'"
proof -
  have ok: "length (fdt_entries t) < MAX_FDS_PER_PROCESS \<Longrightarrow> \<exists>x. fdt_open q fl ft (env, t) = Inr x"
    for q fl ft env t
    by (simp add: fdt_open_def fdt_allocateFd_cases Let_def case_prod_beta)
  obtain env1 t1 where o1: "fdt_open ''/a'' 0 None (fm_env fm_new, fdt_new) = Inr (3, env1, t1)"
    and n1: "length (fdt_entries t1) = 1"
    by (auto simp: fdt_open_def fdt_allocateFd_cases fdt_new_def Let_def case_prod_beta
        MAX_FDS_PER_PROCESS_def skip_used_idem)
  obtain env2 t2 where c: "fold (\<lambda>x s. snd (fdt_close x s)) [3] (env1, t1) = (env2, t2)"
    by (cases "snd (fdt_close 3 (env1, t1))") simp
  have "length (fdt_entries t2) \<le> 1"
    using c n1 length_delete_le [of 3 "fdt_entries t1"]
    by (auto simp: fdt_close_def split: option.splits)
  with ok [of t2 "''/b''" 0 None env2] obtain fd' st2
    where o2: "fdt_open ''/b'' 0 None (fold (\<lambda>x s. snd (fdt_close x s)) [3] (env1, t1)) = Inr (fd', st2)"
    unfolding c by (auto simp: MAX_FDS_PER_PROCESS_def)
  from open_after_close_fresh [OF o1 o2] o1 o2 show ?thesis by blast
qed

end
