(* ===== verification/Wait_Queue.thy ===== *)
theory Wait_Queue
  imports Kernel_Prelude
begin

section \<open>Wait handles and wait queues\<close>

text \<open>
  \<^verbatim>\<open>kernel/wait.ts\<close>: the wait/wake primitive of pipes, sockets, file locks and poll. A handle is a
  mutable object that its queue and the suspended caller share, so a queue carries the store of the
  handles it created (\<open>wq_store\<close>) beside the list of waiters. The promise of a handle is resolved
  exactly when \<open>wh_settled\<close> holds; \<open>wh_armed\<close> says that the timeout timer is running, and
  \<open>handle_timer\<close> is the callback of that timer.

  The contract \<open>wait_fifo\<close> states what the clients rely on: seen through its pending waiters a queue
  is a FIFO list. \<open>wq\<close> is its interpretation on the model of the code. \<open>wait_queue_refines\<close> adds
  the handles: the queue refines a list of waiters with the outcome of each.
\<close>

subsection \<open>WaitHandle\<close>

record WaitHandle =
  wh_settled :: bool
  wh_timedOut :: bool
  wh_armed :: bool

definition handle_new :: "int option \<Rightarrow> WaitHandle" where
  "handle_new timeoutMs =
     \<lparr>wh_settled = False, wh_timedOut = False,
      wh_armed = (case timeoutMs of None \<Rightarrow> False | Some ms \<Rightarrow> 0 \<le> ms)\<rparr>"

definition handle_wake :: "WaitHandle \<Rightarrow> WaitHandle" where
  "handle_wake h = (if wh_settled h then h else h\<lparr>wh_settled := True, wh_armed := False\<rparr>)"

text \<open>The timer fires only while armed; its callback settles the handle unless it is settled.\<close>

definition handle_timer :: "WaitHandle \<Rightarrow> WaitHandle" where
  "handle_timer h =
     (if \<not> wh_armed h then h
      else if wh_settled h then h\<lparr>wh_armed := False\<rparr>
      else h\<lparr>wh_timedOut := True, wh_settled := True, wh_armed := False\<rparr>)"

subsection \<open>WaitQueue\<close>

record WaitQueue =
  wq_store :: "nat \<Rightarrow> WaitHandle option"
  wq_next :: nat
  wq_waiters :: "nat list"

definition wq_new :: WaitQueue where
  "wq_new = \<lparr>wq_store = (\<lambda>_. None), wq_next = 0, wq_waiters = []\<rparr>"

definition isSettled :: "WaitQueue \<Rightarrow> nat \<Rightarrow> bool" where
  "isSettled q h = (case wq_store q h of None \<Rightarrow> True | Some w \<Rightarrow> wh_settled w)"

definition wq_update :: "(WaitHandle \<Rightarrow> WaitHandle) \<Rightarrow> nat \<Rightarrow> WaitQueue \<Rightarrow> WaitQueue" where
  "wq_update f h q = q\<lparr>wq_store := (wq_store q)(h := map_option f (wq_store q h))\<rparr>"

definition wq_enqueue :: "int option \<Rightarrow> WaitQueue \<Rightarrow> nat \<times> WaitQueue" where
  "wq_enqueue timeoutMs q =
     (wq_next q,
      q\<lparr>wq_store := (wq_store q)(wq_next q \<mapsto> handle_new timeoutMs),
        wq_next := Suc (wq_next q),
        wq_waiters := wq_waiters q @ [wq_next q]\<rparr>)"

definition wq_remove :: "nat \<Rightarrow> WaitQueue \<Rightarrow> WaitQueue" where
  "wq_remove h q = q\<lparr>wq_waiters := remove1 h (wq_waiters q)\<rparr>"

text \<open>The \<^verbatim>\<open>while\<close> loop of \<^verbatim>\<open>wakeOne\<close>: it shifts the queue until it finds an unsettled handle.\<close>

fun wakeOne_loop :: "nat list \<Rightarrow> WaitQueue \<Rightarrow> bool \<times> WaitQueue" where
  "wakeOne_loop [] q = (False, q\<lparr>wq_waiters := []\<rparr>)"
| "wakeOne_loop (h # hs) q =
     (if \<not> isSettled q h then (True, wq_update handle_wake h (q\<lparr>wq_waiters := hs\<rparr>))
      else wakeOne_loop hs q)"

definition wq_wakeOne :: "WaitQueue \<Rightarrow> bool \<times> WaitQueue" where
  "wq_wakeOne q = wakeOne_loop (wq_waiters q) q"

fun wakeAll_loop :: "nat list \<Rightarrow> WaitQueue \<Rightarrow> nat \<times> WaitQueue" where
  "wakeAll_loop [] q = (0, q)"
| "wakeAll_loop (h # hs) q =
     (if \<not> isSettled q h
      then (let (n, q') = wakeAll_loop hs (wq_update handle_wake h q) in (Suc n, q'))
      else wakeAll_loop hs q)"

definition wq_wakeAll :: "WaitQueue \<Rightarrow> nat \<times> WaitQueue" where
  "wq_wakeAll q = (let (n, q') = wakeAll_loop (wq_waiters q) q in (n, q'\<lparr>wq_waiters := []\<rparr>))"

definition wq_pending :: "WaitQueue \<Rightarrow> nat" where
  "wq_pending q = length (filter (\<lambda>h. \<not> isSettled q h) (wq_waiters q))"

definition wq_clear :: "WaitQueue \<Rightarrow> WaitQueue" where
  "wq_clear q = q\<lparr>wq_waiters := []\<rparr>"

definition wq_timer :: "nat \<Rightarrow> WaitQueue \<Rightarrow> WaitQueue" where
  "wq_timer h q = wq_update handle_timer h q"

subsection \<open>Invariant and abstraction\<close>

definition wq_inv :: "WaitQueue \<Rightarrow> bool" where
  "wq_inv q \<longleftrightarrow> distinct (wq_waiters q) \<and> (\<forall>h \<in> set (wq_waiters q). h < wq_next q) \<and>
     (\<forall>h. wq_store q h = None \<longleftrightarrow> wq_next q \<le> h)"

definition pending_list :: "WaitQueue \<Rightarrow> nat list" where
  "pending_list q = filter (\<lambda>h. \<not> isSettled q h) (wq_waiters q)"

lemma isSettled_update [simp]:
  "isSettled (wq_update handle_wake h q) h' \<longleftrightarrow> h' = h \<or> isSettled q h'"
  by (auto simp: isSettled_def wq_update_def handle_wake_def split: option.splits)

lemma isSettled_sel [simp]: "isSettled (q\<lparr>wq_waiters := hs\<rparr>) h = isSettled q h"
  by (simp add: isSettled_def)

lemma wq_update_sel [simp]:
  "wq_waiters (wq_update f h q) = wq_waiters q" "wq_next (wq_update f h q) = wq_next q"
  "wq_store (wq_update f h q) = (wq_store q)(h := map_option f (wq_store q h))"
  "wq_update f h (q\<lparr>wq_waiters := hs\<rparr>) = (wq_update f h q)\<lparr>wq_waiters := hs\<rparr>"
  by (simp_all add: wq_update_def)

lemma wakeOne_loop_spec:
  "wakeOne_loop hs q =
     (case dropWhile (isSettled q) hs of
        [] \<Rightarrow> (False, q\<lparr>wq_waiters := []\<rparr>)
      | h # hs' \<Rightarrow> (True, (wq_update handle_wake h q)\<lparr>wq_waiters := hs'\<rparr>))"
  by (induction hs) auto

lemma filter_dropWhile_cases:
  "case dropWhile P xs of [] \<Rightarrow> filter (\<lambda>x. \<not> P x) xs = []
   | y # ys \<Rightarrow> \<not> P y \<and> filter (\<lambda>x. \<not> P x) xs = y # filter (\<lambda>x. \<not> P x) ys"
proof (induction xs)
  case (Cons a xs)
  then show ?case by (cases "dropWhile P xs") (auto simp del: dropWhile_eq_Nil_conv)
qed simp

lemma wakeAll_loop_effect:
  "isSettled (snd (wakeAll_loop hs q)) h \<longleftrightarrow> h \<in> set hs \<or> isSettled q h"
  "wq_next (snd (wakeAll_loop hs q)) = wq_next q"
  "wq_store (snd (wakeAll_loop hs q)) h = None \<longleftrightarrow> wq_store q h = None"
  by (induction hs arbitrary: q) (auto simp: Let_def case_prod_beta)

lemma wakeAll_loop_count:
  "distinct hs \<Longrightarrow> fst (wakeAll_loop hs q) = length (filter (\<lambda>h. \<not> isSettled q h) hs)"
proof (induction hs arbitrary: q)
  case Nil
  then show ?case by simp
next
  case (Cons h hs)
  then have "filter (\<lambda>x. \<not> isSettled (wq_update handle_wake h q) x) hs = filter (\<lambda>x. \<not> isSettled q x) hs"
    by (intro filter_cong) auto
  with Cons show ?case by (simp add: Let_def case_prod_beta)
qed

lemma wq_inv_new: "wq_inv wq_new"
  by (simp add: wq_inv_def wq_new_def)

lemma wq_inv_enqueue: "wq_inv q \<Longrightarrow> wq_inv (snd (wq_enqueue ms q))"
proof -
  assume inv: "wq_inv q"
  have "((wq_store q)(wq_next q \<mapsto> handle_new ms)) h = None \<longleftrightarrow> Suc (wq_next q) \<le> h" for h
  proof (cases "h = wq_next q")
    case False
    then show ?thesis using inv by (auto simp: wq_inv_def Suc_le_eq le_less)
  qed simp
  with inv show ?thesis by (auto simp: wq_inv_def wq_enqueue_def less_SucI)
qed

lemma wq_inv_waiters:
  "wq_inv q \<Longrightarrow> distinct hs \<Longrightarrow> set hs \<subseteq> set (wq_waiters q) \<Longrightarrow> wq_inv (q\<lparr>wq_waiters := hs\<rparr>)"
  by (auto simp: wq_inv_def)

lemma wq_inv_update: "wq_inv q \<Longrightarrow> wq_inv (wq_update f h q)"
  by (simp add: wq_inv_def)

lemma dropWhile_eq_Cons_subset:
  "dropWhile P xs = y # ys \<Longrightarrow> distinct xs \<Longrightarrow> distinct ys \<and> set ys \<subseteq> set xs \<and> y \<in> set xs \<and> y \<notin> set ys"
  by (metis distinct.simps(2) distinct_dropWhile list.set_intros(1) list.set_intros(2) set_dropWhileD subsetI)

lemma wq_inv_wakeOne: "wq_inv q \<Longrightarrow> wq_inv (snd (wq_wakeOne q))"
  unfolding wq_wakeOne_def wakeOne_loop_spec
  by (auto intro!: wq_inv_waiters wq_inv_update dest!: dropWhile_eq_Cons_subset
      simp: wq_inv_def [THEN iffD1] split: list.splits)

lemma pending_list_wakeOne:
  assumes "wq_inv q"
  shows "fst (wq_wakeOne q) \<longleftrightarrow> pending_list q \<noteq> []"
    and "pending_list (snd (wq_wakeOne q)) = tl (pending_list q)"
proof -
  note cs = filter_dropWhile_cases [of "isSettled q" "wq_waiters q"]
  show "fst (wq_wakeOne q) \<longleftrightarrow> pending_list q \<noteq> []"
    using cs by (cases "dropWhile (isSettled q) (wq_waiters q)")
      (simp_all add: wq_wakeOne_def wakeOne_loop_spec pending_list_def del: dropWhile_eq_Nil_conv)
  show "pending_list (snd (wq_wakeOne q)) = tl (pending_list q)"
  proof (cases "dropWhile (isSettled q) (wq_waiters q)")
    case Nil
    with cs show ?thesis
      by (simp add: wq_wakeOne_def wakeOne_loop_spec pending_list_def del: dropWhile_eq_Nil_conv)
  next
    case (Cons h hs)
    then have "h \<notin> set hs"
      using assms by (auto simp: wq_inv_def dest: dropWhile_eq_Cons_subset)
    then have "filter (\<lambda>x. \<not> (x = h \<or> isSettled q x)) hs = filter (\<lambda>x. \<not> isSettled q x) hs"
      by (intro filter_cong) auto
    with Cons cs show ?thesis by (simp add: wq_wakeOne_def wakeOne_loop_spec pending_list_def)
  qed
qed

lemma wq_inv_wakeAll: "wq_inv q \<Longrightarrow> wq_inv (snd (wq_wakeAll q))"
  by (simp add: wq_inv_def wq_wakeAll_def Let_def case_prod_beta wakeAll_loop_effect)

lemma wq_inv_remove: "wq_inv q \<Longrightarrow> wq_inv (wq_remove h q)"
  by (auto simp: wq_inv_def wq_remove_def)

lemma pending_list_enqueue:
  assumes "wq_inv q"
  shows "pending_list (snd (wq_enqueue ms q)) = pending_list q @ [fst (wq_enqueue ms q)]"
    and "fst (wq_enqueue ms q) \<notin> set (wq_waiters q)"
proof -
  show fresh: "fst (wq_enqueue ms q) \<notin> set (wq_waiters q)"
    using assms by (auto simp: wq_inv_def wq_enqueue_def)
  have "isSettled (snd (wq_enqueue ms q)) h \<longleftrightarrow> isSettled q h" if "h \<in> set (wq_waiters q)" for h
    using that fresh by (auto simp: isSettled_def wq_enqueue_def)
  then have "filter (\<lambda>h. \<not> isSettled (snd (wq_enqueue ms q)) h) (wq_waiters q) = pending_list q"
    by (auto simp: pending_list_def intro: filter_cong)
  moreover have "\<not> isSettled (snd (wq_enqueue ms q)) (fst (wq_enqueue ms q))"
    by (simp add: isSettled_def wq_enqueue_def handle_new_def)
  ultimately show "pending_list (snd (wq_enqueue ms q)) = pending_list q @ [fst (wq_enqueue ms q)]"
    by (simp add: pending_list_def wq_enqueue_def)
qed

lemma pending_fresh: "wq_inv q \<Longrightarrow> fst (wq_enqueue ms q) \<notin> set (pending_list q)"
  using pending_list_enqueue(2) [of q ms] by (simp add: pending_list_def)

lemma pending_list_remove:
  "wq_inv q \<Longrightarrow> pending_list (wq_remove h q) = filter (\<lambda>x. x \<noteq> h) (pending_list q)"
  by (auto simp: pending_list_def wq_remove_def wq_inv_def distinct_remove1_removeAll removeAll_filter_not_eq
      filter_filter eq_commute conj_commute intro: filter_cong)

lemma pending_list_wakeAll:
  "wq_inv q \<Longrightarrow> fst (wq_wakeAll q) = length (pending_list q)" "pending_list (snd (wq_wakeAll q)) = []"
  by (auto simp: wq_inv_def wq_wakeAll_def pending_list_def Let_def case_prod_beta wakeAll_loop_count)

text \<open>What \<^verbatim>\<open>wakeOne\<close> does to an individual handle.\<close>

lemma wakeOne_handles:
  "wq_next (snd (wq_wakeOne q)) = wq_next q"
  "isSettled q h \<Longrightarrow> isSettled (snd (wq_wakeOne q)) h"
  "h \<in> set (wq_waiters q) \<Longrightarrow> \<not> isSettled (snd (wq_wakeOne q)) h \<Longrightarrow> h \<in> set (wq_waiters (snd (wq_wakeOne q)))"
  "\<not> isSettled q h \<Longrightarrow> \<not> isSettled q h' \<Longrightarrow> isSettled (snd (wq_wakeOne q)) h \<Longrightarrow>
   isSettled (snd (wq_wakeOne q)) h' \<Longrightarrow> h = h'"
proof -
  have tw: "x \<in> set (dropWhile (isSettled q) (wq_waiters q))"
    if "x \<in> set (wq_waiters q)" "\<not> isSettled q x" for x
    using that by (metis Un_iff set_append set_takeWhileD takeWhile_dropWhile_id)
  note sp = wq_wakeOne_def wakeOne_loop_spec
  show "wq_next (snd (wq_wakeOne q)) = wq_next q" by (simp add: sp split: list.split)
  show "isSettled q h \<Longrightarrow> isSettled (snd (wq_wakeOne q)) h" by (simp add: sp split: list.split)
  show "h \<in> set (wq_waiters q) \<Longrightarrow> \<not> isSettled (snd (wq_wakeOne q)) h \<Longrightarrow>
      h \<in> set (wq_waiters (snd (wq_wakeOne q)))"
    using tw [of h] by (cases "dropWhile (isSettled q) (wq_waiters q)") (auto simp: sp)
  show "\<not> isSettled q h \<Longrightarrow> \<not> isSettled q h' \<Longrightarrow> isSettled (snd (wq_wakeOne q)) h \<Longrightarrow>
      isSettled (snd (wq_wakeOne q)) h' \<Longrightarrow> h = h'"
    by (simp add: sp split: list.splits)
qed

lemma wq_remove_sel [simp]:
  "wq_next (wq_remove h q) = wq_next q" "isSettled (wq_remove h q) = isSettled q"
  "wq_waiters (wq_remove h q) = remove1 h (wq_waiters q)"
  by (auto simp: wq_remove_def isSettled_def)

subsection \<open>The contract of a wait queue\<close>

text \<open>
  What the clients rely on: through its pending waiters a queue is a FIFO list. \<open>wake_n\<close> is a
  client that wakes up to \<open>n\<close> waiters; it wakes the first \<open>n\<close> in order of arrival.
\<close>

locale wait_fifo =
  fixes inv :: "'q \<Rightarrow> bool"
    and pending :: "'q \<Rightarrow> 'h list"
    and enq :: "'q \<Rightarrow> 'h \<times> 'q"
    and wakeOne :: "'q \<Rightarrow> bool \<times> 'q"
    and wakeAll :: "'q \<Rightarrow> nat \<times> 'q"
    and remv :: "'h \<Rightarrow> 'q \<Rightarrow> 'q"
  assumes inv_ops: "inv q \<Longrightarrow> inv (snd (enq q))" "inv q \<Longrightarrow> inv (snd (wakeOne q))"
      "inv q \<Longrightarrow> inv (snd (wakeAll q))" "inv q \<Longrightarrow> inv (remv h q)"
    and enq: "inv q \<Longrightarrow> pending (snd (enq q)) = pending q @ [fst (enq q)]"
    and enq_fresh: "inv q \<Longrightarrow> fst (enq q) \<notin> set (pending q)"
    and wakeOne: "inv q \<Longrightarrow> pending (snd (wakeOne q)) = tl (pending q)"
      "inv q \<Longrightarrow> fst (wakeOne q) \<longleftrightarrow> pending q \<noteq> []"
    and wakeAll: "inv q \<Longrightarrow> pending (snd (wakeAll q)) = []"
      "inv q \<Longrightarrow> fst (wakeAll q) = length (pending q)"
    and remv: "inv q \<Longrightarrow> pending (remv h q) = filter (\<lambda>x. x \<noteq> h) (pending q)"
begin

fun wake_n :: "nat \<Rightarrow> 'q \<Rightarrow> nat \<times> 'q" where
  "wake_n 0 q = (0, q)"
| "wake_n (Suc n) q =
     (let (b, q1) = wakeOne q; (k, q2) = wake_n n q1 in ((if b then Suc k else k), q2))"

lemma wake_n_fifo:
  "inv q \<Longrightarrow> inv (snd (wake_n n q)) \<and> pending (snd (wake_n n q)) = drop n (pending q) \<and>
   fst (wake_n n q) = min n (length (pending q))"
proof (induction n arbitrary: q)
  case 0
  then show ?case by simp
next
  case (Suc n)
  have "inv (snd (wakeOne q))" using Suc.prems by (rule inv_ops)
  with Suc.IH [of "snd (wakeOne q)"] wakeOne [OF Suc.prems] show ?case
    by (cases "pending q") (auto simp: Let_def case_prod_beta)
qed

end

interpretation wq: wait_fifo wq_inv pending_list "wq_enqueue ms" wq_wakeOne wq_wakeAll wq_remove
  for ms
  by unfold_locales
    (auto simp: wq_inv_enqueue wq_inv_wakeOne wq_inv_wakeAll wq_inv_remove pending_list_enqueue
      pending_list_wakeOne pending_list_wakeAll pending_list_remove pending_fresh)

subsection \<open>Every handle resolves once\<close>

datatype wq_call = WqEnqueue "int option" | WqRemove nat | WqWakeOne | WqWakeAll | WqClear | WqTimer nat

fun wq_step :: "wq_call \<Rightarrow> WaitQueue \<Rightarrow> WaitQueue" where
  "wq_step (WqEnqueue ms) q = snd (wq_enqueue ms q)"
| "wq_step (WqRemove h) q = wq_remove h q"
| "wq_step WqWakeOne q = snd (wq_wakeOne q)"
| "wq_step WqWakeAll q = snd (wq_wakeAll q)"
| "wq_step WqClear q = wq_clear q"
| "wq_step (WqTimer h) q = wq_timer h q"

definition resolved_as :: "WaitQueue \<Rightarrow> nat \<Rightarrow> bool \<Rightarrow> bool" where
  "resolved_as q h byTimeout \<longleftrightarrow>
     (case wq_store q h of None \<Rightarrow> False | Some w \<Rightarrow> wh_settled w \<and> wh_timedOut w = byTimeout)"

lemma wq_step_inv: "wq_inv q \<Longrightarrow> wq_inv (wq_step x q)"
  by (cases x) (auto simp: wq_inv_enqueue wq_inv_remove wq_inv_wakeOne wq_inv_wakeAll wq_clear_def
      wq_timer_def intro: wq_inv_update wq_inv_waiters)

lemma resolved_update:
  "resolved_as q h b \<Longrightarrow> resolved_as (wq_update handle_wake h' q) h b"
  "resolved_as q h b \<Longrightarrow> resolved_as (wq_update handle_timer h' q) h b"
  by (auto simp: resolved_as_def handle_wake_def handle_timer_def split: option.splits)

lemma resolved_waiters [simp]: "resolved_as (q\<lparr>wq_waiters := hs\<rparr>) h b = resolved_as q h b"
  by (simp add: resolved_as_def)

lemma resolved_wakeAll_loop: "resolved_as q h b \<Longrightarrow> resolved_as (snd (wakeAll_loop hs q)) h b"
  by (induction hs arbitrary: q) (auto simp: Let_def case_prod_beta resolved_update)

lemma wq_step_resolved:
  "wq_inv q \<and> resolved_as q h b \<Longrightarrow> wq_inv (wq_step x q) \<and> resolved_as (wq_step x q) h b"
proof (intro conjI)
  assume *: "wq_inv q \<and> resolved_as q h b"
  then show "wq_inv (wq_step x q)" by (simp add: wq_step_inv)
  have "wq_store q (wq_next q) = None" using * by (simp add: wq_inv_def)
  then have "h \<noteq> wq_next q" using * by (auto simp: resolved_as_def)
  then have "resolved_as (snd (wq_enqueue ms q)) h b" for ms
    using * by (simp add: wq_enqueue_def resolved_as_def)
  with * show "resolved_as (wq_step x q) h b"
    by (cases x) (auto simp: wq_remove_def wq_wakeOne_def wakeOne_loop_spec wq_wakeAll_def
        Let_def case_prod_beta wq_clear_def wq_timer_def resolved_update resolved_wakeAll_loop
        split: list.splits)
qed

interpretation wq_machine: invariant_component wq_step "\<lambda>_ _. True" wq_inv
  by unfold_locales (rule wq_step_inv)

interpretation wq_resolved: invariant_component wq_step "\<lambda>_ _. True"
  "\<lambda>q. wq_inv q \<and> resolved_as q h b" for h b
  by unfold_locales (rule wq_step_resolved)

subsection \<open>What a wait queue promises\<close>

text \<open>
  The specification has no handle objects: a list of waiters in order of arrival, how each handle
  was resolved (\<open>Some False\<close>: woken, \<open>Some True\<close>: timed out, \<open>None\<close>: still waiting), and which
  handles have a timeout running. A timeout takes its handle off the list by itself.
\<close>

record wait_spec =
  ws_next :: nat
  ws_queue :: "nat list"
  ws_outcome :: "nat \<Rightarrow> bool option"
  ws_timeout :: "nat \<Rightarrow> bool"

definition ws_new :: wait_spec where
  "ws_new = \<lparr>ws_next = 0, ws_queue = [], ws_outcome = (\<lambda>_. None), ws_timeout = (\<lambda>_. False)\<rparr>"

definition ws_resolve :: "nat set \<Rightarrow> bool \<Rightarrow> wait_spec \<Rightarrow> wait_spec" where
  "ws_resolve H byTimeout s =
     s\<lparr>ws_queue := filter (\<lambda>h. h \<notin> H) (ws_queue s),
       ws_outcome := (\<lambda>h. if h \<in> H then Some byTimeout else ws_outcome s h),
       ws_timeout := (\<lambda>h. h \<notin> H \<and> ws_timeout s h)\<rparr>"

fun ws_step :: "wq_call \<Rightarrow> wait_spec \<Rightarrow> wait_spec" where
  "ws_step (WqEnqueue ms) s =
     s\<lparr>ws_next := Suc (ws_next s), ws_queue := ws_queue s @ [ws_next s],
       ws_timeout := (ws_timeout s)(ws_next s := (case ms of None \<Rightarrow> False | Some n \<Rightarrow> 0 \<le> n))\<rparr>"
| "ws_step (WqRemove h) s = s\<lparr>ws_queue := filter (\<lambda>x. x \<noteq> h) (ws_queue s)\<rparr>"
| "ws_step WqWakeOne s = ws_resolve (set (take 1 (ws_queue s))) False s"
| "ws_step WqWakeAll s = ws_resolve (set (ws_queue s)) False s"
| "ws_step WqClear s = s\<lparr>ws_queue := []\<rparr>"
| "ws_step (WqTimer h) s = (if ws_timeout s h then ws_resolve {h} True s else s)"

definition abs_queue :: "WaitQueue \<Rightarrow> wait_spec" where
  "abs_queue q =
     \<lparr>ws_next = wq_next q, ws_queue = pending_list q,
      ws_outcome = (\<lambda>h. case wq_store q h of None \<Rightarrow> None
        | Some w \<Rightarrow> if wh_settled w then Some (wh_timedOut w) else None),
      ws_timeout = (\<lambda>h. case wq_store q h of None \<Rightarrow> False | Some w \<Rightarrow> wh_armed w)\<rparr>"

text \<open>An unsettled handle did not time out, and only an unsettled handle has its timer running.\<close>

definition handles_ok :: "WaitQueue \<Rightarrow> bool" where
  "handles_ok q \<longleftrightarrow> (\<forall>h w. wq_store q h = Some w \<longrightarrow>
     (wh_timedOut w \<longrightarrow> wh_settled w) \<and> (wh_armed w \<longrightarrow> \<not> wh_settled w))"

lemma handles_ok_update:
  "handles_ok q \<Longrightarrow> handles_ok (wq_update handle_wake h q)"
  "handles_ok q \<Longrightarrow> handles_ok (wq_update handle_timer h q)"
  by (auto simp: handles_ok_def handle_wake_def handle_timer_def)

lemma handles_ok_waiters [simp]: "handles_ok (q\<lparr>wq_waiters := hs\<rparr>) = handles_ok q"
  by (simp add: handles_ok_def)

lemma handles_ok_wakeAll_loop: "handles_ok q \<Longrightarrow> handles_ok (snd (wakeAll_loop hs q))"
  by (induction hs arbitrary: q) (auto simp: Let_def case_prod_beta handles_ok_update)

lemma handles_ok_step: "handles_ok q \<Longrightarrow> handles_ok (wq_step x q)"
proof (cases x)
  case (WqEnqueue ms)
  then show "handles_ok q \<Longrightarrow> ?thesis"
    by (auto simp: wq_enqueue_def handles_ok_def handle_new_def)
qed (auto simp: wq_remove_def wq_wakeOne_def wakeOne_loop_spec wq_wakeAll_def Let_def case_prod_beta
    wq_clear_def wq_timer_def handles_ok_update handles_ok_wakeAll_loop split: list.splits)

text \<open>The store after the handles of a list of unsettled handles were woken.\<close>

lemma abs_wake:
  assumes "handles_ok q" "\<not> isSettled q h"
  shows "ws_outcome (abs_queue (wq_update handle_wake h q)) = (ws_outcome (abs_queue q))(h := Some False)"
    "ws_timeout (abs_queue (wq_update handle_wake h q)) = (ws_timeout (abs_queue q))(h := False)"
  using assms
  by (auto simp: abs_queue_def handles_ok_def handle_wake_def isSettled_def fun_eq_iff split: option.splits)

lemma abs_waiters [simp]:
  "ws_outcome (abs_queue (q\<lparr>wq_waiters := hs\<rparr>)) = ws_outcome (abs_queue q)"
  "ws_timeout (abs_queue (q\<lparr>wq_waiters := hs\<rparr>)) = ws_timeout (abs_queue q)"
  "ws_next (abs_queue q) = wq_next q" "ws_queue (abs_queue q) = pending_list q"
  by (simp_all add: abs_queue_def)

lemma abs_wakeAll_loop:
  assumes "handles_ok q"
  shows "ws_outcome (abs_queue (snd (wakeAll_loop hs q))) h =
      (if h \<in> set hs \<and> \<not> isSettled q h then Some False else ws_outcome (abs_queue q) h)"
    "ws_timeout (abs_queue (snd (wakeAll_loop hs q))) h =
      (\<not> (h \<in> set hs \<and> \<not> isSettled q h) \<and> ws_timeout (abs_queue q) h)"
  using assms
  by (induction hs arbitrary: q) (auto simp: Let_def case_prod_beta handles_ok_update abs_wake)

lemma abs_step_enqueue: "wq_inv q \<Longrightarrow> abs_queue (wq_step (WqEnqueue ms) q) = ws_step (WqEnqueue ms) (abs_queue q)"
proof -
  assume inv: "wq_inv q"
  then have "wq_store q (wq_next q) = None" by (simp add: wq_inv_def)
  moreover have "fst (wq_enqueue ms q) = wq_next q" by (simp add: wq_enqueue_def)
  ultimately show ?thesis
    using wq.enq [OF inv, of ms]
    by (auto simp: abs_queue_def wq_enqueue_def handle_new_def fun_eq_iff)
qed

lemma abs_step_wakeOne:
  assumes inv: "wq_inv q" and ok: "handles_ok q"
  shows "abs_queue (wq_step WqWakeOne q) = ws_step WqWakeOne (abs_queue q)"
proof (cases "dropWhile (isSettled q) (wq_waiters q)")
  case Nil
  with filter_dropWhile_cases [of "isSettled q" "wq_waiters q"] show ?thesis
    by (simp add: wq_wakeOne_def wakeOne_loop_spec ws_resolve_def abs_queue_def pending_list_def
        del: dropWhile_eq_Nil_conv)
next
  case (Cons h hs)
  with filter_dropWhile_cases [of "isSettled q" "wq_waiters q"]
  have h: "\<not> isSettled q h" and p: "pending_list q = h # filter (\<lambda>x. \<not> isSettled q x) hs"
    by (simp_all add: pending_list_def)
  have d: "distinct (pending_list q)" using inv by (simp add: wq_inv_def pending_list_def)
  have st: "snd (wq_wakeOne q) = (wq_update handle_wake h q)\<lparr>wq_waiters := hs\<rparr>"
    using Cons by (simp add: wq_wakeOne_def wakeOne_loop_spec)
  have "tl (pending_list q) = filter (\<lambda>x. x \<noteq> h) (pending_list q)"
    using d by (auto simp: p intro!: filter_cong)
  moreover have "set (take 1 (pending_list q)) = {h}" by (simp add: p)
  ultimately show ?thesis
    using wq.wakeOne(1) [OF inv] abs_wake [OF ok h] st
    by (auto intro!: wait_spec.equality simp: ws_resolve_def fun_eq_iff)
qed

lemma abs_step_wakeAll:
  assumes inv: "wq_inv q" and ok: "handles_ok q"
  shows "abs_queue (wq_step WqWakeAll q) = ws_step WqWakeAll (abs_queue q)"
proof (rule wait_spec.equality)
  have m: "h \<in> set (pending_list q) \<longleftrightarrow> h \<in> set (wq_waiters q) \<and> \<not> isSettled q h" for h
    by (auto simp: pending_list_def)
  show "ws_outcome (abs_queue (wq_step WqWakeAll q)) = ws_outcome (ws_step WqWakeAll (abs_queue q))"
    "ws_timeout (abs_queue (wq_step WqWakeAll q)) = ws_timeout (ws_step WqWakeAll (abs_queue q))"
    by (simp_all add: fun_eq_iff wq_wakeAll_def Let_def case_prod_beta ws_resolve_def abs_wakeAll_loop ok m)
  show "ws_queue (abs_queue (wq_step WqWakeAll q)) = ws_queue (ws_step WqWakeAll (abs_queue q))"
    using wq.wakeAll(1) [OF inv] by (simp add: ws_resolve_def)
qed (simp_all add: wq_wakeAll_def Let_def case_prod_beta ws_resolve_def wakeAll_loop_effect)

lemma abs_step_timer:
  assumes inv: "wq_inv q" and ok: "handles_ok q"
  shows "abs_queue (wq_step (WqTimer h) q) = ws_step (WqTimer h) (abs_queue q)"
proof (cases "ws_timeout (abs_queue q) h")
  case True
  then obtain w where w: "wq_store q h = Some w" "wh_armed w" "\<not> wh_settled w"
    using ok by (auto simp: abs_queue_def handles_ok_def split: option.splits)
  then have "isSettled (wq_timer h q) x \<longleftrightarrow> x = h \<or> isSettled q x" for x
    by (auto simp: isSettled_def wq_timer_def handle_timer_def)
  then have "pending_list (wq_timer h q) = filter (\<lambda>x. x \<notin> {h}) (pending_list q)"
    by (auto simp: pending_list_def wq_timer_def intro!: filter_cong)
  with w True show ?thesis
    by (auto intro!: wait_spec.equality
        simp: abs_queue_def ws_resolve_def wq_timer_def handle_timer_def fun_eq_iff)
next
  case False
  then have "wq_timer h q = q"
    by (auto simp: abs_queue_def wq_timer_def wq_update_def handle_timer_def fun_upd_idem split: option.splits)
  with False show ?thesis by simp
qed

lemma abs_step:
  assumes "wq_inv q" "handles_ok q"
  shows "abs_queue (wq_step x q) = ws_step x (abs_queue q)"
proof (cases x)
  case (WqRemove h)
  with wq.remv [OF assms(1), of h] show ?thesis by (simp add: abs_queue_def wq_remove_def)
next
  case WqClear
  then show ?thesis by (simp add: abs_queue_def wq_clear_def pending_list_def)
qed (use assms abs_step_enqueue abs_step_wakeOne abs_step_wakeAll abs_step_timer in simp_all)

interpretation wq_handles: invariant_component wq_step "\<lambda>_ _. True" "\<lambda>q. wq_inv q \<and> handles_ok q"
  by unfold_locales (simp add: wq_step_inv handles_ok_step)

lemma handles_ok_new: "wq_inv wq_new \<and> handles_ok wq_new"
  by (simp add: wq_inv_new) (simp add: handles_ok_def wq_new_def)

lemma abs_run:
  "wq_inv q \<and> handles_ok q \<Longrightarrow> abs_queue (run_ops wq_step calls q) = run_ops ws_step calls (abs_queue q)"
proof (induction calls arbitrary: q)
  case (Cons x calls)
  with wq_handles.step_inv [of q x] show ?case by (simp add: abs_step)
qed simp

text \<open>
  C22. A wait queue refines the plain list of waiters above, in every run of enqueues (with and
  without timeout), removals, wakes, clears and timer callbacks: the waiters still in line, in order
  of arrival, how every handle was resolved, and which timeouts are running are those of the
  specification. So a wake resolves the waiter that came first among those neither woken, timed out
  nor removed, resolves no other, and stops its timeout; a timeout resolves its own handle only, and
  only if that was not resolved before. The values returned are those of the specification too: the
  handle of an enqueue is fresh, \<^verbatim>\<open>wakeOne\<close> answers whether anybody waited, \<^verbatim>\<open>wakeAll\<close> and
  \<^verbatim>\<open>pending\<close> how many.
\<close>

theorem wait_queue_refines:
  "let q = run_ops wq_step calls wq_new; s = run_ops ws_step calls ws_new
   in abs_queue q = s \<and> fst (wq_enqueue ms q) = ws_next s \<and> wq_store q (ws_next s) = None \<and>
      fst (wq_wakeOne q) = (ws_queue s \<noteq> []) \<and> fst (wq_wakeAll q) = length (ws_queue s) \<and>
      wq_pending q = length (ws_queue s)"
proof -
  let ?q = "run_ops wq_step calls wq_new"
  have inv: "wq_inv ?q" by (rule wq_machine.run_inv [OF wq_inv_new guarded_True])
  have "abs_queue wq_new = ws_new"
    by (simp add: abs_queue_def wq_new_def ws_new_def pending_list_def)
  then have r: "run_ops ws_step calls ws_new = abs_queue ?q"
    using abs_run [OF handles_ok_new, of calls] by simp
  have "wq_store ?q (wq_next ?q) = None" using inv by (simp add: wq_inv_def)
  with wq.wakeOne(2) [OF inv] wq.wakeAll(2) [OF inv] show ?thesis
    by (simp add: r Let_def wq_enqueue_def wq_pending_def pending_list_def)
qed

text \<open>
  A handle resolves at most once: after it was settled, by a wake or by its timeout, no sequence
  of queue operations and timer callbacks makes it pending again or changes whether it timed out.
\<close>

theorem handle_resolves_once:
  assumes "resolved_as (run_ops wq_step calls wq_new) h byTimeout"
  shows "resolved_as (run_ops wq_step (calls @ later) wq_new) h byTimeout"
proof -
  have "wq_inv (run_ops wq_step calls wq_new)"
    by (rule wq_machine.run_inv [OF wq_inv_new guarded_True])
  with assms wq_resolved.run_inv [of "run_ops wq_step calls wq_new" h byTimeout later]
  show ?thesis by (simp add: run_ops_append)
qed

theorem handle_resolves_once_witness:
  "resolved_as (run_ops wq_step ([WqEnqueue (Some 5), WqTimer 0] @ [WqWakeOne, WqTimer 0]) wq_new) 0 True"
  by (rule handle_resolves_once)
    (simp add: wq_enqueue_def wq_new_def wq_timer_def handle_new_def handle_timer_def resolved_as_def)

end
