(* ===== verification/Pipe_Manager.thy ===== *)
theory Pipe_Manager
  imports FD_Table Wait_Queue
begin

section \<open>Pipes\<close>

text \<open>
  \<^verbatim>\<open>kernel/pipe-manager.ts\<close>. A pipe state is a mutable object that the manager's map and suspended
  writers share: \<open>pm_states\<close> is the store of the objects (by pipe id, never reused), \<open>pm_pipes\<close> the
  ids the manager's map \<^verbatim>\<open>pipes\<close> still holds.

  A promise is a number from \<open>pm_nextToken\<close>. \<^verbatim>\<open>read\<close> always returns one; its resolution, at once or
  later by a writer or a close, is an event \<open>ReadResolved\<close>. A writer that blocks leaves its
  continuation in \<open>pm_blocked\<close>; \<open>pm_resume\<close> is what runs when its wait handle is settled.
  \<open>Accepted\<close> records the bytes a write moved into the pipe and \<open>BrokenPipe\<close> a call of the
  \<^verbatim>\<open>onBrokenPipe\<close> hook. Operations return their events, their result and the new state.
\<close>

subsection \<open>Data\<close>

datatype pipe_side = ReadEnd | WriteEnd

record PipeState =
  ps_id :: nat
  ps_buffer :: "bytes list"
  ps_closedRead :: bool
  ps_closedWrite :: bool
  ps_readDescription :: dref
  ps_writeDescription :: dref
  ps_readWaiters :: "nat list"
  ps_writeWaiters :: WaitQueue
  ps_pollWaiters :: WaitQueue

record BlockedWriter =
  bw_pipe :: nat
  bw_data :: bytes
  bw_offset :: nat
  bw_pid :: "pid option"
  bw_handle :: nat

record PipeManager =
  pm_states :: "(nat, PipeState) jsmap"
  pm_pipes :: "nat list"
  pm_descToPipe :: "(nat, nat \<times> pipe_side) jsmap"
  pm_nextPipeId :: nat
  pm_nextDescId :: nat
  pm_onBrokenPipe :: bool
  pm_blocked :: "(nat, BlockedWriter) jsmap"
  pm_nextToken :: nat

datatype pipe_event =
    ReadResolved nat nat "bytes option"
  | Accepted nat bytes
  | BrokenPipe pid
  | WriteResolved nat "nat res"

datatype write_outcome = Written nat | WriteBlocks nat

definition MAX_PIPE_BUFFER_BYTES :: nat where "MAX_PIPE_BUFFER_BYTES = 65536"

definition pm_new :: "bool \<Rightarrow> PipeManager" where
  "pm_new hook = \<lparr>pm_states = [], pm_pipes = [], pm_descToPipe = [], pm_nextPipeId = 1,
     pm_nextDescId = 100000, pm_onBrokenPipe = hook, pm_blocked = [], pm_nextToken = 0\<rparr>"

subsection \<open>Operations on one pipe\<close>

definition pipe_bufferSize :: "PipeState \<Rightarrow> nat" where
  "pipe_bufferSize st = sum_list (map length (ps_buffer st))"

text \<open>
  The loop of \<^verbatim>\<open>drainBuffer\<close>: the chunks taken and the buffer left. The result is the chunks
  copied one after another (a single chunk is returned as it is, which is the same bytes).
\<close>

fun drain_loop :: "nat \<Rightarrow> 'b list list \<Rightarrow> 'b list list \<times> 'b list list" where
  "drain_loop remaining [] = ([], [])"
| "drain_loop remaining (chunk # buf) =
     (if remaining = 0 then ([], chunk # buf)
      else if length chunk \<le> remaining
      then (let (cs, buf') = drain_loop (remaining - length chunk) buf in (chunk # cs, buf'))
      else ([take remaining chunk], drop remaining chunk # buf))"

definition drainBuffer :: "nat \<Rightarrow> 'b list list \<Rightarrow> 'b list \<times> 'b list list" where
  "drainBuffer len buf = (let (cs, buf') = drain_loop len buf in (concat cs, buf'))"

definition assertWriteOpen :: "bool \<Rightarrow> PipeState \<Rightarrow> pid option \<Rightarrow> pipe_event list \<times> unit res" where
  "assertWriteOpen hook st writerPid =
     (if ps_closedWrite st then ([], Inl EPIPE)
      else if ps_closedRead st
      then ((case writerPid of None \<Rightarrow> [] | Some p \<Rightarrow> if hook then [BrokenPipe p] else []), Inl EPIPE)
      else ([], Inr ()))"

definition wakePollers :: "PipeState \<Rightarrow> PipeState" where
  "wakePollers st = st\<lparr>ps_pollWaiters := snd (wq_wakeAll (ps_pollWaiters st))\<rparr>"

definition writeAvailable ::
  "bool \<Rightarrow> PipeState \<Rightarrow> bytes \<Rightarrow> pid option \<Rightarrow> pipe_event list \<times> nat res \<times> PipeState" where
  "writeAvailable hook st data writerPid =
     (case assertWriteOpen hook st writerPid of
        (evs, Inl e) \<Rightarrow> (evs, Inl e, st)
      | (evs, Inr _) \<Rightarrow>
          if data = [] then (evs, Inr 0, st)
          else if ps_readWaiters st \<noteq> [] \<and> ps_buffer st = [] then
            (evs @ [Accepted (ps_id st) data, ReadResolved (ps_id st) (hd (ps_readWaiters st)) (Some data)],
             Inr (length data),
             wakePollers (st\<lparr>ps_readWaiters := tl (ps_readWaiters st)\<rparr>))
          else if MAX_PIPE_BUFFER_BYTES \<le> pipe_bufferSize st then (evs, Inr 0, st)
          else
            let bytesToWrite = min (MAX_PIPE_BUFFER_BYTES - pipe_bufferSize st) (length data)
            in (evs @ [Accepted (ps_id st) (take bytesToWrite data)], Inr bytesToWrite,
                wakePollers (st\<lparr>ps_buffer := ps_buffer st @ [take bytesToWrite data]\<rparr>)))"

subsection \<open>Operations of the manager\<close>

definition pm_putState :: "PipeState \<Rightarrow> PipeManager \<Rightarrow> PipeManager" where
  "pm_putState st m = m\<lparr>pm_states := mput (ps_id st) st (pm_states m)\<rparr>"

text \<open>\<^verbatim>\<open>this.pipes.get(ref.pipeId)\<close>.\<close>

definition pm_getPipe :: "PipeManager \<Rightarrow> nat \<Rightarrow> PipeState option" where
  "pm_getPipe m k = (if k \<in> set (pm_pipes m) then mget (pm_states m) k else None)"

definition createPipe :: "desc_env \<times> PipeManager \<Rightarrow> (dref \<times> dref) \<times> desc_env \<times> PipeManager" where
  "createPipe = (\<lambda>(env, m).
     let k = pm_nextPipeId m;
         readId = pm_nextDescId m;
         (rd, env1) = newDesc \<lparr>desc_id = readId, desc_path = ''pipe:'' @ dec k @ '':read'',
           desc_cursor = 0, desc_flags = O_RDONLY, desc_refCount = 0, desc_creationMode = None\<rparr> env;
         writeId = Suc readId;
         (wd, env2) = newDesc \<lparr>desc_id = writeId, desc_path = ''pipe:'' @ dec k @ '':write'',
           desc_cursor = 0, desc_flags = O_WRONLY, desc_refCount = 0, desc_creationMode = None\<rparr> env1;
         st = \<lparr>ps_id = k, ps_buffer = [], ps_closedRead = False, ps_closedWrite = False,
           ps_readDescription = rd, ps_writeDescription = wd, ps_readWaiters = [],
           ps_writeWaiters = wq_new, ps_pollWaiters = wq_new\<rparr>
     in ((rd, wd), env2,
         m\<lparr>pm_states := mput k st (pm_states m), pm_pipes := pm_pipes m @ [k],
           pm_descToPipe := mput writeId (k, WriteEnd) (mput readId (k, ReadEnd) (pm_descToPipe m)),
           pm_nextPipeId := Suc k, pm_nextDescId := Suc writeId\<rparr>))"

text \<open>The suspended part of \<^verbatim>\<open>writeBlocking\<close>: enqueue a handle and wait.\<close>

definition blockWriter ::
  "nat \<Rightarrow> PipeState \<Rightarrow> bytes \<Rightarrow> nat \<Rightarrow> pid option \<Rightarrow> PipeManager \<Rightarrow> PipeManager" where
  "blockWriter tok st data offset writerPid m =
     (let (h, q) = wq_enqueue None (ps_writeWaiters st)
      in (pm_putState (st\<lparr>ps_writeWaiters := q\<rparr>) m)\<lparr>pm_blocked :=
            mput tok \<lparr>bw_pipe = ps_id st, bw_data = data, bw_offset = offset, bw_pid = writerPid,
              bw_handle = h\<rparr> (pm_blocked m)\<rparr>)"

definition pm_write ::
  "desc_env \<Rightarrow> nat \<Rightarrow> bytes \<Rightarrow> pid option \<Rightarrow> PipeManager \<Rightarrow>
   pipe_event list \<times> write_outcome res \<times> PipeManager" where
  "pm_write env descriptionId data writerPid m =
     (case mget (pm_descToPipe m) descriptionId of
        Some (k, WriteEnd) \<Rightarrow>
          (case pm_getPipe m k of
             None \<Rightarrow> ([], Inl EBADF, m)
           | Some st \<Rightarrow>
               let nonBlocking = (case de_heap env (ps_writeDescription st) of
                     None \<Rightarrow> False | Some d \<Rightarrow> desc_flags d AND O_NONBLOCK \<noteq> 0)
               in (case writeAvailable (pm_onBrokenPipe m) st data writerPid of
                     (evs, Inl e, st1) \<Rightarrow> (evs, Inl e, m)
                   | (evs, Inr written, st1) \<Rightarrow>
                       if written = length data
                       then (evs, Inr (Written (length data)), pm_putState st1 m)
                       else if nonBlocking
                       then (evs, (if written = 0 then Inl EAGAIN else Inr (Written written)), pm_putState st1 m)
                       else (evs, Inr (WriteBlocks (pm_nextToken m)),
                             blockWriter (pm_nextToken m) st1 data written writerPid
                               (m\<lparr>pm_nextToken := Suc (pm_nextToken m)\<rparr>))))
      | _ \<Rightarrow> ([], Inl EBADF, m))"

text \<open>One turn of the loop of \<^verbatim>\<open>writeBlocking\<close>, run once the writer's handle is settled.\<close>

definition pm_resume :: "nat \<Rightarrow> PipeManager \<Rightarrow> pipe_event list \<times> PipeManager" where
  "pm_resume tok m =
     (case mget (pm_blocked m) tok of
        None \<Rightarrow> ([], m)
      | Some w \<Rightarrow>
          (case mget (pm_states m) (bw_pipe w) of
             None \<Rightarrow> ([], m)
           | Some st \<Rightarrow>
               if \<not> isSettled (ps_writeWaiters st) (bw_handle w) then ([], m)
               else
                 let st0 = st\<lparr>ps_writeWaiters := wq_remove (bw_handle w) (ps_writeWaiters st)\<rparr>;
                     m0 = m\<lparr>pm_blocked := mdel tok (pm_blocked m)\<rparr>
                 in (case writeAvailable (pm_onBrokenPipe m) st0 (drop (bw_offset w) (bw_data w)) (bw_pid w) of
                       (evs, Inl e, st1) \<Rightarrow> (evs @ [WriteResolved tok (Inl e)], pm_putState st1 m0)
                     | (evs, Inr n, st1) \<Rightarrow>
                         if length (bw_data w) \<le> bw_offset w + n
                         then (evs @ [WriteResolved tok (Inr (length (bw_data w)))], pm_putState st1 m0)
                         else (evs, blockWriter tok st1 (bw_data w) (bw_offset w + n) (bw_pid w) m0))))"

definition pm_read :: "nat \<Rightarrow> nat \<Rightarrow> PipeManager \<Rightarrow> pipe_event list \<times> nat res \<times> PipeManager" where
  "pm_read descriptionId len m =
     (case mget (pm_descToPipe m) descriptionId of
        Some (k, ReadEnd) \<Rightarrow>
          (case pm_getPipe m k of
             None \<Rightarrow> ([], Inl EBADF, m)
           | Some st \<Rightarrow>
               let tok = pm_nextToken m; m1 = m\<lparr>pm_nextToken := Suc tok\<rparr>
               in if ps_buffer st \<noteq> [] then
                    let (data, buf) = drainBuffer len (ps_buffer st);
                        st1 = wakePollers (st\<lparr>ps_buffer := buf,
                                ps_writeWaiters := snd (wq_wakeOne (ps_writeWaiters st))\<rparr>)
                    in ([ReadResolved k tok (Some data)], Inr tok, pm_putState st1 m1)
                  else if ps_closedWrite st then ([ReadResolved k tok None], Inr tok, m1)
                  else ([], Inr tok, pm_putState (st\<lparr>ps_readWaiters := ps_readWaiters st @ [tok]\<rparr>) m1))
      | _ \<Rightarrow> ([], Inl EBADF, m))"

definition pm_close :: "nat \<Rightarrow> PipeManager \<Rightarrow> pipe_event list \<times> PipeManager" where
  "pm_close descriptionId m =
     (case mget (pm_descToPipe m) descriptionId of
        None \<Rightarrow> ([], m)
      | Some (k, side) \<Rightarrow>
          (case pm_getPipe m k of
             None \<Rightarrow> ([], m)
           | Some st \<Rightarrow>
               let evs = (case side of ReadEnd \<Rightarrow> []
                     | WriteEnd \<Rightarrow> map (\<lambda>tok. ReadResolved k tok None) (ps_readWaiters st));
                   st1 = (case side of
                       ReadEnd \<Rightarrow> st\<lparr>ps_closedRead := True\<rparr>
                     | WriteEnd \<Rightarrow> st\<lparr>ps_closedWrite := True, ps_readWaiters := []\<rparr>);
                   st2 = wakePollers (st1\<lparr>ps_writeWaiters := snd (wq_wakeAll (ps_writeWaiters st1))\<rparr>);
                   m1 = (pm_putState st2 m)\<lparr>pm_descToPipe := mdel descriptionId (pm_descToPipe m)\<rparr>
               in (evs, if ps_closedRead st2 \<and> ps_closedWrite st2
                        then m1\<lparr>pm_pipes := filter (\<lambda>x. x \<noteq> k) (pm_pipes m1)\<rparr> else m1)))"

definition isPipe :: "PipeManager \<Rightarrow> nat \<Rightarrow> bool" where
  "isPipe m descriptionId = mhas (pm_descToPipe m) descriptionId"

record PollState =
  po_readable :: bool
  po_writable :: bool
  po_hangup :: bool

definition pm_pollState :: "PipeManager \<Rightarrow> nat \<Rightarrow> PollState option" where
  "pm_pollState m descriptionId =
     (case mget (pm_descToPipe m) descriptionId of
        None \<Rightarrow> None
      | Some (k, side) \<Rightarrow>
          (case pm_getPipe m k of
             None \<Rightarrow> None
           | Some st \<Rightarrow>
               Some (case side of
                  ReadEnd \<Rightarrow> \<lparr>po_readable = (0 < pipe_bufferSize st \<or> ps_closedWrite st), po_writable = False,
                    po_hangup = ps_closedWrite st\<rparr>
                | WriteEnd \<Rightarrow> \<lparr>po_readable = False,
                    po_writable = (\<not> ps_closedRead st \<and> pipe_bufferSize st < MAX_PIPE_BUFFER_BYTES),
                    po_hangup = ps_closedRead st\<rparr>)))"

definition pipeIdFor :: "PipeManager \<Rightarrow> nat \<Rightarrow> nat option" where
  "pipeIdFor m descriptionId = map_option fst (mget (pm_descToPipe m) descriptionId)"

text \<open>\<^verbatim>\<open>waitForPoll\<close> up to its \<^verbatim>\<open>await\<close>, and its \<^verbatim>\<open>finally\<close> block.\<close>

definition pm_waitForPoll :: "nat \<Rightarrow> int option \<Rightarrow> PipeManager \<Rightarrow> ((nat \<times> nat) \<times> PipeManager) res" where
  "pm_waitForPoll descriptionId timeoutMs m =
     (case mget (pm_descToPipe m) descriptionId of
        None \<Rightarrow> Inl EBADF
      | Some (k, side) \<Rightarrow>
          (case pm_getPipe m k of
             None \<Rightarrow> Inl EBADF
           | Some st \<Rightarrow>
               let (h, q) = wq_enqueue timeoutMs (ps_pollWaiters st)
               in Inr ((k, h), pm_putState (st\<lparr>ps_pollWaiters := q\<rparr>) m)))"

definition pm_pollDone :: "nat \<times> nat \<Rightarrow> PipeManager \<Rightarrow> PipeManager" where
  "pm_pollDone = (\<lambda>(k, h) m.
     case mget (pm_states m) k of
       None \<Rightarrow> m
     | Some st \<Rightarrow> pm_putState (st\<lparr>ps_pollWaiters := wq_remove h (ps_pollWaiters st)\<rparr>) m)"

text \<open>
  \<^verbatim>\<open>createPipeFDs\<close>. When the second \<^verbatim>\<open>openWith\<close> throws, the first descriptor and the pipe stay: the
  result carries the state in both cases.
\<close>

definition createPipeFDs ::
  "desc_env \<times> ProcessFDTable \<times> PipeManager \<Rightarrow> (fdnum \<times> fdnum) res \<times> desc_env \<times> ProcessFDTable \<times> PipeManager"
where
  "createPipeFDs = (\<lambda>(env, t, m).
     let ((rd, wd), env1, m1) = createPipe (env, m)
     in case fdt_openWith rd FILETYPE_PIPE None (env1, t) of
          Inl e \<Rightarrow> (Inl e, env1, t, m1)
        | Inr (readFd, env2, t2) \<Rightarrow>
            (case fdt_openWith wd FILETYPE_PIPE None (env2, t2) of
               Inl e \<Rightarrow> (Inl e, env2, t2, m1)
             | Inr (writeFd, env3, t3) \<Rightarrow> (Inr (readFd, writeFd), env3, t3, m1)))"

subsection \<open>The drain contract\<close>

lemma drain_loop_spec:
  "concat (fst (drain_loop n buf)) = take n (concat buf) \<and>
   concat (snd (drain_loop n buf)) = drop n (concat buf) \<and>
   ([] \<notin> set buf \<longrightarrow> [] \<notin> set (snd (drain_loop n buf)))"
proof (induction n buf rule: drain_loop.induct)
  case (2 n chunk buf)
  show ?case
  proof (cases "n = 0 \<or> n < length chunk")
    case True
    then show ?thesis by auto
  next
    case False
    with 2 show ?thesis by (auto simp: Let_def case_prod_beta take_append)
  qed
qed simp

interpretation pipe_buf: chunk_reader drainBuffer
  using drain_loop_spec
  by unfold_locales (auto simp: drainBuffer_def Let_def case_prod_beta)

subsection \<open>The invariant of a pipe\<close>

definition accepted :: "nat \<Rightarrow> pipe_event list \<Rightarrow> bytes" where
  "accepted k log = concat (map (\<lambda>e. case e of Accepted j b \<Rightarrow> if j = k then b else [] | _ \<Rightarrow> []) log)"

definition delivered :: "nat \<Rightarrow> pipe_event list \<Rightarrow> bytes" where
  "delivered k log =
     concat (map (\<lambda>e. case e of ReadResolved j tok (Some b) \<Rightarrow> if j = k then b else [] | _ \<Rightarrow> []) log)"

definition pipe_ok :: "PipeState \<Rightarrow> bool" where
  "pipe_ok st \<longleftrightarrow> [] \<notin> set (ps_buffer st) \<and> pipe_bufferSize st \<le> MAX_PIPE_BUFFER_BYTES \<and>
     (ps_readWaiters st \<noteq> [] \<longrightarrow> ps_buffer st = [] \<and> \<not> ps_closedWrite st) \<and>
     wq_inv (ps_writeWaiters st) \<and> wq_inv (ps_pollWaiters st)"

text \<open>
  One operation on a pipe conserves the byte stream: what was buffered and what it accepts is what
  it delivers followed by what is buffered afterwards; no other pipe is touched.
\<close>

definition pipe_flow :: "PipeState \<Rightarrow> pipe_event list \<Rightarrow> PipeState \<Rightarrow> bool" where
  "pipe_flow st evs st' \<longleftrightarrow> ps_id st' = ps_id st \<and>
     concat (ps_buffer st) @ accepted (ps_id st) evs = delivered (ps_id st) evs @ concat (ps_buffer st') \<and>
     (\<forall>j. j \<noteq> ps_id st \<longrightarrow> accepted j evs = [] \<and> delivered j evs = [])"

lemma log_simps [simp]:
  "accepted k [] = []" "delivered k [] = []"
  "accepted k (l1 @ l2) = accepted k l1 @ accepted k l2"
  "delivered k (l1 @ l2) = delivered k l1 @ delivered k l2"
  "accepted k (Accepted j b # l) = (if j = k then b else []) @ accepted k l"
  "delivered k (Accepted j b # l) = delivered k l"
  "accepted k (ReadResolved j tok r # l) = accepted k l"
  "delivered k (ReadResolved j tok (Some b) # l) = (if j = k then b else []) @ delivered k l"
  "delivered k (ReadResolved j tok None # l) = delivered k l"
  "accepted k (BrokenPipe p # l) = accepted k l" "delivered k (BrokenPipe p # l) = delivered k l"
  "accepted k (WriteResolved t r' # l) = accepted k l" "delivered k (WriteResolved t r' # l) = delivered k l"
  by (simp_all add: accepted_def delivered_def)

lemma bufferSize_concat: "pipe_bufferSize st = length (concat (ps_buffer st))"
  by (simp add: pipe_bufferSize_def length_concat)

lemma wakePollers_sel [simp]:
  "ps_id (wakePollers st) = ps_id st" "ps_buffer (wakePollers st) = ps_buffer st"
  "ps_closedRead (wakePollers st) = ps_closedRead st" "ps_closedWrite (wakePollers st) = ps_closedWrite st"
  "ps_readWaiters (wakePollers st) = ps_readWaiters st"
  "ps_writeWaiters (wakePollers st) = ps_writeWaiters st"
  "pipe_bufferSize (wakePollers st) = pipe_bufferSize st"
  "pipe_ok st \<Longrightarrow> pipe_ok (wakePollers st)"
  by (simp_all add: wakePollers_def pipe_bufferSize_def pipe_ok_def wq_inv_wakeAll)

lemma assertWriteOpen_log [simp]:
  "assertWriteOpen hook st p = (evs, r) \<Longrightarrow> accepted k evs = []"
  "assertWriteOpen hook st p = (evs, r) \<Longrightarrow> delivered k evs = []"
  by (auto simp: assertWriteOpen_def split: if_splits option.splits)

lemma writeAvailable_cases:
  assumes run: "writeAvailable hook st data p = (evs, r, st')"
  obtains
    (thrown) e where "r = Inl e" "st' = st" "\<And>k. accepted k evs = [] \<and> delivered k evs = []"
      "assertWriteOpen hook st p = (evs, Inl e)"
  | (none) "r = Inr 0" "st' = st" "evs = []" "data = [] \<or> MAX_PIPE_BUFFER_BYTES \<le> pipe_bufferSize st"
      "\<not> ps_closedRead st" "\<not> ps_closedWrite st"
  | (direct) tok rest where "ps_readWaiters st = tok # rest" "ps_buffer st = []" "data \<noteq> []"
      "evs = [Accepted (ps_id st) data, ReadResolved (ps_id st) tok (Some data)]"
      "r = Inr (length data)" "st' = wakePollers (st\<lparr>ps_readWaiters := rest\<rparr>)"
      "\<not> ps_closedRead st" "\<not> ps_closedWrite st"
  | (buffered) n where "n = min (MAX_PIPE_BUFFER_BYTES - pipe_bufferSize st) (length data)"
      "0 < n" "pipe_bufferSize st + n \<le> MAX_PIPE_BUFFER_BYTES"
      "ps_readWaiters st = [] \<or> ps_buffer st \<noteq> []"
      "evs = [Accepted (ps_id st) (take n data)]" "r = Inr n"
      "st' = wakePollers (st\<lparr>ps_buffer := ps_buffer st @ [take n data]\<rparr>)"
      "\<not> ps_closedRead st" "\<not> ps_closedWrite st"
proof (cases "snd (assertWriteOpen hook st p)")
  case (Inl e)
  then obtain evs0 where a: "assertWriteOpen hook st p = (evs0, Inl e)"
    by (cases "assertWriteOpen hook st p") simp
  from assertWriteOpen_log [OF a] a run show ?thesis
    by (intro thrown [of e]) (auto simp: writeAvailable_def)
next
  case (Inr u)
  then have o: "\<not> ps_closedRead st" "\<not> ps_closedWrite st" and a: "assertWriteOpen hook st p = ([], Inr ())"
    by (auto simp: assertWriteOpen_def split: if_splits)
  consider (e) "data = []" | (d) "data \<noteq> []" "ps_readWaiters st \<noteq> []" "ps_buffer st = []"
    | (f) "data \<noteq> []" "ps_readWaiters st = [] \<or> ps_buffer st \<noteq> []" "MAX_PIPE_BUFFER_BYTES \<le> pipe_bufferSize st"
    | (b) "data \<noteq> []" "ps_readWaiters st = [] \<or> ps_buffer st \<noteq> []" "pipe_bufferSize st < MAX_PIPE_BUFFER_BYTES"
    by (cases "data = []"; cases "ps_readWaiters st = [] \<or> ps_buffer st \<noteq> []";
        cases "MAX_PIPE_BUFFER_BYTES \<le> pipe_bufferSize st") (auto simp: not_le)
  then show ?thesis
  proof cases
    case e
    with run a o show ?thesis by (intro none) (auto simp: writeAvailable_def)
  next
    case d
    with run a o show ?thesis
      by (intro direct [of "hd (ps_readWaiters st)" "tl (ps_readWaiters st)"]) (auto simp: writeAvailable_def)
  next
    case f
    with run a o show ?thesis by (intro none) (auto simp: writeAvailable_def)
  next
    case b
    with run a o show ?thesis
      by (intro buffered [of "min (MAX_PIPE_BUFFER_BYTES - pipe_bufferSize st) (length data)"])
        (auto simp: writeAvailable_def Let_def min_def)
  qed
qed

lemma writeAvailable_ok:
  assumes run: "writeAvailable hook st data p = (evs, r, st')" and ok: "pipe_ok st"
  shows "pipe_ok st'" "pipe_flow st evs st'"
proof -
  have "pipe_ok st' \<and> pipe_flow st evs st'"
    using run
  proof (cases rule: writeAvailable_cases)
    case (buffered n)
    then have "length (take n data) = n" "take n data \<noteq> []" by auto
    with buffered ok show ?thesis
      by (auto simp: pipe_ok_def pipe_flow_def pipe_bufferSize_def wakePollers_def wq_inv_wakeAll)
  next
    case (direct tok rest)
    with ok show ?thesis
      by (auto simp: pipe_ok_def pipe_flow_def pipe_bufferSize_def wakePollers_def wq_inv_wakeAll)
  qed (use ok in \<open>auto simp: pipe_flow_def\<close>)
  then show "pipe_ok st'" "pipe_flow st evs st'" by simp_all
qed

subsection \<open>The pipes as a machine\<close>

record pipe_world =
  pw_env :: desc_env
  pw_m :: PipeManager
  pw_log :: "pipe_event list"

datatype pipe_call =
    PwCreate
  | PwEnv desc_env
  | PwWrite nat bytes "pid option"
  | PwResume nat
  | PwRead nat nat
  | PwClose nat
  | PwWaitPoll nat "int option"
  | PwPollTimer nat nat
  | PwPollDone "nat \<times> nat"

definition pm_pollTimer :: "nat \<Rightarrow> nat \<Rightarrow> PipeManager \<Rightarrow> PipeManager" where
  "pm_pollTimer k h m =
     (case mget (pm_states m) k of
        None \<Rightarrow> m
      | Some st \<Rightarrow> pm_putState (st\<lparr>ps_pollWaiters := wq_timer h (ps_pollWaiters st)\<rparr>) m)"

definition pw_set :: "pipe_event list \<times> PipeManager \<Rightarrow> pipe_world \<Rightarrow> pipe_world" where
  "pw_set = (\<lambda>(evs, m) w. w\<lparr>pw_m := m, pw_log := pw_log w @ evs\<rparr>)"

fun pipe_step :: "pipe_call \<Rightarrow> pipe_world \<Rightarrow> pipe_world" where
  "pipe_step PwCreate w = (let (_, env, m) = createPipe (pw_env w, pw_m w) in w\<lparr>pw_env := env, pw_m := m\<rparr>)"
| "pipe_step (PwEnv env) w = w\<lparr>pw_env := env\<rparr>"
| "pipe_step (PwWrite d data p) w =
     (let (evs, _, m) = pm_write (pw_env w) d data p (pw_m w) in pw_set (evs, m) w)"
| "pipe_step (PwResume tok) w = pw_set (pm_resume tok (pw_m w)) w"
| "pipe_step (PwRead d n) w = (let (evs, _, m) = pm_read d n (pw_m w) in pw_set (evs, m) w)"
| "pipe_step (PwClose d) w = pw_set (pm_close d (pw_m w)) w"
| "pipe_step (PwWaitPoll d ms) w =
     (case pm_waitForPoll d ms (pw_m w) of Inl _ \<Rightarrow> w | Inr (_, m) \<Rightarrow> w\<lparr>pw_m := m\<rparr>)"
| "pipe_step (PwPollTimer k h) w = w\<lparr>pw_m := pm_pollTimer k h (pw_m w)\<rparr>"
| "pipe_step (PwPollDone x) w = w\<lparr>pw_m := pm_pollDone x (pw_m w)\<rparr>"

definition pw_init :: "desc_env \<Rightarrow> bool \<Rightarrow> pipe_world" where
  "pw_init env hook = \<lparr>pw_env = env, pw_m = pm_new hook, pw_log = []\<rparr>"

definition pm_ok :: "PipeManager \<Rightarrow> pipe_event list \<Rightarrow> bool" where
  "pm_ok m log \<longleftrightarrow>
     (\<forall>k st. mget (pm_states m) k = Some st \<longrightarrow> ps_id st = k \<and> k < pm_nextPipeId m \<and> pipe_ok st \<and>
        accepted k log = delivered k log @ concat (ps_buffer st)) \<and>
     (\<forall>k. pm_nextPipeId m \<le> k \<longrightarrow> accepted k log = [] \<and> delivered k log = [])"

lemma pm_ok_state:
  "pm_ok m log \<Longrightarrow> mget (pm_states m) k = Some st \<Longrightarrow> ps_id st = k \<and> pipe_ok st"
  by (simp add: pm_ok_def)

lemma pm_ok_stream:
  "pm_ok m log \<Longrightarrow> mget (pm_states m) k = Some st \<Longrightarrow>
   k < pm_nextPipeId m \<and> accepted k log = delivered k log @ concat (ps_buffer st)"
  by (simp add: pm_ok_def)

lemma pm_ok_getPipe:
  "pm_ok m log \<Longrightarrow> pm_getPipe m k = Some st \<Longrightarrow> mget (pm_states m) k = Some st \<and> ps_id st = k \<and> pipe_ok st"
  by (auto simp: pm_getPipe_def pm_ok_def split: if_splits)

text \<open>The shape of every operation: replace the state of one pipe, conserving its stream.\<close>

lemma pm_ok_put:
  assumes ok: "pm_ok m log" and st: "mget (pm_states m) (ps_id st) = Some st"
    and flow: "pipe_flow st evs st'" and ok': "pipe_ok st'"
    and m': "pm_states m' = pm_states (pm_putState st' m)" "pm_nextPipeId m' = pm_nextPipeId m"
  shows "pm_ok m' (log @ evs)"
proof -
  note lt = pm_ok_stream [OF ok st, THEN conjunct1] and str = pm_ok_stream [OF ok st, THEN conjunct2]
  have eq: "accepted (ps_id st) (log @ evs) = delivered (ps_id st) (log @ evs) @ concat (ps_buffer st')"
    using flow str by (simp add: pipe_flow_def)
  show ?thesis
    unfolding pm_ok_def
  proof (intro conjI allI impI)
    fix k s
    assume k: "mget (pm_states m') k = Some s"
    show "ps_id s = k" "k < pm_nextPipeId m'" "pipe_ok s"
      using k ok flow ok' lt
      by (cases "k = ps_id st"; simp add: m' pm_putState_def pm_ok_def pipe_flow_def)+
    show "accepted k (log @ evs) = delivered k (log @ evs) @ concat (ps_buffer s)"
      using k ok flow eq
      by (cases "k = ps_id st"; simp add: m' pm_putState_def pm_ok_def pipe_flow_def del: log_simps(3,4))
        (simp add: log_simps)
  next
    fix k
    assume "pm_nextPipeId m' \<le> k"
    with lt ok flow show "accepted k (log @ evs) = []" "delivered k (log @ evs) = []"
      by (auto simp: m' pm_ok_def pipe_flow_def)
  qed
qed

lemma pm_ok_cong:
  "pm_ok m log \<Longrightarrow> pm_states m' = pm_states m \<Longrightarrow> pm_nextPipeId m' = pm_nextPipeId m \<Longrightarrow>
   (\<And>k. accepted k evs = [] \<and> delivered k evs = []) \<Longrightarrow> pm_ok m' (log @ evs)"
  by (simp add: pm_ok_def)

lemma pipe_ok_queues:
  "pipe_ok st \<Longrightarrow> wq_inv q \<Longrightarrow> pipe_ok (st\<lparr>ps_writeWaiters := q\<rparr>)"
  "pipe_ok st \<Longrightarrow> wq_inv q \<Longrightarrow> pipe_ok (st\<lparr>ps_pollWaiters := q\<rparr>)"
  "pipe_flow st evs (st'\<lparr>ps_writeWaiters := q\<rparr>) = pipe_flow st evs st'"
  "pipe_flow st evs (st'\<lparr>ps_pollWaiters := q\<rparr>) = pipe_flow st evs st'"
  "pipe_flow (st\<lparr>ps_writeWaiters := q\<rparr>) evs st' = pipe_flow st evs st'"
  "pipe_flow st evs (wakePollers st') = pipe_flow st evs st'"
  "pipe_flow st [] st"
  by (auto simp: pipe_ok_def pipe_flow_def pipe_bufferSize_def wakePollers_def)

lemma pipe_flow_resolved [simp]:
  "pipe_flow st (evs @ [WriteResolved tok r]) st' = pipe_flow st evs st'"
  by (simp add: pipe_flow_def)

lemma blockWriter_states:
  "\<exists>q. pm_states (blockWriter tok st data off p m) = pm_states (pm_putState (st\<lparr>ps_writeWaiters := q\<rparr>) m) \<and>
     (wq_inv (ps_writeWaiters st) \<longrightarrow> wq_inv q)"
  "pm_nextPipeId (blockWriter tok st data off p m) = pm_nextPipeId m"
  using wq_inv_enqueue [of "ps_writeWaiters st" None]
  by (auto simp: blockWriter_def Let_def case_prod_beta pm_putState_def)

lemma pm_ok_block:
  assumes "pm_ok m log" "mget (pm_states m) (ps_id st) = Some st" "pipe_flow st evs st'" "pipe_ok st'"
    and "pm_states m0 = pm_states m" "pm_nextPipeId m0 = pm_nextPipeId m"
  shows "pm_ok (blockWriter tok st' data off p m0) (log @ evs)"
proof -
  obtain q where q: "pm_states (blockWriter tok st' data off p m0)
      = pm_states (pm_putState (st'\<lparr>ps_writeWaiters := q\<rparr>) m0)" "wq_inv q"
    using blockWriter_states(1) [of tok st' data off p m0] assms(4) by (auto simp: pipe_ok_def)
  show ?thesis
    by (rule pm_ok_put [OF assms(1,2), where st' = "st'\<lparr>ps_writeWaiters := q\<rparr>"])
      (use assms q in \<open>auto simp: pipe_ok_queues blockWriter_states pm_putState_def\<close>)
qed


lemma createPipe_pm_ok:
  assumes ok: "pm_ok m log" and run: "createPipe (env, m) = (ds, env', m')"
  shows "pm_ok m' log"
proof -
  obtain st where m': "pm_states m' = mput (pm_nextPipeId m) st (pm_states m)"
      "pm_nextPipeId m' = Suc (pm_nextPipeId m)"
    and st: "ps_id st = pm_nextPipeId m" "pipe_ok st" "ps_buffer st = []"
    using run by (auto simp: createPipe_def Let_def case_prod_beta pipe_ok_def pipe_bufferSize_def wq_inv_new)
  have "accepted (pm_nextPipeId m) log = []" "delivered (pm_nextPipeId m) log = []"
    using ok by (simp_all add: pm_ok_def)
  with ok st show ?thesis by (auto simp: pm_ok_def m' less_Suc_eq)
qed

lemma pm_write_pm_ok:
  assumes ok: "pm_ok m log" and run: "pm_write env d data p m = (evs, r, m')"
  shows "pm_ok m' (log @ evs)"
proof (cases "\<exists>k st. mget (pm_descToPipe m) d = Some (k, WriteEnd) \<and> pm_getPipe m k = Some st")
  case False
  with run have "m' = m" "evs = []"
    by (auto simp: pm_write_def split: option.splits prod.splits pipe_side.splits)
  with ok show ?thesis by simp
next
  case True
  then obtain k st where k: "mget (pm_descToPipe m) d = Some (k, WriteEnd)" "pm_getPipe m k = Some st"
    by blast
  obtain evs0 r0 st1 where w: "writeAvailable (pm_onBrokenPipe m) st data p = (evs0, r0, st1)"
    by (metis prod_cases3)
  have st: "mget (pm_states m) (ps_id st) = Some st" "pipe_ok st"
    using pm_ok_getPipe [OF ok k(2)] by auto
  note wa = writeAvailable_ok [OF w st(2)]
  show ?thesis
  proof (cases r0)
    case (Inl e)
    from w have "accepted j evs0 = [] \<and> delivered j evs0 = []" for j
      by (cases rule: writeAvailable_cases) (use Inl in auto)
    with run k w Inl ok show ?thesis by (auto simp: pm_write_def intro: pm_ok_cong)
  next
    case (Inr n)
    have "pm_ok (pm_putState st1 m) (log @ evs0)"
      by (rule pm_ok_put [OF ok st(1) wa(2,1)]) (simp_all add: pm_putState_def)
    moreover have "pm_ok (blockWriter tok st1 data n p (m\<lparr>pm_nextToken := x\<rparr>)) (log @ evs0)" for tok x
      by (rule pm_ok_block [OF ok st(1) wa(2,1)]) simp_all
    ultimately show ?thesis
      using run k w Inr by (auto simp: pm_write_def Let_def split: if_splits)
  qed
qed

lemma pm_resume_pm_ok:
  assumes ok: "pm_ok m log" and run: "pm_resume tok m = (evs, m')"
  shows "pm_ok m' (log @ evs)"
proof (cases "\<exists>w st. mget (pm_blocked m) tok = Some w \<and> mget (pm_states m) (bw_pipe w) = Some st \<and>
    isSettled (ps_writeWaiters st) (bw_handle w)")
  case False
  with run have "m' = m" "evs = []" by (auto simp: pm_resume_def split: option.splits if_splits)
  with ok show ?thesis by simp
next
  case True
  then obtain w st where k: "mget (pm_blocked m) tok = Some w" "mget (pm_states m) (bw_pipe w) = Some st"
    "isSettled (ps_writeWaiters st) (bw_handle w)" by blast
  let ?st0 = "st\<lparr>ps_writeWaiters := wq_remove (bw_handle w) (ps_writeWaiters st)\<rparr>"
  let ?m0 = "m\<lparr>pm_blocked := mdel tok (pm_blocked m)\<rparr>"
  obtain evs0 r0 st1 where wr: "writeAvailable (pm_onBrokenPipe m) ?st0 (drop (bw_offset w) (bw_data w))
      (bw_pid w) = (evs0, r0, st1)" by (metis prod_cases3)
  have st: "mget (pm_states m) (ps_id st) = Some st" "pipe_ok st"
    using pm_ok_state [OF ok k(2)] k(2) by auto
  then have "pipe_ok ?st0" by (auto simp: pipe_ok_def wq_inv_remove pipe_bufferSize_def)
  note wa = writeAvailable_ok [OF wr this, unfolded pipe_ok_queues]
  have put: "pm_ok (pm_putState st1 ?m0) (log @ evs0 @ [WriteResolved tok r])" for r
    by (rule pm_ok_put [OF ok st(1) _ wa(1)]) (simp_all add: pm_putState_def wa)
  have put': "pm_ok (blockWriter tok st1 (bw_data w) off (bw_pid w) ?m0) (log @ evs0)" for off
    by (rule pm_ok_block [OF ok st(1) wa(2,1)]) simp_all
  show ?thesis
    using run k wr put put' by (cases r0) (auto simp: pm_resume_def Let_def split: if_splits)
qed

lemma pm_read_pm_ok:
  assumes ok: "pm_ok m log" and run: "pm_read d n m = (evs, r, m')"
  shows "pm_ok m' (log @ evs)"
proof (cases "\<exists>k st. mget (pm_descToPipe m) d = Some (k, ReadEnd) \<and> pm_getPipe m k = Some st")
  case False
  with run have "m' = m" "evs = []"
    by (auto simp: pm_read_def split: option.splits prod.splits pipe_side.splits)
  with ok show ?thesis by simp
next
  case True
  then obtain k st where k: "mget (pm_descToPipe m) d = Some (k, ReadEnd)" "pm_getPipe m k = Some st"
    by blast
  have st: "mget (pm_states m) (ps_id st) = Some st" "pipe_ok st" "ps_id st = k"
    using pm_ok_getPipe [OF ok k(2)] by auto
  consider (data) "ps_buffer st \<noteq> []" | (eof) "ps_buffer st = []" "ps_closedWrite st"
    | (block) "ps_buffer st = []" "\<not> ps_closedWrite st" by blast
  then show ?thesis
  proof cases
    case data
    let ?buf = "snd (drainBuffer n (ps_buffer st))"
    let ?st = "st\<lparr>ps_buffer := ?buf, ps_writeWaiters := snd (wq_wakeOne (ps_writeWaiters st))\<rparr>"
    have flow: "pipe_flow st [ReadResolved k (pm_nextToken m) (Some (fst (drainBuffer n (ps_buffer st))))]
        (wakePollers ?st)"
      by (simp add: pipe_flow_def st pipe_buf.drain_stream)
    have "length (concat ?buf) \<le> length (concat (ps_buffer st))" by (simp add: pipe_buf.drain_snd)
    then have "pipe_ok ?st"
      using st(2) data by (auto simp: pipe_ok_def bufferSize_concat pipe_buf.drain_nonempty wq_inv_wakeOne)
    then have okst: "pipe_ok (wakePollers ?st)" by simp
    show ?thesis
      using run k data pm_ok_put [OF ok st(1) flow okst]
      by (auto simp: pm_read_def Let_def case_prod_beta pm_putState_def)
  next
    case eof
    with run k ok show ?thesis by (auto simp: pm_read_def Let_def intro!: pm_ok_cong)
  next
    case block
    let ?st = "st\<lparr>ps_readWaiters := ps_readWaiters st @ [pm_nextToken m]\<rparr>"
    have "pipe_ok ?st" "pipe_flow st [] ?st"
      using st(2) block by (auto simp: pipe_ok_def pipe_bufferSize_def pipe_flow_def)
    with run k block pm_ok_put [OF ok st(1), of "[]" ?st] show ?thesis
      by (auto simp: pm_read_def Let_def pm_putState_def)
  qed
qed

lemma pipe_ok_wakeWriters:
  "pipe_ok st \<Longrightarrow> pipe_ok (st\<lparr>ps_writeWaiters := snd (wq_wakeAll (ps_writeWaiters st))\<rparr>)"
  by (auto simp: pipe_ok_def pipe_bufferSize_def wq_inv_wakeAll)

lemma resolved_None_log [simp]:
  "accepted j (map (\<lambda>tok. ReadResolved k tok None) ts) = []"
  "delivered j (map (\<lambda>tok. ReadResolved k tok None) ts) = []"
  by (simp_all add: accepted_def delivered_def o_def)

lemma pm_close_pm_ok:
  assumes ok: "pm_ok m log" and run: "pm_close d m = (evs, m')"
  shows "pm_ok m' (log @ evs)"
proof (cases "\<exists>k side st. mget (pm_descToPipe m) d = Some (k, side) \<and> pm_getPipe m k = Some st")
  case False
  with run have "m' = m" "evs = []" by (auto simp: pm_close_def split: option.splits)
  with ok show ?thesis by simp
next
  case True
  then obtain k side st where k: "mget (pm_descToPipe m) d = Some (k, side)" "pm_getPipe m k = Some st"
    by blast
  have st: "mget (pm_states m) (ps_id st) = Some st" "pipe_ok st"
    using pm_ok_getPipe [OF ok k(2)] by auto
  let ?st1 = "case side of ReadEnd \<Rightarrow> st\<lparr>ps_closedRead := True\<rparr>
    | WriteEnd \<Rightarrow> st\<lparr>ps_closedWrite := True, ps_readWaiters := []\<rparr>"
  let ?st2 = "wakePollers (?st1\<lparr>ps_writeWaiters := snd (wq_wakeAll (ps_writeWaiters ?st1))\<rparr>)"
  have "pipe_ok ?st1"
    using st(2) by (cases side) (auto simp: pipe_ok_def pipe_bufferSize_def)
  then have ok2: "pipe_ok ?st2" by (rule wakePollers_sel(8) [OF pipe_ok_wakeWriters])
  have flow: "pipe_flow st evs ?st2"
    using run k by (cases side) (auto simp: pm_close_def Let_def pipe_flow_def)
  show ?thesis
    by (rule pm_ok_put [OF ok st(1) flow ok2])
      (use run k in \<open>auto simp: pm_close_def Let_def pm_putState_def\<close>)
qed


lemma pm_ok_putPoll:
  assumes ok: "pm_ok m log" and st: "mget (pm_states m) (ps_id st) = Some st" and q: "wq_inv q"
  shows "pm_ok (pm_putState (st\<lparr>ps_pollWaiters := q\<rparr>) m) log"
  using pm_ok_put [OF ok st, of "[]" "st\<lparr>ps_pollWaiters := q\<rparr>"] pm_ok_state [OF ok st] q
  by (simp add: pipe_ok_queues pm_putState_def)

lemma pipe_step_ok: "pm_ok (pw_m w) (pw_log w) \<Longrightarrow> pm_ok (pw_m (pipe_step x w)) (pw_log (pipe_step x w))"
proof (cases x)
  case PwCreate
  assume "pm_ok (pw_m w) (pw_log w)"
  with PwCreate show ?thesis
    using createPipe_pm_ok [of "pw_m w" "pw_log w" "pw_env w"] by (auto split: prod.splits)
next
  case (PwWrite d data p)
  assume "pm_ok (pw_m w) (pw_log w)"
  with PwWrite pm_write_pm_ok show ?thesis
    by (auto simp: pw_set_def split: prod.splits)
next
  case (PwResume tok)
  assume "pm_ok (pw_m w) (pw_log w)"
  with PwResume pm_resume_pm_ok show ?thesis
    by (auto simp: pw_set_def split: prod.splits)
next
  case (PwRead d n)
  assume "pm_ok (pw_m w) (pw_log w)"
  with PwRead pm_read_pm_ok show ?thesis
    by (auto simp: pw_set_def split: prod.splits)
next
  case (PwClose d)
  assume "pm_ok (pw_m w) (pw_log w)"
  with PwClose pm_close_pm_ok show ?thesis
    by (auto simp: pw_set_def split: prod.splits)
next
  case (PwWaitPoll d ms)
  assume ok: "pm_ok (pw_m w) (pw_log w)"
  with PwWaitPoll show ?thesis
    by (auto simp: pm_waitForPoll_def Let_def case_prod_beta dest!: pm_ok_getPipe [OF ok]
        intro!: pm_ok_putPoll wq_inv_enqueue simp: pipe_ok_def split: option.splits)
next
  case (PwPollTimer k h)
  assume ok: "pm_ok (pw_m w) (pw_log w)"
  with PwPollTimer show ?thesis
    by (auto simp: pm_pollTimer_def wq_timer_def pipe_ok_def split: option.splits
        dest: pm_ok_state [OF ok] intro!: pm_ok_putPoll wq_inv_update)
next
  case (PwPollDone y)
  assume ok: "pm_ok (pw_m w) (pw_log w)"
  with PwPollDone show ?thesis
    by (auto simp: pm_pollDone_def pipe_ok_def split: option.splits prod.splits
        dest: pm_ok_state [OF ok] intro!: pm_ok_putPoll wq_inv_remove)
qed auto

interpretation pipe_machine: invariant_component pipe_step "\<lambda>_ _. True" "\<lambda>w. pm_ok (pw_m w) (pw_log w)"
  by unfold_locales (rule pipe_step_ok)

lemma pm_ok_init: "pm_ok (pw_m (pw_init env hook)) (pw_log (pw_init env hook))"
  by (simp add: pw_init_def pm_new_def pm_ok_def)

lemmas pipe_run_ok = pipe_machine.run_inv [OF pm_ok_init guarded_True]

interpretation pipe_ids: id_allocator "\<lambda>(env, m). (pm_nextPipeId m, snd (createPipe (env, m)))"
  "\<lambda>(env, m) k. k < pm_nextPipeId m"
  by unfold_locales (auto simp: createPipe_def Let_def case_prod_beta)


subsection \<open>What the operations do\<close>

definition nonBlockingWrite :: "desc_env \<Rightarrow> PipeState \<Rightarrow> bool" where
  "nonBlockingWrite env st = (case de_heap env (ps_writeDescription st) of
     None \<Rightarrow> False | Some d \<Rightarrow> desc_flags d AND O_NONBLOCK \<noteq> 0)"

text \<open>
  C23. A pipe is a lossless FIFO byte stream, whatever readers, writers, closes and resumed writers
  interleave: at every moment the bytes all writes accepted so far, in order, are the bytes delivered
  to readers so far, in order, followed by the bytes in the buffer.
\<close>

theorem pipe_stream_fifo:
  assumes "mget (pm_states (pw_m (run_ops pipe_step calls (pw_init env hook)))) k = Some st"
  shows "accepted k (pw_log (run_ops pipe_step calls (pw_init env hook))) =
    delivered k (pw_log (run_ops pipe_step calls (pw_init env hook))) @ concat (ps_buffer st)"
  using pm_ok_stream [OF pipe_run_ok assms] by simp

lemmas pipe_eval =
  pw_init_def pm_new_def createPipe_def newDesc_def pm_read_def pm_write_def pm_close_def pw_set_def
  pm_getPipe_def pm_putState_def writeAvailable_def assertWriteOpen_def wakePollers_def wq_wakeAll_def
  wq_wakeOne_def wq_new_def drainBuffer_def pipe_bufferSize_def MAX_PIPE_BUFFER_BYTES_def fm_new_def
  Let_def O_RDONLY_def O_WRONLY_def O_NONBLOCK_def

definition pipe_example :: pipe_world where
  "pipe_example = run_ops pipe_step
     [PwCreate, PwRead 100000 4, PwWrite 100001 [1, 2] None, PwWrite 100001 [3, 4] None, PwRead 100000 1]
     (pw_init (fm_env fm_new) True)"

theorem pipe_stream_fifo_witness:
  "accepted 1 (pw_log pipe_example) = delivered 1 (pw_log pipe_example) @ [4] \<and>
   delivered 1 (pw_log pipe_example) = [1, 2, 3]"
proof -
  have "map_option ps_buffer (mget (pm_states (pw_m pipe_example)) 1) = Some [[4]]" by (simp add: pipe_example_def pipe_eval)
  then obtain st where st: "mget (pm_states (pw_m pipe_example)) 1 = Some st" "ps_buffer st = [[4]]"
    by blast
  have "delivered 1 (pw_log pipe_example) = [1, 2, 3]" by (simp add: pipe_example_def pipe_eval)
  with pipe_stream_fifo [OF st(1) [unfolded pipe_example_def]] st(2) show ?thesis
    by (simp add: pipe_example_def)
qed

text \<open>
  C24. The buffer of a pipe never holds more than 65536 bytes, and a reader is blocked only while
  the buffer is empty and the write end open.
\<close>

theorem pipe_bounded:
  assumes "mget (pm_states (pw_m (run_ops pipe_step calls (pw_init env hook)))) k = Some st"
  shows "pipe_bufferSize st \<le> 65536 \<and>
    (ps_readWaiters st \<noteq> [] \<longrightarrow> ps_buffer st = [] \<and> \<not> ps_closedWrite st)"
  using pm_ok_state [OF pipe_run_ok assms] by (simp add: pipe_ok_def MAX_PIPE_BUFFER_BYTES_def)

theorem pipe_bounded_witness:
  "\<exists>st. mget (pm_states (pw_m pipe_example)) 1 = Some st \<and> pipe_bufferSize st \<le> 65536"
proof -
  have "map_option ps_buffer (mget (pm_states (pw_m pipe_example)) 1) = Some [[4]]" by (simp add: pipe_example_def pipe_eval)
  then obtain st where st: "mget (pm_states (pw_m pipe_example)) 1 = Some st" by blast
  from pipe_bounded [OF st [unfolded pipe_example_def]] st show ?thesis by blast
qed

text \<open>
  C25. The outcomes of a write. On a pipe with a closed end it throws EPIPE and changes nothing,
  after SIGPIPE was sent to the writer if it was the read end that is closed. Otherwise it moves a
  prefix of the data into the pipe: all of it, and reports its length; or exactly what fits, and then
  a non-blocking writer is told how much (EAGAIN if nothing), and a blocking one is suspended with
  that offset.
\<close>

theorem pipe_write_outcome:
  assumes k: "mget (pm_descToPipe m) d = Some (k, WriteEnd)" "pm_getPipe m k = Some st" "ps_id st = k"
    and run: "pm_write env d data p m = (evs, r, m')"
  shows "if ps_closedWrite st \<or> ps_closedRead st
    then r = Inl EPIPE \<and> m' = m \<and>
      evs = (if \<not> ps_closedWrite st \<and> pm_onBrokenPipe m then (case p of None \<Rightarrow> [] | Some q \<Rightarrow> [BrokenPipe q]) else [])
    else \<exists>n \<le> length data. accepted k evs = take n data \<and>
      (n = length data \<longrightarrow> r = Inr (Written n)) \<and>
      (n < length data \<longrightarrow> n = MAX_PIPE_BUFFER_BYTES - pipe_bufferSize st \<and>
        r = (if nonBlockingWrite env st then if n = 0 then Inl EAGAIN else Inr (Written n)
             else Inr (WriteBlocks (pm_nextToken m))) \<and>
        (\<not> nonBlockingWrite env st \<longrightarrow>
          map_option (\<lambda>w. (bw_data w, bw_offset w)) (mget (pm_blocked m') (pm_nextToken m)) = Some (data, n)))"
proof -
  obtain evs0 r0 st1 where w: "writeAvailable (pm_onBrokenPipe m) st data p = (evs0, r0, st1)"
    by (metis prod_cases3)
  have blk: "map_option (\<lambda>w. (bw_data w, bw_offset w)) (mget (pm_blocked (blockWriter t s data off p m)) t)
      = Some (data, off)" for t s off m
    by (simp add: blockWriter_def case_prod_beta Let_def)
  from w show ?thesis
  proof (cases rule: writeAvailable_cases)
    case (thrown e)
    with run k w show ?thesis
      by (auto simp: pm_write_def assertWriteOpen_def split: if_splits option.splits)
  next
    case none
    with run k w blk show ?thesis
      by (auto simp: pm_write_def Let_def nonBlockingWrite_def intro!: exI [of _ 0] split: if_splits)
  next
    case (direct tok rest)
    have "evs = evs0 \<and> r = Inr (Written (length data))"
      using run k(1,2) w direct(5) by (simp add: pm_write_def Let_def)
    moreover have "accepted k evs0 = data" using direct(4) k(3) by simp
    ultimately show ?thesis using direct(7,8) by (auto intro!: exI [of _ "length data"])
  next
    case (buffered n)
    have "n \<le> length data" "n < length data \<Longrightarrow> n = MAX_PIPE_BUFFER_BYTES - pipe_bufferSize st"
      using buffered(1) by auto
    with buffered(2-) show ?thesis
      using run k w blk
      by (cases "n = length data"; cases "nonBlockingWrite env st")
        (auto simp: pm_write_def Let_def nonBlockingWrite_def intro!: exI [of _ n])
  qed
qed

theorem pipe_write_outcome_witness:
  "fst (snd (pm_write (fm_env fm_new) 100001 [7] (Some 5)
     (pw_m (run_ops pipe_step [PwCreate, PwClose 100000] (pw_init (fm_env fm_new) True))))) = Inl EPIPE"
proof -
  let ?m = "pw_m (run_ops pipe_step [PwCreate, PwClose 100000] (pw_init (fm_env fm_new) True))"
  have "mget (pm_descToPipe ?m) 100001 = Some (1, WriteEnd)" by (simp add: pipe_example_def pipe_eval)
  moreover have "map_option (\<lambda>st. (ps_id st, ps_closedRead st)) (pm_getPipe ?m 1) = Some (1, True)"
    by (simp add: pipe_example_def pipe_eval)
  then obtain st where st: "pm_getPipe ?m 1 = Some st" "ps_id st = 1" "ps_closedRead st" by auto
  moreover obtain evs r m' where w: "pm_write (fm_env fm_new) 100001 [7] (Some 5) ?m = (evs, r, m')"
    by (metis prod_cases3)
  ultimately have "r = Inl EPIPE"
    using pipe_write_outcome [of ?m 100001 1 st "fm_env fm_new" "[7]" "Some 5" evs r m'] by simp
  then show ?thesis by (simp only: w fst_conv snd_conv)
qed

text \<open>
  The outcomes of a read: buffered data are returned up to the requested length and the first
  blocked writer is woken; an empty pipe whose write end is closed gives EOF; otherwise the reader
  blocks, and the close of the write end resolves every blocked reader with EOF.
\<close>

theorem pipe_read_outcome:
  assumes k: "mget (pm_descToPipe m) d = Some (k, ReadEnd)" "pm_getPipe m k = Some st" "ps_id st = k"
    and wq: "wq_inv (ps_writeWaiters st)"
    and run: "pm_read d len m = (evs, r, m')"
    and dw: "mget (pm_descToPipe m') dw = Some (k, WriteEnd)"
  shows "\<exists>st'. pm_getPipe m' k = Some st' \<and> r = Inr (pm_nextToken m) \<and>
    (ps_buffer st \<noteq> [] \<longrightarrow> evs = [ReadResolved k (pm_nextToken m) (Some (take len (concat (ps_buffer st))))] \<and>
       pending_list (ps_writeWaiters st') = tl (pending_list (ps_writeWaiters st))) \<and>
    (ps_buffer st = [] \<and> ps_closedWrite st \<longrightarrow> evs = [ReadResolved k (pm_nextToken m) None]) \<and>
    (ps_buffer st = [] \<and> \<not> ps_closedWrite st \<longrightarrow> evs = [] \<and>
       ReadResolved k (pm_nextToken m) None \<in> set (fst (pm_close dw m')))"
proof -
  have kp: "k \<in> set (pm_pipes m)" "mget (pm_states m) k = Some st"
    using k(2) by (auto simp: pm_getPipe_def split: if_splits)
  show ?thesis
    using run k kp wq dw
    by (auto simp: pm_read_def Let_def case_prod_beta pm_putState_def pm_getPipe_def pm_close_def
        pipe_buf.drain_fst pending_list_wakeOne split: if_splits)
qed

theorem pipe_read_outcome_witness:
  "fst (pm_read 100000 1 (pw_m pipe_example)) = [ReadResolved 1 2 (Some [4])]"
proof -
  let ?m = "pw_m pipe_example"
  have d: "mget (pm_descToPipe ?m) 100000 = Some (1, ReadEnd)"
    "mget (pm_descToPipe (snd (snd (pm_read 100000 1 ?m)))) 100001 = Some (1, WriteEnd)"
    "pm_nextToken ?m = 2" by (simp_all add: pipe_example_def pipe_eval)
  have "map_option (\<lambda>st. (ps_id st, ps_buffer st, wq_waiters (ps_writeWaiters st))) (pm_getPipe ?m 1)
      = Some (1, [[4]], [])" by (simp add: pipe_example_def pipe_eval)
  then obtain st where st: "pm_getPipe ?m 1 = Some st" "ps_id st = 1" "ps_buffer st = [[4]]" by auto
  have "wq_inv (ps_writeWaiters st)"
    using pm_ok_getPipe [OF pipe_run_ok st(1) [unfolded pipe_example_def]] by (simp add: pipe_ok_def)
  moreover obtain evs r m' where run: "pm_read 100000 1 ?m = (evs, r, m')" by (metis prod_cases3)
  moreover have "mget (pm_descToPipe m') 100001 = Some (1, WriteEnd)" using d(2) by (simp only: run snd_conv)
  ultimately have "evs = [ReadResolved 1 2 (Some [4])]"
    using pipe_read_outcome [OF d(1) st(1,2), of 1 evs r m' 100001] st(3) d(3) by auto
  then show ?thesis by (simp only: run fst_conv)
qed

text \<open>
  A reader that was blocked is handed everything a writer offers, however little it asked for:
  a read of 1 byte issued before a write of 3 is resolved with 3 bytes.
\<close>

lemma pipe_direct_delivery_exceeds_length:
  "pw_log (run_ops pipe_step [PwCreate, PwRead 100000 1, PwWrite 100001 [1, 2, 3] None]
     (pw_init (fm_env fm_new) True)) =
   [Accepted 1 [1, 2, 3], ReadResolved 1 0 (Some [1, 2, 3])]"
  by (simp add: pipe_example_def pipe_eval)


text \<open>
  Two blocked writers and a reader can deadlock: when a full pipe is drained, only the first
  writer is woken, and if a second read is pending by the time it resumes, its data go to that reader
  without waking the other writer. Afterwards the buffer is empty, the second writer is still
  suspended on an unsettled handle and every further read blocks as well.
\<close>

theorem pipe_second_writer_stuck:
  assumes "length D = 65536"
  shows "let w = run_ops pipe_step
       [PwCreate, PwWrite 100001 D None, PwWrite 100001 [1] None, PwWrite 100001 [2] None,
        PwRead 100000 65536, PwRead 100000 1, PwResume 0, PwRead 100000 1] (pw_init (fm_env fm_new) True)
     in map_option (\<lambda>st. (ps_buffer st, ps_readWaiters st, pending_list (ps_writeWaiters st)))
          (mget (pm_states (pw_m w)) 1) = Some ([], [4], [1]) \<and>
        map_option bw_handle (mget (pm_blocked (pw_m w)) 1) = Some 1"
proof -
  have ne: "D \<noteq> []" using assms by auto
  show ?thesis
    using assms ne
    by (simp add: pipe_eval pm_resume_def blockWriter_def wq_enqueue_def wq_remove_def handle_new_def
        isSettled_def wq_update_def handle_wake_def pending_list_def)
qed

theorem pipe_second_writer_stuck_witness:
  "map_option bw_handle (mget (pm_blocked (pw_m (run_ops pipe_step
       [PwCreate, PwWrite 100001 (replicate 65536 0) None, PwWrite 100001 [1] None, PwWrite 100001 [2] None,
        PwRead 100000 65536, PwRead 100000 1, PwResume 0, PwRead 100000 1] (pw_init (fm_env fm_new) True)))) 1)
   = Some 1"
  using pipe_second_writer_stuck [OF length_replicate] unfolding Let_def by blast

end
