(* ===== verification/File_Lock.thy ===== *)
theory File_Lock
  imports Wait_Queue
begin

section \<open>Advisory file locks\<close>

text \<open>
  \<^verbatim>\<open>kernel/file-lock.ts\<close>. A \<^verbatim>\<open>PathLockState\<close> is a mutable object that the manager's map and the
  suspended callers of \<^verbatim>\<open>flock\<close> share, and a caller may keep one the map has dropped; so the objects
  live in a store (\<open>fl_states\<close>) and \<open>fl_locks\<close> maps paths to references. A suspended caller is an entry
  of \<open>fl_blocked\<close>; \<open>fl_resume\<close> is what runs after its handle was settled: the \<^verbatim>\<open>finally\<close> block and the
  next turn of the loop.

  The world \<open>lock_world\<close> adds the caller's view: the locks that were granted and not released since.
  Under a schedule that resumes a woken waiter before it admits another call (\<open>lock_prompt\<close>), granted
  locks exclude each other; without it they need not, which \<open>flock_two_exclusive_holders\<close> shows.
\<close>

subsection \<open>Data\<close>

definition LOCK_SH :: u32 where "LOCK_SH = 1"
definition LOCK_EX :: u32 where "LOCK_EX = 2"
definition LOCK_UN :: u32 where "LOCK_UN = 8"
definition LOCK_NB :: u32 where "LOCK_NB = 4"

datatype LockType = Sh | Ex

instantiation LockType :: linorder
begin

definition less_eq_LockType :: "LockType \<Rightarrow> LockType \<Rightarrow> bool" where
  "less_eq_LockType a b \<longleftrightarrow> a = Sh \<or> b = Ex"

definition less_LockType :: "LockType \<Rightarrow> LockType \<Rightarrow> bool" where
  "less_LockType a b \<longleftrightarrow> a = Sh \<and> b = Ex"

instance
proof
  fix x y z :: LockType
  show "x < y \<longleftrightarrow> x \<le> y \<and> \<not> y \<le> x"
    by (cases x; cases y) (simp_all add: less_eq_LockType_def less_LockType_def)
  show "x \<le> x" "x \<le> y \<Longrightarrow> y \<le> z \<Longrightarrow> x \<le> z" "x \<le> y \<Longrightarrow> y \<le> x \<Longrightarrow> x = y" "x \<le> y \<or> y \<le> x"
    by (cases x; cases y; cases z; simp add: less_eq_LockType_def)+
qed

end

record LockEntry =
  le_descriptionId :: nat
  le_type :: LockType

record PathLockState =
  pl_holders :: "LockEntry list"
  pl_waiters :: WaitQueue

record BlockedLock =
  bl_path :: path
  bl_desc :: nat
  bl_op :: u32
  bl_state :: nat
  bl_handle :: nat

record FileLockManager =
  fl_states :: "nat \<Rightarrow> PathLockState option"
  fl_nextState :: nat
  fl_locks :: "(path, nat) jsmap"
  fl_descToPath :: "(nat, path) jsmap"
  fl_blocked :: "(nat, BlockedLock) jsmap"
  fl_nextToken :: nat

datatype flock_outcome = Acquired | Released | FlockBlocks nat

definition fl_new :: FileLockManager where
  "fl_new = \<lparr>fl_states = (\<lambda>_. None), fl_nextState = 0, fl_locks = [], fl_descToPath = [],
     fl_blocked = [], fl_nextToken = 0\<rparr>"

subsection \<open>Operations\<close>

definition fl_setState :: "nat \<Rightarrow> PathLockState \<Rightarrow> FileLockManager \<Rightarrow> FileLockManager" where
  "fl_setState s st m = m\<lparr>fl_states := (fl_states m)(s \<mapsto> st)\<rparr>"

definition fl_getOrCreate :: "path \<Rightarrow> FileLockManager \<Rightarrow> nat \<times> FileLockManager" where
  "fl_getOrCreate p m =
     (case mget (fl_locks m) p of
        Some s \<Rightarrow> (s, m)
      | None \<Rightarrow>
          let s = fl_nextState m
          in (s, (fl_setState s \<lparr>pl_holders = [], pl_waiters = wq_new\<rparr> m)
                   \<lparr>fl_nextState := Suc s, fl_locks := mput p s (fl_locks m)\<rparr>))"

text \<open>\<^verbatim>\<open>holders.findIndex(h => h.descriptionId === descId)\<close>.\<close>

fun findHolder :: "nat \<Rightarrow> LockEntry list \<Rightarrow> nat option" where
  "findHolder d [] = None"
| "findHolder d (h # hs) =
     (if le_descriptionId h = d then Some 0 else map_option Suc (findHolder d hs))"

definition tryAcquire :: "path \<Rightarrow> nat \<Rightarrow> nat \<Rightarrow> u32 \<Rightarrow> FileLockManager \<Rightarrow> (bool \<times> FileLockManager) res" where
  "tryAcquire p s descId op m =
     (case fl_states m s of
        None \<Rightarrow> Inr (False, m)
      | Some st \<Rightarrow>
          let existingIdx = findHolder descId (pl_holders st);
              install = (\<lambda>t. case existingIdx of
                 Some i \<Rightarrow> fl_setState s (st\<lparr>pl_holders := (pl_holders st)[i := (pl_holders st ! i)\<lparr>le_type := t\<rparr>]\<rparr>) m
               | None \<Rightarrow> (fl_setState s (st\<lparr>pl_holders := pl_holders st @ [\<lparr>le_descriptionId = descId, le_type = t\<rparr>]\<rparr>) m)
                          \<lparr>fl_descToPath := mput descId p (fl_descToPath m)\<rparr>)
          in if op = LOCK_SH then
               (if list_ex (\<lambda>h. le_type h = Ex \<and> le_descriptionId h \<noteq> descId) (pl_holders st)
                then Inr (False, m) else Inr (True, install Sh))
             else if op = LOCK_EX then
               (if list_ex (\<lambda>h. le_descriptionId h \<noteq> descId) (pl_holders st)
                then Inr (False, m) else Inr (True, install Ex))
             else Inl EINVAL)"

definition cleanupState :: "path \<Rightarrow> nat \<Rightarrow> FileLockManager \<Rightarrow> FileLockManager" where
  "cleanupState p s m =
     (case fl_states m s of
        None \<Rightarrow> m
      | Some st \<Rightarrow>
          if pl_holders st = [] \<and> wq_pending (pl_waiters st) = 0
          then m\<lparr>fl_locks := mdel p (fl_locks m)\<rparr> else m)"

definition fl_unlock :: "path \<Rightarrow> nat \<Rightarrow> FileLockManager \<Rightarrow> FileLockManager" where
  "fl_unlock p descId m =
     (case mget (fl_locks m) p of
        None \<Rightarrow> m
      | Some s \<Rightarrow>
          (case fl_states m s of
             None \<Rightarrow> m
           | Some st \<Rightarrow>
               cleanupState p s
                 (case findHolder descId (pl_holders st) of
                    None \<Rightarrow> m
                  | Some i \<Rightarrow>
                      (fl_setState s (st\<lparr>pl_holders := take i (pl_holders st) @ drop (Suc i) (pl_holders st),
                          pl_waiters := snd (wq_wakeOne (pl_waiters st))\<rparr>) m)
                        \<lparr>fl_descToPath := mdel descId (fl_descToPath m)\<rparr>)))"

text \<open>One turn of the loop of \<^verbatim>\<open>flock\<close>, up to its return, its throw or its \<^verbatim>\<open>await\<close>.\<close>

definition flock_turn ::
  "nat \<Rightarrow> path \<Rightarrow> nat \<Rightarrow> u32 \<Rightarrow> bool \<Rightarrow> FileLockManager \<Rightarrow> flock_outcome res \<times> FileLockManager" where
  "flock_turn tok p descId op nonBlocking m =
     (let (s, m1) = fl_getOrCreate p m
      in case tryAcquire p s descId op m1 of
           Inl e \<Rightarrow> (Inl e, m1)
         | Inr (True, m2) \<Rightarrow> (Inr Acquired, m2)
         | Inr (False, m2) \<Rightarrow>
             if nonBlocking then (Inl EAGAIN, m2)
             else
               (case fl_states m2 s of
                  None \<Rightarrow> (Inl EINVAL, m2)
                | Some st \<Rightarrow>
                    let (h, q) = wq_enqueue None (pl_waiters st)
                    in (Inr (FlockBlocks tok),
                        (fl_setState s (st\<lparr>pl_waiters := q\<rparr>) m2)\<lparr>fl_blocked :=
                           mput tok \<lparr>bl_path = p, bl_desc = descId, bl_op = op, bl_state = s, bl_handle = h\<rparr>
                             (fl_blocked m2)\<rparr>)))"

definition flock :: "path \<Rightarrow> nat \<Rightarrow> u32 \<Rightarrow> FileLockManager \<Rightarrow> flock_outcome res \<times> FileLockManager" where
  "flock p descId operation m =
     (let op = operation AND NOT LOCK_NB; nonBlocking = (operation AND LOCK_NB \<noteq> 0)
      in if op = LOCK_UN then (Inr Released, fl_unlock p descId m)
         else flock_turn (fl_nextToken m) p descId op nonBlocking (m\<lparr>fl_nextToken := Suc (fl_nextToken m)\<rparr>))"

text \<open>A suspended caller whose handle was settled: its \<^verbatim>\<open>finally\<close> block, then the next turn.\<close>

definition fl_resume :: "nat \<Rightarrow> FileLockManager \<Rightarrow> (flock_outcome res \<times> BlockedLock) option \<times> FileLockManager" where
  "fl_resume tok m =
     (case mget (fl_blocked m) tok of
        None \<Rightarrow> (None, m)
      | Some b \<Rightarrow>
          (case fl_states m (bl_state b) of
             None \<Rightarrow> (None, m)
           | Some st \<Rightarrow>
               if \<not> isSettled (pl_waiters st) (bl_handle b) then (None, m)
               else
                 let m1 = (fl_setState (bl_state b) (st\<lparr>pl_waiters := wq_remove (bl_handle b) (pl_waiters st)\<rparr>) m)
                            \<lparr>fl_blocked := mdel tok (fl_blocked m)\<rparr>;
                     m2 = cleanupState (bl_path b) (bl_state b) m1;
                     (r, m3) = flock_turn tok (bl_path b) (bl_desc b) (bl_op b) False m2
                 in (Some (r, b), m3)))"

definition releaseByDescription :: "nat \<Rightarrow> FileLockManager \<Rightarrow> FileLockManager" where
  "releaseByDescription descId m =
     (case mget (fl_descToPath m) descId of None \<Rightarrow> m | Some p \<Rightarrow> fl_unlock p descId m)"

definition hasLock :: "FileLockManager \<Rightarrow> nat \<Rightarrow> bool" where
  "hasLock m descId = mhas (fl_descToPath m) descId"


subsection \<open>Holders of one lock state\<close>

definition state_ok :: "PathLockState \<Rightarrow> bool" where
  "state_ok st \<longleftrightarrow> distinct (map le_descriptionId (pl_holders st)) \<and>
     (\<forall>h \<in> set (pl_holders st). le_type h = Ex \<longrightarrow> length (pl_holders st) = 1) \<and> wq_inv (pl_waiters st)"

lemma findHolder_None: "findHolder d hs = None \<longleftrightarrow> d \<notin> le_descriptionId ` set hs"
  by (induction hs) auto

lemma LockEntry_eta: "le_descriptionId h = d \<Longrightarrow> h = \<lparr>le_descriptionId = d, le_type = le_type h\<rparr>"
  by (cases h) simp

lemma findHolder_split:
  "findHolder d hs = Some i \<Longrightarrow> \<exists>a h b. hs = a @ h # b \<and> length a = i \<and> le_descriptionId h = d"
proof (induction hs arbitrary: i)
  case (Cons h hs)
  show ?case
  proof (cases "le_descriptionId h = d")
    case True
    with Cons.prems show ?thesis by (intro exI [of _ "[]"]) auto
  next
    case False
    with Cons.prems obtain j where "findHolder d hs = Some j" "i = Suc j" by auto
    with Cons.IH obtain a h' b where "hs = a @ h' # b" "length a = j" "le_descriptionId h' = d" by blast
    with \<open>i = Suc j\<close> show ?thesis by (intro exI [of _ "h # a"]) auto
  qed
qed simp

text \<open>The holders after a grant and after a release.\<close>

definition with_holder :: "nat \<Rightarrow> LockType \<Rightarrow> LockEntry list \<Rightarrow> LockEntry list" where
  "with_holder d t hs = (case findHolder d hs of
     Some i \<Rightarrow> hs[i := (hs ! i)\<lparr>le_type := t\<rparr>] | None \<Rightarrow> hs @ [\<lparr>le_descriptionId = d, le_type = t\<rparr>])"

lemma with_holder_split:
  assumes "distinct (map le_descriptionId hs)"
  obtains a b where "with_holder d t hs = a @ \<lparr>le_descriptionId = d, le_type = t\<rparr> # b"
    "{h \<in> set hs. le_descriptionId h \<noteq> d} = set a \<union> set b"
    "distinct (map le_descriptionId (a @ b))" "d \<notin> le_descriptionId ` (set a \<union> set b)"
proof (cases "findHolder d hs")
  case None
  then have "d \<notin> le_descriptionId ` set hs" by (simp add: findHolder_None)
  with None assms show ?thesis by (intro that [of hs "[]"]) (auto simp: with_holder_def)
next
  case (Some i)
  obtain a h b where hs: "hs = a @ h # b" "length a = i" "le_descriptionId h = d"
    using findHolder_split [OF Some] by blast
  have "h\<lparr>le_type := t\<rparr> = \<lparr>le_descriptionId = d, le_type = t\<rparr>" using hs(3) by (cases h) simp
  with Some assms hs show ?thesis
    by (intro that [of a b]) (auto simp: with_holder_def image_iff)
qed

lemma with_holder_set:
  "distinct (map le_descriptionId hs) \<Longrightarrow>
   e \<in> set (with_holder d t hs) \<longleftrightarrow> e = \<lparr>le_descriptionId = d, le_type = t\<rparr> \<or> (e \<in> set hs \<and> le_descriptionId e \<noteq> d)"
  by (elim with_holder_split [of hs d t]) auto

lemma with_holder_distinct:
  "distinct (map le_descriptionId hs) \<Longrightarrow> distinct (map le_descriptionId (with_holder d t hs))"
  by (elim with_holder_split [of hs d t]) auto

lemma remove_holder:
  assumes "distinct (map le_descriptionId hs)" "findHolder d hs = Some i"
  shows "e \<in> set (take i hs @ drop (Suc i) hs) \<longleftrightarrow> e \<in> set hs \<and> le_descriptionId e \<noteq> d"
    and "distinct (map le_descriptionId (take i hs @ drop (Suc i) hs))"
    and "length (take i hs @ drop (Suc i) hs) = length hs - 1"
proof -
  obtain a h b where "hs = a @ h # b" "length a = i" "le_descriptionId h = d"
    using findHolder_split [OF assms(2)] by blast
  then show "e \<in> set (take i hs @ drop (Suc i) hs) \<longleftrightarrow> e \<in> set hs \<and> le_descriptionId e \<noteq> d"
    "distinct (map le_descriptionId (take i hs @ drop (Suc i) hs))"
    "length (take i hs @ drop (Suc i) hs) = length hs - 1"
    using assms(1) by (auto simp: image_iff)
qed

lemma with_holder_single:
  assumes "distinct (map le_descriptionId hs)" "\<forall>h \<in> set hs. le_descriptionId h = d"
  shows "with_holder d t hs = [\<lparr>le_descriptionId = d, le_type = t\<rparr>]"
proof -
  have "{h \<in> set hs. le_descriptionId h \<noteq> d} = {}" using assms(2) by auto
  then show ?thesis using assms(1) by (elim with_holder_split [of hs d t]) auto
qed

text \<open>The meaning of the requested operation, and when it conflicts.\<close>

definition conflicts :: "LockType \<Rightarrow> nat \<Rightarrow> PathLockState \<Rightarrow> bool" where
  "conflicts t d st \<longleftrightarrow> (\<exists>h \<in> set (pl_holders st). le_descriptionId h \<noteq> d \<and> (t = Ex \<or> le_type h = Ex))"

definition lock_type_of :: "u32 \<Rightarrow> LockType option" where
  "lock_type_of op = (if op = LOCK_SH then Some Sh else if op = LOCK_EX then Some Ex else None)"

lemma tryAcquire_cases:
  assumes "fl_states m s = Some st"
  shows "tryAcquire p s d op m =
    (case lock_type_of op of
       None \<Rightarrow> Inl EINVAL
     | Some t \<Rightarrow>
         if conflicts t d st then Inr (False, m)
         else Inr (True, (fl_setState s (st\<lparr>pl_holders := with_holder d t (pl_holders st)\<rparr>) m)
                \<lparr>fl_descToPath := (if findHolder d (pl_holders st) = None then mput d p (fl_descToPath m)
                    else fl_descToPath m)\<rparr>))"
proof -
  have SE: "LOCK_SH \<noteq> LOCK_EX" by (simp add: LOCK_SH_def LOCK_EX_def)
  have ex: "list_ex (\<lambda>h. le_type h = Ex \<and> le_descriptionId h \<noteq> d) (pl_holders st) = conflicts Sh d st"
    "list_ex (\<lambda>h. le_descriptionId h \<noteq> d) (pl_holders st) = conflicts Ex d st"
    by (auto simp: conflicts_def list_ex_iff)
  show ?thesis
    using assms SE
    by (auto simp: tryAcquire_def lock_type_of_def Let_def ex with_holder_def fl_setState_def
        split: option.splits)
qed

lemma state_ok_acquire:
  assumes ok: "state_ok st" and nc: "\<not> conflicts t d st"
  shows "state_ok (st\<lparr>pl_holders := with_holder d t (pl_holders st)\<rparr>)"
proof (cases "\<exists>h \<in> set (pl_holders st). le_descriptionId h \<noteq> d")
  case False
  with ok have "with_holder d t (pl_holders st) = [\<lparr>le_descriptionId = d, le_type = t\<rparr>]"
    by (intro with_holder_single) (auto simp: state_ok_def)
  with ok show ?thesis by (simp add: state_ok_def)
next
  case True
  with nc have "t = Sh" and sh: "\<And>h. h \<in> set (pl_holders st) \<Longrightarrow> le_descriptionId h \<noteq> d \<Longrightarrow> le_type h = Sh"
    by (auto simp: conflicts_def) (metis LockType.exhaust)+
  then have "le_type e \<noteq> Ex" if "e \<in> set (with_holder d t (pl_holders st))" for e
    using that ok with_holder_set [of "pl_holders st" e d t] by (auto simp: state_ok_def)
  then show ?thesis using ok with_holder_distinct by (auto simp: state_ok_def)
qed

lemma state_ok_release:
  assumes "state_ok st" "findHolder d (pl_holders st) = Some i" "wq_inv q"
  shows "state_ok (st\<lparr>pl_holders := take i (pl_holders st) @ drop (Suc i) (pl_holders st), pl_waiters := q\<rparr>)"
proof -
  have di: "distinct (map le_descriptionId (pl_holders st))" using assms(1) by (simp add: state_ok_def)
  note r = remove_holder [OF di assms(2)]
  have "pl_holders st \<noteq> []" using assms(2) by auto
  have "length (take i (pl_holders st) @ drop (Suc i) (pl_holders st)) = 1"
    if e: "e \<in> set (take i (pl_holders st) @ drop (Suc i) (pl_holders st))" "le_type e = Ex" for e
  proof -
    have "e \<in> set (pl_holders st)" "le_descriptionId e \<noteq> d" using r(1) [of e] e by auto
    with e assms(1) have "pl_holders st = [e]" by (auto simp: state_ok_def length_Suc_conv)
    with \<open>le_descriptionId e \<noteq> d\<close> assms(2) show ?thesis by simp
  qed
  then show ?thesis using assms(3) r(2) by (auto simp: state_ok_def simp del: set_append length_append)
qed


subsection \<open>The manager as a machine\<close>

record lock_world =
  lw_m :: FileLockManager
  lw_granted :: "(path \<times> nat \<times> LockType) set"

datatype lock_call = LcFlock path nat u32 | LcResume nat | LcRelease nat

definition ungrant :: "path \<Rightarrow> nat \<Rightarrow> (path \<times> nat \<times> LockType) set \<Rightarrow> (path \<times> nat \<times> LockType) set" where
  "ungrant p d G = {g \<in> G. \<not> (fst g = p \<and> fst (snd g) = d)}"

definition grant :: "path \<Rightarrow> nat \<Rightarrow> u32 \<Rightarrow> flock_outcome res \<Rightarrow>
    (path \<times> nat \<times> LockType) set \<Rightarrow> (path \<times> nat \<times> LockType) set" where
  "grant p d op r G =
     (case r of
        Inr Acquired \<Rightarrow>
          (case lock_type_of (op AND NOT LOCK_NB) of
             None \<Rightarrow> G | Some t \<Rightarrow> insert (p, d, t) (ungrant p d G))
      | Inr Released \<Rightarrow> ungrant p d G
      | _ \<Rightarrow> G)"

fun lock_step :: "lock_call \<Rightarrow> lock_world \<Rightarrow> lock_world" where
  "lock_step (LcFlock p d operation) w =
     (let (r, m) = flock p d operation (lw_m w)
      in w\<lparr>lw_m := m, lw_granted := grant p d operation r (lw_granted w)\<rparr>)"
| "lock_step (LcResume tok) w =
     (case fl_resume tok (lw_m w) of
        (None, m) \<Rightarrow> w\<lparr>lw_m := m\<rparr>
      | (Some (r, b), m) \<Rightarrow>
          w\<lparr>lw_m := m, lw_granted := grant (bl_path b) (bl_desc b) (bl_op b) r (lw_granted w)\<rparr>)"
| "lock_step (LcRelease d) w =
     w\<lparr>lw_m := releaseByDescription d (lw_m w),
       lw_granted := (case mget (fl_descToPath (lw_m w)) d of None \<Rightarrow> lw_granted w
         | Some p \<Rightarrow> ungrant p d (lw_granted w))\<rparr>"

definition lw_init :: lock_world where
  "lw_init = \<lparr>lw_m = fl_new, lw_granted = {}\<rparr>"

subsection \<open>The invariant of the lock objects\<close>

definition fl_ok :: "FileLockManager \<Rightarrow> bool" where
  "fl_ok m \<longleftrightarrow> (\<forall>s. fl_states m s = None \<longleftrightarrow> fl_nextState m \<le> s) \<and>
     (\<forall>s st. fl_states m s = Some st \<longrightarrow> state_ok st) \<and>
     (\<forall>p s. mget (fl_locks m) p = Some s \<longrightarrow> s < fl_nextState m)"

lemma fl_ok_state:
  assumes "fl_ok m" "s < fl_nextState m"
  obtains st where "fl_states m s = Some st" "state_ok st"
  using assms by (cases "fl_states m s") (auto simp: fl_ok_def not_le [symmetric])

lemma fl_ok_set:
  assumes "fl_ok m" "fl_states m s \<noteq> None" "state_ok st" "fl_states m' = (fl_states m)(s \<mapsto> st)"
    "fl_nextState m' = fl_nextState m" "\<And>p x. mget (fl_locks m') p = Some x \<Longrightarrow> mget (fl_locks m) p = Some x"
  shows "fl_ok m'"
proof -
  have "fl_states m' x = None \<longleftrightarrow> fl_nextState m' \<le> x" for x
    using assms(1,2) by (cases "x = s") (auto simp: assms(4,5) fl_ok_def)
  moreover have "state_ok st'" if "fl_states m' x = Some st'" for x st'
    using that assms(1,3) by (auto simp: assms(4) fl_ok_def split: if_splits)
  moreover have "x < fl_nextState m'" if "mget (fl_locks m') p = Some x" for p x
    using assms(6) [OF that] assms(1) by (simp add: assms(5) fl_ok_def)
  ultimately show ?thesis by (simp add: fl_ok_def)
qed

lemma cleanupState_sel [simp]:
  "fl_states (cleanupState p s m) = fl_states m" "fl_nextState (cleanupState p s m) = fl_nextState m"
  "fl_blocked (cleanupState p s m) = fl_blocked m" "fl_descToPath (cleanupState p s m) = fl_descToPath m"
  "fl_nextToken (cleanupState p s m) = fl_nextToken m"
  "mget (fl_locks (cleanupState p s m)) p' =
     (if p' = p \<and> (\<exists>st. fl_states m s = Some st \<and> pl_holders st = [] \<and> wq_pending (pl_waiters st) = 0)
      then None else mget (fl_locks m) p')"
  by (auto simp: cleanupState_def split: option.splits)

lemma fl_ok_cleanup: "fl_ok m \<Longrightarrow> fl_ok (cleanupState p s m)"
  by (simp add: fl_ok_def)

lemma fl_getOrCreate_facts:
  assumes ok: "fl_ok m" and run: "fl_getOrCreate p m = (s, m1)"
  obtains st where "fl_ok m1" "mget (fl_locks m1) p = Some s" "fl_states m1 s = Some st" "state_ok st"
    "s < fl_nextState m1" "fl_blocked m1 = fl_blocked m" "fl_descToPath m1 = fl_descToPath m"
    "fl_nextToken m1 = fl_nextToken m"
    "\<And>p'. p' \<noteq> p \<Longrightarrow> mget (fl_locks m1) p' = mget (fl_locks m) p'"
    "\<And>x. x < fl_nextState m \<Longrightarrow> fl_states m1 x = fl_states m x"
    "mget (fl_locks m) p = Some s \<and> m1 = m \<or>
     mget (fl_locks m) p = None \<and> s = fl_nextState m \<and> pl_holders st = []"
proof (cases "mget (fl_locks m) p")
  case (Some x)
  with run have m1: "m1 = m" "s = x" by (simp_all add: fl_getOrCreate_def)
  have "s < fl_nextState m" using Some ok by (simp add: fl_ok_def m1)
  moreover then obtain st where "fl_states m s = Some st" "state_ok st" by (rule fl_ok_state [OF ok])
  ultimately show ?thesis using ok Some by (intro that [of st]) (simp_all add: m1)
next
  case None
  let ?st = "\<lparr>pl_holders = [], pl_waiters = wq_new\<rparr>"
  from None run have s: "s = fl_nextState m" and m1: "m1 = (fl_setState s ?st m)
      \<lparr>fl_nextState := Suc s, fl_locks := mput p s (fl_locks m)\<rparr>"
    by (auto simp: fl_getOrCreate_def Let_def)
  have st: "state_ok ?st" by (simp add: state_ok_def wq_inv_new)
  have "fl_states m1 x = None \<longleftrightarrow> Suc s \<le> x" for x
    using ok by (cases "x = s") (auto simp: m1 s fl_ok_def fl_setState_def Suc_le_eq le_less)
  then have "fl_ok m1"
    using ok st by (auto simp: fl_ok_def m1 s fl_setState_def less_Suc_eq split: if_splits)
  with st None s show ?thesis by (intro that [of ?st]) (simp_all add: m1 fl_setState_def)
qed

lemma flock_turn_cases:
  assumes run: "flock_turn tok p d op nb m = (r, m')" and ok: "fl_ok m"
  obtains
    (unchanged) s m1 st where "fl_getOrCreate p m = (s, m1)" "fl_states m1 s = Some st" "m' = m1"
      "lock_type_of op = None \<and> r = Inl EINVAL \<or>
       (\<exists>t. lock_type_of op = Some t \<and> conflicts t d st \<and> nb \<and> r = Inl EAGAIN)"
  | (acquired) s m1 st t where "fl_getOrCreate p m = (s, m1)" "fl_states m1 s = Some st"
      "lock_type_of op = Some t" "\<not> conflicts t d st" "r = Inr Acquired"
      "m' = (fl_setState s (st\<lparr>pl_holders := with_holder d t (pl_holders st)\<rparr>) m1)
                \<lparr>fl_descToPath := (if findHolder d (pl_holders st) = None then mput d p (fl_descToPath m1)
                    else fl_descToPath m1)\<rparr>"
  | (blocks) s m1 st t where "fl_getOrCreate p m = (s, m1)" "fl_states m1 s = Some st"
      "lock_type_of op = Some t" "conflicts t d st" "\<not> nb" "r = Inr (FlockBlocks tok)"
      "m' = (fl_setState s (st\<lparr>pl_waiters := snd (wq_enqueue None (pl_waiters st))\<rparr>) m1)
           \<lparr>fl_blocked := mput tok \<lparr>bl_path = p, bl_desc = d, bl_op = op, bl_state = s,
              bl_handle = fst (wq_enqueue None (pl_waiters st))\<rparr> (fl_blocked m1)\<rparr>"
proof -
  obtain s m1 where g: "fl_getOrCreate p m = (s, m1)" by force
  obtain st where st: "fl_states m1 s = Some st" by (rule fl_getOrCreate_facts [OF ok g])
  show ?thesis
  proof (cases "lock_type_of op")
    case None
    with run g st show ?thesis
      by (intro unchanged [OF g st]) (auto simp: flock_turn_def tryAcquire_cases [OF st])
  next
    case (Some t)
    show ?thesis
    proof (cases "conflicts t d st")
      case False
      with run g Some show ?thesis
        by (intro acquired [OF g st Some]) (auto simp: flock_turn_def tryAcquire_cases [OF st])
    next
      case c: True
      show ?thesis
      proof (cases nb)
        case True
        with c run g Some show ?thesis
          by (intro unchanged [OF g st]) (auto simp: flock_turn_def tryAcquire_cases [OF st])
      next
        case False
        with c run g Some st show ?thesis
          by (intro blocks [OF g st Some])
            (auto simp: flock_turn_def tryAcquire_cases [OF st] Let_def case_prod_beta)
      qed
    qed
  qed
qed

lemma flock_turn_fl_ok:
  assumes run: "flock_turn tok p d op nb m = (r, m')" and ok: "fl_ok m"
  shows "fl_ok m'"
  using run ok
proof (cases rule: flock_turn_cases)
  case (unchanged s m1 st)
  obtain "fl_ok m1" by (rule fl_getOrCreate_facts [OF ok unchanged(1)])
  with unchanged show ?thesis by simp
next
  case (acquired s m1 st t)
  obtain st1 where "fl_ok m1" "fl_states m1 s = Some st1" "state_ok st1"
    by (rule fl_getOrCreate_facts [OF ok acquired(1)])
  with acquired(2) have m1: "fl_ok m1" "state_ok st" by simp_all
  show ?thesis
    by (rule fl_ok_set [OF m1(1) _ state_ok_acquire [OF m1(2) acquired(4)], of s])
      (simp_all add: acquired(2,6) fl_setState_def)
next
  case (blocks s m1 st t)
  obtain st1 where "fl_ok m1" "fl_states m1 s = Some st1" "state_ok st1"
    by (rule fl_getOrCreate_facts [OF ok blocks(1)])
  with blocks(2) have m1: "fl_ok m1" "state_ok st" by simp_all
  then have so: "state_ok (st\<lparr>pl_waiters := snd (wq_enqueue None (pl_waiters st))\<rparr>)"
    by (simp add: state_ok_def wq_inv_enqueue)
  show ?thesis
    by (rule fl_ok_set [OF m1(1) _ so, of s]) (simp_all add: blocks(2,7) fl_setState_def)
qed

lemma fl_unlock_fl_ok:
  assumes ok: "fl_ok m" shows "fl_ok (fl_unlock p d m)"
proof (cases "mget (fl_locks m) p")
  case (Some s)
  have lt: "s < fl_nextState m" using Some ok by (simp add: fl_ok_def)
  obtain st where st: "fl_states m s = Some st" "state_ok st" by (rule fl_ok_state [OF ok lt])
  show ?thesis
  proof (cases "findHolder d (pl_holders st)")
    case None
    with Some st ok show ?thesis by (simp add: fl_unlock_def fl_ok_cleanup)
  next
    case (Some i)
    have "wq_inv (snd (wq_wakeOne (pl_waiters st)))" using st(2) by (simp add: state_ok_def wq_inv_wakeOne)
    note sok = state_ok_release [OF st(2) Some this]
    have "fl_ok ((fl_setState s (st\<lparr>pl_holders := take i (pl_holders st) @ drop (Suc i) (pl_holders st),
        pl_waiters := snd (wq_wakeOne (pl_waiters st))\<rparr>) m)\<lparr>fl_descToPath := mdel d (fl_descToPath m)\<rparr>)"
      by (rule fl_ok_set [OF ok _ sok]) (simp_all add: st fl_setState_def)
    then show ?thesis using Some st \<open>mget (fl_locks m) p = Some s\<close>
      by (simp add: fl_unlock_def fl_ok_cleanup)
  qed
qed (use ok in \<open>simp add: fl_unlock_def\<close>)

lemma fl_resume_fl_ok:
  assumes ok: "fl_ok m" shows "fl_ok (snd (fl_resume tok m))"
proof (cases "\<exists>b st. mget (fl_blocked m) tok = Some b \<and> fl_states m (bl_state b) = Some st \<and>
    isSettled (pl_waiters st) (bl_handle b)")
  case False
  then have "snd (fl_resume tok m) = m" by (auto simp: fl_resume_def split: option.splits)
  with ok show ?thesis by simp
next
  case True
  then obtain b st where b: "mget (fl_blocked m) tok = Some b" "fl_states m (bl_state b) = Some st"
    "isSettled (pl_waiters st) (bl_handle b)" by blast
  let ?m1 = "(fl_setState (bl_state b) (st\<lparr>pl_waiters := wq_remove (bl_handle b) (pl_waiters st)\<rparr>) m)
      \<lparr>fl_blocked := mdel tok (fl_blocked m)\<rparr>"
  have "state_ok st" using ok b(2) by (auto simp: fl_ok_def)
  then have "state_ok (st\<lparr>pl_waiters := wq_remove (bl_handle b) (pl_waiters st)\<rparr>)"
    by (simp add: state_ok_def wq_inv_remove)
  then have "fl_ok ?m1" by (intro fl_ok_set [OF ok]) (auto simp: b fl_setState_def)
  then have "fl_ok (cleanupState (bl_path b) (bl_state b) ?m1)" by (rule fl_ok_cleanup)
  with flock_turn_fl_ok b show ?thesis
    by (simp add: fl_resume_def Let_def case_prod_beta) (metis prod.collapse)
qed

lemma lock_step_fl_ok: "fl_ok (lw_m w) \<Longrightarrow> fl_ok (lw_m (lock_step x w))"
proof (cases x)
  case (LcFlock p d op)
  assume ok: "fl_ok (lw_m w)"
  have "fl_ok ((lw_m w)\<lparr>fl_nextToken := n\<rparr>)" for n using ok by (simp add: fl_ok_def)
  with LcFlock show ?thesis
    using flock_turn_fl_ok fl_unlock_fl_ok [OF ok]
    by (auto simp: flock_def Let_def split: prod.splits if_splits)
next
  case (LcResume tok)
  assume ok: "fl_ok (lw_m w)"
  with fl_resume_fl_ok [OF ok, of tok] LcResume show ?thesis by (auto split: prod.splits option.splits)
next
  case (LcRelease d)
  assume "fl_ok (lw_m w)"
  with LcRelease show ?thesis
    by (auto simp: releaseByDescription_def fl_unlock_fl_ok split: option.splits)
qed

interpretation lock_objects: invariant_component lock_step "\<lambda>_ _. True" "\<lambda>w. fl_ok (lw_m w)"
  by unfold_locales (rule lock_step_fl_ok)

lemma fl_ok_init: "fl_ok (lw_m lw_init)"
  by (simp add: fl_ok_def lw_init_def fl_new_def)


subsection \<open>Granted locks under a prompt schedule\<close>

definition waiters_of :: "FileLockManager \<Rightarrow> nat \<Rightarrow> WaitQueue" where
  "waiters_of m s = (case fl_states m s of None \<Rightarrow> wq_new | Some st \<Rightarrow> pl_waiters st)"

definition holders_of :: "FileLockManager \<Rightarrow> nat \<Rightarrow> LockEntry list" where
  "holders_of m s = (case fl_states m s of None \<Rightarrow> [] | Some st \<Rightarrow> pl_holders st)"

definition holders_at :: "FileLockManager \<Rightarrow> path \<Rightarrow> LockEntry list" where
  "holders_at m p = (case mget (fl_locks m) p of None \<Rightarrow> [] | Some s \<Rightarrow> holders_of m s)"

definition settled :: "FileLockManager \<Rightarrow> BlockedLock \<Rightarrow> bool" where
  "settled m b = isSettled (waiters_of m (bl_state b)) (bl_handle b)"

definition quiet :: "FileLockManager \<Rightarrow> bool" where
  "quiet m = list_all (\<lambda>(tok, b). \<not> settled m b) (fl_blocked m)"

definition blocked_ok :: "(nat \<Rightarrow> path) \<Rightarrow> FileLockManager \<Rightarrow> BlockedLock \<Rightarrow> bool" where
  "blocked_ok pathOf m b \<longleftrightarrow>
     bl_path b = pathOf (bl_desc b) \<and> lock_type_of (bl_op b) \<noteq> None \<and> bl_state b < fl_nextState m \<and>
     bl_handle b < wq_next (waiters_of m (bl_state b)) \<and>
     (if settled m b then mget (fl_locks m) (bl_path b) \<in> {None, Some (bl_state b)}
      else mget (fl_locks m) (bl_path b) = Some (bl_state b) \<and>
        bl_handle b \<in> set (wq_waiters (waiters_of m (bl_state b))))"

definition grants_ok :: "(nat \<Rightarrow> path) \<Rightarrow> FileLockManager \<Rightarrow> (path \<times> nat \<times> LockType) set \<Rightarrow> bool" where
  "grants_ok pathOf m G \<longleftrightarrow>
     (\<forall>p d t. (p, d, t) \<in> G \<longleftrightarrow> \<lparr>le_descriptionId = d, le_type = t\<rparr> \<in> set (holders_at m p)) \<and>
     (\<forall>p d t. (p, d, t) \<in> G \<longrightarrow> p = pathOf d) \<and>
     (\<forall>d. mget (fl_descToPath m) d = (if \<exists>t. (pathOf d, d, t) \<in> G then Some (pathOf d) else None))"

definition waiting_ok :: "(nat \<Rightarrow> path) \<Rightarrow> FileLockManager \<Rightarrow> bool" where
  "waiting_ok pathOf m \<longleftrightarrow> mwf (fl_blocked m) \<and>
     (\<forall>p p' s. mget (fl_locks m) p = Some s \<and> mget (fl_locks m) p' = Some s \<longrightarrow> p = p') \<and>
     (\<forall>tok b. mget (fl_blocked m) tok = Some b \<longrightarrow> tok < fl_nextToken m \<and> blocked_ok pathOf m b) \<and>
     (\<forall>tok tok' b b'. mget (fl_blocked m) tok = Some b \<and> mget (fl_blocked m) tok' = Some b' \<and>
        bl_state b = bl_state b' \<and> bl_handle b = bl_handle b' \<longrightarrow> tok = tok')"

definition one_settled :: "FileLockManager \<Rightarrow> bool" where
  "one_settled m \<longleftrightarrow> (\<forall>tok tok' b b'. mget (fl_blocked m) tok = Some b \<and> mget (fl_blocked m) tok' = Some b' \<and>
     settled m b \<and> settled m b' \<longrightarrow> tok = tok')"

definition lock_inv :: "(nat \<Rightarrow> path) \<Rightarrow> FileLockManager \<Rightarrow> (path \<times> nat \<times> LockType) set \<Rightarrow> bool" where
  "lock_inv pathOf m G \<longleftrightarrow> fl_ok m \<and> grants_ok pathOf m G \<and> waiting_ok pathOf m"

lemma quiet_iff: "mwf (fl_blocked m) \<Longrightarrow> quiet m \<longleftrightarrow> (\<forall>tok b. mget (fl_blocked m) tok = Some b \<longrightarrow> \<not> settled m b)"
  by (fastforce simp: quiet_def list_all_iff)

lemma views_set [simp]:
  "waiters_of (fl_setState s st m) = (waiters_of m)(s := pl_waiters st)"
  "holders_of (fl_setState s st m) = (holders_of m)(s := pl_holders st)"
  "fl_locks (fl_setState s st m) = fl_locks m" "fl_blocked (fl_setState s st m) = fl_blocked m"
  "fl_descToPath (fl_setState s st m) = fl_descToPath m" "fl_nextToken (fl_setState s st m) = fl_nextToken m"
  "fl_nextState (fl_setState s st m) = fl_nextState m"
  by (auto simp: waiters_of_def holders_of_def fl_setState_def)

lemma views_upd [simp]:
  "waiters_of (m\<lparr>fl_blocked := x\<rparr>) = waiters_of m" "waiters_of (m\<lparr>fl_descToPath := y\<rparr>) = waiters_of m"
  "waiters_of (m\<lparr>fl_locks := l\<rparr>) = waiters_of m" "waiters_of (m\<lparr>fl_nextState := n\<rparr>) = waiters_of m"
  "waiters_of (m\<lparr>fl_nextToken := n\<rparr>) = waiters_of m" "waiters_of (cleanupState p s m) = waiters_of m"
  "holders_of (m\<lparr>fl_blocked := x\<rparr>) = holders_of m" "holders_of (m\<lparr>fl_descToPath := y\<rparr>) = holders_of m"
  "holders_of (m\<lparr>fl_locks := l\<rparr>) = holders_of m" "holders_of (m\<lparr>fl_nextState := n\<rparr>) = holders_of m"
  "holders_of (m\<lparr>fl_nextToken := n\<rparr>) = holders_of m" "holders_of (cleanupState p s m) = holders_of m"
  by (auto simp: waiters_of_def holders_of_def)

lemma views_state: "fl_states m s = Some st \<Longrightarrow> waiters_of m s = pl_waiters st \<and> holders_of m s = pl_holders st"
  by (simp add: waiters_of_def holders_of_def)

lemma grants_ok_iff:
  "grants_ok pathOf m G \<Longrightarrow> (p, d, t) \<in> G \<longleftrightarrow> \<lparr>le_descriptionId = d, le_type = t\<rparr> \<in> set (holders_at m p)"
  unfolding grants_ok_def by blast

lemma grants_ok_path: "grants_ok pathOf m G \<Longrightarrow> (p, d, t) \<in> G \<Longrightarrow> p = pathOf d"
  unfolding grants_ok_def by blast

lemma grants_ok_desc:
  "grants_ok pathOf m G \<Longrightarrow> mget (fl_descToPath m) d = (if \<exists>t. (pathOf d, d, t) \<in> G then Some (pathOf d) else None)"
  unfolding grants_ok_def by blast

lemma grants_ok_cong:
  "grants_ok pathOf m G \<Longrightarrow> (\<And>p. holders_at m' p = holders_at m p) \<Longrightarrow> fl_descToPath m' = fl_descToPath m \<Longrightarrow>
   grants_ok pathOf m' G"
  unfolding grants_ok_def by simp

lemma grants_ok_views:
  "grants_ok pathOf m G \<Longrightarrow> holders_of m' = holders_of m \<Longrightarrow> fl_locks m' = fl_locks m \<Longrightarrow>
   fl_descToPath m' = fl_descToPath m \<Longrightarrow> grants_ok pathOf m' G"
  by (rule grants_ok_cong) (simp_all add: holders_at_def split: option.splits)

lemma waiting_ok_blocked:
  "waiting_ok pathOf m \<Longrightarrow> mget (fl_blocked m) tok = Some b \<Longrightarrow> tok < fl_nextToken m \<and> blocked_ok pathOf m b"
  by (simp add: waiting_ok_def)

lemma waiting_ok_wf: "waiting_ok pathOf m \<Longrightarrow> mwf (fl_blocked m)"
  unfolding waiting_ok_def by blast

lemma waiting_ok_inj:
  "waiting_ok pathOf m \<Longrightarrow> mget (fl_locks m) p = Some s \<Longrightarrow> mget (fl_locks m) p' = Some s \<Longrightarrow> p = p'"
  unfolding waiting_ok_def by blast

lemma waiting_ok_uniq:
  "waiting_ok pathOf m \<Longrightarrow> mget (fl_blocked m) tok = Some b \<Longrightarrow> mget (fl_blocked m) tok' = Some b' \<Longrightarrow>
   bl_state b = bl_state b' \<Longrightarrow> bl_handle b = bl_handle b' \<Longrightarrow> tok = tok'"
  unfolding waiting_ok_def by blast

lemma waiting_okI:
  assumes "mwf (fl_blocked m)"
    and "\<And>p p' s. mget (fl_locks m) p = Some s \<Longrightarrow> mget (fl_locks m) p' = Some s \<Longrightarrow> p = p'"
    and "\<And>tok b. mget (fl_blocked m) tok = Some b \<Longrightarrow> tok < fl_nextToken m \<and> blocked_ok pathOf m b"
    and "\<And>tok tok' b b'. mget (fl_blocked m) tok = Some b \<Longrightarrow> mget (fl_blocked m) tok' = Some b' \<Longrightarrow>
       bl_state b = bl_state b' \<Longrightarrow> bl_handle b = bl_handle b' \<Longrightarrow> tok = tok'"
  shows "waiting_ok pathOf m"
  unfolding waiting_ok_def using assms by blast

lemma fl_getOrCreate_inv:
  assumes inv: "lock_inv pathOf m G" and q: "quiet m" and run: "fl_getOrCreate p m = (s, m1)"
  shows "lock_inv pathOf m1 G \<and> quiet m1 \<and> mget (fl_locks m1) p = Some s"
proof (cases "mget (fl_locks m) p")
  case (Some x)
  with run inv q show ?thesis by (simp add: fl_getOrCreate_def)
next
  case None
  let ?st = "\<lparr>pl_holders = [], pl_waiters = wq_new\<rparr>"
  from None run have s: "s = fl_nextState m" and m1: "m1 = (fl_setState s ?st m)
      \<lparr>fl_nextState := Suc s, fl_locks := mput p s (fl_locks m)\<rparr>"
    by (auto simp: fl_getOrCreate_def Let_def)
  have ok: "fl_ok m" and g: "grants_ok pathOf m G" and w: "waiting_ok pathOf m"
    using inv by (simp_all add: lock_inv_def)
  have ok1: "fl_ok m1" by (rule fl_getOrCreate_facts [OF ok run])
  have lt: "x < s" if "mget (fl_locks m) p' = Some x" for x p'
    using that ok by (simp add: fl_ok_def s)
  have at: "holders_at m1 p' = holders_at m p'" for p'
    using None by (auto simp: holders_at_def m1 dest: lt split: option.splits)
  have bl: "bl_state b < s" "settled m1 b = settled m b" "waiters_of m1 (bl_state b) = waiters_of m (bl_state b)"
    if "mget (fl_blocked m) tok = Some b" for tok b
  proof -
    show "bl_state b < s" using waiting_ok_blocked [OF w that] by (simp add: blocked_ok_def s)
    then show "settled m1 b = settled m b" "waiters_of m1 (bl_state b) = waiters_of m (bl_state b)"
      by (simp_all add: settled_def m1)
  qed
  have "waiting_ok pathOf m1"
  proof (rule waiting_okI)
    show "mwf (fl_blocked m1)" using w by (simp add: m1 waiting_ok_def)
    show "p1 = p2" if "mget (fl_locks m1) p1 = Some x" "mget (fl_locks m1) p2 = Some x" for p1 p2 x
      using that lt waiting_ok_inj [OF w] by (auto simp: m1 split: if_splits)
    show "tok < fl_nextToken m1 \<and> blocked_ok pathOf m1 b" if "mget (fl_blocked m1) tok = Some b" for tok b
    proof -
      have b: "mget (fl_blocked m) tok = Some b" using that by (simp add: m1)
      have l: "mget (fl_locks m1) (bl_path b) =
          (if bl_path b = p then Some s else mget (fl_locks m) (bl_path b))" by (simp add: m1)
      have "\<not> settled m b" using q b w by (auto simp: quiet_iff waiting_ok_def)
      then show ?thesis
        using waiting_ok_blocked [OF w b] None bl [OF b]
        by (auto simp: blocked_ok_def l) (auto simp: m1 s)
    qed
    show "tok = tok'" if "mget (fl_blocked m1) tok = Some b" "mget (fl_blocked m1) tok' = Some b'"
      "bl_state b = bl_state b'" "bl_handle b = bl_handle b'" for tok tok' b b'
      using that waiting_ok_uniq [OF w] by (simp add: m1)
  qed
  moreover have "grants_ok pathOf m1 G" using g by (rule grants_ok_cong) (simp_all add: at, simp add: m1)
  moreover have "mwf (fl_blocked m)" "fl_blocked m1 = fl_blocked m" using w by (simp_all add: m1 waiting_ok_def)
  then have "quiet m1" using q bl by (simp add: quiet_iff)
  ultimately show ?thesis using ok1 by (simp add: lock_inv_def m1)
qed


lemma waiting_ok_cong:
  assumes "waiters_of m' = waiters_of m" "fl_locks m' = fl_locks m" "fl_blocked m' = fl_blocked m"
    "fl_nextState m' = fl_nextState m" "fl_nextToken m' = fl_nextToken m"
  shows "waiting_ok pathOf m' = waiting_ok pathOf m" "settled m' b = settled m b" "quiet m' = quiet m"
  by (simp_all add: waiting_ok_def blocked_ok_def settled_def quiet_def assms)

lemma grants_acquire:
  assumes g: "grants_ok pathOf m G" and l: "mget (fl_locks m) (pathOf d) = Some s"
    and inj: "\<And>p'. mget (fl_locks m) p' = Some s \<Longrightarrow> p' = pathOf d"
    and st: "fl_states m s = Some st" "state_ok st"
    and m': "m' = (fl_setState s (st\<lparr>pl_holders := with_holder d t (pl_holders st)\<rparr>) m)
      \<lparr>fl_descToPath := (if findHolder d (pl_holders st) = None then mput d (pathOf d) (fl_descToPath m)
          else fl_descToPath m)\<rparr>"
  shows "grants_ok pathOf m' (insert (pathOf d, d, t) (ungrant (pathOf d) d G))"
proof -
  let ?G = "insert (pathOf d, d, t) (ungrant (pathOf d) d G)"
  have di: "distinct (map le_descriptionId (pl_holders st))" using st(2) by (simp add: state_ok_def)
  have at: "holders_at m (pathOf d) = pl_holders st" using l st(1) by (simp add: holders_at_def views_state)
  have at': "holders_at m' p = (if p = pathOf d then with_holder d t (pl_holders st) else holders_at m p)" for p
  proof (cases "p = pathOf d")
    case False
    then have "mget (fl_locks m) p \<noteq> Some s" using inj by blast
    with False show ?thesis by (auto simp: holders_at_def m' split: option.splits)
  qed (simp add: holders_at_def m' l)
  have mem: "(pathOf d, d', t') \<in> G \<longleftrightarrow> \<lparr>le_descriptionId = d', le_type = t'\<rparr> \<in> set (pl_holders st)" for d' t'
    using grants_ok_iff [OF g] by (simp add: at)
  have "(p, d', t') \<in> ?G \<longleftrightarrow> \<lparr>le_descriptionId = d', le_type = t'\<rparr> \<in> set (holders_at m' p)" for p d' t'
  proof (cases "p = pathOf d")
    case True
    then show ?thesis using with_holder_set [OF di] mem by (auto simp: at' ungrant_def)
  next
    case False
    then show ?thesis using grants_ok_iff [OF g] by (simp add: at' ungrant_def)
  qed
  moreover have "p = pathOf d'" if "(p, d', t') \<in> ?G" for p d' t'
    using that grants_ok_path [OF g] by (auto simp: ungrant_def)
  moreover have "mget (fl_descToPath m') d' = (if \<exists>t'. (pathOf d', d', t') \<in> ?G then Some (pathOf d') else None)"
    for d'
  proof (cases "d' = d")
    case True
    have "mget (fl_descToPath m) d = Some (pathOf d)" if "findHolder d (pl_holders st) \<noteq> None"
    proof -
      have "d \<in> le_descriptionId ` set (pl_holders st)" using that unfolding findHolder_None by simp
      then obtain h where h: "h \<in> set (pl_holders st)" "le_descriptionId h = d" by auto
      have "\<lparr>le_descriptionId = d, le_type = le_type h\<rparr> \<in> set (pl_holders st)"
        using h(1) by (subst LockEntry_eta [OF h(2), symmetric])
      then have "(pathOf d, d, le_type h) \<in> G" using mem [of d "le_type h"] by simp
      then have "\<exists>t. (pathOf d, d, t) \<in> G" by blast
      then show ?thesis using grants_ok_desc [OF g, of d] by simp
    qed
    with True show ?thesis by (auto simp: m')
  next
    case False
    then show ?thesis using grants_ok_desc [OF g, of d'] by (simp add: m' ungrant_def)
  qed
  ultimately show ?thesis unfolding grants_ok_def by blast
qed

lemma waiting_block:
  assumes w: "waiting_ok pathOf m" and q: "quiet m" and l: "mget (fl_locks m) (pathOf d) = Some s"
    and st: "fl_states m s = Some st" "state_ok st" and lt: "s < fl_nextState m" "tok < fl_nextToken m"
    and fresh: "\<not> mhas (fl_blocked m) tok" and op: "lock_type_of op \<noteq> None"
    and b: "nb = \<lparr>bl_path = pathOf d, bl_desc = d, bl_op = op, bl_state = s,
              bl_handle = fst (wq_enqueue None (pl_waiters st))\<rparr>"
    and m': "m' = (fl_setState s (st\<lparr>pl_waiters := snd (wq_enqueue None (pl_waiters st))\<rparr>) m)
           \<lparr>fl_blocked := mput tok nb (fl_blocked m)\<rparr>"
  shows "waiting_ok pathOf m' \<and> quiet m'"
proof -
  let ?q = "snd (wq_enqueue None (pl_waiters st))"
  have ws: "waiters_of m s = pl_waiters st" using st(1) by (simp add: views_state)
  have wi: "wq_inv (pl_waiters st)" using st(2) by (simp add: state_ok_def)
  have w': "waiters_of m' x = (if x = s then ?q else waiters_of m x)" for x by (simp add: m')
  have new: "\<not> settled m' nb" "bl_handle nb < wq_next ?q" "bl_handle nb \<in> set (wq_waiters ?q)"
    by (simp_all add: settled_def w' b isSettled_def wq_enqueue_def handle_new_def)
  have old: "\<not> settled m' c \<and> blocked_ok pathOf m' c \<and> \<not> (bl_state c = s \<and> bl_handle c = bl_handle nb)"
    if c: "mget (fl_blocked m) t = Some c" for t c
  proof -
    have ns: "\<not> settled m c" using q w c by (auto simp: quiet_iff waiting_ok_def)
    have bo: "blocked_ok pathOf m c" using waiting_ok_blocked [OF w c] by simp
    have ne: "bl_handle c \<noteq> bl_handle nb" if "bl_state c = s"
      using that bo by (simp add: blocked_ok_def ws b wq_enqueue_def)
    have ns': "\<not> settled m' c"
      using ns ne by (cases "bl_state c = s") (simp_all add: settled_def w' ws isSettled_def wq_enqueue_def b)
    have "wq_next (waiters_of m (bl_state c)) \<le> wq_next (waiters_of m' (bl_state c))"
      "set (wq_waiters (waiters_of m (bl_state c))) \<subseteq> set (wq_waiters (waiters_of m' (bl_state c)))"
      by (auto simp: w' ws wq_enqueue_def)
    with bo ns ns' have "blocked_ok pathOf m' c"
      by (auto simp: blocked_ok_def m')
    with ns' ne show ?thesis by blast
  qed
  have bl': "mget (fl_blocked m') t = (if t = tok then Some nb else mget (fl_blocked m) t)" for t
    by (simp add: m')
  have wf: "mwf (fl_blocked m')" using w by (simp add: m' waiting_ok_def)
  have nbo: "blocked_ok pathOf m' nb"
    using new l lt op by (simp add: blocked_ok_def w') (simp add: m' b)
  have "waiting_ok pathOf m'"
  proof (rule waiting_okI [OF wf])
    show "p1 = p2" if "mget (fl_locks m') p1 = Some x" "mget (fl_locks m') p2 = Some x" for p1 p2 x
      using that waiting_ok_inj [OF w] by (simp add: m')
    show "t < fl_nextToken m' \<and> blocked_ok pathOf m' c" if "mget (fl_blocked m') t = Some c" for t c
      using that nbo lt old waiting_ok_blocked [OF w, of t c] by (auto simp: bl' m' split: if_splits)
    show "t = t'" if "mget (fl_blocked m') t = Some c" "mget (fl_blocked m') t' = Some c'"
      "bl_state c = bl_state c'" "bl_handle c = bl_handle c'" for t t' c c'
    proof -
      have "bl_state nb = s" by (simp add: b)
      then have "t = tok \<longleftrightarrow> t' = tok"
        using that old [of t c] old [of t' c'] by (auto simp: bl' simp del: not_Some_eq split: if_splits)
      then show ?thesis
        using that waiting_ok_uniq [OF w, of t c t' c'] by (cases "t = tok") (simp_all add: bl')
    qed
  qed
  moreover have "quiet m'" using old new(1) by (auto simp: quiet_iff [OF wf] bl')
  ultimately show ?thesis by simp
qed

lemma flock_turn_inv:
  assumes run: "flock_turn tok (pathOf d) d op nb m = (r, m')" and inv: "lock_inv pathOf m G" and q: "quiet m"
    and tok: "tok < fl_nextToken m" "\<not> mhas (fl_blocked m) tok"
    and op: "op AND NOT LOCK_NB = op"
  shows "lock_inv pathOf m' (grant (pathOf d) d op r G) \<and> quiet m'"
proof -
  have ok: "fl_ok m" using inv by (simp add: lock_inv_def)
  have ok': "fl_ok m'" by (rule flock_turn_fl_ok [OF run ok])
  from run ok show ?thesis
  proof (cases rule: flock_turn_cases)
    case (unchanged s m1 st)
    with fl_getOrCreate_inv [OF inv q unchanged(1)] show ?thesis by (auto simp: grant_def)
  next
    case (acquired s m1 st t)
    note i1 = fl_getOrCreate_inv [OF inv q acquired(1)]
    have w1: "waiting_ok pathOf m1" and g1: "grants_ok pathOf m1 G" and l1: "mget (fl_locks m1) (pathOf d) = Some s"
      using i1 by (simp_all add: lock_inv_def)
    have "state_ok st" using i1 acquired(2) by (auto simp: lock_inv_def fl_ok_def)
    then have "grants_ok pathOf m' (insert (pathOf d, d, t) (ungrant (pathOf d) d G))"
      using waiting_ok_inj [OF w1 _ l1] acquired(2,6) by (intro grants_acquire [OF g1 l1]) auto
    moreover have "waiters_of m' = waiters_of m1"
      using views_state [OF acquired(2)] by (simp add: acquired(6) fun_upd_idem)
    then have "waiting_ok pathOf m' \<and> quiet m'"
      using waiting_ok_cong [of m' m1] w1 i1 by (simp add: acquired(6))
    ultimately show ?thesis using ok' acquired(3,5) op by (simp add: lock_inv_def grant_def)
  next
    case (blocks s m1 st t)
    note i1 = fl_getOrCreate_inv [OF inv q blocks(1)]
    obtain "s < fl_nextState m1" "fl_nextToken m1 = fl_nextToken m" "fl_blocked m1 = fl_blocked m"
      by (rule fl_getOrCreate_facts [OF ok blocks(1)])
    moreover have "state_ok st" using i1 blocks(2) by (auto simp: lock_inv_def fl_ok_def)
    ultimately have "waiting_ok pathOf m' \<and> quiet m'"
      using i1 blocks(3) tok
      by (intro waiting_block [of pathOf m1 d s st tok op, OF _ _ _ blocks(2) _ _ _ _ _ refl blocks(7)])
        (simp_all add: lock_inv_def)
    moreover have "holders_of m' = holders_of m1" "fl_locks m' = fl_locks m1" "fl_descToPath m' = fl_descToPath m1"
      using views_state [OF blocks(2)] by (simp_all add: blocks(7) fun_upd_idem)
    then have "grants_ok pathOf m' G" using i1 grants_ok_views [of pathOf m1 G m'] by (simp add: lock_inv_def)
    ultimately show ?thesis using ok' blocks(6) by (simp add: lock_inv_def grant_def)
  qed
qed


lemma holders_at_state:
  "holders_at m p \<noteq> [] \<Longrightarrow> \<exists>s st. fl_states m s = Some st \<and> holders_at m p = pl_holders st"
  by (cases "mget (fl_locks m) p"; cases "fl_states m (the (mget (fl_locks m) p))")
    (auto simp: holders_at_def holders_of_def)

lemma ungrant_none:
  assumes "grants_ok pathOf m G" "d \<notin> le_descriptionId ` set (holders_at m p)"
  shows "ungrant p d G = G"
proof -
  have "(p, d, t) \<notin> G" for t
    using assms(2) grants_ok_iff [OF assms(1), of p d t] by (force simp: image_iff)
  then show ?thesis by (auto simp: ungrant_def)
qed

lemma cleanup_inv:
  assumes ok: "fl_ok m" and g: "grants_ok pathOf m G" and w: "waiting_ok pathOf m"
    and l: "mget (fl_locks m) p \<in> {None, Some s}"
  shows "lock_inv pathOf (cleanupState p s m) G"
proof (cases "\<exists>st. fl_states m s = Some st \<and> pl_holders st = [] \<and> wq_pending (pl_waiters st) = 0")
  case False
  then have "cleanupState p s m = m" by (auto simp: cleanupState_def split: option.splits)
  with assms show ?thesis by (simp add: lock_inv_def)
next
  case True
  then obtain st where st: "fl_states m s = Some st" "pl_holders st = []" "wq_pending (pl_waiters st) = 0" by blast
  let ?m = "cleanupState p s m"
  have loc: "mget (fl_locks ?m) p' = (if p' = p then None else mget (fl_locks m) p')" for p'
    using True by simp
  have "holders_at ?m p' = holders_at m p'" for p'
    using l st by (auto simp: holders_at_def loc views_state split: option.splits simp del: cleanupState_sel(6))
  then have "grants_ok pathOf ?m G" by (intro grants_ok_cong [OF g]) simp_all
  moreover have "waiting_ok pathOf ?m"
  proof (rule waiting_okI)
    show "mwf (fl_blocked ?m)" using w by (simp add: waiting_ok_def)
    show "p1 = p2" if "mget (fl_locks ?m) p1 = Some x" "mget (fl_locks ?m) p2 = Some x" for p1 p2 x
      using that waiting_ok_inj [OF w, of p1 x p2] by (simp add: loc del: cleanupState_sel(6) split: if_splits)
    show "tok < fl_nextToken ?m \<and> blocked_ok pathOf ?m b" if "mget (fl_blocked ?m) tok = Some b" for tok b
    proof -
      have b: "tok < fl_nextToken m" "blocked_ok pathOf m b" using waiting_ok_blocked [OF w] that by auto
      have se: "settled ?m b = settled m b" by (simp add: settled_def)
      have "bl_path b \<noteq> p" if ns: "\<not> settled m b"
      proof
        assume "bl_path b = p"
        then have "bl_state b = s" and h: "bl_handle b \<in> set (wq_waiters (pl_waiters st))"
          using b(2) ns l views_state [OF st(1)] by (auto simp: blocked_ok_def)
        then have "bl_handle b \<in> set (pending_list (pl_waiters st))"
          using ns views_state [OF st(1)] by (simp add: pending_list_def settled_def)
        with st(3) show False by (auto simp: wq_pending_def pending_list_def)
      qed
      with b se show ?thesis by (auto simp: blocked_ok_def loc simp del: cleanupState_sel(6))
    qed
    show "tok = tok'" if "mget (fl_blocked ?m) tok = Some b" "mget (fl_blocked ?m) tok' = Some b'"
      "bl_state b = bl_state b'" "bl_handle b = bl_handle b'" for tok tok' b b'
      using that waiting_ok_uniq [OF w, of tok b tok' b'] by simp
  qed
  ultimately show ?thesis using fl_ok_cleanup [OF ok] by (simp add: lock_inv_def)
qed


lemma wake_settled:
  assumes w: "waiting_ok pathOf m" and q: "quiet m" and st: "fl_states m s = Some st"
    and m': "m' = (fl_setState s (st\<lparr>pl_holders := hs, pl_waiters := snd (wq_wakeOne (pl_waiters st))\<rparr>) m)
       \<lparr>fl_descToPath := dp\<rparr>"
  shows "waiting_ok pathOf m' \<and> one_settled m'"
proof -
  let ?q = "snd (wq_wakeOne (pl_waiters st))"
  have ws: "waiters_of m s = pl_waiters st" using st by (simp add: views_state)
  have w': "waiters_of m' x = (if x = s then ?q else waiters_of m x)" for x by (simp add: m')
  have bl: "fl_blocked m' = fl_blocked m" "fl_locks m' = fl_locks m" "fl_nextToken m' = fl_nextToken m"
    "fl_nextState m' = fl_nextState m" by (simp_all add: m')
  have ns: "\<not> settled m b" if "mget (fl_blocked m) tok = Some b" for tok b
    using q w that by (auto simp: quiet_iff waiting_ok_def)
  have key: "bl_state b = s" if "mget (fl_blocked m) tok = Some b" "settled m' b" for tok b
    using ns [OF that(1)] that(2) by (auto simp: settled_def w' split: if_splits)
  have "waiting_ok pathOf m'"
  proof (rule waiting_okI)
    show "mwf (fl_blocked m')" using w by (simp add: bl waiting_ok_def)
    show "p1 = p2" if "mget (fl_locks m') p1 = Some x" "mget (fl_locks m') p2 = Some x" for p1 p2 x
      using that waiting_ok_inj [OF w, of p1 x p2] by (simp add: bl)
    show "tok < fl_nextToken m' \<and> blocked_ok pathOf m' b" if "mget (fl_blocked m') tok = Some b" for tok b
    proof -
      have b: "mget (fl_blocked m) tok = Some b" using that by (simp add: bl)
      have bo: "tok < fl_nextToken m" "blocked_ok pathOf m b" using waiting_ok_blocked [OF w b] by auto
      have "bl_handle b \<in> set (wq_waiters (waiters_of m' (bl_state b)))" if "\<not> settled m' b"
        using bo(2) ns [OF b] that wakeOne_handles(3) [of "bl_handle b" "pl_waiters st"]
        by (cases "bl_state b = s") (auto simp: blocked_ok_def settled_def w' ws)
      moreover have "wq_next (waiters_of m' (bl_state b)) = wq_next (waiters_of m (bl_state b))"
        by (simp add: w' ws wakeOne_handles(1))
      ultimately show ?thesis using bo ns [OF b] by (auto simp: blocked_ok_def bl)
    qed
    show "tok = tok'" if "mget (fl_blocked m') tok = Some b" "mget (fl_blocked m') tok' = Some b'"
      "bl_state b = bl_state b'" "bl_handle b = bl_handle b'" for tok tok' b b'
      using that waiting_ok_uniq [OF w, of tok b tok' b'] by (simp add: bl)
  qed
  moreover have "tok = tok'" if b: "mget (fl_blocked m) tok = Some b" "mget (fl_blocked m) tok' = Some b'"
    "settled m' b" "settled m' b'" for tok tok' b b'
  proof -
    have s: "bl_state b = s" "bl_state b' = s" using key b by auto
    have "bl_handle b = bl_handle b'"
      using ns [OF b(1)] ns [OF b(2)] b(3,4) s
      by (intro wakeOne_handles(4) [of "pl_waiters st"]) (simp_all add: settled_def w' ws)
    then show ?thesis using waiting_ok_uniq [OF w b(1,2)] s by simp
  qed
  ultimately show ?thesis unfolding one_settled_def bl by blast
qed

lemma grants_release:
  assumes g: "grants_ok pathOf m G" and l: "mget (fl_locks m) (pathOf d) = Some s"
    and inj: "\<And>p'. mget (fl_locks m) p' = Some s \<Longrightarrow> p' = pathOf d"
    and st: "fl_states m s = Some st" "state_ok st" and i: "findHolder d (pl_holders st) = Some i"
    and m': "m' = (fl_setState s (st\<lparr>pl_holders := take i (pl_holders st) @ drop (Suc i) (pl_holders st),
        pl_waiters := q\<rparr>) m)\<lparr>fl_descToPath := mdel d (fl_descToPath m)\<rparr>"
  shows "grants_ok pathOf m' (ungrant (pathOf d) d G)"
proof -
  let ?G = "ungrant (pathOf d) d G" and ?hs = "take i (pl_holders st) @ drop (Suc i) (pl_holders st)"
  have di: "distinct (map le_descriptionId (pl_holders st))" using st(2) by (simp add: state_ok_def)
  have at: "holders_at m (pathOf d) = pl_holders st" using l st(1) by (simp add: holders_at_def views_state)
  have at': "holders_at m' p = (if p = pathOf d then ?hs else holders_at m p)" for p
  proof (cases "p = pathOf d")
    case False
    then have "mget (fl_locks m) p \<noteq> Some s" using inj by blast
    with False show ?thesis by (auto simp: holders_at_def m' split: option.splits)
  qed (simp add: holders_at_def m' l)
  have "(p, d', t') \<in> ?G \<longleftrightarrow> \<lparr>le_descriptionId = d', le_type = t'\<rparr> \<in> set (holders_at m' p)" for p d' t'
  proof (cases "p = pathOf d")
    case True
    have "\<lparr>le_descriptionId = d', le_type = t'\<rparr> \<in> set ?hs \<longleftrightarrow>
        \<lparr>le_descriptionId = d', le_type = t'\<rparr> \<in> set (pl_holders st) \<and> d' \<noteq> d"
      using remove_holder(1) [OF di i, of "\<lparr>le_descriptionId = d', le_type = t'\<rparr>"]
      by (simp only: LockEntry.select_convs)
    with True show ?thesis using grants_ok_iff [OF g, of p d' t'] at
      by (auto simp: at' ungrant_def simp del: set_append)
  next
    case False
    then show ?thesis using grants_ok_iff [OF g] by (simp add: at' ungrant_def)
  qed
  moreover have "p = pathOf d'" if "(p, d', t') \<in> ?G" for p d' t'
    using that grants_ok_path [OF g] by (auto simp: ungrant_def)
  moreover have "mget (fl_descToPath m') d' = (if \<exists>t'. (pathOf d', d', t') \<in> ?G then Some (pathOf d') else None)"
    for d'
    using grants_ok_desc [OF g, of d'] by (cases "d' = d") (simp_all add: m' ungrant_def)
  ultimately show ?thesis unfolding grants_ok_def by blast
qed

lemma quiet_one_settled: "waiting_ok pathOf m \<Longrightarrow> quiet m \<Longrightarrow> one_settled m"
  unfolding one_settled_def waiting_ok_def using quiet_iff by blast

lemma one_settled_cleanup: "one_settled m \<Longrightarrow> one_settled (cleanupState p s m)"
  by (simp add: one_settled_def settled_def)

lemma fl_unlock_inv:
  assumes inv: "lock_inv pathOf m G" and q: "quiet m"
  shows "lock_inv pathOf (fl_unlock (pathOf d) d m) (ungrant (pathOf d) d G) \<and>
    one_settled (fl_unlock (pathOf d) d m)"
proof -
  have ok: "fl_ok m" and g: "grants_ok pathOf m G" and w: "waiting_ok pathOf m"
    using inv by (simp_all add: lock_inv_def)
  note os = quiet_one_settled [OF w q]
  show ?thesis
  proof (cases "mget (fl_locks m) (pathOf d)")
    case None
    then have "ungrant (pathOf d) d G = G" by (intro ungrant_none [OF g]) (simp add: holders_at_def)
    with None inv os show ?thesis by (simp add: fl_unlock_def)
  next
    case l: (Some s)
    have "s < fl_nextState m" using l ok by (simp add: fl_ok_def)
    then obtain st where st: "fl_states m s = Some st" "state_ok st" by (rule fl_ok_state [OF ok])
    have at: "holders_at m (pathOf d) = pl_holders st" using l st(1) by (simp add: holders_at_def views_state)
    show ?thesis
    proof (cases "findHolder d (pl_holders st)")
      case None
      then have "ungrant (pathOf d) d G = G" by (intro ungrant_none [OF g]) (simp add: at findHolder_None)
      moreover have "fl_unlock (pathOf d) d m = cleanupState (pathOf d) s m"
        using l st None by (simp add: fl_unlock_def)
      ultimately show ?thesis using cleanup_inv [OF ok g w] l os by (simp add: one_settled_cleanup)
    next
      case (Some i)
      define m1 where "m1 = (fl_setState s (st\<lparr>pl_holders := take i (pl_holders st) @ drop (Suc i) (pl_holders st),
        pl_waiters := snd (wq_wakeOne (pl_waiters st))\<rparr>) m)\<lparr>fl_descToPath := mdel d (fl_descToPath m)\<rparr>"
      have w1: "waiting_ok pathOf m1 \<and> one_settled m1" by (rule wake_settled [OF w q st(1) m1_def])
      have g1: "grants_ok pathOf m1 (ungrant (pathOf d) d G)"
        by (rule grants_release [OF g l _ st Some m1_def]) (rule waiting_ok_inj [OF w _ l])
      have "wq_inv (snd (wq_wakeOne (pl_waiters st)))" using st(2) by (simp add: state_ok_def wq_inv_wakeOne)
      then have "fl_ok m1"
        by (intro fl_ok_set [OF ok _ state_ok_release [OF st(2) Some]]) (simp_all add: m1_def st fl_setState_def)
      moreover have "mget (fl_locks m1) (pathOf d) = Some s" using l by (simp add: m1_def)
      moreover have "fl_unlock (pathOf d) d m = cleanupState (pathOf d) s m1"
        using l st Some by (simp add: fl_unlock_def m1_def)
      ultimately show ?thesis using cleanup_inv [of m1 pathOf _ "pathOf d" s] g1 w1
        by (simp add: one_settled_cleanup)
    qed
  qed
qed


lemma resume_waiting:
  assumes w: "waiting_ok pathOf m" and os: "one_settled m" and b: "mget (fl_blocked m) tok = Some b" "settled m b"
    and st: "fl_states m (bl_state b) = Some st"
    and m1: "m1 = (fl_setState (bl_state b) (st\<lparr>pl_waiters := wq_remove (bl_handle b) (pl_waiters st)\<rparr>) m)
                            \<lparr>fl_blocked := mdel tok (fl_blocked m)\<rparr>"
  shows "waiting_ok pathOf m1 \<and> quiet m1"
proof -
  have w': "waiters_of m1 x = (if x = bl_state b then wq_remove (bl_handle b) (waiters_of m x) else waiters_of m x)"
    for x using views_state [OF st] by (simp add: m1)
  have se: "settled m1 c = settled m c" for c by (simp add: settled_def w')
  have bl: "mget (fl_blocked m1) t = (if t = tok then None else mget (fl_blocked m) t)" for t by (simp add: m1)
  have wf: "mwf (fl_blocked m1)" using waiting_ok_wf [OF w] by (simp add: m1)
  have other: "\<not> settled m c \<and> blocked_ok pathOf m1 c \<and> t < fl_nextToken m1"
    if c: "mget (fl_blocked m) t = Some c" "t \<noteq> tok" for t c
  proof -
    have ns: "\<not> settled m c" using os c b unfolding one_settled_def by blast
    have bo: "t < fl_nextToken m" "blocked_ok pathOf m c" using waiting_ok_blocked [OF w c(1)] by auto
    have "bl_handle c \<noteq> bl_handle b" if "bl_state c = bl_state b"
      using waiting_ok_uniq [OF w c(1) b(1) that] c(2) by blast
    then have "bl_handle c \<in> set (wq_waiters (waiters_of m1 (bl_state c)))"
      using bo(2) ns by (auto simp: w' blocked_ok_def)
    moreover have "wq_next (waiters_of m1 (bl_state c)) = wq_next (waiters_of m (bl_state c))" by (simp add: w')
    moreover have "fl_locks m1 = fl_locks m" "fl_nextState m1 = fl_nextState m" "fl_nextToken m1 = fl_nextToken m"
      by (simp_all add: m1)
    ultimately show ?thesis using bo ns by (auto simp: blocked_ok_def se)
  qed
  have "waiting_ok pathOf m1"
  proof (rule waiting_okI [OF wf])
    show "p1 = p2" if "mget (fl_locks m1) p1 = Some x" "mget (fl_locks m1) p2 = Some x" for p1 p2 x
      using that waiting_ok_inj [OF w, of p1 x p2] by (simp add: m1)
    show "t < fl_nextToken m1 \<and> blocked_ok pathOf m1 c" if "mget (fl_blocked m1) t = Some c" for t c
      using that other [of t c] by (simp add: bl split: if_splits)
    show "t = t'" if "mget (fl_blocked m1) t = Some c" "mget (fl_blocked m1) t' = Some c'"
      "bl_state c = bl_state c'" "bl_handle c = bl_handle c'" for t t' c c'
      using that waiting_ok_uniq [OF w, of t c t' c'] by (simp add: bl split: if_splits)
  qed
  moreover have "quiet m1"
    unfolding quiet_iff [OF wf] using other by (simp add: bl se)
  ultimately show ?thesis by simp
qed

lemma lock_type_op: "lock_type_of op \<noteq> None \<Longrightarrow> op AND NOT LOCK_NB = op"
  by (auto simp: lock_type_of_def LOCK_SH_def LOCK_EX_def LOCK_NB_def split: if_splits)

lemma fl_resume_inv:
  assumes inv: "lock_inv pathOf m G" and os: "one_settled m" and run: "fl_resume tok m = (Some (r, b), m')"
  shows "lock_inv pathOf m' (grant (bl_path b) (bl_desc b) (bl_op b) r G) \<and> quiet m'"
proof -
  have ok: "fl_ok m" and g: "grants_ok pathOf m G" and w: "waiting_ok pathOf m"
    using inv by (simp_all add: lock_inv_def)
  from run obtain st where b: "mget (fl_blocked m) tok = Some b" and st: "fl_states m (bl_state b) = Some st"
    and se: "isSettled (pl_waiters st) (bl_handle b)"
    by (auto simp: fl_resume_def Let_def case_prod_beta split: option.splits if_splits)
  define m1 where "m1 = (fl_setState (bl_state b) (st\<lparr>pl_waiters := wq_remove (bl_handle b) (pl_waiters st)\<rparr>) m)
                            \<lparr>fl_blocked := mdel tok (fl_blocked m)\<rparr>"
  let ?m2 = "cleanupState (bl_path b) (bl_state b) m1"
  have turn: "flock_turn tok (bl_path b) (bl_desc b) (bl_op b) False ?m2 = (r, m')"
    using run b st se by (auto simp: fl_resume_def Let_def m1_def [symmetric] split: prod.splits)
  have sb: "settled m b" using se st by (simp add: settled_def views_state)
  have bo: "tok < fl_nextToken m" "blocked_ok pathOf m b" using waiting_ok_blocked [OF w b] by auto
  have w1: "waiting_ok pathOf m1 \<and> quiet m1" by (rule resume_waiting [OF w os b sb st m1_def])
  have "state_ok st" using ok st by (auto simp: fl_ok_def)
  then have "state_ok (st\<lparr>pl_waiters := wq_remove (bl_handle b) (pl_waiters st)\<rparr>)"
    by (simp add: state_ok_def wq_inv_remove)
  then have ok1: "fl_ok m1" by (intro fl_ok_set [OF ok]) (simp_all add: st m1_def fl_setState_def)
  have g1: "grants_ok pathOf m1 G"
    using views_state [OF st] by (intro grants_ok_views [OF g]) (simp_all add: m1_def fun_upd_idem)
  have l1: "mget (fl_locks m1) (bl_path b) \<in> {None, Some (bl_state b)}"
    using bo(2) sb by (auto simp: blocked_ok_def m1_def)
  have i2: "lock_inv pathOf ?m2 G" using cleanup_inv [OF ok1 g1 _ l1] w1 by blast
  have q2: "quiet ?m2" using w1 by (simp add: quiet_def settled_def case_prod_beta)
  have p: "bl_path b = pathOf (bl_desc b)" and op: "bl_op b AND NOT LOCK_NB = bl_op b"
    using bo(2) lock_type_op [of "bl_op b"] by (auto simp: blocked_ok_def)
  have tk: "tok < fl_nextToken ?m2" "\<not> mhas (fl_blocked ?m2) tok" using bo(1) by (simp_all add: m1_def)
  from flock_turn_inv [OF turn [unfolded p] i2 [unfolded p] q2 [unfolded p] tk [unfolded p] op]
  show ?thesis by (simp add: p)
qed

definition lock_prompt :: "(nat \<Rightarrow> path) \<Rightarrow> lock_call \<Rightarrow> lock_world \<Rightarrow> bool" where
  "lock_prompt pathOf x w =
     (case x of
        LcFlock p d op \<Rightarrow> quiet (lw_m w) \<and> p = pathOf d
      | LcRelease d \<Rightarrow> quiet (lw_m w)
      | LcResume tok \<Rightarrow> True)"

definition lock_world_inv :: "(nat \<Rightarrow> path) \<Rightarrow> lock_world \<Rightarrow> bool" where
  "lock_world_inv pathOf w \<longleftrightarrow> lock_inv pathOf (lw_m w) (lw_granted w) \<and> one_settled (lw_m w)"

lemma lock_inv_token: "lock_inv pathOf m G \<Longrightarrow> lock_inv pathOf (m\<lparr>fl_nextToken := Suc (fl_nextToken m)\<rparr>) G"
proof -
  assume inv: "lock_inv pathOf m G"
  let ?m = "m\<lparr>fl_nextToken := Suc (fl_nextToken m)\<rparr>"
  have "grants_ok pathOf ?m G" using inv grants_ok_views [of pathOf m G ?m] by (simp add: lock_inv_def)
  moreover have w: "waiting_ok pathOf m" using inv by (simp add: lock_inv_def)
  have "waiting_ok pathOf ?m"
  proof (rule waiting_okI)
    show "mwf (fl_blocked ?m)" using w by (simp add: waiting_ok_def)
    show "p1 = p2" if "mget (fl_locks ?m) p1 = Some x" "mget (fl_locks ?m) p2 = Some x" for p1 p2 x
      using that waiting_ok_inj [OF w, of p1 x p2] by simp
    show "tok < fl_nextToken ?m \<and> blocked_ok pathOf ?m b" if "mget (fl_blocked ?m) tok = Some b" for tok b
      using that waiting_ok_blocked [OF w, of tok b] by (auto simp: blocked_ok_def settled_def)
    show "tok = tok'" if "mget (fl_blocked ?m) tok = Some b" "mget (fl_blocked ?m) tok' = Some b'"
      "bl_state b = bl_state b'" "bl_handle b = bl_handle b'" for tok tok' b b'
      using that waiting_ok_uniq [OF w, of tok b tok' b'] by simp
  qed
  ultimately show ?thesis using inv by (simp add: lock_inv_def fl_ok_def)
qed

lemma lock_step_inv:
  assumes inv: "lock_world_inv pathOf w" and gd: "lock_prompt pathOf x w"
  shows "lock_world_inv pathOf (lock_step x w)"
proof -
  have i: "lock_inv pathOf (lw_m w) (lw_granted w)" and os: "one_settled (lw_m w)"
    using inv by (simp_all add: lock_world_inv_def)
  have quietw: "lock_inv pathOf m G \<Longrightarrow> quiet m \<Longrightarrow> lock_inv pathOf m G \<and> one_settled m" for m G
    using quiet_one_settled by (auto simp: lock_inv_def)
  show ?thesis
  proof (cases x)
    case (LcFlock p d operation)
    have q: "quiet (lw_m w)" and p: "p = pathOf d" using gd LcFlock by (simp_all add: lock_prompt_def)
    let ?op = "operation AND NOT LOCK_NB" and ?m = "(lw_m w)\<lparr>fl_nextToken := Suc (fl_nextToken (lw_m w))\<rparr>"
    show ?thesis
    proof (cases "?op = LOCK_UN")
      case True
      with fl_unlock_inv [OF i q] LcFlock p show ?thesis
        by (simp add: flock_def Let_def lock_world_inv_def grant_def)
    next
      case False
      obtain r m' where t: "flock_turn (fl_nextToken (lw_m w)) (pathOf d) d ?op (operation AND LOCK_NB \<noteq> 0) ?m = (r, m')"
        by force
      have "mget (fl_blocked (lw_m w)) (fl_nextToken (lw_m w)) = None"
        using i waiting_ok_blocked [of pathOf "lw_m w" "fl_nextToken (lw_m w)"]
        by (cases "mget (fl_blocked (lw_m w)) (fl_nextToken (lw_m w))") (auto simp: lock_inv_def)
      then have tk: "fl_nextToken (lw_m w) < fl_nextToken ?m" "\<not> mhas (fl_blocked ?m) (fl_nextToken (lw_m w))"
        by (simp_all add: mhas_def)
      have q': "quiet ?m" using q by (simp add: quiet_def settled_def case_prod_beta)
      have idem: "?op AND NOT LOCK_NB = ?op" by (simp add: and.assoc)
      from flock_turn_inv [OF t lock_inv_token [OF i] q' tk idem] quietw
      have "lock_inv pathOf m' (grant (pathOf d) d ?op r (lw_granted w)) \<and> one_settled m'" by blast
      moreover have "grant (pathOf d) d ?op r G = grant (pathOf d) d operation r G" for G
        by (simp only: grant_def idem)
      ultimately show ?thesis
        using LcFlock p False t by (simp add: flock_def Let_def lock_world_inv_def)
    qed
  next
    case (LcResume tok)
    obtain ro m' where run: "fl_resume tok (lw_m w) = (ro, m')" by force
    show ?thesis
    proof (cases ro)
      case None
      then have "m' = lw_m w" using run
        by (auto simp: fl_resume_def Let_def case_prod_beta split: option.splits if_splits)
      with None run LcResume inv show ?thesis by simp
    next
      case (Some y)
      then obtain r b where ro: "ro = Some (r, b)" by (cases y) auto
      from fl_resume_inv [OF i os run [unfolded ro]] quietw
      have "lock_inv pathOf m' (grant (bl_path b) (bl_desc b) (bl_op b) r (lw_granted w)) \<and> one_settled m'"
        by blast
      with run ro LcResume show ?thesis by (simp add: lock_world_inv_def)
    qed
  next
    case (LcRelease d)
    have q: "quiet (lw_m w)" using gd LcRelease by (simp add: lock_prompt_def)
    show ?thesis
    proof (cases "mget (fl_descToPath (lw_m w)) d")
      case None
      with LcRelease inv show ?thesis by (simp add: releaseByDescription_def)
    next
      case (Some p)
      then have "p = pathOf d"
        using grants_ok_desc [of pathOf "lw_m w" "lw_granted w" d] i by (simp add: lock_inv_def split: if_splits)
      with Some fl_unlock_inv [OF i q] LcRelease show ?thesis
        by (simp add: releaseByDescription_def lock_world_inv_def)
    qed
  qed
qed

interpretation lock_machine: invariant_component lock_step "lock_prompt pathOf" "lock_world_inv pathOf" for pathOf
  by unfold_locales (rule lock_step_inv)

lemma lock_world_inv_init: "lock_world_inv pathOf lw_init"
  by (simp add: lock_world_inv_def lw_init_def lock_inv_def fl_ok_def fl_new_def grants_ok_def holders_at_def
      waiting_ok_def one_settled_def)


subsection \<open>Properties\<close>

text \<open>
  C26. Locks that were granted exclude each other, under every schedule that lets a woken waiter
  resume before the next call: while a description holds a path exclusively, no other description
  holds that path, whatever calls, releases and suspended callers interleave.
\<close>

theorem flock_mutual_exclusion:
  assumes "guarded (lock_prompt pathOf) lock_step calls lw_init"
    and "(p, d, Ex) \<in> lw_granted (run_ops lock_step calls lw_init)"
    and "(p, d', t) \<in> lw_granted (run_ops lock_step calls lw_init)"
  shows "d' = d \<and> t = Ex"
proof -
  let ?w = "run_ops lock_step calls lw_init"
  have "lock_world_inv pathOf ?w" by (rule lock_machine.run_inv [OF lock_world_inv_init assms(1)])
  then have g: "grants_ok pathOf (lw_m ?w) (lw_granted ?w)" and ok: "fl_ok (lw_m ?w)"
    by (simp_all add: lock_world_inv_def lock_inv_def)
  have m: "\<lparr>le_descriptionId = d, le_type = Ex\<rparr> \<in> set (holders_at (lw_m ?w) p)"
    "\<lparr>le_descriptionId = d', le_type = t\<rparr> \<in> set (holders_at (lw_m ?w) p)"
    using assms(2,3) grants_ok_iff [OF g] by simp_all
  obtain s st where st: "fl_states (lw_m ?w) s = Some st" "holders_at (lw_m ?w) p = pl_holders st"
    using holders_at_state [of "lw_m ?w" p, OF length_pos_if_in_set [OF m(1), unfolded length_greater_0_conv]]
    by blast
  have "state_ok st" using ok st(1) by (auto simp: fl_ok_def)
  moreover from this m(1) have "length (pl_holders st) = 1" by (force simp: state_ok_def st(2))
  ultimately show ?thesis using m by (auto simp: st(2) length_Suc_conv)
qed

definition lock_example :: "lock_call list" where
  "lock_example = [LcFlock ''/f'' 1 2, LcFlock ''/f'' 2 2, LcFlock ''/f'' 1 8, LcResume 1]"

lemmas lock_eval =
  lock_example_def lw_init_def fl_new_def flock_def flock_turn_def fl_getOrCreate_def tryAcquire_def
  fl_setState_def fl_unlock_def fl_resume_def cleanupState_def releaseByDescription_def Let_def
  LOCK_SH_def LOCK_EX_def LOCK_UN_def LOCK_NB_def grant_def ungrant_def lock_type_of_def wq_enqueue_def
  wq_new_def handle_new_def wq_wakeOne_def wq_update_def handle_wake_def isSettled_def wq_pending_def
  wq_remove_def

theorem flock_mutual_exclusion_witness:
  "(''/f'', 2, Ex) \<in> lw_granted (run_ops lock_step lock_example lw_init) \<and>
   (''/f'', 1, Ex) \<notin> lw_granted (run_ops lock_step lock_example lw_init)"
proof -
  have g: "guarded (lock_prompt (\<lambda>_. ''/f'')) lock_step lock_example lw_init"
    by (simp add: lock_eval lock_prompt_def quiet_def settled_def waiters_of_def)
  have m: "(''/f'', 2, Ex) \<in> lw_granted (run_ops lock_step lock_example lw_init)"
    by (simp add: lock_eval)
  from flock_mutual_exclusion [OF g m, of 1 Ex] m show ?thesis by auto
qed

text \<open>
  Without that schedule mutual exclusion fails: a waiter that was woken but has not resumed
  clears, when it resumes, the lock state another description has acquired meanwhile; both then hold
  the path exclusively.
\<close>

theorem flock_two_exclusive_holders:
  "let G = lw_granted (run_ops lock_step
      [LcFlock ''/f'' 1 2, LcFlock ''/f'' 2 2, LcFlock ''/f'' 1 8, LcFlock ''/f'' 3 2, LcResume 1] lw_init)
   in (''/f'', 2, Ex) \<in> G \<and> (''/f'', 3, Ex) \<in> G"
  by (simp add: lock_eval)

text \<open>
  Within one lock state mutual exclusion always holds: in every reachable state, each lock
  state's holders are distinct descriptions, and an exclusive holder is the only one.
\<close>

theorem flock_state_exclusive:
  assumes "fl_states (lw_m (run_ops lock_step calls lw_init)) s = Some st"
  shows "distinct (map le_descriptionId (pl_holders st)) \<and>
    (Ex \<in> le_type ` set (pl_holders st) \<longrightarrow> length (pl_holders st) = 1)"
proof -
  have "fl_ok (lw_m (run_ops lock_step calls lw_init))"
    by (rule lock_objects.run_inv [OF fl_ok_init guarded_True])
  then have "state_ok st" using assms by (simp add: fl_ok_def)
  then show ?thesis by (force simp: state_ok_def)
qed

theorem flock_state_exclusive_witness:
  "\<exists>st. fl_states (lw_m (run_ops lock_step [LcFlock ''/f'' 1 1, LcFlock ''/f'' 2 1] lw_init)) 0 = Some st \<and>
     distinct (map le_descriptionId (pl_holders st))"
proof -
  obtain st where "fl_states (lw_m (run_ops lock_step [LcFlock ''/f'' 1 1, LcFlock ''/f'' 2 1] lw_init)) 0 = Some st"
    by (simp add: lock_eval)
  with flock_state_exclusive [OF this] show ?thesis by blast
qed

text \<open>
  The outcome of a non-blocking request on a path whose lock state is \<open>st\<close>: granted exactly
  when no other description holds it in a conflicting way (any holder conflicts with an exclusive
  request, an exclusive one with a shared request), and then the caller is recorded with the
  requested type and the others stay; refused with EAGAIN, nothing changed, otherwise.
\<close>

theorem flock_nonblocking_outcome:
  assumes ok: "fl_ok m" and l: "mget (fl_locks m) p = Some s" and st: "fl_states m s = Some st"
    and run: "flock p d (op OR LOCK_NB) m = (r, m')" and op: "lock_type_of op = Some t"
  shows "if conflicts t d st then r = Inl EAGAIN \<and> m' = m\<lparr>fl_nextToken := Suc (fl_nextToken m)\<rparr>
    else r = Inr Acquired \<and> mget (fl_locks m') p = Some s \<and>
      (\<forall>h. h \<in> set (holders_at m' p) \<longleftrightarrow>
         h = \<lparr>le_descriptionId = d, le_type = t\<rparr> \<or> (h \<in> set (pl_holders st) \<and> le_descriptionId h \<noteq> d))"
proof -
  let ?m = "m\<lparr>fl_nextToken := Suc (fl_nextToken m)\<rparr>"
  have opv: "op = LOCK_SH \<or> op = LOCK_EX" using op by (auto simp: lock_type_of_def split: if_splits)
  have bits: "(op OR LOCK_NB) AND NOT LOCK_NB = op" "(op OR LOCK_NB) AND LOCK_NB \<noteq> 0" "op \<noteq> LOCK_UN"
    using opv by (auto simp: LOCK_SH_def LOCK_EX_def LOCK_NB_def LOCK_UN_def)
  have turn: "flock_turn (fl_nextToken m) p d op True ?m = (r, m')"
    using run bits by (simp add: flock_def Let_def)
  have gc: "fl_getOrCreate p ?m = (s, ?m)" using l by (simp add: fl_getOrCreate_def)
  have okm: "fl_ok ?m" using ok by (simp add: fl_ok_def)
  have "state_ok st" using ok st by (auto simp: fl_ok_def)
  then have di: "distinct (map le_descriptionId (pl_holders st))" by (simp add: state_ok_def)
  from turn okm show ?thesis
  proof (cases rule: flock_turn_cases)
    case (unchanged s' m1 st')
    then show ?thesis using gc st op by auto
  next
    case (acquired s' m1 st' t')
    have "s' = s" "m1 = ?m" "st' = st" "t' = t" using acquired(1-3) gc st op by auto
    note eqs = acquired(6) [unfolded this]
    have "mget (fl_locks m') p = Some s" using l by (simp add: eqs)
    moreover have "holders_at m' p = with_holder d t (pl_holders st)" using l by (simp add: holders_at_def eqs)
    ultimately show ?thesis
      using acquired(4,5) \<open>st' = st\<close> \<open>t' = t\<close> with_holder_set [OF di] by simp
  next
    case (blocks s' m1 st' t')
    then show ?thesis by simp
  qed
qed

theorem flock_nonblocking_outcome_witness:
  "fst (flock ''/f'' 2 (LOCK_EX OR LOCK_NB) (lw_m (lock_step (LcFlock ''/f'' 1 1) lw_init))) = Inl EAGAIN"
proof -
  let ?m = "lw_m (lock_step (LcFlock ''/f'' 1 1) lw_init)"
  let ?st = "\<lparr>pl_holders = [\<lparr>le_descriptionId = 1, le_type = Sh\<rparr>], pl_waiters = wq_new\<rparr>"
  have ok: "fl_ok ?m" by (rule lock_step_fl_ok [OF fl_ok_init])
  have l: "mget (fl_locks ?m) ''/f'' = Some 0" and st: "fl_states ?m 0 = Some ?st" by (simp_all add: lock_eval)
  have t: "lock_type_of LOCK_EX = Some Ex" by (simp add: lock_type_of_def LOCK_SH_def LOCK_EX_def)
  obtain r m' where run: "flock ''/f'' 2 (LOCK_EX OR LOCK_NB) ?m = (r, m')" by force
  from flock_nonblocking_outcome [OF ok l st run t] have "r = Inl EAGAIN" by (simp add: conflicts_def)
  then show ?thesis by (simp only: run fst_conv)
qed

end
