(* ===== verification/Timer_Table.thy ===== *)
theory Timer_Table
  imports Kernel_Prelude
begin

section \<open>Kernel timers\<close>

text \<open>
  \<^verbatim>\<open>kernel/timer-table.ts\<close>. A \<^verbatim>\<open>KernelTimer\<close> object stays visible to whoever obtained it after the
  table dropped it (that is what its \<open>cleared\<close> flag is for), so \<open>tt_objects\<close> is the store of every
  timer created and \<open>tt_timers\<close> the ids the table's map holds, in insertion order. A callback is a
  name. The limits are integers (0 means unlimited).
\<close>

record KernelTimer =
  kt_id :: nat
  kt_pid :: pid
  kt_delayMs :: int
  kt_repeat :: bool
  kt_hostHandle :: "int option"
  kt_callback :: nat
  kt_cleared :: bool

record TimerTable =
  tt_objects :: "nat \<Rightarrow> KernelTimer option"
  tt_timers :: "nat list"
  tt_nextTimerId :: nat
  tt_defaultMaxTimers :: int
  tt_processLimits :: "(pid, int) jsmap"

definition tt_new :: "int option \<Rightarrow> TimerTable" where
  "tt_new defaultMaxTimers =
     \<lparr>tt_objects = (\<lambda>_. None), tt_timers = [], tt_nextTimerId = 1,
      tt_defaultMaxTimers = (case defaultMaxTimers of None \<Rightarrow> 0 | Some n \<Rightarrow> n), tt_processLimits = []\<rparr>"

definition tt_getLimit :: "TimerTable \<Rightarrow> pid \<Rightarrow> int" where
  "tt_getLimit t pid = (case mget (tt_processLimits t) pid of None \<Rightarrow> tt_defaultMaxTimers t | Some n \<Rightarrow> n)"

definition ownedBy :: "TimerTable \<Rightarrow> pid \<Rightarrow> nat \<Rightarrow> bool" where
  "ownedBy t pid i = (case tt_objects t i of None \<Rightarrow> False | Some k \<Rightarrow> kt_pid k = pid)"

definition tt_countForProcess :: "TimerTable \<Rightarrow> pid \<Rightarrow> nat" where
  "tt_countForProcess t pid = length (filter (ownedBy t pid) (tt_timers t))"

definition tt_getActiveTimers :: "TimerTable \<Rightarrow> pid \<Rightarrow> KernelTimer list" where
  "tt_getActiveTimers t pid =
     map (\<lambda>i. the (tt_objects t i)) (filter (ownedBy t pid) (tt_timers t))"

definition tt_get :: "TimerTable \<Rightarrow> nat \<Rightarrow> KernelTimer option" where
  "tt_get t timerId = (if timerId \<in> set (tt_timers t) then tt_objects t timerId else None)"

definition tt_createTimer :: "pid \<Rightarrow> int \<Rightarrow> bool \<Rightarrow> nat \<Rightarrow> TimerTable \<Rightarrow> (nat \<times> TimerTable) res" where
  "tt_createTimer pid delayMs rep callback t =
     (let limit = tt_getLimit t pid
      in if limit > 0 \<and> int (tt_countForProcess t pid) \<ge> limit then Inl EAGAIN
         else
           let i = tt_nextTimerId t;
               timer = \<lparr>kt_id = i, kt_pid = pid, kt_delayMs = delayMs, kt_repeat = rep,
                 kt_hostHandle = None, kt_callback = callback, kt_cleared = False\<rparr>
           in Inr (i, t\<lparr>tt_objects := (tt_objects t)(i \<mapsto> timer), tt_timers := tt_timers t @ [i],
                       tt_nextTimerId := Suc i\<rparr>))"

definition markCleared :: "nat \<Rightarrow> TimerTable \<Rightarrow> TimerTable" where
  "markCleared i t =
     t\<lparr>tt_objects := (tt_objects t)(i := map_option (\<lambda>k. k\<lparr>kt_cleared := True\<rparr>) (tt_objects t i))\<rparr>"

definition tt_clearTimer :: "nat \<Rightarrow> pid option \<Rightarrow> TimerTable \<Rightarrow> TimerTable res" where
  "tt_clearTimer timerId pid t =
     (case tt_get t timerId of
        None \<Rightarrow> Inr t
      | Some k \<Rightarrow>
          if (case pid of None \<Rightarrow> False | Some p \<Rightarrow> kt_pid k \<noteq> p) then Inl EACCES
          else Inr ((markCleared timerId t)\<lparr>tt_timers := filter (\<lambda>i. i \<noteq> timerId) (tt_timers t)\<rparr>))"

definition tt_setLimit :: "pid \<Rightarrow> int \<Rightarrow> TimerTable \<Rightarrow> TimerTable" where
  "tt_setLimit pid maxTimers t = t\<lparr>tt_processLimits := mput pid maxTimers (tt_processLimits t)\<rparr>"

definition tt_clearAllForProcess :: "pid \<Rightarrow> TimerTable \<Rightarrow> TimerTable" where
  "tt_clearAllForProcess pid t =
     (fold (\<lambda>i s. if ownedBy s pid i
                  then (markCleared i s)\<lparr>tt_timers := filter (\<lambda>j. j \<noteq> i) (tt_timers s)\<rparr> else s)
        (tt_timers t) t)\<lparr>tt_processLimits := mdel pid (tt_processLimits t)\<rparr>"

definition tt_disposeAll :: "TimerTable \<Rightarrow> TimerTable" where
  "tt_disposeAll t = (fold markCleared (tt_timers t) t)\<lparr>tt_timers := [], tt_processLimits := []\<rparr>"

definition tt_size :: "TimerTable \<Rightarrow> nat" where
  "tt_size t = length (tt_timers t)"

subsection \<open>Invariant\<close>

text \<open>The table holds exactly the timers that were created and not cleared.\<close>

definition tt_inv :: "TimerTable \<Rightarrow> bool" where
  "tt_inv t \<longleftrightarrow> distinct (tt_timers t) \<and>
     (\<forall>i. i \<in> set (tt_timers t) \<longleftrightarrow> (\<exists>k. tt_objects t i = Some k \<and> \<not> kt_cleared k)) \<and>
     (\<forall>i. tt_nextTimerId t \<le> i \<longrightarrow> tt_objects t i = None)"

lemma markCleared_sel [simp]:
  "tt_timers (markCleared i t) = tt_timers t" "tt_nextTimerId (markCleared i t) = tt_nextTimerId t"
  "tt_processLimits (markCleared i t) = tt_processLimits t"
  "tt_defaultMaxTimers (markCleared i t) = tt_defaultMaxTimers t"
  "tt_objects (markCleared i t) = (tt_objects t)(i := map_option (\<lambda>k. k\<lparr>kt_cleared := True\<rparr>) (tt_objects t i))"
  by (simp_all add: markCleared_def)

lemma ownedBy_markCleared [simp]: "ownedBy (markCleared i t) = ownedBy t"
  by (auto simp: ownedBy_def fun_eq_iff split: option.splits)

lemma ownedBy_sel [simp]:
  "ownedBy (t\<lparr>tt_timers := x\<rparr>) = ownedBy t" "ownedBy (t\<lparr>tt_processLimits := l\<rparr>) = ownedBy t"
  by (simp_all add: ownedBy_def fun_eq_iff)

text \<open>The loop of \<^verbatim>\<open>clearAllForProcess\<close> and of \<^verbatim>\<open>disposeAll\<close>.\<close>

lemma clear_fold:
  fixes pid t0
  defines "f \<equiv> \<lambda>i s. if ownedBy s pid i
      then (markCleared i s)\<lparr>tt_timers := filter (\<lambda>j. j \<noteq> i) (tt_timers s)\<rparr> else s"
  shows "tt_timers (fold f xs t) = filter (\<lambda>j. \<not> (j \<in> set xs \<and> ownedBy t pid j)) (tt_timers t) \<and>
    tt_objects (fold f xs t) j = (if j \<in> set xs \<and> ownedBy t pid j
      then map_option (\<lambda>k. k\<lparr>kt_cleared := True\<rparr>) (tt_objects t j) else tt_objects t j) \<and>
    tt_nextTimerId (fold f xs t) = tt_nextTimerId t \<and>
    tt_defaultMaxTimers (fold f xs t) = tt_defaultMaxTimers t"
proof (induction xs arbitrary: t)
  case (Cons x xs)
  have ow: "ownedBy (f x t) pid j = ownedBy t pid j" for j by (simp add: f_def)
  have ti: "tt_timers (f x t) = filter (\<lambda>j. \<not> (j = x \<and> ownedBy t pid j)) (tt_timers t)"
    by (auto simp: f_def intro!: filter_cong filter_True [symmetric])
  have "tt_timers (fold f xs (f x t)) = filter (\<lambda>j. \<not> (j \<in> set (x # xs) \<and> ownedBy t pid j)) (tt_timers t)"
    using Cons.IH [of "f x t"] by (auto simp: ow ti filter_filter intro: filter_cong)
  moreover have "map_option (kt_cleared_update (\<lambda>_. True)) (map_option (kt_cleared_update (\<lambda>_. True)) y)
      = map_option (kt_cleared_update (\<lambda>_. True)) y" for y :: "KernelTimer option"
    by (cases y) simp_all
  ultimately show ?case
    using Cons.IH [of "f x t"] by (auto simp: ow f_def)
qed simp

lemma tt_clearAll_sel:
  "tt_timers (tt_clearAllForProcess pid t) = filter (\<lambda>j. \<not> ownedBy t pid j) (tt_timers t)"
  "tt_objects (tt_clearAllForProcess pid t) j = (if j \<in> set (tt_timers t) \<and> ownedBy t pid j
     then map_option (\<lambda>k. k\<lparr>kt_cleared := True\<rparr>) (tt_objects t j) else tt_objects t j)"
  "tt_nextTimerId (tt_clearAllForProcess pid t) = tt_nextTimerId t"
  "tt_defaultMaxTimers (tt_clearAllForProcess pid t) = tt_defaultMaxTimers t"
  "tt_processLimits (tt_clearAllForProcess pid t) = mdel pid (tt_processLimits t)"
  using clear_fold [of pid "tt_timers t" t j]
  by (auto simp: tt_clearAllForProcess_def intro: filter_cong)

lemma dispose_fold:
  "tt_objects (fold markCleared xs t) j = (if j \<in> set xs
     then map_option (\<lambda>k. k\<lparr>kt_cleared := True\<rparr>) (tt_objects t j) else tt_objects t j) \<and>
   tt_nextTimerId (fold markCleared xs t) = tt_nextTimerId t \<and>
   tt_defaultMaxTimers (fold markCleared xs t) = tt_defaultMaxTimers t"
proof (induction xs arbitrary: t)
  case (Cons x xs)
  then show ?case by (cases "tt_objects t j") (auto simp: Cons.IH)
qed simp


datatype timer_call =
    TmCreate pid int bool nat
  | TmClear nat "pid option"
  | TmSetLimit pid int
  | TmClearAll pid
  | TmDispose

fun timer_step :: "timer_call \<Rightarrow> TimerTable \<Rightarrow> TimerTable" where
  "timer_step (TmCreate p ms rep cb) t = (case tt_createTimer p ms rep cb t of Inl _ \<Rightarrow> t | Inr (_, t') \<Rightarrow> t')"
| "timer_step (TmClear i p) t = (case tt_clearTimer i p t of Inl _ \<Rightarrow> t | Inr t' \<Rightarrow> t')"
| "timer_step (TmSetLimit p n) t = tt_setLimit p n t"
| "timer_step (TmClearAll p) t = tt_clearAllForProcess p t"
| "timer_step TmDispose t = tt_disposeAll t"

lemma tt_inv_fresh: "tt_inv t \<Longrightarrow> tt_nextTimerId t \<notin> set (tt_timers t)"
  by (auto simp: tt_inv_def)

lemma tt_getLimit_cong:
  "tt_processLimits t' = tt_processLimits t \<Longrightarrow> tt_defaultMaxTimers t' = tt_defaultMaxTimers t \<Longrightarrow>
   tt_getLimit t' p = tt_getLimit t p"
  by (simp add: tt_getLimit_def split: option.split)

subsubsection \<open>What an operation does to the number of timers and to the limit\<close>

lemma tt_create_effect:
  assumes inv: "tt_inv t" and run: "tt_createTimer p ms rep cb t = Inr (i, t')"
  shows "tt_inv t'" "tt_get t i = None"
    "tt_get t' i = Some \<lparr>kt_id = i, kt_pid = p, kt_delayMs = ms, kt_repeat = rep, kt_hostHandle = None,
       kt_callback = cb, kt_cleared = False\<rparr>"
    "tt_countForProcess t' q = tt_countForProcess t q + (if q = p then 1 else 0)"
    "tt_getLimit t' q = tt_getLimit t q"
    "tt_getLimit t p \<le> 0 \<or> int (tt_countForProcess t p) < tt_getLimit t p"
proof -
  let ?k = "\<lparr>kt_id = i, kt_pid = p, kt_delayMs = ms, kt_repeat = rep, kt_hostHandle = None,
    kt_callback = cb, kt_cleared = False\<rparr>"
  have i: "i = tt_nextTimerId t" and t': "t' = t\<lparr>tt_objects := (tt_objects t)(i \<mapsto> ?k),
      tt_timers := tt_timers t @ [i], tt_nextTimerId := Suc i\<rparr>"
    and lim: "tt_getLimit t p \<le> 0 \<or> int (tt_countForProcess t p) < tt_getLimit t p"
    using run by (auto simp: tt_createTimer_def Let_def split: if_splits)
  have fresh: "i \<notin> set (tt_timers t)" using tt_inv_fresh [OF inv] by (simp add: i)
  have "filter (ownedBy t' q) (tt_timers t) = filter (ownedBy t q) (tt_timers t)"
    using fresh by (intro filter_cong) (auto simp: ownedBy_def t')
  moreover have "ownedBy t' q i \<longleftrightarrow> q = p" by (auto simp: ownedBy_def t')
  ultimately show "tt_countForProcess t' q = tt_countForProcess t q + (if q = p then 1 else 0)"
    by (simp add: tt_countForProcess_def t')
  show "tt_getLimit t' q = tt_getLimit t q" by (rule tt_getLimit_cong) (simp_all add: t')
  show "tt_getLimit t p \<le> 0 \<or> int (tt_countForProcess t p) < tt_getLimit t p" by (rule lim)
  show "tt_get t i = None" using fresh by (simp add: tt_get_def)
  show "tt_get t' i = Some ?k" by (simp add: tt_get_def t')
  have "x \<in> set (tt_timers t') \<longleftrightarrow> (\<exists>k. tt_objects t' x = Some k \<and> \<not> kt_cleared k)" for x
    using inv by (cases "x = i") (auto simp: t' tt_inv_def)
  moreover have "tt_objects t' x = None" if "tt_nextTimerId t' \<le> x" for x
    using inv that by (auto simp: t' tt_inv_def i)
  moreover have "distinct (tt_timers t')" using inv fresh by (simp add: t' tt_inv_def)
  ultimately show "tt_inv t'" by (simp add: tt_inv_def)
qed

lemma tt_clear_effect:
  assumes inv: "tt_inv t" and run: "tt_clearTimer i p t = Inr t'"
  shows "tt_inv t'" "tt_countForProcess t' q \<le> tt_countForProcess t q" "tt_getLimit t' q = tt_getLimit t q"
proof -
  have "tt_inv t' \<and> tt_countForProcess t' q \<le> tt_countForProcess t q \<and> tt_getLimit t' q = tt_getLimit t q"
  proof (cases "tt_get t i")
    case None
    with run inv show ?thesis by (simp add: tt_clearTimer_def)
  next
    case (Some k)
    then have t': "t' = (markCleared i t)\<lparr>tt_timers := filter (\<lambda>j. j \<noteq> i) (tt_timers t)\<rparr>"
      using run by (auto simp: tt_clearTimer_def split: if_splits)
    have "tt_countForProcess t' q \<le> tt_countForProcess t q"
      using length_filter_le [of "\<lambda>j. j \<noteq> i" "filter (ownedBy t q) (tt_timers t)"]
      by (simp add: tt_countForProcess_def t' filter_filter conj_commute)
    moreover have "tt_getLimit t' q = tt_getLimit t q" by (rule tt_getLimit_cong) (simp_all add: t')
    moreover have "x \<in> set (tt_timers t') \<longleftrightarrow> (\<exists>k. tt_objects t' x = Some k \<and> \<not> kt_cleared k)" for x
      using inv by (cases "x = i") (auto simp: t' tt_inv_def)
    moreover have "tt_objects t' x = None" if "tt_nextTimerId t' \<le> x" for x
      using inv that by (auto simp: t' tt_inv_def)
    moreover have "distinct (tt_timers t')" using inv by (simp add: t' tt_inv_def)
    ultimately show ?thesis by (simp add: tt_inv_def)
  qed
  then show "tt_inv t'" "tt_countForProcess t' q \<le> tt_countForProcess t q" "tt_getLimit t' q = tt_getLimit t q"
    by auto
qed

lemma tt_clearAll_effect:
  shows "tt_inv t \<Longrightarrow> tt_inv (tt_clearAllForProcess p t)"
    "tt_countForProcess (tt_clearAllForProcess p t) q = (if q = p then 0 else tt_countForProcess t q)"
    "tt_getLimit (tt_clearAllForProcess p t) q = (if q = p then tt_defaultMaxTimers t else tt_getLimit t q)"
proof -
  let ?t = "tt_clearAllForProcess p t"
  have ow: "ownedBy ?t q j = ownedBy t q j" for q j
    by (simp add: ownedBy_def tt_clearAll_sel split: option.splits)
  show "tt_countForProcess ?t q = (if q = p then 0 else tt_countForProcess t q)"
  proof (cases "q = p")
    case False
    then have "filter (ownedBy t q) (filter (\<lambda>j. \<not> ownedBy t p j) (tt_timers t)) = filter (ownedBy t q) (tt_timers t)"
      by (simp add: filter_filter) (rule filter_cong, auto simp: ownedBy_def split: option.splits)
    with False show ?thesis by (simp add: tt_countForProcess_def ow tt_clearAll_sel)
  qed (simp add: tt_countForProcess_def ow tt_clearAll_sel filter_filter)
  show "tt_getLimit ?t q = (if q = p then tt_defaultMaxTimers t else tt_getLimit t q)"
    by (simp add: tt_getLimit_def tt_clearAll_sel split: option.split)
  assume inv: "tt_inv t"
  have "x \<in> set (tt_timers ?t) \<longleftrightarrow> (\<exists>k. tt_objects ?t x = Some k \<and> \<not> kt_cleared k)" for x
    using inv by (auto simp: tt_clearAll_sel tt_inv_def)
  moreover have "tt_objects ?t x = None" if "tt_nextTimerId ?t \<le> x" for x
    using inv that by (auto simp: tt_clearAll_sel tt_inv_def)
  moreover have "distinct (tt_timers ?t)" using inv by (simp add: tt_clearAll_sel tt_inv_def)
  ultimately show "tt_inv ?t" by (simp add: tt_inv_def)
qed

lemma tt_dispose_effect:
  "tt_inv t \<Longrightarrow> tt_inv (tt_disposeAll t)"
  "tt_countForProcess (tt_disposeAll t) q = 0"
  "tt_getLimit (tt_disposeAll t) q = tt_defaultMaxTimers t"
  by (auto simp: tt_inv_def tt_disposeAll_def dispose_fold tt_countForProcess_def tt_getLimit_def)

lemma tt_setLimit_effect:
  "tt_inv (tt_setLimit p n t) = tt_inv t"
  "tt_countForProcess (tt_setLimit p n t) q = tt_countForProcess t q"
  "tt_getLimit (tt_setLimit p n t) q = (if q = p then n else tt_getLimit t q)"
  by (simp_all add: tt_inv_def tt_countForProcess_def tt_setLimit_def tt_getLimit_def split: option.split)

lemma timer_step_inv: "tt_inv t \<Longrightarrow> tt_inv (timer_step x t)"
  by (cases x) (auto intro: tt_create_effect tt_clear_effect tt_clearAll_effect tt_dispose_effect
      simp: tt_setLimit_effect split: sum.splits)

interpretation timer_machine: invariant_component timer_step "\<lambda>_ _. True" tt_inv
  by unfold_locales (rule timer_step_inv)

lemma tt_inv_new: "tt_inv (tt_new d)"
  by (auto simp: tt_inv_def tt_new_def tt_countForProcess_def)

lemma tt_run_inv: "tt_inv (run_ops timer_step calls (tt_new d))"
  by (rule timer_machine.run_inv [OF tt_inv_new guarded_True])

text \<open>An operation adds a timer to a process only where that stays within the limit.\<close>

lemma timer_step_count:
  assumes inv: "tt_inv t"
  shows "tt_countForProcess (timer_step x t) p \<le> tt_countForProcess t p \<or>
    tt_getLimit (timer_step x t) p \<le> 0 \<or>
    int (tt_countForProcess (timer_step x t) p) \<le> tt_getLimit (timer_step x t) p"
proof (cases x)
  case (TmCreate q ms rep cb)
  show ?thesis
  proof (cases "tt_createTimer q ms rep cb t")
    case (Inr r)
    obtain i t' where r: "tt_createTimer q ms rep cb t = Inr (i, t')" using Inr by (cases r) auto
    show ?thesis
      using tt_create_effect(4,5) [OF inv r, of p] tt_create_effect(6) [OF inv r] r TmCreate
      by (cases "p = q") auto
  qed (simp add: TmCreate)
next
  case (TmClear i q)
  with tt_clear_effect(2) [OF inv, of i q] show ?thesis by (auto split: sum.splits)
qed (simp_all add: tt_setLimit_effect tt_clearAll_effect tt_dispose_effect)

text \<open>Limits between 1 and \<open>L\<close> keep a process at \<open>L\<close> timers, however they are changed.\<close>

fun limit_upto :: "int \<Rightarrow> pid \<Rightarrow> timer_call \<Rightarrow> bool" where
  "limit_upto L p (TmSetLimit q n) = (q = p \<longrightarrow> 0 < n \<and> n \<le> L)"
| "limit_upto L p _ = True"

definition within :: "int \<Rightarrow> pid \<Rightarrow> TimerTable \<Rightarrow> bool" where
  "within L p t \<longleftrightarrow> tt_inv t \<and> tt_defaultMaxTimers t \<in> {1..L} \<and> tt_getLimit t p \<in> {1..L} \<and>
     int (tt_countForProcess t p) \<le> L"

lemma tt_default_step: "tt_inv t \<Longrightarrow> tt_defaultMaxTimers (timer_step x t) = tt_defaultMaxTimers t"
  by (cases x) (auto simp: tt_createTimer_def tt_clearTimer_def Let_def tt_setLimit_def tt_clearAll_sel
      tt_disposeAll_def dispose_fold split: sum.splits option.splits if_splits)

lemma tt_limit_step:
  assumes "within L p t" "limit_upto L p x"
  shows "tt_getLimit (timer_step x t) p \<in> {1..L}"
proof (cases x)
  case (TmCreate q ms rep cb)
  with assms tt_create_effect(5) [of t q ms rep cb] show ?thesis
    by (auto simp: within_def split: sum.splits)
next
  case (TmClear i q)
  with assms tt_clear_effect(3) [of t i q] show ?thesis
    by (auto simp: within_def split: sum.splits)
qed (use assms in \<open>auto simp: within_def tt_setLimit_effect tt_clearAll_effect tt_dispose_effect\<close>)

interpretation timer_limits: invariant_component timer_step "\<lambda>x _. limit_upto L p x" "within L p" for L p
proof
  fix t x
  assume w: "within L p t" and x: "limit_upto L p x"
  then have inv: "tt_inv t" by (simp add: within_def)
  show "within L p (timer_step x t)"
    using w tt_limit_step [OF w x] timer_step_count [OF inv, of x p]
    by (auto simp: within_def timer_step_inv tt_default_step)
qed

lemma guarded_all: "\<forall>x \<in> set xs. P x \<Longrightarrow> guarded (\<lambda>x _. P x) step xs s"
  by (induction xs arbitrary: s) auto

lemma timer_cap:
  assumes "0 < D" "D \<le> L" "\<forall>x \<in> set calls. limit_upto L p x"
  shows "int (tt_countForProcess (run_ops timer_step calls (tt_new (Some D))) p) \<le> L"
proof -
  have "within L p (tt_new (Some D))"
    using assms by (simp add: within_def tt_inv_new tt_getLimit_def tt_countForProcess_def) (simp add: tt_new_def)
  from timer_limits.run_inv [OF this guarded_all [OF assms(3)]] show ?thesis by (simp add: within_def)
qed

subsection \<open>Properties\<close>

text \<open>
  C27. In every run, with limits raised and lowered at any moment: the table holds exactly the
  timers that were created and not cleared; a process is refused another timer, with EAGAIN, exactly
  when its limit is positive and it has that many already, and otherwise gets a fresh timer of its
  own; and no call makes the number of timers of a process grow beyond a positive limit (a process
  is above its limit only because \<^verbatim>\<open>setLimit\<close> lowered it, which clears nothing). Consequently a
  process whose limits, the default one and those set for it, all lie between 1 and \<open>L\<close> never has
  more than \<open>L\<close> timers.
\<close>

theorem timer_budget:
  "let t = run_ops timer_step calls (tt_new d);
       lim = tt_getLimit t p; n = int (tt_countForProcess t p); t' = timer_step c t
   in (\<forall>i. i \<in> set (tt_timers t) \<longleftrightarrow> (\<exists>k. tt_objects t i = Some k \<and> \<not> kt_cleared k)) \<and>
      (case tt_createTimer p ms rep cb t of
         Inl e \<Rightarrow> e = EAGAIN \<and> 0 < lim \<and> lim \<le> n
       | Inr (i, u) \<Rightarrow> (lim \<le> 0 \<or> n < lim) \<and> tt_get t i = None \<and>
           map_option kt_pid (tt_get u i) = Some p \<and> int (tt_countForProcess u p) = n + 1) \<and>
      (int (tt_countForProcess t' p) \<le> n \<or> tt_getLimit t' p \<le> 0 \<or>
       int (tt_countForProcess t' p) \<le> tt_getLimit t' p) \<and>
      (\<forall>D L. d = Some D \<and> 0 < D \<and> D \<le> L \<and> list_all (limit_upto L p) calls \<longrightarrow> n \<le> L)"
proof -
  let ?t = "run_ops timer_step calls (tt_new d)"
  have inv: "tt_inv ?t" by (rule tt_run_inv)
  have c: "case tt_createTimer p ms rep cb ?t of
         Inl e \<Rightarrow> e = EAGAIN \<and> 0 < tt_getLimit ?t p \<and> tt_getLimit ?t p \<le> int (tt_countForProcess ?t p)
       | Inr (i, u) \<Rightarrow> (tt_getLimit ?t p \<le> 0 \<or> int (tt_countForProcess ?t p) < tt_getLimit ?t p) \<and>
           tt_get ?t i = None \<and> map_option kt_pid (tt_get u i) = Some p \<and>
           int (tt_countForProcess u p) = int (tt_countForProcess ?t p) + 1"
  proof (cases "tt_createTimer p ms rep cb ?t")
    case (Inl e)
    then show ?thesis by (auto simp: tt_createTimer_def Let_def split: if_splits)
  next
    case (Inr r)
    obtain i u where r: "tt_createTimer p ms rep cb ?t = Inr (i, u)" using Inr by (cases r) auto
    show ?thesis
      using tt_create_effect(2,3,6) [OF inv r] tt_create_effect(4) [OF inv r, of p] r by auto
  qed
  have cap: "\<forall>D L. d = Some D \<and> 0 < D \<and> D \<le> L \<and> list_all (limit_upto L p) calls \<longrightarrow>
      int (tt_countForProcess ?t p) \<le> L"
    using timer_cap by (auto simp: list_all_iff)
  have held: "\<forall>i. i \<in> set (tt_timers ?t) \<longleftrightarrow> (\<exists>k. tt_objects ?t i = Some k \<and> \<not> kt_cleared k)"
    using inv unfolding tt_inv_def by blast
  have gr: "int (tt_countForProcess (timer_step c ?t) p) \<le> int (tt_countForProcess ?t p) \<or>
      tt_getLimit (timer_step c ?t) p \<le> 0 \<or>
      int (tt_countForProcess (timer_step c ?t) p) \<le> tt_getLimit (timer_step c ?t) p"
    using timer_step_count [OF inv, of c p] by simp
  from held c gr cap show ?thesis by (simp only: Let_def) simp
qed

text \<open>
  The cap at work: process 5 has the default limit 2, takes two timers, has its limit lowered to 1,
  and asks for a third.
\<close>

theorem timer_budget_witness:
  "int (tt_countForProcess (run_ops timer_step
     [TmCreate 5 10 False 0, TmCreate 5 20 True 1, TmSetLimit 5 1, TmCreate 5 30 True 2] (tt_new (Some 2))) 5) \<le> 2"
proof -
  let ?calls = "[TmCreate 5 10 False 0, TmCreate 5 20 True 1, TmSetLimit 5 1, TmCreate 5 30 True 2]"
  have "list_all (limit_upto 2 5) ?calls" by simp
  with timer_budget [of ?calls "Some 2" 5 TmDispose 0 False 0] show ?thesis
    unfolding Let_def by (elim conjE allE [of _ 2]) (simp only: option.inject, simp)
qed

text \<open>Lowering a limit clears nothing: a process may then hold more timers than its limit.\<close>

lemma timer_limit_lowered:
  "let t = run_ops timer_step [TmCreate 5 10 False 0, TmCreate 5 20 True 1, TmSetLimit 5 1] (tt_new (Some 2))
   in tt_getLimit t 5 = 1 \<and> tt_countForProcess t 5 = 2"
  by (simp add: tt_new_def tt_createTimer_def tt_getLimit_def tt_countForProcess_def ownedBy_def
      tt_setLimit_def Let_def)

text \<open>
  A process cannot clear a timer of another process: the attempt throws EACCES; its owner (or
  the kernel, which names no process) clears it, after which the table no longer has it and its
  object is flagged. A process exit clears exactly the timers of that process.
\<close>

theorem timer_isolation:
  assumes inv: "tt_inv t" and k: "tt_get t i = Some k"
  shows "(p \<noteq> kt_pid k \<longrightarrow> tt_clearTimer i (Some p) t = Inl EACCES) \<and>
    (\<forall>q \<in> {None, Some (kt_pid k)}. \<exists>t'. tt_clearTimer i q t = Inr t' \<and> tt_get t' i = None \<and>
       map_option kt_cleared (tt_objects t' i) = Some True \<and>
       (\<forall>j. j \<noteq> i \<longrightarrow> tt_get t' j = tt_get t j)) \<and>
    tt_get (tt_clearAllForProcess p t) i = (if kt_pid k = p then None else Some k)"
proof (intro conjI)
  have o: "tt_objects t i = Some k" "i \<in> set (tt_timers t)"
    using k by (auto simp: tt_get_def split: if_splits)
  show "p \<noteq> kt_pid k \<longrightarrow> tt_clearTimer i (Some p) t = Inl EACCES"
    using k by (auto simp: tt_clearTimer_def)
  show "\<forall>q \<in> {None, Some (kt_pid k)}. \<exists>t'. tt_clearTimer i q t = Inr t' \<and> tt_get t' i = None \<and>
       map_option kt_cleared (tt_objects t' i) = Some True \<and> (\<forall>j. j \<noteq> i \<longrightarrow> tt_get t' j = tt_get t j)"
    using k o by (auto simp: tt_clearTimer_def tt_get_def)
  show "tt_get (tt_clearAllForProcess p t) i = (if kt_pid k = p then None else Some k)"
    using o by (auto simp: tt_get_def tt_clearAll_sel ownedBy_def)
qed

theorem timer_isolation_witness:
  "tt_clearTimer 1 (Some 6) (timer_step (TmCreate 5 10 False 0) (tt_new None)) = Inl EACCES"
proof -
  let ?t = "timer_step (TmCreate 5 10 False 0) (tt_new None)"
  let ?k = "\<lparr>kt_id = 1, kt_pid = 5, kt_delayMs = 10, kt_repeat = False, kt_hostHandle = None,
    kt_callback = 0, kt_cleared = False\<rparr>"
  have "tt_inv ?t" by (rule timer_step_inv [OF tt_inv_new])
  moreover have "tt_get ?t 1 = Some ?k"
    by (simp add: tt_new_def tt_createTimer_def tt_getLimit_def tt_get_def Let_def)
  ultimately show ?thesis using timer_isolation [of ?t 1 ?k 6] by simp
qed

end
