(* ===== verification/Dns_Cache.thy ===== *)
theory Dns_Cache
  imports Kernel_Prelude
begin

section \<open>DNS cache\<close>

text \<open>
  \<^verbatim>\<open>kernel/dns-cache.ts\<close>. The host's DNS results are opaque values of a type variable; \<^verbatim>\<open>Date.now()\<close>
  is an argument \<open>now\<close>, in milliseconds.
\<close>

record 'r DnsCacheEntry =
  dce_result :: 'r
  dce_expiresAt :: int

record 'r DnsCache =
  dc_cache :: "(string, 'r DnsCacheEntry) jsmap"
  dc_defaultTtlMs :: int

definition dc_new :: "int option \<Rightarrow> 'r DnsCache" where
  "dc_new defaultTtlMs =
     \<lparr>dc_cache = [], dc_defaultTtlMs = (case defaultTtlMs of None \<Rightarrow> 30000 | Some n \<Rightarrow> n)\<rparr>"

definition cacheKey :: "string \<Rightarrow> string \<Rightarrow> string" where
  "cacheKey hostname rrtype = hostname @ '':'' @ rrtype"

definition dc_lookup :: "int \<Rightarrow> string \<Rightarrow> string \<Rightarrow> 'r DnsCache \<Rightarrow> 'r option \<times> 'r DnsCache" where
  "dc_lookup now hostname rrtype c =
     (let key = cacheKey hostname rrtype
      in case mget (dc_cache c) key of
           None \<Rightarrow> (None, c)
         | Some e \<Rightarrow>
             if now \<ge> dce_expiresAt e then (None, c\<lparr>dc_cache := mdel key (dc_cache c)\<rparr>)
             else (Some (dce_result e), c))"

definition dc_store :: "int \<Rightarrow> string \<Rightarrow> string \<Rightarrow> 'r \<Rightarrow> int option \<Rightarrow> 'r DnsCache \<Rightarrow> 'r DnsCache" where
  "dc_store now hostname rrtype result ttlMs c =
     (let key = cacheKey hostname rrtype;
          ttl = (case ttlMs of None \<Rightarrow> dc_defaultTtlMs c | Some n \<Rightarrow> n)
      in c\<lparr>dc_cache := mput key \<lparr>dce_result = result, dce_expiresAt = now + ttl\<rparr> (dc_cache c)\<rparr>)"

definition dc_flush :: "'r DnsCache \<Rightarrow> 'r DnsCache" where
  "dc_flush c = c\<lparr>dc_cache := []\<rparr>"

definition dc_size :: "'r DnsCache \<Rightarrow> nat" where
  "dc_size c = length (dc_cache c)"

text \<open>A record type has no colon in its name (A, AAAA, MX, \<dots>), which makes the key unambiguous.\<close>

definition rrtype_ok :: "string \<Rightarrow> bool" where
  "rrtype_ok rrtype \<longleftrightarrow> CHR '':'' \<notin> set rrtype"

lemma takeWhile_rev_key:
  "rrtype_ok r \<Longrightarrow> takeWhile (\<lambda>x. x \<noteq> CHR '':'') (rev (cacheKey h r)) = rev r"
  by (auto simp: cacheKey_def rrtype_ok_def takeWhile_append)

lemma cacheKey_inj:
  assumes "rrtype_ok r" "rrtype_ok r'" "cacheKey h r = cacheKey h' r'"
  shows "h = h' \<and> r = r'"
proof -
  have "rev r = rev r'"
    using assms takeWhile_rev_key [of r h] takeWhile_rev_key [of r' h'] by simp
  with assms(3) show ?thesis by (simp add: cacheKey_def)
qed

text \<open>
  What a lookup sees after a store: the stored result until its time to live has passed and a
  miss from then on; a later store under the same name and type replaces it; lookups and stores of
  other names or types do not disturb it.
\<close>

theorem dns_lookup_store:
  assumes "rrtype_ok r" "rrtype_ok r'"
  shows "fst (dc_lookup now' h r (dc_store now h r x (Some ttl) c)) = (if now' < now + ttl then Some x else None) \<and>
    ((h', r') \<noteq> (h, r) \<longrightarrow>
      fst (dc_lookup now' h' r' (dc_store now h r x ms c)) = fst (dc_lookup now' h' r' c) \<and>
      fst (dc_lookup now' h' r' (snd (dc_lookup now h r c))) = fst (dc_lookup now' h' r' c))"
proof (intro conjI impI)
  show "fst (dc_lookup now' h r (dc_store now h r x (Some ttl) c)) = (if now' < now + ttl then Some x else None)"
    by (simp add: dc_lookup_def dc_store_def Let_def)
  assume "(h', r') \<noteq> (h, r)"
  then have "cacheKey h' r' \<noteq> cacheKey h r" using cacheKey_inj [OF assms(2,1)] by blast
  then show "fst (dc_lookup now' h' r' (dc_store now h r x ms c)) = fst (dc_lookup now' h' r' c)"
    and "fst (dc_lookup now' h' r' (snd (dc_lookup now h r c))) = fst (dc_lookup now' h' r' c)"
    by (auto simp: dc_lookup_def dc_store_def Let_def split: option.splits)
qed

theorem dns_lookup_store_witness:
  "fst (dc_lookup 100 ''a.org'' ''MX'' (dc_store 50 ''a.org'' ''A'' (1::nat) None
      (dc_store 40 ''a.org'' ''MX'' 2 (Some 70) (dc_new None)))) = Some 2"
proof -
  have ok: "rrtype_ok ''A''" "rrtype_ok ''MX''" by (simp_all add: rrtype_ok_def)
  let ?c = "dc_store 40 ''a.org'' ''MX'' 2 (Some 70) (dc_new None :: nat DnsCache)"
  have "fst (dc_lookup 100 ''a.org'' ''MX'' ?c) = Some 2"
    using dns_lookup_store [OF ok(2) ok(2), of 100 "''a.org''" 40 2 70 "dc_new None" "''a.org''" None] by simp
  moreover have "fst (dc_lookup 100 ''a.org'' ''MX'' (dc_store 50 ''a.org'' ''A'' 1 None ?c)) =
      fst (dc_lookup 100 ''a.org'' ''MX'' ?c)"
    using dns_lookup_store [OF ok, of 100 "''a.org''" 50 1 0 ?c "''a.org''" None] by blast
  ultimately show ?thesis by simp
qed

end
