(* ===== verification/Js_Path.thy ===== *)
theory Js_Path
  imports Kernel_Prelude
begin

section \<open>Paths as strings\<close>

text \<open>
  The string operations the path code uses (\<^verbatim>\<open>split\<close>, \<^verbatim>\<open>join\<close>, \<^verbatim>\<open>startsWith\<close>, the slash-collapsing
  \<^verbatim>\<open>replace\<close>) and the two path normalisers: \<open>normalizePath\<close> of \<^verbatim>\<open>kernel/mount-table.ts\<close>, which decides
  where a path is routed, and \<open>normalizeFsPath\<close> of \<^verbatim>\<open>kernel/permissions.ts\<close>, which decides what the
  permission policy is shown.
\<close>

fun splitOn :: "char \<Rightarrow> string \<Rightarrow> string list" where
  "splitOn c [] = [[]]"
| "splitOn c (x # xs) =
     (if x = c then [] # splitOn c xs
      else (case splitOn c xs of [] \<Rightarrow> [[x]] | h # t \<Rightarrow> (x # h) # t))"

fun joinWith :: "string \<Rightarrow> string list \<Rightarrow> string" where
  "joinWith sep [] = []"
| "joinWith sep [s] = s"
| "joinWith sep (s # t # ss) = s @ sep @ joinWith sep (t # ss)"

definition startsWith :: "string \<Rightarrow> string \<Rightarrow> bool" where
  "startsWith s pre \<longleftrightarrow> take (length pre) s = pre"

definition endsWith :: "string \<Rightarrow> string \<Rightarrow> bool" where
  "endsWith s suf \<longleftrightarrow> length suf \<le> length s \<and> drop (length s - length suf) s = suf"

text \<open>\<^verbatim>\<open>p.replace(/\/+/g, "/")\<close>.\<close>

fun collapseSlashes :: "string \<Rightarrow> string" where
  "collapseSlashes (x # y # xs) =
     (if x = CHR ''/'' \<and> y = CHR ''/'' then collapseSlashes (y # xs) else x # collapseSlashes (y # xs))"
| "collapseSlashes xs = xs"

text \<open>The loop both normalisers run over the segments, with its stack.\<close>

fun norm_loop :: "string list \<Rightarrow> string list \<Rightarrow> string list" where
  "norm_loop stack [] = stack"
| "norm_loop stack (seg # segs) =
     (if seg = '''' \<or> seg = ''.'' then norm_loop stack segs
      else if seg = ''..'' then norm_loop (butlast stack) segs
      else norm_loop (stack @ [seg]) segs)"

definition normalizePath :: "path \<Rightarrow> path" where
  "normalizePath p =
     (if p = '''' \<or> p = ''/'' then ''/''
      else ''/'' @ joinWith ''/'' (norm_loop [] (splitOn (CHR ''/'') p)))"

definition normalizeFsPath :: "path \<Rightarrow> path" where
  "normalizeFsPath p =
     (let cleaned0 = collapseSlashes p;
          cleaned = (if length cleaned0 > 1 \<and> endsWith cleaned0 ''/'' then butlast cleaned0 else cleaned0);
          isAbsolute = startsWith cleaned ''/'';
          resolved = norm_loop [] (splitOn (CHR ''/'') cleaned);
          result = (if isAbsolute then ''/'' else '''') @ joinWith ''/'' resolved
      in if result \<noteq> '''' then result else if isAbsolute then ''/'' else ''.'')"

text \<open>\<^verbatim>\<open>lastIndexOf("/")\<close>: the part up to the last slash and the part behind it.\<close>

definition beforeLastSlash :: "path \<Rightarrow> path option" where
  "beforeLastSlash p =
     (if CHR ''/'' \<in> set p then Some (rev (tl (dropWhile (\<lambda>x. x \<noteq> CHR ''/'') (rev p)))) else None)"

definition parentPath :: "path \<Rightarrow> path" where
  "parentPath p =
     (if p = ''/'' then ''/''
      else case beforeLastSlash p of None \<Rightarrow> ''/'' | Some q \<Rightarrow> if q = '''' then ''/'' else q)"

definition basename :: "path \<Rightarrow> path" where
  "basename p = rev (takeWhile (\<lambda>x. x \<noteq> CHR ''/'') (rev p))"

subsection \<open>Splitting and joining\<close>

abbreviation segments :: "path \<Rightarrow> string list" where
  "segments p \<equiv> filter (\<lambda>s. s \<noteq> '''') (splitOn (CHR ''/'') p)"

lemma splitOn_ne [simp]: "splitOn c s \<noteq> []"
  by (induction s) (auto split: list.splits)

lemma splitOn_no_sep: "x \<in> set (splitOn c s) \<Longrightarrow> c \<notin> set x"
  by (induction s arbitrary: x) (auto split: list.splits if_splits)

lemma splitOn_id: "c \<notin> set s \<Longrightarrow> splitOn c s = [s]"
  by (induction s) auto

lemma splitOn_append: "c \<notin> set s \<Longrightarrow> splitOn c (s @ c # t) = s # splitOn c t"
  by (induction s) auto

lemma splitOn_joinWith:
  "segs \<noteq> [] \<Longrightarrow> (\<And>s. s \<in> set segs \<Longrightarrow> c \<notin> set s) \<Longrightarrow> splitOn c (joinWith [c] segs) = segs"
proof (induction segs rule: induct_list012)
  case (3 x y zs)
  then show ?case by (simp add: splitOn_append)
qed (auto simp: splitOn_id)

lemma splitOn_Cons_sep [simp]: "splitOn c (c # s) = [] # splitOn c s"
  by simp

lemma norm_loop_filter: "norm_loop st segs = norm_loop st (filter (\<lambda>s. s \<noteq> '''') segs)"
  by (induction st segs rule: norm_loop.induct) auto

text \<open>What a normalised stack looks like: no empty, dot or dot-dot segment, no slash.\<close>

definition clean_seg :: "string \<Rightarrow> bool" where
  "clean_seg s \<longleftrightarrow> s \<noteq> '''' \<and> s \<noteq> ''.'' \<and> s \<noteq> ''..'' \<and> CHR ''/'' \<notin> set s"

lemma norm_loop_clean:
  "list_all clean_seg st \<Longrightarrow> (\<And>s. s \<in> set segs \<Longrightarrow> CHR ''/'' \<notin> set s) \<Longrightarrow> list_all clean_seg (norm_loop st segs)"
proof (induction st segs rule: norm_loop.induct)
  case (2 stack seg segs)
  have "list_all clean_seg (butlast stack)" using 2(4) by (auto simp: list_all_iff dest: in_set_butlastD)
  moreover have "clean_seg seg" if "seg \<noteq> ''''" "seg \<noteq> ''.''" "seg \<noteq> ''..''"
    using that 2(5) by (simp add: clean_seg_def)
  ultimately show ?case using 2 by auto
qed simp

lemma norm_loop_id: "list_all clean_seg segs \<Longrightarrow> norm_loop st segs = st @ segs"
  by (induction st segs rule: norm_loop.induct) (auto simp: clean_seg_def)

definition clean_segs :: "path \<Rightarrow> string list" where
  "clean_segs p = norm_loop [] (splitOn (CHR ''/'') p)"

lemma clean_segs_clean: "list_all clean_seg (clean_segs p)"
  unfolding clean_segs_def by (rule norm_loop_clean) (auto dest: splitOn_no_sep)

lemma normalizePath_segs: "normalizePath p = ''/'' @ joinWith ''/'' (clean_segs p)"
  by (auto simp: normalizePath_def clean_segs_def)

lemma clean_segs_join:
  assumes "list_all clean_seg segs" shows "clean_segs (''/'' @ joinWith ''/'' segs) = segs"
proof (cases "segs = []")
  case False
  have "splitOn (CHR ''/'') (joinWith ''/'' segs) = segs"
    using assms False by (intro splitOn_joinWith) (auto simp: list_all_iff clean_seg_def)
  then show ?thesis using assms norm_loop_id [of segs "[]"] by (simp add: clean_segs_def)
qed (simp add: clean_segs_def)

lemma clean_segs_normalizePath [simp]: "clean_segs (normalizePath p) = clean_segs p"
  unfolding normalizePath_segs by (rule clean_segs_join [OF clean_segs_clean])

lemma normalizePath_idem: "normalizePath (normalizePath p) = normalizePath p"
  by (metis clean_segs_normalizePath normalizePath_segs)

lemma joinWith_eq_Nil: "list_all clean_seg segs \<Longrightarrow> joinWith ''/'' segs = '''' \<longleftrightarrow> segs = []"
  by (cases segs; cases "tl segs") (auto simp: clean_seg_def)

subsection \<open>The two normalisers agree on absolute paths\<close>

lemma segments_collapse: "segments (collapseSlashes p) = segments p"
proof (induction p rule: collapseSlashes.induct)
  case (1 x y xs)
  show ?case
  proof (cases "x = CHR ''/'' \<and> y = CHR ''/''")
    case True
    with 1 show ?thesis by simp
  next
    case False
    then have IH: "segments (collapseSlashes (y # xs)) = segments (y # xs)" using 1 by simp
    show ?thesis
    proof (cases "x = CHR ''/''")
      case True
      with False IH show ?thesis by simp
    next
      case xs: False
      have hd: "hd (splitOn c (collapseSlashes s)) = hd (splitOn c s)" if "c = CHR ''/''" for c s
        unfolding that by (induction s rule: collapseSlashes.induct) (auto split: list.splits)
      obtain h t where s1: "splitOn (CHR ''/'') (y # xs) = h # t" by (metis splitOn_ne neq_Nil_conv)
      obtain h' t' where s2: "splitOn (CHR ''/'') (collapseSlashes (y # xs)) = h' # t'"
        by (metis splitOn_ne neq_Nil_conv)
      have "h' = h" using hd [of "CHR ''/''" "y # xs"] s1 s2 by simp
      then show ?thesis using IH xs False s1 s2 by (auto split: if_splits)
    qed
  qed
qed auto

lemma splitOn_snoc: "splitOn c (p @ [c]) = splitOn c p @ [[]]"
  by (induction p) (auto split: list.splits)

lemma segments_snoc: "segments (p @ ''/'') = segments p"
  by (simp add: splitOn_snoc)

lemma norm_segments: "norm_loop [] (splitOn (CHR ''/'') p) = norm_loop [] (segments p)"
  by (rule norm_loop_filter)

lemma collapse_hd: "p \<noteq> [] \<Longrightarrow> collapseSlashes p \<noteq> [] \<and> hd (collapseSlashes p) = hd p"
  by (induction p rule: collapseSlashes.induct) auto

lemma butlast_slash: "endsWith s ''/'' \<Longrightarrow> s = butlast s @ ''/''"
  by (cases s rule: rev_cases) (auto simp: endsWith_def)

lemma normalizeFsPath_segs:
  "normalizeFsPath p =
     (if startsWith p ''/'' then ''/'' @ joinWith ''/'' (clean_segs p)
      else if clean_segs p = [] then ''.'' else joinWith ''/'' (clean_segs p))"
proof -
  let ?c0 = "collapseSlashes p"
  define c where "c = (if length ?c0 > 1 \<and> endsWith ?c0 ''/'' then butlast ?c0 else ?c0)"
  have "segments c = segments ?c0"
    using segments_snoc [of "butlast ?c0"] butlast_slash [of ?c0] by (auto simp: c_def)
  then have n: "norm_loop [] (splitOn (CHR ''/'') c) = clean_segs p"
    unfolding clean_segs_def norm_segments [of c] norm_segments [of p] by (simp add: segments_collapse)
  have "startsWith c ''/'' \<longleftrightarrow> startsWith p ''/''"
  proof (cases p)
    case (Cons x xs)
    then obtain ys where "?c0 = x # ys" using collapse_hd [of p] by (cases ?c0) auto
    then show ?thesis by (auto simp: c_def startsWith_def Cons)
  qed (simp add: c_def startsWith_def)
  moreover have "normalizeFsPath p =
      (let result = (if startsWith c ''/'' then ''/'' else '''') @ joinWith ''/'' (norm_loop [] (splitOn (CHR ''/'') c))
       in if result \<noteq> '''' then result else if startsWith c ''/'' then ''/'' else ''.'')"
    by (simp only: normalizeFsPath_def Let_def c_def)
  ultimately show ?thesis
    using joinWith_eq_Nil [OF clean_segs_clean, of p] by (simp add: n Let_def)
qed

end
