(* ===== verification/Vfs_Interface.thy ===== *)
theory Vfs_Interface
  imports Js_Path
begin

section \<open>The virtual file system interface\<close>

text \<open>
  \<^verbatim>\<open>kernel/vfs.ts\<close>: the interface every file system backend implements. A call is a value of
  \<open>vfs_call\<close> with the arguments of the method, a reply a value of \<open>vfs_reply\<close>, and a file system
  object is its call function over its own state together with which of the optional methods it has.
  A promise that rejects is the error \<open>Inl\<close>. Backends are parameters of the definitions that wrap or
  route to them (the permission layer and the mount table). The text of \<open>RText\<close> is the list of the
  code points of the string.
\<close>

record VirtualDirEntry =
  vd_name :: string
  vd_isDirectory :: bool
  vd_isSymbolicLink :: bool
  vd_ino :: "nat option"

record VirtualStat =
  vs_mode :: u32
  vs_size :: int
  vs_isDirectory :: bool
  vs_isSymbolicLink :: bool
  vs_atimeMs :: int
  vs_mtimeMs :: int
  vs_ctimeMs :: int
  vs_birthtimeMs :: int
  vs_ino :: nat
  vs_nlink :: int
  vs_uid :: int
  vs_gid :: int

datatype vfs_call =
    ReadFile path
  | ReadTextFile path
  | ReadDir path
  | ReadDirWithTypes path
  | WriteFile path bytes
  | CreateDir path
  | Mkdir path bool
  | ExistsCall path
  | StatCall path
  | RemoveFile path
  | RemoveDir path
  | Rename path path
  | Realpath path
  | Symlink path path
  | Readlink path
  | Lstat path
  | Link path path
  | Chmod path u32
  | Chown path int int
  | Utimes path int int
  | Truncate path int
  | Pread path int int
  | Pwrite path int bytes
  | Fsync path
  | Copy path path
  | ReadDirStat path
  | PrepareOpenSync path u32

datatype vfs_reply =
    RUnit
  | RBytes bytes
  | RText "nat list"
  | RNames "string list"
  | REntries "VirtualDirEntry list"
  | RBool bool
  | RStat VirtualStat
  | RPath path
  | RStatEntries "(VirtualDirEntry \<times> VirtualStat) list"

datatype vfs_opt = OptFsync | OptCopy | OptReadDirStat | OptPrepareOpenSync

record 's VirtualFileSystem =
  vo_call :: "vfs_call \<Rightarrow> 's \<Rightarrow> vfs_reply res \<times> 's"
  vo_has :: "vfs_opt \<Rightarrow> bool"

text \<open>The state of the file system after a sequence of calls, and their replies.\<close>

fun vfs_calls :: "'s VirtualFileSystem \<Rightarrow> vfs_call list \<Rightarrow> 's \<Rightarrow> vfs_reply res list \<times> 's" where
  "vfs_calls fs [] s = ([], s)"
| "vfs_calls fs (c # cs) s =
     (let (r, s1) = vo_call fs c s; (rs, s2) = vfs_calls fs cs s1 in (r # rs, s2))"

text \<open>A backend that accepts every call and counts them, for concrete instances.\<close>

definition counting_fs :: "nat VirtualFileSystem" where
  "counting_fs = \<lparr>vo_call = (\<lambda>c n. (Inr RUnit, Suc n)), vo_has = (\<lambda>_. True)\<rparr>"

end
