(* ===== verification/Permissions.thy ===== *)
theory Permissions
  imports Vfs_Interface
begin

section \<open>Permission enforcement\<close>

text \<open>
  \<^verbatim>\<open>kernel/permissions.ts\<close>. The policy callbacks of the embedder are arguments: a check is a
  function from the request to a decision (\<open>None\<close> is \<^verbatim>\<open>undefined\<close>), and a missing callback is \<open>None\<close>.
  \<open>wrapFileSystem\<close> turns any file system into one that consults the policy before it forwards a call.
\<close>

datatype fs_op =
    OpRead | OpWrite | OpMkdir | OpCreateDir | OpReaddir | OpStat | OpRm | OpRename | OpExists
  | OpSymlink | OpReadlink | OpLink | OpChmod | OpChown | OpUtimes | OpTruncate

record PermissionDecision =
  pd_allow :: bool
  pd_reason :: "string option"

type_synonym FsAccessRequest = "fs_op \<times> path"
type_synonym EnvAccessRequest = "string \<times> string"
type_synonym ChildProcessAccessRequest = "string \<times> string list \<times> path option"
type_synonym 'q PermissionCheck = "'q \<Rightarrow> PermissionDecision option"

record Permissions =
  perm_fs :: "FsAccessRequest PermissionCheck option"
  perm_env :: "EnvAccessRequest PermissionCheck option"
  perm_childProcess :: "ChildProcessAccessRequest PermissionCheck option"

definition allows :: "PermissionDecision option \<Rightarrow> bool" where
  "allows d = (case d of None \<Rightarrow> False | Some x \<Rightarrow> pd_allow x)"

definition checkPermission :: "'q PermissionCheck option \<Rightarrow> 'q \<Rightarrow> unit res" where
  "checkPermission check request =
     (case check of
        None \<Rightarrow> Inl EACCES
      | Some f \<Rightarrow> if allows (f request) then Inr () else Inl EACCES)"

definition fsCheck :: "Permissions option \<Rightarrow> fs_op \<Rightarrow> path \<Rightarrow> unit res" where
  "fsCheck permissions op p =
     checkPermission (case permissions of None \<Rightarrow> None | Some ps \<Rightarrow> perm_fs ps) (op, normalizeFsPath p)"

text \<open>A method body: the check, then what follows it.\<close>

definition checked ::
  "Permissions option \<Rightarrow> fs_op \<Rightarrow> path \<Rightarrow> ('s \<Rightarrow> vfs_reply res \<times> 's) \<Rightarrow> 's \<Rightarrow> vfs_reply res \<times> 's"
where
  "checked permissions op p body s = (case fsCheck permissions op p of Inl e \<Rightarrow> (Inl e, s) | Inr _ \<Rightarrow> body s)"

definition wrapped_prepareOpenSync ::
  "'s VirtualFileSystem \<Rightarrow> Permissions option \<Rightarrow> path \<Rightarrow> u32 \<Rightarrow> 's \<Rightarrow> vfs_reply res \<times> 's"
where
  "wrapped_prepareOpenSync fs ps p flags =
     (let body = (\<lambda>s. if vo_has fs OptPrepareOpenSync then vo_call fs (PrepareOpenSync p flags) s else (Inr (RBool False), s))
      in if flags AND 0x40 \<noteq> 0 \<or> flags AND 0x200 \<noteq> 0 then checked ps OpWrite p body else body)"

text \<open>
  The methods of the wrapper. It has no \<^verbatim>\<open>fsync\<close>, \<^verbatim>\<open>copy\<close> and \<^verbatim>\<open>readDirStat\<close> method: a call of one is a call of
  \<^verbatim>\<open>undefined\<close>, which callers avoid by testing \<open>vo_has\<close> (as the source does with \<^verbatim>\<open>?.\<close>); it is ENOSYS here.
\<close>

fun wrapped_call :: "'s VirtualFileSystem \<Rightarrow> Permissions option \<Rightarrow> vfs_call \<Rightarrow> 's \<Rightarrow> vfs_reply res \<times> 's" where
  "wrapped_call fs ps (PrepareOpenSync p flags) = wrapped_prepareOpenSync fs ps p flags"
| "wrapped_call fs ps (ReadFile p) = checked ps OpRead p (vo_call fs (ReadFile p))"
| "wrapped_call fs ps (ReadTextFile p) = checked ps OpRead p (vo_call fs (ReadTextFile p))"
| "wrapped_call fs ps (ReadDir p) = checked ps OpReaddir p (vo_call fs (ReadDir p))"
| "wrapped_call fs ps (ReadDirWithTypes p) = checked ps OpReaddir p (vo_call fs (ReadDirWithTypes p))"
| "wrapped_call fs ps (WriteFile p b) = checked ps OpWrite p (vo_call fs (WriteFile p b))"
| "wrapped_call fs ps (CreateDir p) = checked ps OpCreateDir p (vo_call fs (CreateDir p))"
| "wrapped_call fs ps (Mkdir p r) = checked ps OpMkdir p (vo_call fs (Mkdir p r))"
| "wrapped_call fs ps (ExistsCall p) = checked ps OpExists p (vo_call fs (ExistsCall p))"
| "wrapped_call fs ps (StatCall p) = checked ps OpStat p (vo_call fs (StatCall p))"
| "wrapped_call fs ps (RemoveFile p) = checked ps OpRm p (vo_call fs (RemoveFile p))"
| "wrapped_call fs ps (RemoveDir p) = checked ps OpRm p (vo_call fs (RemoveDir p))"
| "wrapped_call fs ps (Rename p q) = checked ps OpRename p (checked ps OpRename q (vo_call fs (Rename p q)))"
| "wrapped_call fs ps (Realpath p) = checked ps OpRead p (vo_call fs (Realpath p))"
| "wrapped_call fs ps (Symlink t l) = checked ps OpSymlink l (vo_call fs (Symlink t l))"
| "wrapped_call fs ps (Readlink p) = checked ps OpReadlink p (vo_call fs (Readlink p))"
| "wrapped_call fs ps (Lstat p) = checked ps OpStat p (vo_call fs (Lstat p))"
| "wrapped_call fs ps (Link p q) = checked ps OpLink q (vo_call fs (Link p q))"
| "wrapped_call fs ps (Chmod p m) = checked ps OpChmod p (vo_call fs (Chmod p m))"
| "wrapped_call fs ps (Chown p u g) = checked ps OpChown p (vo_call fs (Chown p u g))"
| "wrapped_call fs ps (Utimes p a m) = checked ps OpUtimes p (vo_call fs (Utimes p a m))"
| "wrapped_call fs ps (Truncate p n) = checked ps OpTruncate p (vo_call fs (Truncate p n))"
| "wrapped_call fs ps (Pread p off n) = checked ps OpRead p (vo_call fs (Pread p off n))"
| "wrapped_call fs ps (Pwrite p off b) = checked ps OpWrite p (vo_call fs (Pwrite p off b))"
| "wrapped_call fs ps (Fsync p) = (\<lambda>s. (Inl ENOSYS, s))"
| "wrapped_call fs ps (Copy p q) = (\<lambda>s. (Inl ENOSYS, s))"
| "wrapped_call fs ps (ReadDirStat p) = (\<lambda>s. (Inl ENOSYS, s))"

definition wrapFileSystem :: "'s VirtualFileSystem \<Rightarrow> Permissions option \<Rightarrow> 's VirtualFileSystem" where
  "wrapFileSystem fs permissions =
     \<lparr>vo_call = wrapped_call fs permissions, vo_has = (\<lambda>x. x = OptPrepareOpenSync)\<rparr>"

fun filterEnv_loop :: "EnvAccessRequest PermissionCheck \<Rightarrow> (string, string) jsmap \<Rightarrow> (string, string) jsmap \<Rightarrow> (string, string) jsmap" where
  "filterEnv_loop f [] result = result"
| "filterEnv_loop f ((key, val) # rest) result =
     filterEnv_loop f rest (if allows (f (key, val)) then mput key val result else result)"

definition filterEnv :: "(string, string) jsmap option \<Rightarrow> Permissions option \<Rightarrow> (string, string) jsmap" where
  "filterEnv env permissions =
     (case env of
        None \<Rightarrow> []
      | Some e \<Rightarrow>
          (case permissions of
             None \<Rightarrow> []
           | Some ps \<Rightarrow> (case perm_env ps of None \<Rightarrow> [] | Some f \<Rightarrow> filterEnv_loop f e [])))"

definition checkChildProcess :: "Permissions option \<Rightarrow> string \<Rightarrow> string list \<Rightarrow> path option \<Rightarrow> unit res" where
  "checkChildProcess permissions command args cwd =
     (case permissions of
        None \<Rightarrow> Inr ()
      | Some ps \<Rightarrow>
          (case perm_childProcess ps of
             None \<Rightarrow> Inr ()
           | Some f \<Rightarrow> if allows (f (command, args, cwd)) then Inr () else Inl EACCES))"

definition allowAll :: Permissions where
  "allowAll = \<lparr>perm_fs = Some (\<lambda>_. Some \<lparr>pd_allow = True, pd_reason = None\<rparr>),
     perm_env = Some (\<lambda>_. Some \<lparr>pd_allow = True, pd_reason = None\<rparr>),
     perm_childProcess = Some (\<lambda>_. Some \<lparr>pd_allow = True, pd_reason = None\<rparr>)\<rparr>"

subsection \<open>What the policy sees and what passes it\<close>

definition fs_allowed :: "Permissions option \<Rightarrow> fs_op \<Rightarrow> path \<Rightarrow> bool" where
  "fs_allowed permissions op p =
     (case permissions of None \<Rightarrow> False
      | Some ps \<Rightarrow> (case perm_fs ps of None \<Rightarrow> False | Some f \<Rightarrow> allows (f (op, p))))"

lemma fsCheck_iff: "fsCheck ps op p = (if fs_allowed ps op (normalizeFsPath p) then Inr () else Inl EACCES)"
  by (simp add: fsCheck_def checkPermission_def fs_allowed_def split: option.splits)

lemma checked_iff:
  "checked ps op p body s = (if fs_allowed ps op (normalizeFsPath p) then body s else (Inl EACCES, s))"
  by (simp add: checked_def fsCheck_iff)

lemma filterEnv_loop_get:
  "mwf env \<Longrightarrow> mget (filterEnv_loop f env result) k =
     (case mget env k of None \<Rightarrow> mget result k
      | Some v \<Rightarrow> if allows (f (k, v)) then Some v else mget result k)"
proof (induction f env result rule: filterEnv_loop.induct)
  case (2 f key val rest result)
  have "mget rest key = None" using 2(2) by (simp add: map_of_eq_None_iff)
  with 2 show ?case by (auto split: option.splits)
qed simp

subsection \<open>What a call does to a path\<close>

text \<open>
  The specification of the layer does not mention its checks. It says what a call of the file system
  interface does to which path, whoever serves it, and which operations of a policy speak about
  doing that. Creating or truncating through \<^verbatim>\<open>prepareOpenSync\<close> is a matter of its flags (O_CREAT 0o100,
  O_TRUNC 0o1000).
\<close>

datatype access = Reads | Lists | Inspects | Writes | Creates | Removes | SetsAttributes

fun effects :: "vfs_call \<Rightarrow> (access \<times> path) list" where
  "effects (ReadFile p) = [(Reads, p)]"
| "effects (ReadTextFile p) = [(Reads, p)]"
| "effects (Pread p off n) = [(Reads, p)]"
| "effects (ReadDir p) = [(Lists, p)]"
| "effects (ReadDirWithTypes p) = [(Lists, p)]"
| "effects (ReadDirStat p) = [(Lists, p)]"
| "effects (ExistsCall p) = [(Inspects, p)]"
| "effects (StatCall p) = [(Inspects, p)]"
| "effects (Lstat p) = [(Inspects, p)]"
| "effects (Readlink p) = [(Inspects, p)]"
| "effects (Realpath p) = [(Inspects, p)]"
| "effects (WriteFile p b) = [(Writes, p)]"
| "effects (Pwrite p off b) = [(Writes, p)]"
| "effects (Truncate p n) = [(Writes, p)]"
| "effects (Fsync p) = [(Writes, p)]"
| "effects (CreateDir p) = [(Creates, p)]"
| "effects (Mkdir p r) = [(Creates, p)]"
| "effects (Symlink t l) = [(Creates, l)]"
| "effects (Link p q) = [(Creates, q)]"
| "effects (Rename p q) = [(Removes, p), (Creates, q)]"
| "effects (Copy p q) = [(Reads, p), (Creates, q)]"
| "effects (RemoveFile p) = [(Removes, p)]"
| "effects (RemoveDir p) = [(Removes, p)]"
| "effects (Chmod p m) = [(SetsAttributes, p)]"
| "effects (Chown p u g) = [(SetsAttributes, p)]"
| "effects (Utimes p a m) = [(SetsAttributes, p)]"
| "effects (PrepareOpenSync p flags) =
     (if flags AND 0x40 \<noteq> 0 then [(Creates, p)] else []) @ (if flags AND 0x200 \<noteq> 0 then [(Writes, p)] else [])"

fun ops_about :: "access \<Rightarrow> fs_op set" where
  "ops_about Reads = {OpRead}"
| "ops_about Lists = {OpReaddir}"
| "ops_about Inspects = {OpStat, OpExists, OpReadlink, OpRead}"
| "ops_about Writes = {OpWrite, OpTruncate}"
| "ops_about Creates = {OpWrite, OpMkdir, OpCreateDir, OpSymlink, OpLink, OpRename}"
| "ops_about Removes = {OpRm, OpRename}"
| "ops_about SetsAttributes = {OpChmod, OpChown, OpUtimes}"

definition denies :: "Permissions option \<Rightarrow> access \<Rightarrow> path \<Rightarrow> bool" where
  "denies ps a p \<longleftrightarrow> (\<forall>op \<in> ops_about a. \<not> fs_allowed ps op (normalizeFsPath p))"

definition grants :: "Permissions option \<Rightarrow> access \<Rightarrow> path \<Rightarrow> bool" where
  "grants ps a p \<longleftrightarrow> (\<forall>op \<in> ops_about a. fs_allowed ps op (normalizeFsPath p))"

text \<open>Two policies that say the same about doing \<open>a\<close> to the path.\<close>

definition same_on :: "Permissions option \<Rightarrow> Permissions option \<Rightarrow> access \<Rightarrow> path \<Rightarrow> bool" where
  "same_on ps qs a p \<longleftrightarrow>
     (\<forall>op \<in> ops_about a. fs_allowed ps op (normalizeFsPath p) = fs_allowed qs op (normalizeFsPath p))"

text \<open>The call without the permission layer: the optional methods the layer has not got are absent.\<close>

definition direct_call :: "'s VirtualFileSystem \<Rightarrow> vfs_call \<Rightarrow> 's \<Rightarrow> vfs_reply res \<times> 's" where
  "direct_call fs c s =
     (case c of
        Fsync _ \<Rightarrow> (Inl ENOSYS, s)
      | Copy _ _ \<Rightarrow> (Inl ENOSYS, s)
      | ReadDirStat _ \<Rightarrow> (Inl ENOSYS, s)
      | PrepareOpenSync _ _ \<Rightarrow> if vo_has fs OptPrepareOpenSync then vo_call fs c s else (Inr (RBool False), s)
      | _ \<Rightarrow> vo_call fs c s)"

lemma wrapped_refuses:
  assumes "(a, p) \<in> set (effects c)" "denies ps a p"
  shows "wrapped_call fs ps c s \<in> {(Inl EACCES, s), (Inl ENOSYS, s)}"
  using assms by (cases c) (auto simp: denies_def checked_iff wrapped_prepareOpenSync_def Let_def split: if_splits)

lemma wrapped_forwards:
  assumes "\<forall>(a, p) \<in> set (effects c). grants ps a p"
  shows "wrapped_call fs ps c s = direct_call fs c s"
  using assms
  by (cases c) (auto simp: grants_def checked_iff wrapped_prepareOpenSync_def Let_def direct_call_def Ball_def split: if_splits)

lemma wrapped_same:
  assumes "\<forall>(a, p) \<in> set (effects c). same_on ps qs a p"
  shows "wrapped_call fs ps c s = wrapped_call fs qs c s"
  using assms
  by (cases c) (auto simp: same_on_def checked_iff wrapped_prepareOpenSync_def Let_def Ball_def split: if_splits)

text \<open>
  C28. The permission layer mediates, with default deny. Whatever a call does to a path, reading it,
  listing it, inspecting it, writing, creating or removing it, changing its attributes: where the policy
  allows no operation that speaks about doing that to the normalised path, the call fails (with EACCES,
  or ENOSYS for the three optional methods the layer has not got) and the backend is untouched; where the
  policy allows all of them, for every path the call acts on, the call behaves as on the backend itself;
  and what the policy says about other operations or other paths makes no difference. With no policy,
  or a policy without a file system check, every call that acts on a path fails. The old path of a
  hard link is the exception: the layer does not ask about it (\<open>link_source_unchecked\<close>), so it is
  no path acted on here; and \<^verbatim>\<open>prepareOpenSync\<close> with neither O_CREAT nor O_TRUNC is forwarded unasked.
\<close>

theorem permission_mediation:
  "(\<forall>(a, p) \<in> set (effects c). denies ps a p \<longrightarrow>
      vo_call (wrapFileSystem fs ps) c s \<in> {(Inl EACCES, s), (Inl ENOSYS, s)}) \<and>
   ((\<forall>(a, p) \<in> set (effects c). grants ps a p) \<longrightarrow>
      vo_call (wrapFileSystem fs ps) c s = direct_call fs c s) \<and>
   ((\<forall>(a, p) \<in> set (effects c). same_on ps qs a p) \<longrightarrow>
      vo_call (wrapFileSystem fs ps) c s = vo_call (wrapFileSystem fs qs) c s) \<and>
   ((ps = None \<or> perm_fs (the ps) = None) \<and> effects c \<noteq> [] \<longrightarrow>
      vo_call (wrapFileSystem fs ps) c s \<in> {(Inl EACCES, s), (Inl ENOSYS, s)})"
proof (intro conjI impI)
  have v: "vo_call (wrapFileSystem fs qs) = wrapped_call fs qs" for qs :: "Permissions option"
    by (simp add: wrapFileSystem_def)
  show "\<forall>(a, p) \<in> set (effects c). denies ps a p \<longrightarrow>
      vo_call (wrapFileSystem fs ps) c s \<in> {(Inl EACCES, s), (Inl ENOSYS, s)}"
    unfolding v using wrapped_refuses [of _ _ c ps fs s] by blast
  show "vo_call (wrapFileSystem fs ps) c s = direct_call fs c s"
    if "\<forall>(a, p) \<in> set (effects c). grants ps a p"
    unfolding v by (rule wrapped_forwards [OF that])
  show "vo_call (wrapFileSystem fs ps) c s = vo_call (wrapFileSystem fs qs) c s"
    if "\<forall>(a, p) \<in> set (effects c). same_on ps qs a p"
    unfolding v by (rule wrapped_same [OF that])
  assume *: "(ps = None \<or> perm_fs (the ps) = None) \<and> effects c \<noteq> []"
  then obtain a p where "(a, p) \<in> set (effects c)" by (cases "effects c") auto
  moreover have "denies ps a p" using * by (auto simp: denies_def fs_allowed_def split: option.splits)
  ultimately show "vo_call (wrapFileSystem fs ps) c s \<in> {(Inl EACCES, s), (Inl ENOSYS, s)}"
    unfolding v by (rule wrapped_refuses)
qed

text \<open>A policy that lets everything below \<^verbatim>\<open>/home\<close> be read and listed, and nothing else be done.\<close>

definition read_only_home :: Permissions where
  "read_only_home = allowAll\<lparr>perm_fs := Some (\<lambda>(op, p).
     Some \<lparr>pd_allow = op \<in> {OpRead, OpReaddir, OpStat, OpExists, OpReadlink} \<and> startsWith p ''/home/'', pd_reason = None\<rparr>)\<rparr>"

theorem permission_mediation_witness:
  "vo_call (wrapFileSystem counting_fs None) (WriteFile ''/a'' [1]) 0 \<in> {(Inl EACCES, 0), (Inl ENOSYS, 0)} \<and>
   vo_call (wrapFileSystem counting_fs (Some read_only_home)) (Rename ''/home/a'' ''/home/b'') 0
     \<in> {(Inl EACCES, 0), (Inl ENOSYS, 0)} \<and>
   vo_call (wrapFileSystem counting_fs (Some read_only_home)) (ReadFile ''/home/../etc/shadow'') 0
     \<in> {(Inl EACCES, 0), (Inl ENOSYS, 0)} \<and>
   vo_call (wrapFileSystem counting_fs (Some read_only_home)) (ReadFile ''/home/a'') 0 =
     vo_call counting_fs (ReadFile ''/home/a'') 0"
proof -
  have n: "normalizeFsPath ''/home/a'' = ''/home/a''" "normalizeFsPath ''/home/../etc/shadow'' = ''/etc/shadow''"
    by code_simp+
  have "denies (Some read_only_home) Removes ''/home/a''" "denies (Some read_only_home) Reads ''/home/../etc/shadow''"
    "grants (Some read_only_home) Reads ''/home/a''"
    by (simp_all add: denies_def grants_def n fs_allowed_def read_only_home_def allows_def startsWith_def)
  then show ?thesis
    using permission_mediation [of "WriteFile ''/a'' [1]" None counting_fs 0 None]
      permission_mediation [of "Rename ''/home/a'' ''/home/b''" "Some read_only_home" counting_fs 0 None]
      permission_mediation [of "ReadFile ''/home/../etc/shadow''" "Some read_only_home" counting_fs 0 None]
      permission_mediation [of "ReadFile ''/home/a''" "Some read_only_home" counting_fs 0 None]
    by (simp add: direct_call_def)
qed

text \<open>
  The policy is shown the path that is acted on: for an absolute path, the normalised path of
  the permission check is the path the mount table routes, and it consists of a slash and segments
  none of which is empty, a dot or a dot-dot. A relative path is shown without the leading slash with
  which it is routed.
\<close>

theorem policy_sees_routed_path:
  "list_all clean_seg (clean_segs p) \<and>
   normalizePath p = ''/'' @ joinWith ''/'' (clean_segs p) \<and>
   (startsWith p ''/'' \<longrightarrow> normalizeFsPath p = normalizePath p) \<and>
   (\<not> startsWith p ''/'' \<and> clean_segs p \<noteq> [] \<longrightarrow> normalizePath p = ''/'' @ normalizeFsPath p)"
  by (simp add: clean_segs_clean normalizePath_segs normalizeFsPath_segs)

theorem policy_sees_routed_path_witness:
  "normalizeFsPath ''/home//user/../../etc/./passwd'' = ''/etc/passwd'' \<and>
   normalizeFsPath ''etc/passwd'' = ''etc/passwd'' \<and> normalizePath ''etc/passwd'' = ''/etc/passwd''"
proof -
  have "clean_segs ''/home//user/../../etc/./passwd'' = [''etc'', ''passwd'']"
    "clean_segs ''etc/passwd'' = [''etc'', ''passwd'']" by code_simp+
  then show ?thesis
    using policy_sees_routed_path [of "''/home//user/../../etc/./passwd''"]
      policy_sees_routed_path [of "''etc/passwd''"]
    by (auto simp: startsWith_def)
qed

text \<open>
  The environment a child receives is exactly the part of the requested one the policy allows,
  entry by entry, and nothing without a policy.
\<close>

theorem filterEnv_exact:
  assumes "mwf env"
  shows "mget (filterEnv (Some env) ps) k = Some v \<longleftrightarrow>
    mget env k = Some v \<and> (\<exists>p f. ps = Some p \<and> perm_env p = Some f \<and> allows (f (k, v)))"
  by (auto simp: filterEnv_def filterEnv_loop_get [OF assms] split: option.splits if_splits)

theorem filterEnv_exact_witness:
  "mget (filterEnv (Some [(''HOME'', ''/h''), (''KEY'', ''s'')])
     (Some (allowAll\<lparr>perm_env := Some (\<lambda>(k, v). if k = ''KEY'' then None
         else Some \<lparr>pd_allow = True, pd_reason = None\<rparr>)\<rparr>)))
     ''HOME'' = Some ''/h''"
  using filterEnv_exact [of "[(''HOME'', ''/h''), (''KEY'', ''s'')]"] by (simp add: allows_def)

text \<open>
  The source of a hard link is not checked: when the policy allows the link's new path, the call
  reaches the backend even if the policy denies every operation on the old path.
\<close>

lemma link_source_unchecked:
  assumes "fs_allowed ps OpLink (normalizeFsPath newPath)"
    and "\<And>op. \<not> fs_allowed ps op (normalizeFsPath oldPath)"
  shows "vo_call (wrapFileSystem fs ps) (Link oldPath newPath) s = vo_call fs (Link oldPath newPath) s \<and>
    vo_call (wrapFileSystem fs ps) (ReadFile oldPath) s = (Inl EACCES, s)"
  using assms by (auto simp: wrapFileSystem_def checked_iff)

definition tmp_only :: Permissions where
  "tmp_only = allowAll\<lparr>perm_fs := Some (\<lambda>(op, p). Some \<lparr>pd_allow = startsWith p ''/tmp/'', pd_reason = None\<rparr>)\<rparr>"

theorem link_source_unchecked_witness:
  "vo_call (wrapFileSystem counting_fs (Some tmp_only)) (Link ''/etc/secret'' ''/tmp/x'') 0 = (Inr RUnit, 1)"
proof -
  have n: "normalizeFsPath ''/tmp/x'' = ''/tmp/x''" "normalizeFsPath ''/etc/secret'' = ''/etc/secret''"
    by code_simp+
  have "fs_allowed (Some tmp_only) OpLink (normalizeFsPath ''/tmp/x'')"
    "\<not> fs_allowed (Some tmp_only) op (normalizeFsPath ''/etc/secret'')" for op
    unfolding n by (simp_all add: fs_allowed_def tmp_only_def allows_def startsWith_def)
  from link_source_unchecked [OF this, of counting_fs 0] show ?thesis by (simp add: counting_fs_def)
qed

end
