(* ===== verification/Mount_Table.thy ===== *)
theory Mount_Table
  imports Vfs_Interface FD_Table "HOL-Library.Sublist"
begin

section \<open>The mount table\<close>

text \<open>
  \<^verbatim>\<open>kernel/mount-table.ts\<close>. The table routes every file system call to the backend mounted at the
  longest prefix of the normalised path. Backends are objects: a mount names one by a number, \<open>objs\<close>
  gives their methods and \<open>mt_states\<close> their states. The \<^verbatim>\<open>mkdir\<close> with which \<^verbatim>\<open>mount\<close> creates its
  mount point is performed at once and its outcome ignored (the source does not await it).
\<close>

subsection \<open>Data\<close>

record InternalMount =
  mnt_path :: path
  mnt_fs :: nat
  mnt_readOnly :: bool

record 's MountTable =
  mt_mounts :: "InternalMount list"
  mt_states :: "nat \<Rightarrow> 's"

type_synonym 's backends = "nat \<Rightarrow> 's VirtualFileSystem"

definition mt_new :: "nat \<Rightarrow> (nat \<Rightarrow> 's) \<Rightarrow> 's MountTable" where
  "mt_new rootFs states =
     \<lparr>mt_mounts = [\<lparr>mnt_path = ''/'', mnt_fs = rootFs, mnt_readOnly = False\<rparr>], mt_states = states\<rparr>"

subsection \<open>Resolution\<close>

definition covers :: "InternalMount \<Rightarrow> path \<Rightarrow> bool" where
  "covers mnt normalized \<longleftrightarrow>
     mnt_path mnt = ''/'' \<or> normalized = mnt_path mnt \<or> startsWith normalized (mnt_path mnt @ ''/'')"

definition relativeTo :: "InternalMount \<Rightarrow> path \<Rightarrow> path" where
  "relativeTo mnt normalized =
     (if mnt_path mnt = ''/'' then normalized
      else if normalized = mnt_path mnt then '''' else drop (length (mnt_path mnt) + 1) normalized)"

fun resolve_loop :: "InternalMount list \<Rightarrow> path \<Rightarrow> (InternalMount \<times> path) res" where
  "resolve_loop [] normalized = Inl ENOENT"
| "resolve_loop (mnt # ms) normalized =
     (if covers mnt normalized then Inr (mnt, relativeTo mnt normalized) else resolve_loop ms normalized)"

definition mt_resolve :: "'s MountTable \<Rightarrow> path \<Rightarrow> (InternalMount \<times> path) res" where
  "mt_resolve mt fullPath = resolve_loop (mt_mounts mt) (normalizePath fullPath)"

text \<open>A method call on the backend of a mount.\<close>

definition mt_backend :: "'s backends \<Rightarrow> InternalMount \<Rightarrow> vfs_call \<Rightarrow> 's MountTable \<Rightarrow> vfs_reply res \<times> 's MountTable" where
  "mt_backend objs mnt c mt =
     (let (r, s) = vo_call (objs (mnt_fs mnt)) c (mt_states mt (mnt_fs mnt))
      in (r, mt\<lparr>mt_states := (mt_states mt)(mnt_fs mnt := s)\<rparr>))"

subsection \<open>Mounting\<close>

definition mt_mount :: "'s backends \<Rightarrow> path \<Rightarrow> nat \<Rightarrow> bool option \<Rightarrow> 's MountTable \<Rightarrow> 's MountTable res" where
  "mt_mount objs p fs readOnly mt =
     (let normalized = normalizePath p
      in if normalized = ''/'' then Inl EINVAL
         else if list_ex (\<lambda>m. mnt_path m = normalized) (mt_mounts mt) then Inl EEXIST
         else case mt_resolve mt normalized of
                Inl e \<Rightarrow> Inl e
              | Inr (parentMount, rel) \<Rightarrow>
                  let mt1 = snd (mt_backend objs parentMount (Mkdir (if rel = '''' then ''/'' else rel) True) mt);
                      entry = \<lparr>mnt_path = normalized, mnt_fs = fs,
                        mnt_readOnly = (case readOnly of None \<Rightarrow> False | Some b \<Rightarrow> b)\<rparr>
                  in Inr (mt1\<lparr>mt_mounts := sort_key (\<lambda>m. - int (length (mnt_path m))) (mt_mounts mt1 @ [entry])\<rparr>))"

definition mt_unmount :: "path \<Rightarrow> 's MountTable \<Rightarrow> 's MountTable res" where
  "mt_unmount p mt =
     (let normalized = normalizePath p
      in if normalized = ''/'' then Inl EINVAL
         else if \<not> list_ex (\<lambda>m. mnt_path m = normalized) (mt_mounts mt) then Inl EINVAL
         else Inr (mt\<lparr>mt_mounts :=
                takeWhile (\<lambda>m. mnt_path m \<noteq> normalized) (mt_mounts mt) @
                tl (dropWhile (\<lambda>m. mnt_path m \<noteq> normalized) (mt_mounts mt))\<rparr>))"

definition getMounts :: "'s MountTable \<Rightarrow> (path \<times> bool) list" where
  "getMounts mt = map (\<lambda>m. (mnt_path m, mnt_readOnly m)) (mt_mounts mt)"

definition getChildMountBasenames :: "'s MountTable \<Rightarrow> path \<Rightarrow> string list" where
  "getChildMountBasenames mt dirPath =
     map (\<lambda>m. basename (mnt_path m))
       (filter (\<lambda>m. mnt_path m \<noteq> ''/'' \<and> parentPath (mnt_path m) = dirPath) (mt_mounts mt))"

subsection \<open>File system calls\<close>

definition assertWritable :: "InternalMount \<Rightarrow> unit res" where
  "assertWritable mnt = (if mnt_readOnly mnt then Inl EROFS else Inr ())"

text \<open>The shape of a reading method, and of a writing one.\<close>

definition mt_read :: "'s backends \<Rightarrow> path \<Rightarrow> (path \<Rightarrow> vfs_call) \<Rightarrow> 's MountTable \<Rightarrow> vfs_reply res \<times> 's MountTable" where
  "mt_read objs p mk mt =
     (case mt_resolve mt p of
        Inl e \<Rightarrow> (Inl e, mt)
      | Inr (mnt, rel) \<Rightarrow> mt_backend objs mnt (mk rel) mt)"

definition mt_write :: "'s backends \<Rightarrow> path \<Rightarrow> (path \<Rightarrow> vfs_call) \<Rightarrow> 's MountTable \<Rightarrow> vfs_reply res \<times> 's MountTable" where
  "mt_write objs p mk mt =
     (case mt_resolve mt p of
        Inl e \<Rightarrow> (Inl e, mt)
      | Inr (mnt, rel) \<Rightarrow>
          (case assertWritable mnt of Inl e \<Rightarrow> (Inl e, mt) | Inr _ \<Rightarrow> mt_backend objs mnt (mk rel) mt))"

text \<open>\<^verbatim>\<open>link\<close>, \<^verbatim>\<open>rename\<close>: both paths on one mount, which is writable.\<close>

definition mt_write2 ::
  "'s backends \<Rightarrow> path \<Rightarrow> path \<Rightarrow> (path \<Rightarrow> path \<Rightarrow> vfs_call) \<Rightarrow> 's MountTable \<Rightarrow> vfs_reply res \<times> 's MountTable"
where
  "mt_write2 objs p q mk mt =
     (case mt_resolve mt p of
        Inl e \<Rightarrow> (Inl e, mt)
      | Inr (mnt, rel) \<Rightarrow>
          (case mt_resolve mt q of
             Inl e \<Rightarrow> (Inl e, mt)
           | Inr (mnt', rel') \<Rightarrow>
               if mnt \<noteq> mnt' then (Inl EXDEV, mt)
               else case assertWritable mnt of
                      Inl e \<Rightarrow> (Inl e, mt) | Inr _ \<Rightarrow> mt_backend objs mnt (mk rel rel') mt))"

definition addNew :: "'a list \<Rightarrow> 'a \<Rightarrow> 'a list" where
  "addNew xs x = (if x \<in> set xs then xs else xs @ [x])"

definition mt_readDir :: "'s backends \<Rightarrow> path \<Rightarrow> 's MountTable \<Rightarrow> vfs_reply res \<times> 's MountTable" where
  "mt_readDir objs p mt =
     (case mt_read objs p ReadDir mt of
        (Inr (RNames entries), mt1) \<Rightarrow>
          let names = getChildMountBasenames mt (normalizePath p)
          in if names = [] then (Inr (RNames entries), mt1)
             else (Inr (RNames (foldl addNew (foldl addNew [] entries) names)), mt1)
      | r \<Rightarrow> r)"

definition mt_readDirWithTypes :: "'s backends \<Rightarrow> path \<Rightarrow> 's MountTable \<Rightarrow> vfs_reply res \<times> 's MountTable" where
  "mt_readDirWithTypes objs p mt =
     (case mt_read objs p ReadDirWithTypes mt of
        (Inr (REntries entries), mt1) \<Rightarrow>
          let names = getChildMountBasenames mt (normalizePath p)
          in (Inr (REntries (entries @
                map (\<lambda>n. \<lparr>vd_name = n, vd_isDirectory = True, vd_isSymbolicLink = False, vd_ino = None\<rparr>)
                  (filter (\<lambda>n. n \<notin> set (map vd_name entries)) names))), mt1)
      | r \<Rightarrow> r)"

definition mt_realpath :: "'s backends \<Rightarrow> path \<Rightarrow> 's MountTable \<Rightarrow> vfs_reply res \<times> 's MountTable" where
  "mt_realpath objs p mt =
     (case mt_resolve mt p of
        Inl e \<Rightarrow> (Inl e, mt)
      | Inr (mnt, rel) \<Rightarrow>
          (case mt_backend objs mnt (Realpath rel) mt of
             (Inr (RPath resolved), mt1) \<Rightarrow>
               (Inr (RPath (if mnt_path mnt = ''/'' then resolved else mnt_path mnt @ ''/'' @ resolved)), mt1)
           | r \<Rightarrow> r))"

definition mt_fsync :: "'s backends \<Rightarrow> path \<Rightarrow> 's MountTable \<Rightarrow> vfs_reply res \<times> 's MountTable" where
  "mt_fsync objs p mt =
     (case mt_resolve mt p of
        Inl e \<Rightarrow> (Inl e, mt)
      | Inr (mnt, rel) \<Rightarrow>
          if vo_has (objs (mnt_fs mnt)) OptFsync then mt_backend objs mnt (Fsync rel) mt else (Inr RUnit, mt))"

definition mt_copy :: "'s backends \<Rightarrow> path \<Rightarrow> path \<Rightarrow> 's MountTable \<Rightarrow> vfs_reply res \<times> 's MountTable" where
  "mt_copy objs src dst mt =
     (case mt_resolve mt src of
        Inl e \<Rightarrow> (Inl e, mt)
      | Inr (mnt, srel) \<Rightarrow>
          (case mt_resolve mt dst of
             Inl e \<Rightarrow> (Inl e, mt)
           | Inr (mnt', drel) \<Rightarrow>
               if mnt \<noteq> mnt' then (Inl EXDEV, mt)
               else case assertWritable mnt of
                      Inl e \<Rightarrow> (Inl e, mt)
                    | Inr _ \<Rightarrow>
                        if vo_has (objs (mnt_fs mnt)) OptCopy then mt_backend objs mnt (Copy srel drel) mt
                        else (case mt_backend objs mnt (ReadFile srel) mt of
                                (Inr (RBytes content), mt1) \<Rightarrow> mt_backend objs mnt (WriteFile drel content) mt1
                              | r \<Rightarrow> r)))"

text \<open>The loop of \<^verbatim>\<open>readDirStat\<close>'s fallback; it asks the backend about \<^verbatim>\<open>entryPath\<close>, the full path.\<close>

fun stat_loop ::
  "'s backends \<Rightarrow> InternalMount \<Rightarrow> path \<Rightarrow> VirtualDirEntry list \<Rightarrow> (VirtualDirEntry \<times> VirtualStat) list \<Rightarrow> 's MountTable \<Rightarrow>
   vfs_reply res \<times> 's MountTable"
where
  "stat_loop objs mnt normalized [] results mt = (Inr (RStatEntries results), mt)"
| "stat_loop objs mnt normalized (e # es) results mt =
     (let entryPath = (if normalized = ''/'' then ''/'' @ vd_name e else normalized @ ''/'' @ vd_name e)
      in case mt_backend objs mnt (StatCall entryPath) mt of
           (Inr (RStat st), mt1) \<Rightarrow> stat_loop objs mnt normalized es (results @ [(e, st)]) mt1
         | r \<Rightarrow> r)"

definition mt_readDirStat :: "'s backends \<Rightarrow> path \<Rightarrow> 's MountTable \<Rightarrow> vfs_reply res \<times> 's MountTable" where
  "mt_readDirStat objs p mt =
     (case mt_resolve mt p of
        Inl e \<Rightarrow> (Inl e, mt)
      | Inr (mnt, rel) \<Rightarrow>
          if vo_has (objs (mnt_fs mnt)) OptReadDirStat then mt_backend objs mnt (ReadDirStat rel) mt
          else (case mt_backend objs mnt (ReadDirWithTypes rel) mt of
                  (Inr (REntries entries), mt1) \<Rightarrow> stat_loop objs mnt (normalizePath p) entries [] mt1
                | r \<Rightarrow> r))"

definition mt_prepareOpenSync :: "'s backends \<Rightarrow> path \<Rightarrow> u32 \<Rightarrow> 's MountTable \<Rightarrow> vfs_reply res \<times> 's MountTable" where
  "mt_prepareOpenSync objs p flags mt =
     (case mt_resolve mt p of
        Inl e \<Rightarrow> (Inl e, mt)
      | Inr (mnt, rel) \<Rightarrow>
          if flags \<noteq> 0 \<and> mnt_readOnly mnt \<and> (flags AND O_CREAT \<noteq> 0 \<or> flags AND O_TRUNC \<noteq> 0) then (Inl EROFS, mt)
          else if vo_has (objs (mnt_fs mnt)) OptPrepareOpenSync then mt_backend objs mnt (PrepareOpenSync rel flags) mt
          else (Inr (RBool False), mt))"

fun mt_call :: "'s backends \<Rightarrow> vfs_call \<Rightarrow> 's MountTable \<Rightarrow> vfs_reply res \<times> 's MountTable" where
  "mt_call objs (ReadFile p) mt = mt_read objs p ReadFile mt"
| "mt_call objs (ReadTextFile p) mt = mt_read objs p ReadTextFile mt"
| "mt_call objs (ReadDir p) mt = mt_readDir objs p mt"
| "mt_call objs (ReadDirWithTypes p) mt = mt_readDirWithTypes objs p mt"
| "mt_call objs (ExistsCall p) mt = mt_read objs p ExistsCall mt"
| "mt_call objs (StatCall p) mt = mt_read objs p StatCall mt"
| "mt_call objs (Lstat p) mt = mt_read objs p Lstat mt"
| "mt_call objs (Realpath p) mt = mt_realpath objs p mt"
| "mt_call objs (Readlink p) mt = mt_read objs p Readlink mt"
| "mt_call objs (Pread p off n) mt = mt_read objs p (\<lambda>r. Pread r off n) mt"
| "mt_call objs (Pwrite p off b) mt = mt_write objs p (\<lambda>r. Pwrite r off b) mt"
| "mt_call objs (WriteFile p b) mt = mt_write objs p (\<lambda>r. WriteFile r b) mt"
| "mt_call objs (CreateDir p) mt = mt_write objs p CreateDir mt"
| "mt_call objs (Mkdir p rec) mt = mt_write objs p (\<lambda>r. Mkdir r rec) mt"
| "mt_call objs (RemoveFile p) mt = mt_write objs p RemoveFile mt"
| "mt_call objs (RemoveDir p) mt = mt_write objs p RemoveDir mt"
| "mt_call objs (Symlink target l) mt = mt_write objs l (\<lambda>r. Symlink target r) mt"
| "mt_call objs (Link p q) mt = mt_write2 objs p q Link mt"
| "mt_call objs (Rename p q) mt = mt_write2 objs p q Rename mt"
| "mt_call objs (Chmod p m) mt = mt_write objs p (\<lambda>r. Chmod r m) mt"
| "mt_call objs (Chown p u g) mt = mt_write objs p (\<lambda>r. Chown r u g) mt"
| "mt_call objs (Utimes p a m) mt = mt_write objs p (\<lambda>r. Utimes r a m) mt"
| "mt_call objs (Truncate p n) mt = mt_write objs p (\<lambda>r. Truncate r n) mt"
| "mt_call objs (Fsync p) mt = mt_fsync objs p mt"
| "mt_call objs (Copy p q) mt = mt_copy objs p q mt"
| "mt_call objs (ReadDirStat p) mt = mt_readDirStat objs p mt"
| "mt_call objs (PrepareOpenSync p flags) mt = mt_prepareOpenSync objs p flags mt"

subsection \<open>Prefixes of paths and prefixes of segment lists\<close>

definition pathOfSegs :: "string list \<Rightarrow> path" where
  "pathOfSegs segs = ''/'' @ joinWith ''/'' segs"

lemma joinWith_append:
  "a \<noteq> [] \<Longrightarrow> c \<noteq> [] \<Longrightarrow> joinWith sep (a @ c) = joinWith sep a @ sep @ joinWith sep c"
proof (induction a rule: induct_list012)
  case (2 x)
  then show ?case by (cases c) auto
qed auto

lemma splitOn_join_append:
  "a \<noteq> [] \<Longrightarrow> list_all clean_seg a \<Longrightarrow>
   splitOn (CHR ''/'') (joinWith ''/'' a @ CHR ''/'' # rest) = a @ splitOn (CHR ''/'') rest"
proof (induction a rule: induct_list012)
  case (2 x)
  then show ?case by (simp add: splitOn_append clean_seg_def)
next
  case (3 x y zs)
  have "splitOn (CHR ''/'') (x @ CHR ''/'' # (joinWith ''/'' (y # zs) @ CHR ''/'' # rest)) =
      x # splitOn (CHR ''/'') (joinWith ''/'' (y # zs) @ CHR ''/'' # rest)"
    using 3 by (intro splitOn_append) (simp add: clean_seg_def)
  with 3 show ?case by simp
qed simp

lemma startsWith_segs:
  assumes a: "a \<noteq> []" "list_all clean_seg a" and b: "list_all clean_seg b"
  shows "pathOfSegs b = pathOfSegs a \<or> startsWith (pathOfSegs b) (pathOfSegs a @ ''/'') \<longleftrightarrow> prefix a b"
proof
  have inj: "a = b" if "pathOfSegs b = pathOfSegs a"
    using that clean_segs_join [OF a(2)] clean_segs_join [OF b] by (simp add: pathOfSegs_def)
  assume "pathOfSegs b = pathOfSegs a \<or> startsWith (pathOfSegs b) (pathOfSegs a @ ''/'')"
  then show "prefix a b"
  proof
    assume "startsWith (pathOfSegs b) (pathOfSegs a @ ''/'')"
    then obtain rest where "pathOfSegs b = pathOfSegs a @ ''/'' @ rest"
      unfolding startsWith_def by (metis append.assoc append_take_drop_id)
    then have eq: "joinWith ''/'' b = joinWith ''/'' a @ CHR ''/'' # rest" by (simp add: pathOfSegs_def)
    then have "b \<noteq> []" by auto
    then have "splitOn (CHR ''/'') (joinWith ''/'' b) = b"
      using b by (intro splitOn_joinWith) (auto simp: list_all_iff clean_seg_def)
    then have "b = a @ splitOn (CHR ''/'') rest" using splitOn_join_append [OF a, of rest] by (simp add: eq)
    then show ?thesis by (rule prefixI)
  qed (use inj in simp)
next
  assume "prefix a b"
  then obtain c where c: "b = a @ c" by (auto simp: prefix_def)
  show "pathOfSegs b = pathOfSegs a \<or> startsWith (pathOfSegs b) (pathOfSegs a @ ''/'')"
    using joinWith_append [OF a(1), of c "''/''"] by (cases "c = []") (auto simp: c pathOfSegs_def startsWith_def)
qed

subsection \<open>Invariant\<close>

definition mount_segs :: "InternalMount \<Rightarrow> string list" where
  "mount_segs m = clean_segs (mnt_path m)"

definition mt_inv :: "'s MountTable \<Rightarrow> bool" where
  "mt_inv mt \<longleftrightarrow>
     sorted (map (\<lambda>m. - int (length (mnt_path m))) (mt_mounts mt)) \<and>
     distinct (map mnt_path (mt_mounts mt)) \<and>
     ''/'' \<in> mnt_path ` set (mt_mounts mt) \<and>
     (\<forall>m \<in> set (mt_mounts mt). normalizePath (mnt_path m) = mnt_path m)"

lemma normalizePath_pathOfSegs: "normalizePath p = pathOfSegs (clean_segs p)"
  by (simp add: normalizePath_segs pathOfSegs_def)

lemma pathOfSegs_root: "list_all clean_seg a \<Longrightarrow> pathOfSegs a = ''/'' \<longleftrightarrow> a = []"
  using joinWith_eq_Nil [of a] by (simp add: pathOfSegs_def)

lemma covers_prefix:
  assumes "normalizePath (mnt_path m) = mnt_path m"
  shows "covers m (normalizePath p) \<longleftrightarrow> prefix (mount_segs m) (clean_segs p)"
proof (cases "mount_segs m = []")
  case True
  then have "mnt_path m = ''/''"
    using assms normalizePath_pathOfSegs [of "mnt_path m"] by (simp add: mount_segs_def pathOfSegs_def)
  with True show ?thesis by (simp add: covers_def)
next
  case False
  have m: "mnt_path m = pathOfSegs (mount_segs m)"
    using assms normalizePath_pathOfSegs [of "mnt_path m"] by (simp add: mount_segs_def)
  have "mnt_path m \<noteq> ''/''"
    unfolding m using False pathOfSegs_root [of "mount_segs m"] by (simp add: mount_segs_def clean_segs_clean)
  then have "covers m (normalizePath p) \<longleftrightarrow> pathOfSegs (clean_segs p) = pathOfSegs (mount_segs m) \<or>
      startsWith (pathOfSegs (clean_segs p)) (pathOfSegs (mount_segs m) @ ''/'')"
    unfolding covers_def normalizePath_pathOfSegs m [symmetric] by simp
  also have "\<dots> \<longleftrightarrow> prefix (mount_segs m) (clean_segs p)"
    by (rule startsWith_segs [OF False]) (simp_all add: mount_segs_def clean_segs_clean)
  finally show ?thesis .
qed

lemma relative_segs:
  assumes n: "normalizePath (mnt_path m) = mnt_path m" and c: "covers m (normalizePath p)"
  shows "clean_segs p = mount_segs m @ clean_segs (relativeTo m (normalizePath p))"
proof (cases "mount_segs m = []")
  case True
  then have "mnt_path m = ''/''"
    using n normalizePath_pathOfSegs [of "mnt_path m"] by (simp add: mount_segs_def pathOfSegs_def)
  with True show ?thesis by (simp add: relativeTo_def)
next
  case False
  have m: "mnt_path m = pathOfSegs (mount_segs m)"
    using n normalizePath_pathOfSegs [of "mnt_path m"] by (simp add: mount_segs_def)
  have cl: "list_all clean_seg (mount_segs m)" by (simp add: mount_segs_def clean_segs_clean)
  have root: "mnt_path m \<noteq> ''/''" unfolding m using False pathOfSegs_root [OF cl] by simp
  obtain r where r: "clean_segs p = mount_segs m @ r"
    using covers_prefix [OF n] c by (auto simp: prefix_def)
  have clr: "list_all clean_seg r" using clean_segs_clean [of p] by (simp add: r)
  show ?thesis
  proof (cases "r = []")
    case True
    then have "normalizePath p = mnt_path m" by (simp add: normalizePath_pathOfSegs r m)
    moreover have "clean_segs '''' = []" by (simp add: clean_segs_def)
    ultimately show ?thesis using root True by (simp add: relativeTo_def r)
  next
    case False
    have "normalizePath p = mnt_path m @ ''/'' @ joinWith ''/'' r"
      using joinWith_append [OF \<open>mount_segs m \<noteq> []\<close> False, of "''/''"]
      by (simp add: normalizePath_pathOfSegs r m pathOfSegs_def)
    moreover have "clean_segs (joinWith ''/'' r) = r"
      using splitOn_joinWith [OF False, of "CHR ''/''"] clr norm_loop_id [OF clr, of "[]"]
      by (auto simp: clean_segs_def list_all_iff clean_seg_def)
    ultimately show ?thesis using root by (simp add: relativeTo_def r)
  qed
qed

lemma resolve_loop_first:
  assumes "sorted (map (\<lambda>m. - int (length (mnt_path m))) ms)" "\<exists>m \<in> set ms. covers m n"
  shows "\<exists>m \<in> set ms. covers m n \<and> resolve_loop ms n = Inr (m, relativeTo m n) \<and>
    (\<forall>m' \<in> set ms. covers m' n \<longrightarrow> length (mnt_path m') \<le> length (mnt_path m))"
  using assms
proof (induction ms)
  case (Cons m ms)
  show ?case
  proof (cases "covers m n")
    case True
    with Cons.prems(1) show ?thesis by force
  next
    case False
    with Cons show ?thesis by auto
  qed
qed simp

lemma prefix_length_path:
  assumes "prefix a b" "list_all clean_seg b"
  shows "length (pathOfSegs a) \<le> length (pathOfSegs b)" "a \<noteq> b \<Longrightarrow> length (pathOfSegs a) < length (pathOfSegs b)"
proof -
  obtain c where c: "b = a @ c" using assms(1) by (auto simp: prefix_def)
  have clc: "list_all clean_seg c" using assms(2) by (simp add: c)
  have lt: "c \<noteq> [] \<Longrightarrow> length (pathOfSegs a) < length (pathOfSegs b)"
    using joinWith_append [of a c "''/''"] joinWith_eq_Nil [OF clc]
    by (cases "a = []") (auto simp: c pathOfSegs_def)
  then show "a \<noteq> b \<Longrightarrow> length (pathOfSegs a) < length (pathOfSegs b)" by (auto simp: c)
  show "length (pathOfSegs a) \<le> length (pathOfSegs b)" using lt by (cases "c = []") (auto simp: c)
qed


text \<open>Resolution under the invariant: total, longest prefix, and the relative path is the rest.\<close>

lemma mt_resolve_spec:
  assumes inv: "mt_inv mt"
  obtains m where "m \<in> set (mt_mounts mt)" "mt_resolve mt p = Inr (m, relativeTo m (normalizePath p))"
    "clean_segs p = mount_segs m @ clean_segs (relativeTo m (normalizePath p))"
    "\<And>m'. m' \<in> set (mt_mounts mt) \<Longrightarrow> prefix (mount_segs m') (clean_segs p) \<Longrightarrow>
       prefix (mount_segs m') (mount_segs m)"
proof -
  let ?n = "normalizePath p"
  obtain root where "root \<in> set (mt_mounts mt)" "mnt_path root = ''/''" using inv by (auto simp: mt_inv_def)
  then have "\<exists>m \<in> set (mt_mounts mt). covers m ?n" by (auto simp: covers_def)
  then obtain m where m: "m \<in> set (mt_mounts mt)" "covers m ?n"
      "resolve_loop (mt_mounts mt) ?n = Inr (m, relativeTo m ?n)"
    and mx: "\<And>m'. m' \<in> set (mt_mounts mt) \<Longrightarrow> covers m' ?n \<Longrightarrow> length (mnt_path m') \<le> length (mnt_path m)"
    using resolve_loop_first [of "mt_mounts mt" ?n] inv unfolding mt_inv_def by blast
  have nrm: "normalizePath (mnt_path x) = mnt_path x" if "x \<in> set (mt_mounts mt)" for x
    using inv that by (simp add: mt_inv_def)
  have pth: "pathOfSegs (mount_segs x) = mnt_path x" if "x \<in> set (mt_mounts mt)" for x
    using nrm [OF that] normalizePath_pathOfSegs [of "mnt_path x"] by (simp add: mount_segs_def)
  have pm: "prefix (mount_segs m) (clean_segs p)" using covers_prefix [OF nrm [OF m(1)]] m(2) by simp
  have "prefix (mount_segs m') (mount_segs m)"
    if m': "m' \<in> set (mt_mounts mt)" "prefix (mount_segs m') (clean_segs p)" for m'
  proof (rule ccontr)
    assume np: "\<not> prefix (mount_segs m') (mount_segs m)"
    then have "prefix (mount_segs m) (mount_segs m')" using prefix_same_cases [OF pm m'(2)] by blast
    moreover have "mount_segs m \<noteq> mount_segs m'" using np by auto
    ultimately have "length (mnt_path m) < length (mnt_path m')"
      using prefix_length_path(2) [of "mount_segs m" "mount_segs m'"] pth [OF m(1)] pth [OF m'(1)]
      by (simp add: mount_segs_def [of m'] clean_segs_clean)
    moreover have "covers m' ?n" using covers_prefix [OF nrm [OF m'(1)]] m'(2) by simp
    ultimately show False using mx [OF m'(1)] by simp
  qed
  with m relative_segs [OF nrm [OF m(1)] m(2)] show ?thesis
    by (intro that [of m]) (auto simp: mt_resolve_def)
qed

lemma mt_backend_mounts [simp]: "mt_mounts (snd (mt_backend objs m c mt)) = mt_mounts mt"
  by (simp add: mt_backend_def Let_def case_prod_beta)

lemma mt_mount_Inr:
  assumes run: "mt_mount objs p fs ro mt = Inr mt'"
  shows "mt_mounts mt' = sort_key (\<lambda>m. - int (length (mnt_path m))) (mt_mounts mt @
      [\<lparr>mnt_path = normalizePath p, mnt_fs = fs, mnt_readOnly = (case ro of None \<Rightarrow> False | Some b \<Rightarrow> b)\<rparr>])"
    "normalizePath p \<noteq> ''/''" "normalizePath p \<notin> mnt_path ` set (mt_mounts mt)"
  using run by (auto simp: mt_mount_def Let_def list_ex_iff split: if_splits sum.splits prod.splits)

lemma mt_mount_inv:
  assumes inv: "mt_inv mt" and run: "mt_mount objs p fs ro mt = Inr mt'"
  shows "mt_inv mt'"
proof -
  note m = mt_mount_Inr [OF run]
  let ?e = "\<lparr>mnt_path = normalizePath p, mnt_fs = fs, mnt_readOnly = (case ro of None \<Rightarrow> False | Some b \<Rightarrow> b)\<rparr>"
  have "distinct (map mnt_path (mt_mounts mt @ [?e]))" using inv m(3) by (simp add: mt_inv_def)
  then have "distinct (map mnt_path (mt_mounts mt'))" by (auto simp: m(1) distinct_map image_iff)
  moreover have "sorted (map (\<lambda>m. - int (length (mnt_path m))) (mt_mounts mt'))" by (simp add: m(1))
  moreover have "set (mt_mounts mt') = insert ?e (set (mt_mounts mt))" by (simp add: m(1))
  ultimately show ?thesis using inv by (simp add: mt_inv_def normalizePath_idem)
qed

lemma takeWhile_tl_dropWhile:
  "distinct (map f xs) \<Longrightarrow> takeWhile (\<lambda>x. f x \<noteq> k) xs @ tl (dropWhile (\<lambda>x. f x \<noteq> k) xs) = filter (\<lambda>x. f x \<noteq> k) xs"
proof (induction xs)
  case (Cons x xs)
  show ?case
  proof (cases "f x = k")
    case True
    with Cons.prems have "\<forall>y \<in> set xs. f y \<noteq> k" by (auto simp: image_iff)
    then have "filter (\<lambda>y. f y \<noteq> k) xs = xs" by (simp add: filter_id_conv)
    with True show ?thesis by simp
  qed (use Cons in simp)
qed simp

lemma mt_unmount_filter:
  "mt_inv mt \<Longrightarrow> mt_unmount p mt =
     (if normalizePath p = ''/'' \<or> normalizePath p \<notin> mnt_path ` set (mt_mounts mt) then Inl EINVAL
      else Inr (mt\<lparr>mt_mounts := filter (\<lambda>m. mnt_path m \<noteq> normalizePath p) (mt_mounts mt)\<rparr>))"
  by (force simp: mt_unmount_def Let_def list_ex_iff mt_inv_def takeWhile_tl_dropWhile)

lemma mt_unmount_inv:
  assumes inv: "mt_inv mt" and run: "mt_unmount p mt = Inr mt'"
  shows "mt_inv mt'"
proof -
  have m': "mt_mounts mt' = filter (\<lambda>m. mnt_path m \<noteq> normalizePath p) (mt_mounts mt)" "normalizePath p \<noteq> ''/''"
    using run mt_unmount_filter [OF inv, of p] by (auto split: if_splits)
  then show ?thesis using inv
    by (auto simp: mt_inv_def sorted_filter distinct_map_filter)
qed


lemma mt_stat_loop_mounts: "mt_mounts (snd (stat_loop objs m n es rs mt)) = mt_mounts mt"
proof (induction es arbitrary: rs mt)
  case (Cons e es)
  let ?c = "StatCall (if n = ''/'' then ''/'' @ vd_name e else n @ ''/'' @ vd_name e)"
  obtain r mt1 where b: "mt_backend objs m ?c mt = (r, mt1)" by force
  have "mt_mounts mt1 = mt_mounts mt" using mt_backend_mounts [of objs m ?c mt] by (simp add: b)
  with Cons show ?case by (auto simp: b Let_def split: sum.splits vfs_reply.splits)
qed simp

lemma mt_backend_mounts_eq: "mt_backend objs m c mt = (r, mt1) \<Longrightarrow> mt_mounts mt1 = mt_mounts mt"
  using mt_backend_mounts [of objs m c mt] by simp

lemma mt_read_mounts: "mt_mounts (snd (mt_read objs p mk mt)) = mt_mounts mt"
  "mt_read objs p mk mt = (r, mt1) \<Longrightarrow> mt_mounts mt1 = mt_mounts mt"
  by (auto simp: mt_read_def split: sum.splits dest: mt_backend_mounts_eq)

lemma mt_call_mounts: "mt_mounts (snd (mt_call objs c mt)) = mt_mounts mt"
proof (cases c)
  case (ReadDir p)
  then show ?thesis
    by (auto simp: mt_readDir_def Let_def dest: mt_read_mounts(2) split: prod.splits sum.splits vfs_reply.splits)
next
  case (ReadDirWithTypes p)
  then show ?thesis
    by (auto simp: mt_readDirWithTypes_def Let_def dest: mt_read_mounts(2) split: prod.splits sum.splits vfs_reply.splits)
next
  case (Realpath p)
  then show ?thesis
    by (auto simp: mt_realpath_def dest: mt_backend_mounts_eq split: prod.splits sum.splits vfs_reply.splits)
next
  case (Copy p q)
  then show ?thesis
    by (auto simp: mt_copy_def dest!: mt_backend_mounts_eq split: prod.splits sum.splits vfs_reply.splits)
next
  case (ReadDirStat p)
  then show ?thesis
    by (auto simp: mt_readDirStat_def mt_stat_loop_mounts dest!: mt_backend_mounts_eq
        split: prod.splits sum.splits vfs_reply.splits)
qed (auto simp: mt_read_mounts mt_write_def mt_write2_def mt_fsync_def mt_prepareOpenSync_def split: sum.splits)

datatype mount_call = McMount path nat "bool option" | McUnmount path | McFs vfs_call

fun mount_step :: "'s backends \<Rightarrow> mount_call \<Rightarrow> 's MountTable \<Rightarrow> 's MountTable" where
  "mount_step objs (McMount p fs ro) mt = (case mt_mount objs p fs ro mt of Inl _ \<Rightarrow> mt | Inr mt' \<Rightarrow> mt')"
| "mount_step objs (McUnmount p) mt = (case mt_unmount p mt of Inl _ \<Rightarrow> mt | Inr mt' \<Rightarrow> mt')"
| "mount_step objs (McFs c) mt = snd (mt_call objs c mt)"

lemma mount_step_inv: "mt_inv mt \<Longrightarrow> mt_inv (mount_step objs x mt)"
proof (cases x)
  case (McFs c)
  assume "mt_inv mt"
  with McFs show ?thesis by (simp add: mt_inv_def mt_call_mounts)
qed (auto intro: mt_mount_inv mt_unmount_inv split: sum.splits)

interpretation mount_machine: invariant_component "mount_step objs" "\<lambda>_ _. True" mt_inv for objs
  by unfold_locales (rule mount_step_inv)

lemma mt_inv_new: "mt_inv (mt_new fs states)"
  by (simp add: mt_inv_def mt_new_def normalizePath_def)

lemmas mount_run_inv = mount_machine.run_inv [OF mt_inv_new guarded_True]

subsection \<open>Properties\<close>

text \<open>
  C29. In every state the mount table can reach, every path resolves, to the mount whose segments
  are the longest prefix of the path's segments; mount point and relative path together are the
  normalised path.
\<close>

theorem mount_longest_prefix:
  "\<exists>m rel. mt_resolve (run_ops (mount_step objs) calls (mt_new fs states)) p = Inr (m, rel) \<and>
     m \<in> set (mt_mounts (run_ops (mount_step objs) calls (mt_new fs states))) \<and>
     clean_segs p = mount_segs m @ clean_segs rel \<and>
     (\<forall>m' \<in> set (mt_mounts (run_ops (mount_step objs) calls (mt_new fs states))).
        prefix (mount_segs m') (clean_segs p) \<longrightarrow> prefix (mount_segs m') (mount_segs m))"
  by (rule mt_resolve_spec [OF mount_run_inv]) blast

theorem mount_longest_prefix_witness:
  "\<exists>m rel. mt_resolve (run_ops (mount_step (\<lambda>_. counting_fs)) [McMount ''/mnt'' 1 None, McMount ''/mnt/a'' 2 None]
        (mt_new 0 (\<lambda>_. 0))) ''/mnt/a/../a//b'' = Inr (m, rel) \<and> clean_segs ''/mnt/a/../a//b'' = mount_segs m @ clean_segs rel"
  using mount_longest_prefix [of "\<lambda>_. counting_fs" "[McMount ''/mnt'' 1 None, McMount ''/mnt/a'' 2 None]" 0 "\<lambda>_. 0"
      "''/mnt/a/../a//b''"]
  by blast

text \<open>The calls that may change a file system, with the path that decides where they go.\<close>

fun write_path :: "vfs_call \<Rightarrow> path option" where
  "write_path (Pwrite p _ _) = Some p"
| "write_path (WriteFile p _) = Some p"
| "write_path (CreateDir p) = Some p"
| "write_path (Mkdir p _) = Some p"
| "write_path (RemoveFile p) = Some p"
| "write_path (RemoveDir p) = Some p"
| "write_path (Symlink _ l) = Some l"
| "write_path (Link p _) = Some p"
| "write_path (Rename p _) = Some p"
| "write_path (Chmod p _) = Some p"
| "write_path (Chown p _ _) = Some p"
| "write_path (Utimes p _ _) = Some p"
| "write_path (Truncate p _) = Some p"
| "write_path (Copy p _) = Some p"
| "write_path (PrepareOpenSync p flags) =
     (if flags AND O_CREAT \<noteq> 0 \<or> flags AND O_TRUNC \<noteq> 0 then Some p else None)"
| "write_path _ = None"

text \<open>
  C30. A read-only mount is protected: every call that could change a file system (creating or
  truncating opens included) fails when its path resolves to a read-only mount, with EROFS (or EXDEV
  for a two-path call that leaves the mount), and no backend's state changes.
\<close>

theorem mount_read_only:
  assumes "write_path c = Some p" and "mt_resolve mt p = Inr (m, rel)" and "mnt_readOnly m"
    and "\<And>q. \<exists>x. mt_resolve mt q = Inr x"
  shows "snd (mt_call objs c mt) = mt \<and> fst (mt_call objs c mt) \<in> {Inl EROFS, Inl EXDEV}"
proof -
  have w2: "mt_write2 objs p q mk mt = (Inl EROFS, mt) \<or> mt_write2 objs p q mk mt = (Inl EXDEV, mt)" for q mk
  proof -
    obtain a b where "mt_resolve mt q = Inr (a, b)" using assms(4) [of q] by auto
    then show ?thesis using assms(2,3) by (cases "m = a") (simp_all add: mt_write2_def assertWritable_def)
  qed
  have cp: "mt_copy objs p q mt = (Inl EROFS, mt) \<or> mt_copy objs p q mt = (Inl EXDEV, mt)" for q
  proof -
    obtain a b where "mt_resolve mt q = Inr (a, b)" using assms(4) [of q] by auto
    then show ?thesis using assms(2,3) by (cases "m = a") (simp_all add: mt_copy_def assertWritable_def)
  qed
  have w: "mt_write objs p mk mt = (Inl EROFS, mt)" for mk
    using assms(2,3) by (simp add: mt_write_def assertWritable_def)
  show ?thesis
  proof (cases c)
    case (PrepareOpenSync q flags)
    then have "q = p" "flags AND O_CREAT \<noteq> 0 \<or> flags AND O_TRUNC \<noteq> 0" using assms(1) by (auto split: if_splits)
    moreover from this have "flags \<noteq> 0" by auto
    ultimately show ?thesis using PrepareOpenSync assms(2,3) by (auto simp: mt_prepareOpenSync_def)
  next
    case (Link a b)
    with assms(1) w2 [of b Link] show ?thesis by auto
  next
    case (Rename a b)
    with assms(1) w2 [of b Rename] show ?thesis by auto
  next
    case (Copy a b)
    with assms(1) cp [of b] show ?thesis by auto
  qed (use assms(1) w in auto)
qed

definition ro_table :: "nat MountTable" where
  "ro_table = run_ops (mount_step (\<lambda>_. counting_fs)) [McMount ''/ro'' 1 (Some True)] (mt_new 0 (\<lambda>_. 0))"

theorem mount_read_only_witness:
  "snd (mt_call (\<lambda>_. counting_fs) (WriteFile ''/ro/x'' [1]) ro_table) = ro_table"
proof -
  have ok: "\<exists>x. mt_resolve ro_table q = Inr x" for q
    unfolding ro_table_def by (rule mt_resolve_spec [OF mount_run_inv]) blast
  have n: "normalizePath ''/ro'' = ''/ro''" "normalizePath ''/ro/x'' = ''/ro/x''" by code_simp+
  have "mt_resolve ro_table ''/ro/x'' = Inr (\<lparr>mnt_path = ''/ro'', mnt_fs = 1, mnt_readOnly = True\<rparr>, ''x'')"
    by (simp add: ro_table_def mt_new_def mt_mount_def mt_resolve_def Let_def n covers_def relativeTo_def
        startsWith_def)
  from mount_read_only [OF _ this _ ok, of "WriteFile ''/ro/x'' [1]" "\<lambda>_. counting_fs"] show ?thesis by simp
qed

text \<open>
  Unmounting undoes mounting: a mount that succeeds can be unmounted again, which restores the
  list of mounts; mounting at the root or twice at one path, and unmounting the root or what is not
  mounted, are refused.
\<close>

theorem mount_unmount_roundtrip:
  assumes inv: "mt_inv mt" and run: "mt_mount objs p fs ro mt = Inr mt'"
  shows "\<exists>mt''. mt_unmount p mt' = Inr mt'' \<and> mt_mounts mt'' = mt_mounts mt \<and>
    mt_mount objs p fs' ro' mt' = Inl EEXIST \<and> mt_unmount p mt'' = Inl EINVAL \<and>
    mt_unmount ''/'' mt' = Inl EINVAL \<and> mt_mount objs ''/'' fs' ro' mt' = Inl EINVAL"
proof -
  let ?k = "\<lambda>m. - int (length (mnt_path m))"
  let ?e = "\<lparr>mnt_path = normalizePath p, mnt_fs = fs, mnt_readOnly = (case ro of None \<Rightarrow> False | Some b \<Rightarrow> b)\<rparr>"
  note m = mt_mount_Inr [OF run]
  have inv': "mt_inv mt'" by (rule mt_mount_inv [OF inv run])
  have srt: "sort_key ?k (mt_mounts mt) = mt_mounts mt" using inv by (simp add: mt_inv_def sort_key_id_if_sorted)
  have "filter (\<lambda>x. mnt_path x \<noteq> normalizePath p) (mt_mounts mt @ [?e]) = mt_mounts mt"
    using m(3) by (auto simp: filter_id_conv image_iff)
  then have restored: "filter (\<lambda>x. mnt_path x \<noteq> normalizePath p) (mt_mounts mt') = mt_mounts mt"
    by (simp add: m(1) filter_sort srt)
  have mem: "normalizePath p \<in> mnt_path ` set (mt_mounts mt')" by (simp add: m(1))
  let ?mt = "mt'\<lparr>mt_mounts := filter (\<lambda>m. mnt_path m \<noteq> normalizePath p) (mt_mounts mt')\<rparr>"
  have un: "mt_unmount p mt' = Inr ?mt" using mt_unmount_filter [OF inv', of p] m(2) mem by simp
  have "mt_inv ?mt" by (rule mt_unmount_inv [OF inv' un])
  then have "mt_unmount p ?mt = Inl EINVAL" using mt_unmount_filter [of ?mt p] by auto
  moreover have "mt_mount objs p fs' ro' mt' = Inl EEXIST" using m(2) mem
    by (auto simp: mt_mount_def Let_def list_ex_iff)
  moreover have "mt_unmount ''/'' mt' = Inl EINVAL" "mt_mount objs ''/'' fs' ro' mt' = Inl EINVAL"
    by (simp_all add: mt_unmount_def mt_mount_def normalizePath_def)
  moreover have "mt_mounts ?mt = mt_mounts mt" using restored by simp
  ultimately show ?thesis using un by blast
qed

theorem mount_unmount_roundtrip_witness:
  "\<exists>mt' mt''. mt_mount (\<lambda>_. counting_fs) ''/a/b'' 1 None (mt_new 0 (\<lambda>_. 0)) = Inr mt' \<and>
     mt_unmount ''/a/b'' mt' = Inr mt'' \<and> length (mt_mounts mt'') = 1"
proof -
  have n: "normalizePath ''/a/b'' = ''/a/b''" by code_simp
  obtain mt' where run: "mt_mount (\<lambda>_. counting_fs) ''/a/b'' 1 None (mt_new 0 (\<lambda>_. 0)) = Inr mt'"
    by (simp add: mt_mount_def mt_new_def mt_resolve_def Let_def n covers_def)
  from mount_unmount_roundtrip [OF mt_inv_new run, of 0 None] obtain mt''
    where "mt_unmount ''/a/b'' mt' = Inr mt''" "mt_mounts mt'' = mt_mounts (mt_new 0 (\<lambda>_. 0 :: nat))" by blast
  then show ?thesis using run by (auto simp: mt_new_def)
qed

end
