(* ===== verification/Command_Registry.thy ===== *)
theory Command_Registry
  imports Vfs_Interface
begin

section \<open>Commands and users\<close>

text \<open>
  \<^verbatim>\<open>kernel/command-registry.ts\<close> and \<^verbatim>\<open>kernel/user.ts\<close>. A runtime driver is known to the registry by
  its name and the commands it provides. \<open>populateBin\<close> works on any file system: the stub files it
  creates are calls on the file system object it is given.
\<close>

record RuntimeDriver =
  rd_name :: string
  rd_commands :: "string list"

record CommandRegistry =
  cr_commands :: "(string, RuntimeDriver) jsmap"
  cr_warnings :: "(string \<times> string \<times> string) list"

definition cr_new :: CommandRegistry where
  "cr_new = \<lparr>cr_commands = [], cr_warnings = []\<rparr>"

text \<open>A warning is recorded as the command, the overridden driver's name and the new driver's name.\<close>

definition registerCommand :: "string \<Rightarrow> RuntimeDriver \<Rightarrow> CommandRegistry \<Rightarrow> CommandRegistry" where
  "registerCommand command driver r =
     (let warnings = (case mget (cr_commands r) command of
            None \<Rightarrow> cr_warnings r
          | Some existing \<Rightarrow> cr_warnings r @ [(command, rd_name existing, rd_name driver)])
      in r\<lparr>cr_warnings := warnings, cr_commands := mput command driver (cr_commands r)\<rparr>)"

definition cr_register :: "RuntimeDriver \<Rightarrow> CommandRegistry \<Rightarrow> CommandRegistry" where
  "cr_register driver r = fold (\<lambda>cmd. registerCommand cmd driver) (rd_commands driver) r"

definition cr_resolve :: "string \<Rightarrow> CommandRegistry \<Rightarrow> RuntimeDriver option" where
  "cr_resolve command r =
     (case mget (cr_commands r) command of
        Some d \<Rightarrow> Some d
      | None \<Rightarrow>
          if CHR ''/'' \<in> set command
          then let base = last (splitOn (CHR ''/'') command)
               in if base \<noteq> '''' then mget (cr_commands r) base else None
          else None)"

definition cr_list :: "CommandRegistry \<Rightarrow> (string, string) jsmap" where
  "cr_list r = map (\<lambda>(cmd, d). (cmd, rd_name d)) (cr_commands r)"

definition stubText :: string where
  "stubText = ''#!/bin/sh'' @ [CHR 0x0A] @ ''# kernel command stub'' @ [CHR 0x0A]"

definition stub :: bytes where
  "stub = map (\<lambda>c. of_nat (of_char c)) stubText"

text \<open>
  The calls of \<^verbatim>\<open>populateBinEntry\<close> and of one turn of the loop of \<^verbatim>\<open>populateBin\<close>; a file system that
  answers \<^verbatim>\<open>exists\<close> with anything but \<^verbatim>\<open>true\<close> or throws is handled as the source does (a throw of
  \<^verbatim>\<open>chmod\<close> is swallowed, the others propagate).
\<close>

definition ensureBin :: "'s VirtualFileSystem \<Rightarrow> 's \<Rightarrow> unit res \<times> 's" where
  "ensureBin fs s =
     (case vo_call fs (ExistsCall ''/bin'') s of
        (Inl e, s1) \<Rightarrow> (Inl e, s1)
      | (Inr (RBool True), s1) \<Rightarrow> (Inr (), s1)
      | (Inr _, s1) \<Rightarrow>
          (case vo_call fs (Mkdir ''/bin'' True) s1 of
             (Inl e, s2) \<Rightarrow> (Inl e, s2) | (Inr _, s2) \<Rightarrow> (Inr (), s2)))"

definition createStub :: "'s VirtualFileSystem \<Rightarrow> string \<Rightarrow> 's \<Rightarrow> unit res \<times> 's" where
  "createStub fs command s =
     (let p = ''/bin/'' @ command
      in case vo_call fs (ExistsCall p) s of
           (Inl e, s1) \<Rightarrow> (Inl e, s1)
         | (Inr (RBool True), s1) \<Rightarrow> (Inr (), s1)
         | (Inr _, s1) \<Rightarrow>
             (case vo_call fs (WriteFile p stub) s1 of
                (Inl e, s2) \<Rightarrow> (Inl e, s2)
              | (Inr _, s2) \<Rightarrow> (Inr (), snd (vo_call fs (Chmod p 0x1ED) s2))))"

definition populateBinEntry :: "'s VirtualFileSystem \<Rightarrow> string \<Rightarrow> 's \<Rightarrow> unit res \<times> 's" where
  "populateBinEntry fs command s =
     (case ensureBin fs s of (Inl e, s1) \<Rightarrow> (Inl e, s1) | (Inr _, s1) \<Rightarrow> createStub fs command s1)"

fun populate_loop :: "'s VirtualFileSystem \<Rightarrow> string list \<Rightarrow> 's \<Rightarrow> unit res \<times> 's" where
  "populate_loop fs [] s = (Inr (), s)"
| "populate_loop fs (cmd # cmds) s =
     (case createStub fs cmd s of (Inl e, s1) \<Rightarrow> (Inl e, s1) | (Inr _, s1) \<Rightarrow> populate_loop fs cmds s1)"

definition populateBin :: "'s VirtualFileSystem \<Rightarrow> CommandRegistry \<Rightarrow> 's \<Rightarrow> unit res \<times> 's" where
  "populateBin fs r s =
     (case ensureBin fs s of
        (Inl e, s1) \<Rightarrow> (Inl e, s1) | (Inr _, s1) \<Rightarrow> populate_loop fs (mkeys (cr_commands r)) s1)"

subsection \<open>Users\<close>

record UserConfig =
  uc_uid :: "nat option"
  uc_gid :: "nat option"
  uc_euid :: "nat option"
  uc_egid :: "nat option"
  uc_username :: "string option"
  uc_homedir :: "string option"
  uc_shell :: "string option"
  uc_gecos :: "string option"

record UserManager =
  um_uid :: nat
  um_gid :: nat
  um_euid :: nat
  um_egid :: nat
  um_username :: string
  um_homedir :: string
  um_shell :: string
  um_gecos :: string

definition orElse :: "'a option \<Rightarrow> 'a \<Rightarrow> 'a" where
  "orElse x d = (case x of None \<Rightarrow> d | Some y \<Rightarrow> y)"

definition um_new :: "UserConfig \<Rightarrow> UserManager" where
  "um_new config =
     (let uid = orElse (uc_uid config) 1000; gid = orElse (uc_gid config) 1000
      in \<lparr>um_uid = uid, um_gid = gid, um_euid = orElse (uc_euid config) uid,
          um_egid = orElse (uc_egid config) gid, um_username = orElse (uc_username config) ''user'',
          um_homedir = orElse (uc_homedir config) ''/home/user'', um_shell = orElse (uc_shell config) ''/bin/sh'',
          um_gecos = orElse (uc_gecos config) ''''\<rparr>)"

definition getpwuid :: "UserManager \<Rightarrow> nat \<Rightarrow> string" where
  "getpwuid u uid =
     (if uid = um_uid u
      then um_username u @ '':x:'' @ dec (um_uid u) @ '':'' @ dec (um_gid u) @ '':'' @ um_gecos u @ '':'' @
           um_homedir u @ '':'' @ um_shell u
      else let name = ''user'' @ dec uid
           in name @ '':x:'' @ dec uid @ '':'' @ dec uid @ ''::/home/'' @ name @ '':/bin/sh'')"

subsection \<open>Properties\<close>

lemma registerCommand_get:
  "mget (cr_commands (registerCommand c d r)) k = (if k = c then Some d else mget (cr_commands r) k)"
  by (simp add: registerCommand_def)

lemma cr_register_get:
  "mget (cr_commands (cr_register d r)) k = (if k \<in> set (rd_commands d) then Some d else mget (cr_commands r) k)"
proof -
  have "mget (cr_commands (fold (\<lambda>cmd. registerCommand cmd d) cs r)) k =
      (if k \<in> set cs then Some d else mget (cr_commands r) k)" for cs
    by (induction cs arbitrary: r) (auto simp: registerCommand_get)
  then show ?thesis by (simp add: cr_register_def)
qed

lemma splitOn_last_basename: "CHR ''/'' \<notin> set b \<Longrightarrow> last (splitOn (CHR ''/'') (p @ CHR ''/'' # b)) = b"
proof (induction p)
  case Nil
  then show ?case by (simp add: splitOn_id)
next
  case (Cons x p)
  obtain h t where "splitOn (CHR ''/'') (p @ CHR ''/'' # b) = h # t" by (metis splitOn_ne neq_Nil_conv)
  moreover have "t \<noteq> []" if "splitOn c (q @ c # s) = h # t" for c q s
    using that by (induction q arbitrary: h) (auto split: list.splits if_splits)
  ultimately show ?case using Cons by auto
qed

text \<open>
  The last driver that registered a command is the one it resolves to, by its name and by any
  path that ends in it, unless that path itself is registered; commands of other drivers that it does
  not provide still resolve as before.
\<close>

theorem registry_last_wins:
  assumes "c \<in> set (rd_commands d)" "CHR ''/'' \<notin> set c" "c \<noteq> ''''"
    and "mget (cr_commands (cr_register d r)) (dir @ ''/'' @ c) = None" "k \<notin> set (rd_commands d)"
  shows "cr_resolve c (cr_register d r) = Some d \<and> cr_resolve (dir @ ''/'' @ c) (cr_register d r) = Some d \<and>
    mget (cr_commands (cr_register d r)) k = mget (cr_commands r) k"
  using assms by (simp add: cr_resolve_def cr_register_get splitOn_last_basename)

theorem registry_last_wins_witness:
  "cr_resolve ''/usr/bin/ls'' (cr_register \<lparr>rd_name = ''wasm'', rd_commands = [''ls'', ''cat'']\<rparr>
     (cr_register \<lparr>rd_name = ''node'', rd_commands = [''ls'']\<rparr> cr_new)) =
   Some \<lparr>rd_name = ''wasm'', rd_commands = [''ls'', ''cat'']\<rparr>"
  using registry_last_wins [of "''ls''" "\<lparr>rd_name = ''wasm'', rd_commands = [''ls'', ''cat'']\<rparr>"
      "cr_register \<lparr>rd_name = ''node'', rd_commands = [''ls'']\<rparr> cr_new" "''/usr/bin''" "''x''"]
  by (simp add: cr_register_get cr_new_def)

end
