(* ===== verification/Kernel_Effect.thy ===== *)
theory Kernel_Effect
  imports Kernel_Prelude
begin

section \<open>Effects: synchronous code that throws, calls back and may not return\<close>

text \<open>
  The process table calls code it does not own (signal handlers, driver processes, exit hooks) in the
  middle of its operations, and that code may call the table again, throw, or not return. An action
  takes the state to an optional pair of a result and a new state: \<^const>\<open>None\<close> is not returning,
  \<^const>\<open>Inl\<close> a thrown exception. \<open>andThen\<close> is sequencing (an exception skips the rest),
  \<open>finallyA\<close> is \<^verbatim>\<open>try/finally\<close>, \<open>swallowA\<close> is \<^verbatim>\<open>try {...} catch {}\<close>.
\<close>

datatype exn = KErr KernelErrorCode | JsErr string

type_synonym ('s, 'a) act = "'s \<Rightarrow> ((exn + 'a) \<times> 's) option"

definition ret :: "'a \<Rightarrow> ('s, 'a) act" where
  "ret x s = Some (Inr x, s)"

definition throwA :: "exn \<Rightarrow> ('s, 'a) act" where
  "throwA e s = Some (Inl e, s)"

definition divergeA :: "('s, 'a) act" where
  "divergeA s = None"

definition modifyA :: "('s \<Rightarrow> 's) \<Rightarrow> ('s, unit) act" where
  "modifyA f s = Some (Inr (), f s)"

definition andThen :: "('s, 'a) act \<Rightarrow> ('a \<Rightarrow> ('s, 'b) act) \<Rightarrow> ('s, 'b) act" where
  "andThen m k s = (case m s of None \<Rightarrow> None
     | Some (r, s1) \<Rightarrow> (case r of Inl e \<Rightarrow> Some (Inl e, s1) | Inr x \<Rightarrow> k x s1))"

definition seqA :: "('s, 'a) act \<Rightarrow> ('s, 'b) act \<Rightarrow> ('s, 'b) act" where
  "seqA m n = andThen m (\<lambda>_. n)"

definition finallyA :: "('s, 'a) act \<Rightarrow> ('s \<Rightarrow> 's) \<Rightarrow> ('s, 'a) act" where
  "finallyA m f s = (case m s of None \<Rightarrow> None | Some (r, s1) \<Rightarrow> Some (r, f s1))"

definition swallowA :: "('s, unit) act \<Rightarrow> ('s, unit) act" where
  "swallowA m s = (case m s of None \<Rightarrow> None | Some (r, s1) \<Rightarrow> Some (Inr (), s1))"

lemmas act_defs [kernel_simps] =
  ret_def throwA_def divergeA_def modifyA_def andThen_def seqA_def finallyA_def swallowA_def

lemma act_simps [simp]:
  "ret x s = Some (Inr x, s)" "throwA e s = Some (Inl e, s)" "divergeA s = None"
  "modifyA f s = Some (Inr (), f s)"
  by (simp_all add: act_defs)

lemma andThen_Some:
  "andThen m k s = Some (r, s') \<longleftrightarrow>
     (\<exists>e. m s = Some (Inl e, s') \<and> r = Inl e) \<or> (\<exists>x s1. m s = Some (Inr x, s1) \<and> k x s1 = Some (r, s'))"
  by (auto simp: andThen_def split: option.splits sum.splits)

lemma andThen_simps [simp]:
  "andThen (ret x) k s = k x s" "andThen (modifyA f) k1 s = k1 () (f s)"
  "andThen (throwA e) k2 s = Some (Inl e, s)" "andThen divergeA k3 s = None"
  by (simp_all add: andThen_def)

lemma seqA_simps [simp]:
  "seqA (ret x) n s = n s" "seqA (modifyA f) n s = n (f s)"
  "seqA (throwA e) n s = Some (Inl e, s)" "seqA divergeA n s = None"
  by (simp_all add: seqA_def)

subsection \<open>Actions that keep a predicate\<close>

text \<open>
  An action keeps \<open>I\<close> if every state it stops in satisfies \<open>I\<close> when it starts in one that does,
  whether it returns or throws.
\<close>

definition keeps :: "('s \<Rightarrow> bool) \<Rightarrow> ('s, 'a) act \<Rightarrow> bool" where
  "keeps I m \<longleftrightarrow> (\<forall>s r s'. I s \<longrightarrow> m s = Some (r, s') \<longrightarrow> I s')"

lemma keepsI: "(\<And>s r s'. I s \<Longrightarrow> m s = Some (r, s') \<Longrightarrow> I s') \<Longrightarrow> keeps I m"
  by (auto simp: keeps_def)

lemma keepsD: "keeps I m \<Longrightarrow> I s \<Longrightarrow> m s = Some (r, s') \<Longrightarrow> I s'"
  by (auto simp: keeps_def)

lemma keeps_basic [intro!, simp]:
  "keeps I (ret x)" "keeps I (throwA e)" "keeps I divergeA"
  by (auto simp: keeps_def)

lemma keeps_modify: "(\<And>s. I s \<Longrightarrow> I (f s)) \<Longrightarrow> keeps I (modifyA f)"
  by (auto simp: keeps_def)

lemma keeps_andThen: "keeps I m \<Longrightarrow> (\<And>x. keeps I (k x)) \<Longrightarrow> keeps I (andThen m k)"
  unfolding keeps_def andThen_Some by blast

lemma keeps_seq: "keeps I m \<Longrightarrow> keeps I n \<Longrightarrow> keeps I (seqA m n)"
  unfolding seqA_def by (rule keeps_andThen)

lemma keeps_finally: "keeps I m \<Longrightarrow> (\<And>s. I s \<Longrightarrow> I (f s)) \<Longrightarrow> keeps I (finallyA m f)"
  by (auto simp: keeps_def finallyA_def split: option.splits) 

lemma keeps_swallow: "keeps I m \<Longrightarrow> keeps I (swallowA m)"
  by (auto simp: keeps_def swallowA_def split: option.splits)

lemma keeps_if: "(b \<Longrightarrow> keeps I m) \<Longrightarrow> (\<not> b \<Longrightarrow> keeps I n) \<Longrightarrow> keeps I (if b then m else n)"
  by simp

lemmas keeps_rules = keeps_andThen keeps_seq keeps_finally keeps_swallow keeps_if

subsection \<open>Actions that return\<close>

definition returns :: "('s, 'a) act \<Rightarrow> 's \<Rightarrow> bool" where
  "returns m s \<longleftrightarrow> m s \<noteq> None"

lemma returns_simps [simp]:
  "returns (ret x) s" "returns (throwA e) s" "returns (modifyA f) s" "\<not> returns divergeA s"
  by (auto simp: returns_def)

lemma returns_seq:
  "returns m s \<Longrightarrow> (\<And>x s1. m s = Some (Inr x, s1) \<Longrightarrow> returns n s1) \<Longrightarrow> returns (seqA m n) s"
  by (auto simp: returns_def seqA_def andThen_def split: option.splits sum.splits)

end
