(* ===== verification/Process_Table.thy ===== *)
theory Process_Table
  imports Kernel_Effect Wstatus Wait_Queue
begin

unbundle bit_operations_syntax

section \<open>Process table\<close>

text \<open>
  \<^verbatim>\<open>kernel/process-table.ts\<close>, with the signal types of \<^verbatim>\<open>kernel/types.ts\<close>: process registration, exit and
  \<^verbatim>\<open>waitpid\<close>, signal delivery (handlers, blocking, pending signals, default actions), alarms, process
  groups and sessions, handle budgets and the zombie timers.

  The table holds objects the code aliases through references (\<^verbatim>\<open>entry\<close>, \<^verbatim>\<open>signalState\<close>); since an
  entry leaves the map only in \<open>reap\<close>, a timer callback that never runs inside another operation, a
  reference is the process id. Sets of signals are lists without duplicates in insertion order.

  Signal handlers, \<^verbatim>\<open>driverProcess.kill\<close>, \<^verbatim>\<open>onProcessExit\<close> and \<^verbatim>\<open>onProcessReap\<close> are code of others: the
  record \<open>ProcEnv\<close> passes them as actions on the table, which may call the table again, throw or not
  return. Every operation is defined on all extensions of the record \<open>ProcessTable\<close>, so that the hooks
  can act on the state of the kernel, which extends it. The field \<open>env_fuel\<close> bounds the nesting of signal dispatch (a handler that leaves a signal
  pending makes the code dispatch it recursively) and the steps of a loop over the live map; running
  out is not returning. \<open>dispatch_returns\<close> below gives a fuel that is enough. \<open>pt_log\<close> records what
  the table does to the outside: signals sent to drivers, handlers invoked, waiters resolved.
\<close>

subsection \<open>Signals\<close>

definition SIGHUP :: int where "SIGHUP = 1"
definition SIGINT :: int where "SIGINT = 2"
definition SIGQUIT :: int where "SIGQUIT = 3"
definition SIGKILL :: int where "SIGKILL = 9"
definition SIGALRM :: int where "SIGALRM = 14"
definition SIGTERM :: int where "SIGTERM = 15"
definition SIGCHLD :: int where "SIGCHLD = 17"
definition SIGCONT :: int where "SIGCONT = 18"
definition SIGSTOP :: int where "SIGSTOP = 19"
definition SIGTSTP :: int where "SIGTSTP = 20"
definition SIGWINCH :: int where "SIGWINCH = 28"
definition SA_RESETHAND :: u32 where "SA_RESETHAND = 0x80000000"
definition SIG_BLOCK :: int where "SIG_BLOCK = 0"
definition SIG_UNBLOCK :: int where "SIG_UNBLOCK = 1"
definition SIG_SETMASK :: int where "SIG_SETMASK = 2"
definition WNOHANG :: u32 where "WNOHANG = 1"

lemmas sig_defs [kernel_simps] =
  SIGHUP_def SIGINT_def SIGQUIT_def SIGKILL_def SIGALRM_def SIGTERM_def SIGCHLD_def SIGCONT_def
  SIGSTOP_def SIGTSTP_def SIGWINCH_def SA_RESETHAND_def SIG_BLOCK_def SIG_UNBLOCK_def
  SIG_SETMASK_def WNOHANG_def

text \<open>A JavaScript \<^verbatim>\<open>Set\<close>: \<^verbatim>\<open>add\<close> appends a new element, \<^verbatim>\<open>delete\<close> removes it.\<close>

definition sadd :: "'a \<Rightarrow> 'a list \<Rightarrow> 'a list" where
  "sadd x xs = (if x \<in> set xs then xs else xs @ [x])"

definition sdel :: "'a \<Rightarrow> 'a list \<Rightarrow> 'a list" where
  "sdel x xs = filter (\<lambda>y. y \<noteq> x) xs"

subsection \<open>Data\<close>

datatype SignalDisposition = SigDefault | SigIgnore | SigUser nat

record SignalHandler =
  sh_handler :: SignalDisposition
  sh_mask :: "int list"
  sh_flags :: u32

record ProcessSignalState =
  ss_handlers :: "(int, SignalHandler) jsmap"
  ss_blocked :: "int list"
  ss_pending :: "int list"
  ss_waiters :: WaitQueue
  ss_seq :: nat
  ss_last :: "int option"
  ss_lastFlags :: u32

datatype ProcStatus = Running | Stopped | Exited

datatype ExitReason = NormalExit | SignalExit

record ProcessEntry =
  pe_pid :: pid
  pe_ppid :: pid
  pe_pgid :: pid
  pe_sid :: pid
  pe_driver :: string
  pe_command :: string
  pe_args :: "string list"
  pe_status :: ProcStatus
  pe_exitCode :: "int option"
  pe_exitReason :: "ExitReason option"
  pe_termSignal :: int
  pe_startTime :: int
  pe_exitTime :: "int option"
  pe_env :: "(string, string) jsmap"
  pe_cwd :: string
  pe_umask :: nat
  pe_handles :: "(string, string) jsmap"
  pe_handleLimit :: int
  pe_signal :: ProcessSignalState

record Alarm =
  al_scheduledAt :: int
  al_seconds :: int

record WaitInfo =
  wi_pid :: pid
  wi_status :: u32
  wi_termSignal :: int

datatype proc_event =
    EvKill pid int
  | EvHandler nat int
  | EvResolve nat WaitInfo

record ProcessTable =
  pt_entries :: "(pid, ProcessEntry) jsmap"
  pt_nextPid :: pid
  pt_waiters :: "(pid, nat list) jsmap"
  pt_nextWaiter :: nat
  pt_zombies :: "(pid, unit) jsmap"
  pt_alarms :: "(pid, Alarm) jsmap"
  pt_log :: "proc_event list"

type_synonym ('z, 'a) proc = "('z ProcessTable_scheme, 'a) act"

record 'z ProcEnv =
  env_now :: int
  env_fuel :: nat
  env_handler :: "nat \<Rightarrow> int \<Rightarrow> ('z, unit) proc"
  env_kill :: "pid \<Rightarrow> int \<Rightarrow> ('z, unit) proc"
  env_onExit :: "pid \<Rightarrow> ('z, unit) proc"
  env_onReap :: "pid \<Rightarrow> ('z, unit) proc"

definition pt_new :: ProcessTable where
  "pt_new = \<lparr>pt_entries = [], pt_nextPid = 1, pt_waiters = [], pt_nextWaiter = 0, pt_zombies = [],
     pt_alarms = [], pt_log = []\<rparr>"

subsection \<open>Access to entries\<close>

definition upd :: "pid \<Rightarrow> (ProcessEntry \<Rightarrow> ProcessEntry) \<Rightarrow> 'z ProcessTable_scheme \<Rightarrow> 'z ProcessTable_scheme" where
  "upd pid f t = (case mget (pt_entries t) pid of None \<Rightarrow> t
     | Some e \<Rightarrow> t\<lparr>pt_entries := mput pid (f e) (pt_entries t)\<rparr>)"

definition updSig ::
  "pid \<Rightarrow> (ProcessSignalState \<Rightarrow> ProcessSignalState) \<Rightarrow> 'z ProcessTable_scheme \<Rightarrow> 'z ProcessTable_scheme" where
  "updSig pid f = upd pid (\<lambda>e. e\<lparr>pe_signal := f (pe_signal e)\<rparr>)"

definition logEv :: "proc_event \<Rightarrow> 'z ProcessTable_scheme \<Rightarrow> 'z ProcessTable_scheme" where
  "logEv ev t = t\<lparr>pt_log := pt_log t @ [ev]\<rparr>"

text \<open>The lookup that throws \<^const>\<open>ESRCH\<close>, and the one that does nothing when there is no entry.\<close>

definition lookup :: "pid \<Rightarrow> (ProcessEntry \<Rightarrow> ('z, 'a) proc) \<Rightarrow> ('z, 'a) proc" where
  "lookup pid k t = (case mget (pt_entries t) pid of None \<Rightarrow> Some (Inl (KErr ESRCH), t) | Some e \<Rightarrow> k e t)"

definition withEntry :: "pid \<Rightarrow> (ProcessEntry \<Rightarrow> ('z, unit) proc) \<Rightarrow> ('z, unit) proc" where
  "withEntry pid k t = (case mget (pt_entries t) pid of None \<Rightarrow> Some (Inr (), t) | Some e \<Rightarrow> k e t)"

subsection \<open>Allocation and registration\<close>

definition allocatePid :: "'z ProcessTable_scheme \<Rightarrow> pid \<times> 'z ProcessTable_scheme" where
  "allocatePid t = (pt_nextPid t, t\<lparr>pt_nextPid := pt_nextPid t + 1\<rparr>)"

record ProcessContext =
  ctx_ppid :: pid
  ctx_env :: "(string, string) jsmap"
  ctx_cwd :: string

definition ss_new :: ProcessSignalState where
  "ss_new = \<lparr>ss_handlers = [], ss_blocked = [], ss_pending = [], ss_waiters = wq_new, ss_seq = 0,
     ss_last = None, ss_lastFlags = 0\<rparr>"

definition newEntry ::
  "int \<Rightarrow> pid \<Rightarrow> string \<Rightarrow> string \<Rightarrow> string list \<Rightarrow> ProcessContext \<Rightarrow> ProcessEntry option \<Rightarrow> ProcessEntry" where
  "newEntry now pid driver command args ctx parent =
     \<lparr>pe_pid = pid, pe_ppid = ctx_ppid ctx,
      pe_pgid = (case parent of None \<Rightarrow> pid | Some p \<Rightarrow> pe_pgid p),
      pe_sid = (case parent of None \<Rightarrow> pid | Some p \<Rightarrow> pe_sid p),
      pe_driver = driver, pe_command = command, pe_args = args, pe_status = Running,
      pe_exitCode = None, pe_exitReason = None, pe_termSignal = 0, pe_startTime = now,
      pe_exitTime = None, pe_env = ctx_env ctx, pe_cwd = ctx_cwd ctx,
      pe_umask = (case parent of None \<Rightarrow> 18 | Some p \<Rightarrow> pe_umask p),
      pe_handles = [], pe_handleLimit = 0, pe_signal = ss_new\<rparr>"

definition parentOf :: "ProcessContext \<Rightarrow> 'z ProcessTable_scheme \<Rightarrow> ProcessEntry option" where
  "parentOf ctx t = (if ctx_ppid ctx \<noteq> 0 then mget (pt_entries t) (ctx_ppid ctx) else None)"

definition pt_register ::
  "int \<Rightarrow> pid \<Rightarrow> string \<Rightarrow> string \<Rightarrow> string list \<Rightarrow> ProcessContext \<Rightarrow> 'z ProcessTable_scheme \<Rightarrow> 'z ProcessTable_scheme" where
  "pt_register now pid driver command args ctx t =
     t\<lparr>pt_entries := mput pid (newEntry now pid driver command args ctx (parentOf ctx t)) (pt_entries t)\<rparr>"

definition pt_get :: "'z ProcessTable_scheme \<Rightarrow> pid \<Rightarrow> ProcessEntry option" where
  "pt_get t pid = mget (pt_entries t) pid"

definition zombieTimerCount :: "'z ProcessTable_scheme \<Rightarrow> nat" where
  "zombieTimerCount t = length (pt_zombies t)"

definition runningCount :: "'z ProcessTable_scheme \<Rightarrow> nat" where
  "runningCount t = length (filter (\<lambda>(_, e). pe_status e = Running) (pt_entries t))"

subsection \<open>Default actions\<close>

definition driverKill :: "'z ProcEnv \<Rightarrow> pid \<Rightarrow> int \<Rightarrow> ('z, unit) proc" where
  "driverKill E pid sig = seqA (modifyA (logEv (EvKill pid sig))) (env_kill E pid sig)"

definition pt_stop :: "pid \<Rightarrow> ('z, unit) proc" where
  "pt_stop pid = lookup pid (\<lambda>e.
     if pe_status e \<noteq> Running then ret () else modifyA (upd pid (\<lambda>e. e\<lparr>pe_status := Stopped\<rparr>)))"

definition pt_cont :: "pid \<Rightarrow> ('z, unit) proc" where
  "pt_cont pid = lookup pid (\<lambda>e.
     if pe_status e \<noteq> Stopped then ret () else modifyA (upd pid (\<lambda>e. e\<lparr>pe_status := Running\<rparr>)))"

definition applyDefaultAction :: "'z ProcEnv \<Rightarrow> pid \<Rightarrow> int \<Rightarrow> ('z, unit) proc" where
  "applyDefaultAction E pid sig =
     (if sig = SIGTSTP \<or> sig = SIGSTOP then seqA (pt_stop pid) (driverKill E pid sig)
      else if sig = SIGCONT then seqA (pt_cont pid) (driverKill E pid sig)
      else if sig = SIGCHLD \<or> sig = SIGWINCH then ret ()
      else seqA (modifyA (upd pid (\<lambda>e. e\<lparr>pe_termSignal := sig\<rparr>))) (driverKill E pid sig))"

definition recordSignalDelivery :: "int \<Rightarrow> u32 \<Rightarrow> ProcessSignalState \<Rightarrow> ProcessSignalState" where
  "recordSignalDelivery sig flags s =
     s\<lparr>ss_last := Some sig, ss_lastFlags := flags, ss_seq := Suc (ss_seq s),
       ss_waiters := snd (wq_wakeAll (ss_waiters s))\<rparr>"

subsection \<open>Dispatch\<close>

text \<open>
  \<open>deliverPendingSignals\<close> takes the dispatcher as an argument: the code's two mutually recursive
  methods become one recursion on the fuel.
\<close>

primrec pendingLoop :: "(int \<Rightarrow> ('z, unit) proc) \<Rightarrow> pid \<Rightarrow> int list \<Rightarrow> ('z, unit) proc" where
  "pendingLoop disp pid [] = ret ()"
| "pendingLoop disp pid (sig # sigs) = withEntry pid (\<lambda>e.
     if sig \<notin> set (ss_blocked (pe_signal e)) \<and> sig \<in> set (ss_pending (pe_signal e))
     then seqA (modifyA (updSig pid (\<lambda>s. s\<lparr>ss_pending := sdel sig (ss_pending s)\<rparr>)))
       (seqA (disp sig)
         (withEntry pid (\<lambda>e1. if pe_status e1 = Exited then ret () else pendingLoop disp pid sigs)))
     else pendingLoop disp pid sigs)"

definition deliverPendingSignals :: "(int \<Rightarrow> ('z, unit) proc) \<Rightarrow> pid \<Rightarrow> ('z, unit) proc" where
  "deliverPendingSignals disp pid = withEntry pid (\<lambda>e.
     if ss_pending (pe_signal e) = [] then ret ()
     else pendingLoop disp pid (sort (ss_pending (pe_signal e))))"

definition defaultDispatch :: "'z ProcEnv \<Rightarrow> pid \<Rightarrow> int \<Rightarrow> ('z, unit) proc" where
  "defaultDispatch E pid sig =
     seqA (if sig \<noteq> SIGCHLD then modifyA (updSig pid (recordSignalDelivery sig 0)) else ret ())
       (applyDefaultAction E pid sig)"

definition runHandler :: "'z ProcEnv \<Rightarrow> pid \<Rightarrow> int \<Rightarrow> nat \<Rightarrow> int list \<Rightarrow> int list \<Rightarrow> ('z, unit) proc" where
  "runHandler E pid sig h sa_mask saved =
     seqA (modifyA (updSig pid (\<lambda>s. s\<lparr>ss_blocked := sadd sig (fold sadd sa_mask saved)\<rparr>)))
       (finallyA (seqA (modifyA (logEv (EvHandler h sig))) (env_handler E h sig))
         (updSig pid (\<lambda>s. s\<lparr>ss_blocked := saved\<rparr>)))"

definition resetHandler :: "pid \<Rightarrow> int \<Rightarrow> u32 \<Rightarrow> ('z, unit) proc" where
  "resetHandler pid sig flags =
     (if flags AND SA_RESETHAND \<noteq> 0
      then modifyA (updSig pid (\<lambda>s. s\<lparr>ss_handlers :=
        mput sig \<lparr>sh_handler = SigDefault, sh_mask = [], sh_flags = 0\<rparr> (ss_handlers s)\<rparr>))
      else ret ())"

primrec dispatchSignal :: "'z ProcEnv \<Rightarrow> nat \<Rightarrow> pid \<Rightarrow> int \<Rightarrow> ('z, unit) proc" where
  "dispatchSignal E 0 pid sig = divergeA"
| "dispatchSignal E (Suc n) pid sig = withEntry pid (\<lambda>e.
     case mget (ss_handlers (pe_signal e)) sig of
       None \<Rightarrow> defaultDispatch E pid sig
     | Some registration \<Rightarrow>
         (case sh_handler registration of
            SigIgnore \<Rightarrow> ret ()
          | SigDefault \<Rightarrow> defaultDispatch E pid sig
          | SigUser h \<Rightarrow>
              seqA (modifyA (updSig pid (recordSignalDelivery sig (sh_flags registration))))
             (seqA (runHandler E pid sig h (sh_mask registration) (ss_blocked (pe_signal e)))
             (seqA (resetHandler pid sig (sh_flags registration))
                   (deliverPendingSignals (dispatchSignal E n pid) pid)))))"

definition queueOrDispatch :: "'z ProcEnv \<Rightarrow> pid \<Rightarrow> int \<Rightarrow> ('z, unit) proc" where
  "queueOrDispatch E pid sig = withEntry pid (\<lambda>e.
     if sig \<in> set (ss_blocked (pe_signal e))
     then modifyA (updSig pid (\<lambda>s. s\<lparr>ss_pending := sadd sig (ss_pending s)\<rparr>))
     else dispatchSignal E (env_fuel E) pid sig)"

definition deliverSignal :: "'z ProcEnv \<Rightarrow> pid \<Rightarrow> int \<Rightarrow> ('z, unit) proc" where
  "deliverSignal E pid sig =
     (if sig = SIGKILL \<or> sig = SIGSTOP then applyDefaultAction E pid sig
      else if sig = SIGCONT then seqA (pt_cont pid) (queueOrDispatch E pid sig)
      else queueOrDispatch E pid sig)"

subsection \<open>Exit and wait\<close>

definition cancelAlarm :: "pid \<Rightarrow> 'z ProcessTable_scheme \<Rightarrow> 'z ProcessTable_scheme" where
  "cancelAlarm pid t = t\<lparr>pt_alarms := mdel pid (pt_alarms t)\<rparr>"

definition wstatus_of :: "int \<Rightarrow> int \<Rightarrow> u32" where
  "wstatus_of termSignal exitCode =
     (if 0 < termSignal then encodeSignalStatus (word_of_int termSignal)
      else encodeExitStatus (word_of_int exitCode))"

definition exitEntry :: "int \<Rightarrow> int \<Rightarrow> ProcessEntry \<Rightarrow> ProcessEntry" where
  "exitEntry now exitCode e =
     e\<lparr>pe_status := Exited, pe_exitCode := Some exitCode,
       pe_exitReason := Some (if 0 < pe_termSignal e then SignalExit else NormalExit),
       pe_exitTime := Some now, pe_handles := []\<rparr>"

definition signalParent :: "'z ProcEnv \<Rightarrow> pid \<Rightarrow> ('z, unit) proc" where
  "signalParent E ppid =
     (if 0 < ppid then withEntry ppid (\<lambda>parent.
        if pe_status parent = Running then deliverSignal E ppid SIGCHLD else ret ())
      else ret ())"

definition notifyWaiters :: "pid \<Rightarrow> u32 \<Rightarrow> 'z ProcessTable_scheme \<Rightarrow> 'z ProcessTable_scheme" where
  "notifyWaiters pid wstatus t =
     (case mget (pt_waiters t) pid of None \<Rightarrow> t
      | Some ws \<Rightarrow>
          (let term = (case mget (pt_entries t) pid of None \<Rightarrow> 0 | Some e \<Rightarrow> pe_termSignal e)
           in t\<lparr>pt_log := pt_log t @ map (\<lambda>w. EvResolve w
                  \<lparr>wi_pid = pid, wi_status = wstatus, wi_termSignal = term\<rparr>) ws,
                pt_waiters := mdel pid (pt_waiters t)\<rparr>))"

definition scheduleReap :: "pid \<Rightarrow> 'z ProcessTable_scheme \<Rightarrow> 'z ProcessTable_scheme" where
  "scheduleReap pid t = t\<lparr>pt_zombies := mput pid () (pt_zombies t)\<rparr>"

definition markExited :: "'z ProcEnv \<Rightarrow> pid \<Rightarrow> int \<Rightarrow> ('z, unit) proc" where
  "markExited E pid exitCode = withEntry pid (\<lambda>e.
     if pe_status e = Exited then ret ()
     else seqA (modifyA (\<lambda>t. cancelAlarm pid (upd pid (exitEntry (env_now E) exitCode) t)))
         (seqA (env_onExit E pid)
         (seqA (signalParent E (pe_ppid e))
               (modifyA (\<lambda>t. scheduleReap pid
                  (notifyWaiters pid (wstatus_of (pe_termSignal e) exitCode) t))))))"

text \<open>A promise is either resolved when \<^verbatim>\<open>waitpid\<close> returns (\<^verbatim>\<open>null\<close> is \<^const>\<open>None\<close>) or it waits.\<close>

datatype WaitResult = WaitNow "WaitInfo option" | WaitBlocked nat

definition waitpid :: "pid \<Rightarrow> u32 \<Rightarrow> ('z, WaitResult) proc" where
  "waitpid pid options t =
     (case mget (pt_entries t) pid of
        None \<Rightarrow> Some (Inl (JsErr ''ESRCH: no such process''), t)
      | Some e \<Rightarrow>
          if pe_status e = Exited
          then Some (Inr (WaitNow (Some \<lparr>wi_pid = pid,
                 wi_status = wstatus_of (pe_termSignal e) (the (pe_exitCode e)),
                 wi_termSignal = pe_termSignal e\<rparr>)), t)
          else if options \<noteq> 0 \<and> options AND WNOHANG \<noteq> 0 then Some (Inr (WaitNow None), t)
          else Some (Inr (WaitBlocked (pt_nextWaiter t)),
                 t\<lparr>pt_waiters := mput pid
                     ((case mget (pt_waiters t) pid of None \<Rightarrow> [] | Some ws \<Rightarrow> ws) @ [pt_nextWaiter t])
                     (pt_waiters t),
                   pt_nextWaiter := Suc (pt_nextWaiter t)\<rparr>))"

subsection \<open>Sending signals\<close>

text \<open>
  \<^verbatim>\<open>for (const entry of this.entries.values())\<close> iterates the live map: an entry a callback appends
  during the loop is visited too.
\<close>

primrec forEntries :: "nat \<Rightarrow> nat \<Rightarrow> (ProcessEntry \<Rightarrow> 'b \<Rightarrow> ('z, 'b) proc) \<Rightarrow> 'b \<Rightarrow> ('z, 'b) proc" where
  "forEntries 0 i body acc = divergeA"
| "forEntries (Suc k) i body acc = (\<lambda>t.
     if i < length (pt_entries t)
     then andThen (body (snd (pt_entries t ! i)) acc) (forEntries k (Suc i) body) t
     else ret acc t)"

definition killMember :: "'z ProcEnv \<Rightarrow> pid \<Rightarrow> int \<Rightarrow> ProcessEntry \<Rightarrow> bool \<Rightarrow> ('z, bool) proc" where
  "killMember E pgid sig e found =
     (if pe_pgid e = pgid \<and> pe_status e \<noteq> Exited
      then seqA (if sig \<noteq> 0 then deliverSignal E (pe_pid e) sig else ret ()) (ret True)
      else ret found)"

definition pt_kill :: "'z ProcEnv \<Rightarrow> pid \<Rightarrow> int \<Rightarrow> ('z, unit) proc" where
  "pt_kill E pid sig =
     (if sig < 0 \<or> 64 < sig then throwA (KErr EINVAL)
      else if pid < 0
      then andThen (forEntries (env_fuel E) 0 (killMember E (- pid) sig) False)
        (\<lambda>found. if \<not> found then throwA (KErr ESRCH) else ret ())
      else lookup pid (\<lambda>e.
        if pe_status e = Exited then ret ()
        else if sig = 0 then ret ()
        else deliverSignal E pid sig))"

definition groupMember :: "'z ProcEnv \<Rightarrow> pid \<Rightarrow> int \<Rightarrow> ProcessEntry \<Rightarrow> nat \<Rightarrow> ('z, nat) proc" where
  "groupMember E pgid sig e count =
     (if pe_pgid e = pgid \<and> pe_status e \<noteq> Exited
      then if pe_pid e = pe_sid e then ret count
        else seqA (if sig \<noteq> 0 then deliverSignal E (pe_pid e) sig else ret ()) (ret (Suc count))
      else ret count)"

definition killGroupExcludeLeaders :: "'z ProcEnv \<Rightarrow> pid \<Rightarrow> int \<Rightarrow> ('z, nat) proc" where
  "killGroupExcludeLeaders E pgid sig =
     (if sig < 0 \<or> 64 < sig then throwA (KErr EINVAL)
      else forEntries (env_fuel E) 0 (groupMember E pgid sig) 0)"

subsection \<open>Alarms\<close>

text \<open>
  The remaining time is \<open>\<lceil>seconds - elapsed/1000\<rceil>\<close> for whole seconds and elapsed milliseconds. The timer
  that fires is the one in \<open>pt_alarms\<close>: every other one has been cleared.
\<close>

definition alarmRemaining :: "int \<Rightarrow> Alarm \<Rightarrow> int" where
  "alarmRemaining now a = max 0 (- ((now - al_scheduledAt a - 1000 * al_seconds a) div 1000))"

definition pt_alarm :: "'z ProcEnv \<Rightarrow> pid \<Rightarrow> int \<Rightarrow> ('z, int) proc" where
  "pt_alarm E pid seconds = lookup pid (\<lambda>_ t.
     let remaining = (case mget (pt_alarms t) pid of None \<Rightarrow> 0 | Some a \<Rightarrow> alarmRemaining (env_now E) a);
         t1 = t\<lparr>pt_alarms := mdel pid (pt_alarms t)\<rparr>
     in if seconds = 0 then ret remaining t1
        else ret remaining (t1\<lparr>pt_alarms :=
          mput pid \<lparr>al_scheduledAt = env_now E, al_seconds = seconds\<rparr> (pt_alarms t1)\<rparr>))"

definition fireAlarm :: "'z ProcEnv \<Rightarrow> pid \<Rightarrow> ('z, unit) proc" where
  "fireAlarm E pid t =
     (if \<not> mhas (pt_alarms t) pid then ret () t
      else seqA (modifyA (cancelAlarm pid))
        (withEntry pid (\<lambda>e. if pe_status e \<noteq> Running then ret () else deliverSignal E pid SIGALRM)) t)"

subsection \<open>Handlers and masks\<close>

definition sigaction :: "pid \<Rightarrow> int \<Rightarrow> SignalHandler \<Rightarrow> ('z, SignalHandler option) proc" where
  "sigaction pid sig handler = lookup pid (\<lambda>e.
     if sig < 1 \<or> 64 < sig then throwA (KErr EINVAL)
     else if sig = SIGKILL \<or> sig = SIGSTOP then throwA (KErr EINVAL)
     else seqA (modifyA (updSig pid (\<lambda>s. s\<lparr>ss_handlers := mput sig handler (ss_handlers s)\<rparr>)))
       (ret (mget (ss_handlers (pe_signal e)) sig)))"

definition sigprocmask :: "'z ProcEnv \<Rightarrow> pid \<Rightarrow> int \<Rightarrow> int list \<Rightarrow> ('z, int list) proc" where
  "sigprocmask E pid how sigs = lookup pid (\<lambda>e.
     let filtered = sdel SIGSTOP (sdel SIGKILL sigs);
         go = (\<lambda>f. seqA (modifyA (updSig pid (\<lambda>s. s\<lparr>ss_blocked := f (ss_blocked s)\<rparr>)))
                 (seqA (deliverPendingSignals (dispatchSignal E (env_fuel E) pid) pid)
                   (ret (ss_blocked (pe_signal e)))))
     in if how = SIG_BLOCK then go (fold sadd filtered)
        else if how = SIG_UNBLOCK then go (fold sdel filtered)
        else if how = SIG_SETMASK then go (\<lambda>_. filtered)
        else throwA (KErr EINVAL))"

definition getSignalState :: "pid \<Rightarrow> ('z, ProcessSignalState) proc" where
  "getSignalState pid = lookup pid (\<lambda>e. ret (pe_signal e))"

subsection \<open>Process groups and sessions\<close>

text \<open>The first live member of the group, which is where the loop of \<^verbatim>\<open>setpgid\<close> stops.\<close>

definition groupMemberOf :: "'z ProcessTable_scheme \<Rightarrow> pid \<Rightarrow> ProcessEntry option" where
  "groupMemberOf t pgid = find (\<lambda>e. pe_pgid e = pgid \<and> pe_status e \<noteq> Exited) (map snd (pt_entries t))"

definition setpgid :: "pid \<Rightarrow> pid \<Rightarrow> ('z, unit) proc" where
  "setpgid pid pgid = lookup pid (\<lambda>entry t.
     let targetPgid = (if pgid = 0 then pid else pgid);
         set = modifyA (upd pid (\<lambda>e. e\<lparr>pe_pgid := targetPgid\<rparr>))
     in if targetPgid \<noteq> pid
        then (case groupMemberOf t targetPgid of
            None \<Rightarrow> throwA (KErr EPERM) t
          | Some e \<Rightarrow> if pe_sid e \<noteq> pe_sid entry then throwA (KErr EPERM) t else set t)
        else set t)"

definition getpgid :: "pid \<Rightarrow> ('z, pid) proc" where
  "getpgid pid = lookup pid (\<lambda>e. ret (pe_pgid e))"

definition setsid :: "pid \<Rightarrow> ('z, pid) proc" where
  "setsid pid = lookup pid (\<lambda>e.
     if pe_pgid e = pid then throwA (KErr EPERM)
     else seqA (modifyA (upd pid (\<lambda>e. e\<lparr>pe_sid := pid, pe_pgid := pid\<rparr>))) (ret pid))"

definition getsid :: "pid \<Rightarrow> ('z, pid) proc" where
  "getsid pid = lookup pid (\<lambda>e. ret (pe_sid e))"

definition getppid :: "pid \<Rightarrow> ('z, pid) proc" where
  "getppid pid = lookup pid (\<lambda>e. ret (pe_ppid e))"

definition hasProcessGroup :: "'z ProcessTable_scheme \<Rightarrow> pid \<Rightarrow> bool" where
  "hasProcessGroup t pgid =
     list_ex (\<lambda>(_, e). pe_pgid e = pgid \<and> pe_status e \<noteq> Exited) (pt_entries t)"

record ProcessInfo =
  pi_pid :: pid
  pi_ppid :: pid
  pi_pgid :: pid
  pi_sid :: pid
  pi_driver :: string
  pi_command :: string
  pi_args :: "string list"
  pi_cwd :: string
  pi_status :: ProcStatus
  pi_exitCode :: "int option"
  pi_startTime :: int
  pi_exitTime :: "int option"

definition processInfo :: "ProcessEntry \<Rightarrow> ProcessInfo" where
  "processInfo e = \<lparr>pi_pid = pe_pid e, pi_ppid = pe_ppid e, pi_pgid = pe_pgid e, pi_sid = pe_sid e,
     pi_driver = pe_driver e, pi_command = pe_command e, pi_args = pe_args e, pi_cwd = pe_cwd e,
     pi_status = pe_status e, pi_exitCode = pe_exitCode e, pi_startTime = pe_startTime e,
     pi_exitTime = pe_exitTime e\<rparr>"

definition listProcesses :: "'z ProcessTable_scheme \<Rightarrow> (pid, ProcessInfo) jsmap" where
  "listProcesses t = map (\<lambda>(pid, e). (pid, processInfo e)) (pt_entries t)"

subsection \<open>Zombies, handles, shutdown\<close>

definition reap :: "'z ProcEnv \<Rightarrow> pid \<Rightarrow> ('z, unit) proc" where
  "reap E pid = withEntry pid (\<lambda>e.
     if pe_status e = Exited
     then seqA (env_onReap E pid) (modifyA (\<lambda>t. t\<lparr>pt_entries := mdel pid (pt_entries t)\<rparr>))
     else ret ())"

definition fireZombie :: "'z ProcEnv \<Rightarrow> pid \<Rightarrow> ('z, unit) proc" where
  "fireZombie E pid t =
     (if \<not> mhas (pt_zombies t) pid then ret () t
      else seqA (modifyA (\<lambda>t. t\<lparr>pt_zombies := mdel pid (pt_zombies t)\<rparr>)) (reap E pid) t)"

definition registerHandle :: "pid \<Rightarrow> string \<Rightarrow> string \<Rightarrow> ('z, unit) proc" where
  "registerHandle pid hid description = lookup pid (\<lambda>e.
     if 0 < pe_handleLimit e \<and> pe_handleLimit e \<le> int (length (pe_handles e)) then throwA (KErr EAGAIN)
     else modifyA (upd pid (\<lambda>e. e\<lparr>pe_handles := mput hid description (pe_handles e)\<rparr>)))"

definition unregisterHandle :: "pid \<Rightarrow> string \<Rightarrow> ('z, unit) proc" where
  "unregisterHandle pid hid = lookup pid (\<lambda>e.
     if \<not> mhas (pe_handles e) hid then throwA (KErr EBADF)
     else modifyA (upd pid (\<lambda>e. e\<lparr>pe_handles := mdel hid (pe_handles e)\<rparr>)))"

definition setHandleLimit :: "pid \<Rightarrow> int \<Rightarrow> ('z, unit) proc" where
  "setHandleLimit pid limit = lookup pid (\<lambda>_. modifyA (upd pid (\<lambda>e. e\<lparr>pe_handleLimit := limit\<rparr>)))"

definition getHandles :: "pid \<Rightarrow> ('z, (string, string) jsmap) proc" where
  "getHandles pid = lookup pid (\<lambda>e. ret (pe_handles e))"

definition livePids :: "'z ProcessTable_scheme \<Rightarrow> pid list" where
  "livePids t = map (pe_pid o snd) (filter (\<lambda>(_, e). pe_status e \<noteq> Exited) (pt_entries t))"

primrec killEach :: "'z ProcEnv \<Rightarrow> int \<Rightarrow> pid list \<Rightarrow> ('z, unit) proc" where
  "killEach E sig [] = ret ()"
| "killEach E sig (pid # pids) = seqA (swallowA (driverKill E pid sig)) (killEach E sig pids)"

text \<open>
  \<open>terminateAll\<close> awaits the drivers twice; the two parts run before and after the first wait. The
  second takes the processes the first found running and keeps those that have not exited since.
\<close>

definition terminateBegin :: "'z ProcEnv \<Rightarrow> ('z, pid list) proc" where
  "terminateBegin E t =
     (let t1 = t\<lparr>pt_zombies := [], pt_alarms := []\<rparr>; running = livePids t1
      in seqA (killEach E 15 running) (ret running) t1)"

definition terminateEscalate :: "'z ProcEnv \<Rightarrow> pid list \<Rightarrow> ('z, unit) proc" where
  "terminateEscalate E running t =
     killEach E 9 (filter (\<lambda>pid. case mget (pt_entries t) pid of None \<Rightarrow> False
       | Some e \<Rightarrow> pe_status e \<noteq> Exited) running) t"

subsection \<open>Invariant\<close>

definition catchable :: "int \<Rightarrow> bool" where
  "catchable sig \<longleftrightarrow> 1 \<le> sig \<and> sig \<le> 64 \<and> sig \<noteq> SIGKILL \<and> sig \<noteq> SIGSTOP"

definition sig_ok :: "ProcessSignalState \<Rightarrow> bool" where
  "sig_ok s \<longleftrightarrow> mwf (ss_handlers s) \<and> (\<forall>g. mhas (ss_handlers s) g \<longrightarrow> catchable g) \<and>
     distinct (ss_pending s) \<and> (\<forall>g \<in> set (ss_pending s). catchable g) \<and> wq_inv (ss_waiters s)"

definition entry_ok :: "pid \<Rightarrow> ProcessEntry \<Rightarrow> bool" where
  "entry_ok pid e \<longleftrightarrow> pe_pid e = pid \<and> (pe_exitCode e \<noteq> None \<longleftrightarrow> pe_status e = Exited) \<and>
     (pe_exitTime e \<noteq> None \<longleftrightarrow> pe_status e = Exited) \<and> mwf (pe_handles e) \<and> sig_ok (pe_signal e)"

fun ev_waiter :: "proc_event \<Rightarrow> nat list" where
  "ev_waiter (EvResolve w _) = [w]"
| "ev_waiter _ = []"

definition resolved_waiters :: "proc_event list \<Rightarrow> nat list" where
  "resolved_waiters log = concat (map ev_waiter log)"

definition waiting :: "'z ProcessTable_scheme \<Rightarrow> nat \<Rightarrow> nat" where
  "waiting t w = wsum (\<lambda>ws. count_list ws w) (pt_waiters t)"

definition waiters_ok :: "'z ProcessTable_scheme \<Rightarrow> bool" where
  "waiters_ok t \<longleftrightarrow> mwf (pt_waiters t) \<and>
     (\<forall>w. waiting t w + count_list (resolved_waiters (pt_log t)) w = (if w < pt_nextWaiter t then 1 else 0))"

definition pt_inv :: "'z ProcessTable_scheme \<Rightarrow> bool" where
  "pt_inv t \<longleftrightarrow> mwf (pt_entries t) \<and> 1 \<le> pt_nextPid t \<and>
     (\<forall>pid e. mget (pt_entries t) pid = Some e \<longrightarrow> entry_ok pid e \<and> 1 \<le> pid \<and> pid < pt_nextPid t) \<and>
     waiters_ok t"

text \<open>
  Facts that last while no zombie is reaped, for sets the proofs choose: the processes in \<open>F\<close> have
  exited with the code given, and the waiters in \<open>W\<close> wait, if at all, for the process given; process
  ids from \<open>N\<close> on may be handed out only once.
\<close>

definition tracked :: "(pid \<times> int) set \<Rightarrow> (nat \<times> pid) set \<Rightarrow> 'z ProcessTable_scheme \<Rightarrow> bool" where
  "tracked F W t \<longleftrightarrow>
     (\<forall>(p, c) \<in> F. \<exists>e. mget (pt_entries t) p = Some e \<and> pe_status e = Exited \<and> pe_exitCode e = Some c) \<and>
     (\<forall>(w, p) \<in> W. w < pt_nextWaiter t \<and> (\<forall>q ws. mget (pt_waiters t) q = Some ws \<longrightarrow> w \<in> set ws \<longrightarrow> q = p))"

definition pt_inv_with :: "pid \<Rightarrow> (pid \<times> int) set \<Rightarrow> (nat \<times> pid) set \<Rightarrow> 'z ProcessTable_scheme \<Rightarrow> bool" where
  "pt_inv_with N F W t \<longleftrightarrow> pt_inv t \<and> tracked F W t \<and> N \<le> pt_nextPid t"

lemma pt_inv_with_empty [simp]: "pt_inv_with 1 {} {} = pt_inv"
  by (auto simp: pt_inv_with_def pt_inv_def tracked_def fun_eq_iff)

text \<open>An update of an entry is tame if it keeps the entry well formed and an exit final.\<close>

definition tame :: "pid \<Rightarrow> (ProcessEntry \<Rightarrow> ProcessEntry) \<Rightarrow> ProcessEntry \<Rightarrow> bool" where
  "tame p f e \<longleftrightarrow> entry_ok p (f e) \<and>
     (pe_status e = Exited \<longrightarrow> pe_status (f e) = Exited \<and> pe_exitCode (f e) = pe_exitCode e)"

lemma pt_inv_entry: "pt_inv_with N F W t \<Longrightarrow> mget (pt_entries t) pid = Some e \<Longrightarrow> entry_ok pid e"
  by (simp add: pt_inv_with_def pt_inv_def)

lemma pt_inv_new: "pt_inv pt_new"
  by (simp add: pt_inv_def pt_new_def waiters_ok_def waiting_def resolved_waiters_def)

lemma set_sadd [simp]: "set (sadd x xs) = insert x (set xs)"
  by (auto simp: sadd_def)

lemma set_sdel [simp]: "set (sdel x xs) = set xs - {x}"
  by (auto simp: sdel_def)

lemma distinct_sadd [simp]: "distinct xs \<Longrightarrow> distinct (sadd x xs)"
  by (auto simp: sadd_def)

lemma distinct_sdel [simp]: "distinct xs \<Longrightarrow> distinct (sdel x xs)"
  by (auto simp: sdel_def)

lemma upd_fields [simp]:
  "pt_nextPid (upd p f t) = pt_nextPid t" "pt_waiters (upd p f t) = pt_waiters t"
  "pt_nextWaiter (upd p f t) = pt_nextWaiter t" "pt_log (upd p f t) = pt_log t"
  "pt_zombies (upd p f t) = pt_zombies t" "pt_alarms (upd p f t) = pt_alarms t"
  by (simp_all add: upd_def split: option.split)

lemma mget_upd: "mget (pt_entries (upd p f t)) q =
    (if q = p then map_option f (mget (pt_entries t) p) else mget (pt_entries t) q)"
  by (auto simp: upd_def split: option.split)

lemma mwf_upd: "mwf (pt_entries t) \<Longrightarrow> mwf (pt_entries (upd p f t))"
  by (simp add: upd_def split: option.split)

lemma waiters_ok_cong:
  "pt_waiters t' = pt_waiters t \<Longrightarrow> pt_nextWaiter t' = pt_nextWaiter t \<Longrightarrow>
   resolved_waiters (pt_log t') = resolved_waiters (pt_log t) \<Longrightarrow> waiters_ok t' = waiters_ok t"
  by (simp add: waiters_ok_def waiting_def)

lemma upd_inv:
  assumes "pt_inv_with N F W t" and "\<And>e. mget (pt_entries t) p = Some e \<Longrightarrow> entry_ok p e \<Longrightarrow> tame p f e"
  shows "pt_inv_with N F W (upd p f t)"
proof -
  have "pt_inv (upd p f t)"
    using assms waiters_ok_cong [of "upd p f t" t]
    by (auto simp: pt_inv_with_def pt_inv_def mget_upd mwf_upd tame_def split: if_splits)
  moreover have "tracked F W (upd p f t)"
    using assms by (fastforce simp: pt_inv_with_def pt_inv_def tracked_def mget_upd tame_def)
  ultimately show ?thesis using assms(1) by (simp add: pt_inv_with_def)
qed

lemma updSig_inv:
  "pt_inv_with N F W t \<Longrightarrow> (\<And>s. sig_ok s \<Longrightarrow> sig_ok (f s)) \<Longrightarrow> pt_inv_with N F W (updSig p f t)"
  unfolding updSig_def by (rule upd_inv) (auto simp: entry_ok_def tame_def)

lemma frame_inv:
  assumes "pt_inv_with N F W t" "pt_entries t' = pt_entries t" "pt_nextPid t \<le> pt_nextPid t'"
    "pt_waiters t' = pt_waiters t" "pt_nextWaiter t' = pt_nextWaiter t"
    "resolved_waiters (pt_log t') = resolved_waiters (pt_log t)"
  shows "pt_inv_with N F W t'"
  using assms waiters_ok_cong [of t' t] by (fastforce simp: pt_inv_with_def pt_inv_def tracked_def)

lemma resolved_append [simp]: "resolved_waiters (l @ l') = resolved_waiters l @ resolved_waiters l'"
  by (simp add: resolved_waiters_def)

lemma resolved_map: "resolved_waiters (map (\<lambda>w. EvResolve w i) ws) = ws"
  by (induction ws) (auto simp: resolved_waiters_def)

lemma logEv_inv: "pt_inv_with N F W t \<Longrightarrow> ev_waiter ev = [] \<Longrightarrow> pt_inv_with N F W (logEv ev t)"
  by (erule frame_inv) (auto simp: logEv_def resolved_waiters_def)

lemma cancelAlarm_inv: "pt_inv_with N F W t \<Longrightarrow> pt_inv_with N F W (cancelAlarm p t)"
  by (erule frame_inv) (auto simp: cancelAlarm_def)

lemma scheduleReap_inv: "pt_inv_with N F W t \<Longrightarrow> pt_inv_with N F W (scheduleReap p t)"
  by (erule frame_inv) (auto simp: scheduleReap_def)

lemma count_list_append: "count_list (xs @ ys) x = count_list xs x + count_list ys x"
  by (induction xs) auto

lemma notifyWaiters_pt_inv: "pt_inv t \<Longrightarrow> pt_inv (notifyWaiters p st t)"
proof (cases "mget (pt_waiters t) p")
  case (Some ws)
  assume inv: "pt_inv t"
  let ?t = "notifyWaiters p st t"
  have w: "waiting ?t x + count_list ws x = waiting t x" for x
    using inv Some wsum_mdel [of "pt_waiters t" p ws "\<lambda>ws. count_list ws x"]
    by (simp add: notifyWaiters_def waiting_def pt_inv_def waiters_ok_def Let_def)
  have l: "resolved_waiters (pt_log ?t) = resolved_waiters (pt_log t) @ ws"
    using Some by (simp add: notifyWaiters_def Let_def resolved_map)
  have "waiting ?t x + count_list (resolved_waiters (pt_log ?t)) x
      = waiting t x + count_list (resolved_waiters (pt_log t)) x" for x
    using w [of x] by (simp add: l count_list_append)
  moreover have "mwf (pt_waiters ?t)" "pt_entries ?t = pt_entries t" "pt_nextPid ?t = pt_nextPid t"
      "pt_nextWaiter ?t = pt_nextWaiter t"
    using inv Some by (simp_all add: notifyWaiters_def pt_inv_def waiters_ok_def Let_def)
  ultimately show ?thesis using inv by (simp add: pt_inv_def waiters_ok_def)
qed (simp add: notifyWaiters_def)

lemma notifyWaiters_tracked: "tracked F W t \<Longrightarrow> tracked F W (notifyWaiters p st t)"
  by (auto simp: tracked_def notifyWaiters_def Let_def split: option.split)

lemma notifyWaiters_inv: "pt_inv_with N F W t \<Longrightarrow> pt_inv_with N F W (notifyWaiters p st t)"
  by (simp add: pt_inv_with_def notifyWaiters_pt_inv notifyWaiters_tracked)
    (simp add: notifyWaiters_def Let_def split: option.split)

lemma waitpid_pt_inv: "keeps pt_inv (waitpid p opts)"
proof (rule keepsI)
  fix t r t' assume inv: "pt_inv t" and eq: "waitpid p opts t = Some (r, t')"
  let ?ws = "case mget (pt_waiters t) p of None \<Rightarrow> [] | Some ws \<Rightarrow> ws"
  consider "t' = t" | "t' = t\<lparr>pt_waiters := mput p (?ws @ [pt_nextWaiter t]) (pt_waiters t),
      pt_nextWaiter := Suc (pt_nextWaiter t)\<rparr>"
    using eq by (auto simp: waitpid_def split: option.splits if_splits)
  then show "pt_inv t'"
  proof cases
    case 2
    have w: "waiting t' x = waiting t x + (if x = pt_nextWaiter t then 1 else 0)" for x
      using wsum_mput [of "\<lambda>ws. count_list ws x" p "?ws @ [pt_nextWaiter t]" "pt_waiters t"]
      by (auto simp: 2 waiting_def count_list_append split: option.splits)
    have "waiting t x + count_list (resolved_waiters (pt_log t)) x = (if x < pt_nextWaiter t then 1 else 0)" for x
      using inv by (simp add: pt_inv_def waiters_ok_def)
    then have "waiting t' x + count_list (resolved_waiters (pt_log t')) x
        = (if x < pt_nextWaiter t' then 1 else 0)" for x
      using w [of x] by (auto simp: 2 less_Suc_eq split: if_splits)
    then show ?thesis using inv by (simp add: pt_inv_def waiters_ok_def) (simp add: 2)
  qed (simp add: inv)
qed

lemma waitpid_keeps: "keeps (pt_inv_with N F W) (waitpid p opts)"
proof (rule keepsI)
  fix t r t' assume inv: "pt_inv_with N F W t" and eq: "waitpid p opts t = Some (r, t')"
  have "pt_inv t'" using keepsD [OF waitpid_pt_inv _ eq] inv by (simp add: pt_inv_with_def)
  moreover have "tracked F W t'"
    using inv eq by (fastforce simp: pt_inv_with_def tracked_def waitpid_def split: option.splits if_splits)
  moreover have "pt_nextPid t' = pt_nextPid t" using eq by (auto simp: waitpid_def split: option.splits if_splits)
  ultimately show "pt_inv_with N F W t'" using inv by (simp add: pt_inv_with_def)
qed

subsection \<open>Every operation keeps the invariant\<close>

lemma keeps_withEntry:
  "(\<And>e. entry_ok p e \<Longrightarrow> keeps (pt_inv_with N F W) (k e)) \<Longrightarrow> keeps (pt_inv_with N F W) (withEntry p k)"
  by (rule keepsI) (auto simp: withEntry_def split: option.splits dest: pt_inv_entry keepsD)

lemma keeps_lookup:
  "(\<And>e. entry_ok p e \<Longrightarrow> keeps (pt_inv_with N F W) (k e)) \<Longrightarrow> keeps (pt_inv_with N F W) (lookup p k)"
  by (rule keepsI) (auto simp: lookup_def split: option.splits dest: pt_inv_entry keepsD)

lemma keeps_updSig:
  "(\<And>s. sig_ok s \<Longrightarrow> sig_ok (f s)) \<Longrightarrow> keeps (pt_inv_with N F W) (modifyA (updSig p f))"
  by (rule keeps_modify) (rule updSig_inv)

lemma keeps_upd:
  "(\<And>e. entry_ok p e \<Longrightarrow> tame p f e) \<Longrightarrow> keeps (pt_inv_with N F W) (modifyA (upd p f))"
  by (rule keeps_modify) (rule upd_inv)

lemma pt_stop_keeps: "keeps (pt_inv_with N F W) (pt_stop p)"
  by (rule keepsI)
    (auto simp: pt_stop_def lookup_def split: option.splits if_splits intro!: upd_inv simp: entry_ok_def tame_def)

lemma pt_cont_keeps: "keeps (pt_inv_with N F W) (pt_cont p)"
  by (rule keepsI)
    (auto simp: pt_cont_def lookup_def split: option.splits if_splits intro!: upd_inv simp: entry_ok_def tame_def)

lemma sig_ok_record: "sig_ok s \<Longrightarrow> sig_ok (recordSignalDelivery g fl s)"
  by (simp add: sig_ok_def recordSignalDelivery_def wq_inv_wakeAll)

lemma sig_ok_updates:
  "sig_ok s \<Longrightarrow> sig_ok (s\<lparr>ss_blocked := b\<rparr>)"
  "sig_ok s \<Longrightarrow> sig_ok (s\<lparr>ss_pending := sdel g (ss_pending s)\<rparr>)"
  "sig_ok s \<Longrightarrow> catchable g \<Longrightarrow> sig_ok (s\<lparr>ss_pending := sadd g (ss_pending s)\<rparr>)"
  "sig_ok s \<Longrightarrow> catchable g \<Longrightarrow> sig_ok (s\<lparr>ss_handlers := mput g h (ss_handlers s)\<rparr>)"
  by (auto simp: sig_ok_def)

lemmas proc_keeps =
  keeps_basic keeps_rules keeps_withEntry keeps_lookup keeps_updSig sig_ok_record sig_ok_updates
  pt_stop_keeps pt_cont_keeps waitpid_keeps

text \<open>
  The contract of the code the table calls back: it keeps the table's invariant. Everything it can do
  to the table goes through the table's own operations, so the interpretation below discharges the
  contract for callbacks that re-enter the table to any depth.
\<close>

locale proc_callbacks =
  fixes E :: "'z ProcEnv"
    and F :: "(pid \<times> int) set"
    and W :: "(nat \<times> pid) set"
    and N :: pid
  assumes handler_keeps: "keeps (pt_inv_with N F W) (env_handler E h sig)"
    and kill_keeps: "keeps (pt_inv_with N F W) (env_kill E p sig)"
    and onExit_keeps: "keeps (pt_inv_with N F W) (env_onExit E p)"
    and onReap_keeps: "keeps (pt_inv_with N F W) (env_onReap E p)"
begin

lemma driverKill_keeps: "keeps (pt_inv_with N F W) (driverKill E p g)"
  unfolding driverKill_def
  by (intro keeps_seq keeps_modify kill_keeps logEv_inv) simp_all

lemma applyDefaultAction_keeps: "keeps (pt_inv_with N F W) (applyDefaultAction E p g)"
  unfolding applyDefaultAction_def
  by (intro proc_keeps driverKill_keeps keeps_upd) (simp add: entry_ok_def tame_def)

lemma defaultDispatch_keeps: "keeps (pt_inv_with N F W) (defaultDispatch E p g)"
  unfolding defaultDispatch_def by (intro proc_keeps applyDefaultAction_keeps)

lemma runHandler_keeps: "keeps (pt_inv_with N F W) (runHandler E p g h ms saved)"
  unfolding runHandler_def
  by (intro proc_keeps keeps_modify handler_keeps logEv_inv updSig_inv) (simp_all add: sig_ok_updates)

lemma resetHandler_keeps: "catchable g \<Longrightarrow> keeps (pt_inv_with N F W) (resetHandler p g fl)"
  unfolding resetHandler_def by (intro proc_keeps)

lemma pendingLoop_keeps:
  "(\<And>g. g \<in> set gs \<Longrightarrow> keeps (pt_inv_with N F W) (disp g)) \<Longrightarrow> keeps (pt_inv_with N F W) (pendingLoop disp p gs)"
  by (induction gs) (auto intro!: proc_keeps)

lemma deliverPendingSignals_keeps:
  "(\<And>g. catchable g \<Longrightarrow> keeps (pt_inv_with N F W) (disp g)) \<Longrightarrow> keeps (pt_inv_with N F W) (deliverPendingSignals disp p)"
  unfolding deliverPendingSignals_def
  by (intro proc_keeps pendingLoop_keeps) (auto simp: entry_ok_def tame_def sig_ok_def)

lemma dispatchSignal_keeps: "catchable g \<Longrightarrow> keeps (pt_inv_with N F W) (dispatchSignal E n p g)"
proof (induction n arbitrary: g)
  case (Suc n)
  then show ?case
    by (auto intro!: proc_keeps defaultDispatch_keeps runHandler_keeps resetHandler_keeps
        deliverPendingSignals_keeps split: option.split SignalDisposition.split)
qed simp

lemma queueOrDispatch_keeps: "catchable g \<Longrightarrow> keeps (pt_inv_with N F W) (queueOrDispatch E p g)"
  unfolding queueOrDispatch_def by (intro proc_keeps dispatchSignal_keeps)

lemma deliverSignal_keeps: "1 \<le> g \<Longrightarrow> g \<le> 64 \<Longrightarrow> keeps (pt_inv_with N F W) (deliverSignal E p g)"
  unfolding deliverSignal_def
  by (intro proc_keeps applyDefaultAction_keeps queueOrDispatch_keeps) (simp_all add: catchable_def)

lemma signalParent_keeps: "keeps (pt_inv_with N F W) (signalParent E p)"
  unfolding signalParent_def by (intro proc_keeps deliverSignal_keeps) (simp_all add: sig_defs)

lemma markExited_keeps: "keeps (pt_inv_with N F W) (markExited E p code)"
proof (rule keepsI)
  fix t r t' assume inv: "pt_inv_with N F W t" and eq: "markExited E p code t = Some (r, t')"
  show "pt_inv_with N F W t'"
  proof (cases "\<exists>e. mget (pt_entries t) p = Some e \<and> pe_status e \<noteq> Exited")
    case True
    then obtain e where e: "mget (pt_entries t) p = Some e" "pe_status e \<noteq> Exited" by blast
    let ?t = "cancelAlarm p (upd p (exitEntry (env_now E) code) t)"
    let ?rest = "seqA (env_onExit E p) (seqA (signalParent E (pe_ppid e)) (modifyA (\<lambda>t. scheduleReap p
      (notifyWaiters p (wstatus_of (pe_termSignal e) code) t))))"
    have "pt_inv_with N F W ?t"
      using e by (intro cancelAlarm_inv upd_inv [OF inv]) (auto simp: tame_def entry_ok_def exitEntry_def)
    moreover have "keeps (pt_inv_with N F W) ?rest"
      by (intro keeps_seq onExit_keeps signalParent_keeps keeps_modify scheduleReap_inv notifyWaiters_inv)
    ultimately show ?thesis
      using eq e by (auto simp: markExited_def withEntry_def dest: keepsD)
  qed (use inv eq in \<open>auto simp: markExited_def withEntry_def split: option.splits if_splits\<close>)
qed

lemma forEntries_keeps:
  "(\<And>e acc. keeps (pt_inv_with N F W) (body e acc)) \<Longrightarrow> keeps (pt_inv_with N F W) (forEntries k i body acc)"
proof (induction k arbitrary: i acc)
  case (Suc k)
  show ?case
  proof (rule keepsI)
    fix t r t' assume "pt_inv_with N F W t" "forEntries (Suc k) i body acc t = Some (r, t')"
    then show "pt_inv_with N F W t'"
      using keepsD [OF keeps_andThen [OF Suc.prems Suc.IH [OF Suc.prems]], of t] by (auto split: if_splits)
  qed
qed simp

lemma pt_kill_keeps: "keeps (pt_inv_with N F W) (pt_kill E p g)"
proof (cases "g < 0 \<or> 64 < g")
  case False
  then have "keeps (pt_inv_with N F W) (deliverSignal E q g)" if "g \<noteq> 0" for q
    using that by (intro deliverSignal_keeps) auto
  then show ?thesis
    unfolding pt_kill_def killMember_def by (intro proc_keeps forEntries_keeps) auto
qed (simp add: pt_kill_def)

lemma killGroupExcludeLeaders_keeps: "keeps (pt_inv_with N F W) (killGroupExcludeLeaders E p g)"
proof (cases "g < 0 \<or> 64 < g")
  case False
  then have "keeps (pt_inv_with N F W) (deliverSignal E q g)" if "g \<noteq> 0" for q
    using that by (intro deliverSignal_keeps) auto
  then show ?thesis
    unfolding killGroupExcludeLeaders_def groupMember_def by (intro proc_keeps forEntries_keeps) auto
qed (simp add: killGroupExcludeLeaders_def)

lemma pt_alarm_keeps: "keeps (pt_inv_with N F W) (pt_alarm E p n)"
  by (rule keepsI) (auto simp: pt_alarm_def lookup_def Let_def split: option.splits if_splits
      elim!: frame_inv)

lemma fireAlarm_keeps: "keeps (pt_inv_with N F W) (fireAlarm E p)"
proof -
  have "keeps (pt_inv_with N F W) (seqA (modifyA (cancelAlarm p))
     (withEntry p (\<lambda>e. if pe_status e \<noteq> Running then ret () else deliverSignal E p SIGALRM)))"
    by (intro proc_keeps keeps_modify cancelAlarm_inv deliverSignal_keeps) (simp_all add: sig_defs)
  then show ?thesis by (auto simp: keeps_def fireAlarm_def)
qed

lemma sigprocmask_keeps: "keeps (pt_inv_with N F W) (sigprocmask E p how gs)"
  unfolding sigprocmask_def Let_def
  by (intro proc_keeps deliverPendingSignals_keeps dispatchSignal_keeps)

lemma reap_keeps: "p \<notin> fst ` F \<Longrightarrow> keeps (pt_inv_with N F W) (reap E p)"
proof -
  assume p: "p \<notin> fst ` F"
  have "keeps (pt_inv_with N F W) (modifyA (\<lambda>t. t\<lparr>pt_entries := mdel p (pt_entries t)\<rparr>))"
  proof (rule keeps_modify)
    fix t assume inv: "pt_inv_with N F W t"
    let ?t = "t\<lparr>pt_entries := mdel p (pt_entries t)\<rparr>"
    have "pt_inv ?t"
      using inv by (auto simp: pt_inv_with_def pt_inv_def waiters_ok_def waiting_def split: if_splits)
    moreover have "tracked F W ?t" using inv p by (force simp: pt_inv_with_def tracked_def)
    ultimately show "pt_inv_with N F W ?t" using inv by (simp add: pt_inv_with_def)
  qed
  then show ?thesis unfolding reap_def by (intro proc_keeps onReap_keeps)
qed

lemma fireZombie_keeps: "p \<notin> fst ` F \<Longrightarrow> keeps (pt_inv_with N F W) (fireZombie E p)"
proof -
  assume "p \<notin> fst ` F"
  then have "keeps (pt_inv_with N F W) (seqA (modifyA (\<lambda>t. t\<lparr>pt_zombies := mdel p (pt_zombies t)\<rparr>)) (reap E p))"
    by (intro keeps_seq reap_keeps keeps_modify) (auto elim: frame_inv)
  then show ?thesis by (auto simp: keeps_def fireZombie_def)
qed

lemma killEach_keeps: "keeps (pt_inv_with N F W) (killEach E g ps)"
  by (induction ps) (simp_all only: killEach.simps keeps_basic keeps_seq keeps_swallow driverKill_keeps)

lemma terminateBegin_keeps: "keeps (pt_inv_with N F W) (terminateBegin E)"
proof (rule keepsI)
  fix t r t' assume inv: "pt_inv_with N F W t" and eq: "terminateBegin E t = Some (r, t')"
  have "pt_inv_with N F W (t\<lparr>pt_zombies := [], pt_alarms := []\<rparr>)" using inv by (rule frame_inv) simp_all
  then show "pt_inv_with N F W t'"
    using eq keepsD [OF keeps_seq [OF killEach_keeps keeps_basic(1)]] by (auto simp: terminateBegin_def Let_def)
qed

lemma terminateEscalate_keeps: "keeps (pt_inv_with N F W) (terminateEscalate E ps)"
  using killEach_keeps by (auto simp: keeps_def terminateEscalate_def)

end

lemma sigaction_keeps: "keeps (pt_inv_with N F W) (sigaction p g h)"
  unfolding sigaction_def by (intro proc_keeps) (auto simp: catchable_def)

lemma setpgid_keeps: "keeps (pt_inv_with N F W) (setpgid p g)"
  by (rule keepsI) (auto simp: setpgid_def lookup_def Let_def split: option.splits if_splits
      intro!: upd_inv simp: entry_ok_def tame_def)

lemma setsid_keeps: "keeps (pt_inv_with N F W) (setsid p)"
  unfolding setsid_def by (intro proc_keeps keeps_upd) (simp_all add: entry_ok_def tame_def)

lemma handles_keep:
  "keeps (pt_inv_with N F W) (registerHandle p h d)" "keeps (pt_inv_with N F W) (unregisterHandle p h)"
  "keeps (pt_inv_with N F W) (setHandleLimit p n)"
  unfolding registerHandle_def unregisterHandle_def setHandleLimit_def
  by (intro proc_keeps keeps_upd; simp add: entry_ok_def tame_def)+

subsection \<open>Calls and reentrant callbacks\<close>

text \<open>
  The exported operations as calls. \<open>PcSpawn\<close> is \<^verbatim>\<open>allocatePid\<close> followed by \<^verbatim>\<open>register\<close>, as the kernel
  uses them; \<open>PcFireAlarm\<close> and \<open>PcFireZombie\<close> are the timer callbacks, which only the event loop runs.
\<close>

datatype proc_call =
    PcSpawn string string "string list" ProcessContext
  | PcExit pid int
  | PcWait pid u32
  | PcKill pid int
  | PcKillGroup pid int
  | PcAlarm pid int
  | PcAction pid int SignalHandler
  | PcMask pid int "int list"
  | PcStop pid
  | PcCont pid
  | PcSetpgid pid pid
  | PcSetsid pid
  | PcHandle pid string string
  | PcUnhandle pid string
  | PcLimit pid int
  | PcTerminate
  | PcEscalate "pid list"
  | PcFireAlarm pid
  | PcFireZombie pid

definition voidA :: "('s, 'a) act \<Rightarrow> ('s, unit) act" where
  "voidA m = andThen m (\<lambda>_. ret ())"

definition spawn :: "int \<Rightarrow> string \<Rightarrow> string \<Rightarrow> string list \<Rightarrow> ProcessContext \<Rightarrow> 'z ProcessTable_scheme \<Rightarrow> 'z ProcessTable_scheme" where
  "spawn now driver command args ctx t =
     (let (pid, t1) = allocatePid t in pt_register now pid driver command args ctx t1)"

fun proc_do :: "'z ProcEnv \<Rightarrow> proc_call \<Rightarrow> ('z, unit) proc" where
  "proc_do E (PcSpawn d c as ctx) = modifyA (spawn (env_now E) d c as ctx)"
| "proc_do E (PcExit p code) = markExited E p code"
| "proc_do E (PcWait p opts) = voidA (waitpid p opts)"
| "proc_do E (PcKill p g) = pt_kill E p g"
| "proc_do E (PcKillGroup p g) = voidA (killGroupExcludeLeaders E p g)"
| "proc_do E (PcAlarm p n) = voidA (pt_alarm E p n)"
| "proc_do E (PcAction p g h) = voidA (sigaction p g h)"
| "proc_do E (PcMask p how gs) = voidA (sigprocmask E p how gs)"
| "proc_do E (PcStop p) = pt_stop p"
| "proc_do E (PcCont p) = pt_cont p"
| "proc_do E (PcSetpgid p g) = setpgid p g"
| "proc_do E (PcSetsid p) = voidA (setsid p)"
| "proc_do E (PcHandle p h d) = registerHandle p h d"
| "proc_do E (PcUnhandle p h) = unregisterHandle p h"
| "proc_do E (PcLimit p n) = setHandleLimit p n"
| "proc_do E PcTerminate = voidA (terminateBegin E)"
| "proc_do E (PcEscalate ps) = terminateEscalate E ps"
| "proc_do E (PcFireAlarm p) = fireAlarm E p"
| "proc_do E (PcFireZombie p) = fireZombie E p"

fun sync_call :: "proc_call \<Rightarrow> bool" where
  "sync_call (PcFireAlarm _) = False"
| "sync_call (PcFireZombie _) = False"
| "sync_call _ = True"

text \<open>
  A script says which calls each callback makes. \<open>script_env\<close> runs them: callbacks at depth \<open>d + 1\<close>
  call a table whose own callbacks run at depth \<open>d\<close>, and at depth 0 a callback does not return.
\<close>

record script =
  sc_handler :: "nat \<Rightarrow> int \<Rightarrow> proc_call list"
  sc_kill :: "pid \<Rightarrow> int \<Rightarrow> proc_call list"
  sc_onExit :: "pid \<Rightarrow> proc_call list"
  sc_onReap :: "pid \<Rightarrow> proc_call list"

primrec run_script :: "'z ProcEnv \<Rightarrow> proc_call list \<Rightarrow> ('z, unit) proc" where
  "run_script E [] = ret ()"
| "run_script E (c # cs) = seqA (proc_do E c) (run_script E cs)"

primrec script_env :: "script \<Rightarrow> int \<Rightarrow> nat \<Rightarrow> nat \<Rightarrow> 'z ProcEnv" where
  "script_env sc now fuel 0 = \<lparr>env_now = now, env_fuel = fuel,
     env_handler = (\<lambda>_ _. divergeA), env_kill = (\<lambda>_ _. divergeA),
     env_onExit = (\<lambda>_. divergeA), env_onReap = (\<lambda>_. divergeA)\<rparr>"
| "script_env sc now fuel (Suc d) = \<lparr>env_now = now, env_fuel = fuel,
     env_handler = (\<lambda>h g. run_script (script_env sc now fuel d) (filter sync_call (sc_handler sc h g))),
     env_kill = (\<lambda>p g. run_script (script_env sc now fuel d) (filter sync_call (sc_kill sc p g))),
     env_onExit = (\<lambda>p. run_script (script_env sc now fuel d) (filter sync_call (sc_onExit sc p))),
     env_onReap = (\<lambda>p. run_script (script_env sc now fuel d) (filter sync_call (sc_onReap sc p)))\<rparr>"

lemma newEntry_ok: "entry_ok p (newEntry now p d c as ctx parent)"
  by (simp add: newEntry_def entry_ok_def sig_ok_def ss_new_def wq_inv_new)

lemma spawn_eq:
  "spawn now d c as ctx t = t\<lparr>pt_nextPid := pt_nextPid t + 1, pt_entries :=
     mput (pt_nextPid t) (newEntry now (pt_nextPid t) d c as ctx (parentOf ctx t)) (pt_entries t)\<rparr>"
  by (simp add: spawn_def allocatePid_def pt_register_def parentOf_def)

lemma spawn_inv:
  assumes inv: "pt_inv_with N F W t" shows "pt_inv_with N F W (spawn now d c as ctx t)"
proof -
  have lt: "mget (pt_entries t) p = Some x \<Longrightarrow> entry_ok p x \<and> 1 \<le> p \<and> p < pt_nextPid t" for p x
    using inv by (simp add: pt_inv_with_def pt_inv_def)
  have "pt_inv (spawn now d c as ctx t)"
    using inv lt newEntry_ok by (fastforce simp: spawn_eq pt_inv_with_def pt_inv_def waiters_ok_def waiting_def)
  moreover have "tracked F W (spawn now d c as ctx t)"
    using inv lt by (fastforce simp: spawn_eq pt_inv_with_def tracked_def)
  ultimately show ?thesis using inv by (simp add: pt_inv_with_def spawn_eq)
qed

lemma voidA_keeps: "keeps I m \<Longrightarrow> keeps I (voidA m)"
  unfolding voidA_def by (intro keeps_andThen keeps_basic)

context proc_callbacks
begin

lemma proc_do_keeps:
  "(\<And>p. c = PcFireZombie p \<Longrightarrow> p \<notin> fst ` F) \<Longrightarrow> keeps (pt_inv_with N F W) (proc_do E c)"
  by (cases c) (simp_all add: voidA_keeps markExited_keeps waitpid_keeps pt_kill_keeps
      killGroupExcludeLeaders_keeps pt_alarm_keeps sigaction_keeps sigprocmask_keeps pt_stop_keeps
      pt_cont_keeps setpgid_keeps setsid_keeps handles_keep terminateBegin_keeps
      terminateEscalate_keeps fireAlarm_keeps fireZombie_keeps keeps_modify spawn_inv
      del: act_simps)

lemma run_script_keeps: "list_all sync_call cs \<Longrightarrow> keeps (pt_inv_with N F W) (run_script E cs)"
proof (induction cs)
  case (Cons c cs)
  then have "keeps (pt_inv_with N F W) (proc_do E c)" by (intro proc_do_keeps) auto
  with Cons show ?case by (simp add: keeps_seq)
qed (simp only: run_script.simps keeps_basic)

end

lemma script_env_callbacks: "proc_callbacks (script_env sc now fuel d) F W N"
proof (induction d)
  case 0
  show ?case by unfold_locales simp_all
next
  case (Suc d)
  have "list_all sync_call (filter sync_call cs)" for cs by (simp add: list_all_iff)
  note k = proc_callbacks.run_script_keeps [OF Suc this]
  show ?case by unfold_locales (simp_all add: k)
qed

interpretation scripted: proc_callbacks "script_env sc now fuel d" F W N for sc now fuel d F W N
  by (rule script_env_callbacks)

subsection \<open>Runs\<close>

text \<open>
  A run performs calls at given times. A call that does not return leaves the table as it was: the
  event loop never comes back from it.
\<close>

definition proc_step :: "script \<Rightarrow> nat \<Rightarrow> nat \<Rightarrow> int \<times> proc_call \<Rightarrow> 'z ProcessTable_scheme \<Rightarrow> 'z ProcessTable_scheme" where
  "proc_step sc fuel d = (\<lambda>(now, c) t.
     case proc_do (script_env sc now fuel d) c t of None \<Rightarrow> t | Some (_, t') \<Rightarrow> t')"

definition reap_spares :: "(pid \<times> int) set \<Rightarrow> int \<times> proc_call \<Rightarrow> 'z ProcessTable_scheme \<Rightarrow> bool" where
  "reap_spares F = (\<lambda>(_, c) _. case c of PcFireZombie p \<Rightarrow> p \<notin> fst ` F | _ \<Rightarrow> True)"

lemma proc_step_inv:
  assumes "pt_inv_with N F W t" "reap_spares F nc t"
  shows "pt_inv_with N F W (proc_step sc fuel d nc t)"
proof -
  obtain now c where nc: "nc = (now, c)" by (cases nc)
  have "keeps (pt_inv_with N F W) (proc_do (script_env sc now fuel d) c)"
    using assms(2) by (intro scripted.proc_do_keeps) (auto simp: nc reap_spares_def)
  then show ?thesis using assms(1) by (auto simp: nc proc_step_def split: option.split dest: keepsD)
qed

interpretation proc_machine: invariant_component "proc_step sc fuel d" "reap_spares F" "pt_inv_with N F W"
  for sc fuel d F W N
  by unfold_locales (rule proc_step_inv)

interpretation proc_pids: id_allocator allocatePid "\<lambda>t p. p < pt_nextPid t"
  by unfold_locales (auto simp: allocatePid_def)

subsection \<open>Delivery of pending signals\<close>

text \<open>
  Callbacks are quiet if they return without touching the table: a handler that only runs user code,
  a driver that exits later. \<open>drained p gs t t'\<close> says what delivering exactly the signals \<open>gs\<close>, in this
  order, does to the table.
\<close>

definition quiet_env :: "'z ProcEnv \<Rightarrow> bool" where
  "quiet_env E \<longleftrightarrow> (\<forall>h g. env_handler E h g = ret ()) \<and> (\<forall>p g. env_kill E p g = ret ()) \<and>
     (\<forall>p. env_onExit E p = ret ()) \<and> (\<forall>p. env_onReap E p = ret ())"

definition sig_events :: "pid \<Rightarrow> (int, SignalHandler) jsmap \<Rightarrow> int \<Rightarrow> proc_event list" where
  "sig_events p hs g =
     (let dfl = (if g = SIGCHLD \<or> g = SIGWINCH then [] else [EvKill p g])
      in case mget hs g of None \<Rightarrow> dfl
         | Some r \<Rightarrow> (case sh_handler r of SigDefault \<Rightarrow> dfl | SigIgnore \<Rightarrow> [] | SigUser h \<Rightarrow> [EvHandler h g]))"

definition deliverable :: "ProcessEntry \<Rightarrow> int list" where
  "deliverable e = filter (\<lambda>g. g \<notin> set (ss_blocked (pe_signal e))) (ss_pending (pe_signal e))"

definition drained_entries :: "int list \<Rightarrow> ProcessEntry \<Rightarrow> ProcessEntry \<Rightarrow> bool" where
  "drained_entries gs e e' \<longleftrightarrow> pe_status e' \<noteq> Exited \<and>
     ss_blocked (pe_signal e') = ss_blocked (pe_signal e) \<and>
     ss_pending (pe_signal e') = filter (\<lambda>g. g \<notin> set gs) (ss_pending (pe_signal e)) \<and>
     (\<forall>g. g \<notin> set gs \<longrightarrow> mget (ss_handlers (pe_signal e')) g = mget (ss_handlers (pe_signal e)) g)"

definition drained :: "pid \<Rightarrow> int list \<Rightarrow> 'z ProcessTable_scheme \<Rightarrow> 'z ProcessTable_scheme \<Rightarrow> bool" where
  "drained p gs t t' \<longleftrightarrow> (\<exists>e e'. mget (pt_entries t) p = Some e \<and> mget (pt_entries t') p = Some e' \<and>
     drained_entries gs e e' \<and>
     pt_log t' = pt_log t @ concat (map (sig_events p (ss_handlers (pe_signal e))) gs)) \<and>
     (\<forall>q. q \<noteq> p \<longrightarrow> mget (pt_entries t') q = mget (pt_entries t) q) \<and> pt_waiters t' = pt_waiters t \<and>
     pt_zombies t' = pt_zombies t"

lemma drained_entry:
  assumes "drained p gs t t'" "mget (pt_entries t) p = Some e"
  obtains e' where "mget (pt_entries t') p = Some e'" "drained_entries gs e e'"
    "pt_log t' = pt_log t @ concat (map (sig_events p (ss_handlers (pe_signal e))) gs)"
  using assms by (auto simp: drained_def)

lemma drained_deliverable:
  "drained_entries gs e e' \<Longrightarrow> deliverable e' = filter (\<lambda>g. g \<notin> set gs) (deliverable e)"
  by (simp add: drained_entries_def deliverable_def conj_commute)

lemma drained_entries_trans:
  "drained_entries gs e e1 \<Longrightarrow> drained_entries gs' e1 e' \<Longrightarrow> drained_entries (gs @ gs') e e'"
  by (auto simp: drained_entries_def intro: filter_cong)

lemma sig_events_drained:
  "drained_entries gs e e1 \<Longrightarrow> set gs \<inter> set gs' = {} \<Longrightarrow>
   map (sig_events p (ss_handlers (pe_signal e1))) gs' = map (sig_events p (ss_handlers (pe_signal e))) gs'"
  by (auto simp: drained_entries_def sig_events_def)

lemma drained_trans:
  assumes "drained p gs t t1" "drained p gs' t1 t'" "set gs \<inter> set gs' = {}"
  shows "drained p (gs @ gs') t t'"
proof -
  obtain e where e: "mget (pt_entries t) p = Some e" using assms(1) by (auto simp: drained_def)
  obtain e1 where e1: "mget (pt_entries t1) p = Some e1" "drained_entries gs e e1"
    "pt_log t1 = pt_log t @ concat (map (sig_events p (ss_handlers (pe_signal e))) gs)"
    using drained_entry [OF assms(1) e] by blast
  obtain e' where e': "mget (pt_entries t') p = Some e'" "drained_entries gs' e1 e'"
    "pt_log t' = pt_log t1 @ concat (map (sig_events p (ss_handlers (pe_signal e1))) gs')"
    using drained_entry [OF assms(2) e1(1)] by blast
  have "pt_log t' = pt_log t @ concat (map (sig_events p (ss_handlers (pe_signal e))) (gs @ gs'))"
    using e1(3) e'(3) sig_events_drained [OF e1(2) assms(3)] by simp
  with e e'(1) drained_entries_trans [OF e1(2) e'(2)] assms(1,2) show ?thesis
    unfolding drained_def by auto
qed

lemma drained_Nil: "mget (pt_entries t) p = Some e \<Longrightarrow> pe_status e \<noteq> Exited \<Longrightarrow> drained p [] t t"
  by (simp add: drained_def drained_entries_def)

lemma sort_filter_del:
  "distinct xs \<Longrightarrow> g \<in> set xs \<Longrightarrow> (\<And>x. x \<in> set xs \<Longrightarrow> g \<le> x) \<Longrightarrow>
   sort xs = g # sort (filter (\<lambda>x. x \<noteq> g) (xs :: int list))"
  by (rule sorted_distinct_set_unique) auto


lemma updSig_simps [simp]:
  "pt_nextPid (updSig p f t) = pt_nextPid t" "pt_waiters (updSig p f t) = pt_waiters t"
  "pt_log (updSig p f t) = pt_log t" "pt_zombies (updSig p f t) = pt_zombies t"
  by (simp_all add: updSig_def)

lemma mget_updSig: "mget (pt_entries (updSig p f t)) q =
    (if q = p then map_option (\<lambda>e. e\<lparr>pe_signal := f (pe_signal e)\<rparr>) (mget (pt_entries t) p)
     else mget (pt_entries t) q)"
  by (simp add: updSig_def mget_upd)

lemma logEv_simps [simp]:
  "pt_entries (logEv ev t) = pt_entries t" "pt_waiters (logEv ev t) = pt_waiters t"
  "pt_log (logEv ev t) = pt_log t @ [ev]" "pt_zombies (logEv ev t) = pt_zombies t"
  by (simp_all add: logEv_def)

text \<open>One default action with a quiet driver.\<close>

lemma defaultDispatch_quiet:
  assumes q: "quiet_env E" and e: "mget (pt_entries t) p = Some e" "pe_status e \<noteq> Exited"
    and g: "catchable g" "g \<notin> set (ss_pending (pe_signal e))"
    and h: "mget (ss_handlers (pe_signal e)) g = None \<or>
      (\<exists>r. mget (ss_handlers (pe_signal e)) g = Some r \<and> sh_handler r = SigDefault)"
  shows "\<exists>t'. defaultDispatch E p g t = Some (Inr (), t') \<and> drained p [g] t t'"
proof -
  have pend: "filter (\<lambda>x. x \<noteq> g) (ss_pending (pe_signal e)) = ss_pending (pe_signal e)"
    using g(2) by (auto simp: filter_id_conv)
  have ev: "sig_events p (ss_handlers (pe_signal e)) g =
      (if g = SIGCHLD \<or> g = SIGWINCH then [] else [EvKill p g])"
    using h by (auto simp: sig_events_def Let_def)
  from q have k: "env_kill E p' g' = ret ()" for p' g' by (simp add: quiet_env_def)
  show ?thesis
    using g(1) e pend ev
    by (auto simp: defaultDispatch_def applyDefaultAction_def driverKill_def k drained_def drained_entries_def
        pt_stop_def pt_cont_def lookup_def mget_updSig mget_upd recordSignalDelivery_def seqA_def
        andThen_def sig_defs catchable_def)
qed

lemma runHandler_quiet:
  "quiet_env E \<Longrightarrow> runHandler E p g h ms saved t = Some (Inr (),
     updSig p (\<lambda>s. s\<lparr>ss_blocked := saved\<rparr>) (logEv (EvHandler h g)
       (updSig p (\<lambda>s. s\<lparr>ss_blocked := sadd g (fold sadd ms saved)\<rparr>) t)))"
  by (simp add: quiet_env_def runHandler_def seqA_def andThen_def finallyA_def)

lemma user_dispatch_quiet:
  assumes q: "quiet_env E" and e: "mget (pt_entries t) p = Some e" "pe_status e \<noteq> Exited"
    and g: "g \<notin> set (ss_pending (pe_signal e))"
    and h: "mget (ss_handlers (pe_signal e)) g = Some r" "sh_handler r = SigUser h"
  shows "\<exists>t1. drained p [g] t t1 \<and>
    dispatchSignal E (Suc n) p g t = deliverPendingSignals (dispatchSignal E n p) p t1"
proof -
  let ?t0 = "updSig p (\<lambda>s. s\<lparr>ss_blocked := ss_blocked (pe_signal e)\<rparr>) (logEv (EvHandler h g)
    (updSig p (\<lambda>s. s\<lparr>ss_blocked := sadd g (fold sadd (sh_mask r) (ss_blocked (pe_signal e)))\<rparr>)
      (updSig p (recordSignalDelivery g (sh_flags r)) t)))"
  let ?t1 = "if sh_flags r AND SA_RESETHAND \<noteq> 0
    then updSig p (\<lambda>s. s\<lparr>ss_handlers := mput g \<lparr>sh_handler = SigDefault, sh_mask = [], sh_flags = 0\<rparr>
      (ss_handlers s)\<rparr>) ?t0 else ?t0"
  have pend: "filter (\<lambda>x. x \<noteq> g) (ss_pending (pe_signal e)) = ss_pending (pe_signal e)"
    using g by (auto simp: filter_id_conv)
  have "sig_events p (ss_handlers (pe_signal e)) g = [EvHandler h g]"
    using h by (simp add: sig_events_def)
  then have "drained p [g] t ?t1"
    using e pend by (simp add: drained_def drained_entries_def mget_updSig recordSignalDelivery_def)
  moreover have "dispatchSignal E (Suc n) p g t = deliverPendingSignals (dispatchSignal E n p) p ?t1"
    using e h by (simp add: withEntry_def seqA_def andThen_def runHandler_quiet [OF q] resetHandler_def)
  ultimately show ?thesis by blast
qed

definition pending_ok :: "ProcessEntry \<Rightarrow> bool" where
  "pending_ok e \<longleftrightarrow> distinct (ss_pending (pe_signal e)) \<and> (\<forall>g \<in> set (ss_pending (pe_signal e)). catchable g)"

lemma pending_ok_drained: "drained_entries gs e e' \<Longrightarrow> pending_ok e \<Longrightarrow> pending_ok e'"
  by (auto simp: pending_ok_def drained_entries_def)

lemma deliverPending_loop:
  "mget (pt_entries t) p = Some e \<Longrightarrow> pe_status e \<noteq> Exited \<Longrightarrow>
   deliverPendingSignals disp p t = pendingLoop disp p (sort (ss_pending (pe_signal e))) t"
  by (simp add: deliverPendingSignals_def withEntry_def)

text \<open>
  The two halves of the recursion: dispatching one signal delivers it, and with it, if its handler is
  user code, everything deliverable; the loop delivers everything deliverable in ascending order.
\<close>

lemma drained_sdel:
  assumes "drained p gs (updSig p (\<lambda>s. s\<lparr>ss_pending := sdel g (ss_pending s)\<rparr>) t) t'" "g \<in> set gs"
  shows "drained p gs t t'"
proof -
  have "filter (\<lambda>x. x \<notin> set gs) (sdel g xs) = filter (\<lambda>x. x \<notin> set gs) xs" for xs
    using assms(2) by (auto simp: sdel_def intro: filter_cong)
  with assms(1) show ?thesis by (auto simp: drained_def drained_entries_def mget_updSig)
qed

definition dispatch_spec :: "(int \<Rightarrow> ('z, unit) proc) \<Rightarrow> pid \<Rightarrow> nat \<Rightarrow> bool" where
  "dispatch_spec disp p n \<longleftrightarrow> (\<forall>t e g. mget (pt_entries t) p = Some e \<longrightarrow> pe_status e \<noteq> Exited \<longrightarrow>
     pending_ok e \<longrightarrow> catchable g \<longrightarrow> g \<notin> set (ss_pending (pe_signal e)) \<longrightarrow> length (deliverable e) < n \<longrightarrow>
     (\<exists>t'. disp g t = Some (Inr (), t') \<and> (drained p [g] t t' \<or> drained p (g # sort (deliverable e)) t t')))"

lemma pendingLoop_drains:
  assumes spec: "dispatch_spec disp p n"
  shows "mget (pt_entries t) p = Some e \<Longrightarrow> pe_status e \<noteq> Exited \<Longrightarrow> pending_ok e \<Longrightarrow> sorted gs \<Longrightarrow> distinct gs \<Longrightarrow>
    set (deliverable e) \<subseteq> set gs \<Longrightarrow> length (deliverable e) \<le> n \<Longrightarrow>
    \<exists>t'. pendingLoop disp p gs t = Some (Inr (), t') \<and> drained p (sort (deliverable e)) t t'"
proof (induction gs arbitrary: t e)
  case Nil
  then show ?case by (simp add: drained_Nil)
next
  case (Cons g gs)
  show ?case
  proof (cases "g \<in> set (deliverable e)")
    case False
    then have "pendingLoop disp p (g # gs) t = pendingLoop disp p gs t"
      using Cons.prems(1) by (auto simp: withEntry_def deliverable_def)
    with Cons False show ?thesis by auto
  next
    case True
    let ?e = "e\<lparr>pe_signal := (pe_signal e)\<lparr>ss_pending := sdel g (ss_pending (pe_signal e))\<rparr>\<rparr>"
    let ?t = "updSig p (\<lambda>s. s\<lparr>ss_pending := sdel g (ss_pending s)\<rparr>) t"
    have e0: "mget (pt_entries ?t) p = Some ?e" using Cons.prems(1) by (simp add: mget_updSig)
    have del: "deliverable ?e = filter (\<lambda>x. x \<noteq> g) (deliverable e)"
      by (simp add: deliverable_def sdel_def conj_commute)
    have dist: "distinct (deliverable e)" using Cons.prems(3) by (simp add: deliverable_def pending_ok_def)
    have len: "length (deliverable ?e) < length (deliverable e)"
      using True by (auto simp: del intro!: length_filter_less)
    have srt: "sort (deliverable e) = g # sort (deliverable ?e)"
      unfolding del using dist True by (rule sort_filter_del) (use Cons.prems(4,6) in auto)
    obtain t1 where t1: "disp g ?t = Some (Inr (), t1)"
      and d1: "drained p [g] t t1 \<or> drained p (g # sort (deliverable ?e)) t t1"
    proof -
      have "pending_ok ?e" "catchable g" "g \<notin> set (ss_pending (pe_signal ?e))" "pe_status ?e \<noteq> Exited"
        using Cons.prems(2,3) True by (auto simp: pending_ok_def deliverable_def)
      moreover have "length (deliverable ?e) < n" using len Cons.prems(7) by simp
      ultimately obtain t1 where "disp g ?t = Some (Inr (), t1)"
        "drained p [g] ?t t1 \<or> drained p (g # sort (deliverable ?e)) ?t t1"
        using spec [unfolded dispatch_spec_def, rule_format, OF e0] by blast
      moreover have "drained p gs' ?t t1 \<Longrightarrow> g \<in> set gs' \<Longrightarrow> drained p gs' t t1" for gs'
        by (rule drained_sdel)
      ultimately show ?thesis using that by auto
    qed
    obtain gs1 where gs1: "drained p gs1 t t1" "gs1 = [g] \<or> gs1 = g # sort (deliverable ?e)"
      using d1 by blast
    obtain e1 where e1: "mget (pt_entries t1) p = Some e1" "drained_entries gs1 e e1"
      using drained_entry [OF gs1(1) Cons.prems(1)] by blast
    have live: "pe_status e1 \<noteq> Exited" using e1(2) by (simp add: drained_entries_def)
    have step: "pendingLoop disp p (g # gs) t = pendingLoop disp p gs t1"
      using True Cons.prems(1) t1 e1(1) live by (auto simp: withEntry_def deliverable_def seqA_def andThen_def)
    have d: "deliverable e1 = filter (\<lambda>x. x \<notin> set gs1) (deliverable e)"
      by (rule drained_deliverable [OF e1(2)])
    then have cover: "set (deliverable e1) \<subseteq> set gs" using gs1(2) Cons.prems(6) by auto
    have "gs1 @ sort (deliverable e1) = sort (deliverable e)"
      using gs1(2)
    proof
      assume "gs1 = [g]"
      then show ?thesis by (simp add: srt d del)
    next
      assume g1: "gs1 = g # sort (deliverable ?e)"
      then have "deliverable e1 = []" by (simp add: d del filter_empty_conv)
      then show ?thesis by (simp add: srt g1)
    qed
    moreover have "set gs1 \<inter> set (sort (deliverable e1)) = {}" by (auto simp: d)
    ultimately have join: "drained p (sort (deliverable e1)) t1 t' \<Longrightarrow> drained p (sort (deliverable e)) t t'" for t'
      using drained_trans [OF gs1(1)] by metis
    have "length (deliverable e1) \<le> n"
      unfolding d using length_filter_le Cons.prems(7) by (rule le_trans)
    then obtain t' where "pendingLoop disp p gs t1 = Some (Inr (), t')" "drained p (sort (deliverable e1)) t1 t'"
      using Cons.IH [OF e1(1) live pending_ok_drained [OF e1(2) Cons.prems(3)]] Cons.prems(4,5) cover by auto
    with join step show ?thesis by auto
  qed
qed

lemma dispatch_returns:
  assumes q: "quiet_env E" shows "dispatch_spec (dispatchSignal E n p) p n"
proof (induction n)
  case 0
  show ?case by (simp add: dispatch_spec_def)
next
  case (Suc n)
  show ?case unfolding dispatch_spec_def
  proof (intro allI impI)
    fix t :: "'a ProcessTable_scheme" and e g
    assume e: "mget (pt_entries t) p = Some e" "pe_status e \<noteq> Exited" and ok: "pending_ok e"
      and g: "catchable g" "g \<notin> set (ss_pending (pe_signal e))" and len: "length (deliverable e) < Suc n"
    let ?h = "mget (ss_handlers (pe_signal e)) g"
    consider (dfl) "?h = None \<or> (\<exists>r. ?h = Some r \<and> sh_handler r = SigDefault)"
      | (ign) r where "?h = Some r" "sh_handler r = SigIgnore"
      | (user) r h where "?h = Some r" "sh_handler r = SigUser h"
      by (metis SignalDisposition.exhaust not_None_eq)
    then show "\<exists>t'. dispatchSignal E (Suc n) p g t = Some (Inr (), t') \<and>
        (drained p [g] t t' \<or> drained p (g # sort (deliverable e)) t t')"
    proof cases
      case dfl
      then have "dispatchSignal E (Suc n) p g t = defaultDispatch E p g t"
        using e by (auto simp: withEntry_def)
      with defaultDispatch_quiet [OF q e g dfl] show ?thesis by auto
    next
      case ign
      have "filter (\<lambda>x. x \<noteq> g) (ss_pending (pe_signal e)) = ss_pending (pe_signal e)"
        using g(2) by (auto simp: filter_id_conv)
      with ign e have "drained p [g] t t"
        by (simp add: drained_def drained_entries_def sig_events_def)
      moreover have "dispatchSignal E (Suc n) p g t = Some (Inr (), t)" using ign e by (simp add: withEntry_def)
      ultimately show ?thesis by blast
    next
      case user
      obtain t1 where t1: "drained p [g] t t1"
        "dispatchSignal E (Suc n) p g t = deliverPendingSignals (dispatchSignal E n p) p t1"
        using user_dispatch_quiet [OF q e g(2) user] by blast
      obtain e1 where e1: "mget (pt_entries t1) p = Some e1" "drained_entries [g] e e1"
        using drained_entry [OF t1(1) e(1)] by blast
      have live: "pe_status e1 \<noteq> Exited" using e1(2) by (simp add: drained_entries_def)
      have ok1: "pending_ok e1" by (rule pending_ok_drained [OF e1(2) ok])
      have del: "deliverable e1 = deliverable e"
        using drained_deliverable [OF e1(2)] g(2) by (auto simp: deliverable_def intro!: filter_cong)
      have "\<exists>t'. pendingLoop (dispatchSignal E n p) p (sort (ss_pending (pe_signal e1))) t1 = Some (Inr (), t') \<and>
          drained p (sort (deliverable e1)) t1 t'"
        using ok1 len by (intro pendingLoop_drains [OF Suc e1(1) live])
          (auto simp: pending_ok_def deliverable_def [of e1] del [symmetric])
      then obtain t' where "dispatchSignal E (Suc n) p g t = Some (Inr (), t')" "drained p (sort (deliverable e)) t1 t'"
        using t1(2) deliverPending_loop [OF e1(1) live] by (auto simp: del)
      moreover have "set [g] \<inter> set (sort (deliverable e)) = {}" using g(2) by (simp add: deliverable_def)
      ultimately show ?thesis using drained_trans [OF t1(1)] by fastforce
    qed
  qed
qed

subsection \<open>Properties\<close>

lemma reap_spares_empty: "reap_spares {} = (\<lambda>_ _. True)"
  by (auto simp: reap_spares_def fun_eq_iff split: proc_call.split)

lemma reachable_inv: "pt_inv (run_ops (proc_step sc fuel d) calls pt_new)"
  using proc_machine.run_inv [of 1 "{}" "{}" pt_new sc fuel d calls]
  by (simp add: pt_inv_new reap_spares_empty)

text \<open>
  C31. In every reachable table, whatever the callbacks do to the table (handlers, drivers and exit
  hooks may re-enter it to any depth): an entry carries its own key as pid, pids come from the
  allocator, a process has an exit code exactly if it has exited, and SIGKILL and SIGSTOP are never
  caught, ignored or left pending.
\<close>

theorem process_entries_wellformed:
  assumes "mget (pt_entries (run_ops (proc_step sc fuel d) calls pt_new)) p = Some e"
  shows "pe_pid e = p \<and> 1 \<le> p \<and> p < pt_nextPid (run_ops (proc_step sc fuel d) calls pt_new) \<and>
    (pe_exitCode e \<noteq> None \<longleftrightarrow> pe_status e = Exited) \<and>
    (\<forall>g. mhas (ss_handlers (pe_signal e)) g \<or> g \<in> set (ss_pending (pe_signal e)) \<longrightarrow>
       1 \<le> g \<and> g \<le> 64 \<and> g \<noteq> SIGKILL \<and> g \<noteq> SIGSTOP)"
  using assms reachable_inv [of sc fuel d calls]
  by (auto simp: pt_inv_def entry_ok_def sig_ok_def catchable_def)

definition ctx0 :: ProcessContext where
  "ctx0 = \<lparr>ctx_ppid = 0, ctx_env = [], ctx_cwd = ''/''\<rparr>"

definition silent :: script where
  "silent = \<lparr>sc_handler = (\<lambda>_ _. []), sc_kill = (\<lambda>_ _. []), sc_onExit = (\<lambda>_. []), sc_onReap = (\<lambda>_. [])\<rparr>"

lemmas proc_eval =
  proc_step_def spawn_def allocatePid_def pt_register_def newEntry_def parentOf_def ctx0_def silent_def
  pt_new_def ss_new_def markExited_def withEntry_def lookup_def cancelAlarm_def upd_def exitEntry_def
  updSig_def signalParent_def notifyWaiters_def scheduleReap_def Let_def wstatus_of_def voidA_def
  waitpid_def pt_kill_def deliverSignal_def queueOrDispatch_def sigprocmask_def sigaction_def
  deliverPendingSignals_def sdel_def sadd_def seqA_def andThen_def defaultDispatch_def
  recordSignalDelivery_def applyDefaultAction_def driverKill_def logEv_def sig_defs wq_wakeAll_def
  wq_new_def runHandler_def finallyA_def resetHandler_def pt_stop_def pt_cont_def

theorem process_entries_wellformed_witness:
  "\<exists>e. mget (pt_entries (run_ops (proc_step silent 5 2) [(0, PcSpawn ''node'' ''sh'' [] ctx0)] pt_new)) 1 = Some e \<and>
     pe_pid e = 1"
proof -
  obtain e where e: "mget (pt_entries (run_ops (proc_step silent 5 2)
      [(0, PcSpawn ''node'' ''sh'' [] ctx0)] pt_new)) 1 = Some e"
    by (simp add: proc_eval)
  from e process_entries_wellformed [OF e] show ?thesis by blast
qed

text \<open>
  C32. No waiter is lost and none is told twice: in every reachable table each of the promises that
  \<^verbatim>\<open>waitpid\<close> left unresolved either waits in exactly one queue or has been resolved exactly once.
\<close>

theorem waiters_accounted:
  "waiting (run_ops (proc_step sc fuel d) calls pt_new) w +
   count_list (resolved_waiters (pt_log (run_ops (proc_step sc fuel d) calls pt_new))) w =
   (if w < pt_nextWaiter (run_ops (proc_step sc fuel d) calls pt_new) then 1 else 0)"
  using reachable_inv [of sc fuel d calls] by (simp add: pt_inv_def waiters_ok_def)

lemma wsum_two: "map_of m p = Some a \<Longrightarrow> map_of m q = Some b \<Longrightarrow> p \<noteq> q \<Longrightarrow> f a + f b \<le> wsum f m"
proof (induction m)
  case (Cons x m)
  then show ?case
    by (auto split: if_splits dest: wsum_ge [of m _ _ f])
qed simp

lemma waiting_unique:
  assumes inv: "pt_inv t" and p: "mget (pt_waiters t) p = Some ws" "w \<in> set ws"
    and q: "mget (pt_waiters t) q = Some ws'" "w \<in> set ws'"
  shows "w < pt_nextWaiter t \<and> q = p"
proof -
  have c: "waiting t w + count_list (resolved_waiters (pt_log t)) w = (if w < pt_nextWaiter t then 1 else 0)"
    using inv by (simp add: pt_inv_def waiters_ok_def)
  have "1 \<le> count_list ws w" "1 \<le> count_list ws' w"
    using p(2) q(2) count_list_0_iff [of ws w] count_list_0_iff [of ws' w] by linarith+
  then show ?thesis
    using c wsum_ge [OF p(1), of "\<lambda>ws. count_list ws w"]
      wsum_two [OF p(1) q(1), of "\<lambda>ws. count_list ws w"]
    by (auto simp: waiting_def split: if_splits)
qed

lemma markExited_split:
  assumes "mget (pt_entries t) p = Some e" "pe_status e \<noteq> Exited" "markExited E p code t = Some (Inr (), t')"
  shows "\<exists>t2. seqA (env_onExit E p) (signalParent E (pe_ppid e))
      (cancelAlarm p (upd p (exitEntry (env_now E) code) t)) = Some (Inr (), t2) \<and>
    t' = scheduleReap p (notifyWaiters p (wstatus_of (pe_termSignal e) code) t2)"
  using assms by (auto simp: markExited_def withEntry_def seqA_def andThen_def split: option.splits sum.splits)

lemma waiting_cleared:
  assumes "tracked F {(w, p)} t" "mget (pt_waiters t) p = None" "mwf (pt_waiters t)"
  shows "waiting t w = 0"
proof -
  have "count_list (snd x) w = 0" if x: "x \<in> set (pt_waiters t)" for x
  proof -
    have get: "mget (pt_waiters t) (fst x) = Some (snd x)"
      using x assms(3) by (simp add: map_of_is_SomeI)
    have "\<forall>q ws. mget (pt_waiters t) q = Some ws \<longrightarrow> w \<in> set ws \<longrightarrow> q = p"
      using assms(1) by (simp add: tracked_def)
    with get assms(2) have "w \<notin> set (snd x)" by force
    then show ?thesis by (simp add: count_list_0_iff)
  qed
  then show ?thesis unfolding waiting_def by (rule wsum_zero)
qed

lemma mget_notify: "mget (pt_waiters (scheduleReap p (notifyWaiters p st t))) p = None"
  by (auto simp: scheduleReap_def notifyWaiters_def Let_def split: option.split)

text \<open>Whether the exit of a child runs user code of its parent: a running parent with a handler for SIGCHLD.\<close>

definition sigchld_user :: "'z ProcessTable_scheme \<Rightarrow> pid \<Rightarrow> bool" where
  "sigchld_user t pp \<longleftrightarrow> (\<exists>e r h. mget (pt_entries t) pp = Some e \<and> mget (ss_handlers (pe_signal e)) SIGCHLD = Some r \<and>
     sh_handler r = SigUser h)"

lemma signalParent_plain:
  assumes "\<not> sigchld_user t pp" "0 < env_fuel E"
  shows "signalParent E pp t \<in> {Some (Inr (), t),
    Some (Inr (), updSig pp (\<lambda>s. s\<lparr>ss_pending := sadd SIGCHLD (ss_pending s)\<rparr>) t)}"
proof (cases "0 < pp \<and> (\<exists>e. mget (pt_entries t) pp = Some e \<and> pe_status e = Running)")
  case True
  then obtain e where e: "mget (pt_entries t) pp = Some e" "pe_status e = Running" by blast
  have run: "signalParent E pp t = queueOrDispatch E pp SIGCHLD t"
    using True e by (simp add: signalParent_def withEntry_def deliverSignal_def sig_defs)
  obtain n where n: "env_fuel E = Suc n" using assms(2) by (cases "env_fuel E") auto
  have "dispatchSignal E (Suc n) pp SIGCHLD t = Some (Inr (), t)"
    using e assms(1)
    by (auto simp: sigchld_user_def withEntry_def defaultDispatch_def applyDefaultAction_def seqA_def andThen_def sig_defs
        split: option.split SignalDisposition.split)
  then show ?thesis using e run by (simp add: queueOrDispatch_def withEntry_def n)
qed (auto simp: signalParent_def withEntry_def split: option.split)

lemma script_env_sel [simp]:
  "env_now (script_env sc now fuel d) = now" "env_fuel (script_env sc now fuel d) = fuel"
  by (cases d; simp)+

lemma markExited_rest:
  assumes "mget (pt_entries t) p = Some e" "pe_status e \<noteq> Exited"
  shows "markExited E p code t =
    seqA (seqA (env_onExit E p) (signalParent E (pe_ppid e)))
      (modifyA (\<lambda>t. scheduleReap p (notifyWaiters p (wstatus_of (pe_termSignal e) code) t)))
      (cancelAlarm p (upd p (exitEntry (env_now E) code) t))"
  using assms by (simp add: markExited_def withEntry_def seqA_def andThen_def split: option.split sum.split)

lemma markExited_tracked:
  assumes inv: "pt_inv_with 1 {} W t" and e: "mget (pt_entries t) p = Some e" "pe_status e \<noteq> Exited"
    and run: "markExited (script_env sc now fuel d) p code t = Some (r, t')"
  shows "pt_inv_with 1 {(p, code)} W t'"
proof -
  let ?t1 = "cancelAlarm p (upd p (exitEntry now code) t)"
  have "pt_inv_with 1 {} W ?t1"
    using e by (intro cancelAlarm_inv upd_inv [OF inv]) (auto simp: tame_def entry_ok_def exitEntry_def)
  then have "pt_inv_with 1 {(p, code)} W ?t1"
    using e by (simp add: pt_inv_with_def tracked_def cancelAlarm_def mget_upd exitEntry_def)
  moreover have "keeps (pt_inv_with 1 {(p, code)} W) (seqA (seqA (env_onExit (script_env sc now fuel d) p)
      (signalParent (script_env sc now fuel d) (pe_ppid e)))
      (modifyA (\<lambda>t. scheduleReap p (notifyWaiters p (wstatus_of (pe_termSignal e) code) t))))"
    by (intro keeps_seq scripted.onExit_keeps scripted.signalParent_keeps keeps_modify scheduleReap_inv notifyWaiters_inv)
  ultimately show ?thesis using run unfolding markExited_rest [OF e] script_env_sel by (blast dest: keepsD)
qed

text \<open>
  C33. Exit is final, however \<^verbatim>\<open>markExited\<close> of a live process ends and whatever the callbacks do: once it has
  begun and comes back, normally or with an exception of a callback, the process stays exited with
  that exit code through every later sequence of calls, until its zombie is reaped, and each promise that
  waited for it either still waits or has been resolved, exactly once. If it returns normally every
  one of them has been resolved. It does return normally when the exit hook does and the parent has no
  SIGCHLD handler of its own; an exception of such a handler reaches the caller instead and leaves
  the waiters of the child waiting (\<open>throwing_sigchld_strands_waiter\<close>).
\<close>

theorem exit_final_and_resolves:
  assumes t: "t = run_ops (proc_step sc fuel d) calls pt_new"
    and e: "mget (pt_entries t) p = Some e" "pe_status e \<noteq> Exited"
  shows "(\<forall>r t' later. markExited (script_env sc now fuel d) p code t = Some (r, t') \<longrightarrow>
      guarded (reap_spares {(p, code)}) (proc_step sc fuel d) later t' \<longrightarrow>
      map_option (\<lambda>e. (pe_status e, pe_exitCode e)) (mget (pt_entries (run_ops (proc_step sc fuel d) later t')) p)
        = Some (Exited, Some code)) \<and>
    (\<forall>r t' ws w. markExited (script_env sc now fuel d) p code t = Some (r, t') \<longrightarrow>
      mget (pt_waiters t) p = Some ws \<longrightarrow> w \<in> set ws \<longrightarrow>
      waiting t' w + count_list (resolved_waiters (pt_log t')) w = 1 \<and>
      (r = Inr () \<longrightarrow> waiting t' w = 0 \<and> mget (pt_waiters t') p = None)) \<and>
    (\<forall>t1. 0 < fuel \<longrightarrow>
      env_onExit (script_env sc now fuel d) p (cancelAlarm p (upd p (exitEntry now code) t)) = Some (Inr (), t1) \<longrightarrow>
      \<not> sigchld_user t1 (pe_ppid e) \<longrightarrow>
      (\<exists>t'. markExited (script_env sc now fuel d) p code t = Some (Inr (), t')))"
proof (intro conjI allI impI)
  fix r t' later
  assume run: "markExited (script_env sc now fuel d) p code t = Some (r, t')"
    and later: "guarded (reap_spares {(p, code)}) (proc_step sc fuel d) later t'"
  have "pt_inv_with 1 {} {} t" unfolding t by (simp add: reachable_inv)
  from markExited_tracked [OF this e run]
  have "pt_inv_with 1 {(p, code)} {} (run_ops (proc_step sc fuel d) later t')"
    by (rule proc_machine.run_inv [OF _ later])
  then show "map_option (\<lambda>e. (pe_status e, pe_exitCode e)) (mget (pt_entries (run_ops (proc_step sc fuel d) later t')) p)
      = Some (Exited, Some code)"
    by (auto simp: pt_inv_with_def tracked_def)
next
  fix r t' ws w
  assume run: "markExited (script_env sc now fuel d) p code t = Some (r, t')"
    and w: "mget (pt_waiters t) p = Some ws" "w \<in> set ws"
  have inv: "pt_inv t" unfolding t by (rule reachable_inv)
  then have "pt_inv_with 1 {} {(w, p)} t"
    using waiting_unique [OF inv w w] waiting_unique [OF inv w] by (simp add: pt_inv_with_def tracked_def pt_inv_def)
  note fin = markExited_tracked [OF this e run]
  then show "waiting t' w + count_list (resolved_waiters (pt_log t')) w = 1"
    by (auto simp: pt_inv_with_def pt_inv_def waiters_ok_def tracked_def)
  assume "r = Inr ()"
  then obtain t2 where "t' = scheduleReap p (notifyWaiters p (wstatus_of (pe_termSignal e) code) t2)"
    using markExited_split [OF e] run by blast
  then show none: "mget (pt_waiters t') p = None" by (simp only: mget_notify)
  show "waiting t' w = 0"
    using fin by (intro waiting_cleared [OF _ none]) (auto simp: pt_inv_with_def pt_inv_def waiters_ok_def)
next
  fix t1
  assume f: "0 < fuel" and h: "env_onExit (script_env sc now fuel d) p (cancelAlarm p (upd p (exitEntry now code) t)) = Some (Inr (), t1)"
    and n: "\<not> sigchld_user t1 (pe_ppid e)"
  from signalParent_plain [OF n, of "script_env sc now fuel d"] f
  obtain t2 where "signalParent (script_env sc now fuel d) (pe_ppid e) t1 = Some (Inr (), t2)" by auto
  with h show "\<exists>t'. markExited (script_env sc now fuel d) p code t = Some (Inr (), t')"
    unfolding markExited_rest [OF e] by (simp add: seqA_def andThen_def)
qed

theorem exit_final_and_resolves_witness:
  "\<exists>t'. markExited (script_env silent 7 5 2) 1 3 (run_ops (proc_step silent 5 2)
      [(0, PcSpawn ''node'' ''sh'' [] ctx0), (1, PcWait 1 0)] pt_new) = Some (Inr (), t') \<and>
    waiting t' 0 = 0 \<and> count_list (resolved_waiters (pt_log t')) 0 = 1 \<and>
    map_option (\<lambda>e. (pe_status e, pe_exitCode e)) (mget (pt_entries (run_ops (proc_step silent 5 2)
      [(8, PcKill 1 9), (9, PcExit 1 4)] t')) 1) = Some (Exited, Some 3)"
proof -
  let ?t = "run_ops (proc_step silent 5 2) [(0, PcSpawn ''node'' ''sh'' [] ctx0), (1, PcWait 1 0)] pt_new"
  let ?e = "newEntry 0 1 ''node'' ''sh'' [] ctx0 None"
  let ?t1 = "cancelAlarm 1 (upd 1 (exitEntry 7 3) ?t)"
  have e: "mget (pt_entries ?t) 1 = Some ?e" "pe_status ?e \<noteq> Exited"
    by (simp_all add: proc_eval eval_nat_numeral)
  have w: "mget (pt_waiters ?t) 1 = Some [0]" "0 \<in> set [0 :: nat]" by (simp_all add: proc_eval)
  note exit = exit_final_and_resolves [OF refl e, of 7 3]
  have "env_onExit (script_env silent 7 5 2) 1 ?t1 = Some (Inr (), ?t1)"
    by (simp add: eval_nat_numeral silent_def)
  moreover have "\<not> sigchld_user ?t1 (pe_ppid ?e)" by (simp add: sigchld_user_def proc_eval)
  moreover have "0 < (5 :: nat)" by simp
  ultimately obtain t' where r: "markExited (script_env silent 7 5 2) 1 3 ?t = Some (Inr (), t')" using exit by blast
  have g: "guarded (reap_spares {(1, 3)}) (proc_step silent 5 2) [(8, PcKill 1 9), (9, PcExit 1 4)] t'"
    by (simp add: reap_spares_def)
  have fin: "map_option (\<lambda>e. (pe_status e, pe_exitCode e)) (mget (pt_entries (run_ops (proc_step silent 5 2)
      [(8, PcKill 1 9), (9, PcExit 1 4)] t')) 1) = Some (Exited, Some 3)" using exit r g by blast
  have "waiting t' 0 + count_list (resolved_waiters (pt_log t')) 0 = 1 \<and> waiting t' 0 = 0" using exit r w by blast
  then have "waiting t' 0 = 0 \<and> count_list (resolved_waiters (pt_log t')) 0 = 1" by simp
  with r fin show ?thesis by blast
qed

subsection \<open>Signals to a group\<close>

text \<open>
  What the loop of a group signal sees of a process, and the signals sent to drivers. The loop runs over
  the live map while drivers run inside it: a driver may report the exit of the process it was told to
  kill before its \<^verbatim>\<open>kill\<close> returns (the Node driver does, when its runtime is gone already), which marks
  the process exited, resolves its waiters and signals its parent.
\<close>

definition groupLive :: "pid \<Rightarrow> ProcessEntry \<Rightarrow> bool" where
  "groupLive pgid e \<longleftrightarrow> pe_pgid e = pgid \<and> pe_status e \<noteq> Exited"

definition proc_view :: "'z ProcessTable_scheme \<Rightarrow> pid \<Rightarrow> (pid \<times> int \<times> ProcStatus \<times> int option) option" where
  "proc_view t q = map_option (\<lambda>e. (pe_pgid e, pe_termSignal e, pe_status e, pe_exitCode e)) (mget (pt_entries t) q)"

definition liveIn :: "pid \<Rightarrow> 'z ProcessTable_scheme \<Rightarrow> pid \<Rightarrow> bool" where
  "liveIn pgid t q \<longleftrightarrow> (case mget (pt_entries t) q of None \<Rightarrow> False | Some e \<Rightarrow> groupLive pgid e)"

fun ev_kill :: "proc_event \<Rightarrow> (pid \<times> int) list" where
  "ev_kill (EvKill p g) = [(p, g)]"
| "ev_kill _ = []"

definition sent :: "'z ProcessTable_scheme \<Rightarrow> (pid \<times> int) list" where
  "sent t = concat (map ev_kill (pt_log t))"

text \<open>The view of a member that was killed, for a driver that leaves it in the state \<open>fate\<close>.\<close>

definition struck ::
  "(pid \<Rightarrow> ProcStatus \<times> int option \<Rightarrow> ProcStatus \<times> int option) \<Rightarrow> pid \<Rightarrow>
   pid \<times> int \<times> ProcStatus \<times> int option \<Rightarrow> pid \<times> int \<times> ProcStatus \<times> int option" where
  "struck fate q v = (case v of (g, _, st) \<Rightarrow> (g, SIGKILL, fate q st))"

lemma mkeys_mput: "mget m p = Some e \<Longrightarrow> mkeys (mput p v m) = mkeys m"
  by (induction m) (auto split: if_splits)

lemma liveIn_view: "proc_view t' q = proc_view t q \<Longrightarrow> liveIn pgid t' q = liveIn pgid t q"
  by (auto simp: proc_view_def liveIn_def groupLive_def split: option.splits)

text \<open>
  The contract of \<^verbatim>\<open>driverProcess.kill\<close> towards the loop: on the tables of \<open>I\<close> it returns; it adds and
  removes no process, sends no signal, and changes what the loop sees of no process but the one killed.
\<close>

locale kill_contract =
  fixes E :: "'z ProcEnv"
    and I :: "'z ProcessTable_scheme \<Rightarrow> bool"
    and fate :: "pid \<Rightarrow> ProcStatus \<times> int option \<Rightarrow> ProcStatus \<times> int option"
  assumes keyed: "I t \<Longrightarrow> mget (pt_entries t) p = Some e \<Longrightarrow> pe_pid e = p"
    and wf: "I t \<Longrightarrow> mwf (pt_entries t)"
    and marked: "I t \<Longrightarrow> I (logEv (EvKill p SIGKILL) (upd p (\<lambda>e. e\<lparr>pe_termSignal := SIGKILL\<rparr>) t))"
    and kill: "I t \<Longrightarrow> proc_view t p = Some (g, ts, st) \<Longrightarrow> fst st \<noteq> Exited \<Longrightarrow>
      \<exists>t'. env_kill E p SIGKILL t = Some (Inr (), t') \<and> I t' \<and> mkeys (pt_entries t') = mkeys (pt_entries t) \<and>
        sent t' = sent t \<and> proc_view t' = (proc_view t)(p \<mapsto> (g, ts, fate p st))"
begin

lemma killMember_live:
  assumes t: "I t" and e: "mget (pt_entries t) p = Some e" "groupLive pgid e"
  shows "\<exists>t'. killMember E pgid SIGKILL e acc t = Some (Inr True, t') \<and> I t' \<and>
    mkeys (pt_entries t') = mkeys (pt_entries t) \<and> sent t' = sent t @ [(p, SIGKILL)] \<and>
    proc_view t' = (proc_view t)(p := map_option (struck fate p) (proc_view t p))"
proof -
  let ?t = "logEv (EvKill p SIGKILL) (upd p (\<lambda>e. e\<lparr>pe_termSignal := SIGKILL\<rparr>) t)"
  have pid: "pe_pid e = p" using keyed [OF t e(1)] .
  have v: "proc_view ?t = (proc_view t)(p \<mapsto> (pe_pgid e, SIGKILL, pe_status e, pe_exitCode e))"
    using e(1) by (auto simp: proc_view_def mget_upd)
  then have pv: "proc_view ?t p = Some (pe_pgid e, SIGKILL, pe_status e, pe_exitCode e)" by simp
  obtain t' where k: "env_kill E p SIGKILL ?t = Some (Inr (), t')" "I t'" "mkeys (pt_entries t') = mkeys (pt_entries ?t)"
    "sent t' = sent ?t" "proc_view t' = (proc_view ?t)(p \<mapsto> (pe_pgid e, SIGKILL, fate p (pe_status e, pe_exitCode e)))"
    using kill [OF marked [OF t, of p] pv] e(2) by (auto simp: groupLive_def)
  have "killMember E pgid SIGKILL e acc t = Some (Inr True, t')"
    using e(2) k(1) by (simp add: killMember_def groupLive_def deliverSignal_def applyDefaultAction_def
        driverKill_def pid seqA_def andThen_def sig_defs)
  moreover have "mkeys (pt_entries ?t) = mkeys (pt_entries t)"
    using e(1) by (simp add: upd_def mkeys_mput)
  moreover have "sent ?t = sent t @ [(p, SIGKILL)]" by (simp add: sent_def)
  moreover have "proc_view t' = (proc_view t)(p := map_option (struck fate p) (proc_view t p))"
    using k(5) e(1) by (simp add: v) (simp add: proc_view_def struck_def)
  ultimately show ?thesis using k by auto
qed

lemma killMember_other: "\<not> groupLive pgid e \<Longrightarrow> killMember E pgid SIGKILL e acc t = Some (Inr acc, t)"
  by (auto simp: killMember_def groupLive_def)

lemma kill_loop:
  "I t \<Longrightarrow> mkeys (pt_entries t) = xs @ ys \<Longrightarrow> length xs = i \<Longrightarrow> length ys < k \<Longrightarrow>
   \<exists>t'. forEntries k i (killMember E pgid SIGKILL) acc t = Some (Inr (acc \<or> (\<exists>q \<in> set ys. liveIn pgid t q)), t') \<and>
     sent t' = sent t @ map (\<lambda>q. (q, SIGKILL)) (filter (liveIn pgid t) ys) \<and>
     mkeys (pt_entries t') = mkeys (pt_entries t) \<and>
     proc_view t' = (\<lambda>q. if q \<in> set ys \<and> liveIn pgid t q then map_option (struck fate q) (proc_view t q) else proc_view t q) \<and>
     ((\<forall>q \<in> set ys. \<not> liveIn pgid t q) \<longrightarrow> t' = t)"
proof (induction ys arbitrary: xs i k t acc)
  case Nil
  then have "length (pt_entries t) = i" by (metis append_Nil2 length_map)
  with Nil show ?case by (cases k) auto
next
  case (Cons p ys)
  obtain k' where k: "k = Suc k'" using Cons.prems(4) by (cases k) auto
  have lt: "i < length (pt_entries t)"
    using arg_cong [OF Cons.prems(2), of length] Cons.prems(3) by simp
  have "fst (pt_entries t ! i) = p"
    using arg_cong [OF Cons.prems(2), of "\<lambda>l. l ! i"] lt by (simp add: Cons.prems(3) [symmetric])
  then obtain e where at: "pt_entries t ! i = (p, e)" by (metis prod.collapse)
  then have get: "mget (pt_entries t) p = Some e"
    using wf [OF Cons.prems(1)] lt by (metis map_of_is_SomeI nth_mem)
  have d: "p \<notin> set ys" using wf [OF Cons.prems(1)] Cons.prems(2) by simp
  show ?case
  proof (cases "groupLive pgid e")
    case False
    then have step: "forEntries k i (killMember E pgid SIGKILL) acc t = forEntries k' (Suc i) (killMember E pgid SIGKILL) acc t"
      using lt at killMember_other [OF False] by (simp add: k andThen_def)
    have nl: "\<not> liveIn pgid t p" using False get by (simp add: liveIn_def)
    have "mkeys (pt_entries t) = (xs @ [p]) @ ys" "length (xs @ [p]) = Suc i" "length ys < k'"
      using Cons.prems(2-4) by (simp_all add: k)
    note ih = Cons.IH [OF Cons.prems(1) this, of acc]
    have v: "(\<lambda>q. if q \<in> set (p # ys) \<and> liveIn pgid t q then map_option (struck fate q) (proc_view t q) else proc_view t q) =
        (\<lambda>q. if q \<in> set ys \<and> liveIn pgid t q then map_option (struck fate q) (proc_view t q) else proc_view t q)"
      using nl by (auto simp: fun_eq_iff)
    show ?thesis using ih unfolding step v by (simp add: nl)
  next
    case True
    then have lp: "liveIn pgid t p" using get by (simp add: liveIn_def)
    obtain t1 where t1: "killMember E pgid SIGKILL e acc t = Some (Inr True, t1)" "I t1"
      "mkeys (pt_entries t1) = mkeys (pt_entries t)" "sent t1 = sent t @ [(p, SIGKILL)]"
      "proc_view t1 = (proc_view t)(p := map_option (struck fate p) (proc_view t p))"
      using killMember_live [OF Cons.prems(1) get True] by blast
    have step: "forEntries k i (killMember E pgid SIGKILL) acc t = forEntries k' (Suc i) (killMember E pgid SIGKILL) True t1"
      using lt at t1(1) by (simp add: k andThen_def)
    have same: "liveIn pgid t1 q = liveIn pgid t q" if "q \<in> set ys" for q
      by (rule liveIn_view) (use that d t1(5) in auto)
    then have fl: "filter (liveIn pgid t1) ys = filter (liveIn pgid t) ys" by (rule filter_cong [OF refl])
    obtain t' where t': "forEntries k' (Suc i) (killMember E pgid SIGKILL) True t1 = Some (Inr True, t')"
      "sent t' = sent t1 @ map (\<lambda>q. (q, SIGKILL)) (filter (liveIn pgid t1) ys)"
      "mkeys (pt_entries t') = mkeys (pt_entries t1)"
      "proc_view t' = (\<lambda>q. if q \<in> set ys \<and> liveIn pgid t1 q then map_option (struck fate q) (proc_view t1 q) else proc_view t1 q)"
      using Cons.IH [of t1 "xs @ [p]" "Suc i" k' True] t1 Cons.prems by (auto simp: k)
    have "proc_view t' = (\<lambda>q. if q \<in> set (p # ys) \<and> liveIn pgid t q then map_option (struck fate q) (proc_view t q)
        else proc_view t q)"
      using t'(4) t1(5) same lp d by (auto simp: fun_eq_iff)
    then show ?thesis unfolding step using t' t1 fl lp by simp
  qed
qed

lemma pt_kill_group:
  assumes "I t" "length (pt_entries t) < env_fuel E" "0 < pgid"
  shows "\<exists>t'. pt_kill E (- pgid) SIGKILL t =
      Some (if hasProcessGroup t pgid then Inr () else Inl (KErr ESRCH), t') \<and>
    sent t' = sent t @ map (\<lambda>q. (q, SIGKILL)) (filter (liveIn pgid t) (mkeys (pt_entries t))) \<and>
    mkeys (pt_entries t') = mkeys (pt_entries t) \<and>
    proc_view t' = (\<lambda>q. if liveIn pgid t q then map_option (struck fate q) (proc_view t q) else proc_view t q) \<and>
    (\<not> hasProcessGroup t pgid \<longrightarrow> t' = t)"
proof -
  have mem: "(q, e) \<in> set (pt_entries t) \<longleftrightarrow> mget (pt_entries t) q = Some e" for q e
    using wf [OF assms(1)] by simp
  have lv: "liveIn pgid t q \<Longrightarrow> q \<in> set (mkeys (pt_entries t))" for q
    by (force simp: liveIn_def dest: map_of_SomeD split: option.splits)
  have has: "hasProcessGroup t pgid \<longleftrightarrow> (\<exists>q \<in> set (mkeys (pt_entries t)). liveIn pgid t q)"
    by (force simp: hasProcessGroup_def list_ex_iff liveIn_def groupLive_def mem split: option.splits)
  obtain t' where "forEntries (env_fuel E) 0 (killMember E pgid SIGKILL) False t = Some (Inr (hasProcessGroup t pgid), t')"
    "sent t' = sent t @ map (\<lambda>q. (q, SIGKILL)) (filter (liveIn pgid t) (mkeys (pt_entries t)))"
    "mkeys (pt_entries t') = mkeys (pt_entries t)" "\<not> hasProcessGroup t pgid \<longrightarrow> t' = t"
    and v: "proc_view t' = (\<lambda>q. if q \<in> set (mkeys (pt_entries t)) \<and> liveIn pgid t q
      then map_option (struck fate q) (proc_view t q) else proc_view t q)"
    using kill_loop [OF assms(1), of "[]" "mkeys (pt_entries t)" 0 "env_fuel E" pgid False] assms(2)
    by (auto simp: has)
  moreover have "proc_view t' = (\<lambda>q. if liveIn pgid t q then map_option (struck fate q) (proc_view t q) else proc_view t q)"
    using v lv by (auto simp: fun_eq_iff)
  ultimately show ?thesis using assms(3) by (auto simp: pt_kill_def andThen_def sig_defs)
qed

end

text \<open>
  The drivers of the repository: \<^verbatim>\<open>kill\<close> either returns and the exit is reported later, or reports the
  exit at once; no process has a SIGCHLD handler of its own, and the exit hook does not call the table.
\<close>

definition killing_driver :: "script \<Rightarrow> bool" where
  "killing_driver sc \<longleftrightarrow> (\<forall>p. sc_kill sc p SIGKILL = [] \<or> (\<exists>c. sc_kill sc p SIGKILL = [PcExit p c])) \<and> (\<forall>p. sc_onExit sc p = [])"

definition kill_fate :: "script \<Rightarrow> pid \<Rightarrow> ProcStatus \<times> int option \<Rightarrow> ProcStatus \<times> int option" where
  "kill_fate sc p st = (case sc_kill sc p SIGKILL of PcExit _ c # _ \<Rightarrow> (Exited, Some c) | _ \<Rightarrow> st)"

definition plain_parents :: "'z ProcessTable_scheme \<Rightarrow> bool" where
  "plain_parents t \<longleftrightarrow> pt_inv t \<and> (\<forall>q. \<not> sigchld_user t q)"

lemma sigchld_user_upd:
  "(\<And>e. ss_handlers (pe_signal (f e)) = ss_handlers (pe_signal e)) \<Longrightarrow> sigchld_user (upd p f t) q = sigchld_user t q"
  by (auto simp: sigchld_user_def mget_upd)

lemma sigchld_user_cong: "pt_entries t' = pt_entries t \<Longrightarrow> sigchld_user t' q = sigchld_user t q"
  by (simp add: sigchld_user_def)

lemma proc_view_updSig [simp]: "proc_view (updSig p f t) = proc_view t"
  by (auto simp: proc_view_def mget_updSig fun_eq_iff option.map_comp comp_def)

lemma proc_view_cong: "pt_entries t' = pt_entries t \<Longrightarrow> proc_view t' = proc_view t"
  by (simp add: proc_view_def fun_eq_iff)

lemma notify_sel [simp]:
  "pt_entries (scheduleReap p (notifyWaiters p st t)) = pt_entries t"
  "sent (scheduleReap p (notifyWaiters p st t)) = sent t"
  by (auto simp: scheduleReap_def notifyWaiters_def Let_def sent_def comp_def split: option.split)

lemma upd_keys [simp]: "mkeys (pt_entries (upd p f t)) = mkeys (pt_entries t)"
  by (auto simp: upd_def mkeys_mput split: option.split)

lemma markExited_plain:
  assumes t: "plain_parents t" and e: "mget (pt_entries t) p = Some e" "pe_status e \<noteq> Exited"
    and sc: "sc_onExit sc p = []" and fuel: "0 < fuel"
  shows "\<exists>t'. markExited (script_env sc now fuel (Suc d)) p code t = Some (Inr (), t') \<and> plain_parents t' \<and>
    mkeys (pt_entries t') = mkeys (pt_entries t) \<and> sent t' = sent t \<and>
    proc_view t' = (proc_view t)(p \<mapsto> (pe_pgid e, pe_termSignal e, Exited, Some code))"
proof -
  let ?E = "script_env sc now fuel (Suc d)"
  let ?t1 = "cancelAlarm p (upd p (exitEntry now code) t)"
  let ?pend = "\<lambda>s. s\<lparr>ss_pending := sadd SIGCHLD (ss_pending s)\<rparr>"
  have "sigchld_user ?t1 q = sigchld_user t q" for q
    by (cases "mget (pt_entries t) p") (auto simp: sigchld_user_def cancelAlarm_def mget_upd exitEntry_def)
  then have h1: "\<not> sigchld_user ?t1 q" for q using t by (simp add: plain_parents_def)
  obtain t2 where t2: "signalParent ?E (pe_ppid e) ?t1 = Some (Inr (), t2)"
    and d: "t2 = ?t1 \<or> t2 = updSig (pe_ppid e) ?pend ?t1"
    using signalParent_plain [OF h1, of ?E] fuel by fastforce
  let ?t' = "scheduleReap p (notifyWaiters p (wstatus_of (pe_termSignal e) code) t2)"
  have run: "markExited ?E p code t = Some (Inr (), ?t')"
    unfolding markExited_rest [OF e] using t2 sc by (simp add: seqA_def andThen_def)
  have h2: "\<not> sigchld_user t2 q" for q
    using d h1 by (auto simp: updSig_def sigchld_user_upd)
  have "pt_inv_with 1 {} {} ?t'"
    by (rule keepsD [OF scripted.markExited_keeps _ run]) (use t in \<open>simp add: plain_parents_def\<close>)
  then have "plain_parents ?t'" using h2 by (simp add: plain_parents_def sigchld_user_def)
  moreover have "mkeys (pt_entries ?t') = mkeys (pt_entries t)" using d by (auto simp: cancelAlarm_def updSig_def)
  moreover have "sent t2 = sent t" using d by (auto simp: sent_def cancelAlarm_def)
  then have "sent ?t' = sent t" by simp
  moreover have "proc_view t2 = proc_view ?t1" using d by auto
  then have "proc_view ?t' = (proc_view t)(p \<mapsto> (pe_pgid e, pe_termSignal e, Exited, Some code))"
    using e(1) by (auto simp: proc_view_cong [OF notify_sel(1)] fun_eq_iff)
      (simp_all add: proc_view_def cancelAlarm_def mget_upd exitEntry_def)
  ultimately show ?thesis using run by blast
qed

lemma killing_kill:
  assumes sc: "killing_driver sc" "0 < fuel" and t: "plain_parents t"
    and v: "proc_view t p = Some (g, ts, st)" "fst st \<noteq> Exited"
  shows "\<exists>t'. env_kill (script_env sc now fuel (Suc (Suc d))) p SIGKILL t = Some (Inr (), t') \<and> plain_parents t' \<and>
    mkeys (pt_entries t') = mkeys (pt_entries t) \<and> sent t' = sent t \<and>
    proc_view t' = (proc_view t)(p \<mapsto> (g, ts, kill_fate sc p st))"
proof -
  obtain e where e: "mget (pt_entries t) p = Some e" "pe_status e \<noteq> Exited" "g = pe_pgid e" "ts = pe_termSignal e"
    using v by (auto simp: proc_view_def)
  consider (quiet) "sc_kill sc p SIGKILL = []" | (exit) c where "sc_kill sc p SIGKILL = [PcExit p c]"
    using sc(1) by (auto simp: killing_driver_def)
  then show ?thesis
  proof cases
    case quiet
    then show ?thesis using t v by (simp add: kill_fate_def fun_upd_idem)
  next
    case (exit c)
    have "sc_onExit sc p = []" using sc(1) by (simp add: killing_driver_def)
    from markExited_plain [OF t e(1,2) this sc(2), of now d c]
    obtain t' where t': "markExited (script_env sc now fuel (Suc d)) p c t = Some (Inr (), t')" "plain_parents t'"
      "mkeys (pt_entries t') = mkeys (pt_entries t)" "sent t' = sent t"
      "proc_view t' = (proc_view t)(p \<mapsto> (pe_pgid e, pe_termSignal e, Exited, Some c))" by blast
    have "env_kill (script_env sc now fuel (Suc (Suc d))) p SIGKILL t =
        seqA (markExited (script_env sc now fuel (Suc d)) p c) (ret ()) t" using exit by simp
    then have "env_kill (script_env sc now fuel (Suc (Suc d))) p SIGKILL t = Some (Inr (), t')"
      using t'(1) by (simp add: seqA_def andThen_def del: script_env.simps)
    with t' exit e(3,4) show ?thesis by (simp add: kill_fate_def)
  qed
qed

lemma killing_contract:
  assumes "killing_driver sc" "0 < fuel"
  shows "kill_contract (script_env sc now fuel (Suc (Suc d))) plain_parents (kill_fate sc)"
proof
  fix t :: "'a ProcessTable_scheme" and p e g ts st
  assume t: "plain_parents t"
  then show "mwf (pt_entries t)" by (simp add: plain_parents_def pt_inv_def)
  show "pe_pid e = p" if "mget (pt_entries t) p = Some e"
    using t that by (auto simp: plain_parents_def pt_inv_def entry_ok_def)
  have "pt_inv_with 1 {} {} (logEv (EvKill p SIGKILL) (upd p (\<lambda>e. e\<lparr>pe_termSignal := SIGKILL\<rparr>) t))"
    using t by (intro logEv_inv upd_inv) (auto simp: plain_parents_def tame_def entry_ok_def)
  then show "plain_parents (logEv (EvKill p SIGKILL) (upd p (\<lambda>e. e\<lparr>pe_termSignal := SIGKILL\<rparr>) t))"
    using t by (simp add: plain_parents_def sigchld_user_cong [OF logEv_simps(1)] sigchld_user_upd)
  show "\<exists>t'. env_kill (script_env sc now fuel (Suc (Suc d))) p SIGKILL t = Some (Inr (), t') \<and> plain_parents t' \<and>
      mkeys (pt_entries t') = mkeys (pt_entries t) \<and> sent t' = sent t \<and>
      proc_view t' = (proc_view t)(p \<mapsto> (g, ts, kill_fate sc p st))"
    if "proc_view t p = Some (g, ts, st)" "fst st \<noteq> Exited"
    using killing_kill [OF assms t that] .
qed

text \<open>
  The \<^verbatim>\<open>kill\<close> of the Node driver (\<^verbatim>\<open>kernel-runtime.ts\<close>) as the table sees it: it reports the exit with
  128 plus the signal before it returns when the runtime of the process is gone, and later otherwise.
\<close>

definition node_driver :: "(pid \<Rightarrow> bool) \<Rightarrow> script" where
  "node_driver gone = \<lparr>sc_handler = (\<lambda>_ _. []), sc_kill = (\<lambda>p g. if gone p then [PcExit p (128 + g)] else []),
     sc_onExit = (\<lambda>_. []), sc_onReap = (\<lambda>_. [])\<rparr>"

lemma node_driver_kills: "killing_driver (node_driver gone)"
  by (simp add: killing_driver_def node_driver_def)

interpretation node_kill: kill_contract "script_env (node_driver gone) now (Suc fuel) (Suc (Suc d))" plain_parents
  "kill_fate (node_driver gone)" for gone now fuel d
  by (rule killing_contract [OF node_driver_kills]) simp

text \<open>
  C34. Killing a process group sends SIGKILL to exactly its members that have not exited, once each and in
  the order of the table, marks each as terminated by it, and leaves group, status, exit code and
  termination signal of every other process alone; a group without live members is ESRCH and nothing
  happens. Blocked signals, handlers and ignored signals play no role. This holds for drivers that report
  the exit of a killed process later and for drivers that report it before \<^verbatim>\<open>kill\<close> returns, process by
  process: those the driver reports at once have exited with its code when the call returns, the
  others still have their status. It assumes that no process has a SIGCHLD handler of its own, which an
  exit reported at once would run inside the loop, and that the exit hook does not call the table.
\<close>

theorem kill_group_exact:
  assumes "killing_driver sc" "pt_inv t" "\<forall>q. \<not> sigchld_user t q" "length (pt_entries t) < fuel" "0 < pgid"
  shows "\<exists>t'. pt_kill (script_env sc now fuel (Suc (Suc d))) (- pgid) SIGKILL t =
      Some (if hasProcessGroup t pgid then Inr () else Inl (KErr ESRCH), t') \<and>
    sent t' = sent t @ map (\<lambda>q. (q, SIGKILL)) (filter (liveIn pgid t) (mkeys (pt_entries t))) \<and>
    mkeys (pt_entries t') = mkeys (pt_entries t) \<and>
    (\<forall>q. proc_view t' q =
       (if liveIn pgid t q then map_option (struck (kill_fate sc) q) (proc_view t q) else proc_view t q)) \<and>
    (\<not> hasProcessGroup t pgid \<longrightarrow> t' = t)"
proof -
  have "0 < fuel" using assms(4) by simp
  note c = kill_contract.pt_kill_group [OF killing_contract [OF assms(1) this]]
  have "plain_parents t" using assms(2,3) by (simp add: plain_parents_def)
  from c [OF this, of now d pgid, unfolded script_env_sel, OF assms(4,5)] show ?thesis by (simp only: fun_eq_iff)
qed

text \<open>
  Process 1 leads a group with its child 2, 3 is another process; the runtime of 2 is gone, so its driver
  reports the exit with 128 + 9 before \<^verbatim>\<open>kill\<close> returns, the driver of 1 does later.
\<close>

theorem kill_group_exact_witness:
  "let t = run_ops (proc_step silent 5 2) [(0, PcSpawn ''node'' ''sh'' [] ctx0),
       (0, PcSpawn ''node'' ''a'' [] (ctx0\<lparr>ctx_ppid := 1\<rparr>)), (0, PcSpawn ''node'' ''b'' [] ctx0)] pt_new
   in \<exists>t'. pt_kill (script_env (node_driver (\<lambda>p. p = 2)) 1 5 2) (- 1) SIGKILL t = Some (Inr (), t') \<and>
      sent t' = [(1, 9), (2, 9)] \<and> proc_view t' 1 = Some (1, 9, Running, None) \<and>
      proc_view t' 2 = Some (1, 9, Exited, Some 137) \<and> proc_view t' 3 = Some (3, 0, Running, None)"
proof -
  let ?t = "run_ops (proc_step silent 5 2) [(0, PcSpawn ''node'' ''sh'' [] ctx0),
     (0, PcSpawn ''node'' ''a'' [] (ctx0\<lparr>ctx_ppid := 1\<rparr>)), (0, PcSpawn ''node'' ''b'' [] ctx0)] pt_new"
  let ?sc = "node_driver (\<lambda>p. p = 2)"
  have inv: "pt_inv ?t" by (rule reachable_inv)
  have v: "proc_view ?t 1 = Some (1, 0, Running, None)" "proc_view ?t 2 = Some (1, 0, Running, None)"
    "proc_view ?t 3 = Some (3, 0, Running, None)" "mkeys (pt_entries ?t) = [1, 2, 3]" "sent ?t = []"
    and l: "liveIn 1 ?t 1" "liveIn 1 ?t 2" "\<not> liveIn 1 ?t 3" "hasProcessGroup ?t 1"
    and len: "length (pt_entries ?t) < 5"
    by (simp_all add: proc_eval eval_nat_numeral proc_view_def sent_def liveIn_def groupLive_def hasProcessGroup_def)
  have ns: "\<forall>q. \<not> sigchld_user ?t q" by (auto simp: proc_eval eval_nat_numeral sigchld_user_def split: if_splits)
  have e: "Suc (Suc 0) = 2" by simp
  obtain t' where "pt_kill (script_env ?sc 1 5 2) (- 1) SIGKILL ?t = Some (Inr (), t')"
    "sent t' = sent ?t @ map (\<lambda>q. (q, SIGKILL)) (filter (liveIn 1 ?t) (mkeys (pt_entries ?t)))"
    and w: "\<forall>q. proc_view t' q =
      (if liveIn 1 ?t q then map_option (struck (kill_fate ?sc) q) (proc_view ?t q) else proc_view ?t q)"
    using kill_group_exact [OF node_driver_kills inv ns len, of 1 "\<lambda>p. p = 2" 1 0] l(4) unfolding e by auto
  moreover have "proc_view t' 1 = Some (1, 9, Running, None)" "proc_view t' 2 = Some (1, 9, Exited, Some 137)"
    "proc_view t' 3 = Some (3, 0, Running, None)"
    using w v l by (simp_all add: struck_def kill_fate_def node_driver_def sig_defs)
  ultimately show ?thesis using v l by (auto simp: Let_def sig_defs)
qed

definition newMask :: "int \<Rightarrow> int list \<Rightarrow> int list \<Rightarrow> int list" where
  "newMask how sigs blocked =
     (let filtered = filter (\<lambda>g. g \<noteq> SIGKILL \<and> g \<noteq> SIGSTOP) sigs
      in if how = SIG_BLOCK then fold sadd filtered blocked
         else if how = SIG_UNBLOCK then fold sdel filtered blocked else filtered)"

lemma sdel_sdel: "sdel SIGSTOP (sdel SIGKILL gs) = filter (\<lambda>g. g \<noteq> SIGKILL \<and> g \<noteq> SIGSTOP) gs"
  by (simp add: sdel_def conj_commute)

lemma sigprocmask_eq:
  assumes "how \<in> {SIG_BLOCK, SIG_UNBLOCK, SIG_SETMASK}" "mget (pt_entries t) p = Some e"
  shows "sigprocmask E p how gs t =
    seqA (deliverPendingSignals (dispatchSignal E (env_fuel E) p) p) (ret (ss_blocked (pe_signal e)))
      (updSig p (\<lambda>s. s\<lparr>ss_blocked := newMask how gs (ss_blocked s)\<rparr>) t)"
  using assms
  by (auto simp: sigprocmask_def lookup_def newMask_def sdel_sdel Let_def SIG_BLOCK_def SIG_UNBLOCK_def SIG_SETMASK_def)

text \<open>
  Changing the mask delivers what it unblocks: with callbacks that return without touching the
  table, \<^verbatim>\<open>sigprocmask\<close> returns the previous mask, installs the new one, and the pending signals it does
  not block are delivered, each once, in ascending order, each by its handler or default action, while
  the blocked ones stay pending. The dispatch recursion is never deeper than the number of pending
  signals.
\<close>

theorem sigprocmask_delivers:
  assumes q: "quiet_env E" and inv: "pt_inv t" and e: "mget (pt_entries t) p = Some e" "pe_status e \<noteq> Exited"
    and how: "how \<in> {SIG_BLOCK, SIG_UNBLOCK, SIG_SETMASK}"
    and fuel: "length (ss_pending (pe_signal e)) \<le> env_fuel E"
    and blocked'_def: "blocked' = newMask how gs (ss_blocked (pe_signal e))"
  shows "\<exists>t' e'. sigprocmask E p how gs t = Some (Inr (ss_blocked (pe_signal e)), t') \<and>
    mget (pt_entries t') p = Some e' \<and> ss_blocked (pe_signal e') = blocked' \<and>
    ss_pending (pe_signal e') = filter (\<lambda>g. g \<in> set blocked') (ss_pending (pe_signal e)) \<and>
    pt_log t' = pt_log t @ concat (map (sig_events p (ss_handlers (pe_signal e)))
      (sort (filter (\<lambda>g. g \<notin> set blocked') (ss_pending (pe_signal e)))))"
proof -
  let ?t = "updSig p (\<lambda>s. s\<lparr>ss_blocked := newMask how gs (ss_blocked s)\<rparr>) t"
  let ?e = "e\<lparr>pe_signal := (pe_signal e)\<lparr>ss_blocked := blocked'\<rparr>\<rparr>"
  have e1: "mget (pt_entries ?t) p = Some ?e" "pe_status ?e \<noteq> Exited"
    using e by (simp_all add: mget_updSig blocked'_def)
  have del: "deliverable ?e = filter (\<lambda>g. g \<notin> set blocked') (ss_pending (pe_signal e))"
    by (simp add: deliverable_def)
  have ok: "pending_ok ?e"
    using inv e(1) by (auto simp: pt_inv_def entry_ok_def sig_ok_def pending_ok_def)
  have "length (deliverable ?e) \<le> env_fuel E"
    unfolding del using length_filter_le fuel by (rule le_trans)
  then obtain t' where t': "pendingLoop (dispatchSignal E (env_fuel E) p) p (sort (ss_pending (pe_signal ?e))) ?t
      = Some (Inr (), t')" "drained p (sort (deliverable ?e)) ?t t'"
    using pendingLoop_drains [OF dispatch_returns [OF q] e1 ok, of "sort (ss_pending (pe_signal ?e))"] ok
    by (auto simp: pending_ok_def del)
  obtain e' where e': "mget (pt_entries t') p = Some e'" "drained_entries (sort (deliverable ?e)) ?e e'"
    "pt_log t' = pt_log ?t @ concat (map (sig_events p (ss_handlers (pe_signal ?e))) (sort (deliverable ?e)))"
    using drained_entry [OF t'(2) e1(1)] by blast
  have "ss_pending (pe_signal e') = filter (\<lambda>g. g \<in> set blocked') (ss_pending (pe_signal e))"
    using e'(2) by (auto simp: drained_entries_def del intro: filter_cong)
  moreover have "ss_blocked (pe_signal e') = blocked'" using e'(2) by (simp add: drained_entries_def)
  moreover have "sigprocmask E p how gs t = Some (Inr (ss_blocked (pe_signal e)), t')"
    using sigprocmask_eq [OF how e(1)] deliverPending_loop [OF e1] t'(1) by (simp add: seqA_def andThen_def)
  ultimately show ?thesis using e'(1,3) unfolding del by simp
qed

theorem sigprocmask_delivers_witness:
  "let t = run_ops (proc_step silent 5 2) [(0, PcSpawn ''node'' ''sh'' [] ctx0),
       (0, PcMask 1 0 [2, 15]), (0, PcAction 1 15 \<lparr>sh_handler = SigUser 7, sh_mask = [], sh_flags = 0\<rparr>),
       (0, PcKill 1 15), (0, PcKill 1 2), (0, PcKill 1 15)] pt_new
   in \<exists>t'. sigprocmask (script_env silent 1 5 2) 1 SIG_UNBLOCK [2, 15] t = Some (Inr [2, 15], t') \<and>
      pt_log t' = [EvKill 1 2, EvHandler 7 15]"
proof -
  let ?E = "script_env silent 1 5 2"
  let ?t = "run_ops (proc_step silent 5 2) [(0, PcSpawn ''node'' ''sh'' [] ctx0),
       (0, PcMask 1 0 [2, 15]), (0, PcAction 1 15 \<lparr>sh_handler = SigUser 7, sh_mask = [], sh_flags = 0\<rparr>),
       (0, PcKill 1 15), (0, PcKill 1 2), (0, PcKill 1 15)] pt_new"
  let ?e = "(newEntry 0 1 ''node'' ''sh'' [] ctx0 None)\<lparr>pe_signal := ss_new\<lparr>ss_blocked := [2, 15],
    ss_pending := [15, 2], ss_handlers := [(15, \<lparr>sh_handler = SigUser 7, sh_mask = [], sh_flags = 0\<rparr>)]\<rparr>\<rparr>"
  have q: "quiet_env ?E" by (simp add: quiet_env_def eval_nat_numeral silent_def fun_eq_iff)
  have i: "pt_inv ?t" by (rule reachable_inv)
  have e: "mget (pt_entries ?t) 1 = Some ?e" "pt_log ?t = []"
    by (simp_all add: proc_eval eval_nat_numeral)
  have s: "pe_status ?e \<noteq> Exited" "length (ss_pending (pe_signal ?e)) \<le> env_fuel ?E"
    by (simp_all add: newEntry_def eval_nat_numeral)
  have m: "newMask SIG_UNBLOCK [2, 15] [2, 15] = []" by (simp add: newMask_def sdel_def sig_defs)
  from sigprocmask_delivers [OF q i e(1) s(1) _ s(2) refl, of SIG_UNBLOCK "[2, 15]"] e(2)
  obtain t' where "sigprocmask ?E 1 SIG_UNBLOCK [2, 15] ?t = Some (Inr [2, 15], t')"
    "pt_log t' = concat (map (sig_events 1 (ss_handlers (pe_signal ?e))) (sort [15, 2]))"
    by (simp add: m del: run_ops.simps script_env.simps) blast
  then show ?thesis unfolding Let_def by (auto simp: sig_events_def sig_defs simp del: run_ops.simps script_env.simps)
qed

text \<open>The parent's SIGCHLD when callbacks are quiet: only the parent's entry and the log change.\<close>

lemma signalParent_quiet:
  assumes q: "quiet_env E" "0 < env_fuel E" and inv: "pt_inv t"
    and par: "\<And>e. mget (pt_entries t) pp = Some e \<Longrightarrow> deliverable e = []"
  shows "\<exists>t2. signalParent E pp t = Some (Inr (), t2) \<and> (\<forall>q. q \<noteq> pp \<longrightarrow> mget (pt_entries t2) q = mget (pt_entries t) q) \<and>
    (\<forall>e. mget (pt_entries t) pp = Some e \<longrightarrow> pe_status e = Exited \<longrightarrow> t2 = t) \<and> pt_waiters t2 = pt_waiters t"
proof (cases "0 < pp \<and> (\<exists>e. mget (pt_entries t) pp = Some e \<and> pe_status e = Running)")
  case True
  then obtain e where e: "mget (pt_entries t) pp = Some e" "pe_status e = Running" by blast
  have ok: "pending_ok e" using inv e(1) by (auto simp: pt_inv_def entry_ok_def sig_ok_def pending_ok_def)
  have run: "signalParent E pp t = queueOrDispatch E pp SIGCHLD t"
    using True e by (simp add: signalParent_def withEntry_def deliverSignal_def sig_defs)
  show ?thesis
  proof (cases "SIGCHLD \<in> set (ss_blocked (pe_signal e))")
    case True
    then show ?thesis using run e by (simp add: queueOrDispatch_def withEntry_def mget_updSig)
  next
    case False
    then have "SIGCHLD \<notin> set (ss_pending (pe_signal e))"
      using par [OF e(1)] by (auto simp: deliverable_def filter_empty_conv)
    moreover have "catchable SIGCHLD" by (simp add: catchable_def sig_defs)
    ultimately obtain t' gs where "dispatchSignal E (env_fuel E) pp SIGCHLD t = Some (Inr (), t')" "drained pp gs t t'"
      using dispatch_returns [OF q(1), of "env_fuel E" pp] e ok par [OF e(1)] q(2)
      unfolding dispatch_spec_def by (metis ProcStatus.distinct(3) length_0_conv)
    then show ?thesis using run e False by (auto simp: queueOrDispatch_def withEntry_def drained_def)
  qed
next
  case False
  then show ?thesis by (auto simp: signalParent_def withEntry_def split: option.split)
qed

lemma wstatus_of_decode:
  "(tsig = 0 \<longrightarrow> WIFEXITED (wstatus_of tsig code) \<and> uint (WEXITSTATUS (wstatus_of tsig code)) = code mod 256) \<and>
   (1 \<le> tsig \<and> tsig \<le> 64 \<longrightarrow> WIFSIGNALED (wstatus_of tsig code) \<and> uint (WTERMSIG (wstatus_of tsig code)) = tsig)"
  using wstatus_decode [of tsig code] wstatus_decode [of 1 code] by (auto simp: wstatus_of_def)

text \<open>
  What a waiter learns is what a later \<^verbatim>\<open>waitpid\<close> returns, and it decodes: with callbacks that
  return without touching the table, \<^verbatim>\<open>markExited\<close> of a live process returns, every waiter is resolved
  with the same value a \<^verbatim>\<open>waitpid\<close> then gives at once, and its status reads as a normal exit with the
  code modulo 256, or as death by the signal that terminated the process.
\<close>

theorem exit_status_agrees:
  assumes q: "quiet_env E" "0 < env_fuel E" and inv: "pt_inv t"
    and e: "mget (pt_entries t) p = Some e" "pe_status e \<noteq> Exited"
    and par: "\<And>pe. mget (pt_entries t) (pe_ppid e) = Some pe \<Longrightarrow> deliverable pe = []"
  shows "\<exists>t' i. markExited E p code t = Some (Inr (), t') \<and>
    waitpid p opts t' = Some (Inr (WaitNow (Some i)), t') \<and>
    (\<forall>ws w. mget (pt_waiters t) p = Some ws \<longrightarrow> w \<in> set ws \<longrightarrow> EvResolve w i \<in> set (pt_log t')) \<and>
    (pe_termSignal e = 0 \<longrightarrow> WIFEXITED (wi_status i) \<and> uint (WEXITSTATUS (wi_status i)) = code mod 256) \<and>
    (1 \<le> pe_termSignal e \<and> pe_termSignal e \<le> 64 \<longrightarrow>
       WIFSIGNALED (wi_status i) \<and> uint (WTERMSIG (wi_status i)) = pe_termSignal e)"
proof -
  let ?t1 = "cancelAlarm p (upd p (exitEntry (env_now E) code) t)"
  let ?e1 = "exitEntry (env_now E) code e"
  let ?st = "wstatus_of (pe_termSignal e) code"
  let ?i = "\<lparr>wi_pid = p, wi_status = ?st, wi_termSignal = pe_termSignal e\<rparr>"
  have e1p: "mget (pt_entries ?t1) p = Some ?e1" using e by (simp add: cancelAlarm_def mget_upd)
  have "pt_inv_with 1 {} {} ?t1"
    using e inv by (intro cancelAlarm_inv upd_inv) (auto simp: tame_def entry_ok_def exitEntry_def)
  then have inv1: "pt_inv ?t1" by simp
  have del: "deliverable ?e1 = deliverable e" by (simp add: deliverable_def exitEntry_def)
  have par1: "deliverable pe = []" if "mget (pt_entries ?t1) (pe_ppid e) = Some pe" for pe
    using that par e by (cases "pe_ppid e = p") (auto simp: cancelAlarm_def mget_upd del)
  from signalParent_quiet [where pp = "pe_ppid e", OF q inv1 par1] obtain t2
    where t2: "signalParent E (pe_ppid e) ?t1 = Some (Inr (), t2)" "pt_waiters t2 = pt_waiters t"
      and fr: "\<forall>q. q \<noteq> pe_ppid e \<longrightarrow> mget (pt_entries t2) q = mget (pt_entries ?t1) q"
        "\<forall>e'. mget (pt_entries ?t1) (pe_ppid e) = Some e' \<longrightarrow> pe_status e' = Exited \<longrightarrow> t2 = ?t1"
    by (auto simp: cancelAlarm_def)
  have e2: "mget (pt_entries t2) p = Some ?e1"
    using fr e1p by (cases "pe_ppid e = p") (auto simp: exitEntry_def)
  let ?t' = "scheduleReap p (notifyWaiters p ?st t2)"
  have onExit: "env_onExit E p = ret ()" using q by (simp add: quiet_env_def)
  have run: "markExited E p code t = Some (Inr (), ?t')"
    using e t2(1) by (simp add: markExited_def withEntry_def seqA_def andThen_def onExit)
  have ent: "pt_entries ?t' = pt_entries t2"
    by (simp add: scheduleReap_def notifyWaiters_def Let_def split: option.split)
  have "waitpid p opts ?t' = Some (Inr (WaitNow (Some ?i)), ?t')"
    using e2 by (simp add: waitpid_def ent exitEntry_def)
  moreover have "EvResolve w ?i \<in> set (pt_log ?t')" if "mget (pt_waiters t) p = Some ws" "w \<in> set ws" for ws w
    using that e2 t2(2) by (simp add: scheduleReap_def notifyWaiters_def Let_def exitEntry_def)
  ultimately show ?thesis using run wstatus_of_decode [of "pe_termSignal e" code]
    by (intro exI [of _ ?t'] exI [of _ ?i]) auto
qed

theorem exit_status_agrees_witness:
  "let t = run_ops (proc_step silent 5 2) [(0, PcSpawn ''node'' ''sh'' [] ctx0), (0, PcWait 1 0)] pt_new
   in \<exists>t' i. markExited (script_env silent 1 5 2) 1 259 t = Some (Inr (), t') \<and>
      EvResolve 0 i \<in> set (pt_log t') \<and> uint (WEXITSTATUS (wi_status i)) = 3"
proof -
  let ?t = "run_ops (proc_step silent 5 2) [(0, PcSpawn ''node'' ''sh'' [] ctx0), (0, PcWait 1 0)] pt_new"
  let ?e = "newEntry 0 1 ''node'' ''sh'' [] ctx0 None"
  have q: "quiet_env (script_env silent 1 5 2)" "0 < env_fuel (script_env silent 1 5 2)"
    by (simp_all add: quiet_env_def eval_nat_numeral silent_def fun_eq_iff)
  have i: "pt_inv ?t" by (rule reachable_inv)
  have e: "mget (pt_entries ?t) 1 = Some ?e" "pe_status ?e \<noteq> Exited" "mget (pt_waiters ?t) 1 = Some [0]"
    by (simp_all add: proc_eval eval_nat_numeral)
  have "pe_ppid ?e = 0" "pe_termSignal ?e = 0" by (simp_all add: newEntry_def ctx0_def)
  moreover have "mget (pt_entries ?t) 0 = None" by (simp add: proc_eval)
  ultimately show ?thesis
    using exit_status_agrees [OF q i e(1,2), of 259 0] e(3) by (auto simp: Let_def simp del: run_ops.simps script_env.simps)
qed

text \<open>
  The status of a zombie can change after its waiters were told: a signal that was pending when
  the process exited is delivered by a later \<^verbatim>\<open>sigprocmask\<close> and overwrites \<^verbatim>\<open>termSignal\<close>, so \<^verbatim>\<open>waitpid\<close> then
  reports death by SIGTERM for a process whose waiter was resolved with a normal exit of code 0.
\<close>

lemma zombie_status_overwritten:
  "let t = run_ops (proc_step silent 5 2) [(0, PcSpawn ''node'' ''sh'' [] ctx0), (0, PcMask 1 SIG_BLOCK [15]),
       (0, PcKill 1 15), (0, PcWait 1 0), (1, PcExit 1 0), (2, PcMask 1 SIG_UNBLOCK [15])] pt_new
   in EvResolve 0 \<lparr>wi_pid = 1, wi_status = encodeExitStatus 0, wi_termSignal = 0\<rparr> \<in> set (pt_log t) \<and>
      waitpid 1 0 t = Some (Inr (WaitNow (Some
        \<lparr>wi_pid = 1, wi_status = encodeSignalStatus 15, wi_termSignal = 15\<rparr>)), t)"
  by (simp add: proc_eval eval_nat_numeral)

definition throwing :: script where
  "throwing = silent\<lparr>sc_handler := (\<lambda>_ _. [PcKill 99 SIGTERM])\<rparr>"

text \<open>
  An exception in the parent's SIGCHLD handler leaves the waiters of the child waiting forever: the
  child is marked exited before the handler runs and nothing notifies the waiters later, nor is the
  zombie scheduled for reaping; another exit of the same process does nothing.
\<close>

lemma throwing_sigchld_strands_waiter:
  "let t = run_ops (proc_step throwing 5 2) [(0, PcSpawn ''node'' ''sh'' [] ctx0),
       (0, PcAction 1 SIGCHLD \<lparr>sh_handler = SigUser 7, sh_mask = [], sh_flags = 0\<rparr>),
       (0, PcSpawn ''node'' ''a'' [] (ctx0\<lparr>ctx_ppid := 1\<rparr>)), (0, PcWait 2 0), (1, PcExit 2 0)] pt_new
   in map_option pe_status (mget (pt_entries t) 2) = Some Exited \<and> mget (pt_waiters t) 2 = Some [0] \<and>
      pt_zombies t = [] \<and> proc_step throwing 5 2 (2, PcExit 2 0) t = t"
  by (simp add: proc_eval throwing_def eval_nat_numeral)

end
