(* ===== verification/Pty.thy ===== *)
theory Pty
  imports Pipe_Manager
begin

section \<open>Pseudo-terminals\<close>

text \<open>
  \<^verbatim>\<open>kernel/pty.ts\<close> with \<^verbatim>\<open>Termios\<close> of \<^verbatim>\<open>kernel/types.ts\<close>. A pseudo-terminal carries bytes in two directions:
  the master's writes pass the line discipline and reach the slave (input), the slave's writes pass
  output processing and reach the master (output), which also sees the echo.

  An operation on one terminal takes its state to a result and a new state; a throw keeps what was
  done before it. \<open>py_log\<close> records the chunks accepted in each direction, the promises resolved (a
  read, by its number, with data or \<^verbatim>\<open>null\<close>) and the calls of \<^verbatim>\<open>onSignal\<close>. That hook is the kernel's, a parameter here: for a process group,
  a signal and the flag to spare session leaders it gives the number of processes signalled, or
  \<^const>\<open>None\<close> when it throws; the hook itself may be absent.
\<close>

subsection \<open>Terminal attributes\<close>

record TermiosCC =
  cc_vintr :: int
  cc_vquit :: int
  cc_vsusp :: int
  cc_veof :: int
  cc_verase :: int

record Termios =
  tm_icrnl :: bool
  tm_opost :: bool
  tm_onlcr :: bool
  tm_icanon :: bool
  tm_echo :: bool
  tm_isig :: bool
  tm_cc :: TermiosCC

definition defaultTermios :: Termios where
  "defaultTermios = \<lparr>tm_icrnl = True, tm_opost = True, tm_onlcr = True, tm_icanon = True, tm_echo = True,
     tm_isig = True, tm_cc = \<lparr>cc_vintr = 0x03, cc_vquit = 0x1c, cc_vsusp = 0x1a, cc_veof = 0x04,
     cc_verase = 0x7f\<rparr>\<rparr>"

subsection \<open>State\<close>

datatype pty_side = Master | Slave

datatype pty_event =
    InputAccepted bytes
  | OutputAccepted bytes
  | InputRead nat "bytes option"
  | OutputRead nat "bytes option"
  | SignalSent pid int bool

record PtyState =
  py_id :: nat
  py_path :: string
  py_master :: dref
  py_slave :: dref
  py_input :: "bytes list"
  py_output :: "bytes list"
  py_closedMaster :: bool
  py_closedSlave :: bool
  py_inputWaiters :: "nat list"
  py_outputWaiters :: "nat list"
  py_termios :: Termios
  py_line :: bytes
  py_foreground :: pid
  py_leader :: pid
  py_log :: "pty_event list"

record PtyManager =
  pty_states :: "(nat, PtyState) jsmap"
  pty_descToPty :: "(nat, nat \<times> pty_side) jsmap"
  pty_nextId :: nat
  pty_nextDescId :: nat
  pty_nextToken :: nat

type_synonym signal_hook = "(pid \<Rightarrow> int \<Rightarrow> bool \<Rightarrow> nat option) option"

type_synonym 'a pty_op = "PtyState \<Rightarrow> 'a res \<times> PtyState"

definition MAX_PTY_BUFFER_BYTES :: nat where "MAX_PTY_BUFFER_BYTES = 65536"
definition MAX_CANON :: nat where "MAX_CANON = 4096"

definition pty_new :: PtyManager where
  "pty_new = \<lparr>pty_states = [], pty_descToPty = [], pty_nextId = 0, pty_nextDescId = 200000,
     pty_nextToken = 0\<rparr>"

text \<open>Sequencing: an error ends the operation with the state reached.\<close>

definition thenP :: "'a pty_op \<Rightarrow> 'b pty_op \<Rightarrow> 'b pty_op" where
  "thenP f g st = (case f st of (Inl e, st1) \<Rightarrow> (Inl e, st1) | (Inr _, st1) \<Rightarrow> g st1)"

definition skipP :: "unit pty_op" where
  "skipP st = (Inr (), st)"

definition doP :: "(PtyState \<Rightarrow> PtyState) \<Rightarrow> unit pty_op" where
  "doP f st = (Inr (), f st)"

subsection \<open>Buffers\<close>

definition bufferBytes :: "bytes list \<Rightarrow> nat" where
  "bufferBytes buffer = sum_list (map length buffer)"

definition deliverInput :: "bytes \<Rightarrow> unit pty_op" where
  "deliverInput data st =
     (case py_inputWaiters st of
        w # ws \<Rightarrow> (Inr (), st\<lparr>py_inputWaiters := ws,
          py_log := py_log st @ [InputAccepted data, InputRead w (Some data)]\<rparr>)
      | [] \<Rightarrow>
          if MAX_PTY_BUFFER_BYTES < bufferBytes (py_input st) + length data then (Inl EAGAIN, st)
          else (Inr (), st\<lparr>py_input := py_input st @ [data], py_log := py_log st @ [InputAccepted data]\<rparr>))"

definition echoOutput :: "bytes \<Rightarrow> unit pty_op" where
  "echoOutput data st =
     (case py_outputWaiters st of
        w # ws \<Rightarrow> (Inr (), st\<lparr>py_outputWaiters := ws,
          py_log := py_log st @ [OutputAccepted data, OutputRead w (Some data)]\<rparr>)
      | [] \<Rightarrow>
          if MAX_PTY_BUFFER_BYTES < bufferBytes (py_output st) + length data then (Inl EAGAIN, st)
          else (Inr (), st\<lparr>py_output := py_output st @ [data], py_log := py_log st @ [OutputAccepted data]\<rparr>))"

subsection \<open>Output processing\<close>

text \<open>
  The copy loop with the previous byte of the source: a line feed not preceded by a carriage return
  is written as the pair. \<open>loneLFs\<close> is the counting loop that sizes the result.
\<close>

definition isLoneLF :: "byte option \<Rightarrow> byte \<Rightarrow> bool" where
  "isLoneLF prev b \<longleftrightarrow> b = 0x0a \<and> prev \<noteq> Some 0x0d"

fun loneLFs :: "byte option \<Rightarrow> bytes \<Rightarrow> nat" where
  "loneLFs prev [] = 0"
| "loneLFs prev (b # bs) = (if isLoneLF prev b then 1 else 0) + loneLFs (Some b) bs"

fun addCRs :: "byte option \<Rightarrow> bytes \<Rightarrow> bytes" where
  "addCRs prev [] = []"
| "addCRs prev (b # bs) = (if isLoneLF prev b then [0x0d, b] else [b]) @ addCRs (Some b) bs"

definition processOutput :: "Termios \<Rightarrow> bytes \<Rightarrow> bytes" where
  "processOutput tm data =
     (if \<not> tm_opost tm \<or> \<not> tm_onlcr tm then data
      else if 0x0a \<notin> set data then data
      else if loneLFs None data = 0 then data
      else addCRs None data)"

subsection \<open>Line discipline\<close>

definition signalForByte :: "Termios \<Rightarrow> byte \<Rightarrow> int option" where
  "signalForByte tm b =
     (if uint b = cc_vintr (tm_cc tm) then Some 2
      else if uint b = cc_vsusp (tm_cc tm) then Some 20
      else if uint b = cc_vquit (tm_cc tm) then Some 3
      else None)"

definition applyInputTranslations :: "bool \<Rightarrow> bytes \<Rightarrow> bytes" where
  "applyInputTranslations icrnl data =
     (if \<not> icrnl \<or> 0x0d \<notin> set data then data else map (\<lambda>b. if b = 0x0d then 0x0a else b) data)"

text \<open>A call of the hook, its exceptions swallowed, when there is a foreground group.\<close>

definition callSignal :: "signal_hook \<Rightarrow> int \<Rightarrow> bool \<Rightarrow> PtyState \<Rightarrow> nat \<times> PtyState" where
  "callSignal hook sig excludeLeaders st =
     (if 0 < py_foreground st
      then (case hook of None \<Rightarrow> (0, st)
            | Some f \<Rightarrow>
                ((case f (py_foreground st) sig excludeLeaders of None \<Rightarrow> 0 | Some n \<Rightarrow> n),
                 st\<lparr>py_log := py_log st @ [SignalSent (py_foreground st) sig excludeLeaders]\<rparr>))
      else (0, st))"

definition echoIf :: "bool \<Rightarrow> bytes \<Rightarrow> unit pty_op" where
  "echoIf b data = (if b then echoOutput data else skipP)"

definition interruptLeader :: "signal_hook \<Rightarrow> int \<Rightarrow> unit pty_op" where
  "interruptLeader hook sig st =
     thenP (echoIf (tm_echo (py_termios st)) [0x5e, 0x43, 0x0d, 0x0a])
       (\<lambda>st1. let (childrenKilled, st2) = callSignal hook sig True st1
              in if childrenKilled = 0 then deliverInput [0x0a] st2 else (Inr (), st2)) st"

definition signalChar :: "signal_hook \<Rightarrow> int \<Rightarrow> unit pty_op" where
  "signalChar hook sig st =
     (let tm = py_termios st;
          st0 = (if tm_icanon tm then st\<lparr>py_line := []\<rparr> else st)
      in if sig = 2 \<and> 0 < py_leader st \<and> py_foreground st = py_leader st
         then interruptLeader hook sig st0
         else thenP (echoIf (sig = 20 \<and> tm_echo tm) [0x5e, 0x5a, 0x0d, 0x0a])
             (thenP (echoIf (sig = 3 \<and> tm_echo tm) [0x5e, 0x5c, 0x0d, 0x0a])
               (doP (\<lambda>st1. snd (callSignal hook sig False st1)))) st0)"

definition canonByte :: "byte \<Rightarrow> unit pty_op" where
  "canonByte b st =
     (let tm = py_termios st
      in if uint b = cc_veof (tm_cc tm) then
           if py_line st = [] then deliverInput [] st
           else thenP (deliverInput (py_line st)) (doP (\<lambda>st. st\<lparr>py_line := []\<rparr>)) st
         else if uint b = cc_verase (tm_cc tm) \<or> b = 0x08 then
           if py_line st \<noteq> []
           then echoIf (tm_echo tm) [0x08, 0x20, 0x08] (st\<lparr>py_line := butlast (py_line st)\<rparr>)
           else (Inr (), st)
         else if b = 0x0a then
           (let st1 = st\<lparr>py_line := py_line st @ [0x0a]\<rparr>
            in thenP (echoIf (tm_echo tm) [0x0d, 0x0a])
              (thenP (deliverInput (py_line st1)) (doP (\<lambda>st. st\<lparr>py_line := []\<rparr>))) st1)
         else if MAX_CANON \<le> length (py_line st) then (Inr (), st)
         else echoIf (tm_echo tm) [b] (st\<lparr>py_line := py_line st @ [b]\<rparr>))"

definition inputByte :: "signal_hook \<Rightarrow> byte \<Rightarrow> unit pty_op" where
  "inputByte hook byte st =
     (let tm = py_termios st;
          b = (if tm_icrnl tm \<and> byte = 0x0d then 0x0a else byte)
      in case (if tm_isig tm then signalForByte tm b else None) of
           Some sig \<Rightarrow> signalChar hook sig st
         | None \<Rightarrow>
             if tm_icanon tm then canonByte b st
             else thenP (echoIf (tm_echo tm) [b]) (deliverInput [b]) st)"

primrec inputLoop :: "signal_hook \<Rightarrow> bytes \<Rightarrow> unit pty_op" where
  "inputLoop hook [] = skipP"
| "inputLoop hook (b # bs) = thenP (inputByte hook b) (inputLoop hook bs)"

definition processInput :: "signal_hook \<Rightarrow> bytes \<Rightarrow> nat pty_op" where
  "processInput hook data st =
     (let tm = py_termios st
      in thenP (if \<not> tm_icanon tm \<and> \<not> tm_echo tm \<and> \<not> tm_isig tm
                then deliverInput (applyInputTranslations (tm_icrnl tm) data)
                else inputLoop hook data)
           (\<lambda>st1. (Inr (length data), st1)) st)"

subsection \<open>The manager\<close>

definition createPty :: "desc_env \<times> PtyManager \<Rightarrow> (dref \<times> dref \<times> string) \<times> desc_env \<times> PtyManager" where
  "createPty = (\<lambda>(env, m).
     let k = pty_nextId m;
         path = ''/dev/pts/'' @ dec k;
         masterId = pty_nextDescId m;
         (md, env1) = newDesc \<lparr>desc_id = masterId, desc_path = ''pty:'' @ dec k @ '':master'',
           desc_cursor = 0, desc_flags = O_RDWR, desc_refCount = 0, desc_creationMode = None\<rparr> env;
         slaveId = Suc masterId;
         (sd, env2) = newDesc \<lparr>desc_id = slaveId, desc_path = path,
           desc_cursor = 0, desc_flags = O_RDWR, desc_refCount = 0, desc_creationMode = None\<rparr> env1;
         st = \<lparr>py_id = k, py_path = path, py_master = md, py_slave = sd, py_input = [], py_output = [],
           py_closedMaster = False, py_closedSlave = False, py_inputWaiters = [], py_outputWaiters = [],
           py_termios = defaultTermios, py_line = [], py_foreground = 0, py_leader = 0, py_log = []\<rparr>
     in ((md, sd, path), env2,
         m\<lparr>pty_states := mput k st (pty_states m),
           pty_descToPty := mput slaveId (k, Slave) (mput masterId (k, Master) (pty_descToPty m)),
           pty_nextId := Suc k, pty_nextDescId := Suc slaveId\<rparr>))"

definition pty_putState :: "PtyState \<Rightarrow> PtyManager \<Rightarrow> PtyManager" where
  "pty_putState st m = m\<lparr>pty_states := mput (py_id st) st (pty_states m)\<rparr>"

text \<open>The two lookups every operation starts with: \<^const>\<open>EBADF\<close> when either fails.\<close>

definition pty_find :: "PtyManager \<Rightarrow> nat \<Rightarrow> (pty_side \<times> PtyState) option" where
  "pty_find m descriptionId =
     (case mget (pty_descToPty m) descriptionId of
        None \<Rightarrow> None
      | Some (k, side) \<Rightarrow> map_option (Pair side) (mget (pty_states m) k))"

definition slaveWrite :: "bytes \<Rightarrow> nat pty_op" where
  "slaveWrite data st = thenP (echoOutput (processOutput (py_termios st) data)) (\<lambda>st1. (Inr (length data), st1)) st"

definition pty_write :: "signal_hook \<Rightarrow> nat \<Rightarrow> bytes \<Rightarrow> PtyManager \<Rightarrow> nat res \<times> PtyManager" where
  "pty_write hook descriptionId data m =
     (case pty_find m descriptionId of
        None \<Rightarrow> (Inl EBADF, m)
      | Some (side, st) \<Rightarrow>
          if py_closedMaster st \<or> py_closedSlave st then (Inl EIO, m)
          else (case (case side of Master \<Rightarrow> processInput hook data st | Slave \<Rightarrow> slaveWrite data st) of
                  (r, st1) \<Rightarrow> (r, pty_putState st1 m)))"

text \<open>A read returns a promise, resolved at once or left waiting under its number.\<close>

definition pty_read :: "nat \<Rightarrow> nat \<Rightarrow> PtyManager \<Rightarrow> nat res \<times> PtyManager" where
  "pty_read descriptionId len m =
     (let tok = pty_nextToken m; m1 = m\<lparr>pty_nextToken := Suc tok\<rparr>
      in case pty_find m descriptionId of
        None \<Rightarrow> (Inl EBADF, m)
      | Some (Master, st) \<Rightarrow>
          if py_closedMaster st then (Inl EIO, m)
          else if py_output st \<noteq> []
          then (case drainBuffer len (py_output st) of
                  (data, buf) \<Rightarrow> (Inr tok, pty_putState (st\<lparr>py_output := buf,
                    py_log := py_log st @ [OutputRead tok (Some data)]\<rparr>) m1))
          else if py_closedSlave st
          then (Inr tok, pty_putState (st\<lparr>py_log := py_log st @ [OutputRead tok None]\<rparr>) m1)
          else (Inr tok, pty_putState (st\<lparr>py_outputWaiters := py_outputWaiters st @ [tok]\<rparr>) m1)
      | Some (Slave, st) \<Rightarrow>
          if py_closedSlave st then (Inl EIO, m)
          else if py_input st \<noteq> []
          then (case drainBuffer len (py_input st) of
                  (data, buf) \<Rightarrow> (Inr tok, pty_putState (st\<lparr>py_input := buf,
                    py_log := py_log st @ [InputRead tok (Some data)]\<rparr>) m1))
          else if py_closedMaster st
          then (Inr tok, pty_putState (st\<lparr>py_log := py_log st @ [InputRead tok None]\<rparr>) m1)
          else (Inr tok, pty_putState (st\<lparr>py_inputWaiters := py_inputWaiters st @ [tok]\<rparr>) m1))"

text \<open>A close resolves the other end's waiting reads with \<^verbatim>\<open>null\<close>, then its own.\<close>

definition hangupInput :: "PtyState \<Rightarrow> PtyState" where
  "hangupInput st = st\<lparr>py_log := py_log st @ map (\<lambda>w. InputRead w None) (py_inputWaiters st), py_inputWaiters := []\<rparr>"

definition hangupOutput :: "PtyState \<Rightarrow> PtyState" where
  "hangupOutput st = st\<lparr>py_log := py_log st @ map (\<lambda>w. OutputRead w None) (py_outputWaiters st), py_outputWaiters := []\<rparr>"

definition closeEnd :: "signal_hook \<Rightarrow> pty_side \<Rightarrow> PtyState \<Rightarrow> PtyState" where
  "closeEnd hook side st =
     (case side of
        Master \<Rightarrow> hangupOutput (hangupInput (snd (callSignal hook 1 False (st\<lparr>py_closedMaster := True\<rparr>))))
      | Slave \<Rightarrow> hangupInput (hangupOutput (st\<lparr>py_closedSlave := True\<rparr>)))"

definition pty_close :: "signal_hook \<Rightarrow> nat \<Rightarrow> PtyManager \<Rightarrow> PtyManager" where
  "pty_close hook descriptionId m =
     (case pty_find m descriptionId of
        None \<Rightarrow> m
      | Some (side, st) \<Rightarrow>
          let st1 = closeEnd hook side st;
              m1 = (pty_putState st1 m)\<lparr>pty_descToPty := mdel descriptionId (pty_descToPty m)\<rparr>
          in if py_closedMaster st1 \<and> py_closedSlave st1
             then m1\<lparr>pty_states := mdel (py_id st1) (pty_states m1)\<rparr> else m1)"

definition isPty :: "PtyManager \<Rightarrow> nat \<Rightarrow> bool" where
  "isPty m descriptionId = mhas (pty_descToPty m) descriptionId"

definition isSlave :: "PtyManager \<Rightarrow> nat \<Rightarrow> bool" where
  "isSlave m descriptionId =
     (case mget (pty_descToPty m) descriptionId of Some (_, Slave) \<Rightarrow> True | _ \<Rightarrow> False)"

definition createPtyFDs ::
  "desc_env \<times> ProcessFDTable \<times> PtyManager \<Rightarrow>
   (fdnum \<times> fdnum \<times> string) res \<times> desc_env \<times> ProcessFDTable \<times> PtyManager" where
  "createPtyFDs = (\<lambda>(env, t, m).
     let ((md, sd, path), env1, m1) = createPty (env, m)
     in case fdt_openWith md FILETYPE_CHARACTER_DEVICE None (env1, t) of
          Inl e \<Rightarrow> (Inl e, env1, t, m1)
        | Inr (masterFd, env2, t2) \<Rightarrow>
            (case fdt_openWith sd FILETYPE_CHARACTER_DEVICE None (env2, t2) of
               Inl e \<Rightarrow> (Inl e, env2, t2, m1)
             | Inr (slaveFd, env3, t3) \<Rightarrow> (Inr (masterFd, slaveFd, path), env3, t3, m1)))"

text \<open>Updates of one terminal's settings; \<^const>\<open>None\<close> is an absent field of the partial object.\<close>

definition pty_update :: "(PtyState \<Rightarrow> PtyState) \<Rightarrow> nat \<Rightarrow> PtyManager \<Rightarrow> PtyManager res" where
  "pty_update f descriptionId m =
     (case pty_find m descriptionId of None \<Rightarrow> Inl EBADF | Some (_, st) \<Rightarrow> Inr (pty_putState (f st) m))"

definition orElse :: "'a option \<Rightarrow> 'a \<Rightarrow> 'a" where
  "orElse v old = (case v of None \<Rightarrow> old | Some x \<Rightarrow> x)"

record LineDisciplineConfig =
  ld_canonical :: "bool option"
  ld_echo :: "bool option"
  ld_isig :: "bool option"

definition setDiscipline :: "nat \<Rightarrow> LineDisciplineConfig \<Rightarrow> PtyManager \<Rightarrow> PtyManager res" where
  "setDiscipline descriptionId c = pty_update (\<lambda>st. let tm = py_termios st in
     st\<lparr>py_termios := tm\<lparr>tm_icanon := orElse (ld_canonical c) (tm_icanon tm),
       tm_echo := orElse (ld_echo c) (tm_echo tm), tm_isig := orElse (ld_isig c) (tm_isig tm)\<rparr>\<rparr>) descriptionId"

definition setForegroundPgid :: "nat \<Rightarrow> pid \<Rightarrow> PtyManager \<Rightarrow> PtyManager res" where
  "setForegroundPgid descriptionId pgid = pty_update (\<lambda>st. st\<lparr>py_foreground := pgid\<rparr>) descriptionId"

definition setSessionLeader :: "nat \<Rightarrow> pid \<Rightarrow> PtyManager \<Rightarrow> PtyManager res" where
  "setSessionLeader descriptionId pgid = pty_update (\<lambda>st. st\<lparr>py_leader := pgid\<rparr>) descriptionId"

definition getTermios :: "nat \<Rightarrow> PtyManager \<Rightarrow> Termios res" where
  "getTermios descriptionId m =
     (case pty_find m descriptionId of None \<Rightarrow> Inl EBADF | Some (_, st) \<Rightarrow> Inr (py_termios st))"

definition getForegroundPgid :: "nat \<Rightarrow> PtyManager \<Rightarrow> pid res" where
  "getForegroundPgid descriptionId m =
     (case pty_find m descriptionId of None \<Rightarrow> Inl EBADF | Some (_, st) \<Rightarrow> Inr (py_foreground st))"

record TermiosCCUpdate =
  cu_vintr :: "int option"
  cu_vquit :: "int option"
  cu_vsusp :: "int option"
  cu_veof :: "int option"
  cu_verase :: "int option"

record TermiosUpdate =
  tu_icrnl :: "bool option"
  tu_opost :: "bool option"
  tu_onlcr :: "bool option"
  tu_icanon :: "bool option"
  tu_echo :: "bool option"
  tu_isig :: "bool option"
  tu_cc :: "TermiosCCUpdate option"

definition assignCC :: "TermiosCCUpdate \<Rightarrow> TermiosCC \<Rightarrow> TermiosCC" where
  "assignCC u c = \<lparr>cc_vintr = orElse (cu_vintr u) (cc_vintr c), cc_vquit = orElse (cu_vquit u) (cc_vquit c),
     cc_vsusp = orElse (cu_vsusp u) (cc_vsusp c), cc_veof = orElse (cu_veof u) (cc_veof c),
     cc_verase = orElse (cu_verase u) (cc_verase c)\<rparr>"

definition mergeTermios :: "TermiosUpdate \<Rightarrow> Termios \<Rightarrow> Termios" where
  "mergeTermios u t = \<lparr>tm_icrnl = orElse (tu_icrnl u) (tm_icrnl t), tm_opost = orElse (tu_opost u) (tm_opost t),
     tm_onlcr = orElse (tu_onlcr u) (tm_onlcr t), tm_icanon = orElse (tu_icanon u) (tm_icanon t),
     tm_echo = orElse (tu_echo u) (tm_echo t), tm_isig = orElse (tu_isig u) (tm_isig t),
     tm_cc = (case tu_cc u of None \<Rightarrow> tm_cc t | Some c \<Rightarrow> assignCC c (tm_cc t))\<rparr>"

definition setTermios :: "nat \<Rightarrow> TermiosUpdate \<Rightarrow> PtyManager \<Rightarrow> PtyManager res" where
  "setTermios descriptionId u =
     pty_update (\<lambda>st. st\<lparr>py_termios := mergeTermios u (py_termios st)\<rparr>) descriptionId"

subsection \<open>The invariant of a terminal\<close>

definition inputAccepted :: "pty_event list \<Rightarrow> bytes" where
  "inputAccepted log = concat (map (\<lambda>e. case e of InputAccepted b \<Rightarrow> b | _ \<Rightarrow> []) log)"

definition inputRead :: "pty_event list \<Rightarrow> bytes" where
  "inputRead log = concat (map (\<lambda>e. case e of InputRead _ (Some b) \<Rightarrow> b | _ \<Rightarrow> []) log)"

definition outputAccepted :: "pty_event list \<Rightarrow> bytes" where
  "outputAccepted log = concat (map (\<lambda>e. case e of OutputAccepted b \<Rightarrow> b | _ \<Rightarrow> []) log)"

definition outputRead :: "pty_event list \<Rightarrow> bytes" where
  "outputRead log = concat (map (\<lambda>e. case e of OutputRead _ (Some b) \<Rightarrow> b | _ \<Rightarrow> []) log)"

lemmas stream_defs = inputAccepted_def inputRead_def outputAccepted_def outputRead_def

definition pty_ok :: "PtyState \<Rightarrow> bool" where
  "pty_ok st \<longleftrightarrow>
     inputAccepted (py_log st) = inputRead (py_log st) @ concat (py_input st) \<and>
     outputAccepted (py_log st) = outputRead (py_log st) @ concat (py_output st) \<and>
     length (concat (py_input st)) \<le> MAX_PTY_BUFFER_BYTES \<and>
     length (concat (py_output st)) \<le> MAX_PTY_BUFFER_BYTES \<and>
     (py_inputWaiters st \<noteq> [] \<longrightarrow> py_input st = [] \<and> \<not> py_closedMaster st \<and> \<not> py_closedSlave st) \<and>
     (py_outputWaiters st \<noteq> [] \<longrightarrow> py_output st = [] \<and> \<not> py_closedMaster st \<and> \<not> py_closedSlave st)"

lemma bufferBytes_concat: "bufferBytes b = length (concat b)"
  by (simp add: bufferBytes_def length_concat)

text \<open>An operation on a terminal that keeps it well formed, its identity and its ends.\<close>

definition same_ends :: "PtyState \<Rightarrow> PtyState \<Rightarrow> bool" where
  "same_ends st st' \<longleftrightarrow> py_id st' = py_id st \<and> py_closedMaster st' = py_closedMaster st \<and>
     py_closedSlave st' = py_closedSlave st"

lemma same_ends_trans: "same_ends a b \<Longrightarrow> same_ends b c \<Longrightarrow> same_ends a c"
  by (simp add: same_ends_def)

lemma same_ends_simps [simp]:
  "same_ends st st" "same_ends st (st\<lparr>py_line := l\<rparr>)" "same_ends st (st\<lparr>py_foreground := p\<rparr>)"
  "same_ends st (st\<lparr>py_leader := p\<rparr>)" "same_ends st (st\<lparr>py_termios := tm\<rparr>)"
  "same_ends st (st\<lparr>py_log := lg\<rparr>)" "same_ends (st\<lparr>py_line := l\<rparr>) st' = same_ends st st'"
  by (simp_all add: same_ends_def)

definition pty_keeps :: "'a pty_op \<Rightarrow> bool" where
  "pty_keeps f \<longleftrightarrow> (\<forall>st. pty_ok st \<longrightarrow> pty_ok (snd (f st)) \<and> same_ends st (snd (f st)))"

lemma pty_keepsI: "(\<And>st. pty_ok st \<Longrightarrow> pty_ok (snd (f st)) \<and> same_ends st (snd (f st))) \<Longrightarrow> pty_keeps f"
  by (simp add: pty_keeps_def)

lemma pty_keepsD: "pty_keeps f \<Longrightarrow> pty_ok st \<Longrightarrow> pty_ok (snd (f st)) \<and> same_ends st (snd (f st))"
  by (simp add: pty_keeps_def)

lemma thenP_keeps: "pty_keeps f \<Longrightarrow> pty_keeps g \<Longrightarrow> pty_keeps (thenP f g)"
proof (rule pty_keepsI)
  fix st assume f: "pty_keeps f" and g: "pty_keeps g" and ok: "pty_ok st"
  show "pty_ok (snd (thenP f g st)) \<and> same_ends st (snd (thenP f g st))"
    using pty_keepsD [OF f ok] pty_keepsD [OF g, of "snd (f st)"]
    by (auto simp: thenP_def split: prod.split sum.split dest: same_ends_trans)
qed

lemma pty_frame:
  "pty_ok (st\<lparr>py_line := l\<rparr>) = pty_ok st" "pty_ok (st\<lparr>py_foreground := p\<rparr>) = pty_ok st"
  "pty_ok (st\<lparr>py_leader := p\<rparr>) = pty_ok st" "pty_ok (st\<lparr>py_termios := tm\<rparr>) = pty_ok st"
  "pty_ok (st\<lparr>py_log := py_log st @ [SignalSent p g b]\<rparr>) = pty_ok st"
  by (simp_all add: pty_ok_def stream_defs)

lemma deliverInput_keeps: "pty_keeps (deliverInput data)"
  by (rule pty_keepsI)
    (auto simp: deliverInput_def same_ends_def pty_ok_def stream_defs bufferBytes_concat split: list.split)

lemma echoOutput_keeps: "pty_keeps (echoOutput data)"
  by (rule pty_keepsI)
    (auto simp: echoOutput_def same_ends_def pty_ok_def stream_defs bufferBytes_concat split: list.split)

lemma skipP_keeps: "pty_keeps skipP"
  by (simp add: pty_keeps_def skipP_def)

lemma echoIf_keeps: "pty_keeps (echoIf b data)"
  by (cases b) (simp_all add: echoIf_def echoOutput_keeps skipP_keeps)

lemma callSignal_ok:
  "pty_ok (snd (callSignal hook g b st)) = pty_ok st" "same_ends st (snd (callSignal hook g b st))"
  by (simp_all add: callSignal_def pty_frame split: option.split)

lemma doP_keeps: "(\<And>st. pty_ok (f st) = pty_ok st \<and> same_ends st (f st)) \<Longrightarrow> pty_keeps (doP f)"
  by (simp add: pty_keeps_def doP_def)

text \<open>An operation that first reads the state and then runs one that keeps terminals well formed.\<close>

lemma pty_keeps_state: "(\<And>x. pty_keeps (k x)) \<Longrightarrow> pty_keeps (\<lambda>st. k (f st) st)"
  by (simp add: pty_keeps_def)

lemmas pty_rules = thenP_keeps deliverInput_keeps echoOutput_keeps echoIf_keeps skipP_keeps doP_keeps

lemma interruptLeader_keeps: "pty_keeps (interruptLeader hook sig)"
proof -
  have "pty_keeps (\<lambda>st1. let (childrenKilled, st2) = callSignal hook sig True st1
      in if childrenKilled = 0 then deliverInput [0x0a] st2 else (Inr (), st2))"
  proof (rule pty_keepsI)
    fix st assume "pty_ok st"
    then have "pty_ok (snd (callSignal hook sig True st))" by (simp add: callSignal_ok)
    from pty_keepsD [OF deliverInput_keeps this] this show "pty_ok (snd (let (childrenKilled, st2) =
        callSignal hook sig True st in if childrenKilled = 0 then deliverInput [0x0a] st2 else (Inr (), st2))) \<and>
      same_ends st (snd (let (childrenKilled, st2) =
        callSignal hook sig True st in if childrenKilled = 0 then deliverInput [0x0a] st2 else (Inr (), st2)))"
      using same_ends_trans [OF callSignal_ok(2) [of st hook sig True]]
      by (auto simp: Let_def case_prod_beta callSignal_ok(2))
  qed
  then have "pty_keeps (thenP (echoIf e [0x5e, 0x43, 0x0d, 0x0a]) (\<lambda>st1. let (childrenKilled, st2) =
      callSignal hook sig True st1 in if childrenKilled = 0 then deliverInput [0x0a] st2 else (Inr (), st2)))" for e
    by (intro pty_rules)
  then show ?thesis unfolding interruptLeader_def by (rule pty_keeps_state)
qed

lemma signalChar_keeps: "pty_keeps (signalChar hook sig)"
proof (rule pty_keepsI)
  fix st assume ok: "pty_ok st"
  define st0 where "st0 = (if tm_icanon (py_termios st) then st\<lparr>py_line := []\<rparr> else st)"
  have ok0: "pty_ok st0" and k: "same_ends st0 st' = same_ends st st'" for st' using ok by (simp_all add: st0_def pty_frame)
  have "pty_keeps (thenP (echoIf a x) (thenP (echoIf b y) (doP (\<lambda>st1. snd (callSignal hook sig False st1)))))" for a b x y
    by (intro pty_rules) (simp add: callSignal_ok)
  from pty_keepsD [OF this ok0] pty_keepsD [OF interruptLeader_keeps ok0]
  show "pty_ok (snd (signalChar hook sig st)) \<and> same_ends st (snd (signalChar hook sig st))"
    by (simp add: signalChar_def Let_def st0_def [symmetric] k)
qed

lemma clear_line_keeps: "pty_keeps (thenP (deliverInput d) (doP (\<lambda>st. st\<lparr>py_line := []\<rparr>)))"
  by (intro pty_rules) (simp add: pty_frame)

lemma canonByte_keeps: "pty_keeps (canonByte b)"
proof (rule pty_keepsI)
  fix st assume ok: "pty_ok st"
  have l: "pty_ok (st\<lparr>py_line := l\<rparr>)" for l using ok by (simp add: pty_frame)
  show "pty_ok (snd (canonByte b st)) \<and> same_ends st (snd (canonByte b st))"
    using pty_keepsD [OF clear_line_keeps ok] pty_keepsD [OF deliverInput_keeps ok]
      pty_keepsD [OF thenP_keeps [OF echoIf_keeps clear_line_keeps] l] pty_keepsD [OF echoIf_keeps l] ok
    by (simp add: canonByte_def Let_def)
qed

lemma inputByte_keeps: "pty_keeps (inputByte hook b)"
proof (rule pty_keepsI)
  fix st assume ok: "pty_ok st"
  show "pty_ok (snd (inputByte hook b st)) \<and> same_ends st (snd (inputByte hook b st))"
    unfolding inputByte_def Let_def
    using pty_keepsD [OF signalChar_keeps ok] pty_keepsD [OF canonByte_keeps ok]
      pty_keepsD [OF thenP_keeps [OF echoIf_keeps deliverInput_keeps] ok]
    by (simp split: option.split)
qed

lemma inputLoop_keeps: "pty_keeps (inputLoop hook bs)"
  by (induction bs) (simp_all add: pty_rules inputByte_keeps)

lemma processInput_keeps: "pty_keeps (processInput hook data)"
proof -
  have "pty_keeps (\<lambda>st1. (Inr (length data) :: nat res, st1))" by (simp add: pty_keeps_def)
  then have "pty_keeps (thenP (if a then deliverInput x else inputLoop hook data) (\<lambda>st1. (Inr (length data), st1)))" for a x
    by (cases a) (simp_all add: pty_rules inputLoop_keeps)
  then show ?thesis unfolding processInput_def Let_def pty_keeps_def by blast
qed

lemma slaveWrite_keeps: "pty_keeps (slaveWrite data)"
proof -
  have "pty_keeps (\<lambda>st1. (Inr (length data) :: nat res, st1))" by (simp add: pty_keeps_def)
  then have "pty_keeps (thenP (echoOutput x) (\<lambda>st1. (Inr (length data), st1)))" for x by (intro pty_rules)
  then show ?thesis unfolding slaveWrite_def pty_keeps_def by blast
qed

subsection \<open>The manager's invariant\<close>

definition descOf :: "nat \<Rightarrow> pty_side \<Rightarrow> nat" where
  "descOf k side = 200000 + 2 * k + (case side of Master \<Rightarrow> 0 | Slave \<Rightarrow> 1)"

definition closedSide :: "pty_side \<Rightarrow> PtyState \<Rightarrow> bool" where
  "closedSide side st = (case side of Master \<Rightarrow> py_closedMaster st | Slave \<Rightarrow> py_closedSlave st)"

definition pty_inv :: "PtyManager \<Rightarrow> bool" where
  "pty_inv m \<longleftrightarrow> pty_nextDescId m = 200000 + 2 * pty_nextId m \<and>
     (\<forall>k st. mget (pty_states m) k = Some st \<longrightarrow>
        pty_ok st \<and> py_id st = k \<and> k < pty_nextId m \<and> \<not> (py_closedMaster st \<and> py_closedSlave st)) \<and>
     (\<forall>d k side. mget (pty_descToPty m) d = Some (k, side) \<longleftrightarrow>
        d = descOf k side \<and> (\<exists>st. mget (pty_states m) k = Some st \<and> \<not> closedSide side st))"

lemma pty_invI:
  assumes "pty_nextDescId m = 200000 + 2 * pty_nextId m"
    and "\<forall>k st. mget (pty_states m) k = Some st \<longrightarrow>
      pty_ok st \<and> py_id st = k \<and> k < pty_nextId m \<and> \<not> (py_closedMaster st \<and> py_closedSlave st)"
    and "\<And>d k side. mget (pty_descToPty m) d = Some (k, side) \<longleftrightarrow>
      d = descOf k side \<and> (\<exists>st. mget (pty_states m) k = Some st \<and> \<not> closedSide side st)"
  shows "pty_inv m"
  using assms unfolding pty_inv_def by blast

lemma pty_inv_desc:
  "pty_inv m \<Longrightarrow> mget (pty_descToPty m) d = Some (k, side) \<longleftrightarrow>
     d = descOf k side \<and> (\<exists>st. mget (pty_states m) k = Some st \<and> \<not> closedSide side st)"
  unfolding pty_inv_def by blast

lemma pty_inv_ids: "pty_inv m \<Longrightarrow> pty_nextDescId m = 200000 + 2 * pty_nextId m"
  by (simp add: pty_inv_def)

lemma descOf_inj [simp]: "descOf k s = descOf k' s' \<longleftrightarrow> k = k' \<and> s = s'"
  by (cases s; cases s') (auto simp: descOf_def, presburger+)

lemma pty_inv_state:
  "pty_inv m \<Longrightarrow> mget (pty_states m) k = Some st \<Longrightarrow> pty_ok st \<and> py_id st = k"
  by (simp add: pty_inv_def)

lemma pty_find_Some:
  assumes "pty_inv m" "pty_find m d = Some (side, st)"
  shows "d = descOf (py_id st) side \<and> mget (pty_states m) (py_id st) = Some st \<and> pty_ok st \<and> \<not> closedSide side st"
proof -
  obtain k where k: "mget (pty_descToPty m) d = Some (k, side)" "mget (pty_states m) k = Some st"
    using assms(2) by (auto simp: pty_find_def split: option.splits)
  moreover have "py_id st = k \<and> pty_ok st" using pty_inv_state [OF assms(1) k(2)] by simp
  moreover have "d = descOf k side \<and> (\<exists>st. mget (pty_states m) k = Some st \<and> \<not> closedSide side st)"
    using assms(1) k(1) unfolding pty_inv_def by blast
  ultimately show ?thesis by auto
qed

text \<open>Replacing a terminal by a well-formed one with the same ends keeps the invariant.\<close>

lemma pty_put_inv:
  assumes inv: "pty_inv m" and st: "mget (pty_states m) (py_id st) = Some st"
    and st': "pty_ok st'" "same_ends st st'"
  shows "pty_inv (pty_putState st' m)"
proof -
  have k: "py_id st' = py_id st" using st'(2) by (simp add: same_ends_def)
  have c: "closedSide side st' = closedSide side st" for side
    using st'(2) by (cases side) (simp_all add: closedSide_def same_ends_def)
  have ex: "(\<exists>x. mget (pty_states (pty_putState st' m)) j = Some x \<and> \<not> closedSide side x) \<longleftrightarrow>
      (\<exists>x. mget (pty_states m) j = Some x \<and> \<not> closedSide side x)" for j side
    using st by (auto simp: pty_putState_def k c)
  have old: "mget (pty_states m) j = Some y \<Longrightarrow> pty_ok y \<and> py_id y = j \<and> j < pty_nextId m \<and>
      \<not> (py_closedMaster y \<and> py_closedSlave y)" for j y
    using inv by (simp add: pty_inv_def)
  show ?thesis
  proof (rule pty_invI)
    show "mget (pty_descToPty (pty_putState st' m)) d = Some (j, side) \<longleftrightarrow>
        d = descOf j side \<and> (\<exists>x. mget (pty_states (pty_putState st' m)) j = Some x \<and> \<not> closedSide side x)" for d j side
      unfolding ex pty_inv_desc [OF inv, symmetric] by (simp add: pty_putState_def)
    show "\<forall>j x. mget (pty_states (pty_putState st' m)) j = Some x \<longrightarrow>
        pty_ok x \<and> py_id x = j \<and> j < pty_nextId (pty_putState st' m) \<and> \<not> (py_closedMaster x \<and> py_closedSlave x)"
      using old old [OF st] st' by (simp add: pty_putState_def same_ends_def)
  qed (use pty_inv_ids [OF inv] in \<open>simp add: pty_putState_def\<close>)
qed

lemma pty_token_inv [simp]: "pty_inv (m\<lparr>pty_nextToken := n\<rparr>) = pty_inv m"
  by (simp add: pty_inv_def)

lemma pty_write_inv: "pty_inv m \<Longrightarrow> pty_inv (snd (pty_write hook d data m))"
proof (cases "pty_find m d")
  case (Some p)
  obtain side st where p: "p = (side, st)" by (cases p)
  assume inv: "pty_inv m"
  have f: "mget (pty_states m) (py_id st) = Some st" "pty_ok st" using pty_find_Some [OF inv Some [unfolded p]] by auto
  show ?thesis
    using Some p inv pty_put_inv [OF inv f(1)] pty_keepsD [OF processInput_keeps f(2)] pty_keepsD [OF slaveWrite_keeps f(2)]
    by (cases side) (auto simp: pty_write_def case_prod_beta)
qed (simp add: pty_write_def)

lemma pty_ok_readOutput:
  assumes "pty_ok st" "py_output st \<noteq> []"
  shows "pty_ok (st\<lparr>py_output := snd (drainBuffer n (py_output st)),
    py_log := py_log st @ [OutputRead tok (Some (fst (drainBuffer n (py_output st))))]\<rparr>)"
  using assms pipe_buf.drain_stream [of n "py_output st"] pipe_buf.drain_snd [of n "py_output st"]
  by (auto simp: pty_ok_def stream_defs)

lemma pty_ok_readInput:
  assumes "pty_ok st" "py_input st \<noteq> []"
  shows "pty_ok (st\<lparr>py_input := snd (drainBuffer n (py_input st)),
    py_log := py_log st @ [InputRead tok (Some (fst (drainBuffer n (py_input st))))]\<rparr>)"
  using assms pipe_buf.drain_stream [of n "py_input st"] pipe_buf.drain_snd [of n "py_input st"]
  by (auto simp: pty_ok_def stream_defs)

lemma pty_ok_wait:
  "pty_ok st \<Longrightarrow> pty_ok (st\<lparr>py_log := py_log st @ [OutputRead tok None]\<rparr>)"
  "pty_ok st \<Longrightarrow> pty_ok (st\<lparr>py_log := py_log st @ [InputRead tok None]\<rparr>)"
  "pty_ok st \<Longrightarrow> py_output st = [] \<Longrightarrow> \<not> py_closedMaster st \<Longrightarrow> \<not> py_closedSlave st \<Longrightarrow>
   pty_ok (st\<lparr>py_outputWaiters := py_outputWaiters st @ [tok]\<rparr>)"
  "pty_ok st \<Longrightarrow> py_input st = [] \<Longrightarrow> \<not> py_closedMaster st \<Longrightarrow> \<not> py_closedSlave st \<Longrightarrow>
   pty_ok (st\<lparr>py_inputWaiters := py_inputWaiters st @ [tok]\<rparr>)"
  by (auto simp: pty_ok_def stream_defs)

lemma pty_read_inv:
  assumes inv: "pty_inv m" shows "pty_inv (snd (pty_read d n m))"
proof (cases "pty_find m d")
  case (Some p)
  obtain side st where p: "p = (side, st)" by (cases p)
  have f: "mget (pty_states m) (py_id st) = Some st" "pty_ok st" using pty_find_Some [OF inv Some [unfolded p]] by auto
  have put: "pty_inv (pty_putState st' (m\<lparr>pty_nextToken := Suc (pty_nextToken m)\<rparr>))"
    if "pty_ok st'" "same_ends st st'" for st'
    using that f inv by (intro pty_put_inv [of _ st]) simp_all
  show ?thesis
    using Some p inv f(2)
    by (cases side) (auto simp: pty_read_def Let_def case_prod_beta intro!: put pty_ok_readOutput
        pty_ok_readInput pty_ok_wait simp: same_ends_def)
qed (simp add: pty_read_def inv Let_def)

lemma closeEnd_simps:
  "py_id (closeEnd hook side st) = py_id st"
  "py_closedMaster (closeEnd hook side st) = (side = Master \<or> py_closedMaster st)"
  "py_closedSlave (closeEnd hook side st) = (side = Slave \<or> py_closedSlave st)"
  by (cases side; simp add: closeEnd_def hangupInput_def hangupOutput_def callSignal_def split: option.split)+

lemma concat_map_Nil [simp]: "concat (map (\<lambda>_. []) xs) = []"
  by (induction xs) auto

lemma hangup_ok:
  "pty_ok st \<Longrightarrow> pty_ok (hangupInput (hangupOutput (st\<lparr>py_closedSlave := True\<rparr>)))"
  "pty_ok st \<Longrightarrow> pty_ok (hangupOutput (hangupInput (snd (callSignal hook 1 False (st\<lparr>py_closedMaster := True\<rparr>)))))"
  by (auto simp: pty_ok_def stream_defs hangupInput_def hangupOutput_def callSignal_def comp_def split: option.split)

lemma closeEnd_ok: "pty_ok st \<Longrightarrow> pty_ok (closeEnd hook side st)"
  by (cases side) (simp_all add: closeEnd_def hangup_ok)

lemma pty_close_inv:
  assumes inv: "pty_inv m" shows "pty_inv (pty_close hook d m)"
proof (cases "pty_find m d")
  case (Some p)
  obtain side st where p: "p = (side, st)" by (cases p)
  note f = pty_find_Some [OF inv Some [unfolded p]]
  let ?st = "closeEnd hook side st"
  have c: "closedSide s ?st = (s = side \<or> closedSide s st)" for s
    by (cases s; cases side) (simp_all add: closedSide_def closeEnd_simps)
  let ?m = "pty_close hook d m"
  have m: "pty_nextDescId ?m = pty_nextDescId m" "pty_nextId ?m = pty_nextId m"
    "pty_descToPty ?m = mdel d (pty_descToPty m)"
    "mget (pty_states ?m) k = (if k = py_id st then (if py_closedMaster ?st \<and> py_closedSlave ?st then None else Some ?st)
      else mget (pty_states m) k)" for k
    using Some p by (auto simp: pty_close_def Let_def pty_putState_def closeEnd_simps(1))
  have both: "py_closedMaster ?st \<and> py_closedSlave ?st \<longleftrightarrow> (\<forall>s. closedSide s ?st)"
    by (auto simp: closedSide_def split: pty_side.split)
  have old: "mget (pty_states m) j = Some y \<Longrightarrow> pty_ok y \<and> py_id y = j \<and> j < pty_nextId m \<and>
      \<not> (py_closedMaster y \<and> py_closedSlave y)" for j y
    using inv by (simp add: pty_inv_def)
  show ?thesis
  proof (rule pty_invI)
    show "pty_nextDescId ?m = 200000 + 2 * pty_nextId ?m" using pty_inv_ids [OF inv] by (simp add: m)
    show "mget (pty_descToPty ?m) d' = Some (k, s) \<longleftrightarrow>
        d' = descOf k s \<and> (\<exists>x. mget (pty_states ?m) k = Some x \<and> \<not> closedSide s x)" for d' k s
    proof -
      have new: "(\<exists>x. mget (pty_states ?m) k = Some x \<and> \<not> closedSide s x) \<longleftrightarrow> (if k = py_id st
          then s \<noteq> side \<and> \<not> closedSide s st else \<exists>x. mget (pty_states m) k = Some x \<and> \<not> closedSide s x)"
        unfolding m(4) both by (auto simp: c)
      have del: "mget (pty_descToPty ?m) d' = Some (k, s) \<longleftrightarrow> d' \<noteq> d \<and> mget (pty_descToPty m) d' = Some (k, s)"
        by (simp add: m(3))
      show ?thesis unfolding new del pty_inv_desc [OF inv] using f by auto
    qed
    show "\<forall>k x. mget (pty_states ?m) k = Some x \<longrightarrow>
        pty_ok x \<and> py_id x = k \<and> k < pty_nextId ?m \<and> \<not> (py_closedMaster x \<and> py_closedSlave x)"
    proof (intro allI impI)
      fix k x assume x: "mget (pty_states ?m) k = Some x"
      show "pty_ok x \<and> py_id x = k \<and> k < pty_nextId ?m \<and> \<not> (py_closedMaster x \<and> py_closedSlave x)"
        using x old [of k x] old [of "py_id st" st] f closeEnd_ok [of st hook side]
        unfolding m by (auto simp: closeEnd_simps(1) split: if_splits)
    qed
  qed
qed (simp add: pty_close_def inv)

lemma createPty_inv:
  assumes inv: "pty_inv m" shows "pty_inv (snd (snd (createPty (env, m))))"
proof -
  obtain st where m: "snd (snd (createPty (env, m))) = m\<lparr>pty_states := mput (pty_nextId m) st (pty_states m),
      pty_descToPty := mput (Suc (pty_nextDescId m)) (pty_nextId m, Slave)
        (mput (pty_nextDescId m) (pty_nextId m, Master) (pty_descToPty m)),
      pty_nextId := Suc (pty_nextId m), pty_nextDescId := Suc (Suc (pty_nextDescId m))\<rparr>"
    and st: "pty_ok st" "py_id st = pty_nextId m" "\<not> py_closedMaster st" "\<not> py_closedSlave st"
    by (simp add: createPty_def Let_def newDesc_def pty_ok_def stream_defs)
  have d: "pty_nextDescId m = descOf (pty_nextId m) Master" "Suc (pty_nextDescId m) = descOf (pty_nextId m) Slave"
    using inv by (simp_all add: pty_inv_def descOf_def)
  have fresh: "mget (pty_states m) (pty_nextId m) = None"
    using inv by (cases "mget (pty_states m) (pty_nextId m)") (auto simp: pty_inv_def)
  have old: "mget (pty_descToPty m) e = Some (k, s) \<longleftrightarrow>
      e = descOf k s \<and> (\<exists>x. mget (pty_states m) k = Some x \<and> \<not> closedSide s x)" for e k s
    using inv unfolding pty_inv_def by blast
  have op: "\<not> closedSide s st" for s using st by (cases s) (simp_all add: closedSide_def)
  have states: "mget (pty_states (snd (snd (createPty (env, m))))) k =
      (if k = pty_nextId m then Some st else mget (pty_states m) k)" for k
    by (simp add: m)
  show ?thesis
  proof (rule pty_invI)
    show "mget (pty_descToPty (snd (snd (createPty (env, m))))) e = Some (k, s) \<longleftrightarrow> e = descOf k s \<and>
        (\<exists>x. mget (pty_states (snd (snd (createPty (env, m))))) k = Some x \<and> \<not> closedSide s x)" for e k s
      unfolding states by (cases s; cases "k = pty_nextId m") (auto simp: m d(2) op old fresh, auto simp: d(1))
    show "\<forall>k x. mget (pty_states (snd (snd (createPty (env, m))))) k = Some x \<longrightarrow> pty_ok x \<and> py_id x = k \<and>
        k < pty_nextId (snd (snd (createPty (env, m)))) \<and> \<not> (py_closedMaster x \<and> py_closedSlave x)"
      unfolding states using inv st by (simp add: m pty_inv_def less_SucI)
  qed (use pty_inv_ids [OF inv] in \<open>simp add: m\<close>)
qed

lemma pty_update_inv:
  assumes "pty_inv m" "pty_update f d m = Inr m'"
    and "\<And>st. pty_ok (f st) = pty_ok st \<and> same_ends st (f st)"
  shows "pty_inv m'"
proof -
  obtain side st where st: "pty_find m d = Some (side, st)" "m' = pty_putState (f st) m"
    using assms(2) by (auto simp: pty_update_def split: option.splits)
  from pty_find_Some [OF assms(1) st(1)] assms(3) [of st] show ?thesis
    unfolding st(2) by (intro pty_put_inv [OF assms(1)]) auto
qed

subsection \<open>Runs\<close>

datatype pty_call =
    TyCreate
  | TyWrite nat bytes
  | TyRead nat nat
  | TyClose nat
  | TyDiscipline nat LineDisciplineConfig
  | TyForeground nat pid
  | TyLeader nat pid
  | TyTermios nat TermiosUpdate

definition keep_old :: "'a \<Rightarrow> 'a res \<Rightarrow> 'a" where
  "keep_old m r = (case r of Inl _ \<Rightarrow> m | Inr m' \<Rightarrow> m')"

fun pty_step :: "signal_hook \<Rightarrow> pty_call \<Rightarrow> desc_env \<times> PtyManager \<Rightarrow> desc_env \<times> PtyManager" where
  "pty_step hook TyCreate w = snd (createPty w)"
| "pty_step hook (TyWrite d data) (env, m) = (env, snd (pty_write hook d data m))"
| "pty_step hook (TyRead d n) (env, m) = (env, snd (pty_read d n m))"
| "pty_step hook (TyClose d) (env, m) = (env, pty_close hook d m)"
| "pty_step hook (TyDiscipline d c) (env, m) = (env, keep_old m (setDiscipline d c m))"
| "pty_step hook (TyForeground d p) (env, m) = (env, keep_old m (setForegroundPgid d p m))"
| "pty_step hook (TyLeader d p) (env, m) = (env, keep_old m (setSessionLeader d p m))"
| "pty_step hook (TyTermios d u) (env, m) = (env, keep_old m (setTermios d u m))"

lemma keep_old_inv: "pty_inv m \<Longrightarrow> (\<And>m'. r = Inr m' \<Longrightarrow> pty_inv m') \<Longrightarrow> pty_inv (keep_old m r)"
  by (simp add: keep_old_def split: sum.split)

lemma pty_step_inv: "pty_inv (snd w) \<Longrightarrow> pty_inv (snd (pty_step hook c w))"
proof (cases w; cases c)
  fix env m assume w: "w = (env, m)" and inv: "pty_inv (snd w)"
  then have i: "pty_inv m" by simp
  show "c = TyCreate \<Longrightarrow> ?thesis" using createPty_inv [OF i] by (simp add: w)
  show "c = TyWrite d data \<Longrightarrow> ?thesis" for d data by (simp add: w pty_write_inv [OF i])
  show "c = TyRead d n \<Longrightarrow> ?thesis" for d n by (simp add: w pty_read_inv [OF i])
  show "c = TyClose d \<Longrightarrow> ?thesis" for d by (simp add: w pty_close_inv [OF i])
  show "c = TyDiscipline d u \<Longrightarrow> ?thesis" for d u
    by (auto simp: w setDiscipline_def Let_def pty_frame intro!: keep_old_inv [OF i] elim!: pty_update_inv [OF i])
  show "c = TyForeground d p \<Longrightarrow> ?thesis" for d p
    by (auto simp: w setForegroundPgid_def pty_frame intro!: keep_old_inv [OF i] elim!: pty_update_inv [OF i])
  show "c = TyLeader d p \<Longrightarrow> ?thesis" for d p
    by (auto simp: w setSessionLeader_def pty_frame intro!: keep_old_inv [OF i] elim!: pty_update_inv [OF i])
  show "c = TyTermios d u \<Longrightarrow> ?thesis" for d u
    by (auto simp: w setTermios_def pty_frame intro!: keep_old_inv [OF i] elim!: pty_update_inv [OF i])
qed

interpretation pty_machine: invariant_component "pty_step hook" "\<lambda>_ _. True" "\<lambda>w. pty_inv (snd w)" for hook
  by unfold_locales (rule pty_step_inv)

lemma pty_inv_new: "pty_inv pty_new"
  by (simp add: pty_inv_def pty_new_def)

text \<open>
  C35. Both directions of every terminal are bounded FIFO byte streams, in every sequence of calls and
  whatever the signal hook answers: what was accepted is what was read followed by what is buffered,
  at most 65536 bytes; a read waits only while its buffer is empty and both ends are open; and a
  terminal's description is known exactly while that end is open.
\<close>

theorem pty_streams_fifo:
  assumes "mget (pty_states (snd (run_ops (pty_step hook) calls (env, pty_new)))) k = Some st"
  shows "inputAccepted (py_log st) = inputRead (py_log st) @ concat (py_input st) \<and>
    outputAccepted (py_log st) = outputRead (py_log st) @ concat (py_output st) \<and>
    length (concat (py_input st)) \<le> 65536 \<and> length (concat (py_output st)) \<le> 65536 \<and>
    (py_inputWaiters st \<noteq> [] \<longrightarrow> py_input st = [] \<and> \<not> py_closedMaster st \<and> \<not> py_closedSlave st) \<and>
    (py_outputWaiters st \<noteq> [] \<longrightarrow> py_output st = [] \<and> \<not> py_closedMaster st \<and> \<not> py_closedSlave st) \<and>
    (mget (pty_descToPty (snd (run_ops (pty_step hook) calls (env, pty_new)))) (descOf k side) = Some (k, side)
       \<longleftrightarrow> \<not> closedSide side st)"
proof -
  let ?m = "snd (run_ops (pty_step hook) calls (env, pty_new))"
  have inv: "pty_inv ?m"
    using pty_machine.run_inv [of "(env, pty_new)" hook calls] by (simp add: pty_inv_new)
  then have "mget (pty_descToPty ?m) (descOf k side) = Some (k, side) \<longleftrightarrow> \<not> closedSide side st"
    using assms unfolding pty_inv_def by (metis option.inject)
  with pty_inv_state [OF inv assms] show ?thesis by (simp add: pty_ok_def MAX_PTY_BUFFER_BYTES_def)
qed

theorem pty_streams_fifo_witness:
  "\<exists>st. mget (pty_states (snd (run_ops (pty_step None) [TyCreate, TyRead 200001 5, TyWrite 200000 [0x68, 0x0a]]
      (\<lparr>de_heap = (\<lambda>_. None), de_nextRef = 0, de_nextDescriptionId = 1\<rparr>, pty_new)))) 0 = Some st \<and>
    inputAccepted (py_log st) = [0x68, 0x0a] \<and> inputRead (py_log st) @ concat (py_input st) = [0x68, 0x0a]"
proof -
  let ?m = "snd (run_ops (pty_step None) [TyCreate, TyRead 200001 5, TyWrite 200000 [0x68, 0x0a]]
      (\<lparr>de_heap = (\<lambda>_. None), de_nextRef = 0, de_nextDescriptionId = 1\<rparr>, pty_new))"
  have "map_option (\<lambda>st. inputAccepted (py_log st)) (mget (pty_states ?m) 0) = Some [0x68, 0x0a]"
    by (simp add: createPty_def pty_new_def Let_def newDesc_def pty_read_def pty_find_def pty_putState_def
        pty_write_def processInput_def defaultTermios_def thenP_def inputByte_def signalForByte_def canonByte_def
        echoIf_def echoOutput_def deliverInput_def doP_def skipP_def stream_defs bufferBytes_def
        MAX_PTY_BUFFER_BYTES_def MAX_CANON_def)
  then obtain st where st: "mget (pty_states ?m) 0 = Some st" "inputAccepted (py_log st) = [0x68, 0x0a]" by auto
  with pty_streams_fifo [OF st(1)] show ?thesis by metis
qed

subsection \<open>Output processing is ONLCR\<close>

lemma loneLFs_zero: "loneLFs prev data = 0 \<Longrightarrow> addCRs prev data = data"
  by (induction prev data rule: loneLFs.induct) (auto split: if_splits)

lemma no_LF_loneLFs: "0x0a \<notin> set data \<Longrightarrow> loneLFs prev data = 0"
  by (induction prev data rule: loneLFs.induct) (auto simp: isLoneLF_def)

lemma loneLFs_addCRs: "loneLFs prev (addCRs prev data) = 0"
proof (induction prev data rule: addCRs.induct)
  case (2 prev b bs)
  then show ?case by (auto simp: isLoneLF_def)
qed simp

lemma length_addCRs: "length (addCRs prev data) = length data + loneLFs prev data"
  by (induction prev data rule: addCRs.induct) auto

lemma processOutput_eq: "tm_opost tm \<Longrightarrow> tm_onlcr tm \<Longrightarrow> processOutput tm data = addCRs None data"
  using loneLFs_zero no_LF_loneLFs by (auto simp: processOutput_def)

text \<open>
  C37. Output processing with its fast paths is the plain translation: with OPOST and ONLCR set, every
  write becomes the byte-by-byte translation of lone line feeds, has no lone line feed left, is exactly
  as long as the counting pass sized its buffer, and translating it again changes nothing.
\<close>

theorem processOutput_is_onlcr:
  assumes "tm_opost tm" "tm_onlcr tm"
  shows "processOutput tm data = addCRs None data \<and> loneLFs None (processOutput tm data) = 0 \<and>
    length (processOutput tm data) = length data + loneLFs None data \<and>
    processOutput tm (processOutput tm data) = processOutput tm data"
  using assms by (simp add: processOutput_eq loneLFs_addCRs length_addCRs loneLFs_zero)

theorem processOutput_is_onlcr_witness:
  "processOutput defaultTermios [0x0a, 0x0d, 0x0a, 0x61] = [0x0d, 0x0a, 0x0d, 0x0a, 0x61]"
  using processOutput_is_onlcr [of defaultTermios "[0x0a, 0x0d, 0x0a, 0x61]"]
  by (simp add: defaultTermios_def isLoneLF_def)

subsection \<open>Canonical editing\<close>

definition plain :: "byte \<Rightarrow> bool" where
  "plain b \<longleftrightarrow> b \<notin> {0x03, 0x04, 0x08, 0x0a, 0x0d, 0x1a, 0x1c, 0x7f}"

definition cooked :: "Termios \<Rightarrow> bool" where
  "cooked tm \<longleftrightarrow> tm_icanon tm \<and> \<not> tm_echo tm \<and> tm_cc tm = tm_cc defaultTermios"

lemma uint_byte_eqs:
  "uint (b :: byte) = 3 \<longleftrightarrow> b = 3" "uint b = 4 \<longleftrightarrow> b = 4" "uint b = 26 \<longleftrightarrow> b = 26"
  "uint b = 28 \<longleftrightarrow> b = 28" "uint b = 127 \<longleftrightarrow> b = 127"
  by (simp_all add: word_uint_eq_iff)

lemmas cooked_eval = inputByte_def canonByte_def signalForByte_def cooked_def defaultTermios_def
  uint_byte_eqs echoIf_def skipP_def Let_def

lemma inputByte_plain:
  "cooked (py_termios st) \<Longrightarrow> plain b \<Longrightarrow> length (py_line st) < MAX_CANON \<Longrightarrow>
   inputByte hook b st = (Inr (), st\<lparr>py_line := py_line st @ [b]\<rparr>)"
  by (simp add: cooked_eval plain_def)

lemma inputByte_erase:
  "cooked (py_termios st) \<Longrightarrow> b = 0x08 \<or> b = 0x7f \<Longrightarrow>
   inputByte hook b st = (Inr (), st\<lparr>py_line := butlast (py_line st)\<rparr>)"
proof (cases "py_line st = []")
  case True
  assume "cooked (py_termios st)" and b: "b = 0x08 \<or> b = 0x7f"
  then have "inputByte hook b st = (Inr (), st)" using True by (elim disjE) (simp_all add: cooked_eval)
  moreover have "st\<lparr>py_line := []\<rparr> = st" using True by (cases st) simp
  ultimately show ?thesis using True by simp
next
  case False
  assume "cooked (py_termios st)" and b: "b = 0x08 \<or> b = 0x7f"
  then show ?thesis using False by (elim disjE) (simp_all add: cooked_eval)
qed

lemma inputByte_newline:
  "cooked (py_termios st) \<Longrightarrow> py_inputWaiters st = [] \<Longrightarrow>
   bufferBytes (py_input st) + Suc (length (py_line st)) \<le> MAX_PTY_BUFFER_BYTES \<Longrightarrow>
   inputByte hook 0x0a st = (Inr (), st\<lparr>py_line := [], py_input := py_input st @ [py_line st @ [0x0a]],
     py_log := py_log st @ [InputAccepted (py_line st @ [0x0a])]\<rparr>)"
  by (auto simp: cooked_eval thenP_def deliverInput_def doP_def)

lemma inputLoop_append: "inputLoop hook (xs @ ys) st = thenP (inputLoop hook xs) (inputLoop hook ys) st"
  by (induction xs arbitrary: st) (auto simp: thenP_def skipP_def split: prod.split sum.split)

lemma inputLoop_plain:
  "cooked (py_termios st) \<Longrightarrow> list_all plain w \<Longrightarrow> length (py_line st) + length w \<le> MAX_CANON \<Longrightarrow>
   inputLoop hook w st = (Inr (), st\<lparr>py_line := py_line st @ w\<rparr>)"
  by (induction w arbitrary: st) (simp_all add: skipP_def thenP_def inputByte_plain)

lemma inputLoop_erase:
  "cooked (py_termios st) \<Longrightarrow> set es \<subseteq> {0x08, 0x7f} \<Longrightarrow>
   inputLoop hook es st = (Inr (), st\<lparr>py_line := take (length (py_line st) - length es) (py_line st)\<rparr>)"
proof (induction es arbitrary: st)
  case (Cons b es)
  then have "inputByte hook b st = (Inr (), st\<lparr>py_line := butlast (py_line st)\<rparr>)"
    by (intro inputByte_erase) auto
  moreover have "inputLoop hook es (st\<lparr>py_line := butlast (py_line st)\<rparr>) = (Inr (),
      st\<lparr>py_line := take (length (butlast (py_line st)) - length es) (butlast (py_line st))\<rparr>)"
    using Cons.IH [of "st\<lparr>py_line := butlast (py_line st)\<rparr>"] Cons.prems by simp
  moreover have "take (length (butlast (py_line st)) - length es) (butlast (py_line st)) =
      take (length (py_line st) - length (b # es)) (py_line st)"
    by (simp add: butlast_conv_take min_def)
  ultimately show ?case by (simp only: inputLoop.simps thenP_def prod.case sum.case)
qed (simp add: skipP_def)

text \<open>
  C36. Line editing in canonical mode: text of ordinary characters followed by any number of erase
  characters and a newline reaches the slave as one chunk that is the text without its last erased
  characters, followed by the newline; the edit line is empty again and nothing is echoed or signalled.
\<close>

theorem canonical_line_edit:
  assumes "cooked (py_termios st)" "py_line st = []" "py_inputWaiters st = []"
    and "list_all plain w" "length w \<le> MAX_CANON" "set es \<subseteq> {0x08, 0x7f}"
    and room: "bufferBytes (py_input st) + Suc (length w) \<le> MAX_PTY_BUFFER_BYTES"
  shows "processInput hook (w @ es @ [0x0a]) st = (Inr (length (w @ es @ [0x0a])),
    st\<lparr>py_input := py_input st @ [take (length w - length es) w @ [0x0a]],
      py_log := py_log st @ [InputAccepted (take (length w - length es) w @ [0x0a])]\<rparr>)"
proof -
  let ?l = "take (length w - length es) w"
  have w: "inputLoop hook w st = (Inr (), st\<lparr>py_line := w\<rparr>)"
    using inputLoop_plain [OF assms(1,4)] assms(2,5) by simp
  have es: "inputLoop hook es (st\<lparr>py_line := w\<rparr>) = (Inr (), st\<lparr>py_line := ?l\<rparr>)"
    using inputLoop_erase [of "st\<lparr>py_line := w\<rparr>" es hook] assms(1,6) by simp
  have "inputByte hook 0x0a (st\<lparr>py_line := ?l\<rparr>) = (Inr (), st\<lparr>py_line := [],
      py_input := py_input st @ [?l @ [0x0a]], py_log := py_log st @ [InputAccepted (?l @ [0x0a])]\<rparr>)"
    using inputByte_newline [of "st\<lparr>py_line := ?l\<rparr>" hook] assms(1,3) room by simp
  then have "inputLoop hook (w @ es @ [0x0a]) st = (Inr (), st\<lparr>py_line := [],
      py_input := py_input st @ [?l @ [0x0a]], py_log := py_log st @ [InputAccepted (?l @ [0x0a])]\<rparr>)"
    using w es by (simp add: inputLoop_append thenP_def skipP_def)
  moreover have "st\<lparr>py_line := []\<rparr> = st" using assms(2) by (cases st) simp
  ultimately show ?thesis using assms(1) by (simp add: processInput_def thenP_def cooked_def)
qed

theorem canonical_line_edit_witness:
  "\<exists>st. py_input (snd (processInput None [0x6c, 0x73, 0x78, 0x7f, 0x0a] st)) = [[0x6c, 0x73, 0x0a]]"
proof -
  obtain st :: PtyState where st: "py_termios st = defaultTermios\<lparr>tm_echo := False\<rparr>" "py_line st = []"
    "py_inputWaiters st = []" "py_input st = []"
    by (metis PtyState.select_convs(5,9,11,12))
  have "cooked (py_termios st)" by (simp add: st cooked_def defaultTermios_def)
  from canonical_line_edit [OF this st(2,3), of "[0x6c, 0x73, 0x78]" "[0x7f]" None] st(4)
  show ?thesis
    by (intro exI [of _ st]) (simp add: plain_def MAX_CANON_def MAX_PTY_BUFFER_BYTES_def bufferBytes_def)
qed

subsection \<open>Where the discipline departs from a terminal\<close>

text \<open>
  A newline that does not fit stays in the edit line: each refused write of a newline lengthens the line
  by one, beyond any bound, and the line delivered later carries all of them.
\<close>

lemma refused_newline_grows_line:
  assumes "cooked (py_termios st)" "py_inputWaiters st = []" "bufferBytes (py_input st) = MAX_PTY_BUFFER_BYTES"
  shows "processInput hook [0x0a] st = (Inl EAGAIN, st\<lparr>py_line := py_line st @ [0x0a]\<rparr>)"
  using assms by (simp add: processInput_def cooked_eval thenP_def deliverInput_def)

text \<open>An end-of-file mark that is not read before more input arrives disappears in the next read.\<close>

lemma eof_mark_swallowed:
  "0 < n \<Longrightarrow> drainBuffer (length line + n) [[], line] = (line, [])"
  by (simp add: drainBuffer_def)

end
