(* ===== verification/Memory_Metadata.thy ===== *)
theory Memory_Metadata
  imports Js_Path Kernel_Effect
begin

section \<open>The in-memory metadata store\<close>

text \<open>
  \<^verbatim>\<open>vfs/memory-metadata.ts\<close>: inodes, directory entries, symbolic link targets, the chunk map of every
  file and its version records, all in JavaScript maps; path resolution with the bound on symbolic
  links; versions. The data types are those of \<^verbatim>\<open>vfs/types.ts\<close>. Every method of the class is a
  function on the record \<open>MetaStore\<close>. A method is \<^verbatim>\<open>async\<close> but has no \<^verbatim>\<open>await\<close> in its body, so each is
  one step. The clock is the argument \<open>now\<close>. \<^verbatim>\<open>updateInode\<close> takes the partial record of
  \<^verbatim>\<open>Object.assign\<close> as the record update it performs. \<^verbatim>\<open>transaction\<close> calls its argument and needs no
  model of its own.
\<close>

subsection \<open>Data\<close>

datatype InodeType = IT_file | IT_directory | IT_symlink

datatype StorageMode = SM_inline | SM_chunked

record CreateInodeAttrs =
  ca_type :: InodeType
  ca_mode :: u32
  ca_uid :: int
  ca_gid :: int
  ca_symlinkTarget :: "string option"

record InodeMeta =
  im_ino :: nat
  im_type :: InodeType
  im_mode :: u32
  im_uid :: int
  im_gid :: int
  im_size :: nat
  im_nlink :: int
  im_atimeMs :: int
  im_mtimeMs :: int
  im_ctimeMs :: int
  im_birthtimeMs :: int
  im_storageMode :: StorageMode
  im_inlineContent :: "bytes option"

record DentryEntry =
  de_childIno :: nat
  de_type :: InodeType

record DentryInfo =
  di_name :: string
  di_ino :: nat
  di_type :: InodeType

record VersionRecord =
  vr_version :: nat
  vr_size :: nat
  vr_createdAt :: int
  vr_storageMode :: StorageMode
  vr_inlineContent :: "bytes option"
  vr_chunkMap :: "(nat \<times> string) list"

record VersionMeta =
  vm_version :: nat
  vm_size :: nat
  vm_createdAt :: int
  vm_storageMode :: StorageMode
  vm_inlineContent :: "bytes option"

record MetaStore =
  ms_nextIno :: nat
  ms_inodes :: "(nat, InodeMeta) jsmap"
  ms_dentries :: "(nat, (string, DentryEntry) jsmap) jsmap"
  ms_symlinkTargets :: "(nat, string) jsmap"
  ms_chunks :: "(nat, (nat, string) jsmap) jsmap"
  ms_versioningEnabled :: bool
  ms_versions :: "(nat, VersionRecord list) jsmap"

definition SYMLOOP_MAX :: nat where "SYMLOOP_MAX = 40"
definition S_IFREG :: u32 where "S_IFREG = 0x8000"
definition S_IFDIR :: u32 where "S_IFDIR = 0x4000"
definition S_IFLNK :: u32 where "S_IFLNK = 0xA000"

definition ms_new :: "int \<Rightarrow> bool \<Rightarrow> MetaStore" where
  "ms_new now versioning =
     \<lparr>ms_nextIno = 2,
      ms_inodes = [(1, \<lparr>im_ino = 1, im_type = IT_directory, im_mode = S_IFDIR OR 0x1ED, im_uid = 0,
        im_gid = 0, im_size = 0, im_nlink = 2, im_atimeMs = now, im_mtimeMs = now, im_ctimeMs = now,
        im_birthtimeMs = now, im_storageMode = SM_inline, im_inlineContent = None\<rparr>)],
      ms_dentries = [(1, [])], ms_symlinkTargets = [], ms_chunks = [],
      ms_versioningEnabled = versioning, ms_versions = []\<rparr>"

subsection \<open>Inode lifecycle\<close>

definition createInode :: "int \<Rightarrow> CreateInodeAttrs \<Rightarrow> MetaStore \<Rightarrow> nat \<times> MetaStore" where
  "createInode now attrs ms =
     (let ino = ms_nextIno ms;
          mode = (case ca_type attrs of
                    IT_file \<Rightarrow> ca_mode attrs OR S_IFREG
                  | IT_directory \<Rightarrow> ca_mode attrs OR S_IFDIR
                  | IT_symlink \<Rightarrow> ca_mode attrs OR S_IFLNK);
          meta = \<lparr>im_ino = ino, im_type = ca_type attrs, im_mode = mode, im_uid = ca_uid attrs,
            im_gid = ca_gid attrs, im_size = 0, im_nlink = 0, im_atimeMs = now, im_mtimeMs = now,
            im_ctimeMs = now, im_birthtimeMs = now, im_storageMode = SM_inline,
            im_inlineContent = None\<rparr>;
          ms1 = ms\<lparr>ms_nextIno := Suc ino, ms_inodes := mput ino meta (ms_inodes ms)\<rparr>;
          ms2 = (if ca_type attrs = IT_directory
                 then ms1\<lparr>ms_dentries := mput ino [] (ms_dentries ms1)\<rparr> else ms1);
          ms3 = (case ca_symlinkTarget attrs of
                   Some t \<Rightarrow> if ca_type attrs = IT_symlink
                     then ms2\<lparr>ms_symlinkTargets := mput ino t (ms_symlinkTargets ms2)\<rparr> else ms2
                 | None \<Rightarrow> ms2)
      in (ino, ms3))"

definition getInode :: "nat \<Rightarrow> MetaStore \<Rightarrow> InodeMeta option" where
  "getInode ino ms = mget (ms_inodes ms) ino"

definition updateInode :: "nat \<Rightarrow> (InodeMeta \<Rightarrow> InodeMeta) \<Rightarrow> MetaStore \<Rightarrow> MetaStore" where
  "updateInode ino updates ms =
     (case mget (ms_inodes ms) ino of
        None \<Rightarrow> ms
      | Some meta \<Rightarrow> ms\<lparr>ms_inodes := mput ino (updates meta) (ms_inodes ms)\<rparr>)"

definition deleteInode :: "nat \<Rightarrow> MetaStore \<Rightarrow> MetaStore" where
  "deleteInode ino ms =
     ms\<lparr>ms_inodes := mdel ino (ms_inodes ms), ms_dentries := mdel ino (ms_dentries ms),
        ms_symlinkTargets := mdel ino (ms_symlinkTargets ms), ms_chunks := mdel ino (ms_chunks ms)\<rparr>"

subsection \<open>Directory entries\<close>

definition lookup :: "nat \<Rightarrow> string \<Rightarrow> MetaStore \<Rightarrow> nat option" where
  "lookup parentIno name ms =
     (case mget (ms_dentries ms) parentIno of
        None \<Rightarrow> None
      | Some dir \<Rightarrow> (case mget dir name of None \<Rightarrow> None | Some entry \<Rightarrow> Some (de_childIno entry)))"

definition createDentry ::
  "nat \<Rightarrow> string \<Rightarrow> nat \<Rightarrow> InodeType \<Rightarrow> MetaStore \<Rightarrow> (exn + unit) \<times> MetaStore" where
  "createDentry parentIno name childIno type ms =
     (let (dir, ms1) =
        (case mget (ms_dentries ms) parentIno of
           None \<Rightarrow> ([], ms\<lparr>ms_dentries := mput parentIno [] (ms_dentries ms)\<rparr>)
         | Some dir \<Rightarrow> (dir, ms))
      in if mhas dir name then (Inl (KErr EEXIST), ms1)
         else (Inr (), ms1\<lparr>ms_dentries :=
           mput parentIno (mput name \<lparr>de_childIno = childIno, de_type = type\<rparr> dir) (ms_dentries ms1)\<rparr>))"

definition removeDentry :: "nat \<Rightarrow> string \<Rightarrow> MetaStore \<Rightarrow> MetaStore" where
  "removeDentry parentIno name ms =
     (case mget (ms_dentries ms) parentIno of
        None \<Rightarrow> ms
      | Some dir \<Rightarrow> ms\<lparr>ms_dentries := mput parentIno (mdel name dir) (ms_dentries ms)\<rparr>)"

definition listDir :: "nat \<Rightarrow> MetaStore \<Rightarrow> DentryInfo list" where
  "listDir parentIno ms =
     (case mget (ms_dentries ms) parentIno of
        None \<Rightarrow> []
      | Some dir \<Rightarrow> map (\<lambda>(name, entry).
          \<lparr>di_name = name, di_ino = de_childIno entry, di_type = de_type entry\<rparr>) dir)"

definition listDirWithStats :: "nat \<Rightarrow> MetaStore \<Rightarrow> (DentryInfo \<times> InodeMeta) list" where
  "listDirWithStats parentIno ms =
     (case mget (ms_dentries ms) parentIno of
        None \<Rightarrow> []
      | Some dir \<Rightarrow> List.map_filter (\<lambda>(name, entry).
          case mget (ms_inodes ms) (de_childIno entry) of
            None \<Rightarrow> None
          | Some meta \<Rightarrow>
              Some (\<lparr>di_name = name, di_ino = de_childIno entry, di_type = de_type entry\<rparr>, meta)) dir)"

definition renameDentry :: "nat \<Rightarrow> string \<Rightarrow> nat \<Rightarrow> string \<Rightarrow> MetaStore \<Rightarrow> MetaStore" where
  "renameDentry srcParentIno srcName dstParentIno dstName ms =
     (case mget (ms_dentries ms) srcParentIno of
        None \<Rightarrow> ms
      | Some srcDir \<Rightarrow>
          (case mget srcDir srcName of
             None \<Rightarrow> ms
           | Some entry \<Rightarrow>
               (let d1 = mput srcParentIno (mdel srcName srcDir) (ms_dentries ms);
                    dstDir = (case mget d1 dstParentIno of None \<Rightarrow> [] | Some d \<Rightarrow> d)
                in ms\<lparr>ms_dentries := mput dstParentIno (mput dstName entry dstDir) d1\<rparr>)))"

subsection \<open>Path resolution\<close>

definition splitPathComponents :: "path \<Rightarrow> string list" where
  "splitPathComponents p =
     (if p = '''' \<or> p = ''/'' then []
      else filter (\<lambda>c. 0 < length c)
             (splitOn (CHR ''/'') (if startsWith p ''/'' then drop 1 p else p)))"

text \<open>
  \<open>resolveComponentsCore\<close> restarts from the root at every symbolic link; \<open>resolve_loop\<close> is its loop,
  with the components before and after the index. A link increases the depth and every other round
  consumes a component, so the recursion ends.
\<close>

function resolve_loop :: "MetaStore \<Rightarrow> nat \<Rightarrow> nat \<Rightarrow> string list \<Rightarrow> string list \<Rightarrow> nat res" where
  "resolve_loop ms symlinkDepth currentIno prior [] = Inr currentIno"
| "resolve_loop ms symlinkDepth currentIno prior (name # remaining) =
     (case mget (ms_inodes ms) currentIno of
        None \<Rightarrow> Inl ENOENT
      | Some meta \<Rightarrow>
          if im_type meta \<noteq> IT_directory then Inl ENOENT
          else (case mget (ms_dentries ms) currentIno of
             None \<Rightarrow> Inl ENOENT
           | Some dir \<Rightarrow> (case mget dir name of
               None \<Rightarrow> Inl ENOENT
             | Some entry \<Rightarrow>
                 (case mget (ms_inodes ms) (de_childIno entry) of
                    Some childMeta \<Rightarrow>
                      if im_type childMeta = IT_symlink then
                        if SYMLOOP_MAX \<le> symlinkDepth then Inl ELOOP
                        else (case mget (ms_symlinkTargets ms) (de_childIno entry) of
                           None \<Rightarrow> Inl ENOENT
                         | Some target \<Rightarrow>
                             if target = '''' then Inl ENOENT
                             else resolve_loop ms (Suc symlinkDepth) 1 []
                               (if startsWith target ''/''
                                then splitPathComponents target @ remaining
                                else prior @ splitPathComponents target @ remaining))
                      else resolve_loop ms symlinkDepth (de_childIno entry) (prior @ [name]) remaining
                  | None \<Rightarrow>
                      resolve_loop ms symlinkDepth (de_childIno entry) (prior @ [name]) remaining))))"
  by pat_completeness auto
termination
  by (relation "measures [\<lambda>(ms, d, cur, bef, cs). SYMLOOP_MAX - d, \<lambda>(ms, d, cur, bef, cs). length cs]") auto

declare resolve_loop.simps [simp del]

definition resolveComponentsCore :: "MetaStore \<Rightarrow> string list \<Rightarrow> nat \<Rightarrow> nat res" where
  "resolveComponentsCore ms components symlinkDepth = resolve_loop ms symlinkDepth 1 [] components"

definition resolvePath :: "path \<Rightarrow> MetaStore \<Rightarrow> nat res" where
  "resolvePath p ms = resolveComponentsCore ms (splitPathComponents p) 0"

definition resolveParentPath :: "path \<Rightarrow> MetaStore \<Rightarrow> (nat \<times> string) res" where
  "resolveParentPath p ms =
     (let components = splitPathComponents p
      in if components = [] then Inl ENOENT
         else (case resolveComponentsCore ms (butlast components) 0 of
             Inl e \<Rightarrow> Inl e
           | Inr parentIno \<Rightarrow> Inr (parentIno, last components)))"

definition readSymlink :: "nat \<Rightarrow> MetaStore \<Rightarrow> string res" where
  "readSymlink ino ms =
     (case mget (ms_symlinkTargets ms) ino of None \<Rightarrow> Inl EINVAL | Some target \<Rightarrow> Inr target)"

subsection \<open>Chunk mapping\<close>

definition getChunkKey :: "nat \<Rightarrow> nat \<Rightarrow> MetaStore \<Rightarrow> string option" where
  "getChunkKey ino chunkIndex ms =
     (case mget (ms_chunks ms) ino of None \<Rightarrow> None | Some m \<Rightarrow> mget m chunkIndex)"

definition setChunkKey :: "nat \<Rightarrow> nat \<Rightarrow> string \<Rightarrow> MetaStore \<Rightarrow> MetaStore" where
  "setChunkKey ino chunkIndex key ms =
     (let m = (case mget (ms_chunks ms) ino of None \<Rightarrow> [] | Some m \<Rightarrow> m)
      in ms\<lparr>ms_chunks := mput ino (mput chunkIndex key m) (ms_chunks ms)\<rparr>)"

definition getAllChunkKeys :: "nat \<Rightarrow> MetaStore \<Rightarrow> (nat \<times> string) list" where
  "getAllChunkKeys ino ms =
     (case mget (ms_chunks ms) ino of None \<Rightarrow> [] | Some m \<Rightarrow> sort_key fst m)"

definition deleteAllChunks :: "nat \<Rightarrow> MetaStore \<Rightarrow> string list \<times> MetaStore" where
  "deleteAllChunks ino ms =
     (case mget (ms_chunks ms) ino of
        None \<Rightarrow> ([], ms)
      | Some m \<Rightarrow> (map snd m, ms\<lparr>ms_chunks := mdel ino (ms_chunks ms)\<rparr>))"

definition deleteChunksFrom :: "nat \<Rightarrow> nat \<Rightarrow> MetaStore \<Rightarrow> string list \<times> MetaStore" where
  "deleteChunksFrom ino startIndex ms =
     (case mget (ms_chunks ms) ino of
        None \<Rightarrow> ([], ms)
      | Some m \<Rightarrow>
          (map snd (filter (\<lambda>(idx, key). startIndex \<le> idx) m),
           ms\<lparr>ms_chunks := mput ino (filter (\<lambda>(idx, key). \<not> startIndex \<le> idx) m) (ms_chunks ms)\<rparr>))"

subsection \<open>Synchronous accessors\<close>

text \<open>The class repeats these bodies without \<^verbatim>\<open>async\<close> for the kernel's synchronous open.\<close>

definition resolvePathSync :: "path \<Rightarrow> MetaStore \<Rightarrow> nat res" where
  "resolvePathSync p ms = (let components = splitPathComponents p in resolveComponentsCore ms components 0)"

definition lookupSync :: "nat \<Rightarrow> string \<Rightarrow> MetaStore \<Rightarrow> nat option" where
  "lookupSync parentIno name ms =
     Option.bind (mget (ms_dentries ms) parentIno) (\<lambda>dir. map_option de_childIno (mget dir name))"

definition getInodeSync :: "nat \<Rightarrow> MetaStore \<Rightarrow> InodeMeta option" where
  "getInodeSync ino ms = (case mget (ms_inodes ms) ino of None \<Rightarrow> None | Some meta \<Rightarrow> Some meta)"

definition createInodeSync :: "int \<Rightarrow> CreateInodeAttrs \<Rightarrow> MetaStore \<Rightarrow> nat \<times> MetaStore" where
  "createInodeSync now attrs ms =
     (let ino = ms_nextIno ms;
          typeBits = (case ca_type attrs of
                    IT_file \<Rightarrow> S_IFREG | IT_directory \<Rightarrow> S_IFDIR | IT_symlink \<Rightarrow> S_IFLNK);
          meta = \<lparr>im_ino = ino, im_type = ca_type attrs, im_mode = ca_mode attrs OR typeBits,
            im_uid = ca_uid attrs, im_gid = ca_gid attrs, im_size = 0, im_nlink = 0,
            im_atimeMs = now, im_mtimeMs = now, im_ctimeMs = now, im_birthtimeMs = now,
            im_storageMode = SM_inline, im_inlineContent = None\<rparr>
      in (ino, ms\<lparr>ms_nextIno := Suc ino,
        ms_inodes := mput ino meta (ms_inodes ms),
        ms_dentries := (if ca_type attrs = IT_directory then mput ino [] (ms_dentries ms)
                        else ms_dentries ms),
        ms_symlinkTargets := (if ca_type attrs = IT_symlink \<and> ca_symlinkTarget attrs \<noteq> None
          then mput ino (the (ca_symlinkTarget attrs)) (ms_symlinkTargets ms)
          else ms_symlinkTargets ms)\<rparr>))"

definition updateInodeSync :: "nat \<Rightarrow> (InodeMeta \<Rightarrow> InodeMeta) \<Rightarrow> MetaStore \<Rightarrow> MetaStore" where
  "updateInodeSync ino updates ms =
     (case mget (ms_inodes ms) ino of
        None \<Rightarrow> ms
      | Some meta \<Rightarrow> ms\<lparr>ms_inodes := mput ino (updates meta) (ms_inodes ms)\<rparr>)"

definition createDentrySync ::
  "nat \<Rightarrow> string \<Rightarrow> nat \<Rightarrow> InodeType \<Rightarrow> MetaStore \<Rightarrow> (exn + unit) \<times> MetaStore" where
  "createDentrySync parentIno name childIno type ms =
     (case mget (ms_dentries ms) parentIno of
        None \<Rightarrow> (Inr (), ms\<lparr>ms_dentries :=
          mput parentIno [(name, \<lparr>de_childIno = childIno, de_type = type\<rparr>)] (ms_dentries ms)\<rparr>)
      | Some dir \<Rightarrow>
          if mhas dir name then (Inl (KErr EEXIST), ms)
          else (Inr (), ms\<lparr>ms_dentries :=
            mput parentIno (mput name \<lparr>de_childIno = childIno, de_type = type\<rparr> dir) (ms_dentries ms)\<rparr>))"

definition deleteAllChunksSync :: "nat \<Rightarrow> MetaStore \<Rightarrow> string list \<times> MetaStore" where
  "deleteAllChunksSync ino ms =
     (case mget (ms_chunks ms) ino of
        None \<Rightarrow> ([], ms)
      | Some m \<Rightarrow> (map snd m, ms\<lparr>ms_chunks := mdel ino (ms_chunks ms)\<rparr>))"

subsection \<open>Versions\<close>

text \<open>A JavaScript \<^verbatim>\<open>Set\<close> of strings, in insertion order.\<close>

definition jsset_add :: "'a \<Rightarrow> 'a list \<Rightarrow> 'a list" where
  "jsset_add x s = (if x \<in> set s then s else s @ [x])"

abbreviation not_enabled :: exn where
  "not_enabled \<equiv> JsErr ''versioning is not enabled''"

definition version_meta :: "VersionRecord \<Rightarrow> VersionMeta" where
  "version_meta r = \<lparr>vm_version = vr_version r, vm_size = vr_size r, vm_createdAt = vr_createdAt r,
     vm_storageMode = vr_storageMode r, vm_inlineContent = vr_inlineContent r\<rparr>"

definition createVersion :: "int \<Rightarrow> nat \<Rightarrow> MetaStore \<Rightarrow> (exn + nat) \<times> MetaStore" where
  "createVersion now ino ms =
     (if \<not> ms_versioningEnabled ms then (Inl not_enabled, ms)
      else (case mget (ms_inodes ms) ino of
          None \<Rightarrow> (Inl (KErr ENOENT), ms)
        | Some meta \<Rightarrow>
            (let records = (case mget (ms_versions ms) ino of None \<Rightarrow> [] | Some rs \<Rightarrow> rs);
                 version = (if records \<noteq> [] then vr_version (last records) + 1 else 1);
                 chunkMap = (case mget (ms_chunks ms) ino of None \<Rightarrow> [] | Some m \<Rightarrow> sort_key fst m);
                 record1 = \<lparr>vr_version = version, vr_size = im_size meta, vr_createdAt = now,
                   vr_storageMode = im_storageMode meta, vr_inlineContent = im_inlineContent meta,
                   vr_chunkMap = chunkMap\<rparr>
             in (Inr version, ms\<lparr>ms_versions := mput ino (records @ [record1]) (ms_versions ms)\<rparr>))))"

definition getVersion :: "nat \<Rightarrow> nat \<Rightarrow> MetaStore \<Rightarrow> exn + VersionMeta option" where
  "getVersion ino version ms =
     (if \<not> ms_versioningEnabled ms then Inl not_enabled
      else (case mget (ms_versions ms) ino of
          None \<Rightarrow> Inr None
        | Some records \<Rightarrow>
            (case List.find (\<lambda>r. vr_version r = version) records of
               None \<Rightarrow> Inr None
             | Some r \<Rightarrow> Inr (Some (version_meta r)))))"

definition ms_listVersions :: "nat \<Rightarrow> MetaStore \<Rightarrow> exn + VersionMeta list" where
  "ms_listVersions ino ms =
     (if \<not> ms_versioningEnabled ms then Inl not_enabled
      else Inr (rev (map version_meta
             (case mget (ms_versions ms) ino of None \<Rightarrow> [] | Some rs \<Rightarrow> rs))))"

definition getVersionChunkMap :: "nat \<Rightarrow> nat \<Rightarrow> MetaStore \<Rightarrow> exn + (nat \<times> string) list" where
  "getVersionChunkMap ino version ms =
     (if \<not> ms_versioningEnabled ms then Inl not_enabled
      else (case mget (ms_versions ms) ino of
          None \<Rightarrow> Inr []
        | Some records \<Rightarrow>
            (case List.find (\<lambda>r. vr_version r = version) records of
               None \<Rightarrow> Inr []
             | Some r \<Rightarrow> Inr (vr_chunkMap r))))"

definition deleteVersions :: "nat \<Rightarrow> nat list \<Rightarrow> MetaStore \<Rightarrow> (exn + string list) \<times> MetaStore" where
  "deleteVersions ino versions ms =
     (if \<not> ms_versioningEnabled ms then (Inl not_enabled, ms)
      else if versions = [] then (Inr [], ms)
      else (case mget (ms_versions ms) ino of
          None \<Rightarrow> (Inr [], ms)
        | Some records \<Rightarrow>
            (let deletedBlockKeys =
                   fold jsset_add (map snd (concat (map vr_chunkMap
                     (filter (\<lambda>r. vr_version r \<in> set versions) records)))) [];
                 remaining = filter (\<lambda>r. vr_version r \<notin> set versions) records;
                 ms1 = ms\<lparr>ms_versions := mput ino remaining (ms_versions ms)\<rparr>
             in if deletedBlockKeys = [] then (Inr [], ms1)
                else (let referenced0 =
                            fold jsset_add (map snd (concat (map vr_chunkMap remaining))) [];
                          referencedKeys =
                            (case mget (ms_chunks ms1) ino of
                               None \<Rightarrow> referenced0
                             | Some m \<Rightarrow> fold jsset_add (map snd m) referenced0)
                      in (Inr (filter (\<lambda>key. key \<notin> set referencedKeys) deletedBlockKeys), ms1)))))"

definition ms_restoreVersion :: "int \<Rightarrow> nat \<Rightarrow> nat \<Rightarrow> MetaStore \<Rightarrow> (exn + unit) \<times> MetaStore" where
  "ms_restoreVersion now ino version ms =
     (if \<not> ms_versioningEnabled ms then (Inl not_enabled, ms)
      else (case Option.bind (mget (ms_versions ms) ino) (List.find (\<lambda>r. vr_version r = version)) of
          None \<Rightarrow> (Inl (KErr ENOENT), ms)
        | Some r \<Rightarrow>
            (let c1 = mdel ino (ms_chunks ms);
                 c2 = (if vr_chunkMap r \<noteq> []
                       then mput ino (fold (\<lambda>(i, key) m. mput i key m) (vr_chunkMap r) []) c1 else c1);
                 ms1 = ms\<lparr>ms_chunks := c2\<rparr>
             in (Inr (), updateInode ino (\<lambda>meta. meta\<lparr>im_size := vr_size r,
                   im_storageMode := vr_storageMode r, im_inlineContent := vr_inlineContent r,
                   im_mtimeMs := now, im_ctimeMs := now\<rparr>) ms1))))"

subsection \<open>The synchronous accessors agree with the asynchronous methods\<close>

lemma createInodeSync_eq: "createInodeSync now attrs ms = createInode now attrs ms"
  by (cases "ca_type attrs"; cases "ca_symlinkTarget attrs")
    (simp_all add: createInodeSync_def createInode_def Let_def)

lemma createDentrySync_snd_fst:
  "createDentrySync p n c t ms = createDentry p n c t ms"
  by (cases "mget (ms_dentries ms) p")
    (simp_all add: createDentrySync_def createDentry_def mhas_def update_triv Let_def)

lemma lookupSync_eq: "lookupSync p n ms = lookup p n ms"
  by (cases "mget (ms_dentries ms) p")
    (auto simp: lookupSync_def lookup_def map_option_case split: option.splits)

lemma getInodeSync_eq: "getInodeSync ino ms = getInode ino ms"
  by (simp add: getInodeSync_def getInode_def split: option.splits)

subsection \<open>Resolution: the walk it computes\<close>

text \<open>
  The reference semantics of a path walk, with the number of symbolic links it follows and no bound
  on it: an entry of the current directory is entered, or, when it is a symbolic link, the walk starts
  again at the root with the target spliced in.
\<close>

definition dir_entry :: "MetaStore \<Rightarrow> nat \<Rightarrow> string \<Rightarrow> nat option" where
  "dir_entry ms cur name =
     (if map_option im_type (mget (ms_inodes ms) cur) = Some IT_directory then lookup cur name ms else None)"

definition is_link :: "MetaStore \<Rightarrow> nat \<Rightarrow> bool" where
  "is_link ms c \<longleftrightarrow> map_option im_type (mget (ms_inodes ms) c) = Some IT_symlink"

definition link_target :: "MetaStore \<Rightarrow> nat \<Rightarrow> string option" where
  "link_target ms c =
     (case mget (ms_symlinkTargets ms) c of None \<Rightarrow> None | Some t \<Rightarrow> if t = '''' then None else Some t)"

definition spliced :: "string \<Rightarrow> string list \<Rightarrow> string list \<Rightarrow> string list" where
  "spliced target prior remaining =
     (if startsWith target ''/'' then splitPathComponents target @ remaining
      else prior @ splitPathComponents target @ remaining)"

inductive walk :: "MetaStore \<Rightarrow> nat \<Rightarrow> string list \<Rightarrow> string list \<Rightarrow> nat \<Rightarrow> nat \<Rightarrow> bool" for ms where
  walk_done: "walk ms cur bef [] 0 cur"
| walk_enter: "dir_entry ms cur name = Some c \<Longrightarrow> \<not> is_link ms c \<Longrightarrow>
    walk ms c (bef @ [name]) rest n r \<Longrightarrow> walk ms cur bef (name # rest) n r"
| walk_follow: "dir_entry ms cur name = Some c \<Longrightarrow> is_link ms c \<Longrightarrow> link_target ms c = Some t \<Longrightarrow>
    walk ms 1 [] (spliced t bef rest) n r \<Longrightarrow> walk ms cur bef (name # rest) (Suc n) r"

inductive_cases walk_NilE: "walk ms cur bef [] n r"
inductive_cases walk_ConsE: "walk ms cur bef (name # rest) n r"

lemma resolve_loop_Cons:
  "resolve_loop ms d cur bef (name # rest) =
     (case dir_entry ms cur name of
        None \<Rightarrow> Inl ENOENT
      | Some c \<Rightarrow>
          if is_link ms c then
            if SYMLOOP_MAX \<le> d then Inl ELOOP
            else (case link_target ms c of
                None \<Rightarrow> Inl ENOENT
              | Some t \<Rightarrow> resolve_loop ms (Suc d) 1 [] (spliced t bef rest))
          else resolve_loop ms d c (bef @ [name]) rest)"
  by (subst resolve_loop.simps)
    (auto simp: dir_entry_def is_link_def link_target_def spliced_def lookup_def split: option.splits)

lemma resolve_loop_Nil [simp]: "resolve_loop ms d cur bef [] = Inr cur"
  by (simp add: resolve_loop.simps)

lemma resolve_loop_induct [case_names Nil Cons]:
  assumes "\<And>d cur bef. P d cur bef []"
    and "\<And>d cur bef name rest.
      (\<And>c t. dir_entry ms cur name = Some c \<Longrightarrow> is_link ms c \<Longrightarrow> d < SYMLOOP_MAX \<Longrightarrow>
         link_target ms c = Some t \<Longrightarrow> P (Suc d) 1 [] (spliced t bef rest)) \<Longrightarrow>
      (\<And>c. dir_entry ms cur name = Some c \<Longrightarrow> \<not> is_link ms c \<Longrightarrow> P d c (bef @ [name]) rest) \<Longrightarrow>
      P d cur bef (name # rest)"
  shows "P d cur bef cs"
proof (induction "(SYMLOOP_MAX - d, length cs)" arbitrary: d cur bef cs
    rule: wf_induct_rule [OF wf_lex_prod [OF wf_less wf_less]])
  case 1
  show ?case
  proof (cases cs)
    case (Cons name rest)
    show ?thesis unfolding Cons by (rule assms(2); rule 1) (simp_all add: Cons diff_less_mono2)
  qed (simp add: assms(1))
qed

lemma bounded_Suc_ex:
  "(\<exists>n \<le> m - (d::nat). \<exists>k. n = Suc k \<and> P k) \<longleftrightarrow> d < m \<and> (\<exists>k \<le> m - Suc d. P k)"
proof
  assume "d < m \<and> (\<exists>k \<le> m - Suc d. P k)"
  then obtain k where "d < m" "k \<le> m - Suc d" "P k" by blast
  then have "Suc k \<le> m - d" by simp
  with \<open>P k\<close> show "\<exists>n \<le> m - d. \<exists>k. n = Suc k \<and> P k" by blast
next
  assume "\<exists>n \<le> m - d. \<exists>k. n = Suc k \<and> P k"
  then obtain k where "Suc k \<le> m - d" "P k" by blast
  then have "d < m" "k \<le> m - Suc d" by simp_all
  with \<open>P k\<close> show "d < m \<and> (\<exists>k \<le> m - Suc d. P k)" by blast
qed

lemma resolve_loop_walk:
  "resolve_loop ms d cur bef cs = Inr r \<longleftrightarrow> (\<exists>n \<le> SYMLOOP_MAX - d. walk ms cur bef cs n r)"
proof (induction d cur bef cs rule: resolve_loop_induct [where ms = ms])
  case (Nil d cur bef)
  then show ?case by (auto intro: walk_done elim: walk_NilE)
next
  case (Cons d cur bef name rest)
  show ?case
  proof (cases "dir_entry ms cur name")
    case None
    then show ?thesis by (auto simp: resolve_loop_Cons elim: walk_ConsE)
  next
    case (Some c)
    show ?thesis
    proof (cases "is_link ms c")
      case False
      with Some have "(\<exists>n \<le> k. walk ms cur bef (name # rest) n r) \<longleftrightarrow>
          (\<exists>n \<le> k. walk ms c (bef @ [name]) rest n r)" for k
        by (auto intro: walk_enter elim!: walk_ConsE)
      with Some False Cons.IH(2) show ?thesis by (simp add: resolve_loop_Cons)
    next
      case link: True
      show ?thesis
      proof (cases "link_target ms c")
        case None
        with Some link show ?thesis by (auto simp: resolve_loop_Cons elim: walk_ConsE)
      next
        case (Some t)
        have "walk ms cur bef (name # rest) n r \<longleftrightarrow>
            (\<exists>k. n = Suc k \<and> walk ms 1 [] (spliced t bef rest) k r)" for n
          using Some link \<open>dir_entry ms cur name = Some c\<close> by (auto intro: walk_follow elim!: walk_ConsE)
        then have "(\<exists>n \<le> SYMLOOP_MAX - d. walk ms cur bef (name # rest) n r) \<longleftrightarrow>
            d < SYMLOOP_MAX \<and> (\<exists>k \<le> SYMLOOP_MAX - Suc d. walk ms 1 [] (spliced t bef rest) k r)"
          by (simp only: bounded_Suc_ex)
        with Some link \<open>dir_entry ms cur name = Some c\<close> Cons.IH(1) show ?thesis
          by (simp add: resolve_loop_Cons)
      qed
    qed
  qed
qed

lemma resolve_loop_errors:
  "resolve_loop ms d cur bef cs = Inl e \<Longrightarrow> e = ENOENT \<or> e = ELOOP"
proof (induction d cur bef cs rule: resolve_loop_induct [where ms = ms])
  case (Cons d cur bef name rest)
  then show ?case by (auto simp: resolve_loop_Cons split: option.splits if_splits)
qed simp

text \<open>Resolution reads nothing but the tree: entry types, directory entries and link targets.\<close>

definition same_tree :: "MetaStore \<Rightarrow> MetaStore \<Rightarrow> bool" where
  "same_tree ms ms' \<longleftrightarrow>
     (\<forall>i. map_option im_type (mget (ms_inodes ms') i) = map_option im_type (mget (ms_inodes ms) i)) \<and>
     ms_dentries ms' = ms_dentries ms \<and> ms_symlinkTargets ms' = ms_symlinkTargets ms"

lemma same_tree_refl [simp]: "same_tree ms ms"
  by (simp add: same_tree_def)

lemma same_tree_trans: "same_tree a b \<Longrightarrow> same_tree b c \<Longrightarrow> same_tree a c"
  by (simp add: same_tree_def)

lemma same_tree_entry:
  assumes "same_tree ms ms'" shows "dir_entry ms' cur name = dir_entry ms cur name"
  using assms by (auto simp: dir_entry_def lookup_def same_tree_def)

lemma same_tree_link:
  "same_tree ms ms' \<Longrightarrow> is_link ms' c = is_link ms c"
  "same_tree ms ms' \<Longrightarrow> link_target ms' c = link_target ms c"
  by (auto simp: is_link_def link_target_def same_tree_def)

lemma same_tree_resolve_loop:
  "same_tree ms ms' \<Longrightarrow> resolve_loop ms' d cur bef cs = resolve_loop ms d cur bef cs"
  by (induction d cur bef cs rule: resolve_loop_induct [where ms = ms])
    (auto simp: resolve_loop_Cons same_tree_entry same_tree_link split: option.splits)

lemma same_tree_resolvePath: "same_tree ms ms' \<Longrightarrow> resolvePath p ms' = resolvePath p ms"
  by (simp add: resolvePath_def resolveComponentsCore_def same_tree_resolve_loop)

subsection \<open>The store's invariant\<close>

text \<open>
  One predicate per map, each relative to the inode counter: keys were allocated, nested maps have
  distinct keys, an inode carries its own number, the version numbers of a file increase.
\<close>

definition inodes_ok :: "nat \<Rightarrow> (nat, InodeMeta) jsmap \<Rightarrow> bool" where
  "inodes_ok n m \<longleftrightarrow> mwf m \<and> (\<forall>i meta. mget m i = Some meta \<longrightarrow> i < n \<and> im_ino meta = i)"

definition submaps_ok :: "nat \<Rightarrow> (nat, ('k, 'v) jsmap) jsmap \<Rightarrow> bool" where
  "submaps_ok n m \<longleftrightarrow> mwf m \<and> (\<forall>i sub. mget m i = Some sub \<longrightarrow> i < n \<and> mwf sub)"

definition links_ok :: "nat \<Rightarrow> (nat, string) jsmap \<Rightarrow> bool" where
  "links_ok n m \<longleftrightarrow> mwf m \<and> (\<forall>i t. mget m i = Some t \<longrightarrow> i < n)"

definition records_ok :: "VersionRecord list \<Rightarrow> bool" where
  "records_ok rs \<longleftrightarrow> sorted_wrt (<) (map vr_version rs) \<and>
     list_all (\<lambda>r. 0 < vr_version r \<and> mwf (vr_chunkMap r)) rs"

definition versions_ok :: "(nat, VersionRecord list) jsmap \<Rightarrow> bool" where
  "versions_ok m \<longleftrightarrow> mwf m \<and> (\<forall>i rs. mget m i = Some rs \<longrightarrow> records_ok rs)"

definition ms_inv :: "MetaStore \<Rightarrow> bool" where
  "ms_inv ms \<longleftrightarrow> 1 < ms_nextIno ms \<and> inodes_ok (ms_nextIno ms) (ms_inodes ms) \<and>
     submaps_ok (ms_nextIno ms) (ms_dentries ms) \<and> links_ok (ms_nextIno ms) (ms_symlinkTargets ms) \<and>
     submaps_ok (ms_nextIno ms) (ms_chunks ms) \<and> versions_ok (ms_versions ms)"

lemma inodes_ok_mono: "inodes_ok n m \<Longrightarrow> n \<le> n' \<Longrightarrow> inodes_ok n' m"
  by (force simp: inodes_ok_def)

lemma submaps_ok_mono: "submaps_ok n m \<Longrightarrow> n \<le> n' \<Longrightarrow> submaps_ok n' m"
  by (force simp: submaps_ok_def)

lemma links_ok_mono: "links_ok n m \<Longrightarrow> n \<le> n' \<Longrightarrow> links_ok n' m"
  by (force simp: links_ok_def)

lemma inodes_ok_mput: "inodes_ok n m \<Longrightarrow> i < n \<Longrightarrow> im_ino meta = i \<Longrightarrow> inodes_ok n (mput i meta m)"
  by (auto simp: inodes_ok_def)

lemma submaps_ok_mput: "submaps_ok n m \<Longrightarrow> i < n \<Longrightarrow> mwf sub \<Longrightarrow> submaps_ok n (mput i sub m)"
  by (auto simp: submaps_ok_def)

lemma links_ok_mput: "links_ok n m \<Longrightarrow> i < n \<Longrightarrow> links_ok n (mput i t m)"
  by (auto simp: links_ok_def)

lemma versions_ok_mput: "versions_ok m \<Longrightarrow> records_ok rs \<Longrightarrow> versions_ok (mput i rs m)"
  by (auto simp: versions_ok_def)

lemma maps_ok_mdel:
  "inodes_ok n m1 \<Longrightarrow> inodes_ok n (mdel i m1)"
  "submaps_ok n m2 \<Longrightarrow> submaps_ok n (mdel i m2)"
  "links_ok n m3 \<Longrightarrow> links_ok n (mdel i m3)"
  by (auto simp: inodes_ok_def submaps_ok_def links_ok_def)

lemma submaps_okD: "submaps_ok n m \<Longrightarrow> mget m i = Some sub \<Longrightarrow> i < n \<and> mwf sub"
  by (simp add: submaps_ok_def)

lemma inodes_okD: "inodes_ok n m \<Longrightarrow> mget m i = Some meta \<Longrightarrow> i < n \<and> im_ino meta = i"
  by (simp add: inodes_ok_def)

lemma mwf_filter: "mwf m \<Longrightarrow> mwf (filter P m)"
  by (induction m) auto

lemma map_of_filter_key: "map_of (filter (\<lambda>(k, v). P k) m) c = (if P c then map_of m c else None)"
  by (induction m) auto

lemma mwf_sort: "mwf m \<Longrightarrow> mwf (sort_key fst (m :: (nat \<times> 'v) list))"
  by (simp add: distinct_map inj_on_def)

lemma map_of_sort: "mwf m \<Longrightarrow> map_of (sort_key fst (m :: (nat \<times> 'v) list)) = map_of m"
  by (rule map_of_eqI) (auto simp: mwf_sort distinct_map dom_map_of_conv_image_fst)

lemmas map_ok_intros =
  inodes_ok_mput submaps_ok_mput links_ok_mput versions_ok_mput maps_ok_mdel mwf_filter

lemma ms_new_inv: "ms_inv (ms_new now v)"
  by (simp add: ms_inv_def ms_new_def inodes_ok_def submaps_ok_def links_ok_def versions_ok_def)

lemma createInode_nextIno: "ms_nextIno (snd (createInode now attrs ms)) = Suc (ms_nextIno ms)"
  by (simp add: createInode_def Let_def split: option.splits)

lemma createInode_inv:
  assumes "ms_inv ms" shows "ms_inv (snd (createInode now attrs ms))"
proof -
  let ?n = "Suc (ms_nextIno ms)"
  have "inodes_ok ?n (ms_inodes ms)" "submaps_ok ?n (ms_dentries ms)" "links_ok ?n (ms_symlinkTargets ms)"
    "submaps_ok ?n (ms_chunks ms)" "versions_ok (ms_versions ms)" "1 < ?n"
    using assms by (auto simp: ms_inv_def intro: inodes_ok_mono submaps_ok_mono links_ok_mono)
  then show ?thesis
    by (auto simp: ms_inv_def createInode_def Let_def intro!: map_ok_intros split: option.splits)
qed

lemma updateInode_inv:
  "ms_inv ms \<Longrightarrow> (\<And>meta. im_ino (f meta) = im_ino meta) \<Longrightarrow> ms_inv (updateInode ino f ms)"
  using inodes_okD [of "ms_nextIno ms" "ms_inodes ms" ino]
  by (auto simp: ms_inv_def updateInode_def intro!: map_ok_intros split: option.splits)

lemma deleteInode_inv: "ms_inv ms \<Longrightarrow> ms_inv (deleteInode ino ms)"
  by (auto simp: ms_inv_def deleteInode_def intro!: map_ok_intros)

lemma createDentry_inv:
  assumes "ms_inv ms" "p < ms_nextIno ms" shows "ms_inv (snd (createDentry p name c t ms))"
  using assms submaps_okD [of "ms_nextIno ms" "ms_dentries ms" p]
  by (auto simp: ms_inv_def createDentry_def Let_def intro!: map_ok_intros split: option.splits)

lemma removeDentry_inv: "ms_inv ms \<Longrightarrow> ms_inv (removeDentry p name ms)"
  using submaps_okD [of "ms_nextIno ms" "ms_dentries ms" p]
  by (auto simp: ms_inv_def removeDentry_def intro!: map_ok_intros split: option.splits)

lemma renameDentry_inv:
  assumes "ms_inv ms" "dp < ms_nextIno ms" shows "ms_inv (renameDentry sp sn dp dn ms)"
  using assms submaps_okD [of "ms_nextIno ms" "ms_dentries ms" sp]
    submaps_okD [of "ms_nextIno ms" "ms_dentries ms" dp]
  by (auto simp: ms_inv_def renameDentry_def Let_def intro!: map_ok_intros split: option.splits)

lemma setChunkKey_inv:
  assumes "ms_inv ms" "ino < ms_nextIno ms" shows "ms_inv (setChunkKey ino ci key ms)"
  using assms submaps_okD [of "ms_nextIno ms" "ms_chunks ms" ino]
  by (auto simp: ms_inv_def setChunkKey_def Let_def intro!: map_ok_intros split: option.splits)

lemma deleteAllChunks_inv: "ms_inv ms \<Longrightarrow> ms_inv (snd (deleteAllChunks ino ms))"
  by (auto simp: ms_inv_def deleteAllChunks_def intro!: map_ok_intros split: option.splits)

lemma deleteChunksFrom_inv: "ms_inv ms \<Longrightarrow> ms_inv (snd (deleteChunksFrom ino ci ms))"
  using submaps_okD [of "ms_nextIno ms" "ms_chunks ms" ino]
  by (auto simp: ms_inv_def deleteChunksFrom_def intro!: map_ok_intros split: option.splits)

subsection \<open>Version records\<close>

abbreviation records_of :: "nat \<Rightarrow> MetaStore \<Rightarrow> VersionRecord list" where
  "records_of ino ms \<equiv> (case mget (ms_versions ms) ino of None \<Rightarrow> [] | Some rs \<Rightarrow> rs)"

definition version_keys :: "VersionRecord list \<Rightarrow> string set" where
  "version_keys rs = (\<Union>r \<in> set rs. snd ` set (vr_chunkMap r))"

definition current_keys :: "nat \<Rightarrow> MetaStore \<Rightarrow> string set" where
  "current_keys ino ms = (case mget (ms_chunks ms) ino of None \<Rightarrow> {} | Some m \<Rightarrow> snd ` set m)"

lemma set_jsset_fold [simp]: "set (fold jsset_add xs acc) = set xs \<union> set acc"
  by (induction xs arbitrary: acc) (auto simp: jsset_add_def)

lemma distinct_jsset_fold: "distinct acc \<Longrightarrow> distinct (fold jsset_add xs acc)"
  by (induction xs arbitrary: acc) (auto simp: jsset_add_def)

lemma records_ok_filter: "records_ok rs \<Longrightarrow> records_ok (filter P rs)"
  by (auto simp: records_ok_def list_all_iff sorted_wrt_map intro: sorted_wrt_filter)

lemma records_ok_snoc:
  assumes "records_ok rs" "mwf (vr_chunkMap r)"
    and "vr_version r = (if rs \<noteq> [] then vr_version (last rs) + 1 else 1)"
  shows "records_ok (rs @ [r])"
proof -
  have "vr_version x \<le> vr_version (last rs)" if "x \<in> set rs" for x
  proof -
    from that have "rs = butlast rs @ [last rs]" by (cases rs rule: rev_cases) auto
    then have "sorted_wrt (<) (map vr_version (butlast rs @ [last rs]))"
      using assms(1) by (simp add: records_ok_def)
    then have "\<forall>y \<in> set (butlast rs). vr_version y < vr_version (last rs)"
      by (simp add: sorted_wrt_append)
    moreover have "x \<in> set (butlast rs) \<or> x = last rs" using that by (cases rs rule: rev_cases) auto
    ultimately show ?thesis by auto
  qed
  then show ?thesis
    using assms by (fastforce simp: records_ok_def sorted_wrt_append list_all_iff)
qed

lemma records_ok_single: "0 < vr_version r \<Longrightarrow> mwf (vr_chunkMap r) \<Longrightarrow> records_ok [r]"
  by (simp add: records_ok_def)

lemma versions_okD: "versions_ok m \<Longrightarrow> mget m i = Some rs \<Longrightarrow> records_ok rs"
  by (simp add: versions_ok_def)

lemma records_of_ok: "ms_inv ms \<Longrightarrow> records_ok (records_of ino ms)"
  by (auto simp: ms_inv_def records_ok_def dest: versions_okD split: option.splits)

lemma createVersion_inv:
  assumes "ms_inv ms" shows "ms_inv (snd (createVersion now ino ms))"
proof -
  have "records_ok (records_of ino ms)" by (rule records_of_ok [OF assms])
  moreover have "mwf (case mget (ms_chunks ms) ino of None \<Rightarrow> [] | Some m \<Rightarrow> sort_key fst m)"
    using assms submaps_okD [of "ms_nextIno ms" "ms_chunks ms" ino]
    by (auto simp: ms_inv_def mwf_sort split: option.splits)
  ultimately show ?thesis
    using assms
    by (auto simp: createVersion_def Let_def ms_inv_def intro!: versions_ok_mput records_ok_snoc
        records_ok_single split: option.splits)
qed

lemma deleteVersions_inv:
  assumes "ms_inv ms" shows "ms_inv (snd (deleteVersions ino vs ms))"
  using assms versions_okD [of "ms_versions ms" ino]
  by (auto simp: deleteVersions_def Let_def ms_inv_def intro!: versions_ok_mput records_ok_filter
      split: option.splits)

lemma fold_mput:
  "mwf cm \<Longrightarrow> mget (fold (\<lambda>(i, key) m. mput i key m) cm acc) c =
     (case mget cm c of Some k \<Rightarrow> Some k | None \<Rightarrow> mget acc c)"
proof (induction cm arbitrary: acc)
  case (Cons p cm)
  then have "mget cm (fst p) = None" by (auto simp: map_of_eq_None_iff)
  with Cons show ?case by (cases p) (auto split: option.splits)
qed simp

lemma mwf_fold_mput: "mwf acc \<Longrightarrow> mwf (fold (\<lambda>(i, key) m. mput i key m) cm acc)"
  by (induction cm arbitrary: acc) auto

lemma restoreVersion_inv:
  assumes "ms_inv ms" "ino < ms_nextIno ms" shows "ms_inv (snd (ms_restoreVersion now ino v ms))"
proof (cases "Option.bind (mget (ms_versions ms) ino) (List.find (\<lambda>r. vr_version r = v))")
  case (Some r)
  let ?c = "\<lambda>c1. if vr_chunkMap r \<noteq> []
     then mput ino (fold (\<lambda>(i, key) m. mput i key m) (vr_chunkMap r) []) c1 else c1"
  have "ms_inv (ms\<lparr>ms_chunks := ?c (mdel ino (ms_chunks ms))\<rparr>)"
    using assms by (auto simp: ms_inv_def mwf_fold_mput intro!: map_ok_intros)
  then show ?thesis using Some assms(1)
    by (auto simp: ms_restoreVersion_def Let_def intro!: updateInode_inv)
qed (use assms in \<open>auto simp: ms_restoreVersion_def\<close>)

text \<open>\<open>List.find\<close> on a version list with increasing numbers.\<close>

lemma records_find:
  "sorted_wrt (<) (map vr_version rs) \<Longrightarrow> r \<in> set rs \<Longrightarrow>
     List.find (\<lambda>x. vr_version x = vr_version r) rs = Some r"
  by (induction rs) auto

text \<open>
  The frozen part of a file: what a version records and \<open>restoreVersion\<close> puts back.
\<close>

definition snapshot :: "nat \<Rightarrow> MetaStore \<Rightarrow> (nat \<times> StorageMode \<times> bytes option \<times> (nat \<Rightarrow> string option)) option"
  where
  "snapshot ino ms =
     (case getInode ino ms of
        None \<Rightarrow> None
      | Some meta \<Rightarrow> Some (im_size meta, im_storageMode meta, im_inlineContent meta,
          \<lambda>c. getChunkKey ino c ms))"

lemma createVersion_records:
  assumes "createVersion now ino ms = (Inr v, ms')" "ms_inv ms"
  obtains r where "r \<in> set (records_of ino ms')" "vr_version r = v"
    and "snapshot ino ms = Some (vr_size r, vr_storageMode r, vr_inlineContent r, map_of (vr_chunkMap r))"
    and "mget (ms_versions ms') ino = Some (records_of ino ms')"
proof -
  from assms(1) obtain meta where en: "ms_versioningEnabled ms" and meta: "mget (ms_inodes ms) ino = Some meta"
    by (auto simp: createVersion_def split: if_splits option.splits)
  let ?cm = "case mget (ms_chunks ms) ino of None \<Rightarrow> [] | Some m \<Rightarrow> sort_key fst m"
  let ?r = "\<lparr>vr_version = v, vr_size = im_size meta, vr_createdAt = now,
                   vr_storageMode = im_storageMode meta, vr_inlineContent = im_inlineContent meta,
                   vr_chunkMap = ?cm\<rparr>"
  have ms': "mget (ms_versions ms') ino = Some (records_of ino ms @ [?r])"
    using assms(1) en meta by (auto simp: createVersion_def Let_def)
  have "(\<lambda>c. getChunkKey ino c ms) = map_of ?cm"
    using assms(2) submaps_okD [of "ms_nextIno ms" "ms_chunks ms" ino]
    by (auto simp: ms_inv_def getChunkKey_def map_of_sort split: option.splits)
  then have "snapshot ino ms = Some (vr_size ?r, vr_storageMode ?r, vr_inlineContent ?r, map_of (vr_chunkMap ?r))"
    using meta by (simp add: snapshot_def getInode_def)
  with ms' show thesis using that [of ?r] by simp
qed

lemma restoreVersion_snapshot:
  assumes "ms_inv ms" "ms_versioningEnabled ms" "mhas (ms_inodes ms) ino"
    and r: "r \<in> set (records_of ino ms)" "vr_version r = v"
  shows "fst (ms_restoreVersion now ino v ms) = Inr ()"
    and "snapshot ino (snd (ms_restoreVersion now ino v ms)) =
      Some (vr_size r, vr_storageMode r, vr_inlineContent r, map_of (vr_chunkMap r))"
proof -
  from r obtain rs where rs: "mget (ms_versions ms) ino = Some rs" "r \<in> set rs"
    by (cases "mget (ms_versions ms) ino") auto
  have ok: "records_ok rs" using assms(1) rs by (auto simp: ms_inv_def dest: versions_okD)
  then have f: "List.find (\<lambda>r. vr_version r = v) rs = Some r"
    using records_find rs(2) r(2) by (auto simp: records_ok_def)
  have cm: "mwf (vr_chunkMap r)" using ok rs(2) by (auto simp: records_ok_def list_all_iff)
  show "fst (ms_restoreVersion now ino v ms) = Inr ()"
    using assms(2) rs f by (simp add: ms_restoreVersion_def Let_def)
  show "snapshot ino (snd (ms_restoreVersion now ino v ms)) =
      Some (vr_size r, vr_storageMode r, vr_inlineContent r, map_of (vr_chunkMap r))"
    using assms(2,3) rs f cm
    by (auto simp: ms_restoreVersion_def Let_def snapshot_def getInode_def getChunkKey_def updateInode_def
        mhas_def fold_mput fun_eq_iff split: option.splits)
qed

lemma deleteVersions_result:
  assumes "ms_versioningEnabled ms" "deleteVersions ino vs ms = (Inr ks, ms')"
  shows "distinct ks"
    and "set ks = version_keys (filter (\<lambda>r. vr_version r \<in> set vs) (records_of ino ms))
      - version_keys (records_of ino ms') - current_keys ino ms'"
    and "records_of ino ms' = filter (\<lambda>r. vr_version r \<notin> set vs) (records_of ino ms)"
proof -
  define del where "del = filter (\<lambda>r. vr_version r \<in> set vs) (records_of ino ms)"
  define rem where "rem = filter (\<lambda>r. vr_version r \<notin> set vs) (records_of ino ms)"
  have keys: "snd ` set (concat (map vr_chunkMap rs)) = version_keys rs" for rs
    by (auto simp: version_keys_def)
  have sk: "set (fold jsset_add (map snd (concat (map vr_chunkMap del))) []) = version_keys del"
    unfolding set_jsset_fold set_map keys by simp
  have vk0: "version_keys [] = {}" by (simp add: version_keys_def)
  have nil: "vs = [] \<Longrightarrow> del = []" "mget (ms_versions ms) ino = None \<Longrightarrow> del = []"
    by (simp_all add: del_def)
  show recs: "records_of ino ms' = rem"
    using assms by (auto simp: rem_def deleteVersions_def Let_def split: if_splits option.splits)
  have cur: "current_keys ino ms' = current_keys ino ms"
    using assms by (auto simp: current_keys_def deleteVersions_def Let_def split: if_splits option.splits)
  have "del = [] \<and> ks = [] \<or>
     ks = filter (\<lambda>k. k \<notin> version_keys rem \<union> current_keys ino ms)
       (fold jsset_add (map snd (concat (map vr_chunkMap del))) [])"
  proof (cases "vs = [] \<or> mget (ms_versions ms) ino = None")
    case True
    with nil assms show ?thesis by (auto simp: deleteVersions_def split: if_splits)
  next
    case False
    then obtain rs where "mget (ms_versions ms) ino = Some rs" by auto
    with False assms show ?thesis
      by (cases "mget (ms_chunks ms) ino")
        (auto simp: deleteVersions_def Let_def keys [symmetric] del_def rem_def current_keys_def
          intro!: filter_cong split: if_splits)
  qed
  then show "distinct ks"
    and "set ks = version_keys (filter (\<lambda>r. vr_version r \<in> set vs) (records_of ino ms))
      - version_keys (records_of ino ms') - current_keys ino ms'"
    by (auto simp: recs cur distinct_jsset_fold sk vk0 del_def [symmetric] simp del: set_jsset_fold)
qed

subsection \<open>The chunk map\<close>

lemma getChunkKey_setChunkKey [simp]:
  "getChunkKey i c (setChunkKey ino ci key ms) = (if i = ino \<and> c = ci then Some key else getChunkKey i c ms)"
  by (auto simp: getChunkKey_def setChunkKey_def Let_def split: option.splits)

lemma getChunkKey_deleteAllChunks [simp]:
  "getChunkKey i c (snd (deleteAllChunks ino ms)) = (if i = ino then None else getChunkKey i c ms)"
  by (auto simp: getChunkKey_def deleteAllChunks_def split: option.splits)

lemma getChunkKey_deleteChunksFrom [simp]:
  "getChunkKey i c (snd (deleteChunksFrom ino start ms)) =
     (if i = ino \<and> start \<le> c then None else getChunkKey i c ms)"
  by (cases "mget (ms_chunks ms) ino")
    (simp_all add: getChunkKey_def deleteChunksFrom_def map_of_filter_key [of "\<lambda>x. \<not> start \<le> x"])

lemma getChunkKey_frame [simp]:
  "getChunkKey i c (updateInode ino f ms) = getChunkKey i c ms"
  "getChunkKey i c (removeDentry p n ms) = getChunkKey i c ms"
  "getChunkKey i c (renameDentry p n p' n' ms) = getChunkKey i c ms"
  "getChunkKey i c (snd (createDentry p n ch t ms)) = getChunkKey i c ms"
  "getChunkKey i c (snd (createInode now attrs ms)) = getChunkKey i c ms"
  "getChunkKey i c (deleteInode ino ms) = (if i = ino then None else getChunkKey i c ms)"
  by (auto simp: getChunkKey_def updateInode_def removeDentry_def renameDentry_def createDentry_def
      createInode_def deleteInode_def Let_def split: option.splits)

lemma getInode_frame [simp]:
  "getInode i (setChunkKey ino ci key ms) = getInode i ms"
  "getInode i (snd (deleteAllChunks ino ms)) = getInode i ms"
  "getInode i (snd (deleteChunksFrom ino ci ms)) = getInode i ms"
  "getInode i (removeDentry p n ms) = getInode i ms"
  "getInode i (renameDentry p n p' n' ms) = getInode i ms"
  "getInode i (snd (createDentry p n ch t ms)) = getInode i ms"
  "getInode i (updateInode ino f ms) = (if i = ino then map_option f (getInode i ms) else getInode i ms)"
  "getInode i (deleteInode ino ms) = (if i = ino then None else getInode i ms)"
  by (auto simp: getInode_def setChunkKey_def deleteAllChunks_def deleteChunksFrom_def updateInode_def
      removeDentry_def renameDentry_def createDentry_def deleteInode_def Let_def split: option.splits)

lemma keys_of_map: "mwf m \<Longrightarrow> snd ` set m = {k. \<exists>c. mget m c = Some k}"
  by (force simp: image_iff)

lemma ms_inv_chunk_mwf: "ms_inv ms \<Longrightarrow> mget (ms_chunks ms) ino = Some m \<Longrightarrow> mwf m"
  by (auto simp: ms_inv_def dest: submaps_okD)

lemma deleteAllChunks_keys:
  "ms_inv ms \<Longrightarrow> set (fst (deleteAllChunks ino ms)) = {k. \<exists>c. getChunkKey ino c ms = Some k}"
  using ms_inv_chunk_mwf [of ms ino]
  by (cases "mget (ms_chunks ms) ino") (auto simp: deleteAllChunks_def getChunkKey_def keys_of_map)

lemma deleteChunksFrom_keys:
  assumes "ms_inv ms"
  shows "set (fst (deleteChunksFrom ino start ms)) = {k. \<exists>c \<ge> start. getChunkKey ino c ms = Some k}"
proof (cases "mget (ms_chunks ms) ino")
  case (Some m)
  then have "mwf m" using assms by (rule ms_inv_chunk_mwf [rotated])
  with Some show ?thesis by (force simp: deleteChunksFrom_def getChunkKey_def image_iff)
qed (simp add: deleteChunksFrom_def getChunkKey_def)

lemma getAllChunkKeys_set:
  assumes "ms_inv ms"
  shows "set (getAllChunkKeys ino ms) = {(c, k). getChunkKey ino c ms = Some k}"
proof (cases "mget (ms_chunks ms) ino")
  case (Some m)
  then have "mwf m" using assms by (rule ms_inv_chunk_mwf [rotated])
  with Some show ?thesis by (auto simp: getAllChunkKeys_def getChunkKey_def)
qed (simp add: getAllChunkKeys_def getChunkKey_def)

lemma getAllChunkKeys_sorted:
  assumes "ms_inv ms" shows "sorted_wrt (<) (map fst (getAllChunkKeys ino ms))"
proof (cases "mget (ms_chunks ms) ino")
  case (Some m)
  then have "mwf m" using assms by (rule ms_inv_chunk_mwf [rotated])
  then have "distinct (map fst (sort_key fst m))" by (rule mwf_sort)
  with Some show ?thesis by (simp add: getAllChunkKeys_def strict_sorted_iff)
qed (simp add: getAllChunkKeys_def)

subsection \<open>The store as a component\<close>

datatype meta_call =
    CallCreateInode int CreateInodeAttrs
  | CallUpdateInode nat "InodeMeta \<Rightarrow> InodeMeta"
  | CallDeleteInode nat
  | CallCreateDentry nat string nat InodeType
  | CallRemoveDentry nat string
  | CallRenameDentry nat string nat string
  | CallSetChunkKey nat nat string
  | CallDeleteAllChunks nat
  | CallDeleteChunksFrom nat nat
  | CallCreateVersion int nat
  | CallDeleteVersions nat "nat list"
  | CallRestoreVersion int nat nat

fun meta_step :: "meta_call \<Rightarrow> MetaStore \<Rightarrow> MetaStore" where
  "meta_step (CallCreateInode now attrs) ms = snd (createInode now attrs ms)"
| "meta_step (CallUpdateInode ino f) ms = updateInode ino f ms"
| "meta_step (CallDeleteInode ino) ms = deleteInode ino ms"
| "meta_step (CallCreateDentry p n c t) ms = snd (createDentry p n c t ms)"
| "meta_step (CallRemoveDentry p n) ms = removeDentry p n ms"
| "meta_step (CallRenameDentry sp sn dp dn) ms = renameDentry sp sn dp dn ms"
| "meta_step (CallSetChunkKey ino ci key) ms = setChunkKey ino ci key ms"
| "meta_step (CallDeleteAllChunks ino) ms = snd (deleteAllChunks ino ms)"
| "meta_step (CallDeleteChunksFrom ino ci) ms = snd (deleteChunksFrom ino ci ms)"
| "meta_step (CallCreateVersion now ino) ms = snd (createVersion now ino ms)"
| "meta_step (CallDeleteVersions ino vs) ms = snd (deleteVersions ino vs ms)"
| "meta_step (CallRestoreVersion now ino v) ms = snd (ms_restoreVersion now ino v ms)"

text \<open>Callers name inodes the store handed out, and no update renumbers an inode.\<close>

fun meta_guard :: "meta_call \<Rightarrow> MetaStore \<Rightarrow> bool" where
  "meta_guard (CallUpdateInode ino f) ms = (\<forall>meta. im_ino (f meta) = im_ino meta)"
| "meta_guard (CallCreateDentry p n c t) ms = (p < ms_nextIno ms)"
| "meta_guard (CallRenameDentry sp sn dp dn) ms = (dp < ms_nextIno ms)"
| "meta_guard (CallSetChunkKey ino ci key) ms = (ino < ms_nextIno ms)"
| "meta_guard (CallRestoreVersion now ino v) ms = (ino < ms_nextIno ms)"
| "meta_guard _ ms = True"

interpretation meta_machine: invariant_component meta_step meta_guard ms_inv
proof
  fix x s
  assume "ms_inv s" "meta_guard x s"
  then show "ms_inv (meta_step x s)"
    by (cases x)
      (auto intro: createInode_inv updateInode_inv deleteInode_inv createDentry_inv removeDentry_inv
        renameDentry_inv setChunkKey_inv deleteAllChunks_inv deleteChunksFrom_inv createVersion_inv
        deleteVersions_inv restoreVersion_inv)
qed

text \<open>Inode numbers come from a counter and are never reused.\<close>

interpretation inode_numbers: id_allocator
  "createInode now attrs" "\<lambda>ms i. i < ms_nextIno ms" for now attrs
  by unfold_locales (auto simp: createInode_def Let_def split: option.splits)

subsection \<open>Properties\<close>

text \<open>A store with a file behind a relative and an absolute symbolic link, for concrete instances.\<close>

definition file_attrs :: CreateInodeAttrs where
  "file_attrs = \<lparr>ca_type = IT_file, ca_mode = 0x1A4, ca_uid = 0, ca_gid = 0, ca_symlinkTarget = None\<rparr>"

definition link_attrs :: "string \<Rightarrow> CreateInodeAttrs" where
  "link_attrs t = \<lparr>ca_type = IT_symlink, ca_mode = 0x1FF, ca_uid = 0, ca_gid = 0, ca_symlinkTarget = Some t\<rparr>"

definition sample_store :: MetaStore where
  "sample_store = run_ops meta_step
     [CallCreateInode 0 file_attrs, CallCreateDentry 1 ''f'' 2 IT_file,
      CallCreateInode 0 (link_attrs ''f''), CallCreateDentry 1 ''l'' 3 IT_symlink,
      CallCreateInode 0 (link_attrs ''/l''), CallCreateDentry 1 ''m'' 4 IT_symlink,
      CallSetChunkKey 2 0 ''2/0''] (ms_new 0 True)"

lemmas meta_eval = sample_store_def ms_new_def file_attrs_def link_attrs_def createInode_def
  createDentry_def setChunkKey_def Let_def mhas_def

lemma sample_store_inv: "ms_inv sample_store"
  unfolding sample_store_def
  by (rule meta_machine.run_inv [OF ms_new_inv]) (simp add: meta_eval)

text \<open>
  C6. Path resolution of the metadata store computes the reference walk: it returns an inode exactly
  when a walk from the root over directory entries, splicing in link targets, reaches that inode with
  at most 40 symbolic links followed. In particular it always returns, link cycles included.
\<close>

theorem resolvePath_is_walk:
  "resolvePath p ms = Inr ino \<longleftrightarrow>
     (\<exists>n \<le> SYMLOOP_MAX. walk ms 1 [] (splitPathComponents p) n ino)"
  using resolve_loop_walk [of ms 0 1 "[]"] by (simp add: resolvePath_def resolveComponentsCore_def)

theorem resolvePath_is_walk_witness:
  "\<exists>n \<le> SYMLOOP_MAX. walk sample_store 1 [] (splitPathComponents ''/m'') n 2"
proof -
  have "resolvePath ''/m'' sample_store = Inr 2"
    by (simp add: resolvePath_def resolveComponentsCore_def splitPathComponents_def startsWith_def
        meta_eval resolve_loop_Cons dir_entry_def is_link_def link_target_def spliced_def lookup_def
        SYMLOOP_MAX_def)
  then show ?thesis by (simp only: resolvePath_is_walk)
qed

text \<open>
  Every run of the metadata store's operations keeps its invariant: allocated inode numbers only,
  an inode carries its own number, directories and chunk maps have distinct keys, and the version
  numbers of a file strictly increase.
\<close>

theorem meta_store_invariant:
  assumes "guarded meta_guard meta_step calls (ms_new now v)"
  shows "ms_inv (run_ops meta_step calls (ms_new now v))"
  using ms_new_inv assms by (rule meta_machine.run_inv)

theorem meta_store_invariant_witness:
  "ms_inv (run_ops meta_step [CallCreateInode 0 file_attrs, CallCreateDentry 1 ''f'' 2 IT_file,
     CallSetChunkKey 2 0 ''2/0'', CallCreateVersion 5 2, CallDeleteVersions 2 [1]] (ms_new 0 True))"
  by (rule meta_store_invariant) (simp add: meta_eval)

text \<open>
  C7. \<open>deleteVersions\<close> returns, without repetition, exactly the block keys that a deleted version
  references and that no remaining version of the file and not its current chunk map reference: no
  block that is still needed is handed out for deletion, and no orphan is forgotten.
\<close>

theorem deleteVersions_orphans:
  assumes "ms_versioningEnabled ms" "deleteVersions ino vs ms = (Inr ks, ms')"
  shows "distinct ks \<and>
    set ks = version_keys (filter (\<lambda>r. vr_version r \<in> set vs) (records_of ino ms))
      - version_keys (records_of ino ms') - current_keys ino ms'"
  using deleteVersions_result [OF assms] by blast

theorem deleteVersions_orphans_witness:
  "deleteVersions 2 [1] (snd (deleteAllChunks 2 (snd (createVersion 5 2 sample_store)))) =
     (Inr [''2/0''], snd (deleteAllChunks 2 sample_store)\<lparr>ms_versions := [(2, [])]\<rparr>) \<and>
   {''2/0''} = version_keys (records_of 2 (snd (createVersion 5 2 sample_store)))
     - version_keys [] - current_keys 2 (snd (deleteAllChunks 2 sample_store))"
proof -
  let ?ms = "snd (deleteAllChunks 2 (snd (createVersion 5 2 sample_store)))"
  let ?ms' = "snd (deleteAllChunks 2 sample_store)\<lparr>ms_versions := [(2, [])]\<rparr>"
  have e: "ms_versioningEnabled ?ms"
    by (simp add: deleteAllChunks_def createVersion_def meta_eval)
  have d: "deleteVersions 2 [1] ?ms = (Inr [''2/0''], ?ms')"
    by (simp add: deleteVersions_def deleteAllChunks_def createVersion_def meta_eval jsset_add_def)
  have "filter (\<lambda>r. vr_version r \<in> set [1]) (records_of 2 ?ms) = records_of 2 (snd (createVersion 5 2 sample_store))"
    "records_of 2 ?ms' = []" "current_keys 2 ?ms' = current_keys 2 (snd (deleteAllChunks 2 sample_store))"
    by (simp_all add: deleteAllChunks_def createVersion_def meta_eval current_keys_def)
  then show ?thesis using deleteVersions_orphans [OF e d] d by simp
qed

text \<open>
  C8. A version restores what it froze: whatever happened to the file since (as long as its version
  records were kept), \<open>restoreVersion\<close> brings back the size, the storage mode, the inline content and
  the chunk map the file had when \<open>createVersion\<close> returned that number.
\<close>

theorem version_roundtrip:
  assumes "ms_inv ms" "createVersion now ino ms = (Inr v, ms1)"
    and "ms_inv ms2" "ms_versioningEnabled ms2" "mhas (ms_inodes ms2) ino"
    and "set (records_of ino ms1) \<subseteq> set (records_of ino ms2)"
  shows "fst (ms_restoreVersion now2 ino v ms2) = Inr () \<and>
    snapshot ino (snd (ms_restoreVersion now2 ino v ms2)) = snapshot ino ms"
proof -
  obtain r where r: "r \<in> set (records_of ino ms1)" "vr_version r = v"
    and "snapshot ino ms = Some (vr_size r, vr_storageMode r, vr_inlineContent r, map_of (vr_chunkMap r))"
    using createVersion_records [OF assms(2,1)] by blast
  moreover have "r \<in> set (records_of ino ms2)" using r(1) assms(6) by blast
  ultimately show ?thesis
    using restoreVersion_snapshot [OF assms(3-5) _ r(2)] by simp
qed

theorem version_roundtrip_witness:
  "fst (ms_restoreVersion 9 2 1 (snd (deleteAllChunks 2 (snd (createVersion 5 2 sample_store))))) = Inr () \<and>
   snapshot 2 (snd (ms_restoreVersion 9 2 1 (snd (deleteAllChunks 2 (snd (createVersion 5 2 sample_store)))))) =
     snapshot 2 sample_store"
proof (rule version_roundtrip)
  show "createVersion 5 2 sample_store = (Inr 1, snd (createVersion 5 2 sample_store))"
    by (simp add: createVersion_def meta_eval)
  show "ms_inv sample_store" "ms_inv (snd (deleteAllChunks 2 (snd (createVersion 5 2 sample_store))))"
    by (intro sample_store_inv deleteAllChunks_inv createVersion_inv)+
qed (simp_all add: createVersion_def deleteAllChunks_def meta_eval)

end
