(* ===== verification/Block_Store.thy ===== *)
theory Block_Store
  imports Kernel_Effect
begin

section \<open>Typed arrays and the in-memory block store\<close>

text \<open>
  \<^verbatim>\<open>vfs/memory-block-store.ts\<close> keeps blocks as \<^verbatim>\<open>Uint8Array\<close> objects. \<open>read\<close> returns the stored object
  itself, and the chunked file system writes into what it was given, so arrays are modelled with
  their identity: a block is the address of an array in a heap of arrays, \<open>write\<close> and \<open>copy\<close> allocate,
  \<open>read\<close> returns the address. The locale \<open>block_store\<close> is the contract of \<^verbatim>\<open>FsBlockStore\<close> in
  \<^verbatim>\<open>vfs/types.ts\<close> on the values of the blocks.
\<close>

subsection \<open>Typed arrays\<close>

definition zeros :: "nat \<Rightarrow> bytes" where
  "zeros n = replicate n 0"

text \<open>\<^verbatim>\<open>a.slice(b, e)\<close> for indices that are not negative, and \<^verbatim>\<open>dst.set(src, off)\<close>.\<close>

definition u8_slice :: "bytes \<Rightarrow> nat \<Rightarrow> nat \<Rightarrow> bytes" where
  "u8_slice a b e = take (e - b) (drop b a)"

definition u8_set :: "bytes \<Rightarrow> bytes \<Rightarrow> nat \<Rightarrow> exn + bytes" where
  "u8_set dst src off =
     (if off + length src \<le> length dst then Inr (take off dst @ src @ drop (off + length src) dst)
      else Inl (JsErr ''RangeError''))"

text \<open>The byte an array contributes at an index, where what is past its end reads as zero.\<close>

definition nth0 :: "bytes \<Rightarrow> nat \<Rightarrow> byte" where
  "nth0 a i = (if i < length a then a ! i else 0)"

lemma length_zeros [simp]: "length (zeros n) = n"
  by (simp add: zeros_def)

lemma nth0_zeros [simp]: "nth0 (zeros n) i = 0"
  by (simp add: nth0_def zeros_def)

lemma nth0_Nil [simp]: "nth0 [] i = 0"
  by (simp add: nth0_def)

lemma nth0_beyond: "length a \<le> i \<Longrightarrow> nth0 a i = 0"
  by (simp add: nth0_def)

lemma nth0_pad [simp]: "nth0 (a @ zeros n) i = nth0 a i"
  by (auto simp: nth0_def nth_append zeros_def)

lemma length_u8_slice [simp]: "length (u8_slice a b e) = min (e - b) (length a - b)"
  by (simp add: u8_slice_def min.commute)

lemma nth0_u8_slice: "nth0 (u8_slice a b e) i = (if i < e - b then nth0 a (b + i) else 0)"
  by (auto simp: nth0_def u8_slice_def)

lemma u8_set_ok: "off + length src \<le> length dst \<Longrightarrow>
    u8_set dst src off = Inr (take off dst @ src @ drop (off + length src) dst)"
  by (simp add: u8_set_def)

lemma u8_set_length: "u8_set dst src off = Inr r \<Longrightarrow> length r = length dst"
  by (auto simp: u8_set_def split: if_splits)

lemma u8_set_nth0:
  assumes "u8_set dst src off = Inr r"
  shows "nth0 r i = (if off \<le> i \<and> i < off + length src then src ! (i - off) else nth0 dst i)"
  using assms by (auto simp: u8_set_def nth0_def nth_append min_def split: if_splits)

lemma u8_set_some: "off + length src \<le> length dst \<Longrightarrow> \<exists>r. u8_set dst src off = Inr r"
  by (simp add: u8_set_def)

lemma list_eq_nth0: "length a = length b \<Longrightarrow> (\<And>i. i < length a \<Longrightarrow> nth0 a i = nth0 b i) \<Longrightarrow> a = b"
  by (rule nth_equalityI) (auto simp: nth0_def)

subsection \<open>The store\<close>

type_synonym addr = nat

record BlockStore =
  bs_heap :: "bytes list"
  bs_blocks :: "(string, addr) jsmap"

definition bs_new :: BlockStore where
  "bs_new = \<lparr>bs_heap = [], bs_blocks = []\<rparr>"

text \<open>\<^verbatim>\<open>new Uint8Array(...)\<close>, the bytes of an array, and \<^verbatim>\<open>set\<close> on an array in place.\<close>

definition bs_alloc :: "bytes \<Rightarrow> BlockStore \<Rightarrow> addr \<times> BlockStore" where
  "bs_alloc d bs = (length (bs_heap bs), bs\<lparr>bs_heap := bs_heap bs @ [d]\<rparr>)"

definition arr :: "addr \<Rightarrow> BlockStore \<Rightarrow> bytes" where
  "arr a bs = bs_heap bs ! a"

definition arr_set :: "addr \<Rightarrow> bytes \<Rightarrow> nat \<Rightarrow> BlockStore \<Rightarrow> (exn + unit) \<times> BlockStore" where
  "arr_set a src off bs =
     (case u8_set (arr a bs) src off of
        Inl e \<Rightarrow> (Inl e, bs)
      | Inr d \<Rightarrow> (Inr (), bs\<lparr>bs_heap := (bs_heap bs)[a := d]\<rparr>))"

definition bs_read :: "string \<Rightarrow> BlockStore \<Rightarrow> exn + addr" where
  "bs_read key bs = (case mget (bs_blocks bs) key of None \<Rightarrow> Inl (KErr ENOENT) | Some a \<Rightarrow> Inr a)"

definition bs_readRange :: "string \<Rightarrow> nat \<Rightarrow> nat \<Rightarrow> BlockStore \<Rightarrow> exn + bytes" where
  "bs_readRange key off len bs =
     (case mget (bs_blocks bs) key of
        None \<Rightarrow> Inl (KErr ENOENT)
      | Some a \<Rightarrow>
          (let e = min (off + len) (length (arr a bs)) in Inr (u8_slice (arr a bs) off e)))"

definition bs_write :: "string \<Rightarrow> bytes \<Rightarrow> BlockStore \<Rightarrow> BlockStore" where
  "bs_write key d bs =
     (let (a, bs1) = bs_alloc d bs in bs1\<lparr>bs_blocks := mput key a (bs_blocks bs1)\<rparr>)"

definition bs_delete :: "string \<Rightarrow> BlockStore \<Rightarrow> BlockStore" where
  "bs_delete key bs = bs\<lparr>bs_blocks := mdel key (bs_blocks bs)\<rparr>"

definition bs_deleteMany :: "string list \<Rightarrow> BlockStore \<Rightarrow> BlockStore" where
  "bs_deleteMany keys bs = fold bs_delete keys bs"

definition bs_copy :: "string \<Rightarrow> string \<Rightarrow> BlockStore \<Rightarrow> (exn + unit) \<times> BlockStore" where
  "bs_copy srcKey dstKey bs =
     (case mget (bs_blocks bs) srcKey of
        None \<Rightarrow> (Inl (KErr ENOENT), bs)
      | Some a \<Rightarrow> (Inr (), bs_write dstKey (arr a bs) bs))"

subsection \<open>The contract of a block store\<close>

text \<open>
  On values: a store maps keys to byte strings. The laws are those documented for \<^verbatim>\<open>FsBlockStore\<close>:
  reading and copying a missing key fail and change nothing, a range past the end is a short read,
  deleting is idempotent.
\<close>

locale block_store =
  fixes block :: "'s \<Rightarrow> string \<Rightarrow> bytes option"
    and ok :: "'s \<Rightarrow> bool"
    and readRange :: "string \<Rightarrow> nat \<Rightarrow> nat \<Rightarrow> 's \<Rightarrow> exn + bytes"
    and writeB :: "string \<Rightarrow> bytes \<Rightarrow> 's \<Rightarrow> 's"
    and deleteB :: "string \<Rightarrow> 's \<Rightarrow> 's"
    and copyB :: "string \<Rightarrow> string \<Rightarrow> 's \<Rightarrow> (exn + unit) \<times> 's"
  assumes block_write: "ok s \<Longrightarrow> block (writeB k d s) k' = (if k' = k then Some d else block s k')"
    and block_delete: "block (deleteB k s) k' = (if k' = k then None else block s k')"
    and readRange_block: "readRange k off len s =
      (case block s k of None \<Rightarrow> Inl (KErr ENOENT) | Some d \<Rightarrow> Inr (take len (drop off d)))"
    and copy_block: "copyB k k' s =
      (case block s k of None \<Rightarrow> (Inl (KErr ENOENT), s) | Some d \<Rightarrow> (Inr (), writeB k' d s))"
    and ok_write: "ok s \<Longrightarrow> ok (writeB k d s)"
    and ok_delete: "ok s \<Longrightarrow> ok (deleteB k s)"
begin

lemma block_deleteMany: "block (fold deleteB ks s) k = (if k \<in> set ks then None else block s k)"
  by (induction ks arbitrary: s) (auto simp: block_delete)

lemma ok_deleteMany: "ok s \<Longrightarrow> ok (fold deleteB ks s)"
  by (induction ks arbitrary: s) (auto simp: ok_delete)

lemma read_after_write:
  "ok s \<Longrightarrow> readRange k off len (writeB k d s) = Inr (take len (drop off d))"
  by (simp add: readRange_block block_write)

lemma copy_then_read:
  "ok s \<Longrightarrow> block s k = Some d \<Longrightarrow> block (snd (copyB k k' s)) k' = Some d"
  by (simp add: copy_block block_write)

lemma ok_copy: "ok s \<Longrightarrow> ok (snd (copyB k k' s))"
  by (auto simp: copy_block ok_write split: option.splits)

end

definition bs_block :: "BlockStore \<Rightarrow> string \<Rightarrow> bytes option" where
  "bs_block bs key = map_option (\<lambda>a. arr a bs) (mget (bs_blocks bs) key)"

text \<open>Every block is an allocated array, and no two keys share one.\<close>

definition bs_inv :: "BlockStore \<Rightarrow> bool" where
  "bs_inv bs \<longleftrightarrow> (\<forall>k a. mget (bs_blocks bs) k = Some a \<longrightarrow> a < length (bs_heap bs)) \<and>
     (\<forall>k k' a. mget (bs_blocks bs) k = Some a \<longrightarrow> mget (bs_blocks bs) k' = Some a \<longrightarrow> k = k')"

lemma bs_invD1: "bs_inv bs \<Longrightarrow> mget (bs_blocks bs) k = Some a \<Longrightarrow> a < length (bs_heap bs)"
  unfolding bs_inv_def by blast

lemma bs_invD2:
  "bs_inv bs \<Longrightarrow> mget (bs_blocks bs) k = Some a \<Longrightarrow> mget (bs_blocks bs) k' = Some a \<Longrightarrow> k' = k"
  unfolding bs_inv_def by blast

lemma bs_new_inv: "bs_inv bs_new"
  by (simp add: bs_inv_def bs_new_def)

lemma bs_alloc_simps [simp]:
  "fst (bs_alloc d bs) = length (bs_heap bs)"
  "bs_blocks (snd (bs_alloc d bs)) = bs_blocks bs"
  "length (bs_heap (snd (bs_alloc d bs))) = Suc (length (bs_heap bs))"
  by (simp_all add: bs_alloc_def)

lemma arr_alloc_new [simp]: "arr (length (bs_heap bs)) (snd (bs_alloc d bs)) = d"
  by (simp add: arr_def bs_alloc_def)

lemma arr_alloc_old [simp]: "a < length (bs_heap bs) \<Longrightarrow> arr a (snd (bs_alloc d bs)) = arr a bs"
  by (simp add: arr_def bs_alloc_def nth_append)

lemma bs_write_blocks [simp]:
  "mget (bs_blocks (bs_write key d bs)) k = (if k = key then Some (length (bs_heap bs)) else mget (bs_blocks bs) k)"
  "bs_heap (bs_write key d bs) = bs_heap bs @ [d]"
  by (simp_all add: bs_write_def bs_alloc_def)

lemma arr_write_old [simp]: "a < length (bs_heap bs) \<Longrightarrow> arr a (bs_write key d bs) = arr a bs"
  by (simp add: arr_def nth_append)

lemma arr_write_new [simp]: "arr (length (bs_heap bs)) (bs_write key d bs) = d"
  by (simp add: arr_def)

lemma bs_write_inv: "bs_inv bs \<Longrightarrow> bs_inv (bs_write key d bs)"
  unfolding bs_inv_def by (auto simp: less_Suc_eq dest: spec)

lemma bs_alloc_inv: "bs_inv bs \<Longrightarrow> bs_inv (snd (bs_alloc d bs))"
  unfolding bs_inv_def by (auto simp: less_Suc_eq)

lemma bs_delete_simps [simp]:
  "mget (bs_blocks (bs_delete key bs)) k = (if k = key then None else mget (bs_blocks bs) k)"
  "bs_heap (bs_delete key bs) = bs_heap bs" "arr a (bs_delete key bs) = arr a bs"
  by (simp_all add: bs_delete_def arr_def)

lemma bs_delete_inv: "bs_inv bs \<Longrightarrow> bs_inv (bs_delete key bs)"
  unfolding bs_inv_def by auto

lemma bs_deleteMany_simps [simp]:
  "mget (bs_blocks (bs_deleteMany ks bs)) k = (if k \<in> set ks then None else mget (bs_blocks bs) k)"
  "bs_heap (bs_deleteMany ks bs) = bs_heap bs" "arr a (bs_deleteMany ks bs) = arr a bs"
  unfolding bs_deleteMany_def by (induction ks arbitrary: bs) auto

lemma bs_deleteMany_inv: "bs_inv bs \<Longrightarrow> bs_inv (bs_deleteMany ks bs)"
  unfolding bs_deleteMany_def by (induction ks arbitrary: bs) (auto simp: bs_delete_inv)

lemma bs_block_write:
  assumes "bs_inv bs"
  shows "bs_block (bs_write k d bs) k' = (if k' = k then Some d else bs_block bs k')"
  using bs_invD1 [OF assms, of k'] by (cases "mget (bs_blocks bs) k'") (simp_all add: bs_block_def)

lemma slice_short: "u8_slice d off (min (off + len) (length d)) = take len (drop off d)"
  by (auto simp: u8_slice_def min_def)

interpretation mem_blocks: block_store bs_block bs_inv bs_readRange bs_write bs_delete bs_copy
proof
  show "bs_block (bs_write k d s) k' = (if k' = k then Some d else bs_block s k')" if "bs_inv s" for s k d k'
    using that by (rule bs_block_write)
  show "bs_block (bs_delete k s) k' = (if k' = k then None else bs_block s k')" for k s k'
    by (simp add: bs_block_def)
  show "bs_readRange k off len s =
      (case bs_block s k of None \<Rightarrow> Inl (KErr ENOENT) | Some d \<Rightarrow> Inr (take len (drop off d)))" for k off len s
    by (simp add: bs_readRange_def bs_block_def Let_def slice_short split: option.splits)
  show "bs_copy k k' s =
      (case bs_block s k of None \<Rightarrow> (Inl (KErr ENOENT), s) | Some d \<Rightarrow> (Inr (), bs_write k' d s))" for k k' s
    by (simp add: bs_copy_def bs_block_def split: option.splits)
qed (simp_all add: bs_write_inv bs_delete_inv)

subsection \<open>Writing into an array in place\<close>

lemma arr_set_blocks [simp]: "bs_blocks (snd (arr_set a src off bs)) = bs_blocks bs"
  "length (bs_heap (snd (arr_set a src off bs))) = length (bs_heap bs)"
  by (auto simp: arr_set_def split: sum.splits)

lemma arr_set_inv: "bs_inv bs \<Longrightarrow> bs_inv (snd (arr_set a src off bs))"
  unfolding bs_inv_def by simp

lemma arr_set_other [simp]: "b \<noteq> a \<Longrightarrow> arr b (snd (arr_set a src off bs)) = arr b bs"
  by (auto simp: arr_set_def arr_def split: sum.splits)

lemma arr_set_fits:
  assumes "off + length src \<le> length (arr a bs)" "a < length (bs_heap bs)"
  shows "fst (arr_set a src off bs) = Inr ()"
    and "length (arr a (snd (arr_set a src off bs))) = length (arr a bs)"
    and "nth0 (arr a (snd (arr_set a src off bs))) i =
      (if off \<le> i \<and> i < off + length src then src ! (i - off) else nth0 (arr a bs) i)"
proof -
  obtain r where r: "u8_set (arr a bs) src off = Inr r" using u8_set_some [OF assms(1)] by blast
  then have "arr a (snd (arr_set a src off bs)) = r" "fst (arr_set a src off bs) = Inr ()"
    using assms(2) by (simp_all add: arr_set_def arr_def)
  then show "fst (arr_set a src off bs) = Inr ()"
    "length (arr a (snd (arr_set a src off bs))) = length (arr a bs)"
    "nth0 (arr a (snd (arr_set a src off bs))) i =
      (if off \<le> i \<and> i < off + length src then src ! (i - off) else nth0 (arr a bs) i)"
    using u8_set_length [OF r] u8_set_nth0 [OF r] by simp_all
qed

text \<open>
  Writing into the array that \<open>read\<close> returned changes the stored block: the aliasing that the file
  system's \<open>pwrite\<close> relies on, and that reaches into its version snapshots.
\<close>

lemma read_aliases_block:
  assumes "bs_inv bs" "bs_read key bs = Inr a" "u8_set (arr a bs) src off = Inr d"
  shows "bs_block (snd (arr_set a src off bs)) key = Some d"
proof -
  have "mget (bs_blocks bs) key = Some a" using assms(2) by (auto simp: bs_read_def split: option.splits)
  then show ?thesis using assms(3) bs_invD1 [OF assms(1)] by (simp add: bs_block_def arr_set_def arr_def)
qed

end
