(* ===== verification/Chunked_VFS.thy ===== *)
theory Chunked_VFS
  imports Memory_Metadata Block_Store Vfs_Interface
begin

section \<open>The chunked file system\<close>

text \<open>
  \<^verbatim>\<open>vfs/chunked-vfs.ts\<close> over the in-memory metadata store and block store. Small files live inline in
  the metadata, larger ones as blocks of \<^verbatim>\<open>chunkSize\<close> bytes; with write buffering, dirty chunks stay in
  memory until a flush; with versioning, every write of a block uses a new key.

  The state \<open>CVfs\<close> holds the metadata store, the block store with its heap of arrays, the write
  buffers (whose chunks are arrays, so they carry addresses) and the number of random draws made so
  far. Every method of the returned object is a function; it takes \<open>now\<close> for \<^verbatim>\<open>Date.now()\<close>. The
  per-inode mutex makes an operation on a file's content atomic, so each operation is one step.
  Offsets, lengths and sizes are natural numbers (the kernel rejects negative ones). An exception
  leaves the state as far as it had been changed.
\<close>

record ChunkedVfsOptions =
  opt_chunkSize :: nat
  opt_inlineThreshold :: nat
  opt_writeBuffering :: bool
  opt_versioning :: bool
  opt_random :: "nat \<Rightarrow> nat"

record InodeWriteBuffer =
  wb_dirtyChunks :: "(nat, addr) jsmap"
  wb_bufferedSize :: nat

record CVfs =
  cv_meta :: MetaStore
  cv_store :: BlockStore
  cv_buffers :: "(nat, InodeWriteBuffer) jsmap"
  cv_draws :: nat

definition DEFAULT_CHUNK_SIZE :: nat where "DEFAULT_CHUNK_SIZE = 4 * 1024 * 1024"
definition DEFAULT_INLINE_THRESHOLD :: nat where "DEFAULT_INLINE_THRESHOLD = 64 * 1024"

definition cv_new :: "int \<Rightarrow> ChunkedVfsOptions \<Rightarrow> CVfs" where
  "cv_new now opts = \<lparr>cv_meta = ms_new now (opt_versioning opts), cv_store = bs_new,
     cv_buffers = [], cv_draws = 0\<rparr>"

abbreviation on_meta :: "(MetaStore \<Rightarrow> MetaStore) \<Rightarrow> CVfs \<Rightarrow> CVfs" where
  "on_meta f st \<equiv> st\<lparr>cv_meta := f (cv_meta st)\<rparr>"

abbreviation on_store :: "(BlockStore \<Rightarrow> BlockStore) \<Rightarrow> CVfs \<Rightarrow> CVfs" where
  "on_store f st \<equiv> st\<lparr>cv_store := f (cv_store st)\<rparr>"

abbreviation upd_inode :: "nat \<Rightarrow> (InodeMeta \<Rightarrow> InodeMeta) \<Rightarrow> CVfs \<Rightarrow> CVfs" where
  "upd_inode ino f st \<equiv> on_meta (updateInode ino f) st"

definition kres :: "'a res \<Rightarrow> exn + 'a" where
  "kres r = (case r of Inl e \<Rightarrow> Inl (KErr e) | Inr x \<Rightarrow> Inr x)"

lemma kres_simps [simp]: "kres (Inl e) = Inl (KErr e)" "kres (Inr x) = Inr x"
  by (simp_all add: kres_def)

subsection \<open>Helpers\<close>

definition splitPath :: "path \<Rightarrow> string list" where
  "splitPath p =
     (if p = '''' \<or> p = ''/'' then []
      else filter (\<lambda>c. 0 < length c)
             (splitOn (CHR ''/'') (if startsWith p ''/'' then drop 1 p else p)))"

definition cv_normalizePath :: "path \<Rightarrow> path" where
  "cv_normalizePath path =
     (if path = '''' then ''/''
      else (let p0 = (if startsWith path ''/'' then path else ''/'' @ path);
                p = collapseSlashes p0
            in if 1 < length p \<and> endsWith p ''/'' then butlast p else p))"

definition inodeMetaToStat :: "InodeMeta \<Rightarrow> VirtualStat" where
  "inodeMetaToStat meta =
     \<lparr>vs_mode = im_mode meta,
      vs_size = (if im_type meta = IT_directory then 4096 else int (im_size meta)),
      vs_isDirectory = (im_type meta = IT_directory),
      vs_isSymbolicLink = (im_type meta = IT_symlink),
      vs_atimeMs = im_atimeMs meta, vs_mtimeMs = im_mtimeMs meta, vs_ctimeMs = im_ctimeMs meta,
      vs_birthtimeMs = im_birthtimeMs meta, vs_ino = im_ino meta, vs_nlink = im_nlink meta,
      vs_uid = im_uid meta, vs_gid = im_gid meta\<rparr>"

definition blockKey :: "nat \<Rightarrow> nat \<Rightarrow> string" where
  "blockKey ino chunkIndex = dec ino @ ''/'' @ dec chunkIndex"

text \<open>
  \<^verbatim>\<open>Math.floor(Math.random() * 36)\<close> is some number below 36: the \<open>n\<close>-th draw is the environment's
  \<open>n\<close>-th number reduced to that range.
\<close>

definition id_chars :: string where
  "id_chars = ''abcdefghijklmnopqrstuvwxyz0123456789''"

definition randomId :: "ChunkedVfsOptions \<Rightarrow> nat \<Rightarrow> string" where
  "randomId opts n = map (\<lambda>i. id_chars ! (opt_random opts (n + i) mod length id_chars)) [0..<12]"

definition versionedBlockKey :: "ChunkedVfsOptions \<Rightarrow> nat \<Rightarrow> nat \<Rightarrow> nat \<Rightarrow> string" where
  "versionedBlockKey opts n ino chunkIndex =
     dec ino @ ''/'' @ dec chunkIndex @ ''/'' @ randomId opts n"

definition makeBlockKey :: "ChunkedVfsOptions \<Rightarrow> nat \<Rightarrow> nat \<Rightarrow> CVfs \<Rightarrow> string \<times> CVfs" where
  "makeBlockKey opts ino chunkIndex st =
     (if opt_versioning opts
      then (versionedBlockKey opts (cv_draws st) ino chunkIndex, st\<lparr>cv_draws := cv_draws st + 12\<rparr>)
      else (blockKey ino chunkIndex, st))"

subsection \<open>Write buffers\<close>

definition getOrCreateBuffer :: "nat \<Rightarrow> nat \<Rightarrow> CVfs \<Rightarrow> InodeWriteBuffer \<times> CVfs" where
  "getOrCreateBuffer ino currentSize st =
     (case mget (cv_buffers st) ino of
        Some buf \<Rightarrow> (buf, st)
      | None \<Rightarrow>
          (let buf = \<lparr>wb_dirtyChunks = [], wb_bufferedSize = currentSize\<rparr>
           in (buf, st\<lparr>cv_buffers := mput ino buf (cv_buffers st)\<rparr>)))"

text \<open>\<^verbatim>\<open>blocks.write(key, chunk); metadata.setChunkKey(ino, ci, key)\<close> under a new key.\<close>

definition put_chunk :: "ChunkedVfsOptions \<Rightarrow> nat \<Rightarrow> nat \<Rightarrow> bytes \<Rightarrow> CVfs \<Rightarrow> CVfs" where
  "put_chunk opts ino ci chunk st =
     (let (key, st1) = makeBlockKey opts ino ci st
      in on_meta (setChunkKey ino ci key) (on_store (bs_write key chunk) st1))"

fun flush_loop :: "ChunkedVfsOptions \<Rightarrow> nat \<Rightarrow> (nat \<times> addr) list \<Rightarrow> CVfs \<Rightarrow> CVfs" where
  "flush_loop opts ino [] st = st"
| "flush_loop opts ino ((ci, a) # rest) st =
     flush_loop opts ino rest (put_chunk opts ino ci (arr a (cv_store st)) st)"

definition flushInode :: "ChunkedVfsOptions \<Rightarrow> nat \<Rightarrow> CVfs \<Rightarrow> CVfs" where
  "flushInode opts ino st =
     (case mget (cv_buffers st) ino of
        None \<Rightarrow> st
      | Some buf \<Rightarrow>
          if wb_dirtyChunks buf = [] then st
          else (let st1 = flush_loop opts ino (wb_dirtyChunks buf) st
                in st1\<lparr>cv_buffers := mput ino (buf\<lparr>wb_dirtyChunks := []\<rparr>) (cv_buffers st1)\<rparr>))"

definition flushAll :: "ChunkedVfsOptions \<Rightarrow> CVfs \<Rightarrow> CVfs" where
  "flushAll opts st = fold (flushInode opts) (mkeys (cv_buffers st)) st"

subsection \<open>Resolving inodes\<close>

definition resolveIno :: "path \<Rightarrow> CVfs \<Rightarrow> exn + nat" where
  "resolveIno p st = kres (resolvePath (cv_normalizePath p) (cv_meta st))"

definition requireInode :: "nat \<Rightarrow> CVfs \<Rightarrow> exn + InodeMeta" where
  "requireInode ino st =
     (case getInode ino (cv_meta st) of None \<Rightarrow> Inl (KErr ENOENT) | Some meta \<Rightarrow> Inr meta)"

definition requireFileIno :: "path \<Rightarrow> CVfs \<Rightarrow> exn + nat \<times> InodeMeta" where
  "requireFileIno p st =
     (case resolveIno p st of
        Inl e \<Rightarrow> Inl e
      | Inr ino \<Rightarrow> (case requireInode ino st of
            Inl e \<Rightarrow> Inl e
          | Inr meta \<Rightarrow>
              if im_type meta = IT_directory then Inl (KErr EISDIR) else Inr (ino, meta)))"

text \<open>
  The sequence that \<open>ensureParents\<close>, \<open>createDir\<close> and both branches of \<open>mkdir\<close> run to make a
  directory: allocate, link, set the link counts.
\<close>

definition dir_attrs :: CreateInodeAttrs where
  "dir_attrs = \<lparr>ca_type = IT_directory, ca_mode = 0x1ED, ca_uid = 0, ca_gid = 0, ca_symlinkTarget = None\<rparr>"

definition make_dir :: "int \<Rightarrow> nat \<Rightarrow> string \<Rightarrow> CVfs \<Rightarrow> (exn + nat) \<times> CVfs" where
  "make_dir now parentIno name st =
     (let (dirIno, m1) = createInode now dir_attrs (cv_meta st);
          (r, m2) = createDentry parentIno name dirIno IT_directory m1
      in case r of
           Inl e \<Rightarrow> (Inl e, st\<lparr>cv_meta := m2\<rparr>)
         | Inr _ \<Rightarrow>
             (let m3 = updateInode dirIno (\<lambda>m. m\<lparr>im_nlink := 2, im_size := 4096\<rparr>) m2;
                  m4 = (case getInode parentIno m3 of
                          None \<Rightarrow> m3
                        | Some pm \<Rightarrow> updateInode parentIno (\<lambda>m. m\<lparr>im_nlink := im_nlink pm + 1\<rparr>) m3)
              in (Inr dirIno, st\<lparr>cv_meta := m4\<rparr>)))"

fun ensure_loop :: "int \<Rightarrow> nat \<Rightarrow> string list \<Rightarrow> CVfs \<Rightarrow> (exn + nat) \<times> CVfs" where
  "ensure_loop now currentIno [] st = (Inr currentIno, st)"
| "ensure_loop now currentIno (component # rest) st =
     (case lookup currentIno component (cv_meta st) of
        Some childIno \<Rightarrow> ensure_loop now childIno rest st
      | None \<Rightarrow>
          (case make_dir now currentIno component st of
             (Inl e, st1) \<Rightarrow> (Inl e, st1)
           | (Inr dirIno, st1) \<Rightarrow> ensure_loop now dirIno rest st1))"

definition ensureParents :: "int \<Rightarrow> path \<Rightarrow> CVfs \<Rightarrow> (exn + nat \<times> string) \<times> CVfs" where
  "ensureParents now p st =
     (let parts = splitPath (cv_normalizePath p)
      in if parts = [] then (Inl (KErr ENOENT), st)
         else (case ensure_loop now 1 (butlast parts) st of
             (Inl e, st1) \<Rightarrow> (Inl e, st1)
           | (Inr parentIno, st1) \<Rightarrow> (Inr (parentIno, last parts), st1)))"

subsection \<open>Reading and writing a file's content\<close>

text \<open>\<^verbatim>\<open>result.set(chunk, ci * chunkSize)\<close> for dirty chunks, and for the blocks that are not dirty.\<close>

fun overlay_dirty :: "nat \<Rightarrow> BlockStore \<Rightarrow> (nat \<times> addr) list \<Rightarrow> bytes \<Rightarrow> exn + bytes" where
  "overlay_dirty chunkSize bs [] result = Inr result"
| "overlay_dirty chunkSize bs ((ci, a) # rest) result =
     (case u8_set result (arr a bs) (ci * chunkSize) of
        Inl e \<Rightarrow> Inl e
      | Inr result' \<Rightarrow> overlay_dirty chunkSize bs rest result')"

fun overlay_blocks ::
  "nat \<Rightarrow> BlockStore \<Rightarrow> (nat, addr) jsmap \<Rightarrow> (nat \<times> string) list \<Rightarrow> bytes \<Rightarrow> exn + bytes" where
  "overlay_blocks chunkSize bs dirty [] result = Inr result"
| "overlay_blocks chunkSize bs dirty ((ci, key) # rest) result =
     (if mhas dirty ci then overlay_blocks chunkSize bs dirty rest result
      else (case bs_read key bs of
          Inl e \<Rightarrow> Inl e
        | Inr a \<Rightarrow>
            (case u8_set result (arr a bs) (ci * chunkSize) of
               Inl e \<Rightarrow> Inl e
             | Inr result' \<Rightarrow> overlay_blocks chunkSize bs dirty rest result')))"

abbreviation inline_bytes :: "InodeMeta \<Rightarrow> bytes" where
  "inline_bytes meta \<equiv> (case im_inlineContent meta of None \<Rightarrow> [] | Some c \<Rightarrow> c)"

text \<open>\<^verbatim>\<open>new Uint8Array(size)\<close> with the inline content in front and the dirty chunks on top.\<close>

definition inline_overlay :: "nat \<Rightarrow> BlockStore \<Rightarrow> InodeMeta \<Rightarrow> InodeWriteBuffer \<Rightarrow> nat \<Rightarrow> exn + bytes" where
  "inline_overlay chunkSize bs meta buf sz =
     (case im_inlineContent meta of
        None \<Rightarrow> overlay_dirty chunkSize bs (wb_dirtyChunks buf) (zeros sz)
      | Some c \<Rightarrow> (case u8_set (zeros sz) c 0 of
            Inl e \<Rightarrow> Inl e
          | Inr r \<Rightarrow> overlay_dirty chunkSize bs (wb_dirtyChunks buf) r))"

definition readInodeContent :: "ChunkedVfsOptions \<Rightarrow> nat \<Rightarrow> InodeMeta \<Rightarrow> CVfs \<Rightarrow> exn + bytes" where
  "readInodeContent opts ino meta st =
     (let cs = opt_chunkSize opts;
          bs = cv_store st;
          buf = mget (cv_buffers st) ino;
          effectiveSize = (case buf of Some b \<Rightarrow> wb_bufferedSize b | None \<Rightarrow> im_size meta)
      in if effectiveSize = 0 then Inr []
         else (case im_storageMode meta of
             SM_inline \<Rightarrow>
               (case buf of
                  None \<Rightarrow> Inr (inline_bytes meta)
                | Some b \<Rightarrow> inline_overlay cs bs meta b effectiveSize)
           | SM_chunked \<Rightarrow>
               (let dirty = (case buf of Some b \<Rightarrow> wb_dirtyChunks b | None \<Rightarrow> [])
                in case overlay_blocks cs bs dirty (getAllChunkKeys ino (cv_meta st)) (zeros effectiveSize) of
                     Inl e \<Rightarrow> Inl e
                   | Inr result \<Rightarrow> overlay_dirty cs bs dirty result)))"

text \<open>
  The loops that cut content into blocks: \<open>numChunks\<close> is \<^verbatim>\<open>Math.ceil(length / chunkSize)\<close>.
\<close>

definition numChunks :: "nat \<Rightarrow> nat \<Rightarrow> nat" where
  "numChunks chunkSize len = (len + chunkSize - 1) div chunkSize"

definition chunk_of :: "nat \<Rightarrow> bytes \<Rightarrow> nat \<Rightarrow> bytes" where
  "chunk_of chunkSize content i =
     u8_slice content (i * chunkSize) (min (i * chunkSize + chunkSize) (length content))"

fun put_chunks :: "ChunkedVfsOptions \<Rightarrow> nat \<Rightarrow> bytes \<Rightarrow> nat list \<Rightarrow> CVfs \<Rightarrow> CVfs" where
  "put_chunks opts ino content [] st = st"
| "put_chunks opts ino content (i # is) st =
     put_chunks opts ino content is (put_chunk opts ino i (chunk_of (opt_chunkSize opts) content i) st)"

text \<open>\<^verbatim>\<open>deleteAllChunks\<close>, then \<^verbatim>\<open>deleteMany\<close> of the keys unless versioning keeps old blocks.\<close>

definition drop_chunks :: "ChunkedVfsOptions \<Rightarrow> nat \<Rightarrow> CVfs \<Rightarrow> CVfs" where
  "drop_chunks opts ino st =
     (let (oldKeys, m) = deleteAllChunks ino (cv_meta st);
          st1 = st\<lparr>cv_meta := m\<rparr>
      in if \<not> opt_versioning opts \<and> oldKeys \<noteq> [] then on_store (bs_deleteMany oldKeys) st1 else st1)"

definition writeInodeContent ::
  "ChunkedVfsOptions \<Rightarrow> int \<Rightarrow> nat \<Rightarrow> bytes \<Rightarrow> InodeMeta \<Rightarrow> CVfs \<Rightarrow> CVfs" where
  "writeInodeContent opts now ino content meta st =
     (let st1 = (if im_storageMode meta = SM_chunked then drop_chunks opts ino st else st)
      in if length content \<le> opt_inlineThreshold opts
         then upd_inode ino (\<lambda>m. m\<lparr>im_storageMode := SM_inline, im_inlineContent := Some content,
                im_size := length content, im_mtimeMs := now, im_ctimeMs := now\<rparr>) st1
         else (let st2 = put_chunks opts ino content
                     [0..<numChunks (opt_chunkSize opts) (length content)] st1
               in upd_inode ino (\<lambda>m. m\<lparr>im_storageMode := SM_chunked, im_inlineContent := None,
                    im_size := length content, im_mtimeMs := now, im_ctimeMs := now\<rparr>) st2))"

definition promoteToChunked :: "ChunkedVfsOptions \<Rightarrow> nat \<Rightarrow> InodeMeta \<Rightarrow> CVfs \<Rightarrow> CVfs" where
  "promoteToChunked opts ino meta st =
     (let data = inline_bytes meta;
          st1 = (if 0 < length data
                 then put_chunks opts ino data [0..<numChunks (opt_chunkSize opts) (length data)] st
                 else st)
      in upd_inode ino (\<lambda>m. m\<lparr>im_storageMode := SM_chunked, im_inlineContent := None\<rparr>) st1)"

definition demoteToInline :: "ChunkedVfsOptions \<Rightarrow> nat \<Rightarrow> bytes \<Rightarrow> CVfs \<Rightarrow> CVfs" where
  "demoteToInline opts ino content st =
     upd_inode ino (\<lambda>m. m\<lparr>im_storageMode := SM_inline, im_inlineContent := Some content\<rparr>)
       (drop_chunks opts ino st)"

subsection \<open>Canonical paths\<close>

text \<open>
  The loop of \<open>realpathWalk\<close> with the parts still to process, the resolved names and the stack of
  their inodes (both with the innermost last). A link increases the counter and every other round
  consumes a part.
\<close>

function realpath_loop ::
  "MetaStore \<Rightarrow> nat \<Rightarrow> string list \<Rightarrow> string list \<Rightarrow> nat list \<Rightarrow> exn + string list" where
  "realpath_loop ms symlinkCount [] resolved inoStack = Inr resolved"
| "realpath_loop ms symlinkCount (name # rest) resolved inoStack =
     (if name = ''.'' \<or> name = '''' then realpath_loop ms symlinkCount rest resolved inoStack
      else if name = ''..'' then
        if 0 < length resolved
        then realpath_loop ms symlinkCount rest (butlast resolved) (butlast inoStack)
        else realpath_loop ms symlinkCount rest resolved inoStack
      else (case lookup (last inoStack) name ms of
          None \<Rightarrow> Inl (KErr ENOENT)
        | Some childIno \<Rightarrow>
            (case getInode childIno ms of
               None \<Rightarrow> Inl (KErr ENOENT)
             | Some childMeta \<Rightarrow>
                 if im_type childMeta = IT_symlink then
                   if SYMLOOP_MAX < Suc symlinkCount then Inl (KErr ELOOP)
                   else (case readSymlink childIno ms of
                       Inl e \<Rightarrow> Inl (KErr e)
                     | Inr target \<Rightarrow>
                         if startsWith target ''/''
                         then realpath_loop ms (Suc symlinkCount) (splitPath target @ rest) [] (take 1 inoStack)
                         else realpath_loop ms (Suc symlinkCount) (splitPath target @ rest) resolved inoStack)
                 else realpath_loop ms symlinkCount rest (resolved @ [name]) (inoStack @ [childIno]))))"
  by pat_completeness auto
termination
  by (relation "measures [\<lambda>(ms, n, ps, r, s). SYMLOOP_MAX - n, \<lambda>(ms, n, ps, r, s). length ps]")
    auto

declare realpath_loop.simps [simp del]

definition realpathWalk :: "path \<Rightarrow> CVfs \<Rightarrow> exn + path" where
  "realpathWalk p st =
     (case realpath_loop (cv_meta st) 0 (splitPath (cv_normalizePath p)) [] [1] of
        Inl e \<Rightarrow> Inl e
      | Inr resolved \<Rightarrow>
          Inr (if length resolved = 0 then ''/'' else ''/'' @ joinWith ''/'' resolved))"

subsection \<open>Whole-file operations\<close>

definition cv_readFile :: "ChunkedVfsOptions \<Rightarrow> int \<Rightarrow> path \<Rightarrow> CVfs \<Rightarrow> (exn + bytes) \<times> CVfs" where
  "cv_readFile opts now p st =
     (case requireFileIno p st of
        Inl e \<Rightarrow> (Inl e, st)
      | Inr (ino, meta) \<Rightarrow>
          (let st1 = upd_inode ino (\<lambda>m. m\<lparr>im_atimeMs := now\<rparr>) st
           in (readInodeContent opts ino meta st1, st1)))"

definition cv_file_attrs :: CreateInodeAttrs where
  "cv_file_attrs = \<lparr>ca_type = IT_file, ca_mode = 0x1A4, ca_uid = 0, ca_gid = 0, ca_symlinkTarget = None\<rparr>"

definition cv_writeFile :: "ChunkedVfsOptions \<Rightarrow> int \<Rightarrow> path \<Rightarrow> bytes \<Rightarrow> CVfs \<Rightarrow> (exn + unit) \<times> CVfs" where
  "cv_writeFile opts now p data st =
     (case ensureParents now p st of
        (Inl e, st1) \<Rightarrow> (Inl e, st1)
      | (Inr (parentIno, name), st1) \<Rightarrow>
          (case lookup parentIno name (cv_meta st1) of
             Some existingIno \<Rightarrow>
               (case requireInode existingIno st1 of
                  Inl e \<Rightarrow> (Inl e, st1)
                | Inr meta \<Rightarrow>
                    (let st2 = st1\<lparr>cv_buffers := mdel existingIno (cv_buffers st1)\<rparr>;
                         st3 = writeInodeContent opts now existingIno data meta st2
                     in (Inr (), upd_inode existingIno (\<lambda>m. m\<lparr>im_nlink := max (im_nlink meta) 1\<rparr>) st3)))
           | None \<Rightarrow>
               (let (newIno, m1) = createInode now cv_file_attrs (cv_meta st1);
                    (r, m2) = createDentry parentIno name newIno IT_file m1
                in case r of
                     Inl e \<Rightarrow> (Inl e, st1\<lparr>cv_meta := m2\<rparr>)
                   | Inr _ \<Rightarrow>
                       (let st2 = upd_inode newIno (\<lambda>m. m\<lparr>im_nlink := 1\<rparr>) (st1\<lparr>cv_meta := m2\<rparr>)
                        in case requireInode newIno st2 of
                             Inl e \<Rightarrow> (Inl e, st2)
                           | Inr newMeta \<Rightarrow> (Inr (), writeInodeContent opts now newIno data newMeta st2)))))"

definition cv_exists :: "path \<Rightarrow> CVfs \<Rightarrow> exn + bool" where
  "cv_exists p st =
     (case resolveIno p st of
        Inr _ \<Rightarrow> Inr True
      | Inl e \<Rightarrow> if e = KErr ENOENT then Inr False else if e = KErr ELOOP then Inr False else Inl e)"

definition cv_stat :: "path \<Rightarrow> CVfs \<Rightarrow> exn + VirtualStat" where
  "cv_stat p st =
     (case resolveIno p st of
        Inl e \<Rightarrow> Inl e
      | Inr ino \<Rightarrow> (case requireInode ino st of
            Inl e \<Rightarrow> Inl e
          | Inr meta \<Rightarrow>
              (let s = inodeMetaToStat meta
               in case mget (cv_buffers st) ino of
                    Some buf \<Rightarrow> if im_type meta \<noteq> IT_directory
                      then Inr (s\<lparr>vs_size := int (wb_bufferedSize buf)\<rparr>) else Inr s
                  | None \<Rightarrow> Inr s)))"

subsection \<open>Positional input and output\<close>

text \<open>One round of the read loop: where chunk \<open>ci\<close> meets the range \<open>[offset, offset + len)\<close>.\<close>

definition readStart :: "nat \<Rightarrow> nat \<Rightarrow> nat \<Rightarrow> nat" where
  "readStart chunkSize offset ci = max offset (ci * chunkSize) - ci * chunkSize"

definition readEnd :: "nat \<Rightarrow> nat \<Rightarrow> nat \<Rightarrow> nat \<Rightarrow> nat" where
  "readEnd chunkSize offset len ci = min (offset + len) (ci * chunkSize + chunkSize) - ci * chunkSize"

fun pread_loop ::
  "nat \<Rightarrow> nat \<Rightarrow> nat \<Rightarrow> nat \<Rightarrow> (nat, addr) jsmap \<Rightarrow> CVfs \<Rightarrow> nat list \<Rightarrow> bytes \<Rightarrow> nat \<Rightarrow> exn + bytes" where
  "pread_loop chunkSize ino offset len dirty st [] result written = Inr result"
| "pread_loop chunkSize ino offset len dirty st (ci # cis) result written =
     (let rs = readStart chunkSize offset ci;
          readLen = readEnd chunkSize offset len ci - rs
      in case mget dirty ci of
           Some a \<Rightarrow>
             (case u8_set result (u8_slice (arr a (cv_store st)) rs (rs + readLen)) written of
                Inl e \<Rightarrow> Inl e
              | Inr r \<Rightarrow> pread_loop chunkSize ino offset len dirty st cis r (written + readLen))
         | None \<Rightarrow>
             (case getChunkKey ino ci (cv_meta st) of
                None \<Rightarrow> pread_loop chunkSize ino offset len dirty st cis result (written + readLen)
              | Some key \<Rightarrow>
                  (case bs_readRange key rs readLen (cv_store st) of
                     Inl e \<Rightarrow> Inl e
                   | Inr data \<Rightarrow>
                       (case u8_set result data written of
                          Inl e \<Rightarrow> Inl e
                        | Inr r \<Rightarrow> pread_loop chunkSize ino offset len dirty st cis r (written + readLen)))))"

definition cv_pread :: "ChunkedVfsOptions \<Rightarrow> path \<Rightarrow> nat \<Rightarrow> nat \<Rightarrow> CVfs \<Rightarrow> exn + bytes" where
  "cv_pread opts p offset len st =
     (case requireFileIno p st of
        Inl e \<Rightarrow> Inl e
      | Inr (ino, meta) \<Rightarrow>
          (let cs = opt_chunkSize opts;
               buf = mget (cv_buffers st) ino;
               effectiveSize = (case buf of Some b \<Rightarrow> wb_bufferedSize b | None \<Rightarrow> im_size meta)
           in if effectiveSize \<le> offset \<or> len = 0 then Inr []
              else (let clampedLen = min len (effectiveSize - offset)
                    in case im_storageMode meta of
                         SM_inline \<Rightarrow>
                           (case buf of
                              None \<Rightarrow> Inr (u8_slice (inline_bytes meta) offset (offset + clampedLen))
                            | Some b \<Rightarrow>
                                (case inline_overlay cs (cv_store st) meta b effectiveSize of
                                   Inl e \<Rightarrow> Inl e
                                 | Inr full \<Rightarrow> Inr (u8_slice full offset (offset + clampedLen))))
                       | SM_chunked \<Rightarrow>
                           pread_loop cs ino offset clampedLen
                             (case buf of Some b \<Rightarrow> wb_dirtyChunks b | None \<Rightarrow> []) st
                             [offset div cs..<Suc ((offset + clampedLen - 1) div cs)]
                             (zeros clampedLen) 0)))"

text \<open>
  One round of the write loops. \<open>expanded\<close>: an array shorter than \<^verbatim>\<open>writeEnd\<close> is replaced by a longer
  copy, otherwise the array itself is used, and written to in place.
\<close>

definition writeStart :: "nat \<Rightarrow> nat \<Rightarrow> nat \<Rightarrow> nat" where
  "writeStart chunkSize offset ci = max offset (ci * chunkSize) - ci * chunkSize"

definition writeEnd :: "nat \<Rightarrow> nat \<Rightarrow> nat \<Rightarrow> nat \<Rightarrow> nat" where
  "writeEnd chunkSize offset len ci = min (offset + len) (ci * chunkSize + chunkSize) - ci * chunkSize"

definition write_part :: "nat \<Rightarrow> nat \<Rightarrow> bytes \<Rightarrow> nat \<Rightarrow> bytes" where
  "write_part chunkSize offset data ci =
     (let dataStart = ci * chunkSize - offset
      in u8_slice data dataStart
           (dataStart + (writeEnd chunkSize offset (length data) ci - writeStart chunkSize offset ci)))"

definition expanded :: "addr \<Rightarrow> nat \<Rightarrow> BlockStore \<Rightarrow> addr \<times> BlockStore" where
  "expanded a we bs =
     (if length (arr a bs) < we then bs_alloc (arr a bs @ zeros (we - length (arr a bs))) bs else (a, bs))"

text \<open>The stored block of a chunk, expanded, or a new array for a hole.\<close>

definition load_chunk :: "nat \<Rightarrow> nat \<Rightarrow> nat \<Rightarrow> CVfs \<Rightarrow> (exn + addr) \<times> CVfs" where
  "load_chunk ino ci we st =
     (case getChunkKey ino ci (cv_meta st) of
        Some existingKey \<Rightarrow>
          (case bs_read existingKey (cv_store st) of
             Inl e \<Rightarrow> (Inl e, st)
           | Inr a \<Rightarrow> (let (a', bs) = expanded a we (cv_store st) in (Inr a', st\<lparr>cv_store := bs\<rparr>)))
      | None \<Rightarrow> (let (a, bs) = bs_alloc (zeros we) (cv_store st) in (Inr a, st\<lparr>cv_store := bs\<rparr>)))"

definition pwrite_chunk_direct ::
  "ChunkedVfsOptions \<Rightarrow> nat \<Rightarrow> nat \<Rightarrow> bytes \<Rightarrow> nat \<Rightarrow> CVfs \<Rightarrow> (exn + unit) \<times> CVfs" where
  "pwrite_chunk_direct opts ino offset data ci st =
     (let cs = opt_chunkSize opts;
          (key, st1) = makeBlockKey opts ino ci st
      in case load_chunk ino ci (writeEnd cs offset (length data) ci) st1 of
           (Inl e, st2) \<Rightarrow> (Inl e, st2)
         | (Inr a, st2) \<Rightarrow>
             (case arr_set a (write_part cs offset data ci) (writeStart cs offset ci) (cv_store st2) of
                (Inl e, bs) \<Rightarrow> (Inl e, st2\<lparr>cv_store := bs\<rparr>)
              | (Inr _, bs) \<Rightarrow>
                  (Inr (), on_meta (setChunkKey ino ci key)
                     (st2\<lparr>cv_store := bs_write key (arr a bs) bs\<rparr>))))"

definition load_dirty :: "nat \<Rightarrow> nat \<Rightarrow> nat \<Rightarrow> InodeWriteBuffer \<Rightarrow> CVfs \<Rightarrow> (exn + addr) \<times> CVfs" where
  "load_dirty ino ci we wb st =
     (case mget (wb_dirtyChunks wb) ci of
        Some a \<Rightarrow> (let (a', bs) = expanded a we (cv_store st) in (Inr a', st\<lparr>cv_store := bs\<rparr>))
      | None \<Rightarrow> load_chunk ino ci we st)"

definition pwrite_chunk_buffered ::
  "ChunkedVfsOptions \<Rightarrow> nat \<Rightarrow> nat \<Rightarrow> bytes \<Rightarrow> nat \<Rightarrow> CVfs \<Rightarrow> (exn + unit) \<times> CVfs" where
  "pwrite_chunk_buffered opts ino offset data ci st =
     (case mget (cv_buffers st) ino of
        None \<Rightarrow> (Inr (), st)
      | Some wb \<Rightarrow>
          (let cs = opt_chunkSize opts;
               we = writeEnd cs offset (length data) ci
           in case load_dirty ino ci we wb st of
                (Inl e, st1) \<Rightarrow> (Inl e, st1)
              | (Inr a, st1) \<Rightarrow>
                  (case arr_set a (write_part cs offset data ci) (writeStart cs offset ci) (cv_store st1) of
                     (Inl e, bs) \<Rightarrow> (Inl e, st1\<lparr>cv_store := bs\<rparr>)
                   | (Inr _, bs) \<Rightarrow>
                       (Inr (), st1\<lparr>cv_store := bs, cv_buffers :=
                          mput ino (wb\<lparr>wb_dirtyChunks := mput ci a (wb_dirtyChunks wb)\<rparr>) (cv_buffers st1)\<rparr>))))"

fun each_chunk :: "(nat \<Rightarrow> CVfs \<Rightarrow> (exn + unit) \<times> CVfs) \<Rightarrow> nat list \<Rightarrow> CVfs \<Rightarrow> (exn + unit) \<times> CVfs" where
  "each_chunk body [] st = (Inr (), st)"
| "each_chunk body (ci # cis) st =
     (case body ci st of
        (Inl e, st1) \<Rightarrow> (Inl e, st1)
      | (Inr _, st1) \<Rightarrow> each_chunk body cis st1)"

text \<open>The buffered promotion: the inline content becomes dirty chunks.\<close>

fun buffer_chunks :: "ChunkedVfsOptions \<Rightarrow> nat \<Rightarrow> bytes \<Rightarrow> nat list \<Rightarrow> CVfs \<Rightarrow> CVfs" where
  "buffer_chunks opts ino data [] st = st"
| "buffer_chunks opts ino data (i # is) st =
     (case mget (cv_buffers st) ino of
        None \<Rightarrow> st
      | Some wb \<Rightarrow>
          (let (a, bs) = bs_alloc (chunk_of (opt_chunkSize opts) data i) (cv_store st)
           in buffer_chunks opts ino data is
                (st\<lparr>cv_store := bs, cv_buffers :=
                   mput ino (wb\<lparr>wb_dirtyChunks := mput i a (wb_dirtyChunks wb)\<rparr>) (cv_buffers st)\<rparr>)))"

definition promote_buffered :: "ChunkedVfsOptions \<Rightarrow> nat \<Rightarrow> nat \<Rightarrow> InodeMeta \<Rightarrow> CVfs \<Rightarrow> CVfs" where
  "promote_buffered opts ino currentSize meta st =
     (let inlineData = inline_bytes meta;
          st1 = snd (getOrCreateBuffer ino currentSize st);
          st2 = (if 0 < length inlineData
                 then buffer_chunks opts ino inlineData
                        [0..<numChunks (opt_chunkSize opts) (length inlineData)] st1
                 else st1)
      in upd_inode ino (\<lambda>m. m\<lparr>im_storageMode := SM_chunked, im_inlineContent := None\<rparr>) st2)"

definition set_bufferedSize :: "nat \<Rightarrow> nat \<Rightarrow> CVfs \<Rightarrow> CVfs" where
  "set_bufferedSize ino newSize st =
     (case mget (cv_buffers st) ino of
        None \<Rightarrow> st
      | Some wb \<Rightarrow> st\<lparr>cv_buffers := mput ino (wb\<lparr>wb_bufferedSize := newSize\<rparr>) (cv_buffers st)\<rparr>)"

definition pwrite_chunks ::
  "ChunkedVfsOptions \<Rightarrow> int \<Rightarrow> nat \<Rightarrow> nat \<Rightarrow> nat \<Rightarrow> nat \<Rightarrow> bytes \<Rightarrow> CVfs \<Rightarrow> (exn + unit) \<times> CVfs" where
  "pwrite_chunks opts now ino currentSize newSize offset data st =
     (let cs = opt_chunkSize opts;
          cis = [offset div cs..<Suc ((offset + length data - 1) div cs)];
          touch = (\<lambda>m. m\<lparr>im_size := newSize, im_mtimeMs := now, im_ctimeMs := now\<rparr>)
      in if opt_writeBuffering opts
         then (case each_chunk (pwrite_chunk_buffered opts ino offset data) cis
                      (snd (getOrCreateBuffer ino currentSize st)) of
             (Inl e, st2) \<Rightarrow> (Inl e, st2)
           | (Inr _, st2) \<Rightarrow>
               (Inr (), upd_inode ino touch
                  (set_bufferedSize ino newSize st2)))
         else (case each_chunk (pwrite_chunk_direct opts ino offset data) cis st of
             (Inl e, st2) \<Rightarrow> (Inl e, st2)
           | (Inr _, st2) \<Rightarrow> (Inr (), upd_inode ino touch st2)))"

definition cv_pwrite :: "ChunkedVfsOptions \<Rightarrow> int \<Rightarrow> path \<Rightarrow> nat \<Rightarrow> bytes \<Rightarrow> CVfs \<Rightarrow> (exn + unit) \<times> CVfs" where
  "cv_pwrite opts now p offset data st =
     (case resolveIno p st of
        Inl e \<Rightarrow> (Inl e, st)
      | Inr ino \<Rightarrow>
          if data = [] then (Inr (), st)
          else (case requireInode ino st of
              Inl e \<Rightarrow> (Inl e, st)
            | Inr meta \<Rightarrow>
                if im_type meta = IT_directory then (Inl (KErr EISDIR), st)
                else
                  (let buf = mget (cv_buffers st) ino;
                       currentSize = (case buf of Some b \<Rightarrow> wb_bufferedSize b | None \<Rightarrow> im_size meta);
                       newSize = max currentSize (offset + length data)
                   in case im_storageMode meta of
                        SM_chunked \<Rightarrow> pwrite_chunks opts now ino currentSize newSize offset data st
                      | SM_inline \<Rightarrow>
                          if newSize \<le> opt_inlineThreshold opts then
                            (case u8_set (zeros newSize) (inline_bytes meta) 0 of
                               Inl e \<Rightarrow> (Inl e, st)
                             | Inr content0 \<Rightarrow>
                                 (case u8_set content0 data offset of
                                    Inl e \<Rightarrow> (Inl e, st)
                                  | Inr content \<Rightarrow>
                                      (Inr (), upd_inode ino (\<lambda>m. m\<lparr>im_inlineContent := Some content,
                                         im_size := newSize, im_mtimeMs := now, im_ctimeMs := now\<rparr>) st)))
                          else if \<not> opt_writeBuffering opts
                          then pwrite_chunks opts now ino currentSize newSize offset data
                                 (promoteToChunked opts ino meta st)
                          else pwrite_chunks opts now ino currentSize newSize offset data
                                 (promote_buffered opts ino currentSize meta st))))"

subsection \<open>Truncation\<close>

text \<open>The chunked shrink to a positive length: cut the chunk map, cut the last block, demote.\<close>

definition drop_chunks_from :: "ChunkedVfsOptions \<Rightarrow> nat \<Rightarrow> nat \<Rightarrow> CVfs \<Rightarrow> CVfs" where
  "drop_chunks_from opts ino startIndex st =
     (let (deletedKeys, m) = deleteChunksFrom ino startIndex (cv_meta st);
          st1 = st\<lparr>cv_meta := m\<rparr>
      in if \<not> opt_versioning opts \<and> deletedKeys \<noteq> []
         then on_store (bs_deleteMany deletedKeys) st1 else st1)"

definition shrink_chunks :: "ChunkedVfsOptions \<Rightarrow> nat \<Rightarrow> nat \<Rightarrow> CVfs \<Rightarrow> (exn + unit) \<times> CVfs" where
  "shrink_chunks opts ino len st =
     (let cs = opt_chunkSize opts;
          lastChunkIndex = (len - 1) div cs;
          st2 = drop_chunks_from opts ino (lastChunkIndex + 1) st;
          lastChunkOffset = len mod cs
      in if 0 < lastChunkOffset
         then (case getChunkKey ino lastChunkIndex (cv_meta st2) of
             None \<Rightarrow> (Inr (), st2)
           | Some existingKey \<Rightarrow>
               (case bs_read existingKey (cv_store st2) of
                  Inl e \<Rightarrow> (Inl e, st2)
                | Inr a \<Rightarrow>
                    if lastChunkOffset < length (arr a (cv_store st2))
                    then (Inr (), put_chunk opts ino lastChunkIndex
                            (u8_slice (arr a (cv_store st2)) 0 lastChunkOffset) st2)
                    else (Inr (), st2)))
         else (Inr (), st2))"

definition cv_truncate :: "ChunkedVfsOptions \<Rightarrow> int \<Rightarrow> path \<Rightarrow> nat \<Rightarrow> CVfs \<Rightarrow> (exn + unit) \<times> CVfs" where
  "cv_truncate opts now p len st =
     (case resolveIno p st of
        Inl e \<Rightarrow> (Inl e, st)
      | Inr ino \<Rightarrow> (case requireInode ino st of
            Inl e \<Rightarrow> (Inl e, st)
          | Inr meta \<Rightarrow>
              if im_type meta = IT_directory then (Inl (KErr EISDIR), st)
              else
                (let buf = mget (cv_buffers st) ino;
                     currentSize = (case buf of Some b \<Rightarrow> wb_bufferedSize b | None \<Rightarrow> im_size meta);
                     touch = (\<lambda>m. m\<lparr>im_size := len, im_mtimeMs := now, im_ctimeMs := now\<rparr>)
                 in if len = currentSize then (Inr (), st)
                    else
                      (let st0 = (case buf of
                                    Some b \<Rightarrow> if wb_dirtyChunks b \<noteq> [] then flushInode opts ino st else st
                                  | None \<Rightarrow> st);
                           st1 = st0\<lparr>cv_buffers := mdel ino (cv_buffers st0)\<rparr>
                       in if len < currentSize then
                            (case im_storageMode meta of
                               SM_inline \<Rightarrow>
                                 (Inr (), upd_inode ino (\<lambda>m. touch (m\<lparr>im_inlineContent :=
                                    Some (if len = 0 then [] else u8_slice (inline_bytes meta) 0 len)\<rparr>)) st1)
                             | SM_chunked \<Rightarrow>
                                 if len = 0 then
                                   (Inr (), upd_inode ino (\<lambda>m. touch (m\<lparr>im_storageMode := SM_inline,
                                      im_inlineContent := Some []\<rparr>)) (drop_chunks opts ino st1))
                                 else
                                   (case shrink_chunks opts ino len st1 of
                                      (Inl e, st2) \<Rightarrow> (Inl e, st2)
                                    | (Inr _, st2) \<Rightarrow>
                                        if len \<le> opt_inlineThreshold opts then
                                          (case overlay_blocks (opt_chunkSize opts) (cv_store st2) []
                                                  (getAllChunkKeys ino (cv_meta st2)) (zeros len) of
                                             Inl e \<Rightarrow> (Inl e, st2)
                                           | Inr content \<Rightarrow>
                                               (Inr (), upd_inode ino touch (demoteToInline opts ino content st2)))
                                        else (Inr (), upd_inode ino touch st2)))
                          else
                            (case im_storageMode meta of
                               SM_inline \<Rightarrow>
                                 if len \<le> opt_inlineThreshold opts then
                                   (case u8_set (zeros len) (inline_bytes meta) 0 of
                                      Inl e \<Rightarrow> (Inl e, st1)
                                    | Inr content \<Rightarrow>
                                        (Inr (), upd_inode ino (\<lambda>m. touch (m\<lparr>im_inlineContent := Some content\<rparr>)) st1))
                                 else (Inr (), upd_inode ino touch (promoteToChunked opts ino meta st1))
                             | SM_chunked \<Rightarrow> (Inr (), upd_inode ino touch st1))))))"

subsection \<open>Directories\<close>

definition requireDir :: "path \<Rightarrow> CVfs \<Rightarrow> exn + nat" where
  "requireDir p st =
     (case resolveIno p st of
        Inl e \<Rightarrow> Inl e
      | Inr ino \<Rightarrow> (case requireInode ino st of
            Inl e \<Rightarrow> Inl e
          | Inr meta \<Rightarrow> if im_type meta \<noteq> IT_directory then Inl (KErr ENOTDIR) else Inr ino))"

definition cv_readDir :: "path \<Rightarrow> CVfs \<Rightarrow> exn + string list" where
  "cv_readDir p st =
     (case requireDir p st of Inl e \<Rightarrow> Inl e | Inr ino \<Rightarrow> Inr (map di_name (listDir ino (cv_meta st))))"

definition dir_entry_view :: "DentryInfo \<Rightarrow> VirtualDirEntry" where
  "dir_entry_view e = \<lparr>vd_name = di_name e, vd_isDirectory = (di_type e = IT_directory),
     vd_isSymbolicLink = (di_type e = IT_symlink), vd_ino = Some (di_ino e)\<rparr>"

definition cv_readDirWithTypes :: "path \<Rightarrow> CVfs \<Rightarrow> exn + VirtualDirEntry list" where
  "cv_readDirWithTypes p st =
     (case requireDir p st of
        Inl e \<Rightarrow> Inl e
      | Inr ino \<Rightarrow> Inr (map dir_entry_view (listDir ino (cv_meta st))))"

definition cv_readDirStat :: "path \<Rightarrow> CVfs \<Rightarrow> exn + (VirtualDirEntry \<times> VirtualStat) list" where
  "cv_readDirStat p st =
     (case requireDir p st of
        Inl e \<Rightarrow> Inl e
      | Inr ino \<Rightarrow>
          Inr (map (\<lambda>(e, m). (dir_entry_view e, inodeMetaToStat m)) (listDirWithStats ino (cv_meta st))))"

definition cv_parent :: "path \<Rightarrow> CVfs \<Rightarrow> exn + nat \<times> string" where
  "cv_parent normalized st = kres (resolveParentPath normalized (cv_meta st))"

definition unit_res :: "(exn + 'a) \<times> CVfs \<Rightarrow> (exn + unit) \<times> CVfs" where
  "unit_res r = (case fst r of Inl e \<Rightarrow> (Inl e, snd r) | Inr _ \<Rightarrow> (Inr (), snd r))"

definition cv_createDir :: "int \<Rightarrow> path \<Rightarrow> CVfs \<Rightarrow> (exn + unit) \<times> CVfs" where
  "cv_createDir now p st =
     (case cv_parent (cv_normalizePath p) st of
        Inl e \<Rightarrow> (Inl e, st)
      | Inr (parentIno, name) \<Rightarrow>
          if lookup parentIno name (cv_meta st) \<noteq> None then (Inl (KErr EEXIST), st)
          else unit_res (make_dir now parentIno name st))"

fun mkdir_parent :: "MetaStore \<Rightarrow> nat \<Rightarrow> string list \<Rightarrow> exn + nat" where
  "mkdir_parent ms parentIno [] = Inr parentIno"
| "mkdir_parent ms parentIno (part # parts) =
     (case lookup parentIno part ms of
        None \<Rightarrow> Inl (KErr ENOENT)
      | Some childIno \<Rightarrow> mkdir_parent ms childIno parts)"

definition cv_mkdir :: "int \<Rightarrow> path \<Rightarrow> bool \<Rightarrow> CVfs \<Rightarrow> (exn + unit) \<times> CVfs" where
  "cv_mkdir now p recursive st =
     (let parts = splitPath (cv_normalizePath p)
      in if \<not> recursive then
           if parts = [] then (Inl (KErr EEXIST), st)
           else (case mkdir_parent (cv_meta st) 1 (butlast parts) of
               Inl e \<Rightarrow> (Inl e, st)
             | Inr parentIno \<Rightarrow>
                 if lookup parentIno (last parts) (cv_meta st) \<noteq> None then (Inl (KErr EEXIST), st)
                 else unit_res (make_dir now parentIno (last parts) st))
         else unit_res (ensure_loop now 1 parts st))"

text \<open>The link count of a directory that loses (or gains) a child directory.\<close>

definition add_nlink :: "nat \<Rightarrow> int \<Rightarrow> MetaStore \<Rightarrow> MetaStore" where
  "add_nlink ino d ms =
     (case getInode ino ms of
        None \<Rightarrow> ms
      | Some pm \<Rightarrow> updateInode ino (\<lambda>m. m\<lparr>im_nlink := im_nlink pm + d\<rparr>) ms)"

definition cv_removeDir :: "path \<Rightarrow> CVfs \<Rightarrow> (exn + unit) \<times> CVfs" where
  "cv_removeDir p st =
     (let normalized = cv_normalizePath p
      in if normalized = ''/'' then (Inl (KErr EPERM), st)
         else (case cv_parent normalized st of
             Inl e \<Rightarrow> (Inl e, st)
           | Inr (parentIno, name) \<Rightarrow>
               (case lookup parentIno name (cv_meta st) of
                  None \<Rightarrow> (Inl (KErr ENOENT), st)
                | Some childIno \<Rightarrow>
                    (case requireInode childIno st of
                       Inl e \<Rightarrow> (Inl e, st)
                     | Inr childMeta \<Rightarrow>
                         if im_type childMeta \<noteq> IT_directory then (Inl (KErr ENOTDIR), st)
                         else if listDir childIno (cv_meta st) \<noteq> [] then (Inl (KErr ENOTEMPTY), st)
                         else (Inr (), st\<lparr>cv_meta := add_nlink parentIno (- 1)
                                (deleteInode childIno (removeDentry parentIno name (cv_meta st)))\<rparr>)))))"

subsection \<open>Names and links\<close>

text \<open>
  Unlinking: the entry is removed, the link count decremented, and at zero the blocks and the inode
  go. \<open>rename\<close> does this to a file or link it replaces, without dropping its write buffer.
\<close>

definition unlink_inode :: "ChunkedVfsOptions \<Rightarrow> int \<Rightarrow> bool \<Rightarrow> nat \<Rightarrow> string \<Rightarrow> nat \<Rightarrow> InodeMeta \<Rightarrow> CVfs \<Rightarrow> CVfs" where
  "unlink_inode opts now dropBuffer parentIno name ino meta st =
     (let st1 = on_meta (removeDentry parentIno name) st;
          newNlink = im_nlink meta - 1
      in if newNlink \<le> 0 then
           (let st2 = (if im_storageMode meta = SM_chunked then drop_chunks opts ino st1 else st1);
                st3 = (if dropBuffer then st2\<lparr>cv_buffers := mdel ino (cv_buffers st2)\<rparr> else st2)
            in on_meta (deleteInode ino) st3)
         else upd_inode ino (\<lambda>m. m\<lparr>im_nlink := newNlink, im_ctimeMs := now\<rparr>) st1)"

definition rename_replace ::
  "ChunkedVfsOptions \<Rightarrow> int \<Rightarrow> nat \<Rightarrow> string \<Rightarrow> nat \<Rightarrow> CVfs \<Rightarrow> (exn + unit) \<times> CVfs" where
  "rename_replace opts now dstParent dstName existingDstIno st =
     (case requireInode existingDstIno st of
        Inl e \<Rightarrow> (Inl e, st)
      | Inr dstMeta \<Rightarrow>
          if im_type dstMeta = IT_directory then
            if listDir existingDstIno (cv_meta st) \<noteq> [] then (Inl (KErr ENOTEMPTY), st)
            else (Inr (), st\<lparr>cv_meta := add_nlink dstParent (- 1)
                   (deleteInode existingDstIno (removeDentry dstParent dstName (cv_meta st)))\<rparr>)
          else (Inr (), unlink_inode opts now False dstParent dstName existingDstIno dstMeta st))"

definition cv_rename :: "ChunkedVfsOptions \<Rightarrow> int \<Rightarrow> path \<Rightarrow> path \<Rightarrow> CVfs \<Rightarrow> (exn + unit) \<times> CVfs" where
  "cv_rename opts now oldPath newPath st =
     (let oldNorm = cv_normalizePath oldPath;
          newNorm = cv_normalizePath newPath
      in if oldNorm = newNorm then (Inr (), st)
         else (case cv_parent oldNorm st of
             Inl e \<Rightarrow> (Inl e, st)
           | Inr (srcParent, srcName) \<Rightarrow>
               (case cv_parent newNorm st of
                  Inl e \<Rightarrow> (Inl e, st)
                | Inr (dstParent, dstName) \<Rightarrow>
                    (case lookup srcParent srcName (cv_meta st) of
                       None \<Rightarrow> (Inl (KErr ENOENT), st)
                     | Some srcIno \<Rightarrow>
                         (case requireInode srcIno st of
                            Inl e \<Rightarrow> (Inl e, st)
                          | Inr srcMeta \<Rightarrow>
                              (case (case lookup dstParent dstName (cv_meta st) of
                                       None \<Rightarrow> (Inr (), st)
                                     | Some existingDstIno \<Rightarrow>
                                         rename_replace opts now dstParent dstName existingDstIno st) of
                                 (Inl e, st1) \<Rightarrow> (Inl e, st1)
                               | (Inr _, st1) \<Rightarrow>
                                   (let st2 = on_meta (renameDentry srcParent srcName dstParent dstName) st1
                                    in (Inr (),
                                        if im_type srcMeta = IT_directory \<and> srcParent \<noteq> dstParent
                                        then on_meta (add_nlink dstParent 1)
                                               (on_meta (add_nlink srcParent (- 1)) st2)
                                        else st2)))))))) "

definition cv_removeFile :: "ChunkedVfsOptions \<Rightarrow> int \<Rightarrow> path \<Rightarrow> CVfs \<Rightarrow> (exn + unit) \<times> CVfs" where
  "cv_removeFile opts now p st =
     (case cv_parent (cv_normalizePath p) st of
        Inl e \<Rightarrow> (Inl e, st)
      | Inr (parentIno, name) \<Rightarrow>
          (case lookup parentIno name (cv_meta st) of
             None \<Rightarrow> (Inl (KErr ENOENT), st)
           | Some childIno \<Rightarrow>
               (case requireInode childIno st of
                  Inl e \<Rightarrow> (Inl e, st)
                | Inr childMeta \<Rightarrow>
                    if im_type childMeta = IT_directory then (Inl (KErr EISDIR), st)
                    else (Inr (), unlink_inode opts now True parentIno name childIno childMeta st))))"

definition cv_realpath :: "path \<Rightarrow> CVfs \<Rightarrow> exn + path" where
  "cv_realpath p st = realpathWalk p st"

text \<open>\<^verbatim>\<open>new TextEncoder().encode(target).byteLength\<close> for code points below 256.\<close>

definition utf8_length :: "string \<Rightarrow> nat" where
  "utf8_length s = sum_list (map (\<lambda>c. if (of_char c :: nat) < 128 then 1 else 2) s)"

definition cv_symlink :: "int \<Rightarrow> string \<Rightarrow> path \<Rightarrow> CVfs \<Rightarrow> (exn + unit) \<times> CVfs" where
  "cv_symlink now target linkPath st =
     (case cv_parent (cv_normalizePath linkPath) st of
        Inl e \<Rightarrow> (Inl e, st)
      | Inr (parentIno, name) \<Rightarrow>
          if lookup parentIno name (cv_meta st) \<noteq> None then (Inl (KErr EEXIST), st)
          else
            (let (symlinkIno, m1) = createInode now \<lparr>ca_type = IT_symlink, ca_mode = 0x1FF, ca_uid = 0,
                   ca_gid = 0, ca_symlinkTarget = Some target\<rparr> (cv_meta st);
                 (r, m2) = createDentry parentIno name symlinkIno IT_symlink m1
             in case r of
                  Inl e \<Rightarrow> (Inl e, st\<lparr>cv_meta := m2\<rparr>)
                | Inr _ \<Rightarrow> (Inr (), st\<lparr>cv_meta :=
                    updateInode symlinkIno (\<lambda>m. m\<lparr>im_nlink := 1, im_size := utf8_length target\<rparr>) m2\<rparr>)))"

definition require_child :: "path \<Rightarrow> CVfs \<Rightarrow> exn + nat \<times> InodeMeta" where
  "require_child p st =
     (case cv_parent (cv_normalizePath p) st of
        Inl e \<Rightarrow> Inl e
      | Inr (parentIno, name) \<Rightarrow>
          (case lookup parentIno name (cv_meta st) of
             None \<Rightarrow> Inl (KErr ENOENT)
           | Some childIno \<Rightarrow> (case requireInode childIno st of
                 Inl e \<Rightarrow> Inl e
               | Inr childMeta \<Rightarrow> Inr (childIno, childMeta))))"

definition cv_readlink :: "path \<Rightarrow> CVfs \<Rightarrow> exn + string" where
  "cv_readlink p st =
     (case require_child p st of
        Inl e \<Rightarrow> Inl e
      | Inr (childIno, childMeta) \<Rightarrow>
          if im_type childMeta \<noteq> IT_symlink then Inl (KErr EINVAL)
          else kres (readSymlink childIno (cv_meta st)))"

definition cv_lstat :: "path \<Rightarrow> CVfs \<Rightarrow> exn + VirtualStat" where
  "cv_lstat p st =
     (case require_child p st of
        Inl e \<Rightarrow> Inl e
      | Inr (childIno, childMeta) \<Rightarrow> Inr (inodeMetaToStat childMeta))"

definition cv_link :: "path \<Rightarrow> path \<Rightarrow> CVfs \<Rightarrow> (exn + unit) \<times> CVfs" where
  "cv_link oldPath newPath st =
     (case resolveIno oldPath st of
        Inl e \<Rightarrow> (Inl e, st)
      | Inr srcIno \<Rightarrow>
          (case requireInode srcIno st of
             Inl e \<Rightarrow> (Inl e, st)
           | Inr srcMeta \<Rightarrow>
               if im_type srcMeta = IT_directory then (Inl (KErr EPERM), st)
               else
                 (case cv_parent (cv_normalizePath newPath) st of
                    Inl e \<Rightarrow> (Inl e, st)
                  | Inr (parentIno, name) \<Rightarrow>
                      if lookup parentIno name (cv_meta st) \<noteq> None then (Inl (KErr EEXIST), st)
                      else
                        (let (r, m1) = createDentry parentIno name srcIno (im_type srcMeta) (cv_meta st)
                         in case r of
                              Inl e \<Rightarrow> (Inl e, st\<lparr>cv_meta := m1\<rparr>)
                            | Inr _ \<Rightarrow> (Inr (), st\<lparr>cv_meta :=
                                updateInode srcIno (\<lambda>m. m\<lparr>im_nlink := im_nlink srcMeta + 1\<rparr>) m1\<rparr>)))))"

subsection \<open>Permissions, times, flushing, copying\<close>

definition cv_chmod :: "int \<Rightarrow> path \<Rightarrow> u32 \<Rightarrow> CVfs \<Rightarrow> (exn + unit) \<times> CVfs" where
  "cv_chmod now p mode st =
     (case resolveIno p st of
        Inl e \<Rightarrow> (Inl e, st)
      | Inr ino \<Rightarrow> (case requireInode ino st of
            Inl e \<Rightarrow> (Inl e, st)
          | Inr meta \<Rightarrow>
              (let callerTypeBits = mode AND 0xF000;
                   newMode = (if callerTypeBits \<noteq> 0 then mode
                              else (im_mode meta AND 0xF000) OR (mode AND 0xFFF))
               in (Inr (), upd_inode ino (\<lambda>m. m\<lparr>im_mode := newMode, im_ctimeMs := now\<rparr>) st))))"

definition cv_chown :: "int \<Rightarrow> path \<Rightarrow> int \<Rightarrow> int \<Rightarrow> CVfs \<Rightarrow> (exn + unit) \<times> CVfs" where
  "cv_chown now p uid gid st =
     (case resolveIno p st of
        Inl e \<Rightarrow> (Inl e, st)
      | Inr ino \<Rightarrow>
          (Inr (), upd_inode ino (\<lambda>m. m\<lparr>im_uid := uid, im_gid := gid, im_ctimeMs := now\<rparr>) st))"

definition cv_utimes :: "int \<Rightarrow> path \<Rightarrow> int \<Rightarrow> int \<Rightarrow> CVfs \<Rightarrow> (exn + unit) \<times> CVfs" where
  "cv_utimes now p atime mtime st =
     (case resolveIno p st of
        Inl e \<Rightarrow> (Inl e, st)
      | Inr ino \<Rightarrow>
          (Inr (), upd_inode ino (\<lambda>m. m\<lparr>im_atimeMs := atime * 1000, im_mtimeMs := mtime * 1000,
             im_ctimeMs := now\<rparr>) st))"

definition cv_fsync :: "ChunkedVfsOptions \<Rightarrow> path \<Rightarrow> CVfs \<Rightarrow> CVfs" where
  "cv_fsync opts p st =
     (if opt_writeBuffering opts
      then (case resolveIno p st of Inl e \<Rightarrow> st | Inr ino \<Rightarrow> flushInode opts ino st)
      else st)"

fun copy_blocks :: "ChunkedVfsOptions \<Rightarrow> nat \<Rightarrow> (nat \<times> string) list \<Rightarrow> CVfs \<Rightarrow> (exn + unit) \<times> CVfs" where
  "copy_blocks opts dstIno [] st = (Inr (), st)"
| "copy_blocks opts dstIno ((ci, key) # rest) st =
     (let (newKey, st1) = makeBlockKey opts dstIno ci st
      in case bs_copy key newKey (cv_store st1) of
           (Inl e, bs) \<Rightarrow> (Inl e, st1\<lparr>cv_store := bs\<rparr>)
         | (Inr _, bs) \<Rightarrow>
             copy_blocks opts dstIno rest (on_meta (setChunkKey dstIno ci newKey) (st1\<lparr>cv_store := bs\<rparr>)))"

definition cv_copy :: "ChunkedVfsOptions \<Rightarrow> int \<Rightarrow> path \<Rightarrow> path \<Rightarrow> CVfs \<Rightarrow> (exn + unit) \<times> CVfs" where
  "cv_copy opts now srcPath dstPath st =
     (case resolveIno srcPath st of
        Inl e \<Rightarrow> (Inl e, st)
      | Inr srcIno \<Rightarrow>
          (case requireInode srcIno st of
             Inl e \<Rightarrow> (Inl e, st)
           | Inr srcMeta \<Rightarrow>
               if im_type srcMeta = IT_directory then (Inl (KErr EISDIR), st)
               else
                 (case ensureParents now dstPath st of
                    (Inl e, st1) \<Rightarrow> (Inl e, st1)
                  | (Inr (parentIno, name), st1) \<Rightarrow>
                      if lookup parentIno name (cv_meta st1) \<noteq> None then (Inl (KErr EEXIST), st1)
                      else
                        (let (dstIno, m1) = createInode now \<lparr>ca_type = IT_file, ca_mode = im_mode srcMeta,
                               ca_uid = im_uid srcMeta, ca_gid = im_gid srcMeta, ca_symlinkTarget = None\<rparr>
                               (cv_meta st1);
                             (r, m2) = createDentry parentIno name dstIno IT_file m1;
                             st2 = st1\<lparr>cv_meta := m2\<rparr>
                         in case r of
                              Inl e \<Rightarrow> (Inl e, st2)
                            | Inr _ \<Rightarrow>
                                (case im_storageMode srcMeta of
                                   SM_inline \<Rightarrow>
                                     (Inr (), upd_inode dstIno (\<lambda>m. m\<lparr>im_nlink := 1, im_size := im_size srcMeta,
                                        im_storageMode := SM_inline,
                                        im_inlineContent := Some (inline_bytes srcMeta)\<rparr>) st2)
                                 | SM_chunked \<Rightarrow>
                                     (case copy_blocks opts dstIno (getAllChunkKeys srcIno (cv_meta st2)) st2 of
                                        (Inl e, st3) \<Rightarrow> (Inl e, st3)
                                      | (Inr _, st3) \<Rightarrow>
                                          (Inr (), upd_inode dstIno (\<lambda>m. m\<lparr>im_nlink := 1,
                                             im_size := im_size srcMeta, im_storageMode := SM_chunked,
                                             im_inlineContent := None\<rparr>) st3)))))))"

subsection \<open>Versioning\<close>

datatype RetentionPolicy = KeepCount nat | MaxAge int | Deferred

definition cv_createVersion :: "ChunkedVfsOptions \<Rightarrow> int \<Rightarrow> path \<Rightarrow> CVfs \<Rightarrow> (exn + nat) \<times> CVfs" where
  "cv_createVersion opts now p st =
     (case resolveIno p st of
        Inl e \<Rightarrow> (Inl e, st)
      | Inr ino \<Rightarrow>
          (let st1 = (if opt_writeBuffering opts then flushInode opts ino st else st);
               (r, m) = createVersion now ino (cv_meta st1)
           in (r, st1\<lparr>cv_meta := m\<rparr>)))"

definition cv_listVersions :: "path \<Rightarrow> CVfs \<Rightarrow> exn + (nat \<times> nat \<times> int) list" where
  "cv_listVersions p st =
     (case resolveIno p st of
        Inl e \<Rightarrow> Inl e
      | Inr ino \<Rightarrow>
          (case ms_listVersions ino (cv_meta st) of
             Inl e \<Rightarrow> Inl e
           | Inr vs \<Rightarrow> Inr (map (\<lambda>v. (vm_version v, vm_size v, vm_createdAt v)) vs)))"

definition cv_restoreVersion :: "int \<Rightarrow> path \<Rightarrow> nat \<Rightarrow> CVfs \<Rightarrow> (exn + unit) \<times> CVfs" where
  "cv_restoreVersion now p version st =
     (case resolveIno p st of
        Inl e \<Rightarrow> (Inl e, st)
      | Inr ino \<Rightarrow>
          (let st1 = st\<lparr>cv_buffers := mdel ino (cv_buffers st)\<rparr>;
               (r, m) = ms_restoreVersion now ino version (cv_meta st1)
           in (r, st1\<lparr>cv_meta := m\<rparr>)))"

text \<open>Which versions a policy prunes, of a list with the newest first.\<close>

definition prune_list :: "int \<Rightarrow> RetentionPolicy \<Rightarrow> VersionMeta list \<Rightarrow> nat list" where
  "prune_list now policy allVersions =
     (case policy of
        KeepCount keep \<Rightarrow>
          if length allVersions \<le> keep then [] else map vm_version (drop keep allVersions)
      | MaxAge maxAgeMs \<Rightarrow> map vm_version (filter (\<lambda>v. vm_createdAt v < now - maxAgeMs) allVersions)
      | Deferred \<Rightarrow> map vm_version allVersions)"

definition cv_pruneVersions :: "int \<Rightarrow> path \<Rightarrow> RetentionPolicy \<Rightarrow> CVfs \<Rightarrow> (exn + nat) \<times> CVfs" where
  "cv_pruneVersions now p policy st =
     (case resolveIno p st of
        Inl e \<Rightarrow> (Inl e, st)
      | Inr ino \<Rightarrow>
          (case ms_listVersions ino (cv_meta st) of
             Inl e \<Rightarrow> (Inl e, st)
           | Inr allVersions \<Rightarrow>
               if allVersions = [] then (Inr 0, st)
               else
                 (let toPrune = prune_list now policy allVersions
                  in if toPrune = [] then (Inr 0, st)
                     else
                       (let (r, m) = deleteVersions ino toPrune (cv_meta st);
                            st1 = st\<lparr>cv_meta := m\<rparr>
                        in case r of
                             Inl e \<Rightarrow> (Inl e, st1)
                           | Inr orphanedKeys \<Rightarrow>
                               (Inr (length toPrune),
                                if policy \<noteq> Deferred \<and> orphanedKeys \<noteq> []
                                then on_store (bs_deleteMany orphanedKeys) st1 else st1)))))"

definition cv_collectGarbage :: nat where
  "cv_collectGarbage = 0"

end
