(* ===== verification/Chunked_Content.thy ===== *)
theory Chunked_Content
  imports Chunked_VFS
begin

section \<open>The content of files: the chunked file system refines byte arrays\<close>

text \<open>
  What a file holds, read off the metadata, the blocks and the write buffers; the invariant under
  which the file system's reads and writes are reads and writes of that byte array; and the
  refinement itself. The heart is ownership: every array that is a block or a dirty chunk belongs to
  one chunk of one file, so writing into it in place cannot change another file.
\<close>

subsection \<open>Block keys\<close>

text \<open>A decimal string has no slash and determines its number.\<close>

definition undec :: "string \<Rightarrow> nat" where
  "undec s = foldl (\<lambda>n c. 10 * n + (of_char c - 48)) 0 s"

lemma dec_digits: "c \<in> set (dec n) \<Longrightarrow> 48 \<le> (of_char c :: nat) \<and> (of_char c :: nat) \<le> 57"
proof (induction n rule: dec.induct)
  case (1 n)
  have d: "of_char (char_of (48 + k) :: char) = (48 + k :: nat)" if "k < 10" for k :: nat
    using that by simp
  show ?case
  proof (cases "n < 10")
    case True
    then show ?thesis using 1(2) d [OF True] by (simp add: dec.simps)
  next
    case False
    then show ?thesis using 1 d [of "n mod 10"] by (subst (asm) (2) dec.simps) auto
  qed
qed

lemma undec_dec: "undec (dec n) = n"
proof (induction n rule: dec.induct)
  case (1 n)
  have d: "of_char (char_of (48 + k) :: char) = (48 + k :: nat)" if "k < 10" for k :: nat
    using that by simp
  show ?case
  proof (cases "n < 10")
    case True
    then show ?thesis using d [OF True] by (simp add: dec.simps undec_def)
  next
    case False
    then have "undec (dec n) = 10 * undec (dec (n div 10)) + n mod 10"
      using d [of "n mod 10"] by (subst dec.simps) (simp add: undec_def)
    then show ?thesis using 1 False by simp
  qed
qed

lemma dec_inj: "dec m = dec n \<Longrightarrow> m = n"
  by (metis undec_dec)

lemma dec_no_slash: "CHR ''/'' \<notin> set (dec n)"
  using dec_digits [of "CHR ''/''" n] by auto

text \<open>The keys of chunk \<open>ci\<close> of inode \<open>ino\<close>, with and without a version suffix.\<close>

definition key_for :: "nat \<Rightarrow> nat \<Rightarrow> string \<Rightarrow> bool" where
  "key_for ino ci key \<longleftrightarrow> (\<exists>s. key = blockKey ino ci @ s \<and> (s = [] \<or> (\<exists>r. s = ''/'' @ r)))"

lemma key_for_split:
  assumes "key_for ino ci key"
  shows "\<exists>rest. splitOn (CHR ''/'') key = dec ino # dec ci # rest"
proof -
  obtain s where s: "key = dec ino @ CHR ''/'' # (dec ci @ s)" "s = [] \<or> (\<exists>r. s = ''/'' @ r)"
    using assms by (auto simp: key_for_def blockKey_def)
  from s(2) show ?thesis
  proof
    assume "s = []"
    then show ?thesis using s(1) by (simp add: splitOn_append splitOn_id dec_no_slash)
  next
    assume "\<exists>r. s = ''/'' @ r"
    then obtain r where "s = CHR ''/'' # r" by auto
    then show ?thesis using s(1) by (simp add: splitOn_append dec_no_slash)
  qed
qed

lemma key_for_unique: "key_for ino ci key \<Longrightarrow> key_for ino' ci' key \<Longrightarrow> ino' = ino \<and> ci' = ci"
  using key_for_split [of ino ci key] key_for_split [of ino' ci' key] by (auto dest: dec_inj)

lemma key_for_make: "key_for ino ci (fst (makeBlockKey opts ino ci st))"
  by (auto simp: makeBlockKey_def key_for_def blockKey_def versionedBlockKey_def)

subsection \<open>Chunks and their owners\<close>

definition dirty_addr :: "CVfs \<Rightarrow> nat \<Rightarrow> nat \<Rightarrow> addr option" where
  "dirty_addr st ino ci =
     (case mget (cv_buffers st) ino of None \<Rightarrow> None | Some b \<Rightarrow> mget (wb_dirtyChunks b) ci)"

definition block_addr :: "CVfs \<Rightarrow> nat \<Rightarrow> nat \<Rightarrow> addr option" where
  "block_addr st ino ci =
     (case getChunkKey ino ci (cv_meta st) of None \<Rightarrow> None | Some k \<Rightarrow> mget (bs_blocks (cv_store st)) k)"

definition chunk_addr :: "CVfs \<Rightarrow> nat \<Rightarrow> nat \<Rightarrow> addr option" where
  "chunk_addr st ino ci = (case dirty_addr st ino ci of Some a \<Rightarrow> Some a | None \<Rightarrow> block_addr st ino ci)"

definition chunk :: "CVfs \<Rightarrow> nat \<Rightarrow> nat \<Rightarrow> bytes option" where
  "chunk st ino ci = map_option (\<lambda>a. arr a (cv_store st)) (chunk_addr st ino ci)"

definition owns :: "CVfs \<Rightarrow> nat \<Rightarrow> nat \<Rightarrow> addr \<Rightarrow> bool" where
  "owns st ino ci a \<longleftrightarrow> dirty_addr st ino ci = Some a \<or>
     (\<exists>key. key_for ino ci key \<and> mget (bs_blocks (cv_store st)) key = Some a)"

definition own_ok :: "CVfs \<Rightarrow> bool" where
  "own_ok st \<longleftrightarrow> (\<forall>ino ci a. owns st ino ci a \<longrightarrow> a < length (bs_heap (cv_store st))) \<and>
     (\<forall>ino ci ino' ci' a. owns st ino ci a \<longrightarrow> owns st ino' ci' a \<longrightarrow> ino' = ino \<and> ci' = ci)"

definition keys_ok :: "CVfs \<Rightarrow> bool" where
  "keys_ok st \<longleftrightarrow> (\<forall>ino ci key. getChunkKey ino ci (cv_meta st) = Some key \<longrightarrow>
     key_for ino ci key \<and> mhas (bs_blocks (cv_store st)) key)"

definition bufs_ok :: "CVfs \<Rightarrow> bool" where
  "bufs_ok st \<longleftrightarrow> (\<forall>ino b. mget (cv_buffers st) ino = Some b \<longrightarrow>
     ino < ms_nextIno (cv_meta st) \<and> mwf (wb_dirtyChunks b))"

definition vers_ok :: "CVfs \<Rightarrow> bool" where
  "vers_ok st \<longleftrightarrow> (\<forall>ino r ci key. r \<in> set (records_of ino (cv_meta st)) \<longrightarrow>
     (ci, key) \<in> set (vr_chunkMap r) \<longrightarrow> key_for ino ci key)"

definition struct_inv :: "CVfs \<Rightarrow> bool" where
  "struct_inv st \<longleftrightarrow> ms_inv (cv_meta st) \<and> own_ok st \<and> keys_ok st \<and> bufs_ok st \<and> vers_ok st \<and>
     \<not> is_link (cv_meta st) 1"

lemma own_okD1: "own_ok st \<Longrightarrow> owns st ino ci a \<Longrightarrow> a < length (bs_heap (cv_store st))"
  unfolding own_ok_def by blast

lemma own_okD2: "own_ok st \<Longrightarrow> owns st ino ci a \<Longrightarrow> owns st ino' ci' a \<Longrightarrow> ino' = ino \<and> ci' = ci"
  unfolding own_ok_def by blast

lemma own_okI:
  assumes "\<And>ino ci a. owns st ino ci a \<Longrightarrow> a < length (bs_heap (cv_store st))"
    and "\<And>ino ci ino' ci' a. owns st ino ci a \<Longrightarrow> owns st ino' ci' a \<Longrightarrow> ino' = ino \<and> ci' = ci"
  shows "own_ok st"
  using assms unfolding own_ok_def by blast

lemma own_ok_mono:
  assumes "own_ok st" "\<And>i c a. owns st' i c a \<Longrightarrow> owns st i c a"
    and "length (bs_heap (cv_store st)) \<le> length (bs_heap (cv_store st'))"
  shows "own_ok st'"
proof (rule own_okI)
  show "a < length (bs_heap (cv_store st'))" if "owns st' i c a" for i c a
    using own_okD1 [OF assms(1) assms(2) [OF that]] assms(3) by simp
  show "i' = i \<and> c' = c" if "owns st' i c a" "owns st' i' c' a" for i c i' c' a
    using own_okD2 [OF assms(1) assms(2) [OF that(1)] assms(2) [OF that(2)]] .
qed

lemma keys_okD: "keys_ok st \<Longrightarrow> getChunkKey ino ci (cv_meta st) = Some key \<Longrightarrow>
    key_for ino ci key \<and> (\<exists>a. mget (bs_blocks (cv_store st)) key = Some a)"
  unfolding keys_ok_def mhas_def by blast

lemma dirty_owned: "dirty_addr st ino ci = Some a \<Longrightarrow> owns st ino ci a"
  by (simp add: owns_def)

lemma block_owned: "keys_ok st \<Longrightarrow> block_addr st ino ci = Some a \<Longrightarrow> owns st ino ci a"
  unfolding owns_def block_addr_def by (auto dest: keys_okD split: option.splits)

lemma chunk_owned: "keys_ok st \<Longrightarrow> chunk_addr st ino ci = Some a \<Longrightarrow> owns st ino ci a"
  by (auto simp: chunk_addr_def dirty_owned block_owned split: option.splits)

lemma fresh_unowned: "own_ok st \<Longrightarrow> \<not> owns st ino ci (length (bs_heap (cv_store st)))"
  by (auto dest: own_okD1)

text \<open>
  Steps on the arrays. \<open>heap_step\<close> relates two states that differ in the heap only: it did not
  shrink, and only arrays that belong to chunk \<open>ci\<close> of \<open>ino\<close>, or to none, changed.
\<close>

definition heap_step :: "nat \<Rightarrow> nat \<Rightarrow> CVfs \<Rightarrow> CVfs \<Rightarrow> bool" where
  "heap_step ino ci st st' \<longleftrightarrow>
     cv_meta st' = cv_meta st \<and> cv_buffers st' = cv_buffers st \<and>
     bs_blocks (cv_store st') = bs_blocks (cv_store st) \<and>
     length (bs_heap (cv_store st)) \<le> length (bs_heap (cv_store st')) \<and>
     (\<forall>a i c. owns st i c a \<longrightarrow> (i, c) \<noteq> (ino, ci) \<longrightarrow> arr a (cv_store st') = arr a (cv_store st))"

lemma heap_step_addrs:
  assumes "heap_step ino ci st st'"
  shows "dirty_addr st' = dirty_addr st" "block_addr st' = block_addr st"
    "chunk_addr st' = chunk_addr st" "owns st' = owns st"
proof -
  have eq: "cv_meta st' = cv_meta st" "cv_buffers st' = cv_buffers st"
    "bs_blocks (cv_store st') = bs_blocks (cv_store st)"
    using assms by (simp_all add: heap_step_def)
  show d: "dirty_addr st' = dirty_addr st" and b: "block_addr st' = block_addr st"
    by (simp_all add: fun_eq_iff dirty_addr_def block_addr_def eq cong: option.case_cong)
  show "chunk_addr st' = chunk_addr st" "owns st' = owns st"
    by (simp_all add: fun_eq_iff chunk_addr_def owns_def d b eq cong: option.case_cong)
qed

lemma heap_step_struct:
  assumes "heap_step ino ci st st'" "struct_inv st" shows "struct_inv st'"
proof -
  note a = heap_step_addrs [OF assms(1)]
  have "own_ok st'"
  proof (rule own_okI)
    show "x < length (bs_heap (cv_store st'))" if "owns st' i c x" for i c x
      using that own_okD1 [of st i c x] assms by (auto simp: a struct_inv_def heap_step_def)
    show "i' = i \<and> c' = c" if "owns st' i c x" "owns st' i' c' x" for i c i' c' x
      using that own_okD2 [of st i c x i' c'] assms by (auto simp: a struct_inv_def)
  qed
  then show ?thesis
    using assms by (simp add: struct_inv_def heap_step_def keys_ok_def bufs_ok_def vers_ok_def)
qed

lemma heap_step_chunk:
  assumes "heap_step ino ci st st'" "struct_inv st" "(i, c) \<noteq> (ino, ci)"
  shows "chunk st' i c = chunk st i c"
proof (cases "chunk_addr st i c")
  case (Some a)
  then have "owns st i c a" using assms(2) by (auto simp: struct_inv_def intro: chunk_owned)
  then have "arr a (cv_store st') = arr a (cv_store st)" using assms(1,3) unfolding heap_step_def by blast
  then show ?thesis by (simp add: chunk_def heap_step_addrs [OF assms(1)] Some)
qed (simp add: chunk_def heap_step_addrs [OF assms(1)])

lemma heap_step_refl: "heap_step ino ci st st"
  by (simp add: heap_step_def)

lemma heap_step_trans:
  "heap_step ino ci st st1 \<Longrightarrow> heap_step ino ci st1 st2 \<Longrightarrow> heap_step ino ci st st2"
  using heap_step_addrs(4) [of ino ci st st1] unfolding heap_step_def by (auto simp del: prod.inject)

lemma heap_step_alloc:
  assumes "own_ok st"
  shows "heap_step ino ci st (st\<lparr>cv_store := snd (bs_alloc d (cv_store st))\<rparr>)"
  using own_okD1 [OF assms] by (auto simp: heap_step_def)

lemma heap_step_set:
  assumes "own_ok st" "owns st ino ci a \<or> (\<forall>i c. \<not> owns st i c a)"
  shows "heap_step ino ci st (st\<lparr>cv_store := snd (arr_set a src off (cv_store st))\<rparr>)"
proof -
  have "x \<noteq> a" if "owns st i c x" "(i, c) \<noteq> (ino, ci)" for x i c
    using that own_okD2 [OF assms(1)] assms(2) by blast
  then show ?thesis by (simp add: heap_step_def)
qed

text \<open>Writing a block under a key of the chunk, and entering a dirty chunk.\<close>

definition link_block :: "nat \<Rightarrow> nat \<Rightarrow> string \<Rightarrow> bytes \<Rightarrow> CVfs \<Rightarrow> CVfs" where
  "link_block ino ci key d st = on_meta (setChunkKey ino ci key) (on_store (bs_write key d) st)"

lemma link_block_owns:
  assumes "key_for ino ci key" "own_ok st"
  shows "owns (link_block ino ci key d st) i c a \<Longrightarrow>
    (i = ino \<and> c = ci \<and> a = length (bs_heap (cv_store st))) \<or> owns st i c a"
  using assms key_for_unique [of ino ci key i c]
  by (auto simp: owns_def link_block_def dirty_addr_def split: if_splits)

lemma link_block_arr:
  "own_ok st \<Longrightarrow> owns st i c a \<Longrightarrow> arr a (cv_store (link_block ino ci key d st)) = arr a (cv_store st)"
  using own_okD1 by (simp add: link_block_def)

lemma is_link_chunks [simp]:
  "is_link (setChunkKey ino ci key m) i = is_link m i"
  "is_link (snd (deleteAllChunks ino m)) i = is_link m i"
  "is_link (snd (deleteChunksFrom ino ci m)) i = is_link m i"
  by (simp_all add: is_link_def setChunkKey_def deleteAllChunks_def deleteChunksFrom_def Let_def
      split: option.splits)

lemma setChunkKey_fields [simp]:
  "ms_inodes (setChunkKey ino ci key m) = ms_inodes m" "ms_dentries (setChunkKey ino ci key m) = ms_dentries m"
  "ms_symlinkTargets (setChunkKey ino ci key m) = ms_symlinkTargets m"
  "ms_versioningEnabled (setChunkKey ino ci key m) = ms_versioningEnabled m"
  by (simp_all add: setChunkKey_def Let_def)

lemma records_chunks [simp]:
  "ms_versions (setChunkKey ino ci key m) = ms_versions m"
  "ms_versions (snd (deleteAllChunks ino m)) = ms_versions m"
  "ms_versions (snd (deleteChunksFrom ino ci m)) = ms_versions m"
  "ms_nextIno (setChunkKey ino ci key m) = ms_nextIno m"
  "ms_nextIno (snd (deleteAllChunks ino m)) = ms_nextIno m"
  "ms_nextIno (snd (deleteChunksFrom ino ci m)) = ms_nextIno m"
  by (simp_all add: setChunkKey_def deleteAllChunks_def deleteChunksFrom_def Let_def split: option.splits)

lemma link_block_struct:
  assumes "key_for ino ci key" "struct_inv st" "ino < ms_nextIno (cv_meta st)"
  shows "struct_inv (link_block ino ci key d st)"
proof -
  have ok: "own_ok st" using assms(2) by (simp add: struct_inv_def)
  note o = link_block_owns [OF assms(1) ok]
  have "own_ok (link_block ino ci key d st)"
  proof (rule own_okI)
    show "a < length (bs_heap (cv_store (link_block ino ci key d st)))"
      if "owns (link_block ino ci key d st) i c a" for i c a
      using o [OF that] own_okD1 [OF ok, of i c a] by (auto simp: link_block_def)
    show "i' = i \<and> c' = c" if "owns (link_block ino ci key d st) i c a"
      "owns (link_block ino ci key d st) i' c' a" for i c i' c' a
      using o [OF that(1)] o [OF that(2)] own_okD2 [OF ok] fresh_unowned [OF ok] by blast
  qed
  moreover have "keys_ok (link_block ino ci key d st)"
    using assms(1,2) by (auto simp: keys_ok_def link_block_def struct_inv_def mhas_def)
  ultimately show ?thesis
    using assms(2,3)
    by (simp add: struct_inv_def link_block_def bufs_ok_def vers_ok_def setChunkKey_inv)
qed

lemma link_block_chunk:
  assumes "key_for ino ci key" "struct_inv st" "dirty_addr st ino ci = None"
  shows "chunk (link_block ino ci key d st) i c = (if i = ino \<and> c = ci then Some d else chunk st i c)"
proof -
  have dirty: "dirty_addr (link_block ino ci key d st) = dirty_addr st"
    by (simp add: fun_eq_iff dirty_addr_def link_block_def)
  show ?thesis
  proof (cases "i = ino \<and> c = ci")
    case True
    then show ?thesis
      using assms(3) by (simp add: chunk_def chunk_addr_def dirty block_addr_def) (simp add: link_block_def)
  next
    case False
    have k: "getChunkKey i c (cv_meta st) \<noteq> Some key"
      using False key_for_unique [OF assms(1)] assms(2) by (auto simp: struct_inv_def dest: keys_okD)
    have "block_addr (link_block ino ci key d st) i c = block_addr st i c"
      using k False by (auto simp: block_addr_def link_block_def split: option.splits)
    then have ca: "chunk_addr (link_block ino ci key d st) i c = chunk_addr st i c"
      by (simp add: chunk_addr_def dirty cong: option.case_cong)
    show ?thesis
    proof (cases "chunk_addr st i c")
      case (Some a)
      then have "owns st i c a" using assms(2) by (auto simp: struct_inv_def intro: chunk_owned)
      then have "arr a (cv_store (link_block ino ci key d st)) = arr a (cv_store st)"
        using assms(2) by (intro link_block_arr) (auto simp: struct_inv_def)
      then show ?thesis using False ca Some by (auto simp: chunk_def)
    qed (use False ca in \<open>auto simp: chunk_def\<close>)
  qed
qed

definition enter_dirty :: "nat \<Rightarrow> nat \<Rightarrow> addr \<Rightarrow> CVfs \<Rightarrow> CVfs" where
  "enter_dirty ino ci a st =
     (case mget (cv_buffers st) ino of
        None \<Rightarrow> st
      | Some wb \<Rightarrow> st\<lparr>cv_buffers :=
          mput ino (wb\<lparr>wb_dirtyChunks := mput ci a (wb_dirtyChunks wb)\<rparr>) (cv_buffers st)\<rparr>)"

lemma enter_dirty_simps [simp]:
  "cv_meta (enter_dirty ino ci a st) = cv_meta st" "cv_store (enter_dirty ino ci a st) = cv_store st"
  by (simp_all add: enter_dirty_def split: option.splits)

lemma enter_dirty_addr:
  "mhas (cv_buffers st) ino \<Longrightarrow>
     dirty_addr (enter_dirty ino ci a st) i c = (if i = ino \<and> c = ci then Some a else dirty_addr st i c)"
  by (auto simp: mhas_def enter_dirty_def dirty_addr_def)

lemma enter_dirty_struct:
  assumes "struct_inv st" "mhas (cv_buffers st) ino" "a < length (bs_heap (cv_store st))"
    and "owns st ino ci a \<or> (\<forall>i c. \<not> owns st i c a)"
  shows "struct_inv (enter_dirty ino ci a st)"
proof -
  have ok: "own_ok st" using assms(1) by (simp add: struct_inv_def)
  have o: "i = ino \<and> c = ci \<and> x = a \<or> owns st i c x" if "owns (enter_dirty ino ci a st) i c x" for i c x
    using that by (auto simp: owns_def enter_dirty_addr [OF assms(2)] split: if_splits)
  have "own_ok (enter_dirty ino ci a st)"
  proof (rule own_okI)
    show "x < length (bs_heap (cv_store (enter_dirty ino ci a st)))"
      if "owns (enter_dirty ino ci a st) i c x" for i c x
      using o [OF that] own_okD1 [OF ok, of i c x] assms(3) by auto
    show "i' = i \<and> c' = c" if "owns (enter_dirty ino ci a st) i c x"
      "owns (enter_dirty ino ci a st) i' c' x" for i c i' c' x
      using o [OF that(1)] o [OF that(2)] own_okD2 [OF ok] assms(4) by blast
  qed
  moreover have "bufs_ok (enter_dirty ino ci a st)"
    using assms(1) by (auto simp: struct_inv_def bufs_ok_def enter_dirty_def split: option.splits)
  ultimately show ?thesis using assms(1) by (simp add: struct_inv_def keys_ok_def vers_ok_def)
qed

lemma enter_dirty_chunk:
  assumes "mhas (cv_buffers st) ino"
  shows "chunk (enter_dirty ino ci a st) i c =
    (if i = ino \<and> c = ci then Some (arr a (cv_store st)) else chunk st i c)"
proof -
  have "block_addr (enter_dirty ino ci a st) = block_addr st"
    by (simp add: fun_eq_iff block_addr_def cong: option.case_cong)
  then show ?thesis
    by (simp add: chunk_def chunk_addr_def enter_dirty_addr [OF assms] cong: option.case_cong)
qed

subsection \<open>Everything but one file's chunks\<close>

definition frame :: "nat \<Rightarrow> CVfs \<Rightarrow> CVfs \<Rightarrow> bool" where
  "frame ino st st' \<longleftrightarrow>
     ms_inodes (cv_meta st') = ms_inodes (cv_meta st) \<and> ms_dentries (cv_meta st') = ms_dentries (cv_meta st) \<and>
     ms_symlinkTargets (cv_meta st') = ms_symlinkTargets (cv_meta st) \<and>
     ms_nextIno (cv_meta st') = ms_nextIno (cv_meta st) \<and>
     ms_versions (cv_meta st') = ms_versions (cv_meta st) \<and>
     ms_versioningEnabled (cv_meta st') = ms_versioningEnabled (cv_meta st) \<and>
     (\<forall>i. map_option wb_bufferedSize (mget (cv_buffers st') i) = map_option wb_bufferedSize (mget (cv_buffers st) i)) \<and>
     (\<forall>i c. i \<noteq> ino \<longrightarrow> getChunkKey i c (cv_meta st') = getChunkKey i c (cv_meta st) \<and>
        chunk st' i c = chunk st i c)"

lemma frame_refl [simp]: "frame ino st st"
  by (simp add: frame_def)

lemma frame_trans: "frame ino a b \<Longrightarrow> frame ino b c \<Longrightarrow> frame ino a c"
  by (simp add: frame_def)

lemma frame_buffer: "frame ino st st' \<Longrightarrow> mhas (cv_buffers st') i = mhas (cv_buffers st) i"
proof -
  assume "frame ino st st'"
  then have "map_option wb_bufferedSize (mget (cv_buffers st') i) = map_option wb_bufferedSize (mget (cv_buffers st) i)"
    by (simp add: frame_def)
  then show ?thesis
    by (cases "mget (cv_buffers st') i"; cases "mget (cv_buffers st) i") (simp_all add: mhas_def)
qed

lemma frame_heap_step: "heap_step ino ci st st' \<Longrightarrow> struct_inv st \<Longrightarrow> frame ino st st'"
  using heap_step_chunk by (auto simp: frame_def heap_step_def)

lemma frame_link_block:
  assumes "key_for ino ci key" "struct_inv st" "dirty_addr st ino ci = None"
  shows "frame ino st (link_block ino ci key d st)"
  by (simp add: frame_def link_block_chunk [OF assms]) (simp add: link_block_def)

lemma frame_enter_dirty: "mhas (cv_buffers st) ino \<Longrightarrow> frame ino st (enter_dirty ino ci a st)"
  using enter_dirty_chunk [of st ino ci a] by (auto simp: frame_def enter_dirty_def mhas_def)

text \<open>The counter of random draws plays no part in the content.\<close>

lemma draws_simps [simp]:
  "dirty_addr (st\<lparr>cv_draws := n\<rparr>) = dirty_addr st" "chunk (st\<lparr>cv_draws := n\<rparr>) = chunk st"
  "chunk_addr (st\<lparr>cv_draws := n\<rparr>) = chunk_addr st"
  "struct_inv (st\<lparr>cv_draws := n\<rparr>) = struct_inv st" "frame ino (st\<lparr>cv_draws := n\<rparr>) st' = frame ino st st'"
  by (simp_all add: fun_eq_iff dirty_addr_def chunk_def chunk_addr_def block_addr_def struct_inv_def own_ok_def owns_def
      keys_ok_def bufs_ok_def vers_ok_def frame_def cong: option.case_cong)

lemma makeBlockKey_cases:
  obtains key n where "makeBlockKey opts ino ci st = (key, st\<lparr>cv_draws := n\<rparr>)" "key_for ino ci key"
proof -
  have "\<exists>n. snd (makeBlockKey opts ino ci st) = st\<lparr>cv_draws := n\<rparr>"
    by (cases st) (auto simp: makeBlockKey_def)
  then show thesis using that key_for_make [of ino ci opts st] by (metis prod.collapse)
qed

subsection \<open>Writing one chunk\<close>

definition padded :: "nat \<Rightarrow> bytes option \<Rightarrow> bytes" where
  "padded we old = (case old of None \<Rightarrow> zeros we | Some x \<Rightarrow> x @ zeros (we - length x))"

lemma nth0_padded [simp]: "nth0 (padded we old) i = (case old of None \<Rightarrow> 0 | Some x \<Rightarrow> nth0 x i)"
  by (simp add: padded_def split: option.splits)

lemma length_padded [simp]:
  "length (padded we old) = max we (case old of None \<Rightarrow> 0 | Some x \<Rightarrow> length x)"
  by (auto simp: padded_def split: option.splits)

text \<open>A loaded array: the old chunk, long enough, in an array this chunk owns or nobody does.\<close>

definition loaded :: "nat \<Rightarrow> nat \<Rightarrow> nat \<Rightarrow> bytes option \<Rightarrow> CVfs \<Rightarrow> addr \<Rightarrow> CVfs \<Rightarrow> bool" where
  "loaded ino ci we old st a st' \<longleftrightarrow> heap_step ino ci st st' \<and> arr a (cv_store st') = padded we old \<and>
     a < length (bs_heap (cv_store st')) \<and> (owns st ino ci a \<or> (\<forall>i c. \<not> owns st i c a))"

lemma loaded_alloc:
  assumes "own_ok st" "d = padded we old"
  shows "loaded ino ci we old st (length (bs_heap (cv_store st)))
    (st\<lparr>cv_store := snd (bs_alloc d (cv_store st))\<rparr>)"
  using heap_step_alloc [OF assms(1)] fresh_unowned [OF assms(1)] by (simp add: loaded_def assms(2))

lemma loaded_expanded:
  assumes "own_ok st" "owns st ino ci a"
  shows "loaded ino ci we (Some (arr a (cv_store st))) st (fst (expanded a we (cv_store st)))
    (st\<lparr>cv_store := snd (expanded a we (cv_store st))\<rparr>)"
proof (cases "length (arr a (cv_store st)) < we")
  case True
  then have e: "expanded a we (cv_store st) =
      bs_alloc (padded we (Some (arr a (cv_store st)))) (cv_store st)"
    by (simp add: expanded_def padded_def)
  show ?thesis unfolding e bs_alloc_simps(1) by (rule loaded_alloc [OF assms(1) refl])
next
  case False
  then show ?thesis
    using assms own_okD1 [OF assms] by (simp add: expanded_def loaded_def heap_step_refl padded_def zeros_def)
qed

lemma load_chunk_loaded:
  assumes "struct_inv st" "dirty_addr st ino ci = None"
  obtains a st' where "load_chunk ino ci we st = (Inr a, st')" "loaded ino ci we (chunk st ino ci) st a st'"
    "cv_draws st' = cv_draws st"
proof (cases "getChunkKey ino ci (cv_meta st)")
  case None
  then have "chunk st ino ci = None" using assms(2) by (simp add: chunk_def chunk_addr_def block_addr_def)
  then show thesis
    using None loaded_alloc [of st "zeros we" we None ino ci] assms(1) that
    by (simp add: load_chunk_def struct_inv_def padded_def bs_alloc_def)
next
  case (Some key)
  have ok: "own_ok st" "keys_ok st" using assms(1) by (simp_all add: struct_inv_def)
  obtain a where a: "mget (bs_blocks (cv_store st)) key = Some a" using keys_okD [OF ok(2) Some] by blast
  then have ca: "chunk_addr st ino ci = Some a"
    using assms(2) Some by (simp add: chunk_addr_def block_addr_def)
  show thesis
    using that Some a loaded_expanded [OF ok(1) chunk_owned [OF ok(2) ca], of we] ca
    by (simp add: load_chunk_def bs_read_def chunk_def case_prod_beta)
qed

text \<open>What a write of \<open>data\<close> at \<open>offset\<close> makes of chunk \<open>ci\<close>.\<close>

definition merged :: "nat \<Rightarrow> nat \<Rightarrow> bytes \<Rightarrow> nat \<Rightarrow> bytes option \<Rightarrow> bytes" where
  "merged cs offset data ci old =
     (let p = padded (writeEnd cs offset (length data) ci) old;
          ws = writeStart cs offset ci;
          part = write_part cs offset data ci
      in take ws p @ part @ drop (ws + length part) p)"

definition in_range :: "nat \<Rightarrow> nat \<Rightarrow> bytes \<Rightarrow> nat \<Rightarrow> bool" where
  "in_range cs offset data ci \<longleftrightarrow>
     0 < cs \<and> 0 < length data \<and> offset < ci * cs + cs \<and> ci * cs < offset + length data"

lemma in_range_iff:
  assumes "0 < cs" "data \<noteq> []"
  shows "in_range cs offset data ci \<longleftrightarrow> ci \<in> set [offset div cs..<Suc ((offset + length data - 1) div cs)]"
proof -
  have "offset div cs \<le> ci \<longleftrightarrow> offset < ci * cs + cs"
    using assms(1) by (metis add.commute div_less_iff_less_mult less_Suc_eq_le mult_Suc)
  moreover have "ci \<le> (offset + length data - 1) div cs \<longleftrightarrow> ci * cs \<le> offset + length data - 1"
    using assms(1) by (simp add: less_eq_div_iff_mult_less_eq)
  moreover have "ci * cs \<le> offset + length data - 1 \<longleftrightarrow> ci * cs < offset + length data"
    using assms(2) by (cases data) auto
  ultimately show ?thesis using assms by (auto simp: in_range_def)
qed

lemma write_bounds:
  assumes "in_range cs offset data ci"
  shows "writeStart cs offset ci + length (write_part cs offset data ci) = writeEnd cs offset (length data) ci"
    and "writeStart cs offset ci < writeEnd cs offset (length data) ci"
    and "writeEnd cs offset (length data) ci \<le> cs"
proof -
  obtain n where "length data = Suc n" using assms by (cases data) (auto simp: in_range_def)
  then show "writeStart cs offset ci + length (write_part cs offset data ci) = writeEnd cs offset (length data) ci"
    and "writeStart cs offset ci < writeEnd cs offset (length data) ci"
    and "writeEnd cs offset (length data) ci \<le> cs"
    using assms by (auto simp: in_range_def write_part_def writeStart_def writeEnd_def Let_def max_def min_def)
qed

lemma write_part_nth:
  assumes "in_range cs offset data ci" "writeStart cs offset ci \<le> k" "k < writeEnd cs offset (length data) ci"
  shows "write_part cs offset data ci ! (k - writeStart cs offset ci) = data ! (ci * cs + k - offset)"
proof -
  have "k - writeStart cs offset ci < length (write_part cs offset data ci)"
    using write_bounds [OF assms(1)] assms(2,3) by simp
  moreover have "ci * cs - offset + (k - writeStart cs offset ci) = ci * cs + k - offset"
    using assms by (auto simp: in_range_def writeStart_def max_def split: if_splits)
  moreover from calculation(1) have "ci * cs - offset \<le> length data" by (auto simp: write_part_def Let_def)
  ultimately show ?thesis by (simp add: write_part_def Let_def u8_slice_def)
qed

lemma merged_length:
  "in_range cs offset data ci \<Longrightarrow> length (merged cs offset data ci old) =
     max (writeEnd cs offset (length data) ci) (case old of None \<Rightarrow> 0 | Some x \<Rightarrow> length x)"
  using write_bounds [of cs offset data ci] by (simp add: merged_def Let_def)

lemma merged_nth0:
  assumes "in_range cs offset data ci"
  shows "nth0 (merged cs offset data ci old) k =
    (if offset \<le> ci * cs + k \<and> ci * cs + k < offset + length data \<and> k < cs
     then data ! (ci * cs + k - offset) else case old of None \<Rightarrow> 0 | Some x \<Rightarrow> nth0 x k)"
proof -
  let ?ws = "writeStart cs offset ci" and ?we = "writeEnd cs offset (length data) ci"
  have "u8_set (padded ?we old) (write_part cs offset data ci) ?ws = Inr (merged cs offset data ci old)"
    using write_bounds [OF assms] by (simp add: u8_set_def merged_def Let_def)
  from u8_set_nth0 [OF this, of k] have "nth0 (merged cs offset data ci old) k =
     (if ?ws \<le> k \<and> k < ?we then write_part cs offset data ci ! (k - ?ws)
      else case old of None \<Rightarrow> 0 | Some x \<Rightarrow> nth0 x k)"
    using write_bounds [OF assms] by simp
  moreover have "?ws \<le> k \<and> k < ?we \<longleftrightarrow> offset \<le> ci * cs + k \<and> ci * cs + k < offset + length data \<and> k < cs"
    using assms by (auto simp: in_range_def writeStart_def writeEnd_def max_def min_def)
  ultimately show ?thesis using write_part_nth [OF assms, of k] by auto
qed

lemma loaded_set:
  assumes "loaded ino ci (writeEnd cs offset (length data) ci) old st a st1" "struct_inv st"
    and "in_range cs offset data ci"
    and bs: "bs = snd (arr_set a (write_part cs offset data ci) (writeStart cs offset ci) (cv_store st1))"
  shows "fst (arr_set a (write_part cs offset data ci) (writeStart cs offset ci) (cv_store st1)) = Inr ()"
    and "arr a bs = merged cs offset data ci old"
    and "heap_step ino ci st (st1\<lparr>cv_store := bs\<rparr>)"
    and "a < length (bs_heap bs)"
proof -
  note l = assms(1) [unfolded loaded_def]
  have u: "u8_set (arr a (cv_store st1)) (write_part cs offset data ci) (writeStart cs offset ci) =
      Inr (merged cs offset data ci old)"
    using l write_bounds [OF assms(3)] by (simp add: u8_set_def merged_def Let_def)
  then show "fst (arr_set a (write_part cs offset data ci) (writeStart cs offset ci) (cv_store st1)) = Inr ()"
    "arr a bs = merged cs offset data ci old" "a < length (bs_heap bs)"
    using l by (simp_all add: bs arr_set_def) (simp add: arr_def)
  have s1: "struct_inv st1" using l assms(2) heap_step_struct by blast
  have "owns st1 = owns st" using l heap_step_addrs(4) by blast
  then have "heap_step ino ci st1 (st1\<lparr>cv_store := bs\<rparr>)"
    unfolding bs using l s1 by (intro heap_step_set) (auto simp: struct_inv_def)
  then show "heap_step ino ci st (st1\<lparr>cv_store := bs\<rparr>)" using l heap_step_trans by blast
qed

text \<open>
  \<open>writes ino f st r\<close>: the step succeeded, kept the structure, left everything else alone and made
  the chunks of \<open>ino\<close> those of \<open>f\<close>.
\<close>

definition writes :: "nat \<Rightarrow> (nat \<Rightarrow> bytes option) \<Rightarrow> CVfs \<Rightarrow> CVfs \<Rightarrow> bool" where
  "writes ino f st st' \<longleftrightarrow> struct_inv st' \<and> frame ino st st' \<and> (\<forall>c. chunk st' ino c = f c)"

lemma writes_trans:
  "writes ino f st st1 \<Longrightarrow> writes ino g st1 st2 \<Longrightarrow> writes ino g st st2"
  by (auto simp: writes_def intro: frame_trans)

lemma no_dirty: "\<not> mhas (cv_buffers st) ino \<Longrightarrow> dirty_addr st ino c = None"
  by (simp add: mhas_def dirty_addr_def)

lemma heap_step_frame_struct:
  "heap_step ino ci st st' \<Longrightarrow> struct_inv st \<Longrightarrow>
     struct_inv st' \<and> frame ino st st' \<and> (\<forall>c. c \<noteq> ci \<longrightarrow> chunk st' ino c = chunk st ino c)"
  using heap_step_struct frame_heap_step heap_step_chunk by blast

lemma link_block_writes:
  assumes "key_for ino ci key" "struct_inv st" "ino < ms_nextIno (cv_meta st)" "dirty_addr st ino ci = None"
  shows "writes ino ((chunk st ino)(ci \<mapsto> d)) st (link_block ino ci key d st)"
  using link_block_struct [OF assms(1-3)] frame_link_block [OF assms(1,2,4)] link_block_chunk [OF assms(1,2,4)]
  by (simp add: writes_def)

lemma pwrite_chunk_direct_writes:
  assumes inv: "struct_inv st" "ino < ms_nextIno (cv_meta st)" and nb: "\<not> mhas (cv_buffers st) ino"
    and rng: "in_range (opt_chunkSize opts) offset data ci"
  obtains st' where "pwrite_chunk_direct opts ino offset data ci st = (Inr (), st')"
    "writes ino ((chunk st ino)(ci \<mapsto> merged (opt_chunkSize opts) offset data ci (chunk st ino ci))) st st'"
proof -
  let ?cs = "opt_chunkSize opts"
  obtain key n where k: "makeBlockKey opts ino ci st = (key, st\<lparr>cv_draws := n\<rparr>)" "key_for ino ci key"
    by (rule makeBlockKey_cases)
  let ?st1 = "st\<lparr>cv_draws := n\<rparr>"
  have s1: "struct_inv ?st1" "dirty_addr ?st1 ino ci = None" using inv no_dirty [OF nb] by simp_all
  then obtain a st2 where l: "load_chunk ino ci (writeEnd ?cs offset (length data) ci) ?st1 = (Inr a, st2)"
    "loaded ino ci (writeEnd ?cs offset (length data) ci) (chunk ?st1 ino ci) ?st1 a st2"
    using load_chunk_loaded by metis
  define bs where "bs = snd (arr_set a (write_part ?cs offset data ci) (writeStart ?cs offset ci) (cv_store st2))"
  note ls = loaded_set [OF l(2) s1(1) rng bs_def]
  let ?st3 = "st2\<lparr>cv_store := bs\<rparr>"
  have as: "arr_set a (write_part ?cs offset data ci) (writeStart ?cs offset ci) (cv_store st2) = (Inr (), bs)"
    using ls(1) bs_def by (metis prod.collapse)
  have r: "pwrite_chunk_direct opts ino offset data ci st =
      (Inr (), link_block ino ci key (arr a bs) ?st3)"
    by (simp add: pwrite_chunk_direct_def Let_def k(1) l(1) as link_block_def)
  have h: "struct_inv ?st3 \<and> frame ino ?st1 ?st3 \<and> (\<forall>c. c \<noteq> ci \<longrightarrow> chunk ?st3 ino c = chunk ?st1 ino c)"
    using heap_step_frame_struct [OF ls(3) s1(1)] .
  have "ino < ms_nextIno (cv_meta ?st3)" "dirty_addr ?st3 ino ci = None"
    using inv(2) h ls(3) s1(2) heap_step_addrs(1) [OF ls(3)] by (auto simp: frame_def)
  then have "writes ino ((chunk ?st3 ino)(ci \<mapsto> arr a bs)) ?st3 (link_block ino ci key (arr a bs) ?st3)"
    using k(2) h by (intro link_block_writes) auto
  moreover have "(chunk ?st3 ino)(ci \<mapsto> arr a bs) =
      (chunk st ino)(ci \<mapsto> merged ?cs offset data ci (chunk st ino ci))"
    using h ls(2) by (auto simp: fun_eq_iff)
  moreover have "writes ino (chunk ?st3 ino) st ?st3" using h by (simp add: writes_def)
  ultimately have "writes ino ((chunk st ino)(ci \<mapsto> merged ?cs offset data ci (chunk st ino ci))) st
      (link_block ino ci key (arr a bs) ?st3)"
    using writes_trans by (metis (no_types))
  then show thesis using that r by blast
qed

lemma pwrite_chunk_buffered_writes:
  assumes inv: "struct_inv st" and b: "mhas (cv_buffers st) ino"
    and rng: "in_range (opt_chunkSize opts) offset data ci"
  obtains st' where "pwrite_chunk_buffered opts ino offset data ci st = (Inr (), st')"
    "writes ino ((chunk st ino)(ci \<mapsto> merged (opt_chunkSize opts) offset data ci (chunk st ino ci))) st st'"
proof -
  let ?cs = "opt_chunkSize opts"
  let ?we = "writeEnd ?cs offset (length data) ci"
  obtain wb where wb: "mget (cv_buffers st) ino = Some wb" using b by (auto simp: mhas_def)
  have ok: "own_ok st" using inv by (simp add: struct_inv_def)
  obtain a st1 where l: "load_dirty ino ci ?we wb st = (Inr a, st1)"
    "loaded ino ci ?we (chunk st ino ci) st a st1"
  proof (cases "mget (wb_dirtyChunks wb) ci")
    case None
    then have "dirty_addr st ino ci = None" using wb by (simp add: dirty_addr_def)
    then obtain a st1 where "load_chunk ino ci ?we st = (Inr a, st1)" "loaded ino ci ?we (chunk st ino ci) st a st1"
      using load_chunk_loaded [OF inv] by metis
    then show thesis using None that by (simp add: load_dirty_def)
  next
    case (Some a)
    then have d: "dirty_addr st ino ci = Some a" using wb by (simp add: dirty_addr_def)
    then have "chunk st ino ci = Some (arr a (cv_store st))" by (simp add: chunk_def chunk_addr_def)
    then show thesis
      using that Some loaded_expanded [OF ok dirty_owned [OF d], of ?we] by (simp add: load_dirty_def case_prod_beta)
  qed
  define bs where "bs = snd (arr_set a (write_part ?cs offset data ci) (writeStart ?cs offset ci) (cv_store st1))"
  note ls = loaded_set [OF l(2) inv rng bs_def]
  let ?st2 = "st1\<lparr>cv_store := bs\<rparr>"
  have as: "arr_set a (write_part ?cs offset data ci) (writeStart ?cs offset ci) (cv_store st1) = (Inr (), bs)"
    using ls(1) bs_def by (metis prod.collapse)
  have bufs: "cv_buffers ?st2 = cv_buffers st" using ls(3) by (simp add: heap_step_def)
  have r: "pwrite_chunk_buffered opts ino offset data ci st = (Inr (), enter_dirty ino ci a ?st2)"
    using bufs by (simp add: pwrite_chunk_buffered_def wb Let_def l(1) as enter_dirty_def)
  have h: "struct_inv ?st2 \<and> frame ino st ?st2 \<and> (\<forall>c. c \<noteq> ci \<longrightarrow> chunk ?st2 ino c = chunk st ino c)"
    using heap_step_frame_struct [OF ls(3) inv] .
  have b2: "mhas (cv_buffers ?st2) ino" using b bufs by simp
  have "struct_inv (enter_dirty ino ci a ?st2)"
    using l(2) ls(4) h b2 heap_step_addrs(4) [OF ls(3)] by (intro enter_dirty_struct) (auto simp: loaded_def)
  moreover have "frame ino st (enter_dirty ino ci a ?st2)"
    using h frame_enter_dirty [OF b2, of ci a] frame_trans by blast
  moreover have "chunk (enter_dirty ino ci a ?st2) ino c =
      ((chunk st ino)(ci \<mapsto> merged ?cs offset data ci (chunk st ino ci))) c" for c
    using enter_dirty_chunk [OF b2, of ci a ino c] h ls(2) by simp
  ultimately show thesis using that r by (simp add: writes_def)
qed

text \<open>The loop over the chunks of a write, for either body.\<close>

lemma each_chunk_writes:
  assumes "\<And>ci st. P st \<Longrightarrow> ci \<in> set cis \<Longrightarrow>
      \<exists>st'. body ci st = (Inr (), st') \<and> writes ino ((chunk st ino)(ci \<mapsto> M ci (chunk st ino ci))) st st'"
    and "\<And>f st st'. P st \<Longrightarrow> writes ino f st st' \<Longrightarrow> P st'"
    and "P st" "struct_inv st" "distinct cis"
  shows "\<exists>st'. each_chunk body cis st = (Inr (), st') \<and>
     writes ino (\<lambda>c. if c \<in> set cis then Some (M c (chunk st ino c)) else chunk st ino c) st st'"
  using assms
proof (induction cis arbitrary: st)
  case Nil
  then show ?case by (simp add: writes_def)
next
  case (Cons ci cis)
  obtain st1 where st1: "body ci st = (Inr (), st1)"
    "writes ino ((chunk st ino)(ci \<mapsto> M ci (chunk st ino ci))) st st1"
    using Cons.prems(1) [OF Cons.prems(3)] by (meson list.set_intros(1))
  have p1: "P st1" "struct_inv st1" using Cons.prems(2) [OF Cons.prems(3) st1(2)] st1(2) by (auto simp: writes_def)
  have "\<exists>st'. each_chunk body cis st1 = (Inr (), st') \<and>
     writes ino (\<lambda>c. if c \<in> set cis then Some (M c (chunk st1 ino c)) else chunk st1 ino c) st1 st'"
    using Cons.prems(1,2,5) p1 by (intro Cons.IH) auto
  then obtain st' where st': "each_chunk body cis st1 = (Inr (), st')"
    "writes ino (\<lambda>c. if c \<in> set cis then Some (M c (chunk st1 ino c)) else chunk st1 ino c) st1 st'"
    by blast
  have "(\<lambda>c. if c \<in> set cis then Some (M c (chunk st1 ino c)) else chunk st1 ino c) =
      (\<lambda>c. if c \<in> set (ci # cis) then Some (M c (chunk st ino c)) else chunk st ino c)"
    using st1(2) Cons.prems(5) by (auto simp: writes_def fun_eq_iff)
  then show ?case using st1(1) st' writes_trans [OF st1(2)] by auto
qed

subsection \<open>Writing blocks, flushing, dropping chunks\<close>

lemma put_chunk_cases:
  obtains key n where "put_chunk opts ino ci d st = link_block ino ci key d (st\<lparr>cv_draws := n\<rparr>)"
    "key_for ino ci key"
proof -
  obtain key n where "makeBlockKey opts ino ci st = (key, st\<lparr>cv_draws := n\<rparr>)" "key_for ino ci key"
    by (rule makeBlockKey_cases)
  then show thesis using that [of key n] by (simp add: put_chunk_def link_block_def)
qed

lemma put_chunk_writes:
  assumes "struct_inv st" "ino < ms_nextIno (cv_meta st)" "dirty_addr st ino ci = None"
  shows "writes ino ((chunk st ino)(ci \<mapsto> d)) st (put_chunk opts ino ci d st)"
proof -
  obtain key n where k: "put_chunk opts ino ci d st = link_block ino ci key d (st\<lparr>cv_draws := n\<rparr>)"
    "key_for ino ci key" by (rule put_chunk_cases)
  have "writes ino ((chunk (st\<lparr>cv_draws := n\<rparr>) ino)(ci \<mapsto> d)) (st\<lparr>cv_draws := n\<rparr>)
      (link_block ino ci key d (st\<lparr>cv_draws := n\<rparr>))"
    using k(2) assms by (intro link_block_writes) simp_all
  then show ?thesis by (simp add: k(1) writes_def)
qed

lemma put_chunks_writes:
  assumes "struct_inv st" "ino < ms_nextIno (cv_meta st)" "\<not> mhas (cv_buffers st) ino" "distinct is"
  shows "writes ino (\<lambda>c. if c \<in> set is then Some (chunk_of (opt_chunkSize opts) content c) else chunk st ino c)
    st (put_chunks opts ino content is st)"
  using assms
proof (induction "is" arbitrary: st)
  case Nil
  then show ?case by (simp add: writes_def)
next
  case (Cons i "is")
  let ?st1 = "put_chunk opts ino i (chunk_of (opt_chunkSize opts) content i) st"
  have w: "writes ino ((chunk st ino)(i \<mapsto> chunk_of (opt_chunkSize opts) content i)) st ?st1"
    using Cons.prems by (intro put_chunk_writes) (simp_all add: no_dirty)
  then have "\<not> mhas (cv_buffers ?st1) ino" "ino < ms_nextIno (cv_meta ?st1)" "struct_inv ?st1"
    using Cons.prems frame_buffer by (auto simp: writes_def frame_def)
  then have "writes ino (\<lambda>c. if c \<in> set is then Some (chunk_of (opt_chunkSize opts) content c) else chunk ?st1 ino c)
    ?st1 (put_chunks opts ino content is ?st1)" using Cons by simp
  moreover have "(\<lambda>c. if c \<in> set is then Some (chunk_of (opt_chunkSize opts) content c) else chunk ?st1 ino c) =
     (\<lambda>c. if c \<in> set (i # is) then Some (chunk_of (opt_chunkSize opts) content c) else chunk st ino c)"
    using w Cons.prems(4) by (auto simp: writes_def fun_eq_iff)
  ultimately show ?case using writes_trans [OF w] by simp
qed

text \<open>The stored bytes of a chunk, whether or not a dirty chunk hides them.\<close>

definition blk :: "CVfs \<Rightarrow> nat \<Rightarrow> nat \<Rightarrow> bytes option" where
  "blk st ino ci = map_option (\<lambda>a. arr a (cv_store st)) (block_addr st ino ci)"

lemma chunk_clean: "dirty_addr st ino ci = None \<Longrightarrow> chunk st ino ci = blk st ino ci"
  by (simp add: chunk_def chunk_addr_def blk_def)

lemma chunk_dirty: "dirty_addr st ino ci = Some a \<Longrightarrow> chunk st ino ci = Some (arr a (cv_store st))"
  by (simp add: chunk_def chunk_addr_def)

text \<open>Without its dirty chunks a state is an instance of the same structure, with blocks for chunks.\<close>

lemma clean_struct: "struct_inv st \<Longrightarrow> struct_inv (st\<lparr>cv_buffers := []\<rparr>)"
  by (auto simp: struct_inv_def own_ok_def owns_def dirty_addr_def keys_ok_def bufs_ok_def vers_ok_def)

lemma clean_chunk: "chunk (st\<lparr>cv_buffers := []\<rparr>) = blk st"
  by (simp add: fun_eq_iff chunk_def chunk_addr_def dirty_addr_def blk_def block_addr_def cong: option.case_cong)

lemma link_block_blk:
  assumes "key_for ino ci key" "struct_inv st"
  shows "blk (link_block ino ci key d st) i c = (if i = ino \<and> c = ci then Some d else blk st i c)"
proof -
  let ?st = "st\<lparr>cv_buffers := []\<rparr>"
  have "(link_block ino ci key d st)\<lparr>cv_buffers := []\<rparr> = link_block ino ci key d ?st"
    by (simp add: link_block_def)
  then have "blk (link_block ino ci key d st) i c = chunk (link_block ino ci key d ?st) i c"
    by (metis clean_chunk)
  also have "\<dots> = (if i = ino \<and> c = ci then Some d else chunk ?st i c)"
    using assms clean_struct by (intro link_block_chunk) (simp_all add: dirty_addr_def)
  finally show ?thesis by (simp add: clean_chunk)
qed

lemma link_block_hidden:
  assumes "key_for ino ci key" "struct_inv st" "dirty_addr st ino ci = Some a"
  shows "chunk (link_block ino ci key d st) i c = chunk st i c"
proof -
  have dirty: "dirty_addr (link_block ino ci key d st) = dirty_addr st"
    by (simp add: fun_eq_iff dirty_addr_def link_block_def)
  show ?thesis
  proof (cases "dirty_addr st i c")
    case None
    then have "\<not> (i = ino \<and> c = ci)" using assms(3) by auto
    then show ?thesis using None link_block_blk [OF assms(1,2), of d i c] by (auto simp: chunk_clean dirty)
  next
    case (Some x)
    then have "arr x (cv_store (link_block ino ci key d st)) = arr x (cv_store st)"
      using assms(2) link_block_arr [OF _ dirty_owned [OF Some]] by (simp add: struct_inv_def)
    then show ?thesis using Some by (simp add: chunk_dirty dirty)
  qed
qed

lemma put_chunk_hidden:
  assumes "struct_inv st" "ino < ms_nextIno (cv_meta st)" "dirty_addr st ino ci = Some a"
  shows "writes ino (chunk st ino) st (put_chunk opts ino ci d st)"
    and "blk (put_chunk opts ino ci d st) i c = (if i = ino \<and> c = ci then Some d else blk st i c)"
    and "cv_buffers (put_chunk opts ino ci d st) = cv_buffers st"
    and "owns st i c x \<Longrightarrow> arr x (cv_store (put_chunk opts ino ci d st)) = arr x (cv_store st)"
proof -
  obtain key n where k: "put_chunk opts ino ci d st = link_block ino ci key d (st\<lparr>cv_draws := n\<rparr>)"
    "key_for ino ci key" by (rule put_chunk_cases)
  let ?st = "st\<lparr>cv_draws := n\<rparr>"
  have s: "struct_inv ?st" "ino < ms_nextIno (cv_meta ?st)" "dirty_addr ?st ino ci = Some a"
    using assms by simp_all
  have "frame ino ?st (link_block ino ci key d ?st)"
    using link_block_hidden [OF k(2) s(1,3)] by (simp add: frame_def) (simp add: link_block_def)
  then show "writes ino (chunk st ino) st (put_chunk opts ino ci d st)"
    using link_block_struct [OF k(2) s(1,2)] link_block_hidden [OF k(2) s(1,3)] by (simp add: writes_def k(1))
  have "blk ?st = blk st" by (simp add: fun_eq_iff blk_def block_addr_def cong: option.case_cong)
  then show "blk (put_chunk opts ino ci d st) i c = (if i = ino \<and> c = ci then Some d else blk st i c)"
    using link_block_blk [OF k(2) s(1)] by (simp add: k(1))
  show "cv_buffers (put_chunk opts ino ci d st) = cv_buffers st" by (simp add: k(1) link_block_def)
  show "arr x (cv_store (put_chunk opts ino ci d st)) = arr x (cv_store st)" if "owns st i c x"
    using own_okD1 [of st i c x] that assms(1) by (simp add: k(1) link_block_def struct_inv_def)
qed

lemma flush_loop_writes:
  assumes "struct_inv st" "ino < ms_nextIno (cv_meta st)" "mwf ds"
    and "\<And>c a. (c, a) \<in> set ds \<Longrightarrow> dirty_addr st ino c = Some a"
  shows "writes ino (chunk st ino) st (flush_loop opts ino ds st) \<and>
    cv_buffers (flush_loop opts ino ds st) = cv_buffers st \<and>
    (\<forall>c. blk (flush_loop opts ino ds st) ino c = (if c \<in> set (mkeys ds) then chunk st ino c else blk st ino c))"
  using assms
proof (induction ds arbitrary: st)
  case Nil
  then show ?case by (simp add: writes_def)
next
  case (Cons p ds)
  obtain ci a where p: "p = (ci, a)" by (cases p)
  let ?st1 = "put_chunk opts ino ci (arr a (cv_store st)) st"
  have d: "dirty_addr st ino ci = Some a" using Cons.prems(4) p by simp
  note h = put_chunk_hidden [OF Cons.prems(1,2) d, where opts = opts and d = "arr a (cv_store st)"]
  have d1: "dirty_addr ?st1 = dirty_addr st" by (simp add: fun_eq_iff dirty_addr_def h(3))
  have "ino < ms_nextIno (cv_meta ?st1)" "struct_inv ?st1" "chunk ?st1 ino = chunk st ino"
    using h(1) Cons.prems(2) by (auto simp: writes_def frame_def fun_eq_iff)
  moreover have "mwf ds" "ci \<notin> set (mkeys ds)" using Cons.prems(3) p by auto
  ultimately show ?case
    using Cons.IH [of ?st1] Cons.prems(4) h d1 writes_trans [OF h(1)]
    by (auto simp: p chunk_dirty [OF d])
qed

lemma clear_buffer_struct:
  assumes "struct_inv st" "mget (cv_buffers st) ino = Some b"
  shows "struct_inv (st\<lparr>cv_buffers := mput ino (b\<lparr>wb_dirtyChunks := []\<rparr>) (cv_buffers st)\<rparr>)"
proof -
  let ?st = "st\<lparr>cv_buffers := mput ino (b\<lparr>wb_dirtyChunks := []\<rparr>) (cv_buffers st)\<rparr>"
  have "owns ?st i c a \<Longrightarrow> owns st i c a" for i c a
    by (auto simp: owns_def dirty_addr_def split: if_splits)
  then have "own_ok ?st"
    using assms(1) own_ok_mono [of st ?st] by (simp add: struct_inv_def)
  then show ?thesis using assms by (auto simp: struct_inv_def keys_ok_def bufs_ok_def vers_ok_def)
qed

lemma flushInode_writes:
  assumes "struct_inv st" shows "writes ino (chunk st ino) st (flushInode opts ino st)"
proof (cases "mget (cv_buffers st) ino")
  case None
  then show ?thesis using assms by (simp add: flushInode_def writes_def)
next
  case (Some b)
  have wf: "ino < ms_nextIno (cv_meta st)" "mwf (wb_dirtyChunks b)"
    using assms Some by (auto simp: struct_inv_def bufs_ok_def)
  let ?ds = "wb_dirtyChunks b" and ?st1 = "flush_loop opts ino (wb_dirtyChunks b) st"
  have da: "dirty_addr st ino c = mget ?ds c" for c using Some by (simp add: dirty_addr_def)
  have fl: "writes ino (chunk st ino) st ?st1" "cv_buffers ?st1 = cv_buffers st"
    "\<And>c. blk ?st1 ino c = (if c \<in> set (mkeys ?ds) then chunk st ino c else blk st ino c)"
    using flush_loop_writes [OF assms wf] da wf(2) by auto
  let ?st2 = "?st1\<lparr>cv_buffers := mput ino (b\<lparr>wb_dirtyChunks := []\<rparr>) (cv_buffers ?st1)\<rparr>"
  have st2: "struct_inv ?st2"
    by (rule clear_buffer_struct) (use fl Some in \<open>auto simp: writes_def\<close>)
  have ch: "chunk ?st2 i c = (if i = ino then blk ?st1 i c else chunk ?st1 i c)" for i c
    by (simp add: chunk_def chunk_addr_def dirty_addr_def blk_def block_addr_def cong: option.case_cong)
  have "chunk ?st2 ino c = chunk st ino c" for c
    using ch [of ino c] fl(3) [of c] chunk_clean [of st ino c] da [of c]
    by (auto simp: map_of_eq_None_iff)
  moreover have "frame ino ?st1 ?st2" using ch fl(2) Some by (auto simp: frame_def)
  ultimately have "writes ino (chunk st ino) ?st1 ?st2" using st2 by (simp add: writes_def)
  then show ?thesis
    using writes_trans [OF fl(1)] Some assms by (auto simp: flushInode_def Let_def writes_def)
qed

lemma delete_fields [simp]:
  "ms_inodes (snd (deleteAllChunks ino m)) = ms_inodes m"
  "ms_dentries (snd (deleteAllChunks ino m)) = ms_dentries m"
  "ms_symlinkTargets (snd (deleteAllChunks ino m)) = ms_symlinkTargets m"
  "ms_versioningEnabled (snd (deleteAllChunks ino m)) = ms_versioningEnabled m"
  "ms_inodes (snd (deleteChunksFrom ino ci m)) = ms_inodes m"
  "ms_dentries (snd (deleteChunksFrom ino ci m)) = ms_dentries m"
  "ms_symlinkTargets (snd (deleteChunksFrom ino ci m)) = ms_symlinkTargets m"
  "ms_versioningEnabled (snd (deleteChunksFrom ino ci m)) = ms_versioningEnabled m"
  by (simp_all add: deleteAllChunks_def deleteChunksFrom_def split: option.splits)

text \<open>Forgetting the chunks of a file that satisfy \<open>Q\<close>, and deleting blocks among theirs.\<close>

lemma forget_writes:
  assumes inv: "struct_inv st" and nb: "\<not> mhas (cv_buffers st) ino" and m': "ms_inv m'"
    and fields: "ms_inodes m' = ms_inodes (cv_meta st)" "ms_dentries m' = ms_dentries (cv_meta st)"
      "ms_symlinkTargets m' = ms_symlinkTargets (cv_meta st)" "ms_nextIno m' = ms_nextIno (cv_meta st)"
      "ms_versions m' = ms_versions (cv_meta st)" "ms_versioningEnabled m' = ms_versioningEnabled (cv_meta st)"
    and gk: "\<And>i c. getChunkKey i c m' = (if i = ino \<and> Q c then None else getChunkKey i c (cv_meta st))"
    and ks: "\<And>k. k \<in> set ks \<Longrightarrow> \<exists>c. Q c \<and> key_for ino c k"
  shows "writes ino (\<lambda>c. if Q c then None else chunk st ino c) st
    (st\<lparr>cv_meta := m', cv_store := bs_deleteMany ks (cv_store st)\<rparr>)"
proof -
  let ?st = "st\<lparr>cv_meta := m', cv_store := bs_deleteMany ks (cv_store st)\<rparr>"
  have keep: "key \<notin> set ks" if "getChunkKey i c m' = Some key" for i c key
  proof
    assume "key \<in> set ks"
    then obtain c' where "Q c'" "key_for ino c' key" using ks by blast
    moreover have "getChunkKey i c (cv_meta st) = Some key" using that gk by (simp split: if_splits)
    ultimately show False
      using that gk key_for_unique [of i c key ino c'] inv by (auto simp: struct_inv_def dest: keys_okD)
  qed
  have ad: "dirty_addr ?st = dirty_addr st" by (simp add: fun_eq_iff dirty_addr_def)
  have ab: "block_addr ?st i c = (if i = ino \<and> Q c then None else block_addr st i c)" for i c
    using keep [of i c] gk [of i c] by (auto simp: block_addr_def split: option.splits)
  have ch: "chunk ?st i c = (if i = ino \<and> Q c then None else chunk st i c)" for i c
    using no_dirty [OF nb, of c] by (auto simp: chunk_def chunk_addr_def ad ab split: option.splits)
  have "owns ?st i c a \<Longrightarrow> owns st i c a" for i c a
    by (auto simp: owns_def ad split: if_splits)
  then have "own_ok ?st" using inv own_ok_mono [of st ?st] by (simp add: struct_inv_def)
  moreover have "keys_ok ?st"
    using inv keep gk by (auto simp: struct_inv_def keys_ok_def mhas_def split: if_splits)
  moreover have "is_link m' 1 = is_link (cv_meta st) 1" by (simp add: is_link_def fields)
  ultimately have "struct_inv ?st"
    using inv m' fields by (simp add: struct_inv_def bufs_ok_def vers_ok_def)
  moreover have "frame ino st ?st" using ch gk fields by (simp add: frame_def)
  ultimately show ?thesis using ch by (simp add: writes_def)
qed

lemma drop_chunks_writes:
  assumes "struct_inv st" "\<not> mhas (cv_buffers st) ino"
  shows "writes ino (\<lambda>c. None) st (drop_chunks opts ino st)"
    and "getChunkKey ino c (cv_meta (drop_chunks opts ino st)) = None"
proof -
  let ?ks = "if opt_versioning opts then [] else fst (deleteAllChunks ino (cv_meta st))"
  have eq: "drop_chunks opts ino st =
      st\<lparr>cv_meta := snd (deleteAllChunks ino (cv_meta st)), cv_store := bs_deleteMany ?ks (cv_store st)\<rparr>"
    by (auto simp: drop_chunks_def Let_def case_prod_beta bs_deleteMany_def)
  have ms: "ms_inv (cv_meta st)" using assms(1) by (simp add: struct_inv_def)
  have "\<exists>c. key_for ino c k" if "k \<in> set ?ks" for k
    using that deleteAllChunks_keys [OF ms, of ino] assms(1)
    by (auto simp: struct_inv_def dest: keys_okD split: if_splits)
  then show "writes ino (\<lambda>c. None) st (drop_chunks opts ino st)"
    using forget_writes [OF assms deleteAllChunks_inv [OF ms, of ino], where Q = "\<lambda>_. True" and ks = ?ks]
    by (simp add: eq)
  show "getChunkKey ino c (cv_meta (drop_chunks opts ino st)) = None" by (simp add: eq)
qed

lemma drop_chunks_from_writes:
  assumes "struct_inv st" "\<not> mhas (cv_buffers st) ino"
  shows "writes ino (\<lambda>c. if start \<le> c then None else chunk st ino c) st (drop_chunks_from opts ino start st)"
proof -
  let ?ks = "if opt_versioning opts then [] else fst (deleteChunksFrom ino start (cv_meta st))"
  have eq: "drop_chunks_from opts ino start st =
      st\<lparr>cv_meta := snd (deleteChunksFrom ino start (cv_meta st)), cv_store := bs_deleteMany ?ks (cv_store st)\<rparr>"
    by (auto simp: drop_chunks_from_def Let_def case_prod_beta bs_deleteMany_def)
  have ms: "ms_inv (cv_meta st)" using assms(1) by (simp add: struct_inv_def)
  have "\<exists>c. start \<le> c \<and> key_for ino c k" if "k \<in> set ?ks" for k
    using that deleteChunksFrom_keys [OF ms, of ino start] assms(1)
    by (auto simp: struct_inv_def dest: keys_okD split: if_splits)
  then show ?thesis
    unfolding eq using deleteChunksFrom_inv [OF ms] by (intro forget_writes [OF assms]) simp_all
qed

text \<open>The chunked part of a shrink.\<close>

definition cut_chunk :: "nat \<Rightarrow> nat \<Rightarrow> (nat \<Rightarrow> bytes option) \<Rightarrow> nat \<Rightarrow> bytes option" where
  "cut_chunk cs len f c =
     (if (len - 1) div cs < c then None
      else if c = (len - 1) div cs \<and> 0 < len mod cs then map_option (take (len mod cs)) (f c) else f c)"

lemma shrink_chunks_writes:
  assumes "struct_inv st" "\<not> mhas (cv_buffers st) ino" "ino < ms_nextIno (cv_meta st)"
  obtains st' where "shrink_chunks opts ino len st = (Inr (), st')"
    "writes ino (cut_chunk (opt_chunkSize opts) len (chunk st ino)) st st'"
proof -
  let ?cs = "opt_chunkSize opts" and ?l = "(len - 1) div opt_chunkSize opts"
  let ?st2 = "drop_chunks_from opts ino (Suc ?l) st"
  have w: "writes ino (\<lambda>c. if Suc ?l \<le> c then None else chunk st ino c) st ?st2"
    by (rule drop_chunks_from_writes [OF assms(1,2)])
  then have s2: "struct_inv ?st2" "\<not> mhas (cv_buffers ?st2) ino" "ino < ms_nextIno (cv_meta ?st2)"
    using assms(2,3) frame_buffer by (auto simp: writes_def frame_def)
  have nd: "dirty_addr ?st2 ino c = None" for c using no_dirty [OF s2(2)] .
  have c2: "chunk ?st2 ino c = (if Suc ?l \<le> c then None else chunk st ino c)" for c
    using w by (simp add: writes_def)
  show thesis
  proof (cases "0 < len mod ?cs \<and> getChunkKey ino ?l (cv_meta ?st2) \<noteq> None")
    case False
    then have r: "shrink_chunks opts ino len st = (Inr (), ?st2)" by (auto simp: shrink_chunks_def Let_def split: option.splits)
    have "chunk ?st2 ino ?l = None" if "0 < len mod ?cs"
      using False that nd [of ?l] by (simp add: chunk_def chunk_addr_def block_addr_def)
    then have "cut_chunk ?cs len (chunk st ino) = (\<lambda>c. if Suc ?l \<le> c then None else chunk st ino c)"
      using c2 [of ?l] by (auto simp: cut_chunk_def fun_eq_iff)
    then show thesis using that r w by simp
  next
    case True
    then obtain key where key: "getChunkKey ino ?l (cv_meta ?st2) = Some key" by auto
    then obtain a where a: "mget (bs_blocks (cv_store ?st2)) key = Some a"
      using s2(1) by (auto simp: struct_inv_def dest: keys_okD)
    then have ch: "chunk ?st2 ino ?l = Some (arr a (cv_store ?st2))"
      using nd key by (simp add: chunk_def chunk_addr_def block_addr_def)
    have old: "chunk st ino ?l = Some (arr a (cv_store ?st2))" using c2 [of ?l] ch by simp
    show thesis
    proof (cases "len mod ?cs < length (arr a (cv_store ?st2))")
      case False
      then have "cut_chunk ?cs len (chunk st ino) = (\<lambda>c. if Suc ?l \<le> c then None else chunk st ino c)"
        using old by (auto simp: cut_chunk_def fun_eq_iff)
      moreover have "shrink_chunks opts ino len st = (Inr (), ?st2)"
        using True False key a by (simp add: shrink_chunks_def Let_def bs_read_def)
      ultimately show thesis using that w by simp
    next
      case cut: True
      let ?part = "u8_slice (arr a (cv_store ?st2)) 0 (len mod ?cs)"
      have r: "shrink_chunks opts ino len st = (Inr (), put_chunk opts ino ?l ?part ?st2)"
        using True cut key a by (simp add: shrink_chunks_def Let_def bs_read_def)
      have "writes ino ((chunk ?st2 ino)(?l \<mapsto> ?part)) ?st2 (put_chunk opts ino ?l ?part ?st2)"
        using s2 nd by (intro put_chunk_writes) simp_all
      moreover have "(chunk ?st2 ino)(?l \<mapsto> ?part) = cut_chunk ?cs len (chunk st ino)"
        using c2 True old by (auto simp: cut_chunk_def fun_eq_iff u8_slice_def)
      ultimately have "writes ino (cut_chunk ?cs len (chunk st ino)) ?st2 (put_chunk opts ino ?l ?part ?st2)"
        by simp
      then show thesis using that r writes_trans [OF w] by blast
    qed
  qed
qed

subsection \<open>Byte arrays cut into chunks\<close>

text \<open>The specification: writing at an offset (with a zero-filled gap) and resizing.\<close>

definition overwrite :: "bytes \<Rightarrow> nat \<Rightarrow> bytes \<Rightarrow> bytes" where
  "overwrite xs off data =
     take off (xs @ zeros (off - length xs)) @ data @ drop (off + length data) xs"

definition resize :: "bytes \<Rightarrow> nat \<Rightarrow> bytes" where
  "resize xs n = take n xs @ zeros (n - length xs)"

lemma length_overwrite [simp]: "length (overwrite xs off data) = max (length xs) (off + length data)"
  by (auto simp: overwrite_def)

lemma nth0_overwrite:
  "nth0 (overwrite xs off data) i = (if off \<le> i \<and> i < off + length data then data ! (i - off) else nth0 xs i)"
proof -
  define p where "p = take off (xs @ zeros (off - length xs))"
  have p: "length p = off" "\<And>j. j < off \<Longrightarrow> p ! j = nth0 xs j"
    by (auto simp: p_def nth0_def nth_append zeros_def)
  have "nth0 (p @ data @ drop (off + length data) xs) i =
      (if off \<le> i \<and> i < off + length data then data ! (i - off) else nth0 xs i)"
    using p by (auto simp: nth0_def nth_append)
  then show ?thesis by (simp add: overwrite_def p_def)
qed

lemma length_resize [simp]: "length (resize xs n) = n"
  by (simp add: resize_def)

lemma nth0_resize: "i < n \<Longrightarrow> nth0 (resize xs n) i = nth0 xs i"
  by (auto simp: resize_def nth0_def nth_append zeros_def)

text \<open>The byte array of length \<open>n\<close> that a chunk function describes; holes read as zero.\<close>

definition cbyte :: "nat \<Rightarrow> (nat \<Rightarrow> bytes option) \<Rightarrow> nat \<Rightarrow> byte" where
  "cbyte cs f i = (case f (i div cs) of None \<Rightarrow> 0 | Some d \<Rightarrow> nth0 d (i mod cs))"

definition fbytes :: "nat \<Rightarrow> nat \<Rightarrow> (nat \<Rightarrow> bytes option) \<Rightarrow> bytes" where
  "fbytes cs n f = map (cbyte cs f) [0..<n]"

definition fits :: "nat \<Rightarrow> nat \<Rightarrow> (nat \<Rightarrow> bytes option) \<Rightarrow> bool" where
  "fits cs n f \<longleftrightarrow> (\<forall>c d. f c = Some d \<longrightarrow> length d \<le> cs \<and> c * cs + length d \<le> n)"

lemma length_fbytes [simp]: "length (fbytes cs n f) = n"
  by (simp add: fbytes_def)

lemma nth0_fbytes: "nth0 (fbytes cs n f) i = (if i < n then cbyte cs f i else 0)"
  by (simp add: nth0_def fbytes_def)

lemma fitsD: "fits cs n f \<Longrightarrow> f c = Some d \<Longrightarrow> length d \<le> cs \<and> c * cs + length d \<le> n"
  by (simp add: fits_def)

lemma fits_beyond:
  assumes "fits cs n f" "n \<le> i" shows "cbyte cs f i = 0"
proof (cases "f (i div cs)")
  case (Some d)
  have "i div cs * cs + length d \<le> n" using fitsD [OF assms(1) Some] by simp
  then have "length d \<le> i mod cs" using assms(2) div_mult_mod_eq [of i cs] by linarith
  then show ?thesis by (simp add: cbyte_def Some nth0_beyond)
qed (simp add: cbyte_def)

lemma fits_mono: "fits cs n f \<Longrightarrow> n \<le> m \<Longrightarrow> fits cs m f"
  by (fastforce simp: fits_def)

lemma bytes_eqI:
  "length xs = length ys \<Longrightarrow> (\<And>i. i < length ys \<Longrightarrow> nth0 xs i = nth0 ys i) \<Longrightarrow> xs = ys"
  by (rule list_eq_nth0) auto

text \<open>Writing.\<close>

definition write_chunks :: "nat \<Rightarrow> nat \<Rightarrow> bytes \<Rightarrow> (nat \<Rightarrow> bytes option) \<Rightarrow> nat \<Rightarrow> bytes option" where
  "write_chunks cs off data f c =
     (if c \<in> set [off div cs..<Suc ((off + length data - 1) div cs)]
      then Some (merged cs off data c (f c)) else f c)"

lemma write_chunks_if:
  assumes "0 < cs" "data \<noteq> []"
  shows "write_chunks cs off data f c =
    (if in_range cs off data c then Some (merged cs off data c (f c)) else f c)"
  unfolding write_chunks_def in_range_iff [OF assms] ..

lemma write_chunks_cbyte:
  assumes "0 < cs" "data \<noteq> []"
  shows "cbyte cs (write_chunks cs off data f) i =
    (if off \<le> i \<and> i < off + length data then data ! (i - off) else cbyte cs f i)"
proof -
  have i: "i div cs * cs + i mod cs = i" "i mod cs < cs" using assms(1) by simp_all
  show ?thesis
  proof (cases "in_range cs off data (i div cs)")
    case True
    then have "write_chunks cs off data f (i div cs) = Some (merged cs off data (i div cs) (f (i div cs)))"
      using assms by (simp add: write_chunks_if)
    then have "cbyte cs (write_chunks cs off data f) i = nth0 (merged cs off data (i div cs) (f (i div cs))) (i mod cs)"
      by (simp add: cbyte_def)
    also have "\<dots> = (if off \<le> i \<and> i < off + length data then data ! (i - off)
        else case f (i div cs) of None \<Rightarrow> 0 | Some x \<Rightarrow> nth0 x (i mod cs))"
      using merged_nth0 [OF True, of "f (i div cs)" "i mod cs"] i by simp
    finally show ?thesis by (simp add: cbyte_def)
  next
    case False
    then have "write_chunks cs off data f (i div cs) = f (i div cs)"
      using assms by (simp add: write_chunks_if)
    moreover have "\<not> (off \<le> i \<and> i < off + length data)"
    proof
      assume "off \<le> i \<and> i < off + length data"
      then have "off < i div cs * cs + cs" "i div cs * cs < off + length data" using i by linarith+
      then show False using False assms by (simp add: in_range_def)
    qed
    ultimately show ?thesis by (auto simp: cbyte_def)
  qed
qed

lemma write_chunks_bytes:
  assumes "0 < cs" "data \<noteq> []" "fits cs n f"
  shows "fbytes cs (max n (off + length data)) (write_chunks cs off data f) = overwrite (fbytes cs n f) off data"
  by (rule bytes_eqI)
    (auto simp: nth0_fbytes nth0_overwrite write_chunks_cbyte [OF assms(1,2)] fits_beyond [OF assms(3)])

lemma write_chunks_fits:
  assumes "0 < cs" "data \<noteq> []" "fits cs n f"
  shows "fits cs (max n (off + length data)) (write_chunks cs off data f)"
  unfolding fits_def
proof (intro allI impI)
  fix c d assume c: "write_chunks cs off data f c = Some d"
  show "length d \<le> cs \<and> c * cs + length d \<le> max n (off + length data)"
  proof (cases "in_range cs off data c")
    case True
    then have "d = merged cs off data c (f c)" using c assms by (simp add: write_chunks_if)
    then have "length d = max (writeEnd cs off (length data) c) (case f c of None \<Rightarrow> 0 | Some x \<Rightarrow> length x)"
      using merged_length [OF True] by simp
    moreover have "writeEnd cs off (length data) c \<le> cs" "c * cs + writeEnd cs off (length data) c \<le> off + length data"
      using write_bounds [OF True] True by (auto simp: writeEnd_def in_range_def)
    ultimately show ?thesis using fitsD [OF assms(3), of c] by (auto split: option.splits)
  next
    case False
    then have "f c = Some d" using c assms by (simp add: write_chunks_if)
    then show ?thesis using fitsD [OF assms(3)] by fastforce
  qed
qed

text \<open>Cutting content into chunks.\<close>

definition split_chunks :: "nat \<Rightarrow> bytes \<Rightarrow> nat \<Rightarrow> bytes option" where
  "split_chunks cs x c = (if c \<in> set [0..<numChunks cs (length x)] then Some (chunk_of cs x c) else None)"

lemma numChunks_iff: "0 < cs \<Longrightarrow> c < numChunks cs n \<longleftrightarrow> c * cs < n"
proof -
  assume cs: "0 < cs"
  have "c < (n + cs - 1) div cs \<longleftrightarrow> Suc c * cs \<le> n + cs - 1"
    using cs less_eq_div_iff_mult_less_eq [of cs "Suc c" "n + cs - 1"] by (simp add: Suc_le_eq)
  also have "\<dots> \<longleftrightarrow> c * cs < n" using cs by auto
  finally show ?thesis by (simp add: numChunks_def)
qed

lemma split_chunks_bytes: "0 < cs \<Longrightarrow> fbytes cs (length x) (split_chunks cs x) = x"
proof (rule bytes_eqI)
  fix i assume cs: "0 < cs" and i: "i < length x"
  have e: "i div cs * cs + i mod cs = i" "i mod cs < cs" using cs by simp_all
  then have "i div cs * cs < length x" using i by linarith
  then have "split_chunks cs x (i div cs) = Some (chunk_of cs x (i div cs))"
    using numChunks_iff [OF cs] by (simp add: split_chunks_def)
  then have "cbyte cs (split_chunks cs x) i = nth0 (chunk_of cs x (i div cs)) (i mod cs)"
    by (simp add: cbyte_def)
  also have "i mod cs < length x - i div cs * cs" using e i by linarith
  then have "nth0 (chunk_of cs x (i div cs)) (i mod cs) = nth0 x i"
    using e by (simp add: chunk_of_def nth0_u8_slice min_def)
  finally show "nth0 (fbytes cs (length x) (split_chunks cs x)) i = nth0 x i" using i by (simp add: nth0_fbytes)
qed simp

lemma split_chunks_fits: "0 < cs \<Longrightarrow> fits cs (length x) (split_chunks cs x)"
  using numChunks_iff [of cs] by (auto simp: fits_def split_chunks_def chunk_of_def min_def split: if_splits)

text \<open>Shrinking.\<close>

lemma cut_chunk_cbyte:
  assumes "0 < cs" "0 < len" "i < len"
  shows "cbyte cs (cut_chunk cs len f) i = cbyte cs f i"
proof -
  let ?l = "(len - 1) div cs"
  have e: "i div cs * cs + i mod cs = i" "i mod cs < cs" using assms(1) by simp_all
  have le: "i div cs \<le> ?l" using assms by (intro div_le_mono) simp
  show ?thesis
  proof (cases "i div cs = ?l \<and> 0 < len mod cs")
    case True
    have "len - 1 = ?l * cs + (len - 1) mod cs" by simp
    moreover have "len mod cs = Suc ((len - 1) mod cs)"
      using True assms(2) by (metis Suc_pred' mod_Suc not_gr_zero)
    ultimately have "i mod cs < len mod cs" using True e(1) assms(3) by (metis less_Suc_eq_le Suc_pred' assms(2) add_le_cancel_left)
    then show ?thesis using True by (auto simp: cut_chunk_def cbyte_def nth0_def split: option.splits)
  next
    case False
    then show ?thesis using le by (auto simp: cut_chunk_def cbyte_def)
  qed
qed

lemma cut_chunk_bytes:
  "0 < cs \<Longrightarrow> 0 < len \<Longrightarrow> len \<le> n \<Longrightarrow> fbytes cs len (cut_chunk cs len f) = resize (fbytes cs n f) len"
  by (rule bytes_eqI) (simp_all add: nth0_fbytes nth0_resize cut_chunk_cbyte)

lemma cut_chunk_fits:
  assumes "0 < cs" "0 < len" "fits cs n f"
  shows "fits cs len (cut_chunk cs len f)"
  unfolding fits_def
proof (intro allI impI)
  fix c d assume c: "cut_chunk cs len f c = Some d"
  let ?l = "(len - 1) div cs"
  have le: "c \<le> ?l" using c by (auto simp: cut_chunk_def split: if_splits)
  have len: "len = len div cs * cs + len mod cs" by simp
  show "length d \<le> cs \<and> c * cs + length d \<le> len"
  proof (cases "c = ?l \<and> 0 < len mod cs")
    case True
    then obtain d' where "f c = Some d'" "d = take (len mod cs) d'" using c by (auto simp: cut_chunk_def)
    moreover have "?l = len div cs" using True assms(2) by (metis Suc_pred' div_Suc neq0_conv)
    moreover have "length d \<le> len mod cs" "len mod cs < cs" using calculation(2) assms(1) by simp_all
    moreover have "c * cs = len div cs * cs" using True calculation(3) by simp
    ultimately show ?thesis using len by linarith
  next
    case False
    then have d: "length d \<le> cs" using c fitsD [OF assms(3)] le by (auto simp: cut_chunk_def split: if_splits)
    have "c * cs + cs \<le> len"
    proof (cases "len mod cs = 0")
      case True
      have "?l * cs \<le> len - 1" by simp
      then have "?l * cs < len div cs * cs" using True len assms(2) by linarith
      then have "?l < len div cs" by simp
      then have "Suc c \<le> len div cs" using le by simp
      then have "Suc c * cs \<le> len div cs * cs" by (rule mult_le_mono1)
      then have "c * cs + cs \<le> len div cs * cs" by simp
      then show ?thesis using len by linarith
    next
      case m: False
      then have "Suc c \<le> ?l" using False le by simp
      then have "Suc c * cs \<le> ?l * cs" by (rule mult_le_mono1)
      also have "\<dots> \<le> len - 1" by simp
      finally show ?thesis by simp
    qed
    then show ?thesis using d by linarith
  qed
qed

text \<open>Growing.\<close>

lemma grow_bytes: "fits cs n f \<Longrightarrow> n \<le> len \<Longrightarrow> fbytes cs len f = resize (fbytes cs n f) len"
  by (rule bytes_eqI) (auto simp: nth0_fbytes nth0_resize fits_beyond)

subsection \<open>Reading\<close>

text \<open>
  A loop that copies chunks into a zeroed result, for a list of chunks with distinct indices that
  fit: the result describes the chunks of the list over what was there before.
\<close>

fun copy_all :: "nat \<Rightarrow> (nat \<times> bytes) list \<Rightarrow> bytes \<Rightarrow> exn + bytes" where
  "copy_all cs [] r = Inr r"
| "copy_all cs ((c, d) # cds) r =
     (case u8_set r d (c * cs) of Inl e \<Rightarrow> Inl e | Inr r' \<Rightarrow> copy_all cs cds r')"

lemma overlay_dirty_copy:
  "overlay_dirty cs bs ds r = copy_all cs (map (\<lambda>(c, a). (c, arr a bs)) ds) r"
  by (induction ds arbitrary: r) (auto split: sum.splits)

lemma overlay_blocks_copy:
  "(\<And>c k. (c, k) \<in> set es \<Longrightarrow> \<exists>a. mget (bs_blocks bs) k = Some a) \<Longrightarrow>
     overlay_blocks cs bs dirty es r =
       copy_all cs (map (\<lambda>(c, k). (c, the (bs_block bs k))) (filter (\<lambda>(c, k). \<not> mhas dirty c) es)) r"
proof (induction es arbitrary: r)
  case (Cons p es)
  obtain c k where p: "p = (c, k)" by (cases p)
  have "\<exists>a. mget (bs_blocks bs) k = Some a" using Cons.prems [of c k] p by simp
  then obtain a where "mget (bs_blocks bs) k = Some a" by blast
  then show ?case using Cons by (auto simp: p bs_read_def bs_block_def split: sum.splits)
qed simp

lemma copy_all_result:
  assumes "0 < cs" "mwf cds" "\<And>c d. (c, d) \<in> set cds \<Longrightarrow> length d \<le> cs \<and> c * cs + length d \<le> length r"
  shows "\<exists>r'. copy_all cs cds r = Inr r' \<and> length r' = length r \<and>
    (\<forall>i. nth0 r' i = (case map_of cds (i div cs) of
        Some d \<Rightarrow> if i mod cs < length d then nth0 d (i mod cs) else nth0 r i
      | None \<Rightarrow> nth0 r i))"
  using assms(2,3)
proof (induction cds arbitrary: r)
  case (Cons p cds)
  obtain c d where p: "p = (c, d)" by (cases p)
  have d: "length d \<le> cs" "c * cs + length d \<le> length r" using Cons.prems(2) [of c d] p by auto
  obtain r1 where r1: "u8_set r d (c * cs) = Inr r1" using u8_set_some [OF d(2)] by blast
  have l1: "length r1 = length r" using u8_set_length [OF r1] .
  have "mwf cds" "map_of cds c = None" using Cons.prems(1) p by (auto simp: map_of_eq_None_iff)
  have "\<exists>r'. copy_all cs cds r1 = Inr r' \<and> length r' = length r1 \<and>
    (\<forall>i. nth0 r' i = (case map_of cds (i div cs) of
        Some d \<Rightarrow> if i mod cs < length d then nth0 d (i mod cs) else nth0 r1 i | None \<Rightarrow> nth0 r1 i))"
    using Cons.prems l1 \<open>mwf cds\<close> by (intro Cons.IH) auto
  then obtain r' where r': "copy_all cs cds r1 = Inr r'" "length r' = length r1"
    and n': "\<And>i. nth0 r' i = (case map_of cds (i div cs) of
        Some d \<Rightarrow> if i mod cs < length d then nth0 d (i mod cs) else nth0 r1 i | None \<Rightarrow> nth0 r1 i)" by blast
  have n1: "nth0 r1 i = (if i div cs = c \<and> i mod cs < length d then nth0 d (i mod cs) else nth0 r i)" for i
  proof -
    have e: "i div cs * cs + i mod cs = i" "i mod cs < cs" using assms(1) by simp_all
    have "c * cs \<le> i \<and> i < c * cs + length d \<longleftrightarrow> i div cs = c \<and> i mod cs < length d"
    proof
      assume a: "c * cs \<le> i \<and> i < c * cs + length d"
      then have "i div cs = c" using d(1) assms(1) by (intro div_nat_eqI) (auto simp: mult.commute)
      moreover have "i mod cs < length d" using a e(1) \<open>i div cs = c\<close> by auto
      ultimately show "i div cs = c \<and> i mod cs < length d" by blast
    qed (use e in auto)
    moreover have "i - c * cs = i mod cs" if "i div cs = c" using e(1) that by auto
    ultimately show ?thesis using u8_set_nth0 [OF r1, of i] by (auto simp: nth0_def)
  qed
  have "nth0 r' i = (case map_of (p # cds) (i div cs) of
        Some d \<Rightarrow> if i mod cs < length d then nth0 d (i mod cs) else nth0 r i | None \<Rightarrow> nth0 r i)" for i
  proof (cases "i div cs = c")
    case True
    then show ?thesis using n' [of i] n1 [of i] \<open>map_of cds c = None\<close> by (simp add: p)
  next
    case False
    then have "nth0 r1 i = nth0 r i" using n1 [of i] by simp
    then show ?thesis using n' [of i] False by (cases "map_of cds (i div cs)") (simp_all add: p)
  qed
  then show ?case using r1 r' l1 by (simp add: p)
qed simp

text \<open>The chunk function of a list of dirty chunks over a list of blocks.\<close>

lemma copy_all_fbytes:
  assumes "0 < cs" "mwf cds" "\<And>c d. (c, d) \<in> set cds \<Longrightarrow> length d \<le> cs \<and> c * cs + length d \<le> n"
  shows "\<exists>r. copy_all cs cds (zeros n) = Inr r \<and> length r = n \<and> (\<forall>i. nth0 r i = cbyte cs (map_of cds) i)"
proof -
  have "\<exists>r'. copy_all cs cds (zeros n) = Inr r' \<and> length r' = length (zeros n) \<and>
    (\<forall>i. nth0 r' i = (case map_of cds (i div cs) of
        Some d \<Rightarrow> if i mod cs < length d then nth0 d (i mod cs) else nth0 (zeros n) i
      | None \<Rightarrow> nth0 (zeros n) i))"
    using assms(3) by (intro copy_all_result [OF assms(1,2)]) simp
  then obtain r where r: "copy_all cs cds (zeros n) = Inr r" "length r = n"
    and n: "\<And>i. nth0 r i = (case map_of cds (i div cs) of
        Some d \<Rightarrow> if i mod cs < length d then nth0 d (i mod cs) else nth0 (zeros n) i
      | None \<Rightarrow> nth0 (zeros n) i)" by auto
  have "nth0 r i = cbyte cs (map_of cds) i" for i
    using n [of i] by (cases "map_of cds (i div cs)") (simp_all add: cbyte_def nth0_beyond split: if_splits)
  with r show ?thesis by blast
qed

lemma overlay_chunks:
  assumes inv: "struct_inv st" and cs: "0 < cs" and fit: "fits cs n (chunk st ino)"
  shows "\<exists>r. overlay_blocks cs (cv_store st)
      (case mget (cv_buffers st) ino of Some b \<Rightarrow> wb_dirtyChunks b | None \<Rightarrow> [])
      (getAllChunkKeys ino (cv_meta st)) (zeros n) = Inr r \<and>
    overlay_dirty cs (cv_store st)
      (case mget (cv_buffers st) ino of Some b \<Rightarrow> wb_dirtyChunks b | None \<Rightarrow> []) r =
      Inr (fbytes cs n (chunk st ino))"
proof -
  define D where "D = (case mget (cv_buffers st) ino of Some b \<Rightarrow> wb_dirtyChunks b | None \<Rightarrow> [])"
  let ?bs = "cv_store st" and ?es = "getAllChunkKeys ino (cv_meta st)"
  have ms: "ms_inv (cv_meta st)" and keys: "keys_ok st" using inv by (simp_all add: struct_inv_def)
  have da: "dirty_addr st ino c = mget D c" for c by (simp add: D_def dirty_addr_def split: option.splits)
  have wfD: "mwf D" using inv by (auto simp: D_def struct_inv_def bufs_ok_def split: option.splits)
  have esk: "(c, k) \<in> set ?es \<longleftrightarrow> getChunkKey ino c (cv_meta st) = Some k" for c k
    using getAllChunkKeys_set [OF ms] by simp
  have wfe: "mwf ?es" using getAllChunkKeys_sorted [OF ms, of ino] by (simp add: strict_sorted_iff)
  let ?cb = "map (\<lambda>(c, k). (c, the (bs_block ?bs k))) (filter (\<lambda>(c, k). \<not> mhas D c) ?es)"
  have keyex: "\<exists>a. mget (bs_blocks ?bs) k = Some a" if "(c, k) \<in> set ?es" for c k
    using that esk keys keys_okD by blast
  have fstb: "map fst ?cb = map fst (filter (\<lambda>(c, k). \<not> mhas D c) ?es)" by (simp add: case_prod_beta)
  have wfb: "mwf ?cb" unfolding fstb using wfe by (rule mwf_filter)
  have cb: "map_of ?cb c = (if mhas D c then None else chunk st ino c)" for c
  proof -
    have "map_of (filter (\<lambda>(c, k). \<not> mhas D c) ?es) c = (if mhas D c then None else map_of ?es c)"
      by (simp add: map_of_filter_key)
    moreover have "map_of ?es c = getChunkKey ino c (cv_meta st)"
      using esk wfe by (cases "getChunkKey ino c (cv_meta st)") (auto simp: map_of_eq_None_iff)
    moreover have "map_of ?cb c = map_option (\<lambda>k. the (bs_block ?bs k)) (map_of (filter (\<lambda>(c, k). \<not> mhas D c) ?es) c)"
      by (simp add: map_of_map)
    moreover have "chunk st ino c = map_option (\<lambda>k. the (bs_block ?bs k)) (getChunkKey ino c (cv_meta st))"
      if "\<not> mhas D c"
      using that da [of c] keys_okD [OF keys, of ino c]
      by (cases "getChunkKey ino c (cv_meta st)")
        (auto simp: chunk_def chunk_addr_def block_addr_def mhas_def bs_block_def)
    ultimately show ?thesis by simp
  qed
  have "length d \<le> cs \<and> c * cs + length d \<le> n" if "(c, d) \<in> set ?cb" for c d
    using map_of_is_SomeI [OF wfb that] cb [of c] fitsD [OF fit, of c d] by (simp split: if_splits)
  then obtain r where r: "copy_all cs ?cb (zeros n) = Inr r" "length r = n" "\<And>i. nth0 r i = cbyte cs (map_of ?cb) i"
    using copy_all_fbytes [OF cs wfb] by blast
  let ?cd = "map (\<lambda>(c, a). (c, arr a ?bs)) D"
  have wfd: "mwf ?cd" using wfD by (simp add: case_prod_beta comp_def)
  have cd: "map_of ?cd c = (if mhas D c then chunk st ino c else None)" for c
    using da [of c] by (cases "mget D c") (auto simp: map_of_map chunk_def chunk_addr_def mhas_def)
  have "length d \<le> cs \<and> c * cs + length d \<le> length r" if "(c, d) \<in> set ?cd" for c d
    using map_of_is_SomeI [OF wfd that] cd [of c] fitsD [OF fit, of c d] r(2) by (simp split: if_splits)
  from copy_all_result [OF cs wfd this] obtain r' where r': "copy_all cs ?cd r = Inr r'" "length r' = n"
    "\<And>i. nth0 r' i = (case map_of ?cd (i div cs) of
        Some d \<Rightarrow> if i mod cs < length d then nth0 d (i mod cs) else nth0 r i | None \<Rightarrow> nth0 r i)"
    using r(2) by blast
  have "r' = fbytes cs n (chunk st ino)"
  proof (rule bytes_eqI)
    fix i
    assume "i < length (fbytes cs n (chunk st ino))"
    moreover have "nth0 r' i = cbyte cs (chunk st ino) i"
    proof (cases "mhas D (i div cs)")
      case True
      then have "nth0 r i = 0" using r(3) [of i] cb [of "i div cs"] by (simp add: cbyte_def)
      then show ?thesis
        using True r'(3) [of i] cd [of "i div cs"]
        by (cases "chunk st ino (i div cs)") (simp_all add: cbyte_def nth0_beyond split: if_splits)
    next
      case False
      then show ?thesis
        using r'(3) [of i] r(3) [of i] cb [of "i div cs"] cd [of "i div cs"] by (simp add: cbyte_def)
    qed
    ultimately show "nth0 r' i = nth0 (fbytes cs n (chunk st ino)) i" by (simp add: nth0_fbytes)
  qed (simp add: r'(2))
  then show ?thesis
    unfolding D_def [symmetric]
    using r(1) r'(1) overlay_blocks_copy [of ?es ?bs cs D "zeros n"] keyex overlay_dirty_copy [of cs ?bs D r]
    by auto
qed

text \<open>The positional read: how far the result is filled before chunk \<open>ci\<close>, and one round.\<close>

definition filled :: "nat \<Rightarrow> nat \<Rightarrow> nat \<Rightarrow> nat \<Rightarrow> nat" where
  "filled cs off len ci = min (max off (ci * cs)) (off + len) - off"

definition prefix_read :: "nat \<Rightarrow> (nat \<Rightarrow> bytes option) \<Rightarrow> nat \<Rightarrow> nat \<Rightarrow> nat \<Rightarrow> bytes \<Rightarrow> bool" where
  "prefix_read cs f off len w r \<longleftrightarrow> length r = len \<and> (\<forall>j. nth0 r j = (if j < w then cbyte cs f (off + j) else 0))"

lemma read_bounds:
  assumes "off < ci * cs + cs" "ci * cs < off + len"
  shows "filled cs off len ci + (readEnd cs off len ci - readStart cs off ci) = filled cs off len (Suc ci)"
    and "off + filled cs off len ci = ci * cs + readStart cs off ci"
    and "readEnd cs off len ci \<le> cs" "filled cs off len (Suc ci) \<le> len"
    and "readStart cs off ci \<le> readEnd cs off len ci"
  using assms by (auto simp: filled_def readEnd_def readStart_def min_def max_def)

lemma cbyte_at: "k < cs \<Longrightarrow> cbyte cs f (c * cs + k) = (case f c of None \<Rightarrow> 0 | Some d \<Rightarrow> nth0 d k)"
  by (cases "f c") (simp_all add: cbyte_def)

lemma prefix_read_hole:
  assumes "prefix_read cs f off len (filled cs off len ci) r" "f ci = None"
    and "off < ci * cs + cs" "ci * cs < off + len"
  shows "prefix_read cs f off len (filled cs off len (Suc ci)) r"
proof -
  let ?w = "filled cs off len ci"
  note b = read_bounds [OF assms(3,4)]
  have "cbyte cs f (off + j) = 0" if "?w \<le> j" "j < filled cs off len (Suc ci)" for j
  proof -
    have "off + j = ci * cs + (readStart cs off ci + (j - ?w))" "readStart cs off ci + (j - ?w) < cs"
      using b that by linarith+
    then show ?thesis using cbyte_at [of _ cs f ci] assms(2) by simp
  qed
  moreover have "?w \<le> filled cs off len (Suc ci)" using b(1) by linarith
  ultimately show ?thesis using assms(1) by (auto simp: prefix_read_def not_less)
qed

lemma prefix_read_chunk:
  assumes pre: "prefix_read cs f off len (filled cs off len ci) r" and f: "f ci = Some d"
    and rng: "off < ci * cs + cs" "ci * cs < off + len"
    and sl: "sl = take (readEnd cs off len ci - readStart cs off ci) (drop (readStart cs off ci) d)"
  shows "\<exists>r'. u8_set r sl (filled cs off len ci) = Inr r' \<and> prefix_read cs f off len (filled cs off len (Suc ci)) r'"
proof -
  let ?w = "filled cs off len ci" and ?w' = "filled cs off len (Suc ci)" and ?rs = "readStart cs off ci"
  note b = read_bounds [OF rng]
  have lsl: "length sl \<le> readEnd cs off len ci - ?rs" by (simp add: sl)
  have "?w + length sl \<le> length r" using lsl b pre by (simp add: prefix_read_def)
  then obtain r' where r': "u8_set r sl ?w = Inr r'" using u8_set_some by blast
  have nslice: "nth0 sl k = (if k < readEnd cs off len ci - ?rs then nth0 d (?rs + k) else 0)" for k
    by (auto simp: sl nth0_def)
  have val: "cbyte cs f (off + j) = nth0 sl (j - ?w)" if "?w \<le> j" "j < ?w'" for j
  proof -
    have "off + j = ci * cs + (?rs + (j - ?w))" "?rs + (j - ?w) < cs" "j - ?w < readEnd cs off len ci - ?rs"
      using b that by linarith+
    then show ?thesis using cbyte_at [of _ cs f ci] f nslice by simp
  qed
  have "nth0 r' j = (if j < ?w' then cbyte cs f (off + j) else 0)" for j
  proof -
    consider "j < ?w" | "?w \<le> j" "j < ?w'" | "?w' \<le> j" by linarith
    then show ?thesis
    proof cases
      case 1
      then show ?thesis using u8_set_nth0 [OF r', of j] pre b(1) by (auto simp: prefix_read_def)
    next
      case 2
      have "nth0 r j = 0" using 2(1) pre by (simp add: prefix_read_def)
      moreover have "j < ?w + length sl \<longleftrightarrow> j - ?w < length sl" using 2(1) by linarith
      ultimately show ?thesis
        using 2 u8_set_nth0 [OF r', of j] val [OF 2] by (simp add: nth0_def [of sl])
    next
      case 3
      then show ?thesis using u8_set_nth0 [OF r', of j] pre b(1) lsl by (auto simp: prefix_read_def)
    qed
  qed
  then show ?thesis using r' u8_set_length [OF r'] pre by (auto simp: prefix_read_def)
qed

lemma pread_loop_result:
  assumes inv: "struct_inv st" and cs: "0 < cs" and len: "0 < len"
    and D: "D = (case mget (cv_buffers st) ino of Some b \<Rightarrow> wb_dirtyChunks b | None \<Rightarrow> [])"
    and ci: "off < ci * cs + cs" "ci \<le> Suc ((off + len - 1) div cs)"
    and pre: "prefix_read cs (chunk st ino) off len (filled cs off len ci) r"
  shows "pread_loop cs ino off len D st [ci..<Suc ((off + len - 1) div cs)] r (filled cs off len ci) =
    Inr (map (\<lambda>j. cbyte cs (chunk st ino) (off + j)) [0..<len])"
  using ci pre
proof (induction "Suc ((off + len - 1) div cs) - ci" arbitrary: ci r)
  case 0
  then have ci: "ci = Suc ((off + len - 1) div cs)" by simp
  have "off + len - 1 < ci * cs" using cs ci by (metis dividend_less_times_div mult.commute mult_Suc add.commute)
  then have "filled cs off len ci = len" using len by (simp add: filled_def)
  then have "r = map (\<lambda>j. cbyte cs (chunk st ino) (off + j)) [0..<len]"
    using 0(4) unfolding prefix_read_def
    by (intro nth_equalityI) (simp, metis (no_types, lifting) add_0 diff_zero length_upt nth0_def nth_map nth_upt)
  then show ?case using ci by simp
next
  case (Suc k)
  let ?e = "Suc ((off + len - 1) div cs)"
  have lt: "ci < ?e" using Suc(2) by simp
  then have "ci * cs \<le> off + len - 1" using cs by (simp add: less_eq_div_iff_mult_less_eq less_Suc_eq_le)
  then have rng: "off < ci * cs + cs" "ci * cs < off + len" using Suc(3) len by auto
  have upt: "[ci..<?e] = ci # [Suc ci..<?e]" using lt by (rule upt_conv_Cons)
  have IH: "pread_loop cs ino off len D st [Suc ci..<?e] r' (filled cs off len (Suc ci)) =
      Inr (map (\<lambda>j. cbyte cs (chunk st ino) (off + j)) [0..<len])"
    if "prefix_read cs (chunk st ino) off len (filled cs off len (Suc ci)) r'" for r'
    using Suc(1) [of "Suc ci" r'] Suc(2) rng lt that by (simp del: upt_Suc)
  note b = read_bounds [OF rng]
  let ?rs = "readStart cs off ci" and ?n = "readEnd cs off len ci - readStart cs off ci"
  have da: "dirty_addr st ino ci = mget D ci" by (simp add: D dirty_addr_def split: option.splits)
  show ?case
  proof (cases "chunk st ino ci")
    case None
    then have "mget D ci = None" "getChunkKey ino ci (cv_meta st) = None"
      using da inv keys_okD [of st ino ci]
      by (auto simp: chunk_def chunk_addr_def block_addr_def struct_inv_def split: option.splits)
    then show ?thesis
      unfolding upt using IH [OF prefix_read_hole [OF Suc(5) None rng]] b(1) by (simp add: Let_def del: upt_Suc)
  next
    case (Some d)
    obtain r' where r': "u8_set r (take ?n (drop ?rs d)) (filled cs off len ci) = Inr r'"
      "prefix_read cs (chunk st ino) off len (filled cs off len (Suc ci)) r'"
      using prefix_read_chunk [OF Suc(5) Some rng refl] by blast
    show ?thesis
    proof (cases "mget D ci")
      case (Some a)
      then have "d = arr a (cv_store st)" using da \<open>chunk st ino ci = Some d\<close> chunk_dirty by simp
      then show ?thesis
        unfolding upt using Some r' IH b(1) by (simp add: Let_def u8_slice_def del: upt_Suc)
    next
      case None
      then have "chunk_addr st ino ci = block_addr st ino ci" using da by (simp add: chunk_addr_def)
      then obtain key a where "getChunkKey ino ci (cv_meta st) = Some key"
        "mget (bs_blocks (cv_store st)) key = Some a" "d = arr a (cv_store st)"
        using \<open>chunk st ino ci = Some d\<close> by (auto simp: chunk_def block_addr_def split: option.splits)
      then show ?thesis
        unfolding upt using None r' IH b(1) by (simp add: Let_def mem_blocks.readRange_block bs_block_def del: upt_Suc)
    qed
  qed
qed

end
