(* ===== verification/Chunked_Refine.thy ===== *)
theory Chunked_Refine
  imports Chunked_Content
begin

section \<open>The operations of the chunked file system\<close>

text \<open>
  The invariant of the whole file system, that its operations keep it, and the refinement of reads,
  writes, truncation and flushing to operations on byte arrays.
\<close>

subsection \<open>The invariant\<close>

definition file_ok :: "nat \<Rightarrow> CVfs \<Rightarrow> nat \<Rightarrow> InodeMeta \<Rightarrow> bool" where
  "file_ok cs st ino meta \<longleftrightarrow>
     (case im_storageMode meta of
        SM_inline \<Rightarrow> (\<forall>c. getChunkKey ino c (cv_meta st) = None) \<and> \<not> mhas (cv_buffers st) ino \<and>
          (im_type meta = IT_file \<longrightarrow> im_size meta = length (inline_bytes meta))
      | SM_chunked \<Rightarrow> fits cs (im_size meta) (chunk st ino) \<and>
          (\<forall>b. mget (cv_buffers st) ino = Some b \<longrightarrow> wb_bufferedSize b = im_size meta))"

definition fcontent :: "nat \<Rightarrow> CVfs \<Rightarrow> nat \<Rightarrow> InodeMeta \<Rightarrow> bytes" where
  "fcontent cs st ino meta =
     (case im_storageMode meta of
        SM_inline \<Rightarrow> inline_bytes meta
      | SM_chunked \<Rightarrow> fbytes cs (im_size meta) (chunk st ino))"

definition dents_ok :: "MetaStore \<Rightarrow> bool" where
  "dents_ok m \<longleftrightarrow> (\<forall>p name c. lookup p name m = Some c \<longrightarrow> c < ms_nextIno m)"

definition cv_inv :: "ChunkedVfsOptions \<Rightarrow> CVfs \<Rightarrow> bool" where
  "cv_inv opts st \<longleftrightarrow> 0 < opt_chunkSize opts \<and> struct_inv st \<and>
     (\<forall>ino. mhas (cv_buffers st) ino \<longrightarrow> opt_writeBuffering opts) \<and> dents_ok (cv_meta st) \<and>
     (\<forall>ino meta. getInode ino (cv_meta st) = Some meta \<longrightarrow> file_ok (opt_chunkSize opts) st ino meta)"

lemma cv_invD:
  "cv_inv opts st \<Longrightarrow> 0 < opt_chunkSize opts" "cv_inv opts st \<Longrightarrow> struct_inv st"
  "cv_inv opts st \<Longrightarrow> mhas (cv_buffers st) ino \<Longrightarrow> opt_writeBuffering opts"
  "cv_inv opts st \<Longrightarrow> getInode ino (cv_meta st) = Some meta \<Longrightarrow> file_ok (opt_chunkSize opts) st ino meta"
  "cv_inv opts st \<Longrightarrow> dents_ok (cv_meta st)"
  unfolding cv_inv_def by blast+

lemma cv_invI:
  assumes "0 < opt_chunkSize opts" "struct_inv st"
    and "\<And>ino. mhas (cv_buffers st) ino \<Longrightarrow> opt_writeBuffering opts" "dents_ok (cv_meta st)"
    and "\<And>ino meta. getInode ino (cv_meta st) = Some meta \<Longrightarrow> file_ok (opt_chunkSize opts) st ino meta"
  shows "cv_inv opts st"
  using assms unfolding cv_inv_def by blast

lemma cv_new_inv:
  assumes "0 < opt_chunkSize opts" shows "cv_inv opts (cv_new now opts)"
proof (rule cv_invI [OF assms])
  have "ms_inv (cv_meta (cv_new now opts))" by (simp add: cv_new_def ms_new_inv)
  then show "struct_inv (cv_new now opts)"
    by (simp add: struct_inv_def)
      (simp add: cv_new_def own_ok_def owns_def dirty_addr_def bs_new_def keys_ok_def bufs_ok_def vers_ok_def
        is_link_def ms_new_def getChunkKey_def)
qed (auto simp: cv_new_def ms_new_def getChunkKey_def getInode_def file_ok_def dents_ok_def lookup_def split: if_splits)

text \<open>What an operation on one file may touch.\<close>

definition touched :: "nat \<Rightarrow> CVfs \<Rightarrow> CVfs \<Rightarrow> bool" where
  "touched ino st st' \<longleftrightarrow>
     (\<forall>i. i \<noteq> ino \<longrightarrow> getInode i (cv_meta st') = getInode i (cv_meta st) \<and>
        map_option wb_bufferedSize (mget (cv_buffers st') i) = map_option wb_bufferedSize (mget (cv_buffers st) i) \<and>
        (\<forall>c. getChunkKey i c (cv_meta st') = getChunkKey i c (cv_meta st) \<and> chunk st' i c = chunk st i c)) \<and>
     map_option im_type (getInode ino (cv_meta st')) = map_option im_type (getInode ino (cv_meta st)) \<and>
     ms_dentries (cv_meta st') = ms_dentries (cv_meta st) \<and>
     ms_symlinkTargets (cv_meta st') = ms_symlinkTargets (cv_meta st) \<and>
     ms_nextIno (cv_meta st') = ms_nextIno (cv_meta st)"

lemma touched_refl [simp]: "touched ino st st"
  by (simp add: touched_def)

lemma touched_trans: "touched ino a b \<Longrightarrow> touched ino b c \<Longrightarrow> touched ino a c"
  by (simp add: touched_def)

lemma frame_touched: "frame ino st st' \<Longrightarrow> touched ino st st'"
  by (simp add: frame_def touched_def getInode_def)

lemma touched_tree: "touched ino st st' \<Longrightarrow> same_tree (cv_meta st) (cv_meta st')"
proof -
  assume t: "touched ino st st'"
  have "map_option im_type (getInode i (cv_meta st')) = map_option im_type (getInode i (cv_meta st))" for i
    using t by (cases "i = ino") (simp_all add: touched_def)
  then show ?thesis using t by (simp add: same_tree_def touched_def getInode_def)
qed

lemma touched_file_ok:
  assumes "touched ino st st'" "i \<noteq> ino"
  shows "file_ok cs st' i meta = file_ok cs st i meta" "fcontent cs st' i meta = fcontent cs st i meta"
proof -
  have k: "\<And>c. getChunkKey i c (cv_meta st') = getChunkKey i c (cv_meta st)" and c: "chunk st' i = chunk st i"
    and b: "map_option wb_bufferedSize (mget (cv_buffers st') i) = map_option wb_bufferedSize (mget (cv_buffers st) i)"
    using assms by (auto simp: touched_def fun_eq_iff)
  have "mhas (cv_buffers st') i = mhas (cv_buffers st) i"
    "(\<forall>x. mget (cv_buffers st') i = Some x \<longrightarrow> wb_bufferedSize x = im_size meta) =
     (\<forall>x. mget (cv_buffers st) i = Some x \<longrightarrow> wb_bufferedSize x = im_size meta)"
    using b by (cases "mget (cv_buffers st') i"; cases "mget (cv_buffers st) i"; simp add: mhas_def)+
  then show "file_ok cs st' i meta = file_ok cs st i meta" "fcontent cs st' i meta = fcontent cs st i meta"
    by (simp_all only: file_ok_def fcontent_def k c)
qed

lemma touched_inv:
  assumes inv: "cv_inv opts st" and t: "touched ino st st'" and s: "struct_inv st'"
    and f: "\<And>meta. getInode ino (cv_meta st') = Some meta \<Longrightarrow> file_ok (opt_chunkSize opts) st' ino meta"
    and b: "mhas (cv_buffers st') ino \<Longrightarrow> opt_writeBuffering opts"
  shows "cv_inv opts st'"
proof (rule cv_invI)
  show "opt_writeBuffering opts" if "mhas (cv_buffers st') i" for i
  proof (cases "i = ino")
    case False
    then have "map_option wb_bufferedSize (mget (cv_buffers st') i) = map_option wb_bufferedSize (mget (cv_buffers st) i)"
      using t by (simp add: touched_def)
    then have "mhas (cv_buffers st) i"
      using that by (cases "mget (cv_buffers st) i") (auto simp: mhas_def)
    then show ?thesis using inv cv_invD(3) by blast
  qed (use b that in simp)
  show "file_ok (opt_chunkSize opts) st' i meta" if m: "getInode i (cv_meta st') = Some meta" for i meta
  proof (cases "i = ino")
    case False
    then have "getInode i (cv_meta st) = Some meta" using t m by (simp add: touched_def)
    then show ?thesis using touched_file_ok(1) [OF t False] cv_invD(4) [OF inv] by simp
  qed (use f m in simp)
qed (use cv_invD [OF inv] s t in \<open>auto simp: touched_def dents_ok_def lookup_def\<close>)

text \<open>Updating an inode without changing its number or type.\<close>

lemma upd_inode_simps [simp]:
  "chunk (upd_inode ino f st) = chunk st" "dirty_addr (upd_inode ino f st) = dirty_addr st"
  by (simp_all add: fun_eq_iff chunk_def chunk_addr_def dirty_addr_def block_addr_def cong: option.case_cong)

lemma updateInode_fields [simp]:
  "ms_dentries (updateInode ino f m) = ms_dentries m" "ms_symlinkTargets (updateInode ino f m) = ms_symlinkTargets m"
  "ms_nextIno (updateInode ino f m) = ms_nextIno m" "ms_versions (updateInode ino f m) = ms_versions m"
  "ms_versioningEnabled (updateInode ino f m) = ms_versioningEnabled m" "ms_chunks (updateInode ino f m) = ms_chunks m"
  by (simp_all add: updateInode_def split: option.splits)

definition keeps_id :: "(InodeMeta \<Rightarrow> InodeMeta) \<Rightarrow> bool" where
  "keeps_id f \<longleftrightarrow> (\<forall>m. im_ino (f m) = im_ino m \<and> im_type (f m) = im_type m)"

lemma is_link_getInode: "is_link m c \<longleftrightarrow> map_option im_type (getInode c m) = Some IT_symlink"
  by (simp add: is_link_def getInode_def)

lemma upd_inode_struct:
  assumes "struct_inv st" "keeps_id f" shows "struct_inv (upd_inode ino f st)"
proof -
  have "own_ok (upd_inode ino f st)"
    using assms(1) by (simp add: struct_inv_def own_ok_def owns_def)
  moreover have "is_link (updateInode ino f (cv_meta st)) 1 = is_link (cv_meta st) 1"
    using assms(2) by (cases "getInode 1 (cv_meta st)") (auto simp: is_link_getInode keeps_id_def)
  ultimately show ?thesis
    using assms by (simp add: struct_inv_def keys_ok_def bufs_ok_def vers_ok_def keeps_id_def updateInode_inv)
qed

lemma upd_inode_touched: "keeps_id f \<Longrightarrow> touched ino st (upd_inode ino f st)"
  by (auto simp: touched_def keeps_id_def option.map_comp comp_def)

text \<open>Dropping and creating the write buffer of an inode.\<close>

lemma drop_buffer_struct:
  assumes "struct_inv st" shows "struct_inv (st\<lparr>cv_buffers := mdel ino (cv_buffers st)\<rparr>)"
proof -
  let ?st = "st\<lparr>cv_buffers := mdel ino (cv_buffers st)\<rparr>"
  have "owns ?st i c a \<Longrightarrow> owns st i c a" for i c a by (auto simp: owns_def dirty_addr_def split: if_splits)
  then have "own_ok ?st" using assms own_ok_mono [of st ?st] by (simp add: struct_inv_def)
  then show ?thesis using assms by (simp add: struct_inv_def keys_ok_def bufs_ok_def vers_ok_def)
qed

lemma drop_buffer_chunk:
  "chunk (st\<lparr>cv_buffers := mdel ino (cv_buffers st)\<rparr>) i c = (if i = ino then blk st i c else chunk st i c)"
  by (simp add: chunk_def chunk_addr_def dirty_addr_def block_addr_def blk_def cong: option.case_cong)

lemma drop_buffer_touched: "touched ino st (st\<lparr>cv_buffers := mdel ino (cv_buffers st)\<rparr>)"
  by (simp add: touched_def drop_buffer_chunk)

lemma make_buffer:
  assumes "struct_inv st" "ino < ms_nextIno (cv_meta st)"
  shows "struct_inv (snd (getOrCreateBuffer ino n st))" "chunk (snd (getOrCreateBuffer ino n st)) = chunk st"
    "touched ino st (snd (getOrCreateBuffer ino n st))" "mhas (cv_buffers (snd (getOrCreateBuffer ino n st))) ino"
    "cv_meta (snd (getOrCreateBuffer ino n st)) = cv_meta st"
proof -
  let ?st = "snd (getOrCreateBuffer ino n st)"
  have da: "dirty_addr ?st = dirty_addr st"
    by (auto simp: fun_eq_iff dirty_addr_def getOrCreateBuffer_def Let_def split: option.splits)
  have eq: "cv_meta ?st = cv_meta st" "cv_store ?st = cv_store st"
    by (simp_all add: getOrCreateBuffer_def Let_def split: option.splits)
  have ow: "owns ?st = owns st" by (simp add: fun_eq_iff owns_def da eq)
  have bo: "bufs_ok ?st"
    using assms by (auto simp: struct_inv_def bufs_ok_def getOrCreateBuffer_def Let_def split: option.splits if_splits)
  show ch: "chunk ?st = chunk st"
    by (simp add: fun_eq_iff chunk_def chunk_addr_def block_addr_def da eq cong: option.case_cong)
  show "struct_inv ?st"
    using assms(1) bo by (simp add: struct_inv_def own_ok_def ow eq keys_ok_def vers_ok_def)
  show "touched ino st ?st"
    using ch eq by (simp add: touched_def) (simp add: getOrCreateBuffer_def Let_def split: option.splits)
  show "mhas (cv_buffers ?st) ino" by (simp add: getOrCreateBuffer_def Let_def mhas_def split: option.splits)
  show "cv_meta ?st = cv_meta st" by (rule eq)
qed

lemma set_bufferedSize_simps [simp]:
  "cv_meta (set_bufferedSize ino n st) = cv_meta st" "cv_store (set_bufferedSize ino n st) = cv_store st"
  "dirty_addr (set_bufferedSize ino n st) = dirty_addr st" "chunk (set_bufferedSize ino n st) = chunk st"
  by (auto simp: fun_eq_iff set_bufferedSize_def chunk_def chunk_addr_def dirty_addr_def block_addr_def
      split: option.splits)

lemma set_bufferedSize_struct: "struct_inv st \<Longrightarrow> struct_inv (set_bufferedSize ino n st)"
  by (auto simp: struct_inv_def own_ok_def owns_def keys_ok_def vers_ok_def)
    (auto simp: bufs_ok_def set_bufferedSize_def split: option.splits)

lemma set_bufferedSize_touched: "touched ino st (set_bufferedSize ino n st)"
  by (simp add: touched_def) (auto simp: set_bufferedSize_def split: option.splits)

subsection \<open>Resolved files\<close>

lemma resolve_loop_not_link:
  "resolve_loop ms d cur bef cs = Inr r \<Longrightarrow> \<not> is_link ms 1 \<Longrightarrow> \<not> is_link ms cur \<Longrightarrow> \<not> is_link ms r"
proof (induction d cur bef cs rule: resolve_loop_induct [where ms = ms])
  case (Cons d cur bef name rest)
  then show ?case by (auto simp: resolve_loop_Cons split: option.splits if_splits)
qed simp

lemma resolveIno_not_link:
  "struct_inv st \<Longrightarrow> resolveIno p st = Inr ino \<Longrightarrow> \<not> is_link (cv_meta st) ino"
  using resolve_loop_not_link [of "cv_meta st" 0 1 "[]" _ ino]
  by (auto simp: resolveIno_def resolvePath_def resolveComponentsCore_def kres_def struct_inv_def split: sum.splits)

lemma resolved_file:
  assumes "struct_inv st" "resolveIno p st = Inr ino" "getInode ino (cv_meta st) = Some meta"
    and "im_type meta \<noteq> IT_directory"
  shows "im_type meta = IT_file"
  using resolveIno_not_link [OF assms(1,2)] assms(3,4) by (cases "im_type meta") (auto simp: is_link_getInode)

lemma inode_allocated: "struct_inv st \<Longrightarrow> getInode ino (cv_meta st) = Some meta \<Longrightarrow> ino < ms_nextIno (cv_meta st)"
  by (auto simp: struct_inv_def ms_inv_def getInode_def dest: inodes_okD)

text \<open>With an intact file the size the code works with is the length of the content.\<close>

lemma effective_size:
  assumes "file_ok cs st ino meta" "im_type meta = IT_file"
  shows "(case mget (cv_buffers st) ino of Some b \<Rightarrow> wb_bufferedSize b | None \<Rightarrow> im_size meta) = im_size meta"
    and "length (fcontent cs st ino meta) = im_size meta"
  using assms by (auto simp: file_ok_def fcontent_def mhas_def split: StorageMode.splits option.splits)

lemma readInodeContent_result:
  assumes "cv_inv opts st" "getInode ino (cv_meta st) = Some meta" "im_type meta = IT_file"
  shows "readInodeContent opts ino meta st = Inr (fcontent (opt_chunkSize opts) st ino meta)"
proof -
  let ?cs = "opt_chunkSize opts"
  note f = cv_invD(4) [OF assms(1,2)] and e = effective_size [OF cv_invD(4) [OF assms(1,2)] assms(3)]
  show ?thesis
  proof (cases "im_size meta = 0")
    case True
    then have "fcontent ?cs st ino meta = []" using e(2) by simp
    then show ?thesis using True e(1) by (simp add: readInodeContent_def Let_def)
  next
    case False
    show ?thesis
    proof (cases "im_storageMode meta")
      case SM_inline
      then show ?thesis
        using f False e(1) by (auto simp: readInodeContent_def Let_def file_ok_def fcontent_def mhas_def)
    next
      case SM_chunked
      then have "fits ?cs (im_size meta) (chunk st ino)" using f by (simp add: file_ok_def)
      then obtain r where "overlay_blocks ?cs (cv_store st)
          (case mget (cv_buffers st) ino of Some b \<Rightarrow> wb_dirtyChunks b | None \<Rightarrow> [])
          (getAllChunkKeys ino (cv_meta st)) (zeros (im_size meta)) = Inr r"
        "overlay_dirty ?cs (cv_store st)
          (case mget (cv_buffers st) ino of Some b \<Rightarrow> wb_dirtyChunks b | None \<Rightarrow> []) r =
          Inr (fbytes ?cs (im_size meta) (chunk st ino))"
        using overlay_chunks [OF cv_invD(2,1) [OF assms(1)]] by blast
      then show ?thesis using SM_chunked False e(1) by (simp add: readInodeContent_def Let_def fcontent_def)
    qed
  qed
qed

lemma fbytes_slice:
  "off + len \<le> n \<Longrightarrow> map (\<lambda>j. cbyte cs f (off + j)) [0..<len] = take len (drop off (fbytes cs n f))"
  by (rule nth_equalityI) (auto simp: fbytes_def)

lemma pread_result:
  assumes "cv_inv opts st" "requireFileIno p st = Inr (ino, meta)"
  shows "cv_pread opts p off len st = Inr (take len (drop off (fcontent (opt_chunkSize opts) st ino meta)))"
proof -
  let ?cs = "opt_chunkSize opts"
  have r: "resolveIno p st = Inr ino" "getInode ino (cv_meta st) = Some meta" "im_type meta \<noteq> IT_directory"
    using assms(2) by (auto simp: requireFileIno_def requireInode_def split: sum.splits option.splits if_splits)
  have ty: "im_type meta = IT_file" by (rule resolved_file [OF cv_invD(2) [OF assms(1)] r])
  note f = cv_invD(4) [OF assms(1) r(2)]
  note e = effective_size [OF f ty]
  let ?n = "im_size meta" and ?buf = "mget (cv_buffers st) ino"
  show ?thesis
  proof (cases "?n \<le> off \<or> len = 0")
    case True
    then show ?thesis using assms(2) e by (auto simp: cv_pread_def Let_def)
  next
    case False
    define cl where "cl = min len (?n - off)"
    have cl: "0 < cl" "off + cl \<le> ?n" using False by (auto simp: cl_def)
    have tk: "take len (drop off (fcontent ?cs st ino meta)) = take cl (drop off (fcontent ?cs st ino meta))"
      using e(2) by (auto simp: cl_def min_def)
    show ?thesis
    proof (cases "im_storageMode meta")
      case SM_inline
      then have nb: "?buf = None" using f by (simp add: file_ok_def mhas_def)
      show ?thesis
        unfolding tk using SM_inline nb False assms(2)
        by (simp add: cv_pread_def Let_def cl_def fcontent_def u8_slice_def)
    next
      case SM_chunked
      let ?D = "case ?buf of Some b \<Rightarrow> wb_dirtyChunks b | None \<Rightarrow> []"
      have cs: "0 < ?cs" using cv_invD(1) [OF assms(1)] .
      have w0: "filled ?cs off cl (off div ?cs) = 0"
        using div_times_less_eq_dividend [of off ?cs] by (simp add: filled_def)
      have "off < off div ?cs * ?cs + ?cs"
        using cs by (metis add.commute dividend_less_div_times)
      moreover have "off div ?cs \<le> Suc ((off + cl - 1) div ?cs)"
        using cl(1) by (intro le_SucI div_le_mono) simp
      moreover have "prefix_read ?cs (chunk st ino) off cl (filled ?cs off cl (off div ?cs)) (zeros cl)"
        by (simp add: prefix_read_def w0)
      ultimately have "pread_loop ?cs ino off cl ?D st [off div ?cs..<Suc ((off + cl - 1) div ?cs)] (zeros cl) 0 =
          Inr (map (\<lambda>j. cbyte ?cs (chunk st ino) (off + j)) [0..<cl])"
        using pread_loop_result [OF cv_invD(2) [OF assms(1)] cs cl(1) refl] w0 by metis
      also have "\<dots> = Inr (take cl (drop off (fcontent ?cs st ino meta)))"
        using fbytes_slice [OF cl(2)] SM_chunked by (simp add: fcontent_def)
      finally show ?thesis
        unfolding tk using SM_chunked False assms(2) e(1)
        by (simp add: cv_pread_def Let_def cl_def del: upt_Suc)
    qed
  qed
qed

subsection \<open>Promotion and the chunked write\<close>

lemma writes_struct: "writes ino f st st' \<Longrightarrow> struct_inv st'"
  and writes_frame: "writes ino f st st' \<Longrightarrow> frame ino st st'"
  and writes_chunk: "writes ino f st st' \<Longrightarrow> chunk st' ino = f"
  by (auto simp: writes_def)

lemma buffer_chunks_writes:
  assumes "struct_inv st" "mhas (cv_buffers st) ino" "distinct is"
  shows "writes ino (\<lambda>c. if c \<in> set is then Some (chunk_of (opt_chunkSize opts) data c) else chunk st ino c)
    st (buffer_chunks opts ino data is st)"
  using assms
proof (induction "is" arbitrary: st)
  case Nil
  then show ?case by (simp add: writes_def)
next
  case (Cons i "is")
  let ?d = "chunk_of (opt_chunkSize opts) data i"
  let ?st0 = "st\<lparr>cv_store := snd (bs_alloc ?d (cv_store st))\<rparr>"
  let ?a = "length (bs_heap (cv_store st))"
  let ?st1 = "enter_dirty ino i ?a ?st0"
  have ok: "own_ok st" using Cons.prems(1) by (simp add: struct_inv_def)
  have h: "heap_step ino i st ?st0" by (rule heap_step_alloc [OF ok])
  have st0: "struct_inv ?st0" "frame ino st ?st0" "\<And>c. c \<noteq> i \<Longrightarrow> chunk ?st0 ino c = chunk st ino c"
    using heap_step_frame_struct [OF h Cons.prems(1)] by auto
  have b0: "mhas (cv_buffers ?st0) ino" using Cons.prems(2) by simp
  have "\<And>i' c. \<not> owns ?st0 i' c ?a" using fresh_unowned [OF ok] heap_step_addrs(4) [OF h] by simp
  then have s1: "struct_inv ?st1" using st0(1) b0 by (intro enter_dirty_struct) auto
  have w: "writes ino ((chunk st ino)(i \<mapsto> ?d)) st ?st1"
    using s1 frame_trans [OF st0(2) frame_enter_dirty [OF b0]] st0(3) enter_dirty_chunk [OF b0, of i ?a ino]
    by (simp add: writes_def)
  have eq: "buffer_chunks opts ino data (i # is) st = buffer_chunks opts ino data is ?st1"
    using Cons.prems(2) by (auto simp: mhas_def bs_alloc_def enter_dirty_def)
  have b1: "mhas (cv_buffers ?st1) ino" using frame_buffer [OF writes_frame [OF w]] Cons.prems(2) by simp
  have "writes ino (\<lambda>c. if c \<in> set is then Some (chunk_of (opt_chunkSize opts) data c) else chunk ?st1 ino c)
     ?st1 (buffer_chunks opts ino data is ?st1)"
    using Cons.IH [OF s1 b1] Cons.prems(3) by simp
  moreover have "(\<lambda>c. if c \<in> set is then Some (chunk_of (opt_chunkSize opts) data c) else chunk ?st1 ino c) =
     (\<lambda>c. if c \<in> set (i # is) then Some (chunk_of (opt_chunkSize opts) data c) else chunk st ino c)"
    using writes_chunk [OF w] Cons.prems(3) by (auto simp: fun_eq_iff)
  ultimately show ?case using writes_trans [OF w] eq by simp
qed

abbreviation chunked_meta :: "InodeMeta \<Rightarrow> InodeMeta" where
  "chunked_meta m \<equiv> m\<lparr>im_storageMode := SM_chunked, im_inlineContent := None\<rparr>"

lemma keeps_id_updates [simp]:
  "keeps_id (\<lambda>m. m\<lparr>im_atimeMs := a\<rparr>)"
  "keeps_id (\<lambda>m. m\<lparr>im_storageMode := sm, im_inlineContent := ic\<rparr>)"
  "keeps_id (\<lambda>m. m\<lparr>im_size := n, im_mtimeMs := t, im_ctimeMs := t\<rparr>)"
  "keeps_id (\<lambda>m. m\<lparr>im_inlineContent := ic, im_size := n, im_mtimeMs := t, im_ctimeMs := t\<rparr>)"
  "keeps_id (\<lambda>m. m\<lparr>im_storageMode := sm, im_inlineContent := ic, im_size := n, im_mtimeMs := t, im_ctimeMs := t\<rparr>)"
  "keeps_id (\<lambda>m. m\<lparr>im_nlink := l\<rparr>)" "keeps_id (\<lambda>m. m\<lparr>im_nlink := l, im_ctimeMs := t\<rparr>)"
  "keeps_id (\<lambda>m. m\<lparr>im_mode := md, im_ctimeMs := t\<rparr>)"
  "keeps_id (\<lambda>m. m\<lparr>im_uid := u, im_gid := g, im_ctimeMs := t\<rparr>)"
  "keeps_id (\<lambda>m. m\<lparr>im_atimeMs := a, im_mtimeMs := mt, im_ctimeMs := t\<rparr>)"
  by (simp_all add: keeps_id_def)

lemma inline_no_chunks:
  assumes "file_ok cs st ino meta" "im_storageMode meta = SM_inline"
  shows "chunk st ino = (\<lambda>_. None)" "\<not> mhas (cv_buffers st) ino"
  using assms by (auto simp: fun_eq_iff file_ok_def chunk_def chunk_addr_def block_addr_def no_dirty)

lemma split_chunks_Nil [simp]: "split_chunks cs [] = (\<lambda>_. None)"
  by (cases "cs = 0") (simp_all add: split_chunks_def numChunks_def fun_eq_iff)

text \<open>What both promotions achieve: the inline bytes are the file's chunks.\<close>

definition promoted :: "ChunkedVfsOptions \<Rightarrow> nat \<Rightarrow> InodeMeta \<Rightarrow> CVfs \<Rightarrow> CVfs \<Rightarrow> bool" where
  "promoted opts ino meta st st' \<longleftrightarrow> struct_inv st' \<and> touched ino st st' \<and>
     chunk st' ino = split_chunks (opt_chunkSize opts) (inline_bytes meta) \<and>
     getInode ino (cv_meta st') = Some (chunked_meta meta) \<and>
     (mhas (cv_buffers st') ino \<longrightarrow> opt_writeBuffering opts)"

lemma promotedI:
  assumes "writes ino (split_chunks (opt_chunkSize opts) (inline_bytes meta)) st0 st1" "touched ino st st0"
    and "getInode ino (cv_meta st0) = Some meta" "mhas (cv_buffers st0) ino \<longrightarrow> opt_writeBuffering opts"
  shows "promoted opts ino meta st (upd_inode ino (\<lambda>m. m\<lparr>im_storageMode := SM_chunked, im_inlineContent := None\<rparr>) st1)"
proof -
  have "touched ino st st1" using assms(1,2) frame_touched writes_frame touched_trans by blast
  moreover have "getInode ino (cv_meta st1) = Some meta" "mhas (cv_buffers st1) ino = mhas (cv_buffers st0) ino"
    using writes_frame [OF assms(1)] assms(3) frame_buffer by (auto simp: frame_def getInode_def)
  ultimately show ?thesis
    using assms(4) upd_inode_struct [OF writes_struct [OF assms(1)]] writes_chunk [OF assms(1)]
      touched_trans [OF _ upd_inode_touched]
    by (simp add: promoted_def)
qed

lemma promoteToChunked_promoted:
  assumes "cv_inv opts st" "getInode ino (cv_meta st) = Some meta" "im_storageMode meta = SM_inline"
  shows "promoted opts ino meta st (promoteToChunked opts ino meta st)"
proof -
  note n = inline_no_chunks [OF cv_invD(4) [OF assms(1,2)] assms(3)]
  note s = cv_invD(2) [OF assms(1)]
  let ?d = "inline_bytes meta" and ?cs = "opt_chunkSize opts"
  let ?st1 = "if 0 < length ?d then put_chunks opts ino ?d [0..<numChunks ?cs (length ?d)] st else st"
  have "writes ino (split_chunks ?cs ?d) st ?st1"
  proof (cases "0 < length ?d")
    case True
    have "split_chunks ?cs ?d = (\<lambda>c. if c \<in> set [0..<numChunks ?cs (length ?d)]
        then Some (chunk_of ?cs ?d c) else chunk st ino c)"
      by (simp add: split_chunks_def n fun_eq_iff)
    then show ?thesis
      using True put_chunks_writes [OF s inode_allocated [OF s assms(2)] n(2)
          distinct_upt [of 0 "numChunks ?cs (length ?d)"], where opts = opts and content = ?d] by simp
  next
    case False
    then show ?thesis using s n by (simp add: writes_def)
  qed
  then show ?thesis
    unfolding promoteToChunked_def Let_def by (rule promotedI) (use assms n in auto)
qed

lemma promote_buffered_promoted:
  assumes "cv_inv opts st" "getInode ino (cv_meta st) = Some meta" "im_storageMode meta = SM_inline"
    and "opt_writeBuffering opts"
  shows "promoted opts ino meta st (promote_buffered opts ino n meta st)"
proof -
  note nc = inline_no_chunks [OF cv_invD(4) [OF assms(1,2)] assms(3)]
  note s = cv_invD(2) [OF assms(1)]
  let ?d = "inline_bytes meta" and ?cs = "opt_chunkSize opts"
  let ?st0 = "snd (getOrCreateBuffer ino n st)"
  note b = make_buffer [OF s inode_allocated [OF s assms(2)], of n]
  let ?st1 = "if 0 < length ?d then buffer_chunks opts ino ?d [0..<numChunks ?cs (length ?d)] ?st0 else ?st0"
  have "writes ino (split_chunks ?cs ?d) ?st0 ?st1"
  proof (cases "0 < length ?d")
    case True
    have "split_chunks ?cs ?d = (\<lambda>c. if c \<in> set [0..<numChunks ?cs (length ?d)]
        then Some (chunk_of ?cs ?d c) else chunk ?st0 ino c)"
      by (simp add: split_chunks_def nc b fun_eq_iff)
    then show ?thesis
      using True buffer_chunks_writes [OF b(1,4) distinct_upt [of 0 "numChunks ?cs (length ?d)"],
          where opts = opts and data = ?d] by simp
  next
    case False
    then show ?thesis using b nc by (simp add: writes_def)
  qed
  then show ?thesis
    unfolding promote_buffered_def Let_def by (rule promotedI) (use assms b in auto)
qed

subsection \<open>What an operation makes of a file\<close>

definition becomes :: "ChunkedVfsOptions \<Rightarrow> nat \<Rightarrow> bytes \<Rightarrow> CVfs \<Rightarrow> CVfs \<Rightarrow> bool" where
  "becomes opts ino c st st' \<longleftrightarrow> struct_inv st' \<and> touched ino st st' \<and>
     (\<exists>meta. getInode ino (cv_meta st') = Some meta \<and> file_ok (opt_chunkSize opts) st' ino meta \<and>
        fcontent (opt_chunkSize opts) st' ino meta = c) \<and>
     (mhas (cv_buffers st') ino \<longrightarrow> opt_writeBuffering opts)"

lemma becomes_inv: "cv_inv opts st \<Longrightarrow> becomes opts ino c st st' \<Longrightarrow> cv_inv opts st'"
  by (auto simp: becomes_def intro: touched_inv)

lemma becomes_trans: "touched ino st st0 \<Longrightarrow> becomes opts ino c st0 st' \<Longrightarrow> becomes opts ino c st st'"
  unfolding becomes_def using touched_trans by blast

lemma becomes_same:
  "cv_inv opts st \<Longrightarrow> getInode ino (cv_meta st) = Some meta \<Longrightarrow> fcontent (opt_chunkSize opts) st ino meta = c \<Longrightarrow>
     becomes opts ino c st st"
  unfolding becomes_def using cv_invD by auto

text \<open>The last step of a chunked write or resize: the inode records the size.\<close>

lemma becomes_chunked:
  assumes "struct_inv st1" "touched ino st st1" "getInode ino (cv_meta st1) = Some meta"
    and "im_storageMode meta = SM_chunked" "fits (opt_chunkSize opts) n (chunk st1 ino)"
    and "\<And>b. mget (cv_buffers st1) ino = Some b \<Longrightarrow> wb_bufferedSize b = n \<and> opt_writeBuffering opts"
  shows "becomes opts ino (fbytes (opt_chunkSize opts) n (chunk st1 ino)) st
    (upd_inode ino (\<lambda>m. m\<lparr>im_size := n, im_mtimeMs := now, im_ctimeMs := now\<rparr>) st1)"
proof -
  have "file_ok (opt_chunkSize opts) (upd_inode ino (\<lambda>m. m\<lparr>im_size := n, im_mtimeMs := now, im_ctimeMs := now\<rparr>) st1)
      ino (meta\<lparr>im_size := n, im_mtimeMs := now, im_ctimeMs := now\<rparr>)"
    using assms(4-6) by (auto simp: file_ok_def)
  then show ?thesis
    using assms upd_inode_struct [OF assms(1)] touched_trans [OF assms(2) upd_inode_touched]
    by (auto simp: becomes_def fcontent_def mhas_def)
qed

lemma becomes_inline:
  assumes "struct_inv st1" "touched ino st st1" "getInode ino (cv_meta st1) = Some meta" "keeps_id f"
    and "\<And>c. getChunkKey ino c (cv_meta st1) = None" "\<not> mhas (cv_buffers st1) ino"
    and "im_storageMode (f meta) = SM_inline" "im_inlineContent (f meta) = Some x" "im_size (f meta) = length x"
  shows "becomes opts ino x st (upd_inode ino f st1)"
  using assms upd_inode_struct [OF assms(1,4)] touched_trans [OF assms(2) upd_inode_touched [OF assms(4)]]
  by (simp add: becomes_def file_ok_def fcontent_def)

lemma pwrite_chunks_becomes:
  assumes inv: "struct_inv st" "0 < opt_chunkSize opts" and data: "data \<noteq> []"
    and meta: "getInode ino (cv_meta st) = Some meta" "im_storageMode meta = SM_chunked"
    and fit: "fits (opt_chunkSize opts) n (chunk st ino)"
    and b: "mhas (cv_buffers st) ino \<longrightarrow> opt_writeBuffering opts"
  shows "\<exists>st'. pwrite_chunks opts now ino n (max n (off + length data)) off data st = (Inr (), st') \<and>
    becomes opts ino (overwrite (fbytes (opt_chunkSize opts) n (chunk st ino)) off data) st st'"
proof -
  let ?cs = "opt_chunkSize opts" and ?N = "max n (off + length data)"
  let ?cis = "[off div ?cs..<Suc ((off + length data - 1) div ?cs)]"
  let ?W = "write_chunks ?cs off data (chunk st ino)"
  have rng: "ci \<in> set ?cis \<Longrightarrow> in_range ?cs off data ci" for ci using in_range_iff [OF inv(2) data] by simp
  have alloc: "ino < ms_nextIno (cv_meta st)" by (rule inode_allocated [OF inv(1) meta(1)])
  have fb: "fits ?cs ?N ?W" "fbytes ?cs ?N ?W = overwrite (fbytes ?cs n (chunk st ino)) off data"
    using write_chunks_fits [OF inv(2) data fit] write_chunks_bytes [OF inv(2) data fit] by auto
  have Wdef: "(\<lambda>c. if c \<in> set ?cis then Some (merged ?cs off data c (f c)) else f c) = write_chunks ?cs off data f" for f
    by (rule ext) (simp only: write_chunks_def)
  show ?thesis
  proof (cases "opt_writeBuffering opts")
    case True
    let ?st0 = "snd (getOrCreateBuffer ino n st)"
    note mb = make_buffer [OF inv(1) alloc, of n]
    let ?P = "\<lambda>s. struct_inv s \<and> mhas (cv_buffers s) ino"
    have "\<exists>st'. each_chunk (pwrite_chunk_buffered opts ino off data) ?cis ?st0 = (Inr (), st') \<and>
       writes ino (\<lambda>c. if c \<in> set ?cis then Some (merged ?cs off data c (chunk ?st0 ino c)) else chunk ?st0 ino c) ?st0 st'"
    proof (rule each_chunk_writes [where P = ?P])
      show "\<exists>st'. pwrite_chunk_buffered opts ino off data ci s = (Inr (), st') \<and>
          writes ino ((chunk s ino)(ci \<mapsto> merged ?cs off data ci (chunk s ino ci))) s st'"
        if "?P s" "ci \<in> set ?cis" for ci s
        using pwrite_chunk_buffered_writes [OF _ _ rng [OF that(2)], of s] that(1) by metis
      show "?P s'" if "?P s" "writes ino f s s'" for f s s'
        using that frame_buffer writes_frame writes_struct by blast
    qed (use mb in auto)
    then obtain st2 where st2: "each_chunk (pwrite_chunk_buffered opts ino off data) ?cis ?st0 = (Inr (), st2)"
      "writes ino ?W ?st0 st2" unfolding Wdef mb(2) by blast
    have t2: "touched ino st st2" using mb(3) frame_touched [OF writes_frame [OF st2(2)]] touched_trans by blast
    let ?st3 = "set_bufferedSize ino ?N st2"
    have g: "getInode ino (cv_meta ?st3) = Some meta"
      using writes_frame [OF st2(2)] meta(1) mb(5) by (simp add: frame_def getInode_def)
    have bs: "wb_bufferedSize x = ?N \<and> opt_writeBuffering opts" if "mget (cv_buffers ?st3) ino = Some x" for x
      using that True by (auto simp: set_bufferedSize_def split: option.splits)
    have "becomes opts ino (fbytes ?cs ?N (chunk ?st3 ino)) st
       (upd_inode ino (\<lambda>m. m\<lparr>im_size := ?N, im_mtimeMs := now, im_ctimeMs := now\<rparr>) ?st3)"
      by (rule becomes_chunked [OF set_bufferedSize_struct [OF writes_struct [OF st2(2)]]
            touched_trans [OF t2 set_bufferedSize_touched] g meta(2) _ bs])
        (use fb(1) writes_chunk [OF st2(2)] in simp)
    then have "becomes opts ino (overwrite (fbytes ?cs n (chunk st ino)) off data) st
       (upd_inode ino (\<lambda>m. m\<lparr>im_size := ?N, im_mtimeMs := now, im_ctimeMs := now\<rparr>) ?st3)"
      using fb(2) writes_chunk [OF st2(2)] by simp
    moreover have "pwrite_chunks opts now ino n ?N off data st =
        (Inr (), upd_inode ino (\<lambda>m. m\<lparr>im_size := ?N, im_mtimeMs := now, im_ctimeMs := now\<rparr>) ?st3)"
      using True st2(1) by (simp add: pwrite_chunks_def Let_def)
    ultimately show ?thesis by blast
  next
    case False
    then have nb: "\<not> mhas (cv_buffers st) ino" using b by blast
    let ?P = "\<lambda>s. struct_inv s \<and> \<not> mhas (cv_buffers s) ino \<and> ino < ms_nextIno (cv_meta s)"
    have "\<exists>st'. each_chunk (pwrite_chunk_direct opts ino off data) ?cis st = (Inr (), st') \<and>
       writes ino (\<lambda>c. if c \<in> set ?cis then Some (merged ?cs off data c (chunk st ino c)) else chunk st ino c) st st'"
    proof (rule each_chunk_writes [where P = ?P])
      show "\<exists>st'. pwrite_chunk_direct opts ino off data ci s = (Inr (), st') \<and>
          writes ino ((chunk s ino)(ci \<mapsto> merged ?cs off data ci (chunk s ino ci))) s st'"
        if "?P s" "ci \<in> set ?cis" for ci s
        using pwrite_chunk_direct_writes [OF _ _ _ rng [OF that(2)], of s] that(1) by metis
      show "?P s'" if "?P s" "writes ino f s s'" for f s s'
        using that frame_buffer writes_frame [OF that(2)] writes_struct [OF that(2)] by (auto simp: frame_def)
    qed (use inv nb alloc in auto)
    then obtain st2 where st2: "each_chunk (pwrite_chunk_direct opts ino off data) ?cis st = (Inr (), st2)"
      "writes ino ?W st st2" unfolding Wdef by blast
    have g: "getInode ino (cv_meta st2) = Some meta"
      using writes_frame [OF st2(2)] meta(1) by (simp add: frame_def getInode_def)
    have bs: "wb_bufferedSize x = ?N \<and> opt_writeBuffering opts" if "mget (cv_buffers st2) ino = Some x" for x
      using that nb frame_buffer [OF writes_frame [OF st2(2)], of ino] by (simp add: mhas_def)
    have "becomes opts ino (fbytes ?cs ?N (chunk st2 ino)) st
       (upd_inode ino (\<lambda>m. m\<lparr>im_size := ?N, im_mtimeMs := now, im_ctimeMs := now\<rparr>) st2)"
      by (rule becomes_chunked [OF writes_struct [OF st2(2)] frame_touched [OF writes_frame [OF st2(2)]] g meta(2) _ bs])
        (use fb(1) writes_chunk [OF st2(2)] in simp)
    then have "becomes opts ino (overwrite (fbytes ?cs n (chunk st ino)) off data) st
       (upd_inode ino (\<lambda>m. m\<lparr>im_size := ?N, im_mtimeMs := now, im_ctimeMs := now\<rparr>) st2)"
      using fb(2) writes_chunk [OF st2(2)] by simp
    moreover have "pwrite_chunks opts now ino n ?N off data st =
        (Inr (), upd_inode ino (\<lambda>m. m\<lparr>im_size := ?N, im_mtimeMs := now, im_ctimeMs := now\<rparr>) st2)"
      using False st2(1) by (simp add: pwrite_chunks_def Let_def)
    ultimately show ?thesis by blast
  qed
qed

lemma u8_set_overwrite:
  assumes "u8_set (zeros (max (length x) (off + length d))) x 0 = Inr r0" "u8_set r0 d off = Inr r"
  shows "r = overwrite x off d"
proof (rule bytes_eqI)
  show "length r = length (overwrite x off d)" using u8_set_length [OF assms(1)] u8_set_length [OF assms(2)] by simp
  show "nth0 r i = nth0 (overwrite x off d) i" for i
    using u8_set_nth0 [OF assms(1), of i] u8_set_nth0 [OF assms(2), of i]
    by (simp add: nth0_overwrite nth0_def [of x])
qed

lemma pwrite_becomes:
  assumes inv: "cv_inv opts st" and p: "resolveIno p st = Inr ino" and data: "data \<noteq> []"
    and meta: "getInode ino (cv_meta st) = Some meta" "im_type meta = IT_file"
  shows "\<exists>st'. cv_pwrite opts now p off data st = (Inr (), st') \<and>
    becomes opts ino (overwrite (fcontent (opt_chunkSize opts) st ino meta) off data) st st'"
proof -
  let ?cs = "opt_chunkSize opts" and ?c = "fcontent (opt_chunkSize opts) st ino meta"
  note f = cv_invD(4) [OF inv meta(1)] and s = cv_invD(2,1) [OF inv]
  note e = effective_size [OF f meta(2)]
  let ?n = "im_size meta" and ?N = "max (im_size meta) (off + length data)"
  have nd: "im_type meta \<noteq> IT_directory" using meta(2) by simp
  show ?thesis
  proof (cases "im_storageMode meta")
    case SM_chunked
    have eq: "cv_pwrite opts now p off data st = pwrite_chunks opts now ino ?n ?N off data st"
      using p data meta nd e(1) SM_chunked by (simp add: cv_pwrite_def requireInode_def Let_def)
    have "fits ?cs ?n (chunk st ino)" "?c = fbytes ?cs ?n (chunk st ino)"
      using f SM_chunked by (simp_all add: file_ok_def fcontent_def)
    then show ?thesis
      unfolding eq using pwrite_chunks_becomes [OF s data meta(1) SM_chunked, of ?n] cv_invD(3) [OF inv] by simp
  next
    case SM_inline
    have c: "?c = inline_bytes meta" "length (inline_bytes meta) = ?n"
      using SM_inline e(2) by (simp_all add: fcontent_def)
    have k: "\<And>c. getChunkKey ino c (cv_meta st) = None" "\<not> mhas (cv_buffers st) ino"
      using f SM_inline by (simp_all add: file_ok_def)
    show ?thesis
    proof (cases "?N \<le> opt_inlineThreshold opts")
      case True
      obtain r0 where r0: "u8_set (zeros ?N) (inline_bytes meta) 0 = Inr r0"
        using u8_set_some [of 0 "inline_bytes meta" "zeros ?N"] c(2) by auto
      then have "length r0 = ?N" using u8_set_length [OF r0] by simp
      then obtain r where r: "u8_set r0 data off = Inr r" using u8_set_some [of off data r0] by auto
      let ?f = "\<lambda>m. m\<lparr>im_inlineContent := Some r, im_size := ?N, im_mtimeMs := now, im_ctimeMs := now\<rparr>"
      have eq: "cv_pwrite opts now p off data st = (Inr (), upd_inode ino ?f st)"
        using p data meta nd e(1) SM_inline True r0 r by (simp add: cv_pwrite_def requireInode_def Let_def)
      have ov: "r = overwrite ?c off data" using u8_set_overwrite r0 r c by simp
      have "becomes opts ino r st (upd_inode ino ?f st)"
        by (rule becomes_inline [OF s(1) touched_refl meta(1)])
          (use k SM_inline ov e(2) in auto)
      then show ?thesis using eq ov by simp
    next
      case False
      define st1 where "st1 = (if opt_writeBuffering opts then promote_buffered opts ino ?n meta st
         else promoteToChunked opts ino meta st)"
      have pr: "promoted opts ino meta st st1"
        using promoteToChunked_promoted [OF inv meta(1) SM_inline]
          promote_buffered_promoted [OF inv meta(1) SM_inline] by (simp add: st1_def)
      have eq: "cv_pwrite opts now p off data st = pwrite_chunks opts now ino ?n ?N off data st1"
        using p data meta nd e(1) SM_inline False
        by (auto simp: cv_pwrite_def requireInode_def Let_def st1_def)
      have "fits ?cs ?n (chunk st1 ino)" "fbytes ?cs ?n (chunk st1 ino) = ?c"
        using pr split_chunks_fits [OF s(2), of "inline_bytes meta"] split_chunks_bytes [OF s(2), of "inline_bytes meta"] c
        by (simp_all add: promoted_def)
      moreover have "\<exists>st'. pwrite_chunks opts now ino ?n ?N off data st1 = (Inr (), st') \<and>
         becomes opts ino (overwrite (fbytes ?cs ?n (chunk st1 ino)) off data) st1 st'"
        by (rule pwrite_chunks_becomes [OF _ s(2) data, where meta = "chunked_meta meta"])
          (use pr calculation in \<open>auto simp: promoted_def\<close>)
      ultimately show ?thesis unfolding eq using pr becomes_trans by (auto simp: promoted_def)
    qed
  qed
qed

subsection \<open>Truncation\<close>

lemma put_chunk_buffers [simp]: "cv_buffers (put_chunk opts ino ci d st) = cv_buffers st"
  by (simp add: put_chunk_def makeBlockKey_def)

lemma flush_loop_buffers [simp]: "cv_buffers (flush_loop opts ino ds st) = cv_buffers st"
  by (induction opts ino ds st rule: flush_loop.induct) simp_all

lemma flush_clean: "dirty_addr (flushInode opts ino st) ino c = None"
  by (simp add: flushInode_def dirty_addr_def Let_def split: option.splits)

text \<open>Flushing and then dropping the buffer keeps every chunk.\<close>

definition settled :: "ChunkedVfsOptions \<Rightarrow> nat \<Rightarrow> CVfs \<Rightarrow> CVfs" where
  "settled opts ino st =
     (let st0 = flushInode opts ino st in st0\<lparr>cv_buffers := mdel ino (cv_buffers st0)\<rparr>)"

lemma settled_props:
  assumes "struct_inv st"
  shows "struct_inv (settled opts ino st)" "touched ino st (settled opts ino st)"
    "chunk (settled opts ino st) ino = chunk st ino" "\<not> mhas (cv_buffers (settled opts ino st)) ino"
    "getInode ino (cv_meta (settled opts ino st)) = getInode ino (cv_meta st)"
    "\<not> mhas (cv_buffers st) ino \<Longrightarrow> cv_meta (settled opts ino st) = cv_meta st"
proof -
  note w = flushInode_writes [OF assms, of ino opts]
  show "struct_inv (settled opts ino st)"
    using drop_buffer_struct [OF writes_struct [OF w], of ino] by (simp add: settled_def Let_def)
  show "touched ino st (settled opts ino st)"
    using touched_trans [OF frame_touched [OF writes_frame [OF w]] drop_buffer_touched] by (simp add: settled_def Let_def)
  have "blk (flushInode opts ino st) ino c = chunk st ino c" for c
    using chunk_clean [OF flush_clean] writes_chunk [OF w] by metis
  then show "chunk (settled opts ino st) ino = chunk st ino"
    by (simp add: settled_def Let_def drop_buffer_chunk fun_eq_iff)
  show "\<not> mhas (cv_buffers (settled opts ino st)) ino" by (simp add: settled_def Let_def)
  show "getInode ino (cv_meta (settled opts ino st)) = getInode ino (cv_meta st)"
    using writes_frame [OF w] by (simp add: settled_def Let_def frame_def getInode_def)
  show "cv_meta (settled opts ino st) = cv_meta st" if "\<not> mhas (cv_buffers st) ino"
    using that by (simp add: settled_def Let_def flushInode_def mhas_def)
qed

lemma flush_if_dirty:
  "(case mget (cv_buffers st) ino of
      None \<Rightarrow> st
    | Some b \<Rightarrow> if wb_dirtyChunks b \<noteq> [] then flushInode opts ino st else st) = flushInode opts ino st"
  by (auto simp: flushInode_def split: option.splits)

lemma drop_chunks_buffers [simp]: "cv_buffers (drop_chunks opts ino st) = cv_buffers st"
  by (simp add: drop_chunks_def Let_def case_prod_beta)

lemma take_resize: "len \<le> length x \<Longrightarrow> resize x len = take len x"
  by (simp add: resize_def zeros_def)

lemma u8_set_resize:
  assumes "length x \<le> len" shows "u8_set (zeros len) x 0 = Inr (resize x len)"
proof -
  obtain r where r: "u8_set (zeros len) x 0 = Inr r" using u8_set_some [of 0 x "zeros len"] assms by auto
  have "r = resize x len"
  proof (rule bytes_eqI)
    show "length r = length (resize x len)" using u8_set_length [OF r] by simp
    show "nth0 r i = nth0 (resize x len) i" if "i < length (resize x len)" for i
      using that u8_set_nth0 [OF r, of i] by (simp add: nth0_resize nth0_def [of x])
  qed
  then show ?thesis using r by simp
qed

lemma demote_becomes:
  assumes "struct_inv st2" "touched ino st st2" "getInode ino (cv_meta st2) = Some meta" "\<not> mhas (cv_buffers st2) ino"
  shows "becomes opts ino content st
    (upd_inode ino (\<lambda>m. m\<lparr>im_size := length content, im_mtimeMs := now, im_ctimeMs := now\<rparr>) (demoteToInline opts ino content st2))"
proof -
  note d = drop_chunks_writes [OF assms(1,4), where opts = opts]
  let ?st3 = "drop_chunks opts ino st2" and ?f = "\<lambda>m. m\<lparr>im_storageMode := SM_inline, im_inlineContent := Some content\<rparr>"
  have t3: "touched ino st ?st3" using touched_trans [OF assms(2) frame_touched [OF writes_frame [OF d(1)]]] .
  have g3: "getInode ino (cv_meta ?st3) = Some meta"
    using writes_frame [OF d(1)] assms(3) by (simp add: frame_def getInode_def)
  show ?thesis
    unfolding demoteToInline_def
    by (rule becomes_inline [OF upd_inode_struct [OF writes_struct [OF d(1)]] touched_trans [OF t3 upd_inode_touched]])
      (use g3 d assms(4) in auto)
qed

lemma shrink_becomes:
  assumes inv: "struct_inv st1" "0 < opt_chunkSize opts" and t: "touched ino st st1"
    and meta: "getInode ino (cv_meta st1) = Some meta" "im_storageMode meta = SM_chunked"
    and fit: "fits (opt_chunkSize opts) n (chunk st1 ino)" and nb: "\<not> mhas (cv_buffers st1) ino"
    and len: "0 < len" "len < n"
  shows "\<exists>st'. (case shrink_chunks opts ino len st1 of
       (Inl e, st2) \<Rightarrow> (Inl e, st2)
     | (Inr _, st2) \<Rightarrow>
         if len \<le> opt_inlineThreshold opts then
           (case overlay_blocks (opt_chunkSize opts) (cv_store st2) []
                   (getAllChunkKeys ino (cv_meta st2)) (zeros len) of
              Inl e \<Rightarrow> (Inl e, st2)
            | Inr content \<Rightarrow>
                (Inr (), upd_inode ino (\<lambda>m. m\<lparr>im_size := len, im_mtimeMs := now, im_ctimeMs := now\<rparr>)
                   (demoteToInline opts ino content st2)))
         else (Inr (), upd_inode ino (\<lambda>m. m\<lparr>im_size := len, im_mtimeMs := now, im_ctimeMs := now\<rparr>) st2)) = (Inr (), st') \<and>
     becomes opts ino (resize (fbytes (opt_chunkSize opts) n (chunk st1 ino)) len) st st'"
proof -
  let ?cs = "opt_chunkSize opts" and ?C = "cut_chunk (opt_chunkSize opts) len (chunk st1 ino)"
  obtain st2 where st2: "shrink_chunks opts ino len st1 = (Inr (), st2)" "writes ino ?C st1 st2"
    using shrink_chunks_writes [OF inv(1) nb inode_allocated [OF inv(1) meta(1)]] by metis
  have b: "fbytes ?cs len ?C = resize (fbytes ?cs n (chunk st1 ino)) len" "fits ?cs len ?C"
    using cut_chunk_bytes [OF inv(2) len(1)] cut_chunk_fits [OF inv(2) len(1) fit] len(2) by simp_all
  have t2: "touched ino st st2" using touched_trans [OF t frame_touched [OF writes_frame [OF st2(2)]]] .
  have g2: "getInode ino (cv_meta st2) = Some meta" and nb2: "\<not> mhas (cv_buffers st2) ino"
    using writes_frame [OF st2(2)] meta(1) nb frame_buffer by (auto simp: frame_def getInode_def)
  note s2 = writes_struct [OF st2(2)]
  show ?thesis
  proof (cases "len \<le> opt_inlineThreshold opts")
    case True
    have "mget (cv_buffers st2) ino = None" using nb2 by (simp add: mhas_def)
    then have "overlay_blocks ?cs (cv_store st2) [] (getAllChunkKeys ino (cv_meta st2)) (zeros len) =
        Inr (fbytes ?cs len ?C)"
      using overlay_chunks [OF s2 inv(2), of len ino] b(2) writes_chunk [OF st2(2)] by auto
    then show ?thesis
      using True st2(1) b(1) demote_becomes [OF s2 t2 g2 nb2, where content = "fbytes ?cs len ?C"] by simp
  next
    case False
    have "becomes opts ino (fbytes ?cs len (chunk st2 ino)) st
        (upd_inode ino (\<lambda>m. m\<lparr>im_size := len, im_mtimeMs := now, im_ctimeMs := now\<rparr>) st2)"
      by (rule becomes_chunked [OF s2 t2 g2 meta(2)]) (use b(2) writes_chunk [OF st2(2)] nb2 in \<open>auto simp: mhas_def\<close>)
    then show ?thesis using False st2(1) b(1) writes_chunk [OF st2(2)] by simp
  qed
qed

lemma truncate_becomes:
  assumes inv: "cv_inv opts st" and p: "resolveIno p st = Inr ino"
    and meta: "getInode ino (cv_meta st) = Some meta" "im_type meta = IT_file"
  shows "\<exists>st'. cv_truncate opts now p len st = (Inr (), st') \<and>
    becomes opts ino (resize (fcontent (opt_chunkSize opts) st ino meta) len) st st'"
proof -
  let ?cs = "opt_chunkSize opts" and ?c = "fcontent (opt_chunkSize opts) st ino meta"
  let ?touch = "\<lambda>m. m\<lparr>im_size := len, im_mtimeMs := now, im_ctimeMs := now\<rparr>"
  note f = cv_invD(4) [OF inv meta(1)] and s = cv_invD(2,1) [OF inv]
  note e = effective_size [OF f meta(2)]
  let ?n = "im_size meta" and ?st1 = "settled opts ino st"
  have nd: "im_type meta \<noteq> IT_directory" using meta(2) by simp
  note st1 = settled_props [OF s(1), where opts = opts and ino = ino]
  have g1: "getInode ino (cv_meta ?st1) = Some meta" using st1(5) meta(1) by simp
  show ?thesis
  proof (cases "len = ?n")
    case True
    then have "resize ?c len = ?c" using e(2) by (simp add: resize_def zeros_def)
    then show ?thesis
      using True p meta nd e(1) becomes_same [OF inv meta(1)]
      by (simp add: cv_truncate_def requireInode_def Let_def)
  next
    case ne: False
    note eq = cv_truncate_def [of opts now p len st]
    show ?thesis
    proof (cases "im_storageMode meta")
      case SM_inline
      have c: "?c = inline_bytes meta" "length (inline_bytes meta) = ?n"
        using SM_inline e(2) by (simp_all add: fcontent_def)
      have nb: "\<not> mhas (cv_buffers st) ino" and k1: "\<And>c. getChunkKey ino c (cv_meta ?st1) = None"
        using f SM_inline st1(6) by (simp_all add: file_ok_def)
      have set1: "?st1 = st\<lparr>cv_buffers := mdel ino (cv_buffers st)\<rparr>"
        using nb by (simp add: settled_def flushInode_def mhas_def)
      have nb': "mget (cv_buffers st) ino = None" using nb by (simp add: mhas_def)
      note bi = becomes_inline [OF st1(1,2) g1 _ k1 st1(4)]
      show ?thesis
      proof (cases "len < ?n \<or> len \<le> opt_inlineThreshold opts")
        case True
        let ?x = "resize (inline_bytes meta) len"
        have r: "cv_truncate opts now p len st =
            (Inr (), upd_inode ino (\<lambda>m. ?touch (m\<lparr>im_inlineContent := Some ?x\<rparr>)) ?st1)"
          using True ne p meta nd SM_inline c nb' u8_set_resize [of "inline_bytes meta" len]
          by (auto simp: eq requireInode_def Let_def set1 take_resize u8_slice_def not_less)
        have "becomes opts ino ?x st (upd_inode ino (\<lambda>m. ?touch (m\<lparr>im_inlineContent := Some ?x\<rparr>)) ?st1)"
          by (rule bi) (use SM_inline in \<open>auto simp: keeps_id_def\<close>)
        then show ?thesis using r c by simp
      next
        case False
        have i1: "cv_inv opts ?st1"
        proof (rule touched_inv [OF inv st1(2,1)])
          show "file_ok ?cs ?st1 ino meta'" if "getInode ino (cv_meta ?st1) = Some meta'" for meta'
            using that g1 f SM_inline k1 st1(4) by (simp add: file_ok_def)
        qed (use st1(4) in simp)
        let ?st2 = "promoteToChunked opts ino meta ?st1"
        have pr: "promoted opts ino meta ?st1 ?st2"
          by (rule promoteToChunked_promoted [OF i1 g1 SM_inline])
        have r: "cv_truncate opts now p len st = (Inr (), upd_inode ino ?touch ?st2)"
          using False ne p meta nd SM_inline nb'
          by (simp add: eq requireInode_def Let_def set1)
        have fit: "fits ?cs ?n (chunk ?st2 ino)" and bb: "fbytes ?cs ?n (chunk ?st2 ino) = ?c"
          using pr split_chunks_fits [OF s(2), of "inline_bytes meta"]
            split_chunks_bytes [OF s(2), of "inline_bytes meta"] c by (simp_all add: promoted_def)
        have nb2: "\<not> mhas (cv_buffers ?st2) ino"
          using frame_buffer st1(4) put_chunks_writes [OF st1(1) inode_allocated [OF st1(1) g1] st1(4) distinct_upt,
              THEN writes_frame, THEN frame_buffer]
          by (simp add: promoteToChunked_def Let_def)
        have "becomes opts ino (fbytes ?cs len (chunk ?st2 ino)) st (upd_inode ino ?touch ?st2)"
          by (rule becomes_chunked [where meta = "chunked_meta meta"])
            (use pr fits_mono [OF fit, of len] False touched_trans [OF st1(2)] nb2 in \<open>auto simp: promoted_def mhas_def\<close>)
        moreover have "fbytes ?cs len (chunk ?st2 ino) = resize ?c len"
          using grow_bytes [OF fit, of len] False by (simp add: bb)
        ultimately show ?thesis using r by simp
      qed
    next
      case SM_chunked
      have fit: "fits ?cs ?n (chunk ?st1 ino)" and c: "?c = fbytes ?cs ?n (chunk ?st1 ino)"
        using f SM_chunked st1(3) by (simp_all add: file_ok_def fcontent_def)
      consider "len = 0" "len < ?n" | "0 < len" "len < ?n" | "?n < len" using ne by linarith
      then show ?thesis
      proof cases
        case 1
        note d = drop_chunks_writes [OF st1(1,4), where opts = opts]
        let ?f = "\<lambda>m. ?touch (m\<lparr>im_storageMode := SM_inline, im_inlineContent := Some []\<rparr>)"
        have "becomes opts ino [] st (upd_inode ino ?f (drop_chunks opts ino ?st1))"
          by (rule becomes_inline [OF writes_struct [OF d(1)] touched_trans [OF st1(2) frame_touched [OF writes_frame [OF d(1)]]],
                where meta = meta])
            (use writes_frame [OF d(1)] g1 d(2) st1(4) 1 in \<open>auto simp: keeps_id_def frame_def getInode_def\<close>)
        moreover have "cv_truncate opts now p len st = (Inr (), upd_inode ino ?f (drop_chunks opts ino ?st1))"
          using 1 ne p meta nd SM_chunked e(1)
          by (simp add: cv_truncate_def requireInode_def Let_def flush_if_dirty settled_def)
        moreover have "resize ?c len = []" using 1 by (simp add: resize_def zeros_def)
        ultimately show ?thesis by auto
      next
        case 2
        show ?thesis
          using shrink_becomes [OF st1(1) s(2) st1(2) g1 SM_chunked fit st1(4) 2, of now] 2 ne p meta nd SM_chunked e(1) c
          by (simp add: eq requireInode_def Let_def flush_if_dirty settled_def)
      next
        case 3
        have "becomes opts ino (fbytes ?cs len (chunk ?st1 ino)) st (upd_inode ino ?touch ?st1)"
          by (rule becomes_chunked [OF st1(1,2) g1 SM_chunked])
            (use fits_mono [OF fit] 3 st1(4) in \<open>auto simp: mhas_def\<close>)
        moreover have "fbytes ?cs len (chunk ?st1 ino) = resize ?c len" using grow_bytes [OF fit, of len] 3 by (simp add: c)
        moreover have "cv_truncate opts now p len st = (Inr (), upd_inode ino ?touch ?st1)"
          using 3 p meta nd SM_chunked e(1)
          by (simp add: eq requireInode_def Let_def flush_if_dirty settled_def)
        ultimately show ?thesis by simp
      qed
    qed
  qed
qed

subsection \<open>Replacing the content\<close>

lemma becomes_chunked_upd:
  assumes "struct_inv st1" "touched ino st st1" "getInode ino (cv_meta st1) = Some meta" "keeps_id f"
    and "im_storageMode (f meta) = SM_chunked" "im_size (f meta) = n"
    and "fits (opt_chunkSize opts) n (chunk st1 ino)" "\<not> mhas (cv_buffers st1) ino"
  shows "becomes opts ino (fbytes (opt_chunkSize opts) n (chunk st1 ino)) st (upd_inode ino f st1)"
  using assms upd_inode_struct [OF assms(1,4)] touched_trans [OF assms(2) upd_inode_touched [OF assms(4)]]
  by (simp add: becomes_def file_ok_def fcontent_def mhas_def)

lemma writeInodeContent_becomes:
  assumes inv: "struct_inv st" "0 < opt_chunkSize opts" and nb: "\<not> mhas (cv_buffers st) ino"
    and meta: "getInode ino (cv_meta st) = Some meta"
    and inl: "im_storageMode meta = SM_inline \<Longrightarrow> \<forall>c. getChunkKey ino c (cv_meta st) = None"
  shows "becomes opts ino x st (writeInodeContent opts now ino x meta st)"
proof -
  define st1 where "st1 = (if im_storageMode meta = SM_chunked then drop_chunks opts ino st else st)"
  note d = drop_chunks_writes [OF inv(1) nb, where opts = opts]
  have w: "writes ino (\<lambda>_. None) st st1" and k: "\<And>c. getChunkKey ino c (cv_meta st1) = None"
  proof -
    have "writes ino (\<lambda>_. None) st st \<and> (\<forall>c. getChunkKey ino c (cv_meta st) = None)"
      if "im_storageMode meta \<noteq> SM_chunked"
      using that inl inv nb
      by (cases "im_storageMode meta") (auto simp: writes_def chunk_def chunk_addr_def block_addr_def no_dirty)
    then show "writes ino (\<lambda>_. None) st st1" "\<And>c. getChunkKey ino c (cv_meta st1) = None"
      using d by (simp_all add: st1_def)
  qed
  have g1: "getInode ino (cv_meta st1) = Some meta" and nb1: "\<not> mhas (cv_buffers st1) ino"
    using writes_frame [OF w] meta nb frame_buffer by (auto simp: frame_def getInode_def)
  note s1 = writes_struct [OF w] and t1 = frame_touched [OF writes_frame [OF w]]
  show ?thesis
  proof (cases "length x \<le> opt_inlineThreshold opts")
    case True
    have "becomes opts ino x st (upd_inode ino (\<lambda>m. m\<lparr>im_storageMode := SM_inline, im_inlineContent := Some x,
         im_size := length x, im_mtimeMs := now, im_ctimeMs := now\<rparr>) st1)"
      by (rule becomes_inline [OF s1 t1 g1]) (use k nb1 in auto)
    then show ?thesis using True by (simp add: writeInodeContent_def Let_def st1_def)
  next
    case False
    let ?cs = "opt_chunkSize opts"
    let ?st2 = "put_chunks opts ino x [0..<numChunks ?cs (length x)] st1"
    have sp: "split_chunks ?cs x = (\<lambda>c. if c \<in> set [0..<numChunks ?cs (length x)]
        then Some (chunk_of ?cs x c) else chunk st1 ino c)"
      using writes_chunk [OF w] by (simp add: split_chunks_def fun_eq_iff)
    have w2: "writes ino (split_chunks ?cs x) st1 ?st2"
      unfolding sp by (rule put_chunks_writes [OF s1 inode_allocated [OF s1 g1] nb1 distinct_upt])
    have "becomes opts ino (fbytes ?cs (length x) (chunk ?st2 ino)) st
       (upd_inode ino (\<lambda>m. m\<lparr>im_storageMode := SM_chunked, im_inlineContent := None,
         im_size := length x, im_mtimeMs := now, im_ctimeMs := now\<rparr>) ?st2)"
      by (rule becomes_chunked_upd [OF writes_struct [OF w2] touched_trans [OF t1 frame_touched [OF writes_frame [OF w2]]],
            where meta = meta])
        (use writes_frame [OF w2] g1 nb1 frame_buffer split_chunks_fits [OF inv(2)] writes_chunk [OF w2]
          in \<open>auto simp: frame_def getInode_def\<close>)
    then show ?thesis
      using False writes_chunk [OF w2] split_chunks_bytes [OF inv(2), of x]
      by (simp add: writeInodeContent_def Let_def st1_def)
  qed
qed

subsection \<open>The specification: files are byte arrays\<close>

text \<open>
  The abstract file system: what every path resolves to, and for every inode whether it is a file,
  with its bytes, a directory or a link.
\<close>

datatype node = FileNode bytes | DirNode | LinkNode

record AbsFs =
  af_resolve :: "path \<Rightarrow> exn + nat"
  af_node :: "nat \<Rightarrow> node option"

definition node_of :: "nat \<Rightarrow> CVfs \<Rightarrow> nat \<Rightarrow> node option" where
  "node_of cs st ino =
     map_option (\<lambda>meta. case im_type meta of
         IT_file \<Rightarrow> FileNode (fcontent cs st ino meta) | IT_directory \<Rightarrow> DirNode | IT_symlink \<Rightarrow> LinkNode)
       (getInode ino (cv_meta st))"

definition abs_fs :: "ChunkedVfsOptions \<Rightarrow> CVfs \<Rightarrow> AbsFs" where
  "abs_fs opts st = \<lparr>af_resolve = (\<lambda>p. resolveIno p st), af_node = node_of (opt_chunkSize opts) st\<rparr>"

datatype io_call =
    IoRead path
  | IoPread path nat nat
  | IoPwrite path nat bytes
  | IoTruncate path nat
  | IoSize path
  | IoFsync path
  | IoFlushAll

datatype io_reply = IoBytes bytes | IoNum int | IoDone

text \<open>The file a path names, or the error.\<close>

definition spec_file :: "path \<Rightarrow> AbsFs \<Rightarrow> exn + nat \<times> bytes" where
  "spec_file p A =
     (case af_resolve A p of
        Inl e \<Rightarrow> Inl e
      | Inr ino \<Rightarrow> (case af_node A ino of
            None \<Rightarrow> Inl (KErr ENOENT)
          | Some (FileNode c) \<Rightarrow> Inr (ino, c)
          | Some DirNode \<Rightarrow> Inl (KErr EISDIR)
          | Some LinkNode \<Rightarrow> Inl (KErr ELOOP)))"

definition set_file :: "nat \<Rightarrow> bytes \<Rightarrow> AbsFs \<Rightarrow> AbsFs" where
  "set_file ino c A = A\<lparr>af_node := (af_node A)(ino \<mapsto> FileNode c)\<rparr>"

fun spec_step :: "io_call \<Rightarrow> AbsFs \<Rightarrow> (exn + io_reply) \<times> AbsFs" where
  "spec_step (IoRead p) A =
     (case spec_file p A of Inl e \<Rightarrow> (Inl e, A) | Inr (ino, c) \<Rightarrow> (Inr (IoBytes c), A))"
| "spec_step (IoPread p off len) A =
     (case spec_file p A of Inl e \<Rightarrow> (Inl e, A) | Inr (ino, c) \<Rightarrow> (Inr (IoBytes (take len (drop off c))), A))"
| "spec_step (IoPwrite p off data) A =
     (if data = []
      then (case af_resolve A p of Inl e \<Rightarrow> (Inl e, A) | Inr ino \<Rightarrow> (Inr IoDone, A))
      else (case spec_file p A of
          Inl e \<Rightarrow> (Inl e, A)
        | Inr (ino, c) \<Rightarrow> (Inr IoDone, set_file ino (overwrite c off data) A)))"
| "spec_step (IoTruncate p len) A =
     (case spec_file p A of Inl e \<Rightarrow> (Inl e, A) | Inr (ino, c) \<Rightarrow> (Inr IoDone, set_file ino (resize c len) A))"
| "spec_step (IoSize p) A =
     (case spec_file p A of
        Inl e \<Rightarrow> ((if e = KErr EISDIR then Inr (IoNum 4096) else Inl e), A)
      | Inr (ino, c) \<Rightarrow> (Inr (IoNum (int (length c))), A))"
| "spec_step (IoFsync p) A = (Inr IoDone, A)"
| "spec_step IoFlushAll A = (Inr IoDone, A)"

definition reply :: "('a \<Rightarrow> io_reply) \<Rightarrow> exn + 'a \<Rightarrow> exn + io_reply" where
  "reply f r = map_sum (\<lambda>e. e) f r"

fun io_step :: "ChunkedVfsOptions \<Rightarrow> int \<Rightarrow> io_call \<Rightarrow> CVfs \<Rightarrow> (exn + io_reply) \<times> CVfs" where
  "io_step opts now (IoRead p) st = apfst (reply IoBytes) (cv_readFile opts now p st)"
| "io_step opts now (IoPread p off len) st = (reply IoBytes (cv_pread opts p off len st), st)"
| "io_step opts now (IoPwrite p off data) st = apfst (reply (\<lambda>_. IoDone)) (cv_pwrite opts now p off data st)"
| "io_step opts now (IoTruncate p len) st = apfst (reply (\<lambda>_. IoDone)) (cv_truncate opts now p len st)"
| "io_step opts now (IoSize p) st = (reply (\<lambda>s. IoNum (vs_size s)) (cv_stat p st), st)"
| "io_step opts now (IoFsync p) st = (Inr IoDone, cv_fsync opts p st)"
| "io_step opts now IoFlushAll st = (Inr IoDone, flushAll opts st)"

subsection \<open>The refinement\<close>

lemma requireFileIno_cases:
  assumes "cv_inv opts st"
  obtains (error) e where "requireFileIno p st = Inl e" "spec_file p (abs_fs opts st) = Inl e"
  | (found) ino meta where "requireFileIno p st = Inr (ino, meta)" "resolveIno p st = Inr ino"
    "getInode ino (cv_meta st) = Some meta" "im_type meta = IT_file"
    "spec_file p (abs_fs opts st) = Inr (ino, fcontent (opt_chunkSize opts) st ino meta)"
proof (cases "resolveIno p st")
  case (Inl e)
  then show thesis by (intro error) (simp_all add: requireFileIno_def spec_file_def abs_fs_def)
next
  case (Inr ino)
  show thesis
  proof (cases "getInode ino (cv_meta st)")
    case None
    then show thesis
      using Inr by (intro error) (simp_all add: requireFileIno_def requireInode_def spec_file_def abs_fs_def node_of_def)
  next
    case (Some meta)
    show thesis
    proof (cases "im_type meta = IT_directory")
      case True
      then show thesis
        using Inr Some by (intro error) (simp_all add: requireFileIno_def requireInode_def spec_file_def abs_fs_def node_of_def)
    next
      case False
      then have "im_type meta = IT_file" using resolved_file [OF cv_invD(2) [OF assms] Inr Some] by blast
      then show thesis
        using Inr Some by (intro found) (simp_all add: requireFileIno_def requireInode_def spec_file_def abs_fs_def node_of_def)
    qed
  qed
qed

lemma resolveIno_tree: "same_tree (cv_meta st) (cv_meta st') \<Longrightarrow> resolveIno p st' = resolveIno p st"
  by (simp add: resolveIno_def same_tree_resolvePath)

lemma becomes_abs:
  assumes "becomes opts ino c st st'" "getInode ino (cv_meta st) = Some meta" "im_type meta = IT_file"
  shows "abs_fs opts st' = set_file ino c (abs_fs opts st)"
proof -
  have t: "touched ino st st'" using assms(1) by (simp add: becomes_def)
  have "node_of (opt_chunkSize opts) st' i = ((node_of (opt_chunkSize opts) st)(ino \<mapsto> FileNode c)) i" for i
  proof (cases "i = ino")
    case True
    obtain meta' where m: "getInode ino (cv_meta st') = Some meta'" "fcontent (opt_chunkSize opts) st' ino meta' = c"
      using assms(1) by (auto simp: becomes_def)
    have "map_option im_type (getInode ino (cv_meta st')) = map_option im_type (getInode ino (cv_meta st))"
      using t by (simp add: touched_def)
    then have "im_type meta' = IT_file" using m assms(2,3) by simp
    then show ?thesis using True m by (simp add: node_of_def)
  next
    case False
    then have "getInode i (cv_meta st') = getInode i (cv_meta st)" using t by (simp add: touched_def)
    then show ?thesis
      using False touched_file_ok(2) [OF t False]
      by (cases "getInode i (cv_meta st)") (simp_all add: node_of_def cong: InodeType.case_cong)
  qed
  then show ?thesis using resolveIno_tree [OF touched_tree [OF t]] by (simp add: abs_fs_def set_file_def fun_eq_iff)
qed

text \<open>Updates that leave type, size, storage and content of every inode alone.\<close>

definition keeps_content :: "(InodeMeta \<Rightarrow> InodeMeta) \<Rightarrow> bool" where
  "keeps_content f \<longleftrightarrow> keeps_id f \<and> (\<forall>m. im_size (f m) = im_size m \<and> im_storageMode (f m) = im_storageMode m \<and>
     im_inlineContent (f m) = im_inlineContent m)"

lemma keeps_content_updates [simp]:
  "keeps_content (\<lambda>m. m\<lparr>im_atimeMs := a\<rparr>)" "keeps_content (\<lambda>m. m\<lparr>im_nlink := l\<rparr>)"
  "keeps_content (\<lambda>m. m\<lparr>im_nlink := l, im_ctimeMs := t\<rparr>)"
  "keeps_content (\<lambda>m. m\<lparr>im_mode := md, im_ctimeMs := t\<rparr>)"
  "keeps_content (\<lambda>m. m\<lparr>im_uid := u, im_gid := g, im_ctimeMs := t\<rparr>)"
  "keeps_content (\<lambda>m. m\<lparr>im_atimeMs := a, im_mtimeMs := mt, im_ctimeMs := t\<rparr>)"
  by (simp_all add: keeps_content_def)

lemma upd_content_ok:
  assumes "keeps_content f"
  shows "file_ok cs (upd_inode ino f st) i (f meta) = file_ok cs st i meta"
    "file_ok cs (upd_inode ino f st) i meta = file_ok cs st i meta"
    "fcontent cs (upd_inode ino f st) i (f meta) = fcontent cs st i meta"
    "fcontent cs (upd_inode ino f st) i meta = fcontent cs st i meta"
  using assms by (cases "im_storageMode meta"; simp add: keeps_content_def keeps_id_def file_ok_def fcontent_def)+

lemma upd_content_inv:
  assumes "cv_inv opts st" "keeps_content f"
  shows "cv_inv opts (upd_inode ino f st)" "abs_fs opts (upd_inode ino f st) = abs_fs opts st"
proof -
  have k: "keeps_id f" using assms(2) by (simp add: keeps_content_def)
  note t = upd_inode_touched [OF k, of ino st]
  show "cv_inv opts (upd_inode ino f st)"
  proof (rule touched_inv [OF assms(1) t upd_inode_struct [OF cv_invD(2) [OF assms(1)] k]])
    show "file_ok (opt_chunkSize opts) (upd_inode ino f st) ino meta"
      if "getInode ino (cv_meta (upd_inode ino f st)) = Some meta" for meta
      using that cv_invD(4) [OF assms(1)] upd_content_ok(1) [OF assms(2)] by auto
    show "opt_writeBuffering opts" if "mhas (cv_buffers (upd_inode ino f st)) ino"
      using that cv_invD(3) [OF assms(1)] by simp
  qed
  have "node_of (opt_chunkSize opts) (upd_inode ino f st) i = node_of (opt_chunkSize opts) st i" for i
  proof (cases "getInode i (cv_meta st)")
    case (Some meta)
    then show ?thesis
      using upd_content_ok(3,4) [OF assms(2)] k
      by (cases "i = ino"; cases "im_type meta") (simp_all add: node_of_def keeps_id_def)
  qed (auto simp: node_of_def)
  then show "abs_fs opts (upd_inode ino f st) = abs_fs opts st"
    using resolveIno_tree [OF touched_tree [OF t]] by (simp add: abs_fs_def fun_eq_iff)
qed

lemma flushInode_inv:
  assumes "cv_inv opts st"
  shows "cv_inv opts (flushInode opts ino st)" "abs_fs opts (flushInode opts ino st) = abs_fs opts st"
proof -
  let ?st = "flushInode opts ino st" and ?cs = "opt_chunkSize opts"
  note w = flushInode_writes [OF cv_invD(2) [OF assms], of ino opts]
  note fr = writes_frame [OF w]
  note t = frame_touched [OF fr]
  have g: "getInode i (cv_meta ?st) = getInode i (cv_meta st)" for i
    using fr by (simp add: frame_def getInode_def)
  have bs: "map_option wb_bufferedSize (mget (cv_buffers ?st) ino) = map_option wb_bufferedSize (mget (cv_buffers st) ino)"
    using fr by (simp add: frame_def)
  have fc: "fcontent ?cs ?st i meta = fcontent ?cs st i meta" for i meta
  proof (cases "i = ino")
    case True
    then show ?thesis using writes_chunk [OF w] by (cases "im_storageMode meta") (simp_all add: fcontent_def)
  qed (rule touched_file_ok(2) [OF t])
  have fo: "file_ok ?cs ?st ino meta" if m: "getInode ino (cv_meta st) = Some meta" for meta
  proof (cases "im_storageMode meta")
    case SM_inline
    then have "?st = st" using cv_invD(4) [OF assms m] by (simp add: file_ok_def flushInode_def mhas_def)
    then show ?thesis using cv_invD(4) [OF assms m] by simp
  next
    case SM_chunked
    then have "fits ?cs (im_size meta) (chunk ?st ino)"
      and "\<And>b. mget (cv_buffers st) ino = Some b \<Longrightarrow> wb_bufferedSize b = im_size meta"
      using cv_invD(4) [OF assms m] writes_chunk [OF w] by (simp_all add: file_ok_def)
    moreover have "wb_bufferedSize b = im_size meta" if "mget (cv_buffers ?st) ino = Some b" for b
      using bs that calculation(2) by (cases "mget (cv_buffers st) ino") auto
    ultimately show ?thesis using SM_chunked by (simp add: file_ok_def)
  qed
  show "cv_inv opts ?st"
    by (rule touched_inv [OF assms t writes_struct [OF w]])
      (use fo g cv_invD(3) [OF assms] frame_buffer [OF fr] in auto)
  have nd: "node_of ?cs ?st i = node_of ?cs st i" for i
    by (cases "getInode i (cv_meta st)") (simp_all add: node_of_def fc g cong: InodeType.case_cong)
  show "abs_fs opts ?st = abs_fs opts st"
    using resolveIno_tree [OF touched_tree [OF t]] nd by (simp add: abs_fs_def fun_eq_iff)
qed

lemma flushAll_inv:
  assumes "cv_inv opts st"
  shows "cv_inv opts (flushAll opts st)" "abs_fs opts (flushAll opts st) = abs_fs opts st"
proof -
  have "cv_inv opts (fold (flushInode opts) is st) \<and> abs_fs opts (fold (flushInode opts) is st) = abs_fs opts st" for "is"
    using assms by (induction "is" arbitrary: st) (simp_all add: flushInode_inv)
  then show "cv_inv opts (flushAll opts st)" "abs_fs opts (flushAll opts st) = abs_fs opts st"
    by (simp_all add: flushAll_def)
qed

lemma readFile_refines:
  assumes "cv_inv opts st"
  shows "cv_inv opts (snd (cv_readFile opts now p st))" "abs_fs opts (snd (cv_readFile opts now p st)) = abs_fs opts st"
    "fst (cv_readFile opts now p st) = map_sum (\<lambda>e. e) snd (spec_file p (abs_fs opts st))"
proof -
  let ?f = "\<lambda>m. m\<lparr>im_atimeMs := now\<rparr>"
  have "cv_inv opts (snd (cv_readFile opts now p st)) \<and> abs_fs opts (snd (cv_readFile opts now p st)) = abs_fs opts st \<and>
    fst (cv_readFile opts now p st) = map_sum (\<lambda>e. e) snd (spec_file p (abs_fs opts st))"
    using assms
  proof (cases rule: requireFileIno_cases [where p = p])
    case (error e)
    then show ?thesis using assms by (simp add: cv_readFile_def)
  next
    case (found ino meta)
    note u = upd_content_inv [OF assms, of ?f ino]
    have "getAllChunkKeys ino (updateInode ino ?f (cv_meta st)) = getAllChunkKeys ino (cv_meta st)"
      by (simp add: getAllChunkKeys_def)
    then have "readInodeContent opts ino meta (upd_inode ino ?f st) = readInodeContent opts ino meta st"
      by (cases "im_storageMode meta") (simp_all add: readInodeContent_def Let_def)
    then show ?thesis
      using found u readInodeContent_result [OF assms found(3,4)] by (simp add: cv_readFile_def Let_def)
  qed
  then show "cv_inv opts (snd (cv_readFile opts now p st))" "abs_fs opts (snd (cv_readFile opts now p st)) = abs_fs opts st"
    "fst (cv_readFile opts now p st) = map_sum (\<lambda>e. e) snd (spec_file p (abs_fs opts st))" by blast+
qed

lemma io_step_refines:
  assumes "cv_inv opts st"
  shows "cv_inv opts (snd (io_step opts now c st)) \<and>
    fst (io_step opts now c st) = fst (spec_step c (abs_fs opts st)) \<and>
    abs_fs opts (snd (io_step opts now c st)) = snd (spec_step c (abs_fs opts st))"
proof (cases c)
  case (IoRead p)
  then show ?thesis
    using readFile_refines [OF assms, of now p] by (cases "spec_file p (abs_fs opts st)") (auto simp: reply_def)
next
  case (IoPread p off len)
  from assms show ?thesis
  proof (cases rule: requireFileIno_cases [where p = p])
    case (error e)
    then show ?thesis using assms IoPread by (simp add: cv_pread_def reply_def)
  next
    case (found ino meta)
    then show ?thesis using assms IoPread pread_result [OF assms found(1)] by (simp add: reply_def)
  qed
next
  case (IoPwrite p off data)
  show ?thesis
  proof (cases "data = []")
    case True
    then show ?thesis
      using assms IoPwrite by (cases "resolveIno p st") (simp_all add: cv_pwrite_def reply_def abs_fs_def)
  next
    case False
    from assms show ?thesis
    proof (cases rule: requireFileIno_cases [where p = p])
      case (error e)
      then have "cv_pwrite opts now p off data st = (Inl e, st)"
        using False by (auto simp: cv_pwrite_def requireFileIno_def split: sum.splits if_splits)
      then show ?thesis using error assms IoPwrite False by (simp add: reply_def)
    next
      case (found ino meta)
      obtain st' where "cv_pwrite opts now p off data st = (Inr (), st')"
        "becomes opts ino (overwrite (fcontent (opt_chunkSize opts) st ino meta) off data) st st'"
        using pwrite_becomes [OF assms found(2) False found(3,4)] by blast
      then show ?thesis
        using found IoPwrite False becomes_inv [OF assms] becomes_abs [OF _ found(3,4)] by (simp add: reply_def)
    qed
  qed
next
  case (IoTruncate p len)
  from assms show ?thesis
  proof (cases rule: requireFileIno_cases [where p = p])
    case (error e)
    then have "cv_truncate opts now p len st = (Inl e, st)"
      by (auto simp: cv_truncate_def requireFileIno_def split: sum.splits if_splits)
    then show ?thesis using error assms IoTruncate by (simp add: reply_def)
  next
    case (found ino meta)
    obtain st' where "cv_truncate opts now p len st = (Inr (), st')"
      "becomes opts ino (resize (fcontent (opt_chunkSize opts) st ino meta) len) st st'"
      using truncate_becomes [OF assms found(2,3,4)] by blast
    then show ?thesis
      using found IoTruncate becomes_inv [OF assms] becomes_abs [OF _ found(3,4)] by (simp add: reply_def)
  qed
next
  case (IoSize p)
  from assms show ?thesis
  proof (cases rule: requireFileIno_cases [where p = p])
    case (error e)
    then show ?thesis
      using assms IoSize
      by (auto simp: cv_stat_def requireFileIno_def reply_def inodeMetaToStat_def Let_def resolveIno_def kres_def
          requireInode_def resolvePath_def resolveComponentsCore_def dest: resolve_loop_errors
          split: sum.splits if_splits option.splits)
  next
    case (found ino meta)
    have "cv_stat p st = Inr s \<Longrightarrow> vs_size s = int (im_size meta)" for s
      using found effective_size(1) [OF cv_invD(4) [OF assms found(3)] found(4)]
      by (auto simp: cv_stat_def requireInode_def Let_def inodeMetaToStat_def split: option.splits)
    moreover have "\<exists>s. cv_stat p st = Inr s"
      using found by (simp add: cv_stat_def requireInode_def Let_def split: option.splits)
    ultimately show ?thesis
      using assms IoSize found effective_size(2) [OF cv_invD(4) [OF assms found(3)] found(4)] by (auto simp: reply_def)
  qed
next
  case (IoFsync p)
  then show ?thesis
    using assms flushInode_inv [OF assms] by (auto simp: cv_fsync_def split: sum.splits)
next
  case IoFlushAll
  then show ?thesis using flushAll_inv [OF assms] by simp
qed

text \<open>A call carries the time at which it is made.\<close>

interpretation chunked_files: data_refinement
  "\<lambda>(now, c). io_step opts now c" "\<lambda>(now, c). spec_step c" "abs_fs opts" "cv_inv opts" for opts
  using io_step_refines by unfold_locales (simp_all split: prod.split)

end
