(* ===== verification/Chunked_Ops.thy ===== *)
theory Chunked_Ops
  imports Chunked_Refine
begin

section \<open>The namespace of the chunked file system\<close>

text \<open>
  The operations that change directory entries, links, metadata and versions: they keep the invariant
  and the content of every file they do not create or remove. \<open>evolves\<close> describes what the metadata
  store goes through, \<open>tree_step\<close> what the whole file system does.
\<close>

subsection \<open>Metadata that evolves\<close>

definition same_content :: "InodeMeta \<Rightarrow> InodeMeta \<Rightarrow> bool" where
  "same_content a b \<longleftrightarrow> im_type b = im_type a \<and> im_storageMode b = im_storageMode a \<and>
     im_inlineContent b = im_inlineContent a \<and>
     (im_size b = im_size a \<or> im_type a \<noteq> IT_file \<and> im_storageMode a = SM_inline)"

definition blank :: "InodeMeta \<Rightarrow> bool" where
  "blank meta \<longleftrightarrow> im_storageMode meta = SM_inline \<and>
     (im_type meta = IT_file \<longrightarrow> im_size meta = length (inline_bytes meta))"

definition evolves :: "MetaStore \<Rightarrow> MetaStore \<Rightarrow> bool" where
  "evolves m m' \<longleftrightarrow> ms_inv m' \<and> dents_ok m' \<and> ms_versions m' = ms_versions m \<and>
     ms_nextIno m \<le> ms_nextIno m' \<and>
     (\<forall>i c. getChunkKey i c m' = getChunkKey i c m \<or>
        getChunkKey i c m' = None \<and> getInode i m' = None \<and> i < ms_nextIno m') \<and>
     (\<forall>i b. getInode i m' = Some b \<longrightarrow>
        (\<exists>a. getInode i m = Some a \<and> same_content a b) \<or> ms_nextIno m \<le> i \<and> blank b)"

lemma same_content_refl [simp]: "same_content a a"
  by (simp add: same_content_def)

lemma same_content_trans: "same_content a b \<Longrightarrow> same_content b c \<Longrightarrow> same_content a c"
  by (auto simp: same_content_def)

lemma same_content_blank: "blank a \<Longrightarrow> same_content a b \<Longrightarrow> blank b"
  by (auto simp: same_content_def blank_def)

lemma evolves_refl: "ms_inv m \<Longrightarrow> dents_ok m \<Longrightarrow> evolves m m"
  by (simp add: evolves_def)

lemma evolvesD:
  "evolves m m' \<Longrightarrow> ms_inv m'" "evolves m m' \<Longrightarrow> dents_ok m'" "evolves m m' \<Longrightarrow> ms_versions m' = ms_versions m"
  "evolves m m' \<Longrightarrow> ms_nextIno m \<le> ms_nextIno m'"
  "evolves m m' \<Longrightarrow> getChunkKey i c m' = getChunkKey i c m \<or>
     getChunkKey i c m' = None \<and> getInode i m' = None \<and> i < ms_nextIno m'"
  "evolves m m' \<Longrightarrow> getInode i m' = Some b \<Longrightarrow>
     (\<exists>a. getInode i m = Some a \<and> same_content a b) \<or> ms_nextIno m \<le> i \<and> blank b"
  unfolding evolves_def by blast+

lemma evolvesI:
  assumes "ms_inv m'" "dents_ok m'" "ms_versions m' = ms_versions m" "ms_nextIno m \<le> ms_nextIno m'"
    and "\<And>i c. getChunkKey i c m' = getChunkKey i c m \<or>
      getChunkKey i c m' = None \<and> getInode i m' = None \<and> i < ms_nextIno m'"
    and "\<And>i b. getInode i m' = Some b \<Longrightarrow>
      (\<exists>a. getInode i m = Some a \<and> same_content a b) \<or> ms_nextIno m \<le> i \<and> blank b"
  shows "evolves m m'"
  using assms unfolding evolves_def by blast

lemma evolves_trans:
  assumes a: "evolves m m1" and b: "evolves m1 m2" shows "evolves m m2"
proof (rule evolvesI)
  show "getChunkKey i c m2 = getChunkKey i c m \<or> getChunkKey i c m2 = None \<and> getInode i m2 = None \<and> i < ms_nextIno m2" for i c
  proof (cases "getChunkKey i c m1 = getChunkKey i c m")
    case False
    then have n: "getChunkKey i c m1 = None" "getInode i m1 = None" "i < ms_nextIno m1" using evolvesD(5) [OF a] by auto
    then have "getInode i m2 = None" using evolvesD(6) [OF b] by (cases "getInode i m2") force+
    then show ?thesis using n evolvesD(5) [OF b, of i c] evolvesD(4) [OF b] by auto
  qed (use evolvesD(5) [OF b, of i c] in auto)
  show "(\<exists>x. getInode i m = Some x \<and> same_content x y) \<or> ms_nextIno m \<le> i \<and> blank y" if y: "getInode i m2 = Some y" for i y
  proof (cases "\<exists>z. getInode i m1 = Some z \<and> same_content z y")
    case True
    then obtain z where "getInode i m1 = Some z" "same_content z y" by blast
    then show ?thesis
      using evolvesD(6) [OF a] same_content_trans same_content_blank by blast
  next
    case False
    then show ?thesis using evolvesD(6) [OF b y] evolvesD(4) [OF a] by auto
  qed
qed (use a b in \<open>auto simp: evolves_def\<close>)

subsection \<open>The store's methods let it evolve\<close>

lemma lookup_frame [simp]:
  "lookup p n (updateInode ino f m) = lookup p n m"
  "lookup p n (snd (createInode now attrs m)) =
     (if p = ms_nextIno m \<and> ca_type attrs = IT_directory then None else lookup p n m)"
  "lookup p n (removeDentry p' n' m) = (if p = p' \<and> n = n' then None else lookup p n m)"
  "lookup p n (deleteInode ino m) = (if p = ino then None else lookup p n m)"
  by (auto simp: lookup_def createInode_def removeDentry_def deleteInode_def Let_def split: option.splits)

lemma lookup_createDentry:
  "lookup p n (snd (createDentry p' n' c t m)) =
     (if p = p' \<and> n = n' \<and> lookup p n m = None then Some c else lookup p n m)"
  by (auto simp: lookup_def createDentry_def Let_def mhas_def split: option.splits)

lemma lookup_renameDentry:
  "lookup p n (renameDentry sp sn dp dn m) =
     (case lookup sp sn m of
        None \<Rightarrow> lookup p n m
      | Some c \<Rightarrow> if p = dp \<and> n = dn then Some c else if p = sp \<and> n = sn then None else lookup p n m)"
proof (cases "mget (ms_dentries m) sp")
  case (Some dir)
  then show ?thesis
    by (cases "mget dir sn"; cases "p = dp"; cases "dp = sp"; cases "p = sp"; cases "mget (ms_dentries m) dp")
      (auto simp: lookup_def renameDentry_def Let_def cong: option.case_cong)
qed (simp add: lookup_def renameDentry_def)

lemma dents_okD: "dents_ok m \<Longrightarrow> lookup p n m = Some c \<Longrightarrow> c < ms_nextIno m"
  unfolding dents_ok_def by blast

lemma meta_frames [simp]:
  "ms_nextIno (removeDentry p n m) = ms_nextIno m" "ms_versions (removeDentry p n m) = ms_versions m"
  "ms_nextIno (renameDentry p n p' n' m) = ms_nextIno m" "ms_versions (renameDentry p n p' n' m) = ms_versions m"
  "ms_nextIno (snd (createDentry p n c t m)) = ms_nextIno m" "ms_versions (snd (createDentry p n c t m)) = ms_versions m"
  "ms_nextIno (deleteInode i m) = ms_nextIno m" "ms_versions (deleteInode i m) = ms_versions m"
  "ms_versions (snd (createInode now attrs m)) = ms_versions m"
  by (auto simp: removeDentry_def renameDentry_def createDentry_def deleteInode_def createInode_def Let_def
      split: option.splits)

lemma evolves_update:
  assumes "ms_inv m" "dents_ok m" "\<And>meta. im_ino (f meta) = im_ino meta"
    and "\<And>meta. getInode ino m = Some meta \<Longrightarrow> same_content meta (f meta)"
  shows "evolves m (updateInode ino f m)"
proof (rule evolvesI)
  show "dents_ok (updateInode ino f m)" using assms(2) by (simp add: dents_ok_def)
  show "(\<exists>a. getInode i m = Some a \<and> same_content a b) \<or> ms_nextIno m \<le> i \<and> blank b"
    if "getInode i (updateInode ino f m) = Some b" for i b
    using that assms(4) by (auto split: if_splits)
qed (use updateInode_inv [OF assms(1)] assms(3) in auto)

lemma getInode_createInode:
  "getInode i (snd (createInode now attrs m)) =
     (if i = ms_nextIno m then Some \<lparr>im_ino = i, im_type = ca_type attrs, im_mode = (case ca_type attrs of
          IT_file \<Rightarrow> ca_mode attrs OR S_IFREG | IT_directory \<Rightarrow> ca_mode attrs OR S_IFDIR
        | IT_symlink \<Rightarrow> ca_mode attrs OR S_IFLNK), im_uid = ca_uid attrs, im_gid = ca_gid attrs, im_size = 0,
        im_nlink = 0, im_atimeMs = now, im_mtimeMs = now, im_ctimeMs = now, im_birthtimeMs = now,
        im_storageMode = SM_inline, im_inlineContent = None\<rparr>
      else getInode i m)"
  by (simp add: getInode_def createInode_def Let_def split: option.splits)

lemma fst_createInode [simp]: "fst (createInode now attrs m) = ms_nextIno m"
  by (simp add: createInode_def Let_def)

lemma evolves_create:
  assumes "ms_inv m" "dents_ok m" shows "evolves m (snd (createInode now attrs m))"
proof (rule evolvesI)
  show "dents_ok (snd (createInode now attrs m))"
    using assms(2) by (force simp: dents_ok_def createInode_nextIno dest: dents_okD split: if_splits)
  show "(\<exists>a. getInode i m = Some a \<and> same_content a b) \<or> ms_nextIno m \<le> i \<and> blank b"
    if "getInode i (snd (createInode now attrs m)) = Some b" for i b
    using that by (auto simp: getInode_createInode blank_def split: if_splits)
qed (simp_all add: createInode_inv assms createInode_nextIno)

lemma evolves_link:
  assumes "ms_inv m" "dents_ok m" "p < ms_nextIno m" "c < ms_nextIno m"
  shows "evolves m (snd (createDentry p n c t m))"
proof (rule evolvesI)
  show "dents_ok (snd (createDentry p n c t m))"
    using assms by (auto simp: dents_ok_def lookup_createDentry split: if_splits)
qed (use createDentry_inv [OF assms(1,3)] in auto)

lemma evolves_unlink:
  assumes "ms_inv m" "dents_ok m" shows "evolves m (removeDentry p n m)"
proof (rule evolvesI)
  show "dents_ok (removeDentry p n m)" using assms(2) by (auto simp: dents_ok_def split: if_splits)
qed (use removeDentry_inv [OF assms(1)] in auto)

lemma evolves_rename:
  assumes "ms_inv m" "dents_ok m" "dp < ms_nextIno m" shows "evolves m (renameDentry sp sn dp dn m)"
proof (rule evolvesI)
  show "dents_ok (renameDentry sp sn dp dn m)"
    using assms(2) by (auto simp: dents_ok_def lookup_renameDentry split: option.splits if_splits)
qed (use renameDentry_inv [OF assms(1,3)] in auto)

lemma evolves_delete:
  assumes "ms_inv m" "dents_ok m" "i < ms_nextIno m" shows "evolves m (deleteInode i m)"
proof (rule evolvesI)
  show "dents_ok (deleteInode i m)" using assms(2) by (auto simp: dents_ok_def split: if_splits)
qed (use deleteInode_inv [OF assms(1)] assms in \<open>auto split: if_splits\<close>)

lemma evolves_nlink:
  assumes "ms_inv m" "dents_ok m" shows "evolves m (add_nlink i d m)"
  by (cases "getInode i m") (use evolves_refl evolves_update assms in \<open>auto simp: add_nlink_def same_content_def\<close>)


subsection \<open>Steps of the whole file system\<close>

definition kept :: "CVfs \<Rightarrow> CVfs \<Rightarrow> nat \<Rightarrow> bool" where
  "kept st st' i \<longleftrightarrow>
     map_option wb_bufferedSize (mget (cv_buffers st') i) = map_option wb_bufferedSize (mget (cv_buffers st) i) \<and>
     (\<forall>c. getChunkKey i c (cv_meta st') = getChunkKey i c (cv_meta st) \<and> chunk st' i c = chunk st i c)"

definition tree_step :: "CVfs \<Rightarrow> CVfs \<Rightarrow> bool" where
  "tree_step st st' \<longleftrightarrow> struct_inv st' \<and> dents_ok (cv_meta st') \<and>
     ms_nextIno (cv_meta st) \<le> ms_nextIno (cv_meta st') \<and>
     (\<forall>i. mhas (cv_buffers st') i \<longrightarrow> mhas (cv_buffers st) i) \<and>
     (\<forall>i b. getInode i (cv_meta st') = Some b \<longrightarrow>
        (\<exists>a. getInode i (cv_meta st) = Some a \<and> same_content a b \<and> kept st st' i) \<or>
        ms_nextIno (cv_meta st) \<le> i \<and> blank b \<and> (\<forall>c. getChunkKey i c (cv_meta st') = None) \<and>
          \<not> mhas (cv_buffers st') i)"

lemma kept_refl [simp]: "kept st st i"
  by (simp add: kept_def)

lemma kept_trans: "kept a b i \<Longrightarrow> kept b c i \<Longrightarrow> kept a c i"
  by (simp add: kept_def)

lemma kept_buffer: "kept st st' i \<Longrightarrow> mhas (cv_buffers st') i = mhas (cv_buffers st) i"
  unfolding kept_def mhas_def by (metis map_option_is_None)

lemma kept_file:
  assumes "kept st st' i" "same_content a b"
  shows "file_ok cs st' i b \<longleftrightarrow> file_ok cs st i a" "fcontent cs st' i b = fcontent cs st i a"
proof -
  have c: "chunk st' i = chunk st i" "\<And>c. getChunkKey i c (cv_meta st') = getChunkKey i c (cv_meta st)"
    using assms(1) by (auto simp: kept_def fun_eq_iff)
  have b: "(\<forall>x. mget (cv_buffers st') i = Some x \<longrightarrow> wb_bufferedSize x = n) \<longleftrightarrow>
     (\<forall>x. mget (cv_buffers st) i = Some x \<longrightarrow> wb_bufferedSize x = n)" for n
    using assms(1) unfolding kept_def
    by (cases "mget (cv_buffers st') i"; cases "mget (cv_buffers st) i") auto
  show "file_ok cs st' i b \<longleftrightarrow> file_ok cs st i a"
    using assms(2) c b kept_buffer [OF assms(1)]
    by (cases "im_storageMode a") (auto simp: file_ok_def same_content_def)
  show "fcontent cs st' i b = fcontent cs st i a"
    using assms(2) c by (cases "im_storageMode a") (auto simp: fcontent_def same_content_def)
qed

lemma tree_stepD:
  "tree_step st st' \<Longrightarrow> struct_inv st'" "tree_step st st' \<Longrightarrow> dents_ok (cv_meta st')"
  "tree_step st st' \<Longrightarrow> ms_nextIno (cv_meta st) \<le> ms_nextIno (cv_meta st')"
  "tree_step st st' \<Longrightarrow> mhas (cv_buffers st') i \<Longrightarrow> mhas (cv_buffers st) i"
  "tree_step st st' \<Longrightarrow> getInode i (cv_meta st') = Some b \<Longrightarrow>
     (\<exists>a. getInode i (cv_meta st) = Some a \<and> same_content a b \<and> kept st st' i) \<or>
     ms_nextIno (cv_meta st) \<le> i \<and> blank b \<and> (\<forall>c. getChunkKey i c (cv_meta st') = None) \<and>
       \<not> mhas (cv_buffers st') i"
  unfolding tree_step_def by blast+

lemma tree_step_refl: "cv_inv opts st \<Longrightarrow> tree_step st st"
  using cv_invD by (fastforce simp: tree_step_def)

lemma tree_step_trans:
  assumes a: "tree_step st st1" and b: "tree_step st1 st2" shows "tree_step st st2"
proof -
  have "(\<exists>x. getInode i (cv_meta st) = Some x \<and> same_content x y \<and> kept st st2 i) \<or>
      ms_nextIno (cv_meta st) \<le> i \<and> blank y \<and> (\<forall>c. getChunkKey i c (cv_meta st2) = None) \<and> \<not> mhas (cv_buffers st2) i"
    if y: "getInode i (cv_meta st2) = Some y" for i y
  proof (cases "\<exists>z. getInode i (cv_meta st1) = Some z \<and> same_content z y \<and> kept st1 st2 i")
    case True
    then obtain z where z: "getInode i (cv_meta st1) = Some z" "same_content z y" "kept st1 st2 i" by blast
    from tree_stepD(5) [OF a z(1)] show ?thesis
    proof
      assume "\<exists>x. getInode i (cv_meta st) = Some x \<and> same_content x z \<and> kept st st1 i"
      then show ?thesis using z same_content_trans kept_trans by blast
    next
      assume "ms_nextIno (cv_meta st) \<le> i \<and> blank z \<and> (\<forall>c. getChunkKey i c (cv_meta st1) = None) \<and> \<not> mhas (cv_buffers st1) i"
      then show ?thesis using z same_content_blank kept_buffer [OF z(3)] by (auto simp: kept_def)
    qed
  next
    case False
    then show ?thesis using tree_stepD(5) [OF b y] tree_stepD(3) [OF a] by auto
  qed
  then show ?thesis
    using a b unfolding tree_step_def by (meson order_trans)
qed

lemma tree_step_inv:
  assumes "cv_inv opts st" "tree_step st st'" shows "cv_inv opts st'"
proof (rule cv_invI)
  show "file_ok (opt_chunkSize opts) st' i b" if b: "getInode i (cv_meta st') = Some b" for i b
    using tree_stepD(5) [OF assms(2) b]
  proof
    assume "\<exists>a. getInode i (cv_meta st) = Some a \<and> same_content a b \<and> kept st st' i"
    then show ?thesis using kept_file(1) cv_invD(4) [OF assms(1)] by blast
  next
    assume "ms_nextIno (cv_meta st) \<le> i \<and> blank b \<and> (\<forall>c. getChunkKey i c (cv_meta st') = None) \<and> \<not> mhas (cv_buffers st') i"
    then show ?thesis by (simp add: file_ok_def blank_def)
  qed
  show "opt_writeBuffering opts" if "mhas (cv_buffers st') i" for i
    using tree_stepD(4) [OF assms(2) that] cv_invD(3) [OF assms(1)] by blast
qed (use cv_invD(1) [OF assms(1)] tree_stepD(1,2) [OF assms(2)] in auto)

lemma tree_step_node:
  assumes "tree_step st st'" "getInode i (cv_meta st) = Some a" "struct_inv st" "getInode i (cv_meta st') \<noteq> None"
  shows "node_of cs st' i = node_of cs st i"
proof -
  obtain b where b: "getInode i (cv_meta st') = Some b" using assms(4) by blast
  have "i < ms_nextIno (cv_meta st)" using inode_allocated [OF assms(3,2)] .
  then have "same_content a b \<and> kept st st' i" using tree_stepD(5) [OF assms(1) b] assms(2) by auto
  then have "fcontent cs st' i b = fcontent cs st i a" "im_type b = im_type a"
    using kept_file(2) by (auto simp: same_content_def)
  then show ?thesis using assms(2) b by (simp add: node_of_def cong: InodeType.case_cong)
qed

lemma meta_chunk:
  assumes "\<And>c. getChunkKey i c m = getChunkKey i c (cv_meta st)"
  shows "chunk (st\<lparr>cv_meta := m\<rparr>) i c = chunk st i c"
  using assms by (simp add: chunk_def chunk_addr_def dirty_addr_def block_addr_def cong: option.case_cong)

lemma evolves_struct:
  assumes "struct_inv st" "evolves (cv_meta st) m" shows "struct_inv (st\<lparr>cv_meta := m\<rparr>)"
proof -
  have o: "own_ok (st\<lparr>cv_meta := m\<rparr>)"
    using assms(1) by (simp add: struct_inv_def own_ok_def owns_def dirty_addr_def)
  have n1: "1 < ms_nextIno (cv_meta st)" using assms(1) by (simp add: struct_inv_def ms_inv_def)
  have l: "\<not> is_link m 1"
  proof (cases "getInode 1 m")
    case (Some b)
    then obtain a where "getInode 1 (cv_meta st) = Some a" "same_content a b"
      using evolvesD(6) [OF assms(2) Some] n1 by auto
    then show ?thesis using assms(1) Some by (simp add: struct_inv_def is_link_getInode same_content_def)
  qed (simp add: is_link_getInode)
  have "getChunkKey i c m = Some k \<Longrightarrow> getChunkKey i c (cv_meta st) = Some k" for i c k
    using evolvesD(5) [OF assms(2), of i c] by auto
  then have k: "keys_ok (st\<lparr>cv_meta := m\<rparr>)"
    using assms(1) unfolding struct_inv_def keys_ok_def by simp blast
  have "bufs_ok (st\<lparr>cv_meta := m\<rparr>)" "vers_ok (st\<lparr>cv_meta := m\<rparr>)"
    using assms(1) evolvesD(3,4) [OF assms(2)]
    by (auto simp: struct_inv_def bufs_ok_def vers_ok_def intro: less_le_trans)
  then show ?thesis using o l k evolvesD(1) [OF assms(2)] by (simp add: struct_inv_def)
qed

lemma unallocated:
  assumes "struct_inv st" "ms_nextIno (cv_meta st) \<le> i"
  shows "getChunkKey i c (cv_meta st) = None" "\<not> mhas (cv_buffers st) i"
proof -
  show "getChunkKey i c (cv_meta st) = None"
    using assms submaps_okD [of "ms_nextIno (cv_meta st)" "ms_chunks (cv_meta st)" i]
    by (cases "mget (ms_chunks (cv_meta st)) i") (auto simp: struct_inv_def ms_inv_def getChunkKey_def)
  show "\<not> mhas (cv_buffers st) i"
    using assms by (cases "mget (cv_buffers st) i") (fastforce simp: struct_inv_def bufs_ok_def mhas_def)+
qed

lemma evolves_step:
  assumes "struct_inv st" "evolves (cv_meta st) m" shows "tree_step st (st\<lparr>cv_meta := m\<rparr>)"
proof -
  have "(\<exists>a. getInode i (cv_meta st) = Some a \<and> same_content a b \<and> kept st (st\<lparr>cv_meta := m\<rparr>) i) \<or>
      ms_nextIno (cv_meta st) \<le> i \<and> blank b \<and> (\<forall>c. getChunkKey i c m = None) \<and> \<not> mhas (cv_buffers st) i"
    if b: "getInode i m = Some b" for i b
  proof -
    have k: "getChunkKey i c m = getChunkKey i c (cv_meta st)" for c using evolvesD(5) [OF assms(2), of i c] b by auto
    then have kp: "kept st (st\<lparr>cv_meta := m\<rparr>) i" by (simp add: kept_def meta_chunk)
    show ?thesis using evolvesD(6) [OF assms(2) b] kp k unallocated [OF assms(1)] by auto
  qed
  then show ?thesis
    using evolves_struct [OF assms] evolvesD [OF assms(2)] by (simp add: tree_step_def)
qed


text \<open>Deleting blocks no chunk map names, and the write buffer of an inode that is gone.\<close>

lemma delete_blocks_step:
  assumes "cv_inv opts st" "\<And>i c k. getChunkKey i c (cv_meta st) = Some k \<Longrightarrow> k \<notin> set ks"
  shows "tree_step st (on_store (bs_deleteMany ks) st)"
proof -
  let ?st = "on_store (bs_deleteMany ks) st"
  have s: "struct_inv st" by (rule cv_invD(2) [OF assms(1)])
  have da: "dirty_addr ?st = dirty_addr st" by (simp add: fun_eq_iff dirty_addr_def)
  have "block_addr ?st i c = block_addr st i c" for i c
    using assms(2) by (auto simp: block_addr_def split: option.splits)
  then have ch: "chunk ?st i c = chunk st i c" for i c
    by (simp add: chunk_def chunk_addr_def da cong: option.case_cong)
  have "owns ?st i c a \<Longrightarrow> owns st i c a" for i c a by (auto simp: owns_def da split: if_splits)
  then have "own_ok ?st" using s own_ok_mono [of st ?st] by (simp add: struct_inv_def)
  moreover have "keys_ok ?st" using s assms(2) by (auto simp: struct_inv_def keys_ok_def mhas_def)
  ultimately have "struct_inv ?st" using s by (simp add: struct_inv_def bufs_ok_def vers_ok_def)
  then show ?thesis using cv_invD(5) [OF assms(1)] ch by (simp add: tree_step_def kept_def)
qed

lemma drop_buffer_step:
  assumes "cv_inv opts st" "getInode ino (cv_meta st) = None"
  shows "tree_step st (st\<lparr>cv_buffers := mdel ino (cv_buffers st)\<rparr>)"
  using drop_buffer_struct [OF cv_invD(2) [OF assms(1)]] cv_invD(5) [OF assms(1)] assms(2)
  by (auto simp: tree_step_def kept_def drop_buffer_chunk mhas_def split: if_splits)

subsection \<open>Directories and names\<close>

lemma resolve_loop_allocated:
  "resolve_loop m d cur bef cs = Inr r \<Longrightarrow> dents_ok m \<Longrightarrow> 1 < ms_nextIno m \<Longrightarrow> cur < ms_nextIno m \<Longrightarrow> r < ms_nextIno m"
proof (induction d cur bef cs rule: resolve_loop_induct [where ms = m])
  case (Cons d cur bef name rest)
  then show ?case
    by (auto simp: resolve_loop_Cons dir_entry_def dest: dents_okD split: option.splits if_splits)
qed simp

lemma inv_meta:
  assumes "cv_inv opts st"
  shows "ms_inv (cv_meta st)" "dents_ok (cv_meta st)" "1 < ms_nextIno (cv_meta st)" "struct_inv st"
  using cv_invD(2,5) [OF assms] by (auto simp: struct_inv_def ms_inv_def)

lemma resolveIno_allocated:
  "cv_inv opts st \<Longrightarrow> resolveIno p st = Inr ino \<Longrightarrow> ino < ms_nextIno (cv_meta st)"
  using resolve_loop_allocated [of "cv_meta st" 0 1 "[]" _ ino] inv_meta [of opts st]
  by (auto simp: resolveIno_def resolvePath_def resolveComponentsCore_def kres_def split: sum.splits)

lemma cv_parent_allocated:
  "cv_inv opts st \<Longrightarrow> cv_parent p st = Inr (ino, name) \<Longrightarrow> ino < ms_nextIno (cv_meta st)"
  using resolve_loop_allocated [of "cv_meta st" 0 1 "[]" _ ino] inv_meta [of opts st]
  by (auto simp: cv_parent_def resolveParentPath_def resolveComponentsCore_def kres_def Let_def split: sum.splits if_splits)

lemma make_dir_step:
  assumes inv: "cv_inv opts st" and p: "p < ms_nextIno (cv_meta st)"
  shows "tree_step st (snd (make_dir now p name st))"
    and "fst (make_dir now p name st) = Inr d \<Longrightarrow> d < ms_nextIno (cv_meta (snd (make_dir now p name st)))"
proof -
  let ?m = "cv_meta st"
  note i = inv_meta [OF inv]
  define d where "d = ms_nextIno ?m"
  define m1 where "m1 = snd (createInode now dir_attrs ?m)"
  define m2 where "m2 = snd (createDentry p name d IT_directory m1)"
  define m3 where "m3 = updateInode d (\<lambda>m. m\<lparr>im_nlink := 2, im_size := 4096\<rparr>) m2"
  have n: "ms_nextIno m1 = Suc (ms_nextIno ?m)" by (simp add: m1_def createInode_nextIno)
  have e1: "evolves ?m m1" unfolding m1_def by (rule evolves_create [OF i(1,2)])
  have e2: "evolves m1 m2" unfolding m2_def
    by (rule evolves_link [OF evolvesD(1,2) [OF e1]]) (use n p d_def in auto)
  have "getInode d m2 = getInode d m1" by (simp add: m2_def)
  then have e3: "evolves m2 m3" unfolding m3_def
    by (intro evolves_update evolvesD(1,2) [OF e2])
      (auto simp: m1_def getInode_createInode d_def dir_attrs_def same_content_def)
  have e4: "evolves m3 (add_nlink p 1 m3)" by (rule evolves_nlink [OF evolvesD(1,2) [OF e3]])
  have s: "tree_step st (st\<lparr>cv_meta := m'\<rparr>)" if "evolves ?m m'" for m' by (rule evolves_step [OF i(4) that])
  have eq: "snd (make_dir now p name st) = st\<lparr>cv_meta := m2\<rparr> \<and> (\<exists>e. fst (make_dir now p name st) = Inl e) \<or>
      make_dir now p name st = (Inr d, st\<lparr>cv_meta := add_nlink p 1 m3\<rparr>)"
    by (cases "fst (createDentry p name d IT_directory m1)")
      (simp_all add: make_dir_def Let_def case_prod_beta d_def m1_def m2_def m3_def add_nlink_def cong: option.case_cong)
  show "tree_step st (snd (make_dir now p name st))"
    using eq s evolves_trans [OF e1 e2] evolves_trans [OF evolves_trans [OF evolves_trans [OF e1 e2] e3] e4] by auto
  have "d < ms_nextIno (add_nlink p 1 m3)"
    using n evolvesD(4) [OF e2] evolvesD(4) [OF e3] evolvesD(4) [OF e4] by (simp add: d_def)
  then show "fst (make_dir now p name st) = Inr d' \<Longrightarrow> d' < ms_nextIno (cv_meta (snd (make_dir now p name st)))" for d'
    using eq by auto
qed

lemma ensure_loop_step:
  "cv_inv opts st \<Longrightarrow> cur < ms_nextIno (cv_meta st) \<Longrightarrow>
     tree_step st (snd (ensure_loop now cur cs st)) \<and>
     (\<forall>r. fst (ensure_loop now cur cs st) = Inr r \<longrightarrow> r < ms_nextIno (cv_meta (snd (ensure_loop now cur cs st))))"
proof (induction cs arbitrary: cur st)
  case (Cons c cs)
  show ?case
  proof (cases "lookup cur c (cv_meta st)")
    case (Some ch)
    then show ?thesis using Cons.IH [OF Cons.prems(1)] dents_okD [OF inv_meta(2) [OF Cons.prems(1)]] by simp
  next
    case None
    note mk = make_dir_step [OF Cons.prems]
    show ?thesis
    proof (cases "make_dir now cur c st")
      case (Pair r st1)
      then have "tree_step st st1" "\<And>d. r = Inr d \<Longrightarrow> d < ms_nextIno (cv_meta st1)"
        using mk(1) [of now c] mk(2) [of now c] by auto
      then show ?thesis
        using None Pair Cons.IH [OF tree_step_inv [OF Cons.prems(1)]] tree_step_trans by (cases r) auto
    qed
  qed
qed (simp add: tree_step_refl)

lemma ensureParents_step:
  assumes "cv_inv opts st"
  shows "tree_step st (snd (ensureParents now p st))"
    and "fst (ensureParents now p st) = Inr (par, name) \<Longrightarrow> par < ms_nextIno (cv_meta (snd (ensureParents now p st)))"
  using ensure_loop_step [OF assms inv_meta(3) [OF assms], where now = now and cs = "butlast (splitPath (cv_normalizePath p))"]
    tree_step_refl [OF assms]
  by (auto simp: ensureParents_def Let_def split: prod.splits sum.splits)


lemma unit_res_snd [simp]: "snd (unit_res r) = snd r"
  by (simp add: unit_res_def split: sum.splits)

lemma createDir_step: "cv_inv opts st \<Longrightarrow> tree_step st (snd (cv_createDir now p st))"
  using make_dir_step(1) cv_parent_allocated tree_step_refl
  by (fastforce simp: cv_createDir_def split: sum.splits)

lemma mkdir_parent_allocated:
  "mkdir_parent m cur cs = Inr r \<Longrightarrow> dents_ok m \<Longrightarrow> cur < ms_nextIno m \<Longrightarrow> r < ms_nextIno m"
  by (induction cs arbitrary: cur) (auto dest: dents_okD split: option.splits)

lemma mkdir_step:
  assumes "cv_inv opts st" shows "tree_step st (snd (cv_mkdir now p recursive st))"
proof (cases recursive)
  case True
  then show ?thesis using ensure_loop_step [OF assms inv_meta(3) [OF assms]] by (simp add: cv_mkdir_def Let_def)
next
  case False
  then show ?thesis
    using mkdir_parent_allocated [OF _ inv_meta(2,3) [OF assms]] make_dir_step(1) [OF assms] tree_step_refl [OF assms]
    by (auto simp: cv_mkdir_def Let_def split: sum.splits)
qed

text \<open>Removing an entry and the inode behind it.\<close>

lemma remove_evolves:
  assumes "cv_inv opts st" "c < ms_nextIno (cv_meta st)"
  shows "evolves (cv_meta st) (deleteInode c (removeDentry p name (cv_meta st)))"
proof -
  note e = evolves_unlink [OF inv_meta(1,2) [OF assms(1)], of p name]
  show ?thesis by (rule evolves_trans [OF e evolves_delete [OF evolvesD(1,2) [OF e]]]) (use assms(2) in simp)
qed

lemma removeDir_meta_step:
  assumes "cv_inv opts st" "c < ms_nextIno (cv_meta st)"
  shows "tree_step st (st\<lparr>cv_meta := add_nlink q d (deleteInode c (removeDentry p name (cv_meta st)))\<rparr>)"
  by (rule evolves_step [OF inv_meta(4) [OF assms(1)]])
    (rule evolves_trans [OF remove_evolves [OF assms] evolves_nlink [OF evolvesD(1,2) [OF remove_evolves [OF assms]]]])

lemma removeDir_step: "cv_inv opts st \<Longrightarrow> tree_step st (snd (cv_removeDir p st))"
  using removeDir_meta_step dents_okD [OF inv_meta(2)] tree_step_refl
  by (fastforce simp: cv_removeDir_def Let_def split: sum.splits option.splits)

lemma drop_chunks_eq:
  "drop_chunks opts ino st = st\<lparr>cv_meta := snd (deleteAllChunks ino (cv_meta st)),
     cv_store := bs_deleteMany (if opt_versioning opts then [] else fst (deleteAllChunks ino (cv_meta st))) (cv_store st)\<rparr>"
  by (auto simp: drop_chunks_def Let_def case_prod_beta bs_deleteMany_def)

lemma delete_deleteAllChunks: "deleteInode i (snd (deleteAllChunks i m)) = deleteInode i m"
  by (auto simp: deleteInode_def deleteAllChunks_def delete_idem split: option.splits)

lemma deleteAllChunks_removeDentry [simp]:
  "fst (deleteAllChunks i (removeDentry p n m)) = fst (deleteAllChunks i m)"
  by (auto simp: deleteAllChunks_def removeDentry_def split: option.splits)

lemma forget_inode_step:
  assumes inv: "cv_inv opts st" and i: "ino < ms_nextIno (cv_meta st)"
    and ks: "\<And>k. k \<in> set ks \<Longrightarrow> \<exists>c. getChunkKey ino c (cv_meta st) = Some k"
    and B: "B = cv_buffers st \<or> B = mdel ino (cv_buffers st)"
  shows "tree_step st (st\<lparr>cv_meta := deleteInode ino (removeDentry p name (cv_meta st)),
    cv_store := bs_deleteMany ks (cv_store st), cv_buffers := B\<rparr>)"
proof -
  define st1 where "st1 = st\<lparr>cv_meta := deleteInode ino (removeDentry p name (cv_meta st))\<rparr>"
  define st2 where "st2 = on_store (bs_deleteMany ks) st1"
  have s1: "tree_step st st1"
    unfolding st1_def by (rule evolves_step [OF inv_meta(4) [OF inv] remove_evolves [OF inv i]])
  note inv1 = tree_step_inv [OF inv s1]
  have "k \<notin> set ks" if k: "getChunkKey j c (cv_meta st1) = Some k" for j c k
  proof
    assume "k \<in> set ks"
    then obtain c' where c': "getChunkKey ino c' (cv_meta st) = Some k" using ks by blast
    have "getChunkKey j c (cv_meta st) = Some k" "j \<noteq> ino" using k by (auto simp: st1_def split: if_splits)
    then show False
      using c' inv_meta(4) [OF inv] key_for_unique keys_okD unfolding struct_inv_def by metis
  qed
  then have s2: "tree_step st1 st2" unfolding st2_def by (rule delete_blocks_step [OF inv1])
  note inv2 = tree_step_inv [OF inv1 s2]
  have s3: "tree_step st2 (st2\<lparr>cv_buffers := mdel ino (cv_buffers st2)\<rparr>)"
    by (rule drop_buffer_step [OF inv2]) (simp add: st2_def st1_def)
  have "B = cv_buffers st2 \<or> B = mdel ino (cv_buffers st2)" using B by (simp add: st2_def st1_def)
  then have "tree_step st (st2\<lparr>cv_buffers := B\<rparr>)"
    using tree_step_trans [OF s1 s2] tree_step_trans [OF tree_step_trans [OF s1 s2] s3] by auto
  then show ?thesis by (simp add: st2_def st1_def)
qed

lemma unlink_step:
  assumes inv: "cv_inv opts st" and i: "ino < ms_nextIno (cv_meta st)"
  shows "tree_step st (unlink_inode opts now drp p name ino meta st)"
proof (cases "im_nlink meta - 1 \<le> 0")
  case True
  let ?ks = "if opt_versioning opts \<or> im_storageMode meta \<noteq> SM_chunked then [] else fst (deleteAllChunks ino (cv_meta st))"
  have eq: "unlink_inode opts now drp p name ino meta st = st\<lparr>cv_meta := deleteInode ino (removeDentry p name (cv_meta st)),
      cv_store := bs_deleteMany ?ks (cv_store st),
      cv_buffers := (if drp then mdel ino (cv_buffers st) else cv_buffers st)\<rparr>"
    using True by (simp add: unlink_inode_def Let_def drop_chunks_eq delete_deleteAllChunks) (simp add: bs_deleteMany_def)
  show ?thesis
    unfolding eq by (rule forget_inode_step [OF inv i])
      (use deleteAllChunks_keys [OF inv_meta(1) [OF inv], of ino] in \<open>auto split: if_splits\<close>)
next
  case False
  note e = evolves_unlink [OF inv_meta(1,2) [OF inv], of p name]
  have "evolves (cv_meta st) (updateInode ino (\<lambda>m. m\<lparr>im_nlink := im_nlink meta - 1, im_ctimeMs := now\<rparr>)
      (removeDentry p name (cv_meta st)))"
    by (rule evolves_trans [OF e evolves_update [OF evolvesD(1,2) [OF e]]]) (simp_all add: same_content_def)
  then show ?thesis
    using False evolves_step [OF inv_meta(4) [OF inv]] by (simp add: unlink_inode_def Let_def)
qed

lemma removeFile_step: "cv_inv opts st \<Longrightarrow> tree_step st (snd (cv_removeFile opts now p st))"
  using unlink_step dents_okD [OF inv_meta(2)] tree_step_refl
  by (fastforce simp: cv_removeFile_def split: sum.splits option.splits)

lemma rename_replace_step:
  "cv_inv opts st \<Longrightarrow> c < ms_nextIno (cv_meta st) \<Longrightarrow> tree_step st (snd (rename_replace opts now p name c st))"
  using unlink_step removeDir_meta_step tree_step_refl
  by (fastforce simp: rename_replace_def split: sum.splits)

definition clear_target :: "ChunkedVfsOptions \<Rightarrow> int \<Rightarrow> nat \<Rightarrow> string \<Rightarrow> CVfs \<Rightarrow> (exn + unit) \<times> CVfs" where
  "clear_target opts now dp dn st = (case lookup dp dn (cv_meta st) of
     None \<Rightarrow> (Inr (), st) | Some c \<Rightarrow> rename_replace opts now dp dn c st)"

lemma clear_target_step: "cv_inv opts st \<Longrightarrow> tree_step st (snd (clear_target opts now dp dn st))"
  using rename_replace_step dents_okD [OF inv_meta(2)] tree_step_refl
  by (fastforce simp: clear_target_def split: option.splits)

lemma cv_rename_cases:
  obtains (refused) r where "cv_rename opts now op np st = (r, st)"
  | (failed) dp dn e where "cv_rename opts now op np st = (Inl e, snd (clear_target opts now dp dn st))"
  | (moved) sp sn dp dn c meta st1 where
      "cv_parent (cv_normalizePath op) st = Inr (sp, sn)" "cv_parent (cv_normalizePath np) st = Inr (dp, dn)"
      "lookup sp sn (cv_meta st) = Some c" "getInode c (cv_meta st) = Some meta"
      "clear_target opts now dp dn st = (Inr (), st1)"
      "cv_rename opts now op np st = (Inr (), if im_type meta = IT_directory \<and> sp \<noteq> dp
         then on_meta (add_nlink dp 1) (on_meta (add_nlink sp (- 1)) (on_meta (renameDentry sp sn dp dn) st1))
         else on_meta (renameDentry sp sn dp dn) st1)"
proof (cases "cv_normalizePath op = cv_normalizePath np")
  case True
  then show thesis by (intro refused) (simp add: cv_rename_def)
next
  case ne: False
  show thesis
  proof (cases "cv_parent (cv_normalizePath op) st")
    case (Inl e)
    then show thesis using ne by (intro refused) (simp add: cv_rename_def Let_def)
  next
    case src: (Inr sd)
    obtain sp sn where sd: "sd = (sp, sn)" by force
    show thesis
    proof (cases "cv_parent (cv_normalizePath np) st")
      case (Inl e)
      then show thesis using ne src sd by (intro refused) (simp add: cv_rename_def Let_def)
    next
      case dst: (Inr dd)
      obtain dp dn where dd: "dd = (dp, dn)" by force
      note s = ne src sd dst dd
      show thesis
      proof (cases "lookup sp sn (cv_meta st)")
        case None
        then show thesis using s by (intro refused) (simp add: cv_rename_def Let_def)
      next
        case c: (Some c)
        show thesis
        proof (cases "getInode c (cv_meta st)")
          case None
          then show thesis using s c by (intro refused) (simp add: cv_rename_def Let_def requireInode_def)
        next
          case m: (Some meta)
          obtain r st1 where ct: "clear_target opts now dp dn st = (r, st1)" by force
          then show thesis
            using s c m moved [of sp sn dp dn c meta st1] failed [of _ dp dn]
            by (cases r) (simp_all add: cv_rename_def Let_def requireInode_def clear_target_def)
        qed
      qed
    qed
  qed
qed

lemma rename_step:
  assumes "cv_inv opts st" shows "tree_step st (snd (cv_rename opts now op np st))"
proof (cases rule: cv_rename_cases [of opts now op np st])
  case (refused r)
  then show ?thesis using tree_step_refl [OF assms] by simp
next
  case (failed dp dn e)
  then show ?thesis using clear_target_step [OF assms] by simp
next
  case (moved sp sn dp dn c meta st1)
  have s1: "tree_step st st1" using clear_target_step [OF assms, of now dp dn] moved(5) by simp
  note i1 = tree_step_inv [OF assms s1]
  have "dp < ms_nextIno (cv_meta st1)"
    using tree_stepD(3) [OF s1] cv_parent_allocated [OF assms moved(2)] by simp
  note e1 = evolves_rename [OF inv_meta(1,2) [OF i1] this, of sp sn dn]
  note e2 = evolves_nlink [OF evolvesD(1,2) [OF e1], of sp "- 1"]
  note e3 = evolves_nlink [OF evolvesD(1,2) [OF e2], of dp 1]
  note s = evolves_step [OF inv_meta(4) [OF i1]]
  show ?thesis
    using tree_step_trans [OF s1 s [OF e1]]
      tree_step_trans [OF s1 s [OF evolves_trans [OF evolves_trans [OF e1 e2] e3]]] moved(6) by auto
qed

lemma symlink_step:
  assumes "cv_inv opts st" shows "tree_step st (snd (cv_symlink now target p st))"
proof (cases "cv_parent (cv_normalizePath p) st")
  case (Inl e)
  then show ?thesis using tree_step_refl [OF assms] by (simp add: cv_symlink_def)
next
  case (Inr pn)
  obtain par name where pn: "pn = (par, name)" by force
  define attrs where "attrs = \<lparr>ca_type = IT_symlink, ca_mode = 0x1FF, ca_uid = 0, ca_gid = 0, ca_symlinkTarget = Some target\<rparr>"
  define m1 where "m1 = snd (createInode now attrs (cv_meta st))"
  define m2 where "m2 = snd (createDentry par name (ms_nextIno (cv_meta st)) IT_symlink m1)"
  define m3 where "m3 = updateInode (ms_nextIno (cv_meta st)) (\<lambda>m. m\<lparr>im_nlink := 1, im_size := utf8_length target\<rparr>) m2"
  have e1: "evolves (cv_meta st) m1" unfolding m1_def by (rule evolves_create [OF inv_meta(1,2) [OF assms]])
  have e2: "evolves m1 m2" unfolding m2_def
    by (rule evolves_link [OF evolvesD(1,2) [OF e1]])
      (use cv_parent_allocated [OF assms, of _ par name] Inr pn in \<open>simp_all add: m1_def createInode_nextIno less_SucI\<close>)
  have e3: "evolves m2 m3" unfolding m3_def
    by (intro evolves_update evolvesD(1,2) [OF e2])
      (auto simp: m2_def m1_def getInode_createInode attrs_def same_content_def)
  have "snd (cv_symlink now target p st) \<in> {st, st\<lparr>cv_meta := m2\<rparr>, st\<lparr>cv_meta := m3\<rparr>}"
    using Inr pn by (auto simp: cv_symlink_def Let_def case_prod_beta m3_def m2_def m1_def attrs_def split: sum.split)
  then show ?thesis
    using tree_step_refl [OF assms] evolves_step [OF inv_meta(4) [OF assms]] evolves_trans [OF e1 e2]
      evolves_trans [OF evolves_trans [OF e1 e2] e3] by auto
qed

lemma link_step:
  assumes "cv_inv opts st" shows "tree_step st (snd (cv_link op np st))"
proof -
  have l: "tree_step st (st\<lparr>cv_meta := snd (createDentry par name src t (cv_meta st))\<rparr>)"
    and u: "tree_step st (st\<lparr>cv_meta := updateInode src (\<lambda>m. m\<lparr>im_nlink := n\<rparr>) (snd (createDentry par name src t (cv_meta st)))\<rparr>)"
    if "cv_parent q st = Inr (par, name)" "resolveIno op st = Inr src" for par name src t n q
  proof -
    note e = evolves_link [OF inv_meta(1,2) [OF assms] cv_parent_allocated [OF assms that(1)] resolveIno_allocated [OF assms that(2)], of name t]
    show "tree_step st (st\<lparr>cv_meta := snd (createDentry par name src t (cv_meta st))\<rparr>)"
      by (rule evolves_step [OF inv_meta(4) [OF assms] e])
    have "evolves (cv_meta st) (updateInode src (\<lambda>m. m\<lparr>im_nlink := n\<rparr>) (snd (createDentry par name src t (cv_meta st))))"
      by (rule evolves_trans [OF e evolves_update [OF evolvesD(1,2) [OF e]]]) (simp_all add: same_content_def)
    then show "tree_step st (st\<lparr>cv_meta := updateInode src (\<lambda>m. m\<lparr>im_nlink := n\<rparr>) (snd (createDentry par name src t (cv_meta st)))\<rparr>)"
      by (rule evolves_step [OF inv_meta(4) [OF assms]])
  qed
  show ?thesis
    using tree_step_refl [OF assms] l u
    by (auto simp: cv_link_def Let_def case_prod_beta split: sum.split)
qed


subsection \<open>Writing whole files\<close>

lemma becomes_upd:
  assumes "becomes opts ino c st st1" "keeps_content f" shows "becomes opts ino c st (upd_inode ino f st1)"
proof -
  have k: "keeps_id f" using assms(2) by (simp add: keeps_content_def)
  obtain meta where m: "getInode ino (cv_meta st1) = Some meta" "file_ok (opt_chunkSize opts) st1 ino meta"
    "fcontent (opt_chunkSize opts) st1 ino meta = c" using assms(1) by (auto simp: becomes_def)
  have "touched ino st (upd_inode ino f st1)" "struct_inv (upd_inode ino f st1)"
    using assms(1) upd_inode_struct [OF _ k] touched_trans [OF _ upd_inode_touched [OF k]] by (auto simp: becomes_def)
  moreover have "mhas (cv_buffers st1) ino \<longrightarrow> opt_writeBuffering opts" using assms(1) by (simp add: becomes_def)
  ultimately show ?thesis using m upd_content_ok [OF assms(2)] by (simp add: becomes_def)
qed

lemma touched_lookup: "touched ino st st' \<Longrightarrow> lookup p n (cv_meta st') = lookup p n (cv_meta st)"
  by (simp add: touched_def lookup_def)

lemma overwrite_becomes:
  assumes inv: "cv_inv opts st" and m: "getInode ino (cv_meta st) = Some meta"
  shows "becomes opts ino x st (upd_inode ino (\<lambda>m. m\<lparr>im_nlink := n\<rparr>)
    (writeInodeContent opts now ino x meta (st\<lparr>cv_buffers := mdel ino (cv_buffers st)\<rparr>)))"
proof -
  let ?st = "st\<lparr>cv_buffers := mdel ino (cv_buffers st)\<rparr>"
  have "becomes opts ino x ?st (writeInodeContent opts now ino x meta ?st)"
    by (rule writeInodeContent_becomes [OF drop_buffer_struct [OF inv_meta(4) [OF inv]] cv_invD(1) [OF inv]])
      (use m cv_invD(4) [OF inv m] in \<open>auto simp: file_ok_def mhas_def\<close>)
  from becomes_upd [OF becomes_trans [OF drop_buffer_touched this]] show ?thesis by simp
qed

text \<open>Linking a new regular file: what \<open>writeFile\<close> and \<open>copy\<close> do before they fill it.\<close>

lemma new_file_evolves:
  assumes inv: "cv_inv opts st" and p: "par < ms_nextIno (cv_meta st)"
  shows "evolves (cv_meta st) (snd (createDentry par name (ms_nextIno (cv_meta st)) t (snd (createInode now attrs (cv_meta st)))))"
proof -
  note e = evolves_create [OF inv_meta(1,2) [OF inv], of now attrs]
  show ?thesis
    by (rule evolves_trans [OF e evolves_link [OF evolvesD(1,2) [OF e]]]) (use p in \<open>simp_all add: createInode_nextIno\<close>)
qed

lemma createDentry_ok: "lookup par name m = None \<Longrightarrow> fst (createDentry par name c t m) = Inr ()"
  by (auto simp: createDentry_def lookup_def mhas_def Let_def split: option.splits)

definition with_new_file :: "int \<Rightarrow> nat \<Rightarrow> string \<Rightarrow> CVfs \<Rightarrow> CVfs" where
  "with_new_file now par name st = upd_inode (ms_nextIno (cv_meta st)) (\<lambda>m. m\<lparr>im_nlink := 1\<rparr>)
     (st\<lparr>cv_meta := snd (createDentry par name (ms_nextIno (cv_meta st)) IT_file
        (snd (createInode now cv_file_attrs (cv_meta st))))\<rparr>)"

lemma with_new_file:
  assumes inv: "cv_inv opts st" and p: "par < ms_nextIno (cv_meta st)" and l: "lookup par name (cv_meta st) = None"
  shows "tree_step st (with_new_file now par name st)"
    and "lookup q n (cv_meta (with_new_file now par name st)) =
      (if q = par \<and> n = name then Some (ms_nextIno (cv_meta st)) else lookup q n (cv_meta st))"
    and "map_option im_type (getInode i (cv_meta (with_new_file now par name st))) =
      (if i = ms_nextIno (cv_meta st) then Some IT_file else map_option im_type (getInode i (cv_meta st)))"
    and "\<And>meta. getInode (ms_nextIno (cv_meta st)) (cv_meta (with_new_file now par name st)) = Some meta \<Longrightarrow>
      im_storageMode meta = SM_inline"
proof -
  note e = new_file_evolves [OF inv p, of name IT_file now cv_file_attrs]
  show "tree_step st (with_new_file now par name st)"
    unfolding with_new_file_def
    using evolves_step [OF inv_meta(4) [OF inv] evolves_trans [OF e evolves_update [OF evolvesD(1,2) [OF e],
        of "\<lambda>m. m\<lparr>im_nlink := 1\<rparr>" "ms_nextIno (cv_meta st)"]]]
    by (simp add: same_content_def)
  show "lookup q n (cv_meta (with_new_file now par name st)) =
      (if q = par \<and> n = name then Some (ms_nextIno (cv_meta st)) else lookup q n (cv_meta st))"
    using l by (auto simp: with_new_file_def lookup_createDentry cv_file_attrs_def)
  show "map_option im_type (getInode i (cv_meta (with_new_file now par name st))) =
      (if i = ms_nextIno (cv_meta st) then Some IT_file else map_option im_type (getInode i (cv_meta st)))"
    by (simp add: with_new_file_def getInode_createInode cv_file_attrs_def)
  show "im_storageMode meta = SM_inline"
    if "getInode (ms_nextIno (cv_meta st)) (cv_meta (with_new_file now par name st)) = Some meta" for meta
    using that by (auto simp: with_new_file_def getInode_createInode cv_file_attrs_def)
qed

lemma writeFile_existing:
  assumes inv: "cv_inv opts st" and e: "ensureParents now p st = (Inr (par, name), st1)"
    and l: "lookup par name (cv_meta st1) = Some ino" and m: "getInode ino (cv_meta st1) = Some meta"
  obtains st' where "cv_writeFile opts now p x st = (Inr (), st')" "becomes opts ino x st1 st'"
proof -
  have "cv_inv opts st1" using tree_step_inv [OF inv ensureParents_step(1) [OF inv, of now p]] e by simp
  from overwrite_becomes [OF this m] show thesis
    using e l m by (intro that) (simp_all add: cv_writeFile_def requireInode_def Let_def)
qed

lemma writeFile_new:
  assumes inv: "cv_inv opts st" and e: "ensureParents now p st = (Inr (par, name), st1)"
    and l: "lookup par name (cv_meta st1) = None"
  obtains st' where "cv_writeFile opts now p x st = (Inr (), st')"
    "becomes opts (ms_nextIno (cv_meta st1)) x (with_new_file now par name st1) st'"
proof -
  let ?ino = "ms_nextIno (cv_meta st1)" and ?st2 = "with_new_file now par name st1"
  have inv1: "cv_inv opts st1" using tree_step_inv [OF inv ensureParents_step(1) [OF inv, of now p]] e by simp
  have p: "par < ms_nextIno (cv_meta st1)" using ensureParents_step(2) [OF inv, of now p par name] e by simp
  note w = with_new_file [OF inv1 p l, where now = now]
  have "getInode ?ino (cv_meta ?st2) \<noteq> None" using w(3) [of ?ino] by auto
  then obtain meta where m: "getInode ?ino (cv_meta ?st2) = Some meta" by blast
  note inv2 = tree_step_inv [OF inv1 w(1)]
  note f = cv_invD(4) [OF inv2 m]
  have "lookup par name (snd (createInode now cv_file_attrs (cv_meta st1))) = None"
    using l by (simp add: cv_file_attrs_def)
  note ok = createDentry_ok [OF this, of ?ino IT_file]
  have "becomes opts ?ino x ?st2 (writeInodeContent opts now ?ino x meta ?st2)"
    by (rule writeInodeContent_becomes [OF inv_meta(4) [OF inv2] cv_invD(1) [OF inv2]])
      (use m f w(4) [OF m] in \<open>auto simp: file_ok_def\<close>)
  moreover have "cv_writeFile opts now p x st = (Inr (), writeInodeContent opts now ?ino x meta ?st2)"
    using e l ok m unfolding with_new_file_def
    by (auto simp: cv_writeFile_def requireInode_def Let_def case_prod_beta)
  ultimately show thesis by (rule that [rotated])
qed

lemma writeFile_inv:
  assumes inv: "cv_inv opts st" shows "cv_inv opts (snd (cv_writeFile opts now p x st))"
proof (cases "ensureParents now p st")
  case (Pair r st1)
  have i1: "cv_inv opts st1" using tree_step_inv [OF inv ensureParents_step(1) [OF inv, of now p]] Pair by simp
  show ?thesis
  proof (cases r)
    case (Inl e)
    then show ?thesis using Pair i1 by (simp add: cv_writeFile_def)
  next
    case (Inr pn)
    then obtain par name where e: "ensureParents now p st = (Inr (par, name), st1)" using Pair by (cases pn) auto
    show ?thesis
    proof (cases "lookup par name (cv_meta st1)")
      case None
      have "par < ms_nextIno (cv_meta st1)" using ensureParents_step(2) [OF inv, of now p par name] e by simp
      note i2 = tree_step_inv [OF i1 with_new_file(1) [OF i1 this None, where now = now]]
      show ?thesis by (rule writeFile_new [OF inv e None, of x]) (use becomes_inv [OF i2] in auto)
    next
      case l: (Some ino)
      show ?thesis
      proof (cases "getInode ino (cv_meta st1)")
        case None
        then show ?thesis using e l i1 by (simp add: cv_writeFile_def requireInode_def)
      next
        case (Some meta)
        show ?thesis by (rule writeFile_existing [OF inv e l Some, of x]) (use becomes_inv [OF i1] in auto)
      qed
    qed
  qed
qed


subsection \<open>Copying a file\<close>

lemma make_dir_buffers: "cv_buffers (snd (make_dir now p name st)) = cv_buffers st"
  by (simp add: make_dir_def Let_def case_prod_beta split: sum.split)

lemma ensure_loop_buffers: "cv_buffers (snd (ensure_loop now cur cs st)) = cv_buffers st"
proof (induction cs arbitrary: cur st)
  case (Cons c cs)
  then show ?case
    using make_dir_buffers [of now cur c st]
    by (auto split: option.split prod.split sum.split)
qed simp

lemma ensure_buffers: "cv_buffers (snd (ensureParents now p st)) = cv_buffers st"
  using ensure_loop_buffers [of now 1 "butlast (splitPath (cv_normalizePath p))" st]
  by (auto simp: ensureParents_def Let_def split: prod.split sum.split)

definition clean :: "CVfs \<Rightarrow> nat \<Rightarrow> bool" where
  "clean st ino \<longleftrightarrow> (case mget (cv_buffers st) ino of None \<Rightarrow> True | Some b \<Rightarrow> wb_dirtyChunks b = [])"

lemma clean_addr: "clean st ino \<Longrightarrow> dirty_addr st ino c = None"
  by (simp add: clean_def dirty_addr_def split: option.splits)

lemma copy_blocks_writes:
  assumes "struct_inv st" "dst < ms_nextIno (cv_meta st)" "\<not> mhas (cv_buffers st) dst" "src \<noteq> dst" "clean st src"
    and "\<And>c k. (c, k) \<in> set ks \<Longrightarrow> getChunkKey src c (cv_meta st) = Some k"
  shows "\<exists>st'. copy_blocks opts dst ks st = (Inr (), st') \<and>
    writes dst (\<lambda>c. if c \<in> fst ` set ks then chunk st src c else chunk st dst c) st st'"
  using assms
proof (induction ks arbitrary: st)
  case Nil
  then show ?case by (simp add: writes_def)
next
  case (Cons ck ks)
  obtain ci key where ck: "ck = (ci, key)" by force
  have k: "getChunkKey src ci (cv_meta st) = Some key" using Cons.prems(6) ck by simp
  then obtain a where a: "mget (bs_blocks (cv_store st)) key = Some a"
    using Cons.prems(1) keys_okD unfolding struct_inv_def by blast
  have ch: "chunk st src ci = Some (arr a (cv_store st))"
    using clean_addr [OF Cons.prems(5)] k a by (simp add: chunk_def chunk_addr_def block_addr_def)
  let ?st1 = "put_chunk opts dst ci (arr a (cv_store st)) st"
  have w: "writes dst ((chunk st dst)(ci \<mapsto> arr a (cv_store st))) st ?st1"
    using Cons.prems by (intro put_chunk_writes) (simp_all add: no_dirty)
  obtain nk n where mb: "makeBlockKey opts dst ci st = (nk, st\<lparr>cv_draws := n\<rparr>)" by (rule makeBlockKey_cases)
  have step: "copy_blocks opts dst (ck # ks) st = copy_blocks opts dst ks ?st1"
    using a mb by (simp add: ck bs_copy_def put_chunk_def)
  note f = writes_frame [OF w]
  have src: "chunk ?st1 src c = chunk st src c" "getChunkKey src c (cv_meta ?st1) = getChunkKey src c (cv_meta st)" for c
    using f Cons.prems(4) by (simp_all add: frame_def)
  have "\<exists>st'. copy_blocks opts dst ks ?st1 = (Inr (), st') \<and>
      writes dst (\<lambda>c. if c \<in> fst ` set ks then chunk ?st1 src c else chunk ?st1 dst c) ?st1 st'"
    by (rule Cons.IH)
      (use Cons.prems writes_struct [OF w] f src in \<open>auto simp: clean_def frame_def\<close>)
  then obtain st' where st': "copy_blocks opts dst ks ?st1 = (Inr (), st')"
    "writes dst (\<lambda>c. if c \<in> fst ` set ks then chunk ?st1 src c else chunk ?st1 dst c) ?st1 st'" by blast
  have "(\<lambda>c. if c \<in> fst ` set ks then chunk ?st1 src c else chunk ?st1 dst c) =
      (\<lambda>c. if c \<in> fst ` set (ck # ks) then chunk st src c else chunk st dst c)"
    using src(1) writes_chunk [OF w] ch by (auto simp: fun_eq_iff ck)
  then show ?case using step st' writes_trans [OF w st'(2)] by auto
qed

lemma copy_effect:
  assumes inv: "cv_inv opts st" and r: "resolveIno sp st = Inr src" and m: "getInode src (cv_meta st) = Some meta"
    and ft: "im_type meta = IT_file" and cl: "clean st src"
    and e: "ensureParents now dp st = (Inr (par, name), st1)" and l: "lookup par name (cv_meta st1) = None"
    and keep: "kept st st1 src"
  obtains st2 st' where "cv_copy opts now sp dp st = (Inr (), st')" "tree_step st1 st2"
    "becomes opts (ms_nextIno (cv_meta st1)) (fcontent (opt_chunkSize opts) st src meta) st2 st'"
    "lookup par name (cv_meta st2) = Some (ms_nextIno (cv_meta st1))"
proof -
  let ?dst = "ms_nextIno (cv_meta st1)" and ?cs = "opt_chunkSize opts"
  define attrs where "attrs = \<lparr>ca_type = IT_file, ca_mode = im_mode meta, ca_uid = im_uid meta,
    ca_gid = im_gid meta, ca_symlinkTarget = None\<rparr>"
  define m2 where "m2 = snd (createDentry par name ?dst IT_file (snd (createInode now attrs (cv_meta st1))))"
  define st2 where "st2 = st1\<lparr>cv_meta := m2\<rparr>"
  have s1: "tree_step st st1" using ensureParents_step(1) [OF inv, of now dp] e by simp
  note inv1 = tree_step_inv [OF inv s1]
  have p: "par < ?dst" using ensureParents_step(2) [OF inv, of now dp par name] e by simp
  have s2: "tree_step st1 st2"
    unfolding st2_def m2_def by (rule evolves_step [OF inv_meta(4) [OF inv1] new_file_evolves [OF inv1 p]])
  note inv2 = tree_step_inv [OF inv1 s2]
  have lm: "lookup par name (snd (createInode now attrs (cv_meta st1))) = None" using l by (simp add: attrs_def)
  note ok = createDentry_ok [OF lm, of ?dst IT_file]
  have l2: "lookup par name (cv_meta st2) = Some ?dst" using lm by (simp add: st2_def m2_def lookup_createDentry)
  have d0: "getInode ?dst (cv_meta st2) \<noteq> None" by (simp add: st2_def m2_def getInode_createInode)
  then obtain d where d: "getInode ?dst (cv_meta st2) = Some d" by blast
  then have "im_storageMode d = SM_inline" by (auto simp: st2_def m2_def getInode_createInode)
  then have nk: "\<And>c. getChunkKey ?dst c (cv_meta st2) = None" and nb: "\<not> mhas (cv_buffers st2) ?dst"
    using cv_invD(4) [OF inv2 d] by (auto simp: file_ok_def)
  have lt: "src < ms_nextIno (cv_meta st)" by (rule inode_allocated [OF inv_meta(4) [OF inv] m])
  then have ne: "src \<noteq> ?dst" using tree_stepD(3) [OF s1] by simp
  have k2: "kept st1 st2 src" by (simp add: st2_def m2_def kept_def meta_chunk)
  have chs: "chunk st2 src = chunk st src" "\<And>c. getChunkKey src c (cv_meta st2) = getChunkKey src c (cv_meta st)"
    using kept_trans [OF keep k2] by (simp_all add: kept_def fun_eq_iff)
  note fo = cv_invD(4) [OF inv m]
  have req: "requireInode src st = Inr meta" using m by (simp add: requireInode_def)
  show thesis
  proof (cases "im_storageMode meta")
    case SM_inline
    let ?f = "\<lambda>m. m\<lparr>im_nlink := 1, im_size := im_size meta, im_storageMode := SM_inline, im_inlineContent := Some (inline_bytes meta)\<rparr>"
    have "becomes opts ?dst (inline_bytes meta) st2 (upd_inode ?dst ?f st2)"
      by (rule becomes_inline [OF inv_meta(4) [OF inv2] touched_refl d])
        (use nk nb fo SM_inline ft in \<open>auto simp: file_ok_def keeps_id_def\<close>)
    moreover have "cv_copy opts now sp dp st = (Inr (), upd_inode ?dst ?f st2)"
      using r req ft e l ok SM_inline
      by (simp add: cv_copy_def Let_def case_prod_beta attrs_def [symmetric] st2_def m2_def)
    ultimately show thesis using that s2 l2 SM_inline by (simp add: fcontent_def)
  next
    case SM_chunked
    let ?f = "\<lambda>m. m\<lparr>im_nlink := 1, im_size := im_size meta, im_storageMode := SM_chunked, im_inlineContent := None\<rparr>"
    let ?ks = "getAllChunkKeys src (cv_meta st2)"
    have cl2: "clean st2 src" using cl keep ensure_buffers [of now dp st] e by (simp add: clean_def st2_def)
    have ks: "set ?ks = {(c, k). getChunkKey src c (cv_meta st2) = Some k}"
      by (rule getAllChunkKeys_set [OF inv_meta(1) [OF inv2]])
    have "?dst < ms_nextIno (cv_meta st2)" by (simp add: st2_def m2_def createInode_nextIno)
    from copy_blocks_writes [OF inv_meta(4) [OF inv2] this nb ne cl2, of ?ks opts] ks
    obtain st3 where st3: "copy_blocks opts ?dst ?ks st2 = (Inr (), st3)"
      "writes ?dst (\<lambda>c. if c \<in> fst ` set ?ks then chunk st2 src c else chunk st2 ?dst c) st2 st3" by auto
    have dn: "chunk st2 ?dst c = None" for c
      using nk no_dirty [OF nb] by (simp add: chunk_def chunk_addr_def block_addr_def)
    have sn: "chunk st2 src c = None" if "c \<notin> fst ` set ?ks" for c
      using that ks clean_addr [OF cl2] by (cases "getChunkKey src c (cv_meta st2)")
        (force simp: chunk_def chunk_addr_def block_addr_def)+
    have ch3: "chunk st3 ?dst = chunk st src"
      using writes_chunk [OF st3(2)] dn sn chs(1) by (auto simp: fun_eq_iff)
    note f3 = writes_frame [OF st3(2)]
    have "becomes opts ?dst (fbytes ?cs (im_size meta) (chunk st3 ?dst)) st2 (upd_inode ?dst ?f st3)"
      by (rule becomes_chunked_upd [OF writes_struct [OF st3(2)] frame_touched [OF f3], where meta = d])
        (use d f3 nb frame_buffer [OF f3] fo SM_chunked ch3 in \<open>auto simp: frame_def getInode_def keeps_id_def file_ok_def\<close>)
    moreover have "cv_copy opts now sp dp st = (Inr (), upd_inode ?dst ?f st3)"
      using r req ft e l ok SM_chunked st3(1)
      by (simp add: cv_copy_def Let_def case_prod_beta attrs_def [symmetric] st2_def m2_def)
    ultimately show thesis using that s2 l2 SM_chunked ch3 by (simp add: fcontent_def)
  qed
qed


lemma make_dir_keeps: "getInode i (cv_meta st) \<noteq> None \<Longrightarrow> getInode i (cv_meta (snd (make_dir now p name st))) \<noteq> None"
  by (auto simp: make_dir_def Let_def case_prod_beta getInode_createInode split: sum.split option.split)

lemma ensure_loop_keeps: "getInode i (cv_meta st) \<noteq> None \<Longrightarrow> getInode i (cv_meta (snd (ensure_loop now cur cs st))) \<noteq> None"
proof (induction cs arbitrary: cur st)
  case (Cons c cs)
  have "getInode i (cv_meta (snd (make_dir now cur c st))) \<noteq> None" by (rule make_dir_keeps [OF Cons.prems])
  then show ?case
    using Cons.IH [OF Cons.prems] Cons.IH [of "snd (make_dir now cur c st)"] Cons.prems
    by (cases "make_dir now cur c st") (auto split: option.split sum.split)
qed simp

lemma ensureParents_kept:
  assumes "cv_inv opts st" "getInode i (cv_meta st) = Some a" shows "kept st (snd (ensureParents now p st)) i"
proof -
  have "getInode i (cv_meta (snd (ensureParents now p st))) \<noteq> None"
    using ensure_loop_keeps [of i st now 1 "butlast (splitPath (cv_normalizePath p))"] assms(2)
    by (auto simp: ensureParents_def Let_def split: prod.split sum.split)
  then obtain b where "getInode i (cv_meta (snd (ensureParents now p st))) = Some b" by blast
  from tree_stepD(5) [OF ensureParents_step(1) [OF assms(1)] this]
  show ?thesis using inode_allocated [OF inv_meta(4) [OF assms(1)] assms(2)] by auto
qed

lemma copy_inv:
  assumes inv: "cv_inv opts st" and cl: "\<And>src. resolveIno sp st = Inr src \<Longrightarrow> clean st src"
  shows "cv_inv opts (snd (cv_copy opts now sp dp st))"
proof (cases "requireFileIno sp st")
  case (Inl e)
  then have "snd (cv_copy opts now sp dp st) = st"
    by (auto simp: requireFileIno_def cv_copy_def split: sum.splits if_splits)
  then show ?thesis using inv by simp
next
  case (Inr im)
  then obtain src meta where r: "resolveIno sp st = Inr src" and m: "getInode src (cv_meta st) = Some meta"
    and nd: "im_type meta \<noteq> IT_directory"
    by (cases im) (auto simp: requireFileIno_def requireInode_def split: sum.splits option.splits if_splits)
  have ft: "im_type meta = IT_file" by (rule resolved_file [OF inv_meta(4) [OF inv] r m nd])
  obtain q st1 where e0: "ensureParents now dp st = (q, st1)" by force
  have i1: "cv_inv opts st1" using tree_step_inv [OF inv ensureParents_step(1) [OF inv, of now dp]] e0 by simp
  show ?thesis
  proof (cases "\<exists>par name. q = Inr (par, name) \<and> lookup par name (cv_meta st1) = None")
    case True
    then obtain par name where e: "ensureParents now dp st = (Inr (par, name), st1)" "lookup par name (cv_meta st1) = None"
      using e0 by blast
    have "kept st st1 src" using ensureParents_kept [OF inv m, of now dp] e by simp
    from copy_effect [OF inv r m ft cl [OF r] e this] show ?thesis
      by (metis becomes_inv i1 snd_conv tree_step_inv)
  next
    case False
    then have "snd (cv_copy opts now sp dp st) = st1"
      using r m nd e0 by (cases q) (auto simp: cv_copy_def requireInode_def split: prod.splits)
    then show ?thesis using i1 by simp
  qed
qed

subsection \<open>Versions\<close>

lemma versions_step:
  assumes inv: "cv_inv opts st" and m: "ms_inv (cv_meta st\<lparr>ms_versions := vs\<rparr>)"
    and v: "vers_ok (st\<lparr>cv_meta := cv_meta st\<lparr>ms_versions := vs\<rparr>\<rparr>)"
  shows "cv_inv opts (st\<lparr>cv_meta := cv_meta st\<lparr>ms_versions := vs\<rparr>\<rparr>)"
proof -
  let ?st = "st\<lparr>cv_meta := cv_meta st\<lparr>ms_versions := vs\<rparr>\<rparr>"
  have k: "getChunkKey i c (cv_meta ?st) = getChunkKey i c (cv_meta st)" for i c by (simp add: getChunkKey_def)
  have ch: "chunk ?st = chunk st" by (intro ext meta_chunk) (use k in simp)
  have ow: "owns ?st = owns st" by (simp add: fun_eq_iff owns_def dirty_addr_def)
  have s: "struct_inv ?st"
    using inv_meta(4) [OF inv] m v
    by (simp add: struct_inv_def own_ok_def ow keys_ok_def bufs_ok_def is_link_def getChunkKey_def)
  have f: "file_ok cs ?st i meta = file_ok cs st i meta" for cs i meta
    using k ch by (cases "im_storageMode meta") (simp_all add: file_ok_def)
  show ?thesis
    using inv s f by (simp add: cv_inv_def dents_ok_def lookup_def getInode_def)
qed

lemma cv_createVersion_inv:
  assumes inv: "cv_inv opts st" shows "cv_inv opts (snd (cv_createVersion opts now p st))"
proof (cases "resolveIno p st")
  case (Inl e)
  then show ?thesis using inv by (simp add: cv_createVersion_def)
next
  case (Inr ino)
  define st1 where "st1 = (if opt_writeBuffering opts then flushInode opts ino st else st)"
  have i1: "cv_inv opts st1" using inv flushInode_inv(1) [OF inv] by (simp add: st1_def)
  let ?m = "snd (createVersion now ino (cv_meta st1))"
  have eq: "snd (cv_createVersion opts now p st) = st1\<lparr>cv_meta := ?m\<rparr>"
    using Inr by (simp add: cv_createVersion_def Let_def st1_def case_prod_beta)
  note mi = createVersion_inv [OF inv_meta(1) [OF i1], of now ino]
  show ?thesis
  proof (cases "?m = cv_meta st1")
    case True
    then show ?thesis using i1 eq by simp
  next
    case False
    define rs where "rs = records_of ino (cv_meta st1)"
    obtain r where r: "?m = cv_meta st1\<lparr>ms_versions := mput ino (rs @ [r]) (ms_versions (cv_meta st1))\<rparr>"
      and cm: "vr_chunkMap r = getAllChunkKeys ino (cv_meta st1)"
      using False unfolding rs_def
      by (auto simp: createVersion_def Let_def getAllChunkKeys_def split: option.splits if_splits)
    have key: "key_for ino ci key" if "(ci, key) \<in> set (vr_chunkMap r)" for ci key
      using that getAllChunkKeys_set [OF inv_meta(1) [OF i1], of ino] inv_meta(4) [OF i1]
      unfolding cm struct_inv_def by (auto dest: keys_okD)
    have v1: "vers_ok st1" using inv_meta(4) [OF i1] by (simp add: struct_inv_def)
    have v2: "vers_ok (st1\<lparr>cv_meta := cv_meta st1\<lparr>ms_versions := mput ino (rs @ [r]) (ms_versions (cv_meta st1))\<rparr>\<rparr>)"
      using v1 key by (auto simp: vers_ok_def rs_def split: option.splits)
    show ?thesis unfolding eq r by (rule versions_step [OF i1 _ v2]) (use mi r in simp)
  qed
qed

lemma cv_pruneVersions_inv:
  assumes inv: "cv_inv opts st" shows "cv_inv opts (snd (cv_pruneVersions now p policy st))"
proof (cases "\<exists>ino vs. resolveIno p st = Inr ino \<and> ms_listVersions ino (cv_meta st) = Inr vs \<and> vs \<noteq> [] \<and> prune_list now policy vs \<noteq> []")
  case False
  then have "snd (cv_pruneVersions now p policy st) = st"
    by (auto simp: cv_pruneVersions_def Let_def split: sum.splits)
  then show ?thesis using inv by simp
next
  case True
  then obtain ino vs where h: "resolveIno p st = Inr ino" "ms_listVersions ino (cv_meta st) = Inr vs" "vs \<noteq> []"
    "prune_list now policy vs \<noteq> []" by blast
  let ?pr = "prune_list now policy vs"
  have en: "ms_versioningEnabled (cv_meta st)" using h(2) by (auto simp: ms_listVersions_def split: if_splits)
  obtain r m where dv: "deleteVersions ino ?pr (cv_meta st) = (r, m)" by force
  then obtain ks where ks: "r = Inr ks" using en by (auto simp: deleteVersions_def Let_def split: if_splits option.splits)
  note res = deleteVersions_result [OF en dv [unfolded ks]]
  obtain vm where vm: "m = cv_meta st\<lparr>ms_versions := vm\<rparr>" "\<And>i. i \<noteq> ino \<Longrightarrow> mget vm i = mget (ms_versions (cv_meta st)) i"
  proof -
    have "m = cv_meta st\<lparr>ms_versions := ms_versions m\<rparr> \<and> (\<forall>i. i \<noteq> ino \<longrightarrow> mget (ms_versions m) i = mget (ms_versions (cv_meta st)) i)"
      using dv by (auto simp: deleteVersions_def Let_def split: if_splits option.splits)
    then show thesis using that by blast
  qed
  have recs: "records_of i (cv_meta st\<lparr>ms_versions := vm\<rparr>) = (if i = ino then filter (\<lambda>r. vr_version r \<notin> set ?pr) (records_of ino (cv_meta st))
      else records_of i (cv_meta st))" for i
    using res(3) vm by (cases "i = ino") (simp_all del: records_chunks)
  have sub: "r \<in> set (records_of i (cv_meta st\<lparr>ms_versions := vm\<rparr>)) \<Longrightarrow> r \<in> set (records_of i (cv_meta st))" for i r
    unfolding recs by (cases "i = ino") (simp_all only: refl if_True if_False set_filter mem_Collect_eq)
  have v0: "vers_ok st" using inv_meta(4) [OF inv] by (simp add: struct_inv_def)
  have eqm: "cv_meta (st\<lparr>cv_meta := cv_meta st\<lparr>ms_versions := vm\<rparr>\<rparr>) = cv_meta st\<lparr>ms_versions := vm\<rparr>" by simp
  have v: "vers_ok (st\<lparr>cv_meta := cv_meta st\<lparr>ms_versions := vm\<rparr>\<rparr>)"
    using v0 sub unfolding vers_ok_def eqm by blast
  have i1: "cv_inv opts (st\<lparr>cv_meta := m\<rparr>)"
    unfolding vm(1) by (rule versions_step [OF inv _ v]) (use deleteVersions_inv [OF inv_meta(1) [OF inv], of ino ?pr] dv vm(1) in simp)
  have "k \<notin> set ks" if k: "getChunkKey i c m = Some k" for i c k
  proof
    assume a: "k \<in> set ks"
    then have nc: "k \<notin> current_keys ino m" and "k \<in> version_keys (records_of ino (cv_meta st))"
      using res(2) by (auto simp: version_keys_def)
    then obtain c' where "key_for ino c' k" using v0 unfolding vers_ok_def version_keys_def by fastforce
    moreover have "key_for i c k" using k inv_meta(4) [OF i1] unfolding struct_inv_def by (auto dest: keys_okD)
    ultimately have "i = ino" using key_for_unique by blast
    then show False using nc k by (force simp: current_keys_def getChunkKey_def dest: map_of_SomeD split: option.splits)
  qed
  then have "tree_step (st\<lparr>cv_meta := m\<rparr>) (on_store (bs_deleteMany ks) (st\<lparr>cv_meta := m\<rparr>))"
    by (intro delete_blocks_step [OF i1]) simp
  from tree_step_inv [OF i1 this] show ?thesis
    using i1 h dv ks by (simp add: cv_pruneVersions_def Let_def)
qed

text \<open>
  When restoring a version keeps the invariant: the blocks of its record are still there and fit the
  size it recorded. A version that does not exist is an error, but the write buffer is dropped before
  the error is noticed, so that the file must have been flushed.
\<close>

definition record_intact :: "nat \<Rightarrow> nat \<Rightarrow> CVfs \<Rightarrow> VersionRecord \<Rightarrow> bool" where
  "record_intact cs ino st r =
     (case vr_storageMode r of
        SM_inline \<Rightarrow> vr_chunkMap r = [] \<and>
          (map_option im_type (getInode ino (cv_meta st)) = Some IT_file \<longrightarrow>
             vr_size r = length (case vr_inlineContent r of None \<Rightarrow> [] | Some b \<Rightarrow> b))
      | SM_chunked \<Rightarrow>
          list_all (\<lambda>(c, k). case mget (bs_blocks (cv_store st)) k of
              None \<Rightarrow> False
            | Some a \<Rightarrow> length (arr a (cv_store st)) \<le> cs \<and> c * cs + length (arr a (cv_store st)) \<le> vr_size r)
            (vr_chunkMap r))"

definition version_record :: "nat \<Rightarrow> nat \<Rightarrow> MetaStore \<Rightarrow> VersionRecord option" where
  "version_record ino v ms =
     (if ms_versioningEnabled ms
      then Option.bind (mget (ms_versions ms) ino) (List.find (\<lambda>r. vr_version r = v)) else None)"

definition restorable :: "nat \<Rightarrow> nat \<Rightarrow> nat \<Rightarrow> CVfs \<Rightarrow> bool" where
  "restorable cs ino v st =
     (case version_record ino v (cv_meta st) of
        None \<Rightarrow> clean st ino
      | Some r \<Rightarrow> record_intact cs ino st r)"

lemma restore_missing:
  assumes "version_record ino v m = None" shows "snd (ms_restoreVersion now ino v m) = m"
  using assms by (auto simp: version_record_def ms_restoreVersion_def split: if_splits option.splits)

lemma version_recordD:
  assumes "version_record ino v m = Some r" "ms_inv m"
  shows "ms_versioningEnabled m" "r \<in> set (records_of ino m)" "mwf (vr_chunkMap r)"
    and "Option.bind (mget (ms_versions m) ino) (List.find (\<lambda>r. vr_version r = v)) = Some r"
proof -
  show b: "Option.bind (mget (ms_versions m) ino) (List.find (\<lambda>r. vr_version r = v)) = Some r"
    and "ms_versioningEnabled m"
    using assms(1) by (auto simp: version_record_def split: if_splits)
  then obtain rs where rs: "mget (ms_versions m) ino = Some rs" "List.find (\<lambda>r. vr_version r = v) rs = Some r"
    by (cases "mget (ms_versions m) ino") auto
  then show mem: "r \<in> set (records_of ino m)" by (auto simp: find_Some_iff)
  then show "mwf (vr_chunkMap r)"
    using records_of_ok [OF assms(2), of ino] by (auto simp: records_ok_def list_all_iff)
qed

lemma restore_found:
  fixes now :: int
  assumes r: "version_record ino v m = Some r" and inv: "ms_inv m"
  defines "m' \<equiv> snd (ms_restoreVersion now ino v m)"
  shows "getChunkKey i c m' = (if i = ino then map_of (vr_chunkMap r) c else getChunkKey i c m)"
    and "getInode i m' = (if i = ino
       then map_option (\<lambda>meta. meta\<lparr>im_size := vr_size r, im_storageMode := vr_storageMode r,
         im_inlineContent := vr_inlineContent r, im_mtimeMs := now, im_ctimeMs := now\<rparr>) (getInode ino m)
       else getInode i m)"
    and "ms_dentries m' = ms_dentries m" "ms_symlinkTargets m' = ms_symlinkTargets m"
    "ms_nextIno m' = ms_nextIno m" "ms_versions m' = ms_versions m"
  using version_recordD [OF r inv] unfolding m'_def
  by (auto simp: ms_restoreVersion_def Let_def getInode_def getChunkKey_def updateInode_def fold_mput
      split: option.splits)

lemma restore_struct:
  assumes s: "struct_inv st" and r: "version_record ino v (cv_meta st) = Some r" and n: "ino < ms_nextIno (cv_meta st)"
    and ri: "record_intact cs ino st r"
  shows "struct_inv (st\<lparr>cv_meta := snd (ms_restoreVersion now ino v (cv_meta st))\<rparr>)" (is "struct_inv ?st")
proof -
  have m: "ms_inv (cv_meta st)" and k: "keys_ok st" and v: "vers_ok st" using s by (simp_all add: struct_inv_def)
  note f = restore_found [OF r m, where now = now] and d = version_recordD [OF r m]
  have "own_ok ?st" using s by (simp add: struct_inv_def own_ok_def owns_def dirty_addr_def)
  moreover have "keys_ok ?st"
    unfolding keys_ok_def
  proof (intro allI impI)
    fix i c key assume g: "getChunkKey i c (cv_meta ?st) = Some key"
    show "key_for i c key \<and> mhas (bs_blocks (cv_store ?st)) key"
    proof (cases "i = ino")
      case True
      then have mem: "(c, key) \<in> set (vr_chunkMap r)" using g f(1) by (simp add: map_of_SomeD)
      then have "vr_storageMode r = SM_chunked" using ri by (cases "vr_storageMode r") (auto simp: record_intact_def)
      then have "mhas (bs_blocks (cv_store st)) key"
        using ri mem by (fastforce simp: record_intact_def list_all_iff mhas_def split: option.splits)
      moreover have "key_for ino c key" using v d(2) mem unfolding vers_ok_def by blast
      ultimately show ?thesis using True by simp
    next
      case False
      then show ?thesis using g f(1) k by (simp add: keys_ok_def)
    qed
  qed
  moreover have "\<not> is_link (cv_meta ?st) 1"
    using s f(2) [of 1] by (auto simp: struct_inv_def is_link_getInode option.map_comp comp_def)
  moreover have "bufs_ok ?st" "vers_ok ?st" using s f by (simp_all add: struct_inv_def bufs_ok_def vers_ok_def)
  ultimately show ?thesis using restoreVersion_inv [OF m n] by (simp add: struct_inv_def)
qed

lemma restore_file_ok:
  assumes s: "struct_inv st" and r: "version_record ino v (cv_meta st) = Some r" and nb: "\<not> mhas (cv_buffers st) ino"
    and ri: "record_intact cs ino st r"
    and g: "getInode ino (snd (ms_restoreVersion now ino v (cv_meta st))) = Some meta"
  shows "file_ok cs (st\<lparr>cv_meta := snd (ms_restoreVersion now ino v (cv_meta st))\<rparr>) ino meta" (is "file_ok cs ?st ino meta")
proof -
  have m: "ms_inv (cv_meta st)" using s by (simp add: struct_inv_def)
  note f = restore_found [OF r m, where now = now]
  obtain old where old: "getInode ino (cv_meta st) = Some old" and meta: "im_size meta = vr_size r"
    "im_storageMode meta = vr_storageMode r" "im_inlineContent meta = vr_inlineContent r" "im_type meta = im_type old"
    using g f(2) [of ino] by auto
  show ?thesis
  proof (cases "vr_storageMode r")
    case SM_inline
    then show ?thesis
      using ri meta f(1) [of ino] nb old
      by (simp add: file_ok_def record_intact_def split: option.splits)
  next
    case SM_chunked
    have "fits cs (vr_size r) (chunk ?st ino)"
      unfolding fits_def
    proof (intro allI impI)
      fix c x assume "chunk ?st ino c = Some x"
      then obtain key a where "map_of (vr_chunkMap r) c = Some key" "mget (bs_blocks (cv_store st)) key = Some a"
        "x = arr a (cv_store st)"
        using nb f(1) [of ino]
        by (auto simp: chunk_def chunk_addr_def dirty_addr_def block_addr_def mhas_def split: option.splits)
      then show "length x \<le> cs \<and> c * cs + length x \<le> vr_size r"
        using ri SM_chunked by (fastforce simp: record_intact_def list_all_iff dest: map_of_SomeD)
    qed
    then show ?thesis using SM_chunked meta nb by (simp add: file_ok_def mhas_def)
  qed
qed

lemma cv_restoreVersion_inv:
  assumes inv: "cv_inv opts st"
    and g: "\<And>ino. resolveIno p st = Inr ino \<Longrightarrow> restorable (opt_chunkSize opts) ino v st"
  shows "cv_inv opts (snd (cv_restoreVersion now p v st))"
proof (cases "resolveIno p st")
  case (Inl e)
  then show ?thesis using inv by (simp add: cv_restoreVersion_def)
next
  case (Inr ino)
  define st1 where "st1 = st\<lparr>cv_buffers := mdel ino (cv_buffers st)\<rparr>"
  have eq: "snd (cv_restoreVersion now p v st) = st1\<lparr>cv_meta := snd (ms_restoreVersion now ino v (cv_meta st1))\<rparr>"
    using Inr by (simp add: cv_restoreVersion_def Let_def st1_def case_prod_beta)
  have s1: "struct_inv st1" unfolding st1_def by (rule drop_buffer_struct [OF cv_invD(2) [OF inv]])
  have t1: "touched ino st st1" unfolding st1_def by (rule drop_buffer_touched)
  have nb: "\<not> mhas (cv_buffers st1) ino" by (simp add: st1_def mhas_def)
  have meq: "cv_meta st1 = cv_meta st" "cv_store st1 = cv_store st" by (simp_all add: st1_def)
  show ?thesis
  proof (cases "version_record ino v (cv_meta st)")
    case None
    then have cl: "clean st ino" using g [OF Inr] by (simp add: restorable_def)
    have "file_ok (opt_chunkSize opts) st1 ino meta" if m: "getInode ino (cv_meta st1) = Some meta" for meta
    proof -
      have "chunk st1 ino c = chunk st ino c" for c
        using clean_addr [OF cl, of c] by (simp add: st1_def chunk_def chunk_addr_def dirty_addr_def block_addr_def cong: option.case_cong)
      then have "chunk st1 ino = chunk st ino" by (simp add: fun_eq_iff)
      then show ?thesis using cv_invD(4) [OF inv, of ino meta] m nb
        by (simp add: file_ok_def meq mhas_def split: StorageMode.splits)
    qed
    then have "cv_inv opts st1" using touched_inv [OF inv t1 s1] nb by blast
    then show ?thesis unfolding eq using restore_missing [of ino v "cv_meta st1" now] None
      by (simp add: meq) (simp add: st1_def)
  next
    case (Some r)
    let ?st = "st1\<lparr>cv_meta := snd (ms_restoreVersion now ino v (cv_meta st1))\<rparr>"
    have ri: "record_intact (opt_chunkSize opts) ino st1 r"
      using g [OF Inr] Some by (simp only: restorable_def record_intact_def meq option.case)
    have r: "version_record ino v (cv_meta st1) = Some r" using Some meq by simp
    have m: "ms_inv (cv_meta st1)" using s1 by (simp add: struct_inv_def)
    note f = restore_found [OF r m, where now = now]
    have n: "ino < ms_nextIno (cv_meta st1)" using resolveIno_allocated [OF inv Inr] meq by simp
    have "chunk ?st i c = chunk st1 i c" if "i \<noteq> ino" for i c by (rule meta_chunk) (use that f(1) in simp)
    then have "touched ino st1 ?st" using f by (simp add: touched_def option.map_comp comp_def)
    then have t: "touched ino st ?st" by (rule touched_trans [OF t1])
    show ?thesis
      unfolding eq
      by (rule touched_inv [OF inv t restore_struct [OF s1 r n ri]])
        (use restore_file_ok [OF s1 r nb ri] nb in simp_all)
  qed
qed

end
