(* ===== verification/Chunked_Paths.thy ===== *)
theory Chunked_Paths
  imports Chunked_Ops
begin

section \<open>What the operations do to paths\<close>

text \<open>
  Functional correctness of whole-file operations on plain paths, those with no symbolic link or file
  in the way: what is written is read back, a removed file is gone, a renamed file keeps its content.
  Then the runs: every operation keeps the invariant, and reads and writes refine byte arrays.
\<close>

subsection \<open>Walking plain paths\<close>

text \<open>
  \<open>chain m cur cs r\<close>: the names \<open>cs\<close> lead from \<open>cur\<close> through directories only to the directory \<open>r\<close>.
  Making directories lets chains grow and never breaks one.
\<close>

definition type_of :: "nat \<Rightarrow> MetaStore \<Rightarrow> InodeType option" where
  "type_of i m = map_option im_type (getInode i m)"

fun chain :: "MetaStore \<Rightarrow> nat \<Rightarrow> string list \<Rightarrow> nat \<Rightarrow> bool" where
  "chain m cur [] r \<longleftrightarrow> type_of cur m = Some IT_directory \<and> r = cur"
| "chain m cur (c # cs) r \<longleftrightarrow> type_of cur m = Some IT_directory \<and>
     (case lookup cur c m of None \<Rightarrow> False | Some ch \<Rightarrow> chain m ch cs r)"

text \<open>A path names a regular file or nothing, and no link or file stands in its way.\<close>

fun plain :: "MetaStore \<Rightarrow> nat \<Rightarrow> string list \<Rightarrow> bool" where
  "plain m cur [] \<longleftrightarrow> False"
| "plain m cur (c # cs) \<longleftrightarrow> type_of cur m = Some IT_directory \<and>
     (case lookup cur c m of
        None \<Rightarrow> True
      | Some ch \<Rightarrow> if cs = [] then type_of ch m = Some IT_file else plain m ch cs)"

definition grows :: "MetaStore \<Rightarrow> MetaStore \<Rightarrow> bool" where
  "grows m m' \<longleftrightarrow> (\<forall>p n c. lookup p n m = Some c \<longrightarrow> lookup p n m' = Some c) \<and>
     (\<forall>i t. type_of i m = Some t \<longrightarrow> type_of i m' = Some t)"

lemma grows_refl [simp]: "grows m m"
  by (simp add: grows_def)

lemma grows_trans: "grows a b \<Longrightarrow> grows b c \<Longrightarrow> grows a c"
  unfolding grows_def by blast

lemma grows_type: "grows m m' \<Longrightarrow> type_of i m = Some t \<Longrightarrow> type_of i m' = Some t"
  unfolding grows_def by blast

lemma grows_lookup: "grows m m' \<Longrightarrow> lookup p n m = Some c \<Longrightarrow> lookup p n m' = Some c"
  unfolding grows_def by blast

lemma chain_grows: "chain m cur cs r \<Longrightarrow> grows m m' \<Longrightarrow> chain m' cur cs r"
  by (induction cs arbitrary: cur) (auto simp: grows_type grows_lookup split: option.splits)

lemma chain_dir: "chain m cur cs r \<Longrightarrow> type_of r m = Some IT_directory"
  by (induction cs arbitrary: cur) (auto split: option.splits)

lemma chain_resolve:
  "chain m cur cs r \<Longrightarrow> resolve_loop m d cur bef (cs @ ds) = resolve_loop m d r (bef @ cs) ds"
proof (induction cs arbitrary: cur bef)
  case (Cons c cs)
  then obtain ch where l: "lookup cur c m = Some ch" "chain m ch cs r" by (auto split: option.splits)
  have "type_of ch m = Some IT_directory" using l(2) by (cases cs) auto
  then have "dir_entry m cur c = Some ch" "\<not> is_link m ch"
    using Cons.prems l(1) by (auto simp: dir_entry_def is_link_getInode getInode_def type_of_def)
  then show ?case using Cons.IH [OF l(2)] by (simp add: resolve_loop_Cons)
qed simp

lemma resolve_loop_last:
  assumes "type_of r m = Some IT_directory" "lookup r name m = Some f" "\<not> is_link m f"
  shows "resolve_loop m d r bef [name] = Inr f"
  using assms by (simp add: resolve_loop_Cons dir_entry_def getInode_def type_of_def)

lemma resolve_loop_missing: "lookup r name m = None \<Longrightarrow> resolve_loop m d r bef [name] = Inl ENOENT"
  by (simp add: resolve_loop_Cons dir_entry_def)

lemma splitPath_components: "splitPath p = splitPathComponents p"
  by (simp add: splitPath_def splitPathComponents_def)

lemma resolve_plain:
  assumes "splitPath (cv_normalizePath p) = cs @ [name]" "chain (cv_meta st) 1 cs par"
  shows "lookup par name (cv_meta st) = Some f \<Longrightarrow> type_of f (cv_meta st) = Some IT_file \<Longrightarrow> resolveIno p st = Inr f"
    and "lookup par name (cv_meta st) = None \<Longrightarrow> resolveIno p st = Inl (KErr ENOENT)"
    and "cv_parent (cv_normalizePath p) st = Inr (par, name)"
proof -
  have sp: "splitPathComponents (cv_normalizePath p) = cs @ [name]" using assms(1) by (simp add: splitPath_components)
  note ch = chain_resolve [OF assms(2), of 0 "[]"] and ty = chain_dir [OF assms(2)]
  have res: "resolveIno p st = kres (resolve_loop (cv_meta st) 0 par cs [name])"
    using ch [of "[name]"] by (simp add: resolveIno_def resolvePath_def resolveComponentsCore_def sp)
  show "resolveIno p st = Inr f" if "lookup par name (cv_meta st) = Some f" "type_of f (cv_meta st) = Some IT_file"
  proof -
    have "\<not> is_link (cv_meta st) f" using that(2) by (auto simp: is_link_getInode type_of_def)
    then show ?thesis using resolve_loop_last [OF ty that(1)] by (simp add: res)
  qed
  show "resolveIno p st = Inl (KErr ENOENT)" if "lookup par name (cv_meta st) = None"
    by (simp add: res resolve_loop_missing that)
  show "cv_parent (cv_normalizePath p) st = Inr (par, name)"
    using ch [of "[]"] by (simp add: cv_parent_def resolveParentPath_def resolveComponentsCore_def sp)
qed

lemma plain_chain:
  assumes "plain m cur (cs @ [name])" "chain m cur cs r"
  shows "lookup r name m = None \<or> (\<exists>f. lookup r name m = Some f \<and> type_of f m = Some IT_file)"
  using assms by (induction cs arbitrary: cur) (auto split: option.splits if_splits)

text \<open>What making directories does to the tree.\<close>

lemma make_dir_result:
  assumes inv: "cv_inv opts st" and p: "p < ms_nextIno (cv_meta st)" and l: "lookup p name (cv_meta st) = None"
  obtains st' where "make_dir now p name st = (Inr (ms_nextIno (cv_meta st)), st')" "grows (cv_meta st) (cv_meta st')"
    "lookup p name (cv_meta st') = Some (ms_nextIno (cv_meta st))"
    "type_of (ms_nextIno (cv_meta st)) (cv_meta st') = Some IT_directory"
    "\<And>n. lookup (ms_nextIno (cv_meta st)) n (cv_meta st') = None"
proof -
  let ?m = "cv_meta st" and ?d = "ms_nextIno (cv_meta st)"
  define m1 where "m1 = snd (createInode now dir_attrs ?m)"
  define m3 where "m3 = updateInode ?d (\<lambda>m. m\<lparr>im_nlink := 2, im_size := 4096\<rparr>) (snd (createDentry p name ?d IT_directory m1))"
  have ne: "p \<noteq> ?d" using p by simp
  have l1: "lookup p name m1 = None" using l by (simp add: m1_def)
  have eq: "make_dir now p name st = (Inr ?d, st\<lparr>cv_meta := add_nlink p 1 m3\<rparr>)"
    using createDentry_ok [OF l1, of ?d IT_directory]
    by (simp add: make_dir_def Let_def case_prod_beta m1_def m3_def add_nlink_def cong: option.case_cong)
  have ln: "lookup q n (add_nlink i k m) = lookup q n m" for q n i k m
    by (simp add: add_nlink_def split: option.split)
  have tn: "type_of j (add_nlink i k m) = type_of j m" for j i k m
    by (auto simp: type_of_def add_nlink_def option.map_comp comp_def split: option.split)
  have lk: "lookup q n (add_nlink p 1 m3) = (if q = p \<and> n = name then Some ?d else if q = ?d then None else lookup q n ?m)" for q n
    using l by (simp add: ln m3_def m1_def lookup_createDentry dir_attrs_def)
  have ty: "type_of i (add_nlink p 1 m3) = (if i = ?d then Some IT_directory else type_of i ?m)" for i
    unfolding tn by (auto simp: type_of_def m3_def m1_def getInode_createInode dir_attrs_def)
  have old: "q < ?d" if "lookup q n ?m = Some c" for q n c
    using that inv_meta(1) [OF inv] submaps_okD [of ?d "ms_dentries ?m" q]
    by (auto simp: lookup_def ms_inv_def split: option.splits)
  have "grows ?m (add_nlink p 1 m3)"
    unfolding grows_def lk ty using l old inode_allocated [OF inv_meta(4) [OF inv]] by (fastforce simp: type_of_def)
  then show thesis by (intro that [OF eq]) (use ne in \<open>simp_all add: lk ty\<close>)
qed

lemma ensure_loop_chain:
  assumes "cv_inv opts st" "cur < ms_nextIno (cv_meta st)" "plain (cv_meta st) cur (cs @ [name])"
  shows "\<exists>r st1. ensure_loop now cur cs st = (Inr r, st1) \<and> grows (cv_meta st) (cv_meta st1) \<and>
    chain (cv_meta st1) cur cs r \<and> plain (cv_meta st1) cur (cs @ [name])"
  using assms
proof (induction cs arbitrary: cur st)
  case Nil
  then show ?case by simp
next
  case (Cons c cs)
  show ?case
  proof (cases "lookup cur c (cv_meta st)")
    case (Some ch)
    then have "plain (cv_meta st) ch (cs @ [name])" using Cons.prems(3) by simp
    from Cons.IH [OF Cons.prems(1) dents_okD [OF inv_meta(2) [OF Cons.prems(1)] Some] this]
    show ?thesis using Some Cons.prems(3) by (auto simp: grows_type grows_lookup)
  next
    case None
    obtain st1 where s1: "make_dir now cur c st = (Inr (ms_nextIno (cv_meta st)), st1)"
      "grows (cv_meta st) (cv_meta st1)" "lookup cur c (cv_meta st1) = Some (ms_nextIno (cv_meta st))"
      "type_of (ms_nextIno (cv_meta st)) (cv_meta st1) = Some IT_directory"
      "\<And>n. lookup (ms_nextIno (cv_meta st)) n (cv_meta st1) = None"
      by (rule make_dir_result [OF Cons.prems(1,2) None, where now = now]) blast
    note mk = make_dir_step [OF Cons.prems(1,2), of now c]
    have i1: "cv_inv opts st1" using tree_step_inv [OF Cons.prems(1) mk(1)] s1(1) by simp
    have "plain (cv_meta st1) (ms_nextIno (cv_meta st)) (cs @ [name])" using s1(4,5) by (cases cs) auto
    from Cons.IH [OF i1 _ this] mk(2) s1(1)
    show ?thesis
      using None s1 Cons.prems(3) by (auto simp: grows_type grows_lookup intro: grows_trans)
  qed
qed


lemma ensureParents_plain:
  assumes "cv_inv opts st" "splitPath (cv_normalizePath p) = cs @ [name]" "plain (cv_meta st) 1 (cs @ [name])"
  obtains par st1 where "ensureParents now p st = (Inr (par, name), st1)" "grows (cv_meta st) (cv_meta st1)"
    "chain (cv_meta st1) 1 cs par" "tree_step st st1"
    "lookup par name (cv_meta st1) = None \<or>
      (\<exists>f. lookup par name (cv_meta st1) = Some f \<and> type_of f (cv_meta st1) = Some IT_file)"
proof -
  obtain r st1 where r: "ensure_loop now 1 cs st = (Inr r, st1)" "grows (cv_meta st) (cv_meta st1)"
    "chain (cv_meta st1) 1 cs r" "plain (cv_meta st1) 1 (cs @ [name])"
    using ensure_loop_chain [OF assms(1) inv_meta(3) [OF assms(1)] assms(3)] by blast
  have e: "ensureParents now p st = (Inr (r, name), st1)" using assms(2) r(1) by (simp add: ensureParents_def)
  then show thesis
    using that [OF e r(2,3)] ensureParents_step(1) [OF assms(1), of now p] plain_chain [OF r(4,3)] by simp
qed

lemma touched_types: "touched ino st st' \<Longrightarrow> type_of i (cv_meta st') = type_of i (cv_meta st)"
  by (cases "i = ino") (simp_all add: touched_def type_of_def)

lemma touched_chain: "touched ino st st' \<Longrightarrow> chain (cv_meta st') cur cs r = chain (cv_meta st) cur cs r"
  by (induction cs arbitrary: cur) (auto simp: touched_types touched_lookup split: option.splits)

lemma becomes_read:
  assumes inv: "cv_inv opts st" and b: "becomes opts ino x st st'" and ty: "type_of ino (cv_meta st) = Some IT_file"
    and p: "splitPath (cv_normalizePath p) = cs @ [name]" "chain (cv_meta st) 1 cs par"
    and l: "lookup par name (cv_meta st) = Some ino"
  shows "resolveIno p st' = Inr ino" "fst (cv_readFile opts now p st') = Inr x" "cv_inv opts st'"
proof -
  have t: "touched ino st st'" using b by (simp add: becomes_def)
  show inv': "cv_inv opts st'" by (rule becomes_inv [OF inv b])
  show r: "resolveIno p st' = Inr ino"
    using resolve_plain(1) [OF p(1), of st' par ino] p(2) l ty
    by (simp add: touched_chain [OF t] touched_lookup [OF t] touched_types [OF t])
  obtain meta where m: "getInode ino (cv_meta st) = Some meta" "im_type meta = IT_file"
    using ty by (auto simp: type_of_def)
  have "af_node (abs_fs opts st') ino = Some (FileNode x)" using becomes_abs [OF b m] by (simp add: set_file_def)
  moreover have "af_resolve (abs_fs opts st') p = Inr ino" using r by (simp add: abs_fs_def)
  ultimately show "fst (cv_readFile opts now p st') = Inr x"
    using readFile_refines(3) [OF inv', of now p] by (simp add: spec_file_def)
qed

lemma becomes_other:
  assumes "becomes opts ino x st st'" "i \<noteq> ino"
  shows "node_of (opt_chunkSize opts) st' i = node_of (opt_chunkSize opts) st i"
proof -
  have t: "touched ino st st'" using assms(1) by (simp add: becomes_def)
  then have "getInode i (cv_meta st') = getInode i (cv_meta st)" using assms(2) by (simp add: touched_def)
  then show ?thesis
    by (cases "getInode i (cv_meta st)")
      (simp_all add: node_of_def touched_file_ok(2) [OF t assms(2)] cong: InodeType.case_cong)
qed

lemma grows_node:
  assumes "tree_step st st1" "grows (cv_meta st) (cv_meta st1)" "struct_inv st" "node_of cs st i = Some n"
  shows "node_of cs st1 i = Some n"
proof -
  obtain a where a: "getInode i (cv_meta st) = Some a" using assms(4) by (auto simp: node_of_def)
  then have "type_of i (cv_meta st1) = Some (im_type a)" by (intro grows_type [OF assms(2)]) (simp add: type_of_def)
  then have "getInode i (cv_meta st1) \<noteq> None" by (auto simp: type_of_def)
  then show ?thesis using tree_step_node [OF assms(1) a assms(3)] assms(4) by simp
qed

lemma writeFile_roundtrip:
  assumes inv: "cv_inv opts st" and p: "splitPath (cv_normalizePath p) = cs @ [name]"
    and pl: "plain (cv_meta st) 1 (cs @ [name])"
  obtains st' ino where "cv_writeFile opts now p x st = (Inr (), st')" "cv_inv opts st'" "resolveIno p st' = Inr ino"
    "fst (cv_readFile opts now' p st') = Inr x"
    "\<And>i n. i \<noteq> ino \<Longrightarrow> node_of (opt_chunkSize opts) st i = Some n \<Longrightarrow> node_of (opt_chunkSize opts) st' i = Some n"
proof -
  obtain par st1 where e: "ensureParents now p st = (Inr (par, name), st1)" "grows (cv_meta st) (cv_meta st1)"
    "chain (cv_meta st1) 1 cs par" "tree_step st st1"
    and l: "lookup par name (cv_meta st1) = None \<or>
      (\<exists>f. lookup par name (cv_meta st1) = Some f \<and> type_of f (cv_meta st1) = Some IT_file)"
    by (rule ensureParents_plain [OF inv p pl, where now = now])
  note inv1 = tree_step_inv [OF inv e(4)] and s = inv_meta(4) [OF inv]
  from l show thesis
  proof
    assume l: "lookup par name (cv_meta st1) = None"
    let ?ino = "ms_nextIno (cv_meta st1)" and ?st2 = "with_new_file now par name st1"
    obtain st' where st': "cv_writeFile opts now p x st = (Inr (), st')" "becomes opts ?ino x ?st2 st'"
      by (rule writeFile_new [OF inv e(1) l])
    have par: "par < ?ino" using ensureParents_step(2) [OF inv, of now p par name] e by simp
    note w = with_new_file [OF inv1 par l, where now = now]
    note inv2 = tree_step_inv [OF inv1 w(1)]
    have "getInode ?ino (cv_meta st1) = None"
      using inode_allocated [OF inv_meta(4) [OF inv1], of ?ino] by (cases "getInode ?ino (cv_meta st1)") auto
    then have g: "grows (cv_meta st1) (cv_meta ?st2)"
      unfolding grows_def w(2) type_of_def w(3) using l by auto
    have ty: "type_of ?ino (cv_meta ?st2) = Some IT_file" unfolding type_of_def w(3) by simp
    note b = becomes_read [OF inv2 st'(2) ty p chain_grows [OF e(3) g]]
    have "node_of (opt_chunkSize opts) st' i = Some n" if "i \<noteq> ?ino" "node_of (opt_chunkSize opts) st i = Some n" for i n
      using becomes_other [OF st'(2) that(1)]
        grows_node [OF tree_step_trans [OF e(4) w(1)] grows_trans [OF e(2) g] s that(2)] by simp
    then show thesis using b w(2) [of par name] st'(1) by (intro that [of st' ?ino]) simp_all
  next
    assume "\<exists>f. lookup par name (cv_meta st1) = Some f \<and> type_of f (cv_meta st1) = Some IT_file"
    then obtain f where f: "lookup par name (cv_meta st1) = Some f" "type_of f (cv_meta st1) = Some IT_file" by blast
    then obtain meta where m: "getInode f (cv_meta st1) = Some meta" by (auto simp: type_of_def)
    obtain st' where st': "cv_writeFile opts now p x st = (Inr (), st')" "becomes opts f x st1 st'"
      by (rule writeFile_existing [OF inv e(1) f(1) m])
    note b = becomes_read [OF inv1 st'(2) f(2) p e(3) f(1)]
    have "node_of (opt_chunkSize opts) st' i = Some n" if "i \<noteq> f" "node_of (opt_chunkSize opts) st i = Some n" for i n
      using becomes_other [OF st'(2) that(1)] grows_node [OF e(4,2) s that(2)] by simp
    then show thesis using b st'(1) by (intro that [of st' f]) simp_all
  qed
qed


subsection \<open>Removing and renaming\<close>

lemma chain_transfer:
  assumes "chain m cur cs r" "\<And>q. type_of q m = Some IT_directory \<Longrightarrow> type_of q m' = Some IT_directory"
    and "\<And>q n c. type_of q m = Some IT_directory \<Longrightarrow> lookup q n m = Some c \<Longrightarrow> type_of c m = Some IT_directory \<Longrightarrow>
      lookup q n m' = Some c"
  shows "chain m' cur cs r"
  using assms(1)
proof (induction cs arbitrary: cur)
  case (Cons c cs)
  then obtain ch where l: "lookup cur c m = Some ch" "chain m ch cs r" "type_of cur m = Some IT_directory"
    by (auto split: option.splits)
  then have "type_of ch m = Some IT_directory" by (cases cs) auto
  then show ?case using Cons.IH [OF l(2)] l assms(2,3) by simp
qed (use assms(2) in auto)

lemma drop_chunks_meta [simp]:
  "lookup q n (cv_meta (drop_chunks opts ino st)) = lookup q n (cv_meta st)"
  "getInode i (cv_meta (drop_chunks opts ino st)) = getInode i (cv_meta st)"
  by (simp_all add: drop_chunks_eq) (simp add: lookup_def deleteAllChunks_def split: option.split)

lemma unlink_tree:
  "q \<noteq> g \<Longrightarrow> lookup q n (cv_meta (unlink_inode opts now drp par name g meta st)) =
     (if q = par \<and> n = name then None else lookup q n (cv_meta st))"
  "i \<noteq> g \<Longrightarrow> getInode i (cv_meta (unlink_inode opts now drp par name g meta st)) = getInode i (cv_meta st)"
  by (simp_all add: unlink_inode_def Let_def)

lemma unlink_survivor:
  "getInode g (cv_meta (unlink_inode opts now drp par name g meta st)) =
     (if im_nlink meta - 1 \<le> 0 then None
      else map_option (\<lambda>m. m\<lparr>im_nlink := im_nlink meta - 1, im_ctimeMs := now\<rparr>) (getInode g (cv_meta st)))"
  by (simp add: unlink_inode_def Let_def)

lemma unlink_chain:
  assumes "chain (cv_meta st) 1 cs r" "type_of g (cv_meta st) = Some IT_file" "lookup par name (cv_meta st) = Some g"
  shows "chain (cv_meta (unlink_inode opts now drp par name g meta st)) 1 cs r"
proof (rule chain_transfer [OF assms(1)])
  fix q assume "type_of q (cv_meta st) = Some IT_directory"
  then have "q \<noteq> g" using assms(2) by auto
  then show "type_of q (cv_meta (unlink_inode opts now drp par name g meta st)) = Some IT_directory"
    using \<open>type_of q (cv_meta st) = Some IT_directory\<close> by (simp add: type_of_def unlink_tree)
  fix n c assume "lookup q n (cv_meta st) = Some c" "type_of c (cv_meta st) = Some IT_directory"
  then show "lookup q n (cv_meta (unlink_inode opts now drp par name g meta st)) = Some c"
    using assms(2,3) \<open>q \<noteq> g\<close> by (auto simp: unlink_tree)
qed

lemma unlink_node:
  assumes "cv_inv opts st" "i \<noteq> g" "node_of cs st i = Some n" "g < ms_nextIno (cv_meta st)"
  shows "node_of cs (unlink_inode opts now drp par name g meta st) i = Some n"
proof -
  obtain a where a: "getInode i (cv_meta st) = Some a" using assms(3) by (auto simp: node_of_def)
  then have "getInode i (cv_meta (unlink_inode opts now drp par name g meta st)) \<noteq> None" using assms(2) by (simp add: unlink_tree)
  then show ?thesis using tree_step_node [OF unlink_step [OF assms(1,4)] a inv_meta(4) [OF assms(1)]] assms(3) by simp
qed

lemma removeFile_removes:
  assumes inv: "cv_inv opts st" and p: "splitPath (cv_normalizePath p) = cs @ [name]" "chain (cv_meta st) 1 cs par"
    and l: "lookup par name (cv_meta st) = Some f" and m: "getInode f (cv_meta st) = Some meta" "im_type meta = IT_file"
  obtains st' where "cv_removeFile opts now p st = (Inr (), st')" "cv_inv opts st'" "cv_exists p st' = Inr False"
    "getInode f (cv_meta st') = None \<longleftrightarrow> im_nlink meta \<le> 1"
    "\<And>i n. i \<noteq> f \<Longrightarrow> node_of (opt_chunkSize opts) st i = Some n \<Longrightarrow> node_of (opt_chunkSize opts) st' i = Some n"
proof -
  let ?st = "unlink_inode opts now True par name f meta st"
  have ty: "type_of f (cv_meta st) = Some IT_file" using m by (simp add: type_of_def)
  have "par \<noteq> f" using chain_dir [OF p(2)] ty by auto
  note rp = resolve_plain [OF p(1) unlink_chain [OF p(2) ty l]]
  have ex: "cv_exists p ?st = Inr False" using rp(2) \<open>par \<noteq> f\<close> by (simp add: cv_exists_def unlink_tree)
  have f: "f < ms_nextIno (cv_meta st)" using dents_okD [OF inv_meta(2) [OF inv] l] .
  have eq: "cv_removeFile opts now p st = (Inr (), ?st)"
    using resolve_plain(3) [OF p] l m by (simp add: cv_removeFile_def requireInode_def)
  show thesis
    by (rule that [OF eq tree_step_inv [OF inv unlink_step [OF inv f]] ex])
      (use unlink_node [OF inv _ _ f] m unlink_survivor in auto)
qed

lemma clear_target_file:
  assumes inv: "cv_inv opts st"
    and t: "lookup dp dn (cv_meta st) = None \<or> (\<exists>g. lookup dp dn (cv_meta st) = Some g \<and> type_of g (cv_meta st) = Some IT_file)"
  obtains st1 where "clear_target opts now dp dn st = (Inr (), st1)" "tree_step st st1"
    "\<And>q n. lookup dp dn (cv_meta st) \<noteq> Some q \<Longrightarrow>
       lookup q n (cv_meta st1) = (if q = dp \<and> n = dn then None else lookup q n (cv_meta st))"
    "\<And>i. lookup dp dn (cv_meta st) \<noteq> Some i \<Longrightarrow> getInode i (cv_meta st1) = getInode i (cv_meta st)"
  using t
proof
  assume "lookup dp dn (cv_meta st) = None"
  then show thesis using that [of st] tree_step_refl [OF inv] by (simp add: clear_target_def)
next
  assume "\<exists>g. lookup dp dn (cv_meta st) = Some g \<and> type_of g (cv_meta st) = Some IT_file"
  then obtain g meta where g: "lookup dp dn (cv_meta st) = Some g" "getInode g (cv_meta st) = Some meta" "im_type meta = IT_file"
    by (auto simp: type_of_def)
  have "g < ms_nextIno (cv_meta st)" using dents_okD [OF inv_meta(2) [OF inv] g(1)] .
  then show thesis
    using that [of "unlink_inode opts now False dp dn g meta st"] g unlink_step [OF inv]
    by (simp add: clear_target_def rename_replace_def requireInode_def unlink_tree)
qed

lemma rename_moves:
  assumes inv: "cv_inv opts st"
    and op: "splitPath (cv_normalizePath op) = cs @ [sn]" "chain (cv_meta st) 1 cs sp"
    and np: "splitPath (cv_normalizePath np) = ds @ [dn]" "chain (cv_meta st) 1 ds dp"
    and l: "lookup sp sn (cv_meta st) = Some f" "type_of f (cv_meta st) = Some IT_file"
    and t: "lookup dp dn (cv_meta st) = None \<or> (\<exists>g. lookup dp dn (cv_meta st) = Some g \<and> type_of g (cv_meta st) = Some IT_file)"
    and ne: "lookup dp dn (cv_meta st) \<noteq> Some f"
  obtains st' where "cv_rename opts now op np st = (Inr (), st')" "cv_inv opts st'" "resolveIno np st' = Inr f"
    "resolveIno op st' = Inl (KErr ENOENT)"
    "\<And>i n. lookup dp dn (cv_meta st) \<noteq> Some i \<Longrightarrow> node_of (opt_chunkSize opts) st i = Some n \<Longrightarrow>
       node_of (opt_chunkSize opts) st' i = Some n"
proof -
  obtain st1 where st1: "clear_target opts now dp dn st = (Inr (), st1)" "tree_step st st1"
    and lk: "\<And>q n. lookup dp dn (cv_meta st) \<noteq> Some q \<Longrightarrow>
       lookup q n (cv_meta st1) = (if q = dp \<and> n = dn then None else lookup q n (cv_meta st))"
    and gi: "\<And>i. lookup dp dn (cv_meta st) \<noteq> Some i \<Longrightarrow> getInode i (cv_meta st1) = getInode i (cv_meta st)"
    by (rule clear_target_file [OF inv t, where now = now]) blast
  define st' where "st' = on_meta (renameDentry sp sn dp dn) st1"
  obtain meta where m: "getInode f (cv_meta st) = Some meta" "im_type meta = IT_file" using l(2) by (auto simp: type_of_def)
  have dir: "lookup dp dn (cv_meta st) \<noteq> Some q" if "type_of q (cv_meta st) = Some IT_directory" for q
    using t that by auto
  have sd: "\<not> (sp = dp \<and> sn = dn)" using l(1) ne by auto
  note spd = dir [OF chain_dir [OF op(2)]] and dpd = dir [OF chain_dir [OF np(2)]]
  have s1: "lookup sp sn (cv_meta st1) = Some f" using lk [OF spd] sd l(1) by simp
  have lk': "lookup q n (cv_meta st') = (if q = dp \<and> n = dn then Some f else if q = sp \<and> n = sn then None
      else lookup q n (cv_meta st))" if "lookup dp dn (cv_meta st) \<noteq> Some q" for q n
    using lk [OF that] s1 by (simp add: st'_def lookup_renameDentry)
  have ty': "type_of i (cv_meta st') = type_of i (cv_meta st)" if "lookup dp dn (cv_meta st) \<noteq> Some i" for i
    using gi [OF that] by (simp add: st'_def type_of_def)
  have ch: "chain (cv_meta st') 1 cs' r" if "chain (cv_meta st) 1 cs' r" for cs' r
    by (rule chain_transfer [OF that]) (use dir ty' lk' l t in \<open>auto simp: \<open>lookup sp sn (cv_meta st) = Some f\<close>\<close>)
  have "cv_normalizePath op \<noteq> cv_normalizePath np"
  proof
    assume "cv_normalizePath op = cv_normalizePath np"
    then show False using resolve_plain(3) [OF op] resolve_plain(3) [OF np] sd by simp
  qed
  then have eq: "cv_rename opts now op np st = (Inr (), st')"
    using resolve_plain(3) [OF op] resolve_plain(3) [OF np] l(1) m st1(1)
    by (simp add: cv_rename_def Let_def requireInode_def clear_target_def st'_def)
  have step: "tree_step st st'" using rename_step [OF inv, of now op np] eq by simp
  have "resolveIno np st' = Inr f"
    by (rule resolve_plain(1) [OF np(1) ch [OF np(2)]]) (use lk' [OF dpd] ty' [OF ne] l(2) in auto)
  moreover have "resolveIno op st' = Inl (KErr ENOENT)"
    by (rule resolve_plain(2) [OF op(1) ch [OF op(2)]]) (use lk' [OF spd] sd in auto)
  moreover have "node_of (opt_chunkSize opts) st' i = Some n"
    if i: "lookup dp dn (cv_meta st) \<noteq> Some i" and n: "node_of (opt_chunkSize opts) st i = Some n" for i n
  proof -
    obtain a where a: "getInode i (cv_meta st) = Some a" using n by (auto simp: node_of_def)
    then have "getInode i (cv_meta st') \<noteq> None" using gi [OF i] by (simp add: st'_def)
    then show ?thesis using tree_step_node [OF step a inv_meta(4) [OF inv]] n by simp
  qed
  ultimately show thesis using that [OF eq tree_step_inv [OF inv step]] by blast
qed


subsection \<open>Every operation\<close>

datatype cv_call =
    VIo io_call
  | VWriteFile path bytes
  | VCreateDir path
  | VMkdir path bool
  | VRemoveDir path
  | VRename path path
  | VRemoveFile path
  | VSymlink string path
  | VLink path path
  | VChmod path u32
  | VChown path int int
  | VUtimes path int int
  | VCopy path path
  | VCreateVersion path
  | VPruneVersions path RetentionPolicy
  | VRestoreVersion path nat

fun cv_step :: "ChunkedVfsOptions \<Rightarrow> int \<times> cv_call \<Rightarrow> CVfs \<Rightarrow> CVfs" where
  "cv_step opts (now, VIo c) st = snd (io_step opts now c st)"
| "cv_step opts (now, VWriteFile p x) st = snd (cv_writeFile opts now p x st)"
| "cv_step opts (now, VCreateDir p) st = snd (cv_createDir now p st)"
| "cv_step opts (now, VMkdir p r) st = snd (cv_mkdir now p r st)"
| "cv_step opts (now, VRemoveDir p) st = snd (cv_removeDir p st)"
| "cv_step opts (now, VRename p q) st = snd (cv_rename opts now p q st)"
| "cv_step opts (now, VRemoveFile p) st = snd (cv_removeFile opts now p st)"
| "cv_step opts (now, VSymlink t p) st = snd (cv_symlink now t p st)"
| "cv_step opts (now, VLink p q) st = snd (cv_link p q st)"
| "cv_step opts (now, VChmod p md) st = snd (cv_chmod now p md st)"
| "cv_step opts (now, VChown p u g) st = snd (cv_chown now p u g st)"
| "cv_step opts (now, VUtimes p a m) st = snd (cv_utimes now p a m st)"
| "cv_step opts (now, VCopy p q) st = snd (cv_copy opts now p q st)"
| "cv_step opts (now, VCreateVersion p) st = snd (cv_createVersion opts now p st)"
| "cv_step opts (now, VPruneVersions p pol) st = snd (cv_pruneVersions now p pol st)"
| "cv_step opts (now, VRestoreVersion p v) st = snd (cv_restoreVersion now p v st)"

text \<open>
  The two operations with a side condition. \<open>copy\<close> looks at stored blocks only: its source must have
  been flushed. \<open>restoreVersion\<close> puts a recorded chunk map back without looking at the blocks: they must
  be there and fit the recorded size, and a version that is not there is asked for only of a flushed file.
\<close>

fun cv_guard :: "ChunkedVfsOptions \<Rightarrow> int \<times> cv_call \<Rightarrow> CVfs \<Rightarrow> bool" where
  "cv_guard opts (now, VCopy p q) st = (case resolveIno p st of Inl e \<Rightarrow> True | Inr ino \<Rightarrow> clean st ino)"
| "cv_guard opts (now, VRestoreVersion p v) st =
     (case resolveIno p st of Inl e \<Rightarrow> True | Inr ino \<Rightarrow> restorable (opt_chunkSize opts) ino v st)"
| "cv_guard opts _ st = True"

lemma attribute_ops_inv:
  assumes "cv_inv opts st"
  shows "cv_inv opts (snd (cv_chmod now p md st))" "cv_inv opts (snd (cv_chown now p u g st))"
    "cv_inv opts (snd (cv_utimes now p a mt st))"
  using assms upd_content_inv(1) [OF assms]
  by (auto simp: cv_chmod_def cv_chown_def cv_utimes_def Let_def split: sum.split)

lemmas tree_ops_inv = createDir_step [THEN tree_step_inv [rotated]] mkdir_step [THEN tree_step_inv [rotated]]
  removeDir_step [THEN tree_step_inv [rotated]] rename_step [THEN tree_step_inv [rotated]]
  removeFile_step [THEN tree_step_inv [rotated]] symlink_step [THEN tree_step_inv [rotated]]
  link_step [THEN tree_step_inv [rotated]]

interpretation chunked_vfs: invariant_component "cv_step opts" "cv_guard opts" "cv_inv opts" for opts
proof
  fix x st
  assume inv: "cv_inv opts st" and g: "cv_guard opts x st"
  obtain now c where x: "x = (now, c)" by force
  show "cv_inv opts (cv_step opts x st)"
  proof (cases c)
    case (VIo c')
    then show ?thesis using x io_step_refines [OF inv] by simp
  next
    case (VCopy p q)
    have "cv_inv opts (snd (cv_copy opts now p q st))" by (rule copy_inv [OF inv]) (use g x VCopy in simp)
    then show ?thesis using x VCopy by simp
  next
    case (VRestoreVersion p v)
    have "cv_inv opts (snd (cv_restoreVersion now p v st))"
      by (rule cv_restoreVersion_inv [OF inv]) (use g x VRestoreVersion in simp)
    then show ?thesis using x VRestoreVersion by simp
  qed (use x inv in \<open>auto intro: tree_ops_inv writeFile_inv attribute_ops_inv cv_createVersion_inv cv_pruneVersions_inv\<close>)
qed


subsection \<open>Properties\<close>

text \<open>The directory a plain path ends in and the inode its last name has there.\<close>

fun plain_entry :: "MetaStore \<Rightarrow> nat \<Rightarrow> string list \<Rightarrow> (nat \<times> nat option) option" where
  "plain_entry m cur [] = None"
| "plain_entry m cur (c # cs) =
     (if type_of cur m = Some IT_directory
      then if cs = [] then Some (cur, lookup cur c m)
        else (case lookup cur c m of None \<Rightarrow> None | Some ch \<Rightarrow> plain_entry m ch cs)
      else None)"

lemma plain_entry_chain:
  assumes "plain_entry m cur parts = Some (par, e)"
  obtains cs name where "parts = cs @ [name]" "chain m cur cs par" "lookup par name m = e"
proof -
  have "\<exists>cs name. parts = cs @ [name] \<and> chain m cur cs par \<and> lookup par name m = e"
    using assms
  proof (induction parts arbitrary: cur)
    case (Cons c cs)
    show ?case
    proof (cases "cs = []")
      case True
      then show ?thesis using Cons.prems by (intro exI [of _ "[]"] exI [of _ c]) (auto split: if_splits)
    next
      case False
      then obtain ch where ch: "lookup cur c m = Some ch" "plain_entry m ch cs = Some (par, e)"
        "type_of cur m = Some IT_directory" using Cons.prems by (auto split: if_splits option.splits)
      obtain ds name where "cs = ds @ [name]" "chain m ch ds par" "lookup par name m = e"
        using Cons.IH [OF ch(2)] by blast
      then show ?thesis using ch by (intro exI [of _ "c # ds"] exI [of _ name]) simp
    qed
  qed simp
  then show thesis using that by blast
qed

definition sample_opts :: ChunkedVfsOptions where
  "sample_opts = \<lparr>opt_chunkSize = 4, opt_inlineThreshold = 4, opt_writeBuffering = True,
     opt_versioning = False, opt_random = (\<lambda>n. n)\<rparr>"

definition versioned_opts :: ChunkedVfsOptions where
  "versioned_opts = sample_opts\<lparr>opt_versioning := True\<rparr>"

text \<open>A state with a file in two chunks, the second rewritten in the buffer, a link and an inline file.\<close>

definition sample_vfs :: CVfs where
  "sample_vfs = \<lparr>cv_meta =
    \<lparr>ms_nextIno = 6,
       ms_inodes =
         [(1, \<lparr>im_ino = 1, im_type = IT_directory, im_mode = 16877,
                 im_uid = 0, im_gid = 0, im_size = 0, im_nlink = 3,
                 im_atimeMs = 0, im_mtimeMs = 0, im_ctimeMs = 0,
                 im_birthtimeMs = 0, im_storageMode = SM_inline,
                 im_inlineContent = None\<rparr>),
          (2, \<lparr>im_ino = 2, im_type = IT_directory, im_mode = 16877,
                 im_uid = 0, im_gid = 0, im_size = 4096, im_nlink = 2,
                 im_atimeMs = 1, im_mtimeMs = 1, im_ctimeMs = 1,
                 im_birthtimeMs = 1, im_storageMode = SM_inline,
                 im_inlineContent = None\<rparr>),
          (3, \<lparr>im_ino = 3, im_type = IT_file, im_mode = 33188, im_uid = 0,
                 im_gid = 0, im_size = 7, im_nlink = 1, im_atimeMs = 1,
                 im_mtimeMs = 2, im_ctimeMs = 2, im_birthtimeMs = 1,
                 im_storageMode = SM_chunked, im_inlineContent = None\<rparr>),
          (4, \<lparr>im_ino = 4, im_type = IT_symlink, im_mode = 41471,
                 im_uid = 0, im_gid = 0, im_size = 4, im_nlink = 1,
                 im_atimeMs = 3, im_mtimeMs = 3, im_ctimeMs = 3,
                 im_birthtimeMs = 3, im_storageMode = SM_inline,
                 im_inlineContent = None\<rparr>),
          (5, \<lparr>im_ino = 5, im_type = IT_file, im_mode = 33188, im_uid = 0,
                 im_gid = 0, im_size = 1, im_nlink = 1, im_atimeMs = 4,
                 im_mtimeMs = 4, im_ctimeMs = 4, im_birthtimeMs = 4,
                 im_storageMode = SM_inline, im_inlineContent = Some [9]\<rparr>)],
       ms_dentries =
         [(1, [(''d'', \<lparr>de_childIno = 2, de_type = IT_directory\<rparr>),
               (''l'', \<lparr>de_childIno = 4, de_type = IT_symlink\<rparr>),
               (''g'', \<lparr>de_childIno = 5, de_type = IT_file\<rparr>)]),
          (2, [(''f'', \<lparr>de_childIno = 3, de_type = IT_file\<rparr>)])],
       ms_symlinkTargets = [(4, ''/d/f'')],
       ms_chunks = [(3, [(0, ''3/0''), (1, ''3/1'')])],
       ms_versioningEnabled = False, ms_versions = []\<rparr>,
    cv_store =
      \<lparr>bs_heap = [[1, 2, 3, 4], [5, 6], [5, 7, 8]],
         bs_blocks = [(''3/0'', 0), (''3/1'', 1)]\<rparr>,
    cv_buffers = [(3, \<lparr>wb_dirtyChunks = [(1, 2)], wb_bufferedSize = 7\<rparr>)],
    cv_draws = 0\<rparr>"

lemma sample_vfs_run:
  "sample_vfs = run_ops (cv_step sample_opts)
     [(1, VWriteFile ''/d/f'' [1, 2, 3, 4, 5, 6]), (2, VIo (IoPwrite ''/d/f'' 5 [7, 8])),
      (3, VSymlink ''/d/f'' ''/l''), (4, VWriteFile ''/g'' [9])] (cv_new 0 sample_opts)"
  by code_simp

lemma sample_vfs_inv: "cv_inv sample_opts sample_vfs"
  unfolding sample_vfs_run
  by (rule chunked_vfs.run_inv [OF cv_new_inv]) (simp_all add: sample_opts_def)

text \<open>
  C1. In every run of reads, positional reads and writes, truncations, size queries and flushes, with
  any chunk size and inline threshold, with or without write buffering and versioning, the file system
  answers as if every file were one array of bytes, and what it represents afterwards is what those
  arrays became.
\<close>

theorem chunked_io_refines:
  assumes "cv_inv opts st"
  shows "fst (run_replies (\<lambda>(now, c). io_step opts now c) calls st) =
      fst (run_replies (\<lambda>(now, c). spec_step c) calls (abs_fs opts st)) \<and>
    abs_fs opts (snd (run_replies (\<lambda>(now, c). io_step opts now c) calls st)) =
      snd (run_replies (\<lambda>(now, c). spec_step c) calls (abs_fs opts st))"
  using chunked_files.run_refines [OF assms] by blast

theorem chunked_io_refines_witness:
  "fst (run_replies (\<lambda>(now :: int, c). spec_step c) [(5, IoTruncate ''/l'' 9), (6, IoRead ''/l'')]
     (abs_fs sample_opts sample_vfs)) = [Inr IoDone, Inr (IoBytes [1, 2, 3, 4, 5, 7, 8, 0, 0])]"
proof -
  have "fst (run_replies (\<lambda>(now, c). io_step sample_opts now c) [(5, IoTruncate ''/l'' 9), (6, IoRead ''/l'')] sample_vfs) =
      [Inr IoDone, Inr (IoBytes [1, 2, 3, 4, 5, 7, 8, 0, 0])]" by code_simp
  then show ?thesis
    using chunked_io_refines [OF sample_vfs_inv, of "[(5, IoTruncate ''/l'' 9), (6, IoRead ''/l'')]"] by simp
qed

text \<open>
  C3. In every run of the operations of the chunked file system, versioning included, its invariant holds:
  inode numbers are allocated once and entries point at allocated inodes, every stored or buffered chunk
  belongs to one file and lies within its size, every key in a chunk map has its block, buffers exist
  only with write buffering, a file in the metadata has neither chunks nor buffer. Two operations have a
  side condition, and the run is one in which they meet it: the source of a \<open>copy\<close> has been flushed, and a
  version is restored while its blocks are there and fit the size it recorded (a version that does not
  exist is asked for only of a flushed file, whose buffer the code drops before it fails).
\<close>

theorem chunked_vfs_invariant:
  assumes "0 < opt_chunkSize opts" "guarded (cv_guard opts) (cv_step opts) calls (cv_new now opts)"
  shows "cv_inv opts (run_ops (cv_step opts) calls (cv_new now opts))"
  using chunked_vfs.run_inv [OF cv_new_inv [OF assms(1)] assms(2)] .

theorem chunked_vfs_invariant_witness:
  "cv_inv versioned_opts (run_ops (cv_step versioned_opts)
     [(1, VWriteFile ''/f'' [1, 2, 3, 4, 5]), (2, VCreateVersion ''/f''), (3, VWriteFile ''/f'' [6]),
      (4, VRestoreVersion ''/f'' 1), (5, VRename ''/f'' ''/g''), (6, VCopy ''/g'' ''/h''), (7, VRemoveFile ''/g'')]
     (cv_new 0 versioned_opts))"
  by (rule chunked_vfs_invariant) (simp add: versioned_opts_def sample_opts_def, code_simp)

text \<open>
  The side condition on \<open>restoreVersion\<close> is needed. When the random part of a block key repeats, a later
  write stores a longer block under the key of the version; the version then has a block beyond its
  size, and reading the restored file fails with a range error.
\<close>

lemma restore_after_collision:
  "let opts = versioned_opts\<lparr>opt_inlineThreshold := 0, opt_random := \<lambda>n. 0\<rparr>;
       st1 = run_ops (cv_step opts)
         [(1, VWriteFile ''/f'' [1, 2]), (2, VCreateVersion ''/f''), (3, VWriteFile ''/f'' [3, 4, 5, 6])] (cv_new 0 opts);
       st2 = cv_step opts (4, VRestoreVersion ''/f'' 1) st1
   in \<not> cv_guard opts (4, VRestoreVersion ''/f'' 1) st1 \<and>
      fst (cv_readFile opts 5 ''/f'' st1) = Inr [3, 4, 5, 6] \<and> fst (cv_readFile opts 5 ''/f'' st2) = Inl (JsErr ''RangeError'')"
  by code_simp

text \<open>
  A failed \<open>restoreVersion\<close> is not without effect: what was written to the file and not yet flushed is
  lost.
\<close>

lemma failed_restore_drops_writes:
  "let opts = versioned_opts;
       st1 = run_ops (cv_step opts)
         [(1, VWriteFile ''/f'' [1, 2, 3, 4, 5, 6]), (2, VIo (IoPwrite ''/f'' 6 [9]))] (cv_new 0 opts);
       (r, st2) = cv_restoreVersion 3 ''/f'' 7 st1
   in r = Inl (KErr ENOENT) \<and> fst (cv_readFile opts 4 ''/f'' st1) = Inr [1, 2, 3, 4, 5, 6, 9] \<and>
      fst (cv_readFile opts 4 ''/f'' st2) = Inr [1, 2, 3, 4, 5, 6, 0]"
  by code_simp

text \<open>
  C2. Writing a whole file under a plain path (one with no symbolic link and no file on the way; missing
  directories are made) succeeds, reading the path returns what was written, and every other file
  keeps its content.
\<close>

theorem writeFile_then_readFile:
  assumes "cv_inv opts st" "plain (cv_meta st) 1 (splitPath (cv_normalizePath p))"
  shows "\<exists>st'. cv_writeFile opts now p data st = (Inr (), st') \<and> cv_inv opts st' \<and>
    fst (cv_readFile opts now' p st') = Inr data \<and>
    (\<forall>i n. resolveIno p st' = Inr i \<or> af_node (abs_fs opts st) i \<noteq> Some n \<or> af_node (abs_fs opts st') i = Some n)"
proof -
  have "splitPath (cv_normalizePath p) \<noteq> []" using assms(2) by auto
  then obtain cs name where s: "splitPath (cv_normalizePath p) = cs @ [name]" by (metis append_butlast_last_id)
  obtain st' ino where w: "cv_writeFile opts now p data st = (Inr (), st')" "cv_inv opts st'" "resolveIno p st' = Inr ino"
    "fst (cv_readFile opts now' p st') = Inr data"
    and o: "\<And>i n. i \<noteq> ino \<Longrightarrow> node_of (opt_chunkSize opts) st i = Some n \<Longrightarrow> node_of (opt_chunkSize opts) st' i = Some n"
    by (rule writeFile_roundtrip [OF assms(1) s, where x = data and now = now and now' = now'])
      (use assms(2) s in auto)
  have "\<forall>i n. resolveIno p st' = Inr i \<or> af_node (abs_fs opts st) i \<noteq> Some n \<or> af_node (abs_fs opts st') i = Some n"
    using w(3) o by (simp add: abs_fs_def) metis
  then show ?thesis using w by blast
qed

theorem writeFile_then_readFile_witness:
  "\<exists>st'. cv_writeFile sample_opts 7 ''/d/e/x'' [1, 1, 2, 3, 5, 8] sample_vfs = (Inr (), st') \<and>
     fst (cv_readFile sample_opts 8 ''/d/e/x'' st') = Inr [1, 1, 2, 3, 5, 8]"
proof -
  have "plain (cv_meta sample_vfs) 1 (splitPath (cv_normalizePath ''/d/e/x''))" by code_simp
  from writeFile_then_readFile [OF sample_vfs_inv this, of 7 "[1, 1, 2, 3, 5, 8]" 8] show ?thesis by blast
qed




text \<open>
  C4. Renaming a file to a plain path that is free or names another file succeeds: the old path is
  gone, the new one names the same inode and reads as the old one did, and only the inode it replaced
  may change.
\<close>

theorem rename_keeps_content:
  assumes "cv_inv opts st" "plain_entry (cv_meta st) 1 (splitPath (cv_normalizePath p)) = Some (sp, Some f)"
    and "type_of f (cv_meta st) = Some IT_file"
    and "plain_entry (cv_meta st) 1 (splitPath (cv_normalizePath q)) = Some (dp, t)"
    and "case t of None \<Rightarrow> True | Some g \<Rightarrow> g \<noteq> f \<and> type_of g (cv_meta st) = Some IT_file"
  shows "\<exists>st'. cv_rename opts now p q st = (Inr (), st') \<and> cv_inv opts st' \<and> cv_exists p st' = Inr False \<and>
    resolveIno q st' = Inr f \<and> fst (cv_readFile opts now' q st') = fst (cv_readFile opts now' p st) \<and>
    (\<forall>i n. t = Some i \<or> af_node (abs_fs opts st) i \<noteq> Some n \<or> af_node (abs_fs opts st') i = Some n)"
proof -
  obtain cs sn where c: "splitPath (cv_normalizePath p) = cs @ [sn]" "chain (cv_meta st) 1 cs sp"
    "lookup sp sn (cv_meta st) = Some f" by (rule plain_entry_chain [OF assms(2)])
  obtain ds dn where d: "splitPath (cv_normalizePath q) = ds @ [dn]" "chain (cv_meta st) 1 ds dp"
    "lookup dp dn (cv_meta st) = t" by (rule plain_entry_chain [OF assms(4)])
  have t: "lookup dp dn (cv_meta st) = None \<or> (\<exists>g. lookup dp dn (cv_meta st) = Some g \<and> type_of g (cv_meta st) = Some IT_file)"
    "lookup dp dn (cv_meta st) \<noteq> Some f" using d(3) assms(5) by (auto split: option.splits)
  obtain st' where r: "cv_rename opts now p q st = (Inr (), st')" "cv_inv opts st'" "resolveIno q st' = Inr f"
    "resolveIno p st' = Inl (KErr ENOENT)"
    and o: "\<And>i n. lookup dp dn (cv_meta st) \<noteq> Some i \<Longrightarrow> node_of (opt_chunkSize opts) st i = Some n \<Longrightarrow>
       node_of (opt_chunkSize opts) st' i = Some n"
    by (rule rename_moves [OF assms(1) c(1,2) d(1,2) c(3) assms(3) t, where now = now]) blast
  obtain x where x: "node_of (opt_chunkSize opts) st f = Some (FileNode x)"
    using assms(3) by (auto simp: type_of_def node_of_def)
  have rd: "fst (cv_readFile opts now' z s) = Inr x"
    if "cv_inv opts s" "resolveIno z s = Inr f" "node_of (opt_chunkSize opts) s f = Some (FileNode x)" for z s
    using readFile_refines(3) [OF that(1), of now' z] that(2,3) by (simp add: spec_file_def abs_fs_def)
  have "fst (cv_readFile opts now' q st') = fst (cv_readFile opts now' p st)"
    using rd [OF r(2,3)] o [OF t(2) x] rd [OF assms(1) resolve_plain(1) [OF c(1,2,3) assms(3)] x] by simp
  moreover have "\<forall>i n. t = Some i \<or> af_node (abs_fs opts st) i \<noteq> Some n \<or> af_node (abs_fs opts st') i = Some n"
    using o d(3) by (simp add: abs_fs_def) blast
  moreover have "cv_exists p st' = Inr False" using r(4) by (simp add: cv_exists_def)
  ultimately show ?thesis using r by blast
qed

theorem rename_keeps_content_witness:
  "\<exists>st'. cv_rename sample_opts 9 ''/d/f'' ''/g'' sample_vfs = (Inr (), st') \<and> cv_exists ''/d/f'' st' = Inr False \<and>
     fst (cv_readFile sample_opts 9 ''/g'' st') = Inr [1, 2, 3, 4, 5, 7, 8]"
proof -
  have "plain_entry (cv_meta sample_vfs) 1 (splitPath (cv_normalizePath ''/d/f'')) = Some (2, Some 3)"
    "type_of 3 (cv_meta sample_vfs) = Some IT_file"
    "plain_entry (cv_meta sample_vfs) 1 (splitPath (cv_normalizePath ''/g'')) = Some (1, Some 5)"
    "case Some (5 :: nat) of None \<Rightarrow> True | Some g \<Rightarrow> g \<noteq> 3 \<and> type_of g (cv_meta sample_vfs) = Some IT_file"
    by code_simp+
  from rename_keeps_content [OF sample_vfs_inv this, of 9 9]
  have "\<exists>st'. cv_rename sample_opts 9 ''/d/f'' ''/g'' sample_vfs = (Inr (), st') \<and> cv_exists ''/d/f'' st' = Inr False \<and>
     fst (cv_readFile sample_opts 9 ''/g'' st') = fst (cv_readFile sample_opts 9 ''/d/f'' sample_vfs)"
    by (elim exE conjE) (intro exI conjI)
  moreover have "fst (cv_readFile sample_opts 9 ''/d/f'' sample_vfs) = Inr [1, 2, 3, 4, 5, 7, 8]" by code_simp
  ultimately show ?thesis by simp
qed

text \<open>
  A version is not immutable: \<open>pwrite\<close> changes the array the block store handed out, which is the
  block of the version too, so restoring the version returns the overwritten bytes.
\<close>

theorem version_corrupted_by_pwrite:
  "let opts = sample_opts\<lparr>opt_writeBuffering := False, opt_versioning := True\<rparr>;
       st1 = snd (cv_writeFile opts 1 ''/f'' [1, 2, 3, 4, 5, 6] (cv_new 0 opts));
       st2 = snd (cv_createVersion opts 2 ''/f'' st1);
       st3 = snd (cv_pwrite opts 3 ''/f'' 3 [9, 9] st2);
       st4 = snd (cv_restoreVersion 4 ''/f'' 1 st3)
   in fst (cv_readFile opts 5 ''/f'' st1) = Inr [1, 2, 3, 4, 5, 6] \<and>
      fst (cv_readFile opts 5 ''/f'' st4) = Inr [1, 2, 3, 9, 9, 6]"
  by code_simp

end
