(* ===== verification/Js_Buffer.thy ===== *)
theory Js_Buffer
  imports Kernel_Effect
begin

section \<open>Node buffers and UTF-8\<close>

text \<open>
  What the binary protocol uses of Node's \<^verbatim>\<open>Buffer\<close>: big-endian integers with their range checks,
  strings in UTF-8 with the replacement character for invalid input, slices with clamped bounds, and
  an index that may be \<^verbatim>\<open>NaN\<close> (an arithmetic on an element past the end), which is \<open>None\<close> here. A
  string is the list of its code points; a surrogate that is not part of a pair is a code point of
  its own.
\<close>

type_synonym ustring = "nat list"

type_synonym jsindex = "nat option"

abbreviation out_of_range :: exn where
  "out_of_range \<equiv> JsErr ''ERR_OUT_OF_RANGE''"

definition bindE :: "'e + 'a \<Rightarrow> ('a \<Rightarrow> 'e + 'b) \<Rightarrow> 'e + 'b" where
  "bindE r f = (case r of Inl e \<Rightarrow> Inl e | Inr x \<Rightarrow> f x)"

lemma bindE_simps [simp]: "bindE (Inl e) f = Inl e" "bindE (Inr x) f = f x"
  by (simp_all add: bindE_def)

lemma bindE_Inr: "bindE r f = Inr y \<longleftrightarrow> (\<exists>x. r = Inr x \<and> f x = Inr y)"
  by (cases r) simp_all

subsection \<open>UTF-8\<close>

definition utf8_cp :: "nat \<Rightarrow> nat list" where
  "utf8_cp c =
     (if c < 0x80 then [c]
      else if c < 0x800 then [0xC0 + c div 64, 0x80 + c mod 64]
      else if 0xD800 \<le> c \<and> c < 0xE000 then [0xEF, 0xBF, 0xBD]
      else if c < 0x10000 then [0xE0 + c div 4096, 0x80 + c div 64 mod 64, 0x80 + c mod 64]
      else [0xF0 + c div 262144, 0x80 + c div 4096 mod 64, 0x80 + c div 64 mod 64, 0x80 + c mod 64])"

definition utf8_encode :: "ustring \<Rightarrow> bytes" where
  "utf8_encode s = map of_nat (concat (map utf8_cp s))"

text \<open>
  The decoder's state is the number of continuation bytes still needed, the range of the next one and
  the bits so far. A byte outside the range ends the sequence with a replacement character and is
  read again from the start state.
\<close>

function utf8_dec :: "nat \<Rightarrow> nat \<Rightarrow> nat \<Rightarrow> nat \<Rightarrow> nat list \<Rightarrow> ustring" where
  "utf8_dec needed lo hi cp [] = (if needed = 0 then [] else [0xFFFD])"
| "utf8_dec needed lo hi cp (b # bs) =
     (if needed = 0 then
        if b < 0x80 then b # utf8_dec 0 0x80 0xBF 0 bs
        else if 0xC2 \<le> b \<and> b \<le> 0xDF then utf8_dec 1 0x80 0xBF (b - 0xC0) bs
        else if 0xE0 \<le> b \<and> b \<le> 0xEF
          then utf8_dec 2 (if b = 0xE0 then 0xA0 else 0x80) (if b = 0xED then 0x9F else 0xBF) (b - 0xE0) bs
        else if 0xF0 \<le> b \<and> b \<le> 0xF4
          then utf8_dec 3 (if b = 0xF0 then 0x90 else 0x80) (if b = 0xF4 then 0x8F else 0xBF) (b - 0xF0) bs
        else 0xFFFD # utf8_dec 0 0x80 0xBF 0 bs
      else if b < lo \<or> hi < b then 0xFFFD # utf8_dec 0 0x80 0xBF 0 (b # bs)
      else if needed = 1 then (cp * 64 + (b - 0x80)) # utf8_dec 0 0x80 0xBF 0 bs
      else utf8_dec (needed - 1) 0x80 0xBF (cp * 64 + (b - 0x80)) bs)"
  by pat_completeness auto
termination
  by (relation "measures [\<lambda>(n, lo, hi, cp, bs). length bs, \<lambda>(n, lo, hi, cp, bs). n]") auto

declare utf8_dec.simps [simp del]

definition utf8_decode :: "bytes \<Rightarrow> ustring" where
  "utf8_decode bs = utf8_dec 0 0x80 0xBF 0 (map unat bs)"

definition scalar :: "nat \<Rightarrow> bool" where
  "scalar c \<longleftrightarrow> c < 0x110000 \<and> \<not> (0xD800 \<le> c \<and> c < 0xE000)"

lemma utf8_cp_bytes: "c < 0x110000 \<Longrightarrow> b \<in> set (utf8_cp c) \<Longrightarrow> b < 256"
  by (auto simp: utf8_cp_def split: if_splits)

lemma div_steps: "(c :: nat) div 64 div 64 = c div 4096" "c div 4096 div 64 = c div 262144"
  by (simp_all add: div_mult2_eq [symmetric])

lemma join6: "(c :: nat) div 64 * 64 + c mod 64 = c"
  by simp

lemma join6_4096: "(c :: nat) div 4096 * 64 + c div 64 mod 64 = c div 64"
  using join6 [of "c div 64"] by (simp add: div_steps)

lemma join6_262144: "(c :: nat) div 262144 * 64 + c div 4096 mod 64 = c div 4096"
  using join6 [of "c div 4096"] by (simp add: div_steps)

text \<open>One byte of a valid sequence.\<close>

lemma utf8_lead:
  "b < 0x80 \<Longrightarrow> utf8_dec 0 lo hi cp (b # bs) = b # utf8_dec 0 0x80 0xBF 0 bs"
  "2 \<le> k \<Longrightarrow> k < 32 \<Longrightarrow> utf8_dec 0 lo hi cp ((0xC0 + k) # bs) = utf8_dec 1 0x80 0xBF k bs"
  "k < 16 \<Longrightarrow> utf8_dec 0 lo hi cp ((0xE0 + k) # bs) =
     utf8_dec 2 (if k = 0 then 0xA0 else 0x80) (if k = 13 then 0x9F else 0xBF) k bs"
  "k \<le> 4 \<Longrightarrow> utf8_dec 0 lo hi cp ((0xF0 + k) # bs) =
     utf8_dec 3 (if k = 0 then 0x90 else 0x80) (if k = 4 then 0x8F else 0xBF) k bs"
  by (simp_all add: utf8_dec.simps(2))

lemma utf8_cont:
  "lo \<le> 0x80 + k \<Longrightarrow> 0x80 + k \<le> hi \<Longrightarrow>
     utf8_dec 1 lo hi cp ((0x80 + k) # bs) = (cp * 64 + k) # utf8_dec 0 0x80 0xBF 0 bs"
  "lo \<le> 0x80 + k \<Longrightarrow> 0x80 + k \<le> hi \<Longrightarrow>
     utf8_dec 2 lo hi cp ((0x80 + k) # bs) = utf8_dec 1 0x80 0xBF (cp * 64 + k) bs"
  "lo \<le> 0x80 + k \<Longrightarrow> 0x80 + k \<le> hi \<Longrightarrow>
     utf8_dec 3 lo hi cp ((0x80 + k) # bs) = utf8_dec 2 0x80 0xBF (cp * 64 + k) bs"
  by (simp_all add: utf8_dec.simps(2))

lemma mod64: "(c :: nat) mod 64 \<le> 63"
  using mod_less_divisor [of 64 c] by simp

lemma utf8_dec_cp:
  assumes "scalar c"
  shows "utf8_dec 0 lo hi cp (utf8_cp c @ bs) = c # utf8_dec 0 0x80 0xBF 0 bs"
proof -
  consider "c < 0x80" | "0x80 \<le> c" "c < 0x800" | "0x800 \<le> c" "c < 0x10000" | "0x10000 \<le> c" "c < 0x110000"
    using assms by (fastforce simp: scalar_def)
  then show ?thesis
  proof cases
    case 1
    then show ?thesis by (simp add: utf8_cp_def utf8_lead)
  next
    case 2
    then have "utf8_cp c = [0xC0 + c div 64, 0x80 + c mod 64]" by (simp add: utf8_cp_def)
    moreover have "2 \<le> c div 64" "c div 64 < 32" using 2 by auto
    ultimately show ?thesis using mod64 [of c] join6 [of c] by (simp only: append.simps utf8_lead utf8_cont)
  next
    case 3
    have r: "c div 4096 < 16" using 3 by auto
    have lo: "c div 4096 = 0 \<Longrightarrow> 0x20 \<le> c div 64 mod 64" using 3 div_steps(1) [of c] by simp
    have hi: "c div 4096 = 13 \<Longrightarrow> c div 64 mod 64 < 0x20"
      using assms 3 div_steps(1) [of c] join6_4096 [of c] by (simp add: scalar_def) linarith
    have eq: "utf8_cp c = [0xE0 + c div 4096, 0x80 + c div 64 mod 64, 0x80 + c mod 64]"
      using 3 assms by (auto simp: utf8_cp_def scalar_def)
    have "utf8_dec 0 lo hi cp (utf8_cp c @ bs) =
        utf8_dec 1 0x80 0xBF (c div 4096 * 64 + c div 64 mod 64) ((0x80 + c mod 64) # bs)"
      unfolding eq append.simps utf8_lead(3) [OF r]
      by (rule utf8_cont(2)) (use lo hi mod64 [of "c div 64"] in auto)
    then show ?thesis using utf8_cont(1) [of "0x80" "c mod 64" "0xBF"] mod64 [of c] by (simp add: join6_4096)
  next
    case 4
    have r: "c div 262144 \<le> 4" using 4 by auto
    have lo: "c div 262144 = 0 \<Longrightarrow> 0x10 \<le> c div 4096 mod 64" using 4 div_steps(2) [of c] by simp
    have hi: "c div 262144 = 4 \<Longrightarrow> c div 4096 mod 64 < 0x10"
      using 4 div_steps(2) [of c] join6_262144 [of c] by simp
    have eq: "utf8_cp c = [0xF0 + c div 262144, 0x80 + c div 4096 mod 64, 0x80 + c div 64 mod 64, 0x80 + c mod 64]"
      using 4 by (simp add: utf8_cp_def)
    have "utf8_dec 0 lo hi cp (utf8_cp c @ bs) =
        utf8_dec 2 0x80 0xBF (c div 262144 * 64 + c div 4096 mod 64) ((0x80 + c div 64 mod 64) # (0x80 + c mod 64) # bs)"
      unfolding eq append.simps utf8_lead(4) [OF r]
      by (rule utf8_cont(3)) (use lo hi mod64 [of "c div 4096"] in auto)
    also have "\<dots> = utf8_dec 1 0x80 0xBF (c div 64) ((0x80 + c mod 64) # bs)"
      using utf8_cont(2) [of "0x80" "c div 64 mod 64" "0xBF"] mod64 [of "c div 64"] by (simp add: join6_262144 join6_4096)
    also have "\<dots> = c # utf8_dec 0 0x80 0xBF 0 bs"
      using utf8_cont(1) [of "0x80" "c mod 64" "0xBF"] mod64 [of c] by simp
    finally show ?thesis .
  qed
qed

lemma utf8_dec_concat:
  "list_all scalar s \<Longrightarrow> utf8_dec 0 lo hi cp (concat (map utf8_cp s)) = s"
proof (induction s arbitrary: lo hi cp)
  case Nil
  then show ?case by (simp add: utf8_dec.simps)
next
  case (Cons c s)
  then show ?case by (simp add: utf8_dec_cp)
qed

lemma utf8_roundtrip: "list_all scalar s \<Longrightarrow> utf8_decode (utf8_encode s) = s"
proof -
  assume s: "list_all scalar s"
  have "b < 256" if "b \<in> set (concat (map utf8_cp s))" for b
    using s that utf8_cp_bytes by (fastforce simp: list_all_iff scalar_def)
  then have "map (\<lambda>b. unat (of_nat b :: byte)) (concat (map utf8_cp s)) = concat (map utf8_cp s)"
    by (intro map_idI) (simp add: unat_of_nat take_bit_nat_def)
  then have "map unat (utf8_encode s) = concat (map utf8_cp s)"
    by (simp add: utf8_encode_def comp_def)
  then show ?thesis using utf8_dec_concat [OF s] by (simp add: utf8_decode_def)
qed


subsection \<open>Integers in buffers\<close>

fun be :: "nat \<Rightarrow> nat \<Rightarrow> bytes" where
  "be 0 v = []"
| "be (Suc k) v = be k (v div 256) @ [of_nat (v mod 256)]"

definition be_val :: "bytes \<Rightarrow> nat" where
  "be_val bs = foldl (\<lambda>a b. a * 256 + unat b) 0 bs"

definition writeUIntBE :: "nat \<Rightarrow> nat \<Rightarrow> exn + bytes" where
  "writeUIntBE k v = (if v < 256 ^ k then Inr (be k v) else Inl out_of_range)"

definition writeInt32BE :: "int \<Rightarrow> exn + bytes" where
  "writeInt32BE v = (if - (2 ^ 31) \<le> v \<and> v < 2 ^ 31 then Inr (be 4 (nat (v mod 2 ^ 32))) else Inl out_of_range)"

text \<open>An element of a buffer, or \<^verbatim>\<open>undefined\<close>; a value stored into one is reduced modulo 256.\<close>

definition buf_at :: "bytes \<Rightarrow> jsindex \<Rightarrow> nat option" where
  "buf_at buf pos = (case pos of None \<Rightarrow> None | Some p \<Rightarrow> if p < length buf then Some (unat (buf ! p)) else None)"

definition toUint8 :: "nat option \<Rightarrow> byte" where
  "toUint8 v = (case v of None \<Rightarrow> 0 | Some n \<Rightarrow> of_nat n)"

definition readUIntBE :: "nat \<Rightarrow> bytes \<Rightarrow> jsindex \<Rightarrow> exn + nat" where
  "readUIntBE k buf pos =
     (case pos of
        None \<Rightarrow> Inl out_of_range
      | Some p \<Rightarrow> if p + k \<le> length buf then Inr (be_val (take k (drop p buf))) else Inl out_of_range)"

definition readInt32BE :: "bytes \<Rightarrow> jsindex \<Rightarrow> exn + int" where
  "readInt32BE buf pos =
     bindE (readUIntBE 4 buf pos) (\<lambda>v. Inr (if v < 2 ^ 31 then int v else int v - 2 ^ 32))"

text \<open>\<^verbatim>\<open>Number(bigint)\<close>: exact below \<open>2 ^ 53\<close>, otherwise the nearest double, ties to even.\<close>

fun bit_length :: "nat \<Rightarrow> nat" where
  "bit_length n = (if n = 0 then 0 else Suc (bit_length (n div 2)))"

declare bit_length.simps [simp del]

definition to_number :: "nat \<Rightarrow> nat" where
  "to_number n =
     (if n < 2 ^ 53 then n
      else (let e = bit_length n - 53; q = n div 2 ^ e; r = n mod 2 ^ e
            in (if 2 * r > 2 ^ e \<or> 2 * r = 2 ^ e \<and> odd q then q + 1 else q) * 2 ^ e))"

subsection \<open>Slices and strings of buffers\<close>

definition idx_add :: "jsindex \<Rightarrow> nat option \<Rightarrow> jsindex" where
  "idx_add pos n = (case pos of None \<Rightarrow> None | Some p \<Rightarrow> map_option (\<lambda>k. p + k) n)"

abbreviation idx_plus :: "jsindex \<Rightarrow> nat \<Rightarrow> jsindex" where
  "idx_plus pos k \<equiv> idx_add pos (Some k)"

definition buf_from :: "bytes \<Rightarrow> jsindex \<Rightarrow> bytes" where
  "buf_from buf start = (case start of None \<Rightarrow> buf | Some p \<Rightarrow> drop p buf)"

definition buf_range :: "bytes \<Rightarrow> jsindex \<Rightarrow> jsindex \<Rightarrow> bytes" where
  "buf_range buf start stop =
     (case stop of
        None \<Rightarrow> []
      | Some e \<Rightarrow> (let p = (case start of None \<Rightarrow> 0 | Some p \<Rightarrow> p) in take (e - p) (drop p buf)))"

lemma length_be [simp]: "length (be k v) = k"
  by (induction k v rule: be.induct) simp_all

lemma be_val_snoc: "be_val (bs @ [b]) = be_val bs * 256 + unat b"
  by (simp add: be_val_def)

lemma be_val_be [simp]: "v < 256 ^ k \<Longrightarrow> be_val (be k v) = v"
proof (induction k v rule: be.induct)
  case (2 k v)
  then have "v div 256 < 256 ^ k" by (simp add: div_less_iff_less_mult mult.commute)
  then show ?case using 2 by (simp add: be_val_snoc unat_of_nat take_bit_nat_def)
qed (simp add: be_val_def)

lemma to_number_exact [simp]: "n < 2 ^ 53 \<Longrightarrow> to_number n = n"
  by (simp add: to_number_def)

lemma idx_simps [simp]: "idx_add (Some p) (Some k) = Some (p + k)" "idx_add None n = None" "idx_add pos None = None"
  by (simp_all add: idx_add_def split: option.split)

text \<open>What lies ahead of a position: every read at it takes a known prefix and moves on.\<close>

definition ahead :: "bytes \<Rightarrow> jsindex \<Rightarrow> bytes \<Rightarrow> bool" where
  "ahead buf pos rest \<longleftrightarrow> (\<exists>p \<le> length buf. pos = Some p \<and> drop p buf = rest)"

lemma aheadI: "ahead (pre @ rest) (Some (length pre)) rest"
  by (simp add: ahead_def)

lemma ahead_skip:
  assumes "ahead buf pos (bs @ rest)" "n = length bs" shows "ahead buf (idx_plus pos n) rest"
proof -
  obtain p where p: "p \<le> length buf" "pos = Some p" "drop p buf = bs @ rest" using assms(1) by (auto simp: ahead_def)
  have "length buf = p + length (bs @ rest)" using p(1) arg_cong [OF p(3), of length] by simp
  moreover have "drop (p + n) buf = rest" using arg_cong [OF p(3), of "drop n"] assms(2) by (simp add: add.commute)
  ultimately show ?thesis using p(2) assms(2) by (simp add: ahead_def)
qed

lemma ahead_byte:
  assumes "ahead buf pos (b # rest)" shows "buf_at buf pos = Some (unat b)"
proof -
  obtain p where p: "p \<le> length buf" "pos = Some p" "drop p buf = b # rest" using assms by (auto simp: ahead_def)
  have "p < length buf" using p(1) arg_cong [OF p(3), of length] by simp
  then show ?thesis using nth_via_drop [OF p(3)] p(2) by (simp add: buf_at_def)
qed

lemma ahead_next: "ahead buf pos (b # rest) \<Longrightarrow> ahead buf (idx_plus pos 1) rest"
  using ahead_skip [of buf pos "[b]" rest 1] by simp

lemma ahead_uint:
  assumes "ahead buf pos (be k v @ rest)" "v < 256 ^ k"
  shows "readUIntBE k buf pos = Inr v" "ahead buf (idx_plus pos k) rest"
proof -
  obtain p where p: "p \<le> length buf" "pos = Some p" "drop p buf = be k v @ rest" using assms(1) by (auto simp: ahead_def)
  have "p + k \<le> length buf" using p(1) arg_cong [OF p(3), of length] by simp
  then show "readUIntBE k buf pos = Inr v" using p(2,3) assms(2) by (simp add: readUIntBE_def)
  show "ahead buf (idx_plus pos k) rest" by (rule ahead_skip [OF assms(1)]) simp
qed

lemma ahead_range: "ahead buf pos (bs @ rest) \<Longrightarrow> n = length bs \<Longrightarrow> buf_range buf pos (idx_plus pos n) = bs"
  by (auto simp: ahead_def buf_range_def)

lemma ahead_rest: "ahead buf pos rest \<Longrightarrow> buf_from buf pos = rest"
  by (auto simp: ahead_def buf_from_def)

lemma ahead_int32:
  assumes "ahead buf pos (be 4 (nat (v mod 2 ^ 32)) @ rest)" "- (2 ^ 31) \<le> v" "v < 2 ^ 31"
  shows "readInt32BE buf pos = Inr v" "ahead buf (idx_plus pos 4) rest"
proof -
  have l: "nat (v mod 2 ^ 32) < 256 ^ 4" by (simp add: nat_less_iff)
  note r = ahead_uint [OF assms(1) l]
  show "ahead buf (idx_plus pos 4) rest" by (rule r(2))
  have "(v + 2 ^ 32) mod 2 ^ 32 = v mod 2 ^ 32" by simp
  then have "v mod 2 ^ 32 = (if v < 0 then v + 2 ^ 32 else v)"
    using assms mod_pos_pos_trivial [of "v + 2 ^ 32" "2 ^ 32"] mod_pos_pos_trivial [of v "2 ^ 32"] by simp
  then show "readInt32BE buf pos = Inr v" using assms(2,3) r(1) by (auto simp: readInt32BE_def)
qed

end
