(* ===== verification/Ipc_Binary.thy ===== *)
theory Ipc_Binary
  imports Js_Buffer
begin

section \<open>The binary protocol between host and V8 runtime\<close>

text \<open>
  \<^verbatim>\<open>packages/v8/src/ipc-binary.ts\<close>: frames of thirteen kinds, their encoding with a length prefix and
  their decoding. Strings are lists of code points, payloads are bytes, integers are natural numbers
  (\<^verbatim>\<open>exitCode\<close> an integer). The numeric bytes \<^verbatim>\<open>mode\<close>, \<^verbatim>\<open>status\<close> and \<^verbatim>\<open>channel\<close> are optional: decoding a
  truncated frame stores \<^verbatim>\<open>undefined\<close> in them. Messages of thrown errors are shortened.
\<close>

definition MAX_FRAME_SIZE :: nat where "MAX_FRAME_SIZE = 64 * 1024 * 1024"

definition MSG_AUTHENTICATE :: nat where "MSG_AUTHENTICATE = 0x01"
definition MSG_CREATE_SESSION :: nat where "MSG_CREATE_SESSION = 0x02"
definition MSG_DESTROY_SESSION :: nat where "MSG_DESTROY_SESSION = 0x03"
definition MSG_INJECT_GLOBALS :: nat where "MSG_INJECT_GLOBALS = 0x04"
definition MSG_EXECUTE :: nat where "MSG_EXECUTE = 0x05"
definition MSG_BRIDGE_RESPONSE :: nat where "MSG_BRIDGE_RESPONSE = 0x06"
definition MSG_STREAM_EVENT :: nat where "MSG_STREAM_EVENT = 0x07"
definition MSG_TERMINATE_EXECUTION :: nat where "MSG_TERMINATE_EXECUTION = 0x08"
definition MSG_WARM_SNAPSHOT :: nat where "MSG_WARM_SNAPSHOT = 0x09"
definition MSG_BRIDGE_CALL :: nat where "MSG_BRIDGE_CALL = 0x81"
definition MSG_EXECUTION_RESULT :: nat where "MSG_EXECUTION_RESULT = 0x82"
definition MSG_LOG :: nat where "MSG_LOG = 0x83"
definition MSG_STREAM_CALLBACK :: nat where "MSG_STREAM_CALLBACK = 0x84"

definition FLAG_HAS_EXPORTS :: nat where "FLAG_HAS_EXPORTS = 0x01"
definition FLAG_HAS_ERROR :: nat where "FLAG_HAS_ERROR = 0x02"

record ExecutionErrorBin =
  eb_errorType :: ustring
  eb_message :: ustring
  eb_stack :: ustring
  eb_code :: ustring

datatype BinaryFrame =
    Authenticate ustring
  | CreateSession ustring nat nat
  | DestroySession ustring
  | InjectGlobals ustring bytes
  | Execute ustring "nat option" ustring ustring ustring ustring
  | BridgeResponse ustring nat "nat option" bytes
  | StreamEvent ustring ustring bytes
  | TerminateExecution ustring
  | WarmSnapshot ustring
  | BridgeCall ustring nat ustring bytes
  | ExecutionResult ustring int "bytes option" "ExecutionErrorBin option"
  | Log ustring "nat option" ustring
  | StreamCallback ustring ustring bytes

subsection \<open>Encoding\<close>

definition encodeSessionId :: "ustring \<Rightarrow> exn + bytes" where
  "encodeSessionId sid =
     (let bs = utf8_encode sid
      in if 255 < length bs then Inl (JsErr ''Session ID too long'') else Inr (of_nat (length bs) # bs))"

definition writeLenPrefixedU16 :: "ustring \<Rightarrow> exn + bytes" where
  "writeLenPrefixedU16 s =
     (let bs = utf8_encode s
      in if 0xFFFF < length bs then Inl (JsErr ''String too long'')
         else bindE (writeUIntBE 2 (length bs)) (\<lambda>l. Inr (l @ bs)))"

text \<open>A length prefix of \<open>k\<close> bytes written by \<^verbatim>\<open>writeUInt16BE\<close> or \<^verbatim>\<open>writeUInt32BE\<close>, and the bytes.\<close>

definition prefixed :: "nat \<Rightarrow> bytes \<Rightarrow> exn + bytes" where
  "prefixed k bs = bindE (writeUIntBE k (length bs)) (\<lambda>l. Inr (l @ bs))"

definition tagged :: "nat \<Rightarrow> ustring \<Rightarrow> (bytes \<Rightarrow> exn + bytes) \<Rightarrow> exn + bytes" where
  "tagged msg sid rest = bindE (encodeSessionId sid) (\<lambda>s. rest (of_nat msg # s))"

definition encodeError :: "ExecutionErrorBin \<Rightarrow> exn + bytes" where
  "encodeError e =
     bindE (writeLenPrefixedU16 (eb_errorType e)) (\<lambda>a.
     bindE (writeLenPrefixedU16 (eb_message e)) (\<lambda>b.
     bindE (writeLenPrefixedU16 (eb_stack e)) (\<lambda>c.
     bindE (writeLenPrefixedU16 (eb_code e)) (\<lambda>d. Inr (a @ b @ c @ d)))))"

fun encodeBody :: "BinaryFrame \<Rightarrow> exn + bytes" where
  "encodeBody (Authenticate token) = Inr (of_nat MSG_AUTHENTICATE # 0 # utf8_encode token)"
| "encodeBody (CreateSession sid heapLimitMb cpuTimeLimitMs) =
     tagged MSG_CREATE_SESSION sid (\<lambda>h.
     bindE (writeUIntBE 4 heapLimitMb) (\<lambda>a.
     bindE (writeUIntBE 4 cpuTimeLimitMs) (\<lambda>b. Inr (h @ a @ b))))"
| "encodeBody (DestroySession sid) = tagged MSG_DESTROY_SESSION sid (\<lambda>h. Inr h)"
| "encodeBody (InjectGlobals sid payload) = tagged MSG_INJECT_GLOBALS sid (\<lambda>h. Inr (h @ payload))"
| "encodeBody (Execute sid mode filePath bridgeCode postRestoreScript userCode) =
     tagged MSG_EXECUTE sid (\<lambda>h.
     bindE (prefixed 2 (utf8_encode filePath)) (\<lambda>fp.
     bindE (prefixed 4 (utf8_encode bridgeCode)) (\<lambda>bc.
     bindE (prefixed 4 (utf8_encode postRestoreScript)) (\<lambda>prs.
     Inr (h @ toUint8 mode # fp @ bc @ prs @ utf8_encode userCode)))))"
| "encodeBody (BridgeResponse sid callId status payload) =
     tagged MSG_BRIDGE_RESPONSE sid (\<lambda>h.
     bindE (writeUIntBE 8 callId) (\<lambda>c. Inr (h @ c @ toUint8 status # payload)))"
| "encodeBody (StreamEvent sid eventType payload) =
     tagged MSG_STREAM_EVENT sid (\<lambda>h.
     bindE (prefixed 2 (utf8_encode eventType)) (\<lambda>et. Inr (h @ et @ payload)))"
| "encodeBody (TerminateExecution sid) = tagged MSG_TERMINATE_EXECUTION sid (\<lambda>h. Inr h)"
| "encodeBody (WarmSnapshot bridgeCode) =
     bindE (prefixed 4 (utf8_encode bridgeCode)) (\<lambda>bc. Inr (of_nat MSG_WARM_SNAPSHOT # 0 # bc))"
| "encodeBody (BridgeCall sid callId meth payload) =
     tagged MSG_BRIDGE_CALL sid (\<lambda>h.
     bindE (writeUIntBE 8 callId) (\<lambda>c.
     bindE (prefixed 2 (utf8_encode meth)) (\<lambda>mt. Inr (h @ c @ mt @ payload))))"
| "encodeBody (ExecutionResult sid exitCode exports error) =
     tagged MSG_EXECUTION_RESULT sid (\<lambda>h.
     bindE (writeInt32BE exitCode) (\<lambda>ec.
     let flags = (if exports \<noteq> None then FLAG_HAS_EXPORTS else 0) + (if error \<noteq> None then FLAG_HAS_ERROR else 0) in
     bindE (case exports of None \<Rightarrow> Inr [] | Some x \<Rightarrow> prefixed 4 x) (\<lambda>ex.
     bindE (case error of None \<Rightarrow> Inr [] | Some e \<Rightarrow> encodeError e) (\<lambda>er.
     Inr (h @ ec @ of_nat flags # ex @ er)))))"
| "encodeBody (Log sid channel message) =
     tagged MSG_LOG sid (\<lambda>h. Inr (h @ toUint8 channel # utf8_encode message))"
| "encodeBody (StreamCallback sid callbackType payload) =
     tagged MSG_STREAM_CALLBACK sid (\<lambda>h.
     bindE (prefixed 2 (utf8_encode callbackType)) (\<lambda>ct. Inr (h @ ct @ payload)))"

definition encodeFrame :: "BinaryFrame \<Rightarrow> exn + bytes" where
  "encodeFrame frame =
     bindE (encodeBody frame) (\<lambda>body.
       if MAX_FRAME_SIZE < length body then Inl (JsErr ''Frame too large'')
       else bindE (writeUIntBE 4 (length body)) (\<lambda>l. Inr (l @ body)))"

subsection \<open>Decoding\<close>

definition readString :: "bytes \<Rightarrow> jsindex \<Rightarrow> nat \<Rightarrow> ustring" where
  "readString buf pos len = utf8_decode (buf_range buf pos (idx_plus pos len))"

definition readLenPrefixedU16 :: "bytes \<Rightarrow> jsindex \<Rightarrow> exn + (ustring \<times> nat)" where
  "readLenPrefixedU16 buf pos =
     bindE (readUIntBE 2 buf pos) (\<lambda>len. Inr (readString buf (idx_plus pos 2) len, 2 + len))"

definition decodeError :: "bytes \<Rightarrow> jsindex \<Rightarrow> exn + ExecutionErrorBin" where
  "decodeError buf pos =
     bindE (readLenPrefixedU16 buf pos) (\<lambda>(et, n1). let pos1 = idx_plus pos n1 in
     bindE (readLenPrefixedU16 buf pos1) (\<lambda>(ms, n2). let pos2 = idx_plus pos1 n2 in
     bindE (readLenPrefixedU16 buf pos2) (\<lambda>(sk, n3). let pos3 = idx_plus pos2 n3 in
     bindE (readLenPrefixedU16 buf pos3) (\<lambda>(cd, n4).
     Inr \<lparr>eb_errorType = et, eb_message = ms, eb_stack = sk, eb_code = cd\<rparr>))))"

text \<open>\<^verbatim>\<open>flags & FLAG\<close> with \<^verbatim>\<open>undefined & FLAG\<close> zero.\<close>

definition has_flag :: "nat option \<Rightarrow> nat \<Rightarrow> bool" where
  "has_flag flags f = (case flags of None \<Rightarrow> False | Some v \<Rightarrow> (of_nat v AND of_nat f :: u32) \<noteq> 0)"

definition decodeResult :: "bytes \<Rightarrow> jsindex \<Rightarrow> ustring \<Rightarrow> exn + BinaryFrame" where
  "decodeResult buf pos sessionId =
     bindE (readInt32BE buf pos) (\<lambda>exitCode.
     let pos1 = idx_plus pos 4; flags = buf_at buf pos1; pos2 = idx_plus pos1 1 in
     bindE (if has_flag flags FLAG_HAS_EXPORTS
            then bindE (readUIntBE 4 buf pos2) (\<lambda>expLen. let p = idx_plus pos2 4 in
              Inr (Some (buf_range buf p (idx_plus p expLen)), idx_plus p expLen))
            else Inr (None, pos2)) (\<lambda>(exports, pos3).
     bindE (if has_flag flags FLAG_HAS_ERROR
            then bindE (decodeError buf pos3) (\<lambda>e. Inr (Some e)) else Inr None) (\<lambda>error.
     Inr (ExecutionResult sessionId exitCode exports error))))"

text \<open>The \<^verbatim>\<open>switch\<close> on the message type, at the position after the session id.\<close>

definition decodeFields :: "bytes \<Rightarrow> nat \<Rightarrow> ustring \<Rightarrow> jsindex \<Rightarrow> exn + BinaryFrame" where
  "decodeFields buf msgType sessionId pos =
     (if msgType = MSG_AUTHENTICATE then Inr (Authenticate (utf8_decode (buf_from buf pos)))
      else if msgType = MSG_CREATE_SESSION then
        bindE (readUIntBE 4 buf pos) (\<lambda>heapLimitMb.
        bindE (readUIntBE 4 buf (idx_plus pos 4)) (\<lambda>cpuTimeLimitMs.
        Inr (CreateSession sessionId heapLimitMb cpuTimeLimitMs)))
      else if msgType = MSG_DESTROY_SESSION then Inr (DestroySession sessionId)
      else if msgType = MSG_INJECT_GLOBALS then Inr (InjectGlobals sessionId (buf_from buf pos))
      else if msgType = MSG_EXECUTE then
        (let mode = buf_at buf pos; pos1 = idx_plus pos 1 in
        bindE (readUIntBE 2 buf pos1) (\<lambda>fpLen. let pos2 = idx_plus pos1 2; pos3 = idx_plus pos2 fpLen in
        bindE (readUIntBE 4 buf pos3) (\<lambda>bcLen. let pos4 = idx_plus pos3 4; pos5 = idx_plus pos4 bcLen in
        bindE (readUIntBE 4 buf pos5) (\<lambda>prsLen. let pos6 = idx_plus pos5 4; pos7 = idx_plus pos6 prsLen in
        Inr (Execute sessionId mode (readString buf pos2 fpLen) (readString buf pos4 bcLen)
          (readString buf pos6 prsLen) (utf8_decode (buf_from buf pos7)))))))
      else if msgType = MSG_BRIDGE_RESPONSE then
        bindE (readUIntBE 8 buf pos) (\<lambda>callId. let pos1 = idx_plus pos 8 in
        Inr (BridgeResponse sessionId (to_number callId) (buf_at buf pos1) (buf_from buf (idx_plus pos1 1))))
      else if msgType = MSG_STREAM_EVENT then
        bindE (readUIntBE 2 buf pos) (\<lambda>etLen. let pos1 = idx_plus pos 2 in
        Inr (StreamEvent sessionId (readString buf pos1 etLen) (buf_from buf (idx_plus pos1 etLen))))
      else if msgType = MSG_TERMINATE_EXECUTION then Inr (TerminateExecution sessionId)
      else if msgType = MSG_WARM_SNAPSHOT then
        bindE (readUIntBE 4 buf pos) (\<lambda>bcLen. Inr (WarmSnapshot (readString buf (idx_plus pos 4) bcLen)))
      else if msgType = MSG_BRIDGE_CALL then
        bindE (readUIntBE 8 buf pos) (\<lambda>callId. let pos1 = idx_plus pos 8 in
        bindE (readUIntBE 2 buf pos1) (\<lambda>mLen. let pos2 = idx_plus pos1 2 in
        Inr (BridgeCall sessionId (to_number callId) (readString buf pos2 mLen) (buf_from buf (idx_plus pos2 mLen)))))
      else if msgType = MSG_EXECUTION_RESULT then decodeResult buf pos sessionId
      else if msgType = MSG_LOG then
        Inr (Log sessionId (buf_at buf pos) (utf8_decode (buf_from buf (idx_plus pos 1))))
      else if msgType = MSG_STREAM_CALLBACK then
        bindE (readUIntBE 2 buf pos) (\<lambda>ctLen. let pos1 = idx_plus pos 2 in
        Inr (StreamCallback sessionId (readString buf pos1 ctLen) (buf_from buf (idx_plus pos1 ctLen))))
      else Inl (JsErr ''Unknown message type''))"

definition decodeFrame :: "bytes \<Rightarrow> exn + BinaryFrame" where
  "decodeFrame buf =
     (if length buf = 0 then Inl (JsErr ''Empty frame'')
      else (let sidLen = buf_at buf (Some 1);
                pos = idx_add (Some 2) sidLen;
                sessionId = utf8_decode (buf_range buf (Some 2) pos)
            in decodeFields buf (unat (buf ! 0)) sessionId pos))"

definition extractSessionId :: "bytes \<Rightarrow> exn + ustring option" where
  "extractSessionId raw =
     (if length raw < 2 then Inl (JsErr ''Frame too short'')
      else if unat (raw ! 0) = MSG_AUTHENTICATE \<or> unat (raw ! 0) = MSG_WARM_SNAPSHOT then Inr None
      else (let sidLen = unat (raw ! 1)
            in if length raw < 2 + sidLen then Inl (JsErr ''Frame too short for session_id'')
               else Inr (Some (utf8_decode (buf_range raw (Some 2) (Some (2 + sidLen)))))))"


subsection \<open>Decoding inverts encoding\<close>

definition wf_string :: "ustring \<Rightarrow> bool" where
  "wf_string s = list_all scalar s"

definition wf_byte :: "nat option \<Rightarrow> bool" where
  "wf_byte v = (case v of None \<Rightarrow> False | Some n \<Rightarrow> n < 256)"

fun wf_frame :: "BinaryFrame \<Rightarrow> bool" where
  "wf_frame (Authenticate token) = wf_string token"
| "wf_frame (CreateSession sid h c) = wf_string sid"
| "wf_frame (DestroySession sid) = wf_string sid"
| "wf_frame (InjectGlobals sid pl) = wf_string sid"
| "wf_frame (Execute sid mode fp bc prs uc) =
     (wf_string sid \<and> wf_byte mode \<and> wf_string fp \<and> wf_string bc \<and> wf_string prs \<and> wf_string uc)"
| "wf_frame (BridgeResponse sid callId status pl) = (wf_string sid \<and> callId < 2 ^ 53 \<and> wf_byte status)"
| "wf_frame (StreamEvent sid et pl) = (wf_string sid \<and> wf_string et)"
| "wf_frame (TerminateExecution sid) = wf_string sid"
| "wf_frame (WarmSnapshot bc) = wf_string bc"
| "wf_frame (BridgeCall sid callId m pl) = (wf_string sid \<and> callId < 2 ^ 53 \<and> wf_string m)"
| "wf_frame (ExecutionResult sid ec ex er) = (wf_string sid \<and>
     (case er of None \<Rightarrow> True
      | Some e \<Rightarrow> wf_string (eb_errorType e) \<and> wf_string (eb_message e) \<and> wf_string (eb_stack e) \<and> wf_string (eb_code e)))"
| "wf_frame (Log sid ch msg) = (wf_string sid \<and> wf_byte ch \<and> wf_string msg)"
| "wf_frame (StreamCallback sid ct pl) = (wf_string sid \<and> wf_string ct)"

lemma wf_string_decode: "wf_string s \<Longrightarrow> utf8_decode (utf8_encode s) = s"
  by (simp add: wf_string_def utf8_roundtrip)

lemma wf_byte_stored: "wf_byte v \<Longrightarrow> Some (unat (toUint8 v)) = v"
  by (auto simp: wf_byte_def toUint8_def unat_of_nat take_bit_nat_def split: option.splits)

lemma prefixed_Inr: "prefixed k bs = Inr r \<longleftrightarrow> length bs < 256 ^ k \<and> r = be k (length bs) @ bs"
  by (auto simp: prefixed_def writeUIntBE_def)

lemma writeLenPrefixedU16_Inr:
  "writeLenPrefixedU16 s = Inr r \<longleftrightarrow> length (utf8_encode s) < 256 ^ 2 \<and> r = be 2 (length (utf8_encode s)) @ utf8_encode s"
  by (auto simp: writeLenPrefixedU16_def writeUIntBE_def Let_def)

lemma writeUIntBE_Inr: "writeUIntBE k v = Inr r \<longleftrightarrow> v < 256 ^ k \<and> r = be k v"
  by (auto simp: writeUIntBE_def)

lemma tagged_Inr:
  "tagged msg sid f = Inr r \<longleftrightarrow> length (utf8_encode sid) \<le> 255 \<and>
     f (of_nat msg # of_nat (length (utf8_encode sid)) # utf8_encode sid) = Inr r"
  by (auto simp: tagged_def encodeSessionId_def Let_def)

text \<open>The header: the type, the session id, and where the fields begin.\<close>

lemma decode_header:
  assumes "msg < 256" "length s \<le> 255"
  shows "decodeFrame (of_nat msg # of_nat (length s) # s @ rest) =
      decodeFields (of_nat msg # of_nat (length s) # s @ rest) msg (utf8_decode s) (Some (2 + length s))"
    and "ahead (of_nat msg # of_nat (length s) # s @ rest) (Some (2 + length s)) rest"
proof -
  let ?b = "of_nat msg # of_nat (length s) # s @ rest :: bytes"
  have u: "unat (of_nat msg :: byte) = msg" "unat (of_nat (length s) :: byte) = length s"
    using assms by (simp_all add: unat_of_nat take_bit_nat_def)
  have "buf_at ?b (Some 1) = Some (length s)" using u by (simp add: buf_at_def)
  moreover have "buf_range ?b (Some 2) (Some (2 + length s)) = s" by (simp add: buf_range_def)
  ultimately show "decodeFrame ?b = decodeFields ?b msg (utf8_decode s) (Some (2 + length s))"
    using u by (simp add: decodeFrame_def Let_def)
  show "ahead ?b (Some (2 + length s)) rest"
    using aheadI [of "of_nat msg # of_nat (length s) # s" rest] by simp
qed

lemma readString_ahead:
  "ahead buf pos (utf8_encode s @ rest) \<Longrightarrow> wf_string s \<Longrightarrow> n = length (utf8_encode s) \<Longrightarrow> readString buf pos n = s"
  by (simp add: readString_def ahead_range wf_string_decode)

lemma readLen_ahead:
  assumes "ahead buf pos (be 2 (length (utf8_encode s)) @ utf8_encode s @ rest)" "length (utf8_encode s) < 256 ^ 2" "wf_string s"
  shows "readLenPrefixedU16 buf pos = Inr (s, 2 + length (utf8_encode s))"
    "ahead buf (idx_plus pos (2 + length (utf8_encode s))) rest"
proof -
  note r = ahead_uint [OF assms(1,2)]
  show "readLenPrefixedU16 buf pos = Inr (s, 2 + length (utf8_encode s))"
    using r readString_ahead [OF r(2) assms(3)] by (simp add: readLenPrefixedU16_def)
  show "ahead buf (idx_plus pos (2 + length (utf8_encode s))) rest"
    using ahead_skip [of buf pos "be 2 (length (utf8_encode s)) @ utf8_encode s" rest] assms(1) by simp
qed

lemma decodeError_ahead:
  assumes "encodeError e = Inr bs" "ahead buf pos (bs @ rest)"
    and "wf_string (eb_errorType e)" "wf_string (eb_message e)" "wf_string (eb_stack e)" "wf_string (eb_code e)"
  shows "decodeError buf pos = Inr e"
proof -
  let ?l = "\<lambda>s. be 2 (length (utf8_encode s)) @ utf8_encode s"
  have b: "bs = ?l (eb_errorType e) @ ?l (eb_message e) @ ?l (eb_stack e) @ ?l (eb_code e)"
    and l: "length (utf8_encode (eb_errorType e)) < 256 ^ 2" "length (utf8_encode (eb_message e)) < 256 ^ 2"
      "length (utf8_encode (eb_stack e)) < 256 ^ 2" "length (utf8_encode (eb_code e)) < 256 ^ 2"
    using assms(1) by (auto simp: encodeError_def bindE_Inr writeLenPrefixedU16_Inr)
  note r1 = readLen_ahead [OF assms(2) [unfolded b append_assoc] l(1) assms(3)]
  note r2 = readLen_ahead [OF r1(2) l(2) assms(4)]
  note r3 = readLen_ahead [OF r2(2) l(3) assms(5)]
  note r4 = readLen_ahead [OF r3(2) l(4) assms(6)]
  note r = r1(1) r2(1) r3(1) r4(1)
  show ?thesis by (simp add: decodeError_def Let_def r bindE_def del: add_2_eq_Suc add_2_eq_Suc')
qed


lemmas msg_defs = MSG_AUTHENTICATE_def MSG_CREATE_SESSION_def MSG_DESTROY_SESSION_def MSG_INJECT_GLOBALS_def
  MSG_EXECUTE_def MSG_BRIDGE_RESPONSE_def MSG_STREAM_EVENT_def MSG_TERMINATE_EXECUTION_def MSG_WARM_SNAPSHOT_def
  MSG_BRIDGE_CALL_def MSG_EXECUTION_RESULT_def MSG_LOG_def MSG_STREAM_CALLBACK_def

text \<open>A prefixed field: its length, its bytes, and what comes after it.\<close>

lemma ahead_prefixed:
  assumes "ahead buf pos (be k (length bs) @ bs @ rest)" "length bs < 256 ^ k"
  shows "readUIntBE k buf pos = Inr (length bs)"
    "buf_range buf (idx_plus pos k) (idx_plus (idx_plus pos k) (length bs)) = bs"
    "ahead buf (idx_plus (idx_plus pos k) (length bs)) rest"
proof -
  note r = ahead_uint [OF assms]
  show "readUIntBE k buf pos = Inr (length bs)" by (rule r(1))
  show "buf_range buf (idx_plus pos k) (idx_plus (idx_plus pos k) (length bs)) = bs" using ahead_range [OF r(2)] by simp
  show "ahead buf (idx_plus (idx_plus pos k) (length bs)) rest" using ahead_skip [OF r(2)] by simp
qed

lemma ahead_string:
  assumes "ahead buf pos (be k (length (utf8_encode s)) @ utf8_encode s @ rest)"
    "length (utf8_encode s) < 256 ^ k" "wf_string s"
  shows "readUIntBE k buf pos = Inr (length (utf8_encode s))"
    "readString buf (idx_plus pos k) (length (utf8_encode s)) = s"
    "ahead buf (idx_plus (idx_plus pos k) (length (utf8_encode s))) rest"
  using ahead_prefixed [OF assms(1,2)] assms(3) by (simp_all add: readString_def wf_string_decode)

lemma decodeFields_CreateSession:
  assumes "ahead buf pos (be 4 h @ be 4 c)" "h < 256 ^ 4" "c < 256 ^ 4"
  shows "decodeFields buf MSG_CREATE_SESSION sid pos = Inr (CreateSession sid h c)"
proof -
  note a = ahead_uint [OF assms(1,2)]
  have "readUIntBE 4 buf (idx_plus pos 4) = Inr c" by (rule ahead_uint(1) [of _ _ _ _ "[]"]) (use a(2) assms(3) in simp_all)
  then show ?thesis using a(1) by (simp add: decodeFields_def msg_defs)
qed

lemma decodeFields_Execute:
  assumes "ahead buf pos (toUint8 mode # be 2 (length (utf8_encode fp)) @ utf8_encode fp @
      be 4 (length (utf8_encode bc)) @ utf8_encode bc @ be 4 (length (utf8_encode prs)) @ utf8_encode prs @ utf8_encode uc)"
    and "length (utf8_encode fp) < 256 ^ 2" "length (utf8_encode bc) < 256 ^ 4" "length (utf8_encode prs) < 256 ^ 4"
    and "wf_byte mode" "wf_string fp" "wf_string bc" "wf_string prs" "wf_string uc"
  shows "decodeFields buf MSG_EXECUTE sid pos = Inr (Execute sid mode fp bc prs uc)"
proof -
  note m = ahead_byte [OF assms(1)] ahead_next [OF assms(1)]
  note f = ahead_string [OF m(2) assms(2,6)]
  note b = ahead_string [OF f(3) assms(3,7)]
  note q = ahead_string [OF b(3) assms(4,8)]
  show ?thesis using m(1) f(1,2) b(1,2) q(1,2) ahead_rest [OF q(3)] wf_byte_stored [OF assms(5)] wf_string_decode [OF assms(9)]
    by (simp add: decodeFields_def msg_defs Let_def)
qed

lemma decodeFields_BridgeResponse:
  assumes "ahead buf pos (be 8 c @ toUint8 st # pl)" "c < 2 ^ 53" "wf_byte st"
  shows "decodeFields buf MSG_BRIDGE_RESPONSE sid pos = Inr (BridgeResponse sid c st pl)"
proof -
  have "c < 256 ^ 8" using assms(2) by simp
  note c = ahead_uint [OF assms(1) this]
  show ?thesis using c(1) assms(2) ahead_byte [OF c(2)] ahead_rest [OF ahead_next [OF c(2)]] wf_byte_stored [OF assms(3)]
    by (simp add: decodeFields_def msg_defs Let_def)
qed

lemma decodeFields_BridgeCall:
  assumes "ahead buf pos (be 8 c @ be 2 (length (utf8_encode m)) @ utf8_encode m @ pl)"
    and "c < 2 ^ 53" "length (utf8_encode m) < 256 ^ 2" "wf_string m"
  shows "decodeFields buf MSG_BRIDGE_CALL sid pos = Inr (BridgeCall sid c m pl)"
proof -
  have "c < 256 ^ 8" using assms(2) by simp
  note c = ahead_uint [OF assms(1) this]
  note m = ahead_string [OF c(2) assms(3,4)]
  show ?thesis using c(1) assms(2) m(1,2) ahead_rest [OF m(3)] by (simp add: decodeFields_def msg_defs Let_def)
qed

lemma decodeFields_StreamEvent:
  assumes "ahead buf pos (be 2 (length (utf8_encode m)) @ utf8_encode m @ pl)" "length (utf8_encode m) < 256 ^ 2" "wf_string m"
  shows "decodeFields buf MSG_STREAM_EVENT sid pos = Inr (StreamEvent sid m pl)"
    "decodeFields buf MSG_STREAM_CALLBACK sid pos = Inr (StreamCallback sid m pl)"
  using ahead_string [OF assms] ahead_rest [OF ahead_string(3) [OF assms]]
  by (simp_all add: decodeFields_def msg_defs Let_def)

lemma decodeFields_WarmSnapshot:
  assumes "ahead buf pos (be 4 (length (utf8_encode m)) @ utf8_encode m)" "length (utf8_encode m) < 256 ^ 4" "wf_string m"
  shows "decodeFields buf MSG_WARM_SNAPSHOT sid pos = Inr (WarmSnapshot m)"
  using ahead_string [of buf pos 4 m "[]"] assms by (simp add: decodeFields_def msg_defs)

lemma decodeFields_Log:
  assumes "ahead buf pos (toUint8 ch # utf8_encode m)" "wf_byte ch" "wf_string m"
  shows "decodeFields buf MSG_LOG sid pos = Inr (Log sid ch m)"
  using ahead_byte [OF assms(1)] ahead_rest [OF ahead_next [OF assms(1)]] wf_byte_stored [OF assms(2)] wf_string_decode [OF assms(3)]
  by (simp add: decodeFields_def msg_defs)

lemma flags_read:
  "has_flag (Some (unat (of_nat ((if x then FLAG_HAS_EXPORTS else 0) + (if e then FLAG_HAS_ERROR else 0)) :: byte))) FLAG_HAS_EXPORTS = x"
  "has_flag (Some (unat (of_nat ((if x then FLAG_HAS_EXPORTS else 0) + (if e then FLAG_HAS_ERROR else 0)) :: byte))) FLAG_HAS_ERROR = e"
  by (cases x; cases e; simp add: has_flag_def FLAG_HAS_EXPORTS_def FLAG_HAS_ERROR_def)+


lemma writeInt32BE_Inr:
  "writeInt32BE v = Inr r \<longleftrightarrow> - (2 ^ 31) \<le> v \<and> v < 2 ^ 31 \<and> r = be 4 (nat (v mod 2 ^ 32))"
  by (auto simp: writeInt32BE_def)

lemma decodeFields_ExecutionResult:
  assumes "ahead buf pos (be 4 (nat (ec mod 2 ^ 32)) @
      of_nat ((if ex \<noteq> None then FLAG_HAS_EXPORTS else 0) + (if er \<noteq> None then FLAG_HAS_ERROR else 0)) # xs @ es)"
    and "- (2 ^ 31) \<le> ec" "ec < 2 ^ 31"
    and x: "(case ex of None \<Rightarrow> Inr [] | Some b \<Rightarrow> prefixed 4 b) = Inr xs"
    and e: "(case er of None \<Rightarrow> Inr [] | Some b \<Rightarrow> encodeError b) = Inr es"
    and w: "wf_frame (ExecutionResult sid ec ex er)"
  shows "decodeFields buf MSG_EXECUTION_RESULT sid pos = Inr (ExecutionResult sid ec ex er)"
proof -
  note c = ahead_int32 [OF assms(1-3)]
  note fl = ahead_byte [OF c(2)] ahead_next [OF c(2)]
  have g: "has_flag (buf_at buf (idx_plus pos 4)) FLAG_HAS_EXPORTS = (ex \<noteq> None)"
    "has_flag (buf_at buf (idx_plus pos 4)) FLAG_HAS_ERROR = (er \<noteq> None)"
    unfolding fl(1) by (rule flags_read)+
  have m: "decodeFields buf MSG_EXECUTION_RESULT sid pos = decodeResult buf pos sid" by (simp add: decodeFields_def msg_defs)
  have err: "(if er \<noteq> None then bindE (decodeError buf q) (\<lambda>v. Inr (Some v)) else Inr None) = Inr er"
    if "ahead buf q es" for q
    using that e w by (cases er) (auto simp: decodeError_ahead [of _ es buf q "[]"])
  show ?thesis
  proof (cases ex)
    case None
    then have "ahead buf (idx_plus (idx_plus pos 4) 1) es" using fl(2) x by simp
    then show ?thesis unfolding m decodeResult_def Let_def g using c(1) None err by simp
  next
    case (Some b)
    then have b: "length b < 256 ^ 4" "xs = be 4 (length b) @ b" using x by (simp_all add: prefixed_Inr)
    note r = ahead_prefixed [OF fl(2) [unfolded b(2) append_assoc] b(1)]
    show ?thesis unfolding m decodeResult_def Let_def g using c(1) Some r(1,2) err [OF r(3)] by (simp del: One_nat_def)
  qed
qed

text \<open>A body is the header and the fields, and the decoder reads back the frame it was made from.\<close>

lemma decode_headerI:
  assumes "length (utf8_encode sid) \<le> 255" "wf_string sid" "msg < 256"
    and "\<And>buf pos. ahead buf pos fs \<Longrightarrow> decodeFields buf msg sid pos = Inr frame"
  shows "decodeFrame (of_nat msg # of_nat (length (utf8_encode sid)) # utf8_encode sid @ fs) = Inr frame"
  using decode_header [OF assms(3,1), of fs] assms(2,4) by (simp add: wf_string_decode)

lemma decode_header_only:
  assumes "length (utf8_encode sid) \<le> 255" "wf_string sid" "msg < 256"
    and "\<And>buf pos. decodeFields buf msg sid pos = Inr frame"
  shows "decodeFrame (of_nat msg # of_nat (length (utf8_encode sid)) # utf8_encode sid) = Inr frame"
  using decode_headerI [where fs = "[]"] assms by simp

lemma decode_no_session:
  assumes "msg < 256" "\<And>buf pos. ahead buf pos fs \<Longrightarrow> decodeFields buf msg [] pos = Inr frame"
  shows "decodeFrame (of_nat msg # 0 # fs) = Inr frame"
  using decode_headerI [where sid = "[]" and msg = msg and fs = fs] assms by (simp add: utf8_encode_def wf_string_def)

lemma msg_byte:
  "MSG_AUTHENTICATE < 256" "MSG_CREATE_SESSION < 256" "MSG_DESTROY_SESSION < 256" "MSG_INJECT_GLOBALS < 256"
  "MSG_EXECUTE < 256" "MSG_BRIDGE_RESPONSE < 256" "MSG_STREAM_EVENT < 256" "MSG_TERMINATE_EXECUTION < 256"
  "MSG_WARM_SNAPSHOT < 256" "MSG_BRIDGE_CALL < 256" "MSG_EXECUTION_RESULT < 256" "MSG_LOG < 256" "MSG_STREAM_CALLBACK < 256"
  by (simp_all add: msg_defs)

lemmas encoded_simps = tagged_Inr bindE_Inr prefixed_Inr writeUIntBE_Inr writeInt32BE_Inr Let_def

lemma decode_encodeBody:
  assumes "wf_frame f" "encodeBody f = Inr body"
  shows "decodeFrame body = Inr f"
proof (cases f)
  case (Authenticate token)
  then show ?thesis using assms
    by (auto simp: decodeFields_def ahead_rest wf_string_decode msg_byte intro!: decode_no_session)
next
  case (CreateSession sid h c)
  then show ?thesis using assms
    by (auto simp: encoded_simps msg_byte intro!: decode_headerI decodeFields_CreateSession)
next
  case (DestroySession sid)
  then show ?thesis using assms
    by (auto simp: encoded_simps msg_byte intro!: decode_header_only) (simp add: decodeFields_def msg_defs)
next
  case (InjectGlobals sid pl)
  then show ?thesis using assms
    by (auto simp: encoded_simps msg_byte intro!: decode_headerI) (simp add: decodeFields_def msg_defs ahead_rest)
next
  case (Execute sid mode fp bc prs uc)
  then show ?thesis using assms
    by (auto simp: encoded_simps msg_byte intro!: decode_headerI decodeFields_Execute)
next
  case (BridgeResponse sid c st pl)
  then show ?thesis using assms
    by (auto simp: encoded_simps msg_byte intro!: decode_headerI decodeFields_BridgeResponse)
next
  case (StreamEvent sid et pl)
  then show ?thesis using assms
    by (auto simp: encoded_simps msg_byte intro!: decode_headerI decodeFields_StreamEvent)
next
  case (TerminateExecution sid)
  then show ?thesis using assms
    by (auto simp: encoded_simps msg_byte intro!: decode_header_only) (simp add: decodeFields_def msg_defs)
next
  case (WarmSnapshot bc)
  then show ?thesis using assms
    by (auto simp: encoded_simps msg_byte intro!: decode_no_session decodeFields_WarmSnapshot)
next
  case (BridgeCall sid c m pl)
  then show ?thesis using assms
    by (auto simp: encoded_simps msg_byte intro!: decode_headerI decodeFields_BridgeCall)
next
  case (ExecutionResult sid ec ex er)
  obtain xs es where x: "(case ex of None \<Rightarrow> Inr [] | Some b \<Rightarrow> prefixed 4 b) = Inr xs"
    and e: "(case er of None \<Rightarrow> Inr [] | Some b \<Rightarrow> encodeError b) = Inr es"
    and r: "length (utf8_encode sid) \<le> 255" "- (2 ^ 31) \<le> ec" "ec < 2 ^ 31"
    and b: "body = of_nat MSG_EXECUTION_RESULT # of_nat (length (utf8_encode sid)) # utf8_encode sid @
      be 4 (nat (ec mod 2 ^ 32)) @
      of_nat ((if ex \<noteq> None then FLAG_HAS_EXPORTS else 0) + (if er \<noteq> None then FLAG_HAS_ERROR else 0)) # xs @ es"
    using assms(2) unfolding ExecutionResult encodeBody.simps tagged_Inr bindE_Inr writeInt32BE_Inr Let_def by auto
  show ?thesis unfolding b ExecutionResult
    by (rule decode_headerI) (use r assms(1) ExecutionResult decodeFields_ExecutionResult [OF _ r(2,3) x e] in \<open>simp_all add: msg_byte\<close>)
next
  case (Log sid ch m)
  then show ?thesis using assms
    by (auto simp: encoded_simps msg_byte intro!: decode_headerI decodeFields_Log)
next
  case (StreamCallback sid ct pl)
  then show ?thesis using assms
    by (auto simp: encoded_simps msg_byte intro!: decode_headerI decodeFields_StreamEvent)
qed


text \<open>Routing by session id: what the fast path extracts from the raw frame.\<close>

fun frame_session :: "BinaryFrame \<Rightarrow> ustring option" where
  "frame_session (Authenticate token) = None"
| "frame_session (CreateSession sid h c) = Some sid"
| "frame_session (DestroySession sid) = Some sid"
| "frame_session (InjectGlobals sid pl) = Some sid"
| "frame_session (Execute sid mode fp bc prs uc) = Some sid"
| "frame_session (BridgeResponse sid callId status pl) = Some sid"
| "frame_session (StreamEvent sid et pl) = Some sid"
| "frame_session (TerminateExecution sid) = Some sid"
| "frame_session (WarmSnapshot bc) = None"
| "frame_session (BridgeCall sid callId m pl) = Some sid"
| "frame_session (ExecutionResult sid ec ex er) = Some sid"
| "frame_session (Log sid ch msg) = Some sid"
| "frame_session (StreamCallback sid ct pl) = Some sid"

lemma extract_header:
  assumes "length (utf8_encode sid) \<le> 255" "wf_string sid" "msg < 256" "msg \<noteq> MSG_AUTHENTICATE" "msg \<noteq> MSG_WARM_SNAPSHOT"
  shows "extractSessionId (of_nat msg # of_nat (length (utf8_encode sid)) # utf8_encode sid @ fs) = Inr (Some sid)"
  using assms by (simp add: extractSessionId_def buf_range_def unat_of_nat take_bit_nat_def wf_string_decode Let_def)

lemma extract_header_only:
  assumes "length (utf8_encode sid) \<le> 255" "wf_string sid" "msg < 256" "msg \<noteq> MSG_AUTHENTICATE" "msg \<noteq> MSG_WARM_SNAPSHOT"
  shows "extractSessionId (of_nat msg # of_nat (length (utf8_encode sid)) # utf8_encode sid) = Inr (Some sid)"
  using extract_header [where fs = "[]"] assms by simp

lemma extract_no_session:
  "extractSessionId (of_nat MSG_AUTHENTICATE # 0 # fs) = Inr None"
  "extractSessionId (of_nat MSG_WARM_SNAPSHOT # 0 # fs) = Inr None"
  by (simp_all add: extractSessionId_def msg_defs)

lemma msg_neq:
  "MSG_CREATE_SESSION \<notin> {MSG_AUTHENTICATE, MSG_WARM_SNAPSHOT}" "MSG_DESTROY_SESSION \<notin> {MSG_AUTHENTICATE, MSG_WARM_SNAPSHOT}"
  "MSG_INJECT_GLOBALS \<notin> {MSG_AUTHENTICATE, MSG_WARM_SNAPSHOT}" "MSG_EXECUTE \<notin> {MSG_AUTHENTICATE, MSG_WARM_SNAPSHOT}"
  "MSG_BRIDGE_RESPONSE \<notin> {MSG_AUTHENTICATE, MSG_WARM_SNAPSHOT}" "MSG_STREAM_EVENT \<notin> {MSG_AUTHENTICATE, MSG_WARM_SNAPSHOT}"
  "MSG_TERMINATE_EXECUTION \<notin> {MSG_AUTHENTICATE, MSG_WARM_SNAPSHOT}" "MSG_BRIDGE_CALL \<notin> {MSG_AUTHENTICATE, MSG_WARM_SNAPSHOT}"
  "MSG_EXECUTION_RESULT \<notin> {MSG_AUTHENTICATE, MSG_WARM_SNAPSHOT}" "MSG_LOG \<notin> {MSG_AUTHENTICATE, MSG_WARM_SNAPSHOT}"
  "MSG_STREAM_CALLBACK \<notin> {MSG_AUTHENTICATE, MSG_WARM_SNAPSHOT}"
  by (simp_all add: msg_defs)

lemma extract_encodeBody:
  assumes "wf_frame f" "encodeBody f = Inr body"
  shows "extractSessionId body = Inr (frame_session f)"
  using assms msg_byte msg_neq
  by (cases f; simp add: encoded_simps) (auto intro!: extract_header extract_header_only extract_no_session)

lemma encodeFrame_Inr:
  "encodeFrame f = Inr out \<longleftrightarrow>
     (\<exists>body. encodeBody f = Inr body \<and> length body \<le> MAX_FRAME_SIZE \<and> out = be 4 (length body) @ body)"
  by (cases "encodeBody f") (auto simp: encodeFrame_def bindE_Inr writeUIntBE_Inr MAX_FRAME_SIZE_def)

text \<open>
  C9. Every frame that \<^verbatim>\<open>encodeFrame\<close> encodes (strings of Unicode scalar values, byte fields that are bytes,
  call ids that are exact JavaScript numbers) comes back: the output is a four-byte big-endian length
  and a body of that length within the frame limit, \<^verbatim>\<open>decodeFrame\<close> on the body returns the same frame,
  and \<^verbatim>\<open>extractSessionId\<close> routes the raw body by the frame's own session id.
\<close>

theorem frame_roundtrip:
  assumes "wf_frame f" "encodeFrame f = Inr out"
  shows "be_val (take 4 out) = length (drop 4 out) \<and> length (drop 4 out) \<le> MAX_FRAME_SIZE \<and>
    decodeFrame (drop 4 out) = Inr f \<and> extractSessionId (drop 4 out) = Inr (frame_session f)"
  using assms decode_encodeBody [OF assms(1)] extract_encodeBody [OF assms(1)]
  by (auto simp: encodeFrame_Inr MAX_FRAME_SIZE_def)

theorem frame_roundtrip_witness:
  "\<exists>out. encodeFrame (ExecutionResult [115, 0x20AC] (- 2) (Some [7, 8])
        (Some \<lparr>eb_errorType = [69], eb_message = [0x1F600], eb_stack = [], eb_code = [65]\<rparr>)) = Inr out \<and>
    decodeFrame (drop 4 out) = Inr (ExecutionResult [115, 0x20AC] (- 2) (Some [7, 8])
        (Some \<lparr>eb_errorType = [69], eb_message = [0x1F600], eb_stack = [], eb_code = [65]\<rparr>))"
proof -
  let ?f = "ExecutionResult [115, 0x20AC] (- 2) (Some [7, 8])
        (Some \<lparr>eb_errorType = [69], eb_message = [0x1F600], eb_stack = [], eb_code = [65]\<rparr>)"
  have w: "wf_frame ?f" by (simp add: wf_string_def scalar_def)
  obtain out where o: "encodeFrame ?f = Inr out"
    by (simp add: encodeFrame_Inr encoded_simps encodeError_def writeLenPrefixedU16_Inr utf8_encode_def utf8_cp_def MAX_FRAME_SIZE_def)
  show ?thesis using frame_roundtrip [OF w o] o by blast
qed

text \<open>
  The decoder does not check that the frame is as long as its fields say: a session id cut short is
  taken as it stands, where \<^verbatim>\<open>extractSessionId\<close> throws; and a frame of the type byte alone reads its
  token from a \<^verbatim>\<open>NaN\<close> offset, that is from the start of the frame.
\<close>

lemma truncated_session_id:
  "decodeFrame [8, 200, 97] = Inr (TerminateExecution [97])"
  "extractSessionId [8, 200, 97] = Inl (JsErr ''Frame too short for session_id'')"
  by code_simp+

lemma one_byte_authenticate: "decodeFrame [1] = Inr (Authenticate [1])"
  by code_simp

end
