(* ===== verification/Ipc_Client.thy ===== *)
theory Ipc_Client
  imports Ipc_Binary
begin

section \<open>The IPC client\<close>

text \<open>
  \<^verbatim>\<open>packages/v8/src/ipc-client.ts\<close>: the host's end of the socket to the V8 runtime. The receive buffer
  with its two cursors is kept as the code keeps it, \<^verbatim>\<open>Buffer.allocUnsafe\<close> returns the bytes of an
  arbitrary function, and the growing loop is a partial function whose \<open>None\<close> is a loop that never
  ends. The \<^verbatim>\<open>onMessage\<close> callback is a parameter: from the events so far and the frame it decides which
  client operations it calls and whether it throws. \<^verbatim>\<open>onError\<close> and \<^verbatim>\<open>onClose\<close> are recorded as events.
  The abstract client has the list of unconsumed bytes in place of the buffer.
\<close>

definition MAX_MESSAGE_SIZE :: nat where "MAX_MESSAGE_SIZE = 64 * 1024 * 1024"

definition INITIAL_BUF_SIZE :: nat where "INITIAL_BUF_SIZE = 64 * 1024"

datatype client_event = Message BinaryFrame | Errored exn | ClosedEvent

datatype connect_promise = NotCalled | Connecting | Resolved | Rejected exn

record Conn =
  cn_socket :: bool
  cn_connected :: bool
  cn_ref :: bool
  cn_promise :: connect_promise
  cn_written :: "bytes list"
  cn_events :: "client_event list"

record IpcClient =
  cl_conn :: Conn
  cl_recvBuf :: bytes
  cl_readPos :: nat
  cl_writePos :: nat

text \<open>What the message callback may do with the client, and what it throws.\<close>

datatype handler_op = HSend BinaryFrame | HClose

type_synonym message_handler = "client_event list \<Rightarrow> BinaryFrame \<Rightarrow> handler_op list \<times> exn option"

definition allocUnsafe :: "(nat \<Rightarrow> byte) \<Rightarrow> nat \<Rightarrow> bytes" where
  "allocUnsafe u n = map u [0..<n]"

lemma length_allocUnsafe [simp]: "length (allocUnsafe u n) = n"
  by (simp add: allocUnsafe_def)

definition new_client :: "(nat \<Rightarrow> byte) \<Rightarrow> IpcClient" where
  "new_client u = \<lparr>cl_conn = \<lparr>cn_socket = False, cn_connected = False, cn_ref = True, cn_promise = NotCalled,
     cn_written = [], cn_events = []\<rparr>, cl_recvBuf = allocUnsafe u INITIAL_BUF_SIZE, cl_readPos = 0, cl_writePos = 0\<rparr>"

definition emit :: "client_event \<Rightarrow> Conn \<Rightarrow> Conn" where
  "emit ev k = k\<lparr>cn_events := cn_events k @ [ev]\<rparr>"

definition connect_client :: "IpcClient \<Rightarrow> IpcClient" where
  "connect_client c = c\<lparr>cl_conn := (cl_conn c)\<lparr>cn_socket := True, cn_ref := True, cn_promise := Connecting\<rparr>\<rparr>"

definition on_connect :: "IpcClient \<Rightarrow> IpcClient" where
  "on_connect c = c\<lparr>cl_conn := (cl_conn c)\<lparr>cn_connected := True, cn_promise := Resolved\<rparr>\<rparr>"

definition on_close :: "IpcClient \<Rightarrow> IpcClient" where
  "on_close c = c\<lparr>cl_conn := emit ClosedEvent ((cl_conn c)\<lparr>cn_connected := False, cn_socket := False\<rparr>)\<rparr>"

definition on_error :: "exn \<Rightarrow> IpcClient \<Rightarrow> IpcClient" where
  "on_error err c =
     (if \<not> cn_connected (cl_conn c)
      then c\<lparr>cl_conn := (cl_conn c)\<lparr>cn_promise := (case cn_promise (cl_conn c) of Connecting \<Rightarrow> Rejected err | p \<Rightarrow> p)\<rparr>\<rparr>
      else c\<lparr>cl_conn := emit (Errored err) (cl_conn c)\<rparr>)"

definition send_conn :: "BinaryFrame \<Rightarrow> Conn \<Rightarrow> exn + Conn" where
  "send_conn frame k =
     (if \<not> cn_socket k \<or> \<not> cn_connected k then Inl (JsErr ''IPC client is not connected'')
      else bindE (encodeFrame frame) (\<lambda>buf. Inr (k\<lparr>cn_written := cn_written k @ [buf]\<rparr>)))"

definition send_client :: "BinaryFrame \<Rightarrow> IpcClient \<Rightarrow> exn + IpcClient" where
  "send_client frame c = bindE (send_conn frame (cl_conn c)) (\<lambda>k. Inr (c\<lparr>cl_conn := k\<rparr>))"

definition authenticate :: "ustring \<Rightarrow> IpcClient \<Rightarrow> exn + IpcClient" where
  "authenticate token = send_client (Authenticate token)"

definition close_conn :: "Conn \<Rightarrow> Conn" where
  "close_conn k = (if cn_socket k then k\<lparr>cn_socket := False, cn_connected := False\<rparr> else k)"

definition close_client :: "IpcClient \<Rightarrow> IpcClient" where
  "close_client c =
     (if cn_socket (cl_conn c) then c\<lparr>cl_conn := close_conn (cl_conn c), cl_readPos := 0, cl_writePos := 0\<rparr> else c)"

definition set_ref :: "bool \<Rightarrow> IpcClient \<Rightarrow> IpcClient" where
  "set_ref b c = (if cn_socket (cl_conn c) then c\<lparr>cl_conn := (cl_conn c)\<lparr>cn_ref := b\<rparr>\<rparr> else c)"

subsection \<open>The receive buffer\<close>

definition copyWithin0 :: "bytes \<Rightarrow> nat \<Rightarrow> nat \<Rightarrow> bytes" where
  "copyWithin0 buf s e = (let part = take (e - s) (drop s buf) in part @ drop (length part) buf)"

text \<open>\<^verbatim>\<open>src.copy(dst, at)\<close>: what fits is copied.\<close>

definition copy_into :: "bytes \<Rightarrow> bytes \<Rightarrow> nat \<Rightarrow> bytes" where
  "copy_into src dst pos = take pos dst @ take (length dst - pos) src @ drop (pos + length src) dst"

partial_function (option) grow_size :: "nat \<Rightarrow> nat \<Rightarrow> nat option" where
  "grow_size newSize required = (if newSize < required then grow_size (newSize * 2) required else Some newSize)"

definition ensureCapacity :: "(nat \<Rightarrow> byte) \<Rightarrow> nat \<Rightarrow> IpcClient \<Rightarrow> IpcClient option" where
  "ensureCapacity u needed c =
     (let available = length (cl_recvBuf c) - cl_writePos c;
          unconsumed = cl_writePos c - cl_readPos c;
          required = unconsumed + needed
      in if needed \<le> available then Some c
         else if required \<le> length (cl_recvBuf c)
         then Some (c\<lparr>cl_recvBuf := copyWithin0 (cl_recvBuf c) (cl_readPos c) (cl_writePos c),
                      cl_readPos := 0, cl_writePos := unconsumed\<rparr>)
         else map_option (\<lambda>newSize. c\<lparr>cl_recvBuf := copy_into (take unconsumed (drop (cl_readPos c) (cl_recvBuf c))) (allocUnsafe u newSize) 0,
                      cl_readPos := 0, cl_writePos := unconsumed\<rparr>)
           (grow_size (length (cl_recvBuf c)) required))"

subsection \<open>Draining frames\<close>

fun run_handler_ops :: "handler_op list \<Rightarrow> exn option \<Rightarrow> IpcClient \<Rightarrow> exn option \<times> IpcClient" where
  "run_handler_ops [] thrown c = (thrown, c)"
| "run_handler_ops (HSend f # ops) thrown c = (case send_client f c of Inl e \<Rightarrow> (Some e, c) | Inr c' \<Rightarrow> run_handler_ops ops thrown c')"
| "run_handler_ops (HClose # ops) thrown c = run_handler_ops ops thrown (close_client c)"

definition fail_client :: "exn \<Rightarrow> IpcClient \<Rightarrow> IpcClient" where
  "fail_client e c = close_client (c\<lparr>cl_conn := emit (Errored e) (cl_conn c)\<rparr>)"

definition deliver :: "message_handler \<Rightarrow> bytes \<Rightarrow> IpcClient \<Rightarrow> bool \<times> IpcClient" where
  "deliver onMessage body c =
     (case decodeFrame body of
        Inl e \<Rightarrow> (False, fail_client e c)
      | Inr frame \<Rightarrow>
          (case onMessage (cn_events (cl_conn c)) frame of (ops, thrown) \<Rightarrow>
             (case run_handler_ops ops thrown (c\<lparr>cl_conn := emit (Message frame) (cl_conn c)\<rparr>) of
                (None, c') \<Rightarrow> (True, c')
              | (Some e, c') \<Rightarrow> (False, fail_client e c'))))"

abbreviation unread :: "IpcClient \<Rightarrow> nat" where
  "unread c \<equiv> cl_writePos c - cl_readPos c"

lemma run_handler_ops_unread: "run_handler_ops ops thrown c = (r, c') \<Longrightarrow> unread c' \<le> unread c"
proof (induction ops thrown c rule: run_handler_ops.induct)
  case (2 f ops thrown c)
  then show ?case by (auto simp: send_client_def bindE_def split: sum.splits)
next
  case (3 ops thrown c)
  then show ?case by (force simp: close_client_def split: if_splits)
qed simp

lemma deliver_unread: "deliver h body c = (True, c') \<Longrightarrow> unread c' \<le> unread c"
  by (auto simp: deliver_def split: sum.splits prod.splits option.splits dest!: run_handler_ops_unread)

text \<open>The loop of \<^verbatim>\<open>handleData\<close>; the flag says whether it ended by itself or by a \<^verbatim>\<open>return\<close>.\<close>

function drain :: "message_handler \<Rightarrow> IpcClient \<Rightarrow> exn + (bool \<times> IpcClient)" where
  "drain h c =
     (if unread c < 4 then Inr (True, c)
      else case readUIntBE 4 (cl_recvBuf c) (Some (cl_readPos c)) of
             Inl e \<Rightarrow> Inl e
           | Inr payloadLen \<Rightarrow>
               if MAX_MESSAGE_SIZE < payloadLen then Inr (False, fail_client (JsErr ''Received message size exceeds maximum'') c)
               else if unread c < 4 + payloadLen then Inr (True, c)
               else (case deliver h (buf_range (cl_recvBuf c) (Some (cl_readPos c + 4)) (Some (cl_readPos c + (4 + payloadLen))))
                            (c\<lparr>cl_readPos := cl_readPos c + (4 + payloadLen)\<rparr>) of
                       (True, c') \<Rightarrow> drain h c'
                     | (False, c') \<Rightarrow> Inr (False, c')))"
  by pat_completeness auto
termination
  by (relation "measure (\<lambda>(h, c). unread c)") (auto dest!: deliver_unread [OF sym])

declare drain.simps [simp del]

definition compact :: "IpcClient \<Rightarrow> IpcClient" where
  "compact c =
     (if length (cl_recvBuf c) < 2 * cl_readPos c
      then c\<lparr>cl_recvBuf := copyWithin0 (cl_recvBuf c) (cl_readPos c) (cl_writePos c), cl_readPos := 0, cl_writePos := unread c\<rparr>
      else c)"

definition handleData :: "(nat \<Rightarrow> byte) \<Rightarrow> message_handler \<Rightarrow> bytes \<Rightarrow> IpcClient \<Rightarrow> (exn + IpcClient) option" where
  "handleData u h chunk c =
     map_option (\<lambda>c1.
       let c2 = c1\<lparr>cl_recvBuf := copy_into chunk (cl_recvBuf c1) (cl_writePos c1), cl_writePos := cl_writePos c1 + length chunk\<rparr>
       in bindE (drain h c2) (\<lambda>(ended, c3). Inr (if ended then compact c3 else c3)))
     (ensureCapacity u (length chunk) c)"

text \<open>Data events reach the client while it holds its socket: \<^verbatim>\<open>close\<close> removes the listeners.\<close>

fun receive_all :: "(nat \<Rightarrow> byte) \<Rightarrow> message_handler \<Rightarrow> bytes list \<Rightarrow> IpcClient \<Rightarrow> (exn + IpcClient) option" where
  "receive_all u h [] c = Some (Inr c)"
| "receive_all u h (chunk # chunks) c =
     (if cn_socket (cl_conn c)
      then (case handleData u h chunk c of
              Some (Inr c') \<Rightarrow> receive_all u h chunks c'
            | r \<Rightarrow> r)
      else receive_all u h chunks c)"


subsection \<open>The abstract client\<close>

fun spec_ops :: "handler_op list \<Rightarrow> exn option \<Rightarrow> Conn \<Rightarrow> exn option \<times> Conn" where
  "spec_ops [] thrown k = (thrown, k)"
| "spec_ops (HSend f # ops) thrown k = (case send_conn f k of Inl e \<Rightarrow> (Some e, k) | Inr k' \<Rightarrow> spec_ops ops thrown k')"
| "spec_ops (HClose # ops) thrown k = spec_ops ops thrown (close_conn k)"

definition spec_fail :: "exn \<Rightarrow> Conn \<Rightarrow> Conn" where
  "spec_fail e k = close_conn (emit (Errored e) k)"

definition spec_deliver :: "message_handler \<Rightarrow> bytes \<Rightarrow> Conn \<Rightarrow> Conn" where
  "spec_deliver h body k =
     (case decodeFrame body of
        Inl e \<Rightarrow> spec_fail e k
      | Inr frame \<Rightarrow>
          (case h (cn_events k) frame of (ops, thrown) \<Rightarrow>
             (case spec_ops ops thrown (emit (Message frame) k) of
                (None, k') \<Rightarrow> k'
              | (Some e, k') \<Rightarrow> spec_fail e k')))"

text \<open>The stream parser: the bytes not consumed yet and the connection; a closed one has dropped its bytes.\<close>

function spec_drain :: "message_handler \<Rightarrow> bytes \<Rightarrow> Conn \<Rightarrow> bytes \<times> Conn" where
  "spec_drain h p k =
     (let n = be_val (take 4 p)
      in if length p < 4 then (p, k)
         else if MAX_MESSAGE_SIZE < n then ([], spec_fail (JsErr ''Received message size exceeds maximum'') k)
         else if length p < 4 + n then (p, k)
         else (let k' = spec_deliver h (take n (drop 4 p)) k
               in if cn_socket k' then spec_drain h (drop (4 + n) p) k' else ([], k')))"
  by pat_completeness auto
termination
  by (relation "measure (\<lambda>(h, p, k). length p)") auto

declare spec_drain.simps [simp del]

definition spec_feed :: "message_handler \<Rightarrow> bytes \<times> Conn \<Rightarrow> bytes \<Rightarrow> bytes \<times> Conn" where
  "spec_feed h = (\<lambda>(p, k) chunk. if cn_socket k then spec_drain h (p @ chunk) k else (p, k))"

definition unconsumed :: "IpcClient \<Rightarrow> bytes" where
  "unconsumed c = take (unread c) (drop (cl_readPos c) (cl_recvBuf c))"

definition client_view :: "IpcClient \<Rightarrow> bytes \<times> Conn" where
  "client_view c = (unconsumed c, cl_conn c)"

definition client_inv :: "IpcClient \<Rightarrow> bool" where
  "client_inv c \<longleftrightarrow> 0 < length (cl_recvBuf c) \<and> cl_readPos c \<le> cl_writePos c \<and> cl_writePos c \<le> length (cl_recvBuf c)"

lemma client_invI [intro]:
  "\<lbrakk>0 < length (cl_recvBuf c); cl_readPos c \<le> cl_writePos c; cl_writePos c \<le> length (cl_recvBuf c)\<rbrakk> \<Longrightarrow> client_inv c"
  by (simp add: client_inv_def)

lemma length_unconsumed: "client_inv c \<Longrightarrow> length (unconsumed c) = unread c"
  by (auto simp: client_inv_def unconsumed_def)

subsubsection \<open>The buffer holds the unconsumed bytes\<close>

lemma grow_size_returns:
  assumes "0 < n"
  obtains m where "grow_size n required = Some m" "required \<le> m" "n \<le> m"
  using assms
proof (induction "required - n" arbitrary: n thesis rule: less_induct)
  case less
  show ?case
  proof (cases "n < required")
    case True
    have d: "required - n * 2 < required - n" "0 < n * 2" using True less.prems(2) by auto
    obtain m where "grow_size (n * 2) required = Some m" "required \<le> m" "n * 2 \<le> m" using less.hyps [OF d(1) _ d(2)] by blast
    then show ?thesis using True less.prems(1) [of m] grow_size.simps [of n required] by simp
  next
    case False
    then show ?thesis using less.prems(1) [of n] grow_size.simps [of n required] by simp
  qed
qed

lemma length_copyWithin0 [simp]: "length (copyWithin0 buf s e) = length buf"
  by (auto simp: copyWithin0_def Let_def min_def)

lemma take_copyWithin0: "s \<le> e \<Longrightarrow> e \<le> length buf \<Longrightarrow> take (e - s) (copyWithin0 buf s e) = take (e - s) (drop s buf)"
  by (simp add: copyWithin0_def Let_def)

text \<open>Moving the unconsumed bytes to the front of a buffer, as both kinds of compaction do.\<close>

lemma shifted_front:
  assumes "client_inv c"
  defines "c' \<equiv> c\<lparr>cl_recvBuf := copyWithin0 (cl_recvBuf c) (cl_readPos c) (cl_writePos c), cl_readPos := 0, cl_writePos := unread c\<rparr>"
  shows "client_inv c'" "client_view c' = client_view c"
proof -
  have "length (cl_recvBuf c') = length (cl_recvBuf c)" by (simp add: c'_def)
  then show "client_inv c'" using assms(1) unfolding client_inv_def by (auto simp: c'_def)
  show "client_view c' = client_view c"
    using assms(1) by (simp add: c'_def client_inv_def client_view_def unconsumed_def take_copyWithin0)
qed

lemma length_copy_into: "pos \<le> length dst \<Longrightarrow> length (copy_into src dst pos) = length dst"
  by (auto simp: copy_into_def min_def)

lemma ensureCapacity_room:
  assumes "client_inv c"
  obtains c' where "ensureCapacity u needed c = Some c'" "client_inv c'" "client_view c' = client_view c"
    "cl_writePos c' + needed \<le> length (cl_recvBuf c')"
proof -
  consider (fits) "needed \<le> length (cl_recvBuf c) - cl_writePos c"
    | (shift) "\<not> needed \<le> length (cl_recvBuf c) - cl_writePos c" "unread c + needed \<le> length (cl_recvBuf c)"
    | (grow) "\<not> needed \<le> length (cl_recvBuf c) - cl_writePos c" "\<not> unread c + needed \<le> length (cl_recvBuf c)" by blast
  then show ?thesis
  proof cases
    case fits
    then show ?thesis using assms by (intro that [of c]) (auto simp: ensureCapacity_def client_inv_def)
  next
    case shift
    then show ?thesis by (intro that [OF _ shifted_front [OF assms]]) (auto simp: ensureCapacity_def Let_def)
  next
    case grow
    obtain m where "grow_size (length (cl_recvBuf c)) (unread c + needed) = Some m" "unread c + needed \<le> m" "length (cl_recvBuf c) \<le> m"
      using assms grow_size_returns by (metis client_inv_def)
    then show ?thesis using assms grow
      by (intro that [of "c\<lparr>cl_recvBuf := copy_into (take (unread c) (drop (cl_readPos c) (cl_recvBuf c))) (allocUnsafe u m) 0,
          cl_readPos := 0, cl_writePos := unread c\<rparr>"]) (auto simp: ensureCapacity_def Let_def client_inv_def client_view_def unconsumed_def copy_into_def allocUnsafe_def)
  qed
qed

lemma append_chunk:
  assumes "client_inv c" "cl_writePos c + length chunk \<le> length (cl_recvBuf c)"
  defines "c' \<equiv> c\<lparr>cl_recvBuf := copy_into chunk (cl_recvBuf c) (cl_writePos c), cl_writePos := cl_writePos c + length chunk\<rparr>"
  shows "client_inv c'" "unconsumed c' = unconsumed c @ chunk" "cl_conn c' = cl_conn c"
proof -
  have l: "length (cl_recvBuf c') = length (cl_recvBuf c)" using assms by (simp add: c'_def length_copy_into)
  then show "client_inv c'" using assms(1,2) unfolding client_inv_def by (simp add: c'_def)
  show "cl_conn c' = cl_conn c" by (simp add: c'_def)
  show "unconsumed c' = unconsumed c @ chunk"
    using assms(1,2) by (simp add: c'_def client_inv_def unconsumed_def copy_into_def drop_take)
qed

lemma compact_view: "client_inv c \<Longrightarrow> client_inv (compact c) \<and> client_view (compact c) = client_view c"
  using shifted_front [of c] by (simp add: compact_def)


subsubsection \<open>Draining the buffer parses the unconsumed bytes\<close>

text \<open>While the client holds its socket its buffer is untouched by callbacks; once closed it is empty.\<close>

definition settled :: "IpcClient \<Rightarrow> IpcClient \<Rightarrow> bool" where
  "settled c c' \<longleftrightarrow> cl_recvBuf c' = cl_recvBuf c \<and>
     (if cn_socket (cl_conn c') then cl_readPos c' = cl_readPos c \<and> cl_writePos c' = cl_writePos c
      else cl_readPos c' = 0 \<and> cl_writePos c' = 0)"

lemma settled_refl: "cn_socket (cl_conn c) \<or> cl_readPos c = 0 \<and> cl_writePos c = 0 \<Longrightarrow> settled c c"
  by (auto simp: settled_def)

lemma settled_trans: "settled a b \<Longrightarrow> settled b c \<Longrightarrow> (cn_socket (cl_conn c) \<Longrightarrow> cn_socket (cl_conn b)) \<Longrightarrow> settled a c"
  by (auto simp: settled_def split: if_splits)

lemma settled_inv: "settled c c' \<Longrightarrow> client_inv c \<Longrightarrow> client_inv c'"
  by (auto simp: settled_def client_inv_def split: if_splits)

lemma settled_unconsumed: "settled c c' \<Longrightarrow> unconsumed c' = (if cn_socket (cl_conn c') then unconsumed c else [])"
  by (auto simp: settled_def unconsumed_def split: if_splits)

lemma conn_simps [simp]:
  "cn_socket (emit ev k) = cn_socket k" "\<not> cn_socket (close_conn k)" "\<not> cn_socket (spec_fail e k)"
  "cl_conn (close_client c) = close_conn (cl_conn c)" "cl_conn (fail_client e c) = spec_fail e (cl_conn c)"
  by (auto simp: emit_def close_conn_def spec_fail_def close_client_def fail_client_def)

lemma send_conn_socket: "send_conn f k = Inr k' \<Longrightarrow> cn_socket k \<and> cn_socket k'"
  by (auto simp: send_conn_def bindE_Inr split: if_splits)

lemma settled_close: "cn_socket (cl_conn c) \<or> cl_readPos c = 0 \<and> cl_writePos c = 0 \<Longrightarrow> settled c (close_client c)"
  unfolding settled_def by (auto simp: close_client_def)

lemma settled_fail: "cn_socket (cl_conn c) \<or> cl_readPos c = 0 \<and> cl_writePos c = 0 \<Longrightarrow> settled c (fail_client e c)"
  unfolding settled_def by (auto simp: fail_client_def close_client_def)

lemma run_handler_ops_refines:
  assumes "run_handler_ops ops thrown c = (r, c')" "cn_socket (cl_conn c) \<or> cl_readPos c = 0 \<and> cl_writePos c = 0"
  shows "spec_ops ops thrown (cl_conn c) = (r, cl_conn c')" "settled c c'" "cn_socket (cl_conn c') \<Longrightarrow> cn_socket (cl_conn c)"
proof -
  have "spec_ops ops thrown (cl_conn c) = (r, cl_conn c') \<and> settled c c' \<and> (cn_socket (cl_conn c') \<longrightarrow> cn_socket (cl_conn c))"
    using assms
  proof (induction ops thrown c rule: run_handler_ops.induct)
    case (1 thrown c)
    then show ?case by (auto simp: settled_refl)
  next
    case (2 f ops thrown c)
    show ?case
    proof (cases "send_conn f (cl_conn c)")
      case (Inl e)
      then show ?thesis using 2 by (auto simp: send_client_def settled_refl)
    next
      case (Inr k)
      note sk = send_conn_socket [OF Inr]
      let ?c = "c\<lparr>cl_conn := k\<rparr>"
      have s: "send_client f c = Inr ?c" using Inr by (simp add: send_client_def)
      have "settled c ?c" using sk by (simp add: settled_def)
      moreover have "spec_ops ops thrown k = (r, cl_conn c') \<and> settled ?c c' \<and> (cn_socket (cl_conn c') \<longrightarrow> cn_socket k)"
        using 2 s sk by simp
      ultimately show ?thesis using Inr sk by (auto intro: settled_trans)
    qed
  next
    case (3 ops thrown c)
    have z: "settled c (close_client c)" by (rule settled_close [OF 3(3)])
    then have "cl_readPos (close_client c) = 0 \<and> cl_writePos (close_client c) = 0" by (simp add: settled_def)
    then have "spec_ops ops thrown (close_conn (cl_conn c)) = (r, cl_conn c') \<and> settled (close_client c) c' \<and> \<not> cn_socket (cl_conn c')"
      using 3(1,2) by auto
    then show ?case using settled_trans [OF z] by auto
  qed
  then show "spec_ops ops thrown (cl_conn c) = (r, cl_conn c')" "settled c c'" "cn_socket (cl_conn c') \<Longrightarrow> cn_socket (cl_conn c)" by auto
qed

lemma deliver_refines:
  assumes "deliver h body c = (b, c')" "cn_socket (cl_conn c)"
  shows "cl_conn c' = spec_deliver h body (cl_conn c)" "settled c c'" "cn_socket (cl_conn c') \<Longrightarrow> b"
proof -
  let ?g = "cl_conn c' = spec_deliver h body (cl_conn c) \<and> settled c c' \<and> (cn_socket (cl_conn c') \<longrightarrow> b)"
  have ?g
  proof (cases "decodeFrame body")
    case (Inl e)
    then show ?thesis using assms settled_fail [of c e] by (auto simp: deliver_def spec_deliver_def)
  next
    case (Inr frame)
    let ?c = "c\<lparr>cl_conn := emit (Message frame) (cl_conn c)\<rparr>"
    obtain ops thrown where o: "h (cn_events (cl_conn c)) frame = (ops, thrown)" by force
    obtain r c1 where run: "run_handler_ops ops thrown ?c = (r, c1)" by force
    have s0: "settled c ?c" "cn_socket (cl_conn ?c)" using assms(2) by (simp_all add: settled_def)
    note R = run_handler_ops_refines [OF run disjI1 [OF s0(2)]]
    have s1: "settled c c1" using settled_trans [OF s0(1) R(2)] s0(2) by blast
    have z: "cn_socket (cl_conn c1) \<or> cl_readPos c1 = 0 \<and> cl_writePos c1 = 0" using s1 by (auto simp: settled_def)
    show ?thesis
    proof (cases r)
      case None
      then show ?thesis using assms Inr o run R(1) s1 by (auto simp: deliver_def spec_deliver_def)
    next
      case (Some e)
      then show ?thesis using assms Inr o run R(1) settled_trans [OF s1 settled_fail [OF z, of e]]
        by (auto simp: deliver_def spec_deliver_def)
    qed
  qed
  then show "cl_conn c' = spec_deliver h body (cl_conn c)" "settled c c'" "cn_socket (cl_conn c') \<Longrightarrow> b" by auto
qed


lemma read_length:
  assumes "client_inv c" "4 \<le> unread c"
  shows "readUIntBE 4 (cl_recvBuf c) (Some (cl_readPos c)) = Inr (be_val (take 4 (unconsumed c)))"
  using assms by (auto simp: client_inv_def unconsumed_def readUIntBE_def min_def)

lemma read_body:
  assumes "client_inv c" "4 + n \<le> unread c"
  defines "c' \<equiv> c\<lparr>cl_readPos := cl_readPos c + (4 + n)\<rparr>"
  shows "buf_range (cl_recvBuf c) (Some (cl_readPos c + 4)) (Some (cl_readPos c + (4 + n))) = take n (drop 4 (unconsumed c))"
    "unconsumed c' = drop (4 + n) (unconsumed c)" "client_inv c'" "cl_conn c' = cl_conn c"
  using assms by (auto simp: client_inv_def unconsumed_def buf_range_def drop_take add.commute add.left_commute min_def)

lemma drain_refines:
  assumes "client_inv c" "cn_socket (cl_conn c)"
  obtains b c' where "drain h c = Inr (b, c')" "client_inv c'" "client_view c' = spec_drain h (unconsumed c) (cl_conn c)"
proof -
  have "\<exists>b c'. drain h c = Inr (b, c') \<and> client_inv c' \<and> client_view c' = spec_drain h (unconsumed c) (cl_conn c)"
    using assms
  proof (induction h c rule: drain.induct)
    case (1 h c)
    let ?n = "be_val (take 4 (unconsumed c))"
    note l = length_unconsumed [OF 1(2)]
    consider (short) "unread c < 4" | (over) "4 \<le> unread c" "MAX_MESSAGE_SIZE < ?n"
      | (wait) "4 \<le> unread c" "?n \<le> MAX_MESSAGE_SIZE" "unread c < 4 + ?n"
      | (full) "?n \<le> MAX_MESSAGE_SIZE" "4 + ?n \<le> unread c" by linarith
    then show ?case
    proof cases
      case short
      then show ?thesis using 1(2) l by (subst drain.simps, subst spec_drain.simps) (auto simp: client_view_def)
    next
      case over
      have s: "settled c (fail_client e c)" for e using settled_fail 1(3) by blast
      show ?thesis using over l settled_inv [OF s 1(2)] settled_unconsumed [OF s] read_length [OF 1(2) over(1)]
        by (subst drain.simps, subst spec_drain.simps) (auto simp: client_view_def Let_def)
    next
      case wait
      then show ?thesis using 1(2) l read_length [OF 1(2)] by (subst drain.simps, subst spec_drain.simps) (auto simp: client_view_def Let_def)
    next
      case full
      let ?c = "c\<lparr>cl_readPos := cl_readPos c + (4 + ?n)\<rparr>" and ?body = "take ?n (drop 4 (unconsumed c))"
      note rb = read_body [OF 1(2) full(2)]
      have r4: "4 \<le> unread c" using full(2) by simp
      obtain b c1 where d: "deliver h ?body ?c = (b, c1)" by force
      have sc: "cn_socket (cl_conn ?c)" using 1(3) by simp
      note D = deliver_refines [OF d sc]
      have u: "drain h c = (if b then drain h c1 else Inr (False, c1))"
        using full r4 read_length [OF 1(2) r4] rb(1) d by (subst drain.simps) (auto split: bool.splits)
      have v: "spec_drain h (unconsumed c) (cl_conn c) =
          (if cn_socket (cl_conn c1) then spec_drain h (drop (4 + ?n) (unconsumed c)) (cl_conn c1) else ([], cl_conn c1))"
        using full l D(1) by (subst spec_drain.simps) (simp add: Let_def)
      have i: "client_inv c1" using settled_inv [OF D(2) rb(3)] .
      have w: "unconsumed c1 = (if cn_socket (cl_conn c1) then drop (4 + ?n) (unconsumed c) else [])"
        using settled_unconsumed [OF D(2)] rb(2) by simp
      show ?thesis
      proof (cases "cn_socket (cl_conn c1)")
        case True
        have e: "(True, c1) = deliver h (buf_range (cl_recvBuf c) (Some (cl_readPos c + 4)) (Some (cl_readPos c + (4 + ?n)))) ?c"
          using d rb(1) D(3) True by simp
        have "\<exists>b' c'. drain h c1 = Inr (b', c') \<and> client_inv c' \<and> client_view c' = spec_drain h (unconsumed c1) (cl_conn c1)"
          by (rule 1(1)) (use full r4 read_length [OF 1(2) r4] e True i in \<open>simp_all add: not_less\<close>)
        then show ?thesis using u v w D(3) True by simp
      next
        case False
        then have "drain h c1 = Inr (True, c1)" using w length_unconsumed [OF i] by (subst drain.simps) simp
        then show ?thesis using u v w False i by (cases b) (auto simp: client_view_def)
      qed
    qed
  qed
  then show thesis using that by blast
qed

text \<open>
  The client refines the stream parser: whatever the callback does, a chunk is taken without an
  exception escaping and without the growing loop running forever, the cursors stay within the
  buffer, and the bytes left over and the connection are those of the parser.
\<close>

lemma handleData_refines:
  assumes "client_inv c" "cn_socket (cl_conn c)"
  obtains c' where "handleData u h chunk c = Some (Inr c')" "client_inv c'" "client_view c' = spec_feed h (client_view c) chunk"
proof -
  obtain c1 where e: "ensureCapacity u (length chunk) c = Some c1" "client_inv c1" "client_view c1 = client_view c"
    "cl_writePos c1 + length chunk \<le> length (cl_recvBuf c1)" by (rule ensureCapacity_room [OF assms(1)])
  note a = append_chunk [OF e(2,4)]
  have s: "cn_socket (cl_conn c1)" using e(3) assms(2) by (simp add: client_view_def)
  obtain b c2 where d: "drain h (c1\<lparr>cl_recvBuf := copy_into chunk (cl_recvBuf c1) (cl_writePos c1), cl_writePos := cl_writePos c1 + length chunk\<rparr>) = Inr (b, c2)"
    "client_inv c2" "client_view c2 = spec_drain h (unconsumed c1 @ chunk) (cl_conn c1)"
    using drain_refines [OF a(1), of h] a(2,3) s by auto
  have v: "client_view c2 = spec_feed h (client_view c) chunk" using d(3) e(3) assms(2) by (simp add: client_view_def spec_feed_def)
  show thesis using that [of "if b then compact c2 else c2"] e(1) d(1,2) v compact_view [OF d(2)] by (auto simp: handleData_def Let_def)
qed


subsubsection \<open>Chunk boundaries do not matter\<close>

text \<open>
  A consumer of a byte stream: feeding two chunks is feeding their concatenation. Inside the locale,
  a run over chunks depends on the bytes alone.
\<close>

locale byte_stream =
  fixes feed :: "'s \<Rightarrow> 'b list \<Rightarrow> 's"
    and ready :: "'s \<Rightarrow> bool"
  assumes feed_feed: "ready s \<Longrightarrow> feed (feed s a) b = feed s (a @ b)"
    and feed_nothing: "ready s \<Longrightarrow> feed s [] = s"
    and feed_ready: "ready s \<Longrightarrow> ready (feed s a)"
begin

lemma foldl_feed: "ready s \<Longrightarrow> foldl feed s chunks = feed s (concat chunks)"
  by (induction chunks arbitrary: s) (simp_all add: feed_nothing feed_feed feed_ready)

lemma chunking_irrelevant: "ready s \<Longrightarrow> concat chunks = concat chunks' \<Longrightarrow> foldl feed s chunks = foldl feed s chunks'"
  by (simp add: foldl_feed)

end

text \<open>Bytes are drained when they hold no complete frame and no oversized length.\<close>

definition drained :: "bytes \<Rightarrow> bool" where
  "drained p \<longleftrightarrow> length p < 4 \<or> be_val (take 4 p) \<le> MAX_MESSAGE_SIZE \<and> length p < 4 + be_val (take 4 p)"

definition stream_ready :: "bytes \<times> Conn \<Rightarrow> bool" where
  "stream_ready = (\<lambda>(p, k). cn_socket k \<longrightarrow> drained p)"

lemma drained_stays: "drained p \<Longrightarrow> spec_drain h p k = (p, k)"
  by (subst spec_drain.simps) (auto simp: drained_def Let_def)

lemma spec_drain_cases:
  obtains (wait) "drained p" "spec_drain h p k = (p, k)"
  | (over) e where "4 \<le> length p" "MAX_MESSAGE_SIZE < be_val (take 4 p)" "\<And>q. spec_drain h (p @ q) k = ([], spec_fail e k)"
  | (full) n where "4 + n \<le> length p" "n = be_val (take 4 p)"
      "\<And>q. spec_drain h (p @ q) k = (let k' = spec_deliver h (take n (drop 4 p)) k
         in if cn_socket k' then spec_drain h (drop (4 + n) p @ q) k' else ([], k'))"
proof -
  let ?n = "be_val (take 4 p)"
  have t: "4 \<le> length p \<Longrightarrow> take 4 (p @ q) = take 4 p" for q by simp
  consider "drained p" | "4 \<le> length p" "MAX_MESSAGE_SIZE < ?n" | "?n \<le> MAX_MESSAGE_SIZE" "4 + ?n \<le> length p"
    unfolding drained_def by linarith
  then show thesis
  proof cases
    case 1
    then show ?thesis using wait drained_stays by blast
  next
    case 2
    have "spec_drain h (p @ q) k = ([], spec_fail (JsErr ''Received message size exceeds maximum'') k)" for q
      using 2 t [of q] by (subst spec_drain.simps) (simp add: Let_def)
    then show ?thesis using over 2 by blast
  next
    case 3
    then have "spec_drain h (p @ q) k = (let k' = spec_deliver h (take ?n (drop 4 p)) k
         in if cn_socket k' then spec_drain h (drop (4 + ?n) p @ q) k' else ([], k'))" for q
      using t [of q] by (subst spec_drain.simps) (simp add: Let_def)
    then show ?thesis using full [of ?n] 3 by blast
  qed
qed

lemma spec_drain_result: "spec_drain h p k = (p', k') \<Longrightarrow> cn_socket k' \<Longrightarrow> drained p'"
proof (induction "length p" arbitrary: p k rule: less_induct)
  case less
  show ?case
  proof (cases rule: spec_drain_cases [of p h k])
    case wait
    then show ?thesis using less by simp
  next
    case (over e)
    then show ?thesis using over(3) [of "[]"] less by simp
  next
    case (full n)
    then show ?thesis using less(1) [of "drop (4 + n) p"] less(2,3) full(3) [of "[]"] by (auto simp: Let_def split: if_splits)
  qed
qed

lemma spec_drain_append:
  assumes "cn_socket k" "spec_drain h p k = (p', k')"
  shows "spec_drain h (p @ q) k = (if cn_socket k' then spec_drain h (p' @ q) k' else (p', k'))"
  using assms
proof (induction "length p" arbitrary: p k rule: less_induct)
  case less
  show ?case
  proof (cases rule: spec_drain_cases [of p h k])
    case wait
    then show ?thesis using less by simp
  next
    case (over e)
    then show ?thesis using over(3) [of "[]"] less by auto
  next
    case (full n)
    show ?thesis
    proof (cases "cn_socket (spec_deliver h (take n (drop 4 p)) k)")
      case True
      then have "spec_drain h (drop (4 + n) p) (spec_deliver h (take n (drop 4 p)) k) = (p', k')"
        using full(3) [of "[]"] less(3) by simp
      then show ?thesis using less(1) [OF _ True] full(1) full(3) [of q] True by simp
    next
      case False
      then show ?thesis using full(3) [of "[]"] full(3) [of q] less(3) by auto
    qed
  qed
qed

interpretation ipc_stream: byte_stream "spec_feed h" stream_ready for h
proof
  fix s and a b :: bytes
  assume r: "stream_ready s"
  obtain p k where s: "s = (p, k)" by (cases s)
  obtain p' k' where d: "spec_drain h (p @ a) k = (p', k')" by force
  show "spec_feed h (spec_feed h s a) b = spec_feed h s (a @ b)"
    using s d spec_drain_append [OF _ d, of b] by (auto simp: spec_feed_def)
  show "spec_feed h s [] = s" using r s by (auto simp: spec_feed_def stream_ready_def drained_stays)
  show "stream_ready (spec_feed h s a)"
    using r s d spec_drain_result [OF d] by (auto simp: spec_feed_def stream_ready_def)
qed

lemma receive_all_refines:
  assumes "client_inv c"
  obtains c' where "receive_all u h chunks c = Some (Inr c')" "client_inv c'"
    "client_view c' = foldl (spec_feed h) (client_view c) chunks"
proof -
  have "\<exists>c'. receive_all u h chunks c = Some (Inr c') \<and> client_inv c' \<and> client_view c' = foldl (spec_feed h) (client_view c) chunks"
    using assms
  proof (induction chunks arbitrary: c)
    case (Cons chunk chunks)
    show ?case
    proof (cases "cn_socket (cl_conn c)")
      case True
      obtain c1 where h: "handleData u h chunk c = Some (Inr c1)" "client_inv c1" "client_view c1 = spec_feed h (client_view c) chunk"
        by (rule handleData_refines [OF Cons.prems True])
      then show ?thesis using Cons.IH [OF h(2)] True by simp
    next
      case False
      then show ?thesis using Cons by (simp add: spec_feed_def client_view_def)
    qed
  qed simp
  then show thesis using that by blast
qed

text \<open>
  C10. The client is a stream parser. From any client whose cursors lie in its buffer and whose unconsumed
  bytes hold no complete frame, whatever the message callback does (send, close, throw) and whatever
  memory \<^verbatim>\<open>allocUnsafe\<close> returns: the chunks are processed without an exception leaving \<^verbatim>\<open>handleData\<close> and
  without the growing loop running forever, the cursors stay in the buffer, and the connection (frames
  and errors delivered, bytes written, whether it is closed) and the unconsumed bytes are those the
  abstract parser reaches on the concatenation of the chunks: chunk boundaries do not matter.
\<close>

theorem ipc_client_refines:
  assumes "client_inv c" "stream_ready (client_view c)"
  shows "\<exists>c'. receive_all u h chunks c = Some (Inr c') \<and> client_inv c' \<and> stream_ready (client_view c') \<and>
    client_view c' = spec_feed h (client_view c) (concat chunks)"
proof -
  obtain c' where "receive_all u h chunks c = Some (Inr c')" "client_inv c'" "client_view c' = foldl (spec_feed h) (client_view c) chunks"
    by (rule receive_all_refines [OF assms(1)])
  then show ?thesis using ipc_stream.foldl_feed [OF assms(2)] ipc_stream.feed_ready [OF assms(2)] by metis
qed

lemma new_client_ready:
  "client_inv (on_connect (connect_client (new_client u)))" "unconsumed (on_connect (connect_client (new_client u))) = []"
  by (simp_all add: new_client_def connect_client_def on_connect_def client_inv_def unconsumed_def INITIAL_BUF_SIZE_def
      del: length_greater_0_conv)

lemma empty_ready: "unconsumed c = [] \<Longrightarrow> stream_ready (client_view c)"
  by (simp add: stream_ready_def client_view_def drained_def)

theorem ipc_client_refines_witness:
  "\<exists>c'. receive_all (\<lambda>i. of_nat i) (\<lambda>ev f. ([HClose], None)) [[0, 0], [0, 3, 8], [1, 97], [0, 0]]
      (on_connect (connect_client (new_client (\<lambda>i. 0)))) = Some (Inr c') \<and>
    client_view c' = spec_feed (\<lambda>ev f. ([HClose], None)) (client_view (on_connect (connect_client (new_client (\<lambda>i. 0))))) [0, 0, 0, 3, 8, 1, 97, 0, 0]"
proof -
  let ?c = "on_connect (connect_client (new_client (\<lambda>i. 0)))"
  have "concat [[0, 0], [0, 3, 8], [1, 97], [0, 0]] = ([0, 0, 0, 3, 8, 1, 97, 0, 0] :: bytes)" by simp
  then show ?thesis using ipc_client_refines [OF new_client_ready(1) empty_ready [OF new_client_ready(2)],
      of "\<lambda>i. of_nat i" "\<lambda>ev f. ([HClose], None)" "[[0, 0], [0, 3, 8], [1, 97], [0, 0]]" "\<lambda>i. 0"] by metis
qed

subsubsection \<open>What is sent is what is delivered\<close>

fun send_all :: "BinaryFrame list \<Rightarrow> IpcClient \<Rightarrow> exn + IpcClient" where
  "send_all [] c = Inr c"
| "send_all (f # fs) c = bindE (send_client f c) (send_all fs)"

lemma send_all_written:
  assumes "send_all fs c = Inr c'"
  obtains outs where "cn_written (cl_conn c') = cn_written (cl_conn c) @ outs" "list_all2 (\<lambda>f out. encodeFrame f = Inr out) fs outs"
  using assms
proof (induction fs arbitrary: c thesis)
  case (Cons f fs)
  obtain c1 where c1: "send_client f c = Inr c1" "send_all fs c1 = Inr c'" using Cons.prems(2) by (auto simp: bindE_Inr)
  obtain out where o: "encodeFrame f = Inr out" "cn_written (cl_conn c1) = cn_written (cl_conn c) @ [out]"
    using c1(1) by (auto simp: send_client_def send_conn_def bindE_Inr split: if_splits)
  obtain outs where "cn_written (cl_conn c') = cn_written (cl_conn c1) @ outs" "list_all2 (\<lambda>f out. encodeFrame f = Inr out) fs outs"
    using Cons.IH c1(2) by blast
  then show ?case using Cons.prems(1) [of "out # outs"] o by simp
qed simp

lemma spec_drain_frames:
  assumes "list_all2 (\<lambda>f out. encodeFrame f = Inr out) fs outs" "list_all wf_frame fs"
    and "\<And>ev f. h ev f = ([], None)" "cn_socket k"
  shows "spec_drain h (concat outs) k = ([], k\<lparr>cn_events := cn_events k @ map Message fs\<rparr>)"
  using assms
proof (induction fs outs arbitrary: k rule: list_all2_induct)
  case Nil
  then show ?case by (simp add: drained_stays drained_def)
next
  case (Cons f fs out outs)
  obtain body where b: "encodeBody f = Inr body" "length body \<le> MAX_FRAME_SIZE" "out = be 4 (length body) @ body"
    using Cons.hyps(1) by (auto simp: encodeFrame_Inr)
  have "length body < 256 ^ 4" "length body \<le> MAX_MESSAGE_SIZE" using b(2) by (simp_all add: MAX_FRAME_SIZE_def MAX_MESSAGE_SIZE_def)
  moreover have "decodeFrame body = Inr f" using decode_encodeBody [OF _ b(1)] Cons.prems by simp
  then have d: "spec_deliver h body k = emit (Message f) k" using Cons.prems by (simp add: spec_deliver_def)
  ultimately have "spec_drain h (out @ concat outs) k = spec_drain h (concat outs) (emit (Message f) k)"
    using b(3) Cons.prems by (subst spec_drain.simps) (simp add: Let_def)
  moreover have "spec_drain h (concat outs) (emit (Message f) k) =
      ([], (emit (Message f) k)\<lparr>cn_events := cn_events (emit (Message f) k) @ map Message fs\<rparr>)"
    using Cons.prems(1,3) by (intro Cons.IH Cons.prems(2)) simp_all
  ultimately show ?case by (simp add: emit_def)
qed

text \<open>
  C11. Frames sent are frames delivered, exactly once and in order: when a client sends well-formed
  frames and the bytes it has written reach another client, cut into chunks anywhere, a callback that
  neither throws nor closes is called with exactly those frames in that order, no error is reported, the
  connection stays open and no byte is left over.
\<close>

theorem ipc_delivery:
  assumes "send_all fs a = Inr a'" "list_all wf_frame fs"
    and "concat chunks = concat (drop (length (cn_written (cl_conn a))) (cn_written (cl_conn a')))"
    and "client_inv c" "cn_socket (cl_conn c)" "unconsumed c = []"
    and "\<And>ev f. h ev f = ([], None)"
  shows "\<exists>c'. receive_all u h chunks c = Some (Inr c') \<and> unconsumed c' = [] \<and> client_inv c' \<and>
    cl_conn c' = (cl_conn c)\<lparr>cn_events := cn_events (cl_conn c) @ map Message fs\<rparr>"
proof -
  obtain outs where o: "cn_written (cl_conn a') = cn_written (cl_conn a) @ outs" "list_all2 (\<lambda>f out. encodeFrame f = Inr out) fs outs"
    by (rule send_all_written [OF assms(1)])
  obtain c' where c': "receive_all u h chunks c = Some (Inr c')" "client_inv c'" "client_view c' = foldl (spec_feed h) (client_view c) chunks"
    by (rule receive_all_refines [OF assms(4)])
  have "client_view c' = spec_feed h (client_view c) (concat outs)"
    using c'(3) o(1) assms(3) ipc_stream.foldl_feed [OF empty_ready [OF assms(6)]] by simp
  then show ?thesis using c'(1,2) assms(5,6) spec_drain_frames [OF o(2) assms(2,7,5)] by (simp add: client_view_def spec_feed_def)
qed

theorem ipc_delivery_witness:
  "\<exists>a' c'. send_all [TerminateExecution [97], Log [97] (Some 1) [0x20AC]] (on_connect (connect_client (new_client (\<lambda>i. 0)))) = Inr a' \<and>
    receive_all (\<lambda>i. 9) (\<lambda>ev f. ([], None)) (map (\<lambda>b. [b]) (concat (cn_written (cl_conn a')))) (on_connect (connect_client (new_client (\<lambda>i. 0)))) = Some (Inr c') \<and>
    cn_events (cl_conn c') = [Message (TerminateExecution [97]), Message (Log [97] (Some 1) [0x20AC])]"
proof -
  let ?c = "on_connect (connect_client (new_client (\<lambda>i. 0)))" and ?fs = "[TerminateExecution [97], Log [97] (Some 1) [0x20AC]]"
  have k: "cn_socket (cl_conn ?c)" "cn_connected (cl_conn ?c)" "cn_written (cl_conn ?c) = []" "cn_events (cl_conn ?c) = []"
    by (simp_all add: on_connect_def connect_client_def new_client_def)
  have "\<exists>out. encodeFrame (TerminateExecution [97]) = Inr out" "\<exists>out. encodeFrame (Log [97] (Some 1) [0x20AC]) = Inr out"
    by (simp_all add: encodeFrame_Inr encoded_simps utf8_encode_def utf8_cp_def MAX_FRAME_SIZE_def)
  then obtain a' where a: "send_all ?fs ?c = Inr a'" using k by (auto simp: send_client_def send_conn_def)
  have w: "list_all wf_frame ?fs" by (simp add: wf_string_def wf_byte_def scalar_def)
  have "\<exists>c'. receive_all (\<lambda>i. 9) (\<lambda>ev f. ([], None)) (map (\<lambda>b. [b]) (concat (cn_written (cl_conn a')))) ?c = Some (Inr c') \<and> unconsumed c' = [] \<and>
      client_inv c' \<and> cl_conn c' = (cl_conn ?c)\<lparr>cn_events := cn_events (cl_conn ?c) @ map Message ?fs\<rparr>"
    by (rule ipc_delivery [OF a w _ new_client_ready(1) k(1) new_client_ready(2)]) (simp_all add: k(3) concat_map_singleton)
  then show ?thesis using a k(4) by auto
qed

text \<open>
  A remote close leaves the cursors where they are, and \<^verbatim>\<open>connect\<close> does not reset them: the bytes of a frame
  cut off by the first connection are taken as the start of the stream of the next one.
\<close>

lemma reconnect_keeps_partial: "unconsumed (on_connect (connect_client (on_close c))) = unconsumed c"
  by (simp add: unconsumed_def on_connect_def connect_client_def on_close_def)

end
