(* ===== verification/Socket_Table.thy ===== *)
theory Socket_Table
  imports Process_Table Permissions
begin

section \<open>Sockets\<close>

text \<open>
  \<^verbatim>\<open>kernel/socket-table.ts\<close>. Socket objects live in a heap (\<open>st_objs\<close>), because background pumps and
  suspended calls keep them after the table has dropped them; \<open>st_sockets\<close> holds the numbers of the
  table's \<^verbatim>\<open>Map\<close> in insertion order. Every \<^verbatim>\<open>await\<close> is a task: the call returns \<open>Pending\<close> with the task's
  number, and \<open>resume\<close> runs what follows the await with the reply of the host, of the file system, or
  with the wake-up that ended a wait. A run of calls and resumptions is any interleaving.

  The host adapter and the file system are reached by requests that are logged (\<open>st_host\<close>) and answered
  by the argument of \<open>resume\<close>; the network policy is a parameter. The signal states of processes belong
  to the process table; \<open>st_signals\<close> is the part of it that sockets see, \<open>signalDelivered\<close> the process
  table's own update of it.
\<close>

subsection \<open>Constants and addresses\<close>

definition AF_INET :: int where "AF_INET = 2"
definition AF_INET6 :: int where "AF_INET6 = 10"
definition AF_UNIX :: int where "AF_UNIX = 1"
definition SOCK_STREAM :: int where "SOCK_STREAM = 1"
definition SOCK_DGRAM :: int where "SOCK_DGRAM = 2"
definition SOL_SOCKET :: nat where "SOL_SOCKET = 1"
definition SO_REUSEADDR :: nat where "SO_REUSEADDR = 2"
definition SO_RCVBUF :: nat where "SO_RCVBUF = 8"
definition MSG_PEEK :: u32 where "MSG_PEEK = 0x2"
definition MSG_DONTWAIT :: u32 where "MSG_DONTWAIT = 0x40"
definition MAX_DATAGRAM_SIZE :: nat where "MAX_DATAGRAM_SIZE = 65535"
definition MAX_UDP_QUEUE_DEPTH :: nat where "MAX_UDP_QUEUE_DEPTH = 128"
definition EPHEMERAL_PORT_MIN :: nat where "EPHEMERAL_PORT_MIN = 49152"
definition EPHEMERAL_PORT_MAX :: nat where "EPHEMERAL_PORT_MAX = 65535"
definition S_IFSOCK :: u32 where "S_IFSOCK = 0xC000"
definition SA_RESTART :: u32 where "SA_RESTART = 0x10000000"

datatype SockAddr = InetAddr string nat | UnixAddr string

definition isInetAddr :: "SockAddr \<Rightarrow> bool" where
  "isInetAddr a = (case a of InetAddr _ _ \<Rightarrow> True | UnixAddr _ \<Rightarrow> False)"

definition isUnixAddr :: "SockAddr \<Rightarrow> bool" where
  "isUnixAddr a = (case a of InetAddr _ _ \<Rightarrow> False | UnixAddr _ \<Rightarrow> True)"

fun addrKey :: "SockAddr \<Rightarrow> string" where
  "addrKey (InetAddr h p) = h @ '':'' @ dec p"
| "addrKey (UnixAddr p) = p"

text \<open>The key \<^verbatim>\<open>level:optname\<close> of an option stands for the pair of its two numbers.\<close>

definition optKey :: "nat \<Rightarrow> nat \<Rightarrow> nat \<times> nat" where
  "optKey level optname = (level, optname)"

definition isWildcard :: "string \<Rightarrow> bool" where
  "isWildcard h \<longleftrightarrow> h = ''0.0.0.0'' \<or> h = ''::''"

subsection \<open>Sockets, requests and tasks\<close>

datatype SocketState = Created | Bound | Listening | ConnectingState | Connected | ReadClosed | WriteClosed | Closed

record UdpDatagram =
  ud_data :: bytes
  ud_srcAddr :: SockAddr

record KernelSocket =
  ks_domain :: int
  ks_type :: int
  ks_protocol :: int
  ks_state :: SocketState
  ks_nonBlocking :: bool
  ks_localAddr :: "SockAddr option"
  ks_remoteAddr :: "SockAddr option"
  ks_options :: "(nat \<times> nat, int) jsmap"
  ks_pid :: pid
  ks_readBuffer :: "bytes list"
  ks_readWaiters :: WaitQueue
  ks_backlog :: "nat list"
  ks_backlogLimit :: nat
  ks_acceptWaiters :: WaitQueue
  ks_peerId :: "nat option"
  ks_peerWriteClosed :: bool
  ks_external :: bool
  ks_hostSocket :: "nat option"
  ks_hostListener :: "nat option"
  ks_datagramQueue :: "UdpDatagram list"
  ks_hostUdpSocket :: "nat option"
  ks_requestedEphemeralPort :: bool

datatype how = HowRead | HowWrite | HowBoth

datatype HostCall =
    TcpConnect string nat
  | TcpListen string nat
  | UdpBindHost string nat
  | UdpSend nat bytes string nat
  | HostWrite nat bytes "SockAddr option"
  | HostRead nat
  | HostAccept nat
  | HostUdpRecv nat
  | HostShutdown nat how
  | HostSetOption nat nat nat int
  | HostClose nat
  | VfsExists path
  | VfsWriteEmpty path
  | VfsChmod path u32

text \<open>A wait of \<^verbatim>\<open>waitForSocketWake\<close>: the handle in the socket's queue, and with signals the handle in the
  process's queue and the delivery count at the start.\<close>

record SocketWait =
  sw_handle :: nat
  sw_signal :: "(nat \<times> nat) option"

datatype Task =
    TBindExists nat SockAddr u32
  | TFileWritten path u32
  | TFileMode path
  | TListenHost nat
  | TConnectExists nat SockAddr
  | TConnectHost nat SockAddr
  | TExternalConnect nat SockAddr
  | TUdpBind nat
  | TAccept nat pid SocketWait
  | TRecv nat nat u32 pid SocketWait
  | TReadPump nat nat
  | TAcceptPump nat nat
  | TUdpPump nat nat
  | THostWrite nat

datatype Reply =
    ReplyExists bool
  | ReplyDone
  | ReplySocket nat
  | ReplyListener nat nat
  | ReplyUdp nat
  | ReplyData "bytes option"
  | ReplyDatagram bytes string nat
  | ReplyFail exn
  | WokenBySocket
  | WokenBySignal

datatype Value = VUnit | VSocket "nat option" | VData "bytes option"

datatype Outcome = Returned Value | Pending nat

datatype SockEvent =
    Arrived nat bytes
  | Taken nat bytes
  | Dropped nat bytes

record SockTable =
  st_objs :: "nat \<Rightarrow> KernelSocket option"
  st_sockets :: "nat list"
  st_nextSocketId :: nat
  st_listeners :: "(string, nat) jsmap"
  st_udpBindings :: "(string, nat) jsmap"
  st_alive :: "pid \<Rightarrow> bool"
  st_signals :: "pid \<Rightarrow> ProcessSignalState option"
  st_tasks :: "(nat, Task) jsmap"
  st_nextTask :: nat
  st_done :: "(nat \<times> (exn + Value)) list"
  st_host :: "HostCall list"
  st_log :: "SockEvent list"

datatype net_op = NetListen | NetConnect

type_synonym NetworkAccessRequest = "net_op \<times> string option"

record NetEnv =
  ne_maxSockets :: nat
  ne_networkCheck :: "NetworkAccessRequest PermissionCheck option"
  ne_hostAdapter :: bool
  ne_vfs :: bool
  ne_getSignalState :: bool
  ne_processExists :: bool

definition st_new :: SockTable where
  "st_new = \<lparr>st_objs = (\<lambda>_. None), st_sockets = [], st_nextSocketId = 1, st_listeners = [], st_udpBindings = [],
     st_alive = (\<lambda>_. True), st_signals = (\<lambda>_. None), st_tasks = [], st_nextTask = 0, st_done = [], st_host = [], st_log = []\<rparr>"

definition new_socket :: "int \<Rightarrow> int \<Rightarrow> int \<Rightarrow> pid \<Rightarrow> KernelSocket" where
  "new_socket domain type protocol pid =
     \<lparr>ks_domain = domain, ks_type = type, ks_protocol = protocol, ks_state = Created, ks_nonBlocking = False,
      ks_localAddr = None, ks_remoteAddr = None, ks_options = [], ks_pid = pid, ks_readBuffer = [],
      ks_readWaiters = wq_new, ks_backlog = [], ks_backlogLimit = 0, ks_acceptWaiters = wq_new, ks_peerId = None,
      ks_peerWriteClosed = False, ks_external = False, ks_hostSocket = None, ks_hostListener = None,
      ks_datagramQueue = [], ks_hostUdpSocket = None, ks_requestedEphemeralPort = False\<rparr>"

subsection \<open>Access\<close>

definition upd :: "nat \<Rightarrow> (KernelSocket \<Rightarrow> KernelSocket) \<Rightarrow> SockTable \<Rightarrow> SockTable" where
  "upd sid f st = st\<lparr>st_objs := (st_objs st)(sid := map_option f (st_objs st sid))\<rparr>"

definition request :: "HostCall \<Rightarrow> SockTable \<Rightarrow> SockTable" where
  "request c st = st\<lparr>st_host := st_host st @ [c]\<rparr>"

definition logEvent :: "SockEvent \<Rightarrow> SockTable \<Rightarrow> SockTable" where
  "logEvent ev st = st\<lparr>st_log := st_log st @ [ev]\<rparr>"

definition suspend :: "nat \<Rightarrow> Task \<Rightarrow> SockTable \<Rightarrow> SockTable" where
  "suspend tok t st = st\<lparr>st_tasks := mput tok t (st_tasks st)\<rparr>"

text \<open>A new task for an await: the number the caller gets.\<close>

definition spawn_task :: "Task \<Rightarrow> SockTable \<Rightarrow> nat \<times> SockTable" where
  "spawn_task t st = (st_nextTask st, suspend (st_nextTask st) t (st\<lparr>st_nextTask := Suc (st_nextTask st)\<rparr>))"

definition finish :: "nat \<Rightarrow> exn + Value \<Rightarrow> SockTable \<Rightarrow> SockTable" where
  "finish tok r st = st\<lparr>st_tasks := mdel tok (st_tasks st), st_done := st_done st @ [(tok, r)]\<rparr>"

definition end_task :: "nat \<Rightarrow> SockTable \<Rightarrow> SockTable" where
  "end_task tok st = st\<lparr>st_tasks := mdel tok (st_tasks st)\<rparr>"

definition st_get :: "nat \<Rightarrow> SockTable \<Rightarrow> KernelSocket option" where
  "st_get sid st = (if sid \<in> set (st_sockets st) then st_objs st sid else None)"

definition requireSocket :: "nat \<Rightarrow> SockTable \<Rightarrow> KernelSocket res" where
  "requireSocket sid st = (case st_get sid st of None \<Rightarrow> Inl EBADF | Some k \<Rightarrow> Inr k)"

definition withSocket :: "nat \<Rightarrow> (KernelSocket \<Rightarrow> 'a res \<times> SockTable) \<Rightarrow> SockTable \<Rightarrow> 'a res \<times> SockTable" where
  "withSocket sid f st = (case requireSocket sid st of Inl e \<Rightarrow> (Inl e, st) | Inr k \<Rightarrow> f k)"

definition wakeReader :: "KernelSocket \<Rightarrow> KernelSocket" where
  "wakeReader k = k\<lparr>ks_readWaiters := snd (wq_wakeOne (ks_readWaiters k))\<rparr>"

definition wakeReaders :: "KernelSocket \<Rightarrow> KernelSocket" where
  "wakeReaders k = k\<lparr>ks_readWaiters := snd (wq_wakeAll (ks_readWaiters k))\<rparr>"

definition wakeAcceptor :: "KernelSocket \<Rightarrow> KernelSocket" where
  "wakeAcceptor k = k\<lparr>ks_acceptWaiters := snd (wq_wakeOne (ks_acceptWaiters k))\<rparr>"

definition wakeAcceptors :: "KernelSocket \<Rightarrow> KernelSocket" where
  "wakeAcceptors k = k\<lparr>ks_acceptWaiters := snd (wq_wakeAll (ks_acceptWaiters k))\<rparr>"

definition st_size :: "SockTable \<Rightarrow> nat" where
  "st_size st = length (st_sockets st)"

definition st_create :: "NetEnv \<Rightarrow> int \<Rightarrow> int \<Rightarrow> int \<Rightarrow> pid \<Rightarrow> SockTable \<Rightarrow> nat res \<times> SockTable" where
  "st_create env domain type protocol pid st =
     (if ne_maxSockets env \<le> st_size st then (Inl EMFILE, st)
      else if ne_processExists env \<and> \<not> st_alive st pid then (Inl ESRCH, st)
      else (let sid = st_nextSocketId st
            in (Inr sid, st\<lparr>st_nextSocketId := Suc sid, st_objs := (st_objs st)(sid \<mapsto> new_socket domain type protocol pid),
                            st_sockets := st_sockets st @ [sid]\<rparr>)))"

definition checkNetworkPermission :: "NetEnv \<Rightarrow> net_op \<Rightarrow> SockAddr option \<Rightarrow> unit res" where
  "checkNetworkPermission env op addr =
     (let hostname = (case addr of Some (InetAddr h _) \<Rightarrow> Some h | _ \<Rightarrow> None)
      in checkPermission (ne_networkCheck env) (op, hostname))"

subsection \<open>Addresses in use\<close>

definition overlaps :: "SockTable \<Rightarrow> string \<Rightarrow> nat \<Rightarrow> nat \<Rightarrow> bool" where
  "overlaps st h p existingId =
     (case st_get existingId st of
        None \<Rightarrow> False
      | Some k \<Rightarrow> (case ks_localAddr k of
                     Some (InetAddr h' p') \<Rightarrow> p' = p \<and> (isWildcard h \<or> isWildcard h')
                   | _ \<Rightarrow> False))"

definition addrInUse :: "(string, nat) jsmap \<Rightarrow> SockAddr \<Rightarrow> KernelSocket \<Rightarrow> SockTable \<Rightarrow> bool" where
  "addrInUse bindings addr k st =
     (case addr of
        UnixAddr p \<Rightarrow> mhas bindings p
      | InetAddr h p \<Rightarrow>
          if mget (ks_options k) (optKey SOL_SOCKET SO_REUSEADDR) = Some 1 then False
          else mhas bindings (addrKey addr) \<or> list_ex (overlaps st h p) (map snd bindings))"

definition isAddrInUse :: "SockAddr \<Rightarrow> KernelSocket \<Rightarrow> SockTable \<Rightarrow> bool" where
  "isAddrInUse addr k st = addrInUse (st_listeners st) addr k st"

definition isUdpAddrInUse :: "SockAddr \<Rightarrow> KernelSocket \<Rightarrow> SockTable \<Rightarrow> bool" where
  "isUdpAddrInUse addr k st = addrInUse (st_udpBindings st) addr k st"

fun first_free :: "(nat \<Rightarrow> bool) \<Rightarrow> nat list \<Rightarrow> nat option" where
  "first_free inUse [] = None"
| "first_free inUse (p # ps) = (if inUse p then first_free inUse ps else Some p)"

text \<open>The flag \<^verbatim>\<open>requestedEphemeralPort\<close> is set on the socket even when no port is found.\<close>

definition assignEphemeralPort :: "SockAddr \<Rightarrow> nat \<Rightarrow> KernelSocket \<Rightarrow> SockTable \<Rightarrow> SockAddr res \<times> SockTable" where
  "assignEphemeralPort addr sid k st =
     (case addr of
        UnixAddr _ \<Rightarrow> (Inr addr, upd sid (\<lambda>k. k\<lparr>ks_requestedEphemeralPort := False\<rparr>) st)
      | InetAddr h p \<Rightarrow>
          if p \<noteq> 0 then (Inr addr, upd sid (\<lambda>k. k\<lparr>ks_requestedEphemeralPort := False\<rparr>) st)
          else (let st1 = upd sid (\<lambda>k. k\<lparr>ks_requestedEphemeralPort := True\<rparr>) st;
                    inUse = (\<lambda>port. if ks_type k = SOCK_DGRAM then isUdpAddrInUse (InetAddr h port) k st else isAddrInUse (InetAddr h port) k st)
                in case first_free inUse [EPHEMERAL_PORT_MIN..<Suc EPHEMERAL_PORT_MAX] of
                     None \<Rightarrow> (Inl EADDRINUSE, st1)
                   | Some port \<Rightarrow> (Inr (InetAddr h port), st1)))"

subsection \<open>Looking up listeners\<close>

definition getListeningSocket :: "string \<Rightarrow> SockTable \<Rightarrow> nat option" where
  "getListeningSocket key st =
     (case mget (st_listeners st) key of
        None \<Rightarrow> None
      | Some sid \<Rightarrow> (case st_get sid st of
                       None \<Rightarrow> None
                     | Some k \<Rightarrow> if ks_state k \<noteq> Listening then None else Some sid))"

definition orElse :: "'a option \<Rightarrow> 'a option \<Rightarrow> 'a option" where
  "orElse a b = (case a of None \<Rightarrow> b | Some x \<Rightarrow> Some x)"

fun findListener :: "SockAddr \<Rightarrow> SockTable \<Rightarrow> nat option" where
  "findListener (InetAddr h p) st =
     orElse (getListeningSocket (h @ '':'' @ dec p) st)
       (orElse (getListeningSocket (''0.0.0.0:'' @ dec p) st) (getListeningSocket ('':::'' @ dec p) st))"
| "findListener (UnixAddr p) st = getListeningSocket p st"

definition getBoundUdpSocket :: "string \<Rightarrow> SockTable \<Rightarrow> nat option" where
  "getBoundUdpSocket key st =
     (case mget (st_udpBindings st) key of
        None \<Rightarrow> None
      | Some sid \<Rightarrow> (case st_get sid st of
                       None \<Rightarrow> None
                     | Some k \<Rightarrow> if ks_type k \<noteq> SOCK_DGRAM then None else Some sid))"

fun findBoundUdp :: "SockAddr \<Rightarrow> SockTable \<Rightarrow> nat option" where
  "findBoundUdp (InetAddr h p) st =
     orElse (getBoundUdpSocket (h @ '':'' @ dec p) st)
       (orElse (getBoundUdpSocket (''0.0.0.0:'' @ dec p) st) (getBoundUdpSocket ('':::'' @ dec p) st))"
| "findBoundUdp (UnixAddr p) st = getBoundUdpSocket p st"

subsection \<open>Options of host sockets\<close>

definition applySocketOptionToHostSocket :: "nat \<Rightarrow> nat \<Rightarrow> nat \<Rightarrow> int \<Rightarrow> SockTable \<Rightarrow> SockTable" where
  "applySocketOptionToHostSocket sid level optname optval st =
     (case st_objs st sid of
        None \<Rightarrow> st
      | Some k \<Rightarrow> if \<not> ks_external k then st
                  else (case ks_hostSocket k of None \<Rightarrow> st | Some hs \<Rightarrow> request (HostSetOption hs level optname optval) st))"

definition applySocketOptionsToHostSocket :: "nat \<Rightarrow> SockTable \<Rightarrow> SockTable" where
  "applySocketOptionsToHostSocket sid st =
     (case st_objs st sid of
        None \<Rightarrow> st
      | Some k \<Rightarrow> fold (\<lambda>((level, optname), v). applySocketOptionToHostSocket sid level optname v) (ks_options k) st)"

subsection \<open>Background pumps\<close>

text \<open>Each pump runs to its next \<^verbatim>\<open>await\<close>: its loop condition, then the request. \<open>tok\<close> is its task.\<close>

definition pump_read :: "nat \<Rightarrow> nat \<Rightarrow> nat \<Rightarrow> SockTable \<Rightarrow> SockTable" where
  "pump_read tok sid hs st =
     (case st_objs st sid of
        None \<Rightarrow> end_task tok st
      | Some k \<Rightarrow> if ks_state k \<noteq> Closed \<and> ks_hostSocket k = Some hs
                  then suspend tok (TReadPump sid hs) (request (HostRead hs) st) else end_task tok st)"

definition startReadPump :: "nat \<Rightarrow> SockTable \<Rightarrow> SockTable" where
  "startReadPump sid st =
     (case st_objs st sid of
        None \<Rightarrow> st
      | Some k \<Rightarrow> (case ks_hostSocket k of
                     None \<Rightarrow> st
                   | Some hs \<Rightarrow> pump_read (st_nextTask st) sid hs (st\<lparr>st_nextTask := Suc (st_nextTask st)\<rparr>)))"

definition pump_accept :: "nat \<Rightarrow> nat \<Rightarrow> nat \<Rightarrow> SockTable \<Rightarrow> SockTable" where
  "pump_accept tok sid hl st =
     (case st_objs st sid of
        None \<Rightarrow> end_task tok st
      | Some k \<Rightarrow> if ks_state k = Listening \<and> ks_hostListener k = Some hl
                  then suspend tok (TAcceptPump sid hl) (request (HostAccept hl) st) else end_task tok st)"

definition startAcceptPump :: "nat \<Rightarrow> SockTable \<Rightarrow> SockTable" where
  "startAcceptPump sid st =
     (case st_objs st sid of
        None \<Rightarrow> st
      | Some k \<Rightarrow> (case ks_hostListener k of
                     None \<Rightarrow> st
                   | Some hl \<Rightarrow> pump_accept (st_nextTask st) sid hl (st\<lparr>st_nextTask := Suc (st_nextTask st)\<rparr>)))"

definition pump_udp :: "nat \<Rightarrow> nat \<Rightarrow> nat \<Rightarrow> SockTable \<Rightarrow> SockTable" where
  "pump_udp tok sid hu st =
     (case st_objs st sid of
        None \<Rightarrow> end_task tok st
      | Some k \<Rightarrow> if ks_state k \<noteq> Closed \<and> ks_hostUdpSocket k = Some hu
                  then suspend tok (TUdpPump sid hu) (request (HostUdpRecv hu) st) else end_task tok st)"

definition startUdpRecvPump :: "nat \<Rightarrow> SockTable \<Rightarrow> SockTable" where
  "startUdpRecvPump sid st =
     (case st_objs st sid of
        None \<Rightarrow> st
      | Some k \<Rightarrow> (case ks_hostUdpSocket k of
                     None \<Rightarrow> st
                   | Some hu \<Rightarrow> pump_udp (st_nextTask st) sid hu (st\<lparr>st_nextTask := Suc (st_nextTask st)\<rparr>)))"

subsection \<open>Bind, listen\<close>

text \<open>\<^verbatim>\<open>createSocketFile\<close> up to its first await; \<open>TFileWritten\<close> goes on with the mode.\<close>

definition createSocketFile :: "nat \<Rightarrow> path \<Rightarrow> u32 \<Rightarrow> SockTable \<Rightarrow> SockTable" where
  "createSocketFile tok p mode st = suspend tok (TFileWritten p (S_IFSOCK OR (mode AND 0x1FF))) (request (VfsWriteEmpty p) st)"

text \<open>
  What follows the file system check of \<^verbatim>\<open>bind\<close>. It works on the socket object it got before the await.
  \<open>tok\<close> is \<open>Some\<close> task when the call is already suspended.
\<close>

definition bind_rest :: "NetEnv \<Rightarrow> nat \<Rightarrow> SockAddr \<Rightarrow> u32 \<Rightarrow> SockTable \<Rightarrow> unit res \<times> SockTable" where
  "bind_rest env sid boundAddr mode st =
     (case st_objs st sid of
        None \<Rightarrow> (Inl EBADF, st)
      | Some k \<Rightarrow>
          let set = upd sid (\<lambda>k. k\<lparr>ks_localAddr := Some boundAddr, ks_state := Bound\<rparr>) in
          if ks_type k = SOCK_DGRAM then
            (if isUdpAddrInUse boundAddr k st then (Inl EADDRINUSE, st)
             else (Inr (), set (st\<lparr>st_udpBindings := mput (addrKey boundAddr) sid (st_udpBindings st)\<rparr>)))
          else if isAddrInUse boundAddr k st then (Inl EADDRINUSE, st)
          else (Inr (), set (st\<lparr>st_listeners := mput (addrKey boundAddr) sid (st_listeners st)\<rparr>)))"

definition unix_file :: "NetEnv \<Rightarrow> SockAddr \<Rightarrow> path option" where
  "unix_file env addr = (case addr of UnixAddr p \<Rightarrow> if ne_vfs env then Some p else None | InetAddr _ _ \<Rightarrow> None)"

definition st_bind :: "NetEnv \<Rightarrow> nat \<Rightarrow> SockAddr \<Rightarrow> u32 \<Rightarrow> SockTable \<Rightarrow> Outcome res \<times> SockTable" where
  "st_bind env sid addr mode st = withSocket sid (\<lambda>k.
     if ks_state k \<noteq> Created then (Inl EINVAL, st)
     else (case assignEphemeralPort addr sid k st of
             (Inl e, st1) \<Rightarrow> (Inl e, st1)
           | (Inr boundAddr, st1) \<Rightarrow>
               (case unix_file env boundAddr of
                  Some p \<Rightarrow> (let (tok, st2) = spawn_task (TBindExists sid boundAddr mode) (request (VfsExists p) st1)
                             in (Inr (Pending tok), st2))
                | None \<Rightarrow> (case bind_rest env sid boundAddr mode st1 of
                             (Inl e, st2) \<Rightarrow> (Inl e, st2)
                           | (Inr _, st2) \<Rightarrow> (Inr (Returned VUnit), st2))))) st"

definition st_listen :: "NetEnv \<Rightarrow> nat \<Rightarrow> int \<Rightarrow> bool \<Rightarrow> SockTable \<Rightarrow> Outcome res \<times> SockTable" where
  "st_listen env sid backlogSize external st = withSocket sid (\<lambda>k.
     if ks_state k \<noteq> Bound then (Inl EINVAL, st)
     else (let st1 = upd sid (\<lambda>k. k\<lparr>ks_backlogLimit := nat (max 0 backlogSize)\<rparr>) st in
           case (case ks_localAddr k of
                   Some (InetAddr h p) \<Rightarrow> checkNetworkPermission env NetListen (Some (InetAddr h p))
                 | _ \<Rightarrow> Inr ()) of
             Inl e \<Rightarrow> (Inl e, st1)
           | Inr _ \<Rightarrow>
               (case ks_localAddr k of
                  Some (InetAddr h p) \<Rightarrow>
                    if external \<and> ne_hostAdapter env
                    then (let (tok, st2) = spawn_task (TListenHost sid)
                                 (request (TcpListen h (if ks_requestedEphemeralPort k then 0 else p)) st1)
                          in (Inr (Pending tok), st2))
                    else (Inr (Returned VUnit), upd sid (\<lambda>k. k\<lparr>ks_state := Listening\<rparr>) st1)
                | _ \<Rightarrow> (Inr (Returned VUnit), upd sid (\<lambda>k. k\<lparr>ks_state := Listening\<rparr>) st1)))) st"

text \<open>After \<^verbatim>\<open>tcpListen\<close> has resolved.\<close>

definition listen_rest :: "nat \<Rightarrow> nat \<Rightarrow> nat \<Rightarrow> SockTable \<Rightarrow> SockTable" where
  "listen_rest sid hl port st =
     (case st_objs st sid of
        None \<Rightarrow> st
      | Some k \<Rightarrow>
          (let st1 = upd sid (\<lambda>k. k\<lparr>ks_hostListener := Some hl, ks_external := True\<rparr>) st;
               st2 = (case ks_localAddr k of
                        Some (InetAddr h p) \<Rightarrow>
                          if ks_requestedEphemeralPort k \<or> p = 0
                          then (upd sid (\<lambda>k. k\<lparr>ks_localAddr := Some (InetAddr h port)\<rparr>) st1)
                                 \<lparr>st_listeners := mput (addrKey (InetAddr h port)) sid (mdel (addrKey (InetAddr h p)) (st_listeners st1))\<rparr>
                          else st1
                      | _ \<Rightarrow> st1)
           in startAcceptPump sid (upd sid (\<lambda>k. k\<lparr>ks_state := Listening\<rparr>) st2)))"


subsection \<open>Waiting\<close>

text \<open>\<^verbatim>\<open>waitForSocketWake\<close> up to its await: handles are queued, an unknown process makes \<^verbatim>\<open>getSignalState\<close> throw.\<close>

definition enqueue_reader :: "nat \<Rightarrow> SockTable \<Rightarrow> nat \<times> SockTable" where
  "enqueue_reader sid st =
     (case st_objs st sid of
        None \<Rightarrow> (0, st)
      | Some k \<Rightarrow> (let (h, q) = wq_enqueue None (ks_readWaiters k) in (h, upd sid (\<lambda>k. k\<lparr>ks_readWaiters := q\<rparr>) st)))"

definition enqueue_acceptor :: "nat \<Rightarrow> SockTable \<Rightarrow> nat \<times> SockTable" where
  "enqueue_acceptor sid st =
     (case st_objs st sid of
        None \<Rightarrow> (0, st)
      | Some k \<Rightarrow> (let (h, q) = wq_enqueue None (ks_acceptWaiters k) in (h, upd sid (\<lambda>k. k\<lparr>ks_acceptWaiters := q\<rparr>) st)))"

definition waitForSocketWake :: "NetEnv \<Rightarrow> (SockTable \<Rightarrow> nat \<times> SockTable) \<Rightarrow> pid \<Rightarrow> SockTable \<Rightarrow> SocketWait res \<times> SockTable" where
  "waitForSocketWake env enq pid st =
     (if \<not> ne_getSignalState env
      then (let (h, st1) = enq st in (Inr \<lparr>sw_handle = h, sw_signal = None\<rparr>, st1))
      else case st_signals st pid of
             None \<Rightarrow> (Inl ESRCH, st)
           | Some sg \<Rightarrow>
               (let (h, st1) = enq st;
                    (g, q) = wq_enqueue None (ss_waiters sg)
                in (Inr \<lparr>sw_handle = h, sw_signal = Some (g, ss_seq sg)\<rparr>,
                    st1\<lparr>st_signals := (st_signals st1)(pid \<mapsto> sg\<lparr>ss_waiters := q\<rparr>)\<rparr>)))"

text \<open>The \<^verbatim>\<open>finally\<close> block, and the outcome of the race: \<open>Inl EINTR\<close> when a signal without \<^verbatim>\<open>SA_RESTART\<close> won.\<close>

definition wait_cleanup :: "(nat \<Rightarrow> KernelSocket \<Rightarrow> KernelSocket) \<Rightarrow> nat \<Rightarrow> pid \<Rightarrow> SocketWait \<Rightarrow> SockTable \<Rightarrow> SockTable" where
  "wait_cleanup rm sid pid w st =
     (let st1 = upd sid (rm (sw_handle w)) st
      in case sw_signal w of
           None \<Rightarrow> st1
         | Some (g, _) \<Rightarrow> st1\<lparr>st_signals := (st_signals st1)(pid := map_option (\<lambda>sg. sg\<lparr>ss_waiters := wq_remove g (ss_waiters sg)\<rparr>) (st_signals st1 pid))\<rparr>)"

definition rm_reader :: "nat \<Rightarrow> KernelSocket \<Rightarrow> KernelSocket" where
  "rm_reader h k = k\<lparr>ks_readWaiters := wq_remove h (ks_readWaiters k)\<rparr>"

definition rm_acceptor :: "nat \<Rightarrow> KernelSocket \<Rightarrow> KernelSocket" where
  "rm_acceptor h k = k\<lparr>ks_acceptWaiters := wq_remove h (ks_acceptWaiters k)\<rparr>"

definition interrupted :: "pid \<Rightarrow> SocketWait \<Rightarrow> Reply \<Rightarrow> SockTable \<Rightarrow> bool" where
  "interrupted pid w winner st =
     (case (winner, sw_signal w, st_signals st pid) of
        (WokenBySignal, Some (_, startSeq), Some sg) \<Rightarrow> ss_seq sg \<noteq> startSeq \<and> ss_lastFlags sg AND SA_RESTART = 0
      | _ \<Rightarrow> False)"

text \<open>A wait can end by the handle that was settled.\<close>

definition wake_possible :: "WaitQueue option \<Rightarrow> pid \<Rightarrow> SocketWait \<Rightarrow> Reply \<Rightarrow> SockTable \<Rightarrow> bool" where
  "wake_possible q pid w winner st =
     (case winner of
        WokenBySocket \<Rightarrow> (case q of None \<Rightarrow> False | Some q \<Rightarrow> isSettled q (sw_handle w))
      | WokenBySignal \<Rightarrow> (case (sw_signal w, st_signals st pid) of
                            (Some (g, _), Some sg) \<Rightarrow> isSettled (ss_waiters sg) g
                          | _ \<Rightarrow> False)
      | _ \<Rightarrow> False)"

definition signalDelivered :: "pid \<Rightarrow> int \<Rightarrow> u32 \<Rightarrow> SockTable \<Rightarrow> SockTable" where
  "signalDelivered pid sig flags st =
     st\<lparr>st_signals := (st_signals st)(pid := map_option (recordSignalDelivery sig flags) (st_signals st pid))\<rparr>"

subsection \<open>Accept\<close>

text \<open>\<^verbatim>\<open>acceptBlocking\<close> up to its return or its next await; \<open>tok\<close> is its task.\<close>

definition accept_turn :: "NetEnv \<Rightarrow> nat \<Rightarrow> nat \<Rightarrow> pid \<Rightarrow> SockTable \<Rightarrow> SockTable" where
  "accept_turn env tok sid pid st =
     (case st_objs st sid of
        None \<Rightarrow> st
      | Some k \<Rightarrow>
          (case ks_backlog k of
             c # cs \<Rightarrow> finish tok (Inr (VSocket (Some c))) (upd sid (\<lambda>k. k\<lparr>ks_backlog := cs\<rparr>) st)
           | [] \<Rightarrow>
               (case waitForSocketWake env (enqueue_acceptor sid) pid st of
                  (Inl e, st1) \<Rightarrow> finish tok (Inl (KErr e)) st1
                | (Inr w, st1) \<Rightarrow> suspend tok (TAccept sid pid w) st1)))"

definition st_accept :: "NetEnv \<Rightarrow> nat \<Rightarrow> pid option \<Rightarrow> SockTable \<Rightarrow> Outcome res \<times> SockTable" where
  "st_accept env sid block st = withSocket sid (\<lambda>k.
     if ks_state k \<noteq> Listening then (Inl EINVAL, st)
     else if ks_backlog k = [] \<and> ks_nonBlocking k then (Inl EAGAIN, st)
     else case block of
            None \<Rightarrow> (case ks_backlog k of
                       [] \<Rightarrow> (Inr (Returned (VSocket None)), st)
                     | c # cs \<Rightarrow> (Inr (Returned (VSocket (Some c))), upd sid (\<lambda>k. k\<lparr>ks_backlog := cs\<rparr>) st))
          | Some pid \<Rightarrow> (let tok = st_nextTask st
                         in (Inr (Pending tok), accept_turn env tok sid pid (st\<lparr>st_nextTask := Suc tok\<rparr>)))) st"

subsection \<open>Shutdown, pairs, options\<close>

definition shutdownWrite :: "nat \<Rightarrow> SockTable \<Rightarrow> SockTable" where
  "shutdownWrite sid st =
     (case st_objs st sid of
        None \<Rightarrow> st
      | Some k \<Rightarrow> (case ks_peerId k of
                     None \<Rightarrow> st
                   | Some p \<Rightarrow> if p \<in> set (st_sockets st) then upd p (\<lambda>k. wakeReaders (k\<lparr>ks_peerWriteClosed := True\<rparr>)) st else st))"

definition shutdownRead :: "nat \<Rightarrow> SockTable \<Rightarrow> SockTable" where
  "shutdownRead sid st =
     (case st_objs st sid of
        None \<Rightarrow> st
      | Some k \<Rightarrow> logEvent (Dropped sid (concat (ks_readBuffer k))) (upd sid (\<lambda>k. wakeReaders (k\<lparr>ks_readBuffer := []\<rparr>)) st))"

definition setState :: "nat \<Rightarrow> SocketState \<Rightarrow> SockTable \<Rightarrow> SockTable" where
  "setState sid s = upd sid (\<lambda>k. k\<lparr>ks_state := s\<rparr>)"

definition st_shutdown :: "nat \<Rightarrow> how \<Rightarrow> SockTable \<Rightarrow> unit res \<times> SockTable" where
  "st_shutdown sid how st = withSocket sid (\<lambda>k.
     if ks_state k \<noteq> Connected \<and> ks_state k \<noteq> WriteClosed \<and> ks_state k \<noteq> ReadClosed then (Inl ENOTCONN, st)
     else (let st1 = (case ks_hostSocket k of None \<Rightarrow> st | Some hs \<Rightarrow> request (HostShutdown hs how) st)
           in (Inr (), case how of
                 HowBoth \<Rightarrow> setState sid Closed (shutdownRead sid (shutdownWrite sid st1))
               | HowWrite \<Rightarrow> setState sid (if ks_state k = ReadClosed then Closed else WriteClosed) (shutdownWrite sid st1)
               | HowRead \<Rightarrow> setState sid (if ks_state k = WriteClosed then Closed else ReadClosed) (shutdownRead sid st1)))) st"

definition st_socketpair :: "NetEnv \<Rightarrow> int \<Rightarrow> int \<Rightarrow> int \<Rightarrow> pid \<Rightarrow> SockTable \<Rightarrow> (nat \<times> nat) res \<times> SockTable" where
  "st_socketpair env domain type protocol pid st =
     (case st_create env domain type protocol pid st of
        (Inl e, st1) \<Rightarrow> (Inl e, st1)
      | (Inr id1, st1) \<Rightarrow>
          (case st_create env domain type protocol pid st1 of
             (Inl e, st2) \<Rightarrow> (Inl e, st2)
           | (Inr id2, st2) \<Rightarrow>
               (Inr (id1, id2),
                upd id2 (\<lambda>k. k\<lparr>ks_peerId := Some id1, ks_state := Connected\<rparr>)
                  (upd id1 (\<lambda>k. k\<lparr>ks_peerId := Some id2, ks_state := Connected\<rparr>) st2))))"

definition st_setsockopt :: "nat \<Rightarrow> nat \<Rightarrow> nat \<Rightarrow> int \<Rightarrow> SockTable \<Rightarrow> unit res \<times> SockTable" where
  "st_setsockopt sid level optname optval st = withSocket sid (\<lambda>k.
     (Inr (), applySocketOptionToHostSocket sid level optname optval
        (upd sid (\<lambda>k. k\<lparr>ks_options := mput (optKey level optname) optval (ks_options k)\<rparr>) st))) st"

definition st_setNonBlocking :: "nat \<Rightarrow> bool \<Rightarrow> SockTable \<Rightarrow> unit res \<times> SockTable" where
  "st_setNonBlocking sid b st = withSocket sid (\<lambda>k. (Inr (), upd sid (\<lambda>k. k\<lparr>ks_nonBlocking := b\<rparr>) st)) st"

definition st_getsockopt :: "nat \<Rightarrow> nat \<Rightarrow> nat \<Rightarrow> SockTable \<Rightarrow> int option res" where
  "st_getsockopt sid level optname st =
     (case requireSocket sid st of Inl e \<Rightarrow> Inl e | Inr k \<Rightarrow> Inr (mget (ks_options k) (optKey level optname)))"

definition getLocalAddr :: "nat \<Rightarrow> SockTable \<Rightarrow> SockAddr res" where
  "getLocalAddr sid st =
     (case requireSocket sid st of Inl e \<Rightarrow> Inl e | Inr k \<Rightarrow> (case ks_localAddr k of None \<Rightarrow> Inl EINVAL | Some a \<Rightarrow> Inr a))"

definition getRemoteAddr :: "nat \<Rightarrow> SockTable \<Rightarrow> SockAddr res" where
  "getRemoteAddr sid st =
     (case requireSocket sid st of Inl e \<Rightarrow> Inl e | Inr k \<Rightarrow> (case ks_remoteAddr k of None \<Rightarrow> Inl ENOTCONN | Some a \<Rightarrow> Inr a))"

subsection \<open>Connect\<close>

definition hasColon :: "string \<Rightarrow> bool" where
  "hasColon h \<longleftrightarrow> CHR '':'' \<in> set h"

definition loopbackHost :: "string \<Rightarrow> string" where
  "loopbackHost h = (if hasColon h then ''::1'' else ''127.0.0.1'')"

text \<open>The loopback part: the server-side socket is created and linked, and queued at the listener.\<close>

definition connect_loopback :: "NetEnv \<Rightarrow> nat \<Rightarrow> SockAddr \<Rightarrow> nat \<Rightarrow> SockTable \<Rightarrow> unit res \<times> SockTable" where
  "connect_loopback env sid addr lid st =
     (case (st_objs st lid, st_objs st sid) of
        (Some l, Some k) \<Rightarrow>
          if ks_backlogLimit l \<le> length (ks_backlog l) then (Inl ECONNREFUSED, st)
          else (case st_create env (ks_domain l) (ks_type l) (ks_protocol l) (ks_pid l) st of
                  (Inl e, st1) \<Rightarrow> (Inl e, st1)
                | (Inr srv, st1) \<Rightarrow>
                    (let st2 = upd sid (\<lambda>k. k\<lparr>ks_remoteAddr := Some addr, ks_peerId := Some srv, ks_state := Connected\<rparr>) st1;
                         st3 = upd srv (\<lambda>s. s\<lparr>ks_localAddr := ks_localAddr l, ks_remoteAddr := ks_localAddr k,
                                             ks_peerId := Some sid, ks_state := Connected\<rparr>) st2
                     in (Inr (), upd lid (\<lambda>l. wakeAcceptor (l\<lparr>ks_backlog := ks_backlog l @ [srv]\<rparr>)) st3)))
      | _ \<Rightarrow> (Inl ECONNREFUSED, st))"

text \<open>What follows the file system check: the listener lookup and the external route.\<close>

definition connect_rest :: "NetEnv \<Rightarrow> nat \<Rightarrow> SockAddr \<Rightarrow> SockTable \<Rightarrow> Task option res \<times> SockTable" where
  "connect_rest env sid addr st =
     (case findListener addr st of
        Some lid \<Rightarrow> (case connect_loopback env sid addr lid st of (Inl e, st1) \<Rightarrow> (Inl e, st1) | (Inr _, st1) \<Rightarrow> (Inr None, st1))
      | None \<Rightarrow>
          (case addr of
             UnixAddr _ \<Rightarrow> (Inl ECONNREFUSED, st)
           | InetAddr h p \<Rightarrow>
               (case checkNetworkPermission env NetConnect (Some addr) of
                  Inl e \<Rightarrow> (Inl e, st)
                | Inr _ \<Rightarrow>
                    if \<not> ne_hostAdapter env then (Inl ECONNREFUSED, st)
                    else (case st_objs st sid of
                            None \<Rightarrow> (Inl EBADF, st)
                          | Some k \<Rightarrow>
                              if ks_nonBlocking k
                              then (Inl EINPROGRESS, snd (spawn_task (TExternalConnect sid addr)
                                     (request (TcpConnect h p) (upd sid (\<lambda>k. k\<lparr>ks_state := ConnectingState, ks_remoteAddr := Some addr\<rparr>) st))))
                              else (Inr (Some (TConnectHost sid addr)), request (TcpConnect h p) st)))))"

text \<open>A client without a local address gets a loopback one; the file system check comes before the rest.\<close>

definition auto_bind :: "nat \<Rightarrow> KernelSocket \<Rightarrow> SockAddr \<Rightarrow> SockTable \<Rightarrow> unit res \<times> SockTable" where
  "auto_bind sid k addr st =
     (case (ks_localAddr k, addr) of
        (None, InetAddr h _) \<Rightarrow>
          (case assignEphemeralPort (InetAddr (loopbackHost h) 0) sid k st of
             (Inl e, st1) \<Rightarrow> (Inl e, st1)
           | (Inr a, st1) \<Rightarrow> (Inr (), upd sid (\<lambda>k. k\<lparr>ks_localAddr := Some a\<rparr>) st1))
      | _ \<Rightarrow> (Inr (), st))"

definition connect_from :: "NetEnv \<Rightarrow> nat \<Rightarrow> SockAddr \<Rightarrow> SockTable \<Rightarrow> Outcome res \<times> SockTable" where
  "connect_from env sid addr st =
     (case unix_file env addr of
        Some p \<Rightarrow> (let (tok, st1) = spawn_task (TConnectExists sid addr) (request (VfsExists p) st) in (Inr (Pending tok), st1))
      | None \<Rightarrow>
          (case connect_rest env sid addr st of
             (Inl e, st1) \<Rightarrow> (Inl e, st1)
           | (Inr None, st1) \<Rightarrow> (Inr (Returned VUnit), st1)
           | (Inr (Some t), st1) \<Rightarrow> (let (tok, st2) = spawn_task t st1 in (Inr (Pending tok), st2))))"

definition st_connect :: "NetEnv \<Rightarrow> nat \<Rightarrow> SockAddr \<Rightarrow> SockTable \<Rightarrow> Outcome res \<times> SockTable" where
  "st_connect env sid addr st = withSocket sid (\<lambda>k.
     if ks_state k \<noteq> Created \<and> ks_state k \<noteq> Bound then (Inl EINVAL, st)
     else (case auto_bind sid k addr st of
             (Inl e, st1) \<Rightarrow> (Inl e, st1)
           | (Inr _, st1) \<Rightarrow> connect_from env sid addr st1)) st"

text \<open>After \<^verbatim>\<open>tcpConnect\<close> has resolved, for the blocking and the background connect.\<close>

definition attach_host :: "nat \<Rightarrow> SockAddr \<Rightarrow> nat \<Rightarrow> SockTable \<Rightarrow> SockTable" where
  "attach_host sid addr hs st =
     startReadPump sid (applySocketOptionsToHostSocket sid
       (upd sid (\<lambda>k. k\<lparr>ks_state := Connected, ks_external := True, ks_remoteAddr := Some addr, ks_hostSocket := Some hs\<rparr>) st))"

definition still_open :: "nat \<Rightarrow> SockTable \<Rightarrow> bool" where
  "still_open sid st = (case st_get sid st of None \<Rightarrow> False | Some k \<Rightarrow> ks_state k \<noteq> Closed)"


subsection \<open>Send and receive\<close>

definition st_send :: "NetEnv \<Rightarrow> nat \<Rightarrow> bytes \<Rightarrow> SockTable \<Rightarrow> nat res \<times> SockTable" where
  "st_send env sid data st = withSocket sid (\<lambda>k.
     if ks_state k = WriteClosed \<or> ks_state k = Closed then (Inl EPIPE, st)
     else if ks_state k \<noteq> Connected \<and> ks_state k \<noteq> ReadClosed then (Inl ENOTCONN, st)
     else case (if ks_external k then checkNetworkPermission env NetConnect (ks_remoteAddr k) else Inr ()) of
            Inl e \<Rightarrow> (Inl e, st)
          | Inr _ \<Rightarrow>
              (case (ks_external k, ks_hostSocket k) of
                 (True, Some hs) \<Rightarrow>
                   (Inr (length data), snd (spawn_task (THostWrite sid) (request (HostWrite hs data (ks_remoteAddr k)) st)))
               | _ \<Rightarrow>
                   (case ks_peerId k of
                      None \<Rightarrow> (Inl EPIPE, st)
                    | Some p \<Rightarrow>
                        (case st_get p st of
                           None \<Rightarrow> (Inl EPIPE, upd sid (\<lambda>k. k\<lparr>ks_peerId := None\<rparr>) st)
                         | Some peer \<Rightarrow>
                             if (case mget (ks_options peer) (optKey SOL_SOCKET SO_RCVBUF) of
                                   None \<Rightarrow> False
                                 | Some rcvBuf \<Rightarrow> rcvBuf \<le> int (length (concat (ks_readBuffer peer))))
                             then (Inl EAGAIN, st)
                             else (Inr (length data),
                                   logEvent (Arrived p data) (upd p (\<lambda>k. wakeReader (k\<lparr>ks_readBuffer := ks_readBuffer k @ [data]\<rparr>)) st)))))) st"

text \<open>The loops of \<^verbatim>\<open>consumeFromBuffer\<close> and \<^verbatim>\<open>peekFromBuffer\<close>: the pieces taken and the chunks left.\<close>

fun consume_loop :: "nat \<Rightarrow> bytes list \<Rightarrow> bytes list \<times> bytes list" where
  "consume_loop remaining [] = ([], [])"
| "consume_loop remaining (chunk # chunks) =
     (if remaining = 0 then ([], chunk # chunks)
      else if length chunk \<le> remaining
      then (let (taken, rest) = consume_loop (remaining - length chunk) chunks in (chunk # taken, rest))
      else ([take remaining chunk], drop remaining chunk # chunks))"

definition consumeFromBuffer :: "nat \<Rightarrow> bytes list \<Rightarrow> bytes \<times> bytes list" where
  "consumeFromBuffer maxBytes buf = (let (taken, rest) = consume_loop maxBytes buf in (concat taken, rest))"

fun peek_loop :: "nat \<Rightarrow> bytes list \<Rightarrow> bytes list" where
  "peek_loop remaining [] = []"
| "peek_loop remaining (chunk # chunks) =
     (if remaining = 0 then []
      else if length chunk \<le> remaining then chunk # peek_loop (remaining - length chunk) chunks
      else take remaining chunk # peek_loop 0 chunks)"

definition peekFromBuffer :: "nat \<Rightarrow> bytes list \<Rightarrow> bytes" where
  "peekFromBuffer maxBytes buf = concat (peek_loop maxBytes buf)"

definition takeData :: "nat \<Rightarrow> nat \<Rightarrow> bool \<Rightarrow> KernelSocket \<Rightarrow> SockTable \<Rightarrow> bytes \<times> SockTable" where
  "takeData sid maxBytes peek k st =
     (if peek then (peekFromBuffer maxBytes (ks_readBuffer k), st)
      else (let (d, rest) = consumeFromBuffer maxBytes (ks_readBuffer k)
            in (d, logEvent (Taken sid d) (upd sid (\<lambda>k. k\<lparr>ks_readBuffer := rest\<rparr>) st))))"

text \<open>\<^verbatim>\<open>recv\<close> up to the point where it would block: \<open>None\<close> there, \<open>Some\<close> its result before.\<close>

definition recv_now :: "nat \<Rightarrow> nat \<Rightarrow> u32 \<Rightarrow> SockTable \<Rightarrow> (bytes option option) res \<times> SockTable" where
  "recv_now sid maxBytes flags st = withSocket sid (\<lambda>k.
     if ks_state k = ReadClosed \<or> ks_state k = Closed then (Inr (Some None), st)
     else if ks_state k \<noteq> Connected \<and> ks_state k \<noteq> WriteClosed then (Inl ENOTCONN, st)
     else if ks_readBuffer k \<noteq> []
       then (let (d, st1) = takeData sid maxBytes (flags AND MSG_PEEK \<noteq> 0) k st in (Inr (Some (Some d)), st1))
     else if (case ks_peerId k of None \<Rightarrow> True | Some p \<Rightarrow> p \<notin> set (st_sockets st)) \<or> ks_peerWriteClosed k
       then (Inr (Some None), st)
     else if ks_nonBlocking k \<or> flags AND MSG_DONTWAIT \<noteq> 0 then (Inl EAGAIN, st)
     else (Inr None, st)) st"

definition canBlockForRecv :: "nat \<Rightarrow> SockTable \<Rightarrow> bool" where
  "canBlockForRecv sid st =
     (case st_objs st sid of
        None \<Rightarrow> False
      | Some k \<Rightarrow>
          if ks_state k = ReadClosed \<or> ks_state k = Closed then False
          else if ks_readBuffer k \<noteq> [] then False
          else if ks_external k then \<not> ks_peerWriteClosed k
          else (case ks_peerId k of None \<Rightarrow> False | Some p \<Rightarrow> p \<in> set (st_sockets st)) \<and> \<not> ks_peerWriteClosed k)"

text \<open>\<^verbatim>\<open>recvBlocking\<close> up to its return or its next await.\<close>

definition recv_turn :: "NetEnv \<Rightarrow> nat \<Rightarrow> nat \<Rightarrow> nat \<Rightarrow> u32 \<Rightarrow> pid \<Rightarrow> SockTable \<Rightarrow> SockTable" where
  "recv_turn env tok sid maxBytes flags pid st =
     (case recv_now sid maxBytes flags st of
        (Inl e, st1) \<Rightarrow> finish tok (Inl (KErr e)) st1
      | (Inr (Some (Some d)), st1) \<Rightarrow> finish tok (Inr (VData (Some d))) st1
      | (Inr _, st1) \<Rightarrow>
          if \<not> canBlockForRecv sid st1 then finish tok (Inr (VData None)) st1
          else (case waitForSocketWake env (enqueue_reader sid) pid st1 of
                  (Inl e, st2) \<Rightarrow> finish tok (Inl (KErr e)) st2
                | (Inr w, st2) \<Rightarrow> suspend tok (TRecv sid maxBytes flags pid w) st2))"

definition st_recv :: "NetEnv \<Rightarrow> nat \<Rightarrow> nat \<Rightarrow> u32 \<Rightarrow> pid option \<Rightarrow> SockTable \<Rightarrow> Outcome res \<times> SockTable" where
  "st_recv env sid maxBytes flags block st =
     (case recv_now sid maxBytes flags st of
        (Inl e, st1) \<Rightarrow> (Inl e, st1)
      | (Inr (Some d), st1) \<Rightarrow> (Inr (Returned (VData d)), st1)
      | (Inr None, st1) \<Rightarrow>
          (case block of
             None \<Rightarrow> (Inr (Returned (VData None)), st1)
           | Some pid \<Rightarrow> (let tok = st_nextTask st1
                          in (Inr (Pending tok), recv_turn env tok sid maxBytes flags pid (st1\<lparr>st_nextTask := Suc tok\<rparr>)))))"

subsection \<open>Datagrams\<close>

definition getUdpSourceAddr :: "KernelSocket \<Rightarrow> SockAddr \<Rightarrow> SockAddr" where
  "getUdpSourceAddr k dest =
     (case ks_localAddr k of
        None \<Rightarrow> (case dest of InetAddr h p \<Rightarrow> InetAddr (loopbackHost h) 0 | UnixAddr p \<Rightarrow> UnixAddr p)
      | Some a \<Rightarrow> (case (a, dest) of
                     (InetAddr lh lp, InetAddr h p) \<Rightarrow> if isWildcard lh then InetAddr h lp else a
                   | _ \<Rightarrow> a))"

definition st_sendTo :: "NetEnv \<Rightarrow> nat \<Rightarrow> bytes \<Rightarrow> SockAddr \<Rightarrow> SockTable \<Rightarrow> nat res \<times> SockTable" where
  "st_sendTo env sid data dest st = withSocket sid (\<lambda>k.
     if ks_type k \<noteq> SOCK_DGRAM then (Inl EINVAL, st)
     else if MAX_DATAGRAM_SIZE < length data then (Inl EMSGSIZE, st)
     else case findBoundUdp dest st of
            Some t \<Rightarrow>
              (case st_objs st t of
                 None \<Rightarrow> (Inr (length data), st)
               | Some tk \<Rightarrow>
                   if MAX_UDP_QUEUE_DEPTH \<le> length (ks_datagramQueue tk) then (Inr (length data), st)
                   else (Inr (length data),
                         upd t (\<lambda>tk. wakeReader (tk\<lparr>ks_datagramQueue := ks_datagramQueue tk @
                            [\<lparr>ud_data = data, ud_srcAddr = getUdpSourceAddr k dest\<rparr>]\<rparr>)) st))
          | None \<Rightarrow>
              (case (ks_hostUdpSocket k, dest) of
                 (Some hu, InetAddr h p) \<Rightarrow>
                   if \<not> ne_hostAdapter env then (Inr (length data), st)
                   else (case checkNetworkPermission env NetConnect (Some dest) of
                           Inl e \<Rightarrow> (Inl e, st)
                         | Inr _ \<Rightarrow> (Inr (length data), request (UdpSend hu data h p) st))
               | _ \<Rightarrow> (Inr (length data), st))) st"

definition st_recvFrom :: "nat \<Rightarrow> nat \<Rightarrow> u32 \<Rightarrow> SockTable \<Rightarrow> (bytes \<times> SockAddr) option res \<times> SockTable" where
  "st_recvFrom sid maxBytes flags st = withSocket sid (\<lambda>k.
     if ks_type k \<noteq> SOCK_DGRAM then (Inl EINVAL, st)
     else case ks_datagramQueue k of
            d # ds \<Rightarrow>
              (Inr (Some (take maxBytes (ud_data d), ud_srcAddr d)),
               if flags AND MSG_PEEK \<noteq> 0 then st else upd sid (\<lambda>k. k\<lparr>ks_datagramQueue := ds\<rparr>) st)
          | [] \<Rightarrow> if flags AND MSG_DONTWAIT \<noteq> 0 then (Inl EAGAIN, st) else (Inr None, st)) st"

definition bindExternalUdp :: "NetEnv \<Rightarrow> nat \<Rightarrow> SockTable \<Rightarrow> Outcome res \<times> SockTable" where
  "bindExternalUdp env sid st = withSocket sid (\<lambda>k.
     if ks_type k \<noteq> SOCK_DGRAM then (Inl EINVAL, st)
     else if ks_state k \<noteq> Bound then (Inl EINVAL, st)
     else case ks_localAddr k of
            Some (InetAddr h p) \<Rightarrow>
              if \<not> ne_hostAdapter env then (Inl EINVAL, st)
              else (case checkNetworkPermission env NetListen (Some (InetAddr h p)) of
                      Inl e \<Rightarrow> (Inl e, st)
                    | Inr _ \<Rightarrow> (let (tok, st1) = spawn_task (TUdpBind sid) (request (UdpBindHost h p) st) in (Inr (Pending tok), st1)))
          | _ \<Rightarrow> (Inl EINVAL, st)) st"

subsection \<open>Closing\<close>

definition closeHost :: "nat option \<Rightarrow> SockTable \<Rightarrow> SockTable" where
  "closeHost ho st = (case ho of None \<Rightarrow> st | Some h \<Rightarrow> request (HostClose h) st)"

definition unregister :: "nat \<Rightarrow> SockAddr option \<Rightarrow> SockTable \<Rightarrow> SockTable" where
  "unregister sid addr st =
     (case addr of
        None \<Rightarrow> st
      | Some a \<Rightarrow>
          st\<lparr>st_listeners := (if mget (st_listeners st) (addrKey a) = Some sid then mdel (addrKey a) (st_listeners st) else st_listeners st),
             st_udpBindings := (if mget (st_udpBindings st) (addrKey a) = Some sid then mdel (addrKey a) (st_udpBindings st) else st_udpBindings st)\<rparr>)"

text \<open>\<^verbatim>\<open>destroySocket\<close> after the pending connections are gone.\<close>

definition destroy_self :: "nat \<Rightarrow> SockTable \<Rightarrow> SockTable" where
  "destroy_self sid st =
     (case st_objs st sid of
        None \<Rightarrow> st
      | Some k \<Rightarrow>
          (let st1 = (case ks_peerId k of
                        None \<Rightarrow> st
                      | Some p \<Rightarrow> if p \<in> set (st_sockets st) then upd p (\<lambda>k. wakeReaders (k\<lparr>ks_peerId := None\<rparr>)) st else st);
               st2 = closeHost (ks_hostUdpSocket k) (closeHost (ks_hostListener k) (closeHost (ks_hostSocket k) st1));
               st3 = unregister sid (ks_localAddr k) st2;
               st4 = upd sid (\<lambda>k. wakeAcceptors (wakeReaders (k\<lparr>ks_backlog := [], ks_hostSocket := None, ks_hostListener := None,
                       ks_hostUdpSocket := None, ks_state := Closed, ks_readBuffer := [], ks_datagramQueue := []\<rparr>))) st3
           in logEvent (Dropped sid (concat (ks_readBuffer k))) (st4\<lparr>st_sockets := removeAll sid (st_sockets st4)\<rparr>)))"

fun destroy_pending :: "(nat \<Rightarrow> SockTable \<Rightarrow> SockTable option) \<Rightarrow> nat list \<Rightarrow> SockTable \<Rightarrow> SockTable option" where
  "destroy_pending destroy [] st = Some st"
| "destroy_pending destroy (p # ps) st =
     (if p \<in> set (st_sockets st)
      then (case destroy p st of None \<Rightarrow> None | Some st1 \<Rightarrow> destroy_pending destroy ps st1)
      else destroy_pending destroy ps st)"

text \<open>The recursion through backlogs; running out of the first argument stands for not returning.\<close>

primrec destroySocket :: "nat \<Rightarrow> nat \<Rightarrow> SockTable \<Rightarrow> SockTable option" where
  "destroySocket 0 sid st = None"
| "destroySocket (Suc n) sid st =
     (case st_objs st sid of
        None \<Rightarrow> Some st
      | Some k \<Rightarrow> map_option (destroy_self sid) (destroy_pending (destroySocket n) (ks_backlog k) st))"

text \<open>A chain of live sockets without repetition is no longer than the table.\<close>

definition destroy :: "nat \<Rightarrow> SockTable \<Rightarrow> SockTable option" where
  "destroy sid st = destroySocket (Suc (Suc (st_size st))) sid st"

definition st_close :: "nat \<Rightarrow> pid \<Rightarrow> SockTable \<Rightarrow> (unit res \<times> SockTable) option" where
  "st_close sid pid st =
     (case requireSocket sid st of
        Inl e \<Rightarrow> Some (Inl e, st)
      | Inr k \<Rightarrow> if ks_pid k \<noteq> pid then Some (Inl EBADF, st)
                 else map_option (\<lambda>st1. (Inr (), st1)) (destroy sid st))"

record SockPoll =
  sp_readable :: bool
  sp_writable :: bool
  sp_hangup :: bool

definition st_poll :: "nat \<Rightarrow> SockTable \<Rightarrow> SockPoll res" where
  "st_poll sid st =
     (case requireSocket sid st of
        Inl e \<Rightarrow> Inl e
      | Inr k \<Rightarrow>
          (let closed = (ks_state k = Closed);
               readClosed = (ks_state k = ReadClosed);
               pendingAccept = (ks_state k = Listening \<and> ks_backlog k \<noteq> [])
           in Inr \<lparr>sp_readable = (if ks_type k = SOCK_DGRAM then ks_datagramQueue k \<noteq> [] \<or> closed
                                  else ks_readBuffer k \<noteq> [] \<or> pendingAccept \<or> closed \<or> readClosed),
                   sp_writable = (ks_state k = Connected \<or> ks_state k = Created \<or> readClosed \<or>
                                  ks_type k = SOCK_DGRAM \<and> ks_state k = Bound),
                   sp_hangup = (closed \<or> readClosed \<or> ks_state k = WriteClosed)\<rparr>))"

text \<open>The loop over the live map: an entry destroyed on the way is not visited.\<close>

fun close_owned :: "pid \<Rightarrow> nat list \<Rightarrow> SockTable \<Rightarrow> SockTable option" where
  "close_owned pid [] st = Some st"
| "close_owned pid (sid # sids) st =
     (case st_get sid st of
        Some k \<Rightarrow> if ks_pid k = pid
                  then (case destroy sid st of None \<Rightarrow> None | Some st1 \<Rightarrow> close_owned pid sids st1)
                  else close_owned pid sids st
      | None \<Rightarrow> close_owned pid sids st)"

definition closeAllForProcess :: "pid \<Rightarrow> SockTable \<Rightarrow> SockTable option" where
  "closeAllForProcess pid st = close_owned pid (st_sockets st) st"

definition dispose_one :: "nat \<Rightarrow> SockTable \<Rightarrow> SockTable" where
  "dispose_one sid st =
     (case st_objs st sid of
        None \<Rightarrow> st
      | Some k \<Rightarrow> closeHost (ks_hostUdpSocket k) (closeHost (ks_hostListener k) (closeHost (ks_hostSocket k)
                    (upd sid (\<lambda>k. wakeAcceptors (wakeReaders k)) st))))"

definition st_disposeAll :: "SockTable \<Rightarrow> SockTable" where
  "st_disposeAll st = (fold dispose_one (st_sockets st) st)\<lparr>st_sockets := [], st_listeners := [], st_udpBindings := []\<rparr>"

subsection \<open>Resuming\<close>

text \<open>The pump after \<^verbatim>\<open>hostListener.accept()\<close>: an exception of \<^verbatim>\<open>create\<close> ends it.\<close>

definition accepted :: "NetEnv \<Rightarrow> nat \<Rightarrow> nat \<Rightarrow> nat \<Rightarrow> nat \<Rightarrow> SockTable \<Rightarrow> SockTable" where
  "accepted env tok sid hl hs st =
     (case st_objs st sid of
        None \<Rightarrow> end_task tok st
      | Some k \<Rightarrow>
          if ks_backlogLimit k \<le> length (ks_backlog k) then pump_accept tok sid hl (request (HostClose hs) st)
          else (case st_create env (ks_domain k) (ks_type k) (ks_protocol k) (ks_pid k) st of
                  (Inl e, st1) \<Rightarrow> end_task tok st1
                | (Inr c, st1) \<Rightarrow>
                    (let st2 = upd c (\<lambda>c. c\<lparr>ks_state := Connected, ks_external := True, ks_hostSocket := Some hs, ks_localAddr := ks_localAddr k\<rparr>) st1;
                         st3 = startReadPump c (applySocketOptionsToHostSocket c st2)
                     in pump_accept tok sid hl (upd sid (\<lambda>k. wakeAcceptor (k\<lparr>ks_backlog := ks_backlog k @ [c]\<rparr>)) st3))))"

text \<open>A step that does nothing else than report success or the rejection.\<close>

definition settle :: "nat \<Rightarrow> Reply \<Rightarrow> SockTable \<Rightarrow> SockTable" where
  "settle tok r st =
     (case r of ReplyDone \<Rightarrow> finish tok (Inr VUnit) st | ReplyFail e \<Rightarrow> finish tok (Inl e) st | _ \<Rightarrow> st)"

definition resume_bind :: "NetEnv \<Rightarrow> nat \<Rightarrow> nat \<Rightarrow> SockAddr \<Rightarrow> u32 \<Rightarrow> Reply \<Rightarrow> SockTable \<Rightarrow> SockTable" where
  "resume_bind env tok sid addr mode r st =
     (case r of
        ReplyExists True \<Rightarrow> finish tok (Inl (KErr EADDRINUSE)) st
      | ReplyExists False \<Rightarrow>
          (case bind_rest env sid addr mode st of
             (Inl e, st1) \<Rightarrow> finish tok (Inl (KErr e)) st1
           | (Inr _, st1) \<Rightarrow> createSocketFile tok (addrKey addr) mode st1)
      | ReplyFail e \<Rightarrow> finish tok (Inl e) st
      | _ \<Rightarrow> st)"

definition resume_file :: "nat \<Rightarrow> path \<Rightarrow> u32 \<Rightarrow> Reply \<Rightarrow> SockTable \<Rightarrow> SockTable" where
  "resume_file tok p m r st =
     (case r of
        ReplyDone \<Rightarrow> suspend tok (TFileMode p) (request (VfsChmod p m) st)
      | ReplyFail e \<Rightarrow> finish tok (Inl e) st
      | _ \<Rightarrow> st)"

definition resume_listen :: "nat \<Rightarrow> nat \<Rightarrow> Reply \<Rightarrow> SockTable \<Rightarrow> SockTable" where
  "resume_listen tok sid r st =
     (case r of
        ReplyListener hl port \<Rightarrow> finish tok (Inr VUnit) (listen_rest sid hl port st)
      | ReplyFail e \<Rightarrow> finish tok (Inl e) st
      | _ \<Rightarrow> st)"

definition resume_connectExists :: "NetEnv \<Rightarrow> nat \<Rightarrow> nat \<Rightarrow> SockAddr \<Rightarrow> Reply \<Rightarrow> SockTable \<Rightarrow> SockTable" where
  "resume_connectExists env tok sid addr r st =
     (case r of
        ReplyExists False \<Rightarrow> finish tok (Inl (KErr ECONNREFUSED)) st
      | ReplyExists True \<Rightarrow>
          (case connect_rest env sid addr st of
             (Inl e, st1) \<Rightarrow> finish tok (Inl (KErr e)) st1
           | (Inr None, st1) \<Rightarrow> finish tok (Inr VUnit) st1
           | (Inr (Some t), st1) \<Rightarrow> suspend tok t st1)
      | ReplyFail e \<Rightarrow> finish tok (Inl e) st
      | _ \<Rightarrow> st)"

definition resume_connectHost :: "nat \<Rightarrow> nat \<Rightarrow> SockAddr \<Rightarrow> Reply \<Rightarrow> SockTable \<Rightarrow> SockTable" where
  "resume_connectHost tok sid addr r st =
     (case r of
        ReplySocket hs \<Rightarrow> finish tok (Inr VUnit) (attach_host sid addr hs st)
      | ReplyFail e \<Rightarrow> finish tok (Inl e) st
      | _ \<Rightarrow> st)"

text \<open>The callbacks of \<^verbatim>\<open>startExternalConnect\<close>.\<close>

definition resume_external :: "nat \<Rightarrow> nat \<Rightarrow> SockAddr \<Rightarrow> Reply \<Rightarrow> SockTable \<Rightarrow> SockTable" where
  "resume_external tok sid addr r st =
     (case r of
        ReplySocket hs \<Rightarrow> end_task tok (if still_open sid st then attach_host sid addr hs st else request (HostClose hs) st)
      | ReplyFail e \<Rightarrow>
          end_task tok (if still_open sid st
            then upd sid (\<lambda>k. wakeReaders (k\<lparr>ks_state := Created, ks_remoteAddr := None, ks_external := False, ks_hostSocket := None\<rparr>)) st
            else st)
      | _ \<Rightarrow> st)"

definition resume_udpBind :: "nat \<Rightarrow> nat \<Rightarrow> Reply \<Rightarrow> SockTable \<Rightarrow> SockTable" where
  "resume_udpBind tok sid r st =
     (case r of
        ReplyUdp hu \<Rightarrow> finish tok (Inr VUnit) (startUdpRecvPump sid (upd sid (\<lambda>k. k\<lparr>ks_hostUdpSocket := Some hu, ks_external := True\<rparr>) st))
      | ReplyFail e \<Rightarrow> finish tok (Inl e) st
      | _ \<Rightarrow> st)"

definition resume_accept :: "NetEnv \<Rightarrow> nat \<Rightarrow> nat \<Rightarrow> pid \<Rightarrow> SocketWait \<Rightarrow> Reply \<Rightarrow> SockTable \<Rightarrow> SockTable" where
  "resume_accept env tok sid pid w winner st =
     (if \<not> wake_possible (map_option ks_acceptWaiters (st_objs st sid)) pid w winner st then st
      else (let st1 = wait_cleanup rm_acceptor sid pid w st in
            if interrupted pid w winner st then finish tok (Inl (KErr EINTR)) st1
            else if map_option ks_state (st_objs st1 sid) \<noteq> Some Listening then finish tok (Inl (KErr EINVAL)) st1
            else accept_turn env tok sid pid st1))"

definition resume_recv :: "NetEnv \<Rightarrow> nat \<Rightarrow> nat \<Rightarrow> nat \<Rightarrow> u32 \<Rightarrow> pid \<Rightarrow> SocketWait \<Rightarrow> Reply \<Rightarrow> SockTable \<Rightarrow> SockTable" where
  "resume_recv env tok sid maxBytes flags pid w winner st =
     (if \<not> wake_possible (map_option ks_readWaiters (st_objs st sid)) pid w winner st then st
      else (let st1 = wait_cleanup rm_reader sid pid w st in
            if interrupted pid w winner st then finish tok (Inl (KErr EINTR)) st1
            else recv_turn env tok sid maxBytes flags pid st1))"

definition resume_readPump :: "nat \<Rightarrow> nat \<Rightarrow> nat \<Rightarrow> Reply \<Rightarrow> SockTable \<Rightarrow> SockTable" where
  "resume_readPump tok sid hs r st =
     (case r of
        ReplyData None \<Rightarrow> end_task tok (upd sid (\<lambda>k. wakeReaders (k\<lparr>ks_peerWriteClosed := True\<rparr>)) st)
      | ReplyData (Some d) \<Rightarrow>
          (case st_objs st sid of
             None \<Rightarrow> end_task tok st
           | Some _ \<Rightarrow> pump_read tok sid hs (logEvent (Arrived sid d) (upd sid (\<lambda>k. wakeReader (k\<lparr>ks_readBuffer := ks_readBuffer k @ [d]\<rparr>)) st)))
      | ReplyFail e \<Rightarrow>
          end_task tok (upd sid (\<lambda>k. if ks_state k \<noteq> Closed then wakeReaders (k\<lparr>ks_peerWriteClosed := True\<rparr>) else k) st)
      | _ \<Rightarrow> st)"

definition resume_acceptPump :: "NetEnv \<Rightarrow> nat \<Rightarrow> nat \<Rightarrow> nat \<Rightarrow> Reply \<Rightarrow> SockTable \<Rightarrow> SockTable" where
  "resume_acceptPump env tok sid hl r st =
     (case r of
        ReplySocket hs \<Rightarrow> accepted env tok sid hl hs st
      | ReplyFail e \<Rightarrow> end_task tok st
      | _ \<Rightarrow> st)"

definition queue_datagram :: "nat \<Rightarrow> UdpDatagram \<Rightarrow> SockTable \<Rightarrow> SockTable" where
  "queue_datagram sid d st =
     (case st_objs st sid of
        None \<Rightarrow> st
      | Some k \<Rightarrow> if length (ks_datagramQueue k) < MAX_UDP_QUEUE_DEPTH
                  then upd sid (\<lambda>k. wakeReader (k\<lparr>ks_datagramQueue := ks_datagramQueue k @ [d]\<rparr>)) st else st)"

definition resume_udpPump :: "nat \<Rightarrow> nat \<Rightarrow> nat \<Rightarrow> Reply \<Rightarrow> SockTable \<Rightarrow> SockTable" where
  "resume_udpPump tok sid hu r st =
     (case r of
        ReplyDatagram d h p \<Rightarrow> pump_udp tok sid hu (queue_datagram sid \<lparr>ud_data = d, ud_srcAddr = InetAddr h p\<rparr> st)
      | ReplyFail e \<Rightarrow> end_task tok st
      | _ \<Rightarrow> st)"

definition resume_write :: "nat \<Rightarrow> nat \<Rightarrow> Reply \<Rightarrow> SockTable \<Rightarrow> SockTable" where
  "resume_write tok sid r st =
     (case r of
        ReplyDone \<Rightarrow> end_task tok st
      | ReplyFail e \<Rightarrow> end_task tok (upd sid (\<lambda>k. wakeReaders (k\<lparr>ks_state := Closed\<rparr>)) st)
      | _ \<Rightarrow> st)"

fun resume_task :: "NetEnv \<Rightarrow> nat \<Rightarrow> Task \<Rightarrow> Reply \<Rightarrow> SockTable \<Rightarrow> SockTable" where
  "resume_task env tok (TBindExists sid addr mode) = resume_bind env tok sid addr mode"
| "resume_task env tok (TFileWritten p m) = resume_file tok p m"
| "resume_task env tok (TFileMode p) = settle tok"
| "resume_task env tok (TListenHost sid) = resume_listen tok sid"
| "resume_task env tok (TConnectExists sid addr) = resume_connectExists env tok sid addr"
| "resume_task env tok (TConnectHost sid addr) = resume_connectHost tok sid addr"
| "resume_task env tok (TExternalConnect sid addr) = resume_external tok sid addr"
| "resume_task env tok (TUdpBind sid) = resume_udpBind tok sid"
| "resume_task env tok (TAccept sid pid w) = resume_accept env tok sid pid w"
| "resume_task env tok (TRecv sid maxBytes flags pid w) = resume_recv env tok sid maxBytes flags pid w"
| "resume_task env tok (TReadPump sid hs) = resume_readPump tok sid hs"
| "resume_task env tok (TAcceptPump sid hl) = resume_acceptPump env tok sid hl"
| "resume_task env tok (TUdpPump sid hu) = resume_udpPump tok sid hu"
| "resume_task env tok (THostWrite sid) = resume_write tok sid"

definition resume :: "NetEnv \<Rightarrow> nat \<Rightarrow> Reply \<Rightarrow> SockTable \<Rightarrow> SockTable" where
  "resume env tok r st = (case mget (st_tasks st) tok of None \<Rightarrow> st | Some t \<Rightarrow> resume_task env tok t r st)"


subsection \<open>The machine\<close>

datatype sock_call =
    CCreate int int int pid
  | CBind nat SockAddr u32
  | CListen nat int bool
  | CAccept nat "pid option"
  | CShutdown nat how
  | CSocketpair int int int pid
  | CSetsockopt nat nat nat int
  | CSetNonBlocking nat bool
  | CConnect nat SockAddr
  | CSend nat bytes
  | CRecv nat nat u32 "pid option"
  | CSendTo nat bytes SockAddr
  | CRecvFrom nat nat u32
  | CBindExternalUdp nat
  | CClose nat pid
  | CCloseAll pid
  | CDispose
  | CResume nat Reply
  | CSignal pid int u32
  | CProcesses "pid \<Rightarrow> bool" "pid \<Rightarrow> ProcessSignalState option"

fun sock_step :: "NetEnv \<Rightarrow> sock_call \<Rightarrow> SockTable \<Rightarrow> SockTable option" where
  "sock_step env (CCreate d t p pid) st = Some (snd (st_create env d t p pid st))"
| "sock_step env (CBind sid a m) st = Some (snd (st_bind env sid a m st))"
| "sock_step env (CListen sid n e) st = Some (snd (st_listen env sid n e st))"
| "sock_step env (CAccept sid b) st = Some (snd (st_accept env sid b st))"
| "sock_step env (CShutdown sid how) st = Some (snd (st_shutdown sid how st))"
| "sock_step env (CSocketpair d t p pid) st = Some (snd (st_socketpair env d t p pid st))"
| "sock_step env (CSetsockopt sid l n v) st = Some (snd (st_setsockopt sid l n v st))"
| "sock_step env (CSetNonBlocking sid b) st = Some (snd (st_setNonBlocking sid b st))"
| "sock_step env (CConnect sid a) st = Some (snd (st_connect env sid a st))"
| "sock_step env (CSend sid d) st = Some (snd (st_send env sid d st))"
| "sock_step env (CRecv sid n f b) st = Some (snd (st_recv env sid n f b st))"
| "sock_step env (CSendTo sid d a) st = Some (snd (st_sendTo env sid d a st))"
| "sock_step env (CRecvFrom sid n f) st = Some (snd (st_recvFrom sid n f st))"
| "sock_step env (CBindExternalUdp sid) st = Some (snd (bindExternalUdp env sid st))"
| "sock_step env (CClose sid pid) st = map_option snd (st_close sid pid st)"
| "sock_step env (CCloseAll pid) st = closeAllForProcess pid st"
| "sock_step env CDispose st = Some (st_disposeAll st)"
| "sock_step env (CResume tok r) st = Some (resume env tok r st)"
| "sock_step env (CSignal pid sig flags) st = Some (signalDelivered pid sig flags st)"
| "sock_step env (CProcesses a s) st = Some (st\<lparr>st_alive := a, st_signals := s\<rparr>)"

text \<open>A run in which some call does not return is \<open>None\<close>.\<close>

definition sock_run1 :: "NetEnv \<Rightarrow> sock_call \<Rightarrow> SockTable option \<Rightarrow> SockTable option" where
  "sock_run1 env c s = (case s of None \<Rightarrow> None | Some st \<Rightarrow> sock_step env c st)"

end
