(* ===== verification/Socket_Invariant.thy ===== *)
theory Socket_Invariant
  imports Socket_Table
begin

section \<open>What holds of sockets in every interleaving\<close>

text \<open>
  The invariant of the socket table under arbitrary calls, resumptions and replies: numbers are never
  reused and the table stays within its limit; queued connections cannot be bound, connected or made
  listeners, so that closing a listener ends; datagram queues are bounded; every byte that arrived at a
  socket was taken, dropped or is still in its buffer, in order; and every request to the host network
  was allowed by the policy. Each operation is a composition of a few kinds of updates, and each kind
  has one preservation lemma.
\<close>

subsection \<open>Definitions\<close>

definition server_state :: "SocketState \<Rightarrow> bool" where
  "server_state s \<longleftrightarrow> s \<in> {Connected, ReadClosed, WriteClosed, Closed}"

definition queued :: "nat \<Rightarrow> SockTable \<Rightarrow> bool" where
  "queued sid st \<longleftrightarrow> (\<exists>l k. st_objs st l = Some k \<and> sid \<in> set (ks_backlog k))"

text \<open>The socket a suspended call will change the role of.\<close>

fun task_target :: "Task \<Rightarrow> nat option" where
  "task_target (TBindExists sid a m) = Some sid"
| "task_target (TListenHost sid) = Some sid"
| "task_target (TConnectExists sid a) = Some sid"
| "task_target (TConnectHost sid a) = Some sid"
| "task_target (TExternalConnect sid a) = Some sid"
| "task_target (TAcceptPump sid hl) = Some sid"
| "task_target _ = None"

definition obj_ok :: "KernelSocket \<Rightarrow> bool" where
  "obj_ok k \<longleftrightarrow> wq_inv (ks_readWaiters k) \<and> wq_inv (ks_acceptWaiters k) \<and> length (ks_datagramQueue k) \<le> MAX_UDP_QUEUE_DEPTH"

fun event_sid :: "SockEvent \<Rightarrow> nat" where
  "event_sid (Arrived sid d) = sid"
| "event_sid (Taken sid d) = sid"
| "event_sid (Dropped sid d) = sid"

fun arrived_bytes :: "nat \<Rightarrow> SockEvent list \<Rightarrow> bytes" where
  "arrived_bytes sid [] = []"
| "arrived_bytes sid (Arrived s d # evs) = (if s = sid then d else []) @ arrived_bytes sid evs"
| "arrived_bytes sid (_ # evs) = arrived_bytes sid evs"

fun removed_bytes :: "nat \<Rightarrow> SockEvent list \<Rightarrow> bytes" where
  "removed_bytes sid [] = []"
| "removed_bytes sid (Arrived s d # evs) = removed_bytes sid evs"
| "removed_bytes sid (Taken s d # evs) = (if s = sid then d else []) @ removed_bytes sid evs"
| "removed_bytes sid (Dropped s d # evs) = (if s = sid then d else []) @ removed_bytes sid evs"

definition net_allowed :: "NetEnv \<Rightarrow> net_op \<Rightarrow> string option \<Rightarrow> bool" where
  "net_allowed env op hostname \<longleftrightarrow> (case ne_networkCheck env of None \<Rightarrow> False | Some f \<Rightarrow> allows (f (op, hostname)))"

definition addr_host :: "SockAddr option \<Rightarrow> string option" where
  "addr_host a = (case a of Some (InetAddr h _) \<Rightarrow> Some h | _ \<Rightarrow> None)"

fun host_ok :: "NetEnv \<Rightarrow> HostCall \<Rightarrow> bool" where
  "host_ok env (TcpConnect h p) \<longleftrightarrow> ne_hostAdapter env \<and> net_allowed env NetConnect (Some h)"
| "host_ok env (TcpListen h p) \<longleftrightarrow> ne_hostAdapter env \<and> net_allowed env NetListen (Some h)"
| "host_ok env (UdpBindHost h p) \<longleftrightarrow> ne_hostAdapter env \<and> net_allowed env NetListen (Some h)"
| "host_ok env (UdpSend hu d h p) \<longleftrightarrow> ne_hostAdapter env \<and> net_allowed env NetConnect (Some h)"
| "host_ok env (HostWrite hs d a) \<longleftrightarrow> net_allowed env NetConnect (addr_host a)"
| "host_ok env _ \<longleftrightarrow> True"

definition table_inv :: "NetEnv \<Rightarrow> SockTable \<Rightarrow> bool" where
  "table_inv env st \<longleftrightarrow> 0 < st_nextSocketId st \<and> distinct (st_sockets st) \<and> st_size st \<le> ne_maxSockets env \<and>
     (\<forall>sid \<in> set (st_sockets st). st_objs st sid \<noteq> None) \<and>
     (\<forall>sid. st_objs st sid \<noteq> None \<longleftrightarrow> 0 < sid \<and> sid < st_nextSocketId st)"

definition backlog_inv :: "SockTable \<Rightarrow> bool" where
  "backlog_inv st \<longleftrightarrow>
     (\<forall>sid. queued sid st \<longrightarrow> (\<exists>k. st_objs st sid = Some k \<and> server_state (ks_state k) \<and> ks_backlog k = [])) \<and>
     (\<forall>tok t sid. mget (st_tasks st) tok = Some t \<longrightarrow> task_target t = Some sid \<longrightarrow> st_objs st sid \<noteq> None \<and> \<not> queued sid st)"

definition stream_inv :: "SockTable \<Rightarrow> bool" where
  "stream_inv st \<longleftrightarrow>
     (\<forall>sid k. st_objs st sid = Some k \<longrightarrow>
        obj_ok k \<and> arrived_bytes sid (st_log st) = removed_bytes sid (st_log st) @ concat (ks_readBuffer k)) \<and>
     (\<forall>ev \<in> set (st_log st). st_objs st (event_sid ev) \<noteq> None)"

definition mediation_inv :: "NetEnv \<Rightarrow> SockTable \<Rightarrow> bool" where
  "mediation_inv env st \<longleftrightarrow> (\<forall>c \<in> set (st_host st). host_ok env c)"

definition sock_inv :: "NetEnv \<Rightarrow> SockTable \<Rightarrow> bool" where
  "sock_inv env st \<longleftrightarrow> table_inv env st \<and> backlog_inv st \<and> stream_inv st \<and> mediation_inv env st"

definition sock_oinv :: "NetEnv \<Rightarrow> SockTable option \<Rightarrow> bool" where
  "sock_oinv env s = (case s of None \<Rightarrow> False | Some st \<Rightarrow> sock_inv env st)"

subsection \<open>Buffers\<close>

lemma consume_loop_spec:
  "concat (fst (consume_loop n buf)) = take n (concat buf)" "concat (snd (consume_loop n buf)) = drop n (concat buf)"
  "[] \<notin> set buf \<Longrightarrow> [] \<notin> set (snd (consume_loop n buf))"
  by (induction n buf rule: consume_loop.induct) (auto simp: Let_def case_prod_beta)

interpretation sock_buffer: chunk_reader consumeFromBuffer
  by unfold_locales (simp_all add: consumeFromBuffer_def case_prod_beta consume_loop_spec)

lemma peek_is_prefix: "peekFromBuffer n buf = take n (concat buf)"
  unfolding peekFromBuffer_def by (induction n buf rule: peek_loop.induct) auto

lemma arrived_append [simp]: "arrived_bytes sid (a @ b) = arrived_bytes sid a @ arrived_bytes sid b"
  by (induction sid a rule: arrived_bytes.induct) auto

lemma removed_append [simp]: "removed_bytes sid (a @ b) = removed_bytes sid a @ removed_bytes sid b"
  by (induction sid a rule: removed_bytes.induct) auto

lemma no_events:
  "(\<And>ev. ev \<in> set evs \<Longrightarrow> event_sid ev \<noteq> sid) \<Longrightarrow> arrived_bytes sid evs = [] \<and> removed_bytes sid evs = []"
proof (induction evs)
  case (Cons ev evs)
  then have "event_sid ev \<noteq> sid" "arrived_bytes sid evs = [] \<and> removed_bytes sid evs = []" by auto
  then show ?case by (cases ev) simp_all
qed simp

lemma check_allowed: "checkNetworkPermission env op a = Inr u \<Longrightarrow> net_allowed env op (addr_host a)"
  by (auto simp: checkNetworkPermission_def checkPermission_def net_allowed_def addr_host_def Let_def
      split: option.splits if_splits SockAddr.splits)

subsection \<open>One lemma per kind of update\<close>

lemma sock_invD:
  assumes "sock_inv env st"
  shows "table_inv env st" "backlog_inv st" "stream_inv st" "mediation_inv env st"
  using assms by (simp_all add: sock_inv_def)

lemma upd_simps [simp]:
  "st_sockets (upd sid f st) = st_sockets st" "st_nextSocketId (upd sid f st) = st_nextSocketId st"
  "st_listeners (upd sid f st) = st_listeners st" "st_udpBindings (upd sid f st) = st_udpBindings st"
  "st_tasks (upd sid f st) = st_tasks st" "st_nextTask (upd sid f st) = st_nextTask st" "st_host (upd sid f st) = st_host st"
  "st_log (upd sid f st) = st_log st" "st_alive (upd sid f st) = st_alive st" "st_signals (upd sid f st) = st_signals st"
  "st_size (upd sid f st) = st_size st" "st_done (upd sid f st) = st_done st"
  "st_objs (upd sid f st) s = (if s = sid then map_option f (st_objs st sid) else st_objs st s)"
  by (simp_all add: upd_def st_size_def)

lemma request_simps [simp]:
  "st_objs (request c st) = st_objs st" "st_sockets (request c st) = st_sockets st" "st_log (request c st) = st_log st"
  "st_tasks (request c st) = st_tasks st" "st_nextTask (request c st) = st_nextTask st" "st_nextSocketId (request c st) = st_nextSocketId st"
  "st_host (request c st) = st_host st @ [c]" "st_listeners (request c st) = st_listeners st"
  "st_udpBindings (request c st) = st_udpBindings st" "st_size (request c st) = st_size st"
  "st_signals (request c st) = st_signals st" "st_alive (request c st) = st_alive st"
  by (simp_all add: request_def st_size_def)

definition benign :: "SockTable \<Rightarrow> nat \<Rightarrow> (KernelSocket \<Rightarrow> KernelSocket) \<Rightarrow> bool" where
  "benign st sid f \<longleftrightarrow> (\<forall>k. st_objs st sid = Some k \<longrightarrow> obj_ok k \<longrightarrow>
     obj_ok (f k) \<and> set (ks_backlog (f k)) \<subseteq> set (ks_backlog k) \<and>
     (ks_state (f k) = ks_state k \<or> server_state (ks_state (f k)) \<or> \<not> queued sid st))"

lemma queued_upd:
  assumes "\<And>k. st_objs st sid = Some k \<Longrightarrow> set (ks_backlog (f k)) \<subseteq> set (ks_backlog k)" "queued s (upd sid f st)"
  shows "queued s st"
  using assms by (auto simp: queued_def split: if_splits)

lemma table_upd: "table_inv env (upd sid f st) = table_inv env st"
  by (auto simp: table_inv_def)

lemma backlog_upd:
  assumes "backlog_inv st" "stream_inv st" "benign st sid f" shows "backlog_inv (upd sid f st)"
proof -
  have b: "obj_ok k" "obj_ok (f k)" "set (ks_backlog (f k)) \<subseteq> set (ks_backlog k)" if "st_objs st sid = Some k" for k
    using that assms(2,3) by (auto simp: benign_def stream_inv_def)
  have q: "queued s st" if "queued s (upd sid f st)" for s using queued_upd [OF b(3) that] .
  have "\<exists>k. st_objs (upd sid f st) s = Some k \<and> server_state (ks_state k) \<and> ks_backlog k = []" if w: "queued s (upd sid f st)" for s
  proof -
    obtain k where "st_objs st s = Some k" "server_state (ks_state k)" "ks_backlog k = []" using assms(1) q [OF w] by (auto simp: backlog_inv_def)
    then show ?thesis using b [of k] assms(3) q [OF w] by (cases "s = sid") (auto simp: benign_def)
  qed
  then show ?thesis using assms(1) q unfolding backlog_inv_def by simp blast
qed

lemma stream_upd:
  assumes "stream_inv st" "benign st sid f" "\<And>k. st_objs st sid = Some k \<Longrightarrow> concat (ks_readBuffer (f k)) = concat (ks_readBuffer k)"
  shows "stream_inv (upd sid f st)"
  using assms by (auto simp: stream_inv_def benign_def)

text \<open>An update that keeps the read buffer.\<close>

lemma inv_upd:
  assumes "sock_inv env st" "benign st sid f" "\<And>k. st_objs st sid = Some k \<Longrightarrow> ks_readBuffer (f k) = ks_readBuffer k"
  shows "sock_inv env (upd sid f st)"
  using assms backlog_upd [OF sock_invD(2,3) [OF assms(1)] assms(2)] stream_upd [OF sock_invD(3) [OF assms(1)] assms(2)]
  by (simp add: sock_inv_def table_upd mediation_inv_def)

lemma stream_log:
  assumes "stream_inv st" "benign st sid f" "st_objs st sid = Some k" "event_sid ev = sid"
    and "arrived_bytes sid [ev] = d1" "removed_bytes sid [ev] = d2"
    and "concat (ks_readBuffer k) @ d1 = d2 @ concat (ks_readBuffer (f k))"
  shows "stream_inv (logEvent ev (upd sid f st))"
proof -
  have o: "st_objs (logEvent ev (upd sid f st)) = st_objs (upd sid f st)" and l: "st_log (logEvent ev (upd sid f st)) = st_log st @ [ev]"
    by (simp_all add: logEvent_def)
  have "arrived_bytes s [ev] = [] \<and> removed_bytes s [ev] = []" if "s \<noteq> sid" for s using that assms(4) by (intro no_events) auto
  then show ?thesis using assms unfolding stream_inv_def o l by (auto simp: benign_def)
qed

lemma inv_log:
  assumes "sock_inv env st" "benign st sid f" "st_objs st sid = Some k" "event_sid ev = sid"
    and "concat (ks_readBuffer k) @ arrived_bytes sid [ev] = removed_bytes sid [ev] @ concat (ks_readBuffer (f k))"
  shows "sock_inv env (logEvent ev (upd sid f st))"
proof -
  have "backlog_inv (logEvent ev (upd sid f st)) = backlog_inv (upd sid f st)" "table_inv env (logEvent ev (upd sid f st)) = table_inv env (upd sid f st)"
    "mediation_inv env (logEvent ev (upd sid f st)) = mediation_inv env (upd sid f st)"
    by (simp_all add: logEvent_def backlog_inv_def queued_def table_inv_def mediation_inv_def st_size_def)
  then show ?thesis using stream_log [OF sock_invD(3) [OF assms(1)] assms(2-4) refl refl assms(5)] assms
      backlog_upd [OF sock_invD(2,3) [OF assms(1)] assms(2)]
    by (simp add: sock_inv_def table_upd mediation_inv_def)
qed


text \<open>Parts of the state the invariant does not read.\<close>

lemma parts_cong:
  "\<lbrakk>st_objs st' = st_objs st; st_sockets st' = st_sockets st; st_nextSocketId st' = st_nextSocketId st\<rbrakk> \<Longrightarrow> table_inv env st' = table_inv env st"
  "\<lbrakk>st_objs st' = st_objs st; st_tasks st' = st_tasks st\<rbrakk> \<Longrightarrow> backlog_inv st' = backlog_inv st"
  "\<lbrakk>st_objs st' = st_objs st; st_log st' = st_log st\<rbrakk> \<Longrightarrow> stream_inv st' = stream_inv st"
  "st_host st' = st_host st \<Longrightarrow> mediation_inv env st' = mediation_inv env st"
  by (simp_all add: table_inv_def backlog_inv_def queued_def stream_inv_def mediation_inv_def st_size_def)

lemma inv_eq:
  "\<lbrakk>st_objs st' = st_objs st; st_sockets st' = st_sockets st; st_nextSocketId st' = st_nextSocketId st;
    st_tasks st' = st_tasks st; st_host st' = st_host st; st_log st' = st_log st\<rbrakk> \<Longrightarrow> sock_inv env st' = sock_inv env st"
  using parts_cong [where st' = st' and st = st] by (simp add: sock_inv_def)

lemma inv_request [intro]: "sock_inv env st \<Longrightarrow> host_ok env c \<Longrightarrow> sock_inv env (request c st)"
  using parts_cong [of "request c st" st] by (auto simp: sock_inv_def mediation_inv_def)

lemma inv_fields [simp]:
  "sock_inv env (st\<lparr>st_listeners := l\<rparr>) = sock_inv env st" "sock_inv env (st\<lparr>st_udpBindings := l\<rparr>) = sock_inv env st"
  "sock_inv env (st\<lparr>st_nextTask := n\<rparr>) = sock_inv env st" "sock_inv env (st\<lparr>st_signals := s\<rparr>) = sock_inv env st"
  "sock_inv env (st\<lparr>st_done := d\<rparr>) = sock_inv env st" "sock_inv env (st\<lparr>st_alive := a\<rparr>) = sock_inv env st"
  by (rule inv_eq; simp)+

definition task_ok :: "SockTable \<Rightarrow> Task \<Rightarrow> bool" where
  "task_ok st t \<longleftrightarrow> (case task_target t of None \<Rightarrow> True | Some sid \<Rightarrow> st_objs st sid \<noteq> None \<and> \<not> queued sid st)"

lemma inv_tasks:
  assumes "sock_inv env st" "\<And>tok t. mget ts tok = Some t \<Longrightarrow> mget (st_tasks st) tok = Some t \<or> task_ok st t"
  shows "sock_inv env (st\<lparr>st_tasks := ts\<rparr>)"
proof -
  have "backlog_inv (st\<lparr>st_tasks := ts\<rparr>)"
    using sock_invD(2) [OF assms(1)] assms(2) unfolding backlog_inv_def queued_def task_ok_def by simp fastforce
  then show ?thesis using assms(1) parts_cong(1,3,4) [of "st\<lparr>st_tasks := ts\<rparr>" st] by (simp add: sock_inv_def)
qed

lemma inv_suspend [intro]: "sock_inv env st \<Longrightarrow> task_ok st t \<Longrightarrow> sock_inv env (suspend tok t st)"
  unfolding suspend_def by (rule inv_tasks) (auto split: if_splits)

lemma inv_end [intro]: "sock_inv env st \<Longrightarrow> sock_inv env (end_task tok st)"
  unfolding end_task_def by (rule inv_tasks) (auto split: if_splits)

lemma inv_finish [intro]: "sock_inv env st \<Longrightarrow> sock_inv env (finish tok r st)"
proof -
  assume a: "sock_inv env st"
  have "sock_inv env (st\<lparr>st_tasks := mdel tok (st_tasks st)\<rparr>)" by (rule inv_tasks [OF a]) (auto split: if_splits)
  then show ?thesis using inv_fields(5) [where st = "st\<lparr>st_tasks := mdel tok (st_tasks st)\<rparr>"] by (simp add: finish_def)
qed

lemma inv_spawn [intro]: "sock_inv env st \<Longrightarrow> task_ok st t \<Longrightarrow> sock_inv env (snd (spawn_task t st))"
proof -
  assume "sock_inv env st" "task_ok st t"
  then have "sock_inv env (suspend (st_nextTask st) t (st\<lparr>st_nextTask := Suc (st_nextTask st)\<rparr>))"
    by (intro inv_suspend) (simp_all add: task_ok_def queued_def split: option.splits)
  then show ?thesis by (simp add: spawn_task_def)
qed

lemma not_queued:
  assumes "sock_inv env st" "st_objs st sid = Some k" "\<not> server_state (ks_state k)" shows "\<not> queued sid st"
  using sock_invD(2) [OF assms(1)] assms(2,3) by (auto simp: backlog_inv_def)

lemma task_not_queued:
  assumes "sock_inv env st" "mget (st_tasks st) tok = Some t" "task_target t = Some sid"
  shows "\<not> queued sid st" "st_objs st sid \<noteq> None"
  using sock_invD(2) [OF assms(1)] assms(2,3) by (auto simp: backlog_inv_def)

lemma st_get_Some: "st_get sid st = Some k \<longleftrightarrow> sid \<in> set (st_sockets st) \<and> st_objs st sid = Some k"
  by (simp add: st_get_def)

text \<open>A new socket: its number is new, nothing refers to it, it has seen no byte.\<close>

lemma create_cases:
  assumes "st_create env d t p pid st = (r, st')"
  obtains (failed) e where "r = Inl e" "st' = st"
  | (created) "r = Inr (st_nextSocketId st)" "st_size st < ne_maxSockets env"
      "st' = st\<lparr>st_nextSocketId := Suc (st_nextSocketId st), st_objs := (st_objs st)(st_nextSocketId st \<mapsto> new_socket d t p pid),
         st_sockets := st_sockets st @ [st_nextSocketId st]\<rparr>"
proof (cases "ne_maxSockets env \<le> st_size st \<or> ne_processExists env \<and> \<not> st_alive st pid")
  case True
  then show ?thesis using assms failed by (auto simp: st_create_def split: if_splits)
next
  case False
  then show ?thesis using assms by (intro created) (auto simp: st_create_def Let_def)
qed

lemma new_socket_ok: "obj_ok (new_socket d t p pid)" "ks_readBuffer (new_socket d t p pid) = []" "ks_backlog (new_socket d t p pid) = []"
  by (simp_all add: obj_ok_def new_socket_def wq_inv_new)

lemma fresh_socket:
  assumes "sock_inv env st"
  shows "st_objs st (st_nextSocketId st) = None" "\<not> queued (st_nextSocketId st) st" "st_nextSocketId st \<notin> set (st_sockets st)"
proof -
  show n: "st_objs st (st_nextSocketId st) = None" using sock_invD(1) [OF assms] by (auto simp: table_inv_def)
  show "\<not> queued (st_nextSocketId st) st" using n sock_invD(2) [OF assms] by (auto simp: backlog_inv_def)
  show "st_nextSocketId st \<notin> set (st_sockets st)" using n sock_invD(1) [OF assms] by (auto simp: table_inv_def)
qed

lemma inv_create:
  assumes "sock_inv env st" "st_create env d t p pid st = (r, st')" shows "sock_inv env st'"
  using assms(2)
proof (cases rule: create_cases)
  case created
  let ?n = "st_nextSocketId st"
  note F = fresh_socket [OF assms(1)] and I = sock_invD [OF assms(1)]
  have q: "queued s st' \<longleftrightarrow> queued s st" for s
    unfolding queued_def created(3) using F(1) new_socket_ok(3) by (simp, metis option.distinct(1) empty_iff list.set(1) option.inject)
  have obj: "st_objs st' s \<noteq> None \<longleftrightarrow> 0 < s \<and> s < st_nextSocketId st'" for s
  proof -
    have "0 < ?n" using I(1) by (simp add: table_inv_def)
    then show ?thesis using I(1) by (auto simp: table_inv_def created(3))
  qed
  have "table_inv env st'" using I(1) F(3) obj created(2) by (auto simp: table_inv_def created(3) st_size_def less_Suc_eq)
  moreover have "backlog_inv st'" using I(2) F(1,2) unfolding backlog_inv_def q by (auto simp: created(3))
  moreover have "\<And>ev. ev \<in> set (st_log st) \<Longrightarrow> event_sid ev \<noteq> ?n" using I(3) F(1) by (auto simp: stream_inv_def)
  then have "arrived_bytes ?n (st_log st) = [] \<and> removed_bytes ?n (st_log st) = []" by (intro no_events)
  then have "stream_inv st'" using I(3) by (auto simp: stream_inv_def created(3) new_socket_ok)
  ultimately show ?thesis using I(4) by (simp add: sock_inv_def mediation_inv_def created(3))
qed (use assms in simp)

text \<open>Queueing a connection at a listener.\<close>

lemma inv_push:
  assumes "sock_inv env st" "\<not> queued lid st" "st_objs st c = Some k" "server_state (ks_state k)" "ks_backlog k = []" "c \<noteq> lid"
    and "\<And>tok t. mget (st_tasks st) tok = Some t \<Longrightarrow> task_target t \<noteq> Some c"
    and f: "\<And>k. st_objs st lid = Some k \<Longrightarrow> obj_ok k \<Longrightarrow> obj_ok (f k) \<and> ks_readBuffer (f k) = ks_readBuffer k \<and> set (ks_backlog (f k)) \<subseteq> insert c (set (ks_backlog k))"
  shows "sock_inv env (upd lid f st)"
proof -
  note I = sock_invD [OF assms(1)]
  have ok: "obj_ok k" if "st_objs st lid = Some k" for k using that I(3) by (auto simp: stream_inv_def)
  have q: "queued s st \<or> s = c" if "queued s (upd lid f st)" for s
    using that f ok by (fastforce simp: queued_def split: if_splits)
  have "backlog_inv (upd lid f st)"
    unfolding backlog_inv_def
  proof (intro conjI allI impI)
    fix s assume "queued s (upd lid f st)"
    then have s: "queued s st \<or> s = c" by (rule q)
    then have "s \<noteq> lid" using assms(2,6) by auto
    then show "\<exists>k. st_objs (upd lid f st) s = Some k \<and> server_state (ks_state k) \<and> ks_backlog k = []"
      using s I(2) assms(3-5) by (auto simp: backlog_inv_def)
  next
    fix tok t s assume t: "mget (st_tasks (upd lid f st)) tok = Some t" "task_target t = Some s"
    then show "st_objs (upd lid f st) s \<noteq> None" "\<not> queued s (upd lid f st)"
      using q [of s] task_not_queued [OF assms(1) _ t(2)] assms(7) by auto
  qed
  moreover have "stream_inv (upd lid f st)" using I(3) f ok by (auto simp: stream_inv_def)
  ultimately show ?thesis using I by (simp add: sock_inv_def table_upd mediation_inv_def)
qed

lemma inv_shrink: "sock_inv env st \<Longrightarrow> distinct ids \<Longrightarrow> set ids \<subseteq> set (st_sockets st) \<Longrightarrow> sock_inv env (st\<lparr>st_sockets := ids\<rparr>)"
proof -
  assume a: "sock_inv env st" "distinct ids" "set ids \<subseteq> set (st_sockets st)"
  have "length ids \<le> length (st_sockets st)" using a card_mono [OF _ a(3)] sock_invD(1) [OF a(1)]
    by (simp add: distinct_card table_inv_def)
  then have "table_inv env (st\<lparr>st_sockets := ids\<rparr>)" using sock_invD(1) [OF a(1)] a(2,3) by (auto simp: table_inv_def st_size_def)
  then show ?thesis using a(1) parts_cong(2-4) [of "st\<lparr>st_sockets := ids\<rparr>" st] by (simp add: sock_inv_def)
qed


subsection \<open>Operations\<close>

lemma wake_ok [simp]:
  "obj_ok k \<Longrightarrow> obj_ok (wakeReader k)" "obj_ok k \<Longrightarrow> obj_ok (wakeReaders k)"
  "obj_ok k \<Longrightarrow> obj_ok (wakeAcceptor k)" "obj_ok k \<Longrightarrow> obj_ok (wakeAcceptors k)"
  "obj_ok k \<Longrightarrow> obj_ok (rm_reader h k)" "obj_ok k \<Longrightarrow> obj_ok (rm_acceptor h k)"
  by (simp_all add: obj_ok_def wakeReader_def wakeReaders_def wakeAcceptor_def wakeAcceptors_def rm_reader_def rm_acceptor_def
      wq_inv_wakeOne wq_inv_wakeAll wq_inv_remove)

lemma wake_simps [simp]:
  "ks_readBuffer (wakeReader k) = ks_readBuffer k" "ks_readBuffer (wakeReaders k) = ks_readBuffer k"
  "ks_readBuffer (wakeAcceptor k) = ks_readBuffer k" "ks_readBuffer (wakeAcceptors k) = ks_readBuffer k"
  "ks_backlog (wakeReader k) = ks_backlog k" "ks_backlog (wakeReaders k) = ks_backlog k"
  "ks_backlog (wakeAcceptor k) = ks_backlog k" "ks_backlog (wakeAcceptors k) = ks_backlog k"
  "ks_state (wakeReader k) = ks_state k" "ks_state (wakeReaders k) = ks_state k"
  "ks_state (wakeAcceptor k) = ks_state k" "ks_state (wakeAcceptors k) = ks_state k"
  "ks_peerId (wakeReader k) = ks_peerId k" "ks_peerId (wakeReaders k) = ks_peerId k"
  "ks_peerId (wakeAcceptor k) = ks_peerId k" "ks_peerId (wakeAcceptors k) = ks_peerId k"
  "ks_localAddr (wakeReader k) = ks_localAddr k" "ks_localAddr (wakeReaders k) = ks_localAddr k"
  "ks_localAddr (wakeAcceptor k) = ks_localAddr k" "ks_localAddr (wakeAcceptors k) = ks_localAddr k"
  "ks_pid (wakeReader k) = ks_pid k" "ks_pid (wakeReaders k) = ks_pid k"
  "ks_pid (wakeAcceptor k) = ks_pid k" "ks_pid (wakeAcceptors k) = ks_pid k"
  by (simp_all add: wakeReader_def wakeReaders_def wakeAcceptor_def wakeAcceptors_def)

lemma rm_simps [simp]:
  "ks_readBuffer (rm_reader h k) = ks_readBuffer k" "ks_readBuffer (rm_acceptor h k) = ks_readBuffer k"
  "ks_backlog (rm_reader h k) = ks_backlog k" "ks_backlog (rm_acceptor h k) = ks_backlog k"
  "ks_state (rm_reader h k) = ks_state k" "ks_state (rm_acceptor h k) = ks_state k"
  "ks_peerId (rm_reader h k) = ks_peerId k" "ks_peerId (rm_acceptor h k) = ks_peerId k"
  "ks_localAddr (rm_reader h k) = ks_localAddr k" "ks_localAddr (rm_acceptor h k) = ks_localAddr k"
  by (simp_all add: rm_reader_def rm_acceptor_def)

text \<open>Updates of fields outside the invariant, and updates of the role of a socket that is not queued.\<close>

lemma inv_plain:
  assumes "sock_inv env st"
    and "\<And>k. obj_ok k \<Longrightarrow> obj_ok (f k)" "\<And>k. ks_readBuffer (f k) = ks_readBuffer k"
    "\<And>k. set (ks_backlog (f k)) \<subseteq> set (ks_backlog k)"
    "\<And>k. ks_state (f k) = ks_state k \<or> server_state (ks_state (f k))"
  shows "sock_inv env (upd sid f st)"
  by (rule inv_upd [OF assms(1)]) (use assms(2-5) in \<open>auto simp: benign_def, blast\<close>)

lemma inv_role:
  assumes "sock_inv env st" "\<not> queued sid st"
    and "\<And>k. obj_ok k \<Longrightarrow> obj_ok (f k)" "\<And>k. ks_readBuffer (f k) = ks_readBuffer k" "\<And>k. ks_backlog (f k) = ks_backlog k"
  shows "sock_inv env (upd sid f st)"
  using assms by (intro inv_upd) (auto simp: benign_def)

lemma obj_ok_fields [simp]:
  "obj_ok (k\<lparr>ks_state := a\<rparr>) = obj_ok k" "obj_ok (k\<lparr>ks_nonBlocking := b\<rparr>) = obj_ok k" "obj_ok (k\<lparr>ks_localAddr := c\<rparr>) = obj_ok k"
  "obj_ok (k\<lparr>ks_remoteAddr := c\<rparr>) = obj_ok k" "obj_ok (k\<lparr>ks_options := d\<rparr>) = obj_ok k" "obj_ok (k\<lparr>ks_backlog := e\<rparr>) = obj_ok k"
  "obj_ok (k\<lparr>ks_backlogLimit := n\<rparr>) = obj_ok k" "obj_ok (k\<lparr>ks_peerId := p\<rparr>) = obj_ok k" "obj_ok (k\<lparr>ks_peerWriteClosed := b\<rparr>) = obj_ok k"
  "obj_ok (k\<lparr>ks_external := b\<rparr>) = obj_ok k" "obj_ok (k\<lparr>ks_hostSocket := p\<rparr>) = obj_ok k" "obj_ok (k\<lparr>ks_hostListener := p\<rparr>) = obj_ok k"
  "obj_ok (k\<lparr>ks_hostUdpSocket := p\<rparr>) = obj_ok k" "obj_ok (k\<lparr>ks_requestedEphemeralPort := b\<rparr>) = obj_ok k"
  "obj_ok (k\<lparr>ks_readBuffer := r\<rparr>) = obj_ok k"
  by (simp_all add: obj_ok_def)

lemma queued_fields [simp]:
  "queued s (request c st) = queued s st" "queued s (st\<lparr>st_listeners := l\<rparr>) = queued s st" "queued s (st\<lparr>st_udpBindings := l\<rparr>) = queued s st"
  "queued s (st\<lparr>st_nextTask := n\<rparr>) = queued s st" "queued s (st\<lparr>st_signals := g\<rparr>) = queued s st" "queued s (st\<lparr>st_tasks := ts\<rparr>) = queued s st"
  "queued s (suspend tok t st) = queued s st" "queued s (end_task tok st) = queued s st" "queued s (finish tok r st) = queued s st"
  "queued s (logEvent ev st) = queued s st"
  by (simp_all add: queued_def request_def suspend_def end_task_def finish_def logEvent_def)

lemma queued_same:
  assumes "\<And>k. ks_backlog (f k) = ks_backlog k" shows "queued s (upd sid f st) = queued s st"
proof -
  have "(\<exists>k. st_objs (upd sid f st) l = Some k \<and> s \<in> set (ks_backlog k)) = (\<exists>k. st_objs st l = Some k \<and> s \<in> set (ks_backlog k))" for l
    using assms by auto
  then show ?thesis by (simp add: queued_def)
qed

lemma task_simps [simp]:
  "st_objs (suspend tok t st) = st_objs st" "st_objs (end_task tok st) = st_objs st" "st_objs (finish tok r st) = st_objs st"
  "st_objs (logEvent ev st) = st_objs st" "st_sockets (suspend tok t st) = st_sockets st" "st_sockets (end_task tok st) = st_sockets st"
  "st_sockets (finish tok r st) = st_sockets st" "st_sockets (logEvent ev st) = st_sockets st"
  "st_tasks (logEvent ev st) = st_tasks st" "st_listeners (logEvent ev st) = st_listeners st"
  "st_nextTask (suspend tok t st) = st_nextTask st" "st_nextTask (logEvent ev st) = st_nextTask st"
  by (simp_all add: suspend_def end_task_def finish_def logEvent_def)

lemma withSocket_inv:
  assumes "sock_inv env st" "\<And>k. st_objs st sid = Some k \<Longrightarrow> sid \<in> set (st_sockets st) \<Longrightarrow> sock_inv env (snd (f k))"
  shows "sock_inv env (snd (withSocket sid f st))"
  using assms by (auto simp: withSocket_def requireSocket_def st_get_def split: option.splits)

lemma assign_inv: "sock_inv env st \<Longrightarrow> sock_inv env (snd (assignEphemeralPort a sid k st))"
  by (auto simp: assignEphemeralPort_def Let_def intro!: inv_plain split: SockAddr.splits nat.splits option.splits)

lemma assign_queued [simp]: "queued s (snd (assignEphemeralPort a sid k st)) = queued s st"
  by (auto simp: assignEphemeralPort_def Let_def queued_same split: SockAddr.splits nat.splits option.splits)

lemma assign_objs: "st_objs (snd (assignEphemeralPort a sid k st)) s = None \<longleftrightarrow> st_objs st s = None"
  by (auto simp: assignEphemeralPort_def Let_def split: SockAddr.splits nat.splits option.splits)

lemma bind_rest_inv:
  assumes "sock_inv env st" "\<not> queued sid st" shows "sock_inv env (snd (bind_rest e sid a m st))"
  using assms by (auto simp: bind_rest_def Let_def intro!: inv_role split: option.splits)

lemma option_pump_inv:
  "sock_inv env st \<Longrightarrow> sock_inv env (applySocketOptionToHostSocket sid l n v st)"
  "sock_inv env st \<Longrightarrow> sock_inv env (pump_read tok sid hs st)"
  "sock_inv env st \<Longrightarrow> sock_inv env (pump_udp tok sid hs st)"
  "sock_inv env st \<Longrightarrow> \<not> queued sid st \<Longrightarrow> sock_inv env (pump_accept tok sid hl st)"
  by (auto simp: applySocketOptionToHostSocket_def pump_read_def pump_udp_def pump_accept_def task_ok_def
      intro!: inv_suspend inv_request inv_end split: option.splits)


lemma fold_inv: "P s \<Longrightarrow> (\<And>x s. P s \<Longrightarrow> P (f x s)) \<Longrightarrow> P (fold f xs s)"
  by (induction xs arbitrary: s) auto

lemma apply_all_inv: "sock_inv env st \<Longrightarrow> sock_inv env (applySocketOptionsToHostSocket sid st)"
  by (auto simp: applySocketOptionsToHostSocket_def intro!: fold_inv [where P = "sock_inv env"] option_pump_inv split: option.splits)

lemma apply_all_frame [simp]:
  "st_objs (applySocketOptionsToHostSocket sid st) = st_objs st \<and> st_tasks (applySocketOptionsToHostSocket sid st) = st_tasks st \<and>
   st_sockets (applySocketOptionsToHostSocket sid st) = st_sockets st \<and> st_listeners (applySocketOptionsToHostSocket sid st) = st_listeners st"
proof -
  have "st_objs (fold (\<lambda>((l, n), v). applySocketOptionToHostSocket sid l n v) os s) = st_objs s \<and>
      st_tasks (fold (\<lambda>((l, n), v). applySocketOptionToHostSocket sid l n v) os s) = st_tasks s \<and>
      st_sockets (fold (\<lambda>((l, n), v). applySocketOptionToHostSocket sid l n v) os s) = st_sockets s \<and>
      st_listeners (fold (\<lambda>((l, n), v). applySocketOptionToHostSocket sid l n v) os s) = st_listeners s" for os s
    by (induction os arbitrary: s) (auto simp: applySocketOptionToHostSocket_def split: option.splits)
  then show ?thesis by (simp add: applySocketOptionsToHostSocket_def split: option.split)
qed

lemma start_pump_inv:
  "sock_inv env st \<Longrightarrow> sock_inv env (startReadPump sid st)" "sock_inv env st \<Longrightarrow> sock_inv env (startUdpRecvPump sid st)"
  "sock_inv env st \<Longrightarrow> \<not> queued sid st \<Longrightarrow> sock_inv env (startAcceptPump sid st)"
  by (auto simp: startReadPump_def startUdpRecvPump_def startAcceptPump_def intro!: option_pump_inv split: option.splits)

lemma queued_cong: "st_objs st' = st_objs st \<Longrightarrow> queued s st' = queued s st"
  by (simp add: queued_def)

lemma pump_objs [simp]:
  "st_objs (pump_read tok sid hs st) = st_objs st" "st_objs (pump_accept tok sid hl st) = st_objs st"
  "st_objs (pump_udp tok sid hu st) = st_objs st" "st_objs (startReadPump sid st) = st_objs st"
  "st_objs (startAcceptPump sid st) = st_objs st" "st_objs (startUdpRecvPump sid st) = st_objs st"
  by (auto simp: pump_read_def pump_accept_def pump_udp_def startReadPump_def startAcceptPump_def startUdpRecvPump_def split: option.splits)

lemmas op_splits = option.splits SockAddr.splits sum.splits

lemma bind_inv: assumes "sock_inv env st" shows "sock_inv env (snd (st_bind env sid a m st))"
proof -
  let ?st = "\<lambda>k. snd (assignEphemeralPort a sid k st)"
  have i: "sock_inv env (?st k)" for k by (rule assign_inv [OF assms])
  have nq: "\<not> queued sid (?st k)" "st_objs (?st k) sid \<noteq> None" if "st_objs st sid = Some k" "ks_state k = Created" for k
    using not_queued [OF assms that(1)] that assign_objs [of a sid k st sid] by (auto simp: server_state_def)
  have b: "sock_inv env (snd (bind_rest env sid ba m (?st k)))" if "st_objs st sid = Some k" "ks_state k = Created" for k ba
    by (rule bind_rest_inv [OF i nq(1) [OF that]])
  have c: "sock_inv env (snd (spawn_task (TBindExists sid ba m) (request (VfsExists p) (?st k))))"
    if "st_objs st sid = Some k" "ks_state k = Created" for k ba p
    using i nq [OF that] by (intro inv_spawn inv_request) (auto simp: task_ok_def)
  show ?thesis unfolding st_bind_def
    by (rule withSocket_inv [OF assms]) (auto simp: assms case_prod_beta i b c split: op_splits)
qed

lemma listen_inv: assumes "sock_inv env st" shows "sock_inv env (snd (st_listen env sid n e st))"
proof -
  let ?st = "upd sid (\<lambda>k. k\<lparr>ks_backlogLimit := nat (max 0 n)\<rparr>) st"
  have i: "sock_inv env ?st" using assms by (auto intro!: inv_plain)
  have nq: "\<not> queued sid ?st" if "st_objs st sid = Some k" "ks_state k = Bound" for k
    using not_queued [OF assms that(1)] that(2) by (simp add: server_state_def queued_same)
  have a: "sock_inv env (upd sid (\<lambda>k. k\<lparr>ks_state := Listening\<rparr>) ?st)" if "st_objs st sid = Some k" "ks_state k = Bound" for k
    by (intro inv_role [OF i nq [OF that]]) auto
  have b: "sock_inv env (snd (spawn_task (TListenHost sid) (request (TcpListen h p) ?st)))"
    if "st_objs st sid = Some k" "ks_state k = Bound" "host_ok env (TcpListen h p)" for h p k
    using i nq [OF that(1,2)] that by (intro inv_spawn inv_request) (auto simp: task_ok_def)
  show ?thesis unfolding st_listen_def
    by (rule withSocket_inv [OF assms])
      (auto simp: Let_def case_prod_beta addr_host_def assms i a b dest!: check_allowed split: op_splits)
qed


lemma listen_rest_inv:
  assumes "sock_inv env st" "\<not> queued sid st" shows "sock_inv env (listen_rest sid hl port st)"
proof -
  let ?a = "upd sid (\<lambda>k. k\<lparr>ks_hostListener := Some hl, ks_external := True\<rparr>) st"
  have i: "sock_inv env ?a" "\<not> queued sid ?a" using assms by (auto intro!: inv_role simp: queued_same)
  have j: "sock_inv env (startAcceptPump sid (upd sid (\<lambda>k. k\<lparr>ks_state := Listening\<rparr>) s))" if "sock_inv env s" "\<not> queued sid s" for s
    using that by (auto intro!: start_pump_inv inv_role simp: queued_same)
  have l: "sock_inv env ((upd sid (\<lambda>k. k\<lparr>ks_localAddr := x\<rparr>) ?a)\<lparr>st_listeners := ls\<rparr>)"
    "\<not> queued sid ((upd sid (\<lambda>k. k\<lparr>ks_localAddr := x\<rparr>) ?a)\<lparr>st_listeners := ls\<rparr>)" for x ls
    using i by (auto intro!: inv_plain simp: queued_same)
  show ?thesis using assms i by (auto simp: listen_rest_def Let_def intro!: j l split: op_splits)
qed

lemma enqueue_inv:
  "sock_inv env st \<Longrightarrow> sock_inv env (snd (enqueue_reader sid st))" "sock_inv env st \<Longrightarrow> sock_inv env (snd (enqueue_acceptor sid st))"
proof -
  assume i: "sock_inv env st"
  have ok: "obj_ok k" if "st_objs st sid = Some k" for k using that sock_invD(3) [OF i] by (auto simp: stream_inv_def)
  have "sock_inv env (upd sid (\<lambda>k. k\<lparr>ks_readWaiters := snd (wq_enqueue None (ks_readWaiters k0))\<rparr>) st)"
    "sock_inv env (upd sid (\<lambda>k. k\<lparr>ks_acceptWaiters := snd (wq_enqueue None (ks_acceptWaiters k0))\<rparr>) st)" if "st_objs st sid = Some k0" for k0
    using ok [OF that] i by (auto intro!: inv_plain simp: obj_ok_def wq_inv_enqueue)
  then show "sock_inv env (snd (enqueue_reader sid st))" "sock_inv env (snd (enqueue_acceptor sid st))"
    using i by (auto simp: enqueue_reader_def enqueue_acceptor_def case_prod_beta split: option.split)
qed

lemma wait_inv:
  assumes "sock_inv env st" "\<And>st. sock_inv env st \<Longrightarrow> sock_inv env (snd (enq st))"
  shows "sock_inv env (snd (waitForSocketWake e enq pid st))"
  using assms by (auto simp: waitForSocketWake_def case_prod_beta Let_def split: option.split)

lemma sock_cleanup_inv:
  assumes "sock_inv env st"
  shows "sock_inv env (wait_cleanup rm_reader sid pid w st)" "sock_inv env (wait_cleanup rm_acceptor sid pid w st)"
  using assms by (auto simp: wait_cleanup_def Let_def case_prod_beta intro!: inv_plain split: option.split)

lemma accept_turn_inv: assumes "sock_inv env st" shows "sock_inv env (accept_turn e tok sid pid st)"
proof -
  have "sock_inv env (upd sid (\<lambda>k. k\<lparr>ks_backlog := cs\<rparr>) st)" if "st_objs st sid = Some k" "ks_backlog k = c # cs" for k c cs
    using that assms by (intro inv_upd) (auto simp: benign_def)
  moreover have "sock_inv env (snd (waitForSocketWake e (enqueue_acceptor sid) pid st))" by (intro wait_inv enqueue_inv assms)
  ultimately show ?thesis using assms
    by (auto simp: accept_turn_def case_prod_beta task_ok_def intro!: inv_finish inv_suspend split: option.splits list.splits sum.splits)
qed

lemma accept_inv: assumes "sock_inv env st" shows "sock_inv env (snd (st_accept env sid b st))"
proof -
  have "sock_inv env (upd sid (\<lambda>k. k\<lparr>ks_backlog := cs\<rparr>) st)" if "st_objs st sid = Some k" "ks_backlog k = c # cs" for k c cs
    using that assms by (intro inv_upd) (auto simp: benign_def)
  then show ?thesis unfolding st_accept_def
    by (intro withSocket_inv [OF assms]) (auto simp: assms Let_def intro!: accept_turn_inv split: option.splits list.splits)
qed

lemma shutdown_parts_inv:
  assumes "sock_inv env st"
  shows "sock_inv env (shutdownWrite sid st)" "sock_inv env (shutdownRead sid st)" "server_state s \<Longrightarrow> sock_inv env (setState sid s st)"
proof -
  show "sock_inv env (shutdownWrite sid st)" using assms by (auto simp: shutdownWrite_def intro!: inv_plain split: option.splits)
  show "sock_inv env (setState sid s st)" if "server_state s" using assms that by (auto simp: setState_def intro!: inv_plain)
  show "sock_inv env (shutdownRead sid st)" using assms
    by (auto simp: shutdownRead_def benign_def intro!: inv_log split: option.splits)
qed

lemma shutdown_inv: assumes "sock_inv env st" shows "sock_inv env (snd (st_shutdown sid how st))"
  unfolding st_shutdown_def
  by (rule withSocket_inv [OF assms])
    (auto simp: Let_def assms server_state_def intro!: shutdown_parts_inv inv_request split: option.splits how.splits)

lemma socketpair_inv: assumes "sock_inv env st" shows "sock_inv env (snd (st_socketpair env d t p pid st))"
proof -
  obtain r1 st1 where c1: "st_create env d t p pid st = (r1, st1)" by force
  obtain r2 st2 where c2: "st_create env d t p pid st1 = (r2, st2)" by force
  note i1 = inv_create [OF assms c1] note i2 = inv_create [OF i1 c2]
  show ?thesis using i1 i2 c1 c2
    by (auto simp: st_socketpair_def server_state_def intro!: inv_plain split: sum.splits)
qed

lemma setopt_inv:
  assumes "sock_inv env st"
  shows "sock_inv env (snd (st_setsockopt sid l n v st))" "sock_inv env (snd (st_setNonBlocking sid b st))"
  unfolding st_setsockopt_def st_setNonBlocking_def
  by (rule withSocket_inv [OF assms]; auto intro!: option_pump_inv inv_plain assms)+


text \<open>The server side of a loopback connection is new, so nothing suspended aims at it.\<close>

lemma fresh_no_task:
  assumes "sock_inv env st" "mget (st_tasks st) tok = Some t" shows "task_target t \<noteq> Some (st_nextSocketId st)"
  using task_not_queued(2) [OF assms] fresh_socket(1) [OF assms(1)] by blast

lemma connect_loopback_inv:
  assumes "sock_inv env st" "\<not> queued lid st" shows "sock_inv env (snd (connect_loopback env sid a lid st))"
proof (cases "st_objs st lid")
  case (Some l)
  obtain r st1 where c: "st_create env (ks_domain l) (ks_type l) (ks_protocol l) (ks_pid l) st = (r, st1)" by force
  note i1 = inv_create [OF assms(1) c]
  show ?thesis using c
  proof (cases rule: create_cases)
    case (failed e)
    then show ?thesis using assms Some c by (auto simp: connect_loopback_def split: option.splits)
  next
    case created
    let ?n = "st_nextSocketId st" and ?p = "new_socket (ks_domain l) (ks_type l) (ks_protocol l) (ks_pid l)"
    note F = fresh_socket [OF assms(1)]
    show ?thesis
    proof (cases "st_objs st sid")
      case (Some k)
      define st2 where "st2 = upd sid (\<lambda>k. k\<lparr>ks_remoteAddr := Some a, ks_peerId := Some ?n, ks_state := Connected\<rparr>) st1"
      define st3 where "st3 = upd ?n (\<lambda>s. s\<lparr>ks_localAddr := ks_localAddr l, ks_remoteAddr := ks_localAddr k,
          ks_peerId := Some sid, ks_state := Connected\<rparr>) st2"
      have i3: "sock_inv env st3" using i1 unfolding st3_def st2_def by (auto intro!: inv_plain simp: server_state_def)
      have ne: "sid \<noteq> ?n" "lid \<noteq> ?n" using F(1) Some \<open>st_objs st lid = Some l\<close> by auto
      have q1: "queued s st1 = queued s st" for s using F(1)
        unfolding queued_def created(3) by (simp, metis new_socket_ok(3) empty_iff list.set(1) option.distinct(1) option.inject)
      have nq: "\<not> queued lid st3" using assms(2) by (simp add: st3_def st2_def queued_same q1)
      have srv: "st_objs st3 ?n = Some (?p\<lparr>ks_localAddr := ks_localAddr l, ks_remoteAddr := ks_localAddr k, ks_peerId := Some sid, ks_state := Connected\<rparr>)"
        using ne(1) by (simp add: st3_def st2_def created(3))
      have tk: "st_tasks st3 = st_tasks st" by (simp add: st3_def st2_def created(3))
      have "sock_inv env (upd lid (\<lambda>l. wakeAcceptor (l\<lparr>ks_backlog := ks_backlog l @ [?n]\<rparr>)) st3)"
        by (rule inv_push [OF i3 nq srv]) (use ne tk fresh_no_task [OF assms(1)] in \<open>auto simp: server_state_def new_socket_def\<close>)
      then show ?thesis using assms(1) c Some \<open>st_objs st lid = Some l\<close> created(1)
        by (auto simp: connect_loopback_def Let_def st2_def st3_def)
    qed (use assms(1) Some in \<open>simp add: connect_loopback_def\<close>)
  qed
qed (use assms(1) in \<open>simp add: connect_loopback_def split: option.split\<close>)

lemma orElse_Some: "orElse a b = Some x \<Longrightarrow> a = Some x \<or> b = Some x"
  by (auto simp: orElse_def split: option.splits)

lemma getListeningSocket_Some:
  "getListeningSocket key st = Some sid \<Longrightarrow> \<exists>k. st_get sid st = Some k \<and> ks_state k = Listening \<and> mget (st_listeners st) key = Some sid"
  by (auto simp: getListeningSocket_def split: option.splits if_splits)

lemma findListener_Some:
  assumes "findListener a st = Some lid"
  obtains key k where "mget (st_listeners st) key = Some lid" "st_get lid st = Some k" "ks_state k = Listening"
  using assms getListeningSocket_Some by (cases a) (fastforce dest!: orElse_Some)+

lemma listener_not_queued: "sock_inv env st \<Longrightarrow> findListener a st = Some lid \<Longrightarrow> \<not> queued lid st"
  by (erule findListener_Some) (auto simp: st_get_Some server_state_def dest: not_queued)

lemma connect_rest_inv:
  assumes "sock_inv env st" "\<not> queued sid st"
  shows "sock_inv env (snd (connect_rest env sid a st))"
    and "fst (connect_rest env sid a st) = Inr (Some t) \<Longrightarrow> task_ok (snd (connect_rest env sid a st)) t"
proof -
  have l: "sock_inv env (snd (connect_loopback env sid a lid st))" if "findListener a st = Some lid" for lid
    by (rule connect_loopback_inv [OF assms(1) listener_not_queued [OF assms(1) that]])
  have h: "sock_inv env (request (TcpConnect h p) s)" if "sock_inv env s" "net_allowed env NetConnect (Some h)" "ne_hostAdapter env" for h p s
    using that by auto
  have x: "sock_inv env (snd (spawn_task (TExternalConnect sid a) (request (TcpConnect h p) (upd sid (\<lambda>k. k\<lparr>ks_state := ConnectingState, ks_remoteAddr := b\<rparr>) st))))"
    if "net_allowed env NetConnect (Some h)" "ne_hostAdapter env" "st_objs st sid = Some k" for h p b k
    using assms that by (intro inv_spawn h inv_role) (auto simp: task_ok_def queued_same)
  show "sock_inv env (snd (connect_rest env sid a st))"
    using assms l h x by (auto simp: connect_rest_def case_prod_beta addr_host_def dest!: check_allowed split: op_splits)
  show "task_ok (snd (connect_rest env sid a st)) t" if "fst (connect_rest env sid a st) = Inr (Some t)"
    using that assms(2) by (auto simp: connect_rest_def case_prod_beta task_ok_def split: op_splits if_splits)
qed

lemma connect_from_inv:
  assumes "sock_inv env st" "\<not> queued sid st" "st_objs st sid \<noteq> None"
  shows "sock_inv env (snd (connect_from env sid a st))"
proof -
  have "sock_inv env (snd (spawn_task (TConnectExists sid a) (request (VfsExists p) st)))" for p
    using assms by (intro inv_spawn inv_request) (auto simp: task_ok_def)
  moreover have "sock_inv env (snd (spawn_task t (snd (connect_rest env sid a st))))" if "fst (connect_rest env sid a st) = Inr (Some t)" for t
    using that assms(1,2) by (intro inv_spawn connect_rest_inv)
  ultimately show ?thesis using connect_rest_inv(1) [OF assms(1,2), of a]
    by (auto simp: connect_from_def case_prod_beta split: option.splits sum.splits)
qed

lemma auto_bind_inv:
  assumes "sock_inv env st" "st_objs st sid \<noteq> None"
  shows "sock_inv env (snd (auto_bind sid k a st))" "queued s (snd (auto_bind sid k a st)) = queued s st"
    "st_objs (snd (auto_bind sid k a st)) sid \<noteq> None"
proof -
  show "sock_inv env (snd (auto_bind sid k a st))"
    using assms by (auto simp: auto_bind_def case_prod_beta intro!: inv_plain assign_inv split: op_splits)
  show "queued s (snd (auto_bind sid k a st)) = queued s st"
    by (auto simp: auto_bind_def case_prod_beta queued_same split: op_splits)
  show "st_objs (snd (auto_bind sid k a st)) sid \<noteq> None"
    using assms(2) by (simp add: auto_bind_def case_prod_beta assign_objs split: op_splits del: not_None_eq)
qed

lemma connect_inv: assumes "sock_inv env st" shows "sock_inv env (snd (st_connect env sid a st))"
proof -
  have nq: "\<not> queued sid st" if "st_objs st sid = Some k" "ks_state k = Created \<or> ks_state k = Bound" for k
    using not_queued [OF assms that(1)] that(2) by (auto simp: server_state_def)
  have go: "sock_inv env (snd (connect_from env sid a (snd (auto_bind sid k a st))))"
    if "st_objs st sid = Some k" "ks_state k = Created \<or> ks_state k = Bound" for k
    using auto_bind_inv [OF assms] nq [OF that] that(1) by (intro connect_from_inv) auto
  show ?thesis unfolding st_connect_def
    by (rule withSocket_inv [OF assms]) (auto simp: assms auto_bind_inv go case_prod_beta split: sum.splits)
qed

lemma attach_inv: assumes "sock_inv env st" shows "sock_inv env (attach_host sid a hs st)"
  unfolding attach_host_def using assms by (intro start_pump_inv apply_all_inv inv_plain) (auto simp: server_state_def)


lemma arrive_inv:
  assumes "sock_inv env st" "st_objs st sid = Some k"
  shows "sock_inv env (logEvent (Arrived sid d) (upd sid (\<lambda>k. wakeReader (k\<lparr>ks_readBuffer := ks_readBuffer k @ [d]\<rparr>)) st))"
  using assms by (intro inv_log) (auto simp: benign_def)

lemma send_inv: assumes "sock_inv env st" shows "sock_inv env (snd (st_send env sid d st))"
proof -
  have w: "sock_inv env (snd (spawn_task (THostWrite sid) (request (HostWrite hs d a) st)))" if "net_allowed env NetConnect (addr_host a)" for hs a
    using assms that by (intro inv_spawn inv_request) (auto simp: task_ok_def)
  have p: "sock_inv env (upd sid (\<lambda>k. k\<lparr>ks_peerId := None\<rparr>) st)" using assms by (auto intro!: inv_plain)
  show ?thesis unfolding st_send_def
    by (rule withSocket_inv [OF assms])
      (auto simp: assms p st_get_Some dest!: check_allowed intro!: arrive_inv w split: option.splits sum.splits if_splits bool.splits)
qed

lemma takeData_inv:
  assumes "sock_inv env st" "st_objs st sid = Some k" shows "sock_inv env (snd (takeData sid n peek k st))"
proof -
  obtain d rest where c: "consumeFromBuffer n (ks_readBuffer k) = (d, rest)" by force
  have "concat (ks_readBuffer k) = d @ concat rest" using sock_buffer.drain_stream [of n "ks_readBuffer k"] c by simp
  then have "sock_inv env (logEvent (Taken sid d) (upd sid (\<lambda>k. k\<lparr>ks_readBuffer := rest\<rparr>) st))"
    using assms by (intro inv_log) (auto simp: benign_def)
  then show ?thesis using assms(1) c by (simp add: takeData_def)
qed

lemma recv_now_inv: assumes "sock_inv env st" shows "sock_inv env (snd (recv_now sid n fl st))"
  unfolding recv_now_def
  by (rule withSocket_inv [OF assms]) (auto simp: assms case_prod_beta intro!: takeData_inv)

lemma recv_turn_inv: assumes "sock_inv env st" shows "sock_inv env (recv_turn e tok sid n fl pid st)"
proof -
  note r = recv_now_inv [OF assms, of sid n fl]
  have "sock_inv env (snd (waitForSocketWake e (enqueue_reader sid) pid (snd (recv_now sid n fl st))))"
    by (intro wait_inv enqueue_inv r)
  then show ?thesis using r
    by (auto simp: recv_turn_def case_prod_beta task_ok_def intro!: inv_finish inv_suspend split: option.splits sum.splits)
qed

lemma recv_inv: assumes "sock_inv env st" shows "sock_inv env (snd (st_recv env sid n fl b st))"
  using recv_now_inv [OF assms, of sid n fl]
  by (auto simp: st_recv_def case_prod_beta Let_def intro!: recv_turn_inv split: option.splits sum.splits)

lemma datagram_inv:
  assumes "sock_inv env st" "st_objs st sid = Some k" "length (ks_datagramQueue k) < MAX_UDP_QUEUE_DEPTH"
  shows "sock_inv env (upd sid (\<lambda>k. wakeReader (k\<lparr>ks_datagramQueue := ks_datagramQueue k @ [d]\<rparr>)) st)"
proof (rule inv_upd [OF assms(1)])
  have "obj_ok (k\<lparr>ks_datagramQueue := ks_datagramQueue k @ [d]\<rparr>)" if "obj_ok k"
    using that assms(3) by (simp add: obj_ok_def)
  then show "benign st sid (\<lambda>k. wakeReader (k\<lparr>ks_datagramQueue := ks_datagramQueue k @ [d]\<rparr>))"
    using assms(2) by (auto simp: benign_def)
qed simp

lemma sendTo_inv: assumes "sock_inv env st" shows "sock_inv env (snd (st_sendTo env sid d a st))"
  unfolding st_sendTo_def
  by (rule withSocket_inv [OF assms])
    (auto simp: assms not_le addr_host_def dest!: check_allowed intro!: datagram_inv inv_request split: option.splits SockAddr.splits sum.splits)

lemma recvFrom_inv: assumes "sock_inv env st" shows "sock_inv env (snd (st_recvFrom sid n fl st))"
proof -
  have "sock_inv env (upd sid (\<lambda>k. k\<lparr>ks_datagramQueue := ds\<rparr>) st)" if "st_objs st sid = Some k" "ks_datagramQueue k = d # ds" for k d ds
    using that assms by (intro inv_upd) (auto simp: benign_def obj_ok_def)
  then show ?thesis unfolding st_recvFrom_def by (intro withSocket_inv [OF assms]) (auto simp: assms split: list.splits)
qed

lemma udpBind_inv: assumes "sock_inv env st" shows "sock_inv env (snd (bindExternalUdp env sid st))"
proof -
  have "sock_inv env (snd (spawn_task (TUdpBind sid) (request (UdpBindHost h p) st)))"
    if "net_allowed env NetListen (Some h)" "ne_hostAdapter env" for h p
    using assms that by (intro inv_spawn inv_request) (auto simp: task_ok_def)
  then show ?thesis unfolding bindExternalUdp_def
    by (intro withSocket_inv [OF assms])
      (auto simp: assms case_prod_beta addr_host_def dest!: check_allowed split: option.splits SockAddr.splits sum.splits)
qed

lemma closeHost_inv: "sock_inv env st \<Longrightarrow> sock_inv env (closeHost h st)"
  by (auto simp: closeHost_def split: option.splits)

lemma closeHost_objs [simp]: "st_objs (closeHost h st) = st_objs st" "st_sockets (closeHost h st) = st_sockets st"
  by (auto simp: closeHost_def split: option.splits)

lemma unregister_simps [simp]:
  "st_objs (unregister sid a st) = st_objs st" "st_sockets (unregister sid a st) = st_sockets st"
  "sock_inv env (unregister sid a st) = sock_inv env st"
proof -
  show "st_objs (unregister sid a st) = st_objs st" "st_sockets (unregister sid a st) = st_sockets st"
    by (auto simp: unregister_def split: option.split)
  show "sock_inv env (unregister sid a st) = sock_inv env st"
    by (rule inv_eq) (auto simp: unregister_def split: option.split)
qed

lemma destroy_self_inv: assumes "sock_inv env st" shows "sock_inv env (destroy_self sid st)"
proof (cases "st_objs st sid")
  case (Some k)
  define st1 where "st1 = (case ks_peerId k of None \<Rightarrow> st
    | Some p \<Rightarrow> if p \<in> set (st_sockets st) then upd p (\<lambda>k. wakeReaders (k\<lparr>ks_peerId := None\<rparr>)) st else st)"
  define st3 where "st3 = unregister sid (ks_localAddr k) (closeHost (ks_hostUdpSocket k) (closeHost (ks_hostListener k) (closeHost (ks_hostSocket k) st1)))"
  let ?f = "\<lambda>k. wakeAcceptors (wakeReaders (k\<lparr>ks_backlog := [], ks_hostSocket := None, ks_hostListener := None,
      ks_hostUdpSocket := None, ks_state := Closed, ks_readBuffer := [], ks_datagramQueue := []\<rparr>))"
  have i1: "sock_inv env st1" using assms by (auto simp: st1_def intro!: inv_plain split: option.split)
  have i3: "sock_inv env st3" using i1 by (auto simp: st3_def intro!: closeHost_inv)
  obtain k1 where k1: "st_objs st3 sid = Some k1" "ks_readBuffer k1 = ks_readBuffer k"
  proof -
    have "\<exists>k1. st_objs st1 sid = Some k1 \<and> ks_readBuffer k1 = ks_readBuffer k" using Some by (auto simp: st1_def split: option.split)
    then show thesis using that by (auto simp: st3_def)
  qed
  have "obj_ok (?f k1)" if "obj_ok k1" using that by (intro wake_ok) (simp add: obj_ok_def)
  then have "sock_inv env (logEvent (Dropped sid (concat (ks_readBuffer k))) (upd sid ?f st3))"
    using k1 by (intro inv_log [OF i3 _ k1(1)]) (auto simp: benign_def server_state_def)
  then have "sock_inv env ((logEvent (Dropped sid (concat (ks_readBuffer k))) (upd sid ?f st3))\<lparr>st_sockets := removeAll sid (st_sockets st3)\<rparr>)"
    using sock_invD(1) [OF i3] by (intro inv_shrink) (auto simp: table_inv_def distinct_removeAll)
  moreover have "st_sockets st3 = st_sockets st1" by (simp add: st3_def)
  ultimately show ?thesis using Some
    by (simp add: destroy_self_def Let_def st1_def [symmetric] st3_def [symmetric]) (auto simp: logEvent_def elim!: iffD2 [OF inv_eq, rotated -1])
qed (use assms in \<open>simp add: destroy_self_def\<close>)


subsection \<open>Closing returns\<close>

definition calm :: "nat list \<Rightarrow> SockTable \<Rightarrow> bool" where
  "calm ps st \<longleftrightarrow> (\<forall>p \<in> set ps. \<forall>k. st_objs st p = Some k \<longrightarrow> ks_backlog k = [])"

lemma destroy_self_backlog:
  "st_objs (destroy_self sid st) s = Some k' \<Longrightarrow> \<exists>k. st_objs st s = Some k \<and> (ks_backlog k' = [] \<or> ks_backlog k' = ks_backlog k)"
  by (auto simp: destroy_self_def Let_def logEvent_def split: option.splits if_splits)

lemma destroy_pending_returns:
  assumes "sock_inv env st" "calm ps st"
  obtains st' where "destroy_pending (destroySocket (Suc n)) ps st = Some st'" "sock_inv env st'"
proof -
  have "\<exists>st'. destroy_pending (destroySocket (Suc n)) ps st = Some st' \<and> sock_inv env st'"
    using assms
  proof (induction ps arbitrary: st)
    case (Cons p ps)
    have "calm ps (destroy_self p st)" using Cons.prems(2) destroy_self_backlog by (fastforce simp: calm_def)
    moreover have "destroySocket (Suc n) p st = Some (destroy_self p st)"
      using Cons.prems(2) by (auto simp: calm_def destroy_self_def split: option.split)
    ultimately show ?case using Cons destroy_self_inv [OF Cons.prems(1), of p] by (auto simp: calm_def)
  qed simp
  then show thesis using that by blast
qed

lemma destroy_returns:
  assumes "sock_inv env st" obtains st' where "destroy sid st = Some st'" "sock_inv env st'"
proof (cases "st_objs st sid")
  case (Some k)
  have "calm (ks_backlog k) st" using sock_invD(2) [OF assms] Some by (fastforce simp: calm_def backlog_inv_def queued_def)
  then obtain st1 where "destroy_pending (destroySocket (Suc (st_size st))) (ks_backlog k) st = Some st1" "sock_inv env st1"
    by (rule destroy_pending_returns [OF assms])
  then show ?thesis using that [of "destroy_self sid st1"] Some destroy_self_inv [of env st1 sid] by (simp add: destroy_def)
qed (use that assms in \<open>simp add: destroy_def\<close>)

lemma close_owned_returns:
  assumes "sock_inv env st" shows "\<exists>st'. close_owned pid sids st = Some st' \<and> sock_inv env st'"
  using assms
proof (induction sids arbitrary: st)
  case (Cons s sids)
  obtain st1 where "destroy s st = Some st1" "sock_inv env st1" by (rule destroy_returns [OF Cons.prems])
  then show ?case using Cons.IH [of st1] Cons.IH [of st] Cons.prems by (auto split: option.split)
qed simp

lemma dispose_inv: assumes "sock_inv env st" shows "sock_inv env (st_disposeAll st)"
proof -
  have "sock_inv env (fold dispose_one ids st)" for ids
    by (rule fold_inv [where P = "sock_inv env", OF assms]) (auto simp: dispose_one_def intro!: closeHost_inv inv_plain split: option.split)
  then have "sock_inv env ((fold dispose_one (st_sockets st) st)\<lparr>st_sockets := []\<rparr>)" by (intro inv_shrink) auto
  then have "sock_inv env (((fold dispose_one (st_sockets st) st)\<lparr>st_sockets := []\<rparr>)\<lparr>st_listeners := [], st_udpBindings := []\<rparr>)"
    by (rule iffD2 [OF inv_eq, rotated -1]) simp_all
  then show ?thesis by (simp add: st_disposeAll_def)
qed

subsection \<open>Resumptions\<close>

lemma accepted_inv:
  assumes "sock_inv env st" "\<not> queued sid st" shows "sock_inv env (accepted env tok sid hl hs st)"
proof (cases "st_objs st sid")
  case (Some k)
  obtain r st1 where c: "st_create env (ks_domain k) (ks_type k) (ks_protocol k) (ks_pid k) st = (r, st1)" by force
  note i1 = inv_create [OF assms(1) c]
  show ?thesis using c
  proof (cases rule: create_cases)
    case (failed e)
    then show ?thesis using assms Some c by (auto simp: accepted_def intro!: option_pump_inv inv_request)
  next
    case created
    let ?n = "st_nextSocketId st" and ?p = "new_socket (ks_domain k) (ks_type k) (ks_protocol k) (ks_pid k)"
    note F = fresh_socket [OF assms(1)]
    define st2 where "st2 = upd ?n (\<lambda>c. c\<lparr>ks_state := Connected, ks_external := True, ks_hostSocket := Some hs, ks_localAddr := ks_localAddr k\<rparr>) st1"
    define st3 where "st3 = startReadPump ?n (applySocketOptionsToHostSocket ?n st2)"
    have i3: "sock_inv env st3" using i1 unfolding st3_def st2_def
      by (intro start_pump_inv apply_all_inv inv_plain) (auto simp: server_state_def)
    have ne: "sid \<noteq> ?n" using F(1) Some by auto
    have "queued s st1 = queued s st" for s using F(1)
      unfolding queued_def created(3) by (simp, metis new_socket_ok(3) empty_iff list.set(1) option.distinct(1) option.inject)
    then have nq: "\<not> queued sid st3" using assms(2) queued_cong [of st3 st2 sid] by (simp add: st3_def st2_def queued_same)
    have srv: "st_objs st3 ?n = Some (?p\<lparr>ks_state := Connected, ks_external := True, ks_hostSocket := Some hs, ks_localAddr := ks_localAddr k\<rparr>)"
      by (simp add: st3_def st2_def created(3))
    have tk: "task_target t \<noteq> Some ?n" if "mget (st_tasks st3) tk = Some t" for tk t
      using that fresh_no_task [OF assms(1)]
      by (auto simp: st3_def st2_def startReadPump_def pump_read_def created(3) suspend_def end_task_def split: option.splits if_splits)
    have p: "sock_inv env (upd sid (\<lambda>k. wakeAcceptor (k\<lparr>ks_backlog := ks_backlog k @ [?n]\<rparr>)) st3)"
      by (rule inv_push [OF i3 nq srv]) (use ne tk in \<open>auto simp: server_state_def new_socket_def\<close>)
    have "\<not> queued sid (upd sid (\<lambda>k. wakeAcceptor (k\<lparr>ks_backlog := ks_backlog k @ [?n]\<rparr>)) st3)"
      using nq ne by (auto simp: queued_def split: if_splits)
    then show ?thesis using assms Some c p created(1)
      by (auto simp: accepted_def Let_def st2_def st3_def intro!: option_pump_inv inv_request)
  qed
qed (use assms in \<open>auto simp: accepted_def\<close>)


lemma resume_inv: assumes "sock_inv env st" shows "sock_inv env (resume env tok r st)"
proof (cases "mget (st_tasks st) tok")
  case (Some t)
  have nq: "\<not> queued sid st" "st_objs st sid \<noteq> None" if "task_target t = Some sid" for sid
    using task_not_queued [OF assms Some that] by auto
  have "sock_inv env (resume_task env tok t r st)"
  proof (cases t)
    case (TBindExists sid a m)
    note b = bind_rest_inv [OF assms, of sid env a m]
    show ?thesis using TBindExists assms b nq
      by (auto simp: resume_bind_def case_prod_beta createSocketFile_def task_ok_def intro!: inv_suspend inv_request split: Reply.split bool.split sum.split)
  next
    case (TConnectExists sid a)
    note b = connect_rest_inv [OF assms, of sid a]
    show ?thesis using TConnectExists assms b nq
      by (auto simp: resume_connectExists_def case_prod_beta intro!: inv_finish inv_suspend split: Reply.split bool.split sum.split option.split)
  next
    case (TListenHost sid)
    then show ?thesis using assms nq by (auto simp: resume_listen_def intro!: inv_finish listen_rest_inv split: Reply.split)
  next
    case (TExternalConnect sid a)
    have "sock_inv env (upd sid (\<lambda>k. wakeReaders (k\<lparr>ks_state := Created, ks_remoteAddr := None, ks_external := False, ks_hostSocket := None\<rparr>)) st)"
      using nq TExternalConnect by (intro inv_role [OF assms]) auto
    then show ?thesis using TExternalConnect assms
      by (auto simp: resume_external_def intro!: inv_end attach_inv inv_request split: Reply.split)
  next
    case (TAccept sid pid w)
    then show ?thesis using assms by (auto simp: resume_accept_def Let_def intro!: inv_finish accept_turn_inv sock_cleanup_inv)
  next
    case (TRecv sid n f pid w)
    then show ?thesis using assms by (auto simp: resume_recv_def Let_def intro!: inv_finish recv_turn_inv sock_cleanup_inv)
  next
    case (TReadPump sid hs)
    have a: "sock_inv env (logEvent (Arrived sid d) (upd sid (\<lambda>k. wakeReader (k\<lparr>ks_readBuffer := ks_readBuffer k @ [d]\<rparr>)) st))"
      if "st_objs st sid = Some k" for d k using arrive_inv [OF assms that] .
    have b: "sock_inv env (upd sid (\<lambda>k. if ks_state k \<noteq> Closed then wakeReaders (k\<lparr>ks_peerWriteClosed := True\<rparr>) else k) st)"
      using assms by (intro inv_plain) auto
    show ?thesis using TReadPump assms b
      by (auto simp: resume_readPump_def intro!: inv_end inv_plain option_pump_inv a split: Reply.split option.split)
  next
    case (TAcceptPump sid hl)
    then show ?thesis using assms nq by (auto simp: resume_acceptPump_def intro!: inv_end accepted_inv split: Reply.split)
  next
    case (TUdpPump sid hu)
    have "sock_inv env (queue_datagram sid d st)" for d using assms by (auto simp: queue_datagram_def intro!: datagram_inv split: option.split)
    then show ?thesis using TUdpPump assms by (auto simp: resume_udpPump_def intro!: inv_end option_pump_inv split: Reply.split)
  qed (use assms in \<open>auto simp: resume_file_def settle_def resume_connectHost_def resume_udpBind_def resume_write_def task_ok_def server_state_def
      intro!: inv_finish inv_suspend inv_request inv_end attach_inv start_pump_inv inv_plain split: Reply.split\<close>)
  then show ?thesis using Some by (simp add: resume_def)
qed (use assms in \<open>simp add: resume_def\<close>)

lemma st_new_inv: "sock_inv env st_new"
  by (simp add: sock_inv_def table_inv_def backlog_inv_def queued_def stream_inv_def mediation_inv_def st_new_def st_size_def neq0_conv [symmetric] del: neq0_conv)

lemma step_inv: assumes "sock_inv env st" shows "\<exists>st'. sock_step env c st = Some st' \<and> sock_inv env st'"
proof (cases c)
  case (CCreate d t p pid)
  then show ?thesis using inv_create [OF assms, of d t p pid] by (cases "st_create env d t p pid st") auto
next
  case (CClose sid pid)
  obtain st' where "destroy sid st = Some st'" "sock_inv env st'" by (rule destroy_returns [OF assms])
  then show ?thesis using CClose assms by (auto simp: st_close_def split: sum.split)
next
  case (CCloseAll pid)
  then show ?thesis using close_owned_returns [OF assms] by (simp add: closeAllForProcess_def)
next
  case (CProcesses a s)
  have "sock_inv env (st\<lparr>st_alive := a, st_signals := s\<rparr>)" by (rule iffD2 [OF inv_eq assms]) simp_all
  then show ?thesis using CProcesses by simp
qed (simp_all add: assms bind_inv listen_inv accept_inv shutdown_inv socketpair_inv setopt_inv connect_inv send_inv recv_inv
    sendTo_inv recvFrom_inv udpBind_inv dispose_inv resume_inv signalDelivered_def)

interpretation sockets: invariant_component "sock_run1 env" "\<lambda>_ _. True" "sock_oinv env" for env
proof
  fix s and x assume "sock_oinv env s"
  then obtain st where "s = Some st" "sock_inv env st" by (auto simp: sock_oinv_def split: option.splits)
  then show "sock_oinv env (sock_run1 env x s)" using step_inv [of env st x] by (auto simp: sock_oinv_def sock_run1_def)
qed

lemma run_returns:
  obtains st where "run_ops (sock_run1 env) cs (Some st_new) = Some st" "sock_inv env st"
  using sockets.run_inv [of env "Some st_new" cs] st_new_inv [of env] that by (auto simp: sock_oinv_def split: option.splits)

end
