(* ===== verification/Socket_Props.thy ===== *)
theory Socket_Props
  imports Socket_Invariant
begin

section \<open>Properties of the socket table\<close>

text \<open>
  What callers of \<^verbatim>\<open>socket-table.ts\<close> rely on: the invariants of runs, the behaviour of a connected pair, of
  a loopback connection and of ephemeral ports, and runs that show where the code departs from what it
  means to do.
\<close>

subsection \<open>Runs\<close>

text \<open>
  C17. In every run of socket calls, host replies, wake-ups and signals, in any interleaving: every call
  returns (closing a listener with queued connections ends), the table never holds more sockets than
  its limit, socket numbers are handed out once, and no datagram queue exceeds 128 entries.
\<close>

theorem socket_table_bounded:
  "\<exists>st. run_ops (sock_run1 env) cs (Some st_new) = Some st \<and> distinct (st_sockets st) \<and> st_size st \<le> ne_maxSockets env \<and>
     (\<forall>sid \<in> set (st_sockets st). 0 < sid \<and> sid < st_nextSocketId st) \<and>
     list_all (\<lambda>sid. case st_objs st sid of None \<Rightarrow> False | Some k \<Rightarrow> length (ks_datagramQueue k) \<le> MAX_UDP_QUEUE_DEPTH) (st_sockets st)"
proof -
  obtain st where st: "run_ops (sock_run1 env) cs (Some st_new) = Some st" "sock_inv env st" by (rule run_returns)
  then have "length (ks_datagramQueue k) \<le> MAX_UDP_QUEUE_DEPTH" if "st_objs st sid = Some k" for sid k
    using that by (auto simp: sock_inv_def stream_inv_def obj_ok_def)
  then show ?thesis using st by (fastforce simp: sock_inv_def table_inv_def list_all_iff split: option.split)
qed

theorem socket_table_bounded_witness:
  "\<exists>st. run_ops (sock_run1 \<lparr>ne_maxSockets = 1, ne_networkCheck = None, ne_hostAdapter = False, ne_vfs = False,
      ne_getSignalState = False, ne_processExists = False\<rparr>) [CSocketpair AF_UNIX SOCK_STREAM 0 1] (Some st_new) = Some st \<and> st_size st \<le> 1"
  using socket_table_bounded [of "\<lparr>ne_maxSockets = 1, ne_networkCheck = None, ne_hostAdapter = False, ne_vfs = False,
      ne_getSignalState = False, ne_processExists = False\<rparr>" "[CSocketpair AF_UNIX SOCK_STREAM 0 1]"] by auto

text \<open>
  C12. No byte is lost, duplicated or reordered on the way to a reader, in any interleaving: for every socket
  ever created, the bytes that arrived at it (sent by its peer or read from the host) are those taken by
  readers or dropped by a shutdown or close, in this order, followed by what its buffer still holds.
\<close>

theorem socket_stream_fifo:
  "case run_ops (sock_run1 env) cs (Some st_new) of
     None \<Rightarrow> False
   | Some st \<Rightarrow> (case st_objs st sid of
       None \<Rightarrow> arrived_bytes sid (st_log st) = []
     | Some k \<Rightarrow> arrived_bytes sid (st_log st) = removed_bytes sid (st_log st) @ concat (ks_readBuffer k))"
proof -
  obtain st where st: "run_ops (sock_run1 env) cs (Some st_new) = Some st" "sock_inv env st" by (rule run_returns)
  have "arrived_bytes sid (st_log st) = []" if "st_objs st sid = None"
    using no_events [of "st_log st" sid] st(2) that by (fastforce simp: sock_inv_def stream_inv_def)
  then show ?thesis using st by (auto simp: sock_inv_def stream_inv_def split: option.split)
qed

text \<open>
  C13. Complete mediation of the network: in every run, each connection, listener, datagram and write
  that was handed to the host network was allowed by the policy for its operation and host name when it
  was made; without a policy nothing is ever handed to the host.
\<close>

theorem network_mediation:
  "case run_ops (sock_run1 env) cs (Some st_new) of
     None \<Rightarrow> False
   | Some st \<Rightarrow> list_all (\<lambda>c. case c of
        TcpConnect h p \<Rightarrow> net_allowed env NetConnect (Some h)
      | TcpListen h p \<Rightarrow> net_allowed env NetListen (Some h)
      | UdpBindHost h p \<Rightarrow> net_allowed env NetListen (Some h)
      | UdpSend hu d h p \<Rightarrow> net_allowed env NetConnect (Some h)
      | HostWrite hs d a \<Rightarrow> net_allowed env NetConnect (addr_host a)
      | _ \<Rightarrow> True) (st_host st)"
proof -
  obtain st where st: "run_ops (sock_run1 env) cs (Some st_new) = Some st" "sock_inv env st" by (rule run_returns)
  have "host_ok env c \<Longrightarrow> (case c of
        TcpConnect h p \<Rightarrow> net_allowed env NetConnect (Some h)
      | TcpListen h p \<Rightarrow> net_allowed env NetListen (Some h)
      | UdpBindHost h p \<Rightarrow> net_allowed env NetListen (Some h)
      | UdpSend hu d h p \<Rightarrow> net_allowed env NetConnect (Some h)
      | HostWrite hs d a \<Rightarrow> net_allowed env NetConnect (addr_host a)
      | _ \<Rightarrow> True)" for c by (cases c) simp_all
  then show ?thesis using st by (auto simp: sock_inv_def mediation_inv_def list_all_iff)
qed

subsection \<open>A connected pair\<close>

definition can_send :: "KernelSocket \<Rightarrow> bool" where
  "can_send k \<longleftrightarrow> (ks_state k = Connected \<or> ks_state k = ReadClosed) \<and> \<not> ks_external k"

definition can_recv :: "KernelSocket \<Rightarrow> bool" where
  "can_recv k \<longleftrightarrow> (ks_state k = Connected \<or> ks_state k = WriteClosed)"

definition sends_to :: "nat \<Rightarrow> nat \<Rightarrow> SockTable \<Rightarrow> bool" where
  "sends_to a b st \<longleftrightarrow> (case (st_get a st, st_get b st) of
     (Some ka, Some kb) \<Rightarrow> can_send ka \<and> can_recv kb \<and> ks_peerId ka = Some b \<and>
        mget (ks_options kb) (optKey SOL_SOCKET SO_RCVBUF) = None
   | _ \<Rightarrow> False)"

definition buffered :: "nat \<Rightarrow> SockTable \<Rightarrow> bytes" where
  "buffered b st = (case st_objs st b of None \<Rightarrow> [] | Some k \<Rightarrow> concat (ks_readBuffer k))"

fun send_each :: "NetEnv \<Rightarrow> nat \<Rightarrow> bytes list \<Rightarrow> SockTable \<Rightarrow> nat res list \<times> SockTable" where
  "send_each env a [] st = ([], st)"
| "send_each env a (d # ds) st = (let (r, st1) = st_send env a d st; (rs, st2) = send_each env a ds st1 in (r # rs, st2))"

lemma send_step:
  assumes "sends_to a b st"
  shows "fst (st_send env a d st) = Inr (length d)" "sends_to a b (snd (st_send env a d st))"
    "buffered b (snd (st_send env a d st)) = buffered b st @ d"
    "\<exists>k. st_objs (snd (st_send env a d st)) b = Some k \<and> ks_readBuffer k \<noteq> []"
proof -
  obtain ka kb where k: "a \<in> set (st_sockets st)" "st_objs st a = Some ka" "b \<in> set (st_sockets st)" "st_objs st b = Some kb"
    "can_send ka" "can_recv kb" "ks_peerId ka = Some b" "mget (ks_options kb) (optKey SOL_SOCKET SO_RCVBUF) = None"
    using assms by (auto simp: sends_to_def st_get_def split: option.splits if_splits)
  have s: "st_send env a d st = (Inr (length d),
      logEvent (Arrived b d) (upd b (\<lambda>k. wakeReader (k\<lparr>ks_readBuffer := ks_readBuffer k @ [d]\<rparr>)) st))"
    using k by (auto simp: st_send_def withSocket_def requireSocket_def st_get_def can_send_def)
  show "fst (st_send env a d st) = Inr (length d)" by (simp add: s)
  show "sends_to a b (snd (st_send env a d st))"
    using k by (auto simp: s sends_to_def st_get_def can_send_def can_recv_def wakeReader_def)
  show "buffered b (snd (st_send env a d st)) = buffered b st @ d"
    "\<exists>k. st_objs (snd (st_send env a d st)) b = Some k \<and> ks_readBuffer k \<noteq> []"
    using k by (simp_all add: s buffered_def)
qed

lemma send_each_steps:
  assumes "sends_to a b st"
  shows "fst (send_each env a ds st) = map (\<lambda>d. Inr (length d)) ds" "sends_to a b (snd (send_each env a ds st))"
    "buffered b (snd (send_each env a ds st)) = buffered b st @ concat ds"
    "ds \<noteq> [] \<Longrightarrow> \<exists>k. st_objs (snd (send_each env a ds st)) b = Some k \<and> ks_readBuffer k \<noteq> []"
proof -
  have "fst (send_each env a ds st) = map (\<lambda>d. Inr (length d)) ds \<and> sends_to a b (snd (send_each env a ds st)) \<and>
    buffered b (snd (send_each env a ds st)) = buffered b st @ concat ds \<and>
    (ds \<noteq> [] \<longrightarrow> (\<exists>k. st_objs (snd (send_each env a ds st)) b = Some k \<and> ks_readBuffer k \<noteq> []))" using assms
  proof (induction ds arbitrary: st)
    case (Cons d ds)
    note S = send_step [OF Cons.prems(1), of env d]
    show ?case using Cons.IH [OF S(2)] S(1,3,4) by (cases "ds = []") (simp_all add: case_prod_beta)
  qed simp
  then show "fst (send_each env a ds st) = map (\<lambda>d. Inr (length d)) ds" "sends_to a b (snd (send_each env a ds st))"
    "buffered b (snd (send_each env a ds st)) = buffered b st @ concat ds"
    "ds \<noteq> [] \<Longrightarrow> \<exists>k. st_objs (snd (send_each env a ds st)) b = Some k \<and> ks_readBuffer k \<noteq> []" by auto
qed

lemma recv_data:
  assumes "st_get b st = Some k" "can_recv k" "ks_readBuffer k \<noteq> []"
  shows "fst (recv_now b n fl st) = Inr (Some (Some (take n (buffered b st))))"
    "buffered b (snd (recv_now b n fl st)) = (if fl AND MSG_PEEK \<noteq> 0 then buffered b st else drop n (buffered b st))"
proof -
  have f: "fst (consumeFromBuffer n (ks_readBuffer k)) = take n (concat (ks_readBuffer k))"
    "concat (snd (consumeFromBuffer n (ks_readBuffer k))) = drop n (concat (ks_readBuffer k))"
    by (rule sock_buffer.drain_fst, rule sock_buffer.drain_snd)
  have o: "st_objs st b = Some k" using assms(1) by (simp add: st_get_Some)
  show "fst (recv_now b n fl st) = Inr (Some (Some (take n (buffered b st))))"
    "buffered b (snd (recv_now b n fl st)) = (if fl AND MSG_PEEK \<noteq> 0 then buffered b st else drop n (buffered b st))"
    using assms f o by (auto simp: recv_now_def withSocket_def requireSocket_def can_recv_def takeData_def
        buffered_def peek_is_prefix case_prod_beta)
qed

text \<open>
  C15. What one end of a connection sends the other end receives: on a pair with no receive limit set, every
  send reports the length of its data, and the next receive returns the first \<open>n\<close> bytes of what was
  buffered followed by everything sent, whatever the sizes of the sends; with \<^verbatim>\<open>MSG_PEEK\<close> it leaves the
  stream as it was, otherwise exactly those bytes are gone.
\<close>

theorem send_then_recv:
  assumes "sends_to a b st" "ds \<noteq> []"
  shows "case send_each env a ds st of (rs, st') \<Rightarrow> rs = map (\<lambda>d. Inr (length d)) ds \<and>
    (case st_recv env b n fl blk st' of (r, st'') \<Rightarrow>
       r = Inr (Returned (VData (Some (take n (buffered b st @ concat ds))))) \<and>
       buffered b st'' = (if fl AND MSG_PEEK \<noteq> 0 then buffered b st @ concat ds else drop n (buffered b st @ concat ds)))"
proof -
  let ?st = "snd (send_each env a ds st)"
  note S = send_each_steps [OF assms(1), where env = env and ds = ds]
  obtain k where k: "st_get b ?st = Some k" "can_recv k" "ks_readBuffer k \<noteq> []"
    using S(2) S(4) [OF assms(2)] by (auto simp: sends_to_def st_get_def split: option.splits if_splits)
  note R = recv_data [OF k, of n fl]
  have "fst (st_recv env b n fl blk ?st) = Inr (Returned (VData (Some (take n (buffered b st @ concat ds)))))"
    "buffered b (snd (st_recv env b n fl blk ?st)) =
      (if fl AND MSG_PEEK \<noteq> 0 then buffered b st @ concat ds else drop n (buffered b st @ concat ds))"
    using R S(3) by (auto simp: st_recv_def case_prod_beta)
  then show ?thesis using S(1) by (simp add: case_prod_beta)
qed

abbreviation open_env :: "nat \<Rightarrow> NetEnv" where
  "open_env n \<equiv> \<lparr>ne_maxSockets = n, ne_networkCheck = None, ne_hostAdapter = False, ne_vfs = False,
     ne_getSignalState = False, ne_processExists = False\<rparr>"

definition pair_table :: SockTable where
  "pair_table = snd (st_socketpair (open_env 8) AF_UNIX SOCK_STREAM 0 1 st_new)"

lemma pair_table_linked: "sends_to 1 2 pair_table" "buffered 2 pair_table = []"
  by (simp_all add: pair_table_def st_socketpair_def st_create_def st_new_def sends_to_def st_get_def can_send_def can_recv_def
      buffered_def new_socket_def st_size_def)

theorem send_then_recv_witness:
  "sends_to 1 2 pair_table \<and>
   (case send_each (open_env 8) 1 [[1, 2], [3]] pair_table of (rs, st') \<Rightarrow> rs = [Inr 2, Inr 1] \<and>
     fst (st_recv (open_env 8) 2 2 0 None st') = Inr (Returned (VData (Some [1, 2]))))"
  using send_then_recv [OF pair_table_linked(1), where ds = "[[1, 2], [3]]" and env = "open_env 8" and n = 2 and fl = 0 and blk = None] pair_table_linked
  by (simp add: case_prod_beta)

subsection \<open>A loopback connection\<close>

definition listening_at :: "NetEnv \<Rightarrow> nat \<Rightarrow> SockAddr \<Rightarrow> nat \<Rightarrow> SockTable \<Rightarrow> bool" where
  "listening_at env sid addr lid st \<longleftrightarrow> findListener addr st = Some lid \<and> sid \<noteq> lid \<and>
     (case (st_get sid st, st_get lid st) of
        (Some k, Some l) \<Rightarrow> (ks_state k = Created \<or> ks_state k = Bound) \<and> ks_localAddr k \<noteq> None \<and> \<not> ks_external k \<and>
          length (ks_backlog l) < ks_backlogLimit l \<and> st_size st < ne_maxSockets env \<and>
          (ne_processExists env \<longrightarrow> st_alive st (ks_pid l)) \<and> unix_file env addr = None
      | _ \<Rightarrow> False)"

text \<open>
  C16. Loopback connections are made in the kernel: connecting to an address with a listener whose backlog
  has room succeeds without consulting the network policy and without any request to the host; it creates
  one server-side socket, owned by the listener's process, links the two as peers with each other's
  addresses, and queues it last at the listener, whose next accept (after the connections queued before)
  returns it.
\<close>

theorem loopback_connect:
  assumes "listening_at env sid addr lid st" "sock_inv env st"
    and "st_objs st sid = Some k" "st_objs st lid = Some l"
  shows "case st_connect env sid addr st of (r, st') \<Rightarrow>
    r = Inr (Returned VUnit) \<and> st_host st' = st_host st \<and>
    (\<exists>k' srv l'. st_objs st' sid = Some k' \<and> st_objs st' (st_nextSocketId st) = Some srv \<and> st_objs st' lid = Some l' \<and>
       ks_state k' = Connected \<and> ks_state srv = Connected \<and> ks_pid srv = ks_pid l \<and>
       ks_peerId k' = Some (st_nextSocketId st) \<and> ks_peerId srv = Some sid \<and>
       ks_remoteAddr k' = Some addr \<and> ks_remoteAddr srv = ks_localAddr k \<and> ks_localAddr srv = ks_localAddr l \<and>
       ks_backlog l' = ks_backlog l @ [st_nextSocketId st] \<and>
       fst (st_accept env lid None st') = Inr (Returned (VSocket (Some (hd (ks_backlog l @ [st_nextSocketId st]))))))"
proof -
  let ?n = "st_nextSocketId st"
  have L: "findListener addr st = Some lid" "sid \<noteq> lid" "sid \<in> set (st_sockets st)" "lid \<in> set (st_sockets st)"
    "ks_state k = Created \<or> ks_state k = Bound" "ks_localAddr k \<noteq> None" "length (ks_backlog l) < ks_backlogLimit l"
    "\<not> ne_maxSockets env \<le> st_size st" "\<not> (ne_processExists env \<and> \<not> st_alive st (ks_pid l))" "unix_file env addr = None"
    using assms by (auto simp: listening_at_def st_get_def split: option.splits if_splits)
  obtain l0 where "st_get lid st = Some l0" "ks_state l0 = Listening" using findListener_Some [OF L(1)] by metis
  then have lst: "ks_state l = Listening" using assms(4) by (simp add: st_get_Some)
  have n: "sid \<noteq> ?n" "lid \<noteq> ?n" using fresh_socket(1) [OF assms(2)] assms(3,4) by auto
  have c: "st_create env (ks_domain l) (ks_type l) (ks_protocol l) (ks_pid l) st =
      (Inr ?n, st\<lparr>st_nextSocketId := Suc ?n, st_objs := (st_objs st)(?n \<mapsto> new_socket (ks_domain l) (ks_type l) (ks_protocol l) (ks_pid l)),
         st_sockets := st_sockets st @ [?n]\<rparr>)" (is "_ = (_, ?s1)")
    using L(8,9) by (auto simp: st_create_def Let_def)
  let ?f = "\<lambda>k. k\<lparr>ks_remoteAddr := Some addr, ks_peerId := Some ?n, ks_state := Connected\<rparr>"
  let ?g = "\<lambda>s. s\<lparr>ks_localAddr := ks_localAddr l, ks_remoteAddr := ks_localAddr k, ks_peerId := Some sid, ks_state := Connected\<rparr>"
  let ?h = "\<lambda>l. wakeAcceptor (l\<lparr>ks_backlog := ks_backlog l @ [?n]\<rparr>)"
  have s: "st_connect env sid addr st = (Inr (Returned VUnit), upd lid ?h (upd ?n ?g (upd sid ?f ?s1)))"
    using L assms(3,4) c by (auto simp: st_connect_def withSocket_def requireSocket_def st_get_def auto_bind_def connect_from_def
        connect_rest_def connect_loopback_def Let_def split: SockAddr.split)
  have a: "fst (st_accept env lid None (upd lid ?h (upd ?n ?g (upd sid ?f ?s1)))) = Inr (Returned (VSocket (Some (hd (ks_backlog l @ [?n])))))"
    using L(2,4) n assms(4) lst by (auto simp: st_accept_def withSocket_def requireSocket_def st_get_def split: list.split)
  show ?thesis unfolding s using L(2) n assms(3,4) a by (auto simp: new_socket_def)
qed


subsection \<open>Ephemeral ports\<close>

lemma first_free_upt:
  assumes "first_free f [lo..<hi] = Some p"
  shows "lo \<le> p" "p < hi" "\<not> f p" "lo \<le> q \<Longrightarrow> q < p \<Longrightarrow> f q"
proof -
  have "lo \<le> p \<and> p < hi \<and> \<not> f p \<and> (lo \<le> q \<longrightarrow> q < p \<longrightarrow> f q)" using assms
  proof (induction "hi - lo" arbitrary: lo)
    case (Suc n)
    then have l: "[lo..<hi] = lo # [Suc lo..<hi]" by (simp add: upt_conv_Cons)
    show ?case
    proof (cases "f lo")
      case True
      have n: "n = hi - Suc lo" "first_free f [Suc lo..<hi] = Some p" using Suc.hyps(2) Suc.prems True l by simp_all
      have "Suc lo \<le> p \<and> p < hi \<and> \<not> f p \<and> (Suc lo \<le> q \<longrightarrow> q < p \<longrightarrow> f q)" by (rule Suc.hyps(1) [OF n])
      then show ?thesis using True by (metis Suc_leD Suc_leI le_neq_implies_less)
    next
      case False
      then show ?thesis using Suc l by auto
    qed
  qed simp
  then show "lo \<le> p" "p < hi" "\<not> f p" "lo \<le> q \<Longrightarrow> q < p \<Longrightarrow> f q" by auto
qed

lemma first_free_None: "first_free f ps = None \<longleftrightarrow> list_all f ps"
  by (induction ps) auto

definition port_in_use :: "string \<Rightarrow> KernelSocket \<Rightarrow> SockTable \<Rightarrow> nat \<Rightarrow> bool" where
  "port_in_use h k st p = (if ks_type k = SOCK_DGRAM then isUdpAddrInUse (InetAddr h p) k st else isAddrInUse (InetAddr h p) k st)"

text \<open>
  Binding to port 0 takes the lowest free ephemeral port: the result is a port between 49152 and 65535
  that is not in use for this socket while all lower ones are; the call fails with \<^verbatim>\<open>EADDRINUSE\<close> exactly
  when every port of the range is in use, and any other address is returned as it is.
\<close>

theorem ephemeral_port_lowest:
  "fst (assignEphemeralPort addr sid k st) =
     (case addr of
        InetAddr h 0 \<Rightarrow>
          (if list_all (port_in_use h k st) [EPHEMERAL_PORT_MIN..<Suc EPHEMERAL_PORT_MAX] then Inl EADDRINUSE
           else Inr (InetAddr h (LEAST p. EPHEMERAL_PORT_MIN \<le> p \<and> p \<le> EPHEMERAL_PORT_MAX \<and> \<not> port_in_use h k st p)))
      | _ \<Rightarrow> Inr addr)"
proof -
  let ?ps = "[EPHEMERAL_PORT_MIN..<Suc EPHEMERAL_PORT_MAX]"
  have a: "fst (assignEphemeralPort (InetAddr h 0) sid k st) =
      (case first_free (port_in_use h k st) ?ps of None \<Rightarrow> Inl EADDRINUSE | Some p \<Rightarrow> Inr (InetAddr h p))" for h
    by (simp add: assignEphemeralPort_def Let_def port_in_use_def [abs_def] split: option.split)
  have l: "(LEAST p. EPHEMERAL_PORT_MIN \<le> p \<and> p \<le> EPHEMERAL_PORT_MAX \<and> \<not> port_in_use h k st p) = p"
    if "first_free (port_in_use h k st) ?ps = Some p" for h p
    using first_free_upt [OF that] by (intro Least_equality) (auto simp: less_Suc_eq_le simp del: upt_Suc intro: leI)
  have "fst (assignEphemeralPort (InetAddr h 0) sid k st) =
      (if list_all (port_in_use h k st) ?ps then Inl EADDRINUSE
       else Inr (InetAddr h (LEAST p. EPHEMERAL_PORT_MIN \<le> p \<and> p \<le> EPHEMERAL_PORT_MAX \<and> \<not> port_in_use h k st p)))" for h
    using a [of h] l [of h] first_free_None [of "port_in_use h k st" ?ps]
    by (cases "first_free (port_in_use h k st) ?ps") (simp_all del: upt_Suc)
  moreover have "fst (assignEphemeralPort (InetAddr h (Suc n)) sid k st) = Inr (InetAddr h (Suc n))"
    "fst (assignEphemeralPort (UnixAddr u) sid k st) = Inr (UnixAddr u)" for h n u
    by (simp_all add: assignEphemeralPort_def)
  ultimately show ?thesis by (simp split: SockAddr.split nat.split del: upt_Suc)
qed


subsection \<open>Peers point at each other\<close>

definition link :: "SockTable \<Rightarrow> nat \<Rightarrow> nat option" where
  "link st sid = (case st_get sid st of None \<Rightarrow> None | Some k \<Rightarrow> ks_peerId k)"

definition links_inv :: "SockTable \<Rightarrow> bool" where
  "links_inv st \<longleftrightarrow> (\<forall>a b. link st a = Some b \<longrightarrow> link st b = Some a)"

lemma links_cong: "link st' = link st \<Longrightarrow> links_inv st' = links_inv st"
  unfolding links_inv_def by (erule ssubst) (rule refl)

lemma link_eqI:
  "st_sockets st' = st_sockets st \<Longrightarrow> (\<And>s. map_option ks_peerId (st_objs st' s) = map_option ks_peerId (st_objs st s)) \<Longrightarrow> link st' = link st"
proof
  fix s assume a: "st_sockets st' = st_sockets st" "\<And>s. map_option ks_peerId (st_objs st' s) = map_option ks_peerId (st_objs st s)"
  show "link st' s = link st s" using a(1) a(2) [of s]
    by (cases "st_objs st s"; cases "st_objs st' s") (simp_all add: link_def st_get_def)
qed

lemma link_upd [simp]: "(\<And>k. ks_peerId (f k) = ks_peerId k) \<Longrightarrow> link (upd sid f st) = link st"
  by (rule link_eqI) (auto simp: option.map_comp comp_def)

lemma link_fields [simp]:
  "link (request c st) = link st" "link (suspend tok t st) = link st" "link (end_task tok st) = link st" "link (finish tok r st) = link st"
  "link (logEvent ev st) = link st" "link (snd (spawn_task t st)) = link st" "link (st\<lparr>st_nextTask := n\<rparr>) = link st"
  "link (st\<lparr>st_listeners := l\<rparr>) = link st" "link (st\<lparr>st_udpBindings := l\<rparr>) = link st" "link (st\<lparr>st_signals := g\<rparr>) = link st"
  "link (st\<lparr>st_alive := al\<rparr>) = link st"
  by (rule link_eqI; simp add: spawn_task_def suspend_def)+

lemma links_fields [simp]:
  "links_inv (finish tok r st) = links_inv st" "links_inv (suspend tok t st) = links_inv st" "links_inv (snd (spawn_task t st)) = links_inv st"
  by (rule links_cong; simp)+

lemma withSocket_link: "(\<And>k. link (snd (f k)) = link st) \<Longrightarrow> link (snd (withSocket sid f st)) = link st"
  by (auto simp: withSocket_def split: sum.split)

lemma assign_link [simp]: "link (snd (assignEphemeralPort a sid k st)) = link st"
  by (auto simp: assignEphemeralPort_def Let_def split: SockAddr.split nat.split option.split)

lemma bind_rest_link [simp]: "link (snd (bind_rest env sid a m st)) = link st"
  by (auto simp: bind_rest_def Let_def split: option.split)

lemma bind_link [simp]: "link (snd (st_bind env sid a m st)) = link st"
  unfolding st_bind_def by (rule withSocket_link) (auto simp: case_prod_beta split: option.split sum.split)

lemma listen_link [simp]: "link (snd (st_listen env sid n e st)) = link st"
  unfolding st_listen_def by (rule withSocket_link) (auto simp: case_prod_beta Let_def split: op_splits)

lemma enqueue_link [simp]: "link (snd (enqueue_reader sid st)) = link st" "link (snd (enqueue_acceptor sid st)) = link st"
  by (auto simp: enqueue_reader_def enqueue_acceptor_def case_prod_beta split: option.split)

lemma wait_link [simp]: "(\<And>st. link (snd (enq st)) = link st) \<Longrightarrow> link (snd (waitForSocketWake e enq pid st)) = link st"
  by (auto simp: waitForSocketWake_def case_prod_beta Let_def split: option.split)

lemma cleanup_link [simp]: "link (wait_cleanup rm_reader sid pid w st) = link st" "link (wait_cleanup rm_acceptor sid pid w st) = link st"
  by (auto simp: wait_cleanup_def Let_def case_prod_beta split: option.split)

lemma accept_turn_link [simp]: "link (accept_turn e tok sid pid st) = link st"
  by (auto simp: accept_turn_def case_prod_beta split: option.split list.split sum.split)

lemma accept_link [simp]: "link (snd (st_accept env sid b st)) = link st"
  unfolding st_accept_def by (rule withSocket_link) (auto simp: Let_def split: option.split list.split)

lemma shutdown_parts_link [simp]: "link (shutdownWrite sid st) = link st" "link (shutdownRead sid st) = link st" "link (setState sid s st) = link st"
  by (auto simp: shutdownWrite_def shutdownRead_def setState_def split: option.split)

lemma shutdown_link [simp]: "link (snd (st_shutdown sid how st)) = link st"
  unfolding st_shutdown_def by (rule withSocket_link) (auto simp: Let_def split: option.split how.split)

lemma option_link [simp]:
  "link (applySocketOptionToHostSocket sid l n v st) = link st" "link (applySocketOptionsToHostSocket sid st) = link st"
  "link (pump_read tok sid hs st) = link st" "link (pump_udp tok sid hu st) = link st" "link (pump_accept tok sid hl st) = link st"
  "link (startReadPump sid st) = link st" "link (startUdpRecvPump sid st) = link st" "link (startAcceptPump sid st) = link st"
proof -
  show "link (applySocketOptionToHostSocket sid l n v st) = link st" by (auto simp: applySocketOptionToHostSocket_def split: option.split)
  show "link (applySocketOptionsToHostSocket sid st) = link st" by (rule link_eqI) auto
  show p: "link (pump_read tok sid hs st) = link st" "link (pump_udp tok sid hu st) = link st" "link (pump_accept tok sid hl st) = link st" for tok sid hs hu hl st
    by (auto simp: pump_read_def pump_udp_def pump_accept_def split: option.split)
  show "link (startReadPump sid st) = link st" "link (startUdpRecvPump sid st) = link st" "link (startAcceptPump sid st) = link st"
    by (auto simp: startReadPump_def startUdpRecvPump_def startAcceptPump_def p split: option.split)
qed

lemma setopt_link [simp]: "link (snd (st_setsockopt sid l n v st)) = link st" "link (snd (st_setNonBlocking sid b st)) = link st"
  unfolding st_setsockopt_def st_setNonBlocking_def by (rule withSocket_link; simp)+

lemma auto_bind_link [simp]: "link (snd (auto_bind sid k a st)) = link st"
  by (auto simp: auto_bind_def case_prod_beta split: op_splits)

lemma attach_link [simp]: "link (attach_host sid a hs st) = link st"
  by (simp add: attach_host_def)

lemma listen_rest_link [simp]: "link (listen_rest sid hl port st) = link st"
  by (auto simp: listen_rest_def Let_def split: op_splits)

lemma recv_now_link [simp]: "link (snd (recv_now sid n fl st)) = link st"
  unfolding recv_now_def by (rule withSocket_link) (auto simp: takeData_def case_prod_beta)

lemma recv_turn_link [simp]: "link (recv_turn e tok sid n fl pid st) = link st"
  by (auto simp: recv_turn_def case_prod_beta split: option.split sum.split)

lemma recv_link [simp]: "link (snd (st_recv env sid n fl b st)) = link st"
  by (auto simp: st_recv_def case_prod_beta Let_def split: option.split sum.split)

lemma datagram_link [simp]:
  "link (snd (st_sendTo env sid d a st)) = link st" "link (snd (st_recvFrom sid n fl st)) = link st" "link (snd (bindExternalUdp env sid st)) = link st"
  "link (queue_datagram sid dg st) = link st"
  unfolding st_sendTo_def st_recvFrom_def bindExternalUdp_def queue_datagram_def
  by (rule withSocket_link; auto simp: case_prod_beta split: op_splits list.split)+ (auto split: option.split)

lemma send_link:
  assumes "links_inv st" shows "link (snd (st_send env sid d st)) = link st"
proof -
  have peer: "st_get p st \<noteq> None" if "st_get sid st = Some k" "ks_peerId k = Some p" for k p
  proof -
    have "link st sid = Some p" using that by (simp add: link_def)
    then have "link st p = Some sid" using assms unfolding links_inv_def by blast
    then show ?thesis by (auto simp: link_def split: option.splits)
  qed
  show ?thesis
  proof (cases "st_get sid st")
    case (Some k)
    note peer = peer [OF Some]
    show ?thesis
      by (cases "ks_peerId k"; cases "st_get (the (ks_peerId k)) st"; cases "ks_hostSocket k")
        (use peer in \<open>auto simp: st_send_def withSocket_def requireSocket_def Some split: sum.split bool.split\<close>)
  qed (simp add: st_send_def withSocket_def requireSocket_def)
qed


lemma link_create:
  assumes "sock_inv env st" "st_create env d t p pid st = (r, st')" shows "link st' = link st"
  using assms(2)
proof (cases rule: create_cases)
  case created
  show ?thesis
  proof
    fix s show "link st' s = link st s"
      using fresh_socket(3) [OF assms(1)] by (auto simp: link_def st_get_def created(3) new_socket_def)
  qed
qed simp

text \<open>Linking two unlinked live sockets keeps the symmetry, and so does cutting both ends.\<close>

lemma links_join:
  assumes "links_inv st" "link st a = None" "link st b = None" "a \<noteq> b" "link st' = (link st)(a \<mapsto> b, b \<mapsto> a)"
  shows "links_inv st'"
proof -
  have "link st x \<noteq> Some a" "link st x \<noteq> Some b" for x using assms(1-3) unfolding links_inv_def by (metis option.distinct(1))+
  then show ?thesis using assms(1,4) unfolding links_inv_def assms(5) by (metis fun_upd_apply option.inject)
qed

lemma links_cut:
  assumes "links_inv st" "\<And>s. link st' s = (if s = a \<or> link st s = Some a then None else link st s)"
  shows "links_inv st'"
  unfolding links_inv_def assms(2) using assms(1) unfolding links_inv_def by (metis option.distinct(1) option.inject)

lemma link_set:
  assumes "sid \<in> set (st_sockets st)" "st_objs st sid \<noteq> None" "\<And>k. ks_peerId (f k) = p"
  shows "link (upd sid f st) = (link st)(sid := p)"
proof
  fix s show "link (upd sid f st) s = ((link st)(sid := p)) s" using assms by (auto simp: link_def st_get_def)
qed

lemma socketpair_links:
  assumes "sock_inv env st" "links_inv st" shows "links_inv (snd (st_socketpair env d t p pid st))"
proof -
  obtain r1 st1 where c1: "st_create env d t p pid st = (r1, st1)" by force
  obtain r2 st2 where c2: "st_create env d t p pid st1 = (r2, st2)" by force
  note i1 = inv_create [OF assms(1) c1]
  have l: "link st1 = link st" "link st2 = link st" using link_create [OF assms(1) c1] link_create [OF i1 c2] by auto
  have same: "links_inv st1" "links_inv st2" using assms(2) links_cong l by blast+
  show ?thesis
  proof (cases "\<exists>x y. r1 = Inr x \<and> r2 = Inr y")
    case True
    have n: "r1 = Inr (st_nextSocketId st)" "r2 = Inr (st_nextSocketId st1)" "st_nextSocketId st1 = Suc (st_nextSocketId st)"
      "st_sockets st2 = st_sockets st @ [st_nextSocketId st, st_nextSocketId st1]"
      "st_objs st2 (st_nextSocketId st) \<noteq> None" "st_objs st2 (st_nextSocketId st1) \<noteq> None"
      using True c1 c2 by (auto elim!: create_cases)
    have "link st1 (st_nextSocketId st1) = None" using fresh_socket(3) [OF i1] by (simp add: link_def st_get_def)
    then have u: "link st (st_nextSocketId st) = None" "link st (st_nextSocketId st1) = None"
      using fresh_socket(3) [OF assms(1)] l(1) by (simp_all add: link_def [of st "st_nextSocketId st"] st_get_def)
    have "snd (st_socketpair env d t p pid st) = upd (st_nextSocketId st1) (\<lambda>k. k\<lparr>ks_peerId := Some (st_nextSocketId st), ks_state := Connected\<rparr>)
        (upd (st_nextSocketId st) (\<lambda>k. k\<lparr>ks_peerId := Some (st_nextSocketId st1), ks_state := Connected\<rparr>) st2)"
      using n(1,2) c1 c2 by (simp add: st_socketpair_def)
    moreover have "link (upd (st_nextSocketId st1) (\<lambda>k. k\<lparr>ks_peerId := Some (st_nextSocketId st), ks_state := Connected\<rparr>)
        (upd (st_nextSocketId st) (\<lambda>k. k\<lparr>ks_peerId := Some (st_nextSocketId st1), ks_state := Connected\<rparr>) st2)) =
        (link st)(st_nextSocketId st \<mapsto> st_nextSocketId st1, st_nextSocketId st1 \<mapsto> st_nextSocketId st)"
      using n by (subst link_set; simp add: l link_set)
    ultimately show ?thesis using links_join [OF assms(2) u] n(3) by simp
  next
    case False
    then show ?thesis using c1 c2 same by (auto simp: st_socketpair_def split: sum.split)
  qed
qed

lemma connect_loopback_links:
  assumes "sock_inv env st" "links_inv st" "st_get sid st \<noteq> None" "link st sid = None"
  shows "links_inv (snd (connect_loopback env sid a lid st))"
proof (cases "\<exists>l. st_objs st lid = Some l \<and> \<not> ks_backlogLimit l \<le> length (ks_backlog l)")
  case True
  then obtain l where l: "st_objs st lid = Some l" "\<not> ks_backlogLimit l \<le> length (ks_backlog l)" by blast
  obtain k where k: "st_objs st sid = Some k" "sid \<in> set (st_sockets st)" using assms(3) by (auto simp: st_get_def split: if_splits)
  obtain r st1 where c: "st_create env (ks_domain l) (ks_type l) (ks_protocol l) (ks_pid l) st = (r, st1)" by force
  note L = link_create [OF assms(1) c]
  show ?thesis using c
  proof (cases rule: create_cases)
    case (failed e)
    then show ?thesis using assms(2) l k c by (simp add: connect_loopback_def)
  next
    case created
    let ?n = "st_nextSocketId st"
    let ?f = "\<lambda>k. k\<lparr>ks_remoteAddr := Some a, ks_peerId := Some ?n, ks_state := Connected\<rparr>"
    let ?g = "\<lambda>s. s\<lparr>ks_localAddr := ks_localAddr l, ks_remoteAddr := ks_localAddr k, ks_peerId := Some sid, ks_state := Connected\<rparr>"
    let ?h = "\<lambda>l. wakeAcceptor (l\<lparr>ks_backlog := ks_backlog l @ [?n]\<rparr>)"
    have n: "sid \<noteq> ?n" "link st ?n = None" using fresh_socket [OF assms(1)] k by (auto simp: link_def st_get_def)
    have o: "sid \<in> set (st_sockets st1)" "?n \<in> set (st_sockets st1)" "st_objs st1 sid \<noteq> None" "st_objs st1 ?n \<noteq> None"
      using k by (auto simp: created(3))
    have "link (upd lid ?h (upd ?n ?g (upd sid ?f st1))) = (link st)(sid \<mapsto> ?n, ?n \<mapsto> sid)"
      using o n(1) by (simp, subst link_set; simp add: L link_set)
    then show ?thesis using links_join [OF assms(2,4) n(2) n(1)] l k c created(1) by (simp add: connect_loopback_def Let_def)
  qed
qed (use assms(2) in \<open>auto simp: connect_loopback_def split: option.split\<close>)

lemma connect_rest_links:
  assumes "sock_inv env st" "links_inv st" "st_get sid st \<noteq> None" "link st sid = None"
  shows "links_inv (snd (connect_rest env sid a st))"
proof -
  have "links_inv (snd (connect_loopback env sid a lid st))" for lid by (rule connect_loopback_links [OF assms])
  moreover have "link (snd (connect_rest env sid a st)) = link st" if "findListener a st = None"
    using that by (auto simp: connect_rest_def simp del: findListener.simps split: op_splits)
  moreover have "snd (connect_rest env sid a st) = snd (connect_loopback env sid a lid st)" if "findListener a st = Some lid" for lid
    using that by (simp add: connect_rest_def case_prod_beta del: findListener.simps split: sum.split)
  ultimately show ?thesis using assms(2) links_cong [of "snd (connect_rest env sid a st)" st] by (cases "findListener a st") simp_all
qed

lemma destroy_self_links: assumes "links_inv st" "sid \<in> set (st_sockets st)" shows "links_inv (destroy_self sid st)"
proof (cases "st_objs st sid")
  case (Some k)
  have p: "link st sid = ks_peerId k" using Some assms(2) by (simp add: link_def st_get_def)
  have sym: "link st s = Some sid \<longleftrightarrow> ks_peerId k = Some s" for s using assms(1) p unfolding links_inv_def by metis
  have "link (destroy_self sid st) s = (if s = sid \<or> link st s = Some sid then None else link st s)" for s
    using Some sym [of s] by (auto simp: destroy_self_def Let_def link_def st_get_def logEvent_def split: option.splits if_splits)
  then show ?thesis by (rule links_cut [OF assms(1)])
qed (use assms in \<open>simp add: destroy_self_def\<close>)


lemma destroy_self_sockets: "set (st_sockets (destroy_self sid st)) \<subseteq> set (st_sockets st)"
  by (auto simp: destroy_self_def Let_def logEvent_def split: option.splits)

lemma destroy_pending_links:
  assumes "sock_inv env st" "links_inv st" "calm ps st" "destroy_pending (destroySocket (Suc n)) ps st = Some st'"
    "sid \<notin> set ps"
  shows "links_inv st' \<and> (sid \<in> set (st_sockets st) \<longrightarrow> sid \<in> set (st_sockets st'))"
  using assms
proof (induction ps arbitrary: st)
  case (Cons p ps)
  have d: "destroySocket (Suc n) p st = Some (destroy_self p st)"
    using Cons.prems(3) by (auto simp: calm_def destroy_self_def split: option.split)
  show ?case
  proof (cases "p \<in> set (st_sockets st)")
    case True
    have "calm ps (destroy_self p st)" using Cons.prems(3) destroy_self_backlog by (fastforce simp: calm_def)
    moreover have "sid \<in> set (st_sockets st) \<longrightarrow> sid \<in> set (st_sockets (destroy_self p st))"
      using Cons.prems(5) by (auto simp: destroy_self_def Let_def logEvent_def split: option.split)
    ultimately show ?thesis
      using Cons.IH [of "destroy_self p st"] Cons.prems d True destroy_self_inv [OF Cons.prems(1), of p] destroy_self_links [OF Cons.prems(2) True] by simp
  next
    case False
    then show ?thesis using Cons by (simp add: calm_def)
  qed
qed simp

lemma destroy_links:
  assumes "sock_inv env st" "links_inv st" "sid \<in> set (st_sockets st)" "destroy sid st = Some st'"
  shows "links_inv st'"
proof (cases "st_objs st sid")
  case (Some k)
  have c: "calm (ks_backlog k) st" using sock_invD(2) [OF assms(1)] Some by (fastforce simp: calm_def backlog_inv_def queued_def)
  have n: "sid \<notin> set (ks_backlog k)" using sock_invD(2) [OF assms(1)] Some by (fastforce simp: backlog_inv_def queued_def)
  obtain st1 where d: "destroy_pending (destroySocket (Suc (st_size st))) (ks_backlog k) st = Some st1" "st' = destroy_self sid st1"
    using assms(4) Some by (auto simp: destroy_def)
  show ?thesis using destroy_pending_links [OF assms(1,2) c d(1) n] destroy_self_links [of st1 sid] assms(3) d(2) by simp
qed (use assms in \<open>simp add: destroy_def\<close>)

lemma close_owned_links:
  assumes "sock_inv env st" "links_inv st" "close_owned pid sids st = Some st'" shows "links_inv st'"
  using assms
proof (induction sids arbitrary: st)
  case (Cons s sids)
  obtain st1 where d: "destroy s st = Some st1" "sock_inv env st1" by (rule destroy_returns [OF Cons.prems(1)])
  have "links_inv st1" if "st_get s st = Some k" for k
    using destroy_links [OF Cons.prems(1,2) _ d(1)] that by (simp add: st_get_Some)
  then show ?case using Cons d by (auto split: option.splits if_splits)
qed simp

lemma links_resume:
  assumes "sock_inv env st" "links_inv st"
    and "\<And>sid a. mget (st_tasks st) tok = Some (TConnectExists sid a) \<Longrightarrow> st_get sid st \<noteq> None \<and> link st sid = None"
  shows "links_inv (resume env tok r st)"
proof (cases "mget (st_tasks st) tok")
  case (Some t)
  have "links_inv (resume_task env tok t r st)"
  proof (cases "\<exists>sid a. t = TConnectExists sid a")
    case True
    then obtain sid a where t: "t = TConnectExists sid a" by blast
    note c = connect_rest_links [OF assms(1,2), of sid a] assms(3) [of sid a]
    then have "links_inv (snd (connect_rest env sid a st))" using Some t by simp
    then show ?thesis using t assms(2)
      by (auto simp: resume_connectExists_def case_prod_beta split: Reply.split bool.split sum.split option.split)
  next
    case False
    have a: "link (accepted env tok sid hl hs st) = link st" for sid hl hs
    proof (cases "st_objs st sid")
      case (Some k)
      obtain r st1 where c: "st_create env (ks_domain k) (ks_type k) (ks_protocol k) (ks_pid k) st = (r, st1)" by force
      show ?thesis using Some c link_create [OF assms(1) c] by (auto simp: accepted_def Let_def split: sum.split)
    qed (simp add: accepted_def)
    have "link (resume_task env tok t r st) = link st"
      using False a by (cases t) (auto simp: resume_bind_def resume_file_def settle_def resume_listen_def resume_connectHost_def
          resume_external_def resume_udpBind_def resume_accept_def resume_recv_def resume_readPump_def resume_acceptPump_def
          resume_udpPump_def resume_write_def createSocketFile_def case_prod_beta Let_def split: Reply.split bool.split sum.split option.split)
    then show ?thesis using assms(2) links_cong by blast
  qed
  then show ?thesis using Some by (simp add: resume_def)
qed (use assms in \<open>simp add: resume_def\<close>)


text \<open>
  The schedule under which links are symmetric: a connect starts or continues only on a socket that is
  still in the table and has no peer.
\<close>

definition link_guard :: "sock_call \<Rightarrow> SockTable option \<Rightarrow> bool" where
  "link_guard c s = (case s of None \<Rightarrow> True | Some st \<Rightarrow>
     (case c of
        CConnect sid a \<Rightarrow> link st sid = None
      | CResume tok r \<Rightarrow> (case mget (st_tasks st) tok of
          Some (TConnectExists sid a) \<Rightarrow> st_get sid st \<noteq> None \<and> link st sid = None
        | _ \<Rightarrow> True)
      | _ \<Rightarrow> True))"

definition linked_oinv :: "NetEnv \<Rightarrow> SockTable option \<Rightarrow> bool" where
  "linked_oinv env s = (case s of None \<Rightarrow> False | Some st \<Rightarrow> sock_inv env st \<and> links_inv st)"

lemma connect_links:
  assumes "sock_inv env st" "links_inv st" "link st sid = None" shows "links_inv (snd (st_connect env sid a st))"
proof (cases "st_get sid st")
  case (Some k)
  let ?s = "snd (auto_bind sid k a st)"
  have o: "sid \<in> set (st_sockets st)" "st_objs st sid = Some k" using Some by (simp_all add: st_get_Some)
  have b: "sock_inv env ?s" "link ?s = link st" "st_get sid ?s \<noteq> None"
    using auto_bind_inv [OF assms(1), where sid = sid and k = k and a = a] o
    by (auto simp: st_get_def auto_bind_def assignEphemeralPort_def Let_def case_prod_beta split: op_splits nat.splits)
  have i: "links_inv ?s" using links_cong [OF b(2)] assms(2) by simp
  have "links_inv (snd (connect_rest env sid a ?s))" using connect_rest_links [OF b(1) i b(3)] b(2) assms(3) by simp
  then have c: "links_inv (snd (connect_from env sid a ?s))" using i links_cong [of "request (VfsExists p) ?s" ?s for p]
    by (auto simp: connect_from_def case_prod_beta split: option.split sum.split)
  show ?thesis using Some i c assms(2) by (auto simp: st_connect_def withSocket_def requireSocket_def case_prod_beta split: sum.split)
qed (use assms in \<open>simp add: st_connect_def withSocket_def requireSocket_def\<close>)

lemma linked_step:
  assumes "sock_inv env st" "links_inv st" "link_guard c (Some st)" "sock_step env c st = Some st'"
  shows "links_inv st'"
proof -
  have same: "links_inv st'" if "link st' = link st" using links_cong [OF that] assms(2) by simp
  show ?thesis
  proof (cases c)
    case (CCreate d t p pid)
    then show ?thesis using assms(4) link_create [OF assms(1), of d t p pid] by (intro same) (cases "st_create env d t p pid st", auto)
  next
    case (CSocketpair d t p pid)
    then show ?thesis using assms(4) socketpair_links [OF assms(1,2)] by auto
  next
    case (CConnect sid a)
    then show ?thesis using assms connect_links [OF assms(1,2)] by (auto simp: link_guard_def)
  next
    case (CSend sid d)
    then show ?thesis using assms(4) send_link [OF assms(2)] by (intro same) auto
  next
    case (CClose sid pid)
    then show ?thesis using assms destroy_links [OF assms(1,2)]
      by (auto simp: st_close_def requireSocket_def st_get_Some split: option.splits if_splits)
  next
    case (CCloseAll pid)
    then show ?thesis using assms(4) close_owned_links [OF assms(1,2)] by (auto simp: closeAllForProcess_def)
  next
    case CDispose
    then have "link st' s = None" for s using assms(4) by (auto simp: st_disposeAll_def link_def st_get_def)
    then show ?thesis by (simp add: links_inv_def)
  next
    case (CResume tok r)
    then have g: "\<And>sid a. mget (st_tasks st) tok = Some (TConnectExists sid a) \<Longrightarrow> st_get sid st \<noteq> None \<and> link st sid = None"
      using assms(3) by (simp add: link_guard_def)
    show ?thesis using CResume assms(4) links_resume [OF assms(1,2) g] by auto
  qed (use assms(4) same in \<open>auto simp: signalDelivered_def\<close>)
qed

interpretation linked_sockets: invariant_component "sock_run1 env" link_guard "linked_oinv env" for env
proof
  fix s and x assume "linked_oinv env s" "link_guard x s"
  then obtain st where st: "s = Some st" "sock_inv env st" "links_inv st" "link_guard x (Some st)" by (auto simp: linked_oinv_def split: option.splits)
  obtain st' where r: "sock_step env x st = Some st'" "sock_inv env st'" using step_inv [OF st(2)] by blast
  then show "linked_oinv env (sock_run1 env x s)" using st(1) linked_step [OF st(2-4) r(1)] by (simp add: linked_oinv_def sock_run1_def)
qed


text \<open>
  C14. Peers point at each other in every run in which a connect continues only on a socket that is still
  open and unconnected: whenever a socket of the table has a peer, the peer is in the table and has this
  socket as its peer, so no connection has a dangling end after a close, an exit or a disposal.
\<close>

theorem socket_links_symmetric:
  assumes "guarded link_guard (sock_run1 env) cs (Some st_new)"
  shows "\<exists>st. run_ops (sock_run1 env) cs (Some st_new) = Some st \<and>
    (\<forall>a k b. st_get a st = Some k \<longrightarrow> ks_peerId k = Some b \<longrightarrow> (\<exists>kb. st_get b st = Some kb \<and> ks_peerId kb = Some a))"
proof -
  have "linked_oinv env (Some st_new)" using st_new_inv by (simp add: linked_oinv_def links_inv_def link_def st_get_def st_new_def)
  then obtain st where st: "run_ops (sock_run1 env) cs (Some st_new) = Some st" "links_inv st"
    using linked_sockets.run_inv [OF _ assms] by (auto simp: linked_oinv_def split: option.splits)
  have "\<exists>kb. st_get b st = Some kb \<and> ks_peerId kb = Some a" if "st_get a st = Some k" "ks_peerId k = Some b" for a k b
  proof -
    have "link st a = Some b" using that by (simp add: link_def)
    then have "link st b = Some a" using st(2) unfolding links_inv_def by blast
    then show ?thesis by (auto simp: link_def split: option.splits)
  qed
  then show ?thesis using st(1) by blast
qed

theorem socket_links_symmetric_witness:
  "guarded link_guard (sock_run1 (open_env 8)) [CSocketpair AF_UNIX SOCK_STREAM 0 1, CClose 1 1] (Some st_new) \<and>
   (\<exists>st. run_ops (sock_run1 (open_env 8)) [CSocketpair AF_UNIX SOCK_STREAM 0 1, CClose 1 1] (Some st_new) = Some st)"
proof -
  have g: "guarded link_guard (sock_run1 (open_env 8)) [CSocketpair AF_UNIX SOCK_STREAM 0 1, CClose 1 1] (Some st_new)"
    by (simp add: link_guard_def split: option.split)
  show ?thesis using socket_links_symmetric [OF g] g by blast
qed

text \<open>
  Two connects on one socket that are both waiting for the file system leave the first server-side
  socket pointing at a client that points elsewhere.
\<close>

abbreviation file_env :: NetEnv where
  "file_env \<equiv> \<lparr>ne_maxSockets = 8, ne_networkCheck = None, ne_hostAdapter = False, ne_vfs = True,
     ne_getSignalState = False, ne_processExists = False\<rparr>"

definition two_connects :: "sock_call list" where
  "two_connects = [CCreate AF_UNIX SOCK_STREAM 0 1, CBind 1 (UnixAddr ''/s'') 493, CResume 0 (ReplyExists False), CListen 1 5 False,
     CCreate AF_UNIX SOCK_STREAM 0 2, CConnect 2 (UnixAddr ''/s''), CConnect 2 (UnixAddr ''/s''),
     CResume 1 (ReplyExists True), CResume 2 (ReplyExists True)]"

lemma concurrent_connect_breaks_link:
  "map_option (\<lambda>st. map (link st) [2, 3, 4]) (run_ops (sock_run1 file_env) two_connects (Some st_new)) = Some [Some 4, Some 2, Some 2]"
  by code_simp


subsection \<open>Runs that show limits of the code\<close>

text \<open>
  The table of listeners is keyed by strings, and a Unix path may be spelled as an internet address: its
  listener needs no permission and receives the connections to that port.
\<close>

lemma unix_path_shadows_port:
  "map_option (\<lambda>st. (fst (st_listen (open_env 8) 2 5 False st), link (snd (st_connect (open_env 8) 3 (InetAddr ''127.0.0.1'' 80) st)) 3))
     (run_ops (sock_run1 (open_env 8)) [CCreate AF_UNIX SOCK_STREAM 0 1, CBind 1 (UnixAddr ''127.0.0.1:80'') 493, CListen 1 5 False,
        CCreate AF_INET SOCK_STREAM 0 2, CBind 2 (InetAddr ''10.0.0.1'' 80) 493, CCreate AF_INET SOCK_STREAM 0 3, CBind 3 (UnixAddr ''/c'') 493] (Some st_new)) =
   Some (Inl EACCES, Some 4)"
  by code_simp

text \<open>A blocking receive on a socket connected through the host does not block: it reports the end of the stream.\<close>

lemma external_recv_is_eof:
  assumes "st_get sid st = Some k" "ks_state k = Connected" "ks_external k" "ks_readBuffer k = []" "ks_peerId k = None" "\<not> ks_peerWriteClosed k"
  shows "st_recv env sid n fl (Some pid) st = (Inr (Returned (VData None)), st) \<and> canBlockForRecv sid st"
  using assms by (auto simp: st_recv_def recv_now_def withSocket_def requireSocket_def canBlockForRecv_def st_get_def split: if_splits)

text \<open>Disposing the table wakes a blocked accept, which finds its socket still listening and waits again, for ever.\<close>

lemma dispose_leaves_accept_waiting:
  "map_option (\<lambda>st. (st_sockets st, map fst (st_tasks st), st_done st))
     (run_ops (sock_run1 (open_env 8)) [CCreate AF_UNIX SOCK_STREAM 0 1, CBind 1 (UnixAddr ''/s'') 493, CListen 1 5 False,
        CAccept 1 (Some 1), CDispose, CResume 0 WokenBySocket] (Some st_new)) = Some ([], [0], [])"
  by code_simp

text \<open>One send wakes one reader; the bytes it leaves do not wake the next, which waits beside a buffer with data.\<close>

lemma reader_waits_beside_data:
  "map_option (\<lambda>st. (buffered 2 st, map fst (st_tasks st), map (\<lambda>t. fst t) (st_done st), buffered 2 (resume (open_env 8) 1 WokenBySocket st)))
     (run_ops (sock_run1 (open_env 8)) [CSocketpair AF_UNIX SOCK_STREAM 0 1, CRecv 2 1 0 (Some 1), CRecv 2 1 0 (Some 1),
        CSend 1 [7, 8], CResume 0 WokenBySocket] (Some st_new)) = Some ([8], [1], [0], [8])"
  by code_simp

text \<open>A closed peer makes the next receive return at once, but polling reports nothing to read.\<close>

lemma poll_misses_eof:
  "map_option (\<lambda>st. (map_option sp_readable (case st_poll 2 st of Inl _ \<Rightarrow> None | Inr p \<Rightarrow> Some p), fst (st_recv (open_env 8) 2 1 0 None st)))
     (run_ops (sock_run1 (open_env 8)) [CSocketpair AF_UNIX SOCK_STREAM 0 1, CClose 1 1] (Some st_new)) =
   Some (Some False, Inr (Returned (VData None)))"
  by code_simp

text \<open>With \<^verbatim>\<open>SO_REUSEADDR\<close> any process takes over the address of another's listener; once it closes, the first one is unreachable.\<close>

abbreviation allow_env :: NetEnv where
  "allow_env \<equiv> \<lparr>ne_maxSockets = 8, ne_networkCheck = Some (\<lambda>_. Some \<lparr>pd_allow = True, pd_reason = None\<rparr>), ne_hostAdapter = False,
     ne_vfs = False, ne_getSignalState = False, ne_processExists = False\<rparr>"

definition take_over :: "sock_call list" where
  "take_over = [CCreate AF_INET SOCK_STREAM 0 1, CBind 1 (InetAddr ''127.0.0.1'' 80) 493, CListen 1 5 False,
     CCreate AF_INET SOCK_STREAM 0 2, CSetsockopt 2 SOL_SOCKET SO_REUSEADDR 1, CBind 2 (InetAddr ''127.0.0.1'' 80) 493, CListen 2 5 False]"

lemma reuseaddr_takes_over:
  "map_option (\<lambda>st. (findListener (InetAddr ''127.0.0.1'' 80) st, map_option (findListener (InetAddr ''127.0.0.1'' 80)) (sock_step allow_env (CClose 2 2) st)))
     (run_ops (sock_run1 allow_env) take_over (Some st_new)) = Some (Some 2, Some None)"
  by code_simp

text \<open>A pair that does not fit leaves its first half in the table.\<close>

lemma socketpair_leaks:
  "fst (st_socketpair (open_env 1) AF_UNIX SOCK_STREAM 0 1 st_new) = Inl EMFILE"
  "st_size (snd (st_socketpair (open_env 1) AF_UNIX SOCK_STREAM 0 1 st_new)) = 1"
  by code_simp+

text \<open>The port a client gets on connecting is not registered, so that the next client gets the same one.\<close>

lemma auto_bind_not_registered: "st_listeners (snd (auto_bind sid k a st)) = st_listeners st"
  by (auto simp: auto_bind_def assignEphemeralPort_def Let_def case_prod_beta split: op_splits nat.splits)

definition listener_run :: "sock_call list" where
  "listener_run = [CCreate AF_UNIX SOCK_STREAM 0 1, CBind 1 (UnixAddr ''/s'') 493, CListen 1 5 False,
     CCreate AF_UNIX SOCK_STREAM 0 2, CBind 2 (UnixAddr ''/c'') 493]"

theorem loopback_connect_witness:
  "\<exists>st. run_ops (sock_run1 (open_env 8)) listener_run (Some st_new) = Some st \<and> listening_at (open_env 8) 2 (UnixAddr ''/s'') 1 st \<and>
     fst (st_connect (open_env 8) 2 (UnixAddr ''/s'') st) = Inr (Returned VUnit)"
proof -
  obtain st where st: "run_ops (sock_run1 (open_env 8)) listener_run (Some st_new) = Some st" "sock_inv (open_env 8) st" by (rule run_returns)
  have "map_option (\<lambda>st. (listening_at (open_env 8) 2 (UnixAddr ''/s'') 1 st, st_objs st 2 = None, st_objs st 1 = None))
      (run_ops (sock_run1 (open_env 8)) listener_run (Some st_new)) = Some (True, False, False)" by code_simp
  then obtain k l where l: "listening_at (open_env 8) 2 (UnixAddr ''/s'') 1 st" "st_objs st 2 = Some k" "st_objs st 1 = Some l"
    using st(1) by auto
  show ?thesis using loopback_connect [OF l(1) st(2) l(2,3)] st(1) l(1) by (auto simp: case_prod_beta)
qed

end
