(* ===== verification/Device_Backend.thy ===== *)
theory Device_Backend
  imports Mount_Table Js_Buffer
begin

section \<open>Device nodes\<close>

text \<open>
  \<^verbatim>\<open>kernel/device-backend.ts\<close>, the file system the kernel mounts at \<^verbatim>\<open>/dev\<close>, and
  \<^verbatim>\<open>kernel/device-layer.ts\<close>, which intercepts the absolute device paths in front of another file system.
  Neither keeps state. The clock value of \<^verbatim>\<open>Date.now()\<close> and the random source are arguments: \<open>rnd n\<close> is
  what \<^verbatim>\<open>getRandomValues\<close> put into a fresh array of \<open>n\<close> bytes. A negative length makes
  \<^verbatim>\<open>new Uint8Array\<close> throw a \<^verbatim>\<open>RangeError\<close>, which is \<^const>\<open>EINVAL\<close> here.
\<close>

subsection \<open>The backend\<close>

definition DEVICE_NAMES :: "string list" where
  "DEVICE_NAMES = [''null'', ''zero'', ''stdin'', ''stdout'', ''stderr'', ''urandom'', ''random'', ''tty'',
     ''console'', ''full'', ''ptmx'']"

definition DEVICE_INO :: "(string, nat) jsmap" where
  "DEVICE_INO = [(''null'', 0xffff0001), (''zero'', 0xffff0002), (''stdin'', 0xffff0003),
     (''stdout'', 0xffff0004), (''stderr'', 0xffff0005), (''urandom'', 0xffff0006), (''random'', 0xffff0007),
     (''tty'', 0xffff0008), (''console'', 0xffff0009), (''full'', 0xffff000a), (''ptmx'', 0xffff000b)]"

definition DEVICE_DIRS :: "string list" where
  "DEVICE_DIRS = [''fd'', ''pts'', ''shm'']"

definition isDeviceName :: "path \<Rightarrow> bool" where
  "isDeviceName p \<longleftrightarrow> p \<in> set DEVICE_NAMES \<or> startsWith p ''fd/'' \<or> startsWith p ''pts/''"

definition isDeviceDir :: "path \<Rightarrow> bool" where
  "isDeviceDir p \<longleftrightarrow> p = '''' \<or> p \<in> set DEVICE_DIRS"

definition ino_of :: "(string, nat) jsmap \<Rightarrow> path \<Rightarrow> nat" where
  "ino_of inos p = (case mget inos p of None \<Rightarrow> 0xffff0000 | Some i \<Rightarrow> i)"

definition deviceStat :: "int \<Rightarrow> path \<Rightarrow> VirtualStat" where
  "deviceStat now p = \<lparr>vs_mode = 0x1B6, vs_size = 0, vs_isDirectory = False, vs_isSymbolicLink = False,
     vs_atimeMs = now, vs_mtimeMs = now, vs_ctimeMs = now, vs_birthtimeMs = now,
     vs_ino = ino_of DEVICE_INO p, vs_nlink = 1, vs_uid = 0, vs_gid = 0\<rparr>"

definition dirStat :: "int \<Rightarrow> path \<Rightarrow> VirtualStat" where
  "dirStat now p = \<lparr>vs_mode = 0x1ED, vs_size = 0, vs_isDirectory = True, vs_isSymbolicLink = False,
     vs_atimeMs = now, vs_mtimeMs = now, vs_ctimeMs = now, vs_birthtimeMs = now,
     vs_ino = ino_of DEVICE_INO p, vs_nlink = 2, vs_uid = 0, vs_gid = 0\<rparr>"

definition entry :: "string \<Rightarrow> bool \<Rightarrow> VirtualDirEntry" where
  "entry nm dir = \<lparr>vd_name = nm, vd_isDirectory = dir, vd_isSymbolicLink = False, vd_ino = None\<rparr>"

definition DEV_DIR_ENTRIES :: "VirtualDirEntry list" where
  "DEV_DIR_ENTRIES = [entry ''null'' False, entry ''zero'' False, entry ''stdin'' False, entry ''stdout'' False,
     entry ''stderr'' False, entry ''urandom'' False, entry ''random'' False, entry ''tty'' False,
     entry ''console'' False, entry ''full'' False, entry ''ptmx'' False, entry ''fd'' True, entry ''pts'' True,
     entry ''shm'' True]"

text \<open>\<^verbatim>\<open>new Uint8Array(length)\<close> and \<^verbatim>\<open>randomBytes(length)\<close>.\<close>

definition zeroBytes :: "int \<Rightarrow> vfs_reply res" where
  "zeroBytes len = (if len < 0 then Inl EINVAL else Inr (RBytes (replicate (nat len) 0)))"

definition randomBytes :: "(nat \<Rightarrow> bytes) \<Rightarrow> int \<Rightarrow> vfs_reply res" where
  "randomBytes rnd len = (if len < 0 then Inl EINVAL else Inr (RBytes (rnd (nat len))))"

definition notFound :: "vfs_reply res" where
  "notFound = Inl ENOENT"

definition dev_readFile :: "(nat \<Rightarrow> bytes) \<Rightarrow> path \<Rightarrow> vfs_reply res" where
  "dev_readFile rnd p =
     (if p = ''null'' \<or> p = ''full'' then Inr (RBytes [])
      else if p = ''zero'' then zeroBytes 4096
      else if p = ''urandom'' \<or> p = ''random'' then randomBytes rnd 4096
      else if p = ''tty'' \<or> p = ''console'' \<or> p = ''ptmx'' then Inr (RBytes [])
      else if p = ''stdin'' \<or> p = ''stdout'' \<or> p = ''stderr'' then Inr (RBytes [])
      else notFound)"

definition dev_pread :: "(nat \<Rightarrow> bytes) \<Rightarrow> path \<Rightarrow> int \<Rightarrow> vfs_reply res" where
  "dev_pread rnd p len =
     (if p = ''null'' \<or> p = ''full'' then Inr (RBytes [])
      else if p = ''zero'' then zeroBytes len
      else if p = ''urandom'' \<or> p = ''random'' then randomBytes rnd len
      else if p = ''tty'' \<or> p = ''console'' \<or> p = ''ptmx'' then Inr (RBytes [])
      else if p = ''stdin'' \<or> p = ''stdout'' \<or> p = ''stderr'' then Inr (RBytes [])
      else notFound)"

text \<open>\<^verbatim>\<open>new TextDecoder().decode(bytes)\<close>, which drops a leading byte order mark.\<close>

definition textDecode :: "bytes \<Rightarrow> ustring" where
  "textDecode bs = utf8_decode (if take 3 bs = [0xEF, 0xBB, 0xBF] then drop 3 bs else bs)"

definition asText :: "vfs_reply res \<Rightarrow> vfs_reply res" where
  "asText r = (case r of Inr (RBytes bs) \<Rightarrow> Inr (RText (textDecode bs)) | _ \<Rightarrow> r)"

definition dev_readTextFile :: "(nat \<Rightarrow> bytes) \<Rightarrow> path \<Rightarrow> vfs_reply res" where
  "dev_readTextFile rnd p = asText (dev_readFile rnd p)"

definition dev_readDir :: "path \<Rightarrow> vfs_reply res" where
  "dev_readDir p =
     (if p = '''' then Inr (RNames (map vd_name DEV_DIR_ENTRIES))
      else if p \<in> set DEVICE_DIRS then Inr (RNames []) else notFound)"

definition dev_readDirWithTypes :: "path \<Rightarrow> vfs_reply res" where
  "dev_readDirWithTypes p =
     (if p = '''' then Inr (REntries DEV_DIR_ENTRIES)
      else if p \<in> set DEVICE_DIRS then Inr (REntries []) else notFound)"

text \<open>\<^verbatim>\<open>writeFile\<close> and \<^verbatim>\<open>pwrite\<close> have the same body; the data is dropped.\<close>

definition dev_writeFile :: "path \<Rightarrow> vfs_reply res" where
  "dev_writeFile p =
     (if p = ''full'' then Inl ENOSPC
      else if p \<in> set DEVICE_NAMES \<or> startsWith p ''fd/'' \<or> startsWith p ''pts/'' then Inr RUnit
      else notFound)"

definition dev_pwrite :: "path \<Rightarrow> vfs_reply res" where
  "dev_pwrite p =
     (if p = ''full'' then Inl ENOSPC
      else if p \<in> set DEVICE_NAMES \<or> startsWith p ''fd/'' \<or> startsWith p ''pts/'' then Inr RUnit
      else notFound)"

definition dev_mkdir :: "path \<Rightarrow> vfs_reply res" where
  "dev_mkdir p = (if isDeviceDir p then Inr RUnit else Inl EPERM)"

definition dev_exists :: "path \<Rightarrow> vfs_reply res" where
  "dev_exists p = Inr (RBool (isDeviceName p \<or> isDeviceDir p))"

definition dev_stat :: "int \<Rightarrow> path \<Rightarrow> vfs_reply res" where
  "dev_stat now p =
     (if isDeviceName p then Inr (RStat (deviceStat now p))
      else if isDeviceDir p then Inr (RStat (dirStat now p)) else notFound)"

definition dev_removeFile :: "path \<Rightarrow> vfs_reply res" where
  "dev_removeFile p = (if isDeviceName p then Inl EPERM else notFound)"

definition dev_removeDir :: "path \<Rightarrow> vfs_reply res" where
  "dev_removeDir p = (if isDeviceDir p then Inl EPERM else notFound)"

definition dev_realpath :: "path \<Rightarrow> vfs_reply res" where
  "dev_realpath p = (if isDeviceName p \<or> isDeviceDir p then Inr (RPath p) else notFound)"

text \<open>\<^verbatim>\<open>chmod\<close>, \<^verbatim>\<open>chown\<close>, \<^verbatim>\<open>utimes\<close> and \<^verbatim>\<open>truncate\<close>.\<close>

definition dev_setattr :: "path \<Rightarrow> vfs_reply res" where
  "dev_setattr p = (if isDeviceName p \<or> isDeviceDir p then Inr RUnit else notFound)"

fun dev_call :: "int \<Rightarrow> (nat \<Rightarrow> bytes) \<Rightarrow> vfs_call \<Rightarrow> vfs_reply res" where
  "dev_call now rnd (ReadFile p) = dev_readFile rnd p"
| "dev_call now rnd (Pread p off len) = dev_pread rnd p len"
| "dev_call now rnd (ReadTextFile p) = dev_readTextFile rnd p"
| "dev_call now rnd (ReadDir p) = dev_readDir p"
| "dev_call now rnd (ReadDirWithTypes p) = dev_readDirWithTypes p"
| "dev_call now rnd (WriteFile p b) = dev_writeFile p"
| "dev_call now rnd (Pwrite p off b) = dev_pwrite p"
| "dev_call now rnd (CreateDir p) = dev_mkdir p"
| "dev_call now rnd (Mkdir p r) = dev_mkdir p"
| "dev_call now rnd (ExistsCall p) = dev_exists p"
| "dev_call now rnd (StatCall p) = dev_stat now p"
| "dev_call now rnd (RemoveFile p) = dev_removeFile p"
| "dev_call now rnd (RemoveDir p) = dev_removeDir p"
| "dev_call now rnd (Rename p q) = Inl EPERM"
| "dev_call now rnd (Realpath p) = dev_realpath p"
| "dev_call now rnd (Symlink t l) = Inl EPERM"
| "dev_call now rnd (Readlink p) = notFound"
| "dev_call now rnd (Lstat p) = dev_stat now p"
| "dev_call now rnd (Link p q) = Inl EPERM"
| "dev_call now rnd (Chmod p m) = dev_setattr p"
| "dev_call now rnd (Chown p u g) = dev_setattr p"
| "dev_call now rnd (Utimes p a m) = dev_setattr p"
| "dev_call now rnd (Truncate p n) = dev_setattr p"
| "dev_call now rnd (Fsync p) = Inl ENOSYS"
| "dev_call now rnd (Copy p q) = Inl ENOSYS"
| "dev_call now rnd (ReadDirStat p) = Inl ENOSYS"
| "dev_call now rnd (PrepareOpenSync p flags) = Inl ENOSYS"

text \<open>The optional methods are absent, so callers never make the last four calls.\<close>

definition createDeviceBackend :: "int \<Rightarrow> (nat \<Rightarrow> bytes) \<Rightarrow> 's VirtualFileSystem" where
  "createDeviceBackend now rnd = \<lparr>vo_call = (\<lambda>c s. (dev_call now rnd c, s)), vo_has = (\<lambda>_. False)\<rparr>"

subsection \<open>The layer\<close>

definition DEVICE_PATHS :: "path list" where
  "DEVICE_PATHS = [''/dev/null'', ''/dev/zero'', ''/dev/stdin'', ''/dev/stdout'', ''/dev/stderr'',
     ''/dev/urandom'', ''/dev/random'', ''/dev/tty'', ''/dev/console'', ''/dev/full'', ''/dev/ptmx'']"

definition LAYER_INO :: "(path, nat) jsmap" where
  "LAYER_INO = [(''/dev/null'', 0xffff0001), (''/dev/zero'', 0xffff0002), (''/dev/stdin'', 0xffff0003),
     (''/dev/stdout'', 0xffff0004), (''/dev/stderr'', 0xffff0005), (''/dev/urandom'', 0xffff0006),
     (''/dev/random'', 0xffff0007), (''/dev/tty'', 0xffff0008), (''/dev/console'', 0xffff0009),
     (''/dev/full'', 0xffff000a), (''/dev/ptmx'', 0xffff000b)]"

definition LAYER_DIRS :: "path list" where
  "LAYER_DIRS = [''/dev/fd'', ''/dev/pts'', ''/dev/shm'']"

definition isDevicePath :: "path \<Rightarrow> bool" where
  "isDevicePath p \<longleftrightarrow> p \<in> set DEVICE_PATHS \<or> startsWith p ''/dev/fd/'' \<or> startsWith p ''/dev/pts/''"

definition isLayerDir :: "path \<Rightarrow> bool" where
  "isLayerDir p \<longleftrightarrow> p = ''/dev'' \<or> p \<in> set LAYER_DIRS"

definition layer_deviceStat :: "int \<Rightarrow> path \<Rightarrow> VirtualStat" where
  "layer_deviceStat now p = \<lparr>vs_mode = 0x1B6, vs_size = 0, vs_isDirectory = False, vs_isSymbolicLink = False,
     vs_atimeMs = now, vs_mtimeMs = now, vs_ctimeMs = now, vs_birthtimeMs = now,
     vs_ino = ino_of LAYER_INO p, vs_nlink = 1, vs_uid = 0, vs_gid = 0\<rparr>"

definition layer_dirStat :: "int \<Rightarrow> path \<Rightarrow> VirtualStat" where
  "layer_dirStat now p = \<lparr>vs_mode = 0x1ED, vs_size = 0, vs_isDirectory = True, vs_isSymbolicLink = False,
     vs_atimeMs = now, vs_mtimeMs = now, vs_ctimeMs = now, vs_birthtimeMs = now,
     vs_ino = ino_of LAYER_INO p, vs_nlink = 2, vs_uid = 0, vs_gid = 0\<rparr>"

definition LAYER_DIR_ENTRIES :: "VirtualDirEntry list" where
  "LAYER_DIR_ENTRIES = map (\<lambda>nm. entry nm False)
     [''null'', ''zero'', ''stdin'', ''stdout'', ''stderr'', ''urandom'', ''random'', ''tty'', ''console'', ''full'', ''ptmx'']
     @ map (\<lambda>nm. entry nm True) [''fd'', ''pts'', ''shm'']"

text \<open>The layer fills its buffer in place, in \<^verbatim>\<open>readFile\<close> and in \<^verbatim>\<open>pread\<close>.\<close>

definition layer_randomFill :: "(nat \<Rightarrow> bytes) \<Rightarrow> int \<Rightarrow> vfs_reply res" where
  "layer_randomFill rnd len = (if 0 \<le> len then Inr (RBytes (rnd (nat len))) else Inl EINVAL)"

text \<open>
  Each method answers itself (\<open>Some\<close>) or passes the call to the file system below (\<open>None\<close>).
\<close>

definition layer_readFile :: "(nat \<Rightarrow> bytes) \<Rightarrow> path \<Rightarrow> vfs_reply res option" where
  "layer_readFile rnd p =
     (if p = ''/dev/null'' \<or> p = ''/dev/full'' then Some (Inr (RBytes []))
      else if p = ''/dev/zero'' then Some (zeroBytes 4096)
      else if p = ''/dev/urandom'' \<or> p = ''/dev/random'' then Some (layer_randomFill rnd 4096)
      else if p = ''/dev/tty'' \<or> p = ''/dev/console'' \<or> p = ''/dev/ptmx'' then Some (Inr (RBytes []))
      else None)"

definition layer_pread :: "(nat \<Rightarrow> bytes) \<Rightarrow> path \<Rightarrow> int \<Rightarrow> vfs_reply res option" where
  "layer_pread rnd p len =
     (if p = ''/dev/null'' \<or> p = ''/dev/full'' then Some (Inr (RBytes []))
      else if p = ''/dev/zero'' then Some (zeroBytes len)
      else if p = ''/dev/urandom'' \<or> p = ''/dev/random'' then Some (layer_randomFill rnd len)
      else if p = ''/dev/tty'' \<or> p = ''/dev/console'' \<or> p = ''/dev/ptmx'' then Some (Inr (RBytes []))
      else None)"

definition layer_write :: "path \<Rightarrow> vfs_reply res option" where
  "layer_write p =
     (if p = ''/dev/full'' then Some (Inl ENOSPC)
      else if p = ''/dev/null'' \<or> p = ''/dev/zero'' \<or> p = ''/dev/urandom'' \<or> p = ''/dev/random''
        \<or> p = ''/dev/tty'' \<or> p = ''/dev/console'' \<or> p = ''/dev/ptmx'' then Some (Inr RUnit)
      else None)"

definition layer_readDir :: "path \<Rightarrow> vfs_reply res option" where
  "layer_readDir p =
     (if p = ''/dev'' then Some (Inr (RNames (map vd_name LAYER_DIR_ENTRIES)))
      else if p \<in> set LAYER_DIRS then Some (Inr (RNames [])) else None)"

definition layer_readDirWithTypes :: "path \<Rightarrow> vfs_reply res option" where
  "layer_readDirWithTypes p =
     (if p = ''/dev'' then Some (Inr (REntries LAYER_DIR_ENTRIES))
      else if p \<in> set LAYER_DIRS then Some (Inr (REntries [])) else None)"

definition layer_mkdir :: "path \<Rightarrow> vfs_reply res option" where
  "layer_mkdir p = (if isLayerDir p then Some (Inr RUnit) else None)"

definition layer_exists :: "path \<Rightarrow> vfs_reply res option" where
  "layer_exists p = (if isDevicePath p \<or> isLayerDir p then Some (Inr (RBool True)) else None)"

definition layer_stat :: "int \<Rightarrow> path \<Rightarrow> vfs_reply res option" where
  "layer_stat now p =
     (if isDevicePath p then Some (Inr (RStat (layer_deviceStat now p)))
      else if isLayerDir p then Some (Inr (RStat (layer_dirStat now p))) else None)"

definition layer_removeFile :: "path \<Rightarrow> vfs_reply res option" where
  "layer_removeFile p = (if isDevicePath p then Some (Inl EPERM) else None)"

definition layer_removeDir :: "path \<Rightarrow> vfs_reply res option" where
  "layer_removeDir p = (if isLayerDir p then Some (Inl EPERM) else None)"

definition layer_rename :: "path \<Rightarrow> path \<Rightarrow> vfs_reply res option" where
  "layer_rename p q = (if isDevicePath p \<or> isDevicePath q then Some (Inl EPERM) else None)"

definition layer_realpath :: "path \<Rightarrow> vfs_reply res option" where
  "layer_realpath p = (if isDevicePath p \<or> isLayerDir p then Some (Inr (RPath p)) else None)"

definition layer_setattr :: "path \<Rightarrow> vfs_reply res option" where
  "layer_setattr p = (if isDevicePath p then Some (Inr RUnit) else None)"

definition layer_prepareOpen :: "bool \<Rightarrow> path \<Rightarrow> vfs_reply res option" where
  "layer_prepareOpen below p =
     (if isDevicePath p \<or> isLayerDir p then Some (Inr (RBool False))
      else if below then None else Some (Inr (RBool False)))"

fun layer_answer :: "int \<Rightarrow> (nat \<Rightarrow> bytes) \<Rightarrow> bool \<Rightarrow> vfs_call \<Rightarrow> vfs_reply res option" where
  "layer_answer now rnd below (ReadFile p) = layer_readFile rnd p"
| "layer_answer now rnd below (Pread p off len) = layer_pread rnd p len"
| "layer_answer now rnd below (ReadDir p) = layer_readDir p"
| "layer_answer now rnd below (ReadDirWithTypes p) = layer_readDirWithTypes p"
| "layer_answer now rnd below (WriteFile p b) = layer_write p"
| "layer_answer now rnd below (Pwrite p off b) = layer_write p"
| "layer_answer now rnd below (CreateDir p) = layer_mkdir p"
| "layer_answer now rnd below (Mkdir p r) = layer_mkdir p"
| "layer_answer now rnd below (ExistsCall p) = layer_exists p"
| "layer_answer now rnd below (StatCall p) = layer_stat now p"
| "layer_answer now rnd below (Lstat p) = layer_stat now p"
| "layer_answer now rnd below (RemoveFile p) = layer_removeFile p"
| "layer_answer now rnd below (RemoveDir p) = layer_removeDir p"
| "layer_answer now rnd below (Rename p q) = layer_rename p q"
| "layer_answer now rnd below (Realpath p) = layer_realpath p"
| "layer_answer now rnd below (Link p q) = (if isDevicePath p then Some (Inl EPERM) else None)"
| "layer_answer now rnd below (Chmod p m) = layer_setattr p"
| "layer_answer now rnd below (Chown p u g) = layer_setattr p"
| "layer_answer now rnd below (Utimes p a m) = layer_setattr p"
| "layer_answer now rnd below (Truncate p n) = layer_setattr p"
| "layer_answer now rnd below (PrepareOpenSync p flags) = layer_prepareOpen below p"
| "layer_answer now rnd below (Fsync p) = Some (Inl ENOSYS)"
| "layer_answer now rnd below (Copy p q) = Some (Inl ENOSYS)"
| "layer_answer now rnd below (ReadDirStat p) = Some (Inl ENOSYS)"
| "layer_answer now rnd below _ = None"

definition layer_call :: "int \<Rightarrow> (nat \<Rightarrow> bytes) \<Rightarrow> 's VirtualFileSystem \<Rightarrow> vfs_call \<Rightarrow> 's \<Rightarrow> vfs_reply res \<times> 's" where
  "layer_call now rnd fs c s =
     (case layer_answer now rnd (vo_has fs OptPrepareOpenSync) c of
        Some r \<Rightarrow> (r, s)
      | None \<Rightarrow> vo_call fs c s)"

definition layer_readTextFile :: "int \<Rightarrow> (nat \<Rightarrow> bytes) \<Rightarrow> 's VirtualFileSystem \<Rightarrow> path \<Rightarrow> 's \<Rightarrow> vfs_reply res \<times> 's" where
  "layer_readTextFile now rnd fs p s =
     (if p = ''/dev/null'' then (Inr (RText []), s)
      else case layer_call now rnd fs (ReadFile p) s of (r, s1) \<Rightarrow> (asText r, s1))"

definition createDeviceLayer :: "int \<Rightarrow> (nat \<Rightarrow> bytes) \<Rightarrow> 's VirtualFileSystem \<Rightarrow> 's VirtualFileSystem" where
  "createDeviceLayer now rnd fs =
     \<lparr>vo_call = (\<lambda>c s. case c of ReadTextFile p \<Rightarrow> layer_readTextFile now rnd fs p s | _ \<Rightarrow> layer_call now rnd fs c s),
      vo_has = (\<lambda>x. x = OptPrepareOpenSync)\<rparr>"

subsection \<open>The layer and the mounted backend agree\<close>

definition stream_devices :: "string list" where
  "stream_devices = [''null'', ''zero'', ''full'', ''urandom'', ''random'', ''tty'', ''console'', ''ptmx'']"

text \<open>The calls on one path that both answer for these devices, as functions of the path.\<close>

definition device_calls :: "int \<Rightarrow> int \<Rightarrow> bytes \<Rightarrow> u32 \<Rightarrow> (path \<Rightarrow> vfs_call) list" where
  "device_calls a b data mode = [ReadFile, ReadTextFile, \<lambda>p. Pread p a b, \<lambda>p. WriteFile p data,
     \<lambda>p. Pwrite p a data, ExistsCall, StatCall, Lstat, RemoveFile, Realpath, \<lambda>p. Chmod p mode,
     \<lambda>p. Chown p a b, \<lambda>p. Utimes p a b, \<lambda>p. Truncate p a]"

text \<open>The calls on one path that both answer for every device node: all but reading and writing.\<close>

definition device_meta_calls :: "int \<Rightarrow> int \<Rightarrow> u32 \<Rightarrow> (path \<Rightarrow> vfs_call) list" where
  "device_meta_calls a b mode = [ExistsCall, StatCall, Lstat, RemoveFile, Realpath, \<lambda>p. Chmod p mode,
     \<lambda>p. Chown p a b, \<lambda>p. Utimes p a b, \<lambda>p. Truncate p a]"

definition both_answer :: "string \<Rightarrow> (path \<Rightarrow> vfs_call) \<Rightarrow> int \<Rightarrow> int \<Rightarrow> bytes \<Rightarrow> u32 \<Rightarrow> bool" where
  "both_answer name mk a b data mode \<longleftrightarrow>
     name \<in> set stream_devices \<and> mk \<in> set (device_calls a b data mode) \<or>
     isDeviceName name \<and> mk \<in> set (device_meta_calls a b mode)"

lemma mt_backend_stateless:
  "objs (mnt_fs m) = createDeviceBackend now rnd \<Longrightarrow> mt_backend objs m c mt = (dev_call now rnd c, mt)"
  by (simp add: mt_backend_def createDeviceBackend_def)

lemma device_mt_call:
  assumes "mk \<in> set (device_calls a b data mode)" and "mt_resolve mt p = Inr (m, name)" and "mnt_path m = ''/dev''"
    and "objs (mnt_fs m) = createDeviceBackend now rnd" and "\<not> mnt_readOnly m"
  shows "mt_call objs (mk p) mt =
    ((case dev_call now rnd (mk name) of Inr (RPath q) \<Rightarrow> Inr (RPath (''/dev/'' @ q)) | r \<Rightarrow> r), mt)"
proof -
  note d = mt_backend_stateless [of objs m, OF assms(4)]
  have np: "(case dev_call now rnd c of Inr (RPath q) \<Rightarrow> Inr (RPath (''/dev/'' @ q)) | r \<Rightarrow> r) = dev_call now rnd c"
    if "\<And>q. dev_call now rnd c \<noteq> Inr (RPath q)" for c
    using that by (auto split: sum.split vfs_reply.split)
  have nr: "\<And>q. mk \<noteq> Realpath \<Longrightarrow> dev_call now rnd (mk name) \<noteq> Inr (RPath q)"
    using assms(1)
    by (auto simp: device_calls_def dev_readFile_def dev_readTextFile_def dev_pread_def zeroBytes_def
        randomBytes_def notFound_def dev_writeFile_def dev_pwrite_def dev_exists_def dev_stat_def dev_removeFile_def
        dev_setattr_def asText_def split: if_splits sum.splits vfs_reply.splits)
  show ?thesis
  proof (cases "mk = Realpath")
    case True
    then show ?thesis
      using assms(2,3) by (auto simp: mt_realpath_def d dev_realpath_def notFound_def)
  next
    case False
    then show ?thesis
      using assms(1,2,5) nr [OF False] np
      by (auto simp: device_calls_def mt_read_def mt_write_def d assertWritable_def)
  qed
qed

lemma device_dev_call:
  assumes "name \<in> set stream_devices" and "mk \<in> set (device_calls a b data mode)"
  shows "vo_call (createDeviceLayer now rnd fs) (mk (''/dev/'' @ name)) s =
    ((case dev_call now rnd (mk name) of Inr (RPath q) \<Rightarrow> Inr (RPath (''/dev/'' @ q)) | r \<Rightarrow> r), s)"
  using assms
  by (auto simp: stream_devices_def device_calls_def createDeviceLayer_def layer_call_def layer_readTextFile_def
      layer_readFile_def layer_pread_def layer_write_def layer_exists_def layer_stat_def layer_removeFile_def
      layer_realpath_def layer_setattr_def isDevicePath_def isDeviceName_def DEVICE_PATHS_def DEVICE_NAMES_def
      dev_readFile_def dev_readTextFile_def dev_pread_def dev_writeFile_def dev_pwrite_def dev_exists_def
      dev_stat_def dev_removeFile_def dev_realpath_def dev_setattr_def zeroBytes_def randomBytes_def layer_randomFill_def asText_def
      textDecode_def utf8_decode_def utf8_dec.simps layer_deviceStat_def deviceStat_def ino_of_def DEVICE_INO_def LAYER_INO_def)

lemma device_path_name: "isDevicePath (''/dev/'' @ name) = isDeviceName name"
  by (auto simp: isDevicePath_def isDeviceName_def DEVICE_PATHS_def DEVICE_NAMES_def startsWith_def)

lemma device_ino_name: "ino_of LAYER_INO (''/dev/'' @ name) = ino_of DEVICE_INO name"
  by (simp add: ino_of_def LAYER_INO_def DEVICE_INO_def)

lemma device_meta_call:
  assumes "isDeviceName name" and "mk \<in> set (device_meta_calls a b mode)"
  shows "vo_call (createDeviceLayer now rnd fs) (mk (''/dev/'' @ name)) s =
    ((case dev_call now rnd (mk name) of Inr (RPath q) \<Rightarrow> Inr (RPath (''/dev/'' @ q)) | r \<Rightarrow> r), s)"
proof -
  have p: "isDevicePath (''/dev/'' @ name)" using assms(1) by (simp only: device_path_name)
  show ?thesis
    using assms(2) p assms(1) device_ino_name [of name]
    unfolding device_meta_calls_def
    by (auto simp: createDeviceLayer_def layer_call_def layer_exists_def layer_stat_def layer_removeFile_def
        layer_realpath_def layer_setattr_def dev_exists_def dev_stat_def dev_removeFile_def dev_realpath_def dev_setattr_def
        layer_deviceStat_def deviceStat_def)
qed

lemma both_answer_call:
  assumes "both_answer name mk a b data mode"
  shows "vo_call (createDeviceLayer now rnd fs) (mk (''/dev/'' @ name)) s =
    ((case dev_call now rnd (mk name) of Inr (RPath q) \<Rightarrow> Inr (RPath (''/dev/'' @ q)) | r \<Rightarrow> r), s)"
    and "mk \<in> set (device_calls a b data mode)"
proof -
  show "vo_call (createDeviceLayer now rnd fs) (mk (''/dev/'' @ name)) s =
    ((case dev_call now rnd (mk name) of Inr (RPath q) \<Rightarrow> Inr (RPath (''/dev/'' @ q)) | r \<Rightarrow> r), s)"
    using assms unfolding both_answer_def
    by (elim disjE conjE) (rule device_dev_call, assumption+, rule device_meta_call, assumption+)
  have "set (device_meta_calls a b mode) \<subseteq> set (device_calls a b data mode)"
    by (simp add: device_meta_calls_def device_calls_def)
  then show "mk \<in> set (device_calls a b data mode)" using assms unfolding both_answer_def by blast
qed

text \<open>
  C40. The device backend mounted at \<^verbatim>\<open>/dev\<close> and the device layer are the same devices, where both answer:
  on the eight stream devices (null, zero, full, the random sources, the terminals) fourteen calls on one
  path (a read, a positional read, a write, a stat, a removal, a real path, a change of attributes), and on
  every device node, the standard streams, \<^verbatim>\<open>/dev/fd/\<close> and \<^verbatim>\<open>/dev/pts/\<close> included, the nine of these that
  neither read nor write, get the same answer from both, and neither changes the state of any file
  system. (Reads and writes of the standard streams and descriptors, and \<^verbatim>\<open>mkdir\<close>, \<^verbatim>\<open>symlink\<close> and
  \<^verbatim>\<open>link\<close> at a device path, the layer leaves to the file system below: \<open>layer_passes_streams\<close>.)
\<close>

theorem device_layer_is_mounted_backend:
  assumes "both_answer name mk a b data mode"
    and "mt_resolve mt (''/dev/'' @ name) = Inr (m, name)" and "mnt_path m = ''/dev''" and "\<not> mnt_readOnly m"
    and "objs (mnt_fs m) = createDeviceBackend now rnd"
  shows "fst (mt_call objs (mk (''/dev/'' @ name)) mt) =
      fst (vo_call (createDeviceLayer now rnd fs) (mk (''/dev/'' @ name)) s) \<and>
    snd (mt_call objs (mk (''/dev/'' @ name)) mt) = mt \<and>
    snd (vo_call (createDeviceLayer now rnd fs) (mk (''/dev/'' @ name)) s) = s"
  by (simp only: device_mt_call [where objs = objs, OF both_answer_call(2) [OF assms(1)] assms(2,3,5,4)]
      both_answer_call(1) [OF assms(1)] fst_conv snd_conv)

definition dev_table :: "nat MountTable" where
  "dev_table = run_ops (mount_step (\<lambda>_. counting_fs)) [McMount ''/dev'' 1 None] (mt_new 0 (\<lambda>_. 0))"

theorem device_layer_is_mounted_backend_witness:
  "fst (mt_call (\<lambda>_. createDeviceBackend 5 (\<lambda>n. replicate n 7)) (Pread ''/dev/zero'' 9 3) dev_table) =
     Inr (RBytes [0, 0, 0]) \<and>
   fst (mt_call (\<lambda>_. createDeviceBackend 5 (\<lambda>n. replicate n 7)) (WriteFile ''/dev/full'' [1]) dev_table) = Inl ENOSPC"
proof -
  let ?m = "\<lparr>mnt_path = ''/dev'', mnt_fs = 1, mnt_readOnly = False\<rparr>"
  have n: "normalizePath ''/dev'' = ''/dev''" "normalizePath ''/dev/zero'' = ''/dev/zero''"
    "normalizePath ''/dev/full'' = ''/dev/full''" by code_simp+
  have r: "mt_resolve dev_table ''/dev/zero'' = Inr (?m, ''zero'')" "mt_resolve dev_table ''/dev/full'' = Inr (?m, ''full'')"
    by (simp_all add: dev_table_def mt_new_def mt_mount_def mt_resolve_def Let_def n covers_def relativeTo_def startsWith_def)
  let ?k = "\<lambda>name mk. fst (mt_call (\<lambda>_. createDeviceBackend 5 (\<lambda>n. replicate n 7)) (mk (''/dev/'' @ name)) dev_table)"
  have "?k name mk = fst (vo_call (createDeviceLayer 5 (\<lambda>n. replicate n 7) counting_fs) (mk (''/dev/'' @ name)) 0)"
    if "both_answer name mk 9 3 [1] 0" "mt_resolve dev_table (''/dev/'' @ name) = Inr (?m, name)"
    for name mk
    using device_layer_is_mounted_backend [OF that, where objs = "\<lambda>_. createDeviceBackend 5 (\<lambda>n. replicate n 7)"
        and now = 5 and rnd = "\<lambda>n. replicate n 7" and fs = counting_fs and s = 0] by simp
  from this [of "''zero''" "\<lambda>p. Pread p 9 3"] this [of "''full''" "\<lambda>p. WriteFile p [1]"] r show ?thesis
    by (simp add: both_answer_def stream_devices_def device_calls_def createDeviceLayer_def layer_call_def layer_pread_def
        layer_write_def zeroBytes_def eval_nat_numeral)
qed

text \<open>
  Where they differ: the layer passes reads and writes of the standard streams and of \<^verbatim>\<open>/dev/fd/N\<close> to
  the file system below, the backend answers them itself; the layer also lets a directory, a link or
  a symbolic link be created at a device path.
\<close>

lemma layer_passes_streams:
  "vo_call (createDeviceLayer now rnd fs) (WriteFile ''/dev/stdout'' b) s = vo_call fs (WriteFile ''/dev/stdout'' b) s"
  "dev_call now rnd (WriteFile ''stdout'' b) = Inr RUnit"
  "vo_call (createDeviceLayer now rnd fs) (Symlink t ''/dev/null'') s = vo_call fs (Symlink t ''/dev/null'') s"
  "vo_call (createDeviceLayer now rnd fs) (Mkdir ''/dev/null'' True) s = vo_call fs (Mkdir ''/dev/null'' True) s"
  by (simp_all add: createDeviceLayer_def layer_call_def layer_write_def dev_writeFile_def DEVICE_NAMES_def
      layer_mkdir_def isLayerDir_def LAYER_DIRS_def)

text \<open>A file cannot be removed and no name below \<^verbatim>\<open>/dev\<close> can be made through the mounted backend.\<close>

lemma dev_immutable:
  "write_path c = Some p \<Longrightarrow> dev_call now rnd c = Inr r \<Longrightarrow> r = RUnit \<and> (isDeviceName p \<or> isDeviceDir p)"
  by (cases c) (auto simp: dev_writeFile_def dev_pwrite_def dev_mkdir_def dev_removeFile_def dev_removeDir_def
      dev_setattr_def notFound_def isDeviceName_def split: if_splits)

end
