(* ===== verification/Proc_Backend.thy ===== *)
theory Proc_Backend
  imports Device_Backend Process_Table
begin

unbundle bit_operations_syntax

section \<open>The proc file system\<close>

text \<open>
  \<^verbatim>\<open>kernel/proc-backend.ts\<close>, the file system the kernel mounts at \<^verbatim>\<open>/proc\<close>. It keeps no state of its own:
  every call reads the process table, the descriptor tables and the mount table it was given, so the
  model passes them as a record of views. Strings are lists of code points below 256, \<^verbatim>\<open>Date.now()\<close> is an
  argument. \<^verbatim>\<open>Number(s)\<close> is \<open>jsInteger\<close>: the value of the string when it is an integer, computed exactly
  (a decimal with more digits than a double holds is not rounded).
\<close>

subsection \<open>Numbers in paths\<close>

definition isDigit :: "char \<Rightarrow> bool" where
  "isDigit c \<longleftrightarrow> 48 \<le> (of_char c :: nat) \<and> (of_char c :: nat) \<le> 57"

definition isSpace :: "char \<Rightarrow> bool" where
  "isSpace c \<longleftrightarrow> (of_char c :: nat) \<in> {9, 10, 11, 12, 13, 32, 160}"

definition trimSpaces :: "string \<Rightarrow> string" where
  "trimSpaces s = rev (dropWhile isSpace (rev (dropWhile isSpace s)))"

text \<open>The value of a digit in bases up to 16.\<close>

definition digitVal :: "char \<Rightarrow> nat" where
  "digitVal c =
     (let n = of_char c :: nat
      in if 48 \<le> n \<and> n \<le> 57 then n - 48
         else if 97 \<le> n \<and> n \<le> 102 then n - 87
         else if 65 \<le> n \<and> n \<le> 70 then n - 55 else 16)"

definition digitsVal :: "nat \<Rightarrow> string \<Rightarrow> nat" where
  "digitsVal base s = foldl (\<lambda>n c. n * base + digitVal c) 0 s"

definition radix :: "string \<Rightarrow> nat option" where
  "radix s =
     (if s = ''0x'' \<or> s = ''0X'' then Some 16
      else if s = ''0o'' \<or> s = ''0O'' then Some 8
      else if s = ''0b'' \<or> s = ''0B'' then Some 2 else None)"

text \<open>The optional sign and the digits of an exponent.\<close>

definition signedVal :: "string \<Rightarrow> int option" where
  "signedVal s =
     (let (neg, ds) = (case s of c # cs \<Rightarrow> if c = CHR ''-'' then (True, cs) else if c = CHR ''+'' then (False, cs) else (False, s)
                       | [] \<Rightarrow> (False, s))
      in if ds \<noteq> [] \<and> list_all isDigit ds
         then Some (if neg then - int (digitsVal 10 ds) else int (digitsVal 10 ds)) else None)"

text \<open>An unsigned decimal literal; \<open>m\<close> is the mantissa without the point, \<open>k\<close> the exponent.\<close>

definition decimalVal :: "string \<Rightarrow> int option" where
  "decimalVal s =
     (let ip = takeWhile isDigit s; r1 = dropWhile isDigit s;
          (fp, r2) = (case r1 of c # cs \<Rightarrow> if c = CHR ''.'' then (takeWhile isDigit cs, dropWhile isDigit cs) else ([], r1)
                      | [] \<Rightarrow> ([], r1));
          ex = (case r2 of [] \<Rightarrow> Some 0
                | c # cs \<Rightarrow> if c = CHR ''e'' \<or> c = CHR ''E'' then signedVal cs else None)
      in if ip = [] \<and> fp = [] then None
         else case ex of
                None \<Rightarrow> None
              | Some e \<Rightarrow>
                  let m = int (digitsVal 10 (ip @ fp)); k = e - int (length fp)
                  in if m = 0 then Some 0
                     else if 0 \<le> k then (if m * 10 ^ nat k < 2 ^ 1024 then Some (m * 10 ^ nat k) else None)
                     else if m mod 10 ^ nat (- k) = 0 then Some (m div 10 ^ nat (- k)) else None)"

definition jsInteger :: "string \<Rightarrow> int option" where
  "jsInteger s0 =
     (let s = trimSpaces s0
      in if s = [] then Some 0
         else case radix (take 2 s) of
                Some b \<Rightarrow>
                  if drop 2 s \<noteq> [] \<and> list_all (\<lambda>c. digitVal c < b) (drop 2 s)
                  then Some (int (digitsVal b (drop 2 s))) else None
              | None \<Rightarrow>
                  (case s of
                     c # cs \<Rightarrow>
                       if c = CHR ''-'' then map_option uminus (decimalVal cs)
                       else if c = CHR ''+'' then decimalVal cs else decimalVal s
                   | [] \<Rightarrow> None))"

text \<open>\<^verbatim>\<open>const n = Number(s); Number.isInteger(n) && n >= 0\<close>.\<close>

definition natOf :: "string \<Rightarrow> nat option" where
  "natOf s = (case jsInteger s of None \<Rightarrow> None | Some n \<Rightarrow> if n < 0 then None else Some (nat n))"

subsection \<open>Stats and texts\<close>

definition PROC_INO_BASE :: nat where "PROC_INO_BASE = 0xfffe0000"

definition procIno :: "string \<Rightarrow> nat" where
  "procIno seed =
     (let hash = foldl (\<lambda>h c. (h * 33) XOR of_char c) (0 :: u32) seed
      in PROC_INO_BASE + unat (hash AND 0xffff))"

definition proc_stat :: "int \<Rightarrow> string \<Rightarrow> u32 \<Rightarrow> nat \<Rightarrow> bool \<Rightarrow> bool \<Rightarrow> int \<Rightarrow> VirtualStat" where
  "proc_stat now seed mode len dir lnk links = \<lparr>vs_mode = mode, vs_size = int len, vs_isDirectory = dir,
     vs_isSymbolicLink = lnk, vs_atimeMs = now, vs_mtimeMs = now, vs_ctimeMs = now, vs_birthtimeMs = now,
     vs_ino = procIno seed, vs_nlink = links, vs_uid = 0, vs_gid = 0\<rparr>"

definition proc_dirStat :: "int \<Rightarrow> string \<Rightarrow> VirtualStat" where
  "proc_dirStat now seed = proc_stat now seed (0x4000 OR 0x16D) 0 True False 2"

definition proc_fileStat :: "int \<Rightarrow> string \<Rightarrow> nat \<Rightarrow> VirtualStat" where
  "proc_fileStat now seed len = proc_stat now seed (0x8000 OR 0x124) len False False 1"

definition proc_linkStat :: "int \<Rightarrow> string \<Rightarrow> string \<Rightarrow> VirtualStat" where
  "proc_linkStat now seed target = proc_stat now seed (0xA000 OR 0x1FF) (length target) False True 1"

definition encodeText :: "string \<Rightarrow> bytes" where
  "encodeText s = utf8_encode (map of_char s)"

text \<open>
  \<^verbatim>\<open>Object.entries\<close>: keys that are canonical array indices come first, in ascending order, then the others
  in insertion order.
\<close>

definition arrayIndex :: "string \<Rightarrow> nat option" where
  "arrayIndex k =
     (if k \<noteq> [] \<and> list_all isDigit k \<and> (k = ''0'' \<or> hd k \<noteq> CHR ''0'') \<and> digitsVal 10 k < 2 ^ 32 - 1
      then Some (digitsVal 10 k) else None)"

definition objEntries :: "(string, 'v) jsmap \<Rightarrow> (string \<times> 'v) list" where
  "objEntries env =
     sort_key (\<lambda>(k, _). the (arrayIndex k)) (filter (\<lambda>(k, _). arrayIndex k \<noteq> None) env) @
     filter (\<lambda>(k, _). arrayIndex k = None) env"

definition encodeEnviron :: "(string, string) jsmap \<Rightarrow> bytes" where
  "encodeEnviron env =
     (let entries = objEntries env
      in if entries = [] then []
         else encodeText (joinWith [char_of (0 :: nat)] (map (\<lambda>(k, v). k @ ''='' @ v) entries) @ [char_of (0 :: nat)]))"

definition resolveExecPath :: "string \<Rightarrow> path" where
  "resolveExecPath command =
     (if command = '''' then '''' else if startsWith command ''/'' then command else ''/bin/'' @ command)"

definition resolveProcSelfPath :: "path \<Rightarrow> pid \<Rightarrow> path" where
  "resolveProcSelfPath p pid =
     (if p = ''self'' then dec (nat pid)
      else if startsWith p ''self/'' then dec (nat pid) @ drop 4 p else p)"

text \<open>The process number and the rest of the path; \<open>parts[0]\<close> of a split always exists.\<close>

definition parsePidPath :: "path \<Rightarrow> (nat \<times> string list) option" where
  "parsePidPath p =
     (let parts = splitOn (CHR ''/'') p
      in map_option (\<lambda>pid. (pid, tl parts)) (natOf (hd parts)))"

definition formatMounts :: "(path \<times> bool) list \<Rightarrow> string" where
  "formatMounts mounts =
     joinWith [char_of (10 :: nat)] (map (\<lambda>(p, readOnly).
        let fsType = (if p = ''/'' then ''rootfs'' else ''mount''); opts = (if readOnly then ''ro'' else ''rw'')
        in fsType @ '' '' @ p @ '' '' @ fsType @ '' '' @ opts @ '' 0 0'') mounts) @ [char_of (10 :: nat)]"

subsection \<open>What the backend reads\<close>

record ProcView =
  pv_procs :: ProcessTable
  pv_fds :: FDTableManager
  pv_hostname :: "string option"
  pv_mounts :: "(path \<times> bool) list option"

definition kernelHostname :: "ProcView \<Rightarrow> bytes" where
  "kernelHostname v = encodeText ((case pv_hostname v of None \<Rightarrow> ''sandbox'' | Some h \<Rightarrow> h) @ [char_of (10 :: nat)])"

definition getProcess :: "ProcView \<Rightarrow> nat \<Rightarrow> ProcessEntry res" where
  "getProcess v pid = (case pt_get (pv_procs v) (int pid) of None \<Rightarrow> Inl ENOENT | Some e \<Rightarrow> Inr e)"

definition listPids :: "ProcView \<Rightarrow> pid list" where
  "listPids v = sort (mkeys (listProcesses (pv_procs v)))"

definition listOpenFds :: "ProcView \<Rightarrow> nat \<Rightarrow> fdnum list" where
  "listOpenFds v pid =
     (case fm_get (int pid) (pv_fds v) of None \<Rightarrow> [] | Some t \<Rightarrow> sort (map (ent_fd \<circ> snd) (fdt_entries t)))"

definition hasFd :: "ProcView \<Rightarrow> nat \<Rightarrow> nat \<Rightarrow> bool" where
  "hasFd v pid fd = (case fm_get (int pid) (pv_fds v) of None \<Rightarrow> False | Some t \<Rightarrow> fdt_get t fd \<noteq> None)"

definition getFdPath :: "ProcView \<Rightarrow> nat \<Rightarrow> nat \<Rightarrow> path res" where
  "getFdPath v pid fd =
     (case fm_get (int pid) (pv_fds v) of
        None \<Rightarrow> Inl ENOENT
      | Some t \<Rightarrow>
          (case fdt_get t fd of
             None \<Rightarrow> Inl ENOENT
           | Some e \<Rightarrow>
               (case de_heap (fm_env (pv_fds v)) (ent_desc e) of None \<Rightarrow> Inl ENOENT | Some d \<Rightarrow> Inr (desc_path d))))"

definition mapR :: "('a \<Rightarrow> 'b) \<Rightarrow> 'e + 'a \<Rightarrow> 'e + 'b" where
  "mapR f r = (case r of Inl e \<Rightarrow> Inl e | Inr x \<Rightarrow> Inr (f x))"

definition getLinkTarget :: "ProcView \<Rightarrow> nat \<Rightarrow> string list \<Rightarrow> path res" where
  "getLinkTarget v pid rest =
     (if rest = [''cwd''] then mapR pe_cwd (getProcess v pid)
      else if rest = [''exe''] then mapR (\<lambda>e. resolveExecPath (pe_command e)) (getProcess v pid)
      else if length rest = 2 \<and> rest ! 0 = ''fd''
        then (case natOf (rest ! 1) of None \<Rightarrow> Inl ENOENT | Some fd \<Rightarrow> getFdPath v pid fd)
      else Inl ENOENT)"

definition getProcFile :: "ProcView \<Rightarrow> nat \<Rightarrow> string list \<Rightarrow> bytes res" where
  "getProcFile v pid rest =
     (if rest = [''cwd''] then mapR (\<lambda>e. encodeText (pe_cwd e)) (getProcess v pid)
      else if rest = [''exe''] then mapR (\<lambda>e. encodeText (resolveExecPath (pe_command e))) (getProcess v pid)
      else if rest = [''environ''] then mapR (\<lambda>e. encodeEnviron (pe_env e)) (getProcess v pid)
      else if length rest = 2 \<and> rest ! 0 = ''fd'' then mapR encodeText (getLinkTarget v pid rest)
      else Inl ENOENT)"

definition getMountsContent :: "ProcView \<Rightarrow> bytes" where
  "getMountsContent v =
     (case pv_mounts v of
        None \<Rightarrow> encodeText (''rootfs / rootfs rw 0 0'' @ [char_of (10 :: nat)])
      | Some ms \<Rightarrow> encodeText (formatMounts ms))"

text \<open>The symbolic links of a process directory.\<close>

definition isProcLink :: "string list \<Rightarrow> bool" where
  "isProcLink rest \<longleftrightarrow> rest = [''cwd''] \<or> rest = [''exe''] \<or> length rest = 2 \<and> rest ! 0 = ''fd''"

definition pidSeed :: "nat \<Rightarrow> string list \<Rightarrow> string" where
  "pidSeed pid rest = ''proc:'' @ dec pid @ '':'' @ joinWith '':'' rest"

definition getProcStat :: "int \<Rightarrow> ProcView \<Rightarrow> path \<Rightarrow> bool \<Rightarrow> VirtualStat res" where
  "getProcStat now v p followSymlinks =
     (if p = '''' then Inr (proc_dirStat now ''proc'')
      else if p = ''self'' then
        Inr (if followSymlinks then proc_dirStat now ''proc-self'' else proc_linkStat now ''proc-self-link'' ''self'')
      else if p = ''mounts'' then Inr (proc_fileStat now ''proc:mounts'' (length (getMountsContent v)))
      else if p = ''sys'' then Inr (proc_dirStat now ''proc:sys'')
      else if p = ''sys/kernel'' then Inr (proc_dirStat now ''proc:sys:kernel'')
      else if p = ''sys/kernel/hostname'' then
        Inr (proc_fileStat now ''proc:sys:kernel:hostname'' (length (kernelHostname v)))
      else case parsePidPath p of
             None \<Rightarrow> Inl ENOENT
           | Some (pid, rest) \<Rightarrow>
               (case getProcess v pid of
                  Inl e \<Rightarrow> Inl e
                | Inr pe \<Rightarrow>
                    if rest = [] then Inr (proc_dirStat now (''proc:'' @ dec pid))
                    else if rest = [''fd''] then Inr (proc_dirStat now (''proc:'' @ dec pid @ '':fd''))
                    else if rest = [''environ''] then
                      Inr (proc_fileStat now (''proc:'' @ dec pid @ '':environ'') (length (encodeEnviron (pe_env pe))))
                    else if isProcLink rest then mapR (proc_linkStat now (pidSeed pid rest)) (getLinkTarget v pid rest)
                    else Inl ENOENT))"

subsection \<open>The file system calls\<close>

definition linkEntry :: "string \<Rightarrow> VirtualDirEntry" where
  "linkEntry nm = \<lparr>vd_name = nm, vd_isDirectory = False, vd_isSymbolicLink = True, vd_ino = None\<rparr>"

definition PROC_PID_ENTRIES :: "VirtualDirEntry list" where
  "PROC_PID_ENTRIES = [entry ''fd'' True, linkEntry ''cwd'', linkEntry ''exe'', entry ''environ'' False]"

definition PROC_ROOT_ENTRIES :: "VirtualDirEntry list" where
  "PROC_ROOT_ENTRIES = [linkEntry ''self'', entry ''sys'' True, entry ''mounts'' False]"

definition PROC_SYS_ENTRIES :: "VirtualDirEntry list" where
  "PROC_SYS_ENTRIES = [entry ''kernel'' True]"

definition PROC_SYS_KERNEL_ENTRIES :: "VirtualDirEntry list" where
  "PROC_SYS_KERNEL_ENTRIES = [entry ''hostname'' False]"

definition proc_readFile :: "ProcView \<Rightarrow> path \<Rightarrow> bytes res" where
  "proc_readFile v p =
     (if p = '''' \<or> p = ''self'' \<or> p = ''sys'' \<or> p = ''sys/kernel'' then Inl EISDIR
      else if p = ''mounts'' then Inr (getMountsContent v)
      else if p = ''sys/kernel/hostname'' then Inr (kernelHostname v)
      else case parsePidPath p of
             None \<Rightarrow> Inl ENOENT
           | Some (pid, rest) \<Rightarrow> if rest = [] \<or> rest = [''fd''] then Inl EISDIR else getProcFile v pid rest)"

text \<open>\<^verbatim>\<open>content.slice(offset, offset + length)\<close> with JavaScript's negative indices.\<close>

definition jsSlice :: "'a list \<Rightarrow> int \<Rightarrow> int \<Rightarrow> 'a list" where
  "jsSlice xs i j =
     (let n = int (length xs);
          a = (if i < 0 then max (n + i) 0 else min i n);
          b = (if j < 0 then max (n + j) 0 else min j n)
      in take (nat (b - a)) (drop (nat a) xs))"

definition proc_pread :: "ProcView \<Rightarrow> path \<Rightarrow> int \<Rightarrow> int \<Rightarrow> bytes res" where
  "proc_pread v p offset len =
     mapR (\<lambda>content. if int (length content) \<le> offset then [] else jsSlice content offset (offset + len)) (proc_readFile v p)"

definition proc_readDirWithTypes :: "ProcView \<Rightarrow> path \<Rightarrow> VirtualDirEntry list res" where
  "proc_readDirWithTypes v p =
     (if p = '''' then Inr (PROC_ROOT_ENTRIES @ map (\<lambda>pid. entry (dec (nat pid)) True) (listPids v))
      else if p = ''sys'' then Inr PROC_SYS_ENTRIES
      else if p = ''sys/kernel'' then Inr PROC_SYS_KERNEL_ENTRIES
      else if p = ''self'' then Inl ENOENT
      else case parsePidPath p of
             None \<Rightarrow> Inl ENOENT
           | Some (pid, rest) \<Rightarrow>
               (case getProcess v pid of
                  Inl e \<Rightarrow> Inl e
                | Inr _ \<Rightarrow>
                    if rest = [] then Inr PROC_PID_ENTRIES
                    else if rest = [''fd''] then Inr (map (\<lambda>fd. linkEntry (dec fd)) (listOpenFds v pid))
                    else Inl ENOTDIR))"

definition proc_exists :: "ProcView \<Rightarrow> path \<Rightarrow> bool" where
  "proc_exists v p =
     (if p = '''' \<or> p = ''self'' \<or> p = ''mounts'' then True
      else if p = ''sys'' \<or> p = ''sys/kernel'' \<or> p = ''sys/kernel/hostname'' then True
      else case parsePidPath p of
             None \<Rightarrow> False
           | Some (pid, rest) \<Rightarrow>
               if pt_get (pv_procs v) (int pid) = None then False
               else if rest = [] \<or> rest = [''fd''] then True
               else if rest = [''cwd''] \<or> rest = [''exe''] \<or> rest = [''environ''] then True
               else if length rest = 2 \<and> rest ! 0 = ''fd''
                 then (case natOf (rest ! 1) of None \<Rightarrow> False | Some fd \<Rightarrow> hasFd v pid fd)
               else False)"

definition proc_realpath :: "ProcView \<Rightarrow> path \<Rightarrow> path res" where
  "proc_realpath v p =
     (if p = '''' \<or> p = ''mounts'' then Inr p
      else if p = ''self'' then Inr p
      else if p = ''sys'' \<or> p = ''sys/kernel'' \<or> p = ''sys/kernel/hostname'' then Inr p
      else case parsePidPath p of
             None \<Rightarrow> Inl ENOENT
           | Some (pid, rest) \<Rightarrow>
               (case getProcess v pid of
                  Inl e \<Rightarrow> Inl e
                | Inr _ \<Rightarrow>
                    if rest = [] \<or> rest = [''fd''] then Inr p
                    else if rest = [''environ''] then Inr p
                    else if isProcLink rest then getLinkTarget v pid rest
                    else Inl ENOENT))"

definition proc_readlink :: "ProcView \<Rightarrow> path \<Rightarrow> path res" where
  "proc_readlink v p =
     (if p = ''self'' then Inr ''self''
      else case parsePidPath p of None \<Rightarrow> Inl EINVAL | Some (pid, rest) \<Rightarrow> getLinkTarget v pid rest)"

fun procfs_call :: "int \<Rightarrow> ProcView \<Rightarrow> vfs_call \<Rightarrow> vfs_reply res" where
  "procfs_call now v (ReadFile p) = mapR RBytes (proc_readFile v p)"
| "procfs_call now v (Pread p off len) = mapR RBytes (proc_pread v p off len)"
| "procfs_call now v (ReadTextFile p) = mapR (\<lambda>b. RText (textDecode b)) (proc_readFile v p)"
| "procfs_call now v (ReadDir p) = mapR (\<lambda>es. RNames (map vd_name es)) (proc_readDirWithTypes v p)"
| "procfs_call now v (ReadDirWithTypes p) = mapR REntries (proc_readDirWithTypes v p)"
| "procfs_call now v (ExistsCall p) = Inr (RBool (proc_exists v p))"
| "procfs_call now v (StatCall p) = mapR RStat (getProcStat now v p True)"
| "procfs_call now v (Lstat p) = mapR RStat (getProcStat now v p False)"
| "procfs_call now v (Realpath p) = mapR RPath (proc_realpath v p)"
| "procfs_call now v (Readlink p) = mapR RPath (proc_readlink v p)"
| "procfs_call now v (Fsync p) = Inl ENOSYS"
| "procfs_call now v (Copy p q) = Inl ENOSYS"
| "procfs_call now v (ReadDirStat p) = Inl ENOSYS"
| "procfs_call now v (PrepareOpenSync p flags) = Inl ENOSYS"
| "procfs_call now v _ = Inl EPERM"

text \<open>The remaining calls are the methods that throw EPERM; the optional methods are absent.\<close>

definition createProcBackend :: "int \<Rightarrow> ProcView \<Rightarrow> 's VirtualFileSystem" where
  "createProcBackend now v = \<lparr>vo_call = (\<lambda>c s. (procfs_call now v c, s)), vo_has = (\<lambda>_. False)\<rparr>"

subsection \<open>Decimal names parse back\<close>

lemma dec_single: "n < 10 \<Longrightarrow> digitVal (char_of (48 + n)) = n \<and> isDigit (char_of (48 + n))"
  by (simp add: digitVal_def isDigit_def Let_def)

lemma dec_is_digits: "list_all isDigit (dec n)" "dec n \<noteq> []"
  by (induction n rule: dec.induct; subst dec.simps; simp add: dec_single)+

lemma digitsVal_snoc: "digitsVal b (s @ [c]) = digitsVal b s * b + digitVal c"
  by (simp add: digitsVal_def)

lemma digitsVal_dec: "digitsVal 10 (dec n) = n"
proof (induction n rule: dec.induct)
  case (1 n)
  show ?case
  proof (cases "n < 10")
    case True
    then show ?thesis by (subst dec.simps) (simp add: digitsVal_def dec_single)
  next
    case False
    then show ?thesis using 1 by (subst dec.simps) (simp add: digitsVal_snoc dec_single)
  qed
qed

lemma digit_not_special: "isDigit c \<Longrightarrow> \<not> isSpace c \<and> c \<noteq> CHR ''-'' \<and> c \<noteq> CHR ''+'' \<and> c \<noteq> CHR ''x'' \<and> c \<noteq> CHR ''X''
    \<and> c \<noteq> CHR ''o'' \<and> c \<noteq> CHR ''O'' \<and> c \<noteq> CHR ''b'' \<and> c \<noteq> CHR ''B'' \<and> c \<noteq> CHR ''/''"
  by (auto simp: isDigit_def isSpace_def)

lemma dropWhile_none: "list_all (\<lambda>c. \<not> P c) s \<Longrightarrow> dropWhile P s = s"
  by (cases s) auto

lemma natOf_digits:
  assumes "list_all isDigit s" "s \<noteq> []" "digitsVal 10 s < 10 ^ 300"
  shows "natOf s = Some (digitsVal 10 s)"
proof -
  have ns: "list_all (\<lambda>c. \<not> isSpace c) s" using assms(1) digit_not_special by (auto simp: list_all_iff)
  then have "dropWhile isSpace s = s" "dropWhile isSpace (rev s) = rev s" by (simp_all add: dropWhile_none)
  then have t: "trimSpaces s = s" by (simp add: trimSpaces_def)
  have "radix (take 2 s) = None"
  proof (cases s rule: remdups_adj.cases)
    case (3 a b cs)
    then have "isDigit b" using assms(1) by simp
    then show ?thesis using digit_not_special [of b] 3 by (auto simp: radix_def)
  qed (auto simp: radix_def)
  moreover have "decimalVal s = Some (int (digitsVal 10 s))"
  proof -
    have tw: "takeWhile isDigit s = s" and dw: "dropWhile isDigit s = []"
      using assms(1) by (simp_all add: list_all_iff takeWhile_eq_all_conv dropWhile_eq_Nil_conv)
    have "digitsVal 10 s < 2 ^ 1024" using assms(3) by (rule less_trans) simp
    then have "int (digitsVal 10 s) < 2 ^ 1024" by (metis of_nat_less_iff of_nat_power of_nat_numeral)
    then show ?thesis using assms(2) by (simp add: decimalVal_def Let_def tw dw)
  qed
  moreover obtain c cs where "s = c # cs" "isDigit c" using assms(1,2) by (cases s) auto
  ultimately have "jsInteger s = Some (int (digitsVal 10 s))"
    using t digit_not_special [of c] by (simp add: jsInteger_def)
  then show ?thesis by (simp add: natOf_def)
qed

lemma natOf_dec: "n < 10 ^ 300 \<Longrightarrow> natOf (dec n) = Some n"
  using natOf_digits [OF dec_is_digits] by (simp add: digitsVal_dec)

lemma dec_slashless: "CHR ''/'' \<notin> set (dec n)"
  using dec_is_digits(1) [of n] digit_not_special by (auto simp: list_all_iff)

lemma parsePid_dec:
  assumes "n < 10 ^ 300"
  shows "parsePidPath (dec n) = Some (n, [])" "parsePidPath (dec n @ ''/'' @ r) = Some (n, splitOn (CHR ''/'') r)"
  using natOf_dec [OF assms] splitOn_id [OF dec_slashless, of n] splitOn_append [OF dec_slashless, of n r]
  by (simp_all add: parsePidPath_def Let_def)

subsection \<open>The tree is consistent\<close>

lemma splitOn_append_sep: "splitOn c (s @ c # t) = splitOn c s @ splitOn c t"
  by (induction s) (auto split: list.splits)

lemma parsePid_child:
  "parsePidPath p = Some (pid, rest) \<Longrightarrow> parsePidPath (p @ ''/'' @ nm) = Some (pid, rest @ splitOn (CHR ''/'') nm)"
  by (cases "splitOn (CHR ''/'') p") (auto simp: parsePidPath_def splitOn_append_sep Let_def)

lemma special_not_pid:
  "parsePidPath ''self'' = None" "parsePidPath ''mounts'' = None" "parsePidPath ''sys'' = None"
  "parsePidPath ''sys/kernel'' = None" "parsePidPath ''sys/kernel/hostname'' = None"
  by code_simp+

definition childPath :: "path \<Rightarrow> string \<Rightarrow> path" where
  "childPath p nm = (if p = '''' then nm else p @ ''/'' @ nm)"

lemma childPath_pid:
  assumes "parsePidPath p = Some (pid, rest)" "p \<noteq> ''''" "CHR ''/'' \<notin> set nm"
  shows "parsePidPath (childPath p nm) = Some (pid, rest @ [nm])" "childPath p nm \<noteq> ''''"
  using parsePid_child [OF assms(1), of nm] assms(2) splitOn_id [OF assms(3)] by (simp_all add: childPath_def)

definition fds_ok :: "ProcView \<Rightarrow> bool" where
  "fds_ok v \<longleftrightarrow> fd_inv (pv_fds v) \<and>
     (\<forall>p t fd. mget (fm_tables (pv_fds v)) p = Some t \<longrightarrow> fd \<in> set (mkeys (fdt_entries t)) \<longrightarrow> fd < 2 ^ 53)"

definition pids_ok :: "ProcView \<Rightarrow> bool" where
  "pids_ok v \<longleftrightarrow> pt_inv (pv_procs v) \<and> pt_nextPid (pv_procs v) \<le> 2 ^ 53"

lemma getFdPath_cases:
  assumes "fd_inv (pv_fds v)"
  shows "\<exists>q. getFdPath v pid fd = (if hasFd v pid fd then Inr q else Inl ENOENT)"
proof (cases "hasFd v pid fd")
  case True
  then obtain t e where t: "mget (fm_tables (pv_fds v)) (int pid) = Some t" and e: "fdt_get t fd = Some e"
    by (auto simp: hasFd_def fm_get_def split: option.splits)
  then have "ent_desc e < de_nextRef (fm_env (pv_fds v))" using assms by (auto simp: fd_inv_def table_ok_def fdt_get_def)
  moreover have "env_ok (fm_env (pv_fds v))" using assms by (simp add: fd_inv_def)
  ultimately obtain d where "de_heap (fm_env (pv_fds v)) (ent_desc e) = Some d" using env_ok_Some by blast
  with True t e show ?thesis by (simp add: getFdPath_def fm_get_def)
next
  case False
  then show ?thesis by (auto simp: getFdPath_def hasFd_def fm_get_def split: option.splits)
qed

lemma pid_not_special:
  "parsePidPath p = Some x \<Longrightarrow> p \<noteq> ''self'' \<and> p \<noteq> ''mounts'' \<and> p \<noteq> ''sys'' \<and> p \<noteq> ''sys/kernel'' \<and> p \<noteq> ''sys/kernel/hostname''"
  using special_not_pid by (intro conjI notI) simp_all

lemma lstat_pid:
  assumes "parsePidPath p = Some (pid, rest)" "p \<noteq> ''''"
  shows "getProcStat now v p False =
     (case getProcess v pid of Inl e \<Rightarrow> Inl e | Inr pe \<Rightarrow>
        if rest = [] then Inr (proc_dirStat now (''proc:'' @ dec pid))
        else if rest = [''fd''] then Inr (proc_dirStat now (''proc:'' @ dec pid @ '':fd''))
        else if rest = [''environ''] then
          Inr (proc_fileStat now (''proc:'' @ dec pid @ '':environ'') (length (encodeEnviron (pe_env pe))))
        else if isProcLink rest then mapR (proc_linkStat now (pidSeed pid rest)) (getLinkTarget v pid rest)
        else Inl ENOENT)"
  using pid_not_special [OF assms(1)] assms by (simp only: getProcStat_def if_False option.case prod.case)

lemma exists_pid:
  assumes "parsePidPath p = Some (pid, rest)" "p \<noteq> ''''"
  shows "proc_exists v p \<longleftrightarrow> pt_get (pv_procs v) (int pid) \<noteq> None \<and>
     (rest = [] \<or> rest = [''fd''] \<or> rest = [''cwd''] \<or> rest = [''exe''] \<or> rest = [''environ''] \<or>
      length rest = 2 \<and> rest ! 0 = ''fd'' \<and> (\<exists>fd. natOf (rest ! 1) = Some fd \<and> hasFd v pid fd))"
proof -
  have "proc_exists v p = (if pt_get (pv_procs v) (int pid) = None then False
      else if rest = [] \<or> rest = [''fd''] then True
      else if rest = [''cwd''] \<or> rest = [''exe''] \<or> rest = [''environ''] then True
      else if length rest = 2 \<and> rest ! 0 = ''fd''
        then (case natOf (rest ! 1) of None \<Rightarrow> False | Some fd \<Rightarrow> hasFd v pid fd)
      else False)"
    using pid_not_special [OF assms(1)] assms by (simp only: proc_exists_def if_False option.case prod.case simp_thms)
  then show ?thesis by (auto split: option.split)
qed

lemma link_ok:
  assumes "fd_inv (pv_fds v)" "pt_get (pv_procs v) (int pid) = Some pe" "isProcLink rest"
  shows "is_ok (getLinkTarget v pid rest) \<longleftrightarrow> rest = [''cwd''] \<or> rest = [''exe''] \<or>
     length rest = 2 \<and> rest ! 0 = ''fd'' \<and> (\<exists>fd. natOf (rest ! 1) = Some fd \<and> hasFd v pid fd)"
proof -
  consider (c) "rest = [''cwd'']" | (e) "rest = [''exe'']" | (fd) x where "rest = [''fd'', x]"
    using assms(3) by (auto simp: isProcLink_def length_Suc_conv numeral_2_eq_2)
  then show ?thesis
  proof cases
    case (fd x)
    show ?thesis
    proof (cases "natOf x")
      case (Some n)
      then show ?thesis using getFdPath_cases [OF assms(1), of pid n] by (auto simp: getLinkTarget_def fd split: if_splits)
    qed (simp add: getLinkTarget_def fd)
  qed (simp_all add: getLinkTarget_def getProcess_def mapR_def assms(2))
qed

lemma is_ok_mapR [simp]: "is_ok (mapR f r) = is_ok r"
  by (cases r) (simp_all add: mapR_def)

lemma exists_iff_lstat:
  assumes "fds_ok v" shows "proc_exists v p \<longleftrightarrow> is_ok (getProcStat now v p False)"
proof (cases "p = '''' \<or> parsePidPath p = None")
  case True
  then show ?thesis by (auto simp: proc_exists_def getProcStat_def)
next
  case False
  then obtain pid rest where x: "parsePidPath p = Some (pid, rest)" and ne: "p \<noteq> ''''" by auto
  show ?thesis
  proof (cases "pt_get (pv_procs v) (int pid)")
    case None
    then show ?thesis by (simp add: exists_pid [OF x ne] lstat_pid [OF x ne] getProcess_def)
  next
    case (Some pe)
    have inv: "fd_inv (pv_fds v)" using assms by (simp add: fds_ok_def)
    show ?thesis
    proof (cases "isProcLink rest")
      case True
      then have "rest \<noteq> []" "rest \<noteq> [''fd'']" "rest \<noteq> [''environ'']" by (auto simp: isProcLink_def)
      then show ?thesis
        using True Some link_ok [OF inv Some True] by (simp add: exists_pid [OF x ne] lstat_pid [OF x ne] getProcess_def)
    next
      case nl: False
      then show ?thesis using Some by (auto simp: exists_pid [OF x ne] lstat_pid [OF x ne] getProcess_def isProcLink_def)
    qed
  qed
qed

lemma lstat_types [simp]:
  "vs_isDirectory (proc_dirStat now s)" "\<not> vs_isSymbolicLink (proc_dirStat now s)"
  "\<not> vs_isDirectory (proc_fileStat now s n)" "\<not> vs_isSymbolicLink (proc_fileStat now s n)"
  "\<not> vs_isDirectory (proc_linkStat now s t)" "vs_isSymbolicLink (proc_linkStat now s t)"
  by (simp_all add: proc_dirStat_def proc_fileStat_def proc_linkStat_def proc_stat_def)

definition entry_matches :: "int \<Rightarrow> ProcView \<Rightarrow> path \<Rightarrow> VirtualDirEntry \<Rightarrow> bool" where
  "entry_matches now v p e \<longleftrightarrow> (\<exists>st. getProcStat now v (childPath p (vd_name e)) False = Inr st \<and>
     vs_isDirectory st = vd_isDirectory e \<and> vs_isSymbolicLink st = vd_isSymbolicLink e)"

lemma pid_entry_matches:
  assumes "parsePidPath p = Some (pid, [])" "p \<noteq> ''''" "pt_get (pv_procs v) (int pid) = Some pe" "e \<in> set PROC_PID_ENTRIES"
  shows "entry_matches now v p e"
proof -
  have "CHR ''/'' \<notin> set (vd_name e)" using assms(4) by (auto simp: PROC_PID_ENTRIES_def entry_def linkEntry_def)
  note c = childPath_pid [OF assms(1,2) this]
  show ?thesis
    unfolding entry_matches_def lstat_pid [OF c] using assms(3,4)
    by (auto simp: PROC_PID_ENTRIES_def entry_def linkEntry_def getProcess_def isProcLink_def getLinkTarget_def mapR_def)
qed

lemma fd_entry_matches:
  assumes "parsePidPath p = Some (pid, [''fd''])" "p \<noteq> ''''" "pt_get (pv_procs v) (int pid) = Some pe"
    "fds_ok v" "e \<in> set (map (\<lambda>fd. linkEntry (dec fd)) (listOpenFds v pid))"
  shows "entry_matches now v p e"
proof -
  obtain fd where fd: "e = linkEntry (dec fd)" "fd \<in> set (listOpenFds v pid)" using assms(5) by auto
  then obtain t en where t: "mget (fm_tables (pv_fds v)) (int pid) = Some t" "(fd, en) \<in> set (fdt_entries t)"
    using assms(4) by (auto simp: listOpenFds_def fm_get_def fds_ok_def fd_inv_def table_ok_def split: option.splits)
  then have "mget (fdt_entries t) fd = Some en" using assms(4) by (auto simp: fds_ok_def fd_inv_def table_ok_def)
  then have has: "hasFd v pid fd" using t(1) by (simp add: hasFd_def fm_get_def fdt_get_def)
  obtain q where q: "getFdPath v pid fd = Inr q"
    using getFdPath_cases [of v pid fd] assms(4) has by (auto simp: fds_ok_def)
  have "fd < 2 ^ 53" using assms(4) t by (force simp: fds_ok_def)
  then have "fd < 10 ^ 300" by (rule less_trans) simp
  note nat = natOf_dec [OF this]
  have "CHR ''/'' \<notin> set (vd_name e)" by (simp add: fd linkEntry_def dec_slashless)
  note c = childPath_pid [OF assms(1,2) this]
  show ?thesis
    unfolding entry_matches_def lstat_pid [OF c] using assms(3)
    by (simp add: fd linkEntry_def getProcess_def isProcLink_def getLinkTarget_def mapR_def nat q)
qed

lemma keys_listProcesses [simp]: "mkeys (listProcesses t) = mkeys (pt_entries t)"
  by (auto simp: listProcesses_def)

lemma root_entry_matches:
  assumes "pids_ok v" "e \<in> set (PROC_ROOT_ENTRIES @ map (\<lambda>pid. entry (dec (nat pid)) True) (listPids v))"
  shows "entry_matches now v '''' e"
proof (cases "e \<in> set PROC_ROOT_ENTRIES")
  case True
  then show ?thesis
    by (auto simp: PROC_ROOT_ENTRIES_def entry_matches_def entry_def linkEntry_def childPath_def getProcStat_def)
next
  case False
  then obtain pid where e: "e = entry (dec (nat pid)) True" "pid \<in> set (mkeys (pt_entries (pv_procs v)))"
    using assms(2) by (auto simp: listPids_def)
  then obtain pe where pe: "mget (pt_entries (pv_procs v)) pid = Some pe"
    by (metis mhas_iff_key mhas_def not_None_eq)
  then have r: "1 \<le> pid" "pid < 2 ^ 53" using assms(1) by (force simp: pids_ok_def pt_inv_def)+
  then have "nat pid < 2 ^ 53" by (simp add: nat_less_iff)
  then have "nat pid < 10 ^ 300" by (rule less_trans) simp
  note p = parsePid_dec(1) [OF this]
  show ?thesis
    using r pe by (simp add: entry_matches_def e entry_def childPath_def lstat_pid [OF p dec_is_digits(2)] getProcess_def pt_get_def)
qed

lemma listing_matches:
  assumes ok: "fds_ok v" "pids_ok v" and es: "proc_readDirWithTypes v p = Inr es" and e: "e \<in> set es"
  shows "entry_matches now v p e"
proof (cases "p \<in> {'''', ''sys'', ''sys/kernel'', ''self''}")
  case True
  then consider "p = ''''" | "p = ''sys''" | "p = ''sys/kernel''" using es by (auto simp: proc_readDirWithTypes_def)
  then show ?thesis
  proof cases
    case 1
    then show ?thesis using root_entry_matches [OF ok(2)] es e by (auto simp: proc_readDirWithTypes_def)
  next
    case 2
    then show ?thesis using es e
      by (auto simp: proc_readDirWithTypes_def PROC_SYS_ENTRIES_def entry_matches_def entry_def childPath_def getProcStat_def)
  next
    case 3
    then show ?thesis using es e
      by (auto simp: proc_readDirWithTypes_def PROC_SYS_KERNEL_ENTRIES_def entry_matches_def entry_def childPath_def getProcStat_def)
  qed
next
  case False
  then obtain pid rest where x: "parsePidPath p = Some (pid, rest)"
    using es by (auto simp: proc_readDirWithTypes_def split: option.splits)
  obtain pe where pe: "pt_get (pv_procs v) (int pid) = Some pe"
    using False es by (auto simp: proc_readDirWithTypes_def x getProcess_def split: option.splits)
  consider "rest = []" "es = PROC_PID_ENTRIES"
    | "rest = [''fd'']" "es = map (\<lambda>fd. linkEntry (dec fd)) (listOpenFds v pid)"
    using False es by (auto simp: proc_readDirWithTypes_def x getProcess_def pe split: if_splits)
  then show ?thesis
    using pid_entry_matches [of p pid v pe e] fd_entry_matches [of p pid v pe e] x pe ok e False by cases auto
qed

text \<open>What each kind of status promises about the other calls.\<close>

definition kind_answers :: "ProcView \<Rightarrow> path \<Rightarrow> VirtualStat \<Rightarrow> bool" where
  "kind_answers v p st \<longleftrightarrow>
     (is_ok (proc_readDirWithTypes v p) \<longleftrightarrow> vs_isDirectory st) \<and>
     (is_ok (proc_readlink v p) \<longleftrightarrow> vs_isSymbolicLink st) \<and>
     (is_ok (proc_readFile v p) \<longleftrightarrow> \<not> vs_isDirectory st \<and> p \<noteq> ''self'') \<and>
     (vs_isDirectory st \<longrightarrow> proc_readFile v p = Inl EISDIR) \<and>
     (\<forall>t. proc_readlink v p = Inr t \<longrightarrow> vs_size st = int (length t)) \<and>
     (\<forall>b. \<not> vs_isSymbolicLink st \<longrightarrow> proc_readFile v p = Inr b \<longrightarrow> vs_size st = int (length b))"

lemma stat_sizes [simp]:
  "vs_size (proc_fileStat now s n) = int n" "vs_size (proc_linkStat now s t) = int (length t)"
  by (simp_all add: proc_fileStat_def proc_linkStat_def proc_stat_def)

lemma calls_pid:
  assumes "parsePidPath p = Some (pid, rest)" "p \<noteq> ''''"
  shows "proc_readFile v p = (if rest = [] \<or> rest = [''fd''] then Inl EISDIR else getProcFile v pid rest)"
    "proc_readlink v p = getLinkTarget v pid rest"
    "proc_readDirWithTypes v p = (case getProcess v pid of Inl e \<Rightarrow> Inl e | Inr _ \<Rightarrow>
       if rest = [] then Inr PROC_PID_ENTRIES
       else if rest = [''fd''] then Inr (map (\<lambda>fd. linkEntry (dec fd)) (listOpenFds v pid))
       else Inl ENOTDIR)"
  using pid_not_special [OF assms(1)] assms
  by (simp_all add: proc_readFile_def proc_readlink_def proc_readDirWithTypes_def)

lemma kind_answers_pid:
  assumes x: "parsePidPath p = Some (pid, rest)" and ne: "p \<noteq> ''''"
    and st: "getProcStat now v p False = Inr st"
  shows "kind_answers v p st"
proof -
  note c = calls_pid [OF x ne, of v]
  have ns: "p \<noteq> ''self''" using pid_not_special [OF x] by simp
  obtain pe where pe: "getProcess v pid = Inr pe" using st by (auto simp: lstat_pid [OF x ne] split: sum.splits)
  consider (d) "rest = [] \<or> rest = [''fd'']" | (e) "rest = [''environ'']" | (l) t where "isProcLink rest" "getLinkTarget v pid rest = Inr t"
    using st by (auto simp: lstat_pid [OF x ne] pe mapR_def split: if_splits sum.splits)
  then show ?thesis
  proof cases
    case d
    then have "getLinkTarget v pid rest = Inl ENOENT" by (auto simp: getLinkTarget_def)
    with d st ns show ?thesis by (auto simp: kind_answers_def c pe lstat_pid [OF x ne])
  next
    case e
    with st ns show ?thesis
      by (auto simp: kind_answers_def c pe lstat_pid [OF x ne] getLinkTarget_def getProcFile_def mapR_def)
  next
    case l
    then have "rest \<noteq> []" "rest \<noteq> [''fd'']" "rest \<noteq> [''environ'']" by (auto simp: isProcLink_def)
    moreover have "is_ok (getProcFile v pid rest)"
      using l pe by (auto simp: getProcFile_def mapR_def isProcLink_def)
    ultimately show ?thesis using l st ns
      by (auto simp: kind_answers_def c pe lstat_pid [OF x ne] mapR_def)
  qed
qed

lemma kind_answers_lstat:
  assumes "getProcStat now v p False = Inr st" shows "kind_answers v p st"
proof (cases "p = '''' \<or> parsePidPath p = None")
  case True
  have "parsePidPath '''' = Some (0, [])" by code_simp
  with True assms show ?thesis
    by (auto simp: getProcStat_def kind_answers_def proc_readDirWithTypes_def proc_readlink_def proc_readFile_def
        getLinkTarget_def split: if_splits)
next
  case False
  with kind_answers_pid assms show ?thesis by auto
qed

text \<open>
  The listed spelling of a path: its process and descriptor numbers in decimal. \<^verbatim>\<open>Number\<close> accepts more
  spellings of the same number (\<open>proc_pid_aliases\<close>).
\<close>

definition listedName :: "path \<Rightarrow> path" where
  "listedName p =
     (case parsePidPath p of
        None \<Rightarrow> p
      | Some (pid, rest) \<Rightarrow>
          if p = '''' then p
          else if length rest = 2 \<and> rest ! 0 = ''fd''
          then (case natOf (rest ! 1) of None \<Rightarrow> p | Some fd \<Rightarrow> dec pid @ ''/fd/'' @ dec fd)
          else joinWith ''/'' (dec pid # rest))"

definition listed :: "ProcView \<Rightarrow> path \<Rightarrow> bool" where
  "listed v q \<longleftrightarrow> (\<exists>d es e. proc_readDirWithTypes v d = Inr es \<and> e \<in> set es \<and> q = childPath d (vd_name e))"

lemma listedI: "proc_readDirWithTypes v d = Inr es \<Longrightarrow> e \<in> set es \<Longrightarrow> q = childPath d (vd_name e) \<Longrightarrow> listed v q"
  by (auto simp: listed_def)

lemma pid_known:
  assumes "pids_ok v" "pt_get (pv_procs v) (int pid) = Some pe"
  shows "int pid \<in> set (listPids v)" "pid < 10 ^ 300"
proof -
  have m: "mget (pt_entries (pv_procs v)) (int pid) = Some pe" using assms(2) by (simp add: pt_get_def)
  then show "int pid \<in> set (listPids v)" by (force simp: listPids_def dest: map_of_SomeD)
  have "int pid < 2 ^ 53" using assms(1) m by (force simp: pids_ok_def pt_inv_def)
  then have "pid < 2 ^ 53" by simp
  then show "pid < 10 ^ 300" by (rule less_trans) simp
qed

lemma fd_known:
  assumes "fds_ok v" "hasFd v pid fd" shows "fd \<in> set (listOpenFds v pid)"
proof -
  obtain t e where t: "mget (fm_tables (pv_fds v)) (int pid) = Some t" "mget (fdt_entries t) fd = Some e"
    using assms(2) by (auto simp: hasFd_def fm_get_def fdt_get_def split: option.splits)
  then have "(fd, e) \<in> set (fdt_entries t)" by (simp add: map_of_SomeD)
  moreover have "ent_fd e = fd" using assms(1) t by (auto simp: fds_ok_def fd_inv_def table_ok_def)
  ultimately show ?thesis using t(1) by (force simp: listOpenFds_def fm_get_def)
qed

lemma exists_listed_pid:
  assumes ok: "fds_ok v" "pids_ok v" and x: "parsePidPath p = Some (pid, rest)" and ne: "p \<noteq> ''''"
    and ex: "proc_exists v p"
  shows "listed v (listedName p)"
proof -
  obtain pe where pe: "pt_get (pv_procs v) (int pid) = Some pe" using ex by (auto simp: exists_pid [OF x ne])
  note k = pid_known [OF ok(2) pe]
  note d0 = parsePid_dec(1) [OF k(2)] and dne = dec_is_digits(2) [of pid]
  have gp: "getProcess v pid = Inr pe" by (simp add: getProcess_def pe)
  have pd: "proc_readDirWithTypes v (dec pid) = Inr PROC_PID_ENTRIES"
    using calls_pid(3) [OF d0 dne, of v] by (simp add: gp)
  consider (r) "rest = []" | (f) "rest = [''fd'']" | (o) "rest = [''cwd''] \<or> rest = [''exe''] \<or> rest = [''environ'']"
    | (n) y fd where "rest = [''fd'', y]" "natOf y = Some fd" "hasFd v pid fd"
    using ex by (auto simp: exists_pid [OF x ne] length_Suc_conv numeral_2_eq_2)
  then show ?thesis
  proof cases
    case r
    with x ne k(1) show ?thesis
      by (intro listedI [of v "''''" _ "entry (dec pid) True"])
        (auto simp: proc_readDirWithTypes_def entry_def childPath_def listedName_def intro!: image_eqI [of _ _ "int pid"])
  next
    case f
    with x ne dne show ?thesis
      by (intro listedI [OF pd, of "entry ''fd'' True"])
        (simp_all add: PROC_PID_ENTRIES_def entry_def childPath_def listedName_def)
  next
    case o
    then have nm: "length rest = 1" "hd rest \<in> vd_name ` set PROC_PID_ENTRIES"
      by (auto simp: PROC_PID_ENTRIES_def entry_def linkEntry_def)
    then obtain e where "e \<in> set PROC_PID_ENTRIES" "rest = [vd_name e]"
      by (auto simp: length_Suc_conv)
    with x ne dne show ?thesis
      by (intro listedI [OF pd, of e]) (simp_all add: childPath_def listedName_def)
  next
    case n
    have "parsePidPath (dec pid @ ''/fd'') = Some (pid, [''fd''])"
      using parsePid_dec(2) [OF k(2), of "''fd''"] by simp
    then have pf: "proc_readDirWithTypes v (dec pid @ ''/fd'') = Inr (map (\<lambda>fd. linkEntry (dec fd)) (listOpenFds v pid))"
      using calls_pid(3) [of "dec pid @ ''/fd''" pid "[''fd'']" v] by (simp add: gp)
    from n x ne fd_known [OF ok(1) n(3)] show ?thesis
      by (intro listedI [OF pf, of "linkEntry (dec fd)"])
        (simp_all add: linkEntry_def childPath_def listedName_def)
  qed
qed

lemma exists_listed_fixed:
  assumes "p \<in> {''self'', ''mounts'', ''sys'', ''sys/kernel'', ''sys/kernel/hostname''}"
  shows "listed v p"
proof -
  let ?es = "PROC_ROOT_ENTRIES @ map (\<lambda>pid. entry (dec (nat pid)) True) (listPids v)"
  have root: "proc_readDirWithTypes v '''' = Inr ?es" by (simp add: proc_readDirWithTypes_def)
  have "listed v ''self''"
    by (rule listedI [OF root, of "linkEntry ''self''"]) (simp_all add: PROC_ROOT_ENTRIES_def linkEntry_def childPath_def)
  moreover have "listed v ''sys''"
    by (rule listedI [OF root, of "entry ''sys'' True"]) (simp_all add: PROC_ROOT_ENTRIES_def entry_def childPath_def)
  moreover have "listed v ''mounts''"
    by (rule listedI [OF root, of "entry ''mounts'' False"]) (simp_all add: PROC_ROOT_ENTRIES_def entry_def childPath_def)
  moreover have "listed v ''sys/kernel''"
    by (rule listedI [of v "''sys''" PROC_SYS_ENTRIES "entry ''kernel'' True"])
      (simp_all add: proc_readDirWithTypes_def PROC_SYS_ENTRIES_def entry_def childPath_def)
  moreover have "listed v ''sys/kernel/hostname''"
    by (rule listedI [of v "''sys/kernel''" PROC_SYS_KERNEL_ENTRIES "entry ''hostname'' False"])
      (simp_all add: proc_readDirWithTypes_def PROC_SYS_KERNEL_ENTRIES_def entry_def childPath_def)
  ultimately show ?thesis using assms by blast
qed

lemma exists_listed:
  assumes ok: "fds_ok v" "pids_ok v" and ex: "proc_exists v p" and ne: "p \<noteq> ''''"
  shows "listed v (listedName p)"
proof (cases "parsePidPath p")
  case None
  then have "p \<in> {''self'', ''mounts'', ''sys'', ''sys/kernel'', ''sys/kernel/hostname''}"
    using ex ne by (auto simp: proc_exists_def split: if_splits)
  from exists_listed_fixed [OF this] None show ?thesis by (simp add: listedName_def)
next
  case (Some x)
  with exists_listed_pid [OF ok _ ne ex] show ?thesis by (cases x) auto
qed


definition proc_example :: ProcView where
  "proc_example = \<lparr>pv_procs = run_ops (proc_step silent 5 2) [(0, PcSpawn ''node'' ''sh'' [] ctx0)] pt_new,
     pv_fds = run_ops fd_step [FdCreate 1, FdOpen 1 ''/a'' 0 None] fm_new, pv_hostname = None, pv_mounts = None\<rparr>"

lemma proc_example_ok: "fds_ok proc_example" "pids_ok proc_example"
proof -
  let ?fds = "run_ops fd_step [FdCreate 1, FdOpen 1 ''/a'' 0 None] fm_new"
  have "fd_inv ?fds" by (rule fd_machine.run_inv [OF fd_inv_new]) code_simp
  moreover have "map (\<lambda>(p, t). (p, mkeys (fdt_entries t))) (fm_tables ?fds) = [(1, [0, 1, 2, 3])]" by code_simp
  then have "(\<forall>p t fd. mget (fm_tables ?fds) p = Some t \<longrightarrow> fd \<in> set (mkeys (fdt_entries t)) \<longrightarrow> fd < 2 ^ 53)"
    by (auto dest!: map_of_SomeD simp: map_eq_Cons_conv)
  ultimately show "fds_ok proc_example" by (simp add: fds_ok_def proc_example_def)
  show "pids_ok proc_example"
    using reachable_inv [of silent 5 2 "[(0, PcSpawn ''node'' ''sh'' [] ctx0)]"]
    by (simp add: pids_ok_def proc_example_def proc_step_def spawn_eq pt_new_def)
qed


text \<open>
  A process directory has many names: \<^verbatim>\<open>Number\<close> accepts signs, leading zeros, white space, exponents and
  other radices. A policy that names \<^verbatim>\<open>/proc/1\<close> does not cover them.
\<close>

lemma proc_pid_aliases:
  "natOf ''0x1'' = Some 1" "natOf ''01'' = Some 1" "natOf ''1e0'' = Some 1" "natOf ''+1'' = Some 1" "natOf '' 1'' = Some 1"
  "parsePidPath ''0x1/environ'' = Some (1, [''environ''])"
  by code_simp+

lemma proc_environ_alias:
  "parsePidPath p = Some (pid, [''environ'']) \<Longrightarrow> p \<noteq> '''' \<Longrightarrow>
   proc_readFile v p = mapR (\<lambda>e. encodeEnviron (pe_env e)) (getProcess v pid)"
  using pid_not_special [of p] by (auto simp: proc_readFile_def getProcFile_def)

end
