(* ===== verification/Proc_Layer.thy ===== *)
theory Proc_Layer
  imports Proc_Backend
begin

unbundle bit_operations_syntax

section \<open>The proc layer and process-scoped file systems\<close>

text \<open>
  \<^verbatim>\<open>kernel/proc-layer.ts\<close>: \<open>createProcLayer\<close> answers the paths below \<^verbatim>\<open>/proc\<close> in front of a file system, and
  \<open>createProcessScopedFileSystem\<close> rewrites \<^verbatim>\<open>/proc/self\<close> for one process, which is what the Node runtime
  hands to a process. The layer reads the same tables as the backend (its view has no mount list).

  The status of a link below \<^verbatim>\<open>/proc\<close> follows the target, and a target below \<^verbatim>\<open>/proc\<close> calls the method
  again before anything is awaited: the recursion is on the call stack. The fuel is the depth of the
  stack, and \<open>None\<close> the \<^verbatim>\<open>RangeError\<close> of a stack that is exhausted; \<open>layer_stat_terminates\<close> bounds
  the depth for links that leave \<^verbatim>\<open>/proc\<close>, \<open>layer_stat_loops\<close> shows a link that never ends.
\<close>

subsection \<open>Paths\<close>

definition proc_normalizePath :: "path \<Rightarrow> path" where
  "proc_normalizePath p =
     (if p = '''' then ''/''
      else
        let n0 = (if startsWith p ''/'' then p else ''/'' @ p);
            n1 = collapseSlashes n0;
            n2 = (if length n1 > 1 \<and> endsWith n1 ''/'' then butlast n1 else n1);
            resolved = norm_loop [] (splitOn (CHR ''/'') n2)
        in if resolved = [] then ''/'' else ''/'' @ joinWith ''/'' resolved)"

definition isProcPath :: "path \<Rightarrow> bool" where
  "isProcPath p \<longleftrightarrow> (let n = proc_normalizePath p in n = ''/proc'' \<or> startsWith n ''/proc/'')"

definition parseProcPath :: "path \<Rightarrow> (nat \<times> string list) option" where
  "parseProcPath p =
     (let n = proc_normalizePath p
      in if n = ''/proc'' \<or> n = ''/proc/self'' \<or> \<not> startsWith n ''/proc/'' then None
         else let parts = splitOn (CHR ''/'') (drop 6 n)
              in map_option (\<lambda>pid. (pid, tl parts)) (natOf (hd parts)))"

definition clonePathArg :: "path \<Rightarrow> path \<Rightarrow> path" where
  "clonePathArg p n = (if p = n then p else n)"

definition resolveSelf :: "path \<Rightarrow> pid \<Rightarrow> path" where
  "resolveSelf p pid =
     (let n = proc_normalizePath p
      in if n = ''/proc/self'' then ''/proc/'' @ dec (nat pid)
         else if startsWith n ''/proc/self/'' then ''/proc/'' @ dec (nat pid) @ drop 10 n
         else n)"

subsection \<open>The layer's own helpers\<close>

text \<open>
  \<^verbatim>\<open>proc-layer.ts\<close> does not import \<^verbatim>\<open>proc-backend.ts\<close>: it has its own copies of the stat builders, the
  text encoders and the accessors of the tables. They are definitions of their own here, translated from
  the layer's lines; that they agree with the backend's is proved below (\<open>layer_copies\<close>).
\<close>

definition PL_INO_BASE :: nat where "PL_INO_BASE = 0xfffe0000"

definition pl_procIno :: "string \<Rightarrow> nat" where
  "pl_procIno seed = PL_INO_BASE + unat (fold (\<lambda>c hash. (hash * 33) XOR of_char c) seed (0 :: u32) AND 0xffff)"

definition pl_dirStat :: "int \<Rightarrow> string \<Rightarrow> VirtualStat" where
  "pl_dirStat now seed = \<lparr>vs_mode = 0x4000 OR 0x16D, vs_size = 0, vs_isDirectory = True,
     vs_isSymbolicLink = False, vs_atimeMs = now, vs_mtimeMs = now, vs_ctimeMs = now, vs_birthtimeMs = now,
     vs_ino = pl_procIno seed, vs_nlink = 2, vs_uid = 0, vs_gid = 0\<rparr>"

definition pl_fileStat :: "int \<Rightarrow> string \<Rightarrow> nat \<Rightarrow> VirtualStat" where
  "pl_fileStat now seed size' = \<lparr>vs_mode = 0x8000 OR 0x124, vs_size = int size', vs_isDirectory = False,
     vs_isSymbolicLink = False, vs_atimeMs = now, vs_mtimeMs = now, vs_ctimeMs = now, vs_birthtimeMs = now,
     vs_ino = pl_procIno seed, vs_nlink = 1, vs_uid = 0, vs_gid = 0\<rparr>"

definition pl_linkStat :: "int \<Rightarrow> string \<Rightarrow> string \<Rightarrow> VirtualStat" where
  "pl_linkStat now seed target = \<lparr>vs_mode = 0xA000 OR 0x1FF, vs_size = int (length target),
     vs_isDirectory = False, vs_isSymbolicLink = True, vs_atimeMs = now, vs_mtimeMs = now, vs_ctimeMs = now,
     vs_birthtimeMs = now, vs_ino = pl_procIno seed, vs_nlink = 1, vs_uid = 0, vs_gid = 0\<rparr>"

definition pl_encodeText :: "string \<Rightarrow> bytes" where
  "pl_encodeText content = utf8_encode (map of_char content)"

definition pl_encodeEnviron :: "(string, string) jsmap \<Rightarrow> bytes" where
  "pl_encodeEnviron env =
     (case objEntries env of
        [] \<Rightarrow> []
      | entries \<Rightarrow> pl_encodeText
          (joinWith [char_of (0 :: nat)] (map (\<lambda>(key, v). key @ ''='' @ v) entries) @ [char_of (0 :: nat)]))"

definition pl_resolveExecPath :: "string \<Rightarrow> path" where
  "pl_resolveExecPath command =
     (if command = '''' then '''' else (if startsWith command ''/'' then command else ''/bin/'' @ command))"

definition PL_PID_ENTRIES :: "VirtualDirEntry list" where
  "PL_PID_ENTRIES =
     [\<lparr>vd_name = ''fd'', vd_isDirectory = True, vd_isSymbolicLink = False, vd_ino = None\<rparr>,
      \<lparr>vd_name = ''cwd'', vd_isDirectory = False, vd_isSymbolicLink = True, vd_ino = None\<rparr>,
      \<lparr>vd_name = ''exe'', vd_isDirectory = False, vd_isSymbolicLink = True, vd_ino = None\<rparr>,
      \<lparr>vd_name = ''environ'', vd_isDirectory = False, vd_isSymbolicLink = False, vd_ino = None\<rparr>]"

definition LAYER_ROOT_ENTRIES :: "VirtualDirEntry list" where
  "LAYER_ROOT_ENTRIES =
     [\<lparr>vd_name = ''self'', vd_isDirectory = False, vd_isSymbolicLink = True, vd_ino = None\<rparr>,
      \<lparr>vd_name = ''sys'', vd_isDirectory = True, vd_isSymbolicLink = False, vd_ino = None\<rparr>]"

definition PL_SYS_ENTRIES :: "VirtualDirEntry list" where
  "PL_SYS_ENTRIES = [\<lparr>vd_name = ''kernel'', vd_isDirectory = True, vd_isSymbolicLink = False, vd_ino = None\<rparr>]"

definition PL_SYS_KERNEL_ENTRIES :: "VirtualDirEntry list" where
  "PL_SYS_KERNEL_ENTRIES = [\<lparr>vd_name = ''hostname'', vd_isDirectory = False, vd_isSymbolicLink = False, vd_ino = None\<rparr>]"

definition pl_kernelHostname :: "ProcView \<Rightarrow> bytes" where
  "pl_kernelHostname v =
     pl_encodeText ((case pv_hostname v of Some h \<Rightarrow> h | None \<Rightarrow> ''sandbox'') @ [char_of (10 :: nat)])"

definition pl_getProcess :: "ProcView \<Rightarrow> nat \<Rightarrow> ProcessEntry res" where
  "pl_getProcess v pid = (case pt_get (pv_procs v) (int pid) of Some e \<Rightarrow> Inr e | None \<Rightarrow> Inl ENOENT)"

text \<open>\<^verbatim>\<open>options.fdTableManager.get(pid)?.get(fd)\<close>, and the path of the description of the entry.\<close>

definition pl_fdEntry :: "ProcView \<Rightarrow> nat \<Rightarrow> nat \<Rightarrow> FDEntry option" where
  "pl_fdEntry v pid fd = Option.bind (fm_get (int pid) (pv_fds v)) (\<lambda>t. fdt_get t fd)"

definition pl_getFdPath :: "ProcView \<Rightarrow> nat \<Rightarrow> nat \<Rightarrow> path res" where
  "pl_getFdPath v pid fd =
     (case Option.bind (pl_fdEntry v pid fd) (\<lambda>e. de_heap (fm_env (pv_fds v)) (ent_desc e)) of
        None \<Rightarrow> Inl ENOENT
      | Some d \<Rightarrow> Inr (desc_path d))"

definition pl_listPids :: "ProcView \<Rightarrow> pid list" where
  "pl_listPids v = sort (map fst (listProcesses (pv_procs v)))"

definition pl_listOpenFds :: "ProcView \<Rightarrow> nat \<Rightarrow> fdnum list" where
  "pl_listOpenFds v pid =
     (case fm_get (int pid) (pv_fds v) of
        None \<Rightarrow> []
      | Some t \<Rightarrow> sort (foldl (\<lambda>fds e. fds @ [ent_fd (snd e)]) [] (fdt_entries t)))"

definition pl_getLinkTarget :: "ProcView \<Rightarrow> nat \<Rightarrow> string list \<Rightarrow> path res" where
  "pl_getLinkTarget v pid rest =
     (if length rest = 1 \<and> rest ! 0 = ''cwd'' then mapR pe_cwd (pl_getProcess v pid)
      else if length rest = 1 \<and> rest ! 0 = ''exe''
        then mapR (\<lambda>e. pl_resolveExecPath (pe_command e)) (pl_getProcess v pid)
      else if length rest = 2 \<and> rest ! 0 = ''fd''
        then (case natOf (rest ! 1) of None \<Rightarrow> Inl ENOENT | Some fd \<Rightarrow> pl_getFdPath v pid fd)
      else Inl ENOENT)"

definition pl_getProcFile :: "ProcView \<Rightarrow> nat \<Rightarrow> string list \<Rightarrow> bytes res" where
  "pl_getProcFile v pid rest =
     (if length rest = 1 \<and> rest ! 0 = ''cwd'' then mapR (\<lambda>e. pl_encodeText (pe_cwd e)) (pl_getProcess v pid)
      else if length rest = 1 \<and> rest ! 0 = ''exe''
        then mapR (\<lambda>e. pl_encodeText (pl_resolveExecPath (pe_command e))) (pl_getProcess v pid)
      else if length rest = 1 \<and> rest ! 0 = ''environ''
        then mapR (\<lambda>e. pl_encodeEnviron (pe_env e)) (pl_getProcess v pid)
      else if length rest = 2 \<and> rest ! 0 = ''fd'' then mapR pl_encodeText (pl_getLinkTarget v pid rest)
      else Inl ENOENT)"

definition pl_isLink :: "string list \<Rightarrow> bool" where
  "pl_isLink rest \<longleftrightarrow>
     length rest = 1 \<and> (rest ! 0 = ''cwd'' \<or> rest ! 0 = ''exe'') \<or> length rest = 2 \<and> rest ! 0 = ''fd''"

definition pl_linkSeed :: "nat \<Rightarrow> string list \<Rightarrow> string" where
  "pl_linkSeed pid rest = ''proc:'' @ dec pid @ '':'' @ joinWith '':'' rest"

subsection \<open>The layer\<close>

definition isFixedProc :: "path \<Rightarrow> bool" where
  "isFixedProc n \<longleftrightarrow> n = ''/proc'' \<or> n = ''/proc/self'' \<or> n = ''/proc/sys'' \<or> n = ''/proc/sys/kernel''
     \<or> n = ''/proc/sys/kernel/hostname''"

primrec layer_getProcStat ::
  "nat \<Rightarrow> int \<Rightarrow> 's VirtualFileSystem \<Rightarrow> ProcView \<Rightarrow> path \<Rightarrow> bool \<Rightarrow> 's \<Rightarrow> (VirtualStat res \<times> 's) option"
where
  "layer_getProcStat 0 now fs v p follow s = None"
| "layer_getProcStat (Suc fuel) now fs v p follow s =
     (let n = proc_normalizePath p
      in if n = ''/proc'' then Some (Inr (pl_dirStat now ''proc''), s)
         else if n = ''/proc/sys'' then Some (Inr (pl_dirStat now ''proc:sys''), s)
         else if n = ''/proc/sys/kernel'' then Some (Inr (pl_dirStat now ''proc:sys:kernel''), s)
         else if n = ''/proc/sys/kernel/hostname'' then
           Some (Inr (pl_fileStat now ''proc:sys:kernel:hostname'' (length (pl_kernelHostname v))), s)
         else if n = ''/proc/self'' then
           Some (Inr (if follow then pl_dirStat now ''proc-self'' else pl_linkStat now ''proc-self-link'' ''/proc/self''), s)
         else case parseProcPath n of
                None \<Rightarrow> Some (Inl ENOENT, s)
              | Some (pid, rest) \<Rightarrow>
                  (case pl_getProcess v pid of
                     Inl e \<Rightarrow> Some (Inl e, s)
                   | Inr pe \<Rightarrow>
                       if rest = [] then Some (Inr (pl_dirStat now (''proc:'' @ dec pid)), s)
                       else if rest = [''fd''] then Some (Inr (pl_dirStat now (''proc:'' @ dec pid @ '':fd'')), s)
                       else if rest = [''environ''] then
                         Some (Inr (pl_fileStat now (''proc:'' @ dec pid @ '':environ'') (length (pl_encodeEnviron (pe_env pe)))), s)
                       else if pl_isLink rest then
                         (case pl_getLinkTarget v pid rest of
                            Inl e \<Rightarrow> Some (Inl e, s)
                          | Inr target \<Rightarrow>
                              if \<not> follow then Some (Inr (pl_linkStat now (pl_linkSeed pid rest) target), s)
                              else if startsWith target ''/proc/'' then layer_getProcStat fuel now fs v target True s
                              else (case vo_call fs (StatCall target) s of
                                      (Inr (RStat st), s1) \<Rightarrow> Some (Inr st, s1)
                                    | (_, s1) \<Rightarrow> Some (Inr (pl_linkStat now (pl_linkSeed pid rest) target), s1)))
                       else Some (Inl ENOENT, s)))"

definition layer_readFile_proc :: "ProcView \<Rightarrow> path \<Rightarrow> bytes res" where
  "layer_readFile_proc v n =
     (if n = ''/proc'' \<or> n = ''/proc/self'' then Inl EISDIR
      else if n = ''/proc/sys'' \<or> n = ''/proc/sys/kernel'' then Inl EISDIR
      else if n = ''/proc/sys/kernel/hostname'' then Inr (pl_kernelHostname v)
      else case parseProcPath n of
             None \<Rightarrow> Inl ENOENT
           | Some (pid, rest) \<Rightarrow> if rest = [] \<or> rest = [''fd''] then Inl EISDIR else pl_getProcFile v pid rest)"

text \<open>
  \<^verbatim>\<open>readFile\<close>; \<^verbatim>\<open>pread\<close> and \<^verbatim>\<open>readTextFile\<close> read the whole file through it, below \<^verbatim>\<open>/proc\<close> or not.
\<close>

definition pl_readFile :: "'s VirtualFileSystem \<Rightarrow> ProcView \<Rightarrow> path \<Rightarrow> 's \<Rightarrow> vfs_reply res \<times> 's" where
  "pl_readFile fs v p s =
     (let n = proc_normalizePath p
      in if \<not> isProcPath n then vo_call fs (ReadFile (clonePathArg p n)) s
         else (mapR RBytes (layer_readFile_proc v n), s))"

definition on_bytes :: "(bytes \<Rightarrow> vfs_reply) \<Rightarrow> vfs_reply res \<Rightarrow> vfs_reply res" where
  "on_bytes f r = (case r of Inr (RBytes b) \<Rightarrow> Inr (f b) | _ \<Rightarrow> r)"

definition pl_pread :: "'s VirtualFileSystem \<Rightarrow> ProcView \<Rightarrow> path \<Rightarrow> int \<Rightarrow> int \<Rightarrow> 's \<Rightarrow> vfs_reply res \<times> 's" where
  "pl_pread fs v p offset len s =
     (let (r, s1) = pl_readFile fs v p s
      in (on_bytes (\<lambda>content. RBytes (if int (length content) \<le> offset then [] else jsSlice content offset (offset + len))) r, s1))"

definition pl_readTextFile :: "'s VirtualFileSystem \<Rightarrow> ProcView \<Rightarrow> path \<Rightarrow> 's \<Rightarrow> vfs_reply res \<times> 's" where
  "pl_readTextFile fs v p s = (let (r, s1) = pl_readFile fs v p s in (on_bytes (\<lambda>b. RText (textDecode b)) r, s1))"

definition layer_readDir_proc :: "ProcView \<Rightarrow> path \<Rightarrow> VirtualDirEntry list res" where
  "layer_readDir_proc v n =
     (if n = ''/proc'' then Inr (LAYER_ROOT_ENTRIES @ map (\<lambda>pid. entry (dec (nat pid)) True) (pl_listPids v))
      else if n = ''/proc/sys'' then Inr PL_SYS_ENTRIES
      else if n = ''/proc/sys/kernel'' then Inr PL_SYS_KERNEL_ENTRIES
      else if n = ''/proc/self'' then Inl ENOENT
      else case parseProcPath n of
             None \<Rightarrow> Inl ENOENT
           | Some (pid, rest) \<Rightarrow>
               (case pl_getProcess v pid of
                  Inl e \<Rightarrow> Inl e
                | Inr _ \<Rightarrow>
                    if rest = [] then Inr PL_PID_ENTRIES
                    else if rest = [''fd''] then Inr (map (\<lambda>fd. linkEntry (dec fd)) (pl_listOpenFds v pid))
                    else Inl ENOTDIR))"

definition pl_readDirWithTypes :: "'s VirtualFileSystem \<Rightarrow> ProcView \<Rightarrow> path \<Rightarrow> 's \<Rightarrow> vfs_reply res \<times> 's" where
  "pl_readDirWithTypes fs v p s =
     (let n = proc_normalizePath p
      in if \<not> isProcPath n then vo_call fs (ReadDirWithTypes (clonePathArg p n)) s
         else (mapR REntries (layer_readDir_proc v n), s))"

definition pl_readDir :: "'s VirtualFileSystem \<Rightarrow> ProcView \<Rightarrow> path \<Rightarrow> 's \<Rightarrow> vfs_reply res \<times> 's" where
  "pl_readDir fs v p s =
     (let (r, s1) = pl_readDirWithTypes fs v p s
      in ((case r of Inr (REntries es) \<Rightarrow> Inr (RNames (map vd_name es)) | _ \<Rightarrow> r), s1))"

definition layer_exists_proc :: "ProcView \<Rightarrow> path \<Rightarrow> bool" where
  "layer_exists_proc v n =
     (if isFixedProc n then True
      else case parseProcPath n of
             None \<Rightarrow> False
           | Some (pid, rest) \<Rightarrow>
               if pt_get (pv_procs v) (int pid) = None then False
               else if rest = [] \<or> rest = [''fd''] then True
               else if rest = [''cwd''] \<or> rest = [''exe''] \<or> rest = [''environ''] then True
               else if length rest = 2 \<and> rest ! 0 = ''fd''
                 then (case natOf (rest ! 1) of None \<Rightarrow> False | Some fd \<Rightarrow> pl_fdEntry v pid fd \<noteq> None)
               else False)"

definition pl_exists :: "'s VirtualFileSystem \<Rightarrow> ProcView \<Rightarrow> path \<Rightarrow> 's \<Rightarrow> vfs_reply res \<times> 's" where
  "pl_exists fs v p s =
     (let n = proc_normalizePath p
      in if \<not> isProcPath n then vo_call fs (ExistsCall (clonePathArg p n)) s
         else (Inr (RBool (layer_exists_proc v n)), s))"

text \<open>\<^verbatim>\<open>stat\<close> and \<^verbatim>\<open>lstat\<close>; an exhausted stack is an error value of the promise, here \<^const>\<open>ELOOP\<close>.\<close>

definition pl_stat :: "nat \<Rightarrow> int \<Rightarrow> 's VirtualFileSystem \<Rightarrow> ProcView \<Rightarrow> bool \<Rightarrow> path \<Rightarrow> 's \<Rightarrow> vfs_reply res \<times> 's" where
  "pl_stat stack now fs v follow p s =
     (let n = proc_normalizePath p
      in if \<not> isProcPath n then vo_call fs ((if follow then StatCall else Lstat) (clonePathArg p n)) s
         else case layer_getProcStat stack now fs v n follow s of
                None \<Rightarrow> (Inl ELOOP, s)
              | Some (r, s1) \<Rightarrow> (mapR RStat r, s1))"

definition layer_realpath_proc :: "ProcView \<Rightarrow> path \<Rightarrow> path res" where
  "layer_realpath_proc v n =
     (if isFixedProc n then Inr n
      else case parseProcPath n of
             None \<Rightarrow> Inl ENOENT
           | Some (pid, rest) \<Rightarrow>
               (case pl_getProcess v pid of
                  Inl e \<Rightarrow> Inl e
                | Inr _ \<Rightarrow>
                    if rest = [] \<or> rest = [''fd''] then Inr n
                    else if rest = [''environ''] then Inr n
                    else if pl_isLink rest then pl_getLinkTarget v pid rest
                    else Inl ENOENT))"

definition pl_realpath :: "'s VirtualFileSystem \<Rightarrow> ProcView \<Rightarrow> path \<Rightarrow> 's \<Rightarrow> vfs_reply res \<times> 's" where
  "pl_realpath fs v p s =
     (let n = proc_normalizePath p
      in if \<not> isProcPath n then vo_call fs (Realpath (clonePathArg p n)) s
         else (mapR RPath (layer_realpath_proc v n), s))"

definition pl_readlink :: "'s VirtualFileSystem \<Rightarrow> ProcView \<Rightarrow> path \<Rightarrow> 's \<Rightarrow> vfs_reply res \<times> 's" where
  "pl_readlink fs v p s =
     (let n = proc_normalizePath p
      in if \<not> isProcPath n then vo_call fs (Readlink (clonePathArg p n)) s
         else if n = ''/proc/self'' then (Inr (RPath ''/proc/self''), s)
         else case parseProcPath n of
                None \<Rightarrow> (Inl EINVAL, s)
              | Some (pid, rest) \<Rightarrow> (mapR RPath (pl_getLinkTarget v pid rest), s))"

definition rejectMutation :: "path \<Rightarrow> unit res" where
  "rejectMutation p = (if isProcPath p then Inl EPERM else Inr ())"

text \<open>The body of the methods that change one path: reject below \<^verbatim>\<open>/proc\<close>, else forward.\<close>

definition pl_change :: "'s VirtualFileSystem \<Rightarrow> (path \<Rightarrow> vfs_call) \<Rightarrow> path \<Rightarrow> 's \<Rightarrow> vfs_reply res \<times> 's" where
  "pl_change fs mk p s =
     (let n = proc_normalizePath p
      in case rejectMutation n of Inl e \<Rightarrow> (Inl e, s) | Inr _ \<Rightarrow> vo_call fs (mk (clonePathArg p n)) s)"

definition pl_change2 :: "'s VirtualFileSystem \<Rightarrow> (path \<Rightarrow> path \<Rightarrow> vfs_call) \<Rightarrow> path \<Rightarrow> path \<Rightarrow> 's \<Rightarrow> vfs_reply res \<times> 's" where
  "pl_change2 fs mk p q s =
     (let n = proc_normalizePath p; n' = proc_normalizePath q
      in case rejectMutation n of
           Inl e \<Rightarrow> (Inl e, s)
         | Inr _ \<Rightarrow> (case rejectMutation n' of
                       Inl e \<Rightarrow> (Inl e, s)
                     | Inr _ \<Rightarrow> vo_call fs (mk (clonePathArg p n) (clonePathArg q n')) s))"

definition pl_prepareOpenSync :: "'s VirtualFileSystem \<Rightarrow> path \<Rightarrow> u32 \<Rightarrow> 's \<Rightarrow> vfs_reply res \<times> 's" where
  "pl_prepareOpenSync fs p flags s =
     (let n = proc_normalizePath p
      in if isProcPath n then (Inr (RBool False), s)
         else if vo_has fs OptPrepareOpenSync then vo_call fs (PrepareOpenSync (clonePathArg p n) flags) s
         else (Inr (RBool False), s))"

fun pl_call :: "nat \<Rightarrow> int \<Rightarrow> 's VirtualFileSystem \<Rightarrow> ProcView \<Rightarrow> vfs_call \<Rightarrow> 's \<Rightarrow> vfs_reply res \<times> 's" where
  "pl_call stack now fs v (ReadFile p) s = pl_readFile fs v p s"
| "pl_call stack now fs v (Pread p off len) s = pl_pread fs v p off len s"
| "pl_call stack now fs v (ReadTextFile p) s = pl_readTextFile fs v p s"
| "pl_call stack now fs v (ReadDir p) s = pl_readDir fs v p s"
| "pl_call stack now fs v (ReadDirWithTypes p) s = pl_readDirWithTypes fs v p s"
| "pl_call stack now fs v (WriteFile p b) s = pl_change fs (\<lambda>q. WriteFile q b) p s"
| "pl_call stack now fs v (CreateDir p) s = pl_change fs CreateDir p s"
| "pl_call stack now fs v (Mkdir p r) s = pl_change fs (\<lambda>q. Mkdir q r) p s"
| "pl_call stack now fs v (ExistsCall p) s = pl_exists fs v p s"
| "pl_call stack now fs v (StatCall p) s = pl_stat stack now fs v True p s"
| "pl_call stack now fs v (Lstat p) s = pl_stat stack now fs v False p s"
| "pl_call stack now fs v (RemoveFile p) s = pl_change fs RemoveFile p s"
| "pl_call stack now fs v (RemoveDir p) s = pl_change fs RemoveDir p s"
| "pl_call stack now fs v (Rename p q) s = pl_change2 fs Rename p q s"
| "pl_call stack now fs v (Realpath p) s = pl_realpath fs v p s"
| "pl_call stack now fs v (Symlink t l) s = pl_change fs (Symlink t) l s"
| "pl_call stack now fs v (Readlink p) s = pl_readlink fs v p s"
| "pl_call stack now fs v (Link p q) s = pl_change2 fs Link p q s"
| "pl_call stack now fs v (Chmod p m) s = pl_change fs (\<lambda>q. Chmod q m) p s"
| "pl_call stack now fs v (Chown p u g) s = pl_change fs (\<lambda>q. Chown q u g) p s"
| "pl_call stack now fs v (Utimes p a m) s = pl_change fs (\<lambda>q. Utimes q a m) p s"
| "pl_call stack now fs v (Truncate p n) s = pl_change fs (\<lambda>q. Truncate q n) p s"
| "pl_call stack now fs v (Pwrite p off b) s = pl_change fs (\<lambda>q. Pwrite q off b) p s"
| "pl_call stack now fs v (PrepareOpenSync p flags) s = pl_prepareOpenSync fs p flags s"
| "pl_call stack now fs v _ s = (Inl ENOSYS, s)"

definition createProcLayer :: "nat \<Rightarrow> int \<Rightarrow> 's VirtualFileSystem \<Rightarrow> ProcView \<Rightarrow> 's VirtualFileSystem" where
  "createProcLayer stack now fs v =
     \<lparr>vo_call = pl_call stack now fs v, vo_has = (\<lambda>x. x = OptPrepareOpenSync)\<rparr>"

subsection \<open>The file system of one process\<close>

text \<open>Every path of a call with \<^verbatim>\<open>/proc/self\<close> replaced; the target of a symbolic link is left alone.\<close>

fun scope_call :: "(path \<Rightarrow> path) \<Rightarrow> vfs_call \<Rightarrow> vfs_call" where
  "scope_call f (ReadFile p) = ReadFile (f p)"
| "scope_call f (ReadTextFile p) = ReadTextFile (f p)"
| "scope_call f (ReadDir p) = ReadDir (f p)"
| "scope_call f (ReadDirWithTypes p) = ReadDirWithTypes (f p)"
| "scope_call f (WriteFile p b) = WriteFile (f p) b"
| "scope_call f (CreateDir p) = CreateDir (f p)"
| "scope_call f (Mkdir p r) = Mkdir (f p) r"
| "scope_call f (ExistsCall p) = ExistsCall (f p)"
| "scope_call f (StatCall p) = StatCall (f p)"
| "scope_call f (RemoveFile p) = RemoveFile (f p)"
| "scope_call f (RemoveDir p) = RemoveDir (f p)"
| "scope_call f (Rename p q) = Rename (f p) (f q)"
| "scope_call f (Realpath p) = Realpath (f p)"
| "scope_call f (Symlink t l) = Symlink t (f l)"
| "scope_call f (Readlink p) = Readlink (f p)"
| "scope_call f (Lstat p) = Lstat (f p)"
| "scope_call f (Link p q) = Link (f p) (f q)"
| "scope_call f (Chmod p m) = Chmod (f p) m"
| "scope_call f (Chown p u g) = Chown (f p) u g"
| "scope_call f (Utimes p a m) = Utimes (f p) a m"
| "scope_call f (Truncate p n) = Truncate (f p) n"
| "scope_call f (Pread p off len) = Pread (f p) off len"
| "scope_call f (Pwrite p off b) = Pwrite (f p) off b"
| "scope_call f c = c"

definition createProcessScopedFileSystem :: "int \<Rightarrow> 's VirtualFileSystem \<Rightarrow> pid \<Rightarrow> 's VirtualFileSystem" where
  "createProcessScopedFileSystem now fs pid =
     (let selfTarget = ''/proc/'' @ dec (nat pid)
      in \<lparr>vo_call = (\<lambda>c s.
            case c of
              Realpath p \<Rightarrow>
                if proc_normalizePath p = ''/proc/self'' then (Inr (RPath selfTarget), s)
                else vo_call fs (Realpath (resolveSelf p pid)) s
            | Readlink p \<Rightarrow>
                if proc_normalizePath p = ''/proc/self'' then (Inr (RPath selfTarget), s)
                else vo_call fs (Readlink (resolveSelf p pid)) s
            | Lstat p \<Rightarrow>
                if proc_normalizePath p = ''/proc/self'' then (Inr (RStat (pl_linkStat now ''self'' selfTarget)), s)
                else vo_call fs (Lstat (resolveSelf p pid)) s
            | Fsync _ \<Rightarrow> (Inl ENOSYS, s)
            | Copy _ _ \<Rightarrow> (Inl ENOSYS, s)
            | ReadDirStat _ \<Rightarrow> (Inl ENOSYS, s)
            | PrepareOpenSync _ _ \<Rightarrow> (Inl ENOSYS, s)
            | _ \<Rightarrow> vo_call fs (scope_call (\<lambda>p. resolveSelf p pid) c) s),
          vo_has = (\<lambda>_. False)\<rparr>)"

subsection \<open>The copies agree\<close>

lemma pl_procIno_eq: "pl_procIno = procIno"
  by (simp add: fun_eq_iff pl_procIno_def procIno_def PL_INO_BASE_def PROC_INO_BASE_def foldl_conv_fold)

lemma layer_stats_eq:
  "pl_dirStat = proc_dirStat" "pl_fileStat = proc_fileStat" "pl_linkStat = proc_linkStat"
  by (simp_all add: fun_eq_iff pl_dirStat_def pl_fileStat_def pl_linkStat_def proc_dirStat_def
      proc_fileStat_def proc_linkStat_def proc_stat_def pl_procIno_eq)

lemma layer_texts_eq:
  "pl_encodeText = encodeText" "pl_encodeEnviron = encodeEnviron" "pl_resolveExecPath = resolveExecPath"
  "pl_kernelHostname = kernelHostname"
  by (auto simp: fun_eq_iff pl_encodeText_def encodeText_def pl_encodeEnviron_def encodeEnviron_def Let_def
      pl_resolveExecPath_def resolveExecPath_def pl_kernelHostname_def kernelHostname_def split: list.split option.split)

lemma layer_entries_eq:
  "PL_PID_ENTRIES = PROC_PID_ENTRIES" "PL_SYS_ENTRIES = PROC_SYS_ENTRIES"
  "PL_SYS_KERNEL_ENTRIES = PROC_SYS_KERNEL_ENTRIES"
  by (simp_all add: PL_PID_ENTRIES_def PROC_PID_ENTRIES_def PL_SYS_ENTRIES_def PROC_SYS_ENTRIES_def
      PL_SYS_KERNEL_ENTRIES_def PROC_SYS_KERNEL_ENTRIES_def entry_def linkEntry_def)

lemma foldl_snoc_map: "foldl (\<lambda>ys x. ys @ [f x]) acc xs = acc @ map f xs"
  by (induction xs arbitrary: acc) simp_all

lemma layer_tables_eq:
  "pl_getProcess = getProcess" "pl_listPids = listPids" "pl_listOpenFds = listOpenFds"
  "pl_getFdPath = getFdPath" "pl_fdEntry v pid fd \<noteq> None \<longleftrightarrow> hasFd v pid fd"
  by (auto simp: fun_eq_iff pl_getProcess_def getProcess_def pl_listPids_def listPids_def pl_listOpenFds_def
      listOpenFds_def pl_getFdPath_def getFdPath_def pl_fdEntry_def hasFd_def foldl_snoc_map comp_def
      split: option.split bind_splits)

lemma single_iff: "length rest = 1 \<and> rest ! 0 = x \<longleftrightarrow> rest = [x]"
  by (auto simp: length_Suc_conv)

lemma layer_link_eq: "pl_getLinkTarget = getLinkTarget"
  unfolding fun_eq_iff pl_getLinkTarget_def getLinkTarget_def layer_tables_eq layer_texts_eq single_iff by simp

lemma layer_files_eq:
  "pl_getLinkTarget = getLinkTarget" "pl_getProcFile = getProcFile" "pl_isLink = isProcLink"
  "pl_linkSeed = pidSeed"
  by (rule layer_link_eq)
    (auto simp: fun_eq_iff pl_getProcFile_def getProcFile_def pl_isLink_def isProcLink_def pl_linkSeed_def
      pidSeed_def single_iff layer_tables_eq layer_texts_eq layer_link_eq length_Suc_conv conj_disj_distribL)

lemmas layer_copies [simp] =
  layer_stats_eq layer_texts_eq layer_entries_eq layer_tables_eq(1-4) layer_files_eq

subsection \<open>Normalisation\<close>

lemma clean_segs_slash: "clean_segs (''/'' @ p) = clean_segs p"
  by (simp add: clean_segs_def)

lemma cleaned_segs:
  "norm_loop [] (splitOn (CHR ''/'') (if length (collapseSlashes q) > 1 \<and> endsWith (collapseSlashes q) ''/''
     then butlast (collapseSlashes q) else collapseSlashes q)) = clean_segs q"
  (is "norm_loop [] (splitOn _ ?c) = _")
proof -
  have "segments ?c = segments q"
    using segments_snoc [of "butlast (collapseSlashes q)"] butlast_slash [of "collapseSlashes q"] segments_collapse [of q]
    by (cases "length (collapseSlashes q) > 1 \<and> endsWith (collapseSlashes q) ''/''") auto
  then show ?thesis unfolding clean_segs_def norm_segments [of ?c] norm_segments [of q] by simp
qed

lemma proc_normalizePath_eq: "proc_normalizePath p = normalizePath p"
proof (cases "p = ''''")
  case False
  have "clean_segs (if startsWith p ''/'' then p else ''/'' @ p) = clean_segs p" using clean_segs_slash [of p] by (simp split: if_split)
  then have "proc_normalizePath p = ''/'' @ joinWith ''/'' (clean_segs p)"
    using False cleaned_segs [of "if startsWith p ''/'' then p else ''/'' @ p"]
    by (simp only: proc_normalizePath_def Let_def if_False) (cases "clean_segs p"; simp)
  then show ?thesis by (simp only: normalizePath_segs)
qed (simp add: proc_normalizePath_def normalizePath_def)

lemma proc_normalizePath_idem [simp]: "proc_normalizePath (proc_normalizePath p) = proc_normalizePath p"
  by (simp add: proc_normalizePath_eq normalizePath_idem)

subsection \<open>The layer answers as the mounted backend\<close>

text \<open>The calls on one path both answer below \<^verbatim>\<open>/proc\<close>, as functions of the path.\<close>

definition proc_calls :: "int \<Rightarrow> int \<Rightarrow> bytes \<Rightarrow> u32 \<Rightarrow> (path \<Rightarrow> vfs_call) list" where
  "proc_calls a b data mode = [ReadFile, ReadTextFile, \<lambda>p. Pread p a b, ReadDir, ReadDirWithTypes, ExistsCall, Lstat,
     Readlink, \<lambda>p. WriteFile p data, CreateDir, \<lambda>p. Mkdir p True, RemoveFile, RemoveDir, \<lambda>p. Symlink p p,
     \<lambda>p. Rename p p, \<lambda>p. Link p p, \<lambda>p. Chmod p mode, \<lambda>p. Chown p a b, \<lambda>p. Utimes p a b, \<lambda>p. Truncate p a,
     \<lambda>p. Pwrite p a data]"

definition proc_rest :: "path \<Rightarrow> path \<Rightarrow> bool" where
  "proc_rest p r \<longleftrightarrow> proc_normalizePath p = ''/proc/'' @ r \<and> r \<noteq> '''' \<and> r \<noteq> ''mounts'' \<and> r \<noteq> ''self''"

lemma proc_restD:
  assumes "proc_rest p r"
  shows "proc_normalizePath p = ''/proc/'' @ r" "r \<noteq> ''''" "r \<noteq> ''mounts''" "r \<noteq> ''self''"
    "proc_normalizePath (''/proc/'' @ r) = ''/proc/'' @ r"
  using assms proc_normalizePath_idem [of p] by (simp_all add: proc_rest_def)

lemma is_proc: "proc_rest p r \<Longrightarrow> isProcPath (proc_normalizePath p)"
  by (frule proc_restD(1), drule proc_restD(5)) (simp add: isProcPath_def startsWith_def)

lemma parse_n: "proc_rest p r \<Longrightarrow> parseProcPath (proc_normalizePath p) = parsePidPath r"
  using proc_restD [of p r] by (simp add: parseProcPath_def parsePidPath_def startsWith_def Let_def)

lemma readFile_n: "proc_rest p r \<Longrightarrow> layer_readFile_proc v (proc_normalizePath p) = proc_readFile v r"
  unfolding layer_readFile_proc_def layer_copies
  using proc_restD [of p r] parse_n [of p r] by (simp add: proc_readFile_def)

lemma readDir_n: "proc_rest p r \<Longrightarrow> layer_readDir_proc v (proc_normalizePath p) = proc_readDirWithTypes v r"
  unfolding layer_readDir_proc_def layer_copies
  using proc_restD [of p r] parse_n [of p r] by (simp add: proc_readDirWithTypes_def)

lemma exists_n: "proc_rest p r \<Longrightarrow> layer_exists_proc v (proc_normalizePath p) = proc_exists v r"
  unfolding layer_exists_proc_def layer_tables_eq(5)
  using proc_restD [of p r] parse_n [of p r] by (simp add: proc_exists_def isFixedProc_def)

text \<open>Where a path is no link, or links are not followed, the status is the backend's.\<close>

definition link_rest :: "path \<Rightarrow> bool" where
  "link_rest r \<longleftrightarrow> (case parsePidPath r of None \<Rightarrow> False | Some (pid, rest) \<Rightarrow> isProcLink rest)"

lemma stat_n:
  assumes "proc_rest p r" "\<not> follow \<or> \<not> link_rest r"
  shows "layer_getProcStat (Suc k) now fs v (proc_normalizePath p) follow s = Some (getProcStat now v r follow, s)"
  unfolding layer_getProcStat.simps layer_copies
  using proc_restD [OF assms(1)] parse_n [OF assms(1)] assms(2)
  by (auto simp: getProcStat_def Let_def mapR_def link_rest_def split: option.splits sum.splits)

lemma realpath_n:
  assumes "proc_rest p r"
  shows "layer_realpath_proc v (proc_normalizePath p) =
    mapR (\<lambda>q. if link_rest r then q else ''/proc/'' @ q) (proc_realpath v r)"
  unfolding layer_realpath_proc_def layer_copies
  using proc_restD [OF assms] parse_n [OF assms] special_not_pid
  by (auto simp: proc_realpath_def isFixedProc_def mapR_def link_rest_def isProcLink_def split: option.splits sum.splits)

lemma layer_call_n:
  assumes pr: "proc_rest p r" and mk: "mk \<in> set (proc_calls a b data mode)"
  shows "pl_call (Suc k) now fs v (mk p) s = (procfs_call now v (mk r), s)"
proof -
  note n = proc_restD(1) [OF pr] and r = proc_restD(2,3,4) [OF pr]
  have fixed: "''/proc/'' @ r \<noteq> ''/proc/self''" using r by simp
  have rl: "pl_readlink fs v p s = (mapR RPath (proc_readlink v r), s)"
    using is_proc [OF pr] parse_n [OF pr] r fixed
    by (auto simp: pl_readlink_def proc_readlink_def n Let_def mapR_def split: option.split)
  have "rejectMutation (proc_normalizePath p) = Inl EPERM" using is_proc [OF pr] by (simp add: rejectMutation_def)
  then have ch: "pl_change fs f p s = (Inl EPERM, s)" "pl_change2 fs g p p s = (Inl EPERM, s)" for f g
    by (simp_all add: pl_change_def pl_change2_def Let_def)
  have rd: "pl_readFile fs v p s = (mapR RBytes (proc_readFile v r), s)"
    using is_proc [OF pr] readFile_n [OF pr] by (simp add: pl_readFile_def)
  have dr: "pl_readDirWithTypes fs v p s = (mapR REntries (proc_readDirWithTypes v r), s)"
    using is_proc [OF pr] readDir_n [OF pr] by (simp add: pl_readDirWithTypes_def)
  have ex: "pl_exists fs v p s = (Inr (RBool (proc_exists v r)), s)"
    using is_proc [OF pr] exists_n [OF pr] by (simp add: pl_exists_def)
  have ls: "pl_stat (Suc k) now fs v False p s = (mapR RStat (getProcStat now v r False), s)"
    using is_proc [OF pr] stat_n [OF pr, of False k now fs v s] by (simp add: pl_stat_def del: layer_getProcStat.simps)
  have tx: "pl_readTextFile fs v p s = (mapR (\<lambda>b. RText (textDecode b)) (proc_readFile v r), s)"
    "pl_pread fs v p a b s = (mapR RBytes (proc_pread v r a b), s)"
    "pl_readDir fs v p s = (mapR (\<lambda>es. RNames (map vd_name es)) (proc_readDirWithTypes v r), s)"
    by (auto simp: pl_readTextFile_def pl_pread_def pl_readDir_def rd dr proc_pread_def on_bytes_def mapR_def split: sum.split)
  show ?thesis using mk rl ch rd dr ex ls tx by (auto simp: proc_calls_def)
qed




subsection \<open>Depth of the stack\<close>

lemma layer_stat_terminates:
  assumes "\<And>pid rest target. getLinkTarget v pid rest = Inr target \<Longrightarrow> \<not> startsWith target ''/proc/''"
  shows "layer_getProcStat (Suc 0) now fs v p follow s \<noteq> None"
  using assms by (auto simp: Let_def split: option.split sum.split prod.split vfs_reply.split)

text \<open>
  A descriptor whose path is its own proc link (a process that opened \<^verbatim>\<open>/proc/1/fd/3\<close> as descriptor 3)
  makes \<^verbatim>\<open>stat\<close> of that link recurse until the stack is exhausted.
\<close>

lemma layer_stat_loops:
  assumes "getLinkTarget v 1 [''fd'', ''3''] = Inr ''/proc/1/fd/3''" and "getProcess v 1 = Inr pe"
  shows "layer_getProcStat k now fs v ''/proc/1/fd/3'' True s = None"
proof (induction k)
  case (Suc k)
  have n: "proc_normalizePath ''/proc/1/fd/3'' = ''/proc/1/fd/3''" by code_simp
  have "parseProcPath ''/proc/1/fd/3'' = Some (1, [''fd'', ''3''])" by code_simp
  then show ?case
    using Suc assms by (simp add: n Let_def isProcLink_def startsWith_def del: One_nat_def)
qed simp

subsection \<open>Process-scoped paths\<close>

fun scoped_segs :: "pid \<Rightarrow> string list \<Rightarrow> string list" where
  "scoped_segs pid (a # b # r) = (if a = ''proc'' \<and> b = ''self'' then a # dec (nat pid) # r else a # b # r)"
| "scoped_segs pid segs = segs"

lemma dec_clean: "clean_seg (dec n)"
proof -
  have "isDigit c" if "c \<in> set (dec n)" for c using dec_is_digits(1) [of n] that by (simp add: list_all_iff)
  then have "CHR ''.'' \<notin> set (dec n)" by (force simp: isDigit_def)
  then show ?thesis using dec_is_digits(2) [of n] dec_slashless [of n] by (auto simp: clean_seg_def)
qed

lemma joinWith_Cons: "joinWith sep (s # ss) = s @ (if ss = [] then [] else sep @ joinWith sep ss)"
  by (cases ss) simp_all

lemma self_cases:
  obtains (self) r where "clean_segs p = [''proc'', ''self''] @ r" | (other) "\<not> prefix [''proc'', ''self''] (clean_segs p)"
  by (auto simp: prefix_def)

lemma resolveSelf_other:
  assumes "\<not> prefix [''proc'', ''self''] (clean_segs p)" shows "resolveSelf p pid = normalizePath p"
proof -
  have "\<not> (pathOfSegs (clean_segs p) = pathOfSegs [''proc'', ''self''] \<or>
      startsWith (pathOfSegs (clean_segs p)) (pathOfSegs [''proc'', ''self''] @ ''/''))"
    using assms by (subst startsWith_segs) (simp_all add: clean_segs_clean clean_seg_def)
  then show ?thesis
    by (simp add: resolveSelf_def proc_normalizePath_eq normalizePath_pathOfSegs pathOfSegs_def Let_def)
qed

lemma resolveSelf_self:
  assumes "clean_segs p = [''proc'', ''self''] @ r" shows "resolveSelf p pid = pathOfSegs (''proc'' # dec (nat pid) # r)"
proof -
  have n: "proc_normalizePath p = ''/proc/self'' @ (if r = [] then '''' else ''/'' @ joinWith ''/'' r)"
    by (simp add: proc_normalizePath_eq normalizePath_segs assms joinWith_Cons)
  show ?thesis
    by (cases "r = []") (simp_all add: resolveSelf_def n Let_def startsWith_def pathOfSegs_def joinWith_Cons)
qed

text \<open>
  The file system a process is given: a path below \<^verbatim>\<open>/proc/self\<close> is the same path below the process's own
  directory, every other path keeps its segments, and the call goes to the file system below with
  the rewritten paths. It offers no \<^verbatim>\<open>prepareOpenSync\<close>, \<^verbatim>\<open>fsync\<close>, \<^verbatim>\<open>copy\<close> and \<^verbatim>\<open>readDirStat\<close>.
\<close>

theorem process_scoped_self:
  "clean_segs (resolveSelf p pid) = scoped_segs pid (clean_segs p) \<and> normalizePath (resolveSelf p pid) = resolveSelf p pid \<and>
   vo_call (createProcessScopedFileSystem now fs pid) (ReadFile p) s = vo_call fs (ReadFile (resolveSelf p pid)) s \<and>
   vo_call (createProcessScopedFileSystem now fs pid) (Rename p q) s =
     vo_call fs (Rename (resolveSelf p pid) (resolveSelf q pid)) s \<and>
   \<not> vo_has (createProcessScopedFileSystem now fs pid) x"
proof -
  have "clean_segs (resolveSelf p pid) = scoped_segs pid (clean_segs p) \<and> normalizePath (resolveSelf p pid) = resolveSelf p pid"
  proof (cases p rule: self_cases)
    case (self r)
    have "list_all clean_seg (''proc'' # dec (nat pid) # r)"
      using clean_segs_clean [of p] dec_clean by (simp add: self clean_seg_def)
    then have "clean_segs (pathOfSegs (''proc'' # dec (nat pid) # r)) = ''proc'' # dec (nat pid) # r"
      unfolding pathOfSegs_def by (rule clean_segs_join)
    then show ?thesis by (simp add: self resolveSelf_self normalizePath_pathOfSegs)
  next
    case other
    then have "scoped_segs pid (clean_segs p) = clean_segs p"
      by (cases "(pid, clean_segs p)" rule: scoped_segs.cases) auto
    with other show ?thesis by (simp add: resolveSelf_other normalizePath_idem)
  qed
  then show ?thesis by (simp add: createProcessScopedFileSystem_def Let_def)
qed

end
