(* ===== verification/Kernel_State.thy ===== *)
theory Kernel_State
  imports Pty File_Lock Timer_Table Command_Registry Proc_Layer Pipe_Manager Socket_Table
begin

section \<open>The kernel: state, files, exit\<close>

text \<open>
  \<^verbatim>\<open>kernel/kernel.ts\<close>: the object that owns every table. Its state extends the process table, so that
  the operations of \<^verbatim>\<open>process-table.ts\<close> run on it as they are, with the kernel's own hooks: the hook of an
  exit closes descriptors, sockets and timers in the middle of \<open>markExited\<close>, as in the code.

  Drivers and signal handlers are code of others. What they do when the kernel calls them is a script of
  process-table calls (\<open>kc_script\<close>, \<open>kc_spawn\<close>); \<open>kernelEnv\<close> builds the hooks for a bounded nesting of such
  calls, and \<open>None\<close> stands for a nesting that is deeper.

  Code after an \<^verbatim>\<open>await\<close> is a task: the call issues its request to the file system and suspends, and a later
  turn continues it with the answer. Promises of pipes, terminals and locks are the numbers these tables
  hand out. The signals a write to a terminal or its closing raises are sent when that operation is done;
  the count of signalled processes that line editing asks for is taken from the state before it.
\<close>

subsection \<open>Constants\<close>

definition SIGPIPE :: int where "SIGPIPE = 13"
definition F_DUPFD :: int where "F_DUPFD = 0"
definition F_GETFD :: int where "F_GETFD = 1"
definition F_SETFD :: int where "F_SETFD = 2"
definition F_GETFL :: int where "F_GETFL = 3"
definition F_DUPFD_CLOEXEC :: int where "F_DUPFD_CLOEXEC = 1030"
definition FD_CLOEXEC :: u32 where "FD_CLOEXEC = 1"
definition SEEK_SET :: int where "SEEK_SET = 0"
definition SEEK_CUR :: int where "SEEK_CUR = 1"
definition SEEK_END :: int where "SEEK_END = 2"

subsection \<open>State\<close>

text \<open>Where the output of a process goes: the callback objects of the code.\<close>

datatype sink = SinkPipe nat "pid option" | SinkPty nat | SinkHost nat | SinkBuffer pid bool

record ProcOutputs =
  po_ctxStdout :: "sink option"
  po_ctxStderr :: "sink option"
  po_stdout :: "sink option"
  po_stderr :: "sink option"

text \<open>What a call answers; the last constructors are promises.\<close>

datatype kreply =
    KUnit
  | KFd fdnum
  | KFds fdnum fdnum
  | KPtyFds fdnum fdnum string
  | KNum int
  | KFlags u32
  | KBool bool
  | KPid pid
  | KBytes bytes
  | KStr string
  | KNames "string list"
  | KEnv "(string, string) jsmap"
  | KFdStat FDStat
  | KVfsStat VirtualStat
  | KPoll PollState bool
  | KTermios Termios
  | KWait WaitResult
  | KPromise nat
  | KPipeRead nat
  | KPipeWrite nat
  | KPtyRead nat
  | KLock nat
  | KPollWait "nat \<times> nat"

text \<open>The rest of an asynchronous method, with the answer it awaited.\<close>

datatype ktask =
    TFail exn
  | TReturn kreply
  | TRead dref bytes
  | TSeek dref int int
  | TContent dref bytes bytes
  | TWritten dref int nat
  | TChmodded dref int nat
  | TChdir pid path VirtualStat
  | TMkdir path u32

datatype kernel_event =
    KPipe pipe_event
  | KSettled nat "exn + kreply"
  | KOutput sink bytes

record 's Kernel = ProcessTable +
  k_mounts :: "'s MountTable"
  k_fds :: FDTableManager
  k_pipes :: PipeManager
  k_ptys :: PtyManager
  k_locks :: FileLockManager
  k_registry :: CommandRegistry
  k_sockets :: SockTable
  k_timers :: TimerTable
  k_drivers :: "RuntimeDriver list"
  k_driverPids :: "(string, pid list) jsmap"
  k_env :: "(string, string) jsmap"
  k_cwd :: path
  k_disposed :: bool
  k_outputs :: "(pid, ProcOutputs) jsmap"
  k_tasks :: "(nat, ktask) jsmap"
  k_nextTask :: nat
  k_events :: "kernel_event list"

type_synonym ('s, 'a) kact = "('s Kernel, 'a) act"

type_synonym 's KernelEnv = "('s, unit) Kernel_ext ProcEnv"

text \<open>The options of the kernel and the code it is given: file systems (the root is number 0, the device
  and proc backends 1 and 2), the random source, drivers.\<close>

record 's KernelConfig =
  kc_objs :: "'s backends"
  kc_random :: "nat \<Rightarrow> bytes"
  kc_permissions :: "Permissions option"
  kc_maxProcesses :: "int option"
  kc_hostname :: "string option"
  kc_tryResolve :: "string \<Rightarrow> string \<Rightarrow> bool"
  kc_script :: script
  kc_spawn :: "pid \<Rightarrow> proc_call list"

definition resA :: "'a res \<Rightarrow> ('s, 'a) act" where
  "resA r = (case r of Inl e \<Rightarrow> throwA (KErr e) | Inr x \<Rightarrow> ret x)"

definition logK :: "kernel_event list \<Rightarrow> 's Kernel \<Rightarrow> 's Kernel" where
  "logK evs K = K\<lparr>k_events := k_events K @ evs\<rparr>"

subsection \<open>The file system\<close>

definition procView :: "'s KernelConfig \<Rightarrow> 's Kernel \<Rightarrow> ProcView" where
  "procView cf K = \<lparr>pv_procs = ProcessTable.truncate K, pv_fds = k_fds K, pv_hostname = kc_hostname cf,
     pv_mounts = Some (getMounts (k_mounts K))\<rparr>"

definition kernelObjs :: "'s KernelConfig \<Rightarrow> int \<Rightarrow> 's Kernel \<Rightarrow> 's backends" where
  "kernelObjs cf now K i =
     (if i = 1 then createDeviceBackend now (kc_random cf)
      else if i = 2 then createProcBackend now (procView cf K)
      else kc_objs cf i)"

definition mountFileSystem :: "'s backends \<Rightarrow> 's MountTable VirtualFileSystem" where
  "mountFileSystem objs = \<lparr>vo_call = mt_call objs, vo_has = (\<lambda>_. True)\<rparr>"

definition k_vfs :: "'s KernelConfig \<Rightarrow> int \<Rightarrow> 's Kernel \<Rightarrow> 's MountTable VirtualFileSystem" where
  "k_vfs cf now K =
     (let fs = mountFileSystem (kernelObjs cf now K)
      in case kc_permissions cf of None \<Rightarrow> fs | Some p \<Rightarrow> wrapFileSystem fs (Some p))"

definition vfsCall :: "'s KernelConfig \<Rightarrow> 's KernelEnv \<Rightarrow> vfs_call \<Rightarrow> ('s, vfs_reply res) kact" where
  "vfsCall cf E c K =
     (case vo_call (k_vfs cf (env_now E) K) c (k_mounts K) of
        (r, mt) \<Rightarrow> ret r (K\<lparr>k_mounts := mt\<rparr>))"

text \<open>The promise of a call: the request is issued, the answer waits for a turn.\<close>

definition suspendAt :: "nat \<Rightarrow> ktask \<Rightarrow> ('s, unit) kact" where
  "suspendAt tok task = modifyA (\<lambda>K. K\<lparr>k_tasks := mput tok task (k_tasks K)\<rparr>)"

definition k_suspend :: "ktask \<Rightarrow> ('s, kreply) kact" where
  "k_suspend task K =
     seqA (suspendAt (k_nextTask K) task) (ret (KPromise (k_nextTask K))) (K\<lparr>k_nextTask := Suc (k_nextTask K)\<rparr>)"

definition k_settle :: "nat \<Rightarrow> exn + kreply \<Rightarrow> ('s, unit) kact" where
  "k_settle tok r = modifyA (\<lambda>K. logK [KSettled tok r] K)"

definition awaited :: "(vfs_reply \<Rightarrow> ktask) \<Rightarrow> vfs_reply res \<Rightarrow> ktask" where
  "awaited k r = (case r of Inl e \<Rightarrow> TFail (KErr e) | Inr x \<Rightarrow> k x)"

definition awaitVfs :: "'s KernelConfig \<Rightarrow> 's KernelEnv \<Rightarrow> vfs_call \<Rightarrow> (vfs_reply res \<Rightarrow> ktask) \<Rightarrow> ('s, kreply) kact" where
  "awaitVfs cf E c k = andThen (vfsCall cf E c) (\<lambda>r. k_suspend (k r))"

definition bytesOf :: "vfs_reply \<Rightarrow> bytes" where
  "bytesOf r = (case r of RBytes b \<Rightarrow> b | _ \<Rightarrow> [])"

subsection \<open>Descriptors\<close>

definition heapOf :: "('s, 'z) Kernel_scheme \<Rightarrow> dref \<Rightarrow> FileDescription option" where
  "heapOf K = de_heap (fm_env (k_fds K))"

definition updDesc :: "dref \<Rightarrow> (FileDescription \<Rightarrow> FileDescription) \<Rightarrow> 's Kernel \<Rightarrow> 's Kernel" where
  "updDesc r f K = K\<lparr>k_fds := (k_fds K)\<lparr>fm_env := (fm_env (k_fds K))\<lparr>de_heap :=
     (heapOf K)(r := map_option f (heapOf K r))\<rparr>\<rparr>\<rparr>"

text \<open>\<^verbatim>\<open>getTable\<close>, and an operation on the table it returns.\<close>

definition withTable :: "pid \<Rightarrow> (ProcessFDTable \<Rightarrow> ('s, 'a) kact) \<Rightarrow> ('s, 'a) kact" where
  "withTable pid k K = (case fm_get pid (k_fds K) of None \<Rightarrow> throwA (KErr ESRCH) K | Some t \<Rightarrow> k t K)"

definition onTable :: "pid \<Rightarrow> (fd_state \<Rightarrow> ('r \<times> fd_state) res) \<Rightarrow> ('s, 'r) kact" where
  "onTable pid f K =
     (case fm_with_table pid f (k_fds K) of
        Inl e \<Rightarrow> throwA (KErr e) K
      | Inr (r, m) \<Rightarrow> ret r (K\<lparr>k_fds := m\<rparr>))"

subsection \<open>Signals from pipes and terminals\<close>

definition ptySignal :: "'s KernelEnv \<Rightarrow> pid \<Rightarrow> int \<Rightarrow> bool \<Rightarrow> ('s, nat) kact" where
  "ptySignal E pgid sig excludeLeaders K =
     (case (if excludeLeaders then killGroupExcludeLeaders E pgid sig
            else andThen (pt_kill E (- pgid) sig) (\<lambda>_. ret 0)) K of
        None \<Rightarrow> None
      | Some (Inl _, K1) \<Rightarrow> Some (Inr 0, K1)
      | Some (Inr n, K1) \<Rightarrow> Some (Inr n, K1))"

definition ptyHook :: "'s KernelEnv \<Rightarrow> 's Kernel \<Rightarrow> signal_hook" where
  "ptyHook E K = Some (\<lambda>pgid sig excl. case ptySignal E pgid sig excl K of Some (Inr n, _) \<Rightarrow> Some n | _ \<Rightarrow> None)"

fun sentSignals :: "pty_event list \<Rightarrow> (pid \<times> int \<times> bool) list" where
  "sentSignals [] = []"
| "sentSignals (SignalSent p g x # evs) = (p, g, x) # sentSignals evs"
| "sentSignals (_ # evs) = sentSignals evs"

primrec sendSignals :: "'s KernelEnv \<Rightarrow> (pid \<times> int \<times> bool) list \<Rightarrow> ('s, unit) kact" where
  "sendSignals E [] = ret ()"
| "sendSignals E (s # ss) =
     seqA (case s of (p, g, x) \<Rightarrow> andThen (ptySignal E p g x) (\<lambda>_. ret ())) (sendSignals E ss)"

definition newSignals :: "PtyState \<Rightarrow> PtyState \<Rightarrow> (pid \<times> int \<times> bool) list" where
  "newSignals st st' = sentSignals (drop (length (py_log st)) (py_log st'))"

definition k_ptyWrite :: "'s KernelEnv \<Rightarrow> nat \<Rightarrow> bytes \<Rightarrow> ('s, nat) kact" where
  "k_ptyWrite E descId data K =
     (case pty_find (k_ptys K) descId of
        None \<Rightarrow> throwA (KErr EBADF) K
      | Some (side, st) \<Rightarrow>
          (case pty_write (ptyHook E K) descId data (k_ptys K) of
             (r, m) \<Rightarrow>
               seqA (sendSignals E (case mget (pty_states m) (py_id st) of None \<Rightarrow> [] | Some st' \<Rightarrow> newSignals st st'))
                 (resA r) (K\<lparr>k_ptys := m\<rparr>)))"

definition k_ptyClose :: "'s KernelEnv \<Rightarrow> nat \<Rightarrow> ('s, unit) kact" where
  "k_ptyClose E descId K =
     (case pty_find (k_ptys K) descId of
        None \<Rightarrow> ret () K
      | Some (side, st) \<Rightarrow>
          sendSignals E (newSignals st (closeEnd (ptyHook E K) side st))
            (K\<lparr>k_ptys := pty_close (ptyHook E K) descId (k_ptys K)\<rparr>))"

text \<open>The events of a pipe operation; a broken pipe signals the writer, errors of the signal are dropped.\<close>

primrec pipeEvents :: "'s KernelEnv \<Rightarrow> pipe_event list \<Rightarrow> ('s, unit) kact" where
  "pipeEvents E [] = ret ()"
| "pipeEvents E (ev # evs) =
     seqA (modifyA (logK [KPipe ev]))
       (seqA (case ev of BrokenPipe p \<Rightarrow> swallowA (pt_kill E p SIGPIPE) | _ \<Rightarrow> ret ()) (pipeEvents E evs))"

definition k_pipeWrite :: "'s KernelEnv \<Rightarrow> nat \<Rightarrow> bytes \<Rightarrow> pid option \<Rightarrow> ('s, write_outcome) kact" where
  "k_pipeWrite E descId data pid K =
     (case pm_write (fm_env (k_fds K)) descId data pid (k_pipes K) of
        (evs, r, m) \<Rightarrow> seqA (pipeEvents E evs) (resA r) (K\<lparr>k_pipes := m\<rparr>))"

definition k_pipeClose :: "'s KernelEnv \<Rightarrow> nat \<Rightarrow> ('s, unit) kact" where
  "k_pipeClose E descId K =
     (case pm_close descId (k_pipes K) of (evs, m) \<Rightarrow> pipeEvents E evs (K\<lparr>k_pipes := m\<rparr>))"

subsection \<open>Closing\<close>

definition releaseDescriptionInode :: "'s KernelConfig \<Rightarrow> 's KernelEnv \<Rightarrow> FileDescription \<Rightarrow> ('s, unit) kact" where
  "releaseDescriptionInode cf E d K =
     (if vo_has (k_vfs cf (env_now E) K) OptFsync
      then andThen (vfsCall cf E (Fsync (desc_path d))) (\<lambda>_. ret ()) K else ret () K)"

definition releaseDescription :: "'s KernelConfig \<Rightarrow> 's KernelEnv \<Rightarrow> FileDescription \<Rightarrow> ('s, unit) kact" where
  "releaseDescription cf E d =
     seqA (releaseDescriptionInode cf E d)
    (seqA (\<lambda>K. if isPipe (k_pipes K) (desc_id d) then k_pipeClose E (desc_id d) K else ret () K)
    (seqA (\<lambda>K. if isPty (k_ptys K) (desc_id d) then k_ptyClose E (desc_id d) K else ret () K)
          (modifyA (\<lambda>K. K\<lparr>k_locks := releaseByDescription (desc_id d) (k_locks K)\<rparr>))))"

text \<open>What follows the closing of a descriptor: nothing while the description is still referenced.\<close>

definition dropDescription :: "'s KernelConfig \<Rightarrow> 's KernelEnv \<Rightarrow> dref \<Rightarrow> ('s, unit) kact" where
  "dropDescription cf E r K =
     (case heapOf K r of
        None \<Rightarrow> ret () K
      | Some d \<Rightarrow> if desc_refCount d \<le> 0 then releaseDescription cf E d K else ret () K)"

datatype managed = MPipe | MPty | MLock

definition managedType :: "'s Kernel \<Rightarrow> nat \<Rightarrow> managed option" where
  "managedType K descId =
     (if isPipe (k_pipes K) descId then Some MPipe
      else if isPty (k_ptys K) descId then Some MPty
      else if hasLock (k_locks K) descId then Some MLock else None)"

definition descIdOf :: "'s Kernel \<Rightarrow> FDEntry \<Rightarrow> nat" where
  "descIdOf K e = (case heapOf K (ent_desc e) of None \<Rightarrow> 0 | Some d \<Rightarrow> desc_id d)"

primrec flushDescriptions :: "'s KernelConfig \<Rightarrow> 's KernelEnv \<Rightarrow> dref list \<Rightarrow> ('s, unit) kact" where
  "flushDescriptions cf E [] = ret ()"
| "flushDescriptions cf E (r # rs) =
     seqA (\<lambda>K. case heapOf K r of
                 None \<Rightarrow> ret () K
               | Some d \<Rightarrow> if desc_refCount d \<le> 0 then releaseDescriptionInode cf E d K else ret () K)
       (flushDescriptions cf E rs)"

definition closeManaged :: "'s KernelEnv \<Rightarrow> managed \<Rightarrow> nat \<Rightarrow> ('s, unit) kact" where
  "closeManaged E ty descId =
     (case ty of
        MPipe \<Rightarrow> k_pipeClose E descId
      | MPty \<Rightarrow> k_ptyClose E descId
      | MLock \<Rightarrow> modifyA (\<lambda>K. K\<lparr>k_locks := releaseByDescription descId (k_locks K)\<rparr>))"

primrec closeManagedAll :: "'s KernelEnv \<Rightarrow> (nat \<times> dref \<times> managed) list \<Rightarrow> ('s, unit) kact" where
  "closeManagedAll E [] = ret ()"
| "closeManagedAll E (x # xs) =
     seqA (\<lambda>K. case x of (descId, r, ty) \<Rightarrow>
             (case heapOf K r of
                None \<Rightarrow> ret () K
              | Some d \<Rightarrow> if desc_refCount d \<le> 0 then closeManaged E ty descId K else ret () K))
       (closeManagedAll E xs)"

definition managedDescs :: "'s Kernel \<Rightarrow> FDEntry list \<Rightarrow> (nat \<times> dref \<times> managed) list" where
  "managedDescs K es =
     concat (map (\<lambda>e. case managedType K (descIdOf K e) of None \<Rightarrow> [] | Some ty \<Rightarrow> [(descIdOf K e, ent_desc e, ty)]) es)"

definition cleanupProcessFDs :: "'s KernelConfig \<Rightarrow> 's KernelEnv \<Rightarrow> pid \<Rightarrow> ('s, unit) kact" where
  "cleanupProcessFDs cf E pid K =
     (case fm_get pid (k_fds K) of
        None \<Rightarrow> ret () K
      | Some t \<Rightarrow>
          let es = map snd (fdt_entries t);
              descriptions = foldl (\<lambda>m e. mput (descIdOf K e) (ent_desc e) m) [] es
          in seqA (flushDescriptions cf E (map snd descriptions)) (closeManagedAll E (managedDescs K es))
               (K\<lparr>k_fds := fm_remove pid (k_fds K)\<rparr>))"

subsection \<open>Hooks\<close>

definition closeSockets :: "pid \<Rightarrow> ('s, unit) kact" where
  "closeSockets pid K =
     (case closeAllForProcess pid (k_sockets K) of None \<Rightarrow> None | Some st \<Rightarrow> ret () (K\<lparr>k_sockets := st\<rparr>))"

definition onProcessExit :: "'s KernelConfig \<Rightarrow> 's KernelEnv \<Rightarrow> pid \<Rightarrow> ('s, unit) kact" where
  "onProcessExit cf E pid =
     seqA (cleanupProcessFDs cf E pid)
    (seqA (closeSockets pid) (modifyA (\<lambda>K. K\<lparr>k_timers := tt_clearAllForProcess pid (k_timers K)\<rparr>)))"

definition onProcessReap :: "pid \<Rightarrow> ('s, unit) kact" where
  "onProcessReap pid = modifyA (\<lambda>K.
     case pt_get K pid of
       None \<Rightarrow> K
     | Some e \<Rightarrow>
         (case mget (k_driverPids K) (pe_driver e) of
            None \<Rightarrow> K
          | Some ps \<Rightarrow> K\<lparr>k_driverPids := mput (pe_driver e) (sdel pid ps) (k_driverPids K)\<rparr>))"

primrec kernelEnv :: "'s KernelConfig \<Rightarrow> int \<Rightarrow> nat \<Rightarrow> nat \<Rightarrow> 's KernelEnv" where
  "kernelEnv cf now fuel 0 = \<lparr>env_now = now, env_fuel = fuel,
     env_handler = (\<lambda>_ _. divergeA), env_kill = (\<lambda>_ _. divergeA),
     env_onExit = (\<lambda>_. divergeA), env_onReap = (\<lambda>_. divergeA)\<rparr>"
| "kernelEnv cf now fuel (Suc d) = \<lparr>env_now = now, env_fuel = fuel,
     env_handler = (\<lambda>h sig. run_script (kernelEnv cf now fuel d) (sc_handler (kc_script cf) h sig)),
     env_kill = (\<lambda>p sig. run_script (kernelEnv cf now fuel d) (sc_kill (kc_script cf) p sig)),
     env_onExit = onProcessExit cf (kernelEnv cf now fuel d),
     env_onReap = onProcessReap\<rparr>"

end
