(* ===== verification/Kernel_Calls.thy ===== *)
theory Kernel_Calls
  imports Kernel_State
begin

section \<open>The kernel: system calls\<close>

text \<open>
  \<^verbatim>\<open>createKernelInterface\<close> of \<^verbatim>\<open>kernel/kernel.ts\<close>: the calls a driver makes on behalf of a process. Each
  takes the name of the driver first; a call that the code defines \<^verbatim>\<open>async\<close> answers a promise, and \<open>k_turn\<close>
  continues the method after its \<^verbatim>\<open>await\<close>.
\<close>

subsection \<open>Ownership\<close>

definition assertOwns :: "string \<Rightarrow> pid \<Rightarrow> ('s, unit) kact" where
  "assertOwns drv pid K =
     (if (case mget (k_driverPids K) drv of None \<Rightarrow> False | Some ps \<Rightarrow> pid \<in> set ps) then ret () K
      else if list_ex (\<lambda>(_, ps). pid \<in> set ps) (k_driverPids K) then throwA (KErr EPERM) K
      else throwA (KErr ESRCH) K)"

text \<open>The opening of most calls: ownership, descriptor table, entry and its description.\<close>

definition withFd :: "string \<Rightarrow> pid \<Rightarrow> fdnum \<Rightarrow> (FDEntry \<Rightarrow> FileDescription \<Rightarrow> ('s, 'a) kact) \<Rightarrow> ('s, 'a) kact" where
  "withFd drv pid fd k =
     seqA (assertOwns drv pid) (withTable pid (\<lambda>t K.
       case fdt_get t fd of
         None \<Rightarrow> throwA (KErr EBADF) K
       | Some e \<Rightarrow> (case heapOf K (ent_desc e) of None \<Rightarrow> throwA (KErr EBADF) K | Some d \<Rightarrow> k e d K)))"

definition isStream :: "'s Kernel \<Rightarrow> FileDescription \<Rightarrow> bool" where
  "isStream K d \<longleftrightarrow> isPipe (k_pipes K) (desc_id d) \<or> isPty (k_ptys K) (desc_id d)"

subsection \<open>Opening, reading, writing\<close>

text \<open>\<^verbatim>\<open>parseInt\<close> with the check that the number prints as the text.\<close>

definition parseFdName :: "string \<Rightarrow> fdnum option" where
  "parseFdName raw =
     (if raw \<noteq> [] \<and> list_all isDigit raw \<and> dec (digitsVal 10 raw) = raw then Some (digitsVal 10 raw) else None)"

definition prepareOpenSync :: "'s KernelConfig \<Rightarrow> 's KernelEnv \<Rightarrow> path \<Rightarrow> u32 \<Rightarrow> ('s, bool) kact" where
  "prepareOpenSync cf E p flags K =
     (if vo_has (k_vfs cf (env_now E) K) OptPrepareOpenSync
      then andThen (vfsCall cf E (PrepareOpenSync p flags))
             (\<lambda>r. case r of Inl e \<Rightarrow> throwA (KErr e) | Inr (RBool b) \<Rightarrow> ret b | Inr _ \<Rightarrow> ret False) K
      else ret False K)"

definition umaskOf :: "'s Kernel \<Rightarrow> pid \<Rightarrow> u32" where
  "umaskOf K pid = (case pt_get K pid of None \<Rightarrow> 18 | Some e \<Rightarrow> of_nat (pe_umask e))"

definition stashMode :: "pid \<Rightarrow> fdnum \<Rightarrow> u32 option \<Rightarrow> ('s, unit) kact" where
  "stashMode pid fd mode = modifyA (\<lambda>K.
     case Option.bind (fm_get pid (k_fds K)) (\<lambda>t. fdt_get t fd) of
       None \<Rightarrow> K
     | Some e \<Rightarrow>
         updDesc (ent_desc e) (\<lambda>d. d\<lparr>desc_creationMode :=
           Some ((case mode of None \<Rightarrow> 0x1B6 | Some m \<Rightarrow> m) AND NOT (umaskOf K pid))\<rparr>) K)"

definition fdOpen :: "'s KernelConfig \<Rightarrow> 's KernelEnv \<Rightarrow> string \<Rightarrow> pid \<Rightarrow> path \<Rightarrow> u32 \<Rightarrow> u32 option \<Rightarrow> ('s, kreply) kact" where
  "fdOpen cf E drv pid p flags mode =
     seqA (assertOwns drv pid)
       (if startsWith p ''/dev/fd/''
        then (case parseFdName (drop 8 p) of
                None \<Rightarrow> throwA (KErr EBADF)
              | Some n \<Rightarrow> andThen (onTable pid (fdt_dup n)) (\<lambda>fd. ret (KFd fd)))
        else
          andThen (if flags AND (O_CREAT OR O_EXCL OR O_TRUNC) \<noteq> 0 then prepareOpenSync cf E p flags else ret False)
            (\<lambda>created. andThen (onTable pid (fdt_open p flags (Some FILETYPE_REGULAR_FILE)))
              (\<lambda>fd. seqA (if created \<and> flags AND O_CREAT \<noteq> 0 then stashMode pid fd mode else ret ())
                      (ret (KFd fd)))))"

definition k_pipeRead :: "'s KernelEnv \<Rightarrow> nat \<Rightarrow> nat \<Rightarrow> ('s, kreply) kact" where
  "k_pipeRead E descId len K =
     (case pm_read descId len (k_pipes K) of
        (evs, r, m) \<Rightarrow> seqA (pipeEvents E evs) (andThen (resA r) (\<lambda>tok. ret (KPipeRead tok))) (K\<lparr>k_pipes := m\<rparr>))"

definition k_ptyRead :: "nat \<Rightarrow> nat \<Rightarrow> ('s, kreply) kact" where
  "k_ptyRead descId len K =
     (case pty_read descId len (k_ptys K) of
        (r, m) \<Rightarrow> andThen (resA r) (\<lambda>tok. ret (KPtyRead tok)) (K\<lparr>k_ptys := m\<rparr>))"

definition preadDescription ::
  "'s KernelConfig \<Rightarrow> 's KernelEnv \<Rightarrow> FileDescription \<Rightarrow> int \<Rightarrow> nat \<Rightarrow> (vfs_reply \<Rightarrow> ktask) \<Rightarrow> ('s, kreply) kact" where
  "preadDescription cf E d offset len k = awaitVfs cf E (Pread (desc_path d) offset (int len)) (awaited k)"

definition fdRead :: "'s KernelConfig \<Rightarrow> 's KernelEnv \<Rightarrow> string \<Rightarrow> pid \<Rightarrow> fdnum \<Rightarrow> nat \<Rightarrow> ('s, kreply) kact" where
  "fdRead cf E drv pid fd len = withFd drv pid fd (\<lambda>e d K.
     if isPipe (k_pipes K) (desc_id d) then k_pipeRead E (desc_id d) len K
     else if isPty (k_ptys K) (desc_id d) then k_ptyRead (desc_id d) len K
     else preadDescription cf E d (desc_cursor d) len (\<lambda>r. TRead (ent_desc e) (bytesOf r)) K)"

definition vfsWrite :: "'s KernelConfig \<Rightarrow> 's KernelEnv \<Rightarrow> dref \<Rightarrow> FileDescription \<Rightarrow> bytes \<Rightarrow> ('s, kreply) kact" where
  "vfsWrite cf E r d data =
     awaitVfs cf E (ReadFile (desc_path d))
       (\<lambda>a. TContent r data (case a of Inl _ \<Rightarrow> [] | Inr x \<Rightarrow> bytesOf x))"

definition fdWrite :: "'s KernelConfig \<Rightarrow> 's KernelEnv \<Rightarrow> string \<Rightarrow> pid \<Rightarrow> fdnum \<Rightarrow> bytes \<Rightarrow> ('s, kreply) kact" where
  "fdWrite cf E drv pid fd data = withFd drv pid fd (\<lambda>e d K.
     if isPipe (k_pipes K) (desc_id d)
     then andThen (k_pipeWrite E (desc_id d) data (Some pid))
            (\<lambda>r. ret (case r of Written n \<Rightarrow> KNum (int n) | WriteBlocks tok \<Rightarrow> KPipeWrite tok)) K
     else if isPty (k_ptys K) (desc_id d)
     then andThen (k_ptyWrite E (desc_id d) data) (\<lambda>n. ret (KNum (int n))) K
     else vfsWrite cf E (ent_desc e) d data K)"

text \<open>\<^verbatim>\<open>newContent.set(content); newContent.set(data, cursor)\<close> on a zeroed array.\<close>

definition overlay :: "nat \<Rightarrow> bytes \<Rightarrow> bytes \<Rightarrow> bytes" where
  "overlay cursor data content =
     (let base = content @ replicate (cursor + length data - length content) 0
      in take cursor base @ data @ drop (cursor + length data) base)"

definition fdClose :: "'s KernelConfig \<Rightarrow> 's KernelEnv \<Rightarrow> string \<Rightarrow> pid \<Rightarrow> fdnum \<Rightarrow> ('s, kreply) kact" where
  "fdClose cf E drv pid fd =
     seqA (assertOwns drv pid) (withTable pid (\<lambda>t.
       case fdt_get t fd of
         None \<Rightarrow> ret KUnit
       | Some e \<Rightarrow> seqA (onTable pid (close_call fd)) (seqA (dropDescription cf E (ent_desc e)) (ret KUnit))))"

definition moveCursor :: "dref \<Rightarrow> int \<Rightarrow> ('s, kreply) kact" where
  "moveCursor r newCursor =
     (if newCursor < 0 then throwA (KErr EINVAL)
      else seqA (modifyA (updDesc r (\<lambda>d. d\<lparr>desc_cursor := newCursor\<rparr>))) (ret (KNum newCursor)))"

definition fdSeek :: "'s KernelConfig \<Rightarrow> 's KernelEnv \<Rightarrow> string \<Rightarrow> pid \<Rightarrow> fdnum \<Rightarrow> int \<Rightarrow> int \<Rightarrow> ('s, kreply) kact" where
  "fdSeek cf E drv pid fd offset whence = withFd drv pid fd (\<lambda>e d K.
     if isStream K d then throwA (KErr ESPIPE) K
     else if whence = SEEK_SET then moveCursor (ent_desc e) offset K
     else if whence = SEEK_CUR then moveCursor (ent_desc e) (desc_cursor d + offset) K
     else if whence = SEEK_END
     then awaitVfs cf E (StatCall (desc_path d))
            (awaited (\<lambda>r. TSeek (ent_desc e) offset (case r of RStat st \<Rightarrow> vs_size st | _ \<Rightarrow> 0))) K
     else throwA (KErr EINVAL) K)"

definition fdPread :: "'s KernelConfig \<Rightarrow> 's KernelEnv \<Rightarrow> string \<Rightarrow> pid \<Rightarrow> fdnum \<Rightarrow> nat \<Rightarrow> int \<Rightarrow> ('s, kreply) kact" where
  "fdPread cf E drv pid fd len offset = withFd drv pid fd (\<lambda>e d K.
     if isStream K d then throwA (KErr ESPIPE) K
     else preadDescription cf E d offset len (\<lambda>r. TReturn (KBytes (bytesOf r))) K)"

definition fdPwrite :: "'s KernelConfig \<Rightarrow> 's KernelEnv \<Rightarrow> string \<Rightarrow> pid \<Rightarrow> fdnum \<Rightarrow> bytes \<Rightarrow> int \<Rightarrow> ('s, kreply) kact" where
  "fdPwrite cf E drv pid fd data offset = withFd drv pid fd (\<lambda>e d K.
     if isStream K d then throwA (KErr ESPIPE) K
     else awaitVfs cf E (Pwrite (desc_path d) offset data)
            (awaited (\<lambda>_. TReturn (KNum (int (length data))))) K)"

subsection \<open>Descriptor flags\<close>

definition fdDup :: "string \<Rightarrow> pid \<Rightarrow> fdnum \<Rightarrow> ('s, kreply) kact" where
  "fdDup drv pid fd = seqA (assertOwns drv pid) (andThen (onTable pid (fdt_dup fd)) (\<lambda>n. ret (KFd n)))"

definition fdDup2 :: "'s KernelConfig \<Rightarrow> 's KernelEnv \<Rightarrow> string \<Rightarrow> pid \<Rightarrow> fdnum \<Rightarrow> fdnum \<Rightarrow> ('s, kreply) kact" where
  "fdDup2 cf E drv pid oldFd newFd =
     seqA (assertOwns drv pid) (withTable pid (\<lambda>t.
       seqA (onTable pid (dup2_call oldFd newFd))
         (case fdt_get t newFd of
            None \<Rightarrow> ret KUnit
          | Some e \<Rightarrow> seqA (dropDescription cf E (ent_desc e)) (ret KUnit))))"

definition fdDupMin :: "string \<Rightarrow> pid \<Rightarrow> fdnum \<Rightarrow> nat \<Rightarrow> ('s, kreply) kact" where
  "fdDupMin drv pid fd minFd =
     seqA (assertOwns drv pid) (andThen (onTable pid (fdt_dupMinFd fd minFd)) (\<lambda>n. ret (KFd n)))"

definition fdStat :: "string \<Rightarrow> pid \<Rightarrow> fdnum \<Rightarrow> ('s, kreply) kact" where
  "fdStat drv pid fd =
     seqA (assertOwns drv pid) (withTable pid (\<lambda>t K.
       andThen (resA (fdt_stat fd (fm_env (k_fds K), t))) (\<lambda>st. ret (KFdStat st)) K))"

definition fdPoll :: "pid \<Rightarrow> fdnum \<Rightarrow> ('s, kreply) kact" where
  "fdPoll pid fd K =
     ret (case Option.bind (fm_get pid (k_fds K)) (\<lambda>t. fdt_get t fd) of
            None \<Rightarrow> KPoll \<lparr>po_readable = False, po_writable = False, po_hangup = False\<rparr> True
          | Some e \<Rightarrow>
              if isPipe (k_pipes K) (descIdOf K e)
              then (case pm_pollState (k_pipes K) (descIdOf K e) of
                      Some ps \<Rightarrow> KPoll ps False
                    | None \<Rightarrow> KPoll \<lparr>po_readable = False, po_writable = False, po_hangup = False\<rparr> True)
              else KPoll \<lparr>po_readable = True, po_writable = True, po_hangup = False\<rparr> False) K"

definition fdPollWait :: "string \<Rightarrow> pid \<Rightarrow> fdnum \<Rightarrow> int option \<Rightarrow> ('s, kreply) kact" where
  "fdPollWait drv pid fd timeoutMs = withFd drv pid fd (\<lambda>e d K.
     if isPipe (k_pipes K) (desc_id d)
     then (case pm_waitForPoll (desc_id d) timeoutMs (k_pipes K) of
             Inl err \<Rightarrow> throwA (KErr err) K
           | Inr (w, m) \<Rightarrow> ret (KPollWait w) (K\<lparr>k_pipes := m\<rparr>))
     else ret KUnit K)"

definition setCloexec :: "fdnum \<Rightarrow> bool \<Rightarrow> fd_state \<Rightarrow> (unit \<times> fd_state) res" where
  "setCloexec fd b = (\<lambda>(env, t). Inr ((), env,
     case fdt_get t fd of None \<Rightarrow> t | Some e \<Rightarrow> t\<lparr>fdt_entries := mput fd (e\<lparr>ent_cloexec := b\<rparr>) (fdt_entries t)\<rparr>))"

definition fdSetCloexec :: "string \<Rightarrow> pid \<Rightarrow> fdnum \<Rightarrow> bool \<Rightarrow> ('s, kreply) kact" where
  "fdSetCloexec drv pid fd b = withFd drv pid fd (\<lambda>e d. seqA (onTable pid (setCloexec fd b)) (ret KUnit))"

definition fdGetCloexec :: "string \<Rightarrow> pid \<Rightarrow> fdnum \<Rightarrow> ('s, kreply) kact" where
  "fdGetCloexec drv pid fd = withFd drv pid fd (\<lambda>e d. ret (KBool (ent_cloexec e)))"

definition fcntl :: "string \<Rightarrow> pid \<Rightarrow> fdnum \<Rightarrow> int \<Rightarrow> nat option \<Rightarrow> ('s, kreply) kact" where
  "fcntl drv pid fd cmd arg = withFd drv pid fd (\<lambda>e d.
     let n = (case arg of None \<Rightarrow> 0 | Some a \<Rightarrow> a)
     in if cmd = F_DUPFD then andThen (onTable pid (fdt_dupMinFd fd n)) (\<lambda>newFd. ret (KFd newFd))
        else if cmd = F_DUPFD_CLOEXEC
        then andThen (onTable pid (fdt_dupMinFd fd n))
               (\<lambda>newFd. seqA (onTable pid (setCloexec newFd True)) (ret (KFd newFd)))
        else if cmd = F_GETFD then ret (KFlags (if ent_cloexec e then FD_CLOEXEC else 0))
        else if cmd = F_SETFD
        then seqA (onTable pid (setCloexec fd ((of_nat n :: u32) AND FD_CLOEXEC \<noteq> 0))) (ret (KFlags 0))
        else if cmd = F_GETFL then ret (KFlags (desc_flags d))
        else throwA (KErr EINVAL))"

definition sys_flock :: "string \<Rightarrow> pid \<Rightarrow> fdnum \<Rightarrow> u32 \<Rightarrow> ('s, kreply) kact" where
  "sys_flock drv pid fd operation = withFd drv pid fd (\<lambda>e d K.
     case flock (desc_path d) (desc_id d) operation (k_locks K) of
       (r, m) \<Rightarrow> andThen (resA r) (\<lambda>out. ret (case out of FlockBlocks tok \<Rightarrow> KLock tok | _ \<Rightarrow> KUnit)) (K\<lparr>k_locks := m\<rparr>))"

subsection \<open>Processes\<close>

definition sys_waitpid :: "string \<Rightarrow> pid \<Rightarrow> u32 \<Rightarrow> ('s, kreply) kact" where
  "sys_waitpid drv pid options = seqA (assertOwns drv pid) (andThen (waitpid pid options) (\<lambda>w. ret (KWait w)))"

definition sys_kill :: "'s KernelEnv \<Rightarrow> string \<Rightarrow> pid \<Rightarrow> int \<Rightarrow> ('s, kreply) kact" where
  "sys_kill E drv pid sig =
     seqA (if 0 \<le> pid then assertOwns drv pid else ret ()) (seqA (pt_kill E pid sig) (ret KUnit))"

definition sys_getpid :: "string \<Rightarrow> pid \<Rightarrow> ('s, kreply) kact" where
  "sys_getpid drv pid = seqA (assertOwns drv pid) (ret (KPid pid))"

definition sys_getppid :: "string \<Rightarrow> pid \<Rightarrow> ('s, kreply) kact" where
  "sys_getppid drv pid = seqA (assertOwns drv pid) (andThen (getppid pid) (\<lambda>p. ret (KPid p)))"

definition sys_setpgid :: "string \<Rightarrow> pid \<Rightarrow> pid \<Rightarrow> ('s, kreply) kact" where
  "sys_setpgid drv pid pgid = seqA (assertOwns drv pid) (seqA (setpgid pid pgid) (ret KUnit))"

definition sys_getpgid :: "string \<Rightarrow> pid \<Rightarrow> ('s, kreply) kact" where
  "sys_getpgid drv pid = seqA (assertOwns drv pid) (andThen (getpgid pid) (\<lambda>p. ret (KPid p)))"

definition sys_setsid :: "string \<Rightarrow> pid \<Rightarrow> ('s, kreply) kact" where
  "sys_setsid drv pid = seqA (assertOwns drv pid) (andThen (setsid pid) (\<lambda>p. ret (KPid p)))"

definition sys_getsid :: "string \<Rightarrow> pid \<Rightarrow> ('s, kreply) kact" where
  "sys_getsid drv pid = seqA (assertOwns drv pid) (andThen (getsid pid) (\<lambda>p. ret (KPid p)))"

definition sys_alarm :: "'s KernelEnv \<Rightarrow> string \<Rightarrow> pid \<Rightarrow> int \<Rightarrow> ('s, kreply) kact" where
  "sys_alarm E drv pid seconds = seqA (assertOwns drv pid) (andThen (pt_alarm E pid seconds) (\<lambda>n. ret (KNum n)))"

subsection \<open>Pipes and terminals\<close>

definition putTable :: "pid \<Rightarrow> desc_env \<Rightarrow> ProcessFDTable \<Rightarrow> 's Kernel \<Rightarrow> 's Kernel" where
  "putTable pid env t K = K\<lparr>k_fds := (k_fds K)\<lparr>fm_env := env, fm_tables := mput pid t (fm_tables (k_fds K))\<rparr>\<rparr>"

definition sys_pipe :: "string \<Rightarrow> pid \<Rightarrow> ('s, kreply) kact" where
  "sys_pipe drv pid = seqA (assertOwns drv pid) (withTable pid (\<lambda>t K.
     case createPipeFDs (fm_env (k_fds K), t, k_pipes K) of
       (r, env, t', m) \<Rightarrow>
         andThen (resA r) (\<lambda>(rfd, wfd). ret (KFds rfd wfd)) (putTable pid env t' (K\<lparr>k_pipes := m\<rparr>))))"

definition k_createPty :: "pid \<Rightarrow> ('s, fdnum \<times> fdnum \<times> string) kact" where
  "k_createPty pid = withTable pid (\<lambda>t K.
     case createPtyFDs (fm_env (k_fds K), t, k_ptys K) of
       (r, env, t', m) \<Rightarrow> resA r (putTable pid env t' (K\<lparr>k_ptys := m\<rparr>)))"

definition sys_openpty :: "string \<Rightarrow> pid \<Rightarrow> ('s, kreply) kact" where
  "sys_openpty drv pid =
     seqA (assertOwns drv pid) (andThen (k_createPty pid) (\<lambda>(m, s, p). ret (KPtyFds m s p)))"

definition sys_isatty :: "string \<Rightarrow> pid \<Rightarrow> fdnum \<Rightarrow> ('s, kreply) kact" where
  "sys_isatty drv pid fd = seqA (assertOwns drv pid) (withTable pid (\<lambda>t K.
     ret (KBool (case fdt_get t fd of None \<Rightarrow> False | Some e \<Rightarrow> isSlave (k_ptys K) (descIdOf K e))) K))"

definition onPty :: "(PtyManager \<Rightarrow> PtyManager res) \<Rightarrow> ('s, kreply) kact" where
  "onPty f K = (case f (k_ptys K) of Inl e \<Rightarrow> throwA (KErr e) K | Inr m \<Rightarrow> ret KUnit (K\<lparr>k_ptys := m\<rparr>))"

definition ptySetDiscipline :: "string \<Rightarrow> pid \<Rightarrow> fdnum \<Rightarrow> LineDisciplineConfig \<Rightarrow> ('s, kreply) kact" where
  "ptySetDiscipline drv pid fd c = withFd drv pid fd (\<lambda>e d. onPty (setDiscipline (desc_id d) c))"

definition ptySetForegroundPgid :: "string \<Rightarrow> pid \<Rightarrow> fdnum \<Rightarrow> pid \<Rightarrow> ('s, kreply) kact" where
  "ptySetForegroundPgid drv pid fd pgid = withFd drv pid fd (\<lambda>e d. onPty (setForegroundPgid (desc_id d) pgid))"

definition tcgetattr :: "string \<Rightarrow> pid \<Rightarrow> fdnum \<Rightarrow> ('s, kreply) kact" where
  "tcgetattr drv pid fd = withFd drv pid fd (\<lambda>e d K.
     andThen (resA (getTermios (desc_id d) (k_ptys K))) (\<lambda>tm. ret (KTermios tm)) K)"

definition tcsetattr :: "string \<Rightarrow> pid \<Rightarrow> fdnum \<Rightarrow> TermiosUpdate \<Rightarrow> ('s, kreply) kact" where
  "tcsetattr drv pid fd u = withFd drv pid fd (\<lambda>e d. onPty (setTermios (desc_id d) u))"

definition tcsetpgrp :: "string \<Rightarrow> pid \<Rightarrow> fdnum \<Rightarrow> pid \<Rightarrow> ('s, kreply) kact" where
  "tcsetpgrp drv pid fd pgid = withFd drv pid fd (\<lambda>e d K.
     if \<not> hasProcessGroup K pgid then throwA (KErr ESRCH) K
     else onPty (setForegroundPgid (desc_id d) pgid) K)"

definition tcgetpgrp :: "string \<Rightarrow> pid \<Rightarrow> fdnum \<Rightarrow> ('s, kreply) kact" where
  "tcgetpgrp drv pid fd = withFd drv pid fd (\<lambda>e d K.
     andThen (resA (getForegroundPgid (desc_id d) (k_ptys K))) (\<lambda>p. ret (KPid p)) K)"

definition devFdReadDir :: "string \<Rightarrow> pid \<Rightarrow> ('s, kreply) kact" where
  "devFdReadDir drv pid = seqA (assertOwns drv pid) (\<lambda>K.
     ret (KNames (case fm_get pid (k_fds K) of
                    None \<Rightarrow> []
                  | Some t \<Rightarrow> map dec (sort (map (ent_fd \<circ> snd) (fdt_entries t))))) K)"

definition streamStat :: "int \<Rightarrow> FileDescription \<Rightarrow> VirtualStat" where
  "streamStat now d = \<lparr>vs_mode = 0x1B6, vs_size = 0, vs_isDirectory = False, vs_isSymbolicLink = False,
     vs_atimeMs = now, vs_mtimeMs = now, vs_ctimeMs = now, vs_birthtimeMs = now, vs_ino = desc_id d,
     vs_nlink = 1, vs_uid = 0, vs_gid = 0\<rparr>"

definition devFdStat :: "'s KernelConfig \<Rightarrow> 's KernelEnv \<Rightarrow> string \<Rightarrow> pid \<Rightarrow> fdnum \<Rightarrow> ('s, kreply) kact" where
  "devFdStat cf E drv pid fd = withFd drv pid fd (\<lambda>e d K.
     if isStream K d then ret (KVfsStat (streamStat (env_now E) d)) K
     else awaitVfs cf E (StatCall (desc_path d))
            (awaited (\<lambda>r. case r of RStat st \<Rightarrow> TReturn (KVfsStat st) | _ \<Rightarrow> TFail (KErr EIO))) K)"

subsection \<open>Environment and directories\<close>

definition getenv :: "string \<Rightarrow> pid \<Rightarrow> ('s, kreply) kact" where
  "getenv drv pid = seqA (assertOwns drv pid) (\<lambda>K.
     ret (KEnv (case pt_get K pid of None \<Rightarrow> k_env K | Some e \<Rightarrow> pe_env e)) K)"

definition withProcess :: "string \<Rightarrow> pid \<Rightarrow> (ProcessEntry \<Rightarrow> ('s, 'a) kact) \<Rightarrow> ('s, 'a) kact" where
  "withProcess drv pid k = seqA (assertOwns drv pid) (\<lambda>K.
     case pt_get K pid of None \<Rightarrow> throwA (KErr ESRCH) K | Some e \<Rightarrow> k e K)"

definition setenv :: "string \<Rightarrow> pid \<Rightarrow> string \<Rightarrow> string \<Rightarrow> ('s, kreply) kact" where
  "setenv drv pid key v = withProcess drv pid (\<lambda>_.
     seqA (modifyA (Process_Table.upd pid (\<lambda>e. e\<lparr>pe_env := mput key v (pe_env e)\<rparr>))) (ret KUnit))"

definition unsetenv :: "string \<Rightarrow> pid \<Rightarrow> string \<Rightarrow> ('s, kreply) kact" where
  "unsetenv drv pid key = withProcess drv pid (\<lambda>_.
     seqA (modifyA (Process_Table.upd pid (\<lambda>e. e\<lparr>pe_env := mdel key (pe_env e)\<rparr>))) (ret KUnit))"

definition getcwd :: "string \<Rightarrow> pid \<Rightarrow> ('s, kreply) kact" where
  "getcwd drv pid = seqA (assertOwns drv pid) (\<lambda>K.
     ret (KStr (case pt_get K pid of None \<Rightarrow> k_cwd K | Some e \<Rightarrow> pe_cwd e)) K)"

definition chdir :: "'s KernelConfig \<Rightarrow> 's KernelEnv \<Rightarrow> string \<Rightarrow> pid \<Rightarrow> path \<Rightarrow> ('s, kreply) kact" where
  "chdir cf E drv pid p = withProcess drv pid (\<lambda>_.
     awaitVfs cf E (StatCall p) (\<lambda>a. case a of Inr (RStat st) \<Rightarrow> TChdir pid p st | _ \<Rightarrow> TFail (KErr ENOENT)))"

definition sys_umask :: "string \<Rightarrow> pid \<Rightarrow> nat option \<Rightarrow> ('s, kreply) kact" where
  "sys_umask drv pid new = withProcess drv pid (\<lambda>e.
     seqA (case new of
             None \<Rightarrow> ret ()
           | Some m \<Rightarrow> modifyA (Process_Table.upd pid (\<lambda>e. e\<lparr>pe_umask := m mod 512\<rparr>)))
       (ret (KNum (int (pe_umask e)))))"

definition sys_mkdir :: "'s KernelConfig \<Rightarrow> 's KernelEnv \<Rightarrow> string \<Rightarrow> pid \<Rightarrow> path \<Rightarrow> u32 option \<Rightarrow> ('s, kreply) kact" where
  "sys_mkdir cf E drv pid p mode = seqA (assertOwns drv pid) (\<lambda>K.
     let effectiveMode = (case mode of None \<Rightarrow> 0x1FF | Some m \<Rightarrow> m) AND NOT (umaskOf K pid)
     in awaitVfs cf E (Mkdir p False) (awaited (\<lambda>_. TMkdir p effectiveMode)) K)"

subsection \<open>After an await\<close>

definition finishWrite :: "nat \<Rightarrow> dref \<Rightarrow> int \<Rightarrow> nat \<Rightarrow> ('s, unit) kact" where
  "finishWrite tok r endPos n =
     seqA (modifyA (updDesc r (\<lambda>d. d\<lparr>desc_cursor := endPos\<rparr>))) (k_settle tok (Inr (KNum (int n))))"

definition settleWith :: "nat \<Rightarrow> ('s, kreply) kact \<Rightarrow> ('s, unit) kact" where
  "settleWith tok m K = (case m K of None \<Rightarrow> None | Some (r, K1) \<Rightarrow> k_settle tok r K1)"

definition continueTask :: "'s KernelConfig \<Rightarrow> 's KernelEnv \<Rightarrow> nat \<Rightarrow> ktask \<Rightarrow> ('s, unit) kact" where
  "continueTask cf E tok task =
     (case task of
        TFail e \<Rightarrow> k_settle tok (Inl e)
      | TReturn x \<Rightarrow> k_settle tok (Inr x)
      | TRead r bs \<Rightarrow>
          seqA (modifyA (updDesc r (\<lambda>d. d\<lparr>desc_cursor := desc_cursor d + int (length bs)\<rparr>)))
            (k_settle tok (Inr (KBytes bs)))
      | TSeek r offset sz \<Rightarrow> settleWith tok (moveCursor r (sz + offset))
      | TContent r data content \<Rightarrow> (\<lambda>K.
          case heapOf K r of
            None \<Rightarrow> k_settle tok (Inl (KErr EBADF)) K
          | Some d \<Rightarrow>
              let cursor = (if desc_flags d AND O_APPEND \<noteq> 0 then int (length content) else desc_cursor d);
                  endPos = cursor + int (length data)
              in andThen (vfsCall cf E (WriteFile (desc_path d) (overlay (nat cursor) data content)))
                   (\<lambda>a. suspendAt tok (awaited (\<lambda>_. TWritten r endPos (length data)) a)) K)
      | TWritten r endPos n \<Rightarrow> (\<lambda>K.
          case Option.bind (heapOf K r) (\<lambda>d. map_option (Pair (desc_path d)) (desc_creationMode d)) of
            None \<Rightarrow> finishWrite tok r endPos n K
          | Some (p, mode) \<Rightarrow>
              andThen (vfsCall cf E (Chmod p mode)) (\<lambda>a. suspendAt tok (awaited (\<lambda>_. TChmodded r endPos n) a)) K)
      | TChmodded r endPos n \<Rightarrow>
          seqA (modifyA (updDesc r (\<lambda>d. d\<lparr>desc_creationMode := None\<rparr>))) (finishWrite tok r endPos n)
      | TChdir pid p st \<Rightarrow>
          if vs_isDirectory st
          then seqA (modifyA (Process_Table.upd pid (\<lambda>e. e\<lparr>pe_cwd := p, pe_env := mput ''PWD'' p (pe_env e)\<rparr>)))
                 (k_settle tok (Inr KUnit))
          else k_settle tok (Inl (KErr ENOTDIR))
      | TMkdir p mode \<Rightarrow>
          andThen (vfsCall cf E (Chmod p mode)) (\<lambda>a. suspendAt tok (awaited (\<lambda>_. TReturn KUnit) a)))"

definition k_turn :: "'s KernelConfig \<Rightarrow> 's KernelEnv \<Rightarrow> nat \<Rightarrow> ('s, unit) kact" where
  "k_turn cf E tok K =
     (case mget (k_tasks K) tok of
        None \<Rightarrow> ret () K
      | Some task \<Rightarrow> continueTask cf E tok task (K\<lparr>k_tasks := mdel tok (k_tasks K)\<rparr>))"

end
