(* ===== verification/Kernel_Spawn.thy ===== *)
theory Kernel_Spawn
  imports Kernel_Calls
begin

section \<open>The kernel: processes, drivers, shells\<close>

text \<open>
  The rest of \<^verbatim>\<open>kernel/kernel.ts\<close>: spawning with inherited and redirected descriptors, the wiring of
  output, drivers and mounts, shells on a terminal, disposal, and the step function that runs any of it.
  The registration of a command found on demand writes its stub at once; the code does it in the background.
\<close>

subsection \<open>Descriptors of a child\<close>

record SpawnOptions =
  so_env :: "(string, string) jsmap"
  so_cwd :: "path option"
  so_stdinFd :: "nat option"
  so_stdoutFd :: "nat option"
  so_stderrFd :: "nat option"
  so_onStdout :: "nat option"
  so_onStderr :: "nat option"

definition applyStdioOverride ::
  "'s KernelConfig \<Rightarrow> 's KernelEnv \<Rightarrow> pid \<Rightarrow> pid \<Rightarrow> fdnum \<Rightarrow> nat option \<Rightarrow> ('s, unit) kact" where
  "applyStdioOverride cf E childPid callerPid targetFd ov K =
     (case ov of
        None \<Rightarrow> ret () K
      | Some overrideFd \<Rightarrow>
          if overrideFd = 0xFFFFFFFF then ret () K
          else
            (case Option.bind (fm_get callerPid (k_fds K)) (\<lambda>t. fdt_get t overrideFd) of
               None \<Rightarrow> ret () K
             | Some e \<Rightarrow>
                 let existing = Option.bind (fm_get childPid (k_fds K)) (\<lambda>t. fdt_get t targetFd)
                 in seqA (onTable childPid (close_call targetFd))
                   (seqA (case existing of None \<Rightarrow> ret () | Some x \<Rightarrow> dropDescription cf E (ent_desc x))
                     (andThen (onTable childPid (fdt_openWith (ent_desc e) (ent_filetype e) (Some targetFd)))
                       (\<lambda>_. ret ()))) K))"

definition overridePipeIds :: "'s Kernel \<Rightarrow> ProcessFDTable \<Rightarrow> nat list" where
  "overridePipeIds K t =
     concat (map (\<lambda>fd. case fdt_get t fd of
                         None \<Rightarrow> []
                       | Some e \<Rightarrow> (case pipeIdFor (k_pipes K) (descIdOf K e) of None \<Rightarrow> [] | Some k \<Rightarrow> [k])) [0, 1, 2])"

definition sharedPipeFds :: "'s Kernel \<Rightarrow> ProcessFDTable \<Rightarrow> fdnum list" where
  "sharedPipeFds K t =
     map ent_fd (filter (\<lambda>e. 2 < ent_fd e \<and>
       (case pipeIdFor (k_pipes K) (descIdOf K e) of None \<Rightarrow> False | Some k \<Rightarrow> k \<in> set (overridePipeIds K t)))
       (map snd (fdt_entries t)))"

primrec closeFds :: "pid \<Rightarrow> fdnum list \<Rightarrow> ('s, unit) kact" where
  "closeFds pid [] = ret ()"
| "closeFds pid (fd # fds) = seqA (onTable pid (close_call fd)) (closeFds pid fds)"

definition forkFds :: "pid \<Rightarrow> pid \<Rightarrow> ('s, unit) kact" where
  "forkFds callerPid childPid = modifyA (\<lambda>K. K\<lparr>k_fds := fm_fork callerPid childPid (k_fds K)\<rparr>)"

definition hasFdOverrides :: "SpawnOptions \<Rightarrow> bool" where
  "hasFdOverrides opts \<longleftrightarrow> so_stdinFd opts \<noteq> None \<or> so_stdoutFd opts \<noteq> None \<or> so_stderrFd opts \<noteq> None"

definition createChildFDTable ::
  "'s KernelConfig \<Rightarrow> 's KernelEnv \<Rightarrow> pid \<Rightarrow> SpawnOptions \<Rightarrow> pid option \<Rightarrow> ('s, unit) kact" where
  "createChildFDTable cf E childPid opts callerPid K =
     (case callerPid of
        Some caller \<Rightarrow>
          if caller \<noteq> 0 \<and> fm_get caller (k_fds K) \<noteq> None then
            seqA (forkFds caller childPid)
              (if hasFdOverrides opts then
                 seqA (applyStdioOverride cf E childPid caller 0 (so_stdinFd opts))
                (seqA (applyStdioOverride cf E childPid caller 1 (so_stdoutFd opts))
                (seqA (applyStdioOverride cf E childPid caller 2 (so_stderrFd opts))
                  (\<lambda>K1. case fm_get childPid (k_fds K1) of
                          None \<Rightarrow> ret () K1 | Some t \<Rightarrow> closeFds childPid (sharedPipeFds K1 t) K1)))
               else ret ()) K
          else ret () (K\<lparr>k_fds := fm_create childPid (k_fds K)\<rparr>)
      | None \<Rightarrow> ret () (K\<lparr>k_fds := fm_create childPid (k_fds K)\<rparr>))"

subsection \<open>Output\<close>

definition entryOf :: "'s Kernel \<Rightarrow> pid \<Rightarrow> fdnum \<Rightarrow> FDEntry option" where
  "entryOf K pid fd = Option.bind (fm_get pid (k_fds K)) (\<lambda>t. fdt_get t fd)"

definition isStdioPiped :: "'s Kernel \<Rightarrow> pid \<Rightarrow> fdnum \<Rightarrow> bool" where
  "isStdioPiped K pid fd =
     (case entryOf K pid fd of None \<Rightarrow> False
      | Some e \<Rightarrow> isPipe (k_pipes K) (descIdOf K e) \<or> isPty (k_ptys K) (descIdOf K e))"

definition isFdPtySlave :: "'s Kernel \<Rightarrow> pid \<Rightarrow> fdnum \<Rightarrow> bool" where
  "isFdPtySlave K pid fd =
     (case entryOf K pid fd of None \<Rightarrow> False | Some e \<Rightarrow> isSlave (k_ptys K) (descIdOf K e))"

definition createPipedOutputCallback :: "'s Kernel \<Rightarrow> pid \<Rightarrow> fdnum \<Rightarrow> sink option" where
  "createPipedOutputCallback K pid fd =
     (case entryOf K pid fd of
        None \<Rightarrow> None
      | Some e \<Rightarrow>
          if isPipe (k_pipes K) (descIdOf K e) then Some (SinkPipe (descIdOf K e) (Some pid))
          else if isPty (k_ptys K) (descIdOf K e) then Some (SinkPty (descIdOf K e))
          else None)"

text \<open>What calling a callback does; the callbacks of pipes and terminals drop errors.\<close>

definition k_emit :: "'s KernelEnv \<Rightarrow> sink \<Rightarrow> bytes \<Rightarrow> ('s, unit) kact" where
  "k_emit E sk data =
     (case sk of
        SinkPipe descId pid \<Rightarrow> swallowA (andThen (k_pipeWrite E descId data pid) (\<lambda>_. ret ()))
      | SinkPty descId \<Rightarrow> swallowA (andThen (k_ptyWrite E descId data) (\<lambda>_. ret ()))
      | _ \<Rightarrow> modifyA (logK [KOutput sk data]))"

definition parentSink :: "(ProcOutputs \<Rightarrow> sink option) \<Rightarrow> 's Kernel \<Rightarrow> pid option \<Rightarrow> sink option" where
  "parentSink sel K callerPid =
     (case callerPid of
        None \<Rightarrow> None
      | Some c \<Rightarrow> (case pt_get K c of None \<Rightarrow> None | Some _ \<Rightarrow> Option.bind (mget (k_outputs K) c) sel))"

definition wireOutputs :: "'s Kernel \<Rightarrow> pid \<Rightarrow> SpawnOptions \<Rightarrow> pid option \<Rightarrow> ProcOutputs" where
  "wireOutputs K pid opts callerPid =
     (let outPiped = isStdioPiped K pid 1; errPiped = isStdioPiped K pid 2
      in \<lparr>po_ctxStdout = (if outPiped then createPipedOutputCallback K pid 1
            else if so_onStdout opts = None then parentSink po_stdout K callerPid else None),
          po_ctxStderr = (if errPiped then createPipedOutputCallback K pid 2
            else if so_onStderr opts = None then parentSink po_stderr K callerPid else None),
          po_stdout = (if outPiped then None
            else Some (case so_onStdout opts of None \<Rightarrow> SinkBuffer pid False | Some h \<Rightarrow> SinkHost h)),
          po_stderr = (if errPiped then None
            else Some (case so_onStderr opts of None \<Rightarrow> SinkBuffer pid True | Some h \<Rightarrow> SinkHost h))\<rparr>)"

subsection \<open>Spawning\<close>

text \<open>The drivers are asked in mount order; the first that knows the command gets it registered.\<close>

definition discover :: "'s KernelConfig \<Rightarrow> 's KernelEnv \<Rightarrow> string \<Rightarrow> ('s, RuntimeDriver option) kact" where
  "discover cf E command K =
     (let base = (if CHR ''/'' \<in> set command then last (splitOn (CHR ''/'') command) else command)
      in if base = [] then ret None K
         else case find (\<lambda>d. kc_tryResolve cf (rd_name d) base) (k_drivers K) of
                None \<Rightarrow> ret None K
              | Some d \<Rightarrow>
                  let K1 = K\<lparr>k_registry := registerCommand base d (k_registry K)\<rparr>
                  in ret (Some d) (K1\<lparr>k_mounts := snd (populateBinEntry (k_vfs cf (env_now E) K1) base (k_mounts K1))\<rparr>))"

definition resolveDriver :: "'s KernelConfig \<Rightarrow> 's KernelEnv \<Rightarrow> string \<Rightarrow> ('s, RuntimeDriver) kact" where
  "resolveDriver cf E command K =
     andThen (case cr_resolve command (k_registry K) of Some d \<Rightarrow> ret (Some d) | None \<Rightarrow> discover cf E command)
       (\<lambda>found. case found of None \<Rightarrow> throwA (KErr ENOENT) | Some d \<Rightarrow> ret d) K"

fun addToCaller :: "string \<Rightarrow> pid \<Rightarrow> pid \<Rightarrow> (string, pid list) jsmap \<Rightarrow> (string, pid list) jsmap" where
  "addToCaller drv caller pid [] = []"
| "addToCaller drv caller pid ((nm, ps) # m) =
     (if nm \<noteq> drv \<and> caller \<in> set ps then (nm, sadd pid ps) # m else (nm, ps) # addToCaller drv caller pid m)"

definition grantPid :: "string \<Rightarrow> pid \<Rightarrow> pid option \<Rightarrow> (string, pid list) jsmap \<Rightarrow> (string, pid list) jsmap" where
  "grantPid drv pid callerPid m =
     (let m1 = (case mget m drv of None \<Rightarrow> m | Some ps \<Rightarrow> mput drv (sadd pid ps) m)
      in case callerPid of None \<Rightarrow> m1 | Some c \<Rightarrow> addToCaller drv c pid m1)"

definition spread :: "(string, string) jsmap \<Rightarrow> (string, string) jsmap \<Rightarrow> (string, string) jsmap" where
  "spread base over = fold (\<lambda>(k, v). mput k v) over base"

definition spawnContext :: "'s Kernel \<Rightarrow> SpawnOptions \<Rightarrow> pid option \<Rightarrow> ProcessContext" where
  "spawnContext K opts callerPid =
     (let parent = (case callerPid of None \<Rightarrow> None | Some c \<Rightarrow> if c = 0 then None else pt_get K c);
          baseEnv = (case parent of None \<Rightarrow> k_env K | Some e \<Rightarrow> pe_env e);
          cwd = (case so_cwd opts of None \<Rightarrow> k_cwd K | Some d \<Rightarrow> d)
      in \<lparr>ctx_ppid = (case callerPid of None \<Rightarrow> 0 | Some c \<Rightarrow> c),
          ctx_env = mput ''PWD'' cwd (spread baseEnv (so_env opts)), ctx_cwd = cwd\<rparr>)"

definition startProcess ::
  "'s KernelConfig \<Rightarrow> 's KernelEnv \<Rightarrow> RuntimeDriver \<Rightarrow> string \<Rightarrow> string list \<Rightarrow> SpawnOptions \<Rightarrow> pid option \<Rightarrow> pid
   \<Rightarrow> ('s, pid) kact" where
  "startProcess cf E driver command args opts callerPid pid K =
     (let outs = wireOutputs K pid opts callerPid; ctx = spawnContext K opts callerPid
      in seqA (run_script E (kc_spawn cf pid))
        (seqA (modifyA (\<lambda>K. (pt_register (env_now E) pid (rd_name driver) command args ctx K)
                 \<lparr>k_outputs := mput pid outs (k_outputs K)\<rparr>))
          (ret pid)) K)"

definition spawnInternal ::
  "'s KernelConfig \<Rightarrow> 's KernelEnv \<Rightarrow> string \<Rightarrow> string list \<Rightarrow> SpawnOptions \<Rightarrow> pid option \<Rightarrow> ('s, pid) kact" where
  "spawnInternal cf E command args opts callerPid =
     andThen (resolveDriver cf E command) (\<lambda>driver.
     seqA (resA (checkChildProcess (kc_permissions cf) command args (so_cwd opts)))
    (seqA (\<lambda>K. if (case kc_maxProcesses cf of None \<Rightarrow> False | Some n \<Rightarrow> n \<le> int (runningCount K))
               then throwA (KErr EAGAIN) K else ret () K)
    (andThen (\<lambda>K. case allocatePid K of (pid, K1) \<Rightarrow>
                ret pid (K1\<lparr>k_driverPids := grantPid (rd_name driver) pid callerPid (k_driverPids K1)\<rparr>))
      (\<lambda>pid. seqA (createChildFDTable cf E pid opts callerPid)
               (startProcess cf E driver command args opts callerPid pid)))))"

definition sys_spawn ::
  "'s KernelConfig \<Rightarrow> 's KernelEnv \<Rightarrow> string \<Rightarrow> string \<Rightarrow> string list \<Rightarrow> SpawnOptions \<Rightarrow> pid option \<Rightarrow> ('s, kreply) kact" where
  "sys_spawn cf E drv command args opts ppid =
     seqA (case ppid of None \<Rightarrow> ret () | Some p \<Rightarrow> if p = 0 then ret () else assertOwns drv p)
       (andThen (spawnInternal cf E command args opts ppid) (\<lambda>pid. ret (KPid pid)))"

subsection \<open>The interface for hosts\<close>

definition assertNotDisposed :: "('s, unit) kact" where
  "assertNotDisposed K = (if k_disposed K then throwA (JsErr ''Kernel is disposed'') K else ret () K)"

definition k_spawn ::
  "'s KernelConfig \<Rightarrow> 's KernelEnv \<Rightarrow> string \<Rightarrow> string list \<Rightarrow> SpawnOptions \<Rightarrow> ('s, pid) kact" where
  "k_spawn cf E command args opts = seqA assertNotDisposed (spawnInternal cf E command args opts None)"

text \<open>\<^verbatim>\<open>exec\<close>: the check of its first turn is \<open>assertNotDisposed\<close>, the turn after the pending stubs are written
  spawns the shell; the rest collects output and waits.\<close>

definition execShell :: "'s KernelConfig \<Rightarrow> 's KernelEnv \<Rightarrow> string \<Rightarrow> SpawnOptions \<Rightarrow> ('s, pid) kact" where
  "execShell cf E command opts K =
     (if cr_resolve ''sh'' (k_registry K) = None then throwA (JsErr ''No shell available'') K
      else spawnInternal cf E ''sh'' [''-c'', command] opts None K)"

definition POSIX_DIRS :: "path list" where
  "POSIX_DIRS = [''/tmp'', ''/bin'', ''/lib'', ''/sbin'', ''/boot'', ''/etc'', ''/root'', ''/run'', ''/srv'', ''/sys'',
     ''/opt'', ''/mnt'', ''/media'', ''/home'', ''/usr'', ''/usr/bin'', ''/usr/games'', ''/usr/include'', ''/usr/lib'',
     ''/usr/libexec'', ''/usr/man'', ''/usr/sbin'', ''/usr/share'', ''/usr/share/man'', ''/var'', ''/var/cache'',
     ''/var/empty'', ''/var/lib'', ''/var/lock'', ''/var/log'', ''/var/run'', ''/var/spool'', ''/var/tmp'']"

primrec makeDirs :: "'s KernelConfig \<Rightarrow> 's KernelEnv \<Rightarrow> path list \<Rightarrow> ('s, unit) kact" where
  "makeDirs cf E [] = ret ()"
| "makeDirs cf E (p # ps) = andThen (vfsCall cf E (Mkdir p True)) (\<lambda>_. makeDirs cf E ps)"

definition initPosixDirs :: "'s KernelConfig \<Rightarrow> 's KernelEnv \<Rightarrow> ('s, unit) kact" where
  "initPosixDirs cf E =
     seqA (makeDirs cf E POSIX_DIRS) (andThen (vfsCall cf E (WriteFile ''/usr/bin/env'' [0])) (\<lambda>_. ret ()))"

text \<open>The turns of \<^verbatim>\<open>mount\<close>, before and after the driver initialises itself.\<close>

definition mountBegin :: "RuntimeDriver \<Rightarrow> ('s, unit) kact" where
  "mountBegin driver =
     seqA assertNotDisposed (modifyA (\<lambda>K.
       if mhas (k_driverPids K) (rd_name driver) then K
       else K\<lparr>k_driverPids := mput (rd_name driver) [] (k_driverPids K)\<rparr>))"

definition mountEnd :: "'s KernelConfig \<Rightarrow> 's KernelEnv \<Rightarrow> RuntimeDriver \<Rightarrow> ('s, unit) kact" where
  "mountEnd cf E driver K =
     (let K1 = K\<lparr>k_registry := cr_register driver (k_registry K), k_drivers := k_drivers K @ [driver]\<rparr>
      in case populateBin (k_vfs cf (env_now E) K1) (k_registry K1) (k_mounts K1) of
           (r, mt) \<Rightarrow> resA r (K1\<lparr>k_mounts := mt\<rparr>))"

definition mountFs :: "'s KernelConfig \<Rightarrow> 's KernelEnv \<Rightarrow> path \<Rightarrow> nat \<Rightarrow> bool option \<Rightarrow> ('s, unit) kact" where
  "mountFs cf E p fs readOnly =
     seqA assertNotDisposed (\<lambda>K.
       case mt_mount (kernelObjs cf (env_now E) K) p fs readOnly (k_mounts K) of
         Inl e \<Rightarrow> throwA (KErr e) K | Inr mt \<Rightarrow> ret () (K\<lparr>k_mounts := mt\<rparr>))"

definition unmountFs :: "path \<Rightarrow> ('s, unit) kact" where
  "unmountFs p =
     seqA assertNotDisposed (\<lambda>K.
       case mt_unmount p (k_mounts K) of Inl e \<Rightarrow> throwA (KErr e) K | Inr mt \<Rightarrow> ret () (K\<lparr>k_mounts := mt\<rparr>))"

text \<open>The turns of \<^verbatim>\<open>dispose\<close>: terminate, escalate, close what is left.\<close>

definition disposeBegin :: "'s KernelEnv \<Rightarrow> ('s, pid list) kact" where
  "disposeBegin E K = (if k_disposed K then ret [] K else terminateBegin E (K\<lparr>k_disposed := True\<rparr>))"

definition disposeEnd :: "('s, unit) kact" where
  "disposeEnd = modifyA (\<lambda>K. K\<lparr>k_sockets := st_disposeAll (k_sockets K), k_timers := tt_disposeAll (k_timers K),
     k_drivers := []\<rparr>)"

record OpenShellOptions =
  os_command :: "string option"
  os_args :: "string list option"
  os_env :: "(string, string) jsmap"
  os_cwd :: "path option"
  os_cols :: "nat option"
  os_rows :: "nat option"

definition dimEnv :: "OpenShellOptions \<Rightarrow> (string, string) jsmap" where
  "dimEnv o1 = (case os_cols o1 of None \<Rightarrow> [] | Some n \<Rightarrow> [(''COLUMNS'', dec n)]) @
     (case os_rows o1 of None \<Rightarrow> [] | Some n \<Rightarrow> [(''LINES'', dec n)])"

definition shellOptions :: "OpenShellOptions \<Rightarrow> fdnum \<Rightarrow> SpawnOptions" where
  "shellOptions o1 slaveFd = \<lparr>so_env = spread (os_env o1) (dimEnv o1), so_cwd = os_cwd o1,
     so_stdinFd = Some slaveFd, so_stdoutFd = Some slaveFd, so_stderrFd = Some slaveFd,
     so_onStdout = None, so_onStderr = None\<rparr>"

definition closeSlave :: "'s KernelEnv \<Rightarrow> pid \<Rightarrow> fdnum \<Rightarrow> ('s, unit) kact" where
  "closeSlave E controllerPid slaveFd K =
     (case entryOf K controllerPid slaveFd of
        None \<Rightarrow> ret () K
      | Some e \<Rightarrow>
          seqA (onTable controllerPid (close_call slaveFd)) (\<lambda>K1.
            case heapOf K1 (ent_desc e) of
              None \<Rightarrow> ret () K1
            | Some d \<Rightarrow> if desc_refCount d \<le> 0 then k_ptyClose E (desc_id d) K1 else ret () K1) K)"

definition openShell ::
  "'s KernelConfig \<Rightarrow> 's KernelEnv \<Rightarrow> OpenShellOptions \<Rightarrow> ('s, pid \<times> pid \<times> nat) kact" where
  "openShell cf E o1 =
     seqA assertNotDisposed
    (andThen (\<lambda>K. case allocatePid K of (controllerPid, K1) \<Rightarrow>
                ret controllerPid (K1\<lparr>k_fds := fm_create controllerPid (k_fds K1)\<rparr>)) (\<lambda>controllerPid.
     andThen (k_createPty controllerPid) (\<lambda>(masterFd, slaveFd, _).
     andThen (\<lambda>K. ret (case entryOf K controllerPid masterFd of None \<Rightarrow> 0 | Some e \<Rightarrow> descIdOf K e) K) (\<lambda>masterDescId.
     andThen (spawnInternal cf E (case os_command o1 of None \<Rightarrow> ''sh'' | Some c \<Rightarrow> c)
                (case os_args o1 of None \<Rightarrow> [] | Some as \<Rightarrow> as) (shellOptions o1 slaveFd) (Some controllerPid)) (\<lambda>pid.
     seqA (setpgid pid pid)
    (seqA (onPty (setForegroundPgid masterDescId pid))
    (seqA (onPty (setSessionLeader masterDescId pid))
    (seqA (closeSlave E controllerPid slaveFd) (ret (pid, controllerPid, masterDescId))))))))))"

definition shellWrite :: "'s KernelEnv \<Rightarrow> nat \<Rightarrow> bytes \<Rightarrow> ('s, unit) kact" where
  "shellWrite E masterDescId data = andThen (k_ptyWrite E masterDescId data) (\<lambda>_. ret ())"

text \<open>One turn of the read pump.\<close>

definition shellPump :: "nat \<Rightarrow> ('s, kreply) kact" where
  "shellPump masterDescId = k_ptyRead masterDescId 4096"

definition shellResize :: "'s KernelEnv \<Rightarrow> nat \<Rightarrow> ('s, unit) kact" where
  "shellResize E masterDescId K =
     (case getForegroundPgid masterDescId (k_ptys K) of
        Inl e \<Rightarrow> throwA (KErr e) K
      | Inr fg \<Rightarrow> if 0 < fg then swallowA (pt_kill E (- fg) SIGWINCH) K else ret () K)"

end
