(* ===== verification/Kernel_Machine.thy ===== *)
theory Kernel_Machine
  imports Kernel_Spawn
begin

section \<open>The kernel: runs\<close>

text \<open>
  The calls of a driver and the steps of the kernel as data. A run is any sequence of steps: calls of drivers
  and hosts, exits reported by drivers, and the turns of whatever was suspended. The calls that belong to a
  process are refused, without any effect, to a driver that does not own it.
\<close>

subsection \<open>Calls of drivers\<close>

datatype file_syscall =
    ScOpen pid path u32 "u32 option"
  | ScRead pid fdnum nat
  | ScWrite pid fdnum bytes
  | ScClose pid fdnum
  | ScSeek pid fdnum int int
  | ScPread pid fdnum nat int
  | ScPwrite pid fdnum bytes int
  | ScFlock pid fdnum u32
  | ScDevFdReadDir pid
  | ScDevFdStat pid fdnum
  | ScChdir pid path
  | ScMkdir pid path "u32 option"

datatype desc_syscall =
    ScDup pid fdnum
  | ScDup2 pid fdnum fdnum
  | ScDupMin pid fdnum nat
  | ScStat pid fdnum
  | ScPoll pid fdnum
  | ScPollWait pid fdnum "int option"
  | ScSetCloexec pid fdnum bool
  | ScGetCloexec pid fdnum
  | ScFcntl pid fdnum int "nat option"
  | ScPipe pid

datatype tty_syscall =
    ScOpenpty pid
  | ScIsatty pid fdnum
  | ScDiscipline pid fdnum LineDisciplineConfig
  | ScForeground pid fdnum pid
  | ScTcgetattr pid fdnum
  | ScTcsetattr pid fdnum TermiosUpdate
  | ScTcsetpgrp pid fdnum pid
  | ScTcgetpgrp pid fdnum

datatype process_syscall =
    ScSpawn string "string list" SpawnOptions "pid option"
  | ScWaitpid pid u32
  | ScKill pid int
  | ScGetpid pid
  | ScGetppid pid
  | ScSetpgid pid pid
  | ScGetpgid pid
  | ScSetsid pid
  | ScGetsid pid
  | ScGetenv pid
  | ScSetenv pid string string
  | ScUnsetenv pid string
  | ScGetcwd pid
  | ScAlarm pid int
  | ScUmask pid "nat option"

datatype syscall = ScFile file_syscall | ScDesc desc_syscall | ScTty tty_syscall | ScProcess process_syscall

fun fileDo :: "'s KernelConfig \<Rightarrow> 's KernelEnv \<Rightarrow> string \<Rightarrow> file_syscall \<Rightarrow> ('s, kreply) kact" where
  "fileDo cf E drv (ScOpen pid p flags mode) = fdOpen cf E drv pid p flags mode"
| "fileDo cf E drv (ScRead pid fd n) = fdRead cf E drv pid fd n"
| "fileDo cf E drv (ScWrite pid fd b) = fdWrite cf E drv pid fd b"
| "fileDo cf E drv (ScClose pid fd) = fdClose cf E drv pid fd"
| "fileDo cf E drv (ScSeek pid fd off whence) = fdSeek cf E drv pid fd off whence"
| "fileDo cf E drv (ScPread pid fd n off) = fdPread cf E drv pid fd n off"
| "fileDo cf E drv (ScPwrite pid fd b off) = fdPwrite cf E drv pid fd b off"
| "fileDo cf E drv (ScFlock pid fd o1) = sys_flock drv pid fd o1"
| "fileDo cf E drv (ScDevFdReadDir pid) = devFdReadDir drv pid"
| "fileDo cf E drv (ScDevFdStat pid fd) = devFdStat cf E drv pid fd"
| "fileDo cf E drv (ScChdir pid p) = chdir cf E drv pid p"
| "fileDo cf E drv (ScMkdir pid p m) = sys_mkdir cf E drv pid p m"

fun descDo :: "'s KernelConfig \<Rightarrow> 's KernelEnv \<Rightarrow> string \<Rightarrow> desc_syscall \<Rightarrow> ('s, kreply) kact" where
  "descDo cf E drv (ScDup pid fd) = fdDup drv pid fd"
| "descDo cf E drv (ScDup2 pid a b) = fdDup2 cf E drv pid a b"
| "descDo cf E drv (ScDupMin pid fd n) = fdDupMin drv pid fd n"
| "descDo cf E drv (ScStat pid fd) = fdStat drv pid fd"
| "descDo cf E drv (ScPoll pid fd) = fdPoll pid fd"
| "descDo cf E drv (ScPollWait pid fd ms) = fdPollWait drv pid fd ms"
| "descDo cf E drv (ScSetCloexec pid fd b) = fdSetCloexec drv pid fd b"
| "descDo cf E drv (ScGetCloexec pid fd) = fdGetCloexec drv pid fd"
| "descDo cf E drv (ScFcntl pid fd cmd arg) = fcntl drv pid fd cmd arg"
| "descDo cf E drv (ScPipe pid) = sys_pipe drv pid"

fun ttyDo :: "'s KernelConfig \<Rightarrow> 's KernelEnv \<Rightarrow> string \<Rightarrow> tty_syscall \<Rightarrow> ('s, kreply) kact" where
  "ttyDo cf E drv (ScOpenpty pid) = sys_openpty drv pid"
| "ttyDo cf E drv (ScIsatty pid fd) = sys_isatty drv pid fd"
| "ttyDo cf E drv (ScDiscipline pid fd c) = ptySetDiscipline drv pid fd c"
| "ttyDo cf E drv (ScForeground pid fd g) = ptySetForegroundPgid drv pid fd g"
| "ttyDo cf E drv (ScTcgetattr pid fd) = tcgetattr drv pid fd"
| "ttyDo cf E drv (ScTcsetattr pid fd u) = tcsetattr drv pid fd u"
| "ttyDo cf E drv (ScTcsetpgrp pid fd g) = tcsetpgrp drv pid fd g"
| "ttyDo cf E drv (ScTcgetpgrp pid fd) = tcgetpgrp drv pid fd"

fun processDo :: "'s KernelConfig \<Rightarrow> 's KernelEnv \<Rightarrow> string \<Rightarrow> process_syscall \<Rightarrow> ('s, kreply) kact" where
  "processDo cf E drv (ScSpawn c as opts ppid) = sys_spawn cf E drv c as opts ppid"
| "processDo cf E drv (ScWaitpid pid o1) = sys_waitpid drv pid o1"
| "processDo cf E drv (ScKill pid g) = sys_kill E drv pid g"
| "processDo cf E drv (ScGetpid pid) = sys_getpid drv pid"
| "processDo cf E drv (ScGetppid pid) = sys_getppid drv pid"
| "processDo cf E drv (ScSetpgid pid g) = sys_setpgid drv pid g"
| "processDo cf E drv (ScGetpgid pid) = sys_getpgid drv pid"
| "processDo cf E drv (ScSetsid pid) = sys_setsid drv pid"
| "processDo cf E drv (ScGetsid pid) = sys_getsid drv pid"
| "processDo cf E drv (ScGetenv pid) = getenv drv pid"
| "processDo cf E drv (ScSetenv pid k v) = setenv drv pid k v"
| "processDo cf E drv (ScUnsetenv pid k) = unsetenv drv pid k"
| "processDo cf E drv (ScGetcwd pid) = getcwd drv pid"
| "processDo cf E drv (ScAlarm pid n) = sys_alarm E drv pid n"
| "processDo cf E drv (ScUmask pid m) = sys_umask drv pid m"

fun sysDo :: "'s KernelConfig \<Rightarrow> 's KernelEnv \<Rightarrow> string \<Rightarrow> syscall \<Rightarrow> ('s, kreply) kact" where
  "sysDo cf E drv (ScFile c) = fileDo cf E drv c"
| "sysDo cf E drv (ScDesc c) = descDo cf E drv c"
| "sysDo cf E drv (ScTty c) = ttyDo cf E drv c"
| "sysDo cf E drv (ScProcess c) = processDo cf E drv c"

subsection \<open>Steps\<close>

datatype kernel_op =
    KoInit
  | KoSys string syscall
  | KoExit pid int
  | KoTurn nat
  | KoPipeResume nat
  | KoLockResume nat
  | KoPollTimer nat nat
  | KoPollDone "nat \<times> nat"
  | KoAlarm pid
  | KoZombie pid
  | KoProc proc_call
  | KoTimer timer_call
  | KoVfs vfs_call
  | KoEmit sink bytes
  | KoSpawn string "string list" SpawnOptions
  | KoExec
  | KoExecShell string SpawnOptions
  | KoShell OpenShellOptions
  | KoShellWrite nat bytes
  | KoShellPump nat
  | KoShellResize nat
  | KoShellDone pid
  | KoMount RuntimeDriver
  | KoMountEnd RuntimeDriver
  | KoMountFs path nat "bool option"
  | KoUnmountFs path
  | KoDispose
  | KoDisposeEscalate "pid list"
  | KoDisposeEnd

definition k_pipeResume :: "'s KernelEnv \<Rightarrow> nat \<Rightarrow> ('s, unit) kact" where
  "k_pipeResume E tok K =
     (case pm_resume tok (k_pipes K) of (evs, m) \<Rightarrow> pipeEvents E evs (K\<lparr>k_pipes := m\<rparr>))"

fun k_do :: "'s KernelConfig \<Rightarrow> 's KernelEnv \<Rightarrow> kernel_op \<Rightarrow> ('s, unit) kact" where
  "k_do cf E KoInit = initPosixDirs cf E"
| "k_do cf E (KoSys drv c) = voidA (sysDo cf E drv c)"
| "k_do cf E (KoExit pid code) = markExited E pid code"
| "k_do cf E (KoTurn tok) = k_turn cf E tok"
| "k_do cf E (KoPipeResume tok) = k_pipeResume E tok"
| "k_do cf E (KoLockResume tok) = modifyA (\<lambda>K. K\<lparr>k_locks := snd (fl_resume tok (k_locks K))\<rparr>)"
| "k_do cf E (KoPollTimer k h) = modifyA (\<lambda>K. K\<lparr>k_pipes := pm_pollTimer k h (k_pipes K)\<rparr>)"
| "k_do cf E (KoPollDone x) = modifyA (\<lambda>K. K\<lparr>k_pipes := pm_pollDone x (k_pipes K)\<rparr>)"
| "k_do cf E (KoAlarm pid) = fireAlarm E pid"
| "k_do cf E (KoZombie pid) = fireZombie E pid"
| "k_do cf E (KoProc c) = proc_do E c"
| "k_do cf E (KoTimer c) = modifyA (\<lambda>K. K\<lparr>k_timers := timer_step c (k_timers K)\<rparr>)"
| "k_do cf E (KoVfs c) = voidA (vfsCall cf E c)"
| "k_do cf E (KoEmit sk b) = k_emit E sk b"
| "k_do cf E (KoSpawn c as opts) = voidA (k_spawn cf E c as opts)"
| "k_do cf E KoExec = assertNotDisposed"
| "k_do cf E (KoExecShell c opts) = voidA (execShell cf E c opts)"
| "k_do cf E (KoShell o1) = voidA (openShell cf E o1)"
| "k_do cf E (KoShellWrite d b) = shellWrite E d b"
| "k_do cf E (KoShellPump d) = voidA (shellPump d)"
| "k_do cf E (KoShellResize d) = shellResize E d"
| "k_do cf E (KoShellDone pid) = cleanupProcessFDs cf E pid"
| "k_do cf E (KoMount d) = mountBegin d"
| "k_do cf E (KoMountEnd d) = mountEnd cf E d"
| "k_do cf E (KoMountFs p fs ro) = mountFs cf E p fs ro"
| "k_do cf E (KoUnmountFs p) = unmountFs p"
| "k_do cf E KoDispose = voidA (disposeBegin E)"
| "k_do cf E (KoDisposeEscalate ps) = terminateEscalate E ps"
| "k_do cf E KoDisposeEnd = disposeEnd"

definition k_step :: "'s KernelConfig \<Rightarrow> nat \<Rightarrow> nat \<Rightarrow> int \<times> kernel_op \<Rightarrow> 's Kernel \<Rightarrow> 's Kernel" where
  "k_step cf fuel d x K =
     (case k_do cf (kernelEnv cf (fst x) fuel d) (snd x) K of None \<Rightarrow> K | Some (_, K1) \<Rightarrow> K1)"

text \<open>The constructor: the root, the devices, the processes, then the mounts of the host.\<close>

definition k_base :: "(nat \<Rightarrow> 's) \<Rightarrow> (string, string) jsmap \<Rightarrow> path option \<Rightarrow> 's Kernel" where
  "k_base states env cwd =
     \<lparr>pt_entries = [], pt_nextPid = 1, pt_waiters = [], pt_nextWaiter = 0, pt_zombies = [], pt_alarms = [], pt_log = [],
      k_mounts = mt_new 0 states, k_fds = fm_new, k_pipes = pm_new True, k_ptys = pty_new, k_locks = fl_new,
      k_registry = cr_new, k_sockets = st_new, k_timers = tt_new None, k_drivers = [], k_driverPids = [],
      k_env = env, k_cwd = (case cwd of None \<Rightarrow> ''/home/user'' | Some d \<Rightarrow> d), k_disposed = False,
      k_outputs = [], k_tasks = [], k_nextTask = 0, k_events = []\<rparr>"

fun mountAll :: "'s KernelConfig \<Rightarrow> int \<Rightarrow> (path \<times> nat \<times> bool option) list \<Rightarrow> 's Kernel \<Rightarrow> 's Kernel res" where
  "mountAll cf now [] K = Inr K"
| "mountAll cf now ((p, fs, ro) # ms) K =
     (case mt_mount (kernelObjs cf now K) p fs ro (k_mounts K) of
        Inl e \<Rightarrow> Inl e | Inr mt \<Rightarrow> mountAll cf now ms (K\<lparr>k_mounts := mt\<rparr>))"

definition createKernel ::
  "'s KernelConfig \<Rightarrow> int \<Rightarrow> (nat \<Rightarrow> 's) \<Rightarrow> (string, string) jsmap \<Rightarrow> path option \<Rightarrow> (path \<times> nat \<times> bool option) list
   \<Rightarrow> 's Kernel res" where
  "createKernel cf now states env cwd mounts =
     mountAll cf now ([(''/dev'', 1, None), (''/proc'', 2, None)] @ mounts) (k_base states env cwd)"

subsection \<open>Isolation of drivers\<close>

fun filePid :: "file_syscall \<Rightarrow> pid option" where
  "filePid (ScOpen pid _ _ _) = Some pid"
| "filePid (ScRead pid _ _) = Some pid"
| "filePid (ScWrite pid _ _) = Some pid"
| "filePid (ScClose pid _) = Some pid"
| "filePid (ScSeek pid _ _ _) = Some pid"
| "filePid (ScPread pid _ _ _) = Some pid"
| "filePid (ScPwrite pid _ _ _) = Some pid"
| "filePid (ScFlock pid _ _) = Some pid"
| "filePid (ScDevFdReadDir pid) = Some pid"
| "filePid (ScDevFdStat pid _) = Some pid"
| "filePid (ScChdir pid _) = Some pid"
| "filePid (ScMkdir pid _ _) = Some pid"

fun descPid :: "desc_syscall \<Rightarrow> pid option" where
  "descPid (ScDup pid _) = Some pid"
| "descPid (ScDup2 pid _ _) = Some pid"
| "descPid (ScDupMin pid _ _) = Some pid"
| "descPid (ScStat pid _) = Some pid"
| "descPid (ScPoll pid _) = Some pid"
| "descPid (ScPollWait pid _ _) = Some pid"
| "descPid (ScSetCloexec pid _ _) = Some pid"
| "descPid (ScGetCloexec pid _) = Some pid"
| "descPid (ScFcntl pid _ _ _) = Some pid"
| "descPid (ScPipe pid) = Some pid"

fun ttyPid :: "tty_syscall \<Rightarrow> pid option" where
  "ttyPid (ScOpenpty pid) = Some pid"
| "ttyPid (ScIsatty pid _) = Some pid"
| "ttyPid (ScDiscipline pid _ _) = Some pid"
| "ttyPid (ScForeground pid _ _) = Some pid"
| "ttyPid (ScTcgetattr pid _) = Some pid"
| "ttyPid (ScTcsetattr pid _ _) = Some pid"
| "ttyPid (ScTcsetpgrp pid _ _) = Some pid"
| "ttyPid (ScTcgetpgrp pid _) = Some pid"

fun processPid :: "process_syscall \<Rightarrow> pid option" where
  "processPid (ScSpawn _ _ _ ppid) = (if ppid = Some 0 then None else ppid)"
| "processPid (ScWaitpid pid _) = Some pid"
| "processPid (ScKill pid _) = (if pid < 0 then None else Some pid)"
| "processPid (ScGetpid pid) = Some pid"
| "processPid (ScGetppid pid) = Some pid"
| "processPid (ScSetpgid pid _) = Some pid"
| "processPid (ScGetpgid pid) = Some pid"
| "processPid (ScSetsid pid) = Some pid"
| "processPid (ScGetsid pid) = Some pid"
| "processPid (ScGetenv pid) = Some pid"
| "processPid (ScSetenv pid _ _) = Some pid"
| "processPid (ScUnsetenv pid _) = Some pid"
| "processPid (ScGetcwd pid) = Some pid"
| "processPid (ScAlarm pid _) = Some pid"
| "processPid (ScUmask pid _) = Some pid"

fun actingPid :: "syscall \<Rightarrow> pid option" where
  "actingPid (ScFile c) = filePid c"
| "actingPid (ScDesc c) = descPid c"
| "actingPid (ScTty c) = ttyPid c"
| "actingPid (ScProcess c) = processPid c"

definition driverOwns :: "'s Kernel \<Rightarrow> string \<Rightarrow> pid \<Rightarrow> bool" where
  "driverOwns K drv pid \<longleftrightarrow> (\<exists>ps. mget (k_driverPids K) drv = Some ps \<and> pid \<in> set ps)"

definition ownedBySome :: "'s Kernel \<Rightarrow> pid \<Rightarrow> bool" where
  "ownedBySome K pid \<longleftrightarrow> (\<exists>(_, ps) \<in> set (k_driverPids K). pid \<in> set ps)"

lemma assertOwns_refuses:
  assumes "\<not> driverOwns K drv pid"
  shows "assertOwns drv pid K = Some (Inl (KErr (if ownedBySome K pid then EPERM else ESRCH)), K)"
  using assms by (auto simp: assertOwns_def driverOwns_def ownedBySome_def list_ex_iff split: option.splits)

lemma unowned_refused:
  "\<not> driverOwns K drv pid \<Longrightarrow>
    seqA (assertOwns drv pid) n K = Some (Inl (KErr (if ownedBySome K pid then EPERM else ESRCH)), K)"
  by (simp add: assertOwns_refuses seqA_def andThen_def)

lemmas guarded_calls = withFd_def withProcess_def fdOpen_def fdRead_def fdWrite_def fdClose_def fdSeek_def fdPread_def
  fdPwrite_def fdDup_def fdDup2_def fdDupMin_def fdStat_def fdPollWait_def fdSetCloexec_def fdGetCloexec_def fcntl_def
  sys_flock_def sys_spawn_def sys_waitpid_def sys_kill_def sys_getpid_def sys_getppid_def sys_setpgid_def
  sys_getpgid_def sys_setsid_def sys_getsid_def sys_pipe_def sys_openpty_def sys_isatty_def ptySetDiscipline_def
  ptySetForegroundPgid_def tcgetattr_def tcsetattr_def tcsetpgrp_def tcgetpgrp_def devFdReadDir_def devFdStat_def
  getenv_def setenv_def unsetenv_def getcwd_def chdir_def sys_alarm_def sys_umask_def sys_mkdir_def

lemma fdPoll_observes: "\<exists>r. fdPoll pid fd K = Some (Inr r, K)"
  by (simp add: fdPoll_def ret_def)

text \<open>
  C18. A driver cannot act on a process it does not own through the calls of the kernel interface: every
  call that names such a process answers \<^const>\<open>EPERM\<close>, or \<^const>\<open>ESRCH\<close> when no driver owns it, and
  leaves the whole kernel as it was; who owns what is all the answer depends on. One call answers
  nonetheless, \<^verbatim>\<open>fdPoll\<close>, which has no ownership check: it reports the readiness of the descriptor and leaves
  the kernel as it was too. A signal to a group (a negative number) and a spawn without parent name no
  process and are not refused. The interface also hands its driver the process, timer and socket
  tables themselves (\<^verbatim>\<open>processTable\<close>, \<^verbatim>\<open>timerTable\<close>, \<^verbatim>\<open>socketTable\<close>): calls on them are no calls of the
  interface, nothing checks them, and the theorem says nothing about them (in a run of the kernel they are the
  steps \<open>KoProc\<close> and \<open>KoTimer\<close>; the socket table has runs of its own).
\<close>

theorem driver_isolation:
  assumes "actingPid c = Some pid" "\<not> driverOwns K drv pid"
  shows "\<exists>r. sysDo cf E drv c K = Some (r, K) \<and>
    (r = Inl (KErr (if ownedBySome K pid then EPERM else ESRCH)) \<or> (\<exists>fd. c = ScDesc (ScPoll pid fd)))"
proof (cases c)
  case (ScFile x) then show ?thesis using assms by (cases x) (auto simp: guarded_calls unowned_refused)
next
  case (ScDesc x)
  then show ?thesis using assms fdPoll_observes [of pid _ K] by (cases x) (auto simp: guarded_calls unowned_refused)
next
  case (ScTty x) then show ?thesis using assms by (cases x) (auto simp: guarded_calls unowned_refused)
next
  case (ScProcess x)
  then show ?thesis using assms by (cases x) (auto simp: guarded_calls unowned_refused split: if_splits)
qed

definition isolation_example :: "unit Kernel" where
  "isolation_example = (k_base (\<lambda>_. ()) [] None)\<lparr>k_driverPids := [(''node'', [1]), (''wasmvm'', [2])]\<rparr>"

definition example_config :: "unit KernelConfig" where
  "example_config = \<lparr>kc_objs = (\<lambda>_. \<lparr>vo_call = (\<lambda>c s. (Inr RUnit, s)), vo_has = (\<lambda>_. True)\<rparr>), kc_random = (\<lambda>n. replicate n 0),
     kc_permissions = None, kc_maxProcesses = None, kc_hostname = None, kc_tryResolve = (\<lambda>_ _. False),
     kc_script = silent, kc_spawn = (\<lambda>_. [])\<rparr>"

theorem driver_isolation_witness:
  "sysDo example_config (kernelEnv example_config 0 5 2) ''wasmvm'' (ScFile (ScWrite 1 1 [65])) isolation_example
     = Some (Inl (KErr EPERM), isolation_example) \<and>
   sysDo example_config (kernelEnv example_config 0 5 2) ''wasmvm'' (ScDesc (ScPipe 3)) isolation_example
     = Some (Inl (KErr ESRCH), isolation_example)"
  using driver_isolation [of "ScFile (ScWrite 1 1 [65])" 1 isolation_example "''wasmvm''"]
    driver_isolation [of "ScDesc (ScPipe 3)" 3 isolation_example "''wasmvm''"]
  by (simp add: isolation_example_def driverOwns_def ownedBySome_def)

end
