(* ===== verification/Spec2Isabelle.thy ===== *)
theory Spec2Isabelle
  imports Wstatus FD_Table Wait_Queue Pipe_Manager File_Lock Timer_Table Dns_Cache Permissions Mount_Table Command_Registry Process_Table Pty Chunked_Paths Ipc_Client Socket_Props Proc_Layer Kernel_Machine
begin

section \<open>The secure-exec kernel\<close>

text \<open>
  \<^bold>\<open>The program.\<close> secure-exec runs untrusted programs (JavaScript in isolates, WebAssembly, Python) on
  top of an in-process POSIX-like kernel written in TypeScript, \<^verbatim>\<open>src/packages/core/src/kernel\<close>. The
  kernel keeps a process table, per-process descriptor tables over shared file descriptions, pipes,
  pseudo-terminals, advisory locks, timers, a mount table that routes paths to file systems and a
  permission layer around them; a facade owns these parts and offers them to drivers and hosts. The
  runtimes reach it through drivers and bridges, which are not modelled: they translate calls.

  \<^bold>\<open>Theories and sources.\<close> Each theory models one file of the kernel, its state as a record and each of
  its methods as a definition with the method's name, prefixed where the name clashes.

  \<^descr> \<^verbatim>\<open>Kernel_Prelude\<close>: base types, error codes (\<^verbatim>\<open>types.ts\<close>), JavaScript maps as association lists,
  and the contracts several components share as locales: chunked buffers, runs that keep an
  invariant, identifier allocators.
  \<^descr> \<^verbatim>\<open>Kernel_Effect\<close>: synchronous code that throws, calls back and may not return.
  \<^descr> \<^verbatim>\<open>Wstatus\<close>: \<^verbatim>\<open>wstatus.ts\<close>, on 32-bit words.
  \<^descr> \<^verbatim>\<open>FD_Table\<close>: \<^verbatim>\<open>fd-table.ts\<close>; descriptions live in a heap and are shared by reference.
  \<^descr> \<^verbatim>\<open>Wait_Queue\<close>: \<^verbatim>\<open>wait.ts\<close>; handles live in a store, timers fire as steps.
  \<^descr> \<^verbatim>\<open>Pipe_Manager\<close>: \<^verbatim>\<open>pipe-manager.ts\<close>; promises are numbers, suspended writers are kept.
  \<^descr> \<^verbatim>\<open>File_Lock\<close>: \<^verbatim>\<open>file-lock.ts\<close>; suspended lockers resume as steps of the schedule.
  \<^descr> \<^verbatim>\<open>Timer_Table\<close>, \<^verbatim>\<open>Dns_Cache\<close>, \<^verbatim>\<open>Command_Registry\<close>: the files of these names and \<^verbatim>\<open>user.ts\<close>.
  \<^descr> \<^verbatim>\<open>Js_Path\<close>, \<^verbatim>\<open>Vfs_Interface\<close>: path normalisation and the file system interface \<^verbatim>\<open>vfs.ts\<close>, whose
  implementations are parameters.
  \<^descr> \<^verbatim>\<open>Permissions\<close>: \<^verbatim>\<open>permissions.ts\<close>; policies are parameters.
  \<^descr> \<^verbatim>\<open>Mount_Table\<close>: \<^verbatim>\<open>mount-table.ts\<close> over arbitrary file systems.
  \<^descr> \<^verbatim>\<open>Process_Table\<close>: \<^verbatim>\<open>process-table.ts\<close>; signal handlers, drivers and exit hooks are parameters that
  may re-enter the table.
  \<^descr> \<^verbatim>\<open>Pty\<close>: \<^verbatim>\<open>pty.ts\<close>; the signal hook is a parameter.
  \<^descr> \<^verbatim>\<open>Memory_Metadata\<close>, \<^verbatim>\<open>Block_Store\<close>: the in-memory stores of \<^verbatim>\<open>src/packages/core/src/vfs\<close>; arrays live
  in a heap, because readers and writers share them.
  \<^descr> \<^verbatim>\<open>Chunked_VFS\<close>: every method of \<^verbatim>\<open>chunked-vfs.ts\<close> over these stores. \<^verbatim>\<open>Chunked_Content\<close> proves who owns
  which array and what the chunk loops write, \<^verbatim>\<open>Chunked_Refine\<close> refines input and output to byte arrays,
  \<^verbatim>\<open>Chunked_Ops\<close> shows that the other operations keep the invariant, \<^verbatim>\<open>Chunked_Paths\<close> what they do to paths.
  \<^descr> \<^verbatim>\<open>Js_Buffer\<close>: what the protocol uses of Node buffers, UTF-8 included. \<^verbatim>\<open>Ipc_Binary\<close>: the frames of
  \<^verbatim>\<open>src/packages/v8/src/ipc-binary.ts\<close>. \<^verbatim>\<open>Ipc_Client\<close>: the buffered client \<^verbatim>\<open>ipc-client.ts\<close>, its message
  callback a parameter.
  \<^descr> \<^verbatim>\<open>Socket_Table\<close>: \<^verbatim>\<open>socket-table.ts\<close>; each await is a task that a host reply, a wake-up or a signal
  resumes. \<^verbatim>\<open>Socket_Invariant\<close> proves what holds in every interleaving, \<^verbatim>\<open>Socket_Props\<close> what callers rely on.
  \<^descr> \<^verbatim>\<open>Device_Backend\<close>: \<^verbatim>\<open>device-backend.ts\<close>, mounted at \<^verbatim>\<open>/dev\<close>, and the older \<^verbatim>\<open>device-layer.ts\<close>.
  \<^descr> \<^verbatim>\<open>Proc_Backend\<close>, \<^verbatim>\<open>Proc_Layer\<close>: \<^verbatim>\<open>proc-backend.ts\<close>, mounted at \<^verbatim>\<open>/proc\<close>, the older \<^verbatim>\<open>proc-layer.ts\<close> and
  the file system a process sees; both read the process and descriptor tables.
  \<^descr> \<^verbatim>\<open>Kernel_State\<close>, \<^verbatim>\<open>Kernel_Calls\<close>, \<^verbatim>\<open>Kernel_Spawn\<close>, \<^verbatim>\<open>Kernel_Machine\<close>: \<^verbatim>\<open>kernel.ts\<close>, which owns all of these tables:
  exit and reap hooks, the calls of drivers, spawning and shells, the steps of a run. Its state extends the
  process table, so that the hooks run inside the process table's operations.
  \<^bold>\<open>What the theorems show.\<close> Descriptors: reference counts equal the descriptors that point at a
  description, numbers are never reused, \<^verbatim>\<open>dup2\<close> and \<^verbatim>\<open>fork\<close> share descriptions. Wait queues
  refine a list of waiters in order of arrival with the outcome of each. Pipes and terminals are bounded FIFO byte streams in
  every interleaving; the terminal's line editing and output translation equal their references.
  Locks exclude each other when woken waiters run before new requests, and a schedule without that
  breaks exclusion. A process is refused a timer exactly at its limit and its timers are its own, whatever
  limits are set when. The mount table picks the longest prefix and lets no write through a read-only
  mount. The permission layer is compared with an independent account of what each call does to its
  paths: what the policy denies does not reach the backend, but for the old path of a hard link and an
  open that neither creates nor truncates. The process table keeps its invariant under callbacks that
  re-enter it to any depth, tells no waiter twice, and keeps exits final however the callbacks end; a
  group kill reaches exactly the live members, for drivers that report the exit at once or later,
  while no process has a SIGCHLD handler of its own. Its statuses decode. That pending signals are
  delivered in order when the mask changes is shown for callbacks that do not call the table.
  Files of the chunked file system behave as byte arrays in every run, whatever the chunk size, inline
  threshold, write buffering and versioning; what is written is read back; renaming and removing touch
  nothing else; resolution follows the walk with at most forty links; pruning a file's versions deletes
  no block that is still in use. The invariant needs two conditions: the source of a copy is flushed, and a
  version is restored while its blocks are as recorded; runs show that neither a version nor the write
  buffer is safe without them (\<open>restore_after_collision\<close>, \<open>failed_restore_drops_writes\<close>,
  \<open>version_corrupted_by_pwrite\<close>).
  Frames of the binary protocol decode to what was encoded; the client's receive buffer is a stream
  parser for every chunking, so frames are delivered once and in order.
  Sockets deliver every byte in order in every interleaving, closing ends, every request to the host
  network was allowed by the policy, loopback connections are linked symmetrically and accepted in order.
  The device and proc layers, with their own copies of the helpers, answer as the backends that replace them,
  on the calls and paths the theorems list; they differ on \<^verbatim>\<open>/proc/self\<close> and \<^verbatim>\<open>/proc/mounts\<close>, on following a link, on
  the standard streams and on making entries at device paths. What a directory of \<^verbatim>\<open>/proc\<close> lists answers by its
  kind, what answers is listed up to the spelling of numbers, and nothing below \<^verbatim>\<open>/proc\<close> can be changed.
  A driver changes nothing by a call of the kernel interface that names a process it does not own, and learns
  nothing but the readiness that \<^verbatim>\<open>fdPoll\<close> reports; signals to groups, and the process, timer and socket tables
  the interface hands out, are not guarded.
  \<^bold>\<open>Runs.\<close> Each stateful component has a datatype of its calls and a step function; \<open>run_ops\<close> performs a
  list of calls, and invariants are lifted to runs by the locale \<open>invariant_component\<close>. Where code
  awaits, the part after the await is a step of its own, so that a run is any interleaving.

  \<^bold>\<open>Fuel.\<close> The fuel of the process table, \<open>env_fuel\<close>, bounds the nesting of signal dispatch and the
  steps of a loop over the live map. A fuel as large as the number of pending signals (and larger than
  the number of entries) is enough when callbacks do not touch the table, which \<open>dispatch_returns\<close> and
  the locale \<open>kill_contract\<close> prove; a callback that keeps signalling itself really does not return.
  The depth of \<open>kernelEnv\<close> bounds how deep hooks, drivers and handlers nest; theorems over it hold for every
  depth and fuel. The depth of \<open>layer_getProcStat\<close> is that of the call stack; \<open>layer_stat_terminates\<close> bounds it for links
  that leave \<^verbatim>\<open>/proc\<close>.

  \<^bold>\<open>Not modelled.\<close> Logging; message texts of errors; wall-clock time beyond the values passed in; the
  host adapters, the drivers, the isolate bridge and the runtimes, which call this kernel; generated
  and vendored code.
\<close>

end
